(* ===== verification/OS6_Prelude.thy ===== *)
theory OS6_Prelude
  imports Main "HOL-Library.Word" "HOL-Library.Monad_Syntax"
begin

text \<open>
  Shared vocabulary of the OS6 development.

  \<^item> Machine integers are words of their C width: \<open>u8\<close>, \<open>u16\<close>, \<open>u32\<close>, \<open>u64\<close>.
  \<^item> A C operation that may have undefined behaviour (a null dereference, an access outside an
    array, a failed \<open>ASSERT\<close>) or that never returns is a function into \<open>option\<close>; \<open>None\<close> is
    that outcome. Error codes that the code returns are ordinary values.
  \<^item> \<open>idx\<close> and \<open>upd\<close> are the checked array read and write, \<open>mem_move\<close> is \<open>memmove\<close> on the
    elements of one array.
  \<^item> \<open>int_shl1\<close> is \<open>(uint64_t)(1 << n)\<close> with an \<open>int\<close> one, as the x86-64 target computes it:
    the shift count is taken modulo 32, the 32-bit result is sign-extended. For \<open>n < 31\<close> this is
    the value the C standard prescribes; for larger counts the standard prescribes none.
  \<^item> \<open>align_up\<close> is the helper that phys_mem.c, kheap.c and virt_mem.c each define.
\<close>

unbundle bit_operations_syntax

type_synonym u8 = "8 word"
type_synonym u16 = "16 word"
type_synonym u32 = "32 word"
type_synonym u64 = "64 word"

named_theorems os6_loop "unfolding equations of loops, used one step at a time"

subsection \<open>Checked array access\<close>

definition idx :: "'a list \<Rightarrow> nat \<Rightarrow> 'a option" where
  "idx xs i = (if i < length xs then Some (xs ! i) else None)"

definition upd :: "'a list \<Rightarrow> nat \<Rightarrow> 'a \<Rightarrow> 'a list option" where
  "upd xs i v = (if i < length xs then Some (xs[i := v]) else None)"

lemma idx_in [simp]: "i < length xs \<Longrightarrow> idx xs i = Some (xs ! i)"
  by (simp add: idx_def)

lemma idx_eq_Some_iff: "idx xs i = Some v \<longleftrightarrow> i < length xs \<and> xs ! i = v"
  by (auto simp: idx_def)

lemma idx_eq_None_iff [simp]: "idx xs i = None \<longleftrightarrow> length xs \<le> i"
  by (simp add: idx_def not_less)

lemma upd_in [simp]: "i < length xs \<Longrightarrow> upd xs i v = Some (xs[i := v])"
  by (simp add: upd_def)

lemma upd_eq_Some_iff: "upd xs i v = Some ys \<longleftrightarrow> i < length xs \<and> ys = xs[i := v]"
  by (auto simp: upd_def)

lemma upd_eq_None_iff [simp]: "upd xs i v = None \<longleftrightarrow> length xs \<le> i"
  by (simp add: upd_def not_less)

definition mem_move :: "'a list \<Rightarrow> nat \<Rightarrow> nat \<Rightarrow> nat \<Rightarrow> 'a list option" where
  "mem_move xs d s n =
     (if d + n \<le> length xs \<and> s + n \<le> length xs
      then Some (take d xs @ take n (drop s xs) @ drop (d + n) xs) else None)"

lemma mem_move_length: "mem_move xs d s n = Some ys \<Longrightarrow> length ys = length xs"
  by (auto simp: mem_move_def min_def split: if_splits)

lemma mem_move_nth:
  assumes "mem_move xs d s n = Some ys" and "j < length xs"
  shows "ys ! j = (if d \<le> j \<and> j < d + n then xs ! (s + (j - d)) else xs ! j)"
proof -
  from assms have b: "d + n \<le> length xs" "s + n \<le> length xs"
    and ys: "ys = take d xs @ take n (drop s xs) @ drop (d + n) xs"
    by (auto simp: mem_move_def split: if_splits)
  have l: "length (take d xs) = d" "length (take n (drop s xs)) = n" using b by auto
  consider "j < d" | "d \<le> j" "j < d + n" | "d + n \<le> j" by linarith
  then show ?thesis
  proof cases
    case 3
    then have "ys ! j = drop (d + n) xs ! (j - d - n)"
      using l by (simp add: ys nth_append)
    then show ?thesis using 3 b by simp
  next
    case 2
    then have "j - d < n" by linarith
    then show ?thesis using 2 b l by (simp add: ys nth_append)
  qed (use b l in \<open>simp add: ys nth_append\<close>)
qed

subsection \<open>Bytes of a buffer\<close>

text \<open>\<open>memcpy\<close> of \<open>bs\<close> to byte \<open>off\<close> of an array of bytes.\<close>

definition put_bytes :: "u8 list \<Rightarrow> nat \<Rightarrow> u8 list \<Rightarrow> u8 list option" where
  "put_bytes m off bs =
     (if off + length bs \<le> length m then Some (take off m @ bs @ drop (off + length bs) m) else None)"

text \<open>A read of the first \<open>n\<close> bytes of an array.\<close>

definition get_bytes :: "u8 list \<Rightarrow> nat \<Rightarrow> u8 list option" where
  "get_bytes m n = (if n \<le> length m then Some (take n m) else None)"

lemma put_bytes_length: "put_bytes m off bs = Some m' \<Longrightarrow> length m' = length m"
  by (auto simp: put_bytes_def split: if_splits)

text \<open>\<open>n\<close> bytes from byte \<open>off\<close> of an array on.\<close>

definition slice_bytes :: "u8 list \<Rightarrow> nat \<Rightarrow> nat \<Rightarrow> u8 list option" where
  "slice_bytes m off n = (if off + n \<le> length m then Some (take n (drop off m)) else None)"

text \<open>Replacing and reading a range of bytes that lies inside.\<close>

definition patch :: "'a list \<Rightarrow> nat \<Rightarrow> 'a list \<Rightarrow> 'a list" where
  "patch m off bs = take off m @ bs @ drop (off + length bs) m"

definition range_of :: "'a list \<Rightarrow> nat \<Rightarrow> nat \<Rightarrow> 'a list" where
  "range_of m off n = take n (drop off m)"

lemma put_bytes_in: "off + length bs \<le> length m \<Longrightarrow> put_bytes m off bs = Some (patch m off bs)"
  by (simp add: put_bytes_def patch_def)

lemma put_bytes_eq_Some_iff: "put_bytes m off bs = Some m' \<longleftrightarrow> off + length bs \<le> length m \<and> m' = patch m off bs"
  by (auto simp: put_bytes_def patch_def)

lemma slice_bytes_in: "off + n \<le> length m \<Longrightarrow> slice_bytes m off n = Some (range_of m off n)"
  by (simp add: slice_bytes_def range_of_def)

lemma slice_bytes_eq_Some_iff: "slice_bytes m off n = Some bs \<longleftrightarrow> off + n \<le> length m \<and> bs = range_of m off n"
  by (auto simp: slice_bytes_def range_of_def)

lemma length_patch [simp]: "off + length bs \<le> length m \<Longrightarrow> length (patch m off bs) = length m"
  by (simp add: patch_def)

lemma length_range_of [simp]: "off + n \<le> length m \<Longrightarrow> length (range_of m off n) = n"
  by (simp add: range_of_def)

lemma patch_Nil [simp]: "patch m off [] = m"
  by (simp add: patch_def)

lemma nth_patch:
  "off + length bs \<le> length m \<Longrightarrow> i < length m \<Longrightarrow>
   patch m off bs ! i = (if off \<le> i \<and> i < off + length bs then bs ! (i - off) else m ! i)"
  by (auto simp: patch_def nth_append)

lemma nth_range_of: "off + n \<le> length m \<Longrightarrow> i < n \<Longrightarrow> range_of m off n ! i = m ! (off + i)"
  by (simp add: range_of_def)

lemma patch_patch:
  "off + length a + length b \<le> length m \<Longrightarrow> patch (patch m off a) (off + length a) b = patch m off (a @ b)"
  by (rule nth_equalityI) (auto simp: nth_patch nth_append)

lemma patch_same_length: "length a = length b \<Longrightarrow> off + length a \<le> length m \<Longrightarrow> patch (patch m off a) off b = patch m off b"
  by (rule nth_equalityI) (auto simp: nth_patch)

lemma range_of_add: "range_of m off (a + b) = range_of m off a @ range_of m (off + a) b"
  by (simp add: range_of_def take_add drop_drop add.commute)

lemma range_of_range_of: "i + k \<le> n \<Longrightarrow> range_of (range_of m off n) i k = range_of m (off + i) k"
  by (simp add: range_of_def drop_take min_def add.commute)

lemma range_of_all [simp]: "length m = n \<Longrightarrow> range_of m 0 n = m"
  by (simp add: range_of_def)

lemma range_of_patch_same [simp]: "off + length bs \<le> length m \<Longrightarrow> range_of (patch m off bs) off (length bs) = bs"
  by (simp add: range_of_def patch_def)

lemma range_of_patch_other:
  assumes "off + length bs \<le> length m" and "i + n \<le> off \<or> off + length bs \<le> i" and "i + n \<le> length m"
  shows "range_of (patch m off bs) i n = range_of m i n"
  using assms by (intro nth_equalityI) (auto simp: nth_patch nth_range_of)

lemma patch_range_of: "off + n \<le> length m \<Longrightarrow> patch m off (range_of m off n) = m"
  by (rule nth_equalityI) (auto simp: nth_patch nth_range_of)

subsection \<open>Sizes\<close>

lemma unat_of_nat_64: "n < 2 ^ 64 \<Longrightarrow> unat (of_nat n :: u64) = n"
  by (simp add: unsigned_of_nat take_bit_nat_eq_self)

subsection \<open>Counting loops\<close>

text \<open>A \<open>for\<close> loop over the elements of a list, with a body that may be undefined.\<close>

fun for_each :: "('a \<Rightarrow> 's \<Rightarrow> 's option) \<Rightarrow> 'a list \<Rightarrow> 's \<Rightarrow> 's option" where
  "for_each body [] s = Some s"
| "for_each body (x # xs) s = do { s' \<leftarrow> body x s; for_each body xs s' }"

lemma for_each_append:
  "for_each body (xs @ ys) s = do { s' \<leftarrow> for_each body xs s; for_each body ys s' }"
  by (induction xs arbitrary: s) (auto split: Option.bind_splits)

lemma for_each_invariant:
  assumes "P s" and "\<And>x s. x \<in> set xs \<Longrightarrow> P s \<Longrightarrow> \<exists>s'. body x s = Some s' \<and> P s'"
  shows "\<exists>s'. for_each body xs s = Some s' \<and> P s'"
  using assms by (induction xs arbitrary: s) fastforce+

subsection \<open>Shifting an int one\<close>

definition int_shl1 :: "nat \<Rightarrow> u64" where
  "int_shl1 n = scast (push_bit (n mod 32) (1 :: u32))"

lemma bit_int_shl1:
  "bit (int_shl1 n) k \<longleftrightarrow> k < 64 \<and> (if n mod 32 < 31 then k = n mod 32 else 31 \<le> k)"
proof -
  have "n mod 32 \<le> 31"
    by (simp add: le_less_trans less_Suc_eq_le [symmetric])
  then show ?thesis
    by (auto simp: int_shl1_def bit_simps min_def)
qed

lemma int_shl1_small: "n < 31 \<Longrightarrow> int_shl1 n = push_bit n 1"
  by (rule bit_word_eqI) (auto simp: bit_int_shl1 bit_simps)

lemma int_shl1_mod: "int_shl1 (n mod 32) = int_shl1 n"
  by (simp add: int_shl1_def)

subsection \<open>Alignment\<close>

definition align_up :: "u64 \<Rightarrow> u64 \<Rightarrow> u64" where
  "align_up val align =
     (if align = 0 then val
      else let a = align - 1 in (val + a) AND NOT a)"

lemma align_up_0 [simp]: "align_up v 0 = v"
  by (simp add: align_up_def)

lemma and_not_mask_mult:
  fixes x :: "'a::len word"
  assumes "k \<le> LENGTH('a)"
  shows "unat (x AND NOT (mask k)) = unat x div 2 ^ k * 2 ^ k"
proof -
  have "x AND NOT (mask k) = push_bit k (drop_bit k x)"
    by (rule bit_word_eqI) (auto simp: bit_simps)
  moreover have "take_bit LENGTH('a) (unat x) = unat x"
    by (simp add: take_bit_nat_eq_self)
  ultimately have "unat (x AND NOT (mask k)) = take_bit LENGTH('a) (push_bit k (drop_bit k (unat x)))"
    by (simp add: unsigned_push_bit_eq unsigned_drop_bit_eq)
  also have "\<dots> = push_bit k (drop_bit k (unat x))"
  proof -
    have "unat x div 2 ^ k * 2 ^ k \<le> unat x" by simp
    also have "\<dots> < 2 ^ LENGTH('a)" by (rule unsigned_less)
    finally show ?thesis
      by (simp add: take_bit_nat_eq_self push_bit_eq_mult drop_bit_eq_div)
  qed
  finally show ?thesis by (simp add: push_bit_eq_mult drop_bit_eq_div)
qed

lemma align_up_pow2:
  assumes k: "k < 64" and fits: "unat v + 2 ^ k \<le> 2 ^ 64"
  shows "unat (align_up v (2 ^ k)) = (unat v + (2 ^ k - 1)) div 2 ^ k * 2 ^ k"
proof -
  have nz: "(2::u64) ^ k \<noteq> 0" using k by (simp add: exp_eq_zero_iff)
  have m: "(2::u64) ^ k - 1 = mask k" by (simp add: mask_eq_exp_minus_1)
  have um: "unat (mask k :: u64) = 2 ^ k - 1"
  proof -
    have "unat (mask k :: u64) = mask k"
      using k by (intro bit_eqI) (auto simp: bit_simps)
    then show ?thesis by (simp add: mask_eq_exp_minus_1)
  qed
  have s: "unat (v + mask k) = unat v + (2 ^ k - 1)"
    using fits by (subst unat_plus_simple [THEN iffD1]) (auto simp: um no_olen_add_nat)
  show ?thesis
    using k by (simp add: align_up_def Let_def nz m and_not_mask_mult s)
qed

end
