(* ===== verification/Mm_Bitmap.thy ===== *)
theory Mm_Bitmap
  imports OS6_Prelude
begin

text \<open>
  The bitmap of kernel/src/mm/mm_bitmap.c: one bit per physical frame, in 64-bit words.

  The bitmap pointer is \<open>None\<close> when it is NULL (the code logs and returns); \<open>None\<close> as the result
  of an operation is an access outside the array. The code shifts an \<open>int\<close> one by
  \<open>bit % 64\<close>, which is \<open>int_shl1\<close> of the prelude. The lemmas show what that makes of the
  bitmap: it represents exactly the set of marked \<^emph>\<open>slots\<close>, where a frame's slot is its word and
  its bit number modulo 32, so that frames 32 apart in one word share a slot
  (\<open>mm_bitmap_refines_slot_set\<close>). The searches are correct for that reading.
\<close>

unbundle bit_operations_syntax

type_synonym mm_bitmap = "u64 list option"

subsection \<open>The operations\<close>

definition mm_bitmap_set :: "mm_bitmap \<Rightarrow> u64 \<Rightarrow> mm_bitmap option" where
  "mm_bitmap_set bitmap b =
     (case bitmap of
        None \<Rightarrow> Some None
      | Some bm \<Rightarrow> do {
          w \<leftarrow> idx bm (unat (b div 64));
          bm' \<leftarrow> upd bm (unat (b div 64)) (w OR int_shl1 (unat (b mod 64)));
          Some (Some bm')
        })"

definition mm_bitmap_clear :: "mm_bitmap \<Rightarrow> u64 \<Rightarrow> mm_bitmap option" where
  "mm_bitmap_clear bitmap b =
     (case bitmap of
        None \<Rightarrow> Some None
      | Some bm \<Rightarrow> do {
          w \<leftarrow> idx bm (unat (b div 64));
          bm' \<leftarrow> upd bm (unat (b div 64)) (w AND NOT (int_shl1 (unat (b mod 64))));
          Some (Some bm')
        })"

definition mm_bitmap_test :: "mm_bitmap \<Rightarrow> u64 \<Rightarrow> u64 option" where
  "mm_bitmap_test bitmap b =
     (case bitmap of
        None \<Rightarrow> Some 0
      | Some bm \<Rightarrow> do {
          w \<leftarrow> idx bm (unat (b div 64));
          Some (w AND int_shl1 (unat (b mod 64)))
        })"

text \<open>The scan of one word: the first bit number below 64 whose test reads zero.\<close>

definition first_clear_bit :: "u64 \<Rightarrow> nat option" where
  "first_clear_bit w = List.find (\<lambda>b. w AND int_shl1 b = 0) [0..<64]"

text \<open>The scan of the words: \<open>n\<close> words are left, from word \<open>entry\<close> on.\<close>

fun first_free_from :: "u64 list \<Rightarrow> nat \<Rightarrow> nat \<Rightarrow> u64 option" where
  "first_free_from bm entry 0 = Some (-1)"
| "first_free_from bm entry (Suc n) = do {
     w \<leftarrow> idx bm entry;
     if w = 0xFFFFFFFFFFFFFFFF then first_free_from bm (Suc entry) n
     else case first_clear_bit w of
            Some b \<Rightarrow> Some (of_nat (entry * 64 + b))
          | None \<Rightarrow> first_free_from bm (Suc entry) n
   }"

definition mm_bitmap_first_free :: "mm_bitmap \<Rightarrow> u64 \<Rightarrow> u64 option" where
  "mm_bitmap_first_free bitmap bitmap_size =
     (case bitmap of
        None \<Rightarrow> Some (-1)
      | Some bm \<Rightarrow> first_free_from bm 0 (unat (bitmap_size div 64)))"

text \<open>
  The loop that looks for a run: \<open>k\<close> frames are left to look at, from frame \<open>b\<close>; \<open>free\<close> of the
  frames just before \<open>b\<close> are free, and the run starts at \<open>first\<close>.
\<close>

fun free_run_from :: "u64 list \<Rightarrow> u64 \<Rightarrow> u64 \<Rightarrow> u64 \<Rightarrow> u64 \<Rightarrow> nat \<Rightarrow> u64 option" where
  "free_run_from bm n b free first 0 = Some (-1)"
| "free_run_from bm n b free first (Suc k) = do {
     t \<leftarrow> mm_bitmap_test (Some bm) b;
     let (free', first') = (if t \<noteq> 0 then (0, b + 1) else (free + 1, first))
     in if free' = n then Some first' else free_run_from bm n (b + 1) free' first' k
   }"

text \<open>\<open>(int)x == -1\<close> looks at the low 32 bits only.\<close>

definition int_is_minus1 :: "u64 \<Rightarrow> bool" where
  "int_is_minus1 x \<longleftrightarrow> (ucast x :: u32) = -1"

definition mm_bitmap_first_free_s :: "mm_bitmap \<Rightarrow> u64 \<Rightarrow> u64 \<Rightarrow> u64 option" where
  "mm_bitmap_first_free_s bitmap bitmap_size n =
     (case bitmap of
        None \<Rightarrow> Some (-1)
      | Some bm \<Rightarrow>
          if n = 0 then Some (-1)
          else do {
            first_free \<leftarrow> mm_bitmap_first_free bitmap bitmap_size;
            if int_is_minus1 first_free then Some (-1)
            else if n = 1 then Some first_free
            else free_run_from bm n first_free 0 first_free
                   (unat bitmap_size - unat first_free)
          })"

subsection \<open>The slots a bitmap represents\<close>

definition slot :: "nat \<Rightarrow> nat \<times> nat" where
  "slot f = (f div 64, f mod 32)"

definition occupied :: "u64 list \<Rightarrow> nat \<Rightarrow> bool" where
  "occupied bm f \<longleftrightarrow> (bm ! (f div 64)) AND int_shl1 (f mod 64) \<noteq> 0"

definition mark :: "u64 list \<Rightarrow> nat \<Rightarrow> u64 list" where
  "mark bm f = bm[f div 64 := (bm ! (f div 64)) OR int_shl1 (f mod 64)]"

definition unmark :: "u64 list \<Rightarrow> nat \<Rightarrow> u64 list" where
  "unmark bm f = bm[f div 64 := (bm ! (f div 64)) AND NOT (int_shl1 (f mod 64))]"

definition capacity :: "u64 list \<Rightarrow> nat" where
  "capacity bm = 64 * length bm"

lemma capacity_mark [simp]: "capacity (mark bm f) = capacity bm"
  and capacity_unmark [simp]: "capacity (unmark bm f) = capacity bm"
  by (simp_all add: capacity_def mark_def unmark_def)

lemma below_capacity: "f < capacity bm \<Longrightarrow> f div 64 < length bm"
  by (simp add: capacity_def less_mult_imp_div_less mult.commute)

lemma unat_div_64 [simp]: "unat ((b::u64) div 64) = unat b div 64"
  and unat_mod_64 [simp]: "unat ((b::u64) mod 64) = unat b mod 64"
  by (simp_all add: unat_div unat_mod)

lemma mm_bitmap_set_in:
  "unat b < capacity bm \<Longrightarrow> mm_bitmap_set (Some bm) b = Some (Some (mark bm (unat b)))"
  by (simp add: mm_bitmap_set_def mark_def below_capacity)

lemma mm_bitmap_clear_in:
  "unat b < capacity bm \<Longrightarrow> mm_bitmap_clear (Some bm) b = Some (Some (unmark bm (unat b)))"
  by (simp add: mm_bitmap_clear_def unmark_def below_capacity)

lemma mm_bitmap_test_in:
  "unat b < capacity bm \<Longrightarrow>
     \<exists>t. mm_bitmap_test (Some bm) b = Some t \<and> (t \<noteq> 0 \<longleftrightarrow> occupied bm (unat b))"
  by (simp add: mm_bitmap_test_def occupied_def below_capacity)

text \<open>A word read through \<open>int_shl1\<close>: bit \<open>b\<close> for \<open>b mod 32 < 31\<close>, else any of the bits 31 to 63.\<close>

lemma and_int_shl1_eq_0:
  "(w AND int_shl1 b = 0) \<longleftrightarrow>
     (if b mod 32 < 31 then \<not> bit w (b mod 32) else (\<forall>k. 31 \<le> k \<and> k < 64 \<longrightarrow> \<not> bit w k))"
  by (auto simp: bit_eq_iff [of "w AND int_shl1 b" 0] bit_and_iff bit_int_shl1
      dest: spec [of _ "b mod 32"])

lemma mod_64_mod_32 [simp]: "(f::nat) mod 64 mod 32 = f mod 32"
  by (simp add: mod_mod_cancel)

lemma mod_32_le: "(f::nat) mod 32 < 31 \<or> f mod 32 = 31"
  using mod_less_divisor [of 32 f] by linarith

lemma occupied_slot: "slot f = slot g \<Longrightarrow> occupied bm f = occupied bm g"
  by (simp add: slot_def occupied_def and_int_shl1_eq_0)

lemma or_int_shl1_bit:
  "((w OR int_shl1 b) AND int_shl1 c \<noteq> 0) \<longleftrightarrow> w AND int_shl1 c \<noteq> 0 \<or> b mod 32 = c mod 32"
proof (cases "c mod 32 < 31")
  case True
  then show ?thesis by (auto simp: and_int_shl1_eq_0 bit_or_iff bit_int_shl1)
next
  case False
  then have "c mod 32 = 31" using mod_32_le [of c] by simp
  then show ?thesis
    using mod_32_le [of b] by (auto simp: and_int_shl1_eq_0 bit_or_iff bit_int_shl1)
qed

lemma andn_int_shl1_bit:
  "((w AND NOT (int_shl1 b)) AND int_shl1 c \<noteq> 0) \<longleftrightarrow> w AND int_shl1 c \<noteq> 0 \<and> b mod 32 \<noteq> c mod 32"
proof (cases "c mod 32 < 31")
  case True
  then show ?thesis by (auto simp: and_int_shl1_eq_0 bit_and_iff bit_not_iff bit_int_shl1)
next
  case False
  then have "c mod 32 = 31" using mod_32_le [of c] by simp
  then show ?thesis
    using mod_32_le [of b] by (auto simp: and_int_shl1_eq_0 bit_and_iff bit_not_iff bit_int_shl1)
qed

lemma occupied_mark:
  "f < capacity bm \<Longrightarrow> occupied (mark bm f) g \<longleftrightarrow> occupied bm g \<or> slot g = slot f"
  using below_capacity [of f bm]
  by (auto simp: occupied_def mark_def slot_def nth_list_update or_int_shl1_bit)

lemma occupied_unmark:
  "f < capacity bm \<Longrightarrow> occupied (unmark bm f) g \<longleftrightarrow> occupied bm g \<and> slot g \<noteq> slot f"
  using below_capacity [of f bm]
  by (auto simp: occupied_def unmark_def slot_def nth_list_update andn_int_shl1_bit)

subsection \<open>The searches\<close>

text \<open>The specification of a search: the frame found, as the code returns it.\<close>

definition found :: "nat option \<Rightarrow> u64" where
  "found r = (case r of Some f \<Rightarrow> of_nat f | None \<Rightarrow> -1)"

lemma found_simps [simp]: "found None = -1" "found (Some f) = of_nat f"
  by (simp_all add: found_def)

lemma find_append: "List.find P (xs @ ys) = (case List.find P xs of Some x \<Rightarrow> Some x | None \<Rightarrow> List.find P ys)"
  by (induction xs) auto

lemma find_map: "List.find P (map g xs) = map_option g (List.find (P \<circ> g) xs)"
  by (induction xs) auto

lemma find_cong_set: "(\<And>x. x \<in> set xs \<Longrightarrow> P x = Q x) \<Longrightarrow> List.find P xs = List.find Q xs"
  by (induction xs) auto

lemma find_None_set: "(\<And>x. x \<in> set xs \<Longrightarrow> \<not> P x) \<Longrightarrow> List.find P xs = None"
  by (induction xs) auto

lemma find_drop_prefix:
  "a \<le> b \<Longrightarrow> (\<And>f. a \<le> f \<Longrightarrow> f < b \<Longrightarrow> \<not> P f) \<Longrightarrow> List.find P [a..<c] = List.find P [b..<c]"
proof (cases "b \<le> c")
  case True
  assume "a \<le> b" and no: "\<And>f. a \<le> f \<Longrightarrow> f < b \<Longrightarrow> \<not> P f"
  then have "[a..<c] = [a..<b] @ [b..<c]"
    using True upt_add_eq_append [of a b "c - b"] by simp
  moreover have "List.find P [a..<b] = None"
    using no by (intro find_None_set) auto
  ultimately show ?thesis by (simp add: find_append)
next
  case False
  assume "a \<le> b" and "\<And>f. a \<le> f \<Longrightarrow> f < b \<Longrightarrow> \<not> P f"
  then have "List.find P [a..<c] = None" using False by (intro find_None_set) auto
  then show ?thesis using False by simp
qed

lemma first_clear_bit_all_ones: "first_clear_bit 0xFFFFFFFFFFFFFFFF = None"
  unfolding first_clear_bit_def
proof (rule find_None_set)
  fix b assume "b \<in> set [0..<64]"
  have ones: "(0xFFFFFFFFFFFFFFFF :: u64) = -1" by simp
  have "bit (int_shl1 b) (if b mod 32 < 31 then b mod 32 else 31)"
    using mod_32_le [of b] by (auto simp: bit_int_shl1)
  then have "int_shl1 b \<noteq> 0" by auto
  then show "\<not> (0xFFFFFFFFFFFFFFFF AND int_shl1 b = 0)" by (simp only: ones) simp
qed

lemma find_word:
  assumes "e < length bm"
  shows "List.find (\<lambda>f. \<not> occupied bm f) [64 * e..<64 * e + 64]
       = map_option ((+) (64 * e)) (first_clear_bit (bm ! e))"
proof -
  have "[64 * e..<64 * e + 64] = map ((+) (64 * e)) [0..<64]"
    using map_add_upt [of "64 * e" 64] by (simp add: add.commute comp_def cong: map_cong)
  then show ?thesis
    by (auto simp: find_map first_clear_bit_def occupied_def intro!: arg_cong [of _ _ "map_option _"] find_cong_set)
qed

lemma first_free_from_spec:
  "e + n \<le> length bm \<Longrightarrow>
     first_free_from bm e n = Some (found (List.find (\<lambda>f. \<not> occupied bm f) [64 * e..<64 * (e + n)]))"
proof (induction n arbitrary: e)
  case 0
  then show ?case by simp
next
  case (Suc n)
  let ?P = "\<lambda>f. \<not> occupied bm f"
  have split: "[64 * e..<64 * (e + Suc n)] = [64 * e..<64 * e + 64] @ [64 * Suc e..<64 * (Suc e + n)]"
    using upt_add_eq_append [of "64 * e" "64 * e + 64" "64 * n"] by (simp add: algebra_simps)
  have fs: "List.find ?P [64 * e..<64 * (e + Suc n)]
      = (case List.find ?P [64 * e..<64 * e + 64] of
           Some x \<Rightarrow> Some x | None \<Rightarrow> List.find ?P [64 * Suc e..<64 * (Suc e + n)])"
    by (simp only: split find_append)
  have IH: "first_free_from bm (Suc e) n = Some (found (List.find ?P [64 * Suc e..<64 * (Suc e + n)]))"
    using Suc by (intro Suc.IH) simp
  have word: "List.find ?P [64 * e..<64 * e + 64] = map_option ((+) (64 * e)) (first_clear_bit (bm ! e))"
    using Suc.prems by (intro find_word) simp
  show ?case
  proof (cases "first_clear_bit (bm ! e)")
    case None
    then show ?thesis unfolding fs using Suc.prems IH word by simp
  next
    case (Some b)
    then have "bm ! e \<noteq> 0xFFFFFFFFFFFFFFFF" using first_clear_bit_all_ones by auto
    then show ?thesis unfolding fs using Suc.prems Some word by (simp add: mult.commute)
  qed
qed

lemma mm_bitmap_first_free_spec:
  "unat sz \<le> capacity bm \<Longrightarrow>
     mm_bitmap_first_free (Some bm) sz
       = Some (found (List.find (\<lambda>f. \<not> occupied bm f) [0..<64 * (unat sz div 64)]))"
  using first_free_from_spec [of 0 "unat sz div 64" bm]
  by (simp add: mm_bitmap_first_free_def capacity_def)

text \<open>A run of \<open>n\<close> free frames from frame \<open>f\<close>.\<close>

definition free_run :: "u64 list \<Rightarrow> nat \<Rightarrow> nat \<Rightarrow> bool" where
  "free_run bm n f \<longleftrightarrow> (\<forall>g \<in> {f..<f + n}. \<not> occupied bm g)"

lemma free_run_1 [simp]: "free_run bm (Suc 0) f \<longleftrightarrow> \<not> occupied bm f"
  by (simp add: free_run_def)

lemma free_run_from_spec:
  assumes "unat b + k = sz" and "sz \<le> capacity bm" and "sz < 2 ^ 64"
    and "unat fr < unat n" and "unat fr \<le> unat b" and "first = b - fr"
    and "\<And>g. unat b - unat fr \<le> g \<Longrightarrow> g < unat b \<Longrightarrow> \<not> occupied bm g"
  shows "free_run_from bm n b fr first k
       = Some (found (List.find (free_run bm (unat n)) [unat b - unat fr..<sz + 1 - unat n]))"
  using assms
proof (induction k arbitrary: b fr first)
  case 0
  then show ?case by simp
next
  case (Suc k)
  let ?n = "unat n" and ?b = "unat b" and ?f = "unat fr"
  have b1: "unat (b + 1) = ?b + 1"
    using Suc.prems by (subst unat_plus_simple [THEN iffD1]) (auto simp: no_olen_add_nat)
  obtain t where t: "mm_bitmap_test (Some bm) b = Some t" "t \<noteq> 0 \<longleftrightarrow> occupied bm ?b"
    using mm_bitmap_test_in [of b bm] Suc.prems(1,2) by auto
  show ?case
  proof (cases "occupied bm ?b")
    case True
    have "List.find (free_run bm ?n) [?b - ?f..<sz + 1 - ?n] = List.find (free_run bm ?n) [?b + 1..<sz + 1 - ?n]"
    proof (rule find_drop_prefix)
      fix f assume "?b - ?f \<le> f" "f < ?b + 1"
      then have "?b \<in> {f..<f + ?n}" using Suc.prems(4,5) by auto
      then show "\<not> free_run bm ?n f" using True by (auto simp: free_run_def)
    qed simp
    moreover have "free_run_from bm n (b + 1) 0 (b + 1) k
       = Some (found (List.find (free_run bm ?n) [unat (b + 1) - unat (0::u64)..<sz + 1 - ?n]))"
      using Suc.prems by (intro Suc.IH) (auto simp: b1)
    moreover have "n \<noteq> 0" using Suc.prems(4) by auto
    ultimately show ?thesis using t True by (simp add: b1)
  next
    case False
    have f1: "unat (fr + 1) = ?f + 1"
      using Suc.prems by (subst unat_plus_simple [THEN iffD1]) (auto simp: no_olen_add_nat)
    have run: "\<not> occupied bm g" if "?b - ?f \<le> g" "g < ?b + 1" for g
      using that Suc.prems(7) False by (cases "g = ?b") auto
    show ?thesis
    proof (cases "fr + 1 = n")
      case True
      then have n: "?n = ?f + 1" using f1 by simp
      have "free_run bm ?n (?b - ?f)"
        using run Suc.prems(5) by (auto simp: free_run_def n)
      moreover have "[?b - ?f..<sz + 1 - ?n] = (?b - ?f) # [Suc (?b - ?f)..<sz + 1 - ?n]"
        using Suc.prems n by (intro upt_conv_Cons) auto
      moreover have "b - fr = of_nat (?b - ?f)"
        using Suc.prems(5) by (simp add: unat_sub [symmetric] word_le_nat_alt)
      ultimately show ?thesis using t False True Suc.prems(6) by simp
    next
      case neq: False
      then have "?f + 1 \<noteq> ?n" using f1 by (simp add: word_unat_eq_iff)
      then have "free_run_from bm n (b + 1) (fr + 1) first k
         = Some (found (List.find (free_run bm ?n) [unat (b + 1) - unat (fr + 1)..<sz + 1 - ?n]))"
        using Suc.prems run by (intro Suc.IH) (auto simp: b1 f1)
      then show ?thesis using t False neq by (simp add: b1 f1)
    qed
  qed
qed

lemma of_nat_not_minus1:
  "f < 2 ^ 32 - 1 \<Longrightarrow> \<not> int_is_minus1 (of_nat f)"
proof
  assume f: "f < 2 ^ 32 - 1" and "int_is_minus1 (of_nat f)"
  then have "(ucast (of_nat f :: u64) :: u32) = -1" by (simp add: int_is_minus1_def)
  then have "unat (ucast (of_nat f :: u64) :: u32) = unat (-1 :: u32)" by simp
  moreover have "unat (-1 :: u32) = 2 ^ 32 - 1" by (simp add: unsigned_minus_1_eq_mask mask_eq_exp_minus_1)
  ultimately show False using f by (simp add: unsigned_ucast_eq take_bit_nat_eq_self unsigned_of_nat)
qed

lemma minus1_int_is_minus1 [simp]: "int_is_minus1 (- 1)"
  unfolding int_is_minus1_def by (rule bit_word_eqI) (simp add: bit_simps)

lemma find_Some_in: "List.find P xs = Some x \<Longrightarrow> x \<in> set xs \<and> P x"
  by (induction xs) (auto split: if_splits)

lemma find_upt_Some:
  "List.find P [a..<c] = Some x \<Longrightarrow> a \<le> x \<and> x < c \<and> P x \<and> (\<forall>y. a \<le> y \<longrightarrow> y < x \<longrightarrow> \<not> P y)"
proof (induction "c - a" arbitrary: a)
  case 0
  then show ?case by simp
next
  case (Suc k)
  then have cons: "[a..<c] = a # [Suc a..<c]" by (simp add: upt_conv_Cons)
  show ?case
  proof (cases "P a")
    case True
    then show ?thesis using Suc.prems Suc.hyps(2) by (simp add: cons)
  next
    case False
    then have "List.find P [Suc a..<c] = Some x" using Suc.prems by (simp add: cons)
    moreover have "k = c - Suc a" using Suc.hyps(2) by simp
    ultimately have ih: "Suc a \<le> x \<and> x < c \<and> P x \<and> (\<forall>y. Suc a \<le> y \<longrightarrow> y < x \<longrightarrow> \<not> P y)"
      using Suc.hyps(1) by blast
    then show ?thesis using False by (metis Suc_leD Suc_leI le_neq_implies_less)
  qed
qed

text \<open>
  The first-fit specification of \<open>mm_bitmap_first_free_s\<close>, for bitmaps of whole words. A run that
  starts in the last, partial word of another bitmap may be missed: the search starts from
  \<open>mm_bitmap_first_free\<close>, which looks at whole words only.
\<close>

lemma mm_bitmap_first_free_s_spec:
  assumes cap: "unat sz \<le> capacity bm" and whole: "unat sz mod 64 = 0"
    and small: "unat sz < 2 ^ 32" and n: "n \<noteq> 0"
  shows "mm_bitmap_first_free_s (Some bm) sz n
       = Some (found (List.find (free_run bm (unat n)) [0..<unat sz + 1 - unat n]))"
proof -
  let ?S = "unat sz" and ?n = "unat n"
  let ?P = "\<lambda>f. \<not> occupied bm f"
  have n1: "1 \<le> ?n" using n by (simp add: Suc_leI unat_gt_0)
  have whole': "64 * (?S div 64) = ?S" using whole mult_div_mod_eq [of 64 ?S] by simp
  have ff: "mm_bitmap_first_free (Some bm) sz = Some (found (List.find ?P [0..<?S]))"
    using mm_bitmap_first_free_spec [OF cap] whole' by simp
  show ?thesis
  proof (cases "List.find ?P [0..<?S]")
    case None
    then have occ: "\<And>f. f < ?S \<Longrightarrow> occupied bm f" by (auto simp: find_None_iff)
    have "List.find (free_run bm ?n) [0..<?S + 1 - ?n] = None"
    proof (rule find_None_set)
      fix f assume "f \<in> set [0..<?S + 1 - ?n]"
      then have "f < ?S" using n1 by auto
      moreover have "f \<in> {f..<f + ?n}" using n1 by auto
      ultimately show "\<not> free_run bm ?n f" using occ unfolding free_run_def by blast
    qed
    then show ?thesis using None ff n by (simp add: mm_bitmap_first_free_s_def)
  next
    case (Some f0)
    from find_upt_Some [OF Some] have f0: "f0 < ?S" "\<not> occupied bm f0"
      and before: "\<And>g. g < f0 \<Longrightarrow> occupied bm g" by auto
    have u: "unat (of_nat f0 :: u64) = f0"
      using f0 small by (simp add: unsigned_of_nat take_bit_nat_eq_self)
    have m: "\<not> int_is_minus1 (of_nat f0)" using f0 small by (intro of_nat_not_minus1) simp
    have skip: "List.find (free_run bm ?n) [0..<?S + 1 - ?n] = List.find (free_run bm ?n) [f0..<?S + 1 - ?n]"
    proof (rule find_drop_prefix)
      fix f assume "f < f0"
      moreover have "f \<in> {f..<f + ?n}" using n1 by auto
      ultimately show "\<not> free_run bm ?n f" using before unfolding free_run_def by blast
    qed simp
    show ?thesis
    proof (cases "n = 1")
      case True
      then have "[f0..<?S + 1 - ?n] = f0 # [Suc f0..<?S + 1 - ?n]"
        using f0 by (intro upt_conv_Cons) simp
      then show ?thesis using True ff Some m skip f0 by (simp add: mm_bitmap_first_free_s_def)
    next
      case False
      have "free_run_from bm n (of_nat f0) 0 (of_nat f0) (?S - f0)
          = Some (found (List.find (free_run bm ?n) [f0..<?S + 1 - ?n]))"
        using free_run_from_spec [of "of_nat f0" "?S - f0" ?S bm 0 n "of_nat f0"] cap small f0 n1
        by (simp add: u)
      then show ?thesis using False n ff Some m skip by (simp add: mm_bitmap_first_free_s_def u)
    qed
  qed
qed

subsection \<open>Properties\<close>

text \<open>
  On a bit inside the array the bitmap implements a set of slots: \<open>mm_bitmap_set\<close> adds the
  slot of the bit, \<open>mm_bitmap_clear\<close> removes it, both keep the size, and \<open>mm_bitmap_test\<close> is
  nonzero exactly for the members.
\<close>

theorem mm_bitmap_refines_slot_set:
  assumes "unat b < capacity bm"
  shows "\<exists>bm1 bm0 t. mm_bitmap_set (Some bm) b = Some (Some bm1) \<and>
    mm_bitmap_clear (Some bm) b = Some (Some bm0) \<and> mm_bitmap_test (Some bm) b = Some t \<and>
    capacity bm1 = capacity bm \<and> capacity bm0 = capacity bm \<and>
    (\<forall>g. occupied bm1 g \<longleftrightarrow> occupied bm g \<or> slot g = slot (unat b)) \<and>
    (\<forall>g. occupied bm0 g \<longleftrightarrow> occupied bm g \<and> slot g \<noteq> slot (unat b)) \<and>
    (t \<noteq> 0 \<longleftrightarrow> occupied bm (unat b))"
  using mm_bitmap_test_in [OF assms]
  by (auto simp: mm_bitmap_set_in mm_bitmap_clear_in occupied_mark occupied_unmark assms)

theorem mm_bitmap_refines_slot_set_witness:
  "\<exists>bm1. mm_bitmap_set (Some [0, 0]) 70 = Some (Some bm1) \<and> occupied bm1 102"
proof -
  have "unat (70 :: u64) < capacity [0, 0]" by (simp add: capacity_def)
  from mm_bitmap_refines_slot_set [OF this] show ?thesis by (auto simp: slot_def)
qed

text \<open>
  The search for \<open>n\<close> free frames is first fit: over a bitmap of whole words of fewer than
  \<open>2 ^ 32\<close> frames it returns the lowest frame from which \<open>n\<close> frames below the size are free,
  and \<open>-1\<close> exactly when there is no such frame. For \<open>n = 1\<close> this is what
  \<open>mm_bitmap_first_free\<close> returns.
\<close>

theorem mm_bitmap_search_first_fit:
  assumes "unat sz \<le> capacity bm" and "unat sz mod 64 = 0" and "unat sz < 2 ^ 32" and "n \<noteq> 0"
  shows "mm_bitmap_first_free_s (Some bm) sz n
       = Some (found (List.find (free_run bm (unat n)) [0..<unat sz + 1 - unat n])) \<and>
    mm_bitmap_first_free_s (Some bm) sz 1 = mm_bitmap_first_free (Some bm) sz"
proof -
  have "free_run bm (Suc 0) = (\<lambda>f. \<not> occupied bm f)" by (rule ext) simp
  then show ?thesis
    using mm_bitmap_first_free_s_spec [OF assms] mm_bitmap_first_free_s_spec [OF assms(1-3), of 1]
      mm_bitmap_first_free_spec [OF assms(1)] assms(2) mult_div_mod_eq [of 64 "unat sz"]
    by simp
qed

theorem mm_bitmap_search_first_fit_witness:
  "mm_bitmap_first_free_s (Some [0xFFFFFFF3]) 64 2 = Some 2"
proof -
  have 1: "unat (64 :: u64) \<le> capacity [0xFFFFFFF3]" by (simp add: capacity_def)
  have "List.find (free_run [0xFFFFFFF3] 2) [0..<64 + 1 - 2] = Some 2" by code_simp
  then show ?thesis using mm_bitmap_search_first_fit [OF 1, of 2] by simp
qed

end
