(* ===== verification/Phys_Mem.thy ===== *)
theory Phys_Mem
  imports Mm_Bitmap
begin

text \<open>
  The physical frame allocator, kernel/src/mm/phys_mem.c, over the bitmap of \<open>Mm_Bitmap\<close>.

  The static \<open>_phys_mem\<close> is the record \<open>phys_mem\<close>. Its bitmap is the pointer \<open>bitmap_addr\<close> and
  the words it points to; a null pointer is the null bitmap of the bitmap operations. The
  \<open>_z\<close> variants also clear the frames: the memory they write is a parameter, a function that
  stores zeroes (\<open>memset\<close>). The statistics printer is not modelled.

  The locale \<open>frame_map\<close> is what the allocator relies on in the bitmap, \<open>frame_source\<close> is what
  the allocator promises to the page-table and heap code.
\<close>

unbundle bit_operations_syntax

subsection \<open>The interface of the bitmap\<close>

locale frame_map =
  fixes occ :: "'m \<Rightarrow> nat \<Rightarrow> bool"
    and cap :: "'m \<Rightarrow> nat"
    and mrk :: "'m \<Rightarrow> nat \<Rightarrow> 'm"
    and clr :: "'m \<Rightarrow> nat \<Rightarrow> 'm"
    and cls :: "nat \<Rightarrow> 'k"
  assumes cap_mrk: "cap (mrk m f) = cap m"
    and cap_clr: "cap (clr m f) = cap m"
    and occ_mrk: "f < cap m \<Longrightarrow> occ (mrk m f) g \<longleftrightarrow> occ m g \<or> cls g = cls f"
    and occ_clr: "f < cap m \<Longrightarrow> occ (clr m f) g \<longleftrightarrow> occ m g \<and> cls g \<noteq> cls f"
begin

lemma mrk_self: "f < cap m \<Longrightarrow> occ (mrk m f) f"
  by (simp add: occ_mrk)

lemma mrk_mono: "f < cap m \<Longrightarrow> occ m g \<Longrightarrow> occ (mrk m f) g"
  by (simp add: occ_mrk)

lemma clr_self: "f < cap m \<Longrightarrow> \<not> occ (clr m f) f"
  by (simp add: occ_clr)

lemma cap_fold_mrk [simp]: "cap (fold (\<lambda>f m. mrk m f) fs m) = cap m"
  by (induction fs arbitrary: m) (simp_all add: cap_mrk)

lemma cap_fold_clr [simp]: "cap (fold (\<lambda>f m. clr m f) fs m) = cap m"
  by (induction fs arbitrary: m) (simp_all add: cap_clr)

lemma occ_fold_mrk:
  "(\<And>f. f \<in> set fs \<Longrightarrow> f < cap m) \<Longrightarrow>
     occ (fold (\<lambda>f m. mrk m f) fs m) g \<longleftrightarrow> occ m g \<or> cls g \<in> cls ` set fs"
  by (induction fs arbitrary: m) (auto simp: occ_mrk cap_mrk)

lemma occ_fold_clr:
  "(\<And>f. f \<in> set fs \<Longrightarrow> f < cap m) \<Longrightarrow>
     occ (fold (\<lambda>f m. clr m f) fs m) g \<longleftrightarrow> occ m g \<and> cls g \<notin> cls ` set fs"
  by (induction fs arbitrary: m) (auto simp: occ_clr cap_clr)

lemma clr_mrk_same:
  assumes "f < cap m" and free: "\<not> occ m f" and cong: "\<And>g h. cls g = cls h \<Longrightarrow> occ m g = occ m h"
  shows "occ (clr (mrk m f) f) g = occ m g"
proof (cases "cls g = cls f")
  case True
  with free cong have "\<not> occ m g" by blast
  then show ?thesis using assms(1) True by (simp add: occ_clr cap_mrk)
qed (use assms(1) in \<open>simp add: occ_clr occ_mrk cap_mrk\<close>)

lemma fold_clr_fold_mrk:
  assumes "\<And>f. f \<in> set fs \<Longrightarrow> f < cap m" and free: "\<And>f. f \<in> set fs \<Longrightarrow> \<not> occ m f"
    and cong: "\<And>g h. cls g = cls h \<Longrightarrow> occ m g = occ m h"
  shows "occ (fold (\<lambda>f m. clr m f) fs (fold (\<lambda>f m. mrk m f) fs m)) g = occ m g"
proof -
  have "cls g \<in> cls ` set fs \<Longrightarrow> \<not> occ m g" using free cong by blast
  then show ?thesis using assms(1) by (auto simp: occ_fold_clr occ_fold_mrk)
qed

end

interpretation bmap: frame_map occupied capacity mark unmark slot
  by unfold_locales (simp_all add: occupied_mark occupied_unmark)

subsection \<open>State and constants\<close>

record phys_mem =
  memory_size :: u64
  used_blocks :: u64
  max_blocks :: u64
  bitmap_addr :: u64
  bitmap_words :: "u64 list"

record mem_region =
  region_addr :: u64
  region_len :: u64

record memory_info =
  mi_memory_size :: u64
  mi_regions :: "mem_region list"
  mi_kernel_load_addr :: u64
  mi_kernel_size :: u64
  mi_kernel_end :: u64

definition PHYS_MEM_BLOCK_SIZE :: u64 where
  "PHYS_MEM_BLOCK_SIZE = 4096"

definition PHYS_MEM_BLOCKS_PER_BYTE :: u64 where
  "PHYS_MEM_BLOCKS_PER_BYTE = 8"

definition pm_bitmap :: "phys_mem \<Rightarrow> mm_bitmap" where
  "pm_bitmap pm = (if bitmap_addr pm = 0 then None else Some (bitmap_words pm))"

definition pm_store :: "phys_mem \<Rightarrow> mm_bitmap \<Rightarrow> phys_mem" where
  "pm_store pm b = (case b of None \<Rightarrow> pm | Some bm \<Rightarrow> pm\<lparr>bitmap_words := bm\<rparr>)"

definition pm_set :: "phys_mem \<Rightarrow> u64 \<Rightarrow> phys_mem option" where
  "pm_set pm b = map_option (pm_store pm) (mm_bitmap_set (pm_bitmap pm) b)"

definition pm_clear :: "phys_mem \<Rightarrow> u64 \<Rightarrow> phys_mem option" where
  "pm_clear pm b = map_option (pm_store pm) (mm_bitmap_clear (pm_bitmap pm) b)"

definition align_down :: "u64 \<Rightarrow> u64 \<Rightarrow> u64" where
  "align_down val align = (if align = 0 then val else val AND NOT (align + 1))"

definition get_frame :: "u64 \<Rightarrow> u64" where
  "get_frame addr = align_down addr PHYS_MEM_BLOCK_SIZE div PHYS_MEM_BLOCK_SIZE"

definition get_addr :: "u64 \<Rightarrow> u64" where
  "get_addr frame = frame * PHYS_MEM_BLOCK_SIZE"

subsection \<open>Regions\<close>

text \<open>The loops over \<open>blocks\<close> frames from frame \<open>align\<close>; both count \<open>used_blocks\<close> down.\<close>

fun init_blocks :: "phys_mem \<Rightarrow> u64 \<Rightarrow> nat \<Rightarrow> phys_mem option" where
  "init_blocks pm f 0 = Some pm"
| "init_blocks pm f (Suc k) = do {
     pm' \<leftarrow> pm_clear pm f;
     init_blocks (pm'\<lparr>used_blocks := used_blocks pm' - 1\<rparr>) (f + 1) k
   }"

fun deinit_blocks :: "phys_mem \<Rightarrow> u64 \<Rightarrow> nat \<Rightarrow> phys_mem option" where
  "deinit_blocks pm f 0 = Some pm"
| "deinit_blocks pm f (Suc k) = do {
     pm' \<leftarrow> pm_set pm f;
     deinit_blocks (pm'\<lparr>used_blocks := used_blocks pm' - 1\<rparr>) (f + 1) k
   }"

definition blocks_of_size :: "u64 \<Rightarrow> u64" where
  "blocks_of_size sz = align_up sz PHYS_MEM_BLOCK_SIZE div PHYS_MEM_BLOCK_SIZE"

definition phys_mem_init_region :: "phys_mem \<Rightarrow> u64 \<Rightarrow> u64 \<Rightarrow> phys_mem option" where
  "phys_mem_init_region pm base sz = do {
     pm' \<leftarrow> init_blocks pm (base div PHYS_MEM_BLOCK_SIZE) (unat (blocks_of_size sz));
     pm_set pm' 0
   }"

definition phys_mem_deinit_region :: "phys_mem \<Rightarrow> u64 \<Rightarrow> u64 \<Rightarrow> phys_mem option" where
  "phys_mem_deinit_region pm base sz =
     deinit_blocks pm (base div PHYS_MEM_BLOCK_SIZE) (unat (blocks_of_size sz))"

fun init_regions :: "phys_mem \<Rightarrow> mem_region list \<Rightarrow> phys_mem option" where
  "init_regions pm [] = Some pm"
| "init_regions pm (r # rs) = do {
     pm' \<leftarrow> (if region_addr r \<noteq> 0 then phys_mem_init_region pm (region_addr r) (region_len r)
             else Some pm);
     init_regions pm' rs
   }"

text \<open>
  \<open>phys_mem_init\<close>. The number of bitmap words goes through an \<open>int\<close>. \<open>mi_regions\<close> holds
  the \<open>MEM_INFO_MAX_REGIONS\<close> array elements.
\<close>

definition phys_mem_init :: "memory_info \<Rightarrow> phys_mem option" where
  "phys_mem_init mi =
     (let blocks = align_up (mi_memory_size mi) PHYS_MEM_BLOCK_SIZE div PHYS_MEM_BLOCK_SIZE;
          entries = nat (sint (ucast ((blocks + 63) div 64) :: u32));
          pm = \<lparr>memory_size = mi_memory_size mi, used_blocks = blocks, max_blocks = blocks,
                bitmap_addr = align_up (mi_kernel_end mi) PHYS_MEM_BLOCK_SIZE,
                bitmap_words = replicate entries 0xFFFFFFFFFFFFFFFF\<rparr>
      in do {
        pm1 \<leftarrow> init_regions pm (mi_regions mi);
        pm2 \<leftarrow> phys_mem_deinit_region pm1 (mi_kernel_load_addr mi) (mi_kernel_size mi);
        phys_mem_deinit_region pm2 (bitmap_addr pm2) (max_blocks pm2 div PHYS_MEM_BLOCKS_PER_BYTE)
      })"

subsection \<open>Allocation\<close>

definition int_is_0 :: "u64 \<Rightarrow> bool" where
  "int_is_0 x \<longleftrightarrow> (ucast x :: u32) = 0"

definition phys_mem_alloc_block :: "phys_mem \<Rightarrow> (u64 \<times> phys_mem) option" where
  "phys_mem_alloc_block pm =
     (if max_blocks pm = 0 then Some (0, pm)
      else do {
        frame \<leftarrow> mm_bitmap_first_free (pm_bitmap pm) (max_blocks pm);
        if int_is_minus1 frame then Some (0, pm)
        else if int_is_0 frame then Some (0, pm)
        else do {
          pm' \<leftarrow> pm_set pm frame;
          Some (frame * PHYS_MEM_BLOCK_SIZE, pm'\<lparr>used_blocks := used_blocks pm' + 1\<rparr>)
        }
      })"

fun set_blocks :: "phys_mem \<Rightarrow> u64 \<Rightarrow> nat \<Rightarrow> phys_mem option" where
  "set_blocks pm f 0 = Some pm"
| "set_blocks pm f (Suc k) = do { pm' \<leftarrow> pm_set pm f; set_blocks pm' (f + 1) k }"

fun clear_blocks :: "phys_mem \<Rightarrow> u64 \<Rightarrow> nat \<Rightarrow> phys_mem option" where
  "clear_blocks pm f 0 = Some pm"
| "clear_blocks pm f (Suc k) = do { pm' \<leftarrow> pm_clear pm f; clear_blocks pm' (f + 1) k }"

definition phys_mem_alloc_blocks :: "phys_mem \<Rightarrow> u64 \<Rightarrow> (u64 \<times> phys_mem) option" where
  "phys_mem_alloc_blocks pm blocks =
     (if max_blocks pm < blocks then Some (0, pm)
      else do {
        frame \<leftarrow> mm_bitmap_first_free_s (pm_bitmap pm) (max_blocks pm) blocks;
        if int_is_minus1 frame then Some (0, pm)
        else do {
          pm' \<leftarrow> set_blocks pm frame (unat blocks);
          Some (frame * PHYS_MEM_BLOCK_SIZE, pm'\<lparr>used_blocks := used_blocks pm' + blocks\<rparr>)
        }
      })"

text \<open>The variants that clear the block: \<open>zero a n\<close> is \<open>memset\<close> of \<open>n\<close> bytes at \<open>a\<close>.\<close>

definition phys_mem_alloc_block_z ::
    "(u64 \<Rightarrow> u64 \<Rightarrow> 'h \<Rightarrow> 'h) \<Rightarrow> phys_mem \<Rightarrow> 'h \<Rightarrow> (u64 \<times> phys_mem \<times> 'h) option" where
  "phys_mem_alloc_block_z zero pm h = do {
     (addr, pm') \<leftarrow> phys_mem_alloc_block pm;
     Some (addr, pm', if addr \<noteq> 0 then zero addr PHYS_MEM_BLOCK_SIZE h else h)
   }"

definition phys_mem_alloc_blocks_z ::
    "(u64 \<Rightarrow> u64 \<Rightarrow> 'h \<Rightarrow> 'h) \<Rightarrow> phys_mem \<Rightarrow> u64 \<Rightarrow> 'h \<Rightarrow> (u64 \<times> phys_mem \<times> 'h) option" where
  "phys_mem_alloc_blocks_z zero pm blocks h = do {
     (addr, pm') \<leftarrow> phys_mem_alloc_blocks pm blocks;
     Some (addr, pm', if addr \<noteq> 0 then zero addr (blocks * PHYS_MEM_BLOCK_SIZE) h else h)
   }"

definition phys_mem_free_block :: "phys_mem \<Rightarrow> u64 \<Rightarrow> phys_mem option" where
  "phys_mem_free_block pm base = do {
     pm' \<leftarrow> pm_clear pm (base div PHYS_MEM_BLOCK_SIZE);
     Some (pm'\<lparr>used_blocks := used_blocks pm' - 1\<rparr>)
   }"

definition phys_mem_free_blocks :: "phys_mem \<Rightarrow> u64 \<Rightarrow> u64 \<Rightarrow> phys_mem option" where
  "phys_mem_free_blocks pm base sz = do {
     pm' \<leftarrow> clear_blocks pm (base div PHYS_MEM_BLOCK_SIZE) (unat sz);
     Some (pm'\<lparr>used_blocks := used_blocks pm' - sz\<rparr>)
   }"

definition phys_mem_size :: "phys_mem \<Rightarrow> u64" where
  "phys_mem_size pm = memory_size pm"

definition phys_mem_get_block_count :: "phys_mem \<Rightarrow> u64" where
  "phys_mem_get_block_count pm = max_blocks pm"

definition phys_mem_get_used_block_count :: "phys_mem \<Rightarrow> u64" where
  "phys_mem_get_used_block_count pm = used_blocks pm"

definition phys_mem_get_block_size :: u64 where
  "phys_mem_get_block_size = PHYS_MEM_BLOCK_SIZE"

definition phys_mem_get_free_block_count :: "phys_mem \<Rightarrow> u64" where
  "phys_mem_get_free_block_count pm = max_blocks pm - used_blocks pm"

subsection \<open>What the allocator promises\<close>

text \<open>
  A source of frames, as the page-table and heap code uses it: an allocation is defined, and
  returns null and leaves the state alone, or returns an unused frame that is used afterwards;
  used frames stay used.
\<close>

locale frame_source =
  fixes alloc :: "'s \<Rightarrow> ('f \<times> 's) option"
    and null :: 'f
    and used :: "'s \<Rightarrow> 'f \<Rightarrow> bool"
    and ok :: "'s \<Rightarrow> bool"
  assumes alloc_total: "ok s \<Longrightarrow> \<exists>f s'. alloc s = Some (f, s')"
    and alloc_ok: "ok s \<Longrightarrow> alloc s = Some (f, s') \<Longrightarrow> ok s'"
    and alloc_null: "ok s \<Longrightarrow> alloc s = Some (null, s') \<Longrightarrow> s' = s"
    and alloc_fresh: "ok s \<Longrightarrow> alloc s = Some (f, s') \<Longrightarrow> f \<noteq> null \<Longrightarrow> \<not> used s f \<and> used s' f"
    and alloc_mono: "ok s \<Longrightarrow> alloc s = Some (f, s') \<Longrightarrow> used s g \<Longrightarrow> used s' g"

text \<open>The frames a loop of \<open>n\<close> allocations gets, up to the first that fails.\<close>

fun alloc_frames :: "('s \<Rightarrow> ('f \<times> 's) option) \<Rightarrow> 'f \<Rightarrow> nat \<Rightarrow> 's \<Rightarrow> ('f list \<times> 's) option" where
  "alloc_frames alloc null 0 s = Some ([], s)"
| "alloc_frames alloc null (Suc n) s = do {
     (f, s') \<leftarrow> alloc s;
     if f = null then Some ([], s')
     else do { (fs, s'') \<leftarrow> alloc_frames alloc null n s'; Some (f # fs, s'') }
   }"

context frame_source
begin

lemma alloc_cases:
  assumes "ok s"
  obtains "alloc s = Some (null, s)"
  | f s' where "alloc s = Some (f, s')" "f \<noteq> null" "ok s'" "\<not> used s f" "used s' f"
      "\<And>g. used s g \<Longrightarrow> used s' g"
  using alloc_total [OF assms] alloc_ok [OF assms] alloc_null [OF assms] alloc_fresh [OF assms]
    alloc_mono [OF assms] by metis

lemma alloc_frames_spec:
  "ok s \<Longrightarrow> \<exists>fs s'. alloc_frames alloc null n s = Some (fs, s') \<and> ok s' \<and> length fs \<le> n \<and>
     distinct fs \<and> null \<notin> set fs \<and> (\<forall>f. f \<in> set fs \<longrightarrow> \<not> used s f \<and> used s' f) \<and>
     (\<forall>g. used s g \<longrightarrow> used s' g)"
proof (induction n arbitrary: s)
  case 0
  then show ?case by simp
next
  case (Suc n)
  show ?case
  proof (rule alloc_cases [OF Suc.prems])
    assume "alloc s = Some (null, s)"
    then show ?thesis using Suc.prems by simp
  next
    fix f s1
    assume s1: "alloc s = Some (f, s1)" "f \<noteq> null" "ok s1" "\<not> used s f" "used s1 f"
      and mono: "\<And>g. used s g \<Longrightarrow> used s1 g"
    from Suc.IH [OF s1(3)] obtain fs s' where
      fs: "alloc_frames alloc null n s1 = Some (fs, s')" "ok s'" "length fs \<le> n" "distinct fs"
        "null \<notin> set fs" "\<forall>f. f \<in> set fs \<longrightarrow> \<not> used s1 f \<and> used s' f" "\<forall>g. used s1 g \<longrightarrow> used s' g"
      by blast
    then have "f \<notin> set fs" using s1(5) by blast
    then show ?thesis using s1 fs mono by (auto 4 3)
  qed
qed

end

subsection \<open>Correctness of the allocator\<close>

text \<open>
  The states the allocator works in: the bitmap is there and covers the frames it manages, fewer
  than \<open>2^32 - 1\<close> of them (the code compares frame numbers as \<open>int\<close>), and frame 0 is reserved.
\<close>

definition pm_ok :: "phys_mem \<Rightarrow> bool" where
  "pm_ok pm \<longleftrightarrow> bitmap_addr pm \<noteq> 0 \<and> unat (max_blocks pm) \<le> capacity (bitmap_words pm) \<and>
     unat (max_blocks pm) < 2 ^ 32 - 1 \<and> occupied (bitmap_words pm) 0"

definition pm_used :: "phys_mem \<Rightarrow> u64 \<Rightarrow> bool" where
  "pm_used pm addr \<longleftrightarrow> occupied (bitmap_words pm) (unat (addr div PHYS_MEM_BLOCK_SIZE))"

lemma pm_set_in:
  "bitmap_addr pm \<noteq> 0 \<Longrightarrow> unat b < capacity (bitmap_words pm) \<Longrightarrow>
     pm_set pm b = Some (pm\<lparr>bitmap_words := mark (bitmap_words pm) (unat b)\<rparr>)"
  by (simp add: pm_set_def pm_bitmap_def pm_store_def mm_bitmap_set_in)

lemma pm_clear_in:
  "bitmap_addr pm \<noteq> 0 \<Longrightarrow> unat b < capacity (bitmap_words pm) \<Longrightarrow>
     pm_clear pm b = Some (pm\<lparr>bitmap_words := unmark (bitmap_words pm) (unat b)\<rparr>)"
  by (simp add: pm_clear_def pm_bitmap_def pm_store_def mm_bitmap_clear_in)

lemma unat_add_1: "unat (x :: u64) + 1 < 2 ^ 64 \<Longrightarrow> unat (x + 1) = unat x + 1"
  by (subst unat_plus_simple [THEN iffD1]) (auto simp: no_olen_add_nat)

lemma block_size_unat [simp]: "unat PHYS_MEM_BLOCK_SIZE = 4096"
  by (simp add: PHYS_MEM_BLOCK_SIZE_def)

lemma frame_addr:
  assumes "f < 2 ^ 52"
  shows "unat ((of_nat f :: u64) * PHYS_MEM_BLOCK_SIZE) = f * 4096"
    and "(of_nat f :: u64) * PHYS_MEM_BLOCK_SIZE div PHYS_MEM_BLOCK_SIZE = of_nat f"
proof -
  have u: "unat (of_nat f :: u64) = f" using assms by (simp add: unat_of_nat_64)
  then show a: "unat ((of_nat f :: u64) * PHYS_MEM_BLOCK_SIZE) = f * 4096"
    using assms by (subst unat_mult_lem [THEN iffD1]) auto
  show "(of_nat f :: u64) * PHYS_MEM_BLOCK_SIZE div PHYS_MEM_BLOCK_SIZE = of_nat f"
    by (simp add: word_unat_eq_iff unat_div a u)
qed

text \<open>The exact result of an allocation.\<close>

lemma phys_mem_alloc_block_eq:
  assumes "pm_ok pm"
  shows "phys_mem_alloc_block pm =
    Some (case List.find (\<lambda>f. \<not> occupied (bitmap_words pm) f) [0..<64 * (unat (max_blocks pm) div 64)] of
       None \<Rightarrow> (0, pm)
     | Some f \<Rightarrow> (of_nat f * PHYS_MEM_BLOCK_SIZE,
         pm\<lparr>bitmap_words := mark (bitmap_words pm) f, used_blocks := used_blocks pm + 1\<rparr>))"
proof -
  let ?r = "List.find (\<lambda>f. \<not> occupied (bitmap_words pm) f) [0..<64 * (unat (max_blocks pm) div 64)]"
  have ok: "bitmap_addr pm \<noteq> 0" "unat (max_blocks pm) \<le> capacity (bitmap_words pm)"
    "unat (max_blocks pm) < 2 ^ 32 - 1" "occupied (bitmap_words pm) 0"
    using assms by (simp_all add: pm_ok_def)
  have ff: "mm_bitmap_first_free (pm_bitmap pm) (max_blocks pm) = Some (found ?r)"
    using ok by (simp add: pm_bitmap_def mm_bitmap_first_free_spec)
  show ?thesis
  proof (cases "max_blocks pm = 0")
    case True
    then show ?thesis by (simp add: phys_mem_alloc_block_def)
  next
    case nz: False
    show ?thesis
    proof (cases ?r)
      case None
      then show ?thesis using nz ff by (simp add: phys_mem_alloc_block_def)
    next
      case (Some f)
      from find_upt_Some [OF Some] have f: "f < unat (max_blocks pm)" "\<not> occupied (bitmap_words pm) f"
        by auto
      then have f0: "f \<noteq> 0" using ok(4) by (metis (full_types))
      have u: "unat (of_nat f :: u64) = f" using f ok by (simp add: unat_of_nat_64)
      have "unat (ucast (of_nat f :: u64) :: u32) = f"
        using f ok(3) by (simp add: unsigned_ucast_eq take_bit_nat_eq_self unsigned_of_nat)
      then have "\<not> int_is_0 (of_nat f)" using f0 by (auto simp: int_is_0_def)
      moreover have "\<not> int_is_minus1 (of_nat f)" using f ok(3) by (intro of_nat_not_minus1) simp
      moreover have "pm_set pm (of_nat f) = Some (pm\<lparr>bitmap_words := mark (bitmap_words pm) f\<rparr>)"
        using pm_set_in [of pm "of_nat f"] ok f u by simp
      ultimately show ?thesis using nz ff Some by (simp add: phys_mem_alloc_block_def)
    qed
  qed
qed

lemma phys_mem_alloc_block_cases:
  assumes "pm_ok pm"
  obtains (full) "phys_mem_alloc_block pm = Some (0, pm)"
      "\<And>f. f < 64 * (unat (max_blocks pm) div 64) \<Longrightarrow> occupied (bitmap_words pm) f"
  | (got) f where "phys_mem_alloc_block pm = Some (of_nat f * PHYS_MEM_BLOCK_SIZE,
        pm\<lparr>bitmap_words := mark (bitmap_words pm) f, used_blocks := used_blocks pm + 1\<rparr>)"
      "0 < f" "f < unat (max_blocks pm)" "f < capacity (bitmap_words pm)" "f < 2 ^ 52"
      "\<not> occupied (bitmap_words pm) f" "\<And>g. g < f \<Longrightarrow> occupied (bitmap_words pm) g"
proof (cases "List.find (\<lambda>f. \<not> occupied (bitmap_words pm) f) [0..<64 * (unat (max_blocks pm) div 64)]")
  case None
  then have "phys_mem_alloc_block pm = Some (0, pm)"
    using phys_mem_alloc_block_eq [OF assms] by simp
  then show thesis using None by (intro full) (auto simp: find_None_iff)
next
  case (Some f)
  from find_upt_Some [OF Some] have f: "f < unat (max_blocks pm)" "\<not> occupied (bitmap_words pm) f"
    "\<And>g. g < f \<Longrightarrow> occupied (bitmap_words pm) g" by auto
  moreover have "0 < f" using f(2) assms by (metis gr0I pm_ok_def)
  ultimately show thesis
    using phys_mem_alloc_block_eq [OF assms] Some assms got [of f] by (auto simp: pm_ok_def)
qed

lemma pm_ok_mark:
  "pm_ok pm \<Longrightarrow> f < capacity (bitmap_words pm) \<Longrightarrow>
     pm_ok (pm\<lparr>bitmap_words := mark (bitmap_words pm) f, used_blocks := u\<rparr>)"
  by (simp add: pm_ok_def occupied_mark)

lemma pm_used_addr:
  "f < 2 ^ 52 \<Longrightarrow> pm_used pm (of_nat f * PHYS_MEM_BLOCK_SIZE) \<longleftrightarrow> occupied (bitmap_words pm) f"
  by (simp add: pm_used_def frame_addr(2) unat_of_nat_64)

lemma frame_addr_neq_0: "0 < f \<Longrightarrow> f < 2 ^ 52 \<Longrightarrow> (of_nat f :: u64) * PHYS_MEM_BLOCK_SIZE \<noteq> 0"
proof
  assume "0 < f" "f < 2 ^ 52" "(of_nat f :: u64) * PHYS_MEM_BLOCK_SIZE = 0"
  then show False using frame_addr(1) [of f] by simp
qed

interpretation pmm: frame_source phys_mem_alloc_block 0 pm_used pm_ok
proof unfold_locales
  fix s assume ok: "pm_ok s"
  show "\<exists>f s'. phys_mem_alloc_block s = Some (f, s')"
    by (rule phys_mem_alloc_block_cases [OF ok]) auto
  fix f s' assume al: "phys_mem_alloc_block s = Some (f, s')"
  show "pm_ok s'"
    by (rule phys_mem_alloc_block_cases [OF ok]) (use al ok in \<open>auto simp: pm_ok_mark\<close>)
  { assume "f \<noteq> 0"
    show "\<not> pm_used s f \<and> pm_used s' f"
      by (rule phys_mem_alloc_block_cases [OF ok])
        (use al ok \<open>f \<noteq> 0\<close> in \<open>auto simp: pm_used_addr occupied_mark\<close>) }
  { fix g assume g: "pm_used s g"
    show "pm_used s' g"
      by (rule phys_mem_alloc_block_cases [OF ok]) (use al g in \<open>auto simp: pm_used_def occupied_mark\<close>) }
next
  fix s s' assume ok: "pm_ok s" and al: "phys_mem_alloc_block s = Some (0, s')"
  show "s' = s"
    by (rule phys_mem_alloc_block_cases [OF ok]) (use al in \<open>auto simp: frame_addr_neq_0\<close>)
qed

subsection \<open>Runs of blocks\<close>

lemma set_blocks_eq:
  "bitmap_addr pm \<noteq> 0 \<Longrightarrow> unat f + k \<le> capacity (bitmap_words pm) \<Longrightarrow> unat f + k < 2 ^ 64 \<Longrightarrow>
     set_blocks pm f k =
       Some (pm\<lparr>bitmap_words := fold (\<lambda>g m. mark m g) [unat f..<unat f + k] (bitmap_words pm)\<rparr>)"
proof (induction k arbitrary: pm f)
  case (Suc k)
  then show ?case
    by (simp add: pm_set_in unat_add_1 upt_conv_Cons [of "unat f"] del: upt_Suc)
qed simp

lemma clear_blocks_eq:
  "bitmap_addr pm \<noteq> 0 \<Longrightarrow> unat f + k \<le> capacity (bitmap_words pm) \<Longrightarrow> unat f + k < 2 ^ 64 \<Longrightarrow>
     clear_blocks pm f k =
       Some (pm\<lparr>bitmap_words := fold (\<lambda>g m. unmark m g) [unat f..<unat f + k] (bitmap_words pm)\<rparr>)"
proof (induction k arbitrary: pm f)
  case (Suc k)
  then show ?case
    by (simp add: pm_clear_in unat_add_1 upt_conv_Cons [of "unat f"] del: upt_Suc)
qed simp

lemma init_blocks_eq:
  "bitmap_addr pm \<noteq> 0 \<Longrightarrow> unat f + k \<le> capacity (bitmap_words pm) \<Longrightarrow> unat f + k < 2 ^ 64 \<Longrightarrow>
     init_blocks pm f k =
       Some (pm\<lparr>bitmap_words := fold (\<lambda>g m. unmark m g) [unat f..<unat f + k] (bitmap_words pm),
                used_blocks := used_blocks pm - of_nat k\<rparr>)"
proof (induction k arbitrary: pm f)
  case (Suc k)
  then show ?case
    by (simp add: pm_clear_in unat_add_1 upt_conv_Cons [of "unat f"] del: upt_Suc)
qed simp

lemma deinit_blocks_eq:
  "bitmap_addr pm \<noteq> 0 \<Longrightarrow> unat f + k \<le> capacity (bitmap_words pm) \<Longrightarrow> unat f + k < 2 ^ 64 \<Longrightarrow>
     deinit_blocks pm f k =
       Some (pm\<lparr>bitmap_words := fold (\<lambda>g m. mark m g) [unat f..<unat f + k] (bitmap_words pm),
                used_blocks := used_blocks pm - of_nat k\<rparr>)"
proof (induction k arbitrary: pm f)
  case (Suc k)
  then show ?case
    by (simp add: pm_set_in unat_add_1 upt_conv_Cons [of "unat f"] del: upt_Suc)
qed simp

lemma occupied_mark_range:
  "f + k \<le> capacity bm \<Longrightarrow>
     occupied (fold (\<lambda>g m. mark m g) [f..<f + k] bm) g \<longleftrightarrow> occupied bm g \<or> slot g \<in> slot ` {f..<f + k}"
  using bmap.occ_fold_mrk [of "[f..<f + k]" bm g] by simp

lemma occupied_unmark_range:
  "f + k \<le> capacity bm \<Longrightarrow>
     occupied (fold (\<lambda>g m. unmark m g) [f..<f + k] bm) g \<longleftrightarrow> occupied bm g \<and> slot g \<notin> slot ` {f..<f + k}"
  using bmap.occ_fold_clr [of "[f..<f + k]" bm g] by simp

text \<open>The exact result of an allocation of several blocks: first fit.\<close>

lemma phys_mem_alloc_blocks_eq:
  assumes ok: "pm_ok pm" and whole: "unat (max_blocks pm) mod 64 = 0"
    and n: "0 < unat n" "unat n \<le> unat (max_blocks pm)"
  shows "phys_mem_alloc_blocks pm n =
    Some (case List.find (free_run (bitmap_words pm) (unat n)) [0..<unat (max_blocks pm) + 1 - unat n] of
       None \<Rightarrow> (0, pm)
     | Some f \<Rightarrow> (of_nat f * PHYS_MEM_BLOCK_SIZE,
         pm\<lparr>bitmap_words := fold (\<lambda>g m. mark m g) [f..<f + unat n] (bitmap_words pm),
            used_blocks := used_blocks pm + n\<rparr>))"
proof -
  let ?r = "List.find (free_run (bitmap_words pm) (unat n)) [0..<unat (max_blocks pm) + 1 - unat n]"
  have ok': "bitmap_addr pm \<noteq> 0" "unat (max_blocks pm) \<le> capacity (bitmap_words pm)"
    "unat (max_blocks pm) < 2 ^ 32 - 1"
    using ok by (simp_all add: pm_ok_def)
  have nz: "n \<noteq> 0" using n by auto
  have le: "\<not> max_blocks pm < n" using n by (simp add: word_less_nat_alt)
  have ff: "mm_bitmap_first_free_s (pm_bitmap pm) (max_blocks pm) n = Some (found ?r)"
    using ok' whole nz by (simp add: pm_bitmap_def mm_bitmap_first_free_s_spec)
  show ?thesis
  proof (cases ?r)
    case None
    then show ?thesis using le ff by (simp add: phys_mem_alloc_blocks_def)
  next
    case (Some f)
    from find_upt_Some [OF Some] have f: "f + unat n \<le> unat (max_blocks pm)" by auto
    have u: "unat (of_nat f :: u64) = f" using f ok' by (simp add: unat_of_nat_64)
    have "\<not> int_is_minus1 (of_nat f)" using f ok' n by (intro of_nat_not_minus1) simp
    moreover have "set_blocks pm (of_nat f) (unat n)
        = Some (pm\<lparr>bitmap_words := fold (\<lambda>g m. mark m g) [f..<f + unat n] (bitmap_words pm)\<rparr>)"
      using set_blocks_eq [of pm "of_nat f" "unat n"] ok' f u by simp
    ultimately show ?thesis using le ff Some by (simp add: phys_mem_alloc_blocks_def)
  qed
qed

subsection \<open>Initialisation\<close>

definition region_fits :: "phys_mem \<Rightarrow> u64 \<Rightarrow> u64 \<Rightarrow> bool" where
  "region_fits pm base sz \<longleftrightarrow>
     unat (base div PHYS_MEM_BLOCK_SIZE) + unat (blocks_of_size sz) \<le> unat (max_blocks pm)"

definition region_frames :: "u64 \<Rightarrow> u64 \<Rightarrow> nat set" where
  "region_frames base sz =
     {unat (base div PHYS_MEM_BLOCK_SIZE) ..< unat (base div PHYS_MEM_BLOCK_SIZE) + unat (blocks_of_size sz)}"

lemma pm_ok_bounds:
  assumes "pm_ok pm" and "region_fits pm base sz"
  shows "bitmap_addr pm \<noteq> 0"
    and "unat (base div PHYS_MEM_BLOCK_SIZE) + unat (blocks_of_size sz) \<le> capacity (bitmap_words pm)"
    and "unat (base div PHYS_MEM_BLOCK_SIZE) + unat (blocks_of_size sz) < 2 ^ 64"
    and "0 < capacity (bitmap_words pm) \<or> unat (blocks_of_size sz) = 0"
  using assms by (auto simp: pm_ok_def region_fits_def)

lemma phys_mem_deinit_region_spec:
  assumes ok: "pm_ok pm" and fits: "region_fits pm base sz"
  shows "\<exists>pm'. phys_mem_deinit_region pm base sz = Some pm' \<and> pm_ok pm' \<and>
     max_blocks pm' = max_blocks pm \<and> bitmap_addr pm' = bitmap_addr pm \<and>
     used_blocks pm' = used_blocks pm - blocks_of_size sz \<and>
     (\<forall>g. occupied (bitmap_words pm') g \<longleftrightarrow>
        occupied (bitmap_words pm) g \<or> slot g \<in> slot ` region_frames base sz)"
  using deinit_blocks_eq [OF pm_ok_bounds(1,2,3) [OF assms]] ok pm_ok_bounds(2) [OF assms]
  by (auto simp: phys_mem_deinit_region_def pm_ok_def occupied_mark_range region_frames_def)

lemma phys_mem_init_region_spec:
  assumes ok: "pm_ok pm" and fits: "region_fits pm base sz" and ne: "0 < unat (max_blocks pm)"
  shows "\<exists>pm'. phys_mem_init_region pm base sz = Some pm' \<and> pm_ok pm' \<and>
     max_blocks pm' = max_blocks pm \<and> bitmap_addr pm' = bitmap_addr pm \<and>
     (\<forall>g. occupied (bitmap_words pm') g \<longleftrightarrow>
        occupied (bitmap_words pm) g \<and> slot g \<notin> slot ` region_frames base sz \<or> slot g = slot 0)"
proof -
  let ?fs = "[unat (base div PHYS_MEM_BLOCK_SIZE)..<unat (base div PHYS_MEM_BLOCK_SIZE) + unat (blocks_of_size sz)]"
  let ?bm = "fold (\<lambda>g m. unmark m g) ?fs (bitmap_words pm)"
  have cap: "0 < capacity (bitmap_words pm)" using ok ne by (simp add: pm_ok_def)
  have in0: "init_blocks pm (base div PHYS_MEM_BLOCK_SIZE) (unat (blocks_of_size sz))
      = Some (pm\<lparr>bitmap_words := ?bm, used_blocks := used_blocks pm - blocks_of_size sz\<rparr>)"
    using init_blocks_eq [OF pm_ok_bounds(1,2,3) [OF ok fits]] by simp
  have occ: "occupied ?bm g \<longleftrightarrow> occupied (bitmap_words pm) g \<and> slot g \<notin> slot ` region_frames base sz" for g
    using pm_ok_bounds(2) [OF ok fits] by (simp add: occupied_unmark_range region_frames_def)
  show ?thesis
    using ok cap occ
    by (auto simp: phys_mem_init_region_def in0 pm_set_in pm_ok_def occupied_mark)
qed

lemma init_regions_spec:
  assumes "pm_ok pm" and "0 < unat (max_blocks pm)"
    and "\<And>r. r \<in> set rs \<Longrightarrow> region_addr r \<noteq> 0 \<Longrightarrow> region_fits pm (region_addr r) (region_len r)"
  shows "\<exists>pm'. init_regions pm rs = Some pm' \<and> pm_ok pm' \<and> max_blocks pm' = max_blocks pm \<and>
     bitmap_addr pm' = bitmap_addr pm"
  using assms
proof (induction rs arbitrary: pm)
  case (Cons r rs)
  have fits: "\<And>q pm'. max_blocks pm' = max_blocks pm \<Longrightarrow> q \<in> set rs \<Longrightarrow> region_addr q \<noteq> 0 \<Longrightarrow>
      region_fits pm' (region_addr q) (region_len q)"
    using Cons.prems(3) by (simp add: region_fits_def)
  show ?case
  proof (cases "region_addr r = 0")
    case True
    then show ?thesis using Cons by simp
  next
    case False
    then have "region_fits pm (region_addr r) (region_len r)" using Cons.prems(3) by simp
    then obtain pm1 where pm1: "phys_mem_init_region pm (region_addr r) (region_len r) = Some pm1"
      "pm_ok pm1" "max_blocks pm1 = max_blocks pm" "bitmap_addr pm1 = bitmap_addr pm"
      using phys_mem_init_region_spec Cons.prems(1,2) by blast
    then have "\<exists>pm'. init_regions pm1 rs = Some pm' \<and> pm_ok pm' \<and> max_blocks pm' = max_blocks pm1 \<and>
        bitmap_addr pm' = bitmap_addr pm1"
      using Cons.prems(2) fits by (intro Cons.IH) auto
    then show ?thesis using False pm1 by simp
  qed
qed simp

text \<open>The memory map a boot loader may hand over: everything lies below the end of memory.\<close>

definition mi_blocks :: "memory_info \<Rightarrow> u64" where
  "mi_blocks mi = align_up (mi_memory_size mi) PHYS_MEM_BLOCK_SIZE div PHYS_MEM_BLOCK_SIZE"

definition mi_bitmap :: "memory_info \<Rightarrow> u64" where
  "mi_bitmap mi = align_up (mi_kernel_end mi) PHYS_MEM_BLOCK_SIZE"

definition in_memory :: "memory_info \<Rightarrow> u64 \<Rightarrow> u64 \<Rightarrow> bool" where
  "in_memory mi base sz \<longleftrightarrow>
     unat (base div PHYS_MEM_BLOCK_SIZE) + unat (blocks_of_size sz) \<le> unat (mi_blocks mi)"

definition mi_ok :: "memory_info \<Rightarrow> bool" where
  "mi_ok mi \<longleftrightarrow> 0 < unat (mi_blocks mi) \<and> unat (mi_blocks mi) < 2 ^ 32 - 1 \<and> mi_bitmap mi \<noteq> 0 \<and>
     (\<forall>r \<in> set (mi_regions mi). region_addr r \<noteq> 0 \<longrightarrow> in_memory mi (region_addr r) (region_len r)) \<and>
     in_memory mi (mi_kernel_load_addr mi) (mi_kernel_size mi) \<and>
     in_memory mi (mi_bitmap mi) (mi_blocks mi div PHYS_MEM_BLOCKS_PER_BYTE)"

lemma sint_ucast_small: "unat (x :: u64) < 2 ^ 31 \<Longrightarrow> nat (sint (ucast x :: u32)) = unat x"
proof -
  assume x: "unat x < 2 ^ 31"
  then have u: "unat (ucast x :: u32) = unat x"
    by (simp add: unsigned_ucast_eq take_bit_nat_eq_self)
  then have "uint (ucast x :: u32) = int (unat x)" by (metis uint_nat)
  moreover have "sint (ucast x :: u32) = signed_take_bit 31 (uint (ucast x :: u32))"
    by (simp add: sint_uint)
  moreover have "\<And>n. n < 2 ^ 31 \<Longrightarrow> signed_take_bit 31 (int n) = int n"
    by (rule signed_take_bit_int_eq_self) auto
  then have "signed_take_bit 31 (int (unat x)) = int (unat x)" using x by blast
  ultimately show ?thesis by simp
qed

text \<open>\<open>0\<close> is occupied in a fresh bitmap, whose words are all ones.\<close>

lemma occupied_replicate: "f < 64 * n \<Longrightarrow> occupied (replicate n 0xFFFFFFFFFFFFFFFF) f"
proof -
  assume "f < 64 * n"
  then have "f div 64 < n" by (simp add: less_mult_imp_div_less mult.commute)
  moreover have "(0xFFFFFFFFFFFFFFFF :: u64) AND int_shl1 (f mod 64) \<noteq> 0"
    using first_clear_bit_all_ones by (auto simp: first_clear_bit_def find_None_iff)
  ultimately show ?thesis by (simp add: occupied_def)
qed

definition fresh_pm :: "memory_info \<Rightarrow> phys_mem" where
  "fresh_pm mi = \<lparr>memory_size = mi_memory_size mi, used_blocks = mi_blocks mi, max_blocks = mi_blocks mi,
     bitmap_addr = mi_bitmap mi,
     bitmap_words = replicate ((unat (mi_blocks mi) + 63) div 64) 0xFFFFFFFFFFFFFFFF\<rparr>"

lemma fresh_pm_ok: "mi_ok mi \<Longrightarrow> pm_ok (fresh_pm mi)"
  by (auto simp: mi_ok_def pm_ok_def fresh_pm_def capacity_def intro!: occupied_replicate)

lemma phys_mem_init_unfold:
  assumes "mi_ok mi"
  shows "phys_mem_init mi = do {
      pm1 \<leftarrow> init_regions (fresh_pm mi) (mi_regions mi);
      pm2 \<leftarrow> phys_mem_deinit_region pm1 (mi_kernel_load_addr mi) (mi_kernel_size mi);
      phys_mem_deinit_region pm2 (bitmap_addr pm2) (max_blocks pm2 div PHYS_MEM_BLOCKS_PER_BYTE)
    }"
proof -
  have b: "unat (mi_blocks mi) < 2 ^ 32 - 1" using assms by (simp add: mi_ok_def)
  have s: "unat (mi_blocks mi + 63) = unat (mi_blocks mi) + 63"
    using b by (subst unat_plus_simple [THEN iffD1]) (auto simp: no_olen_add_nat)
  have e: "unat ((mi_blocks mi + 63) div 64) = (unat (mi_blocks mi) + 63) div 64"
    by (simp add: s)
  have "nat (sint (ucast ((mi_blocks mi + 63) div 64) :: u32)) = (unat (mi_blocks mi) + 63) div 64"
    using sint_ucast_small [of "(mi_blocks mi + 63) div 64"] b by (simp add: s)
  then show ?thesis
    by (simp add: phys_mem_init_def fresh_pm_def Let_def mi_blocks_def mi_bitmap_def)
qed

lemma in_memory_fits: "max_blocks pm = mi_blocks mi \<Longrightarrow> in_memory mi base sz = region_fits pm base sz"
  by (simp add: in_memory_def region_fits_def)

subsection \<open>Properties\<close>

text \<open>
  C8: in a sound state an allocation is always defined. Either it returns null, and then the state
  is unchanged and every frame of the whole bitmap words is in use, or it returns the address of
  the lowest unused frame, which is not frame 0 and lies in memory, and exactly that frame's slot
  becomes used and is counted.
\<close>

theorem phys_mem_alloc_block_correct:
  assumes "pm_ok pm"
  shows "(phys_mem_alloc_block pm = Some (0, pm) \<and>
      (\<forall>f. f < 64 * (unat (max_blocks pm) div 64) \<longrightarrow> occupied (bitmap_words pm) f)) \<or>
    (\<exists>f pm'. phys_mem_alloc_block pm = Some (of_nat f * 4096, pm') \<and> pm_ok pm' \<and>
      0 < f \<and> f < unat (max_blocks pm) \<and> unat (of_nat f * 4096 :: u64) = f * 4096 \<and>
      \<not> occupied (bitmap_words pm) f \<and> (\<forall>g. g < f \<longrightarrow> occupied (bitmap_words pm) g) \<and>
      (\<forall>g. occupied (bitmap_words pm') g \<longleftrightarrow> occupied (bitmap_words pm) g \<or> slot g = slot f) \<and>
      used_blocks pm' = used_blocks pm + 1 \<and> max_blocks pm' = max_blocks pm)"
proof (rule phys_mem_alloc_block_cases [OF assms])
  fix f
  let ?pm' = "pm\<lparr>bitmap_words := mark (bitmap_words pm) f, used_blocks := used_blocks pm + 1\<rparr>"
  assume "phys_mem_alloc_block pm = Some (of_nat f * PHYS_MEM_BLOCK_SIZE, ?pm')"
    and f: "0 < f" "f < unat (max_blocks pm)" "f < capacity (bitmap_words pm)" "f < 2 ^ 52"
      "\<not> occupied (bitmap_words pm) f" "\<And>g. g < f \<Longrightarrow> occupied (bitmap_words pm) g"
  then have al: "phys_mem_alloc_block pm = Some (of_nat f * 4096, ?pm')"
    by (simp add: PHYS_MEM_BLOCK_SIZE_def)
  have "unat (of_nat f * 4096 :: u64) = f * 4096"
    using frame_addr(1) [OF f(4)] by (simp add: PHYS_MEM_BLOCK_SIZE_def)
  then show ?thesis
    using al f pm_ok_mark [OF assms f(3)]
    by (intro disjI2 exI [of _ f] exI [of _ ?pm']) (simp add: occupied_mark)
qed blast

definition pm_example :: phys_mem where
  "pm_example = \<lparr>memory_size = 262144, used_blocks = 2, max_blocks = 64, bitmap_addr = 4096,
     bitmap_words = [3]\<rparr>"

lemma pm_example_ok: "pm_ok pm_example"
  by (simp add: pm_ok_def pm_example_def capacity_def occupied_def int_shl1_small)

lemma pm_example_alloc:
  "phys_mem_alloc_block pm_example = Some (8192, pm_example\<lparr>bitmap_words := [7], used_blocks := 3\<rparr>)"
  by code_simp

theorem phys_mem_alloc_block_correct_witness:
  "pm_ok pm_example \<and> (\<exists>f pm'. phys_mem_alloc_block pm_example = Some (of_nat f * 4096, pm') \<and> 0 < f)"
proof -
  have "phys_mem_alloc_block pm_example \<noteq> Some (0, pm_example)" by (simp add: pm_example_alloc)
  then show ?thesis
    using phys_mem_alloc_block_correct [OF pm_example_ok] pm_example_ok by blast
qed

text \<open>
  A loop of \<open>n\<close> allocations (as the heap and the page tables run it) returns distinct
  non-null frames, none of which was in use before and all of which are in use afterwards; it
  never loses a frame that was in use.
\<close>

theorem phys_mem_allocations_distinct:
  assumes "pm_ok pm"
  shows "\<exists>fs pm'. alloc_frames phys_mem_alloc_block 0 n pm = Some (fs, pm') \<and> pm_ok pm' \<and>
    distinct fs \<and> 0 \<notin> set fs \<and> (\<forall>f. f \<in> set fs \<longrightarrow> \<not> pm_used pm f \<and> pm_used pm' f) \<and>
    (\<forall>g. pm_used pm g \<longrightarrow> pm_used pm' g)"
  using pmm.alloc_frames_spec [OF assms, of n] by blast

theorem phys_mem_allocations_distinct_witness:
  "pm_ok pm_example \<and> (\<exists>fs pm'. alloc_frames phys_mem_alloc_block 0 40 pm_example = Some (fs, pm') \<and> distinct fs)"
  using phys_mem_allocations_distinct [OF pm_example_ok, of 40] pm_example_ok by blast

text \<open>
  Freeing the block an allocation returned restores the allocator: the same frames are in use
  as before the allocation and the count of used blocks is the old one.
\<close>

theorem phys_mem_alloc_free_roundtrip:
  assumes ok: "pm_ok pm" and al: "phys_mem_alloc_block pm = Some (a, pm')" and "a \<noteq> 0"
  shows "\<exists>pm''. phys_mem_free_block pm' a = Some pm'' \<and> pm_ok pm'' \<and>
    used_blocks pm'' = used_blocks pm \<and> (\<forall>g. occupied (bitmap_words pm'') g = occupied (bitmap_words pm) g)"
proof (rule phys_mem_alloc_block_cases [OF ok])
  fix f
  assume f: "phys_mem_alloc_block pm = Some (of_nat f * PHYS_MEM_BLOCK_SIZE,
        pm\<lparr>bitmap_words := mark (bitmap_words pm) f, used_blocks := used_blocks pm + 1\<rparr>)"
    "0 < f" "f < unat (max_blocks pm)" "f < capacity (bitmap_words pm)" "f < 2 ^ 52"
    "\<not> occupied (bitmap_words pm) f"
  let ?bm = "unmark (mark (bitmap_words pm) f) f"
  have occ: "occupied ?bm g = occupied (bitmap_words pm) g" for g
    using bmap.clr_mrk_same [OF f(4,6)] occupied_slot by blast
  have u: "unat (of_nat f :: u64) = f" using f(5) by (simp add: unat_of_nat_64)
  have a: "a = of_nat f * PHYS_MEM_BLOCK_SIZE"
    and pm': "pm' = pm\<lparr>bitmap_words := mark (bitmap_words pm) f, used_blocks := used_blocks pm + 1\<rparr>"
    using al f(1) by simp_all
  have "phys_mem_free_block pm' a = Some (pm\<lparr>bitmap_words := ?bm\<rparr>)"
    using f ok by (simp add: a pm' phys_mem_free_block_def frame_addr(2) pm_clear_in u pm_ok_def)
  then show ?thesis using ok occ by (simp add: pm_ok_def)
qed (use al \<open>a \<noteq> 0\<close> in simp)

theorem phys_mem_alloc_free_roundtrip_witness:
  "\<exists>a pm' pm''. phys_mem_alloc_block pm_example = Some (a, pm') \<and> a \<noteq> 0 \<and>
     phys_mem_free_block pm' a = Some pm'' \<and> used_blocks pm'' = 2"
proof -
  have "used_blocks pm_example = 2" by (simp add: pm_example_def)
  then show ?thesis
    using phys_mem_alloc_free_roundtrip [OF pm_example_ok pm_example_alloc] pm_example_alloc by auto
qed

text \<open>
  An allocation of \<open>n\<close> blocks is first fit: it returns null exactly when no run of \<open>n\<close> unused
  frames exists, and otherwise the lowest such run, all of whose frames are in use afterwards.
  Freeing the run gives back the state the allocation started from.
\<close>

theorem phys_mem_alloc_blocks_first_fit:
  assumes ok: "pm_ok pm" and whole: "unat (max_blocks pm) mod 64 = 0"
    and n: "0 < unat n" "unat n \<le> unat (max_blocks pm)"
  shows "(phys_mem_alloc_blocks pm n = Some (0, pm) \<and>
      (\<forall>f. f + unat n \<le> unat (max_blocks pm) \<longrightarrow> \<not> free_run (bitmap_words pm) (unat n) f)) \<or>
    (\<exists>f pm' pm''. phys_mem_alloc_blocks pm n = Some (of_nat f * PHYS_MEM_BLOCK_SIZE, pm') \<and>
      f + unat n \<le> unat (max_blocks pm) \<and> free_run (bitmap_words pm) (unat n) f \<and>
      (\<forall>g. g < f \<longrightarrow> \<not> free_run (bitmap_words pm) (unat n) g) \<and>
      (\<forall>g. f \<le> g \<longrightarrow> g < f + unat n \<longrightarrow> occupied (bitmap_words pm') g) \<and>
      phys_mem_free_blocks pm' (of_nat f * PHYS_MEM_BLOCK_SIZE) n = Some pm'' \<and>
      used_blocks pm'' = used_blocks pm \<and>
      (\<forall>g. occupied (bitmap_words pm'') g = occupied (bitmap_words pm) g))"
proof (cases "List.find (free_run (bitmap_words pm) (unat n)) [0..<unat (max_blocks pm) + 1 - unat n]")
  case None
  have al: "phys_mem_alloc_blocks pm n = Some (0, pm)"
    using phys_mem_alloc_blocks_eq [OF assms] None by simp
  have "\<not> free_run (bitmap_words pm) (unat n) f" if "f + unat n \<le> unat (max_blocks pm)" for f
  proof -
    have "f \<in> set [0..<unat (max_blocks pm) + 1 - unat n]" using that by simp
    then show ?thesis using None by (simp only: find_None_iff) blast
  qed
  then show ?thesis using al by blast
next
  case (Some f)
  let ?bm = "bitmap_words pm" and ?n = "unat n"
  let ?bm' = "fold (\<lambda>g m. mark m g) [f..<f + ?n] ?bm"
  let ?bm'' = "fold (\<lambda>g m. unmark m g) [f..<f + ?n] ?bm'"
  let ?pm' = "pm\<lparr>bitmap_words := ?bm', used_blocks := used_blocks pm + n\<rparr>"
  from find_upt_Some [OF Some] have f: "f + ?n \<le> unat (max_blocks pm)" "free_run ?bm ?n f"
    "\<And>g. g < f \<Longrightarrow> \<not> free_run ?bm ?n g" by auto
  have cap: "f + ?n \<le> capacity ?bm" and big: "f + ?n < 2 ^ 52" using f ok by (auto simp: pm_ok_def)
  have u: "unat (of_nat f :: u64) = f" using big by (simp add: unat_of_nat_64)
  have occ: "occupied ?bm'' g = occupied ?bm g" for g
  proof (rule bmap.fold_clr_fold_mrk)
    show "h < capacity ?bm" and "\<not> occupied ?bm h" if "h \<in> set [f..<f + ?n]" for h
      using that cap f(2) by (auto simp: free_run_def)
    show "occupied ?bm h = occupied ?bm h'" if "slot h = slot h'" for h h'
      using that by (rule occupied_slot)
  qed
  have free: "phys_mem_free_blocks ?pm' (of_nat f * PHYS_MEM_BLOCK_SIZE) n = Some (pm\<lparr>bitmap_words := ?bm''\<rparr>)"
    using clear_blocks_eq [of ?pm' "of_nat f" ?n] ok cap big
    by (simp add: phys_mem_free_blocks_def frame_addr(2) u pm_ok_def)
  have used: "\<And>g. f \<le> g \<Longrightarrow> g < f + ?n \<Longrightarrow> occupied ?bm' g"
    using cap by (auto simp: occupied_mark_range)
  have al: "phys_mem_alloc_blocks pm n = Some (of_nat f * PHYS_MEM_BLOCK_SIZE, ?pm')"
    using phys_mem_alloc_blocks_eq [OF assms] Some by simp
  show ?thesis
    by (intro disjI2 exI [of _ f] exI [of _ ?pm'] exI [of _ "pm\<lparr>bitmap_words := ?bm''\<rparr>"] conjI allI impI)
      (use al f free used occ in simp_all)
qed

theorem phys_mem_alloc_blocks_first_fit_witness:
  "\<exists>f pm'. phys_mem_alloc_blocks pm_example 3 = Some (of_nat f * PHYS_MEM_BLOCK_SIZE, pm') \<and>
     free_run (bitmap_words pm_example) 3 f"
proof -
  have "phys_mem_alloc_blocks pm_example 3 \<noteq> Some (0, pm_example)" by code_simp
  moreover have "unat (max_blocks pm_example) = 64" by (simp add: pm_example_def)
  ultimately show ?thesis
    using phys_mem_alloc_blocks_first_fit [OF pm_example_ok, of 3] by auto
qed

text \<open>
  For a memory map that lies below the end of memory, initialisation is defined and gives a
  sound state in which the frames of the kernel image and of the bitmap itself are in use, so
  that no allocation ever returns one of them.
\<close>

theorem phys_mem_init_reserves:
  assumes "mi_ok mi"
  shows "\<exists>pm. phys_mem_init mi = Some pm \<and> pm_ok pm \<and> max_blocks pm = mi_blocks mi \<and>
    (\<forall>f. f \<in> region_frames (mi_kernel_load_addr mi) (mi_kernel_size mi) \<longrightarrow> occupied (bitmap_words pm) f) \<and>
    (\<forall>f. f \<in> region_frames (mi_bitmap mi) (mi_blocks mi div 8) \<longrightarrow> occupied (bitmap_words pm) f)"
proof -
  have mi: "0 < unat (mi_blocks mi)"
    "\<And>r. r \<in> set (mi_regions mi) \<Longrightarrow> region_addr r \<noteq> 0 \<Longrightarrow> in_memory mi (region_addr r) (region_len r)"
    "in_memory mi (mi_kernel_load_addr mi) (mi_kernel_size mi)"
    "in_memory mi (mi_bitmap mi) (mi_blocks mi div PHYS_MEM_BLOCKS_PER_BYTE)"
    using assms by (auto simp: mi_ok_def)
  have fresh: "max_blocks (fresh_pm mi) = mi_blocks mi" "bitmap_addr (fresh_pm mi) = mi_bitmap mi"
    by (simp_all add: fresh_pm_def)
  obtain pm1 where pm1: "init_regions (fresh_pm mi) (mi_regions mi) = Some pm1" "pm_ok pm1"
    "max_blocks pm1 = mi_blocks mi" "bitmap_addr pm1 = mi_bitmap mi"
    using init_regions_spec [OF fresh_pm_ok [OF assms], of "mi_regions mi"] mi fresh
    by (auto simp: in_memory_fits)
  then obtain pm2 where pm2:
    "phys_mem_deinit_region pm1 (mi_kernel_load_addr mi) (mi_kernel_size mi) = Some pm2" "pm_ok pm2"
    "max_blocks pm2 = mi_blocks mi" "bitmap_addr pm2 = mi_bitmap mi"
    "\<And>g. occupied (bitmap_words pm2) g \<longleftrightarrow> occupied (bitmap_words pm1) g \<or>
       slot g \<in> slot ` region_frames (mi_kernel_load_addr mi) (mi_kernel_size mi)"
    using phys_mem_deinit_region_spec [OF pm1(2)] mi(3) by (metis in_memory_fits)
  obtain pm3 where pm3:
    "phys_mem_deinit_region pm2 (mi_bitmap mi) (mi_blocks mi div PHYS_MEM_BLOCKS_PER_BYTE) = Some pm3"
    "pm_ok pm3" "max_blocks pm3 = mi_blocks mi"
    "\<And>g. occupied (bitmap_words pm3) g \<longleftrightarrow> occupied (bitmap_words pm2) g \<or>
       slot g \<in> slot ` region_frames (mi_bitmap mi) (mi_blocks mi div PHYS_MEM_BLOCKS_PER_BYTE)"
    using phys_mem_deinit_region_spec [OF pm2(2)] mi(4) pm2(3) by (metis in_memory_fits)
  have "phys_mem_init mi = Some pm3"
    using pm1 pm2 pm3 by (simp add: phys_mem_init_unfold [OF assms])
  then show ?thesis using pm2(5) pm3 by (auto simp: PHYS_MEM_BLOCKS_PER_BYTE_def)
qed

definition mi_example :: memory_info where
  "mi_example = \<lparr>mi_memory_size = 262144, mi_regions = [\<lparr>region_addr = 4096, region_len = 200704\<rparr>],
     mi_kernel_load_addr = 8192, mi_kernel_size = 8192, mi_kernel_end = 16384\<rparr>"

theorem phys_mem_init_reserves_witness:
  "mi_ok mi_example \<and> (\<exists>pm. phys_mem_init mi_example = Some pm \<and> occupied (bitmap_words pm) 2)"
proof -
  have ok: "mi_ok mi_example"
  proof -
    have n: "mi_blocks mi_example = 64" and b: "mi_bitmap mi_example = 16384"
      and sizes: "blocks_of_size 200704 = 49" "blocks_of_size 8192 = 2" "blocks_of_size 8 = 1"
      by code_simp+
    show ?thesis
      by (simp add: mi_ok_def in_memory_def n b sizes PHYS_MEM_BLOCKS_PER_BYTE_def PHYS_MEM_BLOCK_SIZE_def)
        (simp add: mi_example_def sizes)
  qed
  have "2 \<in> region_frames (mi_kernel_load_addr mi_example) (mi_kernel_size mi_example)"
    by (simp add: region_frames_def mi_example_def PHYS_MEM_BLOCK_SIZE_def) code_simp
  then show ?thesis using phys_mem_init_reserves [OF ok] ok by blast
qed

text \<open>
  Freeing one block also frees the frame 32 away in the same bitmap word, whoever owns it:
  after \<open>phys_mem_free_block\<close> of frame \<open>f\<close>, every frame of \<open>f\<close>'s slot reads as unused. (The bit
  is shifted as an \<open>int\<close>, so bit numbers 32 to 63 wrap around.)
\<close>

theorem phys_mem_free_block_frees_alias:
  assumes ok: "pm_ok pm" and f: "f < unat (max_blocks pm)"
    and g: "g div 64 = f div 64" "g mod 32 = f mod 32"
  shows "\<exists>pm'. phys_mem_free_block pm (of_nat f * 4096) = Some pm' \<and> \<not> occupied (bitmap_words pm') g"
proof -
  have b: "f < 2 ^ 52" "f < capacity (bitmap_words pm)" using ok f by (auto simp: pm_ok_def)
  then have "unat (of_nat f :: u64) = f" by (simp add: unat_of_nat_64)
  moreover have "(of_nat f * 4096 :: u64) div PHYS_MEM_BLOCK_SIZE = of_nat f"
    using frame_addr(2) [OF b(1)] by (simp add: PHYS_MEM_BLOCK_SIZE_def)
  moreover have "\<not> occupied (unmark (bitmap_words pm) f) g"
    using b(2) g by (simp add: occupied_unmark slot_def)
  ultimately show ?thesis
    using b(2) ok by (simp add: phys_mem_free_block_def pm_clear_in pm_ok_def)
qed

theorem phys_mem_free_block_frees_alias_witness:
  "\<exists>pm'. phys_mem_free_block pm_example (of_nat 1 * 4096) = Some pm' \<and> \<not> occupied (bitmap_words pm') 33"
  by (rule phys_mem_free_block_frees_alias [OF pm_example_ok]) (simp_all add: pm_example_def)

text \<open>
  \<open>phys_mem_deinit_region\<close> marks every frame of the region as used, and yet counts
  \<open>used_blocks\<close> down by the number of blocks, as if they had been freed.
\<close>

theorem phys_mem_deinit_region_counts_down:
  assumes "pm_ok pm" and "region_fits pm base sz"
  shows "\<exists>pm'. phys_mem_deinit_region pm base sz = Some pm' \<and> pm_ok pm' \<and>
    (\<forall>f. f \<in> region_frames base sz \<longrightarrow> occupied (bitmap_words pm') f) \<and>
    used_blocks pm' = used_blocks pm - blocks_of_size sz"
  using phys_mem_deinit_region_spec [OF assms] by blast

theorem phys_mem_deinit_region_counts_down_witness:
  "\<exists>pm'. phys_mem_deinit_region pm_example 40960 8192 = Some pm' \<and> used_blocks pm' = 0 \<and>
     occupied (bitmap_words pm') 10"
proof -
  have fits: "region_fits pm_example 40960 8192" and i: "10 \<in> region_frames 40960 8192"
    and b: "used_blocks pm_example - blocks_of_size 8192 = 0" by code_simp+
  show ?thesis using phys_mem_deinit_region_counts_down [OF pm_example_ok fits] i b by auto
qed

end
