(* ===== verification/Page_Entry.thy ===== *)
theory Page_Entry
  imports OS6_Prelude
begin

text \<open>
  The entries of the four levels of page tables, kernel/include/mm/virt_mem.h and the first part
  of kernel/src/mm/virt_mem.c: the flag and frame masks, and one definition per accessor. An
  accessor that updates an entry in place returns the new entry; a test that returns the masked
  bits as an \<open>int\<close> is a boolean (every mask fits an \<open>int\<close>).
\<close>

unbundle bit_operations_syntax

subsection \<open>Masks and accessors\<close>

abbreviation (input) PTE_PRESENT :: u64 where "PTE_PRESENT \<equiv> 1"
abbreviation (input) PTE_WRITABLE :: u64 where "PTE_WRITABLE \<equiv> 2"
abbreviation (input) PTE_USER :: u64 where "PTE_USER \<equiv> 4"
abbreviation (input) PTE_WRITETHROUGH :: u64 where "PTE_WRITETHROUGH \<equiv> 8"
abbreviation (input) PTE_NOT_CAHCEABLE :: u64 where "PTE_NOT_CAHCEABLE \<equiv> 0x10"
abbreviation (input) PTE_ACCESS :: u64 where "PTE_ACCESS \<equiv> 0x20"
abbreviation (input) PTE_DIRTY :: u64 where "PTE_DIRTY \<equiv> 0x40"
abbreviation (input) PTE_PAT :: u64 where "PTE_PAT \<equiv> 0x80"
abbreviation (input) PTE_ON_CLONE :: u64 where "PTE_ON_CLONE \<equiv> 0x1F"
abbreviation (input) PTE_FRAME :: u64 where "PTE_FRAME \<equiv> 0x7FFFFFFFFFFFF000"

abbreviation (input) PDE_PRESENT :: u64 where "PDE_PRESENT \<equiv> 1"
abbreviation (input) PDE_WRITABLE :: u64 where "PDE_WRITABLE \<equiv> 2"
abbreviation (input) PDE_USER :: u64 where "PDE_USER \<equiv> 4"
abbreviation (input) PDE_PWT :: u64 where "PDE_PWT \<equiv> 8"
abbreviation (input) PDE_PCD :: u64 where "PDE_PCD \<equiv> 0x10"
abbreviation (input) PDE_ACCESSED :: u64 where "PDE_ACCESSED \<equiv> 0x20"
abbreviation (input) PDE_DIRTY :: u64 where "PDE_DIRTY \<equiv> 0x40"
abbreviation (input) PDE_4MB :: u64 where "PDE_4MB \<equiv> 0x80"
abbreviation (input) PDE_CPU_GLOBAL :: u64 where "PDE_CPU_GLOBAL \<equiv> 0x100"
abbreviation (input) PDE_LV4_GLOBAL :: u64 where "PDE_LV4_GLOBAL \<equiv> 0x200"
abbreviation (input) PDE_ON_CLONE :: u64 where "PDE_ON_CLONE \<equiv> 0x39F"
abbreviation (input) PDE_FRAME :: u64 where "PDE_FRAME \<equiv> 0x7FFFFFFFFFFFF000"

abbreviation (input) PDPE_PRESENT :: u64 where "PDPE_PRESENT \<equiv> 1"
abbreviation (input) PDPE_WRITABLE :: u64 where "PDPE_WRITABLE \<equiv> 2"
abbreviation (input) PDPE_USER :: u64 where "PDPE_USER \<equiv> 4"
abbreviation (input) PDPE_PWT :: u64 where "PDPE_PWT \<equiv> 8"
abbreviation (input) PDPE_PCD :: u64 where "PDPE_PCD \<equiv> 0x10"
abbreviation (input) PDPE_ACCESSED :: u64 where "PDPE_ACCESSED \<equiv> 0x20"
abbreviation (input) PDPE_1GB :: u64 where "PDPE_1GB \<equiv> 0x80"
abbreviation (input) PDPE_ON_CLONE :: u64 where "PDPE_ON_CLONE \<equiv> 0x9F"
abbreviation (input) PDPE_FRAME :: u64 where "PDPE_FRAME \<equiv> 0x7FFFFFFFFFFFF000"

abbreviation (input) PML4E_PRESENT :: u64 where "PML4E_PRESENT \<equiv> 1"
abbreviation (input) PML4E_WRITABLE :: u64 where "PML4E_WRITABLE \<equiv> 2"
abbreviation (input) PML4E_USER :: u64 where "PML4E_USER \<equiv> 4"
abbreviation (input) PML4E_PWT :: u64 where "PML4E_PWT \<equiv> 8"
abbreviation (input) PML4E_PCD :: u64 where "PML4E_PCD \<equiv> 0x10"
abbreviation (input) PML4E_ACCESSED :: u64 where "PML4E_ACCESSED \<equiv> 0x20"
abbreviation (input) PML4E_DIRTY :: u64 where "PML4E_DIRTY \<equiv> 0x40"
abbreviation (input) PML4E_ON_CLONE :: u64 where "PML4E_ON_CLONE \<equiv> 0x1F"
abbreviation (input) PML4E_FRAME :: u64 where "PML4E_FRAME \<equiv> 0x7FFFFFFFFFFFF000"

definition pt_entry_add_attrib :: "u64 \<Rightarrow> u64 \<Rightarrow> u64" where
  "pt_entry_add_attrib e attrib = e OR attrib"

definition pt_entry_del_attrib :: "u64 \<Rightarrow> u64 \<Rightarrow> u64" where
  "pt_entry_del_attrib e attrib = e AND NOT attrib"

definition pt_entry_set_frame :: "u64 \<Rightarrow> u64 \<Rightarrow> u64" where
  "pt_entry_set_frame e addr = (e AND NOT PTE_FRAME) OR addr"

definition pt_entry_is_present :: "u64 \<Rightarrow> bool" where
  "pt_entry_is_present e \<longleftrightarrow> e AND PTE_PRESENT \<noteq> 0"

definition pt_entry_is_writable :: "u64 \<Rightarrow> bool" where
  "pt_entry_is_writable e \<longleftrightarrow> e AND PTE_WRITABLE \<noteq> 0"

definition pt_entry_is_user :: "u64 \<Rightarrow> bool" where
  "pt_entry_is_user e \<longleftrightarrow> e AND PTE_USER \<noteq> 0"

definition pt_entry_is_writethrough :: "u64 \<Rightarrow> bool" where
  "pt_entry_is_writethrough e \<longleftrightarrow> e AND PTE_WRITETHROUGH \<noteq> 0"

definition pt_entry_is_cacheable :: "u64 \<Rightarrow> bool" where
  "pt_entry_is_cacheable e \<longleftrightarrow> e AND PTE_NOT_CAHCEABLE = 0"

definition pt_entry_is_accessed :: "u64 \<Rightarrow> bool" where
  "pt_entry_is_accessed e \<longleftrightarrow> e AND PTE_ACCESS \<noteq> 0"

definition pt_entry_is_dirty :: "u64 \<Rightarrow> bool" where
  "pt_entry_is_dirty e \<longleftrightarrow> e AND PTE_DIRTY \<noteq> 0"

definition pt_entry_is_PAT :: "u64 \<Rightarrow> bool" where
  "pt_entry_is_PAT e \<longleftrightarrow> e AND PTE_PAT \<noteq> 0"

definition pt_entry_pfn :: "u64 \<Rightarrow> u64" where
  "pt_entry_pfn e = e AND PTE_FRAME"

definition pd_entry_add_attrib :: "u64 \<Rightarrow> u64 \<Rightarrow> u64" where
  "pd_entry_add_attrib e attrib = e OR attrib"

definition pd_entry_del_attrib :: "u64 \<Rightarrow> u64 \<Rightarrow> u64" where
  "pd_entry_del_attrib e attrib = e AND NOT attrib"

definition pd_entry_set_frame :: "u64 \<Rightarrow> u64 \<Rightarrow> u64" where
  "pd_entry_set_frame e addr = (e AND NOT PDE_FRAME) OR addr"

definition pd_entry_is_present :: "u64 \<Rightarrow> bool" where
  "pd_entry_is_present e \<longleftrightarrow> e AND PDE_PRESENT \<noteq> 0"

definition pd_entry_is_writable :: "u64 \<Rightarrow> bool" where
  "pd_entry_is_writable e \<longleftrightarrow> e AND PDE_WRITABLE \<noteq> 0"

definition pd_entry_is_user :: "u64 \<Rightarrow> bool" where
  "pd_entry_is_user e \<longleftrightarrow> e AND PDE_USER \<noteq> 0"

definition pd_entry_is_pwt :: "u64 \<Rightarrow> bool" where
  "pd_entry_is_pwt e \<longleftrightarrow> e AND PDE_PWT \<noteq> 0"

definition pd_entry_is_pcd :: "u64 \<Rightarrow> bool" where
  "pd_entry_is_pcd e \<longleftrightarrow> e AND PDE_PCD \<noteq> 0"

definition pd_entry_is_accessed :: "u64 \<Rightarrow> bool" where
  "pd_entry_is_accessed e \<longleftrightarrow> e AND PDE_ACCESSED \<noteq> 0"

definition pd_entry_is_huge :: "u64 \<Rightarrow> bool" where
  "pd_entry_is_huge e \<longleftrightarrow> e AND PDE_4MB \<noteq> 0"

definition pd_entry_is_cpu_global :: "u64 \<Rightarrow> bool" where
  "pd_entry_is_cpu_global e \<longleftrightarrow> e AND PDE_CPU_GLOBAL \<noteq> 0"

definition pd_entry_is_lv4_global :: "u64 \<Rightarrow> bool" where
  "pd_entry_is_lv4_global e \<longleftrightarrow> e AND PDE_LV4_GLOBAL \<noteq> 0"

definition pd_entry_pfn :: "u64 \<Rightarrow> u64" where
  "pd_entry_pfn e = e AND PDE_FRAME"

definition pdp_entry_add_attrib :: "u64 \<Rightarrow> u64 \<Rightarrow> u64" where
  "pdp_entry_add_attrib e attrib = e OR attrib"

definition pdp_entry_del_attrib :: "u64 \<Rightarrow> u64 \<Rightarrow> u64" where
  "pdp_entry_del_attrib e attrib = e AND NOT attrib"

definition pdp_entry_set_frame :: "u64 \<Rightarrow> u64 \<Rightarrow> u64" where
  "pdp_entry_set_frame e addr = (e AND NOT PDPE_FRAME) OR addr"

definition pdp_entry_is_present :: "u64 \<Rightarrow> bool" where
  "pdp_entry_is_present e \<longleftrightarrow> e AND PDPE_PRESENT \<noteq> 0"

definition pdp_entry_is_writable :: "u64 \<Rightarrow> bool" where
  "pdp_entry_is_writable e \<longleftrightarrow> e AND PDPE_WRITABLE \<noteq> 0"

definition pdp_entry_is_user :: "u64 \<Rightarrow> bool" where
  "pdp_entry_is_user e \<longleftrightarrow> e AND PDPE_USER \<noteq> 0"

definition pdp_entry_is_pwt :: "u64 \<Rightarrow> bool" where
  "pdp_entry_is_pwt e \<longleftrightarrow> e AND PDPE_PWT \<noteq> 0"

definition pdp_entry_is_pcd :: "u64 \<Rightarrow> bool" where
  "pdp_entry_is_pcd e \<longleftrightarrow> e AND PDPE_PCD \<noteq> 0"

definition pdp_entry_is_accessed :: "u64 \<Rightarrow> bool" where
  "pdp_entry_is_accessed e \<longleftrightarrow> e AND PDPE_ACCESSED \<noteq> 0"

definition pdp_entry_is_huge :: "u64 \<Rightarrow> bool" where
  "pdp_entry_is_huge e \<longleftrightarrow> e AND PDPE_1GB \<noteq> 0"

definition pdp_entry_pfn :: "u64 \<Rightarrow> u64" where
  "pdp_entry_pfn e = e AND PDPE_FRAME"

definition pml4_entry_add_attrib :: "u64 \<Rightarrow> u64 \<Rightarrow> u64" where
  "pml4_entry_add_attrib e attrib = e OR attrib"

definition pml4_entry_del_attrib :: "u64 \<Rightarrow> u64 \<Rightarrow> u64" where
  "pml4_entry_del_attrib e attrib = e AND NOT attrib"

definition pml4_entry_set_frame :: "u64 \<Rightarrow> u64 \<Rightarrow> u64" where
  "pml4_entry_set_frame e addr = (e AND NOT PML4E_FRAME) OR addr"

definition pml4_entry_is_present :: "u64 \<Rightarrow> bool" where
  "pml4_entry_is_present e \<longleftrightarrow> e AND PML4E_PRESENT \<noteq> 0"

definition pml4_entry_is_writable :: "u64 \<Rightarrow> bool" where
  "pml4_entry_is_writable e \<longleftrightarrow> e AND PML4E_WRITABLE \<noteq> 0"

definition pml4_entry_is_user :: "u64 \<Rightarrow> bool" where
  "pml4_entry_is_user e \<longleftrightarrow> e AND PML4E_USER \<noteq> 0"

definition pml4_entry_is_pwt :: "u64 \<Rightarrow> bool" where
  "pml4_entry_is_pwt e \<longleftrightarrow> e AND PML4E_PWT \<noteq> 0"

definition pml4_entry_is_pcd :: "u64 \<Rightarrow> bool" where
  "pml4_entry_is_pcd e \<longleftrightarrow> e AND PML4E_PCD \<noteq> 0"

definition pml4_entry_is_accessed :: "u64 \<Rightarrow> bool" where
  "pml4_entry_is_accessed e \<longleftrightarrow> e AND PML4E_ACCESSED \<noteq> 0"

definition pml4_entry_pfn :: "u64 \<Rightarrow> u64" where
  "pml4_entry_pfn e = e AND PML4E_FRAME"

lemmas entry_defs =
  pt_entry_add_attrib_def
  pt_entry_del_attrib_def
  pt_entry_set_frame_def
  pt_entry_is_present_def
  pt_entry_is_writable_def
  pt_entry_is_user_def
  pt_entry_is_writethrough_def
  pt_entry_is_cacheable_def
  pt_entry_is_accessed_def
  pt_entry_is_dirty_def
  pt_entry_is_PAT_def
  pt_entry_pfn_def
  pd_entry_add_attrib_def
  pd_entry_del_attrib_def
  pd_entry_set_frame_def
  pd_entry_is_present_def
  pd_entry_is_writable_def
  pd_entry_is_user_def
  pd_entry_is_pwt_def
  pd_entry_is_pcd_def
  pd_entry_is_accessed_def
  pd_entry_is_huge_def
  pd_entry_is_cpu_global_def
  pd_entry_is_lv4_global_def
  pd_entry_pfn_def
  pdp_entry_add_attrib_def
  pdp_entry_del_attrib_def
  pdp_entry_set_frame_def
  pdp_entry_is_present_def
  pdp_entry_is_writable_def
  pdp_entry_is_user_def
  pdp_entry_is_pwt_def
  pdp_entry_is_pcd_def
  pdp_entry_is_accessed_def
  pdp_entry_is_huge_def
  pdp_entry_pfn_def
  pml4_entry_add_attrib_def
  pml4_entry_del_attrib_def
  pml4_entry_set_frame_def
  pml4_entry_is_present_def
  pml4_entry_is_writable_def
  pml4_entry_is_user_def
  pml4_entry_is_pwt_def
  pml4_entry_is_pcd_def
  pml4_entry_is_accessed_def
  pml4_entry_pfn_def

subsection \<open>Frames and flags do not interfere\<close>

lemma bit_frame_mask: "bit (0x7FFFFFFFFFFFF000 :: u64) k \<longleftrightarrow> 12 \<le> k \<and> k < 63"
proof -
  have "(0x7FFFFFFFFFFFF000 :: u64) = mask 63 AND NOT (mask 12)"
    by (simp add: mask_eq_exp_minus_1)
  then have "bit (0x7FFFFFFFFFFFF000 :: u64) k = bit (mask 63 AND NOT (mask 12) :: u64) k"
    by (simp only:)
  also have "\<dots> \<longleftrightarrow> 12 \<le> k \<and> k < 63" by (auto simp only: bit_simps) simp_all
  finally show ?thesis .
qed

text \<open>A frame: page aligned and below the end of the direct map.\<close>

definition is_frame :: "u64 \<Rightarrow> bool" where
  "is_frame t \<longleftrightarrow> unat t mod 4096 = 0 \<and> unat t < 2 ^ 30"

lemma is_frame_bits: "is_frame t \<Longrightarrow> bit t k \<Longrightarrow> 12 \<le> k \<and> k < 30"
proof (rule ccontr)
  assume t: "is_frame t" and b: "bit t k" and "\<not> (12 \<le> k \<and> k < 30)"
  then consider "k < 12" | "30 \<le> k" by linarith
  then show False
  proof cases
    case 1
    have "unat (take_bit 12 t) = 0"
      using t by (simp add: unsigned_take_bit_eq is_frame_def) (simp add: take_bit_eq_mod)
    then have "take_bit 12 t = 0" by (simp only: word_unat_eq_iff unsigned_0)
    then show False using b 1 by (metis bit_take_bit_iff bit_0_eq bot_apply bot_bool_def)
  next
    case 2
    have "unat (take_bit 30 t) = unat t"
      using t by (simp add: unsigned_take_bit_eq take_bit_nat_eq_self is_frame_def)
    then have "take_bit 30 t = t" by (simp add: word_unat_eq_iff)
    then show False using b 2 by (metis bit_take_bit_iff not_less)
  qed
qed

lemma is_frame_pfn: "is_frame t \<Longrightarrow> t AND 0x7FFFFFFFFFFFF000 = t"
proof (rule bit_word_eqI)
  fix k assume "is_frame t" and "k < LENGTH(64)"
  then show "bit (t AND 0x7FFFFFFFFFFFF000) k = bit t k"
    using is_frame_bits [of t k] by (cases "bit t k") (simp_all only: bit_and_iff bit_frame_mask, simp_all)
qed

lemma pfn_set_frame:
  "((e AND NOT 0x7FFFFFFFFFFFF000) OR t) AND (0x7FFFFFFFFFFFF000 :: u64) = t AND 0x7FFFFFFFFFFFF000"
  by (rule bit_word_eqI) (auto simp: bit_simps bit_frame_mask)

end
