(* ===== verification/Virt_Mem.thy ===== *)
theory Virt_Mem
  imports Phys_Mem Page_Entry
begin

text \<open>
  The virtual memory manager, kernel/src/mm/virt_mem.c.

  Page tables live in physical memory, which is the map \<open>vm_mem\<close> from addresses of 8-byte words
  to words. The code reaches a table through a pointer: below \<open>ident_limit\<close> a pointer is the
  physical address itself, and \<open>PAGE_OFFSET\<close> maps the first gigabyte (\<open>direct_limit\<close>) once
  \<open>virt_mem_initialize\<close> has switched to its tables. Any other pointer faults (\<open>None\<close>). The write
  to the CR3 register in \<open>virt_mem_switch_dir\<close> is the update of \<open>vm_cur_dir\<close>; the printers, and
  the TLB flush, which has no effect on this state, are not modelled.

  \<open>node\<close> reads the tables the way the paging hardware does; the theorems relate the code to it.
\<close>

unbundle bit_operations_syntax

subsection \<open>State and memory access\<close>

record vm_state =
  vm_pm :: phys_mem
  vm_mem :: "u64 \<Rightarrow> u64"
  vm_cur_dir :: u64
  ident_limit :: u64
  direct_limit :: u64

abbreviation (input) PAGE_OFFSET :: u64 where "PAGE_OFFSET \<equiv> 0xFFFF880000000000"
abbreviation (input) PAGE_SIZE :: u64 where "PAGE_SIZE \<equiv> 4096"
abbreviation (input) VIRT_MEM_USER :: u64 where "VIRT_MEM_USER \<equiv> 1"
abbreviation (input) VIRT_MEM_WRITABLE :: u64 where "VIRT_MEM_WRITABLE \<equiv> 2"

definition ADD_PAGE_OFFSET :: "u64 \<Rightarrow> u64" where
  "ADD_PAGE_OFFSET addr = (if PAGE_OFFSET \<le> addr then addr else addr + PAGE_OFFSET)"

definition REMOVE_PAGE_OFFSET :: "u64 \<Rightarrow> u64" where
  "REMOVE_PAGE_OFFSET addr = (if addr < PAGE_OFFSET then addr else addr - PAGE_OFFSET)"

definition PT_INDEX :: "u64 \<Rightarrow> u64" where
  "PT_INDEX x = drop_bit 12 x AND 0x1FF"

definition PD_INDEX :: "u64 \<Rightarrow> u64" where
  "PD_INDEX x = drop_bit 21 x AND 0x1FF"

definition PDP_INDEX :: "u64 \<Rightarrow> u64" where
  "PDP_INDEX x = drop_bit 30 x AND 0x1FF"

definition PML4_INDEX :: "u64 \<Rightarrow> u64" where
  "PML4_INDEX x = drop_bit 39 x AND 0x1FF"

definition ptr_phys :: "vm_state \<Rightarrow> u64 \<Rightarrow> u64 option" where
  "ptr_phys st p =
     (if PAGE_OFFSET \<le> p
      then if p - PAGE_OFFSET < direct_limit st then Some (p - PAGE_OFFSET) else None
      else if p < ident_limit st then Some p else None)"

definition load :: "vm_state \<Rightarrow> u64 \<Rightarrow> u64 option" where
  "load st p = map_option (vm_mem st) (ptr_phys st p)"

definition store :: "vm_state \<Rightarrow> u64 \<Rightarrow> u64 \<Rightarrow> vm_state option" where
  "store st p v = do { a \<leftarrow> ptr_phys st p; Some (st\<lparr>vm_mem := (vm_mem st)(a := v)\<rparr>) }"

text \<open>\<open>memset(p, 0, 4096)\<close> and \<open>memcpy\<close> of a page, on the 8-byte words of the page.\<close>

definition clear_page :: "vm_state \<Rightarrow> u64 \<Rightarrow> vm_state option" where
  "clear_page st p = do {
     a \<leftarrow> ptr_phys st p;
     _ \<leftarrow> ptr_phys st (p + 4095);
     Some (st\<lparr>vm_mem := \<lambda>x. if a \<le> x \<and> x < a + PAGE_SIZE then 0 else vm_mem st x\<rparr>)
   }"

definition copy_page :: "vm_state \<Rightarrow> u64 \<Rightarrow> u64 \<Rightarrow> vm_state option" where
  "copy_page st dst src = do {
     d \<leftarrow> ptr_phys st (ADD_PAGE_OFFSET dst);
     _ \<leftarrow> ptr_phys st (ADD_PAGE_OFFSET dst + 4095);
     s \<leftarrow> ptr_phys st (ADD_PAGE_OFFSET src);
     _ \<leftarrow> ptr_phys st (ADD_PAGE_OFFSET src + 4095);
     Some (st\<lparr>vm_mem := \<lambda>x. if d \<le> x \<and> x < d + PAGE_SIZE then vm_mem st (s + (x - d))
                            else vm_mem st x\<rparr>)
   }"

definition vm_alloc_block :: "vm_state \<Rightarrow> (u64 \<times> vm_state) option" where
  "vm_alloc_block st =
     map_option (\<lambda>(p, pm). (p, st\<lparr>vm_pm := pm\<rparr>)) (phys_mem_alloc_block (vm_pm st))"

definition vm_free_block :: "vm_state \<Rightarrow> u64 \<Rightarrow> vm_state option" where
  "vm_free_block st p = map_option (\<lambda>pm. st\<lparr>vm_pm := pm\<rparr>) (phys_mem_free_block (vm_pm st) p)"

subsection \<open>Directories\<close>

definition virt_mem_switch_dir :: "vm_state \<Rightarrow> u64 \<Rightarrow> int \<times> vm_state" where
  "virt_mem_switch_dir st dir = (if dir = 0 then (0, st) else (1, st\<lparr>vm_cur_dir := dir\<rparr>))"

text \<open>
  The start-up tables: \<open>init_identity\<close> fills one table with the frames \<open>fs\<close>, and \<open>init_entry\<close> sets up
  the entry at a pointer. After the switch the identity map covers 4 MB and the direct map 1 GB.
\<close>

definition init_identity :: "u64 \<Rightarrow> nat list \<Rightarrow> vm_state \<Rightarrow> vm_state option" where
  "init_identity table fs st =
     for_each (\<lambda>i st.
        let frame = of_nat i * 0x1000;
            e = pt_entry_set_frame
                  (pt_entry_add_attrib (pt_entry_add_attrib 0 PTE_PRESENT) PTE_WRITABLE) frame
        in store st (table + 8 * PT_INDEX frame) e) fs st"

definition init_entry :: "vm_state \<Rightarrow> u64 \<Rightarrow> u64 list \<Rightarrow> u64 \<Rightarrow> vm_state option" where
  "init_entry st p attribs frame = do {
     e \<leftarrow> load st p;
     store st p (((fold (OR) attribs e) AND NOT PTE_FRAME) OR frame)
   }"

definition virt_mem_initialize :: "vm_state \<Rightarrow> vm_state option" where
  "virt_mem_initialize st = do {
     (table, st) \<leftarrow> vm_alloc_block st;
     (table2, st) \<leftarrow> vm_alloc_block st;
     if table = 0 \<or> table2 = 0 then Some st
     else do {
       st \<leftarrow> clear_page st table;
       st \<leftarrow> clear_page st table2;
       st \<leftarrow> init_identity table [0..<512] st;
       st \<leftarrow> init_identity table2 [512..<1024] st;
       (dir, st) \<leftarrow> vm_alloc_block st;
       if dir = 0 then Some st
       else do {
         st \<leftarrow> clear_page st dir;
         st \<leftarrow> init_entry st dir [PDE_PRESENT, PDE_WRITABLE] table;
         st \<leftarrow> init_entry st (dir + 8) [PDE_PRESENT, PDE_WRITABLE] table2;
         (pdp, st) \<leftarrow> vm_alloc_block st;
         if pdp = 0 then Some st
         else do {
           st \<leftarrow> clear_page st pdp;
           st \<leftarrow> init_entry st pdp [PDPE_PRESENT, PDPE_WRITABLE] dir;
           (pml4, st) \<leftarrow> vm_alloc_block st;
           if pml4 = 0 then Some st
           else do {
             st \<leftarrow> clear_page st pml4;
             st \<leftarrow> init_entry st pml4 [PML4E_PRESENT, PML4E_WRITABLE] pdp;
             (pdp_high, st) \<leftarrow> vm_alloc_block st;
             if pdp_high = 0 then Some st
             else do {
               st \<leftarrow> clear_page st pdp_high;
               st \<leftarrow> init_entry st (pdp_high + 8 * PDP_INDEX PAGE_OFFSET)
                       [PDPE_PRESENT, PDPE_WRITABLE, PDPE_1GB] 0;
               st \<leftarrow> init_entry st (pml4 + 8 * PML4_INDEX PAGE_OFFSET)
                       [PML4E_PRESENT, PML4E_WRITABLE] pdp_high;
               let st = snd (virt_mem_switch_dir st pml4);
               Some (st\<lparr>ident_limit := 0x400000, direct_limit := 0x40000000\<rparr>)
             }
           }
         }
       }
     }
   }"

definition virt_mem_get_current_dir :: "vm_state \<Rightarrow> u64" where
  "virt_mem_get_current_dir st = vm_cur_dir st"

definition virt_mem_get_physical_addr :: "vm_state \<Rightarrow> u64 \<Rightarrow> u64 \<Rightarrow> u64 option" where
  "virt_mem_get_physical_addr st vaddr dir =
     (let current_dir = (if dir = 0 then dir else vm_cur_dir st) in
      if current_dir = 0 then Some 0
      else do {
        entry_pml4 \<leftarrow> load st (ADD_PAGE_OFFSET current_dir + 8 * PML4_INDEX vaddr);
        if \<not> pml4_entry_is_present entry_pml4 then Some 0
        else if pml4_entry_pfn entry_pml4 = 0 then Some 0
        else do {
          entry_pdp \<leftarrow> load st (ADD_PAGE_OFFSET (pml4_entry_pfn entry_pml4) + 8 * PDP_INDEX vaddr);
          if \<not> pdp_entry_is_present entry_pdp then Some 0
          else if pdp_entry_pfn entry_pdp = 0 then Some 0
          else do {
            entry_pd \<leftarrow> load st (pdp_entry_pfn entry_pdp + 8 * PD_INDEX vaddr);
            if \<not> pd_entry_is_present entry_pd then Some 0
            else if pd_entry_pfn entry_pd = 0 then Some 0
            else do {
              entry_pt \<leftarrow> load st (ADD_PAGE_OFFSET (pd_entry_pfn entry_pd) + 8 * PT_INDEX vaddr);
              if \<not> pt_entry_is_present entry_pt then Some 0
              else Some (pt_entry_pfn entry_pt OR (vaddr AND 0xFFF))
            }
          }
        }
      })"

definition virt_mem_get_physical_addr_cur :: "vm_state \<Rightarrow> u64 \<Rightarrow> u64 option" where
  "virt_mem_get_physical_addr_cur st addr =
     virt_mem_get_physical_addr st addr (virt_mem_get_current_dir st)"

subsection \<open>Creating and destroying tables\<close>

definition virt_mem_create_address_space :: "vm_state \<Rightarrow> (u64 \<times> vm_state) option" where
  "virt_mem_create_address_space st = do {
     (dir, st) \<leftarrow> vm_alloc_block st;
     if dir = 0 then Some (dir, st)
     else do { st \<leftarrow> clear_page st (ADD_PAGE_OFFSET dir); Some (ADD_PAGE_OFFSET dir, st) }
   }"

definition virt_mem_clear_pt :: "vm_state \<Rightarrow> u64 \<Rightarrow> vm_state option" where
  "virt_mem_clear_pt st table = clear_page st (ADD_PAGE_OFFSET table)"

definition virt_mem_clear_pd :: "vm_state \<Rightarrow> u64 \<Rightarrow> vm_state option" where
  "virt_mem_clear_pd st pdir =
     (let pdir = ADD_PAGE_OFFSET pdir in do {
        st \<leftarrow> for_each (\<lambda>i st. do {
                 entry \<leftarrow> load st (pdir + 8 * of_nat i);
                 if pd_entry_is_present entry then do {
                   st \<leftarrow> virt_mem_clear_pt st (pd_entry_pfn entry);
                   vm_free_block st (pd_entry_pfn entry)
                 } else Some st
               }) [0..<512] st;
        clear_page st pdir
      })"

definition virt_mem_clear_pdp :: "vm_state \<Rightarrow> u64 \<Rightarrow> vm_state option" where
  "virt_mem_clear_pdp st pdp =
     (let pdp = ADD_PAGE_OFFSET pdp in do {
        st \<leftarrow> for_each (\<lambda>i st. do {
                 entry \<leftarrow> load st (pdp + 8 * of_nat i);
                 if pdp_entry_is_present entry then do {
                   st \<leftarrow> virt_mem_clear_pd st (pdp_entry_pfn entry);
                   vm_free_block st (pdp_entry_pfn entry)
                 } else Some st
               }) [0..<512] st;
        clear_page st pdp
      })"

definition virt_mem_destroy_address_space :: "vm_state \<Rightarrow> u64 \<Rightarrow> vm_state option" where
  "virt_mem_destroy_address_space st dir =
     (let dir = ADD_PAGE_OFFSET dir in do {
        st \<leftarrow> for_each (\<lambda>i st. do {
                 e \<leftarrow> load st (dir + 8 * of_nat i);
                 if pml4_entry_is_present e then do {
                   st \<leftarrow> virt_mem_clear_pdp st (pml4_entry_pfn e);
                   vm_free_block st (pml4_entry_pfn e)
                 } else Some st
               }) [0..<512] st;
        st \<leftarrow> clear_page st dir;
        vm_free_block st dir
      })"

definition virt_mem_alloc_ptable :: "vm_state \<Rightarrow> (u64 \<times> vm_state) option" where
  "virt_mem_alloc_ptable st = do {
     (p, st) \<leftarrow> vm_alloc_block st;
     if p = 0 then Some (p, st)
     else do { st \<leftarrow> clear_page st (ADD_PAGE_OFFSET p); Some (p, st) }
   }"

definition virt_mem_alloc_pdirectory :: "vm_state \<Rightarrow> (u64 \<times> vm_state) option" where
  "virt_mem_alloc_pdirectory st = do {
     (p, st) \<leftarrow> vm_alloc_block st;
     if p = 0 then Some (p, st)
     else do { st \<leftarrow> clear_page st (ADD_PAGE_OFFSET p); Some (p, st) }
   }"

definition virt_mem_alloc_pdp :: "vm_state \<Rightarrow> (u64 \<times> vm_state) option" where
  "virt_mem_alloc_pdp st = do {
     (p, st) \<leftarrow> vm_alloc_block st;
     if p = 0 then Some (p, st)
     else do { st \<leftarrow> clear_page st (ADD_PAGE_OFFSET p); Some (p, st) }
   }"

definition virt_mem_alloc_pml4 :: "vm_state \<Rightarrow> (u64 \<times> vm_state) option" where
  "virt_mem_alloc_pml4 st = do {
     (p, st) \<leftarrow> vm_alloc_block st;
     if p = 0 then Some (p, st)
     else do { st \<leftarrow> clear_page st (ADD_PAGE_OFFSET p); Some (p, st) }
   }"

subsection \<open>Mapping a page\<close>

text \<open>
  The three table levels of \<open>virt_mem_map_page_p\<close>: read the entry, allocate the next table if it
  is not present or add the missing permissions if it is, and give the next table.
\<close>

definition pml4_descend :: "vm_state \<Rightarrow> u64 \<Rightarrow> u64 \<Rightarrow> u64 \<Rightarrow> (u64 \<times> vm_state) option" where
  "pml4_descend st table vaddr flags =
     (let entry = table + 8 * PML4_INDEX vaddr in do {
        e \<leftarrow> load st entry;
        if \<not> pml4_entry_is_present e then do {
          (child, st) \<leftarrow> virt_mem_alloc_pdp st;
          e \<leftarrow> load st entry;
          let e = pml4_entry_add_attrib e PML4E_PRESENT;
          let e = (if flags AND VIRT_MEM_WRITABLE \<noteq> 0 then pml4_entry_add_attrib e PML4E_WRITABLE else e);
          let e = (if flags AND VIRT_MEM_USER \<noteq> 0 then pml4_entry_add_attrib e PML4E_USER else e);
          st \<leftarrow> store st entry (pml4_entry_set_frame e child);
          Some (child, st)
        }
        else do {
          let e = (if \<not> pml4_entry_is_writable e \<and> flags AND VIRT_MEM_WRITABLE \<noteq> 0
                   then pml4_entry_add_attrib e PML4E_WRITABLE else e);
          let e = (if \<not> pml4_entry_is_user e \<and> flags AND VIRT_MEM_USER \<noteq> 0
                   then pml4_entry_add_attrib e PML4E_USER else e);
          st \<leftarrow> store st entry e;
          Some (pml4_entry_pfn e, st)
        }
      })"

definition pdp_descend :: "vm_state \<Rightarrow> u64 \<Rightarrow> u64 \<Rightarrow> u64 \<Rightarrow> (u64 \<times> vm_state) option" where
  "pdp_descend st table vaddr flags =
     (let entry = table + 8 * PDP_INDEX vaddr in do {
        e \<leftarrow> load st entry;
        if \<not> pdp_entry_is_present e then do {
          (child, st) \<leftarrow> virt_mem_alloc_pdirectory st;
          e \<leftarrow> load st entry;
          let e = pdp_entry_add_attrib e PDPE_PRESENT;
          let e = (if flags AND VIRT_MEM_WRITABLE \<noteq> 0 then pdp_entry_add_attrib e PDPE_WRITABLE else e);
          let e = (if flags AND VIRT_MEM_USER \<noteq> 0 then pdp_entry_add_attrib e PDPE_USER else e);
          st \<leftarrow> store st entry (pdp_entry_set_frame e child);
          Some (child, st)
        }
        else do {
          let e = (if \<not> pdp_entry_is_writable e \<and> flags AND VIRT_MEM_WRITABLE \<noteq> 0
                   then pdp_entry_add_attrib e PDPE_WRITABLE else e);
          let e = (if \<not> pdp_entry_is_user e \<and> flags AND VIRT_MEM_USER \<noteq> 0
                   then pdp_entry_add_attrib e PDPE_USER else e);
          st \<leftarrow> store st entry e;
          Some (pdp_entry_pfn e, st)
        }
      })"

definition pd_descend :: "vm_state \<Rightarrow> u64 \<Rightarrow> u64 \<Rightarrow> u64 \<Rightarrow> (u64 \<times> vm_state) option" where
  "pd_descend st table vaddr flags =
     (let entry = table + 8 * PD_INDEX vaddr in do {
        e \<leftarrow> load st entry;
        if \<not> pd_entry_is_present e then do {
          (child, st) \<leftarrow> virt_mem_alloc_ptable st;
          e \<leftarrow> load st entry;
          let e = pd_entry_add_attrib e PDE_PRESENT;
          let e = (if flags AND VIRT_MEM_WRITABLE \<noteq> 0 then pd_entry_add_attrib e PDE_USER else e);
          let e = (if flags AND VIRT_MEM_USER \<noteq> 0 then pd_entry_add_attrib e PDE_USER else e);
          st \<leftarrow> store st entry (pd_entry_set_frame e child);
          Some (child, st)
        }
        else do {
          let e = (if \<not> pd_entry_is_writable e \<and> flags AND VIRT_MEM_WRITABLE \<noteq> 0
                   then pd_entry_add_attrib e PDE_WRITABLE else e);
          let e = (if \<not> pd_entry_is_user e \<and> flags AND VIRT_MEM_USER \<noteq> 0
                   then pd_entry_add_attrib e PDE_USER else e);
          st \<leftarrow> store st entry e;
          Some (pd_entry_pfn e, st)
        }
      })"

definition pt_install :: "vm_state \<Rightarrow> u64 \<Rightarrow> u64 \<Rightarrow> u64 \<Rightarrow> u64 \<Rightarrow> vm_state option" where
  "pt_install st table phys vaddr flags =
     (let e = pt_entry_add_attrib 0 PTE_PRESENT;
          e = (if flags AND VIRT_MEM_WRITABLE \<noteq> 0 then pt_entry_add_attrib e PTE_WRITABLE else e);
          e = (if flags AND VIRT_MEM_USER \<noteq> 0 then pt_entry_add_attrib e PTE_USER else e)
      in store st (table + 8 * PT_INDEX vaddr) (pt_entry_set_frame e phys))"

definition virt_mem_map_page_p ::
    "vm_state \<Rightarrow> u64 \<Rightarrow> u64 \<Rightarrow> u64 \<Rightarrow> u64 \<Rightarrow> (int \<times> vm_state) option" where
  "virt_mem_map_page_p st phys vaddr flags pml4 = do {
     (pdp, st) \<leftarrow> pml4_descend st (ADD_PAGE_OFFSET pml4) vaddr flags;
     if pdp = 0 then Some (-1, st)
     else do {
       (pdir, st) \<leftarrow> pdp_descend st (ADD_PAGE_OFFSET pdp) vaddr flags;
       if pdir = 0 then Some (-1, st)
       else do {
         (ptable, st) \<leftarrow> pd_descend st (ADD_PAGE_OFFSET pdir) vaddr flags;
         if ptable = 0 then Some (-1, st)
         else do {
           st \<leftarrow> pt_install st (ADD_PAGE_OFFSET ptable) phys vaddr flags;
           Some (0, st)
         }
       }
     }
   }"

definition virt_mem_map_page :: "vm_state \<Rightarrow> u64 \<Rightarrow> u64 \<Rightarrow> u64 \<Rightarrow> (int \<times> vm_state) option" where
  "virt_mem_map_page st phys vaddr flags = virt_mem_map_page_p st phys vaddr flags (vm_cur_dir st)"

fun map_pages_loop ::
    "vm_state \<Rightarrow> u64 \<Rightarrow> u64 \<Rightarrow> nat \<Rightarrow> u64 \<Rightarrow> u64 \<Rightarrow> (int \<times> vm_state) option" where
  "map_pages_loop st paddr vaddr 0 flags dir = Some (0, st)"
| "map_pages_loop st paddr vaddr (Suc n) flags dir = do {
     (ret, st) \<leftarrow> virt_mem_map_page_p st paddr vaddr flags dir;
     if ret \<noteq> 0 then Some (ret, st)
     else map_pages_loop st (paddr + PAGE_SIZE) (vaddr + PAGE_SIZE) n flags dir
   }"

definition virt_mem_map_pages_p ::
    "vm_state \<Rightarrow> u64 \<Rightarrow> u64 \<Rightarrow> u64 \<Rightarrow> u64 \<Rightarrow> u64 \<Rightarrow> (int \<times> vm_state) option" where
  "virt_mem_map_pages_p st phys virt n_pages flags dir =
     map_pages_loop st phys virt (unat n_pages) flags dir"

definition virt_mem_map_pages ::
    "vm_state \<Rightarrow> u64 \<Rightarrow> u64 \<Rightarrow> u64 \<Rightarrow> u64 \<Rightarrow> (int \<times> vm_state) option" where
  "virt_mem_map_pages st phys virt n_pages flags =
     virt_mem_map_pages_p st phys virt n_pages flags (vm_cur_dir st)"

definition virt_mem_unmap_page :: "vm_state \<Rightarrow> u64 \<Rightarrow> int \<times> vm_state" where
  "virt_mem_unmap_page st virt = (-1, st)"

definition virt_mem_unmap_pages :: "vm_state \<Rightarrow> u64 \<Rightarrow> u64 \<Rightarrow> int \<times> vm_state" where
  "virt_mem_unmap_pages st virt n_pages = (-1, st)"

subsection \<open>Cloning an address space\<close>

definition clone_ptable :: "vm_state \<Rightarrow> u64 \<Rightarrow> (u64 \<times> vm_state) option" where
  "clone_ptable st src = do {
     (table, st) \<leftarrow> virt_mem_alloc_ptable st;
     let table = ADD_PAGE_OFFSET table;
     let src = ADD_PAGE_OFFSET src;
     st \<leftarrow> for_each (\<lambda>i st. do {
              e \<leftarrow> load st (src + 8 * of_nat i);
              if e = 0 then Some st
              else if \<not> pt_entry_is_user e then store st (table + 8 * of_nat i) e
              else do {
                (dst_block, st) \<leftarrow> vm_alloc_block st;
                st \<leftarrow> copy_page st dst_block (pt_entry_pfn e);
                t \<leftarrow> load st (table + 8 * of_nat i);
                st \<leftarrow> store st (table + 8 * of_nat i) (pt_entry_set_frame t dst_block);
                t \<leftarrow> load st (table + 8 * of_nat i);
                e \<leftarrow> load st (src + 8 * of_nat i);
                store st (table + 8 * of_nat i) (t OR (e AND PTE_ON_CLONE))
              }
            }) [0..<512] st;
     Some (REMOVE_PAGE_OFFSET table, st)
   }"

definition clone_pdirectory :: "vm_state \<Rightarrow> u64 \<Rightarrow> (u64 \<times> vm_state) option" where
  "clone_pdirectory st src = do {
     (dir, st) \<leftarrow> virt_mem_alloc_pdirectory st;
     let dir = ADD_PAGE_OFFSET dir;
     let src = ADD_PAGE_OFFSET src;
     st \<leftarrow> for_each (\<lambda>i st. do {
              e \<leftarrow> load st (src + 8 * of_nat i);
              if e = 0 then Some st
              else if \<not> pd_entry_is_user e then store st (dir + 8 * of_nat i) e
              else do {
                (new_table, st) \<leftarrow> clone_ptable st (pd_entry_pfn e);
                t \<leftarrow> load st (dir + 8 * of_nat i);
                st \<leftarrow> store st (dir + 8 * of_nat i) (pd_entry_set_frame t new_table);
                t \<leftarrow> load st (dir + 8 * of_nat i);
                e \<leftarrow> load st (src + 8 * of_nat i);
                store st (dir + 8 * of_nat i) (t OR (e AND PDE_ON_CLONE))
              }
            }) [0..<512] st;
     Some (REMOVE_PAGE_OFFSET dir, st)
   }"

definition clone_pdp :: "vm_state \<Rightarrow> u64 \<Rightarrow> (u64 \<times> vm_state) option" where
  "clone_pdp st src = do {
     (dir, st) \<leftarrow> virt_mem_alloc_pdp st;
     let dir = ADD_PAGE_OFFSET dir;
     let src = ADD_PAGE_OFFSET src;
     st \<leftarrow> for_each (\<lambda>i st. do {
              e \<leftarrow> load st (src + 8 * of_nat i);
              if e = 0 then Some st
              else if \<not> pdp_entry_is_user e then store st (dir + 8 * of_nat i) e
              else do {
                (new_table, st) \<leftarrow> clone_pdirectory st (pdp_entry_pfn e);
                t \<leftarrow> load st (dir + 8 * of_nat i);
                st \<leftarrow> store st (dir + 8 * of_nat i) (pdp_entry_set_frame t new_table);
                t \<leftarrow> load st (dir + 8 * of_nat i);
                e \<leftarrow> load st (src + 8 * of_nat i);
                store st (dir + 8 * of_nat i) (t OR (e AND PDPE_ON_CLONE))
              }
            }) [0..<512] st;
     Some (REMOVE_PAGE_OFFSET dir, st)
   }"

definition clone_pml4 :: "vm_state \<Rightarrow> u64 \<Rightarrow> (u64 \<times> vm_state) option" where
  "clone_pml4 st src = do {
     (dir, st) \<leftarrow> virt_mem_alloc_pml4 st;
     let dir = ADD_PAGE_OFFSET dir;
     let src = ADD_PAGE_OFFSET src;
     st \<leftarrow> for_each (\<lambda>i st. do {
              e \<leftarrow> load st (src + 8 * of_nat i);
              if e = 0 then Some st
              else if \<not> pml4_entry_is_user e then store st (dir + 8 * of_nat i) e
              else do {
                (new_table, st) \<leftarrow> clone_pdp st (pml4_entry_pfn e);
                t \<leftarrow> load st (dir + 8 * of_nat i);
                st \<leftarrow> store st (dir + 8 * of_nat i) (pml4_entry_set_frame t new_table);
                t \<leftarrow> load st (dir + 8 * of_nat i);
                e \<leftarrow> load st (src + 8 * of_nat i);
                store st (dir + 8 * of_nat i) (t OR (e AND PML4E_ON_CLONE))
              }
            }) [0..<512] st;
     Some (REMOVE_PAGE_OFFSET dir, st)
   }"

definition virt_mem_clone_address_space :: "vm_state \<Rightarrow> u64 \<Rightarrow> (u64 \<times> vm_state) option" where
  "virt_mem_clone_address_space st src = clone_pml4 st src"

subsection \<open>The mapping the tables describe\<close>

text \<open>
  \<open>node m root p\<close> is what the path \<open>p\<close> of table indices (innermost first) leads to from the top
  level table: a table for a path of up to three indices, a page for four. An entry that is not
  present leads nowhere, and so does a present entry of the upper levels with frame 0, which is
  how the code treats it.
\<close>

definition child :: "nat \<Rightarrow> u64 \<Rightarrow> u64 option" where
  "child l e =
     (if e AND PTE_PRESENT = 0 \<or> l < 3 \<and> e AND PTE_FRAME = 0 then None else Some (e AND PTE_FRAME))"

fun node :: "(u64 \<Rightarrow> u64) \<Rightarrow> u64 \<Rightarrow> nat list \<Rightarrow> u64 option" where
  "node m root [] = Some root"
| "node m root (i # p) =
     (case node m root p of None \<Rightarrow> None | Some t \<Rightarrow> child (length p) (m (t + 8 * of_nat i)))"

definition vpath :: "u64 \<Rightarrow> nat list" where
  "vpath va = [unat (PT_INDEX va), unat (PD_INDEX va), unat (PDP_INDEX va), unat (PML4_INDEX va)]"

definition translate :: "vm_state \<Rightarrow> u64 \<Rightarrow> u64 \<Rightarrow> u64 option" where
  "translate st root va = map_option (\<lambda>f. f OR (va AND 0xFFF)) (node (vm_mem st) root (vpath va))"

abbreviation (input) valid :: "nat list \<Rightarrow> bool" where
  "valid p \<equiv> length p \<le> 4 \<and> (\<forall>i \<in> set p. i < 512)"

abbreviation (input) table_path :: "nat list \<Rightarrow> bool" where
  "table_path p \<equiv> length p \<le> 3 \<and> (\<forall>i \<in> set p. i < 512)"

text \<open>
  A sound state: the frame allocator is sound and its memory lies in the direct map, and the
  tables reachable from the root are distinct frames that the allocator knows to be in use.
\<close>

definition tables_ok :: "phys_mem \<Rightarrow> (u64 \<Rightarrow> u64) \<Rightarrow> u64 \<Rightarrow> bool" where
  "tables_ok pm m root \<longleftrightarrow> root \<noteq> 0 \<and>
     (\<forall>p t. table_path p \<and> node m root p = Some t \<longrightarrow> is_frame t \<and> pm_used pm t) \<and>
     (\<forall>p q t. table_path p \<and> table_path q \<and> node m root p = Some t \<and> node m root q = Some t \<longrightarrow> p = q)"

definition vm_ok :: "vm_state \<Rightarrow> u64 \<Rightarrow> bool" where
  "vm_ok st root \<longleftrightarrow> pm_ok (vm_pm st) \<and> unat (max_blocks (vm_pm st)) \<le> 2 ^ 18 \<and>
     direct_limit st = 2 ^ 30 \<and> tables_ok (vm_pm st) (vm_mem st) root"

subsection \<open>Addresses of entries\<close>

lemma is_frame_page: "is_frame t \<Longrightarrow> \<exists>q. unat t = 4096 * q \<and> q < 2 ^ 18"
  using mult_div_mod_eq [of 4096 "unat t"]
  by (intro exI [of _ "unat t div 4096"]) (simp add: is_frame_def less_mult_imp_div_less)

lemma is_frame_unat: "is_frame t \<Longrightarrow> unat t + 4096 \<le> 2 ^ 30"
  using is_frame_page [of t] by auto

lemma page_div: "k < 4096 \<Longrightarrow> (4096 * q + k) div 4096 = (q :: nat)"
  by simp

lemma entry_unat:
  assumes "is_frame t" "i < 512"
  shows "unat (t + 8 * of_nat i) = unat t + 8 * i"
proof -
  have "unat (8 * of_nat i :: u64) = 8 * i"
    using assms(2) unat_of_nat_64 [of "8 * i"] by simp
  then show ?thesis
    using is_frame_unat [OF assms(1)] assms(2)
    by (subst unat_plus_simple [THEN iffD1]) (auto simp: no_olen_add_nat)
qed

lemma entry_inj:
  assumes "is_frame t" "is_frame t'" "i < 512" "j < 512" "t + 8 * of_nat i = t' + 8 * of_nat j"
  shows "t = t' \<and> i = j"
proof -
  obtain q q' where q: "unat t = 4096 * q" "unat t' = 4096 * q'"
    using is_frame_page assms(1,2) by blast
  have "unat t + 8 * i = unat t' + 8 * j" using assms entry_unat by metis
  then have e: "4096 * q + 8 * i = 4096 * q' + 8 * j" using q by simp
  then have "q = q'" using assms(3,4) page_div [of "8 * i" q] page_div [of "8 * j" q'] by simp
  then show ?thesis using e q by (simp add: word_unat_eq_iff)
qed

lemma in_page_iff:
  assumes "is_frame c" "is_frame t" "i < 512"
  shows "(c \<le> t + 8 * of_nat i \<and> t + 8 * of_nat i < c + 4096) \<longleftrightarrow> t = c"
proof -
  have c: "unat (c + 4096) = unat c + 4096"
    using is_frame_unat [OF assms(1)]
    by (subst unat_plus_simple [THEN iffD1]) (auto simp: no_olen_add_nat)
  obtain q q' where q: "unat t = 4096 * q" "unat c = 4096 * q'"
    using is_frame_page assms(1,2) by blast
  have "(c \<le> t + 8 * of_nat i \<and> t + 8 * of_nat i < c + 4096) \<longleftrightarrow>
      unat c \<le> unat t + 8 * i \<and> unat t + 8 * i < unat c + 4096"
    by (simp add: word_le_nat_alt word_less_nat_alt entry_unat [OF assms(2,3)] c)
  also have "\<dots> \<longleftrightarrow> unat t = unat c"
  proof
    assume a: "unat c \<le> unat t + 8 * i \<and> unat t + 8 * i < unat c + 4096"
    then obtain k where "unat t + 8 * i = unat c + k" "k < 4096" by (metis le_Suc_ex nat_add_left_cancel_less)
    then show "unat t = unat c" using q assms(3) page_div [of "8 * i" q] page_div [of k q'] by simp
  qed (use assms(3) in simp)
  finally show ?thesis by (simp add: word_unat_eq_iff)
qed

lemma offset_ptr:
  assumes "unat a < 2 ^ 30"
  shows "PAGE_OFFSET \<le> a + PAGE_OFFSET" and "\<not> PAGE_OFFSET \<le> a"
proof -
  have u: "unat (a + PAGE_OFFSET) = unat a + 0xFFFF880000000000"
    using assms by (subst unat_plus_simple [THEN iffD1]) (auto simp: no_olen_add_nat)
  show "PAGE_OFFSET \<le> a + PAGE_OFFSET" by (simp add: word_le_nat_alt u)
  show "\<not> PAGE_OFFSET \<le> a" using assms by (simp add: word_le_nat_alt)
qed

lemma ptr_phys_offset:
  assumes "direct_limit st = 2 ^ 30" "unat a < 2 ^ 30"
  shows "ptr_phys st (a + PAGE_OFFSET) = Some a"
  using offset_ptr [OF assms(2)] assms by (simp add: ptr_phys_def word_less_nat_alt)

lemma add_offset: "is_frame t \<Longrightarrow> ADD_PAGE_OFFSET t = t + PAGE_OFFSET"
  using offset_ptr(2) [of t] by (simp add: ADD_PAGE_OFFSET_def is_frame_def)

lemma add_offset_twice: "is_frame t \<Longrightarrow> ADD_PAGE_OFFSET (ADD_PAGE_OFFSET t) = ADD_PAGE_OFFSET t"
  using offset_ptr(1) [of t] by (simp add: add_offset) (simp add: ADD_PAGE_OFFSET_def is_frame_def)

lemma entry_ptr:
  assumes "direct_limit st = 2 ^ 30" "is_frame t" "i < 512"
  shows "ptr_phys st (ADD_PAGE_OFFSET t + 8 * of_nat i) = Some (t + 8 * of_nat i)"
proof -
  have "unat (t + 8 * of_nat i) < 2 ^ 30"
    using entry_unat [OF assms(2,3)] is_frame_unat [OF assms(2)] assms(3) by simp
  then show ?thesis
    using ptr_phys_offset [OF assms(1), of "t + 8 * of_nat i"]
    by (simp add: add_offset [OF assms(2)] add.assoc) (simp add: add.commute)
qed

lemma load_entry:
  "direct_limit st = 2 ^ 30 \<Longrightarrow> is_frame t \<Longrightarrow> i < 512 \<Longrightarrow>
     load st (ADD_PAGE_OFFSET t + 8 * of_nat i) = Some (vm_mem st (t + 8 * of_nat i))"
  by (simp add: load_def entry_ptr)

lemma store_entry:
  "direct_limit st = 2 ^ 30 \<Longrightarrow> is_frame t \<Longrightarrow> i < 512 \<Longrightarrow>
     store st (ADD_PAGE_OFFSET t + 8 * of_nat i) v
       = Some (st\<lparr>vm_mem := (vm_mem st)(t + 8 * of_nat i := v)\<rparr>)"
  by (simp add: store_def entry_ptr)

lemma clear_frame:
  assumes "direct_limit st = 2 ^ 30" "is_frame c"
  shows "clear_page st (ADD_PAGE_OFFSET c)
    = Some (st\<lparr>vm_mem := \<lambda>x. if c \<le> x \<and> x < c + 4096 then 0 else vm_mem st x\<rparr>)"
proof -
  have u: "unat (c + 4095) = unat c + 4095"
    using is_frame_unat [OF assms(2)]
    by (subst unat_plus_simple [THEN iffD1]) (auto simp: no_olen_add_nat)
  have "ptr_phys st (c + 4095 + PAGE_OFFSET) = Some (c + 4095)"
    and "ptr_phys st (c + PAGE_OFFSET) = Some c"
    using is_frame_unat [OF assms(2)] by (intro ptr_phys_offset assms; simp add: u)+
  then show ?thesis by (simp add: clear_page_def add_offset [OF assms(2)] add_ac)
qed

lemma index_lt: "unat (x AND 0x1FF :: u64) < 512"
proof -
  have "x AND 0x1FF = take_bit 9 x" by (simp add: take_bit_eq_mask mask_eq_exp_minus_1)
  then have "unat (x AND 0x1FF) = unat x mod 512" by (simp only: unsigned_take_bit_eq) (simp add: take_bit_eq_mod)
  then show ?thesis by simp
qed

lemma vpath_valid: "valid (vpath va)"
  by (simp add: vpath_def PT_INDEX_def PD_INDEX_def PDP_INDEX_def PML4_INDEX_def index_lt)

lemma child_None: "child l e = None \<longleftrightarrow> e AND PTE_PRESENT = 0 \<or> l < 3 \<and> e AND PTE_FRAME = 0"
  by (simp add: child_def)


subsection \<open>How the mapping changes\<close>

declare node.simps(2) [simp del]

lemma node_NoneI: "node m root q = None \<Longrightarrow> node m root (j # q) = None"
  by (simp add: node.simps(2))

text \<open>Updates of memory that leave every reachable entry leading to the same place.\<close>

lemma node_same:
  assumes "\<And>q t j. table_path q \<Longrightarrow> node m root q = Some t \<Longrightarrow> j < 512 \<Longrightarrow>
      child (length q) (m' (t + 8 * of_nat j)) = child (length q) (m (t + 8 * of_nat j))"
  shows "valid q \<Longrightarrow> node m' root q = node m root q"
proof (induction q)
  case (Cons j q)
  then have "table_path q" "j < 512" "node m' root q = node m root q" by auto
  then show ?case using assms [of q _ j] by (simp add: node.simps(2) split: option.splits)
qed simp

lemma tables_ok_same:
  assumes "tables_ok pm m root" "\<And>q. valid q \<Longrightarrow> node m' root q = node m root q"
    "\<And>g. pm_used pm g \<Longrightarrow> pm_used pm' g"
  shows "tables_ok pm' m' root"
proof -
  have "\<And>q. table_path q \<Longrightarrow> node m' root q = node m root q" using assms(2) by simp
  then show ?thesis using assms(1,3) unfolding tables_ok_def by metis
qed

lemma tables_okD:
  assumes "tables_ok pm m root" "table_path p" "node m root p = Some t"
  shows "is_frame t" "pm_used pm t"
  using assms unfolding tables_ok_def by blast+

lemma tables_ok_inj:
  assumes "tables_ok pm m root" "table_path p" "table_path q"
    "node m root p = Some t" "node m root q = Some t"
  shows "p = q"
  using assms unfolding tables_ok_def by blast

text \<open>Clearing an unused frame changes nothing.\<close>

lemma node_clear_unused:
  assumes ok: "tables_ok pm m root" and c: "is_frame c" "\<not> pm_used pm c" and q: "valid q"
  shows "node (\<lambda>x. if c \<le> x \<and> x < c + 4096 then 0 else m x) root q = node m root q"
proof (rule node_same [OF _ q])
  fix q t and j :: nat
  assume "table_path q" "node m root q = Some t" "j < 512"
  then show "child (length q) ((\<lambda>x. if c \<le> x \<and> x < c + 4096 then 0 else m x) (t + 8 * of_nat j))
      = child (length q) (m (t + 8 * of_nat j))"
    using tables_okD [OF ok, of q t] in_page_iff [OF c(1), of t j] c(2) by auto
qed

text \<open>Storing one entry changes nothing but what hangs below it.\<close>

lemma node_store_step:
  assumes ok: "tables_ok pm m root" and p: "table_path p" "node m root p = Some t" "i < 512"
    and upd: "\<And>x. x \<noteq> t + 8 * of_nat i \<Longrightarrow> m' x = m x"
    and q: "table_path q" "j < 512" "j # q \<noteq> i # p"
    and IH: "node m' root q = node m root q"
  shows "node m' root (j # q) = node m root (j # q)"
proof (cases "node m root q")
  case (Some t')
  have "t' + 8 * of_nat j \<noteq> t + 8 * of_nat i"
  proof
    assume "t' + 8 * of_nat j = t + 8 * of_nat i"
    then have "t' = t" "j = i"
      using entry_inj tables_okD(1) [OF ok q(1) Some] tables_okD(1) [OF ok p(1,2)] q(2) p(3) by blast+
    then show False using tables_ok_inj [OF ok q(1) p(1)] Some p(2) q(3) by blast
  qed
  then show ?thesis using IH Some upd by (simp add: node.simps(2))
qed (use IH in \<open>simp add: node.simps(2)\<close>)

lemma node_store_short:
  assumes "tables_ok pm m root" "table_path p" "node m root p = Some t" "i < 512"
    and "\<And>x. x \<noteq> t + 8 * of_nat i \<Longrightarrow> m' x = m x"
  shows "valid q \<Longrightarrow> length q \<le> length p \<Longrightarrow>
     node m' root q = node m root q"
proof (induction q)
  case (Cons j q)
  then have "node m' root q = node m root q" by simp
  moreover have "j # q \<noteq> i # p" using Cons.prems by auto
  ultimately show ?case using Cons.prems by (intro node_store_step [OF assms]) auto
qed simp

lemma node_store_other:
  assumes ok: "tables_ok pm m root" and p: "table_path p" "node m root p = Some t" "i < 512"
    and upd: "\<And>x. x \<noteq> t + 8 * of_nat i \<Longrightarrow> m' x = m x"
    and none: "node m root (i # p) = None"
    and below: "\<And>j. j < 512 \<Longrightarrow> length p < 3 \<Longrightarrow>
      node m' root (j # i # p) = None"
  shows "valid q \<Longrightarrow> q \<noteq> i # p \<Longrightarrow> node m' root q = node m root q"
proof (induction q)
  case (Cons j q)
  then have q: "table_path q" "j < 512" by auto
  show ?case
  proof (cases "q = i # p")
    case True
    then show ?thesis using node_NoneI [OF none, of j] below [of j] q by simp
  next
    case False
    then have "node m' root q = node m root q" using Cons by simp
    then show ?thesis using Cons.prems q by (intro node_store_step [OF ok p upd]) auto
  qed
qed simp

lemma node_store_at:
  assumes ok: "tables_ok pm m root" and p: "table_path p" "node m root p = Some t" "i < 512"
    and upd: "\<And>x. x \<noteq> t + 8 * of_nat i \<Longrightarrow> m' x = m x"
  shows "node m' root (i # p) = child (length p) (m' (t + 8 * of_nat i))"
  using node_store_short [OF ok p upd, of p] p by (simp add: node.simps(2))

text \<open>Hanging a fresh zeroed table into an empty entry.\<close>

lemma hang_table:
  assumes ok: "tables_ok pm m root" and p: "table_path p" "length p < 3" "node m root p = Some t" "i < 512"
    and none: "node m root (i # p) = None"
    and c: "is_frame c" "c \<noteq> 0" "\<not> pm_used pm c" "pm_used pm' c" "\<And>g. pm_used pm g \<Longrightarrow> pm_used pm' g"
    and e: "e AND PTE_PRESENT \<noteq> 0" "e AND PTE_FRAME = c"
    and m'_at: "m' (t + 8 * of_nat i) = e"
    and m'_else: "\<And>x. x \<noteq> t + 8 * of_nat i \<Longrightarrow> m' x = (if c \<le> x \<and> x < c + 4096 then 0 else m x)"
  shows "tables_ok pm' m' root" and "node m' root (i # p) = Some c"
    and "\<And>q. valid q \<Longrightarrow> q \<noteq> i # p \<Longrightarrow> node m' root q = node m root q"
proof -
  let ?m1 = "\<lambda>x. if c \<le> x \<and> x < c + 4096 then 0 else m x"
  have m1: "\<And>q. valid q \<Longrightarrow> node ?m1 root q = node m root q"
    using node_clear_unused [OF ok c(1,3)] by blast
  have ok1: "tables_ok pm ?m1 root" by (rule tables_ok_same [OF ok m1])
  have p1: "node ?m1 root p = Some t" "node ?m1 root (i # p) = None"
    using m1 [of p] m1 [of "i # p"] p none by auto
  show at: "node m' root (i # p) = Some c"
    using node_store_at [OF ok1 p(1) p1(1) p(4) m'_else] e c(2) by (simp add: m'_at child_def)
  have tc: "t \<noteq> c" using tables_okD(2) [OF ok p(1,3)] c(3) by blast
  have ft: "is_frame t" by (rule tables_okD(1) [OF ok p(1,3)])
  have below: "node m' root (j # i # p) = None" if j: "j < 512" for j
  proof -
    have "c + 8 * of_nat j \<noteq> t + 8 * of_nat i" using entry_inj [OF c(1) ft j p(4)] tc by blast
    moreover have "c \<le> c + 8 * of_nat j \<and> c + 8 * of_nat j < c + 4096"
      using in_page_iff [OF c(1,1) j] by blast
    ultimately have "m' (c + 8 * of_nat j) = 0" using m'_else by simp
    then show ?thesis using at by (subst node.simps(2)) (simp add: child_def)
  qed
  show other: "node m' root q = node m root q" if "valid q" "q \<noteq> i # p" for q
    using node_store_other [OF ok1 p(1) p1(1) p(4) m'_else p1(2) below that] m1 that by simp
  have at_iff: "node m' root q = Some c \<longleftrightarrow> q = i # p" if "table_path q" for q
    using at other [of q] tables_okD(2) [OF ok, of q] c(3) that by (cases "q = i # p") auto
  show "tables_ok pm' m' root"
    unfolding tables_ok_def
  proof (intro conjI allI impI)
    show "root \<noteq> 0" using ok by (simp add: tables_ok_def)
  next
    fix q t' assume q: "table_path q \<and> node m' root q = Some t'"
    show "is_frame t'"
      using q at other [of q] tables_okD(1) [OF ok, of q t'] c(1) by (cases "q = i # p") auto
    show "pm_used pm' t'"
      using q at other [of q] tables_okD(2) [OF ok, of q t'] c(4,5) by (cases "q = i # p") auto
  next
    fix q q' t' assume q: "table_path q \<and> table_path q' \<and> node m' root q = Some t' \<and> node m' root q' = Some t'"
    then have tq: "table_path q" "table_path q'" and nq: "node m' root q = Some t'" "node m' root q' = Some t'"
      by auto
    show "q = q'"
    proof (cases "t' = c")
      case True
      then show ?thesis using nq at_iff [OF tq(1)] at_iff [OF tq(2)] by simp
    next
      case False
      then have ne: "q \<noteq> i # p" "q' \<noteq> i # p" using nq at by auto
      have "node m root q = Some t'" "node m root q' = Some t'"
        using nq other [of q] other [of q'] tq ne by auto
      then show ?thesis by (rule tables_ok_inj [OF ok tq])
    qed
  qed
qed

subsection \<open>One level of a mapping\<close>

text \<open>
  The three levels do the same; \<open>w\<close> is the attribute that a writable mapping sets in a fresh
  entry, which at the page directory level is the user attribute.
\<close>

definition add_flags :: "u64 \<Rightarrow> u64 \<Rightarrow> u64 \<Rightarrow> u64" where
  "add_flags w flags e =
     (let e = (if flags AND VIRT_MEM_WRITABLE \<noteq> 0 then e OR w else e)
      in if flags AND VIRT_MEM_USER \<noteq> 0 then e OR 4 else e)"

definition grant :: "u64 \<Rightarrow> u64 \<Rightarrow> u64" where
  "grant flags e =
     (let e = (if e AND 2 = 0 \<and> flags AND VIRT_MEM_WRITABLE \<noteq> 0 then e OR 2 else e)
      in if e AND 4 = 0 \<and> flags AND VIRT_MEM_USER \<noteq> 0 then e OR 4 else e)"

definition alloc_table :: "vm_state \<Rightarrow> (u64 \<times> vm_state) option" where
  "alloc_table st = do {
     (p, st) \<leftarrow> vm_alloc_block st;
     if p = 0 then Some (p, st)
     else do { st \<leftarrow> clear_page st (ADD_PAGE_OFFSET p); Some (p, st) }
   }"

definition descend :: "u64 \<Rightarrow> vm_state \<Rightarrow> u64 \<Rightarrow> u64 \<Rightarrow> (u64 \<times> vm_state) option" where
  "descend w st entry flags = do {
     e \<leftarrow> load st entry;
     if e AND 1 = 0 then do {
       (c, st) \<leftarrow> alloc_table st;
       e \<leftarrow> load st entry;
       st \<leftarrow> store st entry ((add_flags w flags (e OR 1) AND NOT PTE_FRAME) OR c);
       Some (c, st)
     }
     else do {
       st \<leftarrow> store st entry (grant flags e);
       Some (grant flags e AND PTE_FRAME, st)
     }
   }"

lemma alloc_table_eqs:
  "virt_mem_alloc_ptable = alloc_table" "virt_mem_alloc_pdirectory = alloc_table"
  "virt_mem_alloc_pdp = alloc_table" "virt_mem_alloc_pml4 = alloc_table"
  by (rule ext, simp add: alloc_table_def virt_mem_alloc_ptable_def virt_mem_alloc_pdirectory_def
      virt_mem_alloc_pdp_def virt_mem_alloc_pml4_def)+

lemma descend_eqs:
  "pml4_descend st t va flags = descend 2 st (t + 8 * PML4_INDEX va) flags"
  "pdp_descend st t va flags = descend 2 st (t + 8 * PDP_INDEX va) flags"
  "pd_descend st t va flags = descend 4 st (t + 8 * PD_INDEX va) flags"
  by (simp_all only: pml4_descend_def pdp_descend_def pd_descend_def descend_def Let_def grant_def
      add_flags_def entry_defs alloc_table_eqs not_not)

lemma bits_1_2_4: "bit (1::u64) k \<longleftrightarrow> k = 0" "bit (2::u64) k \<longleftrightarrow> k = 1" "bit (4::u64) k \<longleftrightarrow> k = 2"
  using bit_exp_iff [where 'a = "64 word", of 0 k] bit_exp_iff [where 'a = "64 word", of 1 k]
    bit_exp_iff [where 'a = "64 word", of 2 k] by (auto simp: possible_bit_def)

lemma or_frame: "w \<in> {1, 2, 4} \<Longrightarrow> (e OR w) AND (0x7FFFFFFFFFFFF000 :: u64) = e AND 0x7FFFFFFFFFFFF000"
  by (rule bit_word_eqI) (auto simp only: bit_simps bit_frame_mask bits_1_2_4 insert_iff empty_iff)

lemma or_present: "w \<in> {2, 4} \<Longrightarrow> (e OR w) AND 1 = (e AND 1 :: u64)"
  by (rule bit_word_eqI) (auto simp only: bit_simps bits_1_2_4 insert_iff empty_iff)

lemma child_grant: "child l (grant flags e) = child l e"
  and grant_frame: "grant flags e AND 0x7FFFFFFFFFFFF000 = e AND 0x7FFFFFFFFFFFF000"
  by (simp_all add: grant_def child_def Let_def or_frame or_present)

lemma add_flags_present: "w \<in> {2, 4} \<Longrightarrow> add_flags w flags (e OR 1) AND 1 \<noteq> 0"
proof -
  have "(e OR 1) AND 1 = (1 :: u64)"
    by (rule bit_word_eqI) (auto simp only: bit_simps bits_1_2_4)
  then show "w \<in> {2, 4} \<Longrightarrow> add_flags w flags (e OR 1) AND 1 \<noteq> 0"
    by (auto simp: add_flags_def Let_def or_present)
qed

lemma new_entry:
  assumes "w \<in> {2, 4}" "c = 0 \<or> is_frame c"
  shows "((add_flags w flags (e OR 1) AND NOT PTE_FRAME) OR c) AND PTE_FRAME = c"
    and "((add_flags w flags (e OR 1) AND NOT PTE_FRAME) OR c) AND 1 \<noteq> 0"
proof -
  show "((add_flags w flags (e OR 1) AND NOT PTE_FRAME) OR c) AND PTE_FRAME = c"
    using assms(2) is_frame_pfn [of c] by (simp only: pfn_set_frame) auto
  have "bit (add_flags w flags (e OR 1)) 0"
    using add_flags_present [OF assms(1), of flags e] by (metis and_one_eq odd_iff_mod_2_eq_one even_iff_mod_2_eq_zero bit_0)
  then have "bit (((add_flags w flags (e OR 1) AND NOT PTE_FRAME) OR c) AND 1) 0"
    by (simp only: bit_simps bit_frame_mask bits_1_2_4) simp
  then show "((add_flags w flags (e OR 1) AND NOT PTE_FRAME) OR c) AND 1 \<noteq> 0"
    by (metis bit_0_eq bot_apply bot_bool_def)
qed

lemma vm_alloc_block_cases:
  assumes "pm_ok (vm_pm st)" "unat (max_blocks (vm_pm st)) \<le> 2 ^ 18"
  obtains (full) "vm_alloc_block st = Some (0, st)"
  | (got) c pm' where "vm_alloc_block st = Some (c, st\<lparr>vm_pm := pm'\<rparr>)" "is_frame c" "c \<noteq> 0"
      "\<not> pm_used (vm_pm st) c" "pm_used pm' c" "\<And>g. pm_used (vm_pm st) g \<Longrightarrow> pm_used pm' g"
      "pm_ok pm'" "max_blocks pm' = max_blocks (vm_pm st)"
proof (rule phys_mem_alloc_block_cases [OF assms(1)])
  assume "phys_mem_alloc_block (vm_pm st) = Some (0, vm_pm st)"
  then show thesis by (intro full) (simp add: vm_alloc_block_def)
next
  fix f
  let ?pm' = "(vm_pm st)\<lparr>bitmap_words := mark (bitmap_words (vm_pm st)) f,
      used_blocks := used_blocks (vm_pm st) + 1\<rparr>"
  let ?c = "of_nat f * PHYS_MEM_BLOCK_SIZE :: u64"
  assume al: "phys_mem_alloc_block (vm_pm st) = Some (?c, ?pm')"
    and f: "0 < f" "f < unat (max_blocks (vm_pm st))" "f < 2 ^ 52"
  have u: "unat ?c = f * 4096" by (rule frame_addr(1) [OF f(3)])
  have "f < 2 ^ 18" using f(2) assms(2) by linarith
  then have "is_frame ?c" by (simp add: is_frame_def u)
  moreover have nz: "?c \<noteq> 0" using frame_addr_neq_0 [OF f(1,3)] .
  ultimately show thesis
    using got [of ?c ?pm'] pmm.alloc_fresh [OF assms(1) al nz] pmm.alloc_mono [OF assms(1) al]
      pmm.alloc_ok [OF assms(1) al] al by (simp add: vm_alloc_block_def)
qed

definition kept :: "vm_state \<Rightarrow> vm_state \<Rightarrow> bool" where
  "kept st st' \<longleftrightarrow> vm_cur_dir st' = vm_cur_dir st \<and> ident_limit st' = ident_limit st \<and>
     (\<forall>g. pm_used (vm_pm st) g \<longrightarrow> pm_used (vm_pm st') g)"

lemma kept_refl [simp]: "kept st st"
  by (simp add: kept_def)

lemma kept_trans: "kept st st' \<Longrightarrow> kept st' st'' \<Longrightarrow> kept st st''"
  by (simp add: kept_def)

lemma descend_spec:
  assumes ok: "vm_ok st root" and p: "table_path p" "length p < 3"
    "node (vm_mem st) root p = Some t" "i < 512" and w: "w \<in> {2, 4}"
  shows "\<exists>c st'. descend w st (ADD_PAGE_OFFSET t + 8 * of_nat i) flags = Some (c, st') \<and>
    vm_ok st' root \<and> kept st st' \<and>
    node (vm_mem st') root (i # p) = (if c = 0 then None else Some c) \<and>
    (\<forall>q. valid q \<longrightarrow> q \<noteq> i # p \<longrightarrow> node (vm_mem st') root q = node (vm_mem st) root q)"
proof -
  let ?m = "vm_mem st" and ?a = "t + 8 * of_nat i"
  have okd: "pm_ok (vm_pm st)" "unat (max_blocks (vm_pm st)) \<le> 2 ^ 18" "direct_limit st = 2 ^ 30"
    and tab: "tables_ok (vm_pm st) ?m root" using ok by (auto simp: vm_ok_def)
  have t: "is_frame t" "pm_used (vm_pm st) t" using tables_okD [OF tab p(1,3)] by auto
  have ld: "load st (ADD_PAGE_OFFSET t + 8 * of_nat i) = Some (?m ?a)"
    by (rule load_entry [OF okd(3) t(1) p(4)])
  have stored: "vm_ok (st\<lparr>vm_mem := ?m(?a := e)\<rparr>) root \<and>
      (\<forall>q. valid q \<longrightarrow> node (?m(?a := e)) root q = node ?m root q)"
    if "child (length p) e = child (length p) (?m ?a)" for e
  proof -
    have "node (?m(?a := e)) root q = node ?m root q" if "valid q" for q
    proof (rule node_same [OF _ that])
      fix q t' and j :: nat
      assume q: "table_path q" "node ?m root q = Some t'" "j < 512"
      show "child (length q) ((?m(?a := e)) (t' + 8 * of_nat j)) = child (length q) (?m (t' + 8 * of_nat j))"
      proof (cases "t' + 8 * of_nat j = ?a")
        case True
        then have "t' = t" using entry_inj tables_okD(1) [OF tab q(1,2)] t(1) q(3) p(4) by blast
        then have "q = p" using tables_ok_inj [OF tab q(1) p(1) q(2)] p(3) by simp
        then show ?thesis using that True \<open>child (length p) e = _\<close> by simp
      qed simp
    qed
    then show ?thesis using okd tables_ok_same [OF tab, of "?m(?a := e)" "vm_pm st"] by (simp add: vm_ok_def)
  qed
  have at: "node ?m root (i # p) = child (length p) (?m ?a)" using p(3) by (simp add: node.simps(2))
  show ?thesis
  proof (cases "?m ?a AND 1 = 0")
    case False
    let ?e = "grant flags (?m ?a)"
    have "descend w st (ADD_PAGE_OFFSET t + 8 * of_nat i) flags
        = Some (?m ?a AND PTE_FRAME, st\<lparr>vm_mem := ?m(?a := ?e)\<rparr>)"
      using False by (simp add: descend_def ld store_entry [OF okd(3) t(1) p(4)] grant_frame)
    moreover have "child (length p) (?m ?a)
        = (if ?m ?a AND PTE_FRAME = 0 then None else Some (?m ?a AND PTE_FRAME))"
      using False p(2) by (simp add: child_def)
    moreover have "kept st (st\<lparr>vm_mem := ?m(?a := ?e)\<rparr>)" by (simp add: kept_def)
    moreover have "valid (i # p)" using p by simp
    ultimately show ?thesis using stored [OF child_grant, of flags] at by simp
  next
    case True
    then have none: "child (length p) (?m ?a) = None" by (simp add: child_def)
    show ?thesis
    proof (rule vm_alloc_block_cases [OF okd(1,2)])
      assume al: "vm_alloc_block st = Some (0, st)"
      let ?e = "(add_flags w flags (?m ?a OR 1) AND NOT PTE_FRAME) OR 0"
      have "descend w st (ADD_PAGE_OFFSET t + 8 * of_nat i) flags = Some (0, st\<lparr>vm_mem := ?m(?a := ?e)\<rparr>)"
        using True by (simp add: descend_def ld store_entry [OF okd(3) t(1) p(4)] alloc_table_def al)
      moreover have "?e AND PTE_FRAME = 0" by (rule new_entry(1) [OF w]) simp
      then have "child (length p) ?e = child (length p) (?m ?a)" using none p(2) by (simp add: child_def)
      note st' = stored [OF this]
      moreover have "kept st (st\<lparr>vm_mem := ?m(?a := ?e)\<rparr>)" by (simp add: kept_def)
      moreover have "valid (i # p)" using p by simp
      ultimately show ?thesis using at none
        by (intro exI [of _ 0] exI [of _ "st\<lparr>vm_mem := ?m(?a := ?e)\<rparr>"]) simp
    next
      fix c pm'
      assume al: "vm_alloc_block st = Some (c, st\<lparr>vm_pm := pm'\<rparr>)"
        and c: "is_frame c" "c \<noteq> 0" "\<not> pm_used (vm_pm st) c" "pm_used pm' c"
          "\<And>g. pm_used (vm_pm st) g \<Longrightarrow> pm_used pm' g" "pm_ok pm'" "max_blocks pm' = max_blocks (vm_pm st)"
      let ?m1 = "\<lambda>x. if c \<le> x \<and> x < c + 4096 then 0 else ?m x"
      let ?st1 = "st\<lparr>vm_pm := pm', vm_mem := ?m1\<rparr>"
      let ?e = "(add_flags w flags (?m ?a OR 1) AND NOT PTE_FRAME) OR c"
      let ?st2 = "st\<lparr>vm_pm := pm', vm_mem := ?m1(?a := ?e)\<rparr>"
      have "t \<noteq> c" using t(2) c(3) by blast
      then have m1: "?m1 ?a = ?m ?a" using in_page_iff [OF c(1) t(1) p(4)] by auto
      have al2: "alloc_table st = Some (c, ?st1)"
        using c(2) clear_frame [of "st\<lparr>vm_pm := pm'\<rparr>" c] okd(3) c(1)
        by (simp add: alloc_table_def al cong: if_cong)
      have ld1: "load ?st1 (ADD_PAGE_OFFSET t + 8 * of_nat i) = Some (?m ?a)"
        using load_entry [of ?st1 t i] okd(3) t(1) p(4) m1 by simp
      have run: "descend w st (ADD_PAGE_OFFSET t + 8 * of_nat i) flags = Some (c, ?st2)"
        using True store_entry [of ?st1 t i ?e] okd(3) t(1) p(4)
        by (simp add: descend_def ld al2 ld1)
      have e: "?e AND PTE_FRAME = c" "?e AND 1 \<noteq> 0" using new_entry [OF w, of c flags "?m ?a"] c(1) by blast+
      note hung = hang_table [OF tab p(1,2,3,4) _ c(1,2,3,4,5) e(2,1), of "vm_mem ?st2"]
      have h: "tables_ok pm' (vm_mem ?st2) root" "node (vm_mem ?st2) root (i # p) = Some c"
        "\<And>q. valid q \<Longrightarrow> q \<noteq> i # p \<Longrightarrow> node (vm_mem ?st2) root q = node ?m root q"
        by (rule hung; use at none in simp)+
      have "vm_ok ?st2 root" using h(1) c(6,7) okd by (simp add: vm_ok_def)
      moreover have "kept st ?st2" using c(5) by (simp add: kept_def)
      ultimately show ?thesis using run h(2,3) c(2) by (intro exI [of _ c] exI [of _ ?st2]) simp
    qed
  qed
qed

text \<open>
  A present entry with frame 0 is a dead end: the code neither follows it nor replaces it. A call for
  another entry makes no dead end and removes none.
\<close>

definition dead_end :: "vm_state \<Rightarrow> u64 \<Rightarrow> nat list \<Rightarrow> bool" where
  "dead_end st root q =
     (case node (vm_mem st) root (tl q) of
        None \<Rightarrow> False
      | Some t \<Rightarrow> let e = vm_mem st (t + 8 * of_nat (hd q)) in e AND PTE_PRESENT \<noteq> 0 \<and> e AND PTE_FRAME = 0)"

text \<open>One of the three entries above the page's own one is a dead end.\<close>

definition dead_way :: "vm_state \<Rightarrow> u64 \<Rightarrow> u64 \<Rightarrow> bool" where
  "dead_way st root va = list_ex (dead_end st root) [drop 1 (vpath va), drop 2 (vpath va), drop 3 (vpath va)]"

lemma dead_end_child:
  "node (vm_mem st) root p = Some t \<Longrightarrow> dead_end st root (i # p) \<longleftrightarrow>
     vm_mem st (t + 8 * of_nat i) AND 1 \<noteq> 0 \<and> vm_mem st (t + 8 * of_nat i) AND PTE_FRAME = 0"
  by (simp add: dead_end_def Let_def)

lemma dead_end_same:
  assumes "\<And>t. node (vm_mem st) root (tl q) = Some t \<Longrightarrow> node (vm_mem st') root (tl q) = Some t \<and>
      vm_mem st' (t + 8 * of_nat (hd q)) = vm_mem st (t + 8 * of_nat (hd q))"
    and "\<And>t. node (vm_mem st) root (tl q) = None \<Longrightarrow> node (vm_mem st') root (tl q) = Some t \<Longrightarrow>
      vm_mem st' (t + 8 * of_nat (hd q)) = 0"
  shows "dead_end st' root q = dead_end st root q"
  using assms by (cases "node (vm_mem st) root (tl q)"; cases "node (vm_mem st') root (tl q)") (auto simp: dead_end_def)

text \<open>What a level does to the memory, and when it gives no table.\<close>

lemma descend_memory:
  assumes ok: "vm_ok st root" and t: "is_frame t" "pm_used (vm_pm st) t" and i: "i < 512"
    and run: "descend w st (ADD_PAGE_OFFSET t + 8 * of_nat i) flags = Some (c, st')"
  defines "e \<equiv> vm_mem st (t + 8 * of_nat i)"
  shows "vm_mem st' x = (if x = t + 8 * of_nat i then vm_mem st' (t + 8 * of_nat i)
      else if e AND 1 = 0 \<and> c \<noteq> 0 \<and> c \<le> x \<and> x < c + 4096 then 0 else vm_mem st x)"
    and "e AND 1 = 0 \<Longrightarrow> c \<noteq> 0 \<Longrightarrow> is_frame c \<and> \<not> pm_used (vm_pm st) c"
    and "e AND 1 = 0 \<Longrightarrow> c = 0 \<Longrightarrow> vm_alloc_block st' = Some (0, st')"
    and "e AND 1 \<noteq> 0 \<Longrightarrow> c = e AND PTE_FRAME"
proof -
  have okd: "pm_ok (vm_pm st)" "unat (max_blocks (vm_pm st)) \<le> 2 ^ 18" "direct_limit st = 2 ^ 30"
    using ok by (auto simp: vm_ok_def)
  have ld: "load st (ADD_PAGE_OFFSET t + 8 * of_nat i) = Some e"
    unfolding e_def by (rule load_entry [OF okd(3) t(1) i])
  have "(\<forall>x. vm_mem st' x = (if x = t + 8 * of_nat i then vm_mem st' (t + 8 * of_nat i)
      else if e AND 1 = 0 \<and> c \<noteq> 0 \<and> c \<le> x \<and> x < c + 4096 then 0 else vm_mem st x)) \<and>
    (e AND 1 = 0 \<longrightarrow> c \<noteq> 0 \<longrightarrow> is_frame c \<and> \<not> pm_used (vm_pm st) c) \<and>
    (e AND 1 = 0 \<longrightarrow> c = 0 \<longrightarrow> vm_alloc_block st' = Some (0, st')) \<and> (e AND 1 \<noteq> 0 \<longrightarrow> c = e AND PTE_FRAME)"
  proof (cases "e AND 1 = 0")
    case False
    then show ?thesis using run store_entry [OF okd(3) t(1) i] by (auto simp: descend_def ld grant_frame)
  next
    case True
    show ?thesis
    proof (rule vm_alloc_block_cases [OF okd(1,2)])
      assume al: "vm_alloc_block st = Some (0, st)"
      let ?e = "add_flags w flags (e OR 1) AND NOT PTE_FRAME"
      have st': "c = 0" "st' = st\<lparr>vm_mem := (vm_mem st)(t + 8 * of_nat i := ?e)\<rparr>"
        using run True store_entry [OF okd(3) t(1) i] by (simp_all add: descend_def ld alloc_table_def al)
      have "phys_mem_alloc_block (vm_pm st) = Some (0, vm_pm st)" using al by (cases st) (auto simp: vm_alloc_block_def)
      then have "vm_alloc_block st' = Some (0, st')" using st' by (simp add: vm_alloc_block_def)
      then show ?thesis using st' True by simp
    next
      fix c' pm'
      assume al: "vm_alloc_block st = Some (c', st\<lparr>vm_pm := pm'\<rparr>)"
        and c: "is_frame c'" "c' \<noteq> 0" "\<not> pm_used (vm_pm st) c'"
      let ?m1 = "\<lambda>x. if c' \<le> x \<and> x < c' + 4096 then 0 else vm_mem st x"
      let ?st1 = "st\<lparr>vm_pm := pm', vm_mem := ?m1\<rparr>"
      have al2: "alloc_table st = Some (c', ?st1)"
        using c(2) clear_frame [of "st\<lparr>vm_pm := pm'\<rparr>" c'] okd(3) c(1)
        by (simp add: alloc_table_def al cong: if_cong)
      have ld1: "load ?st1 (ADD_PAGE_OFFSET t + 8 * of_nat i) = Some (?m1 (t + 8 * of_nat i))"
        using load_entry [of ?st1 t i] okd(3) t(1) i by simp
      have "c = c' \<and> (\<exists>v. st' = st\<lparr>vm_pm := pm', vm_mem := ?m1(t + 8 * of_nat i := v)\<rparr>)"
        using run True store_entry [of ?st1 t i] okd(3) t(1) i by (auto simp: descend_def ld al2 ld1)
      then show ?thesis using True c by auto
    qed
  qed
  then show "vm_mem st' x = (if x = t + 8 * of_nat i then vm_mem st' (t + 8 * of_nat i)
      else if e AND 1 = 0 \<and> c \<noteq> 0 \<and> c \<le> x \<and> x < c + 4096 then 0 else vm_mem st x)"
    and "e AND 1 = 0 \<Longrightarrow> c \<noteq> 0 \<Longrightarrow> is_frame c \<and> \<not> pm_used (vm_pm st) c"
    and "e AND 1 = 0 \<Longrightarrow> c = 0 \<Longrightarrow> vm_alloc_block st' = Some (0, st')"
    and "e AND 1 \<noteq> 0 \<Longrightarrow> c = e AND PTE_FRAME" by blast+
qed

lemma descend_dead_end:
  assumes ok: "vm_ok st root" and p: "table_path p" "length p < 3"
    "node (vm_mem st) root p = Some t" "i < 512" and w: "w \<in> {2, 4}"
    and run: "descend w st (ADD_PAGE_OFFSET t + 8 * of_nat i) flags = Some (c, st')"
  shows "c = 0 \<Longrightarrow> dead_end st root (i # p) \<or> vm_alloc_block st' = Some (0, st')"
    and "dead_end st root (i # p) \<Longrightarrow> c = 0"
    and "table_path (tl q) \<Longrightarrow> hd q < 512 \<Longrightarrow> q \<noteq> [] \<Longrightarrow> q \<noteq> i # p \<Longrightarrow> dead_end st' root q = dead_end st root q"
proof -
  let ?m = "vm_mem st" and ?a = "t + 8 * of_nat i"
  have okd: "pm_ok (vm_pm st)" "unat (max_blocks (vm_pm st)) \<le> 2 ^ 18" "direct_limit st = 2 ^ 30"
    and tab: "tables_ok (vm_pm st) ?m root" using ok by (auto simp: vm_ok_def)
  have t: "is_frame t" "pm_used (vm_pm st) t" using tables_okD [OF tab p(1,3)] by auto
  have nodes: "node (vm_mem st') root (i # p) = (if c = 0 then None else Some c)"
    "\<And>q. valid q \<Longrightarrow> q \<noteq> i # p \<Longrightarrow> node (vm_mem st') root q = node ?m root q"
    using descend_spec [OF ok p w, of flags] run by auto
  have at: "node ?m root (i # p) = child (length p) (?m ?a)" using p(3) by (simp add: node.simps(2))
  note mem = descend_memory(1) [OF ok t p(4) run] and fresh = descend_memory(2) [OF ok t p(4) run]
    and full = descend_memory(3) [OF ok t p(4) run] and there = descend_memory(4) [OF ok t p(4) run]
  show "c = 0 \<Longrightarrow> dead_end st root (i # p) \<or> vm_alloc_block st' = Some (0, st')"
    using full there by (cases "?m ?a AND 1 = 0") (simp_all add: dead_end_child [OF p(3)])
  show "dead_end st root (i # p) \<Longrightarrow> c = 0"
    using there by (simp add: dead_end_child [OF p(3)])
  assume q: "table_path (tl q)" "hd q < 512" "q \<noteq> []" "q \<noteq> i # p"
  have same: "node (vm_mem st') root (tl q) = node ?m root (tl q)" if old: "tl q \<noteq> i # p \<or> node ?m root (i # p) \<noteq> None"
  proof (cases "tl q = i # p")
    case True
    then have "child (length p) (?m ?a) \<noteq> None" using old at by simp
    then have "?m ?a AND 1 \<noteq> 0" "?m ?a AND PTE_FRAME \<noteq> 0" "child (length p) (?m ?a) = Some (?m ?a AND PTE_FRAME)"
      using p(2) by (auto simp: child_def split: if_splits)
    then show ?thesis using True at nodes(1) there by simp
  next
    case False
    then show ?thesis using nodes(2) [of "tl q"] q(1) by simp
  qed
  show "dead_end st' root q = dead_end st root q"
  proof (rule dead_end_same)
    fix t'
    assume t': "node ?m root (tl q) = Some t'"
    then have f: "is_frame t'" "pm_used (vm_pm st) t'" using tables_okD [OF tab q(1)] by auto
    have "t' + 8 * of_nat (hd q) \<noteq> ?a"
    proof
      assume "t' + 8 * of_nat (hd q) = ?a"
      then have e: "t' = t" "hd q = i" using entry_inj f(1) t(1) q(2) p(4) by blast+
      then have "tl q = p" using tables_ok_inj [OF tab q(1) p(1) t'] p(3) by simp
      then show False using e q(3,4) by (cases q) simp_all
    qed
    moreover have "\<not> (c \<le> t' + 8 * of_nat (hd q) \<and> t' + 8 * of_nat (hd q) < c + 4096)" if "?m ?a AND 1 = 0" "c \<noteq> 0"
      using fresh [OF that] in_page_iff [of c t' "hd q"] f q(2) by auto
    moreover have "tl q \<noteq> i # p \<or> node ?m root (i # p) \<noteq> None" using t' by auto
    ultimately show "node (vm_mem st') root (tl q) = Some t' \<and>
        vm_mem st' (t' + 8 * of_nat (hd q)) = ?m (t' + 8 * of_nat (hd q))"
      using mem [of "t' + 8 * of_nat (hd q)"] same t' by auto
  next
    fix t'
    assume n: "node ?m root (tl q) = None" and t': "node (vm_mem st') root (tl q) = Some t'"
    then have "tl q = i # p" "node ?m root (i # p) = None" using same by (metis option.distinct(1))+
    then have c: "t' = c" "c \<noteq> 0" using t' nodes(1) by (auto split: if_splits)
    have z: "?m ?a AND 1 = 0"
      using \<open>node ?m root (i # p) = None\<close> there c p(2) by (auto simp: at child_None)
    have "t' + 8 * of_nat (hd q) \<noteq> ?a"
      using entry_inj [of c t "hd q" i] fresh [OF z c(2)] t q(2) p(4) c(1) by auto
    then show "vm_mem st' (t' + 8 * of_nat (hd q)) = 0"
      using mem [of "t' + 8 * of_nat (hd q)"] z c fresh [OF z c(2)] in_page_iff [of c c "hd q"] q(2) by auto
  qed
qed

subsection \<open>Mapping pages\<close>

lemma vpath_steps:
  "vpath va = [unat (PT_INDEX va), unat (PD_INDEX va), unat (PDP_INDEX va), unat (PML4_INDEX va)]"
  "unat (PT_INDEX va) < 512" "unat (PD_INDEX va) < 512" "unat (PDP_INDEX va) < 512"
  "unat (PML4_INDEX va) < 512"
  using vpath_valid [of va] by (simp_all add: vpath_def)

lemma vm_okD:
  assumes "vm_ok st root" "table_path p" "node (vm_mem st) root p = Some t"
  shows "is_frame t" "t \<noteq> 0 \<or> length p = 0" "direct_limit st = 2 ^ 30"
proof -
  show "is_frame t" "direct_limit st = 2 ^ 30"
    using assms tables_okD(1) by (auto simp: vm_ok_def)
  show "t \<noteq> 0 \<or> length p = 0"
    using assms(2,3) by (cases p) (auto simp: node.simps(2) child_def split: option.splits if_splits)
qed

lemma vpath_longer [simp]: "vpath va \<noteq> [a]" "vpath va \<noteq> [a, b]" "vpath va \<noteq> [a, b, c]"
  by (simp_all add: vpath_def)

lemma pt_install_eq:
  "pt_install st table phys va flags = store st (table + 8 * PT_INDEX va)
     (pt_entry_set_frame (add_flags 2 flags (0 OR 1)) phys)"
  by (simp only: pt_install_def pt_entry_add_attrib_def add_flags_def Let_def)

text \<open>The last level: the page's own entry is overwritten, everything else stays.\<close>

lemma pt_install_spec:
  assumes ok: "vm_ok st root" and p: "length p = 3" "table_path p" "node (vm_mem st) root p = Some t"
    and i: "unat (PT_INDEX va) < 512"
  shows "\<exists>st'. pt_install st (ADD_PAGE_OFFSET t) phys va flags = Some st' \<and> vm_ok st' root \<and> kept st st' \<and>
    node (vm_mem st') root (unat (PT_INDEX va) # p) = Some (phys AND PTE_FRAME) \<and>
    (\<forall>q. valid q \<longrightarrow> q \<noteq> unat (PT_INDEX va) # p \<longrightarrow> node (vm_mem st') root q = node (vm_mem st) root q)"
proof -
  let ?i = "unat (PT_INDEX va)" and ?m = "vm_mem st"
  define e where "e = pt_entry_set_frame (add_flags 2 flags (0 OR 1)) phys"
  define m' where "m' = ?m(t + 8 * of_nat ?i := e)"
  let ?m' = m' and ?st' = "st\<lparr>vm_mem := m'\<rparr>"
  have tab: "tables_ok (vm_pm st) ?m root" using ok by (simp add: vm_ok_def)
  have t: "is_frame t" "direct_limit st = 2 ^ 30" using vm_okD [OF ok p(2,3)] by auto
  have run: "pt_install st (ADD_PAGE_OFFSET t) phys va flags = Some ?st'"
    using store_entry [OF t(2,1) i, of e]
    by (simp add: pt_install_eq e_def m'_def del: or.left_neutral)
  have e: "e AND PTE_FRAME = phys AND PTE_FRAME" by (simp only: e_def pt_entry_set_frame_def pfn_set_frame)
  have "bit (add_flags 2 flags (0 OR 1)) 0"
    using add_flags_present [of 2 flags 0] by (metis and_one_eq odd_iff_mod_2_eq_one even_iff_mod_2_eq_zero bit_0 insertI1)
  then have "bit (e AND 1) 0"
    by (simp only: e_def pt_entry_set_frame_def bit_simps bit_frame_mask bits_1_2_4) simp
  then have pr: "e AND 1 \<noteq> 0" by (metis bit_0_eq bot_apply bot_bool_def)
  have upd: "\<And>x. x \<noteq> t + 8 * of_nat ?i \<Longrightarrow> ?m' x = ?m x" and me: "m' (t + 8 * of_nat ?i) = e"
    by (simp_all add: m'_def)
  have at: "node ?m' root (?i # p) = Some (phys AND PTE_FRAME)"
    using node_store_at [OF tab p(2,3) i upd] e pr p(1) by (simp only: me) (simp add: child_def)
  have other: "node ?m' root q = node ?m root q" if "valid q" "q \<noteq> ?i # p" for q
    using that
  proof (induction q)
    case (Cons j q)
    then have "table_path q" "q \<noteq> ?i # p" using p(1) by auto
    then show ?case using Cons by (intro node_store_step [OF tab p(2,3) i upd]) auto
  qed simp
  have "tables_ok (vm_pm st) ?m' root"
  proof -
    have "node ?m' root q = node ?m root q" if "table_path q" for q
      using other [of q] p(1) that by (cases "q = ?i # p") auto
    then show ?thesis using tab unfolding tables_ok_def by metis
  qed
  then show ?thesis using run at other ok by (auto simp: vm_ok_def kept_def)
qed

lemma map_page_spec:
  assumes ok: "vm_ok st root" and dir: "ADD_PAGE_OFFSET dir = ADD_PAGE_OFFSET root"
  shows "\<exists>r st'. virt_mem_map_page_p st phys va flags dir = Some (r, st') \<and> vm_ok st' root \<and> kept st st' \<and>
    (r = 0 \<and> node (vm_mem st') root (vpath va) = Some (phys AND PTE_FRAME) \<or>
     r = -1 \<and> node (vm_mem st') root (vpath va) = node (vm_mem st) root (vpath va)) \<and>
    (\<forall>va'. vpath va' \<noteq> vpath va \<longrightarrow> node (vm_mem st') root (vpath va') = node (vm_mem st) root (vpath va'))"
proof -
  note lt = vpath_steps(2-5) [of va]
  let ?p1 = "[unat (PML4_INDEX va)]" and ?p2 = "[unat (PDP_INDEX va), unat (PML4_INDEX va)]"
  let ?p3 = "[unat (PD_INDEX va), unat (PDP_INDEX va), unat (PML4_INDEX va)]"
  have two: "2 \<in> {2, 4 :: u64}" and four: "4 \<in> {2, 4 :: u64}" by simp_all
  obtain c1 st1 where d1: "pml4_descend st (ADD_PAGE_OFFSET dir) va flags = Some (c1, st1)"
      "vm_ok st1 root" "kept st st1" "node (vm_mem st1) root ?p1 = (if c1 = 0 then None else Some c1)"
      "\<And>q. valid q \<Longrightarrow> q \<noteq> ?p1 \<Longrightarrow> node (vm_mem st1) root q = node (vm_mem st) root q"
    using descend_spec [OF ok, of "[]" root "unat (PML4_INDEX va)" 2 flags] lt(4) dir
    by (auto simp: descend_eqs)
  show ?thesis
  proof (cases "c1 = 0")
    case True
    have "virt_mem_map_page_p st phys va flags dir = Some (-1, st1)"
      by (simp add: virt_mem_map_page_p_def d1(1) True)
    then show ?thesis using d1(2,3,5) vpath_valid by (intro exI [of _ "-1"] exI [of _ st1]) simp
  next
    case c1: False
    obtain c2 st2 where d2: "pdp_descend st1 (ADD_PAGE_OFFSET c1) va flags = Some (c2, st2)"
      "vm_ok st2 root" "kept st1 st2" "node (vm_mem st2) root ?p2 = (if c2 = 0 then None else Some c2)"
      "\<And>q. valid q \<Longrightarrow> q \<noteq> ?p2 \<Longrightarrow> node (vm_mem st2) root q = node (vm_mem st1) root q"
      using descend_spec [OF d1(2), of ?p1 c1 "unat (PDP_INDEX va)" 2 flags] d1(4) c1 lt
      by (auto simp: descend_eqs)
    note k2 = kept_trans [OF d1(3) d2(3)]
    show ?thesis
    proof (cases "c2 = 0")
      case True
      have "virt_mem_map_page_p st phys va flags dir = Some (-1, st2)"
        by (simp add: virt_mem_map_page_p_def d1(1) d2(1) c1 True)
      then show ?thesis using d1(5) d2(2,5) k2 vpath_valid
        by (intro exI [of _ "-1"] exI [of _ st2]) simp
    next
      case c2: False
      obtain c3 st3 where d3: "pd_descend st2 (ADD_PAGE_OFFSET c2) va flags = Some (c3, st3)"
        "vm_ok st3 root" "kept st2 st3" "node (vm_mem st3) root ?p3 = (if c3 = 0 then None else Some c3)"
        "\<And>q. valid q \<Longrightarrow> q \<noteq> ?p3 \<Longrightarrow> node (vm_mem st3) root q = node (vm_mem st2) root q"
        using descend_spec [OF d2(2), of ?p2 c2 "unat (PD_INDEX va)" 4 flags] d2(4) c2 lt
        by (auto simp: descend_eqs)
      note k3 = kept_trans [OF k2 d3(3)]
      show ?thesis
      proof (cases "c3 = 0")
        case True
        have "virt_mem_map_page_p st phys va flags dir = Some (-1, st3)"
          by (simp add: virt_mem_map_page_p_def d1(1) d2(1) d3(1) c1 c2 True)
        then show ?thesis using d1(5) d2(5) d3(2,5) k3 vpath_valid
          by (intro exI [of _ "-1"] exI [of _ st3]) simp
      next
        case c3: False
        obtain st4 where d4: "pt_install st3 (ADD_PAGE_OFFSET c3) phys va flags = Some st4"
          "vm_ok st4 root" "kept st3 st4"
          "node (vm_mem st4) root (vpath va) = Some (phys AND PTE_FRAME)"
          "\<And>q. valid q \<Longrightarrow> q \<noteq> vpath va \<Longrightarrow> node (vm_mem st4) root q = node (vm_mem st3) root q"
          using pt_install_spec [OF d3(2), of ?p3 c3 va phys flags] d3(4) c3 lt
          by (auto simp: vpath_def)
        have "virt_mem_map_page_p st phys va flags dir = Some (0, st4)"
          by (simp add: virt_mem_map_page_p_def d1(1) d2(1) d3(1) d4(1) c1 c2 c3)
        then show ?thesis using d1(5) d2(5) d3(5) d4(2,4,5) kept_trans [OF k3 d4(3)] vpath_valid
          by (intro exI [of _ 0] exI [of _ st4]) simp
      qed
    qed
  qed
qed

lemma descend_level:
  assumes "vm_ok st root" and "table_path p" "length p < 3" "node (vm_mem st) root p = Some t"
    and "unat (x :: u64) < 512" and "w \<in> {2, 4}"
  obtains c st' where "descend w st (ADD_PAGE_OFFSET t + 8 * x) flags = Some (c, st')" "vm_ok st' root"
    "node (vm_mem st') root (unat x # p) = (if c = 0 then None else Some c)"
    "c = 0 \<Longrightarrow> dead_end st root (unat x # p) \<or> vm_alloc_block st' = Some (0, st')" "dead_end st root (unat x # p) \<Longrightarrow> c = 0"
    "\<And>q. table_path (tl q) \<Longrightarrow> hd q < 512 \<Longrightarrow> q \<noteq> [] \<Longrightarrow> q \<noteq> unat x # p \<Longrightarrow> dead_end st' root q = dead_end st root q"
proof -
  obtain c st' where d: "descend w st (ADD_PAGE_OFFSET t + 8 * of_nat (unat x)) flags = Some (c, st')" "vm_ok st' root"
    "node (vm_mem st') root (unat x # p) = (if c = 0 then None else Some c)"
    using descend_spec [OF assms, of flags] by blast
  have "of_nat (unat x) = x" by simp
  note run = d(1) [unfolded this]
  show thesis by (rule that [OF run d(2,3)]) (fact descend_dead_end [OF assms d(1)])+
qed

text \<open>Why a mapping fails: a dead end on the way, or no frame is left.\<close>

lemma map_page_fails:
  assumes ok: "vm_ok st root" and dir: "ADD_PAGE_OFFSET dir = ADD_PAGE_OFFSET root"
    and run: "virt_mem_map_page_p st phys va flags dir = Some (r, st')"
  shows "(r = -1 \<longrightarrow> dead_way st root va \<or> vm_alloc_block st' = Some (0, st')) \<and> (dead_way st root va \<longrightarrow> r = -1)"
proof -
  note lt = vpath_steps(2-5) [of va]
  let ?p1 = "[unat (PML4_INDEX va)]" and ?p2 = "[unat (PDP_INDEX va), unat (PML4_INDEX va)]"
  let ?p3 = "[unat (PD_INDEX va), unat (PDP_INDEX va), unat (PML4_INDEX va)]"
  have way: "dead_way st root va \<longleftrightarrow> dead_end st root ?p1 \<or> dead_end st root ?p2 \<or> dead_end st root ?p3"
    by (auto simp: dead_way_def vpath_def)
  have two: "2 \<in> {2, 4 :: u64}" and four: "4 \<in> {2, 4 :: u64}" by simp_all
  have ps: "table_path []" "table_path ?p1" "table_path ?p2" "length ([] :: nat list) < 3" "length ?p1 < 3" "length ?p2 < 3"
    "node (vm_mem st) root [] = Some root" using lt by simp_all
  obtain c1 st1 where d1: "descend 2 st (ADD_PAGE_OFFSET root + 8 * PML4_INDEX va) flags = Some (c1, st1)" "vm_ok st1 root"
    and n1: "node (vm_mem st1) root ?p1 = (if c1 = 0 then None else Some c1)"
    and z1: "c1 = 0 \<Longrightarrow> dead_end st root ?p1 \<or> vm_alloc_block st1 = Some (0, st1)" "dead_end st root ?p1 \<Longrightarrow> c1 = 0"
    and q1: "\<And>q. table_path (tl q) \<Longrightarrow> hd q < 512 \<Longrightarrow> q \<noteq> [] \<Longrightarrow> q \<noteq> ?p1 \<Longrightarrow> dead_end st1 root q = dead_end st root q"
    by (rule descend_level [OF ok ps(1,4,7) lt(4) two, of flags]) blast
  have s1: "dead_end st1 root ?p2 = dead_end st root ?p2" "dead_end st1 root ?p3 = dead_end st root ?p3"
    by (rule q1; use lt in simp)+
  show ?thesis
  proof (cases "c1 = 0")
    case True
    then have "r = -1" "st' = st1" using run d1(1) by (simp_all add: virt_mem_map_page_p_def descend_eqs dir)
    then show ?thesis using z1(1) [OF True] way by auto
  next
    case c1: False
    then have "node (vm_mem st1) root ?p1 = Some c1" using n1 by simp
    obtain c2 st2 where d2: "descend 2 st1 (ADD_PAGE_OFFSET c1 + 8 * PDP_INDEX va) flags = Some (c2, st2)" "vm_ok st2 root"
      and n2: "node (vm_mem st2) root ?p2 = (if c2 = 0 then None else Some c2)"
      and z2: "c2 = 0 \<Longrightarrow> dead_end st1 root ?p2 \<or> vm_alloc_block st2 = Some (0, st2)" "dead_end st1 root ?p2 \<Longrightarrow> c2 = 0"
      and q2: "\<And>q. table_path (tl q) \<Longrightarrow> hd q < 512 \<Longrightarrow> q \<noteq> [] \<Longrightarrow> q \<noteq> ?p2 \<Longrightarrow> dead_end st2 root q = dead_end st1 root q"
      by (rule descend_level [OF d1(2) ps(2,5) \<open>node (vm_mem st1) root ?p1 = Some c1\<close> lt(3) two, of flags]) blast
    have s2: "dead_end st2 root ?p3 = dead_end st root ?p3" using q2 [of ?p3] s1(2) lt by simp
    show ?thesis
    proof (cases "c2 = 0")
      case True
      then have "r = -1" "st' = st2" using run d1(1) d2(1) c1 by (simp_all add: virt_mem_map_page_p_def descend_eqs dir)
      then show ?thesis using z2(1) [OF True] way s1 by auto
    next
      case c2: False
      then have "node (vm_mem st2) root ?p2 = Some c2" using n2 by simp
      obtain c3 st3 where d3: "descend 4 st2 (ADD_PAGE_OFFSET c2 + 8 * PD_INDEX va) flags = Some (c3, st3)"
        and z3: "c3 = 0 \<Longrightarrow> dead_end st2 root ?p3 \<or> vm_alloc_block st3 = Some (0, st3)" "dead_end st2 root ?p3 \<Longrightarrow> c3 = 0"
        by (rule descend_level [OF d2(2) ps(3,6) \<open>node (vm_mem st2) root ?p2 = Some c2\<close> lt(2) four, of flags]) blast
      note runs = virt_mem_map_page_p_def descend_eqs dir d1(1) d2(1) d3(1) c1 c2
      show ?thesis
      proof (cases "c3 = 0")
        case True
        then have "r = -1" "st' = st3" using run by (simp_all add: runs)
        then show ?thesis using z3(1) [OF True] way s2 by auto
      next
        case False
        then have "r = 0" using run by (auto simp: runs split: Option.bind_splits)
        moreover have "\<not> dead_way st root va" using way z1(2) z2(2) z3(2) s1 s2 c1 c2 False by auto
        ultimately show ?thesis by simp
      qed
    qed
  qed
qed

lemma map_pages_spec:
  assumes dir: "ADD_PAGE_OFFSET dir = ADD_PAGE_OFFSET root"
  shows "vm_ok st root \<Longrightarrow> \<exists>r st'. map_pages_loop st pa va n flags dir = Some (r, st') \<and> vm_ok st' root \<and>
    kept st st' \<and>
    (\<forall>v. vpath v \<notin> (\<lambda>i. vpath (va + of_nat i * 4096)) ` {..<n} \<longrightarrow>
       node (vm_mem st') root (vpath v) = node (vm_mem st) root (vpath v)) \<and>
    (r = 0 \<longrightarrow> inj_on (\<lambda>i. vpath (va + of_nat i * 4096)) {..<n} \<longrightarrow>
      (\<forall>i<n. node (vm_mem st') root (vpath (va + of_nat i * 4096))
             = Some ((pa + of_nat i * 4096) AND PTE_FRAME)))"
proof (induction n arbitrary: st pa va)
  case (Suc n)
  let ?f = "\<lambda>i. vpath (va + of_nat i * 4096)"
  obtain r1 st1 where r1: "virt_mem_map_page_p st pa va flags dir = Some (r1, st1)" "vm_ok st1 root" "kept st st1"
    "r1 = 0 \<Longrightarrow> node (vm_mem st1) root (vpath va) = Some (pa AND PTE_FRAME)"
    "\<And>v. vpath v \<noteq> vpath va \<Longrightarrow> node (vm_mem st1) root (vpath v) = node (vm_mem st) root (vpath v)"
    using map_page_spec [OF Suc.prems dir, of pa va flags] by auto
  have shift: "va + 4096 + of_nat i * 4096 = va + of_nat (Suc i) * 4096"
    "pa + 4096 + of_nat i * 4096 = pa + of_nat (Suc i) * 4096" for i
    by (simp_all add: algebra_simps)
  show ?case
  proof (cases "r1 = 0")
    case False
    have "vpath va \<in> ?f ` {..<Suc n}" by (rule image_eqI [of _ _ 0]) simp_all
    then have "vpath v \<noteq> vpath va" if "vpath v \<notin> ?f ` {..<Suc n}" for v
      using that by metis
    then show ?thesis using False r1
      by (intro exI [of _ r1] exI [of _ st1]) simp
  next
    case True
    obtain r st' where r: "map_pages_loop st1 (pa + 4096) (va + 4096) n flags dir = Some (r, st')"
      "vm_ok st' root" "kept st1 st'"
      and else': "\<And>v. vpath v \<notin> (\<lambda>i. ?f (Suc i)) ` {..<n} \<Longrightarrow>
         node (vm_mem st') root (vpath v) = node (vm_mem st1) root (vpath v)"
      and all: "r = 0 \<Longrightarrow> inj_on (\<lambda>i. ?f (Suc i)) {..<n} \<Longrightarrow>
        (\<forall>i<n. node (vm_mem st') root (?f (Suc i)) = Some ((pa + of_nat (Suc i) * 4096) AND PTE_FRAME))"
      using Suc.IH [OF r1(2), of "pa + 4096" "va + 4096"] unfolding shift by blast
    have img: "?f ` {..<Suc n} = insert (vpath va) ((\<lambda>i. ?f (Suc i)) ` {..<n})"
      by (simp add: lessThan_Suc_eq_insert_0 image_image)
    have "node (vm_mem st') root (?f i) = Some ((pa + of_nat i * 4096) AND PTE_FRAME)"
      if r0: "r = 0" and inj: "inj_on ?f {..<Suc n}" and i: "i < Suc n" for i
    proof (cases i)
      case 0
      have "vpath va \<notin> (\<lambda>i. ?f (Suc i)) ` {..<n}"
      proof
        assume "vpath va \<in> (\<lambda>i. ?f (Suc i)) ` {..<n}"
        then obtain k where "k < n" "?f 0 = ?f (Suc k)" by auto
        then show False using inj_onD [OF inj, of 0 "Suc k"] by simp
      qed
      then show ?thesis using else' r1(4) True 0 by simp
    next
      case (Suc k)
      have "inj_on (\<lambda>i. ?f (Suc i)) {..<n}"
        by (rule inj_onI) (use inj_onD [OF inj, of "Suc _" "Suc _"] in auto)
      then show ?thesis using all [OF r0] i Suc by simp
    qed
    then show ?thesis
      using r r1(1,3,5) True else' kept_trans [OF r1(3) r(3)] img
      by (intro exI [of _ r] exI [of _ st']) simp
  qed
qed simp

subsection \<open>What the memory manager promises to the heap\<close>

locale page_source = frame_source alloc null used ok
  for alloc :: "'s \<Rightarrow> ('f \<times> 's) option" and null :: 'f
    and used :: "'s \<Rightarrow> 'f \<Rightarrow> bool" and ok :: "'s \<Rightarrow> bool" +
  fixes map_page :: "'s \<Rightarrow> 'f \<Rightarrow> 'v \<Rightarrow> u64 \<Rightarrow> (int \<times> 's) option"
  assumes map_total: "ok s \<Longrightarrow> \<exists>r s'. map_page s f v fl = Some (r, s')"
    and map_ok: "ok s \<Longrightarrow> map_page s f v fl = Some (r, s') \<Longrightarrow> ok s'"
    and map_mono: "ok s \<Longrightarrow> map_page s f v fl = Some (r, s') \<Longrightarrow> used s g \<Longrightarrow> used s' g"

lemma vm_alloc_block_ok:
  assumes "vm_ok st root" and "vm_alloc_block st = Some (c, st')"
  shows "vm_ok st' root \<and> vm_cur_dir st' = vm_cur_dir st"
proof (rule vm_alloc_block_cases [of st])
  show "pm_ok (vm_pm st)" "unat (max_blocks (vm_pm st)) \<le> 2 ^ 18" using assms(1) by (auto simp: vm_ok_def)
next
  assume "vm_alloc_block st = Some (0, st)"
  then show ?thesis using assms by simp
next
  fix c' pm'
  assume "vm_alloc_block st = Some (c', st\<lparr>vm_pm := pm'\<rparr>)"
    and pm: "pm_ok pm'" "max_blocks pm' = max_blocks (vm_pm st)"
      "\<And>g. pm_used (vm_pm st) g \<Longrightarrow> pm_used pm' g"
  then have st': "st' = st\<lparr>vm_pm := pm'\<rparr>" using assms(2) by simp
  have tab: "tables_ok (vm_pm st) (vm_mem st) root" using assms(1) by (simp add: vm_ok_def)
  have "tables_ok pm' (vm_mem st) root" by (rule tables_ok_same [OF tab refl pm(3)])
  then show ?thesis using assms(1) pm by (simp add: st' vm_ok_def)
qed

definition vm_sound :: "vm_state \<Rightarrow> bool" where
  "vm_sound st \<longleftrightarrow> vm_ok st (vm_cur_dir st)"

interpretation vmm: page_source vm_alloc_block 0 "\<lambda>st. pm_used (vm_pm st)" vm_sound virt_mem_map_page
proof unfold_locales
  fix s assume "vm_sound s"
  then have ok: "vm_ok s (vm_cur_dir s)" by (simp add: vm_sound_def)
  then have pm: "pm_ok (vm_pm s)" "unat (max_blocks (vm_pm s)) \<le> 2 ^ 18" by (auto simp: vm_ok_def)
  show "\<exists>f s'. vm_alloc_block s = Some (f, s')"
    by (rule vm_alloc_block_cases [OF pm]) auto
  { fix f s' assume al: "vm_alloc_block s = Some (f, s')"
    show "vm_sound s'" using vm_alloc_block_ok [OF ok al] by (simp add: vm_sound_def)
    { assume "f \<noteq> 0"
      show "\<not> pm_used (vm_pm s) f \<and> pm_used (vm_pm s') f"
        by (rule vm_alloc_block_cases [OF pm]) (use al \<open>f \<noteq> 0\<close> in auto) }
    { fix g assume "pm_used (vm_pm s) g"
      show "pm_used (vm_pm s') g"
        by (rule vm_alloc_block_cases [OF pm]) (use al \<open>pm_used (vm_pm s) g\<close> in auto) } }
  { fix s' assume al: "vm_alloc_block s = Some (0, s')"
    show "s' = s" by (rule vm_alloc_block_cases [OF pm]) (use al in simp_all) }
  fix f v fl
  show "\<exists>r s'. virt_mem_map_page s f v fl = Some (r, s')"
    using map_page_spec [OF ok refl, of f v fl] by (auto simp: virt_mem_map_page_def)
  { fix r s' g assume m: "virt_mem_map_page s f v fl = Some (r, s')"
    then have k: "vm_ok s' (vm_cur_dir s)" "kept s s'"
      using map_page_spec [OF ok refl, of f v fl] by (auto simp: virt_mem_map_page_def)
    then show "vm_sound s'" by (simp add: vm_sound_def kept_def)
    assume "pm_used (vm_pm s) g"
    then show "pm_used (vm_pm s') g" using k by (simp add: kept_def) }
qed

subsection \<open>Properties\<close>

text \<open>
  C3: mapping a page is always defined in a sound state and keeps it sound. It returns 0, and then
  the address translates to the given frame, or -1, and then the address translates as before. It
  returns -1 whenever one of the three entries above the page's own one is a dead end (present, with
  frame 0), and otherwise only when the allocator has no frame left at the end. In every case each
  address outside the page translates as before, and frames in use stay in use.
\<close>

theorem virt_mem_map_page_maps:
  assumes "vm_ok st root" and "dir = root \<or> dir = ADD_PAGE_OFFSET root"
  shows "\<exists>r st'. virt_mem_map_page_p st phys va flags dir = Some (r, st') \<and> vm_ok st' root \<and>
    (r = 0 \<and> translate st' root va = Some ((phys AND PTE_FRAME) OR (va AND 0xFFF)) \<or>
     r = -1 \<and> translate st' root va = translate st root va) \<and>
    (dead_way st root va \<longrightarrow> r = -1) \<and>
    (r = -1 \<longrightarrow> dead_way st root va \<or> vm_alloc_block st' = Some (0, st')) \<and>
    (\<forall>va'. vpath va' \<noteq> vpath va \<longrightarrow> translate st' root va' = translate st root va') \<and>
    (\<forall>f. pm_used (vm_pm st) f \<longrightarrow> pm_used (vm_pm st') f)"
proof -
  have "is_frame root" using vm_okD(1) [OF assms(1), of "[]" root] by simp
  then have dir: "ADD_PAGE_OFFSET dir = ADD_PAGE_OFFSET root" using assms(2) add_offset_twice by blast
  from map_page_spec [OF assms(1) dir, of phys va flags] obtain r st' where
    m: "virt_mem_map_page_p st phys va flags dir = Some (r, st')" "vm_ok st' root" "kept st st'"
    "r = 0 \<and> node (vm_mem st') root (vpath va) = Some (phys AND PTE_FRAME) \<or>
     r = -1 \<and> node (vm_mem st') root (vpath va) = node (vm_mem st) root (vpath va)"
    "\<And>va'. vpath va' \<noteq> vpath va \<Longrightarrow> node (vm_mem st') root (vpath va') = node (vm_mem st) root (vpath va')" by blast
  from map_page_fails [OF assms(1) dir m(1)] m show ?thesis
    by (intro exI [of _ r] exI [of _ st']) (auto simp: translate_def kept_def)
qed

text \<open>
  Mapping a range of pages is always defined in a sound state. If it returns 0, page \<open>i\<close> of the
  range translates to the \<open>i\<close>th page from the physical address (when the pages of the range are
  different pages), and addresses outside the range translate as before.
\<close>

theorem virt_mem_map_pages_maps:
  assumes "vm_ok st dir"
  shows "\<exists>r st'. virt_mem_map_pages_p st phys va n flags dir = Some (r, st') \<and> vm_ok st' dir \<and>
    (r = 0 \<and> inj_on (\<lambda>i. vpath (va + of_nat i * 4096)) {..<unat n} \<longrightarrow>
      (\<forall>i<unat n. translate st' dir (va + of_nat i * 4096)
         = Some (((phys + of_nat i * 4096) AND PTE_FRAME) OR ((va + of_nat i * 4096) AND 0xFFF)))) \<and>
    (\<forall>v. vpath v \<notin> (\<lambda>i. vpath (va + of_nat i * 4096)) ` {..<unat n} \<longrightarrow>
      translate st' dir v = translate st dir v)"
proof -
  obtain r st' where r: "map_pages_loop st phys va (unat n) flags dir = Some (r, st')" "vm_ok st' dir"
    and else': "\<And>v. vpath v \<notin> (\<lambda>i. vpath (va + of_nat i * 4096)) ` {..<unat n} \<Longrightarrow>
       node (vm_mem st') dir (vpath v) = node (vm_mem st) dir (vpath v)"
    and all: "r = 0 \<Longrightarrow> inj_on (\<lambda>i. vpath (va + of_nat i * 4096)) {..<unat n} \<Longrightarrow>
      (\<forall>i<unat n. node (vm_mem st') dir (vpath (va + of_nat i * 4096))
             = Some ((phys + of_nat i * 4096) AND PTE_FRAME))"
    using map_pages_spec [OF refl assms, of phys va "unat n" flags] by blast
  have "translate st' dir v = translate st dir v"
    if "vpath v \<notin> (\<lambda>i. vpath (va + of_nat i * 4096)) ` {..<unat n}" for v
    using else' [OF that] by (simp add: translate_def)
  moreover have "translate st' dir (va + of_nat i * 4096)
      = Some (((phys + of_nat i * 4096) AND PTE_FRAME) OR ((va + of_nat i * 4096) AND 0xFFF))"
    if "r = 0 \<and> inj_on (\<lambda>i. vpath (va + of_nat i * 4096)) {..<unat n}" "i < unat n" for i
    using all that by (simp add: translate_def)
  ultimately show ?thesis
    using r by (intro exI [of _ r] exI [of _ st']) (simp add: virt_mem_map_pages_p_def)
qed


definition vm_example :: vm_state where
  "vm_example = \<lparr>vm_pm = pm_example, vm_mem = (\<lambda>_. 0), vm_cur_dir = 4096,
     ident_limit = 0x400000, direct_limit = 0x40000000\<rparr>"

lemma node_zero: "node (\<lambda>_. 0) root p = (if p = [] then Some root else None)"
  by (induction p) (auto simp: node.simps(2) child_def split: option.splits)

lemma vm_example_ok: "vm_ok vm_example 4096"
  using pm_example_ok
  by (auto simp: vm_ok_def vm_example_def tables_ok_def node_zero is_frame_def pm_used_def
      occupied_def int_shl1_small pm_example_def PHYS_MEM_BLOCK_SIZE_def split: if_splits)

theorem virt_mem_map_page_maps_witness:
  "\<exists>st'. virt_mem_map_page_p vm_example 0x5000 0x1234567 3 4096 = Some (0, st') \<and>
     translate st' 4096 0x1234567 = Some 0x5567"
proof -
  have r: "map_option fst (virt_mem_map_page_p vm_example 0x5000 0x1234567 3 4096) = Some 0" by code_simp
  then show ?thesis
    using virt_mem_map_page_maps [OF vm_example_ok disjI1 [OF refl], of "0x5000" "0x1234567" 3] by auto
qed

theorem virt_mem_map_pages_maps_witness:
  "\<exists>r st'. virt_mem_map_pages_p vm_example 0x5000 0x1234000 2 3 4096 = Some (r, st') \<and> vm_ok st' 4096"
  using virt_mem_map_pages_maps [OF vm_example_ok, of "0x5000" "0x1234000" 2 3] by blast


text \<open>An example with a page directory: the path \<open>[0, 0]\<close> leads through frame 2 to frame 3.\<close>

definition vm_example2 :: vm_state where
  "vm_example2 = vm_example\<lparr>vm_pm := pm_example\<lparr>bitmap_words := [15]\<rparr>,
     vm_mem := (\<lambda>_. 0)(4096 := 0x2003, 8192 := 0x3003)\<rparr>"

lemma vm_example2_ok:
  shows "vm_ok vm_example2 4096" and "node (vm_mem vm_example2) 4096 [0, 0] = Some 12288"
proof -
  let ?pm = "\<lambda>w. pm_example\<lparr>bitmap_words := [w]\<rparr>"
  let ?m1 = "(\<lambda>_. 0)(4096 := 0x2003) :: u64 \<Rightarrow> u64" and ?m2 = "vm_mem vm_example2"
  have used: "pm_used (?pm 3) g \<Longrightarrow> pm_used (?pm 7) g" "pm_used (?pm 7) g \<Longrightarrow> pm_used (?pm 15) g" for g
  proof -
    have m: "mark [3] 2 = [7]" "mark [7] 3 = [15]" by code_simp+
    have "2 < capacity [3]" "3 < capacity [7]" by (simp_all add: capacity_def)
    then show "pm_used (?pm 3) g \<Longrightarrow> pm_used (?pm 7) g" "pm_used (?pm 7) g \<Longrightarrow> pm_used (?pm 15) g"
      using occupied_mark [of 2 "[3]"] occupied_mark [of 3 "[7]"] by (auto simp: pm_used_def m)
  qed
  have frames: "is_frame 4096" "is_frame 8192" "is_frame 12288" by (simp_all add: is_frame_def)
  have bits: "pm_used (?pm 7) 8192" "\<not> pm_used (?pm 3) 8192" "pm_used (?pm 15) 12288" "\<not> pm_used (?pm 7) 12288"
    by (simp_all add: pm_used_def occupied_def PHYS_MEM_BLOCK_SIZE_def int_shl1_small)
  have tab0: "tables_ok (?pm 3) (\<lambda>_. 0) 4096"
    using vm_example_ok by (simp add: vm_ok_def vm_example_def pm_example_def)
  have one: "tables_ok (?pm 7) ?m1 4096" "node ?m1 4096 [0] = Some 8192"
    by (rule hang_table(1,2) [OF tab0 _ _ _ _ _ frames(2) _ bits(2,1) used(1),
          of "[]" 4096 0 "0x2003" ?m1]; simp add: node_zero)+
  have n00: "node ?m1 4096 [0, 0] = None" using one(2) by (simp add: node.simps(2) [of _ _ 0 "[0]"] child_def)
  have two: "tables_ok (?pm 15) ?m2 4096" "node ?m2 4096 [0, 0] = Some 12288"
    by (rule hang_table(1,2) [OF one(1) _ _ one(2) _ n00 frames(3) _ bits(4,3) used(2),
          of "0x3003" ?m2]; simp add: vm_example2_def vm_example_def)+
  have "pm_ok (?pm 15)" by (simp add: pm_ok_def pm_example_def capacity_def occupied_def int_shl1_small)
  then show "vm_ok vm_example2 4096" "node ?m2 4096 [0, 0] = Some 12288"
    using two by (simp_all add: vm_ok_def vm_example2_def vm_example_def pm_example_def)
qed

text \<open>
  When a writable mapping has to create a page table, the page directory entry it installs is
  marked as accessible from user mode and not as writable, so the page is not writable and the
  protection of the level is lost.
\<close>

theorem virt_mem_map_fresh_directory_entry:
  assumes "vm_ok st root" and "node (vm_mem st) root p = Some t" and "length p = 2" and "\<forall>i \<in> set p. i < 512"
    and "load st (ADD_PAGE_OFFSET t + 8 * PD_INDEX va) = Some 0"
  shows "\<exists>c st' e. pd_descend st (ADD_PAGE_OFFSET t) va VIRT_MEM_WRITABLE = Some (c, st') \<and>
    load st' (ADD_PAGE_OFFSET t + 8 * PD_INDEX va) = Some e \<and>
    pd_entry_is_present e \<and> pd_entry_is_user e \<and> \<not> pd_entry_is_writable e \<and> pd_entry_pfn e = c"
proof -
  let ?a = "t + 8 * PD_INDEX va" and ?p = "ADD_PAGE_OFFSET t + 8 * PD_INDEX va"
  note lt = vpath_steps(3) [of va]
  have t: "is_frame t" "direct_limit st = 2 ^ 30" "pm_used (vm_pm st) t"
    using vm_okD(1,3) [OF assms(1) _ assms(2)] assms tables_okD(2) [OF _ _ assms(2)] by (auto simp: vm_ok_def)
  have okd: "pm_ok (vm_pm st)" "unat (max_blocks (vm_pm st)) \<le> 2 ^ 18" using assms(1) by (auto simp: vm_ok_def)
  have z: "vm_mem st ?a = 0" using load_entry [OF t(2,1) lt] assms(5) by simp
  have e: "pd_entry_is_present v \<and> pd_entry_is_user v \<and> \<not> pd_entry_is_writable v \<and> pd_entry_pfn v = c"
    if c: "c = 0 \<or> is_frame c" and v: "v = (add_flags 4 VIRT_MEM_WRITABLE (0 OR 1) AND NOT PTE_FRAME) OR c" for c v
  proof -
    have low: "\<not> bit c k" if "k < 12" for k using c is_frame_bits [of c k] that by auto
    have five: "add_flags 4 VIRT_MEM_WRITABLE (0 OR 1) = (4 OR 1)"
      by (simp add: add_flags_def)
    have bv: "bit v k \<longleftrightarrow> k = 0 \<or> k = 2" if "k < 12" for k
      unfolding v five using low [OF that] that
      by (simp only: bit_or_iff bit_and_iff bit_not_iff bits_1_2_4 bit_frame_mask) auto
    have "v AND 1 \<noteq> 0" "v AND 2 = 0" "v AND 4 \<noteq> 0"
      using and_exp_eq_0_iff_not_bit [of v 0] and_exp_eq_0_iff_not_bit [of v 1]
        and_exp_eq_0_iff_not_bit [of v 2] bv by simp_all
    moreover have "v AND PTE_FRAME = c" unfolding v by (rule new_entry(1)) (use c in simp_all)
    ultimately show ?thesis by (simp add: entry_defs)
  qed
  have stored: "\<exists>c st' v. pd_descend st (ADD_PAGE_OFFSET t) va VIRT_MEM_WRITABLE = Some (c, st') \<and>
      (c = 0 \<or> is_frame c) \<and> v = (add_flags 4 VIRT_MEM_WRITABLE (0 OR 1) AND NOT PTE_FRAME) OR c \<and>
      direct_limit st' = 2 ^ 30 \<and> vm_mem st' ?a = v"
  proof (rule vm_alloc_block_cases [OF okd])
    assume al: "vm_alloc_block st = Some (0, st)"
    then show ?thesis
      using assms(5) z t(2) store_entry [OF t(2,1) lt, of "(add_flags 4 VIRT_MEM_WRITABLE (0 OR 1) AND NOT PTE_FRAME) OR 0"]
      by (simp add: descend_eqs descend_def alloc_table_def)
  next
    fix c pm'
    assume al: "vm_alloc_block st = Some (c, st\<lparr>vm_pm := pm'\<rparr>)"
      and c: "is_frame c" "c \<noteq> 0" "\<not> pm_used (vm_pm st) c"
    let ?st1 = "st\<lparr>vm_pm := pm', vm_mem := \<lambda>x. if c \<le> x \<and> x < c + 4096 then 0 else vm_mem st x\<rparr>"
    have "alloc_table st = Some (c, ?st1)"
      using c(2) clear_frame [of "st\<lparr>vm_pm := pm'\<rparr>" c] t(2) c(1)
      by (simp add: alloc_table_def al cong: if_cong)
    moreover have "load ?st1 (ADD_PAGE_OFFSET t + 8 * PD_INDEX va) = Some 0"
      using load_entry [of ?st1 t "unat (PD_INDEX va)"] t lt z by simp
    ultimately show ?thesis
      using assms(5) z t(2) c(1)
        store_entry [of ?st1 t "unat (PD_INDEX va)" "(add_flags 4 VIRT_MEM_WRITABLE (0 OR 1) AND NOT PTE_FRAME) OR c"] t(1) lt
      by (simp add: descend_eqs descend_def)
  qed
  then obtain c st' v where r: "pd_descend st (ADD_PAGE_OFFSET t) va VIRT_MEM_WRITABLE = Some (c, st')"
      "c = 0 \<or> is_frame c" "v = (add_flags 4 VIRT_MEM_WRITABLE (0 OR 1) AND NOT PTE_FRAME) OR c"
      "direct_limit st' = 2 ^ 30" "vm_mem st' ?a = v" by blast
  have "load st' ?p = Some v" using load_entry [OF r(4) t(1) lt] r(5) by simp
  then show ?thesis using r(1) e [OF r(2,3)] by blast
qed

theorem virt_mem_map_fresh_directory_entry_witness:
  "\<exists>c st' e. pd_descend vm_example2 (ADD_PAGE_OFFSET 12288) 0x201000 VIRT_MEM_WRITABLE = Some (c, st') \<and>
     load st' (ADD_PAGE_OFFSET 12288 + 8) = Some e \<and> pd_entry_is_user e \<and> \<not> pd_entry_is_writable e"
proof -
  have i: "PD_INDEX 0x201000 = 1" by code_simp
  have "load vm_example2 (ADD_PAGE_OFFSET 12288 + 8 * PD_INDEX 0x201000) = Some 0" by code_simp
  from virt_mem_map_fresh_directory_entry [OF vm_example2_ok _ _ this] show ?thesis by (auto simp: i)
qed

end
