(* ===== verification/Kheap.thy ===== *)
theory Kheap
  imports Virt_Mem
begin

text \<open>
  The kernel heap, kernel/src/mm/kheap.c.

  The heap is the record \<open>kheap\<close>: the static variables of the file, the table of regions that
  \<open>regions\<close> points to (a list of \<open>region_max_count\<close> elements, of which the first
  \<open>region_count\<close> are in use) and the memory manager that backs it. Counters and indices of the
  table are natural numbers, since the table has 131072 elements; sizes and addresses are words.
  \<open>size\<close> is a bit field of 63 bits (\<open>sz63\<close>).

  \<open>HEAP_WITHIN_PAGE\<close> and \<open>HEAP_WITHIN_64K\<close> are \<open>1 << 56\<close> and \<open>1 << 57\<close> of an \<open>int\<close>, which C
  leaves undefined: they are the parameters \<open>wpage\<close> and \<open>w64k\<close>.
\<close>

unbundle bit_operations_syntax

subsection \<open>Backing the heap with pages\<close>

text \<open>
  The loop that backs \<open>n\<close> pages from a virtual address on. It stops when no frame is left, and
  ignores the result of the mapping.
\<close>

fun grow_pages ::
    "('s \<Rightarrow> (u64 \<times> 's) option) \<Rightarrow> ('s \<Rightarrow> u64 \<Rightarrow> u64 \<Rightarrow> u64 \<Rightarrow> (int \<times> 's) option) \<Rightarrow>
     nat \<Rightarrow> u64 \<Rightarrow> 's \<Rightarrow> (bool \<times> 's) option" where
  "grow_pages alloc mpage 0 v s = Some (True, s)"
| "grow_pages alloc mpage (Suc n) v s = do {
     (addr, s) \<leftarrow> alloc s;
     if addr = 0 then Some (False, s)
     else do {
       (_, s) \<leftarrow> mpage s addr v VIRT_MEM_WRITABLE;
       grow_pages alloc mpage n (v + PAGE_SIZE) s
     }
   }"

context page_source
begin

lemma map_spec:
  assumes "ok s"
  obtains r s' where "map_page s f v fl = Some (r, s')" "ok s'"
  using map_total [OF assms] map_ok [OF assms] by blast

end

lemma grow_pages_total:
  "vm_sound s \<Longrightarrow> \<exists>b s'. grow_pages vm_alloc_block virt_mem_map_page n v s = Some (b, s') \<and> vm_sound s'"
proof (induction n arbitrary: v s)
  case (Suc n)
  obtain f s1 where a: "vm_alloc_block s = Some (f, s1)" "vm_sound s1"
    using vmm.alloc_total [OF Suc.prems] vmm.alloc_ok [OF Suc.prems] by blast
  obtain r s2 where m: "virt_mem_map_page s1 f v VIRT_MEM_WRITABLE = Some (r, s2)" "vm_sound s2"
    using vmm.map_spec [OF a(2)] by blast
  show ?case using Suc.IH [OF m(2), of "v + PAGE_SIZE"] a m by (cases "f = 0") auto
qed auto

subsection \<open>State\<close>

record kheap_region =
  res :: bool
  rsize :: u64
  rnumber :: u64

record kheap =
  regions :: u64
  region_table :: "kheap_region list"
  region_count :: nat
  region_max_count :: nat
  first_free_region :: nat
  first_free_addr :: u64
  heap_size :: u64
  consecutive_number :: u64
  nextPlacement :: u64
  kh_vm :: vm_state

abbreviation (input) PLACEMENT_BEGIN :: u64 where "PLACEMENT_BEGIN \<equiv> 0xFD0000000"
abbreviation (input) PLACEMENT_END :: u64 where "PLACEMENT_END \<equiv> 0xFD0200000"
abbreviation (input) KHEAP_BEGIN :: u64 where "KHEAP_BEGIN \<equiv> 0xFD0200000"
abbreviation (input) HEAP_MIN_GROWTH :: u64 where "HEAP_MIN_GROWTH \<equiv> 0x10000"
abbreviation (input) KHEAP_ALIGNMENT_MASK :: u64 where "KHEAP_ALIGNMENT_MASK \<equiv> 0x00FFFFFFFFFFFFFF"

definition sz63 :: "u64 \<Rightarrow> u64" where
  "sz63 x = take_bit 63 x"

definition max_u64 :: "u64 \<Rightarrow> u64 \<Rightarrow> u64" where
  "max_u64 v1 v2 = (if v2 < v1 then v1 else v2)"

subsection \<open>Allocation\<close>

definition pmalloc :: "kheap \<Rightarrow> u64 \<Rightarrow> u64 \<Rightarrow> u64" where
  "pmalloc h sz alignment =
     (let sz = align_up sz 8;
          currPlacement = align_up (nextPlacement h) alignment
      in if PLACEMENT_END < currPlacement + sz then 0 else currPlacement)"

definition heap_grow :: "kheap \<Rightarrow> u64 \<Rightarrow> u64 \<Rightarrow> (bool \<times> kheap) option" where
  "heap_grow h sz heap_end =
     (let n = region_count h; rs = region_table h in do {
        last_res \<leftarrow> (if 0 < n then map_option res (idx rs (n - 1)) else Some False);
        if 0 < n \<and> last_res \<and> region_max_count h \<le> n then Some (False, h)
        else do {
          (backed, vm) \<leftarrow> grow_pages vm_alloc_block virt_mem_map_page ((unat sz + 4095) div 4096)
                            heap_end (kh_vm h);
          let h = h\<lparr>kh_vm := vm\<rparr>;
          if \<not> backed then Some (False, h)
          else if 0 < n \<and> \<not> last_res then do {
            r \<leftarrow> idx rs (n - 1);
            rs \<leftarrow> upd rs (n - 1) (r\<lparr>rsize := sz63 (rsize r + sz)\<rparr>);
            Some (True, h\<lparr>region_table := rs, heap_size := heap_size h + sz\<rparr>)
          }
          else do {
            rs \<leftarrow> upd rs n \<lparr>res = False, rsize = sz63 sz, rnumber = 0\<rparr>;
            Some (True, h\<lparr>region_table := rs, region_count := n + 1, heap_size := heap_size h + sz\<rparr>)
          }
        }
      })"

text \<open>Region \<open>i\<close> at \<open>addr\<close> is taken: a part before the aligned address, and a rest, are split off.\<close>

definition split_front :: "kheap \<Rightarrow> nat \<Rightarrow> u64 \<Rightarrow> kheap option" where
  "split_front h i additional = do {
     rs \<leftarrow> mem_move (region_table h) (i + 1) i (region_count h - i);
     r \<leftarrow> idx rs i;
     rs \<leftarrow> upd rs i (r\<lparr>rsize := sz63 additional, res := False\<rparr>);
     r0 \<leftarrow> idx rs i;
     r1 \<leftarrow> idx rs (i + 1);
     rs \<leftarrow> upd rs (i + 1) (r1\<lparr>rsize := sz63 (rsize r1 - rsize r0)\<rparr>);
     Some (h\<lparr>region_table := rs, region_count := region_count h + 1\<rparr>)
   }"

definition split_rest :: "kheap \<Rightarrow> nat \<Rightarrow> u64 \<Rightarrow> kheap option" where
  "split_rest h i sz = do {
     rs \<leftarrow> mem_move (region_table h) (i + 2) (i + 1) (region_count h - i - 1);
     r \<leftarrow> idx rs i;
     rs \<leftarrow> upd rs (i + 1) \<lparr>res = False, rsize = sz63 (rsize r - sz), rnumber = 0\<rparr>;
     rs \<leftarrow> upd rs i (r\<lparr>rsize := sz63 sz\<rparr>);
     Some (h\<lparr>region_table := rs, region_count := region_count h + 1\<rparr>)
   }"

definition reserve :: "kheap \<Rightarrow> nat \<Rightarrow> kheap option" where
  "reserve h i = do {
     r \<leftarrow> idx (region_table h) i;
     rs \<leftarrow> upd (region_table h) i (r\<lparr>res := True, rnumber := consecutive_number h\<rparr>);
     Some (h\<lparr>region_table := rs, consecutive_number := consecutive_number h + 1\<rparr>)
   }"

definition take_region :: "kheap \<Rightarrow> nat \<Rightarrow> u64 \<Rightarrow> u64 \<Rightarrow> u64 \<Rightarrow> (u64 \<times> kheap) option" where
  "take_region h i region_address additional sz =
     (if additional \<noteq> 0 \<and> region_max_count h \<le> region_count h then Some (0, h)
      else do {
        (i, region_address, h) \<leftarrow>
          (if additional \<noteq> 0 then do {
             h \<leftarrow> split_front h i additional;
             r0 \<leftarrow> idx (region_table h) i;
             Some (i + 1, region_address + rsize r0, h)
           } else Some (i, region_address, h));
        r \<leftarrow> idx (region_table h) i;
        if sz + additional < rsize r
        then if region_max_count h < region_count h + 1 then Some (0, h)
             else do {
               h \<leftarrow> split_rest h i sz;
               h \<leftarrow> reserve h i;
               Some (region_address, h)
             }
        else do { h \<leftarrow> reserve h i; Some (region_address, h) }
      })"

text \<open>
  The search: \<open>n\<close> regions are left from region \<open>i\<close> on, which starts at \<open>region_address\<close>. The result
  is what \<open>kmalloc_imp\<close> returns, or \<open>None\<close> when the loop ends without a return.
\<close>

fun kmalloc_scan ::
    "u64 \<Rightarrow> u64 \<Rightarrow> u64 \<Rightarrow> nat \<Rightarrow> kheap \<Rightarrow> nat \<Rightarrow> bool \<Rightarrow> u64 \<Rightarrow> (u64 option \<times> kheap) option" where
  "kmalloc_scan sz alignment within 0 h i found_free region_address = Some (None, h)"
| "kmalloc_scan sz alignment within (Suc n) h i found_free region_address = do {
     r \<leftarrow> idx (region_table h) i;
     let h = (if \<not> res r \<and> \<not> found_free
              then h\<lparr>first_free_region := i, first_free_addr := region_address\<rparr> else h);
     let found_free = (found_free \<or> res r);
     let aligned_address = align_up region_address alignment;
     let additional = aligned_address - region_address;
     if \<not> res r \<and> sz + additional \<le> rsize r \<and> additional \<le> within - region_address mod within
     then do { (a, h) \<leftarrow> take_region h i region_address additional sz; Some (Some a, h) }
     else kmalloc_scan sz alignment within n h (i + 1) found_free (region_address + rsize r)
   }"

definition kmalloc_within :: "u64 \<Rightarrow> u64 \<Rightarrow> u64 \<Rightarrow> u64" where
  "kmalloc_within wpage w64k alignment =
     (if alignment AND w64k \<noteq> 0 then 0x10000
      else if alignment AND wpage \<noteq> 0 then PAGE_SIZE else 0xFFFFFFFFF)"

text \<open>\<open>kmalloc_imp\<close> calls itself after growing the heap; \<open>fuel\<close> bounds the number of calls.\<close>

fun kmalloc_imp :: "u64 \<Rightarrow> u64 \<Rightarrow> nat \<Rightarrow> kheap \<Rightarrow> u64 \<Rightarrow> u64 \<Rightarrow> (u64 \<times> kheap) option" where
  "kmalloc_imp wpage w64k 0 h sz alignment = None"
| "kmalloc_imp wpage w64k (Suc fuel) h sz alignment =
     (let within = kmalloc_within wpage w64k alignment;
          alignment = alignment AND KHEAP_ALIGNMENT_MASK
      in if regions h = 0 then Some (pmalloc h sz alignment, h)
      else let sz = align_up sz alignment in do {
        (hit, h) \<leftarrow> kmalloc_scan sz alignment within (region_count h - first_free_region h) h
                        (first_free_region h) False (first_free_addr h);
        case hit of
          Some a \<Rightarrow> Some (a, h)
        | None \<Rightarrow> do {
            let size_to_grow = max_u64 HEAP_MIN_GROWTH (align_up (sz * 3 div 2) PAGE_SIZE);
            (grown, h) \<leftarrow> heap_grow h size_to_grow (KHEAP_BEGIN + heap_size h);
            if \<not> grown then Some (0, h) else kmalloc_imp wpage w64k fuel h sz alignment
          }
      })"

definition kmalloc :: "u64 \<Rightarrow> u64 \<Rightarrow> nat \<Rightarrow> kheap \<Rightarrow> u64 \<Rightarrow> (u64 \<times> kheap) option" where
  "kmalloc wpage w64k fuel h sz = kmalloc_imp wpage w64k fuel h sz 0"

definition kmalloc_a :: "u64 \<Rightarrow> u64 \<Rightarrow> nat \<Rightarrow> kheap \<Rightarrow> u64 \<Rightarrow> u64 \<Rightarrow> (u64 \<times> kheap) option" where
  "kmalloc_a wpage w64k fuel h sz alignment = kmalloc_imp wpage w64k fuel h sz alignment"

subsection \<open>Freeing\<close>

definition merge_next :: "kheap \<Rightarrow> nat \<Rightarrow> kheap option" where
  "merge_next h i =
     (if i + 1 < region_count h then do {
        r \<leftarrow> idx (region_table h) i;
        r1 \<leftarrow> idx (region_table h) (i + 1);
        if \<not> res r1 then do {
          rs \<leftarrow> upd (region_table h) i (r\<lparr>rsize := sz63 (rsize r + rsize r1)\<rparr>);
          rs \<leftarrow> mem_move rs (i + 1) (i + 2) (region_count h - 2);
          Some (h\<lparr>region_table := rs, region_count := region_count h - 1\<rparr>)
        } else Some h
      } else Some h)"

definition merge_prev :: "kheap \<Rightarrow> nat \<Rightarrow> (nat \<times> kheap) option" where
  "merge_prev h i =
     (if 0 < i then do {
        r \<leftarrow> idx (region_table h) i;
        r1 \<leftarrow> idx (region_table h) (i - 1);
        if \<not> res r1 then do {
          rs \<leftarrow> upd (region_table h) (i - 1) (r1\<lparr>rsize := sz63 (rsize r1 + rsize r)\<rparr>);
          rs \<leftarrow> mem_move rs i (i + 1) (region_count h - 1 - i);
          Some (i - 1, h\<lparr>region_table := rs, region_count := region_count h - 1\<rparr>)
        } else Some (i, h)
      } else Some (i, h))"

definition free_region :: "kheap \<Rightarrow> nat \<Rightarrow> u64 \<Rightarrow> kheap option" where
  "free_region h i region_address = do {
     r \<leftarrow> idx (region_table h) i;
     rs \<leftarrow> upd (region_table h) i (r\<lparr>rnumber := 0, res := False\<rparr>);
     h \<leftarrow> merge_next (h\<lparr>region_table := rs\<rparr>) i;
     (i, h) \<leftarrow> merge_prev h i;
     Some (if i < first_free_region h
           then h\<lparr>first_free_region := i, first_free_addr := region_address\<rparr> else h)
   }"

fun kfree_scan :: "u64 \<Rightarrow> nat \<Rightarrow> kheap \<Rightarrow> nat \<Rightarrow> u64 \<Rightarrow> kheap option" where
  "kfree_scan addr 0 h i region_address = Some h"
| "kfree_scan addr (Suc n) h i region_address = do {
     r \<leftarrow> idx (region_table h) i;
     if region_address = addr \<and> res r then free_region h i region_address
     else kfree_scan addr n h (i + 1) (region_address + rsize r)
   }"

definition kfree :: "kheap \<Rightarrow> u64 \<Rightarrow> kheap option" where
  "kfree h addr = (if addr = 0 then Some h else kfree_scan addr (region_count h) h 0 KHEAP_BEGIN)"

fun find_allocated_scan :: "u64 \<Rightarrow> nat \<Rightarrow> kheap \<Rightarrow> nat \<Rightarrow> u64 \<Rightarrow> u64 option" where
  "find_allocated_scan addr 0 h i region_address = Some 0"
| "find_allocated_scan addr (Suc n) h i region_address = do {
     r \<leftarrow> idx (region_table h) i;
     if region_address = addr \<and> res r then Some (rsize r)
     else find_allocated_scan addr n h (i + 1) (region_address + rsize r)
   }"

definition find_allocated_size :: "kheap \<Rightarrow> u64 \<Rightarrow> u64 option" where
  "find_allocated_size h addr =
     (if addr = 0 then Some 0 else find_allocated_scan addr (region_count h) h 0 KHEAP_BEGIN)"

text \<open>\<open>copy dst src n\<close> is \<open>memcpy\<close> on the memory behind the heap.\<close>

definition krealloc ::
    "(u64 \<Rightarrow> u64 \<Rightarrow> u64 \<Rightarrow> 'm \<Rightarrow> 'm) \<Rightarrow> u64 \<Rightarrow> u64 \<Rightarrow> nat \<Rightarrow> kheap \<Rightarrow> 'm \<Rightarrow> u64 \<Rightarrow> u64 \<Rightarrow>
     (u64 \<times> kheap \<times> 'm) option" where
  "krealloc copy wpage w64k fuel h m addr sz = do {
     old_mem_size \<leftarrow> find_allocated_size h addr;
     if old_mem_size = 0 then Some (0, h, m)
     else do {
       (new_mem, h) \<leftarrow> kmalloc wpage w64k fuel h sz;
       if new_mem = 0 then Some (0, h, m)
       else do {
         let m = copy new_mem addr old_mem_size m;
         h \<leftarrow> kfree h addr;
         Some (new_mem, h, m)
       }
     }
   }"

subsection \<open>Initialisation\<close>

definition kheap_get_current_end :: "kheap \<Rightarrow> u64" where
  "kheap_get_current_end h = KHEAP_BEGIN + heap_size h"

text \<open>
  The placement area is backed by 512 pages; a failed allocation is logged, and page 0 is mapped.
  The table at the placement address has \<open>region_max_count\<close> elements of unknown contents \<open>junk\<close>.
\<close>

fun init_pages :: "nat \<Rightarrow> u64 \<Rightarrow> vm_state \<Rightarrow> vm_state option" where
  "init_pages 0 v vm = Some vm"
| "init_pages (Suc n) v vm = do {
     (paddr, vm) \<leftarrow> vm_alloc_block vm;
     (_, vm) \<leftarrow> virt_mem_map_page vm paddr v VIRT_MEM_WRITABLE;
     init_pages n (v + PAGE_SIZE) vm
   }"

definition kheap_init :: "(nat \<Rightarrow> kheap_region) \<Rightarrow> kheap \<Rightarrow> kheap option" where
  "kheap_init junk h = do {
     vm \<leftarrow> init_pages 512 PLACEMENT_BEGIN (kh_vm h);
     let rs = pmalloc h 0 0;
     let n = unat ((PLACEMENT_END - rs) div 16);
     Some (h\<lparr>kh_vm := vm, regions := rs, region_count := 0, region_max_count := n,
             region_table := map junk [0..<n]\<rparr>)
   }"

definition kheap_static :: "vm_state \<Rightarrow> kheap" where
  "kheap_static vm = \<lparr>regions = 0, region_table = [], region_count = 0, region_max_count = 0,
     first_free_region = 0, first_free_addr = KHEAP_BEGIN, heap_size = 0, consecutive_number = 0,
     nextPlacement = PLACEMENT_BEGIN, kh_vm = vm\<rparr>"

subsection \<open>The heap as a tiling\<close>

text \<open>
  \<open>rlist\<close> is the part of the table in use. The regions tile the heap from \<open>KHEAP_BEGIN\<close> on;
  \<open>blocks\<close> are the start addresses and sizes of the reserved ones.
\<close>

definition rlist :: "kheap \<Rightarrow> kheap_region list" where
  "rlist h = take (region_count h) (region_table h)"

definition sizes :: "kheap_region list \<Rightarrow> nat" where
  "sizes rs = sum_list (map (\<lambda>r. unat (rsize r)) rs)"

fun blocks :: "nat \<Rightarrow> kheap_region list \<Rightarrow> (nat \<times> nat) list" where
  "blocks a [] = []"
| "blocks a (r # rs) =
     (if res r then [(a, unat (rsize r))] else []) @ blocks (a + unat (rsize r)) rs"

definition allocated :: "kheap \<Rightarrow> (nat \<times> nat) set" where
  "allocated h = set (blocks (unat KHEAP_BEGIN) (rlist h))"

abbreviation (input) separated :: "kheap_region list \<Rightarrow> bool" where
  "separated rs \<equiv> successively (\<lambda>r s. res r \<or> res s) rs"

definition heap_ok :: "kheap \<Rightarrow> bool" where
  "heap_ok h \<longleftrightarrow> regions h \<noteq> 0 \<and> length (region_table h) = region_max_count h \<and>
     region_count h \<le> region_max_count h \<and>
     first_free_region h = 0 \<and> first_free_addr h = KHEAP_BEGIN \<and>
     separated (rlist h) \<and> (\<forall>r \<in> set (rlist h). 0 < unat (rsize r)) \<and>
     sizes (rlist h) = unat (heap_size h) \<and> unat (heap_size h) < 2 ^ 61 \<and>
     vm_sound (kh_vm h)"

lemma sizes_simps [simp]:
  "sizes [] = 0" "sizes (r # rs) = unat (rsize r) + sizes rs" "sizes (xs @ ys) = sizes xs + sizes ys"
  by (simp_all add: sizes_def)

lemma blocks_append [simp]: "blocks a (xs @ ys) = blocks a xs @ blocks (a + sizes xs) ys"
  by (induction xs arbitrary: a) (auto simp: add.assoc)

lemma blocks_bounds: "(b, n) \<in> set (blocks a rs) \<Longrightarrow> a \<le> b \<and> b + n \<le> a + sizes rs"
  by (induction rs arbitrary: a) (force split: if_splits)+

lemma blocks_disjoint:
  "(b, n) \<in> set (blocks a rs) \<Longrightarrow> (b', n') \<in> set (blocks a rs) \<Longrightarrow>
     (b, n) = (b', n') \<or> b + n \<le> b' \<or> b' + n' \<le> b"
proof (induction rs arbitrary: a)
  case (Cons r rs)
  then show ?case
    using blocks_bounds [of b n "a + unat (rsize r)" rs] blocks_bounds [of b' n' "a + unat (rsize r)" rs]
    by (auto split: if_splits)
qed simp

lemma sz63_small: "unat x < 2 ^ 63 \<Longrightarrow> sz63 x = x"
proof -
  assume "unat x < 2 ^ 63"
  then have "unat (take_bit 63 x) = unat x"
    by (simp add: unsigned_take_bit_eq) (simp add: take_bit_nat_eq_self)
  then show ?thesis by (simp only: sz63_def word_unat_eq_iff)
qed

lemma unat_plus: "unat (x :: u64) + unat y < 2 ^ 64 \<Longrightarrow> unat (x + y) = unat x + unat y"
  by (subst unat_plus_simple [THEN iffD1]) (auto simp: no_olen_add_nat)

lemma unat_minus: "unat (y :: u64) \<le> unat x \<Longrightarrow> unat (x - y) = unat x - unat y"
  by (simp add: unat_sub word_le_nat_alt)

lemma table_split:
  assumes "rlist h = rs" "region_count h \<le> length (region_table h)"
  obtains zs where "region_table h = rs @ zs" "region_count h = length rs"
    "length (region_table h) = length rs + length zs"
proof
  show "region_table h = rs @ drop (region_count h) (region_table h)"
    using assms(1) by (simp add: rlist_def flip: assms(1))
  show "region_count h = length rs" using assms by (auto simp: rlist_def)
  then show "length (region_table h) = length rs + length (drop (region_count h) (region_table h))"
    using assms(2) by simp
qed

lemma rlistI: "region_table h = rs @ zs \<Longrightarrow> region_count h = length rs \<Longrightarrow> rlist h = rs"
  by (simp add: rlist_def)

subsection \<open>Moves in the table\<close>

lemma move_dup:
  "mem_move (xs @ r # ys @ z # zs) (Suc (length xs)) (length xs) (Suc (length ys))
     = Some (xs @ r # r # ys @ zs)"
  by (simp add: mem_move_def)

lemma move_gap:
  "mem_move (xs @ r # ys @ z # zs) (Suc (Suc (length xs))) (Suc (length xs)) (length ys)
     = Some (xs @ r # hd (ys @ [z]) # ys @ zs)"
  by (cases ys) (simp_all add: mem_move_def eval_nat_numeral)

lemma move_down:
  "mem_move (xs @ r # ys @ zs) (length xs) (Suc (length xs)) (length ys)
     = Some (xs @ ys @ drop (length ys) (r # ys @ zs))"
  by (simp add: mem_move_def)

lemma move_down_long:
  assumes "length xs \<le> length zs"
  shows "\<exists>ws. mem_move (xs @ r # s # ys @ zs) (Suc (length xs)) (Suc (Suc (length xs)))
      (length xs + length ys) = Some (xs @ r # ys @ ws) \<and> length ws = Suc (length zs)"
proof -
  let ?t = "xs @ r # s # ys @ zs"
  have b: "Suc (length xs) + (length xs + length ys) \<le> length ?t"
    "Suc (Suc (length xs)) + (length xs + length ys) \<le> length ?t" using assms by auto
  have "take (Suc (length xs)) ?t = xs @ [r]" by simp
  moreover have "take (length xs + length ys) (drop (Suc (Suc (length xs))) ?t) = ys @ take (length xs) zs"
    by simp
  ultimately have m: "mem_move ?t (Suc (length xs)) (Suc (Suc (length xs))) (length xs + length ys)
      = Some (xs @ r # ys @ (take (length xs) zs @ drop (Suc (length xs) + (length xs + length ys)) ?t))"
    using b by (simp add: mem_move_def)
  then show ?thesis
    using mem_move_length [OF m] assms
    by (intro exI [of _ "take (length xs) zs @ drop (Suc (length xs) + (length xs + length ys)) ?t"]) simp
qed

subsection \<open>Taking a region\<close>

lemma split_front_eq:
  assumes "region_table h = xs @ r # ys @ z # zs" "region_count h = Suc (length xs + length ys)"
    and "unat a \<le> unat (rsize r)" "unat (rsize r) < 2 ^ 63"
  shows "split_front h (length xs) a = Some (h\<lparr>
     region_table := xs @ r\<lparr>rsize := a, res := False\<rparr> # r\<lparr>rsize := rsize r - a\<rparr> # ys @ zs,
     region_count := Suc (region_count h)\<rparr>)"
proof -
  have "unat (rsize r - a) < 2 ^ 63" using assms unat_minus [of a "rsize r"] by simp
  then have sz: "sz63 a = a" "sz63 (rsize r - a) = rsize r - a" using assms by (simp_all add: sz63_small)
  have c: "region_count h - length xs = Suc (length ys)" using assms(2) by simp
  show ?thesis
    using move_dup [of xs r ys z zs]
    by (simp add: split_front_def assms(1) c nth_append list_update_append sz del: mem_move_def)
qed

lemma split_rest_eq:
  assumes "region_table h = xs @ r # ys @ z # zs" "region_count h = Suc (length xs + length ys)"
    and "unat a \<le> unat (rsize r)" "unat (rsize r) < 2 ^ 63"
  shows "split_rest h (length xs) a = Some (h\<lparr>
     region_table := xs @ r\<lparr>rsize := a\<rparr> # \<lparr>res = False, rsize = rsize r - a, rnumber = 0\<rparr> # ys @ zs,
     region_count := Suc (region_count h)\<rparr>)"
proof -
  have "unat (rsize r - a) < 2 ^ 63" using assms unat_minus [of a "rsize r"] by simp
  then have sz: "sz63 a = a" "sz63 (rsize r - a) = rsize r - a" using assms by (simp_all add: sz63_small)
  have c: "region_count h - Suc (length xs) = length ys" using assms(2) by simp
  show ?thesis
    using move_gap [of xs r ys z zs]
    by (simp add: split_rest_def assms(1) c nth_append list_update_append sz)
qed

lemma reserve_eq:
  "region_table h = xs @ r # ys \<Longrightarrow> reserve h (length xs) = Some (h\<lparr>
     region_table := xs @ r\<lparr>res := True, rnumber := consecutive_number h\<rparr> # ys,
     consecutive_number := consecutive_number h + 1\<rparr>)"
  by (simp add: reserve_def nth_append list_update_append)

definition same_env :: "kheap \<Rightarrow> kheap \<Rightarrow> bool" where
  "same_env h h' \<longleftrightarrow> regions h' = regions h \<and> region_max_count h' = region_max_count h \<and>
     length (region_table h') = length (region_table h) \<and> first_free_region h' = first_free_region h \<and>
     first_free_addr h' = first_free_addr h \<and> heap_size h' = heap_size h \<and> kh_vm h' = kh_vm h"

lemma take_region_tail:
  assumes tab: "region_table h = xs @ r # ys @ z # zs" "region_count h = Suc (length xs + length ys)"
    and size: "unat sz + unat add \<le> unat (rsize r) + unat add" "unat (rsize r) < 2 ^ 63"
      "unat sz + unat add < 2 ^ 64" "0 < unat sz"
    and max: "Suc (region_count h) \<le> region_max_count h"
  shows "\<exists>h' r' rest. (do {
        r \<leftarrow> idx (region_table h) (length xs);
        if sz + add < rsize r
        then if region_max_count h < region_count h + 1 then Some (0, h)
             else do {
               h \<leftarrow> split_rest h (length xs) sz;
               h \<leftarrow> reserve h (length xs);
               Some (a, h)
             }
        else do { h \<leftarrow> reserve h (length xs); Some (a, h) } }) = Some (a, h') \<and>
    rlist h' = xs @ r' # rest @ ys \<and> res r' \<and> unat sz \<le> unat (rsize r') \<and>
    (add = 0 \<longrightarrow> rsize r' = sz) \<and> unat (rsize r') + sizes rest = unat (rsize r) \<and>
    (rest = [] \<or> (\<exists>s. rest = [s] \<and> \<not> res s \<and> 0 < unat (rsize s))) \<and>
    same_env h h' \<and> region_count h' \<le> Suc (region_count h)"
proof -
  have sum: "unat (sz + add) = unat sz + unat add" using size(3) by (intro unat_plus) simp
  let ?res = "\<lambda>r. r\<lparr>res := True, rnumber := consecutive_number h\<rparr>"
  show ?thesis
  proof (cases "sz + add < rsize r")
    case True
    let ?s = "\<lparr>res = False, rsize = rsize r - sz, rnumber = 0\<rparr>"
    let ?h1 = "h\<lparr>region_table := xs @ r\<lparr>rsize := sz\<rparr> # ?s # ys @ zs, region_count := Suc (region_count h)\<rparr>"
    let ?h2 = "?h1\<lparr>region_table := xs @ ?res (r\<lparr>rsize := sz\<rparr>) # ?s # ys @ zs,
        consecutive_number := consecutive_number h + 1\<rparr>"
    have lt: "unat sz + unat add < unat (rsize r)" using True sum by (simp add: word_less_nat_alt)
    have "split_rest h (length xs) sz = Some ?h1"
      using lt size(2) by (intro split_rest_eq [OF tab]) simp_all
    moreover have "reserve ?h1 (length xs) = Some ?h2" using reserve_eq [of ?h1 xs] by simp
    moreover have "rlist ?h2 = xs @ ?res (r\<lparr>rsize := sz\<rparr>) # [?s] @ ys"
      using tab(2) by (intro rlistI [of _ _ zs]) simp_all
    moreover have "unat (rsize r - sz) = unat (rsize r) - unat sz" using lt by (intro unat_minus) simp
    moreover have "same_env h ?h2" by (simp add: same_env_def tab(1))
    ultimately show ?thesis
      using True max lt tab(1)
      by (intro exI [of _ ?h2] exI [of _ "?res (r\<lparr>rsize := sz\<rparr>)"] exI [of _ "[?s]"])
        (simp add: nth_append)
  next
    case False
    let ?h2 = "h\<lparr>region_table := xs @ ?res r # ys @ z # zs, consecutive_number := consecutive_number h + 1\<rparr>"
    have ge: "unat (rsize r) \<le> unat sz + unat add" using False sum by (simp add: word_less_nat_alt)
    have "reserve h (length xs) = Some ?h2" using reserve_eq [OF tab(1)] by simp
    moreover have "rlist ?h2 = xs @ ?res r # [] @ ys"
      using tab(2) by (intro rlistI [of _ _ "z # zs"]) simp_all
    moreover have "same_env h ?h2" by (simp add: same_env_def tab(1))
    moreover have "add = 0 \<Longrightarrow> rsize r = sz" using ge size(1) by (simp add: word_unat_eq_iff)
    ultimately show ?thesis
      using False size(1) tab(1)
      by (intro exI [of _ ?h2] exI [of _ "?res r"] exI [of _ "[]"]) (simp add: nth_append)
  qed
qed

lemma take_region_spec:
  assumes rl: "rlist h = xs @ r # ys" "length (region_table h) = region_max_count h"
      "region_count h + 2 \<le> region_max_count h"
    and size: "unat sz + unat add \<le> unat (rsize r)" "unat (rsize r) < 2 ^ 63" "0 < unat sz"
  shows "\<exists>h' r' front rest. take_region h (length xs) a add sz = Some (a + add, h') \<and>
    rlist h' = xs @ front @ r' # rest @ ys \<and> res r' \<and> unat sz \<le> unat (rsize r') \<and>
    (add = 0 \<longrightarrow> rsize r' = sz) \<and> unat add + unat (rsize r') + sizes rest = unat (rsize r) \<and>
    sizes front = unat add \<and>
    (front = [] \<or> (\<exists>s. front = [s] \<and> \<not> res s \<and> 0 < unat (rsize s))) \<and>
    (rest = [] \<or> (\<exists>s. rest = [s] \<and> \<not> res s \<and> 0 < unat (rsize s))) \<and>
    same_env h h' \<and> region_count h' \<le> region_max_count h'"
proof -
  from table_split [OF rl(1)] rl(2,3) obtain zs0 where
    z0: "region_table h = (xs @ r # ys) @ zs0" "region_count h = length (xs @ r # ys)"
      "length (region_table h) = length (xs @ r # ys) + length zs0" by (metis add_leD1)
  then obtain z1 z2 zs where "zs0 = z1 # z2 # zs"
    using rl(2,3) by (cases zs0; cases "tl zs0") auto
  then have tab: "region_table h = xs @ r # ys @ z1 # z2 # zs" and cnt: "region_count h = Suc (length xs + length ys)"
    using z0 by simp_all
  show ?thesis
  proof (cases "add = 0")
    case True
    obtain h' r' rest where "take_region h (length xs) a add sz = Some (a, h')"
      "rlist h' = xs @ r' # rest @ ys" "res r'" "unat sz \<le> unat (rsize r')" "rsize r' = sz"
      "unat (rsize r') + sizes rest = unat (rsize r)"
      "rest = [] \<or> (\<exists>s. rest = [s] \<and> \<not> res s \<and> 0 < unat (rsize s))" "same_env h h'"
      "region_count h' \<le> Suc (region_count h)"
      using take_region_tail [OF tab cnt, of sz add a] size rl(3) True
      by (auto simp: take_region_def)
    then show ?thesis
      using True rl(3) by (intro exI [of _ h'] exI [of _ r'] exI [of _ "[]"] exI [of _ rest])
        (auto simp: same_env_def)
  next
    case False
    then have pos: "0 < unat add" by (simp add: unat_gt_0)
    let ?f = "r\<lparr>rsize := add, res := False\<rparr>" and ?r = "r\<lparr>rsize := rsize r - add\<rparr>"
    let ?h1 = "h\<lparr>region_table := xs @ ?f # ?r # ys @ z2 # zs, region_count := Suc (region_count h)\<rparr>"
    have "split_front h (length xs) add = Some ?h1"
      using size by (intro split_front_eq [OF tab cnt]) simp_all
    then have run: "take_region h (length xs) a add sz = (do {
        r \<leftarrow> idx (region_table ?h1) (length (xs @ [?f]));
        if sz + add < rsize r
        then if region_max_count ?h1 < region_count ?h1 + 1 then Some (0, ?h1)
             else do {
               h \<leftarrow> split_rest ?h1 (length (xs @ [?f])) sz;
               h \<leftarrow> reserve h (length (xs @ [?f]));
               Some (a + add, h)
             }
        else do { h \<leftarrow> reserve ?h1 (length (xs @ [?f])); Some (a + add, h) } })"
      using False rl(3) by (simp add: take_region_def nth_append)
    have u: "unat (rsize r - add) = unat (rsize r) - unat add" using size by (intro unat_minus) simp
    have tail: "unat sz + unat add \<le> unat (rsize ?r) + unat add" "unat (rsize ?r) < 2 ^ 63"
      "unat sz + unat add < 2 ^ 64" "0 < unat sz" using size u by simp_all
    obtain h' r' rest where t: "take_region h (length xs) a add sz = Some (a + add, h')"
      "rlist h' = (xs @ [?f]) @ r' # rest @ ys" "res r'" "unat sz \<le> unat (rsize r')"
      "unat (rsize r') + sizes rest = unat (rsize r) - unat add"
      "rest = [] \<or> (\<exists>s. rest = [s] \<and> \<not> res s \<and> 0 < unat (rsize s))" "same_env ?h1 h'"
      "region_count h' \<le> Suc (Suc (region_count h))"
      using take_region_tail [of ?h1 "xs @ [?f]" ?r ys z2 zs sz add "a + add", OF _ _ tail]
        cnt rl(3) unfolding run by (auto simp: u)
    have "same_env h ?h1" by (simp add: same_env_def tab)
    then have "same_env h h'" using t(7) by (simp add: same_env_def)
    then show ?thesis
      using t False pos rl(3) size
      by (intro exI [of _ h'] exI [of _ r'] exI [of _ "[?f]"] exI [of _ rest]) (auto simp: same_env_def)
  qed
qed

subsection \<open>The search\<close>

definition fits :: "u64 \<Rightarrow> u64 \<Rightarrow> u64 \<Rightarrow> u64 \<Rightarrow> kheap_region \<Rightarrow> bool" where
  "fits sz alignment within a r \<longleftrightarrow>
     (let additional = align_up a alignment - a
      in \<not> res r \<and> sz + additional \<le> rsize r \<and> additional \<le> within - a mod within)"

abbreviation (input) start_of :: "kheap_region list \<Rightarrow> u64" where
  "start_of xs \<equiv> KHEAP_BEGIN + of_nat (sizes xs)"

lemma start_of_snoc: "start_of (xs @ [r]) = start_of xs + rsize r"
  by simp

lemma kmalloc_scan_step:
  assumes "idx (region_table h) i = Some r"
    and keep: "(if \<not> res r \<and> \<not> hit then h\<lparr>first_free_region := i, first_free_addr := a\<rparr> else h) = h"
  shows "kmalloc_scan sz al w (Suc n) h i hit a =
    (if fits sz al w a r
     then map_option (\<lambda>(a, h). (Some a, h)) (take_region h i a (align_up a al - a) sz)
     else kmalloc_scan sz al w n h (i + 1) (hit \<or> res r) (a + rsize r))"
proof -
  have m: "x \<bind> (\<lambda>(a, h). Some (Some a, h)) = map_option (\<lambda>(a, h). (Some a, h)) x"
    for x :: "(u64 \<times> kheap) option"
    by (cases x) auto
  show ?thesis
    by (simp only: kmalloc_scan.simps(2) assms(1) bind.bind_lunit Let_def keep fits_def m)
qed

text \<open>The outcome of a search: the first region that fits is taken, or none fits.\<close>

definition scan_outcome ::
    "u64 \<Rightarrow> u64 \<Rightarrow> u64 \<Rightarrow> kheap \<Rightarrow> kheap_region list \<Rightarrow> kheap_region list \<Rightarrow> (u64 option \<times> kheap) option \<Rightarrow> bool"
  where
  "scan_outcome sz al w h xs ys out \<longleftrightarrow>
     (\<exists>us r vs. ys = us @ r # vs \<and> fits sz al w (start_of (xs @ us)) r \<and>
        out = map_option (\<lambda>(a, h). (Some a, h)) (take_region h (length (xs @ us)) (start_of (xs @ us))
             (align_up (start_of (xs @ us)) al - start_of (xs @ us)) sz)) \<or>
     (out = Some (None, h) \<and> (\<forall>us r vs. ys = us @ r # vs \<longrightarrow> \<not> fits sz al w (start_of (xs @ us)) r))"

lemma scan_outcome_fit:
  "fits sz al w (start_of xs) r \<Longrightarrow> scan_outcome sz al w h xs (r # ys)
     (map_option (\<lambda>(a, h). (Some a, h)) (take_region h (length xs) (start_of xs)
             (align_up (start_of xs) al - start_of xs) sz))"
  unfolding scan_outcome_def by (intro disjI1 exI [of _ "[]"] exI [of _ r] exI [of _ ys]) simp

lemma scan_outcome_skip:
  assumes "\<not> fits sz al w (start_of xs) r" and out: "scan_outcome sz al w h (xs @ [r]) ys out"
  shows "scan_outcome sz al w h xs (r # ys) out"
  using out unfolding scan_outcome_def
proof (elim disjE exE conjE)
  fix us r' vs
  assume "ys = us @ r' # vs" "fits sz al w (start_of ((xs @ [r]) @ us)) r'"
    and "out = map_option (\<lambda>(a, h). (Some a, h)) (take_region h (length ((xs @ [r]) @ us))
      (start_of ((xs @ [r]) @ us)) (align_up (start_of ((xs @ [r]) @ us)) al - start_of ((xs @ [r]) @ us)) sz)"
  then have "r # ys = (r # us) @ r' # vs \<and> fits sz al w (start_of (xs @ r # us)) r' \<and>
      out = map_option (\<lambda>(a, h). (Some a, h)) (take_region h (length (xs @ r # us))
        (start_of (xs @ r # us)) (align_up (start_of (xs @ r # us)) al - start_of (xs @ r # us)) sz)"
    by (simp only: append_assoc append_Cons append_Nil)
  then show "(\<exists>us' r' vs'. r # ys = us' @ r' # vs' \<and> fits sz al w (start_of (xs @ us')) r' \<and>
        out = map_option (\<lambda>(a, h). (Some a, h)) (take_region h (length (xs @ us')) (start_of (xs @ us'))
             (align_up (start_of (xs @ us')) al - start_of (xs @ us')) sz)) \<or>
     (out = Some (None, h) \<and> (\<forall>us' r' vs'. r # ys = us' @ r' # vs' \<longrightarrow> \<not> fits sz al w (start_of (xs @ us')) r'))"
    by blast
next
  assume "out = Some (None, h)"
    and no: "\<forall>us r' vs. ys = us @ r' # vs \<longrightarrow> \<not> fits sz al w (start_of ((xs @ [r]) @ us)) r'"
  moreover have "\<not> fits sz al w (start_of (xs @ us)) r'" if "r # ys = us @ r' # vs" for us r' vs
    using that assms(1) no by (cases us) auto
  ultimately show "(\<exists>us' r' vs'. r # ys = us' @ r' # vs' \<and> fits sz al w (start_of (xs @ us')) r' \<and>
        out = map_option (\<lambda>(a, h). (Some a, h)) (take_region h (length (xs @ us')) (start_of (xs @ us'))
             (align_up (start_of (xs @ us')) al - start_of (xs @ us')) sz)) \<or>
     (out = Some (None, h) \<and> (\<forall>us' r' vs'. r # ys = us' @ r' # vs' \<longrightarrow> \<not> fits sz al w (start_of (xs @ us')) r'))"
    by blast
qed

lemma kmalloc_scan_spec:
  assumes h: "region_count h \<le> length (region_table h)" "first_free_region h = 0"
      "first_free_addr h = KHEAP_BEGIN" "separated (rlist h)"
  shows "rlist h = xs @ ys \<Longrightarrow> (hit \<longleftrightarrow> (\<exists>r \<in> set xs. res r)) \<Longrightarrow>
    scan_outcome sz al w h xs ys (kmalloc_scan sz al w (length ys) h (length xs) hit (start_of xs))"
proof (induction ys arbitrary: xs hit)
  case Nil
  then show ?case by (simp add: scan_outcome_def)
next
  case (Cons r ys)
  from table_split [OF Cons.prems(1) h(1)] obtain zs where "region_table h = (xs @ r # ys) @ zs" by blast
  then have ix: "idx (region_table h) (length xs) = Some r" by (simp add: idx_def nth_append)
  have keep: "(if \<not> res r \<and> \<not> hit
      then h\<lparr>first_free_region := length xs, first_free_addr := start_of xs\<rparr> else h) = h"
  proof (cases "\<not> res r \<and> \<not> hit")
    case True
    have "xs = []"
    proof (rule ccontr)
      assume "xs \<noteq> []"
      then have "last xs \<in> set xs" and "res (last xs) \<or> res r"
        using h(4) Cons.prems(1) by (auto simp: successively_append_iff)
      then show False using True Cons.prems(2) by blast
    qed
    then show ?thesis using h(2,3) by (cases h) simp
  next
    case False
    then show ?thesis by auto
  qed
  note step = kmalloc_scan_step [OF ix keep, of sz al w "length ys"]
  show ?case
  proof (cases "fits sz al w (start_of xs) r")
    case True
    then show ?thesis using scan_outcome_fit [OF True] step by (simp only: list.size(4) add_Suc_right add_0_right if_True)
  next
    case False
    have "(hit \<or> res r) = (\<exists>r \<in> set (xs @ [r]). res r)" using Cons.prems(2) by auto
    from Cons.IH [OF _ this] Cons.prems(1)
    have "scan_outcome sz al w h (xs @ [r]) ys
        (kmalloc_scan sz al w (length ys) h (length (xs @ [r])) (hit \<or> res r) (start_of (xs @ [r])))" by simp
    moreover have "length (xs @ [r]) = length xs + 1" by simp
    ultimately show ?thesis
      using scan_outcome_skip [OF False] step False
      by (simp only: list.size(4) add_Suc_right add_0_right if_False start_of_snoc)
  qed
qed

subsection \<open>A successful search\<close>

definition alignment_ok :: "u64 \<Rightarrow> bool" where
  "alignment_ok al \<longleftrightarrow> al = 0 \<or> (\<exists>k \<le> 14. al = 2 ^ k)"

lemma align_add:
  assumes al: "alignment_ok al" and a: "unat a < 2 ^ 62"
  shows "unat (align_up a al - a) < 2 ^ 14" and "al = 0 \<Longrightarrow> align_up a al - a = 0"
    and "unat (align_up a al) = unat a + unat (align_up a al - a)"
    and "al \<noteq> 0 \<Longrightarrow> unat (align_up a al) mod unat al = 0"
proof -
  have "unat a \<le> unat (align_up a al) \<and> unat (align_up a al) < unat a + 2 ^ 14 \<and>
      (al \<noteq> 0 \<longrightarrow> unat (align_up a al) mod unat al = 0)"
  proof (cases "al = 0")
    case False
    then obtain k where k: "k \<le> 14" "al = 2 ^ k" using al by (auto simp: alignment_ok_def)
    have le: "(2::nat) ^ k \<le> 2 ^ 14" using k(1) by (intro power_increasing) simp_all
    have u: "unat (align_up a al) = (unat a + (2 ^ k - 1)) div 2 ^ k * 2 ^ k"
      unfolding k(2) using k(1) a le by (intro align_up_pow2) simp_all
    have ual: "unat al = 2 ^ k"
      using k unat_of_nat_64 [of "2 ^ k"] le by simp
    let ?p = "(2::nat) ^ k" and ?x = "unat a + (2 ^ k - 1)"
    have pos: "0 < ?p" by simp
    have "?x div ?p * ?p + ?x mod ?p = ?x" by (rule div_mult_mod_eq)
    moreover have "?x mod ?p < ?p" by simp
    ultimately have "unat a \<le> ?x div ?p * ?p" "?x div ?p * ?p < unat a + ?p" using pos by linarith+
    then show ?thesis using le by (simp add: u ual)
  qed simp
  then have b: "unat a \<le> unat (align_up a al)" "unat (align_up a al) < unat a + 2 ^ 14"
    "al \<noteq> 0 \<longrightarrow> unat (align_up a al) mod unat al = 0" by auto
  have m: "unat (align_up a al - a) = unat (align_up a al) - unat a" using b(1) by (rule unat_minus)
  show "unat (align_up a al - a) < 2 ^ 14" "unat (align_up a al) = unat a + unat (align_up a al - a)"
    using m b by simp_all
  show "al \<noteq> 0 \<Longrightarrow> unat (align_up a al) mod unat al = 0" using b(3) by blast
  show "al = 0 \<Longrightarrow> align_up a al - a = 0" by simp
qed

lemma unat_start_of: "sizes xs < 2 ^ 62 \<Longrightarrow> unat (start_of xs) = unat KHEAP_BEGIN + sizes xs"
  by (subst unat_plus) (simp_all add: unat_of_nat_64)

text \<open>What a successful allocation of at least \<open>n\<close> bytes does to the heap.\<close>

definition allocates :: "kheap \<Rightarrow> u64 \<Rightarrow> nat \<Rightarrow> kheap \<Rightarrow> nat \<Rightarrow> bool" where
  "allocates h a n h' n' \<longleftrightarrow> a \<noteq> 0 \<and> n \<le> n' \<and>
     allocated h' = insert (unat a, n') (allocated h) \<and>
     (\<forall>(b, m) \<in> allocated h. unat a + n' \<le> b \<or> b + m \<le> unat a) \<and>
     unat KHEAP_BEGIN \<le> unat a \<and> unat a + n' \<le> unat KHEAP_BEGIN + unat (heap_size h')"

lemma take_fit:
  assumes ok: "heap_ok h" and max: "region_count h + 2 \<le> region_max_count h"
    and rl: "rlist h = us @ r # vs" and al: "alignment_ok al"
    and fit: "fits sz al w (start_of us) r" and sz: "0 < unat sz" "unat sz < 2 ^ 62"
  shows "\<exists>a h' n. take_region h (length us) (start_of us) (align_up (start_of us) al - start_of us) sz = Some (a, h') \<and>
    heap_ok h' \<and> allocates h a (unat sz) h' n \<and> (al = 0 \<longrightarrow> n = unat sz) \<and>
    (al \<noteq> 0 \<longrightarrow> unat a mod unat al = 0)"
proof -
  let ?a = "start_of us" and ?KB = "unat KHEAP_BEGIN"
  let ?add = "align_up ?a al - ?a"
  have sum: "sizes us + unat (rsize r) + sizes vs = unat (heap_size h)" "unat (heap_size h) < 2 ^ 61"
    using ok rl by (auto simp: heap_ok_def)
  have ua: "unat ?a = ?KB + sizes us" using sum by (intro unat_start_of) simp
  have a: "unat ?a < 2 ^ 62" unfolding ua using sum by simp
  have add: "unat ?add < 2 ^ 14" "al = 0 \<Longrightarrow> ?add = 0" "unat (align_up ?a al) = unat ?a + unat ?add"
    "al \<noteq> 0 \<Longrightarrow> unat (align_up ?a al) mod unat al = 0"
    using align_add [OF al a] by blast+
  have "unat (sz + ?add) = unat sz + unat ?add" using sz(2) add(1) by (intro unat_plus) simp
  then have le: "unat sz + unat ?add \<le> unat (rsize r)" and free: "\<not> res r"
    using fit by (auto simp: fits_def Let_def word_le_nat_alt)
  have len: "length (region_table h) = region_max_count h" using ok by (simp add: heap_ok_def)
  have small: "unat (rsize r) < 2 ^ 63" using sum by simp
  obtain h' r' front rest where t: "take_region h (length us) ?a ?add sz = Some (?a + ?add, h')"
    and rl': "rlist h' = us @ front @ r' # rest @ vs" and r': "res r'" "unat sz \<le> unat (rsize r')"
      "?add = 0 \<longrightarrow> rsize r' = sz" "unat ?add + unat (rsize r') + sizes rest = unat (rsize r)"
    and front: "sizes front = unat ?add" "front = [] \<or> (\<exists>s. front = [s] \<and> \<not> res s \<and> 0 < unat (rsize s))"
    and rest: "rest = [] \<or> (\<exists>s. rest = [s] \<and> \<not> res s \<and> 0 < unat (rsize s))"
    and env: "same_env h h'" "region_count h' \<le> region_max_count h'"
    using take_region_spec [OF rl len max le small sz(1), of ?a] by (elim exE conjE) (rule that)
  have aa: "unat (?a + ?add) = ?KB + sizes us + unat ?add" using add(3) ua by simp
  have sep: "separated (us @ r # vs)" "\<forall>r \<in> set (us @ r # vs). 0 < unat (rsize r)"
    using ok rl by (auto simp: heap_ok_def)
  have "separated (us @ front @ r' # rest @ vs)"
    using sep(1) free r'(1) front(2) rest by (auto simp: successively_append_iff successively_Cons)
  moreover have "\<forall>r \<in> set (us @ front @ r' # rest @ vs). 0 < unat (rsize r)"
    using sep(2) r'(2) sz(1) front(2) rest by auto
  moreover have total': "sizes (us @ front @ r' # rest @ vs) = unat (heap_size h)"
    using sum r'(4) front(1) by simp
  ultimately have ok': "heap_ok h'" using ok env rl' by (simp add: heap_ok_def same_env_def)
  have none: "blocks b front = []" "blocks b rest = []" for b
    using front(2) rest by auto
  have alloc: "allocated h = set (blocks ?KB us) \<union> set (blocks (?KB + sizes us + unat (rsize r)) vs)"
    using free by (simp add: allocated_def rl)
  have alloc': "allocated h' = insert (?KB + sizes us + unat ?add, unat (rsize r'))
      (set (blocks ?KB us) \<union> set (blocks (?KB + sizes us + unat (rsize r)) vs))"
    using r'(1,4) front(1) by (auto simp: allocated_def rl' none add.assoc)
  define p where "p = ?a + ?add"
  have up: "unat p = ?KB + sizes us + unat ?add" using aa by (simp only: p_def)
  have "\<forall>(b, m) \<in> allocated h. unat p + unat (rsize r') \<le> b \<or> b + m \<le> unat p"
    using blocks_bounds r'(4) unfolding alloc up by fastforce
  moreover have "p \<noteq> 0" using up by auto
  moreover have "heap_size h' = heap_size h" using env(1) by (simp add: same_env_def)
  ultimately have "allocates h p (unat sz) h' (unat (rsize r'))"
    using r'(2,4) sum(1) alloc alloc' by (simp add: allocates_def up)
  moreover have "al \<noteq> 0 \<longrightarrow> unat p mod unat al = 0" using add(4) by (simp add: p_def)
  ultimately show ?thesis using t ok' r'(3) add(2) unfolding p_def [symmetric]
    by (intro exI [of _ p] exI [of _ h'] exI [of _ "unat (rsize r')"]) simp
qed

subsection \<open>Growing\<close>

lemma heap_grow_spec:
  assumes ok: "heap_ok h" and max: "region_count h < region_max_count h"
    and g: "0 < unat g" "unat (heap_size h) + unat g < 2 ^ 61"
  shows "\<exists>b h'. heap_grow h g v = Some (b, h') \<and> heap_ok h' \<and> allocated h' = allocated h \<and>
    region_max_count h' = region_max_count h \<and> region_count h' \<le> Suc (region_count h) \<and>
    regions h' = regions h \<and>
    (if b then unat (heap_size h') = unat (heap_size h) + unat g \<and>
            (\<exists>us r. rlist h' = us @ [r] \<and> \<not> res r \<and> unat g \<le> unat (rsize r))
     else heap_size h' = heap_size h)"
proof -
  have h: "length (region_table h) = region_max_count h" "separated (rlist h)"
    "\<forall>r \<in> set (rlist h). 0 < unat (rsize r)" "sizes (rlist h) = unat (heap_size h)" "vm_sound (kh_vm h)"
    using ok by (auto simp: heap_ok_def)
  obtain b vm where gp: "grow_pages vm_alloc_block virt_mem_map_page ((unat g + 4095) div 4096) v (kh_vm h)
      = Some (b, vm)" "vm_sound vm"
    using grow_pages_total [OF h(5)] by blast
  obtain zs where tab: "region_table h = rlist h @ zs" "region_count h = length (rlist h)"
    using table_split [of h "rlist h"] max h(1) by auto
  then obtain z zs' where zs: "zs = z # zs'" using max h(1) by (cases zs) auto
  have hs: "unat (heap_size h + g) = unat (heap_size h) + unat g" using g(2) by (intro unat_plus) simp
  show ?thesis
  proof (cases "rlist h = [] \<or> res (last (rlist h))")
    case True
    let ?n = "\<lparr>res = False, rsize = g, rnumber = 0\<rparr>"
    let ?h' = "h\<lparr>kh_vm := vm, region_table := rlist h @ ?n # zs', region_count := Suc (region_count h),
        heap_size := heap_size h + g\<rparr>"
    have rl: "rlist ?h' = rlist h @ [?n]" by (rule rlistI [of _ _ zs']) (simp_all add: tab)
    have sep: "separated (rlist h @ [?n])" using h(2) True by (auto simp: successively_append_iff)
    have alloc: "allocated ?h' = allocated h" by (simp only: allocated_def rl) simp
    have ok': "heap_ok ?h'"
      using ok max sep h g hs by (simp add: heap_ok_def rl gp) (simp add: tab zs)
    have last: "(if 0 < region_count h then map_option res (idx (region_table h) (region_count h - 1)) else Some False)
        = Some (rlist h \<noteq> [])"
      using True by (cases "rlist h" rule: rev_cases) (simp_all add: tab idx_def)
    have "sz63 g = g" using g(2) by (intro sz63_small) simp
    then have "heap_grow h g v = Some (b, if b then ?h' else h\<lparr>kh_vm := vm\<rparr>)"
      using max g by (simp add: heap_grow_def last gp) (simp add: tab zs list_update_append)
    moreover have "heap_ok (h\<lparr>kh_vm := vm\<rparr>)" using ok gp(2) by (simp add: heap_ok_def rlist_def)
    moreover have "allocated (h\<lparr>kh_vm := vm\<rparr>) = allocated h" by (simp add: allocated_def rlist_def)
    ultimately show ?thesis
      using ok' alloc rl hs by (intro exI [of _ b] exI [of _ "if b then ?h' else h\<lparr>kh_vm := vm\<rparr>"]) auto
  next
    case False
    then obtain us r where us: "rlist h = us @ [r]" "\<not> res r" by (metis append_butlast_last_id)
    let ?r = "r\<lparr>rsize := rsize r + g\<rparr>"
    let ?h' = "h\<lparr>kh_vm := vm, region_table := us @ ?r # zs, heap_size := heap_size h + g\<rparr>"
    have rr: "unat (rsize r + g) = unat (rsize r) + unat g" "unat (rsize r) + unat g < 2 ^ 63"
      using h(4) g(2) us(1) by (auto intro!: unat_plus)
    have rl: "rlist ?h' = us @ [?r]" by (rule rlistI [of _ _ zs]) (simp_all add: tab us)
    have sep: "separated (us @ [?r])" using h(2) us by (simp add: successively_append_iff)
    have alloc: "allocated ?h' = allocated h" using us(2) by (simp add: allocated_def rl us(1))
    have ok': "heap_ok ?h'"
      using ok sep h(3,4) g hs rr by (simp add: heap_ok_def rl gp us) (simp add: tab us)
    have ix: "idx (region_table h) (region_count h - 1) = Some r" by (simp add: tab us idx_def)
    have "sz63 (rsize r + g) = rsize r + g" by (intro sz63_small) (use rr in simp)
    then have "heap_grow h g v = Some (b, if b then ?h' else h\<lparr>kh_vm := vm\<rparr>)"
      using max us rr by (simp add: heap_grow_def ix gp)
        (simp add: tab us list_update_append)
    moreover have "heap_ok (h\<lparr>kh_vm := vm\<rparr>)" using ok gp(2) by (simp add: heap_ok_def rlist_def)
    moreover have "allocated (h\<lparr>kh_vm := vm\<rparr>) = allocated h" by (simp add: allocated_def rlist_def)
    ultimately show ?thesis
      using ok' alloc rl hs rr us by (intro exI [of _ b] exI [of _ "if b then ?h' else h\<lparr>kh_vm := vm\<rparr>"]) auto
  qed
qed

subsection \<open>Allocation\<close>

lemma heap_scan:
  assumes "heap_ok h"
  shows "scan_outcome sz al w h [] (rlist h)
    (kmalloc_scan sz al w (region_count h - first_free_region h) h (first_free_region h) False (first_free_addr h))"
proof -
  have h: "region_count h \<le> length (region_table h)" "first_free_region h = 0" "first_free_addr h = KHEAP_BEGIN"
    "separated (rlist h)" using assms by (auto simp: heap_ok_def)
  have "length (rlist h) = region_count h" using h(1) by (simp add: rlist_def)
  then show ?thesis using kmalloc_scan_spec [OF h, of "[]" "rlist h" False sz al w] h(2,3) by simp
qed

lemma growth:
  assumes "unat (sz :: u64) < 2 ^ 40"
  defines "g \<equiv> max_u64 HEAP_MIN_GROWTH (align_up (sz * 3 div 2) PAGE_SIZE)"
  shows "unat sz + 2 ^ 14 \<le> unat g" and "unat g \<le> 2 * unat sz + 2 ^ 17"
proof -
  have "unat (sz * 3) = unat sz * 3" using assms(1) by (subst unat_mult_lem [THEN iffD1]) simp_all
  then have u: "unat (sz * 3 div 2) = unat sz * 3 div 2" by (simp add: unat_div)
  have "unat (align_up (sz * 3 div 2) (2 ^ 12)) = (unat sz * 3 div 2 + (2 ^ 12 - 1)) div 2 ^ 12 * 2 ^ 12"
    unfolding u [symmetric] by (rule align_up_pow2) (use assms(1) in \<open>simp_all add: u\<close>)
  then have p: "unat (align_up (sz * 3 div 2) PAGE_SIZE) = (unat sz * 3 div 2 + 4095) div 4096 * 4096" by simp
  then have "unat sz * 3 div 2 \<le> unat (align_up (sz * 3 div 2) PAGE_SIZE)"
    "unat (align_up (sz * 3 div 2) PAGE_SIZE) \<le> unat sz * 3 div 2 + 4095" by linarith+
  then show "unat sz + 2 ^ 14 \<le> unat g" "unat g \<le> 2 * unat sz + 2 ^ 17"
    unfolding g_def max_u64_def by (auto simp: word_less_nat_alt)
qed

text \<open>The room an allocation needs: free slots in the table, and addresses below \<open>2 ^ 36\<close>.\<close>

definition heap_room :: "kheap \<Rightarrow> nat \<Rightarrow> bool" where
  "heap_room h n \<longleftrightarrow> region_count h + 3 \<le> region_max_count h \<and>
     unat KHEAP_BEGIN + unat (heap_size h) + 2 * n + 2 ^ 18 < unat (0xFFFFFFFFF :: u64)"

definition alloc_result :: "kheap \<Rightarrow> u64 \<Rightarrow> u64 \<Rightarrow> u64 \<Rightarrow> kheap \<Rightarrow> bool" where
  "alloc_result h sz al a h' \<longleftrightarrow> heap_ok h' \<and>
     (a = 0 \<and> allocated h' = allocated h \<or>
      (\<exists>n. allocates h a (unat sz) h' n \<and> (al = 0 \<longrightarrow> n = unat sz) \<and> (al \<noteq> 0 \<longrightarrow> unat a mod unat al = 0)))"

lemma scan_took:
  assumes ok: "heap_ok h" and max: "region_count h + 2 \<le> region_max_count h" and al: "alignment_ok al"
    and sz: "0 < unat sz" "unat sz < 2 ^ 62"
    and out: "scan_outcome sz al w h [] (rlist h) out" "out \<noteq> Some (None, h)"
  shows "\<exists>a h'. out = Some (Some a, h') \<and> alloc_result h sz al a h'"
proof -
  obtain us r vs where rl: "rlist h = us @ r # vs" "fits sz al w (start_of us) r"
    and o: "out = map_option (\<lambda>(a, h). (Some a, h)) (take_region h (length us) (start_of us)
             (align_up (start_of us) al - start_of us) sz)"
    using out unfolding scan_outcome_def append_Nil by blast
  from take_fit [OF ok max rl(1) al rl(2) sz] show ?thesis
    unfolding o alloc_result_def by (elim exE conjE) (simp, blast)
qed

lemma mask_alignment: "alignment_ok al \<Longrightarrow> al AND KHEAP_ALIGNMENT_MASK = al"
proof -
  assume "alignment_ok al"
  then consider "al = 0" | k where "k \<le> 14" "al = 2 ^ k" by (auto simp: alignment_ok_def)
  then show ?thesis
  proof cases
    case 2
    have m: "KHEAP_ALIGNMENT_MASK = mask 56" by (simp add: mask_eq_exp_minus_1)
    show ?thesis unfolding m using 2
      by (intro bit_word_eqI) (auto simp: bit_and_iff bit_mask_iff bit_exp_iff possible_bit_def)
  qed simp
qed

lemma kmalloc_imp_spec:
  assumes ok: "heap_ok h" and room: "heap_room h (unat sz)" and al: "alignment_ok al"
    and flags: "al AND wpage = 0" "al AND w64k = 0"
    and sz: "0 < unat sz" "align_up sz al = sz"
  shows "\<exists>a h'. kmalloc_imp wpage w64k (Suc (Suc fuel)) h sz al = Some (a, h') \<and> alloc_result h sz al a h'"
proof -
  let ?w = "0xFFFFFFFFF :: u64" and ?KB = "unat KHEAP_BEGIN"
  let ?scan = "\<lambda>h. kmalloc_scan sz al ?w (region_count h - first_free_region h) h (first_free_region h) False (first_free_addr h)"
  let ?g = "max_u64 HEAP_MIN_GROWTH (align_up (sz * 3 div 2) PAGE_SIZE)"
  have w: "kmalloc_within wpage w64k al = ?w" using flags by (simp add: kmalloc_within_def)
  have nz: "regions h \<noteq> 0" using ok by (simp add: heap_ok_def)
  have small: "unat sz < 2 ^ 40" "unat sz < 2 ^ 62" using room by (auto simp: heap_room_def)
  have unfold1: "kmalloc_imp wpage w64k (Suc f) h' sz al = (do {
        (hit, h) \<leftarrow> ?scan h';
        case hit of
          Some a \<Rightarrow> Some (a, h)
        | None \<Rightarrow> do {
            (grown, h) \<leftarrow> heap_grow h ?g (KHEAP_BEGIN + heap_size h);
            if \<not> grown then Some (0, h) else kmalloc_imp wpage w64k f h sz al
          } })" if "regions h' \<noteq> 0" for f h'
    using that by (simp only: kmalloc_imp.simps(2) Let_def w mask_alignment [OF al] sz(2) if_False)
  show ?thesis
  proof (cases "?scan h = Some (None, h)")
    case False
    obtain a h' where "?scan h = Some (Some a, h')" "alloc_result h sz al a h'"
      using scan_took [OF ok _ al sz(1) small(2) heap_scan [OF ok] False] room by (auto simp: heap_room_def)
    then show ?thesis using unfold1 [OF nz] by simp
  next
    case True
    note g = growth [OF small(1)]
    have gb: "0 < unat ?g" "unat (heap_size h) + unat ?g < 2 ^ 61" using g room by (auto simp: heap_room_def)
    have max1: "region_count h < region_max_count h" using room by (simp add: heap_room_def)
    obtain b h1 where gr: "heap_grow h ?g (KHEAP_BEGIN + heap_size h) = Some (b, h1)" "heap_ok h1"
      "allocated h1 = allocated h" "region_max_count h1 = region_max_count h"
      "region_count h1 \<le> Suc (region_count h)" "regions h1 = regions h"
      "if b then unat (heap_size h1) = unat (heap_size h) + unat ?g \<and>
            (\<exists>us r. rlist h1 = us @ [r] \<and> \<not> res r \<and> unat ?g \<le> unat (rsize r))
       else heap_size h1 = heap_size h"
      using heap_grow_spec [OF ok max1 gb, of "KHEAP_BEGIN + heap_size h"] by (elim exE conjE) (rule that)
    show ?thesis
    proof (cases b)
      case False
      then show ?thesis using unfold1 [OF nz] True gr by (simp add: alloc_result_def)
    next
      case b: True
      then obtain us r where us: "rlist h1 = us @ [r]" "\<not> res r" "unat ?g \<le> unat (rsize r)"
        and hs: "unat (heap_size h1) = unat (heap_size h) + unat ?g" using gr(7) by auto
      have "sizes us + unat (rsize r) = unat (heap_size h1)" using gr(2) us(1) by (simp add: heap_ok_def)
      then have sus: "sizes us \<le> unat (heap_size h)" using us(3) hs by simp
      let ?a = "start_of us"
      have ua: "unat ?a = ?KB + sizes us" using sus gb(2) by (intro unat_start_of) simp
      have add: "unat (align_up ?a al - ?a) < 2 ^ 14"
        by (rule align_add(1) [OF al]) (use ua sus room in \<open>simp add: heap_room_def\<close>)
      have "unat (sz + (align_up ?a al - ?a)) = unat sz + unat (align_up ?a al - ?a)"
        using add small by (intro unat_plus) simp
      moreover have "?a mod ?w = ?a"
        using ua sus room by (simp add: word_unat_eq_iff unat_mod heap_room_def)
      moreover have "unat (?w - ?a) = unat ?w - unat ?a"
        by (rule unat_minus) (use ua sus room in \<open>simp add: heap_room_def\<close>)
      moreover have "unat (align_up ?a al - ?a) \<le> unat ?w - unat ?a"
      proof -
        have "unat (heap_size h) < 802947071" using room by (simp add: heap_room_def)
        then have "unat ?a + 2 ^ 14 \<le> unat ?w" using ua sus by simp
        then show ?thesis using add by linarith
      qed
      ultimately have "fits sz al ?w ?a r"
        using us(2,3) g(1) add by (simp add: fits_def Let_def word_le_nat_alt)
      then have nf: "?scan h1 \<noteq> Some (None, h1)"
        using heap_scan [OF gr(2), of sz al ?w] us(1) unfolding scan_outcome_def by (auto split: option.splits)
      have max2: "region_count h1 + 2 \<le> region_max_count h1"
        using room gr(4,5) by (simp add: heap_room_def)
      obtain a h' where s: "?scan h1 = Some (Some a, h')" "alloc_result h1 sz al a h'"
        using scan_took [OF gr(2) max2 al sz(1) small(2) heap_scan [OF gr(2)] nf] by blast
      have "alloc_result h sz al a h'" using s(2) gr(3) by (simp add: alloc_result_def allocates_def)
      then show ?thesis using unfold1 [OF nz] unfold1 [of h1] nz True gr(1,6) b s(1) by simp
    qed
  qed
qed

subsection \<open>Freeing\<close>

lemma allocated_split:
  assumes "(b, n) \<in> set (blocks a rs)"
  shows "\<exists>us r vs. rs = us @ r # vs \<and> res r \<and> b = a + sizes us \<and> n = unat (rsize r)"
  using assms
proof (induction rs arbitrary: a)
  case (Cons r rs)
  show ?case
  proof (cases "res r \<and> (b, n) = (a, unat (rsize r))")
    case True
    then show ?thesis by (intro exI [of _ "[]"] exI [of _ r] exI [of _ rs]) simp
  next
    case False
    then have "(b, n) \<in> set (blocks (a + unat (rsize r)) rs)" using Cons.prems by (auto split: if_splits)
    from Cons.IH [OF this] obtain us r' vs where
      "rs = us @ r' # vs" "res r'" "b = a + unat (rsize r) + sizes us" "n = unat (rsize r')" by blast
    then show ?thesis by (intro exI [of _ "r # us"] exI [of _ r'] exI [of _ vs]) simp
  qed
qed simp

lemma kfree_scan_spec:
  assumes "region_count h \<le> length (region_table h)" and "sizes (rlist h) < 2 ^ 61"
    and "\<forall>r \<in> set (rlist h). 0 < unat (rsize r)" and "res r"
  shows "rlist h = xs @ zs @ r # vs \<Longrightarrow>
    kfree_scan (start_of (xs @ zs)) (length (zs @ r # vs)) h (length xs) (start_of xs)
      = free_region h (length (xs @ zs)) (start_of (xs @ zs))"
proof (induction zs arbitrary: xs)
  case Nil
  from table_split [OF Nil assms(1)] obtain ws where "region_table h = (xs @ [] @ r # vs) @ ws" by blast
  then have "idx (region_table h) (length xs) = Some r" by (simp add: idx_def nth_append)
  then show ?case using assms(4) by simp
next
  case (Cons q zs)
  from table_split [OF Cons.prems assms(1)] obtain ws where "region_table h = (xs @ (q # zs) @ r # vs) @ ws" by blast
  then have ix: "idx (region_table h) (length xs) = Some q" by (simp add: idx_def nth_append)
  have sz: "sizes xs + (unat (rsize q) + sizes zs) < 2 ^ 61" "0 < unat (rsize q)"
    using assms(2,3) unfolding Cons.prems by auto
  have "start_of xs \<noteq> start_of (xs @ q # zs)"
  proof
    assume "start_of xs = start_of (xs @ q # zs)"
    then have "unat (start_of xs) = unat (start_of (xs @ q # zs))" by simp
    then show False using unat_start_of [of xs] unat_start_of [of "xs @ q # zs"] sz by simp
  qed
  then have "kfree_scan (start_of (xs @ q # zs)) (length ((q # zs) @ r # vs)) h (length xs) (start_of xs)
      = kfree_scan (start_of ((xs @ [q]) @ zs)) (length (zs @ r # vs)) h (length (xs @ [q])) (start_of (xs @ [q]))"
    by (simp add: ix add.assoc)
  also have "\<dots> = free_region h (length ((xs @ [q]) @ zs)) (start_of ((xs @ [q]) @ zs))"
    by (rule Cons.IH) (use Cons.prems in simp)
  finally show ?case by simp
qed

text \<open>The two merges, on the regions around the freed one.\<close>

lemma merge_next_spec:
  assumes rl: "rlist h = us @ r # vs" "region_count h \<le> length (region_table h)"
    and room: "2 * region_count h \<le> length (region_table h)"
    and size: "unat (rsize r) + sizes vs < 2 ^ 63"
  shows "\<exists>h' r' vs'. merge_next h (length us) = Some h' \<and> rlist h' = us @ r' # vs' \<and> res r' = res r \<and>
    unat (rsize r) \<le> unat (rsize r') \<and> same_env h h' \<and> region_count h' \<le> region_count h \<and>
    (vs' = vs \<and> r' = r \<and> (vs = [] \<or> res (hd vs)) \<or>
     (\<exists>s. vs = s # vs' \<and> \<not> res s \<and> unat (rsize r') = unat (rsize r) + unat (rsize s)))"
proof -
  from table_split [OF rl] obtain zs where tab: "region_table h = (us @ r # vs) @ zs"
    and cnt: "region_count h = length (us @ r # vs)" "length (region_table h) = length (us @ r # vs) + length zs"
    by blast
  have ixr: "idx (region_table h) (length us) = Some r" by (simp add: tab idx_def nth_append)
  show ?thesis
  proof (cases "vs = [] \<or> res (hd vs)")
    case True
    then have "merge_next h (length us) = Some h"
      using cnt ixr by (cases vs) (simp_all add: merge_next_def tab idx_def nth_append)
    then show ?thesis using True rl(1) by (intro exI [of _ h] exI [of _ r] exI [of _ vs]) (simp add: same_env_def)
  next
    case False
    then obtain s vs' where vs: "vs = s # vs'" "\<not> res s" by (cases vs) auto
    let ?r = "r\<lparr>rsize := rsize r + rsize s\<rparr>"
    have sum: "unat (rsize r + rsize s) = unat (rsize r) + unat (rsize s)"
      using size vs by (intro unat_plus) simp
    then have sz: "sz63 (rsize r + rsize s) = rsize r + rsize s" using size vs by (intro sz63_small) simp
    have len: "length us \<le> length zs" using room cnt vs by simp
    obtain ws where mv: "mem_move (us @ ?r # s # vs' @ zs) (Suc (length us)) (Suc (Suc (length us)))
        (length us + length vs') = Some (us @ ?r # vs' @ ws)" "length ws = Suc (length zs)"
      using move_down_long [OF len] by blast
    let ?h' = "h\<lparr>region_table := us @ ?r # vs' @ ws, region_count := region_count h - 1\<rparr>"
    have ixs: "idx (region_table h) (Suc (length us)) = Some s" by (simp add: tab vs idx_def nth_append)
    have up: "upd (region_table h) (length us) ?r = Some (us @ ?r # s # vs' @ zs)"
      by (simp add: tab vs list_update_append)
    have "region_count h - 2 = length us + length vs'" using cnt vs by simp
    then have "merge_next h (length us) = Some ?h'"
      using ixr ixs up mv(1) vs(2) sz cnt(1) vs(1) by (simp add: merge_next_def)
    moreover have "rlist ?h' = us @ ?r # vs'" using cnt vs by (intro rlistI [of _ _ ws]) simp_all
    moreover have "same_env h ?h'" using mv(2) cnt vs by (simp add: same_env_def)
    ultimately show ?thesis using vs sum
      by (intro exI [of _ ?h'] exI [of _ ?r] exI [of _ vs']) simp
  qed
qed

lemma merge_prev_spec:
  assumes rl: "rlist h = us @ r # vs" "region_count h \<le> length (region_table h)" and nr: "\<not> res r"
    and size: "sizes us + unat (rsize r) < 2 ^ 63"
  shows "\<exists>i h' r' us'. merge_prev h (length us) = Some (i, h') \<and> rlist h' = us' @ r' # vs \<and> \<not> res r' \<and>
    unat (rsize r) \<le> unat (rsize r') \<and> same_env h h' \<and> region_count h' \<le> region_count h \<and>
    (us' = us \<and> r' = r \<and> (us = [] \<or> res (last us)) \<or>
     (\<exists>q. us = us' @ [q] \<and> \<not> res q \<and> unat (rsize r') = unat (rsize q) + unat (rsize r)))"
proof -
  from table_split [OF rl] obtain zs where tab: "region_table h = (us @ r # vs) @ zs"
    and cnt: "region_count h = length (us @ r # vs)" by blast
  have ixr: "idx (region_table h) (length us) = Some r" by (simp add: tab idx_def nth_append)
  show ?thesis
  proof (cases "us = [] \<or> res (last us)")
    case True
    then have "merge_prev h (length us) = Some (length us, h)"
      using ixr by (cases us rule: rev_cases) (simp_all add: merge_prev_def tab idx_def nth_append)
    then show ?thesis using True rl(1) nr
      by (intro exI [of _ "length us"] exI [of _ h] exI [of _ r] exI [of _ us]) (simp add: same_env_def)
  next
    case False
    then obtain us' q where us: "us = us' @ [q]" "\<not> res q" by (metis append_butlast_last_id)
    let ?q = "q\<lparr>rsize := rsize q + rsize r\<rparr>"
    have sum: "unat (rsize q + rsize r) = unat (rsize q) + unat (rsize r)"
      using size us by (intro unat_plus) simp
    then have sz: "sz63 (rsize q + rsize r) = rsize q + rsize r" using size us by (intro sz63_small) simp
    let ?t = "(us' @ [?q]) @ vs @ drop (length vs) (r # vs @ zs)"
    let ?h' = "h\<lparr>region_table := ?t, region_count := region_count h - 1\<rparr>"
    have ixq: "idx (region_table h) (length us - 1) = Some q" by (simp add: tab us idx_def nth_append)
    have up: "upd (region_table h) (length us - 1) ?q = Some ((us' @ [?q]) @ r # vs @ zs)"
      by (simp add: tab us list_update_append)
    have mv: "mem_move ((us' @ [?q]) @ r # vs @ zs) (length us) (length us + 1) (region_count h - 1 - length us)
        = Some ?t"
      using move_down [of "us' @ [?q]" r vs zs] us cnt by simp
    have "merge_prev h (length us) = Some (length us - 1, ?h')"
      using ixr ixq up mv us sz by (simp add: merge_prev_def)
    moreover have "rlist ?h' = us' @ ?q # vs"
      using cnt us by (intro rlistI [of _ _ "drop (length vs) (r # vs @ zs)"]) simp_all
    moreover have "same_env h ?h'" using tab us by (simp add: same_env_def)
    ultimately show ?thesis using us sum
      by (intro exI [of _ "length us - 1"] exI [of _ ?h'] exI [of _ ?q] exI [of _ us']) simp
  qed
qed

lemma kfree_spec:
  assumes ok: "heap_ok h" and a: "(unat a, n) \<in> allocated h" and room: "2 * region_count h \<le> region_max_count h"
  shows "\<exists>h'. kfree h a = Some h' \<and> heap_ok h' \<and> allocated h' = allocated h - {(unat a, n)} \<and>
    region_count h' \<le> region_count h \<and> region_max_count h' = region_max_count h \<and> heap_size h' = heap_size h"
proof -
  let ?KB = "unat KHEAP_BEGIN"
  have h: "region_count h \<le> length (region_table h)" "length (region_table h) = region_max_count h"
    "separated (rlist h)" "\<forall>r \<in> set (rlist h). 0 < unat (rsize r)" "sizes (rlist h) < 2 ^ 61"
    "first_free_region h = 0" using ok by (auto simp: heap_ok_def)
  obtain us r vs where rl: "rlist h = us @ r # vs" "res r" "unat a = ?KB + sizes us" "n = unat (rsize r)"
    using allocated_split [of "unat a" n ?KB "rlist h"] a unfolding allocated_def by blast
  have tot: "sizes us + unat (rsize r) + sizes vs = unat (heap_size h)" "unat (heap_size h) < 2 ^ 61"
    using ok rl(1) by (auto simp: heap_ok_def)
  have aw: "a = start_of us" using rl(3) unat_start_of [of us] tot by (simp only: word_unat_eq_iff) simp
  have a0: "a \<noteq> 0" using rl(3) by auto
  have "region_count h = length (us @ r # vs)" using rl(1) h(1) by (metis length_take min.absorb2 rlist_def)
  then have run: "kfree h a = free_region h (length us) a"
    using kfree_scan_spec [OF h(1,5,4) rl(2), of "[]" us vs] rl(1) a0 aw by (simp add: kfree_def)
  from table_split [OF rl(1) h(1)] obtain zs where tab: "region_table h = (us @ r # vs) @ zs"
    and cnt: "region_count h = length (us @ r # vs)" by blast
  let ?r = "r\<lparr>rnumber := 0, res := False\<rparr>"
  let ?h0 = "h\<lparr>region_table := us @ ?r # vs @ zs\<rparr>"
  have rl0: "rlist ?h0 = us @ ?r # vs" using cnt by (intro rlistI [of _ _ zs]) simp_all
  obtain h1 r1 vs1 where m1: "merge_next ?h0 (length us) = Some h1" "rlist h1 = us @ r1 # vs1" "res r1 = res ?r"
      "unat (rsize ?r) \<le> unat (rsize r1)" "same_env ?h0 h1" "region_count h1 \<le> region_count ?h0"
      "vs1 = vs \<and> r1 = ?r \<and> (vs = [] \<or> res (hd vs)) \<or>
       (\<exists>s. vs = s # vs1 \<and> \<not> res s \<and> unat (rsize r1) = unat (rsize ?r) + unat (rsize s))"
    using merge_next_spec [OF rl0] room h(1,2) tot tab by auto
  have t1: "unat (rsize r1) + sizes vs1 = unat (rsize r) + sizes vs" using m1(7) by auto
  have len1: "region_count h1 \<le> length (region_table h1)"
    using m1(5,6) h(1) tab by (simp add: same_env_def)
  have small1: "sizes us + unat (rsize r1) < 2 ^ 63" using t1 tot by simp
  have nr1: "\<not> res r1" using m1(3) by simp
  obtain i h2 r2 us2 where m2: "merge_prev h1 (length us) = Some (i, h2)" "rlist h2 = us2 @ r2 # vs1" "\<not> res r2"
      "unat (rsize r1) \<le> unat (rsize r2)" "same_env h1 h2" "region_count h2 \<le> region_count h1"
      "us2 = us \<and> r2 = r1 \<and> (us = [] \<or> res (last us)) \<or>
       (\<exists>q. us = us2 @ [q] \<and> \<not> res q \<and> unat (rsize r2) = unat (rsize q) + unat (rsize r1))"
    using merge_prev_spec [OF m1(2) len1 nr1 small1] by blast
  have t2: "sizes us2 + unat (rsize r2) = sizes us + unat (rsize r1)" using m2(7) by auto
  have env: "same_env h h2" using m1(5) m2(5) tab by (simp add: same_env_def)
  have "free_region h (length us) a = Some h2"
    using m1(1) m2(1) env h(6) tab by (simp add: free_region_def nth_append list_update_append same_env_def)
  moreover have sep: "separated (us @ r # vs)" using h(3) rl(1) by simp
  have "separated (us2 @ r2 # vs1)"
    using sep m1(7) m2(3,7) by (auto simp: successively_append_iff successively_Cons hd_append split: if_splits)
  then have "heap_ok h2"
    using ok env m2(2) m1(6) m2(6) h(4) m1(4,7) m2(4,7) t1 t2 tot rl(1)
    by (auto simp: heap_ok_def same_env_def)
  moreover have "allocated h2 = allocated h - {(unat a, n)}"
  proof -
    have b1: "blocks b vs1 = blocks b vs \<or> (\<exists>s. vs = s # vs1 \<and> \<not> res s)" for b using m1(7) by auto
    have bu: "blocks ?KB us2 = blocks ?KB us" using m2(7) by auto
    have bv: "blocks (?KB + sizes us2 + unat (rsize r2)) vs1 = blocks (?KB + sizes us + unat (rsize r)) vs"
      using m1(7) t2 by (auto simp: add.assoc)
    have A2: "allocated h2 = set (blocks ?KB us) \<union> set (blocks (?KB + sizes us + unat (rsize r)) vs)"
      using m2(2,3) bu bv by (simp add: allocated_def)
    have A: "allocated h = insert (unat a, n) (set (blocks ?KB us) \<union> set (blocks (?KB + sizes us + unat (rsize r)) vs))"
      using rl by (auto simp: allocated_def)
    have "0 < n" using h(4) rl(1,4) by simp
    then have "(unat a, n) \<notin> set (blocks ?KB us) \<union> set (blocks (?KB + sizes us + unat (rsize r)) vs)"
      using blocks_bounds [of "unat a" n ?KB us] blocks_bounds [of "unat a" n _ vs] rl(3,4) by fastforce
    then show ?thesis using A A2 by auto
  qed
  ultimately show ?thesis using run m1(6) m2(6) env
    by (intro exI [of _ h2]) (simp add: same_env_def)
qed

lemma align_up_idem: "alignment_ok al \<Longrightarrow> unat sz < 2 ^ 62 \<Longrightarrow> align_up (align_up sz al) al = align_up sz al"
proof (cases "al = 0")
  case False
  assume al: "alignment_ok al" and sz: "unat sz < 2 ^ 62"
  then obtain k where k: "k \<le> 14" "al = 2 ^ k" using False by (auto simp: alignment_ok_def)
  let ?s = "align_up sz al"
  have le: "(2::nat) ^ k \<le> 2 ^ 14" using k(1) by (intro power_increasing) simp_all
  have ual: "unat al = 2 ^ k" using k le unat_of_nat_64 [of "2 ^ k"] by simp
  have b: "unat ?s < unat sz + 2 ^ 14" "unat ?s mod 2 ^ k = 0"
    using align_add [OF al sz] False by (simp_all add: ual)
  have "unat (align_up ?s (2 ^ k)) = (unat ?s + (2 ^ k - 1)) div 2 ^ k * 2 ^ k"
    by (rule align_up_pow2) (use k b(1) sz le in simp_all)
  also have "\<dots> = unat ?s"
  proof -
    obtain q where q: "unat ?s = 2 ^ k * q"
      using mult_div_mod_eq [of "2 ^ k" "unat ?s"] b(2) by (metis add_0_right)
    have "(2 ^ k * q + (2 ^ k - 1)) div 2 ^ k = q + (2 ^ k - 1) div 2 ^ k"
      by (rule div_mult_self4) simp
    then have "(2 ^ k * q + (2 ^ k - 1)) div 2 ^ k = q" by simp
    then show ?thesis by (simp add: q mult.commute)
  qed
  finally show ?thesis by (simp add: k(2) word_unat_eq_iff)
qed simp

subsection \<open>Properties\<close>

text \<open>
  C1: with room in the table and in the address space, \<open>kmalloc\<close> of a positive size returns after
  at most one growth of the heap. It returns null and the allocated blocks are as before, or the
  address of a block of exactly the requested size, which is inside the heap, overlaps no block
  allocated before, and is the only block that is allocated in addition. The heap stays sound.
\<close>

theorem kmalloc_correct:
  assumes "heap_ok h" and "heap_room h (unat sz)" and "0 < unat sz"
  shows "\<exists>a h'. kmalloc wpage w64k (Suc (Suc fuel)) h sz = Some (a, h') \<and> heap_ok h' \<and>
    (a = 0 \<and> allocated h' = allocated h \<or>
     a \<noteq> 0 \<and> allocated h' = insert (unat a, unat sz) (allocated h) \<and>
     (\<forall>(b, n) \<in> allocated h. unat a + unat sz \<le> b \<or> b + n \<le> unat a) \<and>
     unat KHEAP_BEGIN \<le> unat a \<and> unat a + unat sz \<le> unat KHEAP_BEGIN + unat (heap_size h'))"
  using kmalloc_imp_spec [OF assms(1,2) _ _ _ assms(3), of 0 wpage w64k fuel]
  by (simp add: kmalloc_def alloc_result_def allocates_def alignment_ok_def)

text \<open>
  An aligned allocation, for an alignment that is a power of two up to 16 KB and that is not
  one of the flag values, returns null or an address that is a multiple of the alignment, of a
  block at least as large as requested that overlaps no block allocated before.
\<close>

theorem kmalloc_aligned:
  assumes "heap_ok h" and "heap_room h (unat sz + 2 ^ 14)" and "0 < unat sz" and "k \<le> 14"
    and "al = 2 ^ k" and "al AND wpage = 0" and "al AND w64k = 0"
  shows "\<exists>a h'. kmalloc_a wpage w64k (Suc (Suc fuel)) h sz al = Some (a, h') \<and> heap_ok h' \<and>
    (a = 0 \<and> allocated h' = allocated h \<or>
     a \<noteq> 0 \<and> unat a mod 2 ^ k = 0 \<and>
     (\<exists>n \<ge> unat sz. allocated h' = insert (unat a, n) (allocated h) \<and>
       (\<forall>(b, m) \<in> allocated h. unat a + n \<le> b \<or> b + m \<le> unat a)))"
proof -
  let ?s = "align_up sz al"
  have al: "alignment_ok al" using assms(4,5) by (auto simp: alignment_ok_def)
  have sz: "unat sz < 2 ^ 62" using assms(2) by (simp add: heap_room_def)
  have le: "(2::nat) ^ k \<le> 2 ^ 14" using assms(4) by (intro power_increasing) simp_all
  have ual: "unat al = 2 ^ k" using assms(5) le unat_of_nat_64 [of "2 ^ k"] by simp
  then have nz: "al \<noteq> 0" by auto
  have s: "unat ?s = unat sz + unat (?s - sz)" "unat (?s - sz) < 2 ^ 14" using align_add [OF al sz] by blast+
  have idem: "align_up ?s al = ?s" by (rule align_up_idem [OF al sz])
  have "kmalloc_imp wpage w64k (Suc (Suc fuel)) h sz al = kmalloc_imp wpage w64k (Suc (Suc fuel)) h ?s al"
    by (simp only: kmalloc_imp.simps(2) [of _ _ "Suc fuel"] Let_def mask_alignment [OF al] idem)
      (use assms(1) in \<open>simp add: heap_ok_def\<close>)
  moreover have "heap_room h (unat ?s)" using assms(2) s by (simp add: heap_room_def)
  then obtain a h' where r: "kmalloc_imp wpage w64k (Suc (Suc fuel)) h ?s al = Some (a, h')"
      "alloc_result h ?s al a h'"
    using kmalloc_imp_spec [OF assms(1) _ al assms(6,7) _ idem, of fuel] s(1) assms(3) by auto
  ultimately have run: "kmalloc_a wpage w64k (Suc (Suc fuel)) h sz al = Some (a, h')"
    by (simp only: kmalloc_a_def)
  from r(2) have ok: "heap_ok h'" by (simp add: alloc_result_def)
  consider "a = 0" "allocated h' = allocated h" | n where "allocates h a (unat ?s) h' n" "unat a mod 2 ^ k = 0"
    using r(2) nz by (auto simp: alloc_result_def ual)
  then show ?thesis
  proof cases
    case 2
    then have "a \<noteq> 0" "unat sz \<le> n" "allocated h' = insert (unat a, n) (allocated h)"
      "\<forall>(b, m) \<in> allocated h. unat a + n \<le> b \<or> b + m \<le> unat a"
      using s(1) by (auto simp: allocates_def)
    then have "\<exists>n \<ge> unat sz. allocated h' = insert (unat a, n) (allocated h) \<and>
        (\<forall>(b, m) \<in> allocated h. unat a + n \<le> b \<or> b + m \<le> unat a)"
      by (intro exI [of _ n] conjI)
    then show ?thesis using run ok 2(2) \<open>a \<noteq> 0\<close> by (intro exI [of _ a] exI [of _ h']) simp
  qed (use run ok in \<open>intro exI [of _ a] exI [of _ h'], simp\<close>)
qed

text \<open>
  C9: freeing an allocated block removes exactly that block from the allocated ones and keeps the
  heap sound: the tiling has no gap and no two free neighbours. The table must be at most half
  full, since the move of the table in \<open>kfree_imp\<close> copies too many elements.
\<close>

theorem kfree_correct:
  assumes "heap_ok h" and "(unat a, n) \<in> allocated h" and "2 * region_count h \<le> region_max_count h"
  shows "\<exists>h'. kfree h a = Some h' \<and> heap_ok h' \<and> allocated h' = allocated h - {(unat a, n)} \<and>
    heap_size h' = heap_size h \<and> region_count h' \<le> region_count h"
  using kfree_spec [OF assms] by blast

text \<open>
  \<open>kfree\<close> undoes \<open>kmalloc\<close>: after allocating a block and freeing it the allocated blocks are
  those from before.
\<close>

theorem kmalloc_kfree_roundtrip:
  assumes "heap_ok h" and "heap_room h (unat sz)" and "0 < unat sz"
    and "kmalloc wpage w64k (Suc (Suc fuel)) h sz = Some (a, h')" and "a \<noteq> 0"
    and "2 * region_count h' \<le> region_max_count h'"
  shows "\<exists>h''. kfree h' a = Some h'' \<and> heap_ok h'' \<and> allocated h'' = allocated h"
proof -
  have "alloc_result h sz 0 a h'"
    using kmalloc_imp_spec [OF assms(1,2) _ _ _ assms(3), of 0 wpage w64k fuel] assms(4)
    by (auto simp: kmalloc_def alignment_ok_def)
  then have r: "heap_ok h'" "allocated h' = insert (unat a, unat sz) (allocated h)"
    "\<forall>(b, n) \<in> allocated h. unat a + unat sz \<le> b \<or> b + n \<le> unat a"
    using assms(5) by (auto simp: alloc_result_def allocates_def)
  then have "(unat a, unat sz) \<notin> allocated h" using assms(3) by fastforce
  then show ?thesis using kfree_spec [OF r(1) _ assms(6), of a "unat sz"] r(2) by auto
qed

text \<open>From the static initial state \<open>kheap_init\<close> is defined and gives a sound empty heap.\<close>

theorem kheap_init_ok:
  assumes "vm_sound vm"
  shows "\<exists>h. kheap_init junk (kheap_static vm) = Some h \<and> heap_ok h \<and> allocated h = {} \<and>
    region_max_count h = 131072 \<and> heap_room h (2 ^ 28)"
proof -
  have pages: "vm_sound s \<Longrightarrow> \<exists>s'. init_pages n v s = Some s' \<and> vm_sound s'" for n v s
  proof (induction n arbitrary: v s)
    case (Suc n)
    obtain f s1 where a: "vm_alloc_block s = Some (f, s1)" "vm_sound s1"
      using vmm.alloc_total [OF Suc.prems] vmm.alloc_ok [OF Suc.prems] by blast
    obtain r s2 where m: "virt_mem_map_page s1 f v VIRT_MEM_WRITABLE = Some (r, s2)" "vm_sound s2"
      using vmm.map_spec [OF a(2)] by blast
    show ?case using Suc.IH [OF m(2), of "v + PAGE_SIZE"] a m by auto
  qed simp
  obtain vm' where "init_pages 512 PLACEMENT_BEGIN vm = Some vm'" "vm_sound vm'" using pages [OF assms] by blast
  moreover have "pmalloc (kheap_static vm) 0 0 = PLACEMENT_BEGIN"
    by (simp add: pmalloc_def kheap_static_def align_up_def)
  ultimately show ?thesis
    by (simp add: kheap_init_def kheap_static_def heap_ok_def rlist_def allocated_def heap_room_def del: upt_Suc upt.simps)
qed

definition heap_example :: kheap where
  "heap_example = (kheap_static vm_example)\<lparr>regions := PLACEMENT_BEGIN, region_max_count := 16,
     region_table := \<lparr>res = True, rsize = 64, rnumber = 0\<rparr> # \<lparr>res = False, rsize = 1000, rnumber = 0\<rparr> #
       replicate 14 \<lparr>res = False, rsize = 0, rnumber = 0\<rparr>,
     region_count := 2, heap_size := 1064\<rparr>"

lemma heap_example_ok: "heap_ok heap_example" "allocated heap_example = {(unat KHEAP_BEGIN, 64)}"
proof -
  have "vm_sound vm_example" using vm_example_ok by (simp add: vm_sound_def vm_example_def)
  then show "heap_ok heap_example" "allocated heap_example = {(unat KHEAP_BEGIN, 64)}"
    by (simp_all add: heap_ok_def heap_example_def kheap_static_def rlist_def allocated_def)
qed

lemma heap_example_room: "n \<le> 1000000 \<Longrightarrow> heap_room heap_example n"
  by (simp add: heap_room_def heap_example_def kheap_static_def)

theorem kmalloc_correct_witness:
  "\<exists>a h'. kmalloc 0 0 (Suc (Suc 0)) heap_example 100 = Some (a, h') \<and> heap_ok h'"
proof -
  have "heap_room heap_example (unat (100 :: u64))" by (rule heap_example_room) simp
  from kmalloc_correct [OF heap_example_ok(1) this, of 0 0 0] show ?thesis by auto
qed

theorem kmalloc_aligned_witness:
  "\<exists>a h'. kmalloc_a 0 0 (Suc (Suc 0)) heap_example 100 256 = Some (a, h') \<and> heap_ok h' \<and> unat a mod 256 = 0"
proof -
  have "heap_room heap_example (unat (100 :: u64) + 2 ^ 14)" by (rule heap_example_room) simp
  moreover have "map_option fst (kmalloc_a 0 0 (Suc (Suc 0)) heap_example 100 256) = Some 0xFD0200100" by code_simp
  ultimately show ?thesis using kmalloc_aligned [OF heap_example_ok(1), of 100 8 256 0 0 0] by auto
qed

theorem kfree_correct_witness:
  "\<exists>h'. kfree heap_example KHEAP_BEGIN = Some h' \<and> allocated h' = {}"
proof -
  have "2 * region_count heap_example \<le> region_max_count heap_example"
    by (simp add: heap_example_def)
  then show ?thesis
    using kfree_correct [OF heap_example_ok(1), of KHEAP_BEGIN 64] by (auto simp: heap_example_ok(2))
qed

theorem kmalloc_kfree_roundtrip_witness:
  "\<exists>a h' h''. kmalloc 0 0 (Suc (Suc 0)) heap_example 100 = Some (a, h') \<and> kfree h' a = Some h'' \<and>
     allocated h'' = {(unat KHEAP_BEGIN, 64)}"
proof -
  have ev: "map_option (\<lambda>(a, h'). (a, region_count h', region_max_count h')) (kmalloc 0 0 (Suc (Suc 0)) heap_example 100)
      = Some (KHEAP_BEGIN + 64, 3, 16)" by code_simp
  obtain h' where k: "kmalloc 0 0 (Suc (Suc 0)) heap_example 100 = Some (KHEAP_BEGIN + 64, h')"
      "region_count h' = 3" "region_max_count h' = 16" using ev by auto
  have r: "heap_room heap_example (unat (100 :: u64))" by (rule heap_example_room) simp
  show ?thesis
    using kmalloc_kfree_roundtrip [OF heap_example_ok(1) r _ k(1)] k heap_example_ok(2) by auto
qed

theorem kheap_init_ok_witness:
  "\<exists>h. kheap_init (\<lambda>_. \<lparr>res = False, rsize = 0, rnumber = 0\<rparr>) (kheap_static vm_example) = Some h \<and> heap_ok h"
proof -
  have "vm_sound vm_example" using vm_example_ok by (simp add: vm_sound_def vm_example_def)
  from kheap_init_ok [OF this] show ?thesis by blast
qed

end
