(* ===== verification/Mpint.thy ===== *)
theory Mpint
  imports OS6_Prelude
begin

text \<open>
  Multiple precision integers, kernel/src/crypto/mpint/mpint.c: the operations.

  An \<open>mpint_t\<close> is the record \<open>mpint\<close>: the sign and the words its data pointer leads to, least
  significant first; \<open>size\<close> is the length of the list, and a null pointer is the empty list. The
  operations take pointers and may be called with the same object twice, so an object is
  addressed by a number, and \<open>mstore\<close> maps numbers to objects. The local variables of a call live
  at the numbers from \<open>sp\<close> on (\<open>enter\<close>, \<open>leave\<close>). \<open>alloc_ok n\<close> says whether \<open>crypto_malloc\<close> gives
  an array of \<open>n\<close> words.

  An operation returns its error code and the new store, or \<open>None\<close> when it reads or writes
  outside an array. Operations that only read take the objects themselves.
\<close>

unbundle bit_operations_syntax

subsection \<open>Objects\<close>

record mpint =
  msign :: int
  mdata :: "u32 list"

record mstore =
  obj :: "nat \<Rightarrow> mpint"
  sp :: nat
  alloc_ok :: "nat \<Rightarrow> bool"

definition get_data :: "mstore \<Rightarrow> nat \<Rightarrow> u32 list" where
  "get_data st x = mdata (obj st x)"

definition set_data :: "mstore \<Rightarrow> nat \<Rightarrow> u32 list \<Rightarrow> mstore" where
  "set_data st x ds = st\<lparr>obj := (obj st)(x := (obj st x)\<lparr>mdata := ds\<rparr>)\<rparr>"

definition set_sign :: "mstore \<Rightarrow> nat \<Rightarrow> int \<Rightarrow> mstore" where
  "set_sign st x s = st\<lparr>obj := (obj st)(x := (obj st x)\<lparr>msign := s\<rparr>)\<rparr>"

definition get_word :: "mstore \<Rightarrow> nat \<Rightarrow> nat \<Rightarrow> u32 option" where
  "get_word st x i = idx (get_data st x) i"

definition set_word :: "mstore \<Rightarrow> nat \<Rightarrow> nat \<Rightarrow> u32 \<Rightarrow> mstore option" where
  "set_word st x i v = map_option (set_data st x) (upd (get_data st x) i v)"

definition clear_data :: "mstore \<Rightarrow> nat \<Rightarrow> mstore" where
  "clear_data st x = set_data st x (replicate (length (get_data st x)) 0)"

definition mpint_init :: mpint where
  "mpint_init = \<lparr>msign = 1, mdata = []\<rparr>"

definition mpint_free :: "mstore \<Rightarrow> nat \<Rightarrow> mstore" where
  "mpint_free st x = st\<lparr>obj := (obj st)(x := mpint_init)\<rparr>"

definition enter :: "nat \<Rightarrow> mstore \<Rightarrow> mstore" where
  "enter k st = st\<lparr>sp := sp st + k,
     obj := \<lambda>i. if sp st \<le> i \<and> i < sp st + k then mpint_init else obj st i\<rparr>"

definition leave :: "nat \<Rightarrow> mstore \<Rightarrow> mstore" where
  "leave k st = st\<lparr>sp := sp st - k,
     obj := \<lambda>i. if sp st - k \<le> i \<and> i < sp st then mpint_init else obj st i\<rparr>"

text \<open>Steps under \<open>MPINT_GOTO_ON_ERROR\<close>: the first error ends the sequence.\<close>

fun steps :: "(mstore \<Rightarrow> (int \<times> mstore) option) list \<Rightarrow> mstore \<Rightarrow> (int \<times> mstore) option" where
  "steps [] st = Some (0, st)"
| "steps (f # fs) st = do { (e, st) \<leftarrow> f st; if e \<noteq> 0 then Some (e, st) else steps fs st }"

definition with_locals ::
    "nat \<Rightarrow> (mstore \<Rightarrow> (int \<times> mstore) option) \<Rightarrow> mstore \<Rightarrow> (int \<times> mstore) option" where
  "with_locals k f st = do { (e, st) \<leftarrow> f (enter k st); Some (e, leave k st) }"

text \<open>The local \<open>t\<close> of the \<open>_int\<close> variants: one word on the stack.\<close>

definition mp_abs :: "int \<Rightarrow> u32" where
  "mp_abs b = word_of_int (if 0 \<le> b then b else - b)"

definition mp_sign :: "int \<Rightarrow> int" where
  "mp_sign b = (if 0 \<le> b then 1 else -1)"

definition int_mpint :: "int \<Rightarrow> mpint" where
  "int_mpint b = \<lparr>msign = mp_sign b, mdata = [mp_abs b]\<rparr>"

definition with_int ::
    "int \<Rightarrow> (nat \<Rightarrow> mstore \<Rightarrow> (int \<times> mstore) option) \<Rightarrow> mstore \<Rightarrow> (int \<times> mstore) option" where
  "with_int b f st =
     (let t = sp st in with_locals 1 (\<lambda>st. f t (st\<lparr>obj := (obj st)(t := int_mpint b)\<rparr>)) st)"

subsection \<open>Lengths, bits and comparison\<close>

fun top_nonzero :: "u32 list \<Rightarrow> nat \<Rightarrow> nat" where
  "top_nonzero ds 0 = 0"
| "top_nonzero ds (Suc i) = (if ds ! i \<noteq> 0 then Suc i else top_nonzero ds i)"

definition mpint_get_length :: "mpint \<Rightarrow> nat" where
  "mpint_get_length a = top_nonzero (mdata a) (length (mdata a))"

text \<open>The loops \<open>for (; top_word != 0; top_word >>= s) ++n\<close>.\<close>

function shift_count :: "nat \<Rightarrow> u32 \<Rightarrow> nat" where
  "shift_count s w = (if w = 0 \<or> s = 0 then 0 else Suc (shift_count s (drop_bit s w)))"
  by pat_completeness auto
termination
proof (relation "measure (\<lambda>(s, w). unat w)")
  fix s :: nat and w :: u32
  assume "\<not> (w = 0 \<or> s = 0)"
  then have w: "0 < unat w" and s: "0 < s" by (auto simp: unat_gt_0)
  have "1 < (2::nat) ^ s" using s one_less_power [of "2::nat" s] by simp
  then have "unat w div 2 ^ s < unat w" using w by (rule div_less_dividend)
  moreover have "unat (drop_bit s w) = unat w div 2 ^ s"
    by (simp only: unat_drop_bit_eq) (simp only: drop_bit_eq_div)
  ultimately show "((s, drop_bit s w), s, w) \<in> measure (\<lambda>(s, w). unat w)"
    by (simp only: in_measure prod.case)
qed simp

declare shift_count.simps [simp del]

definition mpint_get_bit_length :: "mpint \<Rightarrow> nat" where
  "mpint_get_bit_length a =
     (if mdata a = [] then 0
      else let wc = top_nonzero (mdata a) (length (mdata a)) - 1
           in wc * 32 + shift_count 1 (mdata a ! wc))"

definition mpint_get_byte_length :: "mpint \<Rightarrow> nat" where
  "mpint_get_byte_length a =
     (if mdata a = [] then 0
      else let wc = top_nonzero (mdata a) (length (mdata a)) - 1
           in wc * 4 + shift_count 8 (mdata a ! wc))"

definition mpint_get_bit_value :: "mpint \<Rightarrow> nat \<Rightarrow> u32" where
  "mpint_get_bit_value a i =
     (if length (mdata a) \<le> i div 32 then 0 else drop_bit (i mod 32) (mdata a ! (i div 32)) AND 1)"

fun comp_words :: "u32 list \<Rightarrow> u32 list \<Rightarrow> nat \<Rightarrow> int" where
  "comp_words as bs 0 = 0"
| "comp_words as bs (Suc n) =
     (if bs ! n < as ! n then 1 else if as ! n < bs ! n then -1 else comp_words as bs n)"

definition mpint_comp_abs :: "mpint \<Rightarrow> mpint \<Rightarrow> int" where
  "mpint_comp_abs a b =
     (let m = mpint_get_length a; n = mpint_get_length b in
      if m = 0 \<and> n = 0 then 0
      else if n < m then 1
      else if m < n then -1
      else comp_words (mdata a) (mdata b) n)"

definition mpint_comp :: "mpint \<Rightarrow> mpint \<Rightarrow> int" where
  "mpint_comp a b =
     (let a_len = mpint_get_length a; b_len = mpint_get_length b in
      if a_len = 0 \<and> b_len = 0 then 0
      else if b_len < a_len then msign a
      else if a_len < b_len then - msign b
      else if 0 < msign a \<and> msign b < 0 then 1
      else if msign a < 0 \<and> 0 < msign b then -1
      else let c = comp_words (mdata a) (mdata b) b_len
           in if c = 1 then msign a else if c = -1 then - msign a else 0)"

definition mpint_comp_int :: "mpint \<Rightarrow> int \<Rightarrow> int" where
  "mpint_comp_int a b = mpint_comp a (int_mpint b)"

subsection \<open>Storage\<close>

definition mpint_grow :: "nat \<Rightarrow> nat \<Rightarrow> mstore \<Rightarrow> (int \<times> mstore) option" where
  "mpint_grow x new_size st =
     (let n = max 1 new_size; ds = get_data st x in
      if n \<le> length ds then Some (0, st)
      else if \<not> alloc_ok st n then Some (-1, st)
      else Some (0, set_data st x (ds @ replicate (n - length ds) 0)))"

definition mpint_copy :: "nat \<Rightarrow> nat \<Rightarrow> mstore \<Rightarrow> (int \<times> mstore) option" where
  "mpint_copy dest src st =
     (if dest = src then Some (0, st)
      else do {
        let src_len = mpint_get_length (obj st src);
        (error, st) \<leftarrow> mpint_grow dest src_len st;
        if error \<noteq> 0 then Some (error, st)
        else if length (get_data st src) < length (get_data st dest) then None
        else let n = length (get_data st dest);
                 st = set_data st dest (take n (get_data st src))
             in Some (0, set_sign st dest (msign (obj st src)))
      })"

definition mpint_set_value :: "nat \<Rightarrow> int \<Rightarrow> mstore \<Rightarrow> (int \<times> mstore) option" where
  "mpint_set_value r a st = do {
     (error, st) \<leftarrow> mpint_grow r 1 st;
     if error \<noteq> 0 then Some (error, st)
     else do {
       st \<leftarrow> set_word (clear_data st r) r 0 (mp_abs a);
       Some (0, set_sign st r (mp_sign a))
     }
   }"

definition mpint_set_bit_value :: "nat \<Rightarrow> nat \<Rightarrow> u32 \<Rightarrow> mstore \<Rightarrow> (int \<times> mstore) option" where
  "mpint_set_bit_value r i v st = do {
     (error, st) \<leftarrow> mpint_grow r (i div 32 + 1) st;
     if error \<noteq> 0 then Some (error, st)
     else do {
       w \<leftarrow> get_word st r (i div 32);
       st \<leftarrow> set_word st r (i div 32)
               (if v \<noteq> 0 then w OR push_bit (i mod 32) 1 else w AND NOT (push_bit (i mod 32) 1));
       Some (0, st)
     }
   }"

definition mpint_swap :: "nat \<Rightarrow> nat \<Rightarrow> mstore \<Rightarrow> mstore" where
  "mpint_swap a b st = st"

text \<open>\<open>read c n\<close> is the generator: an error code, \<open>n\<close> words and its new context.\<close>

definition mpint_rand ::
    "('c \<Rightarrow> nat \<Rightarrow> int \<times> u32 list \<times> 'c) \<Rightarrow> nat \<Rightarrow> nat \<Rightarrow> 'c \<Rightarrow> mstore \<Rightarrow> (int \<times> 'c \<times> mstore) option"
  where
  "mpint_rand read r len c st = do {
     let n = (len + 32 - 1) div 32;
     let m = len mod 32;
     (error, st) \<leftarrow> mpint_grow r n st;
     if error \<noteq> 0 then Some (error, c, st)
     else do {
       let st = set_sign (clear_data st r) r 1;
       let (error, ws, c) = read c n;
       let st = set_data st r (take n ws @ drop n (get_data st r));
       if error \<noteq> 0 then Some (error, c, st)
       else if 0 < n \<and> 0 < m then do {
         w \<leftarrow> get_word st r (n - 1);
         st \<leftarrow> set_word st r (n - 1) (w AND mask m);
         Some (0, c, st)
       }
       else Some (0, c, st)
     }
   }"

subsection \<open>Addition and subtraction\<close>

fun add_words :: "nat \<Rightarrow> nat \<Rightarrow> nat \<Rightarrow> nat \<Rightarrow> u32 \<Rightarrow> mstore \<Rightarrow> (u32 \<times> mstore) option" where
  "add_words r b i 0 carry st = Some (carry, st)"
| "add_words r b i (Suc n) carry st = do {
     x \<leftarrow> get_word st r i;
     y \<leftarrow> get_word st b i;
     let temp = x + carry;
     let carry = (if temp \<noteq> 0 then 0 else carry);
     let temp = temp + y;
     let carry = (if temp < y then 1 else carry);
     st \<leftarrow> set_word st r i temp;
     add_words r b (Suc i) n carry st
   }"

fun add_carry :: "nat \<Rightarrow> nat \<Rightarrow> nat \<Rightarrow> u32 \<Rightarrow> mstore \<Rightarrow> (u32 \<times> mstore) option" where
  "add_carry r i 0 carry st = Some (carry, st)"
| "add_carry r i (Suc n) carry st =
     (if carry = 0 then Some (carry, st)
      else do {
        x \<leftarrow> get_word st r i;
        st \<leftarrow> set_word st r i (x + carry);
        add_carry r (Suc i) n (if x + carry \<noteq> 0 then 0 else carry) st
      })"

text \<open>The body of \<open>mpint_add_abs\<close> once \<open>r\<close> holds \<open>a\<close>.\<close>

definition add_in_place :: "nat \<Rightarrow> nat \<Rightarrow> mstore \<Rightarrow> (int \<times> mstore) option" where
  "add_in_place r b st = do {
     let b_len = mpint_get_length (obj st b);
     (error, st) \<leftarrow> mpint_grow r b_len st;
     if error \<noteq> 0 then Some (error, st)
     else do {
       (carry, st) \<leftarrow> add_words r b 0 b_len 0 (set_sign st r 1);
       let size = length (get_data st r);
       (carry, st) \<leftarrow> add_carry r b_len (size - b_len) carry st;
       if carry \<noteq> 0 \<and> size \<le> b_len then do {
         (error, st) \<leftarrow> mpint_grow r (b_len + 1) st;
         if error \<noteq> 0 then Some (error, st)
         else do { st \<leftarrow> set_word st r b_len 1; Some (0, st) }
       }
       else Some (0, st)
     }
   }"

definition mpint_add_abs :: "nat \<Rightarrow> nat \<Rightarrow> nat \<Rightarrow> mstore \<Rightarrow> (int \<times> mstore) option" where
  "mpint_add_abs r a b =
     (if r = b then add_in_place r a
      else if r \<noteq> a then steps [mpint_copy r a, add_in_place r b]
      else add_in_place r b)"

fun sub_words :: "nat \<Rightarrow> nat \<Rightarrow> nat \<Rightarrow> nat \<Rightarrow> nat \<Rightarrow> u32 \<Rightarrow> mstore \<Rightarrow> (u32 \<times> mstore) option" where
  "sub_words r a b i 0 carry st = Some (carry, st)"
| "sub_words r a b i (Suc n) carry st = do {
     x \<leftarrow> get_word st a i;
     y \<leftarrow> get_word st b i;
     let temp = (if carry \<noteq> 0 then x - 1 else x);
     let carry = (if carry \<noteq> 0 \<and> x \<noteq> 0 then 0 else carry);
     let carry = (if temp < y then 1 else carry);
     st \<leftarrow> set_word st r i (temp - y);
     sub_words r a b (Suc i) n carry st
   }"

text \<open>The borrow is passed on from word \<open>i\<close>; the result is the index where the loop stops.\<close>

fun sub_borrow :: "nat \<Rightarrow> nat \<Rightarrow> nat \<Rightarrow> nat \<Rightarrow> u32 \<Rightarrow> mstore \<Rightarrow> (nat \<times> mstore) option" where
  "sub_borrow r a i 0 carry st = Some (i, st)"
| "sub_borrow r a i (Suc n) carry st =
     (if carry = 0 then Some (i, st)
      else do {
        x \<leftarrow> get_word st a i;
        st \<leftarrow> set_word st r i (x - 1);
        sub_borrow r a (Suc i) n (if x \<noteq> 0 then 0 else carry) st
      })"

definition sub_ordered :: "nat \<Rightarrow> nat \<Rightarrow> nat \<Rightarrow> mstore \<Rightarrow> (int \<times> mstore) option" where
  "sub_ordered r a b st = do {
     let a_len = mpint_get_length (obj st a);
     let b_len = mpint_get_length (obj st b);
     (error, st) \<leftarrow> mpint_grow r a_len st;
     if error \<noteq> 0 then Some (error, st)
     else do {
       (carry, st) \<leftarrow> sub_words r a b 0 b_len 0 (set_sign st r 1);
       (i, st) \<leftarrow> sub_borrow r a b_len (a_len - b_len) carry st;
       if r = a then Some (0, st)
       else do {
         st \<leftarrow> for_each (\<lambda>j st. do { w \<leftarrow> get_word st a j; set_word st r j w }) [i..<a_len] st;
         st \<leftarrow> for_each (\<lambda>j st. set_word st r j 0) [a_len..<length (get_data st r)] st;
         Some (0, st)
       }
     }
   }"

definition mpint_sub_abs :: "nat \<Rightarrow> nat \<Rightarrow> nat \<Rightarrow> mstore \<Rightarrow> (int \<times> mstore) option" where
  "mpint_sub_abs r a b st =
     (if mpint_comp_abs (obj st a) (obj st b) < 0 then sub_ordered r b a st else sub_ordered r a b st)"

definition mpint_add :: "nat \<Rightarrow> nat \<Rightarrow> nat \<Rightarrow> mstore \<Rightarrow> (int \<times> mstore) option" where
  "mpint_add r a b st = (let sign = msign (obj st a) in
     if msign (obj st a) = msign (obj st b) then do {
       (error, st) \<leftarrow> mpint_add_abs r a b st; Some (error, set_sign st r sign) }
     else if 0 \<le> mpint_comp_abs (obj st a) (obj st b) then do {
       (error, st) \<leftarrow> mpint_sub_abs r a b st; Some (error, set_sign st r sign) }
     else do {
       (error, st) \<leftarrow> mpint_sub_abs r b a st; Some (error, set_sign st r (- sign)) })"

definition mpint_sub :: "nat \<Rightarrow> nat \<Rightarrow> nat \<Rightarrow> mstore \<Rightarrow> (int \<times> mstore) option" where
  "mpint_sub r a b st = (let sign = msign (obj st a) in
     if msign (obj st a) = msign (obj st b) then
       (if 0 \<le> mpint_comp_abs (obj st a) (obj st b) then do {
          (error, st) \<leftarrow> mpint_sub_abs r a b st; Some (error, set_sign st r sign) }
        else do {
          (error, st) \<leftarrow> mpint_sub_abs r b a st; Some (error, set_sign st r (- sign)) })
     else do {
       (error, st) \<leftarrow> mpint_add_abs r a b st; Some (error, set_sign st r sign) })"

definition mpint_add_int :: "nat \<Rightarrow> nat \<Rightarrow> int \<Rightarrow> mstore \<Rightarrow> (int \<times> mstore) option" where
  "mpint_add_int r a b = with_int b (\<lambda>t. mpint_add r a t)"

definition mpint_sub_int :: "nat \<Rightarrow> nat \<Rightarrow> int \<Rightarrow> mstore \<Rightarrow> (int \<times> mstore) option" where
  "mpint_sub_int r a b = with_int b (\<lambda>t. mpint_sub r a t)"

subsection \<open>Shifts\<close>

definition shift_words_up :: "nat \<Rightarrow> nat \<Rightarrow> mstore \<Rightarrow> mstore option" where
  "shift_words_up r k st = do {
     st \<leftarrow> for_each (\<lambda>i st. do { w \<leftarrow> get_word st r (i - k); set_word st r i w })
             (rev [k..<length (get_data st r)]) st;
     for_each (\<lambda>i st. set_word st r i 0) [0..<k] st
   }"

definition shift_bits_up :: "nat \<Rightarrow> nat \<Rightarrow> mstore \<Rightarrow> mstore option" where
  "shift_bits_up r k st = do {
     st \<leftarrow> for_each (\<lambda>i st. do {
              w \<leftarrow> get_word st r i;
              v \<leftarrow> get_word st r (i - 1);
              set_word st r i (push_bit k w OR drop_bit (32 - k) v)
            }) (rev [1..<length (get_data st r)]) st;
     w \<leftarrow> get_word st r 0;
     set_word st r 0 (push_bit k w)
   }"

definition mpint_shift_left :: "nat \<Rightarrow> nat \<Rightarrow> mstore \<Rightarrow> (int \<times> mstore) option" where
  "mpint_shift_left r n st =
     (if get_data st r = [] \<or> n = 0 then Some (0, st)
      else do {
        (error, st) \<leftarrow> mpint_grow r (length (get_data st r) + (n + 31) div 32) st;
        if error \<noteq> 0 then Some (error, st)
        else do {
          st \<leftarrow> (if 0 < n div 32 then shift_words_up r (n div 32) st else Some st);
          st \<leftarrow> (if 0 < n mod 32 then shift_bits_up r (n mod 32) st else Some st);
          Some (0, st)
        }
      })"

definition shift_words_down :: "nat \<Rightarrow> nat \<Rightarrow> mstore \<Rightarrow> mstore option" where
  "shift_words_down r k st = (let m = length (get_data st r) - k in do {
     st \<leftarrow> for_each (\<lambda>i st. do { w \<leftarrow> get_word st r (i + k); set_word st r i w }) [0..<m] st;
     for_each (\<lambda>i st. set_word st r i 0) [m..<length (get_data st r)] st
   })"

definition shift_bits_down :: "nat \<Rightarrow> nat \<Rightarrow> nat \<Rightarrow> mstore \<Rightarrow> mstore option" where
  "shift_bits_down r m k st = do {
     st \<leftarrow> for_each (\<lambda>i st. do {
              w \<leftarrow> get_word st r i;
              v \<leftarrow> get_word st r (i + 1);
              set_word st r i (drop_bit k w OR push_bit (32 - k) v)
            }) [0..<m] st;
     w \<leftarrow> get_word st r m;
     set_word st r m (drop_bit k w)
   }"

definition mpint_shift_right :: "nat \<Rightarrow> nat \<Rightarrow> mstore \<Rightarrow> (int \<times> mstore) option" where
  "mpint_shift_right r n st = (let size = length (get_data st r) in
     if size \<le> n div 32 then Some (0, clear_data st r)
     else do {
       st \<leftarrow> (if 0 < n div 32 then shift_words_down r (n div 32) st else Some st);
       st \<leftarrow> (if 0 < n mod 32 then shift_bits_down r (size - n div 32 - 1) (n mod 32) st else Some st);
       Some (0, st)
     })"

subsection \<open>Multiplication\<close>

text \<open>
  \<open>mpint_mul_acc_core(r + off, a, m, b)\<close>, where \<open>r\<close> points into the data of an object and \<open>a\<close> is
  the data of one. The last loop runs until the carry is zero.
\<close>

fun acc_words ::
    "nat \<Rightarrow> nat \<Rightarrow> nat \<Rightarrow> u32 \<Rightarrow> nat \<Rightarrow> nat \<Rightarrow> u32 \<Rightarrow> mstore \<Rightarrow> (u32 \<times> mstore) option" where
  "acc_words r off a b i 0 carry st = Some (carry, st)"
| "acc_words r off a b i (Suc n) carry st = do {
     x \<leftarrow> get_word st a i;
     let product = (ucast x :: u64) * ucast b;
     let lower = (ucast product :: u32);
     let upper = (ucast (drop_bit 32 product) :: u32);
     let lower = lower + carry;
     let upper = (if lower < carry then upper + 1 else upper);
     y \<leftarrow> get_word st r (off + i);
     let lower = lower + y;
     let upper = (if lower < y then upper + 1 else upper);
     st \<leftarrow> set_word st r (off + i) lower;
     acc_words r off a b (Suc i) n upper st
   }"

text \<open>\<open>n\<close> words are left in the object from index \<open>i\<close> on.\<close>

fun acc_carry :: "nat \<Rightarrow> nat \<Rightarrow> nat \<Rightarrow> u32 \<Rightarrow> mstore \<Rightarrow> mstore option" where
  "acc_carry r i 0 carry st = (if carry = 0 then Some st else None)"
| "acc_carry r i (Suc n) carry st =
     (if carry = 0 then Some st
      else do {
        x \<leftarrow> get_word st r i;
        st \<leftarrow> set_word st r i (x + carry);
        acc_carry r (Suc i) n (if x + carry < carry then 1 else 0) st
      })"

definition mpint_mul_acc_core ::
    "nat \<Rightarrow> nat \<Rightarrow> nat \<Rightarrow> nat \<Rightarrow> u32 \<Rightarrow> mstore \<Rightarrow> mstore option" where
  "mpint_mul_acc_core r off a m b st = do {
     (carry, st) \<leftarrow> acc_words r off a b 0 m 0 st;
     acc_carry r (off + m) (length (get_data st r) - (off + m)) carry st
   }"

definition mul_loop :: "nat \<Rightarrow> nat \<Rightarrow> nat \<Rightarrow> nat \<Rightarrow> nat \<Rightarrow> mstore \<Rightarrow> mstore option" where
  "mul_loop r a a_len b b_len =
     for_each (\<lambda>i st. do { w \<leftarrow> get_word st b i; mpint_mul_acc_core r i a a_len w st }) [0..<b_len]"

text \<open>The body of \<open>mpint_mul\<close> once \<open>a\<close> and \<open>b\<close> are other objects than \<open>r\<close>.\<close>

definition mul_disjoint :: "nat \<Rightarrow> nat \<Rightarrow> nat \<Rightarrow> mstore \<Rightarrow> (int \<times> mstore) option" where
  "mul_disjoint r a b st = do {
     let a_len = mpint_get_length (obj st a);
     let b_len = mpint_get_length (obj st b);
     (error, st) \<leftarrow> mpint_grow r (a_len + b_len) st;
     if error \<noteq> 0 then Some (error, st)
     else do {
       let st = set_sign st r (if msign (obj st a) = msign (obj st b) then 1 else -1);
       let st = clear_data st r;
       st \<leftarrow> (if a_len < b_len then mul_loop r b b_len a a_len st else mul_loop r a a_len b b_len st);
       Some (0, st)
     }
   }"

definition mpint_mul :: "nat \<Rightarrow> nat \<Rightarrow> nat \<Rightarrow> mstore \<Rightarrow> (int \<times> mstore) option" where
  "mpint_mul r a b st =
     (let temp_a = sp st; temp_b = sp st + 1
      in with_locals 2 (steps (
           (if r = a then [mpint_copy temp_a a] else []) @
           (if r = b then [mpint_copy temp_b b] else []) @
           [mul_disjoint r (if r = a then temp_a else a) (if r = b then temp_b else b)])) st)"

definition mpint_mul_int :: "nat \<Rightarrow> nat \<Rightarrow> int \<Rightarrow> mstore \<Rightarrow> (int \<times> mstore) option" where
  "mpint_mul_int r a b = with_int b (\<lambda>t. mpint_mul r a t)"

subsection \<open>Division\<close>

text \<open>The loop of \<open>mpint_div\<close>, \<open>k\<close> rounds, on the locals \<open>c\<close>, \<open>d\<close> and \<open>e\<close>.\<close>

fun div_loop :: "nat \<Rightarrow> nat \<Rightarrow> nat \<Rightarrow> nat \<Rightarrow> mstore \<Rightarrow> (int \<times> mstore) option" where
  "div_loop c d e 0 st = Some (0, st)"
| "div_loop c d e (Suc k) st = steps [
     mpint_shift_left e 1,
     \<lambda>st. if 0 \<le> mpint_comp (obj st c) (obj st d)
          then steps [mpint_set_bit_value e 0 1, mpint_sub c c d] st else Some (0, st),
     mpint_shift_right d 1,
     div_loop c d e k] st"

text \<open>A null pointer for \<open>q\<close> or \<open>r\<close> is \<open>None\<close>.\<close>

definition mpint_div ::
    "nat option \<Rightarrow> nat option \<Rightarrow> nat \<Rightarrow> nat \<Rightarrow> mstore \<Rightarrow> (int \<times> mstore) option" where
  "mpint_div q r a b st =
     (if mpint_comp_int (obj st b) 0 = 0 then Some (-1, st)
      else let c = sp st; d = sp st + 1; e = sp st + 2 in
        with_locals 3 (steps [
          mpint_copy c a,
          mpint_copy d b,
          mpint_set_value e 0,
          \<lambda>st. let m = mpint_get_bit_length (obj st c); n = mpint_get_bit_length (obj st d) in
            steps [\<lambda>st. if n < m then mpint_shift_left d (m - n) st else Some (0, st),
                   div_loop c d e (m + 1 - n)] st,
          \<lambda>st. case q of Some x \<Rightarrow> mpint_copy x e st | None \<Rightarrow> Some (0, st),
          \<lambda>st. case r of Some x \<Rightarrow> mpint_copy x c st | None \<Rightarrow> Some (0, st)]) st)"

definition mpint_div_int ::
    "nat option \<Rightarrow> nat option \<Rightarrow> nat \<Rightarrow> int \<Rightarrow> mstore \<Rightarrow> (int \<times> mstore) option" where
  "mpint_div_int q r a b = with_int b (\<lambda>t. mpint_div q r a t)"

text \<open>The loop of \<open>mpint_mod\<close>; \<open>fuel\<close> bounds its rounds.\<close>

fun mod_loop :: "nat \<Rightarrow> nat \<Rightarrow> nat \<Rightarrow> nat \<Rightarrow> mstore \<Rightarrow> (int \<times> mstore) option" where
  "mod_loop r c p 0 st = (if 0 \<le> mpint_comp_abs (obj st r) (obj st p) then None else Some (0, st))"
| "mod_loop r c p (Suc fuel) st =
     (if 0 \<le> mpint_comp_abs (obj st r) (obj st p)
      then steps [
        \<lambda>st. if 0 \<le> mpint_comp_abs (obj st r) (obj st c) then mpint_sub_abs r r c st else Some (0, st),
        mpint_shift_right c 1,
        mod_loop r c p fuel] st
      else Some (0, st))"

definition mpint_mod :: "nat \<Rightarrow> nat \<Rightarrow> nat \<Rightarrow> nat \<Rightarrow> mstore \<Rightarrow> (int \<times> mstore) option" where
  "mpint_mod fuel r a p st =
     (if mpint_comp_int (obj st p) 0 \<le> 0 then Some (-1, st)
      else let c = sp st; sign = msign (obj st a);
               m = mpint_get_bit_length (obj st a); n = mpint_get_bit_length (obj st p) in
        with_locals 1 (steps [
          mpint_copy r a,
          \<lambda>st. if n \<le> m then steps [mpint_copy c p, mpint_shift_left c (m - n), mod_loop r c p fuel] st
               else Some (0, st),
          \<lambda>st. if sign < 0 then mpint_sub_abs r p r st else Some (0, st)]) st)"

definition mpint_add_mod :: "nat \<Rightarrow> nat \<Rightarrow> nat \<Rightarrow> nat \<Rightarrow> nat \<Rightarrow> mstore \<Rightarrow> (int \<times> mstore) option" where
  "mpint_add_mod fuel r a b p = steps [mpint_add r a b, mpint_mod fuel r r p]"

definition mpint_sub_mod :: "nat \<Rightarrow> nat \<Rightarrow> nat \<Rightarrow> nat \<Rightarrow> nat \<Rightarrow> mstore \<Rightarrow> (int \<times> mstore) option" where
  "mpint_sub_mod fuel r a b p = steps [mpint_sub r a b, mpint_mod fuel r r p]"

definition mpint_mul_mod :: "nat \<Rightarrow> nat \<Rightarrow> nat \<Rightarrow> nat \<Rightarrow> nat \<Rightarrow> mstore \<Rightarrow> (int \<times> mstore) option" where
  "mpint_mul_mod fuel r a b p = steps [mpint_mul r a b, mpint_mod fuel r r p]"

fun inv_loop :: "nat \<Rightarrow> nat \<Rightarrow> nat \<Rightarrow> mstore \<Rightarrow> (int \<times> mstore) option" where
  "inv_loop base p 0 st = None"
| "inv_loop base p (Suc fuel) st =
     (let b = base; c = base + 1; q0 = base + 2; r0 = base + 3; t = base + 4; u = base + 5; v = base + 6 in
      if mpint_comp_int (obj st c) 0 \<le> 0 then Some (0, st)
      else steps [
        mpint_div (Some q0) (Some r0) b c,
        mpint_copy b c, mpint_copy c r0,
        mpint_copy t v, mpint_mul q0 q0 q0, mpint_sub v u q0, mpint_copy u t,
        inv_loop base p fuel] st)"

definition mpint_inv_mod :: "nat \<Rightarrow> nat \<Rightarrow> nat \<Rightarrow> nat \<Rightarrow> mstore \<Rightarrow> (int \<times> mstore) option" where
  "mpint_inv_mod fuel r a p st =
     (let b = sp st; c = sp st + 1; u = sp st + 5; v = sp st + 6 in
      with_locals 7 (steps [
        mpint_copy b p, mpint_copy c a, mpint_set_value u 0, mpint_set_value v 1,
        inv_loop (sp st) p fuel,
        \<lambda>st. if mpint_comp_int (obj st b) 0 \<noteq> 0 then Some (-1, st) else Some (0, st),
        \<lambda>st. if 0 < mpint_comp_int (obj st u) 0 then mpint_copy r u st else mpint_add r u p st]) st)"

subsection \<open>Montgomery multiplication and exponentiation\<close>

definition montgomery_m :: "u32 \<Rightarrow> u32" where
  "montgomery_m p0 = (let step = \<lambda>m. m * (2 - m * p0);
     m = step (step (step (step (2 - p0)))) in NOT m + 1)"

definition montgomery_round ::
    "nat \<Rightarrow> nat \<Rightarrow> nat \<Rightarrow> nat \<Rightarrow> nat \<Rightarrow> nat \<Rightarrow> u32 \<Rightarrow> nat \<Rightarrow> mstore \<Rightarrow> mstore option" where
  "montgomery_round a b p t k n m i st = do {
     ti \<leftarrow> get_word st t i;
     (q, st) \<leftarrow> (if i < length (get_data st a) then do {
         ai \<leftarrow> get_word st a i;
         b0 \<leftarrow> get_word st b 0;
         st \<leftarrow> mpint_mul_acc_core t i b n ai st;
         Some ((ti + ai * b0) * m, st)
       } else Some (ti * m, st));
     mpint_mul_acc_core t i p k q st
   }"

definition mpint_montgomery_mul ::
    "nat \<Rightarrow> nat \<Rightarrow> nat \<Rightarrow> nat \<Rightarrow> nat \<Rightarrow> nat \<Rightarrow> mstore \<Rightarrow> (int \<times> mstore) option" where
  "mpint_montgomery_mul r a b k p t st = do {
     p0 \<leftarrow> get_word st p 0;
     let m = montgomery_m p0;
     let n = min (length (get_data st b)) k;
     steps [
       mpint_grow t (2 * k + 1),
       mpint_set_value t 0,
       \<lambda>st. map_option (Pair 0) (for_each (montgomery_round a b p t k n m) [0..<k] st),
       mpint_shift_right t (k * 32),
       mpint_copy r t,
       \<lambda>st. if 0 \<le> mpint_comp (obj st r) (obj st p) then mpint_sub r r p st else Some (0, st)] st
   }"

definition mpint_montgomery_red ::
    "nat \<Rightarrow> nat \<Rightarrow> nat \<Rightarrow> nat \<Rightarrow> nat \<Rightarrow> mstore \<Rightarrow> (int \<times> mstore) option" where
  "mpint_montgomery_red r a k p t = with_int 1 (\<lambda>b. mpint_montgomery_mul r a b k p t)"

text \<open>
  The exponentiation reads the exponent in windows of at most \<open>d\<close> bits that end in a one bit:
  \<open>i\<close> is the highest bit not yet read, plus one. The lower end of a window is the first one bit
  from \<open>i - d\<close> on; starting below bit 0, as the code does for small \<open>i\<close>, reads zeroes first.
\<close>

fun window_end :: "mpint \<Rightarrow> nat \<Rightarrow> nat \<Rightarrow> nat" where
  "window_end e n 0 = n"
| "window_end e n (Suc k) = (if mpint_get_bit_value e n \<noteq> 0 then n else window_end e (Suc n) k)"

definition window_value :: "mpint \<Rightarrow> nat \<Rightarrow> nat \<Rightarrow> nat" where
  "window_value e hi lo =
     foldl (\<lambda>u j. 2 * u + unat (mpint_get_bit_value e j)) 0 (rev [lo..<Suc hi])"

fun exp_loop ::
    "(nat \<Rightarrow> nat \<Rightarrow> nat \<Rightarrow> mstore \<Rightarrow> (int \<times> mstore) option) \<Rightarrow> nat \<Rightarrow> nat \<Rightarrow> nat \<Rightarrow> nat \<Rightarrow> nat \<Rightarrow> nat \<Rightarrow>
     mstore \<Rightarrow> (int \<times> mstore) option" where
  "exp_loop mul d r e s 0 i st = (if i = 0 then Some (0, st) else None)"
| "exp_loop mul d r e s (Suc fuel) i st =
     (if i = 0 then Some (0, st)
      else if mpint_get_bit_value (obj st e) (i - 1) = 0
      then steps [mul r r r, exp_loop mul d r e s fuel (i - 1)] st
      else let n = window_end (obj st e) (i - d) (i - 1 - (i - d));
               u = window_value (obj st e) (i - 1) n
           in steps (replicate (i - n) (mul r r r) @
                [mul r r (s + u div 2), exp_loop mul d r e s fuel n]) st)"

definition mpint_exp_mod :: "nat \<Rightarrow> nat \<Rightarrow> nat \<Rightarrow> nat \<Rightarrow> nat \<Rightarrow> mstore \<Rightarrow> (int \<times> mstore) option" where
  "mpint_exp_mod fuel r a e p st =
     (let b = sp st; c2 = sp st + 1; t = sp st + 2; s = sp st + 3;
          bits = mpint_get_bit_length (obj st e);
          d = (if bits \<le> 32 then 1 else 4) in
      with_locals 11 (\<lambda>st.
        if mpint_get_bit_value (obj st p) 0 = 0 then
          let mul = (\<lambda>x y z. mpint_mul_mod fuel x y z p) in
          steps ([mul b a a, mpint_copy s a] @
            map (\<lambda>i. mul (s + i) (s + i - 1) b) [1..<2 ^ (d - 1)] @
            [mpint_set_value r 1,
             \<lambda>st. exp_loop mul d r e s fuel (mpint_get_bit_length (obj st e)) st]) st
        else
          let k = mpint_get_length (obj st p);
              mul = (\<lambda>x y z. mpint_montgomery_mul x y z k p t) in
          steps ([mpint_set_value c2 1, mpint_shift_left c2 (2 * k * 32), mpint_mod fuel c2 c2 p,
             \<lambda>st. if 0 \<le> mpint_comp (obj st a) (obj st p)
                  then steps [mpint_mod fuel b a p, mul b b c2] st else mul b a c2 st,
             mul r b b, mpint_copy s b] @
            map (\<lambda>i. mul (s + i) (s + i - 1) r) [1..<2 ^ (d - 1)] @
            [mpint_copy r c2, mpint_montgomery_red r r k p t,
             \<lambda>st. exp_loop mul d r e s fuel (mpint_get_bit_length (obj st e)) st,
             mpint_montgomery_red r r k p t]) st) st)"

subsection \<open>Import and export\<close>

datatype mpint_format = MPINT_FORMAT_BIG_ENDIAN | MPINT_FORMAT_LITTLE_ENDIAN | Unsupported

definition export_byte :: "u32 list \<Rightarrow> nat \<Rightarrow> u8" where
  "export_byte ds i = ucast (drop_bit (8 * (i mod 4)) (ds ! (i div 4)))"

definition mpint_export_le :: "mpint \<Rightarrow> nat \<Rightarrow> u8 list option" where
  "mpint_export_le a len =
     (let n = mpint_get_byte_length a in
      if len < n then None else Some (map (export_byte (mdata a)) [0..<n] @ replicate (len - n) 0))"

definition mpint_export_be :: "mpint \<Rightarrow> nat \<Rightarrow> u8 list option" where
  "mpint_export_be a len =
     (let n = mpint_get_byte_length a in
      if len < n then None else Some (replicate (len - n) 0 @ map (export_byte (mdata a)) (rev [0..<n])))"

text \<open>The buffer after the call, or \<open>None\<close> for the return value -1.\<close>

definition mpint_export :: "mpint \<Rightarrow> nat \<Rightarrow> mpint_format \<Rightarrow> u8 list option" where
  "mpint_export a len format =
     (case format of
        MPINT_FORMAT_BIG_ENDIAN \<Rightarrow> mpint_export_be a len
      | MPINT_FORMAT_LITTLE_ENDIAN \<Rightarrow> mpint_export_le a len
      | Unsupported \<Rightarrow> None)"

text \<open>
  The import loops. A byte is promoted to \<open>int\<close> before the shift, which leaves the same low 32
  bits as a shift of a word.
\<close>

definition import_bytes :: "nat \<Rightarrow> u8 list \<Rightarrow> mstore \<Rightarrow> (int \<times> mstore) option" where
  "import_bytes r bs st = do {
     (error, st) \<leftarrow> mpint_grow r ((length bs + 4 - 1) div 4) st;
     if error \<noteq> 0 then Some (error, st)
     else do {
       st \<leftarrow> for_each (\<lambda>i st. do {
                w \<leftarrow> get_word st r (i div 4);
                b \<leftarrow> idx bs i;
                set_word st r (i div 4) (w OR push_bit (8 * (i mod 4)) (ucast b))
              }) [0..<length bs] (set_sign (clear_data st r) r 1);
       Some (0, st)
     }
   }"

fun strip_zeros :: "nat \<Rightarrow> u8 list \<Rightarrow> u8 list" where
  "strip_zeros k [] = []"
| "strip_zeros k (b # bs) = (if k < length (b # bs) \<and> b = 0 then strip_zeros k bs else b # bs)"

definition mpint_import_le :: "nat \<Rightarrow> u8 list \<Rightarrow> mstore \<Rightarrow> (int \<times> mstore) option" where
  "mpint_import_le r bs = import_bytes r (rev (strip_zeros 0 (rev bs)))"

definition mpint_import_be :: "nat \<Rightarrow> u8 list \<Rightarrow> mstore \<Rightarrow> (int \<times> mstore) option" where
  "mpint_import_be r bs = import_bytes r (rev (strip_zeros 1 bs))"

definition mpint_import :: "nat \<Rightarrow> u8 list \<Rightarrow> mpint_format \<Rightarrow> mstore \<Rightarrow> (int \<times> mstore) option" where
  "mpint_import r bs format st =
     (case format of
        MPINT_FORMAT_BIG_ENDIAN \<Rightarrow> mpint_import_be r bs st
      | MPINT_FORMAT_LITTLE_ENDIAN \<Rightarrow> mpint_import_le r bs st
      | Unsupported \<Rightarrow> Some (-1, st))"

end
