(* ===== verification/Mpint_Val.thy ===== *)
theory Mpint_Val
  imports Mpint
begin

text \<open>
  The number a word list of mpint.c stands for: \<open>val\<close>, its positional laws, its bits, and the
  read-only operations (lengths, bit values, comparison) in terms of it.
\<close>

unbundle bit_operations_syntax

subsection \<open>Positional value\<close>

definition radix :: nat where
  "radix = 2 ^ 32"

primrec val :: "u32 list \<Rightarrow> nat" where
  "val [] = 0"
| "val (w # ws) = unat w + radix * val ws"

lemma radix_pos [simp]: "0 < radix"
  by (simp add: radix_def)

lemma radix_power: "radix ^ n = 2 ^ (32 * n)"
  by (simp only: radix_def power_mult)

lemma radix_neq_0 [simp]: "radix \<noteq> 0"
  by (simp add: radix_def)

lemma unat_less_radix [simp]: "unat (w :: u32) < radix"
  using unsigned_less [of w] by (simp only: radix_def len_num1 len_bit0 len_num0) simp

lemma val_append: "val (xs @ ys) = val xs + radix ^ length xs * val ys"
  by (induction xs) (simp_all add: algebra_simps)

lemma val_less: "val xs < radix ^ length xs"
proof (induction xs)
  case (Cons w ws)
  have "unat w + radix * val ws < radix + radix * val ws" by simp
  also have "\<dots> = radix * Suc (val ws)" by simp
  also have "\<dots> \<le> radix * radix ^ length ws" using Cons.IH by (intro mult_le_mono2) simp
  finally show ?case by simp
qed simp

lemma val_replicate_0 [simp]: "val (replicate n 0) = 0"
  by (induction n) simp_all

lemma val_eq_0_iff: "val ws = 0 \<longleftrightarrow> (\<forall>w \<in> set ws. w = 0)"
  by (induction ws) (simp_all add: unat_eq_0)

lemma val_take_drop: "n \<le> length ds \<Longrightarrow> val ds = val (take n ds) + radix ^ n * val (drop n ds)"
  using val_append [of "take n ds" "drop n ds"] by (simp add: min_absorb2)

lemma val_take_le: "val (take n ds) \<le> val ds"
  by (cases "n \<le> length ds") (simp_all add: val_take_drop [of n ds])

lemma val_take_less: "n \<le> length ds \<Longrightarrow> val (take n ds) < radix ^ n"
  using val_less [of "take n ds"] by (simp add: min_absorb2)

lemma val_pad: "val (ds @ replicate n 0) = val ds"
  by (simp add: val_append)

subsection \<open>Segments\<close>

definition seg :: "u32 list \<Rightarrow> nat \<Rightarrow> nat \<Rightarrow> nat" where
  "seg ds i n = val (take n (drop i ds))"

lemma seg_0 [simp]: "seg ds i 0 = 0"
  by (simp add: seg_def)

lemma seg_Suc: "i < length ds \<Longrightarrow> seg ds i (Suc n) = unat (ds ! i) + radix * seg ds (Suc i) n"
  by (simp add: seg_def Cons_nth_drop_Suc [symmetric])

lemma seg_less: "i + n \<le> length ds \<Longrightarrow> seg ds i n < radix ^ n"
  using val_less [of "take n (drop i ds)"] by (simp add: seg_def min_absorb2)

lemma seg_all: "seg ds 0 (length ds) = val ds"
  by (simp add: seg_def)

lemma seg_take: "seg ds 0 n = val (take n ds)"
  by (simp add: seg_def)

lemma seg_split:
  assumes "i + m \<le> length ds"
  shows "seg ds i (m + n) = seg ds i m + radix ^ m * seg ds (i + m) n"
  using assms by (simp add: seg_def take_add val_append min_absorb2 add.commute)

lemma seg_cong:
  assumes "i + n \<le> length xs" "i + n \<le> length ys"
    and "\<And>j. i \<le> j \<Longrightarrow> j < i + n \<Longrightarrow> xs ! j = ys ! j"
  shows "seg xs i n = seg ys i n"
proof -
  have "take n (drop i xs) = take n (drop i ys)"
    using assms by (intro nth_equalityI) auto
  then show ?thesis by (simp add: seg_def)
qed

lemma seg_append: "i + n \<le> length xs \<Longrightarrow> seg (xs @ ys) i n = seg xs i n"
  by (intro seg_cong) (auto simp: nth_append)

lemma val_seg3:
  assumes "i + n \<le> length ds"
  shows "val ds = seg ds 0 i + radix ^ i * seg ds i n + radix ^ (i + n) * seg ds (i + n) (length ds - (i + n))"
proof -
  have "val ds = seg ds 0 (i + (n + (length ds - (i + n))))"
    using assms by (simp add: seg_all)
  also have "\<dots> = seg ds 0 i + radix ^ i * seg ds i (n + (length ds - (i + n)))"
    using assms by (subst seg_split) simp_all
  also have "seg ds i (n + (length ds - (i + n))) =
      seg ds i n + radix ^ n * seg ds (i + n) (length ds - (i + n))"
    using assms by (subst seg_split) simp_all
  finally show ?thesis by (simp add: power_add algebra_simps)
qed

subsection \<open>Bits of the value\<close>

lemma bit_unat_add_radix:
  "bit (unat (w :: u32) + radix * n) k \<longleftrightarrow> (if k < 32 then bit w k else bit n (k - 32))"
proof -
  have high: "\<not> bit w j" if "32 \<le> j" for j
    using bit_imp_le_length [of w j] that by auto
  have "unat w + radix * n = unat w + push_bit 32 n"
    by (simp add: radix_def push_bit_eq_mult mult.commute)
  also have "\<dots> = unat w OR push_bit 32 n"
    by (rule disjunctive_add_eq_or) (auto intro!: bit_eqI simp: bit_simps high)
  finally show ?thesis by (auto simp: bit_simps high)
qed

lemma bit_val: "bit (val ds) k \<longleftrightarrow> k div 32 < length ds \<and> bit (ds ! (k div 32)) (k mod 32)"
proof (induction ds arbitrary: k)
  case (Cons w ws)
  show ?case
  proof (cases "k < 32")
    case False
    then have "k div 32 = Suc ((k - 32) div 32)" "(k - 32) mod 32 = k mod 32"
      by (simp_all add: div_if [of k 32] mod_if [of k 32])
    then show ?thesis using False Cons.IH [of "k - 32"] by (simp add: bit_unat_add_radix)
  qed (simp add: bit_unat_add_radix)
qed simp

subsection \<open>Lengths\<close>

lemma val_take_Suc:
  assumes "n < length ds"
  shows "val (take (Suc n) ds) = val (take n ds) + radix ^ n * unat (ds ! n)"
  using assms by (simp add: take_Suc_conv_app_nth val_append min_absorb2)

lemma top_nonzero_le: "top_nonzero ds n \<le> n"
  by (induction n) auto

lemma top_nonzero_zero: "top_nonzero ds n \<le> j \<Longrightarrow> j < n \<Longrightarrow> ds ! j = 0"
  by (induction n) (auto simp: less_Suc_eq split: if_splits)

lemma top_nonzero_nz: "top_nonzero ds n = Suc k \<Longrightarrow> ds ! k \<noteq> 0"
  by (induction n) (auto split: if_splits)

lemma val_top_nonzero: "n \<le> length ds \<Longrightarrow> val (take (top_nonzero ds n) ds) = val (take n ds)"
  by (induction n) (auto simp: val_take_Suc)

definition mval :: "mpint \<Rightarrow> nat" where
  "mval a = val (mdata a)"

lemma get_length_le: "mpint_get_length a \<le> length (mdata a)"
  by (simp add: mpint_get_length_def top_nonzero_le)

lemma get_length_zero: "mpint_get_length a \<le> j \<Longrightarrow> j < length (mdata a) \<Longrightarrow> mdata a ! j = 0"
  by (simp add: mpint_get_length_def top_nonzero_zero)

lemma val_get_length: "val (take (mpint_get_length a) (mdata a)) = mval a"
  by (simp add: mpint_get_length_def mval_def val_top_nonzero)

lemma val_take_get_length:
  assumes "mpint_get_length a \<le> n"
  shows "val (take n (mdata a)) = mval a"
proof -
  have "mval a \<le> val (take n (mdata a))"
    using val_take_le [of "mpint_get_length a" "take n (mdata a)"] assms
    by (simp add: min_absorb1 val_get_length)
  then show ?thesis using val_take_le [of n "mdata a"] by (simp add: mval_def)
qed

lemma get_length_top:
  assumes "mpint_get_length a = Suc k"
  shows "mval a = val (take k (mdata a)) + radix ^ k * unat (mdata a ! k)"
    and "mdata a ! k \<noteq> 0" and "k < length (mdata a)"
proof -
  show k: "k < length (mdata a)" using get_length_le [of a] assms by simp
  show "mval a = val (take k (mdata a)) + radix ^ k * unat (mdata a ! k)"
    using val_get_length [of a] k by (simp add: assms val_take_Suc)
  show "mdata a ! k \<noteq> 0"
    using assms by (simp add: mpint_get_length_def top_nonzero_nz)
qed

lemma get_length_le_iff: "mpint_get_length a \<le> n \<longleftrightarrow> mval a < radix ^ n"
proof
  assume le: "mpint_get_length a \<le> n"
  have "mval a < radix ^ mpint_get_length a"
    using val_take_less [OF get_length_le [of a]] by (simp add: val_get_length)
  also have "\<dots> \<le> radix ^ n" using le by (intro power_increasing) (simp_all add: Suc_le_eq)
  finally show "mval a < radix ^ n" .
next
  assume lt: "mval a < radix ^ n"
  show "mpint_get_length a \<le> n"
  proof (rule ccontr)
    assume "\<not> ?thesis"
    then obtain k where k: "mpint_get_length a = Suc k" "n \<le> k"
      by (cases "mpint_get_length a") auto
    have "radix ^ n \<le> radix ^ k" using k by (intro power_increasing) (simp_all add: Suc_le_eq)
    also have "\<dots> \<le> mval a"
      using get_length_top [OF k(1)] by (simp add: unat_gt_0 [symmetric] Suc_le_eq trans_le_add2)
    finally show False using lt by simp
  qed
qed

lemma get_length_0_iff: "mpint_get_length a = 0 \<longleftrightarrow> mval a = 0"
  using get_length_le_iff [of a 0] by simp

lemma get_length_less_iff:
  "mpint_get_length a < mpint_get_length b \<Longrightarrow> mval a < mval b"
proof -
  assume less: "mpint_get_length a < mpint_get_length b"
  then have "\<not> mval b < radix ^ mpint_get_length a" by (simp add: get_length_le_iff [symmetric])
  moreover have "mval a < radix ^ mpint_get_length a" by (simp add: get_length_le_iff [symmetric])
  ultimately show ?thesis by simp
qed

lemma shift_count_le_iff:
  "0 < s \<Longrightarrow> shift_count s w \<le> j \<longleftrightarrow> unat w < 2 ^ (s * j)"
proof (induction s w arbitrary: j rule: shift_count.induct)
  case (1 s w)
  show ?case
  proof (cases "w = 0 \<or> j = 0")
    case True
    then show ?thesis using 1(2) by (auto simp: shift_count.simps [of s w] unat_eq_0)
  next
    case False
    then obtain i where i: "j = Suc i" by (cases j) auto
    have "shift_count s w \<le> j \<longleftrightarrow> shift_count s (drop_bit s w) \<le> i"
      using False 1(2) by (simp add: shift_count.simps [of s w] i)
    also have "\<dots> \<longleftrightarrow> unat (drop_bit s w) < 2 ^ (s * i)"
      using False 1 by simp
    also have "unat (drop_bit s w) = unat w div 2 ^ s"
      by (simp only: unat_drop_bit_eq) (simp only: drop_bit_eq_div)
    also have "unat w div 2 ^ s < 2 ^ (s * i) \<longleftrightarrow> unat w < 2 ^ (s * j)"
      by (simp add: div_less_iff_less_mult i power_add mult.commute)
    finally show ?thesis .
  qed
qed

lemma add_mult_less_iff: "(x :: nat) < b \<Longrightarrow> x + b * y < b * z \<longleftrightarrow> y < z"
proof -
  assume x: "x < b"
  then have "0 < b" by simp
  then have "x + b * y < b * z \<longleftrightarrow> (x + b * y) div b < z"
    by (simp only: div_less_iff_less_mult mult.commute [of b z])
  then show ?thesis using x by simp
qed

lemma count_le_iff:
  assumes s: "0 < s" "s * m = 32" and ne: "mdata a \<noteq> []"
  defines "wc \<equiv> top_nonzero (mdata a) (length (mdata a)) - 1"
  shows "wc * m + shift_count s (mdata a ! wc) \<le> j \<longleftrightarrow> mval a < 2 ^ (s * j)"
proof (cases "mpint_get_length a")
  case 0
  then have "wc = 0" by (simp add: wc_def mpint_get_length_def)
  moreover have "mdata a ! 0 = 0" using get_length_zero [of a 0] 0 ne by simp
  ultimately show ?thesis
    using 0 s by (simp add: get_length_0_iff shift_count.simps)
next
  case (Suc k)
  then have wc: "wc = k" by (simp add: wc_def mpint_get_length_def)
  note top = get_length_top [OF Suc]
  have r: "radix ^ k = 2 ^ (s * (k * m))"
    using s by (simp add: radix_power mult.assoc mult.commute [of m] mult.left_commute)
  show ?thesis
  proof (cases "k * m \<le> j")
    case True
    then obtain i where i: "j = k * m + i" using le_Suc_ex by blast
    have "mval a < 2 ^ (s * j) \<longleftrightarrow> val (take k (mdata a)) + radix ^ k * unat (mdata a ! k) < radix ^ k * 2 ^ (s * i)"
      by (simp add: top(1) i r power_add distrib_left)
    also have "\<dots> \<longleftrightarrow> unat (mdata a ! k) < 2 ^ (s * i)"
      using top(3) by (intro add_mult_less_iff) (simp add: val_take_less)
    finally show ?thesis using s by (simp add: wc i shift_count_le_iff)
  next
    case False
    have "(2::nat) ^ (s * j) \<le> radix ^ k" using False by (simp add: r)
    also have "\<dots> \<le> mval a"
      using top by (simp add: unat_gt_0 [symmetric] Suc_le_eq trans_le_add2)
    finally show ?thesis using False by (simp add: wc)
  qed
qed

lemma bit_length_le_iff: "mpint_get_bit_length a \<le> j \<longleftrightarrow> mval a < 2 ^ j"
  using count_le_iff [of 1 32 a j] by (auto simp: mpint_get_bit_length_def Let_def mval_def)

lemma byte_length_le_iff: "mpint_get_byte_length a \<le> j \<longleftrightarrow> mval a < 256 ^ j"
  using count_le_iff [of 8 4 a j]
  by (auto simp: mpint_get_byte_length_def Let_def mval_def power_mult)

lemma get_bit_value_eq: "mpint_get_bit_value a i = of_bool (bit (mval a) i)"
proof -
  have "drop_bit n w AND 1 = of_bool (bit w n)" for w :: u32 and n
    by (rule bit_word_eqI) (auto simp: bit_simps)
  then show ?thesis by (auto simp: mpint_get_bit_value_def mval_def bit_val)
qed

subsection \<open>Comparison\<close>

definition msgn :: "mpint \<Rightarrow> int" where
  "msgn a = msign a * int (mval a)"

lemma comp_words_eq:
  assumes "n \<le> length as" "n \<le> length bs"
  shows "comp_words as bs n = sgn (int (val (take n as)) - int (val (take n bs)))"
  using assms
proof (induction n)
  case (Suc n)
  let ?x = "val (take n as)" and ?y = "val (take n bs)"
  have lt: "?x < radix ^ n" "?y < radix ^ n" using Suc.prems by (simp_all add: val_take_less)
  have step: "x + radix ^ n * u < y + radix ^ n * v" if "x < radix ^ n" "u < v" for x y u v :: nat
  proof -
    have "x + radix ^ n * u < radix ^ n * Suc u" using that by simp
    also have "\<dots> \<le> radix ^ n * v" using that by (intro mult_le_mono2) simp
    finally show ?thesis by simp
  qed
  consider "bs ! n < as ! n" | "as ! n < bs ! n" | "as ! n = bs ! n" by fastforce
  then show ?case
  proof cases
    case 1
    then have "unat (bs ! n) < unat (as ! n)" by (simp add: word_less_nat_alt)
    then have "val (take (Suc n) bs) < val (take (Suc n) as)"
      using step lt Suc.prems by (simp add: val_take_Suc)
    then show ?thesis using 1 by simp
  next
    case 2
    then have "unat (as ! n) < unat (bs ! n)" by (simp add: word_less_nat_alt)
    then have "val (take (Suc n) as) < val (take (Suc n) bs)"
      using step lt Suc.prems by (simp add: val_take_Suc)
    then show ?thesis using 2 by (simp add: less_not_sym)
  next
    case 3
    then show ?thesis using Suc by (simp add: val_take_Suc)
  qed
qed simp

lemma comp_abs_eq: "mpint_comp_abs a b = sgn (int (mval a) - int (mval b))"
proof -
  consider "mpint_get_length b < mpint_get_length a" | "mpint_get_length a < mpint_get_length b"
    | "mpint_get_length a = mpint_get_length b" by linarith
  then show ?thesis
  proof cases
    case 3
    then have "comp_words (mdata a) (mdata b) (mpint_get_length b) = sgn (int (mval a) - int (mval b))"
      using get_length_le [of a] get_length_le [of b] val_get_length [of a] val_get_length [of b]
      by (simp add: comp_words_eq)
    then show ?thesis using 3 get_length_0_iff [of a] get_length_0_iff [of b]
      by (auto simp: mpint_comp_abs_def Let_def)
  qed (auto simp: mpint_comp_abs_def Let_def dest: get_length_less_iff)
qed

definition sign_ok :: "mpint \<Rightarrow> bool" where
  "sign_ok a \<longleftrightarrow> msign a = 1 \<or> msign a = -1"

lemma comp_eq:
  assumes a: "sign_ok a" and b: "sign_ok b"
  shows "mpint_comp a b = sgn (msgn a - msgn b)"
proof -
  consider "mpint_get_length b < mpint_get_length a" | "mpint_get_length a < mpint_get_length b"
    | "mpint_get_length a = mpint_get_length b" "mval a = 0"
    | "mpint_get_length a = mpint_get_length b" "mval a \<noteq> 0" "mval b \<noteq> 0"
    using get_length_0_iff [of a] get_length_0_iff [of b] by linarith
  then show ?thesis
  proof cases
    case 1
    then have "mval b < mval a" by (rule get_length_less_iff)
    then show ?thesis using 1 a b by (auto simp: mpint_comp_def Let_def sign_ok_def msgn_def)
  next
    case 2
    then have "mval a < mval b" by (rule get_length_less_iff)
    then show ?thesis using 2 a b by (auto simp: mpint_comp_def Let_def sign_ok_def msgn_def)
  next
    case 3
    then have "mval b = 0" using get_length_0_iff [of a] get_length_0_iff [of b] by simp
    then show ?thesis using 3 by (simp add: mpint_comp_def Let_def get_length_0_iff msgn_def)
  next
    case 4
    then have c: "comp_words (mdata a) (mdata b) (mpint_get_length b) = sgn (int (mval a) - int (mval b))"
      using get_length_le [of a] get_length_le [of b] val_get_length [of a] val_get_length [of b]
      by (simp add: comp_words_eq)
    show ?thesis
      using 4 a b get_length_0_iff [of a] get_length_0_iff [of b]
      by (auto simp: mpint_comp_def Let_def sign_ok_def msgn_def c sgn_if)
  qed
qed

lemma sign_ok_int [simp]: "sign_ok (int_mpint b)"
  by (simp add: sign_ok_def int_mpint_def mp_sign_def)

lemma msgn_int:
  assumes "\<bar>b\<bar> < 2 ^ 32"
  shows "msgn (int_mpint b) = b"
proof -
  have "unat (word_of_int \<bar>b\<bar> :: u32) = nat \<bar>b\<bar>"
    using assms by (simp add: unat_eq_nat_uint uint_word_of_int)
  moreover have "mp_abs b = word_of_int \<bar>b\<bar>" by (simp add: mp_abs_def abs_if)
  ultimately show ?thesis
    by (simp add: msgn_def int_mpint_def mval_def mp_sign_def)
qed

lemma comp_int_eq:
  assumes "sign_ok a" "\<bar>b\<bar> < 2 ^ 32"
  shows "mpint_comp_int a b = sgn (msgn a - b)"
  using assms by (simp add: mpint_comp_int_def comp_eq msgn_int)

end
