(* ===== verification/Mpint_Arith.thy ===== *)
theory Mpint_Arith
  imports Mpint_Val
begin

text \<open>
  Addition, subtraction and copying of mpint.c compute on the values of their arguments, also when
  the arguments are the same object.

  An operation on \<open>r\<close> changes no other object: its result is \<open>set_obj st r m\<close> for some \<open>m\<close>. The
  lemmas assume that allocations succeed (\<open>mem_ok\<close>), and those on operations with local variables
  that nothing is above the stack pointer (\<open>stack_ok\<close>).
\<close>

subsection \<open>Stores\<close>

definition set_obj :: "mstore \<Rightarrow> nat \<Rightarrow> mpint \<Rightarrow> mstore" where
  "set_obj st x m = st\<lparr>obj := (obj st)(x := m)\<rparr>"

definition mem_ok :: "mstore \<Rightarrow> bool" where
  "mem_ok st \<longleftrightarrow> (\<forall>n. alloc_ok st n)"

definition stack_ok :: "mstore \<Rightarrow> bool" where
  "stack_ok st \<longleftrightarrow> (\<forall>i \<ge> sp st. obj st i = mpint_init)"

lemma obj_set_obj [simp]: "obj (set_obj st x m) y = (if x = y then m else obj st y)"
  by (simp add: set_obj_def)

lemma sp_set_obj [simp]: "sp (set_obj st x m) = sp st"
  by (simp add: set_obj_def)

lemma alloc_ok_set_obj [simp]: "alloc_ok (set_obj st x m) = alloc_ok st"
  by (simp add: set_obj_def)

lemma mem_ok_set_obj [simp]: "mem_ok (set_obj st x m) = mem_ok st"
  by (simp add: mem_ok_def)

lemma set_obj_twice [simp]: "set_obj (set_obj st x m) x m' = set_obj st x m'"
  by (simp add: set_obj_def)

lemma set_obj_same [simp]: "set_obj st x (obj st x) = st"
  by (simp add: set_obj_def)

lemma set_obj_commute: "x \<noteq> y \<Longrightarrow> set_obj (set_obj st x m) y m' = set_obj (set_obj st y m') x m"
  by (simp add: set_obj_def fun_upd_twist)

lemma set_data_eq: "set_data st x ds = set_obj st x ((obj st x)\<lparr>mdata := ds\<rparr>)"
  by (simp add: set_data_def set_obj_def)

lemma set_sign_eq: "set_sign st x s = set_obj st x ((obj st x)\<lparr>msign := s\<rparr>)"
  by (simp add: set_sign_def set_obj_def)

lemma get_word_Some: "i < length (mdata (obj st x)) \<Longrightarrow> get_word st x i = Some (mdata (obj st x) ! i)"
  by (simp add: get_word_def get_data_def)

lemma set_word_Some:
  "i < length (mdata (obj st x)) \<Longrightarrow>
   set_word st x i v = Some (set_obj st x ((obj st x)\<lparr>mdata := (mdata (obj st x))[i := v]\<rparr>))"
  by (simp add: set_word_def get_data_def set_data_eq)

lemmas store_simps = get_data_def set_data_eq set_sign_eq get_word_Some set_word_Some clear_data_def

lemma mpint_update_both: "(m :: mpint)\<lparr>mdata := ds, msign := s\<rparr> = \<lparr>msign = s, mdata = ds\<rparr>"
  by (cases m) simp

subsection \<open>Growing and copying\<close>

lemma grow_ok:
  assumes "mem_ok st"
  shows "mpint_grow x n st = Some (0, set_obj st x ((obj st x)\<lparr>mdata :=
    mdata (obj st x) @ replicate (max 1 n - length (mdata (obj st x))) 0\<rparr>))"
  using assms by (simp add: mpint_grow_def mem_ok_def Let_def store_simps)

lemma mval_grow [simp]: "mval (m\<lparr>mdata := mdata m @ replicate n 0\<rparr>) = mval m"
  by (simp add: mval_def val_pad)

definition copy_ok :: "mpint \<Rightarrow> mpint \<Rightarrow> bool" where
  "copy_ok d s \<longleftrightarrow> mdata s \<noteq> [] \<and> length (mdata d) \<le> length (mdata s)"

lemma copy_spec:
  assumes m: "mem_ok st" and c: "x = y \<or> copy_ok (obj st x) (obj st y)"
  shows "\<exists>m. mpint_copy x y st = Some (0, set_obj st x m) \<and> msign m = msign (obj st y) \<and>
    mval m = mval (obj st y) \<and> length (mdata m) \<le> length (mdata (obj st y)) \<and> 
    (x = y \<or> length (mdata m) = max (length (mdata (obj st x))) (max 1 (mpint_get_length (obj st y))))"
proof (cases "x = y")
  case False
  let ?s = "obj st y" and ?d = "obj st x"
  define n where "n = max (length (mdata ?d)) (max (Suc 0) (mpint_get_length ?s))"
  have le: "n \<le> length (mdata ?s)"
    using c False get_length_le [of ?s] by (auto simp: copy_ok_def n_def Suc_le_eq)
  have n: "length (mdata ?d) + (max (Suc 0) (mpint_get_length ?s) - length (mdata ?d)) = n"
    by (simp add: n_def max_def)
  have "mpint_copy x y st = Some (0, set_obj st x \<lparr>msign = msign ?s, mdata = take n (mdata ?s)\<rparr>)"
    using False le by (simp add: mpint_copy_def grow_ok m Let_def store_simps n mpint_update_both)
  moreover have "mpint_get_length ?s \<le> n" by (simp add: n_def)
  ultimately show ?thesis
    using le by (intro exI [of _ "\<lparr>msign = msign ?s, mdata = take n (mdata ?s)\<rparr>"])
      (simp add: mval_def [of "\<lparr>msign = msign ?s, mdata = take n (mdata ?s)\<rparr>"] val_take_get_length
        min_absorb2 flip: n_def)
next
  case True
  then show ?thesis
    by (intro exI [of _ "obj st x"]) (simp add: mpint_copy_def)
qed

subsection \<open>Addition of absolute values\<close>

lemma unat_add32:
  "unat (x + y :: u32) = (if unat x + unat y < radix then unat x + unat y else unat x + unat y - radix)"
proof -
  have "unat (x + y) = (unat x + unat y) mod radix"
    by (simp add: unat_word_ariths radix_def)
  moreover have "unat x + unat y - radix < radix"
    using unat_less_radix [of x] unat_less_radix [of y] by linarith
  ultimately show ?thesis by (simp add: mod_if [of "unat x + unat y"])
qed

lemma unat_sub32:
  "unat (x - y :: u32) = (if unat y \<le> unat x then unat x - unat y else unat x + radix - unat y)"
  by (simp add: unat_sub_if' radix_def)

lemma unat_le_1: "unat (c :: u32) \<le> 1 \<longleftrightarrow> c = 0 \<or> c = 1"
proof -
  have "unat c \<le> 1 \<longleftrightarrow> unat c = 0 \<or> unat c = unat (1 :: u32)" by auto
  then show ?thesis by (simp only: unat_eq_0 word_unat_eq_iff [symmetric])
qed

lemma add_step:
  fixes x y c :: u32
  assumes c: "unat c \<le> 1"
    and t: "t = x + c + y" and c': "c' = (if t < y then 1 else if x + c \<noteq> 0 then 0 else c)"
  shows "unat t + radix * unat c' = unat x + unat y + unat c" and "unat c' \<le> 1"
proof -
  have "c = 0 \<or> c = 1" using c by (simp only: unat_le_1)
  then show "unat t + radix * unat c' = unat x + unat y + unat c"
    using unat_less_radix [of x] unat_less_radix [of y]
    by (auto simp: t c' word_less_nat_alt unat_add32 word_unat_eq_iff simp del: unat_less_radix split: if_splits)
  show "unat c' \<le> 1" using c by (simp add: c')
qed

lemma add_words_ok:
  assumes "i + n \<le> length (mdata (obj st r))" "i + n \<le> length (mdata (obj st b))" "unat c \<le> 1"
  shows "\<exists>c' ds. add_words r b i n c st = Some (c', set_obj st r ((obj st r)\<lparr>mdata := ds\<rparr>)) \<and>
    unat c' \<le> 1 \<and> length ds = length (mdata (obj st r)) \<and>
    (\<forall>j. j < i \<or> i + n \<le> j \<longrightarrow> ds ! j = mdata (obj st r) ! j) \<and>
    seg ds i n + radix ^ n * unat c' = seg (mdata (obj st r)) i n + seg (mdata (obj st b)) i n + unat c"
  using assms
proof (induction n arbitrary: i c st)
  case 0
  then show ?case by (intro exI [of _ c] exI [of _ "mdata (obj st r)"]) simp
next
  case (Suc n)
  let ?R = "mdata (obj st r)" and ?B = "mdata (obj st b)"
  define t where "t = ?R ! i + c + ?B ! i"
  define c1 where "c1 = (if t < ?B ! i then 1 else if ?R ! i + c \<noteq> 0 then 0 else c)"
  define st1 where "st1 = set_obj st r ((obj st r)\<lparr>mdata := ?R[i := t]\<rparr>)"
  note step = add_step [OF Suc.prems(3) t_def c1_def]
  have run: "add_words r b i (Suc n) c st = add_words r b (Suc i) n c1 st1"
    using Suc.prems by (simp add: store_simps Let_def t_def [symmetric] st1_def c1_def cong: if_cong)
  have "Suc i + n \<le> length (mdata (obj st1 r))" "Suc i + n \<le> length (mdata (obj st1 b))"
    using Suc.prems by (simp_all add: st1_def)
  from Suc.IH [OF this step(2)] obtain c' ds where ds:
    "add_words r b (Suc i) n c1 st1 = Some (c', set_obj st1 r ((obj st1 r)\<lparr>mdata := ds\<rparr>))"
    "unat c' \<le> 1" "length ds = length (mdata (obj st1 r))"
    "\<And>j. j < Suc i \<or> Suc i + n \<le> j \<Longrightarrow> ds ! j = mdata (obj st1 r) ! j"
    "seg ds (Suc i) n + radix ^ n * unat c' =
      seg (mdata (obj st1 r)) (Suc i) n + seg (mdata (obj st1 b)) (Suc i) n + unat c1"
    by blast
  have segs: "seg (mdata (obj st1 r)) (Suc i) n = seg ?R (Suc i) n"
    "seg (mdata (obj st1 b)) (Suc i) n = seg ?B (Suc i) n"
    using Suc.prems by (auto simp: st1_def intro!: seg_cong)
  have "ds ! i = t" using ds(4) [of i] Suc.prems by (simp add: st1_def)
  then have "seg ds i (Suc n) = unat t + radix * seg ds (Suc i) n"
    using Suc.prems ds(3) by (simp add: seg_Suc st1_def)
  moreover have "radix ^ Suc n * unat c' = radix * (radix ^ n * unat c')" by simp
  ultimately have "seg ds i (Suc n) + radix ^ Suc n * unat c' =
      unat t + radix * (seg ?R (Suc i) n + seg ?B (Suc i) n + unat c1)"
    using ds(5) by (simp only: segs distrib_left [symmetric] add.assoc)
  also have "\<dots> = seg ?R i (Suc n) + seg ?B i (Suc n) + unat c"
    using Suc.prems step(1) by (simp add: seg_Suc algebra_simps)
  finally show ?case
  proof (intro exI [of _ c'] exI [of _ ds] conjI allI impI)
    show "add_words r b i (Suc n) c st = Some (c', set_obj st r ((obj st r)\<lparr>mdata := ds\<rparr>))"
      by (simp only: run ds(1)) (simp add: st1_def)
    show "ds ! j = ?R ! j" if "j < i \<or> i + Suc n \<le> j" for j
      using ds(4) [of j] that by (auto simp: st1_def)
  qed (use ds in \<open>simp_all add: st1_def\<close>)
qed

lemma add_carry_ok:
  assumes "i + n = length (mdata (obj st r))" "unat c \<le> 1"
  shows "\<exists>c' ds. add_carry r i n c st = Some (c', set_obj st r ((obj st r)\<lparr>mdata := ds\<rparr>)) \<and>
    unat c' \<le> 1 \<and> (n = 0 \<longrightarrow> c' = c) \<and> length ds = length (mdata (obj st r)) \<and>
    (\<forall>j < i. ds ! j = mdata (obj st r) ! j) \<and>
    seg ds i n + radix ^ n * unat c' = seg (mdata (obj st r)) i n + unat c"
  using assms
proof (induction n arbitrary: i c st)
  case 0
  then show ?case by (intro exI [of _ c] exI [of _ "mdata (obj st r)"]) simp
next
  case (Suc n)
  let ?R = "mdata (obj st r)"
  show ?case
  proof (cases "c = 0")
    case True
    then show ?thesis by (intro exI [of _ 0] exI [of _ ?R]) simp
  next
    case False
    define t where "t = ?R ! i + c + 0"
    define c1 where "c1 = (if t < 0 then 1 else if ?R ! i + c \<noteq> 0 then 0 else c)"
    define st1 where "st1 = set_obj st r ((obj st r)\<lparr>mdata := ?R[i := t]\<rparr>)"
    note step = add_step [OF Suc.prems(2) t_def c1_def]
    have run: "add_carry r i (Suc n) c st = add_carry r (Suc i) n c1 st1"
      using Suc.prems False by (simp add: store_simps st1_def c1_def t_def)
    have "Suc i + n = length (mdata (obj st1 r))" using Suc.prems by (simp add: st1_def)
    from Suc.IH [OF this step(2)] obtain c' ds where ds:
      "add_carry r (Suc i) n c1 st1 = Some (c', set_obj st1 r ((obj st1 r)\<lparr>mdata := ds\<rparr>))"
      "unat c' \<le> 1" "length ds = length (mdata (obj st1 r))"
      "\<And>j. j < Suc i \<Longrightarrow> ds ! j = mdata (obj st1 r) ! j"
      "seg ds (Suc i) n + radix ^ n * unat c' = seg (mdata (obj st1 r)) (Suc i) n + unat c1"
      by blast
    have seg1: "seg (mdata (obj st1 r)) (Suc i) n = seg ?R (Suc i) n"
      using Suc.prems by (auto simp: st1_def intro!: seg_cong)
    have "ds ! i = t" using ds(4) [of i] Suc.prems by (simp add: st1_def)
    then have "seg ds i (Suc n) = unat t + radix * seg ds (Suc i) n"
      using Suc.prems ds(3) by (simp add: seg_Suc st1_def)
    moreover have "radix ^ Suc n * unat c' = radix * (radix ^ n * unat c')" by simp
    ultimately have "seg ds i (Suc n) + radix ^ Suc n * unat c' =
        unat t + radix * (seg ?R (Suc i) n + unat c1)"
      using ds(5) by (simp only: seg1 distrib_left [symmetric] add.assoc)
    also have "\<dots> = seg ?R i (Suc n) + unat c"
      using Suc.prems step(1) by (simp add: seg_Suc algebra_simps)
    finally show ?thesis
    proof (intro exI [of _ c'] exI [of _ ds] conjI allI impI)
      show "add_carry r i (Suc n) c st = Some (c', set_obj st r ((obj st r)\<lparr>mdata := ds\<rparr>))"
        by (simp only: run ds(1)) (simp add: st1_def)
      show "ds ! j = ?R ! j" if "j < i" for j
        using ds(4) [of j] that by (auto simp: st1_def)
    qed (use ds in \<open>simp_all add: st1_def\<close>)
  qed
qed

text \<open>
  The sum is exact unless the carry leaves the top word of an \<open>r\<close> that is longer than \<open>b\<close>: then
  it is dropped.
\<close>

definition add_result :: "nat \<Rightarrow> nat \<Rightarrow> nat \<Rightarrow> nat" where
  "add_result sz b_len s = (if sz \<le> b_len then s else s mod radix ^ sz)"

lemma add_in_place_ok:
  fixes st :: mstore and r b :: nat
  assumes m: "mem_ok st"
  defines "bl \<equiv> mpint_get_length (obj st b)"
  defines "sz \<equiv> max (length (mdata (obj st r))) (max 1 bl)"
  shows "\<exists>m. add_in_place r b st = Some (0, set_obj st r m) \<and> msign m = 1 \<and>
    mval m = add_result sz bl (mval (obj st r) + mval (obj st b)) \<and> 
    sz \<le> length (mdata m) \<and> length (mdata m) \<le> Suc sz"
proof -
  let ?R0 = "mdata (obj st r)" and ?B0 = "mdata (obj st b)"
  define R where "R = ?R0 @ replicate (max (Suc 0) bl - length ?R0) 0"
  define st1 where "st1 = set_obj st r \<lparr>msign = 1, mdata = R\<rparr>"
  have ob: "obj st1 r = \<lparr>msign = 1, mdata = R\<rparr>" by (simp add: st1_def)
  have blsz: "bl \<le> sz" "bl + (sz - bl) = sz" by (simp_all add: sz_def)
  have lenR: "length R = sz" by (simp add: R_def sz_def)
  have bl: "bl \<le> length ?B0" by (simp add: bl_def get_length_le)
  have lenB: "bl \<le> length (mdata (obj st1 b))" using bl lenR by (simp add: st1_def sz_def le_max_iff_disj)
  obtain c1 D where D: "add_words r b 0 bl 0 st1 = Some (c1, set_obj st1 r ((obj st1 r)\<lparr>mdata := D\<rparr>))"
    "unat c1 \<le> 1" "length D = sz" "\<And>j. bl \<le> j \<Longrightarrow> D ! j = R ! j"
    "seg D 0 bl + radix ^ bl * unat c1 = seg R 0 bl + seg (mdata (obj st1 b)) 0 bl"
    using add_words_ok [of 0 bl st1 r b 0] lenB lenR blsz by (auto simp: ob)
  have segB: "seg (mdata (obj st1 b)) 0 bl = mval (obj st b)"
  proof -
    have "seg (mdata (obj st1 b)) 0 bl = seg ?B0 0 bl"
      using bl by (auto simp: st1_def R_def seg_append)
    then show ?thesis using val_get_length [of "obj st b"] by (simp add: seg_take bl_def)
  qed
  define st2 where "st2 = set_obj st r \<lparr>msign = 1, mdata = D\<rparr>"
  have D2: "add_words r b 0 bl 0 st1 = Some (c1, st2)"
    using D(1) by (simp add: st1_def st2_def)
  obtain c2 E where E: "add_carry r bl (sz - bl) c1 st2 = Some (c2, set_obj st r \<lparr>msign = 1, mdata = E\<rparr>)"
    "unat c2 \<le> 1" "sz - bl = 0 \<longrightarrow> c2 = c1" "length E = sz" "\<forall>j<bl. E ! j = D ! j"
    "seg E bl (sz - bl) + radix ^ (sz - bl) * unat c2 = seg D bl (sz - bl) + unat c1"
    using add_carry_ok [of bl "sz - bl" st2 r c1] D(2,3) blsz by (auto simp: st2_def)
  have whole: "val E + radix ^ sz * unat c2 = mval (obj st r) + mval (obj st b)"
  proof -
    note bls = blsz(2)
    have low: "seg E 0 bl = seg D 0 bl" using E(4,5) D(3) bls by (intro seg_cong) auto
    have high: "seg D bl (sz - bl) = seg R bl (sz - bl)"
      using D(3,4) lenR bls by (intro seg_cong) auto
    have split: "val xs = seg xs 0 bl + radix ^ bl * seg xs bl (sz - bl)" if "length xs = sz" for xs
      using that bls seg_split [of 0 bl xs "sz - bl"] seg_all [of xs] by simp
    have "val E + radix ^ sz * unat c2 =
        seg E 0 bl + radix ^ bl * (seg E bl (sz - bl) + radix ^ (sz - bl) * unat c2)"
      using bls by (simp add: split [OF E(4)] distrib_left flip: power_add mult.assoc)
    also have "\<dots> = (seg D 0 bl + radix ^ bl * unat c1) + radix ^ bl * seg R bl (sz - bl)"
      by (simp only: E(6) low high distrib_left add.assoc add.commute add.left_commute)
    also have "\<dots> = val R + mval (obj st b)"
      by (simp add: D(5) segB split [OF lenR])
    finally show ?thesis by (simp add: R_def val_pad mval_def)
  qed
  have run: "add_in_place r b st =
    (if c2 \<noteq> 0 \<and> sz \<le> bl
     then Some (0, set_obj st r \<lparr>msign = 1, mdata = E @ [1]\<rparr>)
     else Some (0, set_obj st r \<lparr>msign = 1, mdata = E\<rparr>))"
  proof -
    have st1: "set_sign (set_obj st r ((obj st r)\<lparr>mdata := R\<rparr>)) r 1 = st1"
      by (simp add: st1_def store_simps mpint_update_both)
    have len: "length (mdata (obj st2 r)) = sz" by (simp add: st2_def D(3))
    have fin: "add_carry r bl (length D - bl) c1 st2 = Some (c2, set_obj st r \<lparr>msign = 1, mdata = E\<rparr>)"
      using E(1) D(3) by simp
    have run: "add_in_place r b st = (let st = set_obj st r \<lparr>msign = 1, mdata = E\<rparr> in
      if c2 \<noteq> 0 \<and> sz \<le> bl then do {
        (error, st) \<leftarrow> mpint_grow r (bl + 1) st;
        if error \<noteq> 0 then Some (error, st) else do { st \<leftarrow> set_word st r bl 1; Some (0, st) }
      } else Some (0, st))"
      using m st1 D2 fin D(3)
      by (simp add: add_in_place_def grow_ok bl_def [symmetric] R_def [symmetric] Let_def
          store_simps len del: D(3))
    show ?thesis
    proof (cases "c2 \<noteq> 0 \<and> sz \<le> bl")
      case True
      then have "length E = bl" using E(4) by (simp add: sz_def)
      then have "Suc bl - length E = 1" "(E @ [0])[bl := 1] = E @ [1]"
        by (simp_all add: list_update_append)
      then show ?thesis
        using True m by (simp add: run Let_def grow_ok store_simps max_def)
    qed (auto simp: run Let_def)
  qed
  show ?thesis
  proof (cases "c2 \<noteq> 0 \<and> sz \<le> bl")
    case True
    then have "c2 = 1" using E(2) unat_le_1 [of c2] by simp
    then have "mval \<lparr>msign = 1, mdata = E @ [1]\<rparr> = mval (obj st r) + mval (obj st b)"
      using whole E(4) by (simp add: mval_def val_append)
    then show ?thesis
      using True E(4) by (auto simp: run add_result_def)
  next
    case False
    have "val E = add_result sz bl (mval (obj st r) + mval (obj st b))"
    proof (cases "sz \<le> bl")
      case True
      then show ?thesis using False whole by (simp add: add_result_def)
    next
      case long: False
      have "val E < radix ^ sz" using val_less [of E] E(4) by simp
      then show ?thesis using long whole [symmetric] by (simp add: add_result_def)
    qed
    then show ?thesis
      using False E(4) by (auto simp: run mval_def)
  qed
qed

subsection \<open>Loops that write one word a round\<close>

text \<open>\<open>fill lo hi f ds\<close>: the words from \<open>lo\<close> to \<open>hi\<close> become \<open>f\<close> of their index.\<close>

definition fill :: "nat \<Rightarrow> nat \<Rightarrow> (nat \<Rightarrow> u32) \<Rightarrow> u32 list \<Rightarrow> u32 list" where
  "fill lo hi f ds = map (\<lambda>k. if lo \<le> k \<and> k < hi then f k else ds ! k) [0..<length ds]"

lemma length_fill [simp]: "length (fill lo hi f ds) = length ds"
  by (simp add: fill_def)

lemma nth_fill: "k < length ds \<Longrightarrow> fill lo hi f ds ! k = (if lo \<le> k \<and> k < hi then f k else ds ! k)"
  by (simp add: fill_def)

lemma fill_empty [simp]: "hi \<le> lo \<Longrightarrow> fill lo hi f ds = ds"
  by (rule nth_equalityI) (auto simp: nth_fill)

lemma fill_Suc: "lo \<le> hi \<Longrightarrow> (fill lo hi f ds)[hi := f hi] = fill lo (Suc hi) f ds"
  by (rule nth_equalityI) (auto simp: nth_fill nth_list_update less_Suc_eq)

lemma fill_first: "lo \<le> hi \<Longrightarrow> fill lo hi f (ds[hi := f hi]) = fill lo (Suc hi) f ds"
  by (rule nth_equalityI) (auto simp: nth_fill nth_list_update less_Suc_eq)

lemma for_each_up:
  assumes "\<And>j ds'. lo \<le> j \<Longrightarrow> j < hi \<Longrightarrow> length ds' = length ds \<Longrightarrow>
      (\<And>k. k < length ds \<Longrightarrow> k < lo \<or> j \<le> k \<Longrightarrow> ds' ! k = ds ! k) \<Longrightarrow> body j (S ds') = Some (S (ds'[j := f j]))"
    and "hi \<le> length ds"
  shows "for_each body [lo..<hi] (S ds) = Some (S (fill lo hi f ds))"
  using assms
proof (induction hi)
  case (Suc hi)
  show ?case
  proof (cases "lo \<le> hi")
    case True
    have "for_each body [lo..<hi] (S ds) = Some (S (fill lo hi f ds))"
      using Suc by simp
    moreover have "body hi (S (fill lo hi f ds)) = Some (S ((fill lo hi f ds)[hi := f hi]))"
    proof (rule Suc.prems(1))
      show "fill lo hi f ds ! k = ds ! k" if "k < length ds" "k < lo \<or> hi \<le> k" for k
        using that by (auto simp: nth_fill)
    qed (use True in simp_all)
    ultimately show ?thesis using True by (simp add: for_each_append fill_Suc)
  qed simp
qed simp

lemma for_each_down:
  assumes "\<And>j ds'. lo \<le> j \<Longrightarrow> j < hi \<Longrightarrow> length ds' = length ds \<Longrightarrow>
      (\<And>k. k \<le> j \<Longrightarrow> ds' ! k = ds ! k) \<Longrightarrow> body j (S ds') = Some (S (ds'[j := f j]))"
    and "hi \<le> length ds"
  shows "for_each body (rev [lo..<hi]) (S ds) = Some (S (fill lo hi f ds))"
  using assms
proof (induction hi arbitrary: ds)
  case (Suc hi)
  show ?case
  proof (cases "lo \<le> hi")
    case True
    have "body hi (S ds) = Some (S (ds[hi := f hi]))" using Suc.prems True by simp
    moreover have "for_each body (rev [lo..<hi]) (S (ds[hi := f hi])) = Some (S (fill lo hi f (ds[hi := f hi])))"
      using Suc.prems by (intro Suc.IH) auto
    ultimately show ?thesis using True by (simp add: fill_first)
  qed simp
qed simp

subsection \<open>Subtraction of absolute values\<close>

lemma sub_step:
  fixes x y c :: u32
  assumes c: "unat c \<le> 1"
    and t: "t = (if c \<noteq> 0 then x - 1 else x)"
    and c': "c' = (if t < y then 1 else if c \<noteq> 0 \<and> x \<noteq> 0 then 0 else c)"
  shows "unat (t - y) + unat y + unat c = unat x + radix * unat c'" and "unat c' \<le> 1"
proof -
  have "c = 0 \<or> c = 1" using c by (simp only: unat_le_1)
  moreover have "1 < radix" by (simp add: radix_def)
  ultimately show "unat (t - y) + unat y + unat c = unat x + radix * unat c'"
    using unat_less_radix [of x] unat_less_radix [of y]
    by (auto simp: t c' word_less_nat_alt unat_sub32 word_unat_eq_iff simp del: unat_less_radix
        split: if_splits)
  show "unat c' \<le> 1" using c by (simp add: c')
qed

lemma sub_words_ok:
  assumes "i + n \<le> length (mdata (obj st r))" "i + n \<le> length (mdata (obj st a))"
    "i + n \<le> length (mdata (obj st b))" "unat c \<le> 1"
  shows "\<exists>c' ds. sub_words r a b i n c st = Some (c', set_obj st r ((obj st r)\<lparr>mdata := ds\<rparr>)) \<and>
    unat c' \<le> 1 \<and> length ds = length (mdata (obj st r)) \<and>
    (\<forall>j. j < i \<or> i + n \<le> j \<longrightarrow> ds ! j = mdata (obj st r) ! j) \<and>
    seg ds i n + seg (mdata (obj st b)) i n + unat c = seg (mdata (obj st a)) i n + radix ^ n * unat c'"
  using assms
proof (induction n arbitrary: i c st)
  case 0
  then show ?case by (intro exI [of _ c] exI [of _ "mdata (obj st r)"]) simp
next
  case (Suc n)
  let ?R = "mdata (obj st r)" and ?A = "mdata (obj st a)" and ?B = "mdata (obj st b)"
  define t where "t = (if c \<noteq> 0 then ?A ! i - 1 else ?A ! i)"
  define c1 where "c1 = (if t < ?B ! i then 1 else if c \<noteq> 0 \<and> ?A ! i \<noteq> 0 then 0 else c)"
  define st1 where "st1 = set_obj st r ((obj st r)\<lparr>mdata := ?R[i := t - ?B ! i]\<rparr>)"
  note step = sub_step [OF Suc.prems(4) t_def c1_def]
  have run: "sub_words r a b i (Suc n) c st = sub_words r a b (Suc i) n c1 st1"
    using Suc.prems by (simp add: store_simps Let_def t_def [symmetric] st1_def c1_def cong: if_cong)
  have "Suc i + n \<le> length (mdata (obj st1 r))" "Suc i + n \<le> length (mdata (obj st1 a))"
    "Suc i + n \<le> length (mdata (obj st1 b))"
    using Suc.prems by (simp_all add: st1_def)
  from Suc.IH [OF this step(2)] obtain c' ds where ds:
    "sub_words r a b (Suc i) n c1 st1 = Some (c', set_obj st1 r ((obj st1 r)\<lparr>mdata := ds\<rparr>))"
    "unat c' \<le> 1" "length ds = length (mdata (obj st1 r))"
    "\<And>j. j < Suc i \<or> Suc i + n \<le> j \<Longrightarrow> ds ! j = mdata (obj st1 r) ! j"
    "seg ds (Suc i) n + seg (mdata (obj st1 b)) (Suc i) n + unat c1 =
      seg (mdata (obj st1 a)) (Suc i) n + radix ^ n * unat c'"
    by blast
  have segs: "seg (mdata (obj st1 a)) (Suc i) n = seg ?A (Suc i) n"
    "seg (mdata (obj st1 b)) (Suc i) n = seg ?B (Suc i) n"
    using Suc.prems by (auto simp: st1_def intro!: seg_cong)
  have "ds ! i = t - ?B ! i" using ds(4) [of i] Suc.prems by (simp add: st1_def)
  then have D: "seg ds i (Suc n) = unat (t - ?B ! i) + radix * seg ds (Suc i) n"
    using Suc.prems ds(3) by (simp add: seg_Suc st1_def)
  have "seg ds i (Suc n) + seg ?B i (Suc n) + unat c =
      (unat (t - ?B ! i) + unat (?B ! i) + unat c) + radix * (seg ds (Suc i) n + seg ?B (Suc i) n)"
    using Suc.prems by (simp add: D seg_Suc algebra_simps)
  also have "\<dots> = unat (?A ! i) + radix * (seg ds (Suc i) n + seg ?B (Suc i) n + unat c1)"
    by (simp only: step(1)) (simp add: algebra_simps)
  also have "\<dots> = unat (?A ! i) + radix * (seg ?A (Suc i) n + radix ^ n * unat c')"
    using ds(5) by (simp only: segs)
  also have "\<dots> = seg ?A i (Suc n) + radix ^ Suc n * unat c'"
    using Suc.prems by (simp add: seg_Suc algebra_simps)
  finally show ?case
  proof (intro exI [of _ c'] exI [of _ ds] conjI allI impI)
    show "sub_words r a b i (Suc n) c st = Some (c', set_obj st r ((obj st r)\<lparr>mdata := ds\<rparr>))"
      by (simp only: run ds(1)) (simp add: st1_def)
    show "ds ! j = ?R ! j" if "j < i \<or> i + Suc n \<le> j" for j
      using ds(4) [of j] that by (auto simp: st1_def)
  qed (use ds in \<open>simp_all add: st1_def\<close>)
qed

lemma sub_borrow_ok:
  assumes "i + n \<le> length (mdata (obj st r))" "i + n \<le> length (mdata (obj st a))"
    "unat c \<le> 1" "unat c \<le> seg (mdata (obj st a)) i n"
  shows "\<exists>k ds. sub_borrow r a i n c st = Some (k, set_obj st r ((obj st r)\<lparr>mdata := ds\<rparr>)) \<and>
    i \<le> k \<and> k \<le> i + n \<and> length ds = length (mdata (obj st r)) \<and>
    (\<forall>j. j < i \<or> k \<le> j \<longrightarrow> ds ! j = mdata (obj st r) ! j) \<and>
    seg ds i (k - i) + unat c = seg (mdata (obj st a)) i (k - i)"
  using assms
proof (induction n arbitrary: i c st)
  case 0
  then show ?case by (intro exI [of _ i] exI [of _ "mdata (obj st r)"]) simp
next
  case (Suc n)
  let ?R = "mdata (obj st r)" and ?A = "mdata (obj st a)"
  show ?case
  proof (cases "c = 0")
    case True
    then show ?thesis by (intro exI [of _ i] exI [of _ ?R]) simp
  next
    case False
    then have c: "unat c = 1" using Suc.prems(3) unat_le_1 [of c] by auto
    define c1 where "c1 = (if ?A ! i \<noteq> 0 then 0 else c)"
    define st1 where "st1 = set_obj st r ((obj st r)\<lparr>mdata := ?R[i := ?A ! i - 1]\<rparr>)"
    have run: "sub_borrow r a i (Suc n) c st = sub_borrow r a (Suc i) n c1 st1"
      using Suc.prems False by (simp add: store_simps st1_def c1_def)
    have step: "unat (?A ! i - 1) + unat c = unat (?A ! i) + radix * unat c1"
      using c unat_less_radix [of "?A ! i"]
      by (auto simp: c1_def unat_sub32 word_unat_eq_iff simp del: unat_less_radix split: if_splits)
    have "Suc i + n \<le> length (mdata (obj st1 r))" "Suc i + n \<le> length (mdata (obj st1 a))"
      "unat c1 \<le> 1" using Suc.prems by (simp_all add: st1_def c1_def)
    moreover have seg1: "seg (mdata (obj st1 a)) (Suc i) k = seg ?A (Suc i) k" if "k \<le> n" for k
      using Suc.prems that by (auto simp: st1_def intro!: seg_cong)
    have "unat c1 \<le> seg (mdata (obj st1 a)) (Suc i) n"
      using Suc.prems c by (auto simp: seg1 c1_def seg_Suc)
    ultimately obtain k ds where ds:
      "sub_borrow r a (Suc i) n c1 st1 = Some (k, set_obj st1 r ((obj st1 r)\<lparr>mdata := ds\<rparr>))"
      "Suc i \<le> k" "k \<le> Suc i + n" "length ds = length (mdata (obj st1 r))"
      "\<And>j. j < Suc i \<or> k \<le> j \<Longrightarrow> ds ! j = mdata (obj st1 r) ! j"
      "seg ds (Suc i) (k - Suc i) + unat c1 = seg (mdata (obj st1 a)) (Suc i) (k - Suc i)"
      using Suc.IH [of "Suc i" st1 c1] by blast
    have k: "k - i = Suc (k - Suc i)" using ds(2) by simp
    have "ds ! i = ?A ! i - 1" using ds(5) [of i] Suc.prems by (simp add: st1_def)
    then have "seg ds i (k - i) = unat (?A ! i - 1) + radix * seg ds (Suc i) (k - Suc i)"
      using Suc.prems ds(4) unfolding k by (simp add: seg_Suc st1_def)
    then have "seg ds i (k - i) + unat c = unat (?A ! i) + radix * (seg ds (Suc i) (k - Suc i) + unat c1)"
      using step by (simp add: algebra_simps)
    also have "\<dots> = seg ?A i (k - i)"
      using Suc.prems ds(3) unfolding k ds(6) by (simp add: seg_Suc seg1)
    finally show ?thesis
    proof (intro exI [of _ k] exI [of _ ds] conjI allI impI)
      show "sub_borrow r a i (Suc n) c st = Some (k, set_obj st r ((obj st r)\<lparr>mdata := ds\<rparr>))"
        by (simp only: run ds(1)) (simp add: st1_def)
      show "ds ! j = ?R ! j" if "j < i \<or> k \<le> j" for j
        using ds(5) [of j] ds(2) that by (auto simp: st1_def)
    qed (use ds in \<open>simp_all add: st1_def\<close>)
  qed
qed

lemma val_zero_above:
  assumes "n \<le> length ds" "\<And>j. n \<le> j \<Longrightarrow> j < length ds \<Longrightarrow> ds ! j = 0"
  shows "val ds = seg ds 0 n"
proof -
  have "val (drop n ds) = 0"
    using assms by (auto simp: val_eq_0_iff in_set_conv_nth)
  then show ?thesis using assms(1) val_take_drop [of n ds] by (simp add: seg_take)
qed

lemma seg_get_length: "seg (mdata a) 0 (mpint_get_length a) = mval a"
  by (simp add: seg_take val_get_length)

lemma sub_borrow_value:
  assumes D: "seg D 0 bl + v = seg A 0 bl + radix ^ bl * c"
    and F: "seg F 0 bl = seg D 0 bl" "seg F bl (k - bl) + c = seg A bl (k - bl)"
      "seg F k (al - k) = seg A k (al - k)"
    and le: "bl \<le> k" "k \<le> al" "al \<le> length F" "al \<le> length A"
  shows "seg F 0 al + v = seg A 0 al"
proof -
  have split: "seg xs 0 al = seg xs 0 bl + radix ^ bl * (seg xs bl (k - bl) + radix ^ (k - bl) * seg xs k (al - k))"
    if "al \<le> length xs" for xs
    using seg_split [of 0 bl xs "al - bl"] seg_split [of bl "k - bl" xs "al - k"] that le by simp
  have "seg F 0 al + v = (seg D 0 bl + v) + radix ^ bl * (seg F bl (k - bl) + radix ^ (k - bl) * seg A k (al - k))"
    using le by (simp add: split F)
  also have "\<dots> = seg A 0 bl + radix ^ bl * ((seg F bl (k - bl) + c) + radix ^ (k - bl) * seg A k (al - k))"
    unfolding D by (simp add: algebra_simps)
  also have "\<dots> = seg A 0 al" using le by (simp only: F split)
  finally show ?thesis .
qed

lemma sub_ordered_ok:
  fixes st :: mstore and r a b :: nat
  assumes m: "mem_ok st" and le: "mval (obj st b) \<le> mval (obj st a)"
  shows "\<exists>m. sub_ordered r a b st = Some (0, set_obj st r m) \<and> msign m = 1 \<and>
    mval m = mval (obj st a) - mval (obj st b) \<and>
    length (mdata m) = max (length (mdata (obj st r))) (max 1 (mpint_get_length (obj st a)))"
proof -
  let ?R0 = "mdata (obj st r)" and ?A0 = "mdata (obj st a)" and ?B0 = "mdata (obj st b)"
  define al where "al = mpint_get_length (obj st a)"
  define bl where "bl = mpint_get_length (obj st b)"
  define sz where "sz = max (length ?R0) (max 1 al)"
  define R where "R = ?R0 @ replicate (max (Suc 0) al - length ?R0) 0"
  define st1 where "st1 = set_obj st r \<lparr>msign = 1, mdata = R\<rparr>"
  define A where "A = mdata (obj st1 a)"
  have al: "al \<le> length ?A0" and bl: "bl \<le> length ?B0" by (simp_all add: al_def bl_def get_length_le)
  have blal: "bl \<le> al"
    using get_length_less_iff [of "obj st a" "obj st b"] le by (force simp: al_def bl_def)
  have lenR: "length R = sz" and alsz: "al \<le> sz" by (simp_all add: R_def sz_def)
  have A: "al \<le> length A" "seg A 0 al = mval (obj st a)"
    using al lenR alsz seg_get_length [of "obj st a"]
    by (auto simp: A_def st1_def al_def [symmetric] R_def seg_append)
  have Anth: "A ! j = ?A0 ! j" if "j < al" for j
    using that al by (auto simp: A_def st1_def R_def nth_append)
  have B: "bl \<le> length (mdata (obj st1 b))" "seg (mdata (obj st1 b)) 0 bl = mval (obj st b)"
    using bl lenR alsz blal seg_get_length [of "obj st b"]
    by (auto simp: st1_def bl_def [symmetric] R_def seg_append)
  obtain c D where D: "sub_words r a b 0 bl 0 st1 = Some (c, set_obj st r \<lparr>msign = 1, mdata = D\<rparr>)"
    "unat c \<le> 1" "length D = sz" "\<And>j. bl \<le> j \<Longrightarrow> D ! j = R ! j"
    "seg D 0 bl + mval (obj st b) = seg A 0 bl + radix ^ bl * unat c"
    using sub_words_ok [of 0 bl st1 r a b 0] A(1) B lenR alsz blal
    by (auto simp: A_def [symmetric]) (auto simp: st1_def)
  define st2 where "st2 = set_obj st r \<lparr>msign = 1, mdata = D\<rparr>"
  have A2: "seg (mdata (obj st2 a)) i n = seg A i n" if "bl \<le> i" "i + n \<le> al" for i n
    using that A(1) D(3,4) lenR by (intro seg_cong) (auto simp: st2_def A_def st1_def)
  have A2len: "al \<le> length (mdata (obj st2 a))"
    using A(1) D(3) lenR by (auto simp: st2_def A_def st1_def)
  have "unat c \<le> seg A bl (al - bl)"
  proof (rule ccontr)
    assume "\<not> ?thesis"
    then have "unat c = 1" "seg A bl (al - bl) = 0" using D(2) by linarith+
    moreover have "mval (obj st a) = seg A 0 bl + radix ^ bl * seg A bl (al - bl)"
      using seg_split [of 0 bl A "al - bl"] blal A by simp
    moreover have "seg D 0 bl < radix ^ bl" using D(3) alsz blal by (intro seg_less) simp
    ultimately show False using D(5) le by simp
  qed
  then have "\<exists>k E. sub_borrow r a bl (al - bl) c st2 = Some (k, set_obj st r \<lparr>msign = 1, mdata = E\<rparr>) \<and>
    bl \<le> k \<and> k \<le> al \<and> length E = sz \<and> (\<forall>j. j < bl \<or> k \<le> j \<longrightarrow> E ! j = D ! j) \<and>
    seg E bl (k - bl) + unat c = seg A bl (k - bl)"
    using sub_borrow_ok [of bl "al - bl" st2 r a c] D(2,3) alsz blal A2 [of bl] A2len
    by (fastforce simp: st2_def)
  then obtain k E where E: "sub_borrow r a bl (al - bl) c st2 = Some (k, set_obj st r \<lparr>msign = 1, mdata = E\<rparr>)"
    "bl \<le> k" "k \<le> al" "length E = sz" "\<And>j. j < bl \<or> k \<le> j \<Longrightarrow> E ! j = D ! j"
    "seg E bl (k - bl) + unat c = seg A bl (k - bl)"
    by blast
  define F where "F = (if r = a then E else fill al sz (\<lambda>_. 0) (fill k al (\<lambda>j. A ! j) E))"
  have run: "sub_ordered r a b st = Some (0, set_obj st r \<lparr>msign = 1, mdata = F\<rparr>)"
  proof -
    have st1: "set_sign (set_obj st r ((obj st r)\<lparr>mdata := R\<rparr>)) r 1 = st1"
      by (simp add: st1_def store_simps mpint_update_both)
    let ?S = "\<lambda>ds. set_obj st r \<lparr>msign = 1, mdata = ds\<rparr>"
    have up1: "for_each (\<lambda>j st. do { w \<leftarrow> get_word st a j; set_word st r j w }) [k..<al] (?S E) =
        Some (?S (fill k al (\<lambda>j. A ! j) E))" if "r \<noteq> a"
      using that A(1) E(4) alsz by (intro for_each_up) (auto simp: store_simps A_def st1_def)
    have up2: "for_each (\<lambda>j st. set_word st r j 0) [al..<sz] (?S ds) =
        Some (?S (fill al sz (\<lambda>j. 0) ds))" if "length ds = sz" for ds
      using that alsz by (intro for_each_up) (auto simp: store_simps)
    show ?thesis
      using m st1 D(1) E(1) st2_def up1 up2 [of "fill k al (\<lambda>j. A ! j) E"] E(4)
      by (simp add: sub_ordered_def grow_ok al_def [symmetric] bl_def [symmetric] R_def [symmetric]
          Let_def F_def get_data_def)
  qed
  have Flen: "length F = sz" using E(4) by (simp add: F_def)
  have Fhigh: "F ! j = 0" if "al \<le> j" "j < sz" for j
  proof (cases "r = a")
    case True
    have "R ! j = 0"
    proof (cases "j < length ?R0")
      case True
      then show ?thesis using \<open>r = a\<close> that get_length_zero [of "obj st a" j]
        by (simp add: R_def nth_append al_def)
    next
      case False
      have sum: "length ?R0 + (max (Suc 0) al - length ?R0) = sz" using lenR by (simp add: R_def)
      have "R ! j = replicate (max (Suc 0) al - length ?R0) 0 ! (j - length ?R0)"
        using False by (simp only: R_def nth_append if_False)
      also have "\<dots> = 0"
        using False that sum by (intro nth_replicate) linarith
      finally show ?thesis .
    qed
    then show ?thesis using True that E(3) E(5) [of j] D(4) [of j] blal by (simp add: F_def)
  qed (use that E(4) in \<open>simp add: F_def nth_fill\<close>)
  have Flow: "F ! j = E ! j" if "j < k" for j
    using that E(3,4) alsz by (simp add: F_def nth_fill)
  have Fmid: "F ! j = A ! j" if "k \<le> j" "j < al" for j
    using that E D(4) [of j] alsz by (auto simp: F_def nth_fill A_def st1_def)
  have "seg F 0 al + mval (obj st b) = seg A 0 al"
  proof (rule sub_borrow_value [OF D(5)])
    show "seg F 0 bl = seg D 0 bl"
      using E(2-5) Flen D(3) alsz Flow by (intro seg_cong) auto
    show "seg F bl (k - bl) + unat c = seg A bl (k - bl)"
      using E(2-4,6) Flen alsz Flow seg_cong [of bl "k - bl" F E] by auto
    show "seg F k (al - k) = seg A k (al - k)"
      using E(2-5) Flen alsz Fmid A(1) by (intro seg_cong) auto
  qed (use E(2,3) Flen alsz A(1) in simp_all)
  moreover have "val F = seg F 0 al" using Flen alsz Fhigh by (intro val_zero_above) auto
  ultimately have "mval \<lparr>msign = 1, mdata = F\<rparr> = mval (obj st a) - mval (obj st b)"
    using A(2) by (simp add: mval_def [of "\<lparr>msign = 1, mdata = F\<rparr>"])
  then show ?thesis
    using run Flen by (auto simp: sz_def al_def)
qed

subsection \<open>The public operations\<close>

lemma steps_single [simp]: "steps [f] st = f st"
  by (cases "f st") (auto simp: split_beta prod_eq_iff)

lemma add_result_exact: "s < radix ^ n \<Longrightarrow> n \<le> sz \<Longrightarrow> add_result sz bl s = s"
  using power_increasing [of n sz radix] by (simp add: add_result_def Suc_le_eq)

definition sum_room :: "mstore \<Rightarrow> nat \<Rightarrow> nat \<Rightarrow> nat \<Rightarrow> bool" where
  "sum_room st r a b \<longleftrightarrow> (r = a \<or> r = b \<or> copy_ok (obj st r) (obj st a)) \<and>
     mval (obj st a) + mval (obj st b) < radix ^ length (mdata (obj st r))"

lemma add_abs_ok:
  assumes m: "mem_ok st" and room: "sum_room st r a b"
  shows "\<exists>m. mpint_add_abs r a b st = Some (0, set_obj st r m) \<and> msign m = 1 \<and>
    mval m = mval (obj st a) + mval (obj st b) \<and> length (mdata (obj st r)) \<le> length (mdata m)"
proof -
  let ?s = "mval (obj st a) + mval (obj st b)" and ?n = "length (mdata (obj st r))"
  have fit: "?s < radix ^ ?n" using room by (simp add: sum_room_def)
  consider (swap) "r = b" | (same) "r \<noteq> b" "r = a" | (other) "r \<noteq> b" "r \<noteq> a" by blast
  then show ?thesis
  proof cases
    case swap
    then show ?thesis
      using add_in_place_ok [OF m, of r a] add_result_exact [OF fit]
      by (fastforce simp: mpint_add_abs_def add.commute)
  next
    case same
    then show ?thesis
      using add_in_place_ok [OF m, of r b] add_result_exact [OF fit]
      by (fastforce simp: mpint_add_abs_def)
  next
    case other
    then obtain m1 where m1: "mpint_copy r a st = Some (0, set_obj st r m1)"
      "mval m1 = mval (obj st a)" "?n \<le> length (mdata m1)"
      using copy_spec [OF m, of r a] room by (auto simp: sum_room_def)
    have fit1: "?s < radix ^ length (mdata m1)"
      using fit m1(3) power_increasing [of ?n "length (mdata m1)" radix] by (simp add: Suc_le_eq)
    have "mem_ok (set_obj st r m1)" using m by simp
    then show ?thesis
      using add_in_place_ok [of "set_obj st r m1" r b] add_result_exact [OF fit1] m1 other
      by (fastforce simp: mpint_add_abs_def)
  qed
qed

lemma sub_abs_ok:
  assumes m: "mem_ok st"
  shows "\<exists>m. mpint_sub_abs r a b st = Some (0, set_obj st r m) \<and> msign m = 1 \<and>
    int (mval m) = \<bar>int (mval (obj st a)) - int (mval (obj st b))\<bar> \<and>
    length (mdata (obj st r)) \<le> length (mdata m) \<and>
    length (mdata m) = max (length (mdata (obj st r)))
      (max 1 (max (mpint_get_length (obj st a)) (mpint_get_length (obj st b))))"
proof (cases "mval (obj st a) < mval (obj st b)")
  case True
  then have "mpint_get_length (obj st a) \<le> mpint_get_length (obj st b)"
    using get_length_less_iff [of "obj st b" "obj st a"] by linarith
  then show ?thesis
    using True sub_ordered_ok [OF m, of a b r]
    by (auto simp: mpint_sub_abs_def comp_abs_eq sgn_if max_absorb2 of_nat_diff)
next
  case False
  then have "mpint_get_length (obj st b) \<le> mpint_get_length (obj st a)"
    using get_length_less_iff [of "obj st a" "obj st b"] by linarith
  then show ?thesis
    using False sub_ordered_ok [OF m, of b a r]
    by (auto simp: mpint_sub_abs_def comp_abs_eq sgn_if max_absorb1 of_nat_diff)
qed

lemma mval_update_sign [simp]: "mval (m\<lparr>msign := s\<rparr>) = mval m"
  by (simp add: mval_def)

lemma add_ok:
  assumes m: "mem_ok st" and s: "sign_ok (obj st a)" "sign_ok (obj st b)"
    and room: "msign (obj st a) = msign (obj st b) \<Longrightarrow> sum_room st r a b"
  shows "\<exists>m. mpint_add r a b st = Some (0, set_obj st r m) \<and> sign_ok m \<and>
    msgn m = msgn (obj st a) + msgn (obj st b) \<and> length (mdata (obj st r)) \<le> length (mdata m)"
proof (cases "msign (obj st a) = msign (obj st b)")
  case True
  then obtain m where "mpint_add_abs r a b st = Some (0, set_obj st r m)"
    "mval m = mval (obj st a) + mval (obj st b)" "length (mdata (obj st r)) \<le> length (mdata m)"
    using add_abs_ok [OF m room] by blast
  then show ?thesis
    using True s by (intro exI [of _ "m\<lparr>msign := msign (obj st a)\<rparr>"])
      (simp add: mpint_add_def store_simps sign_ok_def msgn_def distrib_left)
next
  case False
  then have neg: "msign (obj st b) = - msign (obj st a)"
    using s by (auto simp: sign_ok_def)
  obtain m1 m2 where m1: "mpint_sub_abs r a b st = Some (0, set_obj st r m1)"
      "int (mval m1) = \<bar>int (mval (obj st a)) - int (mval (obj st b))\<bar>"
      "length (mdata (obj st r)) \<le> length (mdata m1)"
    and m2: "mpint_sub_abs r b a st = Some (0, set_obj st r m2)"
      "int (mval m2) = \<bar>int (mval (obj st b)) - int (mval (obj st a))\<bar>"
      "length (mdata (obj st r)) \<le> length (mdata m2)"
    using sub_abs_ok [OF m, of r a b] sub_abs_ok [OF m, of r b a] by blast
  show ?thesis
  proof (cases "mval (obj st b) \<le> mval (obj st a)")
    case True
    then show ?thesis
      using False s m1 by (intro exI [of _ "m1\<lparr>msign := msign (obj st a)\<rparr>"])
        (simp add: mpint_add_def comp_abs_eq sgn_if store_simps sign_ok_def msgn_def neg right_diff_distrib)
  next
    case less: False
    then show ?thesis
      using False s m2 by (intro exI [of _ "m2\<lparr>msign := - msign (obj st a)\<rparr>"])
        (auto simp: mpint_add_def comp_abs_eq sgn_if store_simps sign_ok_def msgn_def neg)
  qed
qed

lemma sub_ok:
  assumes m: "mem_ok st" and s: "sign_ok (obj st a)" "sign_ok (obj st b)"
    and room: "msign (obj st a) \<noteq> msign (obj st b) \<Longrightarrow> sum_room st r a b"
  shows "\<exists>m. mpint_sub r a b st = Some (0, set_obj st r m) \<and> sign_ok m \<and>
    msgn m = msgn (obj st a) - msgn (obj st b) \<and> length (mdata (obj st r)) \<le> length (mdata m)"
proof (cases "msign (obj st a) = msign (obj st b)")
  case False
  then have neg: "msign (obj st b) = - msign (obj st a)"
    using s by (auto simp: sign_ok_def)
  obtain m where "mpint_add_abs r a b st = Some (0, set_obj st r m)"
    "mval m = mval (obj st a) + mval (obj st b)" "length (mdata (obj st r)) \<le> length (mdata m)"
    using add_abs_ok [OF m room] False by blast
  then show ?thesis
    using False s by (intro exI [of _ "m\<lparr>msign := msign (obj st a)\<rparr>"])
      (simp add: mpint_sub_def store_simps sign_ok_def msgn_def distrib_left neg)
next
  case True
  obtain m1 m2 where m1: "mpint_sub_abs r a b st = Some (0, set_obj st r m1)"
      "int (mval m1) = \<bar>int (mval (obj st a)) - int (mval (obj st b))\<bar>"
      "length (mdata (obj st r)) \<le> length (mdata m1)"
    and m2: "mpint_sub_abs r b a st = Some (0, set_obj st r m2)"
      "int (mval m2) = \<bar>int (mval (obj st b)) - int (mval (obj st a))\<bar>"
      "length (mdata (obj st r)) \<le> length (mdata m2)"
    using sub_abs_ok [OF m, of r a b] sub_abs_ok [OF m, of r b a] by blast
  show ?thesis
  proof (cases "mval (obj st b) \<le> mval (obj st a)")
    case le: True
    then show ?thesis
      using True s m1 by (intro exI [of _ "m1\<lparr>msign := msign (obj st a)\<rparr>"])
        (simp add: mpint_sub_def comp_abs_eq sgn_if store_simps sign_ok_def msgn_def right_diff_distrib)
  next
    case False
    then show ?thesis
      using True s m2 by (intro exI [of _ "m2\<lparr>msign := - msign (obj st a)\<rparr>"])
        (auto simp: mpint_sub_def comp_abs_eq sgn_if store_simps sign_ok_def msgn_def)
  qed
qed

end
