(* ===== verification/Mpint_Shift.thy ===== *)
theory Mpint_Shift
  imports Mpint_Arith
begin

text \<open>
  The shifts of mpint.c on values, bit by bit: a shift to the left multiplies (the object grows
  first, so that nothing is lost), a shift to the right divides.
\<close>

unbundle bit_operations_syntax

subsection \<open>Shifted lists\<close>

lemma val_shift_words_up:
  assumes "length F = length ds"
    and F: "\<And>j. j < length ds \<Longrightarrow> F ! j = (if j < k then 0 else ds ! (j - k))"
  shows "val F = take_bit (32 * length ds) (push_bit (32 * k) (val ds))"
proof (rule bit_eqI)
  fix i :: nat
  have "i < 32 * length ds \<longleftrightarrow> i div 32 < length ds" by (simp add: div_less_iff_less_mult mult.commute)
  moreover have "32 * k \<le> i \<longleftrightarrow> \<not> i div 32 < k" by (simp add: div_less_iff_less_mult mult.commute not_less)
  moreover have "(i - 32 * k) div 32 = i div 32 - k" "(i - 32 * k) mod 32 = i mod 32" if "32 * k \<le> i"
  proof -
    obtain d where "i = 32 * k + d" using \<open>32 * k \<le> i\<close> le_Suc_ex by blast
    then show "(i - 32 * k) div 32 = i div 32 - k" "(i - 32 * k) mod 32 = i mod 32" by simp_all
  qed
  ultimately show "bit (val F) i = bit (take_bit (32 * length ds) (push_bit (32 * k) (val ds))) i"
    using assms less_imp_diff_less [of "i div 32" "length ds" k]
    by (auto simp: bit_val bit_take_bit_iff bit_push_bit_iff)
qed

lemma val_shift_bits_up:
  assumes len: "length F = length ds" and k: "0 < k" "k < 32"
    and F: "\<And>j. j < length ds \<Longrightarrow>
      F ! j = push_bit k (ds ! j) OR (if j = 0 then 0 else drop_bit (32 - k) (ds ! (j - 1)))"
  shows "val F = take_bit (32 * length ds) (push_bit k (val ds))"
proof (rule bit_eqI)
  fix i :: nat
  define j m where "j = i div 32" and "m = i mod 32"
  have i: "i = 32 * j + m" and m: "m < 32" by (simp_all add: j_def m_def)
  have lt: "i < 32 * length ds \<longleftrightarrow> j < length ds" by (simp add: j_def div_less_iff_less_mult mult.commute)
  have high: "\<not> bit w n" if "32 \<le> n" for w :: u32 and n
    using bit_imp_le_length [of w n] that by auto
  have "bit (F ! j) m \<longleftrightarrow> k \<le> i \<and> (i - k) div 32 < length ds \<and> bit (ds ! ((i - k) div 32)) ((i - k) mod 32)"
    if j: "j < length ds"
  proof (cases "k \<le> m")
    case True
    then have "i - k = 32 * j + (m - k)" "m - k < 32" using m by (simp_all add: i)
    then have "(i - k) div 32 = j" "(i - k) mod 32 = m - k" by simp_all
    then show ?thesis using True m j k by (auto simp: F bit_simps high i)
  next
    case False
    show ?thesis
    proof (cases j)
      case 0
      then show ?thesis using False j m by (auto simp: F bit_simps i)
    next
      case (Suc j')
      then have "i - k = 32 * j' + (m + 32 - k)" "m + 32 - k < 32" using False k m by (simp_all add: i)
      then have "(i - k) div 32 = j'" "(i - k) mod 32 = 32 + m - k" by (simp_all add: add.commute)
      then show ?thesis using False Suc m j k by (auto simp: F bit_simps i add.commute)
    qed
  qed
  then show "bit (val F) i = bit (take_bit (32 * length ds) (push_bit k (val ds))) i"
    by (auto simp: bit_val len lt bit_take_bit_iff bit_push_bit_iff simp flip: j_def m_def)
qed

lemma val_shift_words_down:
  assumes "length F = length ds"
    and F: "\<And>j. j < length ds \<Longrightarrow> F ! j = (if j + k < length ds then ds ! (j + k) else 0)"
  shows "val F = drop_bit (32 * k) (val ds)"
  by (rule bit_eqI) (auto simp: bit_val bit_drop_bit_eq assms add.commute split: if_splits)

lemma val_shift_bits_down:
  assumes len: "length F = length ds" and k: "0 < k" "k < 32"
    and F: "\<And>j. j < length ds \<Longrightarrow>
      F ! j = drop_bit k (ds ! j) OR (if Suc j < length ds then push_bit (32 - k) (ds ! Suc j) else 0)"
  shows "val F = drop_bit k (val ds)"
proof (rule bit_eqI)
  fix i :: nat
  define j m where "j = i div 32" and "m = i mod 32"
  have i: "i = 32 * j + m" and m: "m < 32" by (simp_all add: j_def m_def)
  have high: "\<not> bit w n" if "32 \<le> n" for w :: u32 and n
    using bit_imp_le_length [of w n] that by auto
  have "j < length ds \<and> bit (F ! j) m \<longleftrightarrow>
      (k + i) div 32 < length ds \<and> bit (ds ! ((k + i) div 32)) ((k + i) mod 32)"
  proof (cases "k + m < 32")
    case True
    then have "(k + i) div 32 = j" "(k + i) mod 32 = k + m"
      by (simp_all add: i add.left_commute [of k])
    then show ?thesis using True m k by (auto simp: F bit_simps split: if_splits)
  next
    case False
    then have "k + i = 32 * Suc j + (k + m - 32)" "k + m - 32 < 32" using k m by (simp_all add: i)
    then have "(k + i) div 32 = Suc j" "(k + i) mod 32 = k + m - 32"
      by (simp_all only: div_mult_self4 mod_mult_self4 div_less mod_less)
    moreover have "m - (32 - k) = k + m - 32" using k False by simp
    ultimately show ?thesis using False m k
      by (auto simp: F bit_simps high add.commute split: if_splits)
  qed
  then show "bit (val F) i = bit (drop_bit k (val ds)) i"
    by (simp add: bit_val len bit_drop_bit_eq flip: j_def m_def)
qed

subsection \<open>The loops\<close>

abbreviation with_data :: "mstore \<Rightarrow> nat \<Rightarrow> u32 list \<Rightarrow> mstore" where
  "with_data st r ds \<equiv> set_obj st r ((obj st r)\<lparr>mdata := ds\<rparr>)"

lemma with_data_same: "with_data st r (mdata (obj st r)) = st"
  by simp

lemma shift_words_up_ok:
  assumes k: "k \<le> length (mdata (obj st r))"
  shows "\<exists>F. shift_words_up r k st = Some (with_data st r F) \<and> length F = length (mdata (obj st r)) \<and>
    val F = take_bit (32 * length (mdata (obj st r))) (push_bit (32 * k) (val (mdata (obj st r))))"
proof -
  let ?ds = "mdata (obj st r)"
  define G where "G = fill k (length ?ds) (\<lambda>j. ?ds ! (j - k)) ?ds"
  have "for_each (\<lambda>i st. do { w \<leftarrow> get_word st r (i - k); set_word st r i w }) (rev [k..<length ?ds])
      (with_data st r ?ds) = Some (with_data st r G)"
    unfolding G_def by (intro for_each_down) (auto simp: store_simps)
  moreover have "for_each (\<lambda>i st. set_word st r i 0) [0..<k] (with_data st r G) =
      Some (with_data st r (fill 0 k (\<lambda>_. 0) G))"
    using k by (intro for_each_up) (auto simp: store_simps G_def)
  ultimately have "shift_words_up r k st = Some (with_data st r (fill 0 k (\<lambda>_. 0) G))"
    by (simp add: shift_words_up_def get_data_def)
  moreover have "val (fill 0 k (\<lambda>_. 0) G) = take_bit (32 * length ?ds) (push_bit (32 * k) (val ?ds))"
    by (rule val_shift_words_up) (auto simp: G_def nth_fill)
  ultimately show ?thesis by (intro exI [of _ "fill 0 k (\<lambda>_. 0) G"]) (simp add: G_def)
qed

lemma shift_bits_up_ok:
  assumes ne: "mdata (obj st r) \<noteq> []" and k: "0 < k" "k < 32"
  shows "\<exists>F. shift_bits_up r k st = Some (with_data st r F) \<and> length F = length (mdata (obj st r)) \<and>
    val F = take_bit (32 * length (mdata (obj st r))) (push_bit k (val (mdata (obj st r))))"
proof -
  let ?ds = "mdata (obj st r)"
  let ?f = "\<lambda>j. push_bit k (?ds ! j) OR drop_bit (32 - k) (?ds ! (j - 1))"
  define G where "G = fill 1 (length ?ds) ?f ?ds"
  have pos: "0 < length ?ds" using ne by simp
  have "for_each (\<lambda>i st. do { w \<leftarrow> get_word st r i; v \<leftarrow> get_word st r (i - 1);
          set_word st r i (push_bit k w OR drop_bit (32 - k) v) }) (rev [1..<length ?ds])
      (with_data st r ?ds) = Some (with_data st r G)"
    unfolding G_def by (intro for_each_down) (auto simp: store_simps)
  then have "shift_bits_up r k st = Some (with_data st r (G[0 := push_bit k (?ds ! 0)]))"
    using pos by (simp add: shift_bits_up_def store_simps G_def nth_fill)
  moreover have "val (G[0 := push_bit k (?ds ! 0)]) = take_bit (32 * length ?ds) (push_bit k (val ?ds))"
    using k by (intro val_shift_bits_up) (auto simp: G_def nth_fill nth_list_update)
  ultimately show ?thesis
    by (intro exI [of _ "G[0 := push_bit k (?ds ! 0)]"]) (simp add: G_def)
qed

lemma shift_left_ok:
  assumes m: "mem_ok st"
  shows "\<exists>m. mpint_shift_left r n st = Some (0, set_obj st r m) \<and> msign m = msign (obj st r) \<and>
    mval m = mval (obj st r) * 2 ^ n \<and> length (mdata (obj st r)) \<le> length (mdata m)"
proof (cases "mdata (obj st r) = [] \<or> n = 0")
  case True
  then show ?thesis
    by (intro exI [of _ "obj st r"]) (auto simp: mpint_shift_left_def get_data_def mval_def)
next
  case False
  let ?ds = "mdata (obj st r)"
  define L where "L = length ?ds + (n + 31) div 32"
  define R where "R = ?ds @ replicate (L - length ?ds) 0"
  define st1 where "st1 = with_data st r R"
  have R: "length R = L" "val R = mval (obj st r)" "R \<noteq> []"
    using False by (auto simp: R_def L_def val_pad mval_def)
  have nL: "n \<le> 32 * ((n + 31) div 32)"
    using div_mult_mod_eq [of "n + 31" 32] mod_less_divisor [of 32 "n + 31"] by linarith
  have fit: "val R * 2 ^ n < 2 ^ (32 * L)"
  proof -
    have "val R * 2 ^ n < radix ^ length ?ds * 2 ^ n" using val_less [of ?ds] R(2) by (simp add: mval_def)
    also have "\<dots> \<le> 2 ^ (32 * L)" using nL by (simp add: radix_power L_def power_add [symmetric])
    finally show ?thesis .
  qed
  have kL: "n div 32 \<le> L" using nL by (simp add: L_def)
  obtain F where F: "(if 0 < n div 32 then shift_words_up r (n div 32) st1 else Some st1) = Some (with_data st r F)"
    "length F = L" "val F = take_bit (32 * L) (push_bit (32 * (n div 32)) (val R))"
  proof (cases "0 < n div 32")
    case True
    then show ?thesis using shift_words_up_ok [of "n div 32" st1 r] kL that by (auto simp: st1_def R(1))
  next
    case False
    have "val R < 2 ^ (32 * L)" using val_less [of R] R(1) by (simp add: radix_power)
    then show ?thesis using False that [of R] by (simp add: st1_def R(1) take_bit_nat_eq_self)
  qed
  define st2 where "st2 = with_data st r F"
  have valF: "val F = val R * 2 ^ (32 * (n div 32))"
  proof -
    have "val R * 2 ^ (32 * (n div 32)) \<le> val R * 2 ^ n" by simp
    also have "\<dots> < 2 ^ (32 * L)" by (rule fit)
    finally show ?thesis by (simp add: F(3) push_bit_eq_mult take_bit_nat_eq_self)
  qed
  obtain G where G: "(if 0 < n mod 32 then shift_bits_up r (n mod 32) st2 else Some st2) = Some (with_data st r G)"
    "length G = L" "val G = take_bit (32 * L) (push_bit (n mod 32) (val F))"
  proof (cases "0 < n mod 32")
    case True
    have "F \<noteq> []" using F(2) R by auto
    then show ?thesis using True shift_bits_up_ok [of st2 r "n mod 32"] F(2) that by (auto simp: st2_def)
  next
    case False
    have "val F < 2 ^ (32 * L)" using val_less [of F] F(2) by (simp add: radix_power)
    then show ?thesis using False that [of F] F(2) by (simp add: st2_def take_bit_nat_eq_self)
  qed
  have "val F * 2 ^ (n mod 32) = val R * 2 ^ n"
    by (simp add: valF mult.assoc flip: power_add)
  then have "val G = val R * 2 ^ n"
    using fit by (simp add: G(3) push_bit_eq_mult take_bit_nat_eq_self)
  moreover have "mpint_shift_left r n st = Some (0, with_data st r G)"
  proof -
    have "max (Suc 0) (length ?ds + (n + 31) div 32) = L" using R by (cases L) (auto simp: L_def)
    then have grow: "mpint_grow r (length ?ds + (n + 31) div 32) st = Some (0, st1)"
      using m by (simp add: grow_ok st1_def R_def)
    show ?thesis
      using False grow F(1) G(1) by (simp add: mpint_shift_left_def get_data_def st2_def cong: if_cong)
  qed
  ultimately show ?thesis
    using R(2) G(2) by (intro exI [of _ "(obj st r)\<lparr>mdata := G\<rparr>"]) (simp add: mval_def L_def)
qed

lemma shift_words_down_ok:
  assumes k: "k \<le> length (mdata (obj st r))"
  shows "\<exists>F. shift_words_down r k st = Some (with_data st r F) \<and> length F = length (mdata (obj st r)) \<and>
    (\<forall>j. length F - k \<le> j \<and> j < length F \<longrightarrow> F ! j = 0) \<and>
    val F = drop_bit (32 * k) (val (mdata (obj st r)))"
proof -
  let ?ds = "mdata (obj st r)"
  let ?m = "length ?ds - k"
  define G where "G = fill 0 ?m (\<lambda>j. ?ds ! (j + k)) ?ds"
  define F where "F = fill ?m (length ?ds) (\<lambda>_. 0) G"
  have "for_each (\<lambda>i st. do { w \<leftarrow> get_word st r (i + k); set_word st r i w }) [0..<?m]
      (with_data st r ?ds) = Some (with_data st r G)"
    unfolding G_def by (intro for_each_up) (auto simp: store_simps)
  moreover have "for_each (\<lambda>i st. set_word st r i 0) [?m..<length ?ds] (with_data st r G) =
      Some (with_data st r F)"
    unfolding F_def by (intro for_each_up) (auto simp: store_simps G_def)
  ultimately have "shift_words_down r k st = Some (with_data st r F)"
    by (simp add: shift_words_down_def get_data_def Let_def G_def)
  moreover have "val F = drop_bit (32 * k) (val ?ds)"
    using k by (intro val_shift_words_down) (auto simp: F_def G_def nth_fill)
  ultimately show ?thesis by (intro exI [of _ F]) (auto simp: F_def G_def nth_fill)
qed

lemma shift_bits_down_ok:
  assumes n: "n < length (mdata (obj st r))" and k: "0 < k" "k < 32"
    and zero: "\<And>j. n < j \<Longrightarrow> j < length (mdata (obj st r)) \<Longrightarrow> mdata (obj st r) ! j = 0"
  shows "\<exists>F. shift_bits_down r n k st = Some (with_data st r F) \<and> length F = length (mdata (obj st r)) \<and>
    val F = drop_bit k (val (mdata (obj st r)))"
proof -
  let ?ds = "mdata (obj st r)"
  let ?f = "\<lambda>j. drop_bit k (?ds ! j) OR push_bit (32 - k) (?ds ! (j + 1))"
  define G where "G = fill 0 n ?f ?ds"
  have "for_each (\<lambda>i st. do { w \<leftarrow> get_word st r i; v \<leftarrow> get_word st r (i + 1);
          set_word st r i (drop_bit k w OR push_bit (32 - k) v) }) [0..<n]
      (with_data st r ?ds) = Some (with_data st r G)"
    unfolding G_def using n by (intro for_each_up) (auto simp: store_simps)
  then have "shift_bits_down r n k st = Some (with_data st r (G[n := drop_bit k (?ds ! n)]))"
    using n by (simp add: shift_bits_down_def store_simps G_def nth_fill)
  moreover have "val (G[n := drop_bit k (?ds ! n)]) = drop_bit k (val ?ds)"
    using k n zero by (intro val_shift_bits_down) (auto simp: G_def nth_fill nth_list_update)
  ultimately show ?thesis
    by (intro exI [of _ "G[n := drop_bit k (?ds ! n)]"]) (simp add: G_def)
qed

lemma shift_right_ok:
  "\<exists>m. mpint_shift_right r n st = Some (0, set_obj st r m) \<and> msign m = msign (obj st r) \<and>
    mval m = mval (obj st r) div 2 ^ n \<and> length (mdata m) = length (mdata (obj st r))"
proof -
  let ?ds = "mdata (obj st r)"
  have val: "mval (obj st r) = val ?ds" by (simp add: mval_def)
  show ?thesis
  proof (cases "length ?ds \<le> n div 32")
    case True
    then have "32 * length ?ds \<le> n" by linarith
    then have "(2::nat) ^ (32 * length ?ds) \<le> 2 ^ n" by simp
    then have "val ?ds < 2 ^ n" using val_less [of ?ds] by (simp only: radix_power)
    then show ?thesis using True
      by (intro exI [of _ "(obj st r)\<lparr>mdata := replicate (length ?ds) 0\<rparr>"])
        (simp add: mpint_shift_right_def Let_def get_data_def clear_data_def set_data_eq mval_def)
  next
    case False
    define k b where "k = n div 32" and "b = n mod 32"
    have n: "n = 32 * k + b" and k: "k < length ?ds" and b: "b < 32"
      using False by (simp_all add: k_def b_def)
    obtain F where F: "(if 0 < k then shift_words_down r k st else Some st) = Some (with_data st r F)"
      "length F = length ?ds" "\<And>j. length F - k \<le> j \<Longrightarrow> j < length F \<Longrightarrow> F ! j = 0"
      "val F = drop_bit (32 * k) (val ?ds)"
    proof (cases "0 < k")
      case True
      then show ?thesis using shift_words_down_ok [of k st r] k that by auto
    qed (use that [of ?ds] in simp)
    define st1 where "st1 = with_data st r F"
    obtain G where G: "(if 0 < b then shift_bits_down r (length ?ds - k - 1) b st1 else Some st1) =
        Some (with_data st r G)" "length G = length ?ds" "val G = drop_bit b (val F)"
    proof (cases "0 < b")
      case True
      have "\<exists>G. shift_bits_down r (length ?ds - k - 1) b st1 = Some (with_data st1 r G) \<and>
          length G = length (mdata (obj st1 r)) \<and> val G = drop_bit b (val (mdata (obj st1 r)))"
        using True b k F(2,3) by (intro shift_bits_down_ok) (auto simp: st1_def)
      then show ?thesis using True that F(2) by (auto simp: st1_def)
    qed (use that [of F] F(2) in \<open>simp add: st1_def\<close>)
    have "val G = val ?ds div 2 ^ n"
      by (simp add: G(3) F(4) drop_bit_eq_div n power_add flip: div_mult2_eq)
    moreover have "mpint_shift_right r n st = Some (0, with_data st r G)"
      using False F(1) G(1)
      by (simp add: mpint_shift_right_def Let_def get_data_def st1_def k_def b_def cong: if_cong)
    ultimately show ?thesis
      using G(2) by (intro exI [of _ "(obj st r)\<lparr>mdata := G\<rparr>"]) (simp add: mval_def)
  qed
qed

end
