(* ===== verification/Mpint_Mul.thy ===== *)
theory Mpint_Mul
  imports Mpint_Shift
begin

text \<open>
  Multiplication: the multiply-accumulate kernel adds a word multiple of a segment, the schoolbook
  loop adds them all up, and \<open>mpint_mul\<close> gives the signed product, also when the result is one of
  the arguments.
\<close>

unbundle bit_operations_syntax

subsection \<open>Multiply and accumulate\<close>

lemma carry32: "unat (x + y :: u32) + radix * (if x + y < y then 1 else 0) = unat x + unat y"
  using unat_less_radix [of x] unat_less_radix [of y]
  by (auto simp: word_less_nat_alt unat_add32 simp del: unat_less_radix split: if_splits)

lemma acc_step:
  fixes x b c y :: u32 and p :: u64
  assumes p: "p = ucast x * ucast b"
    and l1: "l1 = (ucast p :: u32) + c"
    and u1: "u1 = (if l1 < c then (ucast (drop_bit 32 p) :: u32) + 1 else ucast (drop_bit 32 p))"
    and l2: "l2 = l1 + y" and u2: "u2 = (if l2 < y then u1 + 1 else u1)"
  shows "unat l2 + radix * unat u2 = unat x * unat b + unat c + unat y"
proof -
  define P where "P = unat x * unat b"
  have b: "unat x \<le> radix - 1" "unat b \<le> radix - 1" "unat c \<le> radix - 1" "unat y \<le> radix - 1"
    using unat_less_radix [of x] unat_less_radix [of b] unat_less_radix [of c] unat_less_radix [of y]
    by linarith+
  have P: "P \<le> (radix - 1) * (radix - 1)" using b by (simp add: P_def mult_le_mono)
  have total: "P + unat c + unat y < radix * radix"
    using P b by (simp add: radix_def)
  have uc: "unat (ucast w :: u64) = unat w" for w :: u32
  proof -
    have "unat w < 2 ^ 64" using unat_less_radix [of w] by (simp add: radix_def)
    then show ?thesis by (simp add: unsigned_ucast_eq take_bit_nat_eq_self)
  qed
  have up: "unat p = P"
  proof -
    have "unat (ucast x :: u64) * unat (ucast b :: u64) < 2 ^ LENGTH(64)"
      using total by (simp add: uc P_def radix_def)
    then show ?thesis by (simp add: p unat_mult_lem [THEN iffD1] uc P_def)
  qed
  have lo: "unat (ucast p :: u32) = P mod radix"
    by (simp add: unsigned_ucast_eq up take_bit_eq_mod radix_def)
  have hi: "unat (ucast (drop_bit 32 p) :: u32) = P div radix"
  proof -
    have "unat (drop_bit 32 p) = P div radix"
      by (simp only: unat_drop_bit_eq) (simp only: drop_bit_eq_div up radix_def)
    moreover have "P div radix < radix" using total by (simp add: div_less_iff_less_mult)
    ultimately show ?thesis by (simp add: unsigned_ucast_eq take_bit_nat_eq_self radix_def)
  qed
  have PP: "P mod radix + radix * (P div radix) = P" by simp
  have s1: "unat l1 + radix * (if l1 < c then 1 else 0) = P mod radix + unat c"
    using carry32 [of "ucast p" c] by (simp only: l1 lo)
  have v1: "unat u1 = P div radix + (if l1 < c then 1 else 0)"
  proof (cases "l1 < c")
    case True
    have "P div radix + 1 < radix"
    proof (rule ccontr)
      assume "\<not> ?thesis"
      then have "radix * (radix - 1) \<le> radix * (P div radix)" by (intro mult_le_mono2) simp
      then have "radix * (radix - 1) \<le> P" using PP by linarith
      then show False using P by (simp add: radix_def)
    qed
    then show ?thesis using True by (simp add: u1 unat_add32 hi)
  qed (simp add: u1 hi)
  have t1: "unat l1 + radix * unat u1 = P + unat c"
  proof -
    have "unat l1 + radix * unat u1 = (unat l1 + radix * (if l1 < c then 1 else 0)) + radix * (P div radix)"
      by (simp add: v1 distrib_left)
    then show ?thesis using s1 PP by linarith
  qed
  have s2: "unat l2 + radix * (if l2 < y then 1 else 0) = unat l1 + unat y"
    using carry32 [of l1 y] by (simp only: l2)
  have "unat u2 = unat u1 + (if l2 < y then 1 else 0)"
  proof (cases "l2 < y")
    case True
    have "unat u1 + 1 < radix"
    proof (rule ccontr)
      assume "\<not> ?thesis"
      then have "radix * radix \<le> radix * (unat u1 + 1)" by (intro mult_le_mono2) simp
      then show False using s2 True t1 total by simp
    qed
    then show ?thesis using True by (simp add: u2 unat_add32)
  qed (simp add: u2)
  then show ?thesis using s2 t1 by (simp add: distrib_left P_def)
qed

lemma acc_words_ok:
  assumes "r \<noteq> a" "off + i + n \<le> length (mdata (obj st r))" "i + n \<le> length (mdata (obj st a))"
  shows "\<exists>c' ds. acc_words r off a b i n c st = Some (c', with_data st r ds) \<and>
    length ds = length (mdata (obj st r)) \<and>
    (\<forall>j. j < off + i \<or> off + i + n \<le> j \<longrightarrow> ds ! j = mdata (obj st r) ! j) \<and>
    seg ds (off + i) n + radix ^ n * unat c' =
      seg (mdata (obj st r)) (off + i) n + unat b * seg (mdata (obj st a)) i n + unat c"
  using assms
proof (induction n arbitrary: i c st)
  case 0
  then show ?case by (intro exI [of _ c] exI [of _ "mdata (obj st r)"]) simp
next
  case (Suc n)
  let ?R = "mdata (obj st r)" and ?A = "mdata (obj st a)"
  define p where "p = (ucast (?A ! i) :: u64) * ucast b"
  define l1 where "l1 = (ucast p :: u32) + c"
  define u1 where "u1 = (if l1 < c then (ucast (drop_bit 32 p) :: u32) + 1 else ucast (drop_bit 32 p))"
  define l2 where "l2 = l1 + ?R ! (off + i)"
  define u2 where "u2 = (if l2 < ?R ! (off + i) then u1 + 1 else u1)"
  define st1 where "st1 = with_data st r (?R[off + i := l2])"
  note step = acc_step [OF p_def l1_def u1_def l2_def u2_def]
  have run: "acc_words r off a b i (Suc n) c st = acc_words r off a b (Suc i) n u2 st1"
    using Suc.prems
    by (simp add: store_simps Let_def p_def l1_def u1_def l2_def u2_def st1_def cong: if_cong)
  have prems: "r \<noteq> a" "off + Suc i + n \<le> length (mdata (obj st1 r))" "Suc i + n \<le> length (mdata (obj st1 a))"
    using Suc.prems by (simp_all add: st1_def)
  from Suc.IH [OF prems] obtain c' ds where ds:
    "acc_words r off a b (Suc i) n u2 st1 = Some (c', with_data st1 r ds)"
    "length ds = length (mdata (obj st1 r))"
    "\<And>j. j < off + Suc i \<or> off + Suc i + n \<le> j \<Longrightarrow> ds ! j = mdata (obj st1 r) ! j"
    "seg ds (off + Suc i) n + radix ^ n * unat c' =
      seg (mdata (obj st1 r)) (off + Suc i) n + unat b * seg (mdata (obj st1 a)) (Suc i) n + unat u2"
    by blast
  have segs: "seg (mdata (obj st1 r)) (Suc (off + i)) n = seg ?R (Suc (off + i)) n"
    "mdata (obj st1 a) = ?A"
    using Suc.prems by (auto simp: st1_def intro!: seg_cong)
  have ds4: "seg ds (Suc (off + i)) n + radix ^ n * unat c' =
      seg ?R (Suc (off + i)) n + unat b * seg ?A (Suc i) n + unat u2"
    using ds(4) by (simp only: add_Suc_right segs)
  have "ds ! (off + i) = l2" using ds(3) [of "off + i"] Suc.prems by (simp add: st1_def)
  moreover have "off + i < length ds" using Suc.prems ds(2) by (simp add: st1_def)
  ultimately have D: "seg ds (off + i) (Suc n) = unat l2 + radix * seg ds (Suc (off + i)) n"
    by (subst seg_Suc) simp_all
  have "seg ds (off + i) (Suc n) + radix ^ Suc n * unat c' =
      unat l2 + radix * (seg ds (Suc (off + i)) n + radix ^ n * unat c')"
    unfolding D by (simp add: distrib_left)
  also have "\<dots> = (unat l2 + radix * unat u2) + radix * (seg ?R (Suc (off + i)) n + unat b * seg ?A (Suc i) n)"
    unfolding ds4 by (simp add: distrib_left)
  also have "\<dots> = seg ?R (off + i) (Suc n) + unat b * seg ?A i (Suc n) + unat c"
    using Suc.prems unfolding step by (simp add: seg_Suc algebra_simps)
  finally show ?case
  proof (intro exI [of _ c'] exI [of _ ds] conjI allI impI)
    show "acc_words r off a b i (Suc n) c st = Some (c', with_data st r ds)"
      by (simp only: run ds(1)) (simp add: st1_def)
    show "ds ! j = ?R ! j" if "j < off + i \<or> off + i + Suc n \<le> j" for j
      using ds(3) [of j] that by (auto simp: st1_def)
  qed (use ds in \<open>simp_all add: st1_def\<close>)
qed

lemma acc_carry_ok:
  assumes "i + n = length (mdata (obj st r))" "seg (mdata (obj st r)) i n + unat c < radix ^ n"
  shows "\<exists>ds. acc_carry r i n c st = Some (with_data st r ds) \<and>
    length ds = length (mdata (obj st r)) \<and> (\<forall>j < i. ds ! j = mdata (obj st r) ! j) \<and>
    seg ds i n = seg (mdata (obj st r)) i n + unat c"
  using assms
proof (induction n arbitrary: i c st)
  case 0
  then show ?case by (intro exI [of _ "mdata (obj st r)"]) (simp add: unat_eq_0)
next
  case (Suc n)
  let ?R = "mdata (obj st r)"
  show ?case
  proof (cases "c = 0")
    case True
    then show ?thesis by (intro exI [of _ ?R]) simp
  next
    case False
    define t where "t = ?R ! i + c"
    define c1 where "c1 = (if t < c then 1 else 0 :: u32)"
    define st1 where "st1 = with_data st r (?R[i := t])"
    have step: "unat t + radix * unat c1 = unat (?R ! i) + unat c"
      using carry32 [of "?R ! i" c] by (auto simp: t_def c1_def)
    have run: "acc_carry r i (Suc n) c st = acc_carry r (Suc i) n c1 st1"
      using Suc.prems False by (simp add: store_simps st1_def c1_def t_def)
    have seg1: "seg (mdata (obj st1 r)) (Suc i) n = seg ?R (Suc i) n"
      using Suc.prems by (auto simp: st1_def intro!: seg_cong)
    have "radix * (seg ?R (Suc i) n + unat c1) \<le> seg ?R i (Suc n) + unat c"
      using Suc.prems step by (simp add: seg_Suc distrib_left)
    also have "\<dots> < radix * radix ^ n" using Suc.prems(2) by simp
    finally have "seg ?R (Suc i) n + unat c1 < radix ^ n" by simp
    then have prems: "Suc i + n = length (mdata (obj st1 r))"
      "seg (mdata (obj st1 r)) (Suc i) n + unat c1 < radix ^ n"
      using Suc.prems(1) by (simp_all add: seg1) (simp add: st1_def)
    from Suc.IH [OF prems] obtain ds where ds: "acc_carry r (Suc i) n c1 st1 = Some (with_data st1 r ds)"
      "length ds = length (mdata (obj st1 r))" "\<And>j. j < Suc i \<Longrightarrow> ds ! j = mdata (obj st1 r) ! j"
      "seg ds (Suc i) n = seg (mdata (obj st1 r)) (Suc i) n + unat c1"
      by blast
    have "ds ! i = t" using ds(3) [of i] Suc.prems by (simp add: st1_def)
    moreover have "i < length ds" using Suc.prems ds(2) by (simp add: st1_def)
    ultimately have "seg ds i (Suc n) = unat t + radix * (seg ?R (Suc i) n + unat c1)"
      by (simp only: seg_Suc ds(4) seg1)
    then have "seg ds i (Suc n) = seg ?R i (Suc n) + unat c"
      using Suc.prems step by (simp add: seg_Suc distrib_left)
    then show ?thesis
    proof (intro exI [of _ ds] conjI allI impI)
      show "acc_carry r i (Suc n) c st = Some (with_data st r ds)"
        by (simp only: run ds(1)) (simp add: st1_def)
      show "ds ! j = ?R ! j" if "j < i" for j
        using ds(3) [of j] that by (auto simp: st1_def)
    qed (use ds in \<open>simp_all add: st1_def\<close>)
  qed
qed

lemma mul_acc_core_ok:
  fixes st :: mstore and r a off m :: nat and b :: u32
  defines "R \<equiv> mdata (obj st r)"
  defines "V \<equiv> val R + radix ^ off * (unat b * seg (mdata (obj st a)) 0 m)"
  assumes ra: "r \<noteq> a" and len: "off + m \<le> length R" "m \<le> length (mdata (obj st a))"
    and fit: "V < radix ^ length R"
  shows "\<exists>ds. mpint_mul_acc_core r off a m b st = Some (with_data st r ds) \<and>
    length ds = length R \<and> val ds = V"
proof -
  define n where "n = length R - (off + m)"
  obtain c D where D: "acc_words r off a b 0 m 0 st = Some (c, with_data st r D)" "length D = length R"
    "\<And>j. j < off \<or> off + m \<le> j \<Longrightarrow> D ! j = R ! j"
    "seg D off m + radix ^ m * unat c = seg R off m + unat b * seg (mdata (obj st a)) 0 m"
    using acc_words_ok [of r a off 0 m st b 0] ra len by (auto simp: R_def)
  have sum: "off + m + n = length R" using len by (simp add: n_def)
  have low: "seg D 0 off = seg R 0 off" and high: "seg D (off + m) n = seg R (off + m) n"
    using D(2,3) sum by (auto intro!: seg_cong)
  have split: "val xs = seg xs 0 off + radix ^ off * seg xs off m + radix ^ (off + m) * seg xs (off + m) n"
    if "length xs = length R" for xs
    using val_seg3 [of off m xs] that len by (simp add: n_def)
  have V: "seg D 0 off + radix ^ off * seg D off m + radix ^ (off + m) * (seg D (off + m) n + unat c) = V"
  proof -
    have "seg D 0 off + radix ^ off * seg D off m + radix ^ (off + m) * (seg D (off + m) n + unat c) =
        seg D 0 off + radix ^ off * (seg D off m + radix ^ m * unat c) + radix ^ (off + m) * seg D (off + m) n"
      by (simp add: power_add algebra_simps)
    also have "\<dots> = V"
      unfolding D(4) low high V_def split [OF refl] by (simp add: algebra_simps)
    finally show ?thesis .
  qed
  have "seg D (off + m) n + unat c < radix ^ n"
  proof (rule ccontr)
    assume "\<not> ?thesis"
    then have "radix ^ (off + m) * radix ^ n \<le> radix ^ (off + m) * (seg D (off + m) n + unat c)" by simp
    then have "radix ^ (off + m) * radix ^ n \<le> V" using V by linarith
    then have "radix ^ length R \<le> V" by (simp only: sum [symmetric] power_add)
    then show False using fit by simp
  qed
  then obtain E where E: "acc_carry r (off + m) n c (with_data st r D) = Some (with_data st r E)"
    "length E = length R" "\<And>j. j < off + m \<Longrightarrow> E ! j = D ! j"
    "seg E (off + m) n = seg D (off + m) n + unat c"
    using acc_carry_ok [of "off + m" n "with_data st r D" r c] D(2) sum by auto
  have "seg E 0 off = seg D 0 off" "seg E off m = seg D off m"
    using D(2) E(2,3) sum by (auto intro!: seg_cong)
  then have "val E = V" using split [OF E(2)] V by (simp add: E(4))
  then show ?thesis
    using D(1) E(1,2) D(2)
    by (intro exI [of _ E]) (simp add: mpint_mul_acc_core_def get_data_def n_def)
qed


subsection \<open>The product\<close>

lemma mul_loop_ok:
  fixes st :: mstore and r a b n :: nat
  assumes ra: "r \<noteq> a" and rb: "r \<noteq> b"
    and len: "al + bl \<le> length (mdata (obj st r))" "al \<le> length (mdata (obj st a))"
      "bl \<le> length (mdata (obj st b))"
    and zero: "val (mdata (obj st r)) = 0"
  shows "\<exists>ds. mul_loop r a al b bl st = Some (with_data st r ds) \<and>
    length ds = length (mdata (obj st r)) \<and>
    val ds = seg (mdata (obj st a)) 0 al * seg (mdata (obj st b)) 0 bl"
proof -
  let ?A = "mdata (obj st a)" and ?B = "mdata (obj st b)" and ?L = "length (mdata (obj st r))"
  let ?body = "\<lambda>i st. do { w \<leftarrow> get_word st b i; mpint_mul_acc_core r i a al w st }"
  have "\<exists>ds. for_each ?body [0..<n] st = Some (with_data st r ds) \<and> length ds = ?L \<and>
      val ds = seg ?A 0 al * seg ?B 0 n" if "n \<le> bl" for n
    using that
  proof (induction n)
    case 0
    then show ?case by (intro exI [of _ "mdata (obj st r)"]) (simp add: zero)
  next
    case (Suc n)
    then obtain ds where ds: "for_each ?body [0..<n] st = Some (with_data st r ds)" "length ds = ?L"
      "val ds = seg ?A 0 al * seg ?B 0 n" by auto
    have n: "n < length ?B" using Suc.prems len(3) by simp
    have segB: "seg ?B 0 (Suc n) = seg ?B 0 n + radix ^ n * unat (?B ! n)"
      using n seg_split [of 0 n ?B 1] seg_Suc [of n ?B 0] by simp
    have V: "val ds + radix ^ n * (unat (?B ! n) * seg ?A 0 al) = seg ?A 0 al * seg ?B 0 (Suc n)"
      by (simp add: ds(3) segB algebra_simps)
    have "seg ?A 0 al * seg ?B 0 (Suc n) < radix ^ al * radix ^ Suc n"
      using n len(2) by (intro mult_strict_mono' seg_less) auto
    also have "\<dots> \<le> radix ^ ?L"
      using len(1) Suc.prems by (subst power_add [symmetric], intro power_increasing) (simp_all add: Suc_le_eq)
    finally have fit: "val ds + radix ^ n * (unat (?B ! n) * seg ?A 0 al) < radix ^ ?L" by (simp only: V)
    have "\<exists>es. mpint_mul_acc_core r n a al (?B ! n) (with_data st r ds) = Some (with_data (with_data st r ds) r es) \<and>
        length es = length (mdata (obj (with_data st r ds) r)) \<and>
        val es = val (mdata (obj (with_data st r ds) r)) +
          radix ^ n * (unat (?B ! n) * seg (mdata (obj (with_data st r ds) a)) 0 al)"
    proof (rule mul_acc_core_ok [OF ra])
      show "n + al \<le> length (mdata (obj (with_data st r ds) r))"
        "al \<le> length (mdata (obj (with_data st r ds) a))"
        using ra len Suc.prems ds(2) by simp_all
    qed (use ra fit ds(2) in simp)
    then obtain es where es: "mpint_mul_acc_core r n a al (?B ! n) (with_data st r ds) = Some (with_data st r es)"
      "length es = ?L" "val es = seg ?A 0 al * seg ?B 0 (Suc n)"
      using ra ds(2) V by auto
    then show ?case using ds(1) n rb
      by (intro exI [of _ es]) (simp add: for_each_append store_simps)
  qed
  from this [of bl] show ?thesis by (simp add: mul_loop_def)
qed

lemma mul_disjoint_ok:
  assumes m: "mem_ok st" and ra: "r \<noteq> a" and rb: "r \<noteq> b"
    and s: "sign_ok (obj st a)" "sign_ok (obj st b)"
  shows "\<exists>m. mul_disjoint r a b st = Some (0, set_obj st r m) \<and> sign_ok m \<and>
    msgn m = msgn (obj st a) * msgn (obj st b) \<and>
    msign m = msign (obj st a) * msign (obj st b) \<and>
    length (mdata m) = max (length (mdata (obj st r)))
      (max 1 (mpint_get_length (obj st a) + mpint_get_length (obj st b)))"
proof -
  define al where "al = mpint_get_length (obj st a)"
  define bl where "bl = mpint_get_length (obj st b)"
  define L where "L = max (length (mdata (obj st r))) (max 1 (al + bl))"
  define sg where "sg = (if msign (obj st a) = msign (obj st b) then 1 else -1 :: int)"
  define st1 where "st1 = set_obj st r \<lparr>msign = sg, mdata = replicate L 0\<rparr>"
  have sg: "sg = msign (obj st a) * msign (obj st b)" using s by (auto simp: sg_def sign_ok_def)
  have grow: "\<exists>st0. mpint_grow r (al + bl) st = Some (0, st0) \<and> clear_data (set_sign st0 r sg) r = st1"
    using m by (simp add: grow_ok store_simps st1_def L_def mpint_update_both max_def)
  have len: "al + bl \<le> length (mdata (obj st1 r))" "al \<le> length (mdata (obj st1 a))"
      "bl \<le> length (mdata (obj st1 b))"
    using ra rb by (simp_all add: st1_def L_def al_def bl_def get_length_le)
  have vals: "seg (mdata (obj st1 a)) 0 al = mval (obj st a)" "seg (mdata (obj st1 b)) 0 bl = mval (obj st b)"
    using ra rb by (simp_all add: st1_def al_def bl_def seg_get_length)
  have zero: "val (mdata (obj st1 r)) = 0" by (simp add: st1_def)
  have "\<exists>ds. (if al < bl then mul_loop r b bl a al st1 else mul_loop r a al b bl st1) = Some (with_data st1 r ds) \<and>
      length ds = L \<and> val ds = mval (obj st a) * mval (obj st b)"
  proof (cases "al < bl")
    case True
    then show ?thesis
      using mul_loop_ok [OF rb ra _ len(3,2) zero] len(1) vals by (auto simp: add.commute mult.commute st1_def)
  next
    case False
    then show ?thesis
      using mul_loop_ok [OF ra rb len zero] vals by (auto simp: st1_def)
  qed
  then obtain ds where ds:
    "(if al < bl then mul_loop r b bl a al st1 else mul_loop r a al b bl st1) = Some (with_data st1 r ds)"
    "length ds = L" "val ds = mval (obj st a) * mval (obj st b)" by blast
  have "mul_disjoint r a b st = Some (0, set_obj st r \<lparr>msign = sg, mdata = ds\<rparr>)"
  proof -
    have "(if msign (obj st0 a) = msign (obj st0 b) then 1 else -1) = sg"
      if "mpint_grow r (al + bl) st = Some (0, st0)" for st0
      using that m ra rb by (auto simp: grow_ok sg_def)
    then show ?thesis
      using grow ds(1) by (auto simp: mul_disjoint_def Let_def al_def [symmetric] bl_def [symmetric] st1_def cong: if_cong)
  qed
  moreover have "sign_ok \<lparr>msign = sg, mdata = ds\<rparr>" by (simp add: sign_ok_def sg_def)
  moreover have "msgn \<lparr>msign = sg, mdata = ds\<rparr> = msgn (obj st a) * msgn (obj st b)"
    using ds(3) by (simp add: msgn_def mval_def sg)
  ultimately show ?thesis
    using ds(2) by (intro exI [of _ "\<lparr>msign = sg, mdata = ds\<rparr>"]) (simp add: L_def al_def bl_def sg)
qed

subsection \<open>Local variables\<close>

lemma steps_append:
  "steps (fs @ gs) st = do { (e, st) \<leftarrow> steps fs st; if e \<noteq> 0 then Some (e, st) else steps gs st }"
  by (induction fs arbitrary: st) (auto split: Option.bind_splits)

lemma sp_enter [simp]: "sp (enter k st) = sp st + k"
  by (simp add: enter_def)

lemma alloc_ok_enter [simp]: "alloc_ok (enter k st) = alloc_ok st"
  by (simp add: enter_def)

lemma mem_ok_enter [simp]: "mem_ok (enter k st) = mem_ok st"
  by (simp add: mem_ok_def)

lemma obj_enter: "obj (enter k st) i = (if sp st \<le> i \<and> i < sp st + k then mpint_init else obj st i)"
  by (simp add: enter_def)

lemma obj_enter_below [simp]: "i < sp st \<Longrightarrow> obj (enter k st) i = obj st i"
  by (simp add: obj_enter)

lemma obj_enter_local [simp]: "sp st \<le> i \<Longrightarrow> i < sp st + k \<Longrightarrow> obj (enter k st) i = mpint_init"
  by (simp add: obj_enter)

lemma stack_ok_enter: "stack_ok st \<Longrightarrow> stack_ok (enter k st)"
  by (simp add: stack_ok_def obj_enter)

lemma stack_ok_set_obj: "stack_ok st \<Longrightarrow> x < sp st \<Longrightarrow> stack_ok (set_obj st x m)"
  by (simp add: stack_ok_def)

lemma leave_enter [simp]: "stack_ok st \<Longrightarrow> leave k (enter k st) = st"
  by (cases st) (auto simp: leave_def enter_def stack_ok_def fun_eq_iff)

lemma leave_local [simp]: "sp st - k \<le> x \<Longrightarrow> x < sp st \<Longrightarrow> leave k (set_obj st x m) = leave k st"
  by (auto simp: leave_def set_obj_def fun_eq_iff)

lemma leave_global [simp]: "x < sp st - k \<Longrightarrow> leave k (set_obj st x m) = set_obj (leave k st) x m"
  by (auto simp: leave_def set_obj_def fun_eq_iff)

lemma mpint_init_simps [simp]: "mdata mpint_init = []" "msign mpint_init = 1" "mval mpint_init = 0"
  by (simp_all add: mpint_init_def mval_def)

lemma copy_to_fresh:
  assumes "mem_ok st" "obj st x = mpint_init" "mdata (obj st y) \<noteq> []"
  shows "\<exists>m. mpint_copy x y st = Some (0, set_obj st x m) \<and> msign m = msign (obj st y) \<and>
    mval m = mval (obj st y) \<and> length (mdata m) = max 1 (mpint_get_length (obj st y))"
  using copy_spec [of st x y] assms by (auto simp: copy_ok_def)

lemma msgn_eq: "msign m = msign m' \<Longrightarrow> mval m = mval m' \<Longrightarrow> msgn m = msgn m'"
  by (simp add: msgn_def)

text \<open>\<open>live st x\<close>: \<open>x\<close> is an object of the caller.\<close>

abbreviation live :: "mstore \<Rightarrow> nat \<Rightarrow> bool" where
  "live st x \<equiv> x < sp st"

lemma get_length_cong: "mval a = mval b \<Longrightarrow> mpint_get_length a = mpint_get_length b"
  using get_length_le_iff [of a] get_length_le_iff [of b] by (metis order_antisym order_refl)

lemma copy_if:
  assumes "mem_ok st" "obj st x = mpint_init" "c \<Longrightarrow> mdata (obj st y) \<noteq> []"
  shows "\<exists>m. steps (if c then [mpint_copy x y] else []) st = Some (0, if c then set_obj st x m else st) \<and>
    (c \<longrightarrow> msign m = msign (obj st y) \<and> mval m = mval (obj st y))"
  using copy_to_fresh [of st x y] assms by (cases c) auto

lemma mul_ok:
  assumes m: "mem_ok st" and k: "stack_ok st" and l: "live st r" "live st a" "live st b"
    and s: "sign_ok (obj st a)" "sign_ok (obj st b)"
    and nonempty: "r = a \<or> r = b \<Longrightarrow> mdata (obj st r) \<noteq> []"
  shows "\<exists>m. mpint_mul r a b st = Some (0, set_obj st r m) \<and> sign_ok m \<and>
    msgn m = msgn (obj st a) * msgn (obj st b) \<and>
    msign m = msign (obj st a) * msign (obj st b) \<and>
    length (mdata m) = max (length (mdata (obj st r)))
      (max 1 (mpint_get_length (obj st a) + mpint_get_length (obj st b)))"
proof -
  let ?ta = "sp st" and ?tb = "sp st + 1"
  define s0 where "s0 = enter 2 st"
  define a' where "a' = (if r = a then ?ta else a)"
  define b' where "b' = (if r = b then ?tb else b)"
  obtain ma where ma: "steps (if r = a then [mpint_copy ?ta a] else []) s0 =
      Some (0, if r = a then set_obj s0 ?ta ma else s0)"
    "r = a \<Longrightarrow> msign ma = msign (obj st a) \<and> mval ma = mval (obj st a)"
    using copy_if [of s0 ?ta "r = a" a] m l nonempty by (auto simp: s0_def)
  define s1 where "s1 = (if r = a then set_obj s0 ?ta ma else s0)"
  have "obj s1 ?tb = mpint_init" "obj s1 b = obj st b" "mem_ok s1" using m l by (simp_all add: s1_def s0_def)
  then obtain mb where mb: "steps (if r = b then [mpint_copy ?tb b] else []) s1 =
      Some (0, if r = b then set_obj s1 ?tb mb else s1)"
    "r = b \<Longrightarrow> msign mb = msign (obj st b) \<and> mval mb = mval (obj st b)"
    using copy_if [of s1 ?tb "r = b" b] nonempty by auto
  define s2 where "s2 = (if r = b then set_obj s1 ?tb mb else s1)"
  have ne: "r \<noteq> a'" "r \<noteq> b'" using l by (auto simp: a'_def b'_def)
  have oa: "msign (obj s2 a') = msign (obj st a)" "mval (obj s2 a') = mval (obj st a)"
    using l ma(2) by (auto simp: a'_def s2_def s1_def s0_def)
  have ob: "msign (obj s2 b') = msign (obj st b)" "mval (obj s2 b') = mval (obj st b)"
    using l mb(2) by (auto simp: b'_def s2_def s1_def s0_def)
  have r: "obj s2 r = obj st r" and m2: "mem_ok s2" using l m by (auto simp: s2_def s1_def s0_def)
  have "sign_ok (obj s2 a')" "sign_ok (obj s2 b')" using s by (simp_all add: sign_ok_def oa ob)
  from mul_disjoint_ok [OF m2 ne this] obtain x where x: "mul_disjoint r a' b' s2 = Some (0, set_obj s2 r x)"
    "sign_ok x" "msgn x = msgn (obj st a) * msgn (obj st b)"
    "msign x = msign (obj st a) * msign (obj st b)"
    "length (mdata x) = max (length (mdata (obj st r)))
      (max 1 (mpint_get_length (obj st a) + mpint_get_length (obj st b)))"
    using msgn_eq [OF oa] msgn_eq [OF ob] get_length_cong [OF oa(2)] get_length_cong [OF ob(2)] r oa(1) ob(1) by auto
  have "leave 2 (set_obj s2 r x) = set_obj st r x"
    using k l by (auto simp: s2_def s1_def s0_def)
  moreover define fa where "fa = (if r = a then [mpint_copy ?ta a] else [])"
  moreover define fb where "fb = (if r = b then [mpint_copy ?tb b] else [])"
  moreover have "mpint_mul r a b st = with_locals 2 (steps (fa @ fb @ [mul_disjoint r a' b'])) st"
    by (simp only: mpint_mul_def Let_def fa_def fb_def a'_def b'_def)
  moreover have "steps fa s0 = Some (0, s1)" "steps fb s1 = Some (0, s2)"
    using ma(1) mb(1) by (simp_all only: fa_def fb_def s1_def s2_def)
  ultimately have "mpint_mul r a b st = Some (0, set_obj st r x)"
    using x(1) by (simp add: with_locals_def steps_append flip: s0_def)
  then show ?thesis using x by blast
qed

end
