(* ===== verification/Mpint_Div.thy ===== *)
theory Mpint_Div
  imports Mpint_Mul
begin

text \<open>
  Single bits and constants, then division and reduction: the shift-and-subtract loops of
  \<open>mpint_div\<close> and \<open>mpint_mod\<close> give quotient and remainder, and the loop of \<open>mpint_mod\<close> ends.
\<close>

unbundle bit_operations_syntax

lemma mstore_eqI:
  "sp s = sp t \<Longrightarrow> alloc_ok s = alloc_ok t \<Longrightarrow> (\<And>x. obj s x = obj t x) \<Longrightarrow> s = (t :: mstore)"
  by (cases s, cases t) (simp add: fun_eq_iff)

subsection \<open>Constants and bits\<close>

lemma set_value_ok:
  assumes m: "mem_ok st" and a: "\<bar>a\<bar> < 2 ^ 32"
  shows "\<exists>m. mpint_set_value r a st = Some (0, set_obj st r m) \<and> msign m = mp_sign a \<and>
    int (mval m) = \<bar>a\<bar> \<and> length (mdata m) = max 1 (length (mdata (obj st r)))"
proof -
  let ?L = "max 1 (length (mdata (obj st r)))"
  define ds where "ds = (replicate ?L 0)[0 := mp_abs a]"
  have len: "length (mdata (obj st r)) + (max (Suc 0) (Suc 0) - length (mdata (obj st r))) = ?L"
    by (simp add: max_def)
  have "mpint_set_value r a st = Some (0, set_obj st r \<lparr>msign = mp_sign a, mdata = ds\<rparr>)"
    using m len by (simp add: mpint_set_value_def grow_ok store_simps mpint_update_both ds_def)
  moreover have "ds = mp_abs a # replicate (?L - 1) 0" by (cases ?L) (auto simp: ds_def)
  then have "val ds = unat (mp_abs a)" by simp
  moreover have "int (unat (mp_abs a)) = \<bar>a\<bar>"
  proof -
    have "mp_abs a = word_of_int \<bar>a\<bar>" by (simp add: mp_abs_def abs_if)
    then show ?thesis using a by (simp add: uint_word_of_int)
  qed
  ultimately show ?thesis
    by (intro exI [of _ "\<lparr>msign = mp_sign a, mdata = ds\<rparr>"])
      (simp add: mval_def, simp add: ds_def)
qed

lemma div_mod_32_eq_iff: "i = j \<longleftrightarrow> i div 32 = j div 32 \<and> i mod 32 = j mod (32 :: nat)"
  by (metis div_mult_mod_eq)

lemma set_bit_value_ok:
  assumes m: "mem_ok st"
  shows "\<exists>m. mpint_set_bit_value r i v st = Some (0, set_obj st r m) \<and> msign m = msign (obj st r) \<and>
    mval m = (if v \<noteq> 0 then set_bit i (mval (obj st r)) else unset_bit i (mval (obj st r))) \<and>
    length (mdata m) = max (length (mdata (obj st r))) (Suc (i div 32))"
proof -
  let ?ds = "mdata (obj st r)"
  define R where "R = ?ds @ replicate (Suc (i div 32) - length ?ds) 0"
  define w where "w = (if v \<noteq> 0 then R ! (i div 32) OR push_bit (i mod 32) 1
    else R ! (i div 32) AND NOT (push_bit (i mod 32) 1))"
  define F where "F = R[i div 32 := w]"
  have len: "length R = max (length ?ds) (Suc (i div 32))" by (simp add: R_def max_def)
  have R: "val R = mval (obj st r)" by (simp add: R_def val_pad mval_def)
  have run: "mpint_set_bit_value r i v st = Some (0, set_obj st r ((obj st r)\<lparr>mdata := F\<rparr>))"
    using m len by (simp add: mpint_set_bit_value_def grow_ok R_def [symmetric] store_simps F_def w_def)
  have "val F = (if v \<noteq> 0 then set_bit i (val R) else unset_bit i (val R))"
  proof (rule bit_eqI)
    fix k :: nat
    have "k div 32 < length F \<and> bit (F ! (k div 32)) (k mod 32) \<longleftrightarrow>
      (if v \<noteq> 0 then k = i \<or> k div 32 < length R \<and> bit (R ! (k div 32)) (k mod 32)
       else k \<noteq> i \<and> k div 32 < length R \<and> bit (R ! (k div 32)) (k mod 32))"
    proof (cases "k div 32 = i div 32")
      case True
      have b: "bit w n \<longleftrightarrow> (if v \<noteq> 0 then n = i mod 32 \<or> bit (R ! (i div 32)) n
          else n \<noteq> i mod 32 \<and> bit (R ! (i div 32)) n)" if "n < 32" for n
        using that by (auto simp: w_def bit_simps)
      show ?thesis using True len b [of "k mod 32"]
        by (auto simp: F_def div_mod_32_eq_iff [of k i])
    qed (auto simp: F_def div_mod_32_eq_iff [of k i])
    then show "bit (val F) k = bit (if v \<noteq> 0 then set_bit i (val R) else unset_bit i (val R)) k"
      by (auto simp: bit_val bit_set_bit_iff bit_unset_bit_iff)
  qed
  then show ?thesis
    using run len R by (intro exI [of _ "(obj st r)\<lparr>mdata := F\<rparr>"])
      (simp add: mval_def [of "(obj st r)\<lparr>mdata := F\<rparr>"], simp add: F_def)
qed

lemma sub_pos_ok:
  assumes m: "mem_ok st" and s: "msign (obj st a) = msign (obj st b)"
    and le: "mval (obj st b) \<le> mval (obj st a)"
  shows "\<exists>m. mpint_sub r a b st = Some (0, set_obj st r m) \<and> msign m = msign (obj st a) \<and>
    mval m = mval (obj st a) - mval (obj st b) \<and> length (mdata (obj st r)) \<le> length (mdata m)"
proof -
  obtain x where x: "mpint_sub_abs r a b st = Some (0, set_obj st r x)"
    "int (mval x) = \<bar>int (mval (obj st a)) - int (mval (obj st b))\<bar>"
    "length (mdata (obj st r)) \<le> length (mdata x)"
    using sub_abs_ok [OF m] by blast
  moreover from x(2) le have "mval x = mval (obj st a) - mval (obj st b)" by linarith
  ultimately show ?thesis
    using s le by (intro exI [of _ "x\<lparr>msign := msign (obj st a)\<rparr>"])
      (simp add: mpint_sub_def comp_abs_eq sgn_if store_simps)
qed

subsection \<open>Division\<close>

lemma div_loop_ok:
  assumes "mem_ok st" and "c \<noteq> d" "c \<noteq> e" "d \<noteq> e" and "0 < p"
    and "msign (obj st c) = 1" "msign (obj st d) = 1" "mval (obj st c) < p * 2 ^ k"
    and "0 < k \<Longrightarrow> mval (obj st d) = p * 2 ^ (k - 1)"
  shows "\<exists>mc md me. div_loop c d e k st = Some (0, set_obj (set_obj (set_obj st c mc) d md) e me) \<and>
    msign mc = 1 \<and> mval mc = mval (obj st c) mod p \<and> length (mdata (obj st c)) \<le> length (mdata mc) \<and>
    msign me = msign (obj st e) \<and> mval me = mval (obj st e) * 2 ^ k + mval (obj st c) div p \<and>
    length (mdata (obj st e)) \<le> length (mdata me)"
  using assms
proof (induction k arbitrary: st)
  case 0
  then show ?case
    by (intro exI [of _ "obj st c"] exI [of _ "obj st d"] exI [of _ "obj st e"]) simp
next
  case (Suc k)
  let ?C = "mval (obj st c)" and ?D = "mval (obj st d)" and ?E = "mval (obj st e)"
  note ne = Suc.prems(2-4)
  have D: "?D = p * 2 ^ k" using Suc.prems(9) by simp
  obtain e1 where e1: "mpint_shift_left e 1 st = Some (0, set_obj st e e1)" "msign e1 = msign (obj st e)"
    "mval e1 = ?E * 2" "length (mdata (obj st e)) \<le> length (mdata e1)"
    using shift_left_ok [OF Suc.prems(1), of e 1] by auto
  define s1 where "s1 = set_obj st e e1"
  have s1: "mem_ok s1" "obj s1 c = obj st c" "obj s1 d = obj st d" using ne Suc.prems(1) by (simp_all add: s1_def)
  have cmp: "0 \<le> mpint_comp (obj s1 c) (obj s1 d) \<longleftrightarrow> ?D \<le> ?C"
    using Suc.prems(6,7) by (simp add: s1 comp_eq sign_ok_def msgn_def sgn_if)
  obtain c2 e2 where s2: "(if 0 \<le> mpint_comp (obj s1 c) (obj s1 d)
      then steps [mpint_set_bit_value e 0 1, mpint_sub c c d] s1 else Some (0, s1)) =
        Some (0, set_obj (set_obj st c c2) e e2)"
    "msign c2 = 1" "mval c2 = (if ?D \<le> ?C then ?C - ?D else ?C)" "length (mdata (obj st c)) \<le> length (mdata c2)"
    "msign e2 = msign (obj st e)" "mval e2 = ?E * 2 + (if ?D \<le> ?C then 1 else 0)"
    "length (mdata (obj st e)) \<le> length (mdata e2)"
  proof (cases "?D \<le> ?C")
    case True
    obtain e2 where e2: "mpint_set_bit_value e 0 1 s1 = Some (0, set_obj s1 e e2)" "msign e2 = msign (obj st e)"
      "mval e2 = ?E * 2 + 1" "length (mdata (obj st e)) \<le> length (mdata e2)"
      using set_bit_value_ok [OF s1(1), of e 0 1] e1 by (auto simp: s1_def set_bit_0)
    have "mem_ok (set_obj s1 e e2)" using s1 by simp
    from sub_pos_ok [OF this, of c d c] obtain c2 where c2:
      "mpint_sub c c d (set_obj s1 e e2) = Some (0, set_obj (set_obj s1 e e2) c c2)"
      "msign c2 = 1" "mval c2 = ?C - ?D" "length (mdata (obj st c)) \<le> length (mdata c2)"
      using True ne Suc.prems(6,7) s1 by auto
    have "set_obj (set_obj s1 e e2) c c2 = set_obj (set_obj st c c2) e e2"
      using ne by (intro mstore_eqI) (auto simp: s1_def)
    then show ?thesis using True e2 c2 cmp that by (auto simp del: obj_set_obj)
  next
    case False
    have "s1 = set_obj (set_obj st c (obj st c)) e e1" by (simp add: s1_def)
    then show ?thesis using False e1 cmp Suc.prems(6) that [of "obj st c" e1] by auto
  qed
  define t where "t = set_obj (set_obj st c c2) e e2"
  obtain d3 where d3: "mpint_shift_right d 1 t = Some (0, set_obj t d d3)" "msign d3 = 1" "mval d3 = ?D div 2"
    using shift_right_ok [of d 1 t] ne Suc.prems(7) by (auto simp: t_def)
  define u where "u = set_obj t d d3"
  have u: "mem_ok u" "obj u c = c2" "obj u d = d3" "obj u e = e2"
    using ne Suc.prems(1) by (simp_all add: u_def t_def)
  have "mval c2 < p * 2 ^ k" using Suc.prems(8) by (auto simp: s2(3) D)
  moreover have "mval d3 = p * 2 ^ (k - 1)" if "0 < k" using that by (cases k) (simp_all add: d3(3) D)
  ultimately obtain mc md me where R: "div_loop c d e k u = Some (0, set_obj (set_obj (set_obj u c mc) d md) e me)"
    "msign mc = 1" "mval mc = mval c2 mod p" "length (mdata c2) \<le> length (mdata mc)"
    "msign me = msign e2" "mval me = mval e2 * 2 ^ k + mval c2 div p" "length (mdata e2) \<le> length (mdata me)"
    using Suc.IH [of u] Suc.prems(2-5) s2(2) d3(2) u by auto
  have eq: "set_obj (set_obj (set_obj u c mc) d md) e me = set_obj (set_obj (set_obj st c mc) d md) e me"
    using ne by (intro mstore_eqI) (auto simp: u_def t_def)
  have run: "div_loop c d e (Suc k) st = Some (0, set_obj (set_obj (set_obj st c mc) d md) e me)"
  proof -
    define B where "B = (\<lambda>st. if 0 \<le> mpint_comp (obj st c) (obj st d)
      then steps [mpint_set_bit_value e 0 1, mpint_sub c c d] st else Some (0, st))"
    have "div_loop c d e (Suc k) st = steps [mpint_shift_left e 1, B, mpint_shift_right d 1, div_loop c d e k] st"
      by (simp only: div_loop.simps B_def)
    moreover have "mpint_shift_left e 1 st = Some (0, s1)" by (simp only: e1(1) s1_def)
    moreover have "B s1 = Some (0, t)" using s2(1) by (simp only: B_def t_def)
    moreover have "mpint_shift_right d 1 t = Some (0, u)" by (simp only: d3(1) u_def)
    moreover have "div_loop c d e k u = Some (0, set_obj (set_obj (set_obj st c mc) d md) e me)"
      by (simp only: R(1) eq)
    ultimately show ?thesis by (simp del: div_loop.simps)
  qed
  have q: "mval me = ?E * 2 ^ Suc k + ?C div p" and r: "mval mc = ?C mod p"
  proof -
    have "?C div p = 2 ^ k + (?C - ?D) div p \<and> ?C mod p = (?C - ?D) mod p" if le: "?D \<le> ?C"
    proof -
      obtain x where "?C = ?D + x" using le_Suc_ex [OF le] by blast
      then show ?thesis using Suc.prems(5) by (simp add: D)
    qed
    then show "mval me = ?E * 2 ^ Suc k + ?C div p" "mval mc = ?C mod p"
      by (auto simp: R(3,6) s2(3,6) distrib_right)
  qed
  show ?case
    using run q r R s2 by (intro exI [of _ mc] exI [of _ md] exI [of _ me]) simp
qed

lemma bit_length_room:
  assumes "0 < mval p"
  shows "mval a < mval p * 2 ^ (mpint_get_bit_length a + 1 - mpint_get_bit_length p)"
proof -
  let ?m = "mpint_get_bit_length a" and ?n = "mpint_get_bit_length p"
  have a: "mval a < 2 ^ ?m" by (simp flip: bit_length_le_iff)
  have n: "0 < ?n" using bit_length_le_iff [of p 0] assms by (cases ?n) auto
  then have "\<not> ?n \<le> ?n - 1" by linarith
  then have p: "2 ^ (?n - 1) \<le> mval p" by (simp only: bit_length_le_iff not_less)
  have "?m \<le> (?n - 1) + (?m + 1 - ?n)" using n by linarith
  then have "(2::nat) ^ ?m \<le> 2 ^ ((?n - 1) + (?m + 1 - ?n))" by (rule power_increasing) simp
  also have "\<dots> \<le> mval p * 2 ^ (?m + 1 - ?n)" unfolding power_add by (rule mult_right_mono [OF p]) simp
  finally show ?thesis using a by linarith
qed

definition set_opt :: "mstore \<Rightarrow> nat option \<Rightarrow> mpint \<Rightarrow> mstore" where
  "set_opt st x m = (case x of Some y \<Rightarrow> set_obj st y m | None \<Rightarrow> st)"

definition div_dest :: "mstore \<Rightarrow> nat option \<Rightarrow> nat \<Rightarrow> bool" where
  "div_dest st x n \<longleftrightarrow> (case x of Some y \<Rightarrow> live st y \<and> length (mdata (obj st y)) \<le> n | None \<Rightarrow> True)"

lemma copy_opt_ok:
  assumes "mem_ok st" and "mdata (obj st e) \<noteq> []"
    and "\<And>y. x = Some y \<Longrightarrow> length (mdata (obj st y)) \<le> length (mdata (obj st e))"
  shows "\<exists>m. (case x of Some y \<Rightarrow> mpint_copy y e st | None \<Rightarrow> Some (0, st)) = Some (0, set_opt st x m) \<and>
    msign m = msign (obj st e) \<and> mval m = mval (obj st e)"
proof (cases x)
  case (Some y)
  then have "copy_ok (obj st y) (obj st e)" using assms by (simp add: copy_ok_def)
  then show ?thesis using copy_spec [OF assms(1), of y e] Some by (auto simp: set_opt_def)
next
  case None
  then show ?thesis by (intro exI [of _ "obj st e"]) (simp add: set_opt_def)
qed

lemma div_zero:
  assumes "sign_ok (obj st b)" "mval (obj st b) = 0"
  shows "mpint_div q r a b st = Some (-1, st)"
  using assms by (simp add: mpint_div_def comp_int_eq msgn_def)

lemma div_ok:
  assumes m: "mem_ok st" and k: "stack_ok st" and l: "live st a" "live st b"
    and s: "msign (obj st a) = 1" "msign (obj st b) = 1"
    and pos: "mval (obj st b) \<noteq> 0" and ne: "mdata (obj st a) \<noteq> []"
    and q: "div_dest st q 1" and r: "div_dest st r (max 1 (mpint_get_length (obj st a)))"
    and qr: "q = None \<or> q \<noteq> r"
  shows "\<exists>mq mr. mpint_div q r a b st = Some (0, set_opt (set_opt st q mq) r mr) \<and>
    msign mq = 1 \<and> mval mq = mval (obj st a) div mval (obj st b) \<and>
    msign mr = 1 \<and> mval mr = mval (obj st a) mod mval (obj st b)"
proof -
  let ?A = "mval (obj st a)" and ?B = "mval (obj st b)"
  define c d e where "c = sp st" and "d = sp st + 1" and "e = sp st + 2"
  have cde: "c \<noteq> d" "c \<noteq> e" "d \<noteq> e" "a < c" "b < c" "a \<noteq> d" "b \<noteq> d" "a \<noteq> e" "b \<noteq> e"
    using l by (simp_all add: c_def d_def e_def)
  define s0 where "s0 = enter 3 st"
  have init: "obj s0 c = mpint_init" "obj s0 d = mpint_init" "obj s0 e = mpint_init"
    "obj s0 a = obj st a" "obj s0 b = obj st b"
    using l by (simp_all add: s0_def c_def d_def e_def)
  have neB: "mdata (obj st b) \<noteq> []" using pos by (auto simp: mval_def)
  obtain mc where mc: "mpint_copy c a s0 = Some (0, set_obj s0 c mc)" "msign mc = 1" "mval mc = ?A"
    "length (mdata mc) = max 1 (mpint_get_length (obj st a))"
    using copy_to_fresh [of s0 c a] m ne s(1) init by (auto simp: s0_def)
  define s1 where "s1 = set_obj s0 c mc"
  have m1: "mem_ok s1" using m by (simp add: s1_def s0_def)
  obtain md where md: "mpint_copy d b s1 = Some (0, set_obj s1 d md)" "msign md = 1" "mval md = ?B"
    using copy_to_fresh [OF m1, of d b] neB s(2) init cde by (auto simp: s1_def)
  define s2 where "s2 = set_obj s1 d md"
  have m2: "mem_ok s2" using m1 by (simp add: s2_def)
  obtain me where me: "mpint_set_value e 0 s2 = Some (0, set_obj s2 e me)" "msign me = 1" "mval me = 0"
    "length (mdata me) = 1"
    using set_value_ok [OF m2, of 0 e] init cde by (auto simp: s2_def s1_def mp_sign_def)
  define s3 where "s3 = set_obj s2 e me"
  have s3: "mem_ok s3" "obj s3 c = mc" "obj s3 d = md" "obj s3 e = me"
    using m2 cde by (auto simp: s3_def s2_def s1_def)
  let ?m = "mpint_get_bit_length mc" and ?n = "mpint_get_bit_length md"
  obtain md2 where md2: "(if ?n < ?m then mpint_shift_left d (?m - ?n) s3 else Some (0, s3)) =
      Some (0, set_obj s3 d md2)" "msign md2 = 1" "mval md2 = ?B * 2 ^ (?m - ?n)"
  proof (cases "?n < ?m")
    case True
    then show ?thesis using shift_left_ok [OF s3(1), of d "?m - ?n"] s3 md that by auto
  next
    case False
    have "set_obj s3 d md = s3" using s3(3) by (intro mstore_eqI) auto
    then show ?thesis using False md that [of md] by simp
  qed
  define s4 where "s4 = set_obj s3 d md2"
  have s4: "mem_ok s4" "obj s4 c = mc" "obj s4 d = md2" "obj s4 e = me"
    using s3 cde by (auto simp: s4_def)
  have "mval mc < ?B * 2 ^ (?m + 1 - ?n)" using bit_length_room [of md mc] pos md by simp
  moreover have "mval md2 = ?B * 2 ^ (?m + 1 - ?n - 1)" by (simp add: md2(3))
  ultimately obtain mc5 md5 me5 where L: "div_loop c d e (?m + 1 - ?n) s4 =
      Some (0, set_obj (set_obj (set_obj s4 c mc5) d md5) e me5)"
    "msign mc5 = 1" "mval mc5 = ?A mod ?B" "length (mdata mc) \<le> length (mdata mc5)"
    "msign me5 = 1" "mval me5 = ?A div ?B" "1 \<le> length (mdata me5)"
    using div_loop_ok [OF s4(1) cde(1-3), of ?B "?m + 1 - ?n"] pos s4 mc md2 me by auto
  define s5 where "s5 = set_obj (set_obj (set_obj s4 c mc5) d md5) e me5"
  have s5: "mem_ok s5" "obj s5 c = mc5" "obj s5 e = me5" "\<And>y. y < sp st \<Longrightarrow> obj s5 y = obj st y"
    using s4 cde by (auto simp: s5_def s4_def s3_def s2_def s1_def s0_def c_def d_def e_def)
  have "\<exists>x. (case q of Some y \<Rightarrow> mpint_copy y e s5 | None \<Rightarrow> Some (0, s5)) = Some (0, set_opt s5 q x) \<and>
      msign x = msign (obj s5 e) \<and> mval x = mval (obj s5 e)"
    using s5 q L(7) by (intro copy_opt_ok) (auto simp: div_dest_def)
  then obtain mq where mq: "(case q of Some y \<Rightarrow> mpint_copy y e s5 | None \<Rightarrow> Some (0, s5)) = Some (0, set_opt s5 q mq)"
    "msign mq = 1" "mval mq = ?A div ?B" using s5 L by auto
  define s6 where "s6 = set_opt s5 q mq"
  have s6: "mem_ok s6" "obj s6 c = mc5" "\<And>y. r = Some y \<Longrightarrow> obj s6 y = obj st y"
    using s5 q r qr by (auto simp: s6_def set_opt_def div_dest_def c_def split: option.splits)
  have len: "length (mdata (obj st y)) \<le> length (mdata mc5)" "y < c" if "r = Some y" for y
    using r that mc(4) L(4) by (auto simp: div_dest_def c_def)
  have "mdata mc5 \<noteq> []" using mc(4) L(4) by auto
  then have "\<exists>x. (case r of Some y \<Rightarrow> mpint_copy y c s6 | None \<Rightarrow> Some (0, s6)) = Some (0, set_opt s6 r x) \<and>
      msign x = msign (obj s6 c) \<and> mval x = mval (obj s6 c)"
    using s6 len by (intro copy_opt_ok) auto
  then obtain mr where mr: "(case r of Some y \<Rightarrow> mpint_copy y c s6 | None \<Rightarrow> Some (0, s6)) = Some (0, set_opt s6 r mr)"
    "msign mr = 1" "mval mr = ?A mod ?B" using s6 L by auto
  have fin: "leave 3 (set_opt s6 r mr) = set_opt (set_opt st q mq) r mr"
    using k q r by (auto simp: s6_def s5_def s4_def s3_def s2_def s1_def s0_def set_opt_def div_dest_def
        c_def d_def e_def split: option.splits)
  have "mpint_div q r a b st = Some (0, set_opt (set_opt st q mq) r mr)"
  proof -
    define f where "f = (\<lambda>st. let m = mpint_get_bit_length (obj st c); n = mpint_get_bit_length (obj st d) in
            steps [\<lambda>st. if n < m then mpint_shift_left d (m - n) st else Some (0, st),
                   div_loop c d e (m + 1 - n)] st)"
    define fq where "fq = (\<lambda>st. case q of Some x \<Rightarrow> mpint_copy x e st | None \<Rightarrow> Some (0, st))"
    define fr where "fr = (\<lambda>st. case r of Some x \<Rightarrow> mpint_copy x c st | None \<Rightarrow> Some (0, st))"
    have f: "f s3 = Some (0, s5)"
      using md2(1) L(1) by (simp add: f_def s3 Let_def s4_def [symmetric] s5_def [symmetric] cong: if_cong)
    have "mpint_comp_int (obj st b) 0 \<noteq> 0"
      using s(2) pos by (simp add: comp_int_eq sign_ok_def msgn_def)
    then have "mpint_div q r a b st =
        with_locals 3 (steps [mpint_copy c a, mpint_copy d b, mpint_set_value e 0, f, fq, fr]) st"
      by (simp only: mpint_div_def Let_def c_def d_def e_def f_def fq_def fr_def if_False)
    moreover have "mpint_copy c a s0 = Some (0, s1)" "mpint_copy d b s1 = Some (0, s2)"
        "mpint_set_value e 0 s2 = Some (0, s3)" "fq s5 = Some (0, s6)"
        "fr s6 = Some (0, set_opt s6 r mr)"
      using mc(1) md(1) me(1) mq(1) mr(1)
      by (simp_all only: s1_def [symmetric] s2_def [symmetric] s3_def [symmetric] s6_def [symmetric]
          fq_def fr_def)
    ultimately show ?thesis using f fin by (simp add: with_locals_def flip: s0_def)
  qed
  then show ?thesis using mq mr by blast
qed

subsection \<open>Reduction\<close>

lemma mod_loop_ok:
  assumes "mem_ok st" and "r \<noteq> c" "r \<noteq> p" "c \<noteq> p" and "k \<le> fuel"
    and "mval (obj st r) < mval (obj st p) * 2 ^ k"
    and "0 < k \<Longrightarrow> mval (obj st c) = mval (obj st p) * 2 ^ (k - 1)"
  shows "\<exists>mr mc. mod_loop r c p fuel st = Some (0, set_obj (set_obj st r mr) c mc) \<and>
    mval mr = mval (obj st r) mod mval (obj st p)"
  using assms
proof (induction fuel arbitrary: st k)
  case 0
  then show ?case
    by (intro exI [of _ "obj st r"] exI [of _ "obj st c"]) (simp add: comp_abs_eq sgn_if)
next
  case (Suc fuel)
  let ?R = "mval (obj st r)" and ?P = "mval (obj st p)" and ?C = "mval (obj st c)"
  note ne = Suc.prems(2-4)
  show ?case
  proof (cases "?P \<le> ?R")
    case False
    then show ?thesis
      by (intro exI [of _ "obj st r"] exI [of _ "obj st c"]) (simp add: comp_abs_eq sgn_if)
  next
    case True
    then obtain j where k: "k = Suc j" using Suc.prems(6) by (cases k) auto
    then have C: "?C = ?P * 2 ^ j" using Suc.prems(7) by simp
    define B where "B = (\<lambda>st. if 0 \<le> mpint_comp_abs (obj st r) (obj st c) then mpint_sub_abs r r c st else Some (0, st))"
    obtain r1 where r1: "B st = Some (0, set_obj st r r1)" "mval r1 = (if ?C \<le> ?R then ?R - ?C else ?R)"
    proof (cases "?C \<le> ?R")
      case True
      then show ?thesis
        using sub_abs_ok [OF Suc.prems(1), of r r c] that by (auto simp: B_def comp_abs_eq sgn_if)
    next
      case False
      then show ?thesis using that [of "obj st r"] by (simp add: B_def comp_abs_eq sgn_if)
    qed
    define s1 where "s1 = set_obj st r r1"
    obtain c1 where c1: "mpint_shift_right c 1 s1 = Some (0, set_obj s1 c c1)" "mval c1 = ?C div 2"
      using shift_right_ok [of c 1 s1] ne by (auto simp: s1_def)
    define s2 where "s2 = set_obj s1 c c1"
    have s2: "mem_ok s2" "obj s2 r = r1" "obj s2 c = c1" "obj s2 p = obj st p"
      using ne Suc.prems(1) by (auto simp: s2_def s1_def)
    have "mval r1 < ?P * 2 ^ j" using Suc.prems(6) by (auto simp: r1(2) C k)
    moreover have "mval c1 = ?P * 2 ^ (j - 1)" if "0 < j" using that by (cases j) (simp_all add: c1(2) C)
    ultimately obtain mr mc where L: "mod_loop r c p fuel s2 = Some (0, set_obj (set_obj s2 r mr) c mc)"
      "mval mr = mval r1 mod ?P"
      using Suc.IH [of s2 j] ne Suc.prems(5) k s2 by auto
    have "set_obj (set_obj s2 r mr) c mc = set_obj (set_obj st r mr) c mc"
      using ne by (intro mstore_eqI) (auto simp: s2_def s1_def)
    moreover have "mod_loop r c p (Suc fuel) st = steps [B, mpint_shift_right c 1, mod_loop r c p fuel] st"
      using True by (simp only: mod_loop.simps B_def) (simp add: comp_abs_eq sgn_if)
    moreover have "B st = Some (0, s1)" "mpint_shift_right c 1 s1 = Some (0, s2)"
      by (simp_all only: r1(1) c1(1) s1_def [symmetric] s2_def [symmetric])
    ultimately have "mod_loop r c p (Suc fuel) st = Some (0, set_obj (set_obj st r mr) c mc)"
      using L(1) by simp
    moreover have "mval mr = ?R mod ?P"
    proof (cases "?C \<le> ?R")
      case True
      then obtain x where "?R = ?C + x" using le_Suc_ex by blast
      then show ?thesis using True by (simp add: L(2) r1(2) C)
    qed (simp add: L(2) r1(2))
    ultimately show ?thesis by blast
  qed
qed

lemma mod_nonpos:
  assumes "sign_ok (obj st p)" "msgn (obj st p) \<le> 0"
  shows "mpint_mod fuel r a p st = Some (-1, st)"
  using assms by (simp add: mpint_mod_def comp_int_eq sgn_if)

text \<open>The reduced value: for a negative \<open>a\<close> that is a multiple of \<open>p\<close> it is \<open>p\<close>, not zero.\<close>

definition mod_value :: "int \<Rightarrow> nat \<Rightarrow> nat \<Rightarrow> nat" where
  "mod_value sign x p = (if sign < 0 then p - x mod p else x mod p)"

lemma mod_ok:
  assumes m: "mem_ok st" and k: "stack_ok st" and l: "live st r" "live st a" "live st p"
    and s: "sign_ok (obj st a)" "msign (obj st p) = 1"
    and pos: "mval (obj st p) \<noteq> 0" and rp: "r \<noteq> p" and cp: "r = a \<or> copy_ok (obj st r) (obj st a)"
    and fuel: "mpint_get_bit_length (obj st a) \<le> fuel"
  shows "\<exists>m. mpint_mod fuel r a p st = Some (0, set_obj st r m) \<and>
    mval m = mod_value (msign (obj st a)) (mval (obj st a)) (mval (obj st p)) \<and>
    (msign (obj st a) < 0 \<longrightarrow> msign m = 1)"
proof -
  let ?A = "mval (obj st a)" and ?P = "mval (obj st p)"
  let ?m = "mpint_get_bit_length (obj st a)" and ?n = "mpint_get_bit_length (obj st p)"
  have neP: "mdata (obj st p) \<noteq> []" using pos by (auto simp: mval_def)
  define c where "c = sp st"
  define s0 where "s0 = enter (Suc 0) st"
  have init: "obj s0 c = mpint_init" "obj s0 r = obj st r" "obj s0 a = obj st a" "obj s0 p = obj st p"
    "r < c" "a < c" "p < c" "mem_ok s0"
    using l m by (simp_all add: s0_def c_def)
  obtain ra where ra: "mpint_copy r a s0 = Some (0, set_obj s0 r ra)" "mval ra = ?A"
    using copy_spec [OF init(8), of r a] cp init by auto
  define s1 where "s1 = set_obj s0 r ra"
  have s1: "mem_ok s1" "obj s1 r = ra" "obj s1 p = obj st p" "obj s1 c = mpint_init"
    using init rp by (auto simp: s1_def)
  define f where "f = (\<lambda>st. if ?n \<le> ?m
    then steps [mpint_copy c p, mpint_shift_left c (?m - ?n), mod_loop r c p fuel] st else Some (0, st))"
  have "\<exists>rb cb. f s1 = Some (0, set_obj (set_obj s1 r rb) c cb) \<and> mval rb = ?A mod ?P"
  proof (cases "?n \<le> ?m")
    case False
    have "?A < ?P"
    proof -
      have "?A < 2 ^ ?m" by (simp flip: bit_length_le_iff)
      moreover have "\<not> ?P < 2 ^ ?m" using False by (simp flip: bit_length_le_iff)
      ultimately show ?thesis by simp
    qed
    then show ?thesis using False s1 ra(2)
      by (intro exI [of _ ra] exI [of _ mpint_init]) (simp add: f_def, intro mstore_eqI, auto)
  next
    case True
    obtain c1 where c1: "mpint_copy c p s1 = Some (0, set_obj s1 c c1)" "mval c1 = ?P"
      using copy_to_fresh [OF s1(1,4), of p] s1(3) neP by auto
    define s2 where "s2 = set_obj s1 c c1"
    obtain c2 where c2: "mpint_shift_left c (?m - ?n) s2 = Some (0, set_obj s2 c c2)" "mval c2 = ?P * 2 ^ (?m - ?n)"
      using shift_left_ok [of s2 c "?m - ?n"] s1(1) c1(2) by (auto simp: s2_def)
    define s3 where "s3 = set_obj s2 c c2"
    have s3: "mem_ok s3" "obj s3 r = ra" "obj s3 p = obj st p" "obj s3 c = c2"
      using s1 init by (auto simp: s3_def s2_def)
    have n: "0 < ?n" using pos bit_length_le_iff [of "obj st p" 0] by (cases ?n) auto
    then have "?m + 1 - ?n \<le> fuel" using fuel by linarith
    moreover have "mval ra < ?P * 2 ^ (?m + 1 - ?n)"
      using bit_length_room [of "obj st p" "obj st a"] pos ra(2) by simp
    ultimately have "\<exists>mr mc. mod_loop r c p fuel s3 = Some (0, set_obj (set_obj s3 r mr) c mc) \<and>
        mval mr = mval (obj s3 r) mod mval (obj s3 p)"
      using s3 rp init c2(2) by (intro mod_loop_ok [where k = "?m + 1 - ?n"]) auto
    then obtain rb cb where L: "mod_loop r c p fuel s3 = Some (0, set_obj (set_obj s3 r rb) c cb)"
      "mval rb = ?A mod ?P" using s3 ra(2) by auto
    have "set_obj (set_obj s3 r rb) c cb = set_obj (set_obj s1 r rb) c cb"
      using init by (intro mstore_eqI) (auto simp: s3_def s2_def)
    moreover have "mpint_copy c p s1 = Some (0, s2)" "mpint_shift_left c (?m - ?n) s2 = Some (0, s3)"
      by (simp_all only: c1(1) c2(1) s2_def [symmetric] s3_def [symmetric])
    ultimately show ?thesis using True L by (simp add: f_def) blast
  qed
  then obtain rb cb where f: "f s1 = Some (0, set_obj (set_obj s1 r rb) c cb)" "mval rb = ?A mod ?P"
    by blast
  define s4 where "s4 = set_obj (set_obj s1 r rb) c cb"
  have s4: "mem_ok s4" "obj s4 r = rb" "obj s4 p = obj st p" using s1 init rp by (auto simp: s4_def)
  define g where "g = (\<lambda>s. if msign (obj st a) < 0 then mpint_sub_abs r p r s else Some (0, s))"
  obtain rc where g: "g s4 = Some (0, set_obj s4 r rc)" "mval rc = mod_value (msign (obj st a)) ?A ?P"
    "msign (obj st a) < 0 \<longrightarrow> msign rc = 1"
  proof (cases "msign (obj st a) < 0")
    case True
    obtain x where x: "mpint_sub_abs r p r s4 = Some (0, set_obj s4 r x)" "msign x = 1"
      "int (mval x) = \<bar>int ?P - int (?A mod ?P)\<bar>"
      using sub_abs_ok [OF s4(1), of r p r] s4 f(2) by auto
    have "?A mod ?P < ?P" using pos by simp
    then have "mval x = ?P - ?A mod ?P" using x(3) by linarith
    then show ?thesis using True x that by (simp add: g_def mod_value_def)
  next
    case False
    have "s4 = set_obj s4 r rb" using s4(2) by (intro mstore_eqI) auto
    then show ?thesis using False f(2) that [of rb] by (simp add: g_def mod_value_def)
  qed
  have "leave 1 (set_obj s4 r rc) = set_obj st r rc"
    using k l init by (auto simp: s4_def s1_def s0_def c_def)
  moreover have "\<not> mpint_comp_int (obj st p) 0 \<le> 0"
    using s(2) pos by (simp add: comp_int_eq sign_ok_def msgn_def)
  then have "mpint_mod fuel r a p st = with_locals 1 (steps [mpint_copy r a, f, g]) st"
    by (simp only: mpint_mod_def Let_def c_def f_def g_def if_False)
  moreover have "mpint_copy r a s0 = Some (0, s1)" "f s1 = Some (0, s4)"
    by (simp_all only: ra(1) f(1) s1_def [symmetric] s4_def [symmetric])
  ultimately have "mpint_mod fuel r a p st = Some (0, set_obj st r rc)"
    using g(1) by (simp add: with_locals_def flip: s0_def)
  then show ?thesis using g by blast
qed

end
