(* ===== verification/Mpint_Bytes.thy ===== *)
theory Mpint_Bytes
  imports Mpint_Arith
begin

text \<open>
  Import and export of mpint.c: the bytes written are the base 256 digits of the value, least
  significant first or last by format, and reading them gives the value back. The number a byte
  list stands for is \<open>bytes_nat\<close>.
\<close>

unbundle bit_operations_syntax

subsection \<open>Byte lists as numbers\<close>

primrec bytes_nat :: "u8 list \<Rightarrow> nat" where
  "bytes_nat [] = 0"
| "bytes_nat (b # bs) = unat b + 256 * bytes_nat bs"

lemma unat_u8_less: "unat (b :: u8) < 256"
  using unsigned_less [of b] by simp

lemma bytes_nat_less: "bytes_nat bs < 256 ^ length bs"
proof (induction bs)
  case (Cons b bs)
  have "unat b + 256 * bytes_nat bs < 256 + 256 * bytes_nat bs" using unat_u8_less [of b] by simp
  also have "\<dots> = 256 * Suc (bytes_nat bs)" by simp
  also have "\<dots> \<le> 256 * 256 ^ length bs" using Cons.IH by (intro mult_le_mono2) simp
  finally show ?case by simp
qed simp

lemma bit_byte_high: "8 \<le> n \<Longrightarrow> \<not> bit (b :: u8) n"
  using bit_imp_le_length [of b n] by auto

lemma bit_unat_add_256:
  "bit (unat (b :: u8) + 256 * n) k \<longleftrightarrow> (if k < 8 then bit b k else bit n (k - 8))"
proof -
  have "unat b + 256 * n = unat b + push_bit 8 n"
    by (simp add: push_bit_eq_mult mult.commute)
  also have "\<dots> = unat b OR push_bit 8 n"
    by (rule disjunctive_add_eq_or) (auto intro!: bit_eqI simp: bit_simps bit_byte_high)
  finally show ?thesis by (auto simp: bit_simps bit_byte_high)
qed

lemma bit_bytes_nat: "bit (bytes_nat bs) k \<longleftrightarrow> k div 8 < length bs \<and> bit (bs ! (k div 8)) (k mod 8)"
proof (induction bs arbitrary: k)
  case (Cons b bs)
  show ?case
  proof (cases "k < 8")
    case False
    then have "k div 8 = Suc ((k - 8) div 8)" "(k - 8) mod 8 = k mod 8"
      by (simp_all add: div_if [of k 8] mod_if [of k 8])
    then show ?thesis using False Cons.IH [of "k - 8"] by (simp add: bit_unat_add_256)
  qed (simp add: bit_unat_add_256)
qed simp

lemma bytes_nat_append_zeros: "bytes_nat (bs @ replicate n 0) = bytes_nat bs"
  by (induction bs) (simp_all, induction n, simp_all)

lemma byte_index: "k div 32 = k div 8 div 4" "k mod 32 = 8 * (k div 8 mod 4) + k mod (8 :: nat)"
proof -
  show "k div 32 = k div 8 div 4" by (simp flip: div_mult2_eq)
  show "k mod 32 = 8 * (k div 8 mod 4) + k mod 8" using mod_mult2_eq [of k 8 4] by simp
qed

subsection \<open>Export\<close>

lemma bit_export_byte:
  assumes "j < 8"
  shows "bit (export_byte ds i) j \<longleftrightarrow> bit (ds ! (i div 4)) (8 * (i mod 4) + j)"
  using assms by (simp add: export_byte_def bit_ucast_iff bit_drop_bit_eq)

lemma bytes_nat_export:
  "bytes_nat (map (export_byte (mdata a)) [0..<mpint_get_byte_length a]) = mval a"
proof (rule bit_eqI)
  fix k :: nat
  define i j where "i = k div 8" and "j = k mod 8"
  have k: "k = 8 * i + j" and j: "j < 8" by (simp_all add: i_def j_def)
  note kd = byte_index(1) [of k, folded i_def] and km = byte_index(2) [of k, folded i_def j_def]
  let ?n = "mpint_get_byte_length a"
  have low: "mval a < 256 ^ ?n" by (simp flip: byte_length_le_iff)
  have out: "\<not> bit (mval a) k" if "\<not> i < ?n"
  proof -
    have "mval a < 2 ^ (8 * ?n)" using low by (simp add: power_mult)
    also have "\<dots> \<le> 2 ^ k" using that by (intro power_increasing) (simp_all add: k)
    finally show ?thesis by (simp add: bit_iff_odd)
  qed
  have "i div 4 < length (mdata a)" if "i < ?n"
  proof -
    have "mval a < 256 ^ (4 * length (mdata a))"
      using val_less [of "mdata a"] by (simp add: mval_def radix_power power_mult)
    then have "?n \<le> 4 * length (mdata a)" by (simp add: byte_length_le_iff)
    then show ?thesis using that by (simp add: div_less_iff_less_mult)
  qed
  then show "bit (bytes_nat (map (export_byte (mdata a)) [0..<?n])) k = bit (mval a) k"
    using out j bit_val [of "mdata a" k]
    by (cases "i < ?n") (auto simp: bit_bytes_nat mval_def bit_export_byte kd km simp flip: i_def j_def)
qed

lemma export_le_ok:
  "mpint_export_le a len = (if 256 ^ len \<le> mval a then None else
     Some (map (export_byte (mdata a)) [0..<mpint_get_byte_length a] @
       replicate (len - mpint_get_byte_length a) 0))"
  using byte_length_le_iff [of a len] by (auto simp: mpint_export_le_def Let_def)

lemma export_be_le: "mpint_export_be a len = map_option rev (mpint_export_le a len)"
  by (simp add: mpint_export_be_def mpint_export_le_def Let_def rev_map)

lemma export_le_value:
  assumes "mpint_export_le a len = Some bs"
  shows "length bs = len \<and> bytes_nat bs = mval a"
  using assms byte_length_le_iff [of a len]
  by (auto simp: export_le_ok bytes_nat_append_zeros bytes_nat_export split: if_splits)

subsection \<open>Import\<close>

definition significant :: "mpint_format \<Rightarrow> u8 list \<Rightarrow> u8 list" where
  "significant format bs = (if format = MPINT_FORMAT_BIG_ENDIAN then rev bs else bs)"

lemma strip_zeros_value: "bytes_nat (rev (strip_zeros k bs)) = bytes_nat (rev bs)"
proof (induction k bs rule: strip_zeros.induct)
  case (2 k b bs)
  then show ?case using bytes_nat_append_zeros [of "rev bs" 1] by simp
qed simp

lemma import_bytes_ok:
  assumes m: "mem_ok st"
  shows "\<exists>m. import_bytes r bs st = Some (0, set_obj st r m) \<and> msign m = 1 \<and> mval m = bytes_nat bs"
proof -
  let ?ds = "mdata (obj st r)"
  define L where "L = max (length ?ds) (max 1 ((length bs + 4 - 1) div 4))"
  define st0 where "st0 = (\<lambda>ds. set_obj st r \<lparr>msign = 1, mdata = ds\<rparr>)"
  define body where "body = (\<lambda>i st. do { w \<leftarrow> get_word st r (i div 4); b \<leftarrow> idx bs i;
    set_word st r (i div 4) (w OR push_bit (8 * (i mod 4)) (ucast b)) })"
  have wide: "i div 4 < L" if "i < length bs" for i
  proof -
    have "i div 4 < (length bs + 4 - 1) div 4" using that by linarith
    then show ?thesis by (simp add: L_def less_max_iff_disj)
  qed
  have "\<exists>ds. for_each body [0..<n] (st0 (replicate L 0)) = Some (st0 ds) \<and> length ds = L \<and>
      (\<forall>k. bit (val ds) k \<longleftrightarrow> k div 8 < n \<and> bit (bs ! (k div 8)) (k mod 8))" if "n \<le> length bs" for n
    using that
  proof (induction n)
    case 0
    then show ?case by (intro exI [of _ "replicate L 0"]) simp
  next
    case (Suc n)
    then obtain ds where ds: "for_each body [0..<n] (st0 (replicate L 0)) = Some (st0 ds)" "length ds = L"
      "\<And>k. bit (val ds) k \<longleftrightarrow> k div 8 < n \<and> bit (bs ! (k div 8)) (k mod 8)" by auto
    define w where "w = ds ! (n div 4) OR push_bit (8 * (n mod 4)) (ucast (bs ! n))"
    have nL: "n div 4 < L" using wide [of n] Suc.prems by simp
    have step: "body n (st0 ds) = Some (st0 (ds[n div 4 := w]))"
      using nL ds(2) Suc.prems by (simp add: body_def st0_def store_simps w_def)
    have "bit (val (ds[n div 4 := w])) k \<longleftrightarrow> k div 8 < Suc n \<and> bit (bs ! (k div 8)) (k mod 8)" for k
    proof -
      define i j where "i = k div 8" and "j = k mod 8"
      have k: "k = 8 * i + j" and j: "j < 8" by (simp_all add: i_def j_def)
      note kd = byte_index(1) [of k, folded i_def] and km = byte_index(2) [of k, folded i_def j_def]
      have new: "bit (push_bit (8 * (n mod 4)) (ucast (bs ! n)) :: u32) (8 * (i mod 4) + j) \<longleftrightarrow>
          i mod 4 = n mod 4 \<and> bit (bs ! n) j"
      proof -
        have "i mod 4 < 4" by simp
        then have lt: "8 * (i mod 4) + j < 32" using j by linarith
        consider "i mod 4 = n mod 4" | "i mod 4 < n mod 4" | "n mod 4 < i mod 4" by linarith
        then show ?thesis
        proof cases
          case 2
          then have "8 * (i mod 4) + j < 8 * (n mod 4)" using j by linarith
          then show ?thesis using 2 by (simp add: bit_push_bit_iff)
        next
          case 3
          then have "8 \<le> 8 * (i mod 4) + j - 8 * (n mod 4)" by linarith
          then show ?thesis using 3 by (simp add: bit_push_bit_iff bit_ucast_iff bit_byte_high)
        qed (use lt in \<open>simp add: bit_push_bit_iff bit_ucast_iff\<close>)
      qed
      have "i = n \<longleftrightarrow> i div 4 = n div 4 \<and> i mod 4 = n mod 4" by (metis div_mult_mod_eq)
      moreover have "(ds[n div 4 := w]) ! (i div 4) = (if i div 4 = n div 4 then w else ds ! (i div 4))"
        using nL ds(2) by (simp add: nth_list_update)
      ultimately have "bit (val (ds[n div 4 := w])) k \<longleftrightarrow>
          bit (val ds) k \<or> i = n \<and> bit (bs ! n) j"
        using nL ds(2) new by (auto simp: bit_val kd km w_def bit_or_iff)
      then show ?thesis using ds(3) [of k] by (auto simp: less_Suc_eq simp flip: i_def j_def)
    qed
    then show ?case using ds step by (intro exI [of _ "ds[n div 4 := w]"]) (simp add: for_each_append)
  qed
  from this [of "length bs"] obtain ds where ds:
    "for_each body [0..<length bs] (st0 (replicate L 0)) = Some (st0 ds)"
    "\<And>k. bit (val ds) k = bit (bytes_nat bs) k"
    by (auto simp: bit_bytes_nat)
  then have vds: "val ds = bytes_nat bs" by (intro bit_eqI) simp
  have len: "length ?ds + (max (Suc 0) ((length bs + 4 - 1) div 4) - length ?ds) = L"
    by (simp add: L_def)
  have "import_bytes r bs st = Some (0, st0 ds)"
  proof -
    obtain s where s: "mpint_grow r ((length bs + 4 - 1) div 4) st = Some (0, s)"
      "set_sign (clear_data s r) r 1 = st0 (replicate L 0)"
      using m len by (simp add: grow_ok store_simps st0_def mpint_update_both)
    show ?thesis using ds(1) by (simp only: import_bytes_def s(1) Let_def) (simp add: s(2) body_def)
  qed
  then show ?thesis using vds by (intro exI [of _ "\<lparr>msign = 1, mdata = ds\<rparr>"]) (simp add: st0_def mval_def)
qed

lemma import_ok:
  assumes "mem_ok st" "format \<noteq> Unsupported"
  shows "\<exists>m. mpint_import r bs format st = Some (0, set_obj st r m) \<and> msign m = 1 \<and>
    mval m = bytes_nat (significant format bs)"
  using import_bytes_ok [OF assms(1), of r "rev (strip_zeros 1 bs)"]
    import_bytes_ok [OF assms(1), of r "rev (strip_zeros 0 (rev bs))"] assms(2)
  by (cases format)
    (simp_all add: mpint_import_def mpint_import_be_def mpint_import_le_def significant_def strip_zeros_value)

lemma export_ok:
  assumes "format \<noteq> Unsupported"
  shows "(mpint_export a len format = None \<longleftrightarrow> 256 ^ len \<le> mval a) \<and>
    (\<forall>bs. mpint_export a len format = Some bs \<longrightarrow>
      length bs = len \<and> bytes_nat (significant format bs) = mval a)"
  using assms export_le_value [of a len]
  by (cases format) (auto simp: mpint_export_def export_be_le significant_def export_le_ok split: if_splits)

end
