(* ===== verification/Mpint_Props.thy ===== *)
theory Mpint_Props
  imports Mpint_Div Mpint_Bytes
begin

text \<open>
  What mpint.c promises, as theorems on the operations, each with an application to concrete
  integers. \<open>msgn\<close> is the integer an object stands for, \<open>mval\<close> its absolute value.
\<close>

definition mp_store :: "mpint list \<Rightarrow> mstore" where
  "mp_store ms = \<lparr>obj = \<lambda>i. if i < length ms then ms ! i else mpint_init, sp = length ms,
     alloc_ok = \<lambda>_. True\<rparr>"

lemma mp_store_simps [simp]:
  "mem_ok (mp_store ms)" "stack_ok (mp_store ms)" "sp (mp_store ms) = length ms"
  "obj (mp_store ms) i = (if i < length ms then ms ! i else mpint_init)"
  by (simp_all add: mp_store_def mem_ok_def stack_ok_def)

lemma mpint_literal_simps [simp]:
  "mval \<lparr>msign = s, mdata = ds\<rparr> = val ds"
  "msgn \<lparr>msign = s, mdata = ds\<rparr> = s * int (val ds)"
  "sign_ok \<lparr>msign = s, mdata = ds\<rparr> \<longleftrightarrow> s = 1 \<or> s = -1"
  by (simp_all add: mval_def msgn_def sign_ok_def)

text \<open>
  \<open>mpint_comp\<close> orders two integers by value: it returns the sign of their difference, whatever
  the number of leading zero words and also when one of them is a negative zero.
\<close>

theorem mpint_comp_correct:
  assumes "sign_ok a" and "sign_ok b"
  shows "mpint_comp a b = sgn (msgn a - msgn b)"
  using assms by (rule comp_eq)

theorem mpint_comp_correct_witness:
  "mpint_comp \<lparr>msign = 1, mdata = [5, 0]\<rparr> \<lparr>msign = -1, mdata = [7]\<rparr> = 1"
  using mpint_comp_correct [of "\<lparr>msign = 1, mdata = [5, 0]\<rparr>" "\<lparr>msign = -1, mdata = [7]\<rparr>"]
  by simp

text \<open>
  \<open>mpint_add\<close> adds signed integers and changes no other object. When the signs agree, the sum
  must fit in the words \<open>r\<close> already has, and copying \<open>a\<close> to another object \<open>r\<close> must not read past
  \<open>a\<close>; for different signs nothing is needed. The arguments may be the result object.
\<close>

theorem mpint_add_correct:
  assumes "mem_ok st" and "sign_ok (obj st a)" and "sign_ok (obj st b)"
    and "msign (obj st a) = msign (obj st b) \<Longrightarrow> sum_room st r a b"
  shows "\<exists>m. mpint_add r a b st = Some (0, set_obj st r m) \<and> sign_ok m \<and>
    msgn m = msgn (obj st a) + msgn (obj st b)"
  using add_ok [OF assms] by blast

theorem mpint_add_correct_witness:
  "\<exists>m. mpint_add 0 0 1 (mp_store [\<lparr>msign = 1, mdata = [0xFFFFFFFF, 0]\<rparr>, \<lparr>msign = 1, mdata = [2]\<rparr>]) =
     Some (0, set_obj (mp_store [\<lparr>msign = 1, mdata = [0xFFFFFFFF, 0]\<rparr>, \<lparr>msign = 1, mdata = [2]\<rparr>]) 0 m) \<and>
     sign_ok m \<and> msgn m = 0x100000001"
  using mpint_add_correct [of "mp_store [\<lparr>msign = 1, mdata = [0xFFFFFFFF, 0]\<rparr>, \<lparr>msign = 1, mdata = [2]\<rparr>]" 0 1 0]
  by (simp add: sum_room_def radix_def)

text \<open>
  \<open>mpint_sub\<close> subtracts signed integers and changes no other object, under the same conditions
  as addition when the signs differ, and without any when they agree.
\<close>

theorem mpint_sub_correct:
  assumes "mem_ok st" and "sign_ok (obj st a)" and "sign_ok (obj st b)"
    and "msign (obj st a) \<noteq> msign (obj st b) \<Longrightarrow> sum_room st r a b"
  shows "\<exists>m. mpint_sub r a b st = Some (0, set_obj st r m) \<and> sign_ok m \<and>
    msgn m = msgn (obj st a) - msgn (obj st b)"
  using sub_ok [OF assms] by blast

theorem mpint_sub_correct_witness:
  "\<exists>m. mpint_sub 1 0 1 (mp_store [\<lparr>msign = 1, mdata = [3]\<rparr>, \<lparr>msign = 1, mdata = [0, 1]\<rparr>]) =
     Some (0, set_obj (mp_store [\<lparr>msign = 1, mdata = [3]\<rparr>, \<lparr>msign = 1, mdata = [0, 1]\<rparr>]) 1 m) \<and>
     sign_ok m \<and> msgn m = 3 - 0x100000000"
  using mpint_sub_correct [of "mp_store [\<lparr>msign = 1, mdata = [3]\<rparr>, \<lparr>msign = 1, mdata = [0, 1]\<rparr>]" 0 1 1]
  by (simp add: radix_def)

text \<open>
  Adding in place a shorter \<open>b\<close> to \<open>a\<close> computes modulo the size of \<open>a\<close>: when the carry runs
  through all the words of \<open>a\<close> it is dropped, because \<open>mpint_add_abs\<close> only grows \<open>r\<close> if \<open>b\<close> has as
  many words as \<open>r\<close>.
\<close>

theorem mpint_add_abs_drops_carry:
  assumes "mem_ok st" and "a \<noteq> b"
    and "mpint_get_length (obj st b) < length (mdata (obj st a))"
  shows "\<exists>m. mpint_add_abs a a b st = Some (0, set_obj st a m) \<and>
    mval m = (mval (obj st a) + mval (obj st b)) mod radix ^ length (mdata (obj st a))"
proof -
  have "max (length (mdata (obj st a))) (max 1 (mpint_get_length (obj st b))) = length (mdata (obj st a))"
    using assms(3) by simp
  then show ?thesis
    using add_in_place_ok [OF assms(1), of a b] assms(2,3)
    by (auto simp: mpint_add_abs_def add_result_def)
qed

theorem mpint_add_abs_drops_carry_witness:
  "\<exists>m. mpint_add_abs 0 0 1 (mp_store [\<lparr>msign = 1, mdata = [0xFFFFFFFF, 0xFFFFFFFF]\<rparr>, \<lparr>msign = 1, mdata = [1]\<rparr>]) =
     Some (0, set_obj (mp_store [\<lparr>msign = 1, mdata = [0xFFFFFFFF, 0xFFFFFFFF]\<rparr>, \<lparr>msign = 1, mdata = [1]\<rparr>]) 0 m) \<and>
     mval m = 0"
  using mpint_add_abs_drops_carry [of
    "mp_store [\<lparr>msign = 1, mdata = [0xFFFFFFFF, 0xFFFFFFFF]\<rparr>, \<lparr>msign = 1, mdata = [1]\<rparr>]" 0 1]
  by (simp add: radix_def mpint_get_length_def power2_eq_square)

text \<open>
  \<open>mpint_mul\<close> gives the signed product, in an object with room for all its words, also when the
  result is one of the arguments.
\<close>

theorem mpint_mul_correct:
  assumes "mem_ok st" and "stack_ok st" and "live st r" and "live st a" and "live st b"
    and "sign_ok (obj st a)" and "sign_ok (obj st b)"
    and "r = a \<or> r = b \<Longrightarrow> mdata (obj st r) \<noteq> []"
  shows "\<exists>m. mpint_mul r a b st = Some (0, set_obj st r m) \<and> sign_ok m \<and>
    msgn m = msgn (obj st a) * msgn (obj st b)"
  using mul_ok [OF assms] by blast

theorem mpint_mul_correct_witness:
  "\<exists>m. mpint_mul 0 0 1 (mp_store [\<lparr>msign = 1, mdata = [0xFFFFFFFF]\<rparr>, \<lparr>msign = -1, mdata = [0xFFFFFFFF]\<rparr>]) =
     Some (0, set_obj (mp_store [\<lparr>msign = 1, mdata = [0xFFFFFFFF]\<rparr>, \<lparr>msign = -1, mdata = [0xFFFFFFFF]\<rparr>]) 0 m) \<and>
     sign_ok m \<and> msgn m = - (0xFFFFFFFF * 0xFFFFFFFF)"
  using mpint_mul_correct [of
    "mp_store [\<lparr>msign = 1, mdata = [0xFFFFFFFF]\<rparr>, \<lparr>msign = -1, mdata = [0xFFFFFFFF]\<rparr>]" 0 0 1]
  by simp

text \<open>
  The shifts multiply and divide by powers of two: \<open>mpint_shift_left\<close> makes room first and loses
  nothing, \<open>mpint_shift_right\<close> truncates, so shifting left and then right by the same count gives the
  value back.
\<close>

theorem mpint_shift_correct:
  assumes "mem_ok st"
  shows "(\<exists>m. mpint_shift_left r n st = Some (0, set_obj st r m) \<and> mval m = mval (obj st r) * 2 ^ n) \<and>
    (\<exists>m. mpint_shift_right r n st = Some (0, set_obj st r m) \<and> mval m = mval (obj st r) div 2 ^ n) \<and>
    (\<exists>m. steps [mpint_shift_left r n, mpint_shift_right r n] st = Some (0, set_obj st r m) \<and>
      msgn m = msgn (obj st r))"
proof (intro conjI)
  show "\<exists>m. mpint_shift_left r n st = Some (0, set_obj st r m) \<and> mval m = mval (obj st r) * 2 ^ n"
    using shift_left_ok [OF assms] by blast
  show "\<exists>m. mpint_shift_right r n st = Some (0, set_obj st r m) \<and> mval m = mval (obj st r) div 2 ^ n"
    using shift_right_ok by blast
  obtain x where x: "mpint_shift_left r n st = Some (0, set_obj st r x)" "msign x = msign (obj st r)"
    "mval x = mval (obj st r) * 2 ^ n" using shift_left_ok [OF assms] by blast
  obtain y where "mpint_shift_right r n (set_obj st r x) = Some (0, set_obj st r y)"
    "msign y = msign x" "mval y = mval x div 2 ^ n"
    using shift_right_ok [of r n "set_obj st r x"] by auto
  then show "\<exists>m. steps [mpint_shift_left r n, mpint_shift_right r n] st = Some (0, set_obj st r m) \<and>
      msgn m = msgn (obj st r)"
    using x by (intro exI [of _ y]) (simp add: msgn_def)
qed

theorem mpint_shift_correct_witness:
  "\<exists>m. mpint_shift_left 0 33 (mp_store [\<lparr>msign = 1, mdata = [0x80000001]\<rparr>]) =
     Some (0, set_obj (mp_store [\<lparr>msign = 1, mdata = [0x80000001]\<rparr>]) 0 m) \<and> mval m = 0x80000001 * 2 ^ 33"
  using mpint_shift_correct [of "mp_store [\<lparr>msign = 1, mdata = [0x80000001]\<rparr>]" 0 33] by simp

text \<open>
  C4: when no allocation fails (\<open>mem_ok\<close>) and the store holds nothing where the locals of the call will be
  (\<open>stack_ok\<close>), \<open>mpint_div\<close> divides a nonnegative integer \<open>a\<close>, which has at least
  one word, by a positive integer \<open>b\<close>: it returns 0, and the objects for the quotient and the remainder
  (either may be a null pointer, and they are not the same) hold the integers \<open>a div b\<close> and \<open>a mod b\<close>,
  with a positive sign; no other object changes. The two must not have more words than the locals they
  are copied from, one for the quotient, and those of \<open>a\<close> for the remainder.
\<close>

theorem mpint_div_correct:
  assumes "mem_ok st" and "stack_ok st" and "live st a" and "live st b"
    and "msign (obj st a) = 1" and "msign (obj st b) = 1"
    and "mval (obj st b) \<noteq> 0" and "mdata (obj st a) \<noteq> []"
    and "div_dest st q 1" and "div_dest st r (max 1 (mpint_get_length (obj st a)))"
    and "q = None \<or> q \<noteq> r"
  shows "\<exists>mq mr. mpint_div q r a b st = Some (0, set_opt (set_opt st q mq) r mr) \<and>
    msign mq = 1 \<and> msign mr = 1 \<and>
    msgn mq = msgn (obj st a) div msgn (obj st b) \<and> msgn mr = msgn (obj st a) mod msgn (obj st b)"
proof -
  obtain mq mr where "mpint_div q r a b st = Some (0, set_opt (set_opt st q mq) r mr)" "msign mq = 1" "msign mr = 1"
    "mval mq = mval (obj st a) div mval (obj st b)" "mval mr = mval (obj st a) mod mval (obj st b)"
    using div_ok [OF assms] by blast
  then show ?thesis using assms(5,6) by (intro exI [of _ mq] exI [of _ mr]) (simp add: msgn_def zdiv_int zmod_int)
qed

theorem mpint_div_correct_witness:
  "\<exists>mq mr. mpint_div (Some 2) (Some 3) 0 1 (mp_store [\<lparr>msign = 1, mdata = [7, 1]\<rparr>, \<lparr>msign = 1, mdata = [10]\<rparr>, mpint_init, mpint_init]) =
     Some (0, set_opt (set_opt (mp_store [\<lparr>msign = 1, mdata = [7, 1]\<rparr>, \<lparr>msign = 1, mdata = [10]\<rparr>, mpint_init, mpint_init]) (Some 2) mq) (Some 3) mr) \<and>
     msgn mq = 429496730 \<and> msgn mr = 3"
  using mpint_div_correct [of
    "mp_store [\<lparr>msign = 1, mdata = [7, 1]\<rparr>, \<lparr>msign = 1, mdata = [10]\<rparr>, mpint_init, mpint_init]" 0 1 "Some 2" "Some 3"]
  by (simp add: div_dest_def radix_def msgn_def) blast

text \<open>
  \<open>mpint_div\<close> by zero returns -1 and changes nothing, and so does \<open>mpint_mod\<close> by a modulus that
  is zero or negative.
\<close>

theorem mpint_div_mod_errors:
  assumes "sign_ok (obj st b)"
  shows "(mval (obj st b) = 0 \<longrightarrow> mpint_div q r a b st = Some (-1, st)) \<and>
    (msgn (obj st b) \<le> 0 \<longrightarrow> mpint_mod fuel x a b st = Some (-1, st))"
  using div_zero [OF assms] mod_nonpos [OF assms] by blast+

theorem mpint_div_mod_errors_witness:
  "mpint_mod 5 0 0 1 (mp_store [\<lparr>msign = 1, mdata = [7]\<rparr>, \<lparr>msign = -1, mdata = [10]\<rparr>]) =
     Some (-1, mp_store [\<lparr>msign = 1, mdata = [7]\<rparr>, \<lparr>msign = -1, mdata = [10]\<rparr>])"
  using mpint_div_mod_errors [of "mp_store [\<lparr>msign = 1, mdata = [7]\<rparr>, \<lparr>msign = -1, mdata = [10]\<rparr>]" 1 None None 0 5 0]
  by simp

text \<open>
  \<open>mpint_mod\<close> ends: its loop makes at most as many rounds as \<open>a\<close> has bits. It leaves the residue
  of \<open>a\<close> in \<open>r\<close>, which may be \<open>a\<close>; for a negative \<open>a\<close> that is \<open>p - |a| mod p\<close>, which is \<open>p\<close> and not zero when
  \<open>p\<close> divides \<open>a\<close>.
\<close>

theorem mpint_mod_correct:
  assumes "mem_ok st" and "stack_ok st" and "live st r" and "live st a" and "live st p"
    and "sign_ok (obj st a)" and "msign (obj st p) = 1" and "mval (obj st p) \<noteq> 0" and "r \<noteq> p"
    and "r = a \<or> copy_ok (obj st r) (obj st a)" and "mpint_get_bit_length (obj st a) \<le> fuel"
  shows "\<exists>m. mpint_mod fuel r a p st = Some (0, set_obj st r m) \<and>
    mval m = (if msign (obj st a) < 0 then mval (obj st p) - mval (obj st a) mod mval (obj st p)
      else mval (obj st a) mod mval (obj st p))"
  using mod_ok [OF assms] by (auto simp: mod_value_def)

theorem mpint_mod_correct_witness:
  "\<exists>m. mpint_mod 40 0 0 1 (mp_store [\<lparr>msign = -1, mdata = [14]\<rparr>, \<lparr>msign = 1, mdata = [7]\<rparr>]) =
     Some (0, set_obj (mp_store [\<lparr>msign = -1, mdata = [14]\<rparr>, \<lparr>msign = 1, mdata = [7]\<rparr>]) 0 m) \<and> mval m = 7"
  using mpint_mod_correct [of "mp_store [\<lparr>msign = -1, mdata = [14]\<rparr>, \<lparr>msign = 1, mdata = [7]\<rparr>]" 0 0 1 40]
  by (simp add: bit_length_le_iff)

text \<open>
  \<open>mpint_mul_mod\<close>, the step of the modular exponentiation, composes both: for nonnegative
  arguments it leaves \<open>(a * b) mod p\<close> in \<open>r\<close>, also when \<open>r\<close> is \<open>a\<close> or \<open>b\<close>.
\<close>

theorem mpint_mul_mod_correct:
  assumes "mem_ok st" and "stack_ok st" and "live st r" and "live st a" and "live st b" and "live st p"
    and "msign (obj st a) = 1" and "msign (obj st b) = 1" and "msign (obj st p) = 1"
    and "mval (obj st p) \<noteq> 0" and "r \<noteq> p" and "r = a \<or> r = b \<Longrightarrow> mdata (obj st r) \<noteq> []"
    and "mpint_get_bit_length (obj st a) + mpint_get_bit_length (obj st b) \<le> fuel"
  shows "\<exists>m. mpint_mul_mod fuel r a b p st = Some (0, set_obj st r m) \<and>
    mval m = mval (obj st a) * mval (obj st b) mod mval (obj st p)"
proof -
  have "sign_ok (obj st a)" "sign_ok (obj st b)" using assms(7,8) by (simp_all add: sign_ok_def)
  from mul_ok [OF assms(1-5) this assms(12)] obtain x where x: "mpint_mul r a b st = Some (0, set_obj st r x)"
    "sign_ok x" "msgn x = msgn (obj st a) * msgn (obj st b)" "msign x = 1"
    using assms(7,8) by auto
  then have vx: "mval x = mval (obj st a) * mval (obj st b)"
    using assms(7,8) by (simp add: msgn_def flip: of_nat_mult)
  have "mval (obj st a) < 2 ^ mpint_get_bit_length (obj st a)"
    "mval (obj st b) < 2 ^ mpint_get_bit_length (obj st b)" by (simp_all flip: bit_length_le_iff)
  then have "mval x < 2 ^ (mpint_get_bit_length (obj st a) + mpint_get_bit_length (obj st b))"
    unfolding vx power_add by (intro mult_strict_mono) simp_all
  then have "mpint_get_bit_length x \<le> fuel" using assms(13) by (simp flip: bit_length_le_iff)
  then have "\<exists>m. mpint_mod fuel r r p (set_obj st r x) = Some (0, set_obj (set_obj st r x) r m) \<and>
      mval m = mod_value (msign (obj (set_obj st r x) r)) (mval (obj (set_obj st r x) r))
        (mval (obj (set_obj st r x) p)) \<and> (msign (obj (set_obj st r x) r) < 0 \<longrightarrow> msign m = 1)"
    using assms x(2) by (intro mod_ok) (auto intro: stack_ok_set_obj)
  then show ?thesis
    using x(1,4) vx assms(11) by (auto simp: mpint_mul_mod_def mod_value_def)
qed

theorem mpint_mul_mod_correct_witness:
  "\<exists>m. mpint_mul_mod 80 0 0 0 1 (mp_store [\<lparr>msign = 1, mdata = [100]\<rparr>, \<lparr>msign = 1, mdata = [7]\<rparr>]) =
     Some (0, set_obj (mp_store [\<lparr>msign = 1, mdata = [100]\<rparr>, \<lparr>msign = 1, mdata = [7]\<rparr>]) 0 m) \<and> mval m = 4"
proof -
  have "mpint_get_bit_length \<lparr>msign = 1, mdata = [100]\<rparr> \<le> 40" by (simp add: bit_length_le_iff)
  then show ?thesis
    using mpint_mul_mod_correct [of "mp_store [\<lparr>msign = 1, mdata = [100]\<rparr>, \<lparr>msign = 1, mdata = [7]\<rparr>]" 0 0 0 1 80]
    by simp
qed

text \<open>
  Export writes exactly the base 256 digits: it fails when the value needs more bytes than the
  buffer has, and otherwise fills the whole buffer with a representation of the value in the order
  of the format.
\<close>

theorem mpint_export_correct:
  assumes "format \<noteq> Unsupported"
  shows "case mpint_export a len format of
      None \<Rightarrow> 256 ^ len \<le> mval a
    | Some bs \<Rightarrow> mval a < 256 ^ len \<and> length bs = len \<and> bytes_nat (significant format bs) = mval a"
  using export_ok [OF assms, of a len] by (auto split: option.split)

theorem mpint_export_correct_witness:
  "mpint_export \<lparr>msign = 1, mdata = [0x01020304]\<rparr> 3 MPINT_FORMAT_BIG_ENDIAN = None"
  using mpint_export_correct [where format = MPINT_FORMAT_BIG_ENDIAN
      and a = "\<lparr>msign = 1, mdata = [0x01020304]\<rparr>" and len = 3]
  by (simp split: option.splits)

text \<open>
  Importing what was exported gives the value back, in either format and whatever the object
  held before.
\<close>

theorem mpint_import_export:
  assumes "mem_ok st" and "format \<noteq> Unsupported" and "mpint_export a len format = Some bs"
  shows "\<exists>m. mpint_import r bs format st = Some (0, set_obj st r m) \<and> msign m = 1 \<and> mval m = mval a"
  using import_ok [OF assms(1,2), of r bs] export_ok [OF assms(2)] assms(3) by auto

theorem mpint_import_export_witness:
  "\<exists>bs m. mpint_export \<lparr>msign = 1, mdata = [0x01020304, 5]\<rparr> 7 MPINT_FORMAT_BIG_ENDIAN = Some bs \<and>
     mpint_import 0 bs MPINT_FORMAT_BIG_ENDIAN (mp_store [\<lparr>msign = -1, mdata = [9]\<rparr>]) =
       Some (0, set_obj (mp_store [\<lparr>msign = -1, mdata = [9]\<rparr>]) 0 m) \<and> mval m = 0x501020304"
proof -
  obtain bs where bs: "mpint_export \<lparr>msign = 1, mdata = [0x01020304, 5]\<rparr> 7 MPINT_FORMAT_BIG_ENDIAN = Some bs"
    using export_ok [of MPINT_FORMAT_BIG_ENDIAN "\<lparr>msign = 1, mdata = [0x01020304, 5]\<rparr>" 7]
    by (cases "mpint_export \<lparr>msign = 1, mdata = [0x01020304, 5]\<rparr> 7 MPINT_FORMAT_BIG_ENDIAN")
      (auto simp: radix_def)
  show ?thesis
    using mpint_import_export [OF _ _ bs, of "mp_store [\<lparr>msign = -1, mdata = [9]\<rparr>]" 0] bs
    by (auto simp: radix_def)
qed

text \<open>
  The Newton iteration at the start of \<open>mpint_montgomery_mul\<close> inverts the lowest word of an odd
  modulus: five doublings of the precision reach all 32 bits, and the result is its negated inverse.
\<close>

theorem montgomery_m_inverse:
  assumes "odd p0"
  shows "p0 * montgomery_m p0 = -1"
proof -
  define nxt where "nxt = (\<lambda>m. m * (2 - m * p0))"
  have sq: "1 - nxt m * p0 = (1 - m * p0)\<^sup>2" for m
    by (simp add: nxt_def power2_eq_square algebra_simps)
  have start: "1 - (2 - p0) * p0 = (1 - p0)\<^sup>2" by (simp add: power2_eq_square algebra_simps)
  obtain y where "p0 = 2 * y + 1" using assms by (rule oddE)
  then have x: "1 - p0 = 2 * (- y)" by simp
  have "1 - nxt (nxt (nxt (nxt (2 - p0)))) * p0 = (1 - p0) ^ (2 * 2 * 2 * 2 * 2)"
    by (simp only: sq start power_mult [symmetric] mult.assoc)
  also have "2 * 2 * 2 * 2 * 2 = (32 :: nat)" by simp
  also have "(1 - p0) ^ 32 = 2 ^ 32 * (- y) ^ 32" by (simp only: x power_mult_distrib)
  also have "(2 :: u32) ^ 32 = 0" by simp
  finally have "1 - nxt (nxt (nxt (nxt (2 - p0)))) * p0 = 0" by (simp only: mult_zero_left)
  then have "nxt (nxt (nxt (nxt (2 - p0)))) * p0 = 1" by simp
  moreover have "montgomery_m p0 = - nxt (nxt (nxt (nxt (2 - p0))))"
    by (simp add: montgomery_m_def Let_def nxt_def not_eq_complement)
  ultimately show ?thesis by (simp add: mult.commute)
qed

theorem montgomery_m_inverse_witness: "13 * montgomery_m 13 = (-1 :: u32)"
  by (rule montgomery_m_inverse) simp

end
