(* ===== verification/Crypto_Util.thy ===== *)
theory Crypto_Util
  imports OS6_Prelude
begin

text \<open>
  Word helpers: the rotations and shifts of kernel/src/crypto/crypto_util.c and the byte and bit
  reversals and unaligned loads and stores of kernel/src/util/endian.c and endian.h.

  Rotation counts are below the width in every use. (At count zero the code also shifts by the full
  width, which C leaves undefined; both readings of the hardware give the value unchanged.)
  Reversals of words are stated by bits: the reversal of an \<open>n\<close> bit word moves bit \<open>k\<close> to
  \<open>n - 1 - k\<close>.
\<close>

unbundle bit_operations_syntax

subsection \<open>Rotations and shifts\<close>

definition rotate_left8 :: "u8 \<Rightarrow> nat \<Rightarrow> u8" where
  "rotate_left8 a n = push_bit n a OR drop_bit (8 - n) a"

definition rotate_left16 :: "u16 \<Rightarrow> nat \<Rightarrow> u16" where
  "rotate_left16 a n = push_bit n a OR drop_bit (16 - n) a"

definition rotate_left32 :: "u32 \<Rightarrow> nat \<Rightarrow> u32" where
  "rotate_left32 a n = push_bit n a OR drop_bit (32 - n) a"

definition rotate_left64 :: "u64 \<Rightarrow> nat \<Rightarrow> u64" where
  "rotate_left64 a n = push_bit n a OR drop_bit (64 - n) a"

definition rotate_right8 :: "u8 \<Rightarrow> nat \<Rightarrow> u8" where
  "rotate_right8 a n = drop_bit n a OR push_bit (8 - n) a"

definition rotate_right16 :: "u16 \<Rightarrow> nat \<Rightarrow> u16" where
  "rotate_right16 a n = drop_bit n a OR push_bit (16 - n) a"

definition rotate_right32 :: "u32 \<Rightarrow> nat \<Rightarrow> u32" where
  "rotate_right32 a n = drop_bit n a OR push_bit (32 - n) a"

definition rotate_right64 :: "u64 \<Rightarrow> nat \<Rightarrow> u64" where
  "rotate_right64 a n = drop_bit n a OR push_bit (64 - n) a"

definition shift_left8 :: "u8 \<Rightarrow> nat \<Rightarrow> u8" where
  "shift_left8 a n = push_bit n a"

definition shift_left16 :: "u16 \<Rightarrow> nat \<Rightarrow> u16" where
  "shift_left16 a n = push_bit n a"

definition shift_left32 :: "u32 \<Rightarrow> nat \<Rightarrow> u32" where
  "shift_left32 a n = push_bit n a"

definition shift_left64 :: "u64 \<Rightarrow> nat \<Rightarrow> u64" where
  "shift_left64 a n = push_bit n a"

definition shift_right8 :: "u8 \<Rightarrow> nat \<Rightarrow> u8" where
  "shift_right8 a n = drop_bit n a"

definition shift_right16 :: "u16 \<Rightarrow> nat \<Rightarrow> u16" where
  "shift_right16 a n = drop_bit n a"

definition shift_right32 :: "u32 \<Rightarrow> nat \<Rightarrow> u32" where
  "shift_right32 a n = drop_bit n a"

definition shift_right64 :: "u64 \<Rightarrow> nat \<Rightarrow> u64" where
  "shift_right64 a n = drop_bit n a"

lemma bit_rotate_left32:
  assumes "n < 32" "k < 32"
  shows "bit (rotate_left32 a n) k \<longleftrightarrow> bit a ((k + (32 - n)) mod 32)"
proof (cases "n \<le> k")
  case True
  then have "(k + (32 - n)) mod 32 = k - n" using assms by (simp add: mod_if)
  moreover have "\<not> bit a (32 - n + k)"
    using bit_imp_le_length [of a "32 - n + k"] True by auto
  ultimately show ?thesis using assms True by (simp add: rotate_left32_def bit_simps)
next
  case False
  then show ?thesis using assms by (simp add: rotate_left32_def bit_simps add.commute)
qed

lemma rotate_left32_xor: "rotate_left32 (a XOR b) n = rotate_left32 a n XOR rotate_left32 b n"
  if "n < 32" for a b :: u32
  using that by (intro bit_word_eqI) (simp add: bit_rotate_left32 bit_xor_iff)

lemma rotate_right32_left32: "n < 32 \<Longrightarrow> rotate_right32 a n = rotate_left32 a ((32 - n) mod 32)"
  by (cases n) (auto simp: rotate_right32_def rotate_left32_def or.commute)

subsection \<open>Byte order and bit order\<close>

definition swapInt16 :: "u16 \<Rightarrow> u16" where
  "swapInt16 x = push_bit 8 (x AND 0x00FF) OR drop_bit 8 (x AND 0xFF00)"

definition swapInt32 :: "u32 \<Rightarrow> u32" where
  "swapInt32 x = push_bit 24 (x AND 0x000000FF) OR push_bit 8 (x AND 0x0000FF00) OR
     drop_bit 8 (x AND 0x00FF0000) OR drop_bit 24 (x AND 0xFF000000)"

definition swapInt64 :: "u64 \<Rightarrow> u64" where
  "swapInt64 x =
     push_bit 56 (x AND 0x00000000000000FF) OR push_bit 40 (x AND 0x000000000000FF00) OR
     push_bit 24 (x AND 0x0000000000FF0000) OR push_bit 8 (x AND 0x00000000FF000000) OR
     drop_bit 8 (x AND 0x000000FF00000000) OR drop_bit 24 (x AND 0x0000FF0000000000) OR
     drop_bit 40 (x AND 0x00FF000000000000) OR drop_bit 56 (x AND 0xFF00000000000000)"

text \<open>One line of a reversal: the fields under two masks change places.\<close>

definition swap_fields :: "nat \<Rightarrow> 'a::len word \<Rightarrow> 'a word \<Rightarrow> 'a word \<Rightarrow> 'a word" where
  "swap_fields n hi lo v = drop_bit n (v AND hi) OR push_bit n (v AND lo)"

definition reverseInt4 :: "u8 \<Rightarrow> u8" where
  "reverseInt4 v = swap_fields 1 0x0A 0x05 (swap_fields 2 0x0C 0x03 v)"

definition reverseInt8 :: "u8 \<Rightarrow> u8" where
  "reverseInt8 v = swap_fields 1 0xAA 0x55 (swap_fields 2 0xCC 0x33 (swap_fields 4 0xF0 0x0F v))"

definition reverseInt16 :: "u16 \<Rightarrow> u16" where
  "reverseInt16 v =
     (let v = swap_fields 8 0xFF00 0x00FF v;
          v = swap_fields 4 0xF0F0 0x0F0F v;
          v = swap_fields 2 0xCCCC 0x3333 v
      in swap_fields 1 0xAAAA 0x5555 v)"

definition reverseInt32 :: "u32 \<Rightarrow> u32" where
  "reverseInt32 v =
     (let v = swap_fields 16 0xFFFF0000 0x0000FFFF v;
          v = swap_fields 8 0xFF00FF00 0x00FF00FF v;
          v = swap_fields 4 0xF0F0F0F0 0x0F0F0F0F v;
          v = swap_fields 2 0xCCCCCCCC 0x33333333 v
      in swap_fields 1 0xAAAAAAAA 0x55555555 v)"

definition reverseInt64 :: "u64 \<Rightarrow> u64" where
  "reverseInt64 v =
     (let v = swap_fields 32 0xFFFFFFFF00000000 0x00000000FFFFFFFF v;
          v = swap_fields 16 0xFFFF0000FFFF0000 0x0000FFFF0000FFFF v;
          v = swap_fields 8 0xFF00FF00FF00FF00 0x00FF00FF00FF00FF v;
          v = swap_fields 4 0xF0F0F0F0F0F0F0F0 0x0F0F0F0F0F0F0F0F v;
          v = swap_fields 2 0xCCCCCCCCCCCCCCCC 0x3333333333333333 v
      in swap_fields 1 0xAAAAAAAAAAAAAAAA 0x5555555555555555 v)"

subsection \<open>Loads and stores\<close>

text \<open>The buffer starts at the pointer; the stores give the bytes written.\<close>

definition LOAD16LE :: "u8 list \<Rightarrow> u16" where
  "LOAD16LE p = ucast (p ! 0) OR push_bit 8 (ucast (p ! 1))"

definition LOAD16BE :: "u8 list \<Rightarrow> u16" where
  "LOAD16BE p = push_bit 8 (ucast (p ! 0)) OR ucast (p ! 1)"

definition LOAD32LE :: "u8 list \<Rightarrow> u32" where
  "LOAD32LE p = ucast (p ! 0) OR push_bit 8 (ucast (p ! 1)) OR push_bit 16 (ucast (p ! 2)) OR
     push_bit 24 (ucast (p ! 3))"

definition LOAD32BE :: "u8 list \<Rightarrow> u32" where
  "LOAD32BE p = push_bit 24 (ucast (p ! 0)) OR push_bit 16 (ucast (p ! 1)) OR
     push_bit 8 (ucast (p ! 2)) OR ucast (p ! 3)"

definition STORE16LE :: "u16 \<Rightarrow> u8 list" where
  "STORE16LE a = [ucast a, ucast (drop_bit 8 a)]"

definition STORE16BE :: "u16 \<Rightarrow> u8 list" where
  "STORE16BE a = [ucast (drop_bit 8 a), ucast a]"

definition STORE32LE :: "u32 \<Rightarrow> u8 list" where
  "STORE32LE a = [ucast a, ucast (drop_bit 8 a), ucast (drop_bit 16 a), ucast (drop_bit 24 a)]"

definition STORE32BE :: "u32 \<Rightarrow> u8 list" where
  "STORE32BE a = [ucast (drop_bit 24 a), ucast (drop_bit 16 a), ucast (drop_bit 8 a), ucast a]"

subsection \<open>Words as four bytes\<close>

definition pack :: "u8 \<Rightarrow> u8 \<Rightarrow> u8 \<Rightarrow> u8 \<Rightarrow> u32" where
  "pack a b c d = ucast a OR push_bit 8 (ucast b) OR push_bit 16 (ucast c) OR push_bit 24 (ucast d)"

definition byte :: "nat \<Rightarrow> u32 \<Rightarrow> u8" where
  "byte n w = ucast (drop_bit (8 * n) w)"

lemma bit_pack:
  "bit (pack a b c d) k \<longleftrightarrow>
     (if k < 8 then bit a k else if k < 16 then bit b (k - 8) else if k < 24 then bit c (k - 16)
      else k < 32 \<and> bit d (k - 24))"
  by (auto simp: pack_def bit_simps dest: bit_imp_le_length)

lemma bit_byte: "bit (byte n w) k \<longleftrightarrow> k < 8 \<and> bit w (8 * n + k)"
  by (auto simp: byte_def bit_simps)

lemma pack_byte [simp]: "pack (byte 0 w) (byte 1 w) (byte 2 w) (byte 3 w) = w"
  by (rule bit_word_eqI) (auto simp: bit_pack bit_byte)

lemma pack_byte_Suc [simp]: "pack (byte 0 w) (byte (Suc 0) w) (byte 2 w) (byte 3 w) = w"
  using pack_byte [of w] by simp

lemma byte_pack [simp]:
  "byte 0 (pack a b c d) = a" "byte 1 (pack a b c d) = b" "byte (Suc 0) (pack a b c d) = b"
  "byte 2 (pack a b c d) = c" "byte 3 (pack a b c d) = d"
  by (rule bit_word_eqI; auto simp: bit_pack bit_byte)+

lemma pack_xor: "pack a b c d XOR pack a' b' c' d' = pack (a XOR a') (b XOR b') (c XOR c') (d XOR d')"
  by (rule bit_word_eqI) (auto simp: bit_pack bit_xor_iff)

lemma byte_xor: "byte n (v XOR w) = byte n v XOR byte n w"
  by (rule bit_word_eqI) (simp add: bit_byte bit_xor_iff)

lemma rotate_pack:
  "rotate_left32 (pack a b c d) 8 = pack d a b c"
  "rotate_left32 (pack a b c d) 16 = pack c d a b"
  "rotate_left32 (pack a b c d) 24 = pack b c d a"
  by (rule bit_word_eqI; auto simp: bit_rotate_left32 bit_pack mod_if)+

lemma LOAD32LE_pack: "LOAD32LE p = pack (p ! 0) (p ! 1) (p ! 2) (p ! 3)"
  by (simp add: LOAD32LE_def pack_def)

lemma STORE32LE_bytes: "STORE32LE w = [byte 0 w, byte 1 w, byte 2 w, byte 3 w]"
  by (simp add: STORE32LE_def byte_def)

lemma STORE32BE_LOAD32BE:
  assumes "length p = 4"
  shows "STORE32BE (LOAD32BE p) = p"
proof -
  have "LOAD32BE p = pack (p ! 3) (p ! 2) (p ! 1) (p ! 0)"
    by (simp add: LOAD32BE_def pack_def or.assoc or.commute or.left_commute)
  moreover have "STORE32BE w = [byte 3 w, byte 2 w, byte 1 w, byte 0 w]" for w
    by (simp add: STORE32BE_def byte_def)
  moreover obtain a b c d where "p = [a, b, c, d]"
    using assms by (auto simp: length_Suc_conv numeral_eq_Suc)
  ultimately show ?thesis by (simp add: numeral_eq_Suc [of "num.One"])
qed

end
