(* ===== verification/Aes_Tables.thy ===== *)
theory Aes_Tables
  imports Aes
begin

text \<open>
  The tables of aes.c are what their comments say: \<open>te\<close> and \<open>td\<close> hold the columns of MixColumns and
  its inverse for each substituted byte, and \<open>isbox\<close> inverts \<open>sbox\<close>.
\<close>

unbundle bit_operations_syntax

subsection \<open>Multiplication in the field\<close>

definition xtime :: "u8 \<Rightarrow> u8" where
  "xtime b = push_bit 1 b XOR (if bit b 7 then 0x1B else 0)"

definition te_entry :: "u8 \<Rightarrow> u32" where
  "te_entry y = pack (xtime y) y y (xtime y XOR y)"

definition td_entry :: "u8 \<Rightarrow> u32" where
  "td_entry y = (let y2 = xtime y; y4 = xtime y2; y8 = xtime y4 in
     pack (y8 XOR y4 XOR y2) (y8 XOR y) (y8 XOR y4 XOR y) (y8 XOR y2 XOR y))"

subsection \<open>The tables\<close>

lemma te_table: "te = map te_entry sbox"
  unfolding te_def sbox_def te_entry_def pack_def xtime_def by simp

lemma td_table: "td = map td_entry isbox"
  unfolding td_def isbox_def td_entry_def pack_def xtime_def Let_def by simp

lemma length_boxes: "length sbox = 256" "length isbox = 256"
  by (simp_all add: sbox_def isbox_def)

lemma isbox_sbox_table: "map (\<lambda>y. isbox ! unat y) sbox = map word_of_nat [0..<256]"
  by code_simp


end
