(* ===== verification/Aes_Props.thy ===== *)
theory Aes_Props
  imports Aes_Tables
begin

text \<open>
  AES: decryption undoes encryption, for the key schedules of any valid key, and the table driven
  rounds are the rounds of the standard on a matrix of bytes.
\<close>

unbundle bit_operations_syntax

subsection \<open>Bytes and boxes\<close>

definition sb :: "u8 \<Rightarrow> u8" where
  "sb b = sbox ! unat b"

definition isb :: "u8 \<Rightarrow> u8" where
  "isb b = isbox ! unat b"

lemma unat_u8_256 [simp]: "unat (b :: u8) < 256"
  using unsigned_less [of b] by simp

lemma isb_sb [simp]: "isb (sb b) = b"
proof -
  have "map (\<lambda>y. isbox ! unat y) sbox ! unat b = map word_of_nat [0..<256] ! unat b"
    by (simp only: isbox_sbox_table)
  then show ?thesis by (simp add: isb_def sb_def length_boxes)
qed

lemma idx_byte_eq: "idx_byte n w = unat (byte n w)"
proof -
  have "drop_bit (8 * n) w AND 0xFF = ucast (byte n w)"
  proof (rule bit_word_eqI)
    fix k assume "k < LENGTH(32)"
    have "bit (0xFF :: u32) k \<longleftrightarrow> k < 8"
    proof -
      have "(0xFF :: u32) = mask 8" by (simp add: mask_eq_exp_minus_1)
      then show ?thesis using \<open>k < LENGTH(32)\<close> by (simp only: bit_mask_iff) simp
    qed
    then show "bit (drop_bit (8 * n) w AND 0xFF) k = bit (ucast (byte n w) :: u32) k"
      using \<open>k < LENGTH(32)\<close> by (auto simp: bit_and_iff bit_drop_bit_eq bit_ucast_iff bit_byte)
  qed
  moreover have "unat (ucast b :: u32) = unat b" for b :: u8
  proof -
    have "unat b < 2 ^ 32" by (rule less_trans [OF unat_u8_256]) simp
    then show ?thesis by (simp add: unsigned_ucast_eq take_bit_nat_eq_self)
  qed
  ultimately show ?thesis by (simp add: idx_byte_def)
qed

lemma sub4_pack: "sub4 box i j k l = pack (box ! i) (box ! j) (box ! k) (box ! l)"
  by (simp add: sub4_def pack_def)

lemma box4_sbox: "box4 sbox a b c d = pack (sb (byte 0 a)) (sb (byte 1 b)) (sb (byte 2 c)) (sb (byte 3 d))"
  by (simp add: box4_def sub4_pack idx_byte_eq sb_def)

lemma box4_isbox: "box4 isbox a b c d = pack (isb (byte 0 a)) (isb (byte 1 b)) (isb (byte 2 c)) (isb (byte 3 d))"
  by (simp add: box4_def sub4_pack idx_byte_eq isb_def)

lemma te_nth: "te ! unat b = te_entry (sb b)"
  by (simp add: te_table sb_def length_boxes)

lemma td_nth: "td ! unat b = td_entry (isb b)"
  by (simp add: td_table isb_def length_boxes)

subsection \<open>Columns\<close>

definition mix :: "u32 \<Rightarrow> u32" where
  "mix w = te_entry (byte 0 w) XOR rotate_left32 (te_entry (byte 1 w)) 8 XOR
     rotate_left32 (te_entry (byte 2 w)) 16 XOR rotate_left32 (te_entry (byte 3 w)) 24"

definition inv_mix :: "u32 \<Rightarrow> u32" where
  "inv_mix w = td_entry (byte 0 w) XOR rotate_left32 (td_entry (byte 1 w)) 8 XOR
     rotate_left32 (td_entry (byte 2 w)) 16 XOR rotate_left32 (td_entry (byte 3 w)) 24"

lemma table4_te: "table4 te a b c d = mix (box4 sbox a b c d)"
  by (simp add: table4_def mix_def box4_sbox idx_byte_eq te_nth)

lemma table4_td: "table4 td a b c d = inv_mix (box4 isbox a b c d)"
  by (simp add: table4_def inv_mix_def box4_isbox idx_byte_eq td_nth)

lemma dec_key_word_eq: "dec_key_word w = inv_mix w"
  by (simp add: dec_key_word_def inv_mix_def idx_byte_eq td_nth sb_def [symmetric])

lemma xor_cancel [simp]: "a XOR (a XOR b) = (b :: 'a::len word)"
  by (simp flip: xor.assoc)

lemmas xor_ac = xor.assoc xor.commute xor.left_commute

lemma xtime_xor: "xtime (a XOR b) = xtime a XOR xtime b"
  by (simp add: xtime_def push_bit_xor bit_xor_iff xor_ac)

lemma td_entry_xor: "td_entry (a XOR b) = td_entry a XOR td_entry b"
  by (simp add: td_entry_def Let_def pack_xor xtime_xor xor_ac)

lemma inv_mix_xor: "inv_mix (v XOR w) = inv_mix v XOR inv_mix w"
  by (simp add: inv_mix_def byte_xor td_entry_xor rotate_left32_xor xor_ac)

lemma inv_mix_mix: "inv_mix (mix w) = w"
proof -
  define a b c d where "a = byte 0 w" and "b = byte 1 w" and "c = byte 2 w" and "d = byte 3 w"
  have w: "w = pack a b c d" by (simp only: a_def b_def c_def d_def pack_byte)
  show ?thesis
    unfolding w mix_def inv_mix_def
    by (simp add: te_entry_def td_entry_def Let_def rotate_pack pack_xor xtime_xor xor_ac)
qed

subsection \<open>Rounds\<close>

definition sub_shift :: "aes_state \<Rightarrow> aes_state" where
  "sub_shift = (\<lambda>(s0, s1, s2, s3).
     (box4 sbox s0 s1 s2 s3, box4 sbox s1 s2 s3 s0, box4 sbox s2 s3 s0 s1, box4 sbox s3 s0 s1 s2))"

definition inv_sub_shift :: "aes_state \<Rightarrow> aes_state" where
  "inv_sub_shift = (\<lambda>(s0, s1, s2, s3).
     (box4 isbox s0 s3 s2 s1, box4 isbox s1 s0 s3 s2, box4 isbox s2 s1 s0 s3, box4 isbox s3 s2 s1 s0))"

definition map_state :: "(u32 \<Rightarrow> u32) \<Rightarrow> aes_state \<Rightarrow> aes_state" where
  "map_state f = (\<lambda>(s0, s1, s2, s3). (f s0, f s1, f s2, f s3))"

lemma enc_round_eq: "enc_round k s i = add_key k i (map_state mix (sub_shift s))"
  by (cases s) (simp add: enc_round_def sub_shift_def map_state_def table4_te)

lemma dec_round_eq: "dec_round k s i = add_key k i (map_state inv_mix (inv_sub_shift s))"
  by (cases s) (simp add: dec_round_def inv_sub_shift_def map_state_def table4_td)

lemma inv_sub_shift_sub_shift [simp]: "inv_sub_shift (sub_shift s) = s"
  by (cases s) (simp add: sub_shift_def inv_sub_shift_def box4_sbox box4_isbox)

lemma add_key_twice [simp]: "add_key k i (add_key k i s) = s"
  by (cases s) (simp add: add_key_def xor_ac)

lemma map_state_inv_mix [simp]: "map_state inv_mix (map_state mix s) = s"
  by (cases s) (simp add: map_state_def inv_mix_mix)

text \<open>The decryption keys of the inner rounds are the encryption keys with inverted columns.\<close>

definition keys_match :: "aes_context \<Rightarrow> bool" where
  "keys_match c \<longleftrightarrow> (\<forall>j < 4. dk c ! j = ek c ! j \<and> dk c ! (nr c * 4 + j) = ek c ! (nr c * 4 + j)) \<and>
     (\<forall>i. 0 < i \<and> i < nr c \<longrightarrow> (\<forall>j < 4. dk c ! (i * 4 + j) = inv_mix (ek c ! (i * 4 + j))))"

lemma add_key_cong:
  assumes "\<And>j. j < 4 \<Longrightarrow> k ! (i * 4 + j) = k' ! (i * 4 + j)"
  shows "add_key k i s = add_key k' i s"
  using assms [of 0] assms [of 1] assms [of 2] assms [of 3] by (cases s) (simp add: add_key_def)

lemma inv_mix_add_key:
  assumes "\<And>j. j < 4 \<Longrightarrow> k' ! (i * 4 + j) = inv_mix (k ! (i * 4 + j))"
  shows "map_state inv_mix (add_key k i s) = add_key k' i (map_state inv_mix s)"
  using assms [of 0] assms [of 1] assms [of 2] assms [of 3]
  by (cases s) (simp add: add_key_def map_state_def inv_mix_xor)

lemma dec_rounds_undo:
  assumes "keys_match c" and "n < nr c"
  shows "foldl (dec_round (dk c)) (sub_shift (foldl (enc_round (ek c)) s [1..<Suc n])) (rev [1..<Suc n]) =
    sub_shift s"
  using assms(2)
proof (induction n)
  case (Suc n)
  define t where "t = foldl (enc_round (ek c)) s [1..<Suc n]"
  have "dec_round (dk c) (sub_shift (enc_round (ek c) t (Suc n))) (Suc n) =
      add_key (dk c) (Suc n) (map_state inv_mix (add_key (ek c) (Suc n) (map_state mix (sub_shift t))))"
    by (simp add: dec_round_eq enc_round_eq)
  also have "\<dots> = sub_shift t"
    using assms(1) Suc.prems by (subst inv_mix_add_key [where k' = "dk c"]) (auto simp: keys_match_def)
  finally have step: "dec_round (dk c) (sub_shift (enc_round (ek c) t (Suc n))) (Suc n) = sub_shift t" .
  have "foldl (enc_round (ek c)) s [1..<Suc (Suc n)] = enc_round (ek c) t (Suc n)"
    by (simp add: t_def)
  moreover have "rev [1..<Suc (Suc n)] = Suc n # rev [1..<Suc n]" by simp
  ultimately show ?case using Suc step by (simp add: t_def)
qed simp

subsection \<open>Blocks\<close>

lemma load_store_state [simp]: "load_state (store_state s) = s"
  by (cases s) (simp add: load_state_def store_state_def LOAD32LE_pack STORE32LE_bytes)

lemma store_load_state: "length p = 16 \<Longrightarrow> store_state (load_state p) = p"
proof -
  assume "length p = 16"
  then obtain a0 a1 a2 a3 a4 a5 a6 a7 a8 a9 b0 b1 b2 b3 b4 b5 where
    "p = [a0, a1, a2, a3, a4, a5, a6, a7, a8, a9, b0, b1, b2, b3, b4, b5]"
    by (auto simp: numeral_eq_Suc length_Suc_conv)
  then show ?thesis by (simp add: load_state_def store_state_def LOAD32LE_pack STORE32LE_bytes)
qed

lemma encrypt_eq:
  "aes_encrypt_block c p = store_state (add_key (ek c) (nr c) (sub_shift
     (foldl (enc_round (ek c)) (add_key (ek c) 0 (load_state p)) [1..<nr c])))"
  by (simp add: aes_encrypt_block_def Let_def sub_shift_def split: prod.split)

lemma decrypt_eq:
  "aes_decrypt_block c p = store_state (add_key (dk c) 0 (inv_sub_shift
     (foldl (dec_round (dk c)) (add_key (dk c) (nr c) (load_state p)) (rev [1..<nr c]))))"
  by (simp add: aes_decrypt_block_def Let_def inv_sub_shift_def split: prod.split)

lemma decrypt_encrypt:
  assumes "keys_match c" and "0 < nr c" and "length p = 16"
  shows "aes_decrypt_block c (aes_encrypt_block c p) = p"
proof -
  define s where "s = add_key (ek c) 0 (load_state p)"
  define t where "t = foldl (enc_round (ek c)) s [Suc 0..<nr c]"
  obtain n where n: "nr c = Suc n" using assms(2) by (cases "nr c") auto
  have last: "add_key (dk c) (nr c) (add_key (ek c) (nr c) u) = u" for u
    using assms(1) add_key_cong [of "dk c" "nr c" "ek c"] by (auto simp: keys_match_def)
  have first: "add_key (dk c) 0 s = load_state p"
    using assms(1) add_key_cong [of "dk c" 0 "ek c"] by (simp add: keys_match_def s_def)
  have "foldl (dec_round (dk c)) (sub_shift t) (rev [1..<nr c]) = sub_shift s"
    using dec_rounds_undo [OF assms(1), of n s] by (simp only: n t_def lessI One_nat_def)
  then show ?thesis
    using assms(3) by (simp add: encrypt_eq decrypt_eq last first store_load_state flip: s_def t_def)
qed

subsection \<open>Key schedules\<close>

lemma length_foldl_update: "length (foldl (\<lambda>ks i. ks[i := f ks i]) xs is) = length xs"
  by (induction "is" arbitrary: xs) simp_all

lemma foldl_update_nth:
  assumes "n \<le> length xs" "i < length xs"
  shows "foldl (\<lambda>ks i. ks[i := f i]) xs [0..<n] ! i = (if i < n then f i else xs ! i)"
  using assms by (induction n) (auto simp: length_foldl_update nth_list_update)

lemma gen_dec_keys_match:
  assumes "1 < nr c" and "4 * (nr c + 1) \<le> length (dk c)"
  shows "keys_match (gen_dec_key_schedule c)"
proof -
  let ?n = "4 * (nr c + 1)"
  have "dk (gen_dec_key_schedule c) ! i =
      (if i < 4 \<or> ?n - 4 \<le> i then ek c ! i else inv_mix (ek c ! i))" if "i < ?n" for i
    using that assms by (simp add: gen_dec_key_schedule_def Let_def dec_key_word_eq foldl_update_nth)
  then show ?thesis
    by (auto simp: keys_match_def gen_dec_key_schedule_def Let_def)
qed

text \<open>
  C13: Decryption undoes encryption: for a key of 16, 24 or 32 bytes \<open>aes_init\<close> succeeds, and the
  context it fills maps every block back after \<open>aes_encrypt_block\<close> and \<open>aes_decrypt_block\<close>.
\<close>

theorem aes_decrypt_encrypt:
  assumes "length key = 16 \<or> length key = 24 \<or> length key = 32"
    and "length (ek c) = 60" and "length (dk c) = 60" and "length p = 16"
  shows "\<exists>c'. aes_init c (Some key) = (0, c') \<and> aes_decrypt_block c' (aes_encrypt_block c' p) = p"
proof -
  define c1 where "c1 = gen_enc_key_schedule (c\<lparr>nr := get_rounds (length key)\<rparr>) key (length key div 4)"
  have nr1: "nr c1 = get_rounds (length key)" "dk c1 = dk c"
    by (simp_all add: c1_def gen_enc_key_schedule_def Let_def)
  have r: "1 < get_rounds (length key)" "get_rounds (length key) \<le> 14"
    using assms(1) by (auto simp: get_rounds_def)
  have "aes_init c (Some key) = (0, gen_dec_key_schedule c1)"
    using r by (simp add: aes_init_def Let_def c1_def)
  moreover have "keys_match (gen_dec_key_schedule c1)"
    using r assms(3) by (intro gen_dec_keys_match) (simp_all add: nr1)
  moreover have "0 < nr (gen_dec_key_schedule c1)"
    using r by (simp add: gen_dec_key_schedule_def Let_def nr1)
  ultimately show ?thesis using decrypt_encrypt assms(4) by blast
qed

theorem aes_decrypt_encrypt_witness:
  "\<exists>c'. aes_init \<lparr>nr = 0, ek = replicate 60 0, dk = replicate 60 0\<rparr> (Some (replicate 16 0x2B)) = (0, c') \<and>
     aes_decrypt_block c' (aes_encrypt_block c' (replicate 16 7)) = replicate 16 7"
  using aes_decrypt_encrypt [of "replicate 16 0x2B" "\<lparr>nr = 0, ek = replicate 60 0, dk = replicate 60 0\<rparr>"
      "replicate 16 7"]
  by simp

subsection \<open>The standard's cipher\<close>

text \<open>
  The reference works on the 16 bytes of the state, column by column: byte \<open>4 * c + r\<close> is in row \<open>r\<close>
  of column \<open>c\<close>. Multiplication by two in the field is \<open>xtime\<close>.
\<close>

definition SubBytes :: "u8 list \<Rightarrow> u8 list" where
  "SubBytes st = map sb st"

definition ShiftRows :: "u8 list \<Rightarrow> u8 list" where
  "ShiftRows st = map (\<lambda>i. st ! ((i + 4 * (i mod 4)) mod 16)) [0..<16]"

fun MixColumns :: "u8 list \<Rightarrow> u8 list" where
  "MixColumns (a # b # c # d # st) =
     (xtime a XOR (xtime b XOR b) XOR c XOR d) #
     (a XOR xtime b XOR (xtime c XOR c) XOR d) #
     (a XOR b XOR xtime c XOR (xtime d XOR d)) #
     ((xtime a XOR a) XOR b XOR c XOR xtime d) # MixColumns st"
| "MixColumns st = []"

definition round_key :: "u32 list \<Rightarrow> nat \<Rightarrow> u8 list" where
  "round_key k i = concat (map (\<lambda>j. STORE32LE (k ! (i * 4 + j))) [0..<4])"

definition AddRoundKey :: "u8 list \<Rightarrow> u8 list \<Rightarrow> u8 list" where
  "AddRoundKey k st = map2 (XOR) st k"

definition Cipher :: "u32 list \<Rightarrow> nat \<Rightarrow> u8 list \<Rightarrow> u8 list" where
  "Cipher k n st =
     AddRoundKey (round_key k n) (ShiftRows (SubBytes
       (foldl (\<lambda>st i. AddRoundKey (round_key k i) (MixColumns (ShiftRows (SubBytes st))))
          (AddRoundKey (round_key k 0) st) [1..<n])))"

lemma upt_16: "[0..<16] = [0, 1, 2, 3, 4, 5, 6, 7, 8, 9, 10, 11, 12, 13, 14, 15 :: nat]"
  and upt_4: "[0..<4] = [0, 1, 2, 3 :: nat]"
  by code_simp+

lemma ShiftRows_columns:
  "ShiftRows [a0, a1, a2, a3, b0, b1, b2, b3, c0, c1, c2, c3, d0, d1, d2, d3] =
     [a0, b1, c2, d3, b0, c1, d2, a3, c0, d1, a2, b3, d0, a1, b2, c3]"
  unfolding ShiftRows_def upt_16 by simp

lemma store_sub_shift: "store_state (sub_shift s) = ShiftRows (SubBytes (store_state s))"
  by (cases s)
    (simp only: sub_shift_def store_state_def box4_sbox STORE32LE_bytes SubBytes_def prod.case
      append.simps list.map ShiftRows_columns byte_pack)

lemma mix_bytes:
  "mix (pack a b c d) = pack (xtime a XOR (xtime b XOR b) XOR c XOR d)
     (a XOR xtime b XOR (xtime c XOR c) XOR d) (a XOR b XOR xtime c XOR (xtime d XOR d))
     ((xtime a XOR a) XOR b XOR c XOR xtime d)"
  by (simp add: mix_def te_entry_def rotate_pack pack_xor xor_ac)

lemma store_mix: "store_state (map_state mix s) = MixColumns (store_state s)"
proof -
  have "STORE32LE (mix w) @ MixColumns st = MixColumns (STORE32LE w @ st)" for w st
    using mix_bytes [of "byte 0 w" "byte 1 w" "byte 2 w" "byte 3 w"]
    by (simp add: STORE32LE_bytes)
  from this [where st = "[]"] this show ?thesis
    by (cases s) (simp add: store_state_def map_state_def)
qed

lemma store_add_key: "store_state (add_key k i s) = AddRoundKey (round_key k i) (store_state s)"
  by (cases s) (simp add: store_state_def add_key_def AddRoundKey_def round_key_def STORE32LE_bytes
      byte_xor upt_4)

text \<open>
  C6: \<open>aes_encrypt_block\<close>, which looks up precalculated columns in the table \<open>te\<close> and rotates them, is
  the cipher of the standard: SubBytes, ShiftRows, MixColumns and AddRoundKey on the state matrix,
  with the last round lacking MixColumns, for any round keys.
\<close>

theorem aes_encrypt_reference:
  assumes "length p = 16"
  shows "aes_encrypt_block c p = Cipher (ek c) (nr c) p"
proof -
  let ?f = "\<lambda>st i. AddRoundKey (round_key (ek c) i) (MixColumns (ShiftRows (SubBytes st)))"
  have "store_state (foldl (enc_round (ek c)) s is) = foldl ?f (store_state s) is" for s "is"
    by (induction "is" arbitrary: s)
      (simp_all add: enc_round_eq store_add_key store_mix store_sub_shift)
  then show ?thesis
    using assms by (simp add: encrypt_eq Cipher_def store_add_key store_sub_shift store_load_state)
qed

theorem aes_encrypt_reference_witness:
  "aes_encrypt_block \<lparr>nr = 10, ek = replicate 60 3, dk = []\<rparr> (replicate 16 7) =
     Cipher (replicate 60 3) 10 (replicate 16 7)"
  using aes_encrypt_reference [of "replicate 16 7" "\<lparr>nr = 10, ek = replicate 60 3, dk = []\<rparr>"] by simp

end
