(* ===== verification/Klist.thy ===== *)
theory Klist
  imports OS6_Prelude
begin

text \<open>
  The doubly linked list of the kernel, kernel/src/util/list.c.

  Nodes and list headers live in a heap: two maps from addresses (natural numbers, \<open>NULL\<close> is 0) to
  records with the fields of the C structures. A node may be embedded in another object (the
  scheduler does that), so the operations take addresses and change the heap. An operation is
  \<open>None\<close> where the code dereferences a pointer to no object, fails an \<open>ASSERT\<close> or does not return.
  \<open>malloc\<close> is a parameter that names the address it returns, 0 when it fails. The heap record is
  extensible: the tree and the scheduler add their own objects to it.
\<close>

subsection \<open>State\<close>

type_synonym ptr = nat

record list_node =
  lnext :: ptr
  lprev :: ptr
  payload :: ptr

record list_t =
  lhead :: ptr
  ltail :: ptr
  llength :: u64

record lheap =
  nodes :: "ptr \<Rightarrow> list_node option"
  lists :: "ptr \<Rightarrow> list_t option"
  freed :: "ptr list"

definition set_node :: "'a lheap_scheme \<Rightarrow> ptr \<Rightarrow> list_node \<Rightarrow> 'a lheap_scheme" where
  "set_node h p n = h\<lparr>nodes := (nodes h)(p \<mapsto> n)\<rparr>"

definition set_next :: "'a lheap_scheme \<Rightarrow> ptr \<Rightarrow> ptr \<Rightarrow> 'a lheap_scheme option" where
  "set_next h p q = do { n \<leftarrow> nodes h p; Some (set_node h p (n\<lparr>lnext := q\<rparr>)) }"

definition set_prev :: "'a lheap_scheme \<Rightarrow> ptr \<Rightarrow> ptr \<Rightarrow> 'a lheap_scheme option" where
  "set_prev h p q = do { n \<leftarrow> nodes h p; Some (set_node h p (n\<lparr>lprev := q\<rparr>)) }"

definition set_list :: "'a lheap_scheme \<Rightarrow> ptr \<Rightarrow> list_t \<Rightarrow> 'a lheap_scheme" where
  "set_list h p l = h\<lparr>lists := (lists h)(p \<mapsto> l)\<rparr>"

subsection \<open>Operations\<close>

definition list_create ::
  "('a lheap_scheme \<Rightarrow> ptr) \<Rightarrow> 'a lheap_scheme \<Rightarrow> ptr \<times> 'a lheap_scheme" where
  "list_create malloc h =
     (let list = malloc h in
      if list = 0 then (0, h)
      else (list, set_list h list \<lparr>lhead = 0, ltail = 0, llength = 0\<rparr>))"

definition list_append :: "'a lheap_scheme \<Rightarrow> ptr \<Rightarrow> ptr \<Rightarrow> 'a lheap_scheme option" where
  "list_append h list item = do {
     h \<leftarrow> set_next h item 0;
     l \<leftarrow> lists h list;
     h \<leftarrow> (if ltail l = 0 then Some (set_list h list (l\<lparr>lhead := item\<rparr>))
          else do { h \<leftarrow> set_next h (ltail l) item; set_prev h item (ltail l) });
     l \<leftarrow> lists h list;
     Some (set_list h list (l\<lparr>ltail := item, llength := llength l + 1\<rparr>))
   }"

definition list_insert ::
  "('a lheap_scheme \<Rightarrow> ptr) \<Rightarrow> 'a lheap_scheme \<Rightarrow> ptr \<Rightarrow> ptr \<Rightarrow> (int \<times> 'a lheap_scheme) option" where
  "list_insert malloc h list item =
     (let node = malloc h in
      if node = 0 then Some (0, h)
      else do {
        h \<leftarrow> list_append (set_node h node \<lparr>lnext = 0, lprev = 0, payload = item\<rparr>) list node;
        Some (1, h)
      })"

definition list_delete :: "'a lheap_scheme \<Rightarrow> ptr \<Rightarrow> ptr \<Rightarrow> 'a lheap_scheme option" where
  "list_delete h list node = do {
     l \<leftarrow> lists h list;
     n \<leftarrow> nodes h node;
     let l = (if node = lhead l then l\<lparr>lhead := lnext n\<rparr> else l);
     let l = (if node = ltail l then l\<lparr>ltail := lprev n\<rparr> else l);
     let h = set_list h list l;
     h \<leftarrow> (if lprev n \<noteq> 0 then set_next h (lprev n) (lnext n) else Some h);
     n \<leftarrow> nodes h node;
     h \<leftarrow> (if lnext n \<noteq> 0 then set_prev h (lnext n) (lprev n) else Some h);
     Some (set_list h list (l\<lparr>llength := llength l - 1\<rparr>))
   }"

text \<open>
  \<open>list_find\<close> compares the payload pointers, \<open>list_find_comp\<close> calls a comparison on them. A walk over
  a chain that runs in a circle does not return.
\<close>

partial_function (option) find_node ::
  "(ptr \<Rightarrow> bool) \<Rightarrow> (ptr \<Rightarrow> list_node option) \<Rightarrow> ptr \<Rightarrow> ptr option" where
  "find_node P N p =
     (if p = 0 then Some 0
      else do { n \<leftarrow> N p; if P (payload n) then Some p else find_node P N (lnext n) })"

definition list_find :: "'a lheap_scheme \<Rightarrow> ptr \<Rightarrow> ptr \<Rightarrow> ptr option" where
  "list_find h list v = do { l \<leftarrow> lists h list; find_node (\<lambda>x. x = v) (nodes h) (lhead l) }"

definition list_find_comp ::
  "'a lheap_scheme \<Rightarrow> ptr \<Rightarrow> ptr \<Rightarrow> (ptr \<Rightarrow> ptr \<Rightarrow> bool) \<Rightarrow> ptr option" where
  "list_find_comp h list v func =
     do { l \<leftarrow> lists h list; find_node (\<lambda>x. func x v) (nodes h) (lhead l) }"

fun walk :: "(ptr \<Rightarrow> list_node option) \<Rightarrow> nat \<Rightarrow> ptr \<Rightarrow> ptr option" where
  "walk N 0 p = Some p"
| "walk N (Suc i) p = do { n \<leftarrow> N p; walk N i (lnext n) }"

definition list_remove :: "'a lheap_scheme \<Rightarrow> ptr \<Rightarrow> u64 \<Rightarrow> 'a lheap_scheme option" where
  "list_remove h list index = do {
     l \<leftarrow> lists h list;
     if index > llength l then Some h
     else do { n \<leftarrow> walk (nodes h) (unat index) (lhead l); list_delete h list n }
   }"

definition list_pop :: "'a lheap_scheme \<Rightarrow> ptr \<Rightarrow> (ptr \<times> 'a lheap_scheme) option" where
  "list_pop h list = do {
     l \<leftarrow> lists h list;
     if ltail l = 0 then Some (0, h)
     else do { h \<leftarrow> list_delete h list (ltail l); Some (ltail l, h) }
   }"

definition list_dequeue :: "'a lheap_scheme \<Rightarrow> ptr \<Rightarrow> (ptr \<times> 'a lheap_scheme) option" where
  "list_dequeue h list = do {
     l \<leftarrow> lists h list;
     if lhead l = 0 then Some (0, h)
     else do { h \<leftarrow> list_delete h list (lhead l); Some (lhead l, h) }
   }"

text \<open>The loop of \<open>list_copy\<close> never advances \<open>node\<close>.\<close>

partial_function (option) copy_loop ::
  "('a lheap_scheme \<Rightarrow> ptr) \<Rightarrow> ptr \<Rightarrow> ptr \<Rightarrow> 'a lheap_scheme \<Rightarrow> 'a lheap_scheme option" where
  "copy_loop malloc out node h =
     (if node = 0 then Some h
      else do {
        n \<leftarrow> nodes h node;
        (ret, h) \<leftarrow> list_insert malloc h out (payload n);
        if ret \<noteq> 0 then copy_loop malloc out node h else None
      })"

definition list_copy ::
  "('a lheap_scheme \<Rightarrow> ptr) \<Rightarrow> 'a lheap_scheme \<Rightarrow> ptr \<Rightarrow> (ptr \<times> 'a lheap_scheme) option" where
  "list_copy malloc h list = do {
     let (out, h) = list_create malloc h;
     if out = 0 then Some (out, h)
     else do {
       l \<leftarrow> lists h list;
       h \<leftarrow> copy_loop malloc out (lhead l) h;
       Some (out, h)
     }
   }"

definition list_merge :: "'a lheap_scheme \<Rightarrow> ptr \<Rightarrow> ptr \<Rightarrow> 'a lheap_scheme option" where
  "list_merge h dest source = do {
     d \<leftarrow> lists h dest;
     s \<leftarrow> lists h source;
     h \<leftarrow> (if ltail d \<noteq> 0 then set_next h (ltail d) (lhead s)
          else Some (set_list h dest (d\<lparr>lhead := lhead s\<rparr>)));
     d \<leftarrow> lists h dest;
     s \<leftarrow> lists h source;
     let d = (if ltail s \<noteq> 0 then d\<lparr>ltail := ltail s\<rparr> else d);
     let h = set_list h dest (d\<lparr>llength := llength d + llength s\<rparr>);
     Some (h\<lparr>lists := (lists h)(source := None)\<rparr>)
   }"

text \<open>
  \<open>list_destroy\<close> frees the payloads, \<open>list_free\<close> the nodes. The heap of the payloads is not part of
  the model: the calls of \<open>free\<close> on them are recorded in \<open>freed\<close>.
\<close>

partial_function (option) destroy_nodes ::
  "ptr \<Rightarrow> 'a lheap_scheme \<Rightarrow> 'a lheap_scheme option" where
  "destroy_nodes n h =
     (if n = 0 then Some h
      else do { x \<leftarrow> nodes h n; destroy_nodes (lnext x) (h\<lparr>freed := freed h @ [payload x]\<rparr>) })"

definition list_destroy :: "'a lheap_scheme \<Rightarrow> ptr \<Rightarrow> 'a lheap_scheme option" where
  "list_destroy h list = do { l \<leftarrow> lists h list; destroy_nodes (lhead l) h }"

partial_function (option) free_nodes ::
  "ptr \<Rightarrow> 'a lheap_scheme \<Rightarrow> 'a lheap_scheme option" where
  "free_nodes n h =
     (if n = 0 then Some h
      else do { s \<leftarrow> nodes h n; free_nodes (lnext s) (h\<lparr>nodes := (nodes h)(n := None)\<rparr>) })"

definition list_free :: "'a lheap_scheme \<Rightarrow> ptr \<Rightarrow> 'a lheap_scheme option" where
  "list_free h list = do { l \<leftarrow> lists h list; free_nodes (lhead l) h }"

subsection \<open>Chains of nodes\<close>

text \<open>
  \<open>chain N p q xs lst e\<close>: starting at \<open>p\<close>, following \<open>next\<close> runs through the nodes \<open>xs\<close> to \<open>e\<close>,
  the \<open>prev\<close> of the first is \<open>q\<close> and that of each other its predecessor; \<open>lst\<close> is the last node,
  \<open>q\<close> when there is none.
\<close>

fun chain :: "(ptr \<Rightarrow> list_node option) \<Rightarrow> ptr \<Rightarrow> ptr \<Rightarrow> ptr list \<Rightarrow> ptr \<Rightarrow> ptr \<Rightarrow> bool" where
  "chain N p q [] lst e \<longleftrightarrow> p = e \<and> lst = q"
| "chain N p q (x # xs) lst e \<longleftrightarrow>
     p = x \<and> x \<noteq> 0 \<and> (\<exists>n. N x = Some n \<and> lprev n = q \<and> chain N (lnext n) x xs lst e)"

text \<open>The list with header \<open>l\<close> holds the nodes \<open>xs\<close>.\<close>

definition list_rep :: "'a lheap_scheme \<Rightarrow> ptr \<Rightarrow> ptr list \<Rightarrow> bool" where
  "list_rep h l xs \<longleftrightarrow> distinct xs \<and>
     (\<exists>r. lists h l = Some r \<and> chain (nodes h) (lhead r) 0 xs (ltail r) 0 \<and>
        llength r = of_nat (length xs))"

lemma chain_append:
  "chain N p q (xs @ ys) lst e \<longleftrightarrow> (\<exists>m r. chain N p q xs m r \<and> chain N r m ys lst e)"
  by (induction xs arbitrary: p q) auto

lemma chain_cong:
  "(\<And>x. x \<in> set xs \<Longrightarrow> N x = M x) \<Longrightarrow> chain N p q xs lst e \<longleftrightarrow> chain M p q xs lst e"
  by (induction xs arbitrary: p q) auto

lemma chain_upd_other [simp]:
  "x \<notin> set xs \<Longrightarrow> chain (N(x := v)) p q xs lst e \<longleftrightarrow> chain N p q xs lst e"
  by (rule chain_cong) auto

lemma chain_nodes: "chain N p q xs lst e \<Longrightarrow> x \<in> set xs \<Longrightarrow> x \<noteq> 0 \<and> N x \<noteq> None"
  by (induction xs arbitrary: p q) auto

lemma chain_last: "chain N p q xs lst e \<Longrightarrow> lst = (if xs = [] then q else last xs)"
  by (induction xs arbitrary: p q) auto

lemma chain_first: "chain N p q xs lst e \<Longrightarrow> p = (if xs = [] then e else hd xs)"
  by (cases xs) auto

lemma chain_last_0_iff: "chain N p 0 xs lst e \<Longrightarrow> lst = 0 \<longleftrightarrow> xs = []"
  using chain_last [of N p 0 xs lst e] chain_nodes [of N p 0 xs lst e "last xs"]
  by auto

lemma chain_first_0_iff: "chain N p q xs lst 0 \<Longrightarrow> p = 0 \<longleftrightarrow> xs = []"
  by (cases xs) auto

text \<open>Redirecting the e of a chain, and the back pointer of its first node.\<close>

lemma chain_snoc:
  "chain N p q (xs @ [x]) lst e \<longleftrightarrow>
     (\<exists>m n. chain N p q xs m x \<and> x \<noteq> 0 \<and> N x = Some n \<and> lprev n = m \<and> lnext n = e \<and> lst = x)"
  by (auto simp: chain_append)

lemma chain_set_next:
  assumes "chain N p q (xs @ [x]) lst e" and "distinct (xs @ [x])" and "N x = Some n"
  shows "chain (N(x \<mapsto> n\<lparr>lnext := r\<rparr>)) p q (xs @ [x]) lst r"
  using assms by (auto simp: chain_snoc)

lemma chain_set_prev:
  assumes "chain N p q (x # xs) lst e" and "distinct (x # xs)" and "N x = Some n"
  shows "chain (N(x \<mapsto> n\<lparr>lprev := r\<rparr>)) p r (x # xs) lst e"
  using assms by auto

lemmas heap_defs = set_node_def set_next_def set_prev_def set_list_def

lemma set_simps [simp]:
  "nodes (set_list h p l) = nodes h" "lists (set_node h p n) = lists h"
  "nodes (set_node h p n) = (nodes h)(p \<mapsto> n)" "lists (set_list h p l) = (lists h)(p \<mapsto> l)"
  by (simp_all add: heap_defs)

end
