(* ===== verification/Klist_Props.thy ===== *)
theory Klist_Props
  imports Klist
begin

text \<open>
  Functional behaviour of the list operations over \<open>list_rep\<close>, with what each leaves alone
  (\<open>touches\<close>), the refinement of an abstract sequence, and the two operations that go wrong:
  \<open>list_copy\<close> and \<open>list_merge\<close>.
\<close>

subsection \<open>What an operation leaves alone\<close>

definition touches :: "'a lheap_scheme \<Rightarrow> 'a lheap_scheme \<Rightarrow> ptr \<Rightarrow> ptr set \<Rightarrow> bool" where
  "touches h h' l S \<longleftrightarrow>
     (\<forall>m. m \<noteq> l \<longrightarrow> lists h' m = lists h m) \<and> (\<forall>x. x \<notin> S \<longrightarrow> nodes h' x = nodes h x) \<and>
     (\<forall>x. map_option payload (nodes h' x) = map_option payload (nodes h x)) \<and>
     freed h' = freed h \<and> lheap.more h' = lheap.more h"

lemma touches_mono: "touches h h' l S \<Longrightarrow> S \<subseteq> T \<Longrightarrow> touches h h' l T"
  by (auto simp: touches_def)

lemma touches_node_exists: "touches h h' l S \<Longrightarrow> nodes h' x = None \<longleftrightarrow> nodes h x = None"
  by (metis map_option_is_None touches_def)

lemma touches_rep:
  "touches h h' l S \<Longrightarrow> list_rep h m ys \<Longrightarrow> m \<noteq> l \<Longrightarrow> set ys \<inter> S = {} \<Longrightarrow> list_rep h' m ys"
  unfolding list_rep_def touches_def
  using chain_cong [of ys "nodes h'" "nodes h"] by (auto simp: disjoint_iff)

lemma list_rep_nodes: "list_rep h l xs \<Longrightarrow> x \<in> set xs \<Longrightarrow> x \<noteq> 0 \<and> nodes h x \<noteq> None"
  unfolding list_rep_def using chain_nodes by blast

lemma list_rep_distinct: "list_rep h l xs \<Longrightarrow> distinct xs"
  by (simp add: list_rep_def)

text \<open>The back pointer of the first node is null.\<close>

lemma list_rep_hd_prev: "list_rep h l (x # xs) \<Longrightarrow> \<exists>n. nodes h x = Some n \<and> lprev n = 0"
  by (auto simp: list_rep_def)

subsection \<open>Appending\<close>

lemma list_append_rep:
  assumes rep: "list_rep h l xs" and x: "x \<notin> set xs" "x \<noteq> 0" "nodes h x = Some n"
    and pv: "xs = [] \<Longrightarrow> lprev n = 0"
  shows "\<exists>h'. list_append h l x = Some h' \<and> list_rep h' l (xs @ [x]) \<and>
           touches h h' l (insert x (set xs))"
proof -
  from rep obtain r where r: "lists h l = Some r" "chain (nodes h) (lhead r) 0 xs (ltail r) 0"
      "llength r = of_nat (length xs)" and d: "distinct xs"
    by (auto simp: list_rep_def)
  show ?thesis
  proof (cases xs rule: rev_cases)
    case Nil
    then show ?thesis
      using r d x pv by (simp add: list_append_def heap_defs list_rep_def touches_def)
  next
    case (snoc ys y)
    with r(2) obtain m k where ch: "chain (nodes h) (lhead r) 0 ys m y" "y \<noteq> 0" "nodes h y = Some k"
      "lprev k = m" "lnext k = 0" "ltail r = y"
      by (auto simp: chain_snoc)
    have "x \<noteq> y" "x \<notin> set ys" "y \<notin> set ys" using x d snoc by auto
    then show ?thesis
      using r d x ch snoc by (simp add: list_append_def heap_defs list_rep_def touches_def chain_append)
  qed
qed

subsection \<open>Deleting\<close>

text \<open>
  Deleting a node unlinks it from its neighbours; its own pointers stay as they were.
\<close>

lemma list_delete_rep:
  assumes rep: "list_rep h l (ys @ x # zs)"
  shows "\<exists>h'. list_delete h l x = Some h' \<and> list_rep h' l (ys @ zs) \<and>
           touches h h' l (set ys \<union> set zs)"
proof -
  from rep obtain r where r: "lists h l = Some r"
      "chain (nodes h) (lhead r) 0 (ys @ x # zs) (ltail r) 0"
      "llength r = of_nat (length (ys @ x # zs))" and d: "distinct (ys @ x # zs)"
    by (auto simp: list_rep_def)
  then obtain m k where ch: "chain (nodes h) (lhead r) 0 ys m x" "x \<noteq> 0" "nodes h x = Some k"
    "lprev k = m" "chain (nodes h) (lnext k) x zs (ltail r) 0"
    by (auto simp: chain_append)
  have hd: "x = lhead r \<longleftrightarrow> ys = []" using ch(1) d by (cases ys) auto
  have tl: "x = ltail r \<longleftrightarrow> zs = []" using ch(5) d chain_last [OF ch(5)] by auto
  have m0: "m = 0 \<longleftrightarrow> ys = []" using chain_last_0_iff [OF ch(1)] .
  have n0: "lnext k = 0 \<longleftrightarrow> zs = []" using chain_first_0_iff [OF ch(5)] .
  show ?thesis
  proof (cases ys rule: rev_cases)
    case Nil
    then show ?thesis
      using r d ch hd tl n0 by (cases zs) (auto simp: list_delete_def heap_defs list_rep_def touches_def)
  next
    case (snoc as a)
    with ch(1) obtain b where a: "nodes h a = Some b" "lnext b = x" "m = a" "a \<noteq> 0"
      "chain (nodes h) (lhead r) 0 as (lprev b) a"
      by (auto simp: chain_snoc)
    have "a \<noteq> x" "a \<notin> set as" "a \<notin> set zs" "x \<notin> set as" using d snoc by auto
    then show ?thesis
      using r d ch hd tl n0 a snoc
      by (cases zs) (auto simp: list_delete_def heap_defs list_rep_def touches_def chain_append)
  qed
qed


subsection \<open>Creation, insertion and the two ends\<close>

lemma list_create_rep:
  assumes "malloc h \<noteq> 0"
  shows "list_create malloc h = (malloc h, snd (list_create malloc h))"
    and "list_rep (snd (list_create malloc h)) (malloc h) []"
    and "touches h (snd (list_create malloc h)) (malloc h) {}"
  using assms by (simp_all add: list_create_def Let_def list_rep_def touches_def heap_defs)

text \<open>\<open>fresh_for h a\<close>: no object of the heap is at \<open>a\<close>, as an address returned by malloc.\<close>

definition fresh_for :: "'a lheap_scheme \<Rightarrow> ptr \<Rightarrow> bool" where
  "fresh_for h a \<longleftrightarrow> a \<noteq> 0 \<and> nodes h a = None \<and> lists h a = None"

lemma list_insert_rep:
  assumes rep: "list_rep h l xs" and a: "fresh_for h (malloc h)"
  shows "\<exists>h'. list_insert malloc h l v = Some (1, h') \<and> list_rep h' l (xs @ [malloc h]) \<and>
           map_option payload (nodes h' (malloc h)) = Some v \<and>
           (\<forall>x. x \<noteq> malloc h \<longrightarrow> map_option payload (nodes h' x) = map_option payload (nodes h x)) \<and>
           (\<forall>m ys. m \<noteq> l \<longrightarrow> list_rep h m ys \<longrightarrow> set ys \<inter> set xs = {} \<longrightarrow> list_rep h' m ys) \<and>
           lheap.more h' = lheap.more h"
proof -
  let ?a = "malloc h"
  let ?h = "set_node h ?a \<lparr>lnext = 0, lprev = 0, payload = v\<rparr>"
  have new: "?a \<notin> set ys" if "list_rep h m ys" for m ys
    using list_rep_nodes [OF that, of ?a] a by (auto simp: fresh_for_def)
  have rep': "list_rep ?h m ys" if "list_rep h m ys" for m ys
    using that new [OF that] by (simp add: list_rep_def)
  have "\<exists>h'. list_append ?h l ?a = Some h' \<and> list_rep h' l (xs @ [?a]) \<and> touches ?h h' l (insert ?a (set xs))"
    using a new [OF rep] by (intro list_append_rep [OF rep' [OF rep]]) (auto simp: fresh_for_def)
  then obtain h' where h': "list_append ?h l ?a = Some h'" "list_rep h' l (xs @ [?a])"
    "touches ?h h' l (insert ?a (set xs))"
    by blast
  have others: "list_rep h' m ys" if "m \<noteq> l" "list_rep h m ys" "set ys \<inter> set xs = {}" for m ys
    using that rep' new by (intro touches_rep [OF h'(3)]) auto
  have p: "map_option payload (nodes h' x) = map_option payload (nodes ?h x)" for x
    using h'(3) by (simp add: touches_def)
  have pay_new: "map_option payload (nodes h' ?a) = Some v" using p [of ?a] by simp
  have pay_old: "map_option payload (nodes h' x) = map_option payload (nodes h x)" if "x \<noteq> ?a" for x
    using p [of x] that by simp
  have "lheap.more h' = lheap.more h"
    using h'(3) by (simp add: touches_def set_node_def)
  then show ?thesis
    using h'(1,2) a pay_new pay_old others by (simp add: list_insert_def Let_def fresh_for_def)
qed

lemma list_dequeue_Cons:
  "list_rep h l (x # xs) \<Longrightarrow>
     \<exists>h'. list_dequeue h l = Some (x, h') \<and> list_rep h' l xs \<and> touches h h' l (set xs)"
  using list_delete_rep [of h l "[]" x xs]
  by (auto simp: list_dequeue_def list_rep_def)

lemma list_dequeue_Nil: "list_rep h l [] \<Longrightarrow> list_dequeue h l = Some (0, h)"
  by (auto simp: list_dequeue_def list_rep_def)

lemma list_pop_snoc:
  assumes rep: "list_rep h l (xs @ [x])"
  shows "\<exists>h'. list_pop h l = Some (x, h') \<and> list_rep h' l xs \<and> touches h h' l (set xs)"
proof -
  from rep have "\<exists>r. lists h l = Some r \<and> ltail r = x \<and> x \<noteq> 0"
    by (auto simp: list_rep_def chain_snoc)
  then show ?thesis using list_delete_rep [of h l xs x "[]"] rep by (auto simp: list_pop_def)
qed

lemma list_pop_Nil: "list_rep h l [] \<Longrightarrow> list_pop h l = Some (0, h)"
  by (auto simp: list_pop_def list_rep_def)

subsection \<open>Searching\<close>

lemma find_node_0 [simp]: "find_node P N 0 = Some 0"
  by (simp add: find_node.simps)

lemma find_node_step:
  "p \<noteq> 0 \<Longrightarrow> N p = Some n \<Longrightarrow>
     find_node P N p = (if P (payload n) then Some p else find_node P N (lnext n))"
  by (subst find_node.simps) simp

definition pay :: "'a lheap_scheme \<Rightarrow> ptr \<Rightarrow> ptr" where
  "pay h x = payload (the (nodes h x))"

lemma find_node_chain:
  "chain N p q xs lst 0 \<Longrightarrow>
     find_node P N p = Some (case List.find (\<lambda>x. P (payload (the (N x)))) xs of None \<Rightarrow> 0 | Some x \<Rightarrow> x)"
  by (induction xs arbitrary: p q) (auto simp: find_node_step)

lemma list_find_rep:
  "list_rep h l xs \<Longrightarrow>
     list_find h l v = Some (case List.find (\<lambda>x. pay h x = v) xs of None \<Rightarrow> 0 | Some x \<Rightarrow> x)"
  using find_node_chain [of "nodes h" _ 0 xs]
  by (auto simp: list_rep_def list_find_def pay_def)

lemma list_find_comp_rep:
  "list_rep h l xs \<Longrightarrow>
     list_find_comp h l v f = Some (case List.find (\<lambda>x. f (pay h x) v) xs of None \<Rightarrow> 0 | Some x \<Rightarrow> x)"
  using find_node_chain [of "nodes h" _ 0 xs]
  by (auto simp: list_rep_def list_find_comp_def pay_def)

subsection \<open>Removal by index\<close>

lemma walk_chain: "chain N p q (xs @ ys) lst 0 \<Longrightarrow> walk N (length xs) p = Some (if ys = [] then 0 else hd ys)"
  by (induction xs arbitrary: p q) (auto dest: chain_first)

lemma list_remove_rep:
  assumes rep: "list_rep h l (ys @ x # zs)" and i: "unat i = length ys"
    and len: "length (ys @ x # zs) < 2 ^ 64"
  shows "\<exists>h'. list_remove h l i = Some h' \<and> list_rep h' l (ys @ zs)"
proof -
  from rep obtain r where r: "lists h l = Some r"
      "chain (nodes h) (lhead r) 0 (ys @ x # zs) (ltail r) 0"
      "llength r = of_nat (length (ys @ x # zs))"
    by (auto simp: list_rep_def)
  have "unat (llength r) = length (ys @ x # zs)"
    using len unfolding r(3) by (rule unat_of_nat_64)
  then have "\<not> i > llength r" using i by (simp add: word_less_nat_alt)
  then show ?thesis
    using r walk_chain [OF r(2)] list_delete_rep [OF rep] i by (auto simp: list_remove_def)
qed

text \<open>The index may be the length: then the code asks to delete the null node and asserts.\<close>

lemma list_remove_at_length:
  assumes rep: "list_rep h l xs" and len: "length xs < 2 ^ 64" and null: "nodes h 0 = None"
  shows "list_remove h l (of_nat (length xs)) = None"
proof -
  from rep obtain r where r: "lists h l = Some r" "chain (nodes h) (lhead r) 0 (xs @ []) (ltail r) 0"
      "llength r = of_nat (length xs)"
    by (auto simp: list_rep_def)
  have "unat (of_nat (length xs) :: u64) = length xs" using len by (rule unat_of_nat_64)
  then show ?thesis
    using r walk_chain [OF r(2)] null by (simp add: list_remove_def list_delete_def)
qed

subsection \<open>Copying does not return\<close>

lemma copy_loop_None: "node \<noteq> 0 \<Longrightarrow> copy_loop malloc out node h = None"
proof -
  have "(\<forall>r. copy_loop malloc out node h = Some r \<longrightarrow> node = 0)" for malloc :: "'a lheap_scheme \<Rightarrow> ptr" and out node h
  proof (intro allI impI)
    fix r assume "copy_loop malloc out node h = Some r"
    then show "node = 0"
      by (rule copy_loop.raw_induct [rotated]) (clarsimp simp: bind_eq_Some_conv split: if_splits, blast)
  qed
  then show "node \<noteq> 0 \<Longrightarrow> copy_loop malloc out node h = None"
    by (metis not_None_eq)
qed

lemma list_copy_Nil:
  assumes "list_rep h l []" "malloc h \<noteq> 0" "malloc h \<noteq> l"
  shows "list_copy malloc h l = Some (malloc h, snd (list_create malloc h))"
  using assms by (auto simp: list_copy_def list_create_def Let_def list_rep_def copy_loop.simps)

lemma list_copy_Cons:
  assumes "list_rep h l (x # xs)" "malloc h \<noteq> 0" "malloc h \<noteq> l"
  shows "list_copy malloc h l = None"
  using assms by (auto simp: list_copy_def list_create_def Let_def list_rep_def copy_loop_None)

subsection \<open>Merging\<close>

text \<open>
  \<open>list_merge\<close> does not set the back pointer of the first node it appends: the result is a list of
  all nodes only when one of the two was empty.
\<close>

lemma list_merge_empty:
  assumes d: "list_rep h d xs" and s: "list_rep h s ys" and ne: "d \<noteq> s" and e: "xs = [] \<or> ys = []"
  shows "\<exists>h'. list_merge h d s = Some h' \<and> list_rep h' d (xs @ ys)"
proof (cases xs rule: rev_cases)
  case Nil
  with d s obtain q r where q: "lists h d = Some q" "lhead q = 0" "ltail q = 0" "llength q = 0"
    and r: "lists h s = Some r" "chain (nodes h) (lhead r) 0 ys (ltail r) 0"
      "llength r = of_nat (length ys)" "distinct ys"
    by (auto simp: list_rep_def)
  then show ?thesis
    using Nil ne chain_last_0_iff [OF r(2)] chain_first_0_iff [OF r(2)]
    by (cases "ltail r = 0") (simp_all add: list_rep_def list_merge_def heap_defs)
next
  case (snoc as a)
  then have "ys = []" using e by simp
  moreover from d snoc obtain r n m where "lists h d = Some r" "nodes h a = Some n" "a \<noteq> 0"
    "ltail r = a" "chain (nodes h) (lhead r) 0 as m a" "lprev n = m" "lnext n = 0"
    "llength r = of_nat (length xs)"
    by (auto simp: list_rep_def chain_snoc)
  ultimately show ?thesis
    using d s ne snoc
    by (auto simp: list_rep_def list_merge_def heap_defs chain_append)
qed

text \<open>Otherwise the seam has a null back pointer, and deleting the first node there leaves it linked.\<close>

lemma list_merge_seam:
  assumes d: "list_rep h d (xs @ [x])" and s: "list_rep h s (y # ys)" and ne: "d \<noteq> s"
    and dj: "set (xs @ [x]) \<inter> set (y # ys) = {}"
  shows "\<exists>h' n m. list_merge h d s = Some h' \<and> nodes h' x = Some n \<and> lnext n = y \<and>
           nodes h' y = Some m \<and> lprev m = 0"
  using assms by (auto simp: list_rep_def list_merge_def heap_defs chain_snoc)

subsection \<open>Freeing\<close>

lemma free_nodes_0 [simp]: "free_nodes 0 h = Some h"
  by (simp add: free_nodes.simps)

lemma free_nodes_step:
  "n \<noteq> 0 \<Longrightarrow> nodes h n = Some s \<Longrightarrow>
     free_nodes n h = free_nodes (lnext s) (h\<lparr>nodes := (nodes h)(n := None)\<rparr>)"
  by (subst free_nodes.simps) simp

lemma free_nodes_chain:
  "chain (nodes h) p q xs lst 0 \<Longrightarrow> distinct xs \<Longrightarrow>
     free_nodes p h = Some (h\<lparr>nodes := \<lambda>x. if x \<in> set xs then None else nodes h x\<rparr>)"
proof (induction xs arbitrary: p q h)
  case (Cons x xs)
  then obtain n where n: "nodes h x = Some n" "x \<noteq> 0" "p = x" "chain (nodes h) (lnext n) x xs lst 0"
    by auto
  let ?h = "h\<lparr>nodes := (nodes h)(x := None)\<rparr>"
  have "chain (nodes ?h) (lnext n) x xs lst 0" using n(4) Cons.prems(2) by simp
  from Cons.IH [OF this] Cons.prems n show ?case
    by (auto simp: free_nodes_step fun_eq_iff intro!: lheap.fold_congs(1))
qed simp

lemma list_free_rep:
  "list_rep h l xs \<Longrightarrow>
     list_free h l = Some (h\<lparr>nodes := \<lambda>x. if x \<in> set xs then None else nodes h x\<rparr>)"
  by (auto simp: list_rep_def list_free_def intro: free_nodes_chain)

lemma destroy_nodes_0 [simp]: "destroy_nodes 0 h = Some h"
  by (simp add: destroy_nodes.simps)

lemma destroy_nodes_chain:
  "chain (nodes h) p q xs lst 0 \<Longrightarrow>
     destroy_nodes p h = Some (h\<lparr>freed := freed h @ map (pay h) xs\<rparr>)"
proof (induction xs arbitrary: p q h)
  case (Cons x xs)
  then obtain n where n: "nodes h x = Some n" "x \<noteq> 0" "p = x" "chain (nodes h) (lnext n) x xs lst 0"
    by auto
  then show ?case
    using Cons.IH [of "h\<lparr>freed := freed h @ [payload n]\<rparr>"]
    by (subst destroy_nodes.simps) (simp add: pay_def)
qed simp

lemma list_destroy_rep:
  "list_rep h l xs \<Longrightarrow> list_destroy h l = Some (h\<lparr>freed := freed h @ map (pay h) xs\<rparr>)"
  by (auto simp: list_rep_def list_destroy_def intro: destroy_nodes_chain)


subsection \<open>The queue a list gives its clients\<close>

text \<open>
  The contract of a first-in first-out queue of objects that carry their own links: an object is
  \<open>loose\<close> when it is in no queue and its links do not point into one. What is loose and not in the
  queue stays loose, and the object taken out is loose.
\<close>

locale fifo_queue =
  fixes rep :: "'h \<Rightarrow> 'x list \<Rightarrow> bool"
    and loose :: "'h \<Rightarrow> 'x \<Rightarrow> bool"
    and enq :: "'h \<Rightarrow> 'x \<Rightarrow> 'h option"
    and deq :: "'h \<Rightarrow> ('x \<times> 'h) option"
  assumes enq_law: "rep h xs \<Longrightarrow> loose h x \<Longrightarrow> x \<notin> set xs \<Longrightarrow>
      \<exists>h'. enq h x = Some h' \<and> rep h' (xs @ [x]) \<and> (\<forall>y. loose h y \<and> y \<notin> set (x # xs) \<longrightarrow> loose h' y)"
    and deq_law: "rep h (x # xs) \<Longrightarrow>
      \<exists>h'. deq h = Some (x, h') \<and> rep h' xs \<and> loose h' x \<and> (\<forall>y. loose h y \<and> y \<notin> set xs \<longrightarrow> loose h' y)"
    and rep_distinct: "rep h xs \<Longrightarrow> distinct xs"
begin

text \<open>Putting one object in and taking one out, what a scheduler does at a switch.\<close>

definition exchange :: "'x \<Rightarrow> 'h \<Rightarrow> ('x \<times> 'h) option" where
  "exchange c h = do { h \<leftarrow> enq h c; deq h }"

lemma exchange_rep:
  assumes "rep h xs" "loose h c" "c \<notin> set xs"
  shows "\<exists>h'. exchange c h = Some (hd (xs @ [c]), h') \<and> rep h' (tl (xs @ [c])) \<and> loose h' (hd (xs @ [c]))"
proof -
  from enq_law [OF assms] obtain h1 where h1: "enq h c = Some h1" "rep h1 (xs @ [c])" by blast
  obtain y ys where ys: "xs @ [c] = y # ys" by (cases "xs @ [c]") auto
  from deq_law [of h1 y ys] h1(2) ys obtain h2 where "deq h1 = Some (y, h2)" "rep h2 ys" "loose h2 y"
    by auto
  then show ?thesis using h1(1) ys by (simp add: exchange_def)
qed

text \<open>Taking objects out until the queue is empty serves them in the order they were put in.\<close>

fun drain :: "nat \<Rightarrow> 'h \<Rightarrow> ('x list \<times> 'h) option" where
  "drain 0 h = Some ([], h)"
| "drain (Suc k) h = do { (x, h) \<leftarrow> deq h; (xs, h) \<leftarrow> drain k h; Some (x # xs, h) }"

lemma drain_rep:
  "rep h (xs @ ys) \<Longrightarrow> \<exists>h'. drain (length xs) h = Some (xs, h') \<and> rep h' ys"
proof (induction xs arbitrary: h)
  case (Cons x xs)
  from deq_law [of h x "xs @ ys"] Cons.prems obtain h1 where "deq h = Some (x, h1)" "rep h1 (xs @ ys)"
    by auto
  with Cons.IH [of h1] show ?case by auto
qed auto

end

text \<open>A node of the heap that points at no predecessor.\<close>

definition detached :: "'a lheap_scheme \<Rightarrow> ptr \<Rightarrow> bool" where
  "detached h x \<longleftrightarrow> x \<noteq> 0 \<and> (\<exists>n. nodes h x = Some n \<and> lprev n = 0)"

interpretation klist: fifo_queue "\<lambda>h. list_rep h l" detached "\<lambda>h. list_append h l" "\<lambda>h. list_dequeue h l"
proof unfold_locales
  fix h :: "'a lheap_scheme" and xs x
  assume rep: "list_rep h l xs" and x: "detached h x" "x \<notin> set xs"
  then obtain n where n: "x \<noteq> 0" "nodes h x = Some n" "lprev n = 0" by (auto simp: detached_def)
  from list_append_rep [OF rep x(2) n(1,2)] n(3) obtain h' where
    "list_append h l x = Some h'" "list_rep h' l (xs @ [x])" "touches h h' l (insert x (set xs))"
    by auto
  then show "\<exists>h'. list_append h l x = Some h' \<and> list_rep h' l (xs @ [x]) \<and>
      (\<forall>y. detached h y \<and> y \<notin> set (x # xs) \<longrightarrow> detached h' y)"
    by (auto simp: detached_def touches_def)
next
  fix h :: "'a lheap_scheme" and x xs
  assume rep: "list_rep h l (x # xs)"
  from list_dequeue_Cons [OF rep] obtain h' where
    h': "list_dequeue h l = Some (x, h')" "list_rep h' l xs" "touches h h' l (set xs)"
    by blast
  have "nodes h' x = nodes h x" using h'(3) list_rep_distinct [OF rep] by (simp add: touches_def)
  then have "detached h' x" using list_rep_hd_prev [OF rep] list_rep_nodes [OF rep, of x] by (auto simp: detached_def)
  then show "\<exists>h'. list_dequeue h l = Some (x, h') \<and> list_rep h' l xs \<and> detached h' x \<and>
      (\<forall>y. detached h y \<and> y \<notin> set xs \<longrightarrow> detached h' y)"
    using h' by (auto simp: detached_def touches_def)
qed (rule list_rep_distinct)


subsection \<open>Properties\<close>

text \<open>
  C5: a list refines a sequence of nodes: appending a node that is not in the list and has no predecessor,
  deleting a node that is anywhere in the list, taking the first and the last, and searching by payload
  do on the pointers what they do on the sequence. An operation that changes the list changes no other
  list, no payload and no node but those that are in the list afterwards (the node that is taken out
  keeps its own pointers); taking from an empty list gives null and changes nothing, as searching does.
\<close>

theorem list_refines_sequence:
  assumes "list_rep h l xs"
  shows "(\<forall>x. detached h x \<and> x \<notin> set xs \<longrightarrow>
            (\<exists>h'. list_append h l x = Some h' \<and> list_rep h' l (xs @ [x]) \<and> touches h h' l (insert x (set xs)))) \<and>
         (\<forall>ys x zs. xs = ys @ x # zs \<longrightarrow>
            (\<exists>h'. list_delete h l x = Some h' \<and> list_rep h' l (ys @ zs) \<and> touches h h' l (set ys \<union> set zs))) \<and>
         (case xs of
            [] \<Rightarrow> list_dequeue h l = Some (0, h) \<and> list_pop h l = Some (0, h)
          | x # ys \<Rightarrow> (\<exists>h'. list_dequeue h l = Some (x, h') \<and> list_rep h' l ys \<and> touches h h' l (set ys)) \<and>
              (\<exists>h'. list_pop h l = Some (last xs, h') \<and> list_rep h' l (butlast xs) \<and> touches h h' l (set (butlast xs)))) \<and>
         (\<forall>v. list_find h l v = Some (case List.find (\<lambda>x. pay h x = v) xs of None \<Rightarrow> 0 | Some x \<Rightarrow> x))"
proof (intro conjI allI impI)
  fix x assume "detached h x \<and> x \<notin> set xs"
  then show "\<exists>h'. list_append h l x = Some h' \<and> list_rep h' l (xs @ [x]) \<and> touches h h' l (insert x (set xs))"
    using list_append_rep [OF assms] by (auto simp: detached_def)
next
  show "case xs of
            [] \<Rightarrow> list_dequeue h l = Some (0, h) \<and> list_pop h l = Some (0, h)
          | x # ys \<Rightarrow> (\<exists>h'. list_dequeue h l = Some (x, h') \<and> list_rep h' l ys \<and> touches h h' l (set ys)) \<and>
              (\<exists>h'. list_pop h l = Some (last xs, h') \<and> list_rep h' l (butlast xs) \<and> touches h h' l (set (butlast xs)))"
  proof (cases xs)
    case Nil
    then show ?thesis using assms list_dequeue_Nil [of h l] list_pop_Nil [of h l] by simp
  next
    case (Cons x ys)
    have "butlast xs @ [last xs] = xs" using Cons by simp
    then have "list_rep h l (butlast xs @ [last xs])" using assms by (simp only:)
    from list_pop_snoc [OF this] have "\<exists>h'. list_pop h l = Some (last xs, h') \<and> list_rep h' l (butlast xs) \<and> touches h h' l (set (butlast xs))"
      by blast
    moreover have "\<exists>h'. list_dequeue h l = Some (x, h') \<and> list_rep h' l ys \<and> touches h h' l (set ys)"
      using list_dequeue_Cons [of h l x ys] assms Cons by blast
    ultimately show ?thesis using Cons by simp
  qed
qed (use list_delete_rep list_find_rep [OF assms] assms in blast)+

definition list_example :: "unit lheap_scheme" where
  "list_example = \<lparr>nodes = [4 \<mapsto> \<lparr>lnext = 5, lprev = 0, payload = 7\<rparr>, 5 \<mapsto> \<lparr>lnext = 0, lprev = 4, payload = 8\<rparr>],
     lists = [1 \<mapsto> \<lparr>lhead = 4, ltail = 5, llength = 2\<rparr>], freed = []\<rparr>"

lemma list_example_rep: "list_rep list_example 1 [4, 5]"
  by (simp add: list_example_def list_rep_def)

theorem list_refines_sequence_witness:
  "\<exists>h'. list_delete list_example 1 4 = Some h' \<and> list_rep h' 1 [5]"
  using list_refines_sequence [OF list_example_rep, THEN conjunct2, THEN conjunct1, rule_format, of "[]" 4 "[5]"]
  by auto

text \<open>
  \<open>list_copy\<close> never returns for a list with a node, whatever the allocator does: its loop does not
  advance, and when memory runs out it asserts; of an empty list it makes an empty list.
\<close>

theorem list_copy_returns_iff_empty:
  assumes "list_rep h l xs" and "malloc h \<noteq> 0" and "malloc h \<noteq> l"
  shows "(list_copy malloc h l \<noteq> None \<longleftrightarrow> xs = []) \<and>
    (\<forall>r. list_copy malloc h l = Some r \<longrightarrow> fst r = malloc h \<and> list_rep (snd r) (malloc h) [])"
proof (cases xs)
  case Nil
  then show ?thesis
    using list_copy_Nil [of h l malloc] list_create_rep(2) [of malloc h] assms by simp
next
  case (Cons x ys)
  then show ?thesis using list_copy_Cons [of h l x ys malloc] assms by simp
qed

theorem list_copy_returns_iff_empty_witness: "list_copy (\<lambda>h. 9) list_example 1 = None"
  using list_copy_returns_iff_empty [OF list_example_rep, of "\<lambda>h. 9", THEN conjunct1]
  by (cases "list_copy (\<lambda>h. 9) list_example 1") (simp_all add: split_paired_all)

end
