(* ===== verification/Ktree.thy ===== *)
theory Ktree
  imports Klist
begin

text \<open>
  The n-ary tree of the kernel, kernel/src/util/tree.c, over the heap of \<open>Klist\<close> extended with tree
  nodes and tree headers. A node holds a value, a list of its children and its parent. A function
  that calls itself on the nodes of a children list walks over two kinds of positions: a tree node
  (\<open>Inl\<close>) and a node of a children list (\<open>Inr\<close>).
\<close>

subsection \<open>State\<close>

record tree_node =
  tvalue :: ptr
  children :: ptr
  parent :: ptr

record tree_t =
  tcount :: u64
  troot :: ptr

record theap = lheap +
  tnodes :: "ptr \<Rightarrow> tree_node option"
  trees :: "ptr \<Rightarrow> tree_t option"

definition set_tnode :: "'a theap_scheme \<Rightarrow> ptr \<Rightarrow> tree_node \<Rightarrow> 'a theap_scheme" where
  "set_tnode h p n = h\<lparr>tnodes := (tnodes h)(p \<mapsto> n)\<rparr>"

definition set_tree :: "'a theap_scheme \<Rightarrow> ptr \<Rightarrow> tree_t \<Rightarrow> 'a theap_scheme" where
  "set_tree h p t = h\<lparr>trees := (trees h)(p \<mapsto> t)\<rparr>"

definition set_parent :: "'a theap_scheme \<Rightarrow> ptr \<Rightarrow> ptr \<Rightarrow> 'a theap_scheme option" where
  "set_parent h p q = do { n \<leftarrow> tnodes h p; Some (set_tnode h p (n\<lparr>parent := q\<rparr>)) }"

definition add_count :: "'a theap_scheme \<Rightarrow> ptr \<Rightarrow> u64 \<Rightarrow> 'a theap_scheme option" where
  "add_count h p k = do { t \<leftarrow> trees h p; Some (set_tree h p (t\<lparr>tcount := tcount t + k\<rparr>)) }"

definition free_tnode :: "'a theap_scheme \<Rightarrow> ptr \<Rightarrow> 'a theap_scheme" where
  "free_tnode h p = h\<lparr>tnodes := (tnodes h)(p := None)\<rparr>"

subsection \<open>Creation\<close>

definition tree_create ::
  "('a theap_scheme \<Rightarrow> ptr) \<Rightarrow> 'a theap_scheme \<Rightarrow> ptr \<times> 'a theap_scheme" where
  "tree_create malloc h =
     (let out = malloc h in
      if out = 0 then (0, h) else (out, set_tree h out \<lparr>tcount = 0, troot = 0\<rparr>))"

text \<open>The new object occupies its address before its fields are assigned.\<close>

definition tree_node_create ::
  "('a theap_scheme \<Rightarrow> ptr) \<Rightarrow> 'a theap_scheme \<Rightarrow> ptr \<Rightarrow> ptr \<times> 'a theap_scheme" where
  "tree_node_create malloc h v =
     (let out = malloc h in
      if out = 0 then (0, h)
      else
        (let (l, h) = list_create malloc (set_tnode h out \<lparr>tvalue = 0, children = 0, parent = 0\<rparr>) in
         if l = 0 then (0, free_tnode h out)
         else (out, set_tnode h out \<lparr>tvalue = v, children = l, parent = 0\<rparr>)))"

definition tree_set_root ::
  "('a theap_scheme \<Rightarrow> ptr) \<Rightarrow> 'a theap_scheme \<Rightarrow> ptr \<Rightarrow> ptr \<Rightarrow> (int \<times> 'a theap_scheme) option" where
  "tree_set_root malloc h tree v = do {
     let (r, h) = tree_node_create malloc h v;
     if r = 0 then Some (0, h)
     else do {
       _ \<leftarrow> trees h tree;
       Some (1, set_tree h tree \<lparr>tcount = 1, troot = r\<rparr>)
     }
   }"

definition tree_node_insert_child_node ::
  "('a theap_scheme \<Rightarrow> ptr) \<Rightarrow> 'a theap_scheme \<Rightarrow> ptr \<Rightarrow> ptr \<Rightarrow> ptr \<Rightarrow> 'a theap_scheme option" where
  "tree_node_insert_child_node malloc h tree par node = do {
     p \<leftarrow> tnodes h par;
     (_, h) \<leftarrow> list_insert malloc h (children p) node;
     h \<leftarrow> set_parent h node par;
     add_count h tree 1
   }"

definition tree_node_insert_child ::
  "('a theap_scheme \<Rightarrow> ptr) \<Rightarrow> 'a theap_scheme \<Rightarrow> ptr \<Rightarrow> ptr \<Rightarrow> ptr \<Rightarrow> (ptr \<times> 'a theap_scheme) option" where
  "tree_node_insert_child malloc h tree par v = do {
     let (out, h) = tree_node_create malloc h v;
     h \<leftarrow> tree_node_insert_child_node malloc h tree par out;
     Some (out, h)
   }"

subsection \<open>Walks\<close>

text \<open>\<open>tree_node_destroy\<close> frees the values, children first.\<close>

partial_function (option) destroy_walk ::
  "ptr + ptr \<Rightarrow> 'a theap_scheme \<Rightarrow> 'a theap_scheme option" where
  "destroy_walk w h =
     (case w of
        Inl node \<Rightarrow> do {
          n \<leftarrow> tnodes h node;
          l \<leftarrow> lists h (children n);
          h \<leftarrow> destroy_walk (Inr (lhead l)) h;
          n \<leftarrow> tnodes h node;
          Some (h\<lparr>freed := freed h @ [tvalue n]\<rparr>)
        }
      | Inr lnode \<Rightarrow>
          if lnode = 0 then Some h
          else do {
            x \<leftarrow> nodes h lnode;
            h \<leftarrow> destroy_walk (Inl (payload x)) h;
            x \<leftarrow> nodes h lnode;
            destroy_walk (Inr (lnext x)) h
          })"

definition tree_node_destroy :: "'a theap_scheme \<Rightarrow> ptr \<Rightarrow> 'a theap_scheme option" where
  "tree_node_destroy h node = destroy_walk (Inl node) h"

definition tree_destroy :: "'a theap_scheme \<Rightarrow> ptr \<Rightarrow> 'a theap_scheme option" where
  "tree_destroy h tree = do {
     t \<leftarrow> trees h tree;
     if troot t \<noteq> 0 then tree_node_destroy h (troot t) else Some h
   }"

text \<open>\<open>tree_node_free\<close> frees the tree nodes, not the children lists.\<close>

partial_function (option) free_walk ::
  "ptr + ptr \<Rightarrow> 'a theap_scheme \<Rightarrow> 'a theap_scheme option" where
  "free_walk w h =
     (case w of
        Inl node \<Rightarrow>
          if node = 0 then Some h
          else do {
            n \<leftarrow> tnodes h node;
            l \<leftarrow> lists h (children n);
            h \<leftarrow> free_walk (Inr (lhead l)) h;
            Some (free_tnode h node)
          }
      | Inr lnode \<Rightarrow>
          if lnode = 0 then Some h
          else do {
            x \<leftarrow> nodes h lnode;
            h \<leftarrow> free_walk (Inl (payload x)) h;
            x \<leftarrow> nodes h lnode;
            free_walk (Inr (lnext x)) h
          })"

definition tree_node_free :: "'a theap_scheme \<Rightarrow> ptr \<Rightarrow> 'a theap_scheme option" where
  "tree_node_free h node = free_walk (Inl node) h"

definition tree_free :: "'a theap_scheme \<Rightarrow> ptr \<Rightarrow> 'a theap_scheme option" where
  "tree_free h tree = do { t \<leftarrow> trees h tree; tree_node_free h (troot t) }"

partial_function (option) parent_walk ::
  "'a theap_scheme \<Rightarrow> ptr \<Rightarrow> ptr + ptr \<times> ptr \<Rightarrow> ptr option" where
  "parent_walk h needle w =
     (case w of
        Inl haystack \<Rightarrow> do {
          n \<leftarrow> tnodes h haystack;
          l \<leftarrow> lists h (children n);
          parent_walk h needle (Inr (haystack, lhead l))
        }
      | Inr (haystack, lnode) \<Rightarrow>
          if lnode = 0 then Some 0
          else do {
            x \<leftarrow> nodes h lnode;
            if payload x = needle then Some haystack
            else do {
              f \<leftarrow> parent_walk h needle (Inl (payload x));
              if f \<noteq> 0 then Some f else parent_walk h needle (Inr (haystack, lnext x))
            }
          })"

definition tree_node_find_parent :: "'a theap_scheme \<Rightarrow> ptr \<Rightarrow> ptr \<Rightarrow> ptr option" where
  "tree_node_find_parent h haystack needle = parent_walk h needle (Inl haystack)"

partial_function (option) count_walk :: "'a theap_scheme \<Rightarrow> ptr + ptr \<Rightarrow> u64 option" where
  "count_walk h w =
     (case w of
        Inl node \<Rightarrow>
          if node = 0 then Some 0
          else do {
            n \<leftarrow> tnodes h node;
            if children n = 0 then Some 0
            else do {
              l \<leftarrow> lists h (children n);
              c \<leftarrow> count_walk h (Inr (lhead l));
              Some (llength l + c)
            }
          }
      | Inr lnode \<Rightarrow>
          if lnode = 0 then Some 0
          else do {
            x \<leftarrow> nodes h lnode;
            c \<leftarrow> count_walk h (Inl (payload x));
            d \<leftarrow> count_walk h (Inr (lnext x));
            Some (c + d)
          })"

definition tree_count_children :: "'a theap_scheme \<Rightarrow> ptr \<Rightarrow> u64 option" where
  "tree_count_children h node = count_walk h (Inl node)"

text \<open>The loop of \<open>tree_node_find\<close> returns when a subtree does not hold the value.\<close>

partial_function (option) find_walk ::
  "'a theap_scheme \<Rightarrow> (ptr \<Rightarrow> bool) \<Rightarrow> ptr + ptr \<Rightarrow> ptr option" where
  "find_walk h hit w =
     (case w of
        Inl node \<Rightarrow> do {
          n \<leftarrow> tnodes h node;
          if hit (tvalue n) then Some node
          else do { l \<leftarrow> lists h (children n); find_walk h hit (Inr (lhead l)) }
        }
      | Inr lnode \<Rightarrow>
          if lnode = 0 then Some 0
          else do {
            x \<leftarrow> nodes h lnode;
            f \<leftarrow> find_walk h hit (Inl (payload x));
            if f = 0 then Some f else find_walk h hit (Inr (lnext x))
          })"

definition tree_node_find :: "'a theap_scheme \<Rightarrow> ptr \<Rightarrow> ptr \<Rightarrow> (ptr \<Rightarrow> ptr \<Rightarrow> bool) \<Rightarrow> ptr option" where
  "tree_node_find h node search comparator = find_walk h (\<lambda>v. comparator v search) (Inl node)"

definition tree_find :: "'a theap_scheme \<Rightarrow> ptr \<Rightarrow> ptr \<Rightarrow> (ptr \<Rightarrow> ptr \<Rightarrow> bool) \<Rightarrow> ptr option" where
  "tree_find h tree v comparator = do { t \<leftarrow> trees h tree; tree_node_find h (troot t) v comparator }"

subsection \<open>Removal\<close>

text \<open>\<open>list_delete(parent->children, list_find(parent->children, node))\<close>\<close>

definition unlink_child :: "'a theap_scheme \<Rightarrow> ptr \<Rightarrow> ptr \<Rightarrow> 'a theap_scheme option" where
  "unlink_child h par node = do {
     p \<leftarrow> tnodes h par;
     l \<leftarrow> list_find h (children p) node;
     list_delete h (children p) l
   }"

text \<open>The loop that gives the children of a removed node a new parent.\<close>

partial_function (option) reparent ::
  "ptr \<Rightarrow> ptr \<Rightarrow> 'a theap_scheme \<Rightarrow> 'a theap_scheme option" where
  "reparent par lnode h =
     (if lnode = 0 then Some h
      else do {
        x \<leftarrow> nodes h lnode;
        h \<leftarrow> set_parent h (payload x) par;
        x \<leftarrow> nodes h lnode;
        reparent par (lnext x) h
      })"

definition tree_node_parent_remove ::
  "'a theap_scheme \<Rightarrow> ptr \<Rightarrow> ptr \<Rightarrow> ptr \<Rightarrow> 'a theap_scheme option" where
  "tree_node_parent_remove h tree par node = do {
     c \<leftarrow> tree_count_children h node;
     h \<leftarrow> add_count h tree (- (c + 1));
     h \<leftarrow> unlink_child h par node;
     tree_node_free h node
   }"

definition tree_node_remove :: "'a theap_scheme \<Rightarrow> ptr \<Rightarrow> ptr \<Rightarrow> 'a theap_scheme option" where
  "tree_node_remove h tree node = do {
     n \<leftarrow> tnodes h node;
     h \<leftarrow> (if parent n = 0 then do {
            t \<leftarrow> trees h tree;
            if node = troot t
            then tree_node_free (set_tree h tree (t\<lparr>tcount := 0, troot := 0\<rparr>)) node
            else Some h
          } else Some h);
     tree_node_parent_remove h tree (parent n) node
   }"

definition tree_remove :: "'a theap_scheme \<Rightarrow> ptr \<Rightarrow> ptr \<Rightarrow> 'a theap_scheme option" where
  "tree_remove h tree node = do {
     n \<leftarrow> tnodes h node;
     if parent n = 0 then Some h
     else do {
       h \<leftarrow> add_count h tree (- 1);
       h \<leftarrow> unlink_child h (parent n) node;
       l \<leftarrow> lists h (children n);
       h \<leftarrow> reparent (parent n) (lhead l) h;
       p \<leftarrow> tnodes h (parent n);
       list_merge h (children p) (children n)
     }
   }"

definition tree_remove_reparent_root :: "'a theap_scheme \<Rightarrow> ptr \<Rightarrow> ptr \<Rightarrow> 'a theap_scheme option" where
  "tree_remove_reparent_root h tree node = do {
     n \<leftarrow> tnodes h node;
     if parent n = 0 then Some h
     else do {
       h \<leftarrow> add_count h tree (- 1);
       h \<leftarrow> unlink_child h (parent n) node;
       l \<leftarrow> lists h (children n);
       t \<leftarrow> trees h tree;
       h \<leftarrow> reparent (troot t) (lhead l) h;
       r \<leftarrow> tnodes h (troot t);
       h \<leftarrow> list_merge h (children r) (children n);
       Some (free_tnode h node)
     }
   }"

definition tree_break_off :: "'a theap_scheme \<Rightarrow> ptr \<Rightarrow> 'a theap_scheme option" where
  "tree_break_off h node = do {
     n \<leftarrow> tnodes h node;
     if parent n = 0 then Some h else unlink_child h (parent n) node
   }"

end
