(* ===== verification/Ktree_Props.thy ===== *)
theory Ktree_Props
  imports Ktree Klist_Props
begin

text \<open>
  The heap holds a tree (\<open>tree_rep\<close>), and what the walks give on it: the number of descendants, the
  parent of a node, and the search, which only ever finds the root.
\<close>

subsection \<open>Trees in the heap\<close>

datatype ktree = KNode (top: ptr) (subs: "ktree list")

primrec addrs :: "ktree \<Rightarrow> ptr list" where
  "addrs (KNode p ts) = p # concat (map addrs ts)"

fun tree_rep :: "'a theap_scheme \<Rightarrow> ptr \<Rightarrow> ktree \<Rightarrow> bool" where
  "tree_rep h par (KNode p ts) \<longleftrightarrow>
     p \<noteq> 0 \<and> (\<exists>n ls. tnodes h p = Some n \<and> parent n = par \<and> children n \<noteq> 0 \<and>
       list_rep h (children n) ls \<and> map (pay h) ls = map top ts) \<and> (\<forall>t \<in> set ts. tree_rep h p t)"

lemma top_in_addrs [simp]: "top t \<in> set (addrs t)"
  by (cases t) simp

lemma tree_rep_top: "tree_rep h par t \<Longrightarrow> top t \<noteq> 0"
  by (cases t) simp

text \<open>A chain of list nodes whose payloads are the tops of the trees \<open>ts\<close>.\<close>

fun forest :: "'a theap_scheme \<Rightarrow> ptr \<Rightarrow> ptr \<Rightarrow> ktree list \<Rightarrow> bool" where
  "forest h par lnode [] \<longleftrightarrow> lnode = 0"
| "forest h par lnode (t # ts) \<longleftrightarrow> lnode \<noteq> 0 \<and>
     (\<exists>x. nodes h lnode = Some x \<and> payload x = top t \<and> forest h par (lnext x) ts) \<and> tree_rep h par t"

lemma chain_forest:
  "chain (nodes h) p q ls lst 0 \<Longrightarrow> map (pay h) ls = map top ts \<Longrightarrow>
     (\<And>t. t \<in> set ts \<Longrightarrow> tree_rep h par t) \<Longrightarrow> forest h par p ts"
proof (induction ls arbitrary: p q ts)
  case (Cons l ls)
  from Cons.prems(2) obtain t ts' where "ts = t # ts'" "pay h l = top t" "map (pay h) ls = map top ts'"
    by (cases ts) auto
  then show ?case using Cons by (auto simp: pay_def)
qed simp

lemma tree_rep_forest:
  assumes "tree_rep h par (KNode p ts)"
  obtains n r where "tnodes h p = Some n" "parent n = par" "children n \<noteq> 0" "lists h (children n) = Some r"
    "forest h p (lhead r) ts" "llength r = of_nat (length ts)"
proof -
  from assms obtain n ls where n: "tnodes h p = Some n" "parent n = par" "children n \<noteq> 0"
    "list_rep h (children n) ls" "map (pay h) ls = map top ts" "\<forall>t \<in> set ts. tree_rep h p t"
    by auto
  then obtain r where r: "lists h (children n) = Some r" "chain (nodes h) (lhead r) 0 ls (ltail r) 0"
    "llength r = of_nat (length ls)"
    by (auto simp: list_rep_def)
  have "length ls = length ts" using arg_cong [OF n(5), of length] by simp
  then show thesis using that n r chain_forest [OF r(2) n(5)] by auto
qed

lemma forest_trees: "forest h par l ts \<Longrightarrow> t \<in> set ts \<Longrightarrow> tree_rep h par t"
  by (induction ts arbitrary: l) auto

subsection \<open>Counting\<close>

lemma count_walk_Inl:
  "node \<noteq> 0 \<Longrightarrow> tnodes h node = Some n \<Longrightarrow> children n \<noteq> 0 \<Longrightarrow> lists h (children n) = Some l \<Longrightarrow>
     count_walk h (Inl node) = do { c \<leftarrow> count_walk h (Inr (lhead l)); Some (llength l + c) }"
  by (subst count_walk.simps) simp

lemma count_walk_Inr_0: "count_walk h (Inr 0) = Some 0"
  by (subst count_walk.simps) simp

lemma count_walk_Inr:
  "l \<noteq> 0 \<Longrightarrow> nodes h l = Some x \<Longrightarrow>
     count_walk h (Inr l) =
       do { c \<leftarrow> count_walk h (Inl (payload x)); d \<leftarrow> count_walk h (Inr (lnext x)); Some (c + d) }"
  by (subst count_walk.simps) simp

lemma count_walk_forest:
  "forest h par l ts \<Longrightarrow>
     (\<And>t. t \<in> set ts \<Longrightarrow> count_walk h (Inl (top t)) = Some (of_nat (length (addrs t)) - 1)) \<Longrightarrow>
     count_walk h (Inr l) = Some (of_nat (length (concat (map addrs ts))) - of_nat (length ts))"
  by (induction ts arbitrary: l) (auto simp: count_walk_Inr_0 count_walk_Inr)

lemma tree_count_children_rep:
  "tree_rep h par t \<Longrightarrow> tree_count_children h (top t) = Some (of_nat (length (addrs t)) - 1)"
proof (induction t arbitrary: par)
  case (KNode p ts)
  from KNode.prems obtain n r where n: "tnodes h p = Some n" "children n \<noteq> 0" "lists h (children n) = Some r"
    "forest h p (lhead r) ts" "llength r = of_nat (length ts)"
    by (rule tree_rep_forest)
  have "count_walk h (Inr (lhead r)) = Some (of_nat (length (concat (map addrs ts))) - of_nat (length ts))"
    by (intro count_walk_forest [OF n(4)])
      (metis KNode.IH forest_trees [OF n(4)] tree_count_children_def)
  then show ?case
    using n tree_rep_top [OF KNode.prems] by (simp add: tree_count_children_def count_walk_Inl)
qed

subsection \<open>Finding the parent\<close>

lemma parent_walk_Inl:
  "tnodes h hs = Some n \<Longrightarrow> lists h (children n) = Some l \<Longrightarrow>
     parent_walk h needle (Inl hs) = parent_walk h needle (Inr (hs, lhead l))"
  by (subst parent_walk.simps) simp

lemma parent_walk_Inr_0: "parent_walk h needle (Inr (hs, 0)) = Some 0"
  by (subst parent_walk.simps) simp

lemma parent_walk_Inr:
  "l \<noteq> 0 \<Longrightarrow> nodes h l = Some x \<Longrightarrow>
     parent_walk h needle (Inr (hs, l)) =
       (if payload x = needle then Some hs
        else do {
          f \<leftarrow> parent_walk h needle (Inl (payload x));
          if f \<noteq> 0 then Some f else parent_walk h needle (Inr (hs, lnext x))
        })"
  by (subst parent_walk.simps) simp

text \<open>The first node, in the order of the walk, that has \<open>needle\<close> as a child; 0 when there is none.\<close>

fun parent_of :: "ptr \<Rightarrow> ktree \<Rightarrow> ptr" and parent_in :: "ptr \<Rightarrow> ptr \<Rightarrow> ktree list \<Rightarrow> ptr" where
  "parent_of needle (KNode p ts) = parent_in needle p ts"
| "parent_in needle p [] = 0"
| "parent_in needle p (t # ts) =
     (if top t = needle then p
      else if parent_of needle t \<noteq> 0 then parent_of needle t else parent_in needle p ts)"

lemma parent_walk_forest:
  "forest h par l ts \<Longrightarrow>
     (\<And>t. t \<in> set ts \<Longrightarrow> parent_walk h needle (Inl (top t)) = Some (parent_of needle t)) \<Longrightarrow>
     parent_walk h needle (Inr (hs, l)) = Some (parent_in needle hs ts)"
  by (induction ts arbitrary: l) (auto simp: parent_walk_Inr_0 parent_walk_Inr)

lemma tree_node_find_parent_rep:
  "tree_rep h par t \<Longrightarrow> tree_node_find_parent h (top t) needle = Some (parent_of needle t)"
proof (induction t arbitrary: par)
  case (KNode p ts)
  from KNode.prems obtain n r where n: "tnodes h p = Some n" "children n \<noteq> 0" "lists h (children n) = Some r"
    "forest h p (lhead r) ts" "llength r = of_nat (length ts)"
    by (rule tree_rep_forest)
  have "parent_walk h needle (Inr (p, lhead r)) = Some (parent_in needle p ts)"
    by (intro parent_walk_forest [OF n(4)])
      (metis KNode.IH forest_trees [OF n(4)] tree_node_find_parent_def)
  then show ?case using n by (simp add: tree_node_find_parent_def parent_walk_Inl)
qed

text \<open>When the addresses are distinct, that is the node the parent pointer names.\<close>

lemma parent_of_not_in: "needle \<notin> set (addrs t) \<Longrightarrow> parent_of needle t = 0"
  and parent_in_not_in: "needle \<notin> (\<Union>t \<in> set ts. set (addrs t)) \<Longrightarrow> parent_in needle p ts = 0"
  by (induction needle t and needle p ts rule: parent_of_parent_in.induct) auto

lemma parent_of_parent:
  "tree_rep h par t \<Longrightarrow> distinct (addrs t) \<Longrightarrow> needle \<in> set (addrs t) \<Longrightarrow> needle \<noteq> top t \<Longrightarrow>
     \<exists>n. tnodes h needle = Some n \<and> parent n = parent_of needle t \<and> parent n \<noteq> 0"
  and parent_in_parent:
  "(\<And>t. t \<in> set ts \<Longrightarrow> tree_rep h p t) \<Longrightarrow> distinct (concat (map addrs ts)) \<Longrightarrow> p \<noteq> 0 \<Longrightarrow>
     needle \<in> (\<Union>t \<in> set ts. set (addrs t)) \<Longrightarrow>
     \<exists>n. tnodes h needle = Some n \<and> parent n = parent_in needle p ts \<and> parent n \<noteq> 0"
proof (induction needle t and needle p ts arbitrary: par and rule: parent_of_parent_in.induct)
  case (3 needle p t ts)
  show ?case
  proof (cases "top t = needle")
    case True
    then show ?thesis using "3.prems"(1) [of t] "3.prems"(3) by (cases t) auto
  next
    case False
    show ?thesis
    proof (cases "needle \<in> set (addrs t)")
      case True
      then show ?thesis
        using "3.IH"(1) [OF False, of p] "3.prems" False by auto
    next
      case nt: False
      then show ?thesis
        using "3.IH"(3) [OF False] "3.prems" False parent_of_not_in [OF nt] by auto
    qed
  qed
qed auto

subsection \<open>Searching\<close>

text \<open>A search that returns has found the node it started at, or nothing.\<close>

definition find_result :: "'a theap_scheme \<Rightarrow> (ptr \<Rightarrow> bool) \<Rightarrow> ptr + ptr \<Rightarrow> ptr \<Rightarrow> bool" where
  "find_result h Q w r \<longleftrightarrow>
     (case w of Inl node \<Rightarrow> r = 0 \<or> r = node \<and> (\<exists>n. tnodes h node = Some n \<and> Q (tvalue n)) | Inr l \<Rightarrow> r = 0)"

lemma find_walk_result: "find_walk h Q w = Some r \<Longrightarrow> find_result h Q w r"
  by (erule find_walk.raw_induct [where P = find_result, rotated])
    (fastforce simp: find_result_def bind_eq_Some_conv split: sum.splits if_splits)


lemma find_walk_Inr_0: "find_walk h Q (Inr 0) = Some 0"
  by (subst find_walk.simps) simp

lemma find_walk_Inr:
  "l \<noteq> 0 \<Longrightarrow> nodes h l = Some x \<Longrightarrow>
     find_walk h Q (Inr l) =
       do { f \<leftarrow> find_walk h Q (Inl (payload x)); if f = 0 then Some f else find_walk h Q (Inr (lnext x)) }"
  by (subst find_walk.simps) simp

lemma find_walk_Inl:
  "tnodes h node = Some n \<Longrightarrow> lists h (children n) = Some l \<Longrightarrow>
     find_walk h Q (Inl node) = (if Q (tvalue n) then Some node else find_walk h Q (Inr (lhead l)))"
  by (subst find_walk.simps) simp

lemma find_walk_forest:
  "forest h par l ts \<Longrightarrow> (\<And>t. t \<in> set ts \<Longrightarrow> find_walk h Q (Inl (top t)) \<noteq> None) \<Longrightarrow>
     find_walk h Q (Inr l) \<noteq> None"
proof (induction ts arbitrary: l)
  case (Cons t ts)
  then obtain x where x: "nodes h l = Some x" "payload x = top t" "forest h par (lnext x) ts" "l \<noteq> 0" by auto
  moreover obtain r where "find_walk h Q (Inl (top t)) = Some r" using Cons.prems(2) [of t] by auto
  moreover have "find_walk h Q (Inr (lnext x)) \<noteq> None" using Cons x(3) by simp
  ultimately show ?case by (simp add: find_walk_Inr)
qed (simp add: find_walk_Inr_0)

lemma find_walk_returns: "tree_rep h par t \<Longrightarrow> find_walk h Q (Inl (top t)) \<noteq> None"
proof (induction t arbitrary: par)
  case (KNode p ts)
  from KNode.prems obtain n r where n: "tnodes h p = Some n" "children n \<noteq> 0" "lists h (children n) = Some r"
    "forest h p (lhead r) ts" "llength r = of_nat (length ts)"
    by (rule tree_rep_forest)
  have "find_walk h Q (Inr (lhead r)) \<noteq> None"
    by (intro find_walk_forest [OF n(4)]) (metis KNode.IH forest_trees [OF n(4)])
  then show ?case using n by (simp add: find_walk_Inl)
qed

lemma tree_node_find_rep:
  assumes "tree_rep h par t" "tnodes h (top t) = Some n"
  shows "tree_node_find h (top t) v cmp = Some (if cmp (tvalue n) v then top t else 0)"
proof -
  let ?Q = "\<lambda>x. cmp x v"
  obtain r where r: "find_walk h ?Q (Inl (top t)) = Some r"
    using find_walk_returns [OF assms(1), of ?Q] by blast
  from find_walk_result [OF r] have "r = 0 \<or> r = top t \<and> cmp (tvalue n) v"
    using assms(2) by (auto simp: find_result_def)
  moreover have "r = top t" if "cmp (tvalue n) v"
    using r that assms(2) by (subst (asm) find_walk.simps) simp
  ultimately show ?thesis
    using r tree_rep_top [OF assms(1)] by (auto simp: tree_node_find_def)
qed

subsection \<open>Properties\<close>

text \<open>
  On a tree in the heap the walks return, and \<open>tree_count_children\<close> gives the number of
  descendants of the node (modulo \<open>2 ^ 64\<close>), \<open>tree_node_find_parent\<close> the node whose child the
  searched node is, which is the one its \<open>parent\<close> field names, and null for a node that is not in
  the tree.
\<close>

theorem tree_walks_correct:
  assumes "tree_rep h par t" and "distinct (addrs t)"
  shows "tree_count_children h (top t) = Some (of_nat (length (addrs t) - 1)) \<and>
    (\<forall>x. x \<in> set (addrs t) \<and> x \<noteq> top t \<longrightarrow>
       (\<exists>n. tnodes h x = Some n \<and> tree_node_find_parent h (top t) x = Some (parent n) \<and> parent n \<noteq> 0)) \<and>
    (\<forall>x. x \<notin> set (addrs t) \<longrightarrow> tree_node_find_parent h (top t) x = Some 0)"
proof (intro conjI allI impI)
  have "0 < length (addrs t)" by (cases t) simp
  then show "tree_count_children h (top t) = Some (of_nat (length (addrs t) - 1))"
    using tree_count_children_rep [OF assms(1)] by (simp add: of_nat_diff Suc_leI)
  fix x
  { assume "x \<in> set (addrs t) \<and> x \<noteq> top t"
    then show "\<exists>n. tnodes h x = Some n \<and> tree_node_find_parent h (top t) x = Some (parent n) \<and> parent n \<noteq> 0"
      using parent_of_parent [OF assms, of x] tree_node_find_parent_rep [OF assms(1), of x] by fastforce }
  { assume "x \<notin> set (addrs t)"
    then show "tree_node_find_parent h (top t) x = Some 0"
      using parent_of_not_in tree_node_find_parent_rep [OF assms(1), of x] by simp }
qed

definition tree_example :: "unit theap_scheme" where
  "tree_example = \<lparr>nodes = [21 \<mapsto> \<lparr>lnext = 22, lprev = 0, payload = 11\<rparr>, 22 \<mapsto> \<lparr>lnext = 0, lprev = 21, payload = 12\<rparr>],
     lists = [31 \<mapsto> \<lparr>lhead = 21, ltail = 22, llength = 2\<rparr>, 32 \<mapsto> \<lparr>lhead = 0, ltail = 0, llength = 0\<rparr>,
       33 \<mapsto> \<lparr>lhead = 0, ltail = 0, llength = 0\<rparr>], freed = [],
     tnodes = [10 \<mapsto> \<lparr>tvalue = 1, children = 31, parent = 0\<rparr>, 11 \<mapsto> \<lparr>tvalue = 2, children = 32, parent = 10\<rparr>,
       12 \<mapsto> \<lparr>tvalue = 3, children = 33, parent = 10\<rparr>],
     trees = [1 \<mapsto> \<lparr>tcount = 3, troot = 10\<rparr>]\<rparr>"

lemma tree_example_rep: "tree_rep tree_example 0 (KNode 10 [KNode 11 [], KNode 12 []])"
proof -
  have "list_rep tree_example 31 [21, 22]" "list_rep tree_example 32 []" "list_rep tree_example 33 []"
    by (simp_all add: tree_example_def list_rep_def)
  moreover have "pay tree_example 21 = 11" "pay tree_example 22 = 12"
    by (simp_all add: tree_example_def pay_def)
  moreover have "tnodes tree_example 10 = Some \<lparr>tvalue = 1, children = 31, parent = 0\<rparr>"
    "tnodes tree_example 11 = Some \<lparr>tvalue = 2, children = 32, parent = 10\<rparr>"
    "tnodes tree_example 12 = Some \<lparr>tvalue = 3, children = 33, parent = 10\<rparr>"
    by (simp_all add: tree_example_def)
  ultimately show ?thesis by (auto intro!: exI [of _ "[21, 22]"])
qed

theorem tree_walks_correct_witness:
  "tree_count_children tree_example 10 = Some 2 \<and> tree_node_find_parent tree_example 10 99 = Some 0"
  using tree_walks_correct [OF tree_example_rep] by simp

text \<open>
  \<open>tree_find\<close> finds a value only at the root: the loop over the children returns null at the first
  subtree without a match, and goes on after a match, so that for any comparison the result is the
  root or null.
\<close>

theorem tree_find_only_root:
  assumes "trees h tree = Some r" and "tree_rep h par t" and "troot r = top t" and "tnodes h (top t) = Some n"
  shows "tree_find h tree v cmp = Some (if cmp (tvalue n) v then top t else 0)"
  using tree_node_find_rep [OF assms(2,4)] assms(1,3) by (simp add: tree_find_def)

theorem tree_find_only_root_witness: "tree_find tree_example 1 3 (\<lambda>x v. x = v) = Some 0"
proof -
  have "trees tree_example 1 = Some \<lparr>tcount = 3, troot = 10\<rparr>"
    "tnodes tree_example 10 = Some \<lparr>tvalue = 1, children = 31, parent = 0\<rparr>"
    by (simp_all add: tree_example_def)
  then show ?thesis
    using tree_find_only_root [OF _ tree_example_rep, of 1 _ _ 3 "\<lambda>x v. x = v"] by simp
qed

end
