(* ===== verification/Bitset.thy ===== *)
theory Bitset
  imports OS6_Prelude
begin

text \<open>
  The bit set that holds the process identifiers, kernel/src/util/bitset.c: a byte array and its
  length. Bit numbers are natural numbers; an access outside the array is \<open>None\<close>.
\<close>

subsection \<open>Operations\<close>

record bitset =
  bs_data :: "u8 list"
  bs_size :: u64

text \<open>
  \<open>bitset_init\<close> takes whether malloc succeeds: the code does not test the result and clears the array
  through the null pointer otherwise.
\<close>

definition bitset_init :: "bool \<Rightarrow> u64 \<Rightarrow> bitset option" where
  "bitset_init malloc sz =
     (let n = (sz + 7) AND NOT 7 in
      if malloc then Some \<lparr>bs_data = replicate (unat n) 0, bs_size = n\<rparr> else None)"

text \<open>\<open>1 << j\<close> as a byte.\<close>

definition bit8 :: "nat \<Rightarrow> u8" where
  "bit8 j = push_bit j 1"

definition bitset_set :: "bitset \<Rightarrow> nat \<Rightarrow> bitset option" where
  "bitset_set s b = do {
     x \<leftarrow> idx (bs_data s) (b div 8);
     d \<leftarrow> upd (bs_data s) (b div 8) (x OR bit8 (b mod 8));
     Some (s\<lparr>bs_data := d\<rparr>)
   }"

definition bitset_clear :: "bitset \<Rightarrow> nat \<Rightarrow> bitset option" where
  "bitset_clear s b = do {
     x \<leftarrow> idx (bs_data s) (b div 8);
     d \<leftarrow> upd (bs_data s) (b div 8) (x AND NOT (bit8 (b mod 8)));
     Some (s\<lparr>bs_data := d\<rparr>)
   }"

definition bitset_test :: "bitset \<Rightarrow> nat \<Rightarrow> u8 option" where
  "bitset_test s b = do { x \<leftarrow> idx (bs_data s) (b div 8); Some (x AND bit8 (b mod 8)) }"

text \<open>The inner loop of \<open>bitset_ffub\<close> on a byte, and the outer loop from byte \<open>i\<close> on.\<close>

definition first_unset_bit :: "u8 \<Rightarrow> nat option" where
  "first_unset_bit x = List.find (\<lambda>j. x AND bit8 j = 0) [0..<8]"

fun ffub_from :: "nat \<Rightarrow> nat \<Rightarrow> bitset \<Rightarrow> (int \<times> bitset) option" where
  "ffub_from i 0 s = Some (-1, s)"
| "ffub_from i (Suc n) s = do {
     x \<leftarrow> idx (bs_data s) i;
     if x \<noteq> 0xFF then
       (case first_unset_bit x of
          Some j \<Rightarrow> do {
            d \<leftarrow> upd (bs_data s) i (x OR bit8 j);
            Some (int (8 * i + j), s\<lparr>bs_data := d\<rparr>)
          }
        | None \<Rightarrow> ffub_from (Suc i) n s)
     else ffub_from (Suc i) n s
   }"

definition bitset_ffub :: "bitset \<Rightarrow> (int \<times> bitset) option" where
  "bitset_ffub s = ffub_from 0 (unat (bs_size s)) s"

subsection \<open>As a set of numbers\<close>

definition bitset_ok :: "bitset \<Rightarrow> bool" where
  "bitset_ok s \<longleftrightarrow> length (bs_data s) = unat (bs_size s)"

definition members :: "bitset \<Rightarrow> nat set" where
  "members s = {b. b div 8 < length (bs_data s) \<and> bit (bs_data s ! (b div 8)) (b mod 8)}"

lemma bit_bit8: "bit (bit8 j) k \<longleftrightarrow> k = j \<and> j < 8"
  by (auto simp: bit8_def bit_simps simp del: push_bit_of_1)

lemma and_bit8: "j < 8 \<Longrightarrow> x AND bit8 j = 0 \<longleftrightarrow> \<not> bit x j"
  by (subst bit_eq_iff) (auto simp: bit_and_iff bit_bit8)

lemma bit_or_bit8: "j < 8 \<Longrightarrow> bit (x OR bit8 j) k \<longleftrightarrow> bit x k \<or> k = j"
  by (auto simp: bit_or_iff bit_bit8)

lemma bit_and_not_bit8: "j < 8 \<Longrightarrow> bit (x AND NOT (bit8 j)) k \<longleftrightarrow> bit x k \<and> k \<noteq> j"
  by (auto simp: bit_and_iff bit_not_iff bit_bit8 dest: bit_imp_le_length)

lemma members_update:
  assumes "b < 8 * length d" and "\<And>k. k < 8 \<Longrightarrow> bit y k \<longleftrightarrow> (if k = b mod 8 then v else bit (d ! (b div 8)) k)"
  shows "members \<lparr>bs_data = d[b div 8 := y], bs_size = n\<rparr> =
     (if v then insert b (members \<lparr>bs_data = d, bs_size = n\<rparr>) else members \<lparr>bs_data = d, bs_size = n\<rparr> - {b})"
proof (rule set_eqI)
  fix c
  have l: "b div 8 < length d" using assms(1) by (simp add: less_mult_imp_div_less mult.commute)
  show "c \<in> members \<lparr>bs_data = d[b div 8 := y], bs_size = n\<rparr> \<longleftrightarrow> c \<in> (if v then
      insert b (members \<lparr>bs_data = d, bs_size = n\<rparr>) else members \<lparr>bs_data = d, bs_size = n\<rparr> - {b})"
  proof (cases "c div 8 = b div 8")
    case True
    then have "c mod 8 = b mod 8 \<longleftrightarrow> c = b" using div_mult_mod_eq [of b 8] div_mult_mod_eq [of c 8] by linarith
    then show ?thesis using True l assms(2) by (simp add: members_def)
  next
    case False
    then show ?thesis using l by (auto simp: members_def)
  qed
qed

lemma members_size: "members \<lparr>bs_data = bs_data s, bs_size = n\<rparr> = members s"
  by (simp add: members_def)

lemma bitset_set_ok:
  assumes "b < 8 * length (bs_data s)"
  shows "\<exists>s'. bitset_set s b = Some s' \<and> members s' = insert b (members s) \<and>
           length (bs_data s') = length (bs_data s) \<and> bs_size s' = bs_size s"
proof -
  have "b div 8 < length (bs_data s)" using assms by (simp add: less_mult_imp_div_less mult.commute)
  then show ?thesis
    using members_update [OF assms, of "bs_data s ! (b div 8) OR bit8 (b mod 8)" True "bs_size s"]
    by (cases s) (simp add: bitset_set_def bit_or_bit8 members_size)
qed

lemma bitset_clear_ok:
  assumes "b < 8 * length (bs_data s)"
  shows "\<exists>s'. bitset_clear s b = Some s' \<and> members s' = members s - {b} \<and>
           length (bs_data s') = length (bs_data s) \<and> bs_size s' = bs_size s"
proof -
  have "b div 8 < length (bs_data s)" using assms by (simp add: less_mult_imp_div_less mult.commute)
  then show ?thesis
    using members_update [OF assms, of "bs_data s ! (b div 8) AND NOT (bit8 (b mod 8))" False "bs_size s"]
    by (cases s) (simp add: bitset_clear_def bit_and_not_bit8 members_size)
qed

lemma bitset_test_ok:
  "b < 8 * length (bs_data s) \<Longrightarrow> \<exists>x. bitset_test s b = Some x \<and> (x \<noteq> 0 \<longleftrightarrow> b \<in> members s)"
  using less_mult_imp_div_less [of b "length (bs_data s)" 8]
  by (simp add: bitset_test_def members_def and_bit8 mult.commute)

subsection \<open>The first clear bit\<close>

lemma byte_full_iff: "x = 0xFF \<longleftrightarrow> (\<forall>j < 8. bit x j)" for x :: u8
proof -
  have "(0xFF :: u8) = mask 8" by (simp add: mask_eq_exp_minus_1)
  then show ?thesis by (auto simp: bit_eq_iff bit_mask_iff dest: bit_imp_le_length)
qed

lemma first_unset_bit_Some:
  "first_unset_bit x = Some j \<longleftrightarrow> j < 8 \<and> \<not> bit x j \<and> (\<forall>k < j. bit x k)"
proof -
  have "first_unset_bit x = List.find (\<lambda>j. \<not> bit x j) [0..<8]"
    unfolding first_unset_bit_def by (rule find_cong) (simp_all add: and_bit8)
  then show ?thesis by (auto simp: find_Some_iff)
qed

lemma first_unset_bit_None: "first_unset_bit x = None \<longleftrightarrow> x = 0xFF"
  by (auto simp: first_unset_bit_def find_None_iff byte_full_iff and_bit8)

text \<open>\<open>b\<close> is the least number that is not a member, among those the array has room for.\<close>

definition lowest_free :: "bitset \<Rightarrow> nat \<Rightarrow> bool" where
  "lowest_free s b \<longleftrightarrow> b < 8 * length (bs_data s) \<and> b \<notin> members s \<and> (\<forall>c < b. c \<in> members s)"

lemma ffub_from_ok:
  assumes "i + n = length (bs_data s)" and "\<forall>c < 8 * i. c \<in> members s"
  shows "(\<exists>b s'. ffub_from i n s = Some (int b, s') \<and> lowest_free s b \<and>
            members s' = insert b (members s) \<and> length (bs_data s') = length (bs_data s) \<and> bs_size s' = bs_size s) \<or>
         (ffub_from i n s = Some (-1, s) \<and> members s = {..< 8 * length (bs_data s)})"
  using assms
proof (induction n arbitrary: i)
  case 0
  have "c < 8 * length (bs_data s)" if "c \<in> members s" for c
    using that by (auto simp: members_def)
  then show ?case using 0 by auto
next
  case (Suc n)
  show ?case
  proof (cases "bs_data s ! i = 0xFF")
    case True
    have "c \<in> members s" if "c < 8 * Suc i" for c
    proof (cases "c div 8 = i")
      case True
      then show ?thesis
        using byte_full_iff [THEN iffD1, OF \<open>bs_data s ! i = 0xFF\<close>] Suc.prems(1)
        by (simp add: members_def)
    next
      case False
      then have "c < 8 * i" using that by simp
      then show ?thesis using Suc.prems(2) by simp
    qed
    then show ?thesis using Suc.IH [of "Suc i"] Suc.prems(1) True by simp
  next
    case False
    then obtain j where fj: "first_unset_bit (bs_data s ! i) = Some j"
      using first_unset_bit_None [of "bs_data s ! i"] by (cases "first_unset_bit (bs_data s ! i)") auto
    then have j: "j < 8" "\<not> bit (bs_data s ! i) j" "\<forall>k < j. bit (bs_data s ! i) k"
      by (simp_all add: first_unset_bit_Some)
    let ?b = "8 * i + j"
    have b: "?b div 8 = i" "?b mod 8 = j" using j by simp_all
    have lt: "?b < 8 * length (bs_data s)" using Suc.prems(1) j by simp
    have "c \<in> members s" if "c < ?b" for c
    proof (cases "c < 8 * i")
      case True
      then show ?thesis using Suc.prems(2) by simp
    next
      case False
      then obtain k where "c = 8 * i + k" using le_Suc_ex by (metis not_less)
      then show ?thesis using j that Suc.prems(1) by (simp add: members_def)
    qed
    then have "lowest_free s ?b" using lt j b by (simp add: lowest_free_def members_def)
    moreover have "ffub_from i (Suc n) s = Some (int ?b, s\<lparr>bs_data := (bs_data s)[i := bs_data s ! i OR bit8 j]\<rparr>)"
      using False fj Suc.prems(1) by simp
    moreover have "members (s\<lparr>bs_data := (bs_data s)[i := bs_data s ! i OR bit8 j]\<rparr>) = insert ?b (members s)"
      using members_update [OF lt, of "bs_data s ! i OR bit8 j" True "bs_size s"] b j
      by (cases s) (simp add: bit_or_bit8 members_size)
    ultimately show ?thesis
      by (intro disjI1 exI [of _ ?b]
          exI [of _ "s\<lparr>bs_data := (bs_data s)[i := bs_data s ! i OR bit8 j]\<rparr>"] conjI) simp_all
  qed
qed

text \<open>What a caller of \<open>bitset_ffub\<close> gets: the least free number, which is taken then, or -1.\<close>

lemma bitset_ffub_ok:
  assumes "bitset_ok s"
  shows "(\<exists>b s'. bitset_ffub s = Some (int b, s') \<and> lowest_free s b \<and> bitset_ok s' \<and>
            members s' = insert b (members s)) \<or>
         (bitset_ffub s = Some (-1, s) \<and> members s = {..< 8 * length (bs_data s)})"
  using ffub_from_ok [of 0 "unat (bs_size s)" s] assms
  by (auto simp: bitset_ok_def bitset_ffub_def)

text \<open>The array has as many bytes as the argument asks for bits: eight times the room.\<close>

lemma bitset_init_ok:
  "bitset_init True n = Some s \<Longrightarrow> bitset_ok s \<and> members s = {}"
  by (auto simp: bitset_init_def bitset_ok_def members_def Let_def)

end
