(* ===== verification/Spinlock.thy ===== *)
theory Spinlock
  imports OS6_Prelude
begin

text \<open>
  The spin lock, kernel/src/sync/spinlock.c, as the code that is compiled has it (the branches under
  \<open>#if 0\<close> are not). Threads run \<open>spinlock_lock\<close>, a critical section and \<open>spinlock_unlock\<close>
  interleaved step by step: a step is one access to the lock, as the exchange instruction is
  atomic. \<open>process_yield\<close> in the waiting loop only lets other threads take their steps.
\<close>

subsection \<open>Operations\<close>

record spinlock =
  lock_val :: u64
  waiters :: u64

definition xchg_64 :: "spinlock \<Rightarrow> u64 \<Rightarrow> u64 \<times> spinlock" where
  "xchg_64 l x = (lock_val l, l\<lparr>lock_val := x\<rparr>)"

definition spinlock_init :: "spinlock \<Rightarrow> spinlock" where
  "spinlock_init l = l\<lparr>lock_val := 0, waiters := 0\<rparr>"

definition spinlock_trylock :: "spinlock \<Rightarrow> u64 \<times> spinlock" where
  "spinlock_trylock l = xchg_64 l 1"

definition spinlock_unlock :: "spinlock \<Rightarrow> spinlock" where
  "spinlock_unlock l = l\<lparr>lock_val := 0\<rparr>"

text \<open>
  Where a thread is: not using the lock, before the exchange of \<open>spinlock_lock\<close>, in its waiting loop,
  or between the return of \<open>spinlock_lock\<close> and \<open>spinlock_unlock\<close>.
\<close>

datatype lock_pc = Outside | Trying | Waiting | Holding

text \<open>One iteration of the two loops of \<open>spinlock_lock\<close>.\<close>

definition spinlock_lock :: "lock_pc \<Rightarrow> spinlock \<Rightarrow> lock_pc \<times> spinlock" where
  "spinlock_lock pc l =
     (if pc = Waiting then (if lock_val l \<noteq> 0 then (Waiting, l) else (Trying, l))
      else (let (old, l') = xchg_64 l 1 in (if old = 0 then Holding else Waiting, l')))"

text \<open>\<open>spinlock_lock\<close> on a lock that is free.\<close>

definition acquire :: "spinlock \<Rightarrow> spinlock option" where
  "acquire l = (case spinlock_lock Trying l of (pc, l') \<Rightarrow> if pc = Holding then Some l' else None)"

subsection \<open>Interleaving\<close>

record lock_state =
  the_lock :: spinlock
  pcs :: "nat \<Rightarrow> lock_pc"

inductive lock_step :: "nat \<Rightarrow> lock_state \<Rightarrow> lock_state \<Rightarrow> bool" where
  call_lock: "pcs s p = Outside \<Longrightarrow> lock_step p s (s\<lparr>pcs := (pcs s)(p := Trying)\<rparr>)"
| run_lock: "pcs s p = Trying \<or> pcs s p = Waiting \<Longrightarrow> spinlock_lock (pcs s p) (the_lock s) = (pc, l) \<Longrightarrow>
    lock_step p s \<lparr>the_lock = l, pcs = (pcs s)(p := pc)\<rparr>"
| run_unlock: "pcs s p = Holding \<Longrightarrow>
    lock_step p s \<lparr>the_lock = spinlock_unlock (the_lock s), pcs = (pcs s)(p := Outside)\<rparr>"

inductive_cases lock_stepE: "lock_step p s s'"

definition lock_start :: "spinlock \<Rightarrow> lock_state" where
  "lock_start l = \<lparr>the_lock = spinlock_init l, pcs = (\<lambda>_. Outside)\<rparr>"

inductive lock_reachable :: "spinlock \<Rightarrow> lock_state \<Rightarrow> bool" for l where
  start: "lock_reachable l (lock_start l)"
| step: "lock_reachable l s \<Longrightarrow> lock_step p s s' \<Longrightarrow> lock_reachable l s'"

text \<open>The lock word tells whether a thread holds the lock, and at most one does.\<close>

definition lock_inv :: "lock_state \<Rightarrow> bool" where
  "lock_inv s \<longleftrightarrow>
     (if lock_val (the_lock s) = 0 then \<forall>p. pcs s p \<noteq> Holding
      else \<exists>p. \<forall>q. pcs s q = Holding \<longleftrightarrow> q = p)"

lemmas spinlock_defs = spinlock_lock_def xchg_64_def spinlock_unlock_def spinlock_init_def

lemma lock_inv_start: "lock_inv (lock_start l)"
  by (simp add: lock_inv_def lock_start_def spinlock_defs)

lemma lock_inv_cong:
  assumes "lock_inv s" and "\<And>q. pcs s' q = Holding \<longleftrightarrow> pcs s q = Holding"
    and "lock_val (the_lock s') = 0 \<longleftrightarrow> lock_val (the_lock s) = 0"
  shows "lock_inv s'"
  using assms by (simp add: lock_inv_def)

lemma lock_inv_step: "lock_step p s s' \<Longrightarrow> lock_inv s \<Longrightarrow> lock_inv s'"
proof (induction rule: lock_step.induct)
  case (call_lock s p)
  then show ?case by (intro lock_inv_cong [OF call_lock(2)]) auto
next
  case (run_lock s p pc l)
  consider "pcs s p \<noteq> Holding" "lock_val l = 0 \<longleftrightarrow> lock_val (the_lock s) = 0" "pc \<noteq> Holding"
    | "lock_val (the_lock s) = 0" "lock_val l = 1" "pc = Holding"
    using run_lock(1,2) by (auto simp: spinlock_defs split: if_splits)
  then show ?case
  proof cases
    case 1
    then show ?thesis by (intro lock_inv_cong [OF run_lock(3)]) auto
  next
    case 2
    then show ?thesis using run_lock(3) by (auto simp: lock_inv_def)
  qed
next
  case (run_unlock s p)
  then show ?case by (auto simp: lock_inv_def spinlock_defs split: if_splits)
qed

lemma lock_inv_reachable: "lock_reachable l s \<Longrightarrow> lock_inv s"
  by (induction rule: lock_reachable.induct) (auto intro: lock_inv_start lock_inv_step)

text \<open>A waiting thread that runs while the lock is free gets it in at most two of its own steps.\<close>

lemma lock_acquired:
  assumes "lock_val (the_lock s) = 0" and "pcs s p = Trying"
  shows "lock_step p s \<lparr>the_lock = (the_lock s)\<lparr>lock_val := 1\<rparr>, pcs = (pcs s)(p := Holding)\<rparr>"
  using assms by (intro lock_step.run_lock) (auto simp: spinlock_defs)

lemma lock_retried:
  assumes "lock_val (the_lock s) = 0" and "pcs s p = Waiting"
  shows "lock_step p s \<lparr>the_lock = the_lock s, pcs = (pcs s)(p := Trying)\<rparr>"
  using assms by (intro lock_step.run_lock) (auto simp: spinlock_defs)

text \<open>A thread that has called \<open>spinlock_lock\<close> on a fresh lock.\<close>

lemma lock_reachable_trying:
  "lock_reachable \<lparr>lock_val = 0, waiters = 0\<rparr>
     \<lparr>the_lock = \<lparr>lock_val = 0, waiters = 0\<rparr>, pcs = (\<lambda>_. Outside)(3 := Trying)\<rparr>"
proof -
  let ?l = "\<lparr>lock_val = 0, waiters = 0\<rparr> :: spinlock"
  have "lock_step 3 (lock_start ?l) \<lparr>the_lock = ?l, pcs = (\<lambda>_. Outside)(3 := Trying)\<rparr>"
    using call_lock [of "lock_start ?l" 3] by (simp add: lock_start_def spinlock_init_def)
  then show ?thesis by (rule lock_reachable.step [OF lock_reachable.start])
qed

text \<open>
  C7: under every interleaving of threads that use one spin lock, at most one thread is between
  \<open>spinlock_lock\<close> and \<open>spinlock_unlock\<close>, and while some thread is there the exchange of every other
  thread fails: its next step leaves it waiting.
\<close>

theorem spinlock_mutual_exclusion:
  assumes "lock_reachable l s" and "pcs s p = Holding"
  shows "(\<forall>q. pcs s q = Holding \<longrightarrow> q = p) \<and>
    (\<forall>q s'. (pcs s q = Trying \<or> pcs s q = Waiting) \<and> lock_step q s s' \<longrightarrow>
       pcs s' q = Waiting \<and> pcs s' p = Holding)"
proof -
  from lock_inv_reachable [OF assms(1)] assms(2)
  have one: "\<forall>q. pcs s q = Holding \<longrightarrow> q = p" and held: "lock_val (the_lock s) \<noteq> 0"
    by (auto simp: lock_inv_def split: if_splits)
  have "pcs s' q = Waiting \<and> pcs s' p = Holding"
    if "pcs s q = Trying \<or> pcs s q = Waiting" and "lock_step q s s'" for q s'
    using that(2)
  proof cases
    case (run_lock pc l)
    then have "pc = Waiting" using held that(1) by (auto simp: spinlock_defs split: if_splits)
    then show ?thesis using run_lock that(1) assms(2) by auto
  qed (use that(1) in auto)
  then show ?thesis using one by blast
qed

theorem spinlock_mutual_exclusion_witness:
  "pcs \<lparr>the_lock = \<lparr>lock_val = 1, waiters = 0\<rparr>, pcs = (\<lambda>_. Outside)(3 := Holding)\<rparr> 4 \<noteq> Holding"
proof -
  let ?l = "\<lparr>lock_val = 0, waiters = 0\<rparr> :: spinlock"
  have "lock_step 3 \<lparr>the_lock = ?l, pcs = (\<lambda>_. Outside)(3 := Trying)\<rparr>
      \<lparr>the_lock = \<lparr>lock_val = 1, waiters = 0\<rparr>, pcs = (\<lambda>_. Outside)(3 := Holding)\<rparr>"
    using lock_acquired [of "\<lparr>the_lock = ?l, pcs = (\<lambda>_. Outside)(3 := Trying)\<rparr>" 3] by simp
  note r = lock_reachable.step [OF lock_reachable_trying this]
  show ?thesis using spinlock_mutual_exclusion [OF r, of 3, THEN conjunct1, THEN spec, of 4] by auto
qed

text \<open>
  The lock is never lost: in every reachable state in which no thread holds it, a thread that is in
  \<open>spinlock_lock\<close> and runs two steps holds it.
\<close>

theorem spinlock_available:
  assumes "lock_reachable l s" and "\<And>q. pcs s q \<noteq> Holding" and "pcs s p = Trying \<or> pcs s p = Waiting"
  shows "\<exists>s1 s2. (s1 = s \<or> lock_step p s s1) \<and> lock_step p s1 s2 \<and> pcs s2 p = Holding"
proof -
  from lock_inv_reachable [OF assms(1)] assms(2) have free: "lock_val (the_lock s) = 0"
    by (auto simp: lock_inv_def split: if_splits)
  show ?thesis
  proof (cases "pcs s p = Trying")
    case True
    then show ?thesis using lock_acquired [OF free] by force
  next
    case False
    then have "lock_step p s \<lparr>the_lock = the_lock s, pcs = (pcs s)(p := Trying)\<rparr>" (is "lock_step p s ?s1")
      using assms(3) free by (intro lock_retried) auto
    moreover have "lock_step p ?s1 \<lparr>the_lock = (the_lock s)\<lparr>lock_val := 1\<rparr>, pcs = (pcs s)(p := Holding)\<rparr>"
      (is "lock_step p ?s1 ?s2")
      using lock_acquired [of ?s1 p] free by simp
    ultimately show ?thesis by (intro exI [of _ ?s1] exI [of _ ?s2] conjI disjI2) simp_all
  qed
qed

theorem spinlock_available_witness:
  "\<exists>s1 s2. (s1 = \<lparr>the_lock = \<lparr>lock_val = 0, waiters = 0\<rparr>, pcs = (\<lambda>_. Outside)(3 := Trying)\<rparr> \<or>
       lock_step 3 \<lparr>the_lock = \<lparr>lock_val = 0, waiters = 0\<rparr>, pcs = (\<lambda>_. Outside)(3 := Trying)\<rparr> s1) \<and>
     lock_step 3 s1 s2 \<and> pcs s2 3 = Holding"
  using spinlock_available [OF lock_reachable_trying, of 3] by simp

end
