(* ===== verification/Sched.thy ===== *)
theory Sched
  imports Ktree Bitset Spinlock
begin

text \<open>
  The state of kernel/src/process/process.c and its scheduler: the ready queue, the list of sleepers
  and the task switch.

  A process and its embedded \<open>sched_node\<close> have one address here: the process is in the map \<open>procs\<close>,
  the node in the map \<open>nodes\<close>, and its payload is the process. The locks are taken by one thread at
  a time: taking a lock that is held is \<open>None\<close> (the interleavings are the subject of \<open>Spinlock\<close>).
  A task switch ends where \<open>switch_to\<close> has loaded the stack pointer of the next thread; what follows
  belongs to that thread. \<open>get_tick_count\<close> is the field \<open>ticks\<close>, the FPU registers and the stack
  pointer of the processor are \<open>fpu\<close> and \<open>rsp\<close>.
\<close>

subsection \<open>State\<close>

text \<open>The arrays of a file table are allocated without being cleared: a cell not yet written is \<open>None\<close>.\<close>

record fd_table =
  fd_entries :: "ptr option list"
  fd_offsets :: "u64 option list"
  fd_modes :: "int option list"
  fd_length :: nat
  fd_capacity :: nat
  fd_refs :: nat

record image =
  image_size :: u64
  image_entry :: u64
  image_heap :: u64
  image_heap_actual :: u64
  image_stack :: ptr
  image_start :: u64
  image_lock :: spinlock

record process =
  pid :: int
  name :: ptr
  description :: ptr
  cmdline :: ptr
  argc :: int
  thread_rsp :: u64
  thread_rip :: u64
  fp_regs :: "u8 list"
  tree_entry :: ptr
  process_image :: image
  wd_node :: ptr
  wd_path :: ptr
  file_descriptors :: "fd_table option"
  status :: int
  started :: bool
  finished :: bool
  running :: bool
  suspended :: bool
  sleeping :: bool
  regs_rax :: u64
  sleep_ticks :: u64
  page_directory :: u64

text \<open>A process structure that \<open>memset\<close> has cleared.\<close>

definition zero_process :: process where
  "zero_process = \<lparr>pid = 0, name = 0, description = 0, cmdline = 0, argc = 0, thread_rsp = 0, thread_rip = 0,
     fp_regs = replicate 512 0, tree_entry = 0,
     process_image = \<lparr>image_size = 0, image_entry = 0, image_heap = 0, image_heap_actual = 0, image_stack = 0,
       image_start = 0, image_lock = \<lparr>lock_val = 0, waiters = 0\<rparr>\<rparr>,
     wd_node = 0, wd_path = 0, file_descriptors = None, status = 0, started = False, finished = False,
     running = False, suspended = False, sleeping = False, regs_rax = 0, sleep_ticks = 0, page_directory = 0\<rparr>"

text \<open>
  Of a file node, its reference count and which of its driver functions are set. The drivers are not
  part of this state: calling one is recorded.
\<close>

record fs_node =
  refcount :: int
  fs_open :: bool
  fs_close :: bool
  fs_truncate :: bool

datatype driver_call = Call_open ptr u32 | Call_close ptr | Call_truncate ptr

record kstate = theap +
  procs :: "ptr \<Rightarrow> process option"
  fs_nodes :: "ptr \<Rightarrow> fs_node option"
  fs_root :: ptr
  driver_calls :: "driver_call list"
  vfs_tmp_lock :: spinlock
  raw_blocks :: "ptr list"
  process_tree :: ptr
  process_list :: ptr
  process_ready_queue :: ptr
  process_sleeping_list :: ptr
  current_process :: ptr
  kernel_idle_task :: ptr
  pid_set :: bitset
  tree_lock :: spinlock
  process_queue_lock :: spinlock
  process_sleeping_lock :: spinlock
  ticks :: u64
  interrupts :: bool
  rsp :: u64
  fpu :: "u8 list"
  cur_dir :: u64

definition set_proc :: "kstate \<Rightarrow> ptr \<Rightarrow> process \<Rightarrow> kstate" where
  "set_proc s p x = s\<lparr>procs := (procs s)(p \<mapsto> x)\<rparr>"

subsection \<open>Ready processes\<close>

definition make_process_ready :: "kstate \<Rightarrow> ptr \<Rightarrow> kstate option" where
  "make_process_ready s proc = do {
     l \<leftarrow> acquire (process_queue_lock s);
     s \<leftarrow> list_append (s\<lparr>process_queue_lock := l\<rparr>) (process_ready_queue s) proc;
     Some (s\<lparr>process_queue_lock := spinlock_unlock (process_queue_lock s)\<rparr>)
   }"

definition process_available :: "kstate \<Rightarrow> bool option" where
  "process_available s = do { q \<leftarrow> lists s (process_ready_queue s); Some (lhead q \<noteq> 0) }"

definition next_ready_process :: "kstate \<Rightarrow> (ptr \<times> kstate) option" where
  "next_ready_process s = do {
     available \<leftarrow> process_available s;
     if \<not> available then Some (kernel_idle_task s, s)
     else do {
       l \<leftarrow> acquire (process_queue_lock s);
       (np, s) \<leftarrow> list_dequeue (s\<lparr>process_queue_lock := l\<rparr>) (process_ready_queue s);
       let s = s\<lparr>process_queue_lock := spinlock_unlock (process_queue_lock s)\<rparr>;
       n \<leftarrow> nodes s np;
       Some (payload n, s)
     }
   }"

subsection \<open>Task switch\<close>

text \<open>
  \<open>switch_to\<close> (switch_task.asm) pushes sixteen registers, stores the stack pointer in the old thread
  and loads that of the next one.
\<close>

definition switch_to :: "kstate \<Rightarrow> ptr \<Rightarrow> ptr \<Rightarrow> kstate option" where
  "switch_to s old nxt = do {
     p \<leftarrow> procs s old;
     let s = set_proc s old (p\<lparr>thread_rsp := rsp s - 16 * 8\<rparr>);
     q \<leftarrow> procs s nxt;
     Some (s\<lparr>rsp := thread_rsp q\<rparr>)
   }"

text \<open>
  When the next process has finished, \<open>switch_next\<close> calls itself; the inner call switches to another
  thread, and the outer one would go on only if the finished process were run again.
\<close>

partial_function (option) switch_next :: "u64 \<Rightarrow> kstate \<Rightarrow> kstate option" where
  "switch_next return_addr s = do {
     c \<leftarrow> procs s (current_process s);
     let old = current_process s;
     let s = set_proc s old (c\<lparr>thread_rip := return_addr\<rparr>);
     (n, s) \<leftarrow> next_ready_process s;
     let s = s\<lparr>current_process := n\<rparr>;
     p \<leftarrow> procs s n;
     let s = s\<lparr>fpu := fp_regs p\<rparr>;
     if finished p then switch_next return_addr s
     else do {
       let s = set_proc s n (p\<lparr>started := True, running := True\<rparr>);
       switch_to (s\<lparr>cur_dir := page_directory p\<rparr>) old n
     }
   }"

text \<open>
  The loop of \<open>wakeup_sleeping_processes\<close>. It reads \<open>next\<close> of the node after the node may have been
  moved to the ready queue.
\<close>

partial_function (option) wake_walk :: "u64 \<Rightarrow> ptr \<Rightarrow> kstate \<Rightarrow> kstate option" where
  "wake_walk current_ticks node s =
     (if node = 0 then Some s
      else do {
        n \<leftarrow> nodes s node;
        p \<leftarrow> procs s (payload n);
        s \<leftarrow> (if sleep_ticks p < current_ticks
             then do {
               let s = set_proc s (payload n) (p\<lparr>sleeping := False\<rparr>);
               s \<leftarrow> list_delete s (process_sleeping_list s) node;
               make_process_ready s (payload n)
             }
             else Some s);
        n \<leftarrow> nodes s node;
        wake_walk current_ticks (lnext n) s
      })"

definition wakeup_sleeping_processes :: "kstate \<Rightarrow> kstate option" where
  "wakeup_sleeping_processes s = do {
     let s = s\<lparr>interrupts := False\<rparr>;
     l \<leftarrow> acquire (process_sleeping_lock s);
     let s = s\<lparr>process_sleeping_lock := l\<rparr>;
     q \<leftarrow> lists s (process_sleeping_list s);
     s \<leftarrow> wake_walk (ticks s) (lhead q) s;
     Some (s\<lparr>process_sleeping_lock := spinlock_unlock (process_sleeping_lock s), interrupts := True\<rparr>)
   }"

text \<open>
  \<open>process_switch_task\<close>; a current process that is not running is left at once, and the rest of the
  function is not part of that switch.
\<close>

definition process_switch_task :: "u64 \<Rightarrow> bool \<Rightarrow> kstate \<Rightarrow> kstate option" where
  "process_switch_task return_addr reschedule s =
     (if current_process s = 0 then Some s
      else do {
        s \<leftarrow> wakeup_sleeping_processes s;
        c \<leftarrow> procs s (current_process s);
        if \<not> running c then switch_next return_addr s
        else do {
          let s = set_proc s (current_process s) (c\<lparr>running := False, fp_regs := fpu s\<rparr>);
          s \<leftarrow> (if reschedule \<and> current_process s \<noteq> kernel_idle_task s
               then make_process_ready s (current_process s) else Some s);
          switch_next return_addr s
        }
      })"

definition process_yield :: "u64 \<Rightarrow> bool \<Rightarrow> kstate \<Rightarrow> kstate option" where
  "process_yield return_addr reschedule s = process_switch_task return_addr reschedule s"

subsection \<open>Sleep\<close>

definition TIMER_FREQ :: u64 where
  "TIMER_FREQ = 50"

definition process_sleep :: "u64 \<Rightarrow> u64 \<Rightarrow> kstate \<Rightarrow> kstate option" where
  "process_sleep return_addr ms s =
     (let t = ms * TIMER_FREQ div 1000 in
      if t = 0 then process_switch_task return_addr True s
      else do {
        c \<leftarrow> procs s (current_process s);
        let s = set_proc s (current_process s) (c\<lparr>sleep_ticks := t + ticks s, sleeping := True\<rparr>);
        l \<leftarrow> acquire (process_sleeping_lock s);
        s \<leftarrow> list_append (s\<lparr>process_sleeping_lock := l\<rparr>) (process_sleeping_list s) (current_process s);
        let s = s\<lparr>process_sleeping_lock := spinlock_unlock (process_sleeping_lock s)\<rparr>;
        process_switch_task return_addr False s
      })"

end
