(* ===== verification/Sched_Props.thy ===== *)
theory Sched_Props
  imports Sched Klist_Props
begin

text \<open>
  The scheduler over its abstract state: the ready queue and the list of sleepers as two sequences of
  processes. The invariant, the task switch as a rotation of the ready queue, sleeping and waking,
  and the way a waking process can cut the list of sleepers.
\<close>

subsection \<open>What list operations leave alone\<close>

lemma more_kstate:
  assumes "lheap.more s' = lheap.more (s :: kstate)"
  shows "tnodes s' = tnodes s" "trees s' = trees s" "procs s' = procs s" "fs_nodes s' = fs_nodes s"
    "fs_root s' = fs_root s" "driver_calls s' = driver_calls s" "process_tree s' = process_tree s"
    "process_list s' = process_list s" "process_ready_queue s' = process_ready_queue s"
    "process_sleeping_list s' = process_sleeping_list s" "current_process s' = current_process s"
    "kernel_idle_task s' = kernel_idle_task s" "pid_set s' = pid_set s" "tree_lock s' = tree_lock s"
    "process_queue_lock s' = process_queue_lock s" "process_sleeping_lock s' = process_sleeping_lock s"
    "ticks s' = ticks s" "interrupts s' = interrupts s" "rsp s' = rsp s" "fpu s' = fpu s"
    "cur_dir s' = cur_dir s"
  using assms by (cases s; cases s'; simp)+

lemma touches_kstate:
  "touches s s' l S \<Longrightarrow> lheap.more s' = lheap.more s"
  by (simp add: touches_def)

text \<open>Fields the lists do not depend on.\<close>

definition same_lists :: "kstate \<Rightarrow> kstate \<Rightarrow> bool" where
  "same_lists s s' \<longleftrightarrow> nodes s' = nodes s \<and> lists s' = lists s"

lemma same_lists_rep [simp]: "same_lists s s' \<Longrightarrow> list_rep s' l xs \<longleftrightarrow> list_rep s l xs"
  by (simp add: same_lists_def list_rep_def)

lemma acquire_free: "lock_val l = 0 \<Longrightarrow> acquire l = Some (l\<lparr>lock_val := 1\<rparr>)"
  by (simp add: acquire_def spinlock_lock_def xchg_64_def Let_def)

lemma acquire_held: "lock_val l \<noteq> 0 \<Longrightarrow> acquire l = None"
  by (simp add: acquire_def spinlock_lock_def xchg_64_def Let_def)

lemma unlock_lock: "lock_val l = 0 \<Longrightarrow> spinlock_unlock (l\<lparr>lock_val := 1\<rparr>) = l"
  by (cases l) (simp add: spinlock_unlock_def)

text \<open>An operation on a list between taking a free lock and releasing it.\<close>

lemma queue_locked:
  fixes s s' :: kstate
  assumes t: "touches (s\<lparr>process_queue_lock := k\<lparr>lock_val := 1\<rparr>\<rparr>) s' l S"
    and k: "k = process_queue_lock s" "lock_val k = 0"
  shows "touches s (s'\<lparr>process_queue_lock := spinlock_unlock (process_queue_lock s')\<rparr>) l S"
proof -
  have more: "lheap.more s' = lheap.more (s\<lparr>process_queue_lock := k\<lparr>lock_val := 1\<rparr>\<rparr>)"
    using t by (simp add: touches_def)
  have "process_queue_lock s' = k\<lparr>lock_val := 1\<rparr>" using more_kstate [OF more] by simp
  then have "lheap.more (s'\<lparr>process_queue_lock := spinlock_unlock (process_queue_lock s')\<rparr>) = lheap.more s"
    using more k unlock_lock [of k] by (cases s; cases s'; simp)
  then show ?thesis using t by (simp add: touches_def)
qed

lemma sleeping_locked:
  fixes s s' :: kstate
  assumes t: "touches (s\<lparr>process_sleeping_lock := k\<lparr>lock_val := 1\<rparr>\<rparr>) s' l S"
    and k: "k = process_sleeping_lock s" "lock_val k = 0"
  shows "touches s (s'\<lparr>process_sleeping_lock := spinlock_unlock (process_sleeping_lock s')\<rparr>) l S"
proof -
  have more: "lheap.more s' = lheap.more (s\<lparr>process_sleeping_lock := k\<lparr>lock_val := 1\<rparr>\<rparr>)"
    using t by (simp add: touches_def)
  have "process_sleeping_lock s' = k\<lparr>lock_val := 1\<rparr>" using more_kstate [OF more] by simp
  then have "lheap.more (s'\<lparr>process_sleeping_lock := spinlock_unlock (process_sleeping_lock s')\<rparr>) = lheap.more s"
    using more k unlock_lock [of k] by (cases s; cases s'; simp)
  then show ?thesis using t by (simp add: touches_def)
qed

lemma list_rep_more [simp]:
  "list_rep (s\<lparr>process_queue_lock := k\<rparr>) l xs \<longleftrightarrow> list_rep s l xs"
  "list_rep (s\<lparr>process_sleeping_lock := k\<rparr>) l xs \<longleftrightarrow> list_rep s l xs"
  "list_rep (s\<lparr>interrupts := b\<rparr>) l xs \<longleftrightarrow> list_rep s l xs"
  "list_rep (s\<lparr>current_process := p\<rparr>) l xs \<longleftrightarrow> list_rep s l xs"
  "list_rep (s\<lparr>fpu := f\<rparr>) l xs \<longleftrightarrow> list_rep s l xs"
  "list_rep (s\<lparr>rsp := v\<rparr>) l xs \<longleftrightarrow> list_rep s l xs"
  "list_rep (s\<lparr>cur_dir := v\<rparr>) l xs \<longleftrightarrow> list_rep s l xs"
  "list_rep (set_proc s p x) l xs \<longleftrightarrow> list_rep s l xs"
  by (simp_all add: list_rep_def set_proc_def)

subsection \<open>The ready queue\<close>

text \<open>
  A process may be put at the end of the ready queue when its node points at no predecessor, or when
  the queue is not empty: \<open>list_append\<close> does not reset the back pointer in an empty list.
\<close>

lemma make_process_ready_spec:
  assumes rep: "list_rep s (process_ready_queue s) R" and free: "lock_val (process_queue_lock s) = 0"
    and p: "p \<notin> set R" "p \<noteq> 0" "nodes s p = Some n" and pv: "R = [] \<Longrightarrow> lprev n = 0"
  shows "\<exists>s'. make_process_ready s p = Some s' \<and> list_rep s' (process_ready_queue s) (R @ [p]) \<and>
           touches s s' (process_ready_queue s) (insert p (set R))"
proof -
  let ?k = "process_queue_lock s"
  have "\<exists>s'. list_append (s\<lparr>process_queue_lock := ?k\<lparr>lock_val := 1\<rparr>\<rparr>) (process_ready_queue s) p = Some s' \<and>
      list_rep s' (process_ready_queue s) (R @ [p]) \<and>
      touches (s\<lparr>process_queue_lock := ?k\<lparr>lock_val := 1\<rparr>\<rparr>) s' (process_ready_queue s) (insert p (set R))"
    using rep p pv by (intro list_append_rep) auto
  then show ?thesis
    using queue_locked [OF _ refl free] free by (auto simp: make_process_ready_def acquire_free)
qed

text \<open>Every process of the queue is the payload of its node.\<close>

definition queue_ok :: "kstate \<Rightarrow> ptr \<Rightarrow> ptr list \<Rightarrow> bool" where
  "queue_ok s q xs \<longleftrightarrow> list_rep s q xs \<and> (\<forall>x \<in> set xs. pay s x = x)"

lemma touches_pay: "touches s s' l S \<Longrightarrow> nodes s x \<noteq> None \<Longrightarrow> pay s' x = pay s x"
proof -
  assume "touches s s' l S" "nodes s x \<noteq> None"
  then have "map_option payload (nodes s' x) = map_option payload (nodes s x)" "nodes s x \<noteq> None"
    by (simp_all add: touches_def)
  then show ?thesis by (cases "nodes s x"; cases "nodes s' x") (simp_all add: pay_def)
qed

lemma next_ready_process_Nil:
  "list_rep s (process_ready_queue s) [] \<Longrightarrow> next_ready_process s = Some (kernel_idle_task s, s)"
  by (auto simp: next_ready_process_def process_available_def list_rep_def)

lemma next_ready_process_Cons:
  assumes rep: "list_rep s (process_ready_queue s) (x # R)" and free: "lock_val (process_queue_lock s) = 0"
    and pay: "pay s x = x"
  shows "\<exists>s'. next_ready_process s = Some (x, s') \<and> list_rep s' (process_ready_queue s) R \<and>
           touches s s' (process_ready_queue s) (set R)"
proof -
  let ?k = "process_queue_lock s"
  have "\<exists>s'. list_dequeue (s\<lparr>process_queue_lock := ?k\<lparr>lock_val := 1\<rparr>\<rparr>) (process_ready_queue s) = Some (x, s') \<and>
      list_rep s' (process_ready_queue s) R \<and>
      touches (s\<lparr>process_queue_lock := ?k\<lparr>lock_val := 1\<rparr>\<rparr>) s' (process_ready_queue s) (set R)"
    using rep by (intro list_dequeue_Cons) simp
  then obtain s' where s': "list_dequeue (s\<lparr>process_queue_lock := ?k\<lparr>lock_val := 1\<rparr>\<rparr>) (process_ready_queue s) = Some (x, s')"
    "list_rep s' (process_ready_queue s) R"
    "touches (s\<lparr>process_queue_lock := ?k\<lparr>lock_val := 1\<rparr>\<rparr>) s' (process_ready_queue s) (set R)"
    by blast
  obtain n where n: "nodes s x = Some n" "payload n = x"
    using list_rep_nodes [OF rep, of x] pay by (auto simp: pay_def)
  have "x \<notin> set R" using list_rep_distinct [OF rep] by simp
  then have "nodes s' x = Some n" using s'(3) n(1) by (simp add: touches_def)
  moreover have "process_available s = Some True"
    using rep by (auto simp: process_available_def list_rep_def)
  ultimately show ?thesis
    using s' n free queue_locked [OF s'(3) refl free]
    by (auto simp: next_ready_process_def acquire_free)
qed


definition ready_ok :: "kstate \<Rightarrow> ptr list \<Rightarrow> bool" where
  "ready_ok s R \<longleftrightarrow> queue_ok s (process_ready_queue s) R \<and> lock_val (process_queue_lock s) = 0"

definition loose_proc :: "kstate \<Rightarrow> ptr \<Rightarrow> bool" where
  "loose_proc s p \<longleftrightarrow> detached s p \<and> pay s p = p"

lemma touches_queue_ok:
  assumes "touches s s' l S" "queue_ok s q xs" "q \<noteq> l" "set xs \<inter> S = {}"
  shows "queue_ok s' q xs"
  using assms touches_rep [OF assms(1)] touches_pay [OF assms(1)] list_rep_nodes [of s q xs]
  by (auto simp: queue_ok_def)

lemma loose_proc_touches:
  "touches s s' l S \<Longrightarrow> loose_proc s p \<Longrightarrow> p \<notin> S \<Longrightarrow> loose_proc s' p"
  by (auto simp: loose_proc_def detached_def touches_def pay_def)

lemma make_process_ready_ok:
  assumes R: "ready_ok s R" and p: "p \<notin> set R" "p \<noteq> 0" "nodes s p = Some n" "payload n = p"
    and pv: "R = [] \<Longrightarrow> lprev n = 0"
  shows "\<exists>s'. make_process_ready s p = Some s' \<and> ready_ok s' (R @ [p]) \<and>
           touches s s' (process_ready_queue s) (insert p (set R))"
proof -
  from make_process_ready_spec [of s R p n] R p pv obtain s' where
    s': "make_process_ready s p = Some s'" "list_rep s' (process_ready_queue s) (R @ [p])"
    and t: "touches s s' (process_ready_queue s) (insert p (set R))"
    by (auto simp: ready_ok_def queue_ok_def)
  have "pay s' x = x" if "x \<in> set (R @ [p])" for x
    using that touches_pay [OF t, of x] R p list_rep_nodes [of s _ R x]
    by (auto simp: ready_ok_def queue_ok_def pay_def)
  then show ?thesis
    using s' t R more_kstate [OF touches_kstate [OF t]] by (auto simp: ready_ok_def queue_ok_def)
qed

lemma next_ready_process_ok:
  assumes R: "ready_ok s (x # R)"
  shows "\<exists>s'. next_ready_process s = Some (x, s') \<and> ready_ok s' R \<and> loose_proc s' x \<and>
           touches s s' (process_ready_queue s) (set R)"
proof -
  from R have rep: "list_rep s (process_ready_queue s) (x # R)" by (simp add: ready_ok_def queue_ok_def)
  from next_ready_process_Cons [OF rep] R obtain s' where
    s': "next_ready_process s = Some (x, s')" "list_rep s' (process_ready_queue s) R"
    and t: "touches s s' (process_ready_queue s) (set R)"
    by (auto simp: ready_ok_def queue_ok_def)
  have "pay s' y = y" if "y \<in> set R" for y
    using that touches_pay [OF t, of y] R list_rep_nodes [OF rep, of y]
    by (auto simp: ready_ok_def queue_ok_def)
  moreover have "loose_proc s x"
    using list_rep_hd_prev [OF rep] list_rep_nodes [OF rep, of x] R
    by (auto simp: loose_proc_def detached_def ready_ok_def queue_ok_def)
  then have "loose_proc s' x" using list_rep_distinct [OF rep] by (intro loose_proc_touches [OF t]) auto
  ultimately show ?thesis
    using s' t R more_kstate [OF touches_kstate [OF t]] by (auto simp: ready_ok_def queue_ok_def)
qed

interpretation rq: fifo_queue ready_ok loose_proc make_process_ready next_ready_process
proof unfold_locales
  fix s R p assume R: "ready_ok s R" and p: "loose_proc s p" "p \<notin> set R"
  then obtain n where n: "p \<noteq> 0" "nodes s p = Some n" "payload n = p" "lprev n = 0"
    by (auto simp: loose_proc_def detached_def pay_def)
  from make_process_ready_ok [OF R p(2) n(1-3)] n(4) obtain s' where
    s': "make_process_ready s p = Some s'" "ready_ok s' (R @ [p])"
      "touches s s' (process_ready_queue s) (insert p (set R))"
    by blast
  then show "\<exists>s'. make_process_ready s p = Some s' \<and> ready_ok s' (R @ [p]) \<and>
      (\<forall>y. loose_proc s y \<and> y \<notin> set (p # R) \<longrightarrow> loose_proc s' y)"
    using loose_proc_touches [OF s'(3)] by auto
next
  fix s p R assume "ready_ok s (p # R)"
  from next_ready_process_ok [OF this] obtain s' where
    s': "next_ready_process s = Some (p, s')" "ready_ok s' R" "loose_proc s' p"
      "touches s s' (process_ready_queue s) (set R)"
    by blast
  then show "\<exists>s'. next_ready_process s = Some (p, s') \<and> ready_ok s' R \<and> loose_proc s' p \<and>
      (\<forall>y. loose_proc s y \<and> y \<notin> set R \<longrightarrow> loose_proc s' y)"
    using loose_proc_touches [OF s'(4)] by auto
qed (auto simp: ready_ok_def queue_ok_def list_rep_def)

subsection \<open>The invariant of the scheduler\<close>

text \<open>
  \<open>R\<close> is the ready queue and \<open>S\<close> the list of sleepers; the current process is in neither, and the idle
  task never is.
\<close>

definition queues :: "kstate \<Rightarrow> ptr list \<Rightarrow> ptr list \<Rightarrow> bool" where
  "queues s R S \<longleftrightarrow>
     ready_ok s R \<and> queue_ok s (process_sleeping_list s) S \<and> lock_val (process_sleeping_lock s) = 0 \<and>
     process_ready_queue s \<noteq> process_sleeping_list s \<and> set R \<inter> set S = {} \<and>
     (\<forall>x \<in> insert (kernel_idle_task s) (set R \<union> set S). \<exists>p. procs s x = Some p \<and> \<not> finished p) \<and>
     kernel_idle_task s \<notin> set R \<union> set S \<and> kernel_idle_task s \<noteq> 0"

definition sched :: "kstate \<Rightarrow> ptr list \<Rightarrow> ptr list \<Rightarrow> bool" where
  "sched s R S \<longleftrightarrow> queues s R S \<and>
     current_process s \<notin> set R \<union> set S \<and> current_process s \<noteq> 0 \<and>
     (current_process s \<noteq> kernel_idle_task s \<longrightarrow> loose_proc s (current_process s))"

definition current_runs :: "kstate \<Rightarrow> bool" where
  "current_runs s \<longleftrightarrow> (\<exists>c. procs s (current_process s) = Some c \<and> running c)"

text \<open>No sleeper is due.\<close>

definition none_due :: "kstate \<Rightarrow> ptr list \<Rightarrow> bool" where
  "none_due s S \<longleftrightarrow> (\<forall>x \<in> set S. \<forall>p. procs s x = Some p \<longrightarrow> \<not> sleep_ticks p < ticks s)"


subsection \<open>The task switch\<close>

text \<open>What a switch changes of the other processes and of the rest of the state.\<close>

definition kept :: "kstate \<Rightarrow> kstate \<Rightarrow> bool" where
  "kept s s' \<longleftrightarrow>
     process_ready_queue s' = process_ready_queue s \<and> process_sleeping_list s' = process_sleeping_list s \<and>
     kernel_idle_task s' = kernel_idle_task s \<and> ticks s' = ticks s \<and>
     process_sleeping_lock s' = process_sleeping_lock s \<and>
     (\<forall>x. case procs s x of None \<Rightarrow> procs s' x = None
       | Some p \<Rightarrow> \<exists>p'. procs s' x = Some p' \<and> finished p' = finished p \<and> sleep_ticks p' = sleep_ticks p \<and>
           pid p' = pid p \<and> sleeping p' = sleeping p)"

lemma kept_same [simp]: "kept s s"
  by (auto simp: kept_def split: option.splits)

lemma kept_through:
  assumes "kept s s'" "kept s' s''"
  shows "kept s s''"
  unfolding kept_def
proof (intro conjI allI)
  fix x
  show "case procs s x of None \<Rightarrow> procs s'' x = None
       | Some p \<Rightarrow> \<exists>p'. procs s'' x = Some p' \<and> finished p' = finished p \<and> sleep_ticks p' = sleep_ticks p \<and>
           pid p' = pid p \<and> sleeping p' = sleeping p"
    using assms unfolding kept_def by (cases "procs s x"; cases "procs s' x") (auto dest!: spec [of _ x])
qed (use assms in \<open>simp_all add: kept_def\<close>)

lemma kept_touches: "touches s s' l S \<Longrightarrow> kept s s'"
  using more_kstate [OF touches_kstate] by (auto simp: kept_def split: option.splits)

lemma kept_proc: "kept s s' \<Longrightarrow> procs s x = Some p \<Longrightarrow>
    \<exists>p'. procs s' x = Some p' \<and> finished p' = finished p \<and> sleep_ticks p' = sleep_ticks p"
  unfolding kept_def by (auto dest!: spec [of _ x])

lemma kept_set_proc:
  "procs s x = Some p \<Longrightarrow> finished p' = finished p \<Longrightarrow> sleep_ticks p' = sleep_ticks p \<Longrightarrow> pid p' = pid p \<Longrightarrow>
     sleeping p' = sleeping p \<Longrightarrow> kept s (set_proc s x p')"
  by (auto simp: kept_def set_proc_def split: option.splits)

lemma set_proc_simps [simp]:
  "nodes (set_proc s x p) = nodes s" "lists (set_proc s x p) = lists s"
  "process_ready_queue (set_proc s x p) = process_ready_queue s"
  "process_sleeping_list (set_proc s x p) = process_sleeping_list s"
  "kernel_idle_task (set_proc s x p) = kernel_idle_task s"
  "current_process (set_proc s x p) = current_process s"
  "process_queue_lock (set_proc s x p) = process_queue_lock s"
  "process_sleeping_lock (set_proc s x p) = process_sleeping_lock s"
  "procs (set_proc s x p) = (procs s)(x \<mapsto> p)" "ticks (set_proc s x p) = ticks s"
  "rsp (set_proc s x p) = rsp s" "fpu (set_proc s x p) = fpu s"
  by (simp_all add: set_proc_def)

lemma lists_cong:
  assumes "nodes s' = nodes s" "lists s' = lists s"
  shows "queue_ok s' q xs = queue_ok s q xs" "loose_proc s' p = loose_proc s p" "list_rep s' q xs = list_rep s q xs"
  using assms by (simp_all add: queue_ok_def list_rep_def pay_def loose_proc_def detached_def)

lemma ready_ok_cong:
  assumes "nodes s' = nodes s" "lists s' = lists s" "process_ready_queue s' = process_ready_queue s"
    "process_queue_lock s' = process_queue_lock s"
  shows "ready_ok s' R = ready_ok s R"
  using assms lists_cong [OF assms(1,2)] by (simp add: ready_ok_def)

text \<open>The process the switch goes to.\<close>

definition next_of :: "kstate \<Rightarrow> ptr list \<Rightarrow> ptr" where
  "next_of s R = (if R = [] then kernel_idle_task s else hd R)"

lemma next_ready_process_next_of:
  assumes "ready_ok s R"
  shows "\<exists>s'. next_ready_process s = Some (next_of s R, s') \<and> ready_ok s' (tl R) \<and>
           (R \<noteq> [] \<longrightarrow> loose_proc s' (hd R)) \<and> touches s s' (process_ready_queue s) (set (tl R))"
proof (cases R)
  case Nil
  then show ?thesis
    using assms next_ready_process_Nil [of s]
    by (auto simp: next_of_def ready_ok_def queue_ok_def touches_def)
next
  case (Cons x xs)
  then show ?thesis using next_ready_process_ok [of s x xs] assms by (auto simp: next_of_def)
qed

lemma switch_next_ok:
  assumes R: "ready_ok s R" and c: "procs s (current_process s) = Some c"
    and p: "procs s (next_of s R) = Some p" "\<not> finished p"
  obtains s' s1 where "switch_next ra s = Some s'" "current_process s' = next_of s R"
    "nodes s' = nodes s1" "lists s' = lists s1" "ready_ok s' (tl R)" "R \<noteq> [] \<Longrightarrow> loose_proc s' (hd R)"
    "touches (set_proc s (current_process s) (c\<lparr>thread_rip := ra\<rparr>)) s1 (process_ready_queue s) (set (tl R))"
    "kept s s'" "current_runs s'" "interrupts s' = interrupts s"
proof -
  let ?cur = "current_process s" and ?n = "next_of s R"
  let ?s0 = "set_proc s ?cur (c\<lparr>thread_rip := ra\<rparr>)"
  have R0: "ready_ok ?s0 R" and n0: "next_of ?s0 R = ?n"
    using R by (simp_all add: ready_ok_cong [of ?s0 s] next_of_def)
  from next_ready_process_next_of [OF R0] obtain s1 where
    s1: "next_ready_process ?s0 = Some (?n, s1)" "ready_ok s1 (tl R)" "R \<noteq> [] \<longrightarrow> loose_proc s1 (hd R)"
    and t: "touches ?s0 s1 (process_ready_queue ?s0) (set (tl R))"
    unfolding n0 by blast
  note m = more_kstate [OF touches_kstate [OF t]]
  have k0: "kept s ?s0" by (rule kept_set_proc [OF c]) simp_all
  have k1: "kept ?s0 s1" by (rule kept_touches [OF t])
  obtain p1 where p1: "procs s1 ?n = Some p1" "\<not> finished p1"
    using p m(3) c that by (cases "?n = ?cur") auto
  let ?s2 = "set_proc (s1\<lparr>current_process := ?n, fpu := fp_regs p1\<rparr>) ?n (p1\<lparr>started := True, running := True\<rparr>)"
  let ?s3 = "?s2\<lparr>cur_dir := page_directory p1\<rparr>"
  have o: "procs s1 ?cur \<noteq> None" using m(3) by simp
  then obtain q where q: "procs ?s3 ?cur = Some q" by (cases "?cur = ?n") auto
  let ?s4 = "set_proc ?s3 ?cur (q\<lparr>thread_rsp := rsp ?s3 - 16 * 8\<rparr>)"
  obtain r where r: "procs ?s4 ?n = Some r" by (cases "?cur = ?n") auto
  let ?s5 = "?s4\<lparr>rsp := thread_rsp r\<rparr>"
  have "switch_to ?s3 ?cur ?n = Some ?s5"
    using q r by (simp add: switch_to_def)
  then have sw: "switch_next ra s = Some ?s5"
    using c s1(1) p1 by (subst switch_next.simps) simp
  have "kept s1 ?s2"
    unfolding kept_def using p1 by (auto split: option.splits)
  moreover have "kept ?s2 ?s3" by (auto simp: kept_def split: option.splits)
  moreover have "kept ?s3 ?s4" by (rule kept_set_proc [OF q]) simp_all
  moreover have "kept ?s4 ?s5" by (auto simp: kept_def split: option.splits)
  ultimately have k: "kept s ?s5" using k0 k1 kept_through by blast
  have run: "current_runs ?s5"
    using q by (auto simp: current_runs_def)
  show thesis
  proof (rule that [OF sw])
    show "ready_ok ?s5 (tl R)" using s1(2) ready_ok_cong [of ?s5 s1] by simp
    show "R \<noteq> [] \<Longrightarrow> loose_proc ?s5 (hd R)" using s1(3) lists_cong(2) [of ?s5 s1] by simp
    show "interrupts ?s5 = interrupts s" using m(18) by (simp add: set_proc_def)
  qed (use t k run in simp_all)
qed


subsection \<open>Waking\<close>

lemma wake_walk_0 [simp]: "wake_walk t 0 s = Some s"
  by (simp add: wake_walk.simps)

lemma wake_walk_skip:
  "chain (nodes s) node q (xs @ ys) lst 0 \<Longrightarrow>
     (\<And>x. x \<in> set xs \<Longrightarrow> pay s x = x \<and> (\<exists>p. procs s x = Some p \<and> \<not> sleep_ticks p < t)) \<Longrightarrow>
     wake_walk t node s = wake_walk t (if ys = [] then 0 else hd ys) s"
proof (induction xs arbitrary: node q)
  case Nil
  then show ?case by (cases ys) auto
next
  case (Cons x xs)
  from Cons.prems(1) obtain n where n: "node = x" "x \<noteq> 0" "nodes s x = Some n"
    "chain (nodes s) (lnext n) x (xs @ ys) lst 0"
    by auto
  from Cons.prems(2) [of x] n obtain p where p: "payload n = x" "procs s x = Some p" "\<not> sleep_ticks p < t"
    by (auto simp: pay_def)
  have "wake_walk t node s = wake_walk t (lnext n) s"
    using n p by (subst wake_walk.simps) simp
  then show ?case using Cons.IH [OF n(4)] Cons.prems(2) by simp
qed

lemma wakeup_none_due:
  assumes S: "queue_ok s (process_sleeping_list s) S" and free: "lock_val (process_sleeping_lock s) = 0"
    and p: "\<And>x. x \<in> set S \<Longrightarrow> \<exists>p. procs s x = Some p \<and> \<not> sleep_ticks p < ticks s"
  shows "wakeup_sleeping_processes s = Some (s\<lparr>interrupts := True\<rparr>)"
proof -
  let ?k = "process_sleeping_lock s"
  let ?s = "s\<lparr>interrupts := False, process_sleeping_lock := ?k\<lparr>lock_val := 1\<rparr>\<rparr>"
  from S obtain r where r: "lists s (process_sleeping_list s) = Some r"
    "chain (nodes s) (lhead r) 0 (S @ []) (ltail r) 0" and pay: "\<And>x. x \<in> set S \<Longrightarrow> pay s x = x"
    by (auto simp: queue_ok_def list_rep_def)
  have "wake_walk (ticks s) (lhead r) ?s = Some ?s"
    using wake_walk_skip [of ?s "lhead r" 0 S "[]" "ltail r" "ticks s"] r p pay by (simp add: pay_def)
  then show ?thesis
    using r free unlock_lock [of ?k] by (simp add: wakeup_sleeping_processes_def acquire_free)
qed

subsection \<open>Switching keeps the invariant\<close>

lemma queues_alive: "queues s R S \<Longrightarrow> x \<in> set R \<union> set S \<Longrightarrow> \<exists>p. procs s x = Some p \<and> \<not> finished p"
  by (simp add: queues_def)

lemma queues_idle: "queues s R S \<Longrightarrow> \<exists>p. procs s (kernel_idle_task s) = Some p \<and> \<not> finished p"
  by (simp add: queues_def)

lemma queues_nonzero: "queues s R S \<Longrightarrow> x \<in> set R \<union> set S \<Longrightarrow> x \<noteq> 0"
  using list_rep_nodes [of s _ R x] list_rep_nodes [of s _ S x]
  by (auto simp: queues_def ready_ok_def queue_ok_def)

lemma queues_cong:
  assumes "nodes s' = nodes s" "lists s' = lists s" "process_queue_lock s' = process_queue_lock s"
    and "kept s s'" and "queues s R S"
  shows "queues s' R S"
proof -
  have k: "process_ready_queue s' = process_ready_queue s" "process_sleeping_list s' = process_sleeping_list s"
    "kernel_idle_task s' = kernel_idle_task s" "process_sleeping_lock s' = process_sleeping_lock s"
    using assms(4) by (simp_all add: kept_def)
  have "\<exists>p. procs s' x = Some p \<and> \<not> finished p"
    if "x \<in> insert (kernel_idle_task s) (set R \<union> set S)" for x
    using that assms(5) kept_proc [OF assms(4), of x] unfolding queues_def by metis
  then show ?thesis
    using assms(5) k ready_ok_cong [OF assms(1,2) k(1) assms(3)] lists_cong [OF assms(1,2)]
    by (simp add: queues_def)
qed

lemma queues_interrupts: "queues s R S \<Longrightarrow> queues (s\<lparr>interrupts := b\<rparr>) R S"
  by (rule queues_cong [of _ s]) (auto simp: kept_def split: option.splits)

text \<open>The current process is put at the end of the ready queue.\<close>

lemma make_process_ready_queues:
  assumes q: "queues s R S" and p: "p \<notin> set R \<union> set S" "p \<noteq> kernel_idle_task s" "loose_proc s p"
    and alive: "procs s p = Some c" "\<not> finished c"
  shows "\<exists>s'. make_process_ready s p = Some s' \<and> queues s' (R @ [p]) S \<and> kept s s' \<and>
           lheap.more s' = lheap.more s"
proof -
  from p(3) obtain n where n: "p \<noteq> 0" "nodes s p = Some n" "payload n = p" "lprev n = 0"
    by (auto simp: loose_proc_def detached_def pay_def)
  from make_process_ready_ok [of s R p n] q p(1) n obtain s' where
    s': "make_process_ready s p = Some s'" "ready_ok s' (R @ [p])"
    and t: "touches s s' (process_ready_queue s) (insert p (set R))"
    by (auto simp: queues_def)
  note m = more_kstate [OF touches_kstate [OF t]]
  have "queue_ok s' (process_sleeping_list s) S"
    using q p(1) by (intro touches_queue_ok [OF t]) (auto simp: queues_def)
  then have "queues s' (R @ [p]) S"
    using q p alive s'(2) unfolding queues_def by (simp add: m)
  then show ?thesis using s' kept_touches [OF t] touches_kstate [OF t] by blast
qed

text \<open>\<open>switch_next\<close> takes the first of the ready queue, or the idle task.\<close>

lemma switch_next_sched:
  assumes q: "queues s R S" and c: "procs s (current_process s) = Some c"
  shows "\<exists>s'. switch_next ra s = Some s' \<and> sched s' (tl R) S \<and> current_process s' = next_of s R \<and>
           current_runs s' \<and> kept s s'"
proof -
  have "\<exists>p. procs s (next_of s R) = Some p \<and> \<not> finished p"
    using queues_idle [OF q] queues_alive [OF q] by (auto simp: next_of_def)
  then obtain p where p: "procs s (next_of s R) = Some p" "\<not> finished p" by blast
  have R: "ready_ok s R" using q by (simp add: queues_def)
  let ?s0 = "set_proc s (current_process s) (c\<lparr>thread_rip := ra\<rparr>)"
  from switch_next_ok [OF R c p, of ra] obtain s3 s4 where
    s3: "switch_next ra s = Some s3" "current_process s3 = next_of s R" "nodes s3 = nodes s4" "lists s3 = lists s4"
      "ready_ok s3 (tl R)" "R \<noteq> [] \<Longrightarrow> loose_proc s3 (hd R)" "kept s s3" "current_runs s3"
    and t4: "touches ?s0 s4 (process_ready_queue s) (set (tl R))"
    by metis
  have sub: "set (tl R) \<subseteq> set R" by (cases R) auto
  have q0: "queue_ok ?s0 (process_sleeping_list s) S"
    using q lists_cong [of ?s0 s] by (simp add: queues_def)
  have "queue_ok s4 (process_sleeping_list s) S"
    using q sub by (intro touches_queue_ok [OF t4 q0]) (auto simp: queues_def)
  then have S3: "queue_ok s3 (process_sleeping_list s) S" using lists_cong [OF s3(3,4)] by simp
  have k: "process_ready_queue s3 = process_ready_queue s" "process_sleeping_list s3 = process_sleeping_list s"
    "kernel_idle_task s3 = kernel_idle_task s" "process_sleeping_lock s3 = process_sleeping_lock s"
    using s3(7) by (simp_all add: kept_def)
  have alive: "\<exists>p. procs s3 x = Some p \<and> \<not> finished p"
    if "x \<in> insert (kernel_idle_task s) (set (tl R) \<union> set S)" for x
    using that sub q kept_proc [OF s3(7), of x] unfolding queues_def by (metis UnCI UnE insertCI insertE subsetD)
  have "queues s3 (tl R) S"
    using q sub s3(5) S3 alive unfolding queues_def k by auto
  moreover have "distinct R" using R rq.rep_distinct by blast
  then have "next_of s R \<notin> set (tl R) \<union> set S"
    using q by (cases R) (auto simp: next_of_def queues_def)
  moreover have "next_of s R \<noteq> 0"
    using q queues_nonzero [OF q, of "hd R"] by (auto simp: next_of_def queues_def)
  moreover have "next_of s R \<noteq> kernel_idle_task s3 \<longrightarrow> loose_proc s3 (next_of s R)"
    using s3(6) k by (auto simp: next_of_def)
  ultimately show ?thesis using s3 by (auto simp: sched_def)
qed

subsection \<open>Yielding\<close>

lemma none_due_procs:
  assumes "queues s R S" "none_due s S" "x \<in> set S"
  shows "\<exists>p. procs s x = Some p \<and> \<not> sleep_ticks p < ticks s"
  using queues_alive [OF assms(1), of x] assms(2,3) by (auto simp: none_due_def)

lemma wakeup_queues:
  "queues s R S \<Longrightarrow> none_due s S \<Longrightarrow> wakeup_sleeping_processes s = Some (s\<lparr>interrupts := True\<rparr>)"
  by (rule wakeup_none_due) (auto simp: none_due_procs queues_def)

text \<open>A switch with rescheduling, of a process other than the idle task, rotates the ready queue.\<close>

lemma yield_rotates:
  assumes inv: "sched s R S" and due: "none_due s S" and cur: "current_process s \<noteq> kernel_idle_task s"
    and c: "procs s (current_process s) = Some c" "running c" "\<not> finished c"
  shows "\<exists>s'. process_switch_task ra True s = Some s' \<and>
           sched s' (tl (R @ [current_process s])) S \<and> current_process s' = hd (R @ [current_process s]) \<and>
           current_runs s' \<and> kept s s'"
proof -
  let ?c = "current_process s"
  let ?s0 = "s\<lparr>interrupts := True\<rparr>"
  let ?s1 = "set_proc ?s0 ?c (c\<lparr>running := False, fp_regs := fpu s\<rparr>)"
  have q: "queues s R S" and cR: "?c \<notin> set R \<union> set S" "?c \<noteq> 0" "loose_proc s ?c"
    using inv cur by (auto simp: sched_def)
  have k0: "kept s ?s0" by (auto simp: kept_def split: option.splits)
  have k01: "kept ?s0 ?s1" by (rule kept_set_proc) (use c in simp_all)
  note k1 = kept_through [OF k0 k01]
  have q1: "queues ?s1 R S" by (rule queues_cong [OF _ _ _ k1 q]) simp_all
  have "loose_proc ?s1 ?c" using cR(3) lists_cong [of ?s1 s] by simp
  then have "\<exists>s'. make_process_ready ?s1 ?c = Some s' \<and> queues s' (R @ [?c]) S \<and> kept ?s1 s' \<and>
      lheap.more s' = lheap.more ?s1"
    using cR(1) cur c by (intro make_process_ready_queues [OF q1, where c = "c\<lparr>running := False, fp_regs := fpu s\<rparr>"]) simp_all
  then obtain s2 where s2: "make_process_ready ?s1 ?c = Some s2" "queues s2 (R @ [?c]) S" "kept ?s1 s2"
    and more: "lheap.more s2 = lheap.more ?s1"
    by blast
  note m = more_kstate [OF more]
  obtain c2 where c2: "procs s2 (current_process s2) = Some c2" using m by simp
  from switch_next_sched [OF s2(2) c2, of ra] obtain s3 where
    s3: "switch_next ra s2 = Some s3" "sched s3 (tl (R @ [?c])) S" "current_process s3 = hd (R @ [?c])"
      "current_runs s3" "kept s2 s3"
    by (auto simp: next_of_def)
  have "process_switch_task ra True s = Some s3"
    using wakeup_queues [OF q due] c s2(1) s3(1) cur cR by (simp add: process_switch_task_def)
  then show ?thesis using s3 kept_through [OF kept_through [OF k1 s2(3)] s3(5)] by blast
qed


text \<open>\<open>k\<close> timer ticks that each find the current process at its end of time.\<close>

fun yields :: "nat \<Rightarrow> u64 \<Rightarrow> kstate \<Rightarrow> kstate option" where
  "yields 0 ra s = Some s"
| "yields (Suc k) ra s = do { s \<leftarrow> process_switch_task ra True s; yields k ra s }"

lemma kept_due: "kept s s' \<Longrightarrow> queues s R S \<Longrightarrow> none_due s S \<Longrightarrow> none_due s' S"
  unfolding none_due_def
proof (intro ballI allI impI)
  fix x p' assume k: "kept s s'" and q: "queues s R S" and x: "x \<in> set S" and p': "procs s' x = Some p'"
    and due: "\<forall>x \<in> set S. \<forall>p. procs s x = Some p \<longrightarrow> \<not> sleep_ticks p < ticks s"
  from queues_alive [OF q, of x] x obtain p where "procs s x = Some p" by blast
  with kept_proc [OF k this] due x p' k show "\<not> sleep_ticks p' < ticks s'" by (auto simp: kept_def)
qed

lemma yields_rotate:
  "sched s R S \<Longrightarrow> none_due s S \<Longrightarrow> current_process s \<noteq> kernel_idle_task s \<Longrightarrow>
     procs s (current_process s) = Some c \<Longrightarrow> running c \<Longrightarrow> \<not> finished c \<Longrightarrow>
     \<exists>s'. yields k ra s = Some s' \<and> sched s' (tl (rotate k (current_process s # R))) S \<and>
       current_process s' = hd (rotate k (current_process s # R)) \<and> current_runs s' \<and> kept s s'"
proof (induction k arbitrary: s R c)
  case 0
  then show ?case by (auto simp: current_runs_def)
next
  case (Suc k)
  let ?c = "current_process s"
  from yield_rotates [OF Suc.prems, of ra] obtain s1 where
    s1: "process_switch_task ra True s = Some s1" "sched s1 (tl (R @ [?c])) S"
      "current_process s1 = hd (R @ [?c])" "current_runs s1" "kept s s1"
    by blast
  have q: "queues s R S" using Suc.prems(1) by (simp add: sched_def)
  have eq: "current_process s1 # tl (R @ [?c]) = rotate1 (?c # R)"
    using s1(3) by (cases R) simp_all
  obtain d where d: "procs s1 (current_process s1) = Some d" "running d"
    using s1(4) by (auto simp: current_runs_def)
  have "\<exists>p. procs s (current_process s1) = Some p \<and> \<not> finished p"
    using Suc.prems(4,6) queues_alive [OF q] s1(3) by (cases R) auto
  then have "\<not> finished d" using kept_proc [OF s1(5)] d by fastforce
  moreover have "current_process s1 \<noteq> kernel_idle_task s1"
    using q Suc.prems(3) s1(3,5) by (cases R) (auto simp: queues_def kept_def)
  ultimately obtain s2 where
    s2: "yields k ra s1 = Some s2" "sched s2 (tl (rotate k (rotate1 (?c # R)))) S"
      "current_process s2 = hd (rotate k (rotate1 (?c # R)))" "current_runs s2" "kept s1 s2"
    using Suc.IH [OF s1(2) kept_due [OF s1(5) q Suc.prems(2)] _ d] unfolding eq by blast
  have "rotate k (rotate1 (?c # R)) = rotate (Suc k) (?c # R)"
    by (metis comp_apply funpow_swap1 rotate_def funpow.simps(2))
  then show ?case using s1(1) s2 kept_through [OF s1(5) s2(5)] by auto
qed

subsection \<open>Sleeping\<close>

lemma touches_sleeping_queues:
  assumes q: "queues s R S" and p: "p \<notin> set R \<union> set S" "p \<noteq> kernel_idle_task s" "loose_proc s p"
    and alive: "procs s p = Some c" "\<not> finished c"
  shows "\<exists>s'. list_append (s\<lparr>process_sleeping_lock := (process_sleeping_lock s)\<lparr>lock_val := 1\<rparr>\<rparr>)
             (process_sleeping_list s) p = Some s' \<and>
           queues (s'\<lparr>process_sleeping_lock := spinlock_unlock (process_sleeping_lock s')\<rparr>) R (S @ [p]) \<and>
           touches s (s'\<lparr>process_sleeping_lock := spinlock_unlock (process_sleeping_lock s')\<rparr>)
             (process_sleeping_list s) (insert p (set S))"
proof -
  let ?k = "process_sleeping_lock s"
  from p(3) obtain n where n: "p \<noteq> 0" "nodes s p = Some n" "payload n = p" "lprev n = 0"
    by (auto simp: loose_proc_def detached_def pay_def)
  have "\<exists>s'. list_append (s\<lparr>process_sleeping_lock := ?k\<lparr>lock_val := 1\<rparr>\<rparr>) (process_sleeping_list s) p = Some s' \<and>
      list_rep s' (process_sleeping_list s) (S @ [p]) \<and>
      touches (s\<lparr>process_sleeping_lock := ?k\<lparr>lock_val := 1\<rparr>\<rparr>) s' (process_sleeping_list s) (insert p (set S))"
    using q p(1) n by (intro list_append_rep) (auto simp: queues_def queue_ok_def)
  then obtain s' where s': "list_append (s\<lparr>process_sleeping_lock := ?k\<lparr>lock_val := 1\<rparr>\<rparr>) (process_sleeping_list s) p = Some s'"
    "list_rep s' (process_sleeping_list s) (S @ [p])"
    "touches (s\<lparr>process_sleeping_lock := ?k\<lparr>lock_val := 1\<rparr>\<rparr>) s' (process_sleeping_list s) (insert p (set S))"
    by blast
  let ?s = "s'\<lparr>process_sleeping_lock := spinlock_unlock (process_sleeping_lock s')\<rparr>"
  have t: "touches s ?s (process_sleeping_list s) (insert p (set S))"
    using q by (intro sleeping_locked [OF s'(3) refl]) (simp add: queues_def)
  note m = more_kstate [OF touches_kstate [OF t]]
  have "pay ?s x = x" if "x \<in> set (S @ [p])" for x
    using that touches_pay [OF t, of x] q n list_rep_nodes [of s _ S x]
    by (auto simp: queues_def queue_ok_def pay_def)
  then have "queue_ok ?s (process_sleeping_list s) (S @ [p])"
    using s'(2) by (simp add: queue_ok_def)
  moreover have "queue_ok ?s (process_ready_queue s) R"
    using q p(1) by (intro touches_queue_ok [OF t]) (auto simp: queues_def ready_ok_def)
  ultimately have "queues ?s R (S @ [p])"
    using q p alive unfolding queues_def ready_ok_def m by auto
  then show ?thesis using s'(1) t by blast
qed

lemma process_sleep_ok:
  assumes inv: "sched s R S" and due: "none_due s S" and cur: "current_process s \<noteq> kernel_idle_task s"
    and c: "procs s (current_process s) = Some c" "running c" "\<not> finished c"
    and t: "ms * TIMER_FREQ div 1000 \<noteq> 0" "\<not> ms * TIMER_FREQ div 1000 + ticks s < ticks s"
  shows "\<exists>s'. process_sleep ra ms s = Some s' \<and> sched s' (tl R) (S @ [current_process s]) \<and>
           current_process s' = next_of s R \<and> current_runs s' \<and>
           (\<exists>c'. procs s' (current_process s) = Some c' \<and> sleeping c' \<and>
              sleep_ticks c' = ms * TIMER_FREQ div 1000 + ticks s)"
proof -
  let ?c = "current_process s" and ?t = "ms * TIMER_FREQ div 1000"
  let ?d = "c\<lparr>sleep_ticks := ?t + ticks s, sleeping := True\<rparr>"
  let ?s1 = "set_proc s ?c ?d"
  have q: "queues s R S" and cR: "?c \<notin> set R \<union> set S" "?c \<noteq> 0" "loose_proc s ?c"
    using inv cur by (auto simp: sched_def)
  have q1: "queues ?s1 R S"
    using q c cR lists_cong [of ?s1 s] ready_ok_cong [of ?s1 s] by (auto simp: queues_def)
  have "loose_proc ?s1 ?c" using cR(3) lists_cong [of ?s1 s] by simp
  then obtain s2 where
    s2: "list_append (?s1\<lparr>process_sleeping_lock := (process_sleeping_lock s)\<lparr>lock_val := 1\<rparr>\<rparr>)
          (process_sleeping_list s) ?c = Some s2"
      "queues (s2\<lparr>process_sleeping_lock := spinlock_unlock (process_sleeping_lock s2)\<rparr>) R (S @ [?c])"
    and t2: "touches ?s1 (s2\<lparr>process_sleeping_lock := spinlock_unlock (process_sleeping_lock s2)\<rparr>)
          (process_sleeping_list s) (insert ?c (set S))"
    using touches_sleeping_queues [OF q1, of ?c ?d] cR(1) cur c by auto
  let ?s3 = "s2\<lparr>process_sleeping_lock := spinlock_unlock (process_sleeping_lock s2)\<rparr>"
  note m = more_kstate [OF touches_kstate [OF t2]]
  have p3: "procs ?s3 = (procs s)(?c \<mapsto> ?d)" "current_process ?s3 = ?c" "kernel_idle_task ?s3 = kernel_idle_task s"
    "ticks ?s3 = ticks s" "fpu ?s3 = fpu s"
    unfolding m by simp_all
  have due3: "none_due ?s3 (S @ [?c])"
    using due t(2) p3 cR by (auto simp: none_due_def)
  let ?s4 = "set_proc (?s3\<lparr>interrupts := True\<rparr>) ?c (?d\<lparr>running := False, fp_regs := fpu s\<rparr>)"
  have "kept ?s3 (?s3\<lparr>interrupts := True\<rparr>)" by (auto simp: kept_def split: option.splits)
  moreover have "kept (?s3\<lparr>interrupts := True\<rparr>) ?s4"
    by (rule kept_set_proc [where p = ?d]) (use p3 in simp_all)
  ultimately have k4: "kept ?s3 ?s4" using kept_through by blast
  have q4: "queues ?s4 R (S @ [?c])" by (rule queues_cong [OF _ _ _ k4 s2(2)]) simp_all
  have c4: "procs ?s4 (current_process ?s4) = Some (?d\<lparr>running := False, fp_regs := fpu s\<rparr>)"
    using p3 by simp
  from switch_next_sched [OF q4 c4, of ra] obtain s5 where
    s5: "switch_next ra ?s4 = Some s5" "sched s5 (tl R) (S @ [?c])" "current_process s5 = next_of ?s4 R"
      "current_runs s5" "kept ?s4 s5"
    by blast
  have n: "next_of ?s4 R = next_of s R" using p3 by (simp add: next_of_def)
  have "process_switch_task ra False ?s3 = Some s5"
    using wakeup_queues [OF s2(2) due3] c s5(1) p3 cR cur by (simp add: process_switch_task_def)
  moreover have "acquire (process_sleeping_lock s) = Some ((process_sleeping_lock s)\<lparr>lock_val := 1\<rparr>)"
    using q by (intro acquire_free) (simp add: queues_def)
  ultimately have eq: "process_sleep ra ms s = Some s5"
    using t(1) c(1) s2(1) by (simp add: process_sleep_def Let_def)
  have "\<exists>c'. procs s5 ?c = Some c' \<and> sleep_ticks c' = ?t + ticks s \<and> sleeping c'"
    using s5(5) unfolding kept_def by (auto dest!: spec [of _ ?c])
  then show ?thesis using eq s5 n by auto
qed


subsection \<open>A sleeper whose time has come\<close>

text \<open>The walk up to the first sleeper that is due, and the removal of that sleeper.\<close>

lemma wake_walk_due:
  assumes q: "queue_ok s (process_sleeping_list s) (S1 @ x # S2)" and r: "lists s (process_sleeping_list s) = Some r"
    and early: "\<And>y. y \<in> set S1 \<Longrightarrow> \<exists>p. procs s y = Some p \<and> \<not> sleep_ticks p < t"
    and p: "procs s x = Some p" "sleep_ticks p < t"
  shows "\<exists>s2. list_delete (set_proc s x (p\<lparr>sleeping := False\<rparr>)) (process_sleeping_list s) x = Some s2 \<and>
           list_rep s2 (process_sleeping_list s) (S1 @ S2) \<and>
           touches (set_proc s x (p\<lparr>sleeping := False\<rparr>)) s2 (process_sleeping_list s) (set S1 \<union> set S2) \<and>
           wake_walk t (lhead r) s = do {
             s3 \<leftarrow> make_process_ready s2 x; n \<leftarrow> nodes s3 x; wake_walk t (lnext n) s3 }"
proof -
  from q r have ch: "chain (nodes s) (lhead r) 0 (S1 @ x # S2) (ltail r) 0"
    and rep: "list_rep s (process_sleeping_list s) (S1 @ x # S2)" and pay: "\<And>y. y \<in> set (S1 @ x # S2) \<Longrightarrow> pay s y = y"
    by (auto simp: queue_ok_def list_rep_def)
  from list_rep_nodes [OF rep, of x] pay [of x] obtain n where n: "x \<noteq> 0" "nodes s x = Some n" "payload n = x"
    by (auto simp: pay_def)
  let ?s1 = "set_proc s x (p\<lparr>sleeping := False\<rparr>)"
  have "list_rep ?s1 (process_sleeping_list s) (S1 @ x # S2)" using rep by simp
  from list_delete_rep [OF this] obtain s2 where
    s2: "list_delete ?s1 (process_sleeping_list s) x = Some s2" "list_rep s2 (process_sleeping_list s) (S1 @ S2)"
      "touches ?s1 s2 (process_sleeping_list s) (set S1 \<union> set S2)"
    by blast
  have "wake_walk t (lhead r) s = wake_walk t x s"
    using wake_walk_skip [OF ch, of t] early pay by auto
  also have "\<dots> = do { s3 \<leftarrow> make_process_ready s2 x; n \<leftarrow> nodes s3 x; wake_walk t (lnext n) s3 }"
    using n p s2(1) by (subst wake_walk.simps) simp
  finally show ?thesis using s2 by blast
qed

text \<open>
  \<open>wakeup_sleeping_processes\<close> makes the first sleeper that is due ready and stops there, when the
  ready queue holds a process or that sleeper is the first of the list.
\<close>

lemma wakeup_first_due:
  assumes q: "queues s R (S1 @ x # S2)"
    and early: "\<And>y p. y \<in> set S1 \<Longrightarrow> procs s y = Some p \<Longrightarrow> \<not> sleep_ticks p < ticks s"
    and p: "procs s x = Some p" "sleep_ticks p < ticks s" and safe: "R \<noteq> [] \<or> S1 = []"
  shows "\<exists>s'. wakeup_sleeping_processes s = Some s' \<and> queues s' (R @ [x]) (S1 @ S2) \<and>
           procs s' = (procs s)(x \<mapsto> p\<lparr>sleeping := False\<rparr>) \<and> current_process s' = current_process s \<and>
           interrupts s'"
proof -
  let ?sl = "process_sleeping_list s" and ?k = "process_sleeping_lock s"
  let ?s0 = "s\<lparr>interrupts := False, process_sleeping_lock := ?k\<lparr>lock_val := 1\<rparr>\<rparr>"
  let ?s1 = "set_proc ?s0 x (p\<lparr>sleeping := False\<rparr>)"
  from q have S: "queue_ok s ?sl (S1 @ x # S2)" and R: "ready_ok s R" and free: "lock_val ?k = 0"
    and dj: "set R \<inter> set (S1 @ x # S2) = {}" and ne: "process_ready_queue s \<noteq> ?sl"
    by (simp_all add: queues_def)
  then obtain r where r: "lists s ?sl = Some r" by (auto simp: queue_ok_def list_rep_def)
  have S0: "queue_ok ?s0 (process_sleeping_list ?s0) (S1 @ x # S2)" using S lists_cong [of ?s0 s] by simp
  have r0: "lists ?s0 (process_sleeping_list ?s0) = Some r" using r by simp
  have e0: "\<exists>p. procs ?s0 y = Some p \<and> \<not> sleep_ticks p < ticks s" if "y \<in> set S1" for y
    using that early queues_alive [OF q, of y] by auto
  have p0: "procs ?s0 x = Some p" using p by simp
  from wake_walk_due [OF S0 r0 e0 p0 p(2)] obtain s2 where
    s2: "list_rep s2 ?sl (S1 @ S2)" and t2: "touches ?s1 s2 ?sl (set S1 \<union> set S2)"
    and walk: "wake_walk (ticks s) (lhead r) ?s0 = do {
             s3 \<leftarrow> make_process_ready s2 x; n \<leftarrow> nodes s3 x; wake_walk (ticks s) (lnext n) s3 }"
    by auto
  note m2 = more_kstate [OF touches_kstate [OF t2]]
  have dS: "distinct (S1 @ x # S2)" using S unfolding queue_ok_def by (intro list_rep_distinct) blast
  from S list_rep_nodes [of s ?sl "S1 @ x # S2" x] obtain n where
    n: "nodes s x = Some n" "payload n = x" "x \<noteq> 0" by (auto simp: queue_ok_def pay_def)
  have n2: "nodes s2 x = Some n" using t2 dS n(1) by (simp add: touches_def)
  have pv: "lprev n = 0" if "R = []"
    using that safe S n(1) list_rep_hd_prev [of s ?sl x S2] by (auto simp: queue_ok_def)
  have R2: "ready_ok s2 R"
  proof -
    have "queue_ok ?s1 (process_ready_queue s) R"
      using R lists_cong [of ?s1 s] by (simp add: ready_ok_def)
    then have "queue_ok s2 (process_ready_queue s) R"
      using dj ne by (intro touches_queue_ok [OF t2]) auto
    then show ?thesis using R m2 by (simp add: ready_ok_def)
  qed
  have "x \<notin> set R" using dj by auto
  from make_process_ready_ok [OF R2 this n(3) n2 n(2) pv] obtain s3 where
    s3: "make_process_ready s2 x = Some s3" "ready_ok s3 (R @ [x])"
    and t3: "touches s2 s3 (process_ready_queue s2) (insert x (set R))"
    by blast
  note m3 = more_kstate [OF touches_kstate [OF t3]]
  have "\<exists>n. nodes s3 x = Some n \<and> lnext n = 0"
    using s3(2) by (auto simp: ready_ok_def queue_ok_def list_rep_def chain_snoc)
  then have w: "wake_walk (ticks s) (lhead r) ?s0 = Some s3"
    using walk s3(1) by auto
  let ?s4 = "s3\<lparr>process_sleeping_lock := spinlock_unlock (process_sleeping_lock s3), interrupts := True\<rparr>"
  have k4: "process_sleeping_lock ?s4 = ?k" using m2 m3 free unlock_lock [of ?k] by simp
  have eq: "wakeup_sleeping_processes s = Some ?s4"
    using r w free by (simp add: wakeup_sleeping_processes_def acquire_free)
  have pr: "procs ?s4 = (procs s)(x \<mapsto> p\<lparr>sleeping := False\<rparr>)" using m2 m3 by simp
  have S3: "list_rep s3 ?sl (S1 @ S2)"
    using s2 dj dS ne m2 by (intro touches_rep [OF t3]) auto
  have payS: "pay s3 y = y" if "y \<in> set (S1 @ S2)" for y
  proof -
    have "nodes s y \<noteq> None" "pay s y = y"
      using that S list_rep_nodes [of s ?sl "S1 @ x # S2" y] by (auto simp: queue_ok_def)
    then show ?thesis
      using touches_pay [OF t2, of y] touches_node_exists [OF t2, of y] touches_pay [OF t3, of y]
      by (simp add: pay_def)
  qed
  have "queue_ok ?s4 ?sl (S1 @ S2)"
    using S3 payS by (simp add: queue_ok_def pay_def)
  moreover have "ready_ok ?s4 (R @ [x])" using s3(2) ready_ok_cong [of ?s4 s3] by simp
  moreover have "\<exists>q. procs ?s4 y = Some q \<and> \<not> finished q"
    if "y \<in> insert (kernel_idle_task s) (set (R @ [x]) \<union> set (S1 @ S2))" for y
    using that q p unfolding pr queues_def by auto
  ultimately have "queues ?s4 (R @ [x]) (S1 @ S2)"
    using q dS k4 m2 m3 unfolding queues_def by auto
  then show ?thesis using eq pr m2 m3 by auto
qed


text \<open>
  Appending to an empty list keeps the back pointer of the node, and taking the node out again writes
  through it: the old predecessor loses its successor and becomes the tail of the empty list.
\<close>

lemma list_t_updates: "(r :: list_t)\<lparr>lhead := a, ltail := b, llength := c\<rparr> = \<lparr>lhead = a, ltail = b, llength = c\<rparr>"
  by (cases r) simp

lemma append_empty:
  assumes "list_rep s l []" and "nodes s x = Some n"
  shows "list_append s l x = Some (s\<lparr>nodes := (nodes s)(x \<mapsto> n\<lparr>lnext := 0\<rparr>),
           lists := (lists s)(l \<mapsto> \<lparr>lhead = x, ltail = x, llength = 1\<rparr>)\<rparr>)"
  using assms by (auto simp: list_append_def heap_defs list_rep_def list_t_updates)

lemma make_process_ready_empty:
  assumes R: "ready_ok s []" and x: "nodes s x = Some n"
  shows "make_process_ready s x = Some (s\<lparr>nodes := (nodes s)(x \<mapsto> n\<lparr>lnext := 0\<rparr>),
           lists := (lists s)(process_ready_queue s \<mapsto> \<lparr>lhead = x, ltail = x, llength = 1\<rparr>)\<rparr>)"
proof -
  let ?k = "process_queue_lock s"
  have "list_rep (s\<lparr>process_queue_lock := ?k\<lparr>lock_val := 1\<rparr>\<rparr>) (process_ready_queue s) []"
    using R by (simp add: ready_ok_def queue_ok_def)
  from append_empty [OF this, of x n] x R show ?thesis
    by (simp add: make_process_ready_def acquire_free ready_ok_def unlock_lock)
qed

lemma stale_dequeue:
  assumes l: "lists s (process_ready_queue s) = Some \<lparr>lhead = x, ltail = x, llength = 1\<rparr>"
    and x: "nodes s x = Some n" "x \<noteq> 0" "lnext n = 0" "payload n = x" "lprev n = a" "a \<noteq> 0" "a \<noteq> x"
    and a: "nodes s a = Some m" and free: "lock_val (process_queue_lock s) = 0"
  shows "next_ready_process s = Some (x, s\<lparr>nodes := (nodes s)(a \<mapsto> m\<lparr>lnext := 0\<rparr>),
           lists := (lists s)(process_ready_queue s \<mapsto> \<lparr>lhead = 0, ltail = a, llength = 0\<rparr>)\<rparr>)"
  using assms
  by (simp add: next_ready_process_def process_available_def list_dequeue_def list_delete_def heap_defs
      acquire_free unlock_lock)

text \<open>A ready queue with a tail but no head: what is appended is linked to the tail, and there is no head.\<close>

definition headless :: "kstate \<Rightarrow> ptr \<Rightarrow> bool" where
  "headless s a \<longleftrightarrow> lock_val (process_queue_lock s) = 0 \<and> a \<noteq> 0 \<and> nodes s a \<noteq> None \<and>
     (\<exists>r. lists s (process_ready_queue s) = Some r \<and> lhead r = 0 \<and> ltail r = a)"

lemma headless_ready:
  "headless s a \<Longrightarrow> process_available s = Some False \<and> next_ready_process s = Some (kernel_idle_task s, s)"
  by (auto simp: headless_def process_available_def next_ready_process_def)

definition linked :: "kstate \<Rightarrow> ptr \<Rightarrow> ptr \<Rightarrow> bool" where
  "linked s a y \<longleftrightarrow> map_option lnext (nodes s a) = Some y \<and> map_option lprev (nodes s y) = Some a"

lemma make_process_ready_lost:
  assumes "headless s a" and "nodes s y \<noteq> None"
  shows "\<exists>s'. make_process_ready s y = Some s' \<and> process_available s' = Some False \<and> linked s' a y \<and>
    (y \<noteq> 0 \<longrightarrow> headless s' y) \<and> dom (nodes s') = dom (nodes s)"
proof -
  from assms obtain r k m where r: "lists s (process_ready_queue s) = Some r" "lhead r = 0" "ltail r = a" and a: "a \<noteq> 0"
    "nodes s a = Some m" and y: "nodes s y = Some k" and free: "lock_val (process_queue_lock s) = 0"
    by (auto simp: headless_def)
  then show ?thesis
    by (cases "y = a") (auto simp: make_process_ready_def list_append_def heap_defs process_available_def acquire_free
        linked_def headless_def spinlock_unlock_def)
qed

lemma make_processes_ready_lost:
  assumes "headless s a" and "\<forall>y \<in> set ys. y \<noteq> 0 \<and> nodes s y \<noteq> None"
  shows "\<exists>s' b. for_each (\<lambda>y s. make_process_ready s y) ys s = Some s' \<and> headless s' b"
  using assms
proof (induction ys arbitrary: s a)
  case (Cons y ys)
  obtain s' where s': "make_process_ready s y = Some s'" "headless s' y" "dom (nodes s') = dom (nodes s)"
    using make_process_ready_lost [OF Cons.prems(1), of y] Cons.prems(2) by auto
  then have "\<forall>z \<in> set ys. z \<noteq> 0 \<and> nodes s' z \<noteq> None" using Cons.prems(2) by (metis domIff list.set_intros(2))
  from Cons.IH [OF s'(2) this] s'(1) show ?case by simp
qed auto

lemma wakeup_cuts_sleepers:
  assumes q: "queues s [] (S1 @ a # x # S2)"
    and early: "\<And>y p. y \<in> set (S1 @ [a]) \<Longrightarrow> procs s y = Some p \<Longrightarrow> \<not> sleep_ticks p < ticks s"
    and p: "procs s x = Some p" "sleep_ticks p < ticks s"
  shows "\<exists>s1 s2. wakeup_sleeping_processes s = Some s1 \<and> next_ready_process s1 = Some (x, s2) \<and>
           (\<forall>y \<in> set S2. list_find s2 (process_sleeping_list s2) y = Some 0) \<and> headless s2 a"
proof -
  let ?sl = "process_sleeping_list s" and ?k = "process_sleeping_lock s"
  let ?s0 = "s\<lparr>interrupts := False, process_sleeping_lock := ?k\<lparr>lock_val := 1\<rparr>\<rparr>"
  let ?s1 = "set_proc ?s0 x (p\<lparr>sleeping := False\<rparr>)"
  have split: "S1 @ a # x # S2 = (S1 @ [a]) @ x # S2" by simp
  from q have S: "queue_ok s ?sl ((S1 @ [a]) @ x # S2)" and R: "ready_ok s []" and free: "lock_val ?k = 0"
    and ne: "process_ready_queue s \<noteq> ?sl"
    by (simp_all add: queues_def)
  then obtain r where r: "lists s ?sl = Some r" "chain (nodes s) (lhead r) 0 ((S1 @ [a]) @ x # S2) (ltail r) 0"
    by (auto simp: queue_ok_def list_rep_def)
  have S0: "queue_ok ?s0 (process_sleeping_list ?s0) ((S1 @ [a]) @ x # S2)" using S lists_cong [of ?s0 s] by simp
  have r0: "lists ?s0 (process_sleeping_list ?s0) = Some r" using r by simp
  have e0: "\<exists>p. procs ?s0 y = Some p \<and> \<not> sleep_ticks p < ticks s" if "y \<in> set (S1 @ [a])" for y
    using that early queues_alive [OF q, of y] by auto
  have p0: "procs ?s0 x = Some p" using p by simp
  from wake_walk_due [OF S0 r0 e0 p0 p(2)] obtain s2 where
    s2: "list_rep s2 ?sl ((S1 @ [a]) @ S2)" and t2: "touches ?s1 s2 ?sl (set (S1 @ [a]) \<union> set S2)"
    and walk: "wake_walk (ticks s) (lhead r) ?s0 = do {
             s3 \<leftarrow> make_process_ready s2 x; n \<leftarrow> nodes s3 x; wake_walk (ticks s) (lnext n) s3 }"
    by auto
  note m2 = more_kstate [OF touches_kstate [OF t2]]
  have dS: "distinct ((S1 @ [a]) @ x # S2)" using S unfolding queue_ok_def by (intro list_rep_distinct) blast
  from r(2) obtain n where n: "nodes s x = Some n" "lprev n = a" "a \<noteq> 0" "x \<noteq> 0"
    by (auto simp: chain_append)
  have nx: "payload n = x" using S n(1) by (simp add: queue_ok_def pay_def)
  have n2: "nodes s2 x = Some n" using t2 dS n(1) by (simp add: touches_def)
  have R2: "ready_ok s2 []"
  proof -
    have "queue_ok ?s1 (process_ready_queue s) []"
      using R lists_cong [of ?s1 s] by (simp add: ready_ok_def)
    then have "queue_ok s2 (process_ready_queue s) []"
      using ne by (intro touches_queue_ok [OF t2]) auto
    then show ?thesis using R m2 by (simp add: ready_ok_def)
  qed
  let ?rq = "process_ready_queue s"
  let ?s3 = "s2\<lparr>nodes := (nodes s2)(x \<mapsto> n\<lparr>lnext := 0\<rparr>), lists := (lists s2)(?rq \<mapsto> \<lparr>lhead = x, ltail = x, llength = 1\<rparr>)\<rparr>"
  have s3: "make_process_ready s2 x = Some ?s3"
    using make_process_ready_empty [OF R2 n2] m2 by simp
  let ?s4 = "?s3\<lparr>process_sleeping_lock := spinlock_unlock (process_sleeping_lock ?s3), interrupts := True\<rparr>"
  have eq: "wakeup_sleeping_processes s = Some ?s4"
    using r walk s3 free by (simp add: wakeup_sleeping_processes_def acquire_free)
  from s2 obtain r2 where r2: "lists s2 ?sl = Some r2" "chain (nodes s2) (lhead r2) 0 ((S1 @ [a]) @ S2) (ltail r2) 0"
    by (auto simp: list_rep_def)
  obtain m e where m: "nodes s2 a = Some m" and ch: "chain (nodes s2) (lhead r2) 0 (S1 @ [a]) a e"
  proof -
    from r2(2) obtain l e where l: "chain (nodes s2) (lhead r2) 0 (S1 @ [a]) l e"
      unfolding chain_append [of _ _ _ "S1 @ [a]"] by blast
    then have "l = a" "\<exists>m. nodes s2 a = Some m" by (auto simp: chain_snoc)
    then show thesis using that l by blast
  qed
  let ?s5 = "?s4\<lparr>nodes := (nodes ?s4)(a \<mapsto> m\<lparr>lnext := 0\<rparr>), lists := (lists ?s4)(?rq \<mapsto> \<lparr>lhead = 0, ltail = a, llength = 0\<rparr>)\<rparr>"
  have ax: "a \<noteq> x" using dS by auto
  have s5: "next_ready_process ?s4 = Some (x, ?s5)"
    using stale_dequeue [of ?s4 x "n\<lparr>lnext := 0\<rparr>" a m] n nx ax m m2 R by (simp add: ready_ok_def)
  have "list_find ?s5 (process_sleeping_list ?s5) y = Some 0" if y: "y \<in> set S2" for y
  proof -
    have "distinct (S1 @ [a])" using dS by simp
    from chain_set_next [OF ch this m, of 0]
    moreover have "nodes ?s5 = ((nodes s2)(a \<mapsto> m\<lparr>lnext := 0\<rparr>))(x \<mapsto> n\<lparr>lnext := 0\<rparr>)"
      using ax by (simp add: fun_upd_twist)
    ultimately have c5: "chain (nodes ?s5) (lhead r2) 0 (S1 @ [a]) a 0"
      using dS by simp
    have P: "pay ?s5 z = z" if "z \<in> set (S1 @ [a])" for z
    proof -
      have "nodes s z \<noteq> None" "pay s z = z" and zx: "z \<noteq> x"
        using that S dS list_rep_nodes [of s ?sl "(S1 @ [a]) @ x # S2" z] by (auto simp: queue_ok_def)
      then have "pay s2 z = z" using touches_pay [OF t2, of z] by (simp add: pay_def)
      then show ?thesis using m zx by (cases "z = a") (simp_all add: pay_def)
    qed
    have "\<not> (\<exists>z. z \<in> set (S1 @ [a]) \<and> payload (the (nodes ?s5 z)) = y)"
    proof
      assume "\<exists>z. z \<in> set (S1 @ [a]) \<and> payload (the (nodes ?s5 z)) = y"
      then obtain z where z: "z \<in> set (S1 @ [a])" "payload (the (nodes ?s5 z)) = y" by blast
      then have "z = y" using P [OF z(1)] unfolding pay_def by (simp only:)
      then show False using z(1) y dS by auto
    qed
    then have "List.find (\<lambda>z. payload (the (nodes ?s5 z)) = y) (S1 @ [a]) = None"
      unfolding find_None_iff .
    then show ?thesis
      using find_node_chain [OF c5, of "\<lambda>z. z = y"] r2(1) ne m2 by (simp add: list_find_def)
  qed
  moreover have "headless ?s5 a" using R m2 n(3) by (simp add: headless_def ready_ok_def)
  ultimately show ?thesis using eq s5 by blast
qed


subsection \<open>Properties\<close>

text \<open>
  States for the examples: the idle task 5, the running process 10 and the processes 20, 30 and 40,
  of which 30 has slept long enough.
\<close>

definition ks_example :: "(ptr \<times> list_node) list \<Rightarrow> list_t \<Rightarrow> list_t \<Rightarrow> kstate" where
  "ks_example N rq sl =
     \<lparr>nodes = map_of N, lists = [1 \<mapsto> rq, 2 \<mapsto> sl], freed = [], tnodes = Map.empty, trees = Map.empty,
      procs = (\<lambda>p. if p \<in> {5, 10, 20, 30, 40} then
        Some (zero_process\<lparr>pid := int p, started := True, running := (p = 10),
          sleep_ticks := (if p = 30 then 0 else 9)\<rparr>) else None),
      fs_nodes = Map.empty, fs_root = 0, driver_calls = [],
      vfs_tmp_lock = \<lparr>lock_val = 0, waiters = 0\<rparr>, raw_blocks = [], process_tree = 0, process_list = 0,
      process_ready_queue = 1, process_sleeping_list = 2, current_process = 10, kernel_idle_task = 5,
      pid_set = \<lparr>bs_data = [], bs_size = 0\<rparr>, tree_lock = \<lparr>lock_val = 0, waiters = 0\<rparr>,
      process_queue_lock = \<lparr>lock_val = 0, waiters = 0\<rparr>, process_sleeping_lock = \<lparr>lock_val = 0, waiters = 0\<rparr>,
      ticks = 5, interrupts = True, rsp = 0, fpu = [], cur_dir = 0\<rparr>"

definition ks_ready :: kstate where
  "ks_ready = ks_example
     [(10, \<lparr>lnext = 0, lprev = 0, payload = 10\<rparr>), (20, \<lparr>lnext = 40, lprev = 0, payload = 20\<rparr>),
      (40, \<lparr>lnext = 0, lprev = 20, payload = 40\<rparr>)]
     \<lparr>lhead = 20, ltail = 40, llength = 2\<rparr> \<lparr>lhead = 0, ltail = 0, llength = 0\<rparr>"

definition ks_asleep :: kstate where
  "ks_asleep = ks_example
     [(10, \<lparr>lnext = 0, lprev = 0, payload = 10\<rparr>), (20, \<lparr>lnext = 30, lprev = 0, payload = 20\<rparr>),
      (30, \<lparr>lnext = 40, lprev = 20, payload = 30\<rparr>), (40, \<lparr>lnext = 0, lprev = 30, payload = 40\<rparr>)]
     \<lparr>lhead = 0, ltail = 0, llength = 0\<rparr> \<lparr>lhead = 20, ltail = 40, llength = 3\<rparr>"

definition ks_due :: kstate where
  "ks_due = ks_example
     [(10, \<lparr>lnext = 0, lprev = 0, payload = 10\<rparr>), (30, \<lparr>lnext = 40, lprev = 0, payload = 30\<rparr>),
      (40, \<lparr>lnext = 0, lprev = 30, payload = 40\<rparr>)]
     \<lparr>lhead = 0, ltail = 0, llength = 0\<rparr> \<lparr>lhead = 30, ltail = 40, llength = 2\<rparr>"

lemmas ks_defs = zero_process_def ks_example_def queues_def ready_ok_def queue_ok_def list_rep_def pay_def

lemma ks_ready_ok: "sched ks_ready [20, 40] []" "none_due ks_ready []"
  by (simp_all add: ks_ready_def ks_defs sched_def none_due_def loose_proc_def detached_def)

lemma ks_asleep_ok: "queues ks_asleep [] [20, 30, 40]"
  by (simp add: ks_asleep_def ks_defs)

lemma ks_due_ok: "queues ks_due [] [30, 40]"
  by (simp add: ks_due_def ks_defs)

text \<open>
  C2: the ready queue is served round robin: as long as no sleeper is due, after \<open>k\<close> switches with
  rescheduling the processor runs process number \<open>k\<close> of the current process followed by the ready
  queue, taken in a circle, and the queue holds the others in that order; so every ready process
  runs within as many switches as the queue is long.
\<close>

theorem sched_round_robin:
  assumes "sched s R S" and "none_due s S" and "current_process s \<noteq> kernel_idle_task s"
    and "procs s (current_process s) = Some c" and "running c" and "\<not> finished c"
  shows "(\<exists>s'. yields k ra s = Some s' \<and> sched s' (tl (rotate k (current_process s # R))) S \<and>
            current_process s' = hd (rotate k (current_process s # R)) \<and> current_runs s') \<and>
         (p \<in> set R \<longrightarrow> (\<exists>i s'. i \<le> length R \<and> yields i ra s = Some s' \<and> current_process s' = p \<and> current_runs s'))"
proof
  show "\<exists>s'. yields k ra s = Some s' \<and> sched s' (tl (rotate k (current_process s # R))) S \<and>
      current_process s' = hd (rotate k (current_process s # R)) \<and> current_runs s'"
    using yields_rotate [OF assms, of k ra] by blast
  show "p \<in> set R \<longrightarrow> (\<exists>i s'. i \<le> length R \<and> yields i ra s = Some s' \<and> current_process s' = p \<and> current_runs s')"
  proof
    assume "p \<in> set R"
    then obtain i where i: "i < length R" "R ! i = p" by (auto simp: in_set_conv_nth)
    have "hd (rotate (Suc i) (current_process s # R)) = p"
      using i by (subst hd_rotate_conv_nth) simp_all
    then show "\<exists>i s'. i \<le> length R \<and> yields i ra s = Some s' \<and> current_process s' = p \<and> current_runs s'"
      using yields_rotate [OF assms, of "Suc i" ra] i(1) by (metis Suc_leI)
  qed
qed

theorem sched_round_robin_witness:
  "\<exists>i s'. i \<le> 2 \<and> yields i 0 ks_ready = Some s' \<and> current_process s' = 40 \<and> current_runs s'"
proof -
  obtain c where "procs ks_ready (current_process ks_ready) = Some c" "running c" "\<not> finished c"
    by (simp add: ks_ready_def ks_example_def zero_process_def)
  moreover have "current_process ks_ready \<noteq> kernel_idle_task ks_ready"
    by (simp add: ks_ready_def ks_example_def zero_process_def)
  ultimately show ?thesis
    using sched_round_robin [OF ks_ready_ok, of c 0 0 40] by (simp add: numeral_2_eq_2)
qed

text \<open>
  C12: when no sleeper is due, the running process (one that has not finished, and not the idle task)
  that sleeps for at least one tick, to a deadline that does not wrap around, is put at the end of the
  sleeping list with that deadline, the processor goes to the first ready process or to the idle task,
  and the invariant of the scheduler holds for the shorter ready queue and the longer sleeping list.
\<close>

theorem process_sleep_invariant:
  assumes "sched s R S" and "none_due s S" and "current_process s \<noteq> kernel_idle_task s"
    and "procs s (current_process s) = Some c" and "running c" and "\<not> finished c"
    and "ms * TIMER_FREQ div 1000 \<noteq> 0" and "\<not> ms * TIMER_FREQ div 1000 + ticks s < ticks s"
  shows "\<exists>s'. process_sleep ra ms s = Some s' \<and> sched s' (tl R) (S @ [current_process s]) \<and>
           current_process s' = next_of s R \<and> current_runs s' \<and>
           (\<exists>c'. procs s' (current_process s) = Some c' \<and> sleeping c' \<and>
              sleep_ticks c' = ms * TIMER_FREQ div 1000 + ticks s)"
  using process_sleep_ok [OF assms] .

theorem process_sleep_invariant_witness:
  "\<exists>s'. process_sleep 0 40 ks_ready = Some s' \<and> sched s' [40] [10] \<and> current_process s' = 20"
proof -
  obtain c where "procs ks_ready (current_process ks_ready) = Some c" "running c" "\<not> finished c"
    by (simp add: ks_ready_def ks_example_def zero_process_def)
  moreover have "current_process ks_ready = 10" "kernel_idle_task ks_ready = 5" "ticks ks_ready = 5"
    by (simp_all add: ks_ready_def ks_example_def)
  moreover have "(40 :: u64) * TIMER_FREQ div 1000 = 2" by (simp add: TIMER_FREQ_def)
  ultimately show ?thesis
    using process_sleep_invariant [OF ks_ready_ok, of c 40 0] by (auto simp: next_of_def)
qed

text \<open>
  C10: \<open>wakeup_sleeping_processes\<close> changes nothing but the interrupt flag when no sleeper is due, and
  otherwise moves exactly the first sleeper that is due to the end of the ready queue; later
  sleepers stay asleep however long they are overdue, since the walk goes on from the node that is
  now the tail of the ready queue. For a sleeper behind another one the ready queue must not be
  empty.
\<close>

theorem wakeup_wakes_first_due:
  assumes "queues s R S"
  shows "(none_due s S \<longrightarrow> wakeup_sleeping_processes s = Some (s\<lparr>interrupts := True\<rparr>)) \<and>
    (\<forall>S1 x S2 p. S = S1 @ x # S2 \<and> none_due s S1 \<and> procs s x = Some p \<and> sleep_ticks p < ticks s \<and>
        (R \<noteq> [] \<or> S1 = []) \<longrightarrow>
      (\<exists>s'. wakeup_sleeping_processes s = Some s' \<and> queues s' (R @ [x]) (S1 @ S2) \<and>
         procs s' = (procs s)(x \<mapsto> p\<lparr>sleeping := False\<rparr>) \<and> current_process s' = current_process s))"
proof (intro conjI impI allI)
  fix S1 x S2 p
  assume "S = S1 @ x # S2 \<and> none_due s S1 \<and> procs s x = Some p \<and> sleep_ticks p < ticks s \<and> (R \<noteq> [] \<or> S1 = [])"
  then show "\<exists>s'. wakeup_sleeping_processes s = Some s' \<and> queues s' (R @ [x]) (S1 @ S2) \<and>
      procs s' = (procs s)(x \<mapsto> p\<lparr>sleeping := False\<rparr>) \<and> current_process s' = current_process s"
    using wakeup_first_due [of s R S1 x S2 p] assms by (auto simp: none_due_def)
qed (rule wakeup_queues [OF assms])

theorem wakeup_wakes_first_due_witness:
  "\<exists>s'. wakeup_sleeping_processes ks_due = Some s' \<and> queues s' [30] [40]"
proof -
  obtain p where "procs ks_due 30 = Some p" "sleep_ticks p < ticks ks_due"
    by (simp add: ks_due_def ks_example_def zero_process_def)
  moreover have "[30, 40] = [] @ 30 # [40]" by simp
  moreover have "none_due ks_due []" by (simp add: none_due_def)
  ultimately have "\<exists>s'. wakeup_sleeping_processes ks_due = Some s' \<and> queues s' ([] @ [30]) ([] @ [40]) \<and>
      procs s' = (procs ks_due)(30 \<mapsto> p\<lparr>sleeping := False\<rparr>) \<and> current_process s' = current_process ks_due"
    by (intro wakeup_wakes_first_due [OF ks_due_ok, THEN conjunct2, rule_format]) simp
  then show ?thesis by auto
qed

text \<open>
  C11: when the ready queue is empty and the first sleeper that is due stands behind another one, \<open>a\<close>, waking
  it destroys both lists: \<open>list_append\<close> leaves its back pointer to \<open>a\<close>, and when the woken process is
  taken from the ready queue \<open>list_delete\<close> writes through that pointer. All sleepers behind it are lost
  to a search of the sleeping list. The next process made ready is linked behind the sleeper \<open>a\<close>, and
  however many processes are made ready one after the other, the ready queue stays empty and the
  scheduler finds only the idle task.
\<close>

theorem wakeup_loses_sleepers:
  assumes "queues s [] (S1 @ a # x # S2)" and "none_due s (S1 @ [a])"
    and "procs s x = Some p" and "sleep_ticks p < ticks s"
  shows "\<exists>s1 s2. wakeup_sleeping_processes s = Some s1 \<and> next_ready_process s1 = Some (x, s2) \<and>
           (\<forall>y \<in> set S2. list_find s2 (process_sleeping_list s2) y = Some 0) \<and>
           (\<forall>y. nodes s2 y \<noteq> None \<longrightarrow>
              (\<exists>s3. make_process_ready s2 y = Some s3 \<and> linked s3 a y \<and> process_available s3 = Some False)) \<and>
           (\<forall>ys. (\<forall>y \<in> set ys. y \<noteq> 0 \<and> nodes s2 y \<noteq> None) \<longrightarrow>
              (\<exists>s3. for_each (\<lambda>y s. make_process_ready s y) ys s2 = Some s3 \<and> process_available s3 = Some False \<and>
                 next_ready_process s3 = Some (kernel_idle_task s3, s3)))"
proof -
  have early: "\<not> sleep_ticks p' < ticks s" if "y \<in> set (S1 @ [a])" "procs s y = Some p'" for y p'
    using assms(2) that unfolding none_due_def by blast
  obtain s1 s2 where w: "wakeup_sleeping_processes s = Some s1" "next_ready_process s1 = Some (x, s2)"
    "\<forall>y \<in> set S2. list_find s2 (process_sleeping_list s2) y = Some 0" "headless s2 a"
    using wakeup_cuts_sleepers [of s S1 a x S2 p] assms(1,3,4) early by blast
  have "\<exists>s3. make_process_ready s2 y = Some s3 \<and> linked s3 a y \<and> process_available s3 = Some False" if "nodes s2 y \<noteq> None" for y
    using make_process_ready_lost [OF w(4) that] by blast
  moreover have "\<exists>s3. for_each (\<lambda>y s. make_process_ready s y) ys s2 = Some s3 \<and> process_available s3 = Some False \<and>
      next_ready_process s3 = Some (kernel_idle_task s3, s3)" if "\<forall>y \<in> set ys. y \<noteq> 0 \<and> nodes s2 y \<noteq> None" for ys
    using make_processes_ready_lost [OF w(4) that] headless_ready by blast
  ultimately show ?thesis using w by blast
qed

theorem wakeup_loses_sleepers_witness:
  "\<exists>s1 s2. wakeup_sleeping_processes ks_asleep = Some s1 \<and> next_ready_process s1 = Some (30, s2) \<and>
     list_find s2 (process_sleeping_list s2) 40 = Some 0"
proof -
  obtain p where "procs ks_asleep 30 = Some p" "sleep_ticks p < ticks ks_asleep"
    by (simp add: ks_asleep_def ks_example_def zero_process_def)
  moreover have "queues ks_asleep [] ([] @ 20 # 30 # [40])" using ks_asleep_ok by simp
  moreover have "none_due ks_asleep ([] @ [20])" by (simp add: none_due_def ks_asleep_def ks_example_def zero_process_def)
  ultimately show ?thesis using wakeup_loses_sleepers [of ks_asleep "[]" 20 30 "[40]" p] by auto
qed

end
