(* ===== verification/Vfs_Node.thy ===== *)
theory Vfs_Node
  imports Sched
begin

text \<open>
  The reference counts of file nodes, kernel/src/vfs/vfs.c: opening, cloning, closing and locking a
  node. Calls of the drivers' functions are recorded in \<open>driver_calls\<close>.
\<close>

definition set_fs :: "kstate \<Rightarrow> ptr \<Rightarrow> fs_node \<Rightarrow> kstate" where
  "set_fs s p n = s\<lparr>fs_nodes := (fs_nodes s)(p \<mapsto> n)\<rparr>"

definition drive :: "kstate \<Rightarrow> driver_call \<Rightarrow> kstate" where
  "drive s c = s\<lparr>driver_calls := driver_calls s @ [c]\<rparr>"

definition O_TRUNC :: u32 where
  "O_TRUNC = 0x0400"

definition vfs_get_root :: "kstate \<Rightarrow> ptr" where
  "vfs_get_root s = fs_root s"

definition vfs_is_root :: "kstate \<Rightarrow> ptr \<Rightarrow> bool" where
  "vfs_is_root s node \<longleftrightarrow> vfs_get_root s = node"

definition truncate_fs :: "kstate \<Rightarrow> ptr \<Rightarrow> kstate option" where
  "truncate_fs s node =
     (if node = 0 then Some s
      else do {
        n \<leftarrow> fs_nodes s node;
        Some (if fs_truncate n then drive s (Call_truncate node) else s)
      })"

text \<open>The count is changed between taking and releasing the lock.\<close>

definition add_ref :: "kstate \<Rightarrow> ptr \<Rightarrow> int \<Rightarrow> kstate option" where
  "add_ref s node k = do {
     l \<leftarrow> acquire (vfs_tmp_lock s);
     n \<leftarrow> fs_nodes s node;
     let s = set_fs (s\<lparr>vfs_tmp_lock := l\<rparr>) node (n\<lparr>refcount := refcount n + k\<rparr>);
     Some (s\<lparr>vfs_tmp_lock := spinlock_unlock l\<rparr>)
   }"

definition open_fs :: "kstate \<Rightarrow> ptr \<Rightarrow> u32 \<Rightarrow> kstate option" where
  "open_fs s node flags =
     (if node = 0 then Some s
      else do {
        n \<leftarrow> fs_nodes s node;
        s \<leftarrow> (if refcount n \<ge> 0 then add_ref s node 1 else Some s);
        if fs_open n then
          (let s = drive s (Call_open node flags)
           in if flags AND O_TRUNC \<noteq> 0 then truncate_fs s node else Some s)
        else Some s
      })"

definition close_fs :: "kstate \<Rightarrow> ptr \<Rightarrow> kstate option" where
  "close_fs s node =
     (if vfs_is_root s node then Some s
      else if node = 0 then Some s
      else do {
        l \<leftarrow> acquire (vfs_tmp_lock s);
        n \<leftarrow> fs_nodes s node;
        let n = n\<lparr>refcount := refcount n - 1\<rparr>;
        let s = set_fs (s\<lparr>vfs_tmp_lock := l\<rparr>) node n;
        let s = (if refcount n = 0 \<and> fs_close n then drive s (Call_close node) else s);
        Some (s\<lparr>vfs_tmp_lock := spinlock_unlock l\<rparr>)
      })"

definition clone_fs :: "kstate \<Rightarrow> ptr \<Rightarrow> (ptr \<times> kstate) option" where
  "clone_fs s source =
     (if source = 0 then Some (0, s)
      else do {
        n \<leftarrow> fs_nodes s source;
        s \<leftarrow> (if refcount n \<ge> 0 then add_ref s source 1 else Some s);
        Some (source, s)
      })"

definition vfs_lock :: "kstate \<Rightarrow> ptr \<Rightarrow> kstate option" where
  "vfs_lock s node = do {
     l \<leftarrow> acquire (vfs_tmp_lock s);
     n \<leftarrow> fs_nodes s node;
     let s = set_fs (s\<lparr>vfs_tmp_lock := l\<rparr>) node (n\<lparr>refcount := -1\<rparr>);
     Some (s\<lparr>vfs_tmp_lock := spinlock_unlock l\<rparr>)
   }"

end
