(* ===== verification/Process.thy ===== *)
theory Process
  imports Vfs_Node
begin

text \<open>
  The rest of kernel/src/process/process.c: process identifiers, start-up, creation and forking,
  cleanup and exit, the process tree, file descriptors and waiting for children.

  \<open>malloc\<close> is a parameter that names the next address. The contents of stacks and strings are not
  modelled: \<open>alloc_raw\<close> records such a block, and what the stack scan of \<open>process_fork\<close> finds is an
  argument.
\<close>

subsection \<open>Memory without contents\<close>

definition alloc_raw :: "(kstate \<Rightarrow> ptr) \<Rightarrow> kstate \<Rightarrow> ptr \<times> kstate" where
  "alloc_raw malloc s =
     (let p = malloc s in if p = 0 then (0, s) else (p, s\<lparr>raw_blocks := p # raw_blocks s\<rparr>))"

definition free_raw :: "kstate \<Rightarrow> ptr \<Rightarrow> kstate" where
  "free_raw s p = s\<lparr>freed := freed s @ [p]\<rparr>"

text \<open>A process structure and the list node in it; the code does not test the result of \<open>malloc\<close>.\<close>

definition alloc_process :: "(kstate \<Rightarrow> ptr) \<Rightarrow> kstate \<Rightarrow> (ptr \<times> kstate) option" where
  "alloc_process malloc s =
     (let p = malloc s in
      if p = 0 then None
      else Some (p, set_proc (set_node s p \<lparr>lnext = 0, lprev = 0, payload = 0\<rparr>) p zero_process))"

definition free_process :: "kstate \<Rightarrow> ptr \<Rightarrow> kstate" where
  "free_process s p = s\<lparr>procs := (procs s)(p := None), nodes := (nodes s)(p := None)\<rparr>"

definition upd_proc :: "kstate \<Rightarrow> ptr \<Rightarrow> (process \<Rightarrow> process) \<Rightarrow> kstate option" where
  "upd_proc s p f = do { x \<leftarrow> procs s p; Some (set_proc s p (f x)) }"

definition lock_tree :: "kstate \<Rightarrow> kstate option" where
  "lock_tree s = do { l \<leftarrow> acquire (tree_lock s); Some (s\<lparr>tree_lock := l\<rparr>) }"

definition unlock_tree :: "kstate \<Rightarrow> kstate" where
  "unlock_tree s = s\<lparr>tree_lock := spinlock_unlock (tree_lock s)\<rparr>"

subsection \<open>Process identifiers\<close>

definition MAX_PIDS :: u64 where
  "MAX_PIDS = 256"

definition get_next_free_pid :: "kstate \<Rightarrow> (int \<times> kstate) option" where
  "get_next_free_pid s = do {
     (index, set) \<leftarrow> bitset_ffub (pid_set s);
     set \<leftarrow> (if index \<noteq> -1 then bitset_set set (nat index) else Some set);
     Some (index, s\<lparr>pid_set := set\<rparr>)
   }"

text \<open>\<open>bitset_clear(&pid_set, proc->id)\<close>: a negative identifier becomes a huge bit number.\<close>

definition release_pid :: "kstate \<Rightarrow> int \<Rightarrow> kstate option" where
  "release_pid s i = (if i < 0 then None
     else do { set \<leftarrow> bitset_clear (pid_set s) (nat i); Some (s\<lparr>pid_set := set\<rparr>) })"

subsection \<open>Start-up\<close>

definition initialize_process_tree :: "(kstate \<Rightarrow> ptr) \<Rightarrow> kstate \<Rightarrow> kstate option" where
  "initialize_process_tree malloc s = do {
     let (t, s) = tree_create malloc s;
     let (l, s) = list_create malloc s;
     let (q, s) = list_create malloc s;
     let (w, s) = list_create malloc s;
     set \<leftarrow> bitset_init True MAX_PIDS;
     set \<leftarrow> bitset_set set 0;
     set \<leftarrow> bitset_set set 1;
     Some (s\<lparr>process_tree := t, process_list := l, process_ready_queue := q, process_sleeping_list := w,
       pid_set := set, tree_lock := spinlock_init (tree_lock s),
       process_queue_lock := spinlock_init (process_queue_lock s),
       process_sleeping_lock := spinlock_init (process_sleeping_lock s)\<rparr>)
   }"

definition KERNEL_STACK_SIZE :: nat where
  "KERNEL_STACK_SIZE = 0x8000"

definition spawn_idle_thread :: "(kstate \<Rightarrow> ptr) \<Rightarrow> u64 \<Rightarrow> kstate \<Rightarrow> (ptr \<times> kstate) option" where
  "spawn_idle_thread malloc kernel_idle s = do {
     (idle, s) \<leftarrow> alloc_process malloc s;
     let (nm, s) = alloc_raw malloc s;
     let (stack, s) = alloc_raw malloc s;
     s \<leftarrow> upd_proc s idle (\<lambda>p. p\<lparr>pid := -1, name := nm,
            process_image := (process_image p)\<lparr>image_stack := stack + 8 * KERNEL_STACK_SIZE\<rparr>,
            thread_rsp := of_nat (stack + 8 * (KERNEL_STACK_SIZE - 17)), thread_rip := kernel_idle,
            started := True, running := True, page_directory := cur_dir s\<rparr>);
     Some (idle, s)
   }"

definition spawn_init :: "(kstate \<Rightarrow> ptr) \<Rightarrow> ptr \<Rightarrow> kstate \<Rightarrow> (ptr \<times> kstate) option" where
  "spawn_init malloc stack_bottom s = do {
     (init, s) \<leftarrow> alloc_process malloc s;
     (_, s) \<leftarrow> tree_set_root malloc s (process_tree s) init;
     (_, s) \<leftarrow> list_insert malloc s (process_list s) init;
     t \<leftarrow> trees s (process_tree s);
     let (nm, s) = alloc_raw malloc s;
     (wd, s) \<leftarrow> clone_fs s (fs_root s);
     let (path, s) = alloc_raw malloc s;
     s \<leftarrow> upd_proc s init (\<lambda>p. p\<lparr>tree_entry := troot t, pid := 1, name := nm, cmdline := 0, argc := 0, status := 0,
            file_descriptors := Some \<lparr>fd_entries = replicate 4 None, fd_offsets = replicate 4 None,
              fd_modes = replicate 4 None, fd_length = 0, fd_capacity = 4, fd_refs = 1\<rparr>,
            wd_node := wd, wd_path := path, thread_rip := 0, thread_rsp := 0,
            process_image := \<lparr>image_size = 0, image_entry = 0, image_heap = 0, image_heap_actual = 0,
              image_stack = stack_bottom, image_start = 0,
              image_lock = spinlock_init (image_lock (process_image p))\<rparr>,
            finished := False, suspended := False, started := False, running := False, sleeping := False,
            page_directory := cur_dir s\<rparr>);
     n \<leftarrow> nodes s init;
     Some (init, set_node s init (n\<lparr>payload := init\<rparr>))
   }"

definition tasking_install :: "(kstate \<Rightarrow> ptr) \<Rightarrow> u64 \<Rightarrow> ptr \<Rightarrow> kstate \<Rightarrow> kstate option" where
  "tasking_install malloc kernel_idle stack_bottom s = do {
     s \<leftarrow> initialize_process_tree malloc (s\<lparr>interrupts := False\<rparr>);
     (c, s) \<leftarrow> spawn_init malloc stack_bottom s;
     (i, s) \<leftarrow> spawn_idle_thread malloc kernel_idle (s\<lparr>current_process := c\<rparr>);
     s \<leftarrow> upd_proc (s\<lparr>kernel_idle_task := i\<rparr>) c (\<lambda>p. p\<lparr>running := True\<rparr>);
     Some (s\<lparr>interrupts := True\<rparr>)
   }"

subsection \<open>Creation\<close>

text \<open>The loop of \<open>spawn_process\<close> that clones the open files of the parent.\<close>

fun clone_files :: "nat \<Rightarrow> nat \<Rightarrow> fd_table \<Rightarrow> fd_table \<Rightarrow> kstate \<Rightarrow> (fd_table \<times> kstate) option" where
  "clone_files 0 i from to s = Some (to, s)"
| "clone_files (Suc k) i from to s = do {
     e \<leftarrow> idx (fd_entries from) i;
     e \<leftarrow> e;
     (c, s) \<leftarrow> clone_fs s e;
     es \<leftarrow> upd (fd_entries to) i (Some c);
     m \<leftarrow> idx (fd_modes from) i;
     ms \<leftarrow> upd (fd_modes to) i m;
     off \<leftarrow> idx (fd_offsets from) i;
     offs \<leftarrow> upd (fd_offsets to) i off;
     clone_files k (Suc i) from (to\<lparr>fd_entries := es, fd_modes := ms, fd_offsets := offs\<rparr>) s
   }"

definition spawn_process :: "(kstate \<Rightarrow> ptr) \<Rightarrow> kstate \<Rightarrow> ptr \<Rightarrow> (ptr \<times> kstate) option" where
  "spawn_process malloc s pp = do {
     t \<leftarrow> trees s (process_tree s);
     if troot t = 0 then None
     else do {
       (proc, s) \<leftarrow> alloc_process malloc s;
       (id, s) \<leftarrow> get_next_free_pid s;
       let (nm, s) = alloc_raw malloc s;
       par \<leftarrow> procs s pp;
       let (stack, s) = alloc_raw malloc s;
       from \<leftarrow> file_descriptors par;
       let cap = fd_capacity from;
       (fds, s) \<leftarrow> clone_files (fd_length from) 0 from
          \<lparr>fd_entries = replicate cap None, fd_offsets = replicate cap None, fd_modes = replicate cap None,
           fd_length = fd_length from, fd_capacity = cap, fd_refs = 1\<rparr> s;
       (wd, s) \<leftarrow> clone_fs s (wd_node par);
       let (path, s) = alloc_raw malloc s;
       let (entry, s) = tree_node_create malloc s proc;
       s \<leftarrow> upd_proc s proc (\<lambda>p. p\<lparr>pid := id, name := nm, description := 0, cmdline := cmdline par, argc := argc par,
              process_image := (process_image par)\<lparr>image_stack := stack,
                image_lock := spinlock_init (image_lock (process_image p))\<rparr>,
              thread_rsp := of_nat (stack + 8 * (KERNEL_STACK_SIZE - 17)), thread_rip := thread_rip par,
              file_descriptors := Some fds, wd_node := wd, wd_path := path, status := 0, finished := False,
              suspended := False, started := False, running := False, sleeping := False, tree_entry := entry\<rparr>);
       s \<leftarrow> lock_tree s;
       s \<leftarrow> tree_node_insert_child_node malloc s (process_tree s) (tree_entry par) entry;
       (_, s) \<leftarrow> list_insert malloc s (process_list s) proc;
       let s = unlock_tree s;
       n \<leftarrow> nodes s proc;
       Some (proc, set_node s proc (n\<lparr>payload := proc\<rparr>))
     }
   }"

text \<open>
  \<open>process_fork\<close>: \<open>clone\<close> is the result of \<open>virt_mem_clone_address_space\<close>, \<open>child_rsp\<close> the stack pointer
  that the scan for the return address ends with.
\<close>

definition process_fork ::
  "(kstate \<Rightarrow> ptr) \<Rightarrow> u64 \<Rightarrow> u64 \<Rightarrow> u64 \<Rightarrow> kstate \<Rightarrow> (int \<times> kstate) option" where
  "process_fork malloc clone child_rsp return_addr s = do {
     let s = s\<lparr>interrupts := False\<rparr>;
     let pp = current_process s;
     s \<leftarrow> upd_proc s pp (\<lambda>p. p\<lparr>regs_rax := 0\<rparr>);
     s \<leftarrow> upd_proc s pp (\<lambda>p. p\<lparr>thread_rip := return_addr\<rparr>);
     (new_proc, s) \<leftarrow> spawn_process malloc s pp;
     s \<leftarrow> upd_proc s new_proc (\<lambda>p. p\<lparr>page_directory := clone\<rparr>);
     s \<leftarrow> upd_proc s pp (\<lambda>p. p\<lparr>thread_rsp := rsp s + 8\<rparr>);
     s \<leftarrow> upd_proc s new_proc (\<lambda>p. p\<lparr>thread_rsp := child_rsp - 8 - 15 * 8\<rparr>);
     s \<leftarrow> make_process_ready s new_proc;
     p \<leftarrow> procs s new_proc;
     Some (pid p, s\<lparr>interrupts := True\<rparr>)
   }"


subsection \<open>Cleanup\<close>

definition process_delete :: "kstate \<Rightarrow> ptr \<Rightarrow> kstate option" where
  "process_delete s proc = do {
     p \<leftarrow> procs s proc;
     let entry = tree_entry p;
     if entry = 0 then Some s
     else do {
       let s = free_raw s (image_stack (process_image p));
       t \<leftarrow> trees s (process_tree s);
       if entry = troot t then None
       else do {
         s \<leftarrow> lock_tree s;
         e \<leftarrow> tnodes s entry;
         _ \<leftarrow> lists s (children e);
         s \<leftarrow> tree_remove_reparent_root s (process_tree s) entry;
         l \<leftarrow> list_find s (process_list s) proc;
         s \<leftarrow> list_delete s (process_list s) l;
         s \<leftarrow> release_pid (unlock_tree s) (pid p);
         Some (free_process s proc)
       }
     }
   }"

text \<open>The loop of \<open>process_cleanup\<close> runs over the capacity, not the length, of the table.\<close>

fun close_files :: "nat \<Rightarrow> nat \<Rightarrow> fd_table \<Rightarrow> kstate \<Rightarrow> kstate option" where
  "close_files 0 i t s = Some s"
| "close_files (Suc k) i t s = do {
     e \<leftarrow> idx (fd_entries t) i;
     e \<leftarrow> e;
     s \<leftarrow> (if e \<noteq> 0 then close_fs s e else Some s);
     close_files k (Suc i) t s
   }"

definition process_cleanup :: "kstate \<Rightarrow> ptr \<Rightarrow> int \<Rightarrow> kstate option" where
  "process_cleanup s proc retval = do {
     s \<leftarrow> upd_proc s proc (\<lambda>p. p\<lparr>status := retval, finished := True\<rparr>);
     p \<leftarrow> procs s proc;
     t \<leftarrow> file_descriptors p;
     let t = t\<lparr>fd_refs := fd_refs t - 1\<rparr>;
     if fd_refs t = 0 then do {
       s \<leftarrow> close_files (fd_capacity t) 0 t s;
       upd_proc s proc (\<lambda>p. p\<lparr>file_descriptors := None\<rparr>)
     }
     else upd_proc s proc (\<lambda>p. p\<lparr>file_descriptors := Some t\<rparr>)
   }"

definition process_reap :: "kstate \<Rightarrow> ptr \<Rightarrow> kstate option" where
  "process_reap s proc = do {
     p \<leftarrow> procs s proc;
     let s = free_raw s (name p);
     let s = (if description p \<noteq> 0 then free_raw s (description p) else s);
     process_delete s proc
   }"

definition process_exit :: "u64 \<Rightarrow> int \<Rightarrow> kstate \<Rightarrow> kstate option" where
  "process_exit return_addr retval s = do {
     c \<leftarrow> procs s (current_process s);
     if pid c = 0 then process_switch_task return_addr True s
     else do {
       s \<leftarrow> process_cleanup s (current_process s) retval;
       process_switch_task return_addr False s
     }
   }"

subsection \<open>Queries\<close>

definition process_get_current :: "kstate \<Rightarrow> ptr" where
  "process_get_current s = current_process s"

definition process_get_pid :: "kstate \<Rightarrow> int option" where
  "process_get_pid s = do { c \<leftarrow> procs s (current_process s); Some (pid c) }"

text \<open>The comparison of \<open>process_from_pid\<close>; the values in the tree are processes.\<close>

definition process_compare :: "kstate \<Rightarrow> int \<Rightarrow> ptr \<Rightarrow> bool" where
  "process_compare s i proc = (case procs s proc of None \<Rightarrow> False | Some p \<Rightarrow> pid p = i)"

definition process_from_pid :: "kstate \<Rightarrow> int \<Rightarrow> (ptr \<times> kstate) option" where
  "process_from_pid s i =
     (if i < 0 then Some (0, s)
      else do {
        s \<leftarrow> lock_tree s;
        entry \<leftarrow> tree_find s (process_tree s) 0 (\<lambda>v _. process_compare s i v);
        let s = unlock_tree s;
        if entry \<noteq> 0 then do { e \<leftarrow> tnodes s entry; Some (tvalue e, s) } else Some (0, s)
      })"

definition process_get_parent :: "kstate \<Rightarrow> ptr \<Rightarrow> (ptr \<times> kstate) option" where
  "process_get_parent s proc = do {
     s \<leftarrow> lock_tree s;
     p \<leftarrow> procs s proc;
     e \<leftarrow> tnodes s (tree_entry p);
     r \<leftarrow> (if parent e \<noteq> 0 then do { q \<leftarrow> tnodes s (parent e); Some (tvalue q) } else Some 0);
     Some (r, unlock_tree s)
   }"

definition process_disown :: "(kstate \<Rightarrow> ptr) \<Rightarrow> kstate \<Rightarrow> ptr \<Rightarrow> kstate option" where
  "process_disown malloc s proc = do {
     t \<leftarrow> trees s (process_tree s);
     if troot t = 0 then None
     else do {
       p \<leftarrow> procs s proc;
       s \<leftarrow> lock_tree s;
       s \<leftarrow> tree_break_off s (tree_entry p);
       t \<leftarrow> trees s (process_tree s);
       s \<leftarrow> tree_node_insert_child_node malloc s (process_tree s) (troot t) (tree_entry p);
       Some (unlock_tree s)
     }
   }"

subsection \<open>File descriptors\<close>

text \<open>
  \<open>process_append_fd\<close> on the table: the first free place below the length, or a new place at the end;
  a full table is reallocated with twice the capacity, the new cells are not cleared. Which of the three
  calls of \<open>realloc\<close> get memory is an argument: the code does not test for the null pointer that the
  others give, which has no cells. Sizes are \<open>size_t\<close>: the products wrap around.
\<close>

fun find_free_fd :: "fd_table \<Rightarrow> nat \<Rightarrow> nat \<Rightarrow> nat option option" where
  "find_free_fd t i 0 = Some None"
| "find_free_fd t i (Suc k) = do {
     e \<leftarrow> idx (fd_entries t) i;
     e \<leftarrow> e;
     if e = 0 then Some (Some i) else find_free_fd t (Suc i) k
   }"

definition put_fd :: "fd_table \<Rightarrow> nat \<Rightarrow> ptr \<Rightarrow> fd_table option" where
  "put_fd t i node = do {
     es \<leftarrow> upd (fd_entries t) i (Some node);
     ms \<leftarrow> upd (fd_modes t) i (Some 0);
     offs \<leftarrow> upd (fd_offsets t) i (Some 0);
     Some (t\<lparr>fd_entries := es, fd_modes := ms, fd_offsets := offs\<rparr>)
   }"

type_synonym reallocs = "bool \<times> bool \<times> bool"

definition realloc_cells :: "bool \<Rightarrow> nat \<Rightarrow> nat \<Rightarrow> 'a option list \<Rightarrow> 'a option list" where
  "realloc_cells ok cell_size n xs =
     (if ok then let k = cell_size * n mod 2 ^ 64 div cell_size in take k xs @ replicate (k - length xs) None else [])"

definition grow_fd :: "reallocs \<Rightarrow> fd_table \<Rightarrow> fd_table" where
  "grow_fd got t =
     (if fd_length t = fd_capacity t then
        (let (es, ms, offs) = got; n = fd_capacity t * 2 mod 2 ^ 64
         in t\<lparr>fd_capacity := n, fd_entries := realloc_cells es 8 n (fd_entries t),
              fd_modes := realloc_cells ms 4 n (fd_modes t), fd_offsets := realloc_cells offs 8 n (fd_offsets t)\<rparr>)
      else t)"

definition fd_append :: "reallocs \<Rightarrow> fd_table \<Rightarrow> ptr \<Rightarrow> (nat \<times> fd_table) option" where
  "fd_append got t node = do {
     r \<leftarrow> find_free_fd t 0 (fd_length t);
     case r of
       Some i \<Rightarrow> do { t \<leftarrow> put_fd t i node; Some (i, t) }
     | None \<Rightarrow> do {
         t \<leftarrow> put_fd (grow_fd got t) (fd_length t) node;
         Some (fd_length t, t\<lparr>fd_length := (fd_length t + 1) mod 2 ^ 64\<rparr>)
       }
   }"

definition process_append_fd :: "reallocs \<Rightarrow> kstate \<Rightarrow> ptr \<Rightarrow> ptr \<Rightarrow> (nat \<times> kstate) option" where
  "process_append_fd got s proc node = do {
     p \<leftarrow> procs s proc;
     t \<leftarrow> file_descriptors p;
     (i, t) \<leftarrow> fd_append got t node;
     Some (i, set_proc s proc (p\<lparr>file_descriptors := Some t\<rparr>))
   }"

text \<open>The casts to \<open>size_t\<close> make a negative descriptor larger than every length.\<close>

definition process_move_fd :: "reallocs \<Rightarrow> kstate \<Rightarrow> ptr \<Rightarrow> int \<Rightarrow> int \<Rightarrow> (int \<times> kstate) option" where
  "process_move_fd got s proc src dest = do {
     p \<leftarrow> procs s proc;
     t \<leftarrow> file_descriptors p;
     let beyond = (\<lambda>d. d < 0 \<or> int (fd_length t) < d);
     if beyond src \<or> (dest \<noteq> -1 \<and> beyond dest) then Some (-1, s)
     else do {
       (dest, s) \<leftarrow> (if dest = -1 then do { (i, s) \<leftarrow> process_append_fd got s proc 0; Some (i, s) } else Some (nat dest, s));
       p \<leftarrow> procs s proc;
       t \<leftarrow> file_descriptors p;
       d \<leftarrow> idx (fd_entries t) dest;
       d \<leftarrow> d;
       e \<leftarrow> idx (fd_entries t) (nat src);
       e \<leftarrow> e;
       if d \<noteq> e then do {
         s \<leftarrow> close_fs s d;
         m \<leftarrow> idx (fd_modes t) (nat src);
         off \<leftarrow> idx (fd_offsets t) (nat src);
         es \<leftarrow> upd (fd_entries t) dest (Some e);
         ms \<leftarrow> upd (fd_modes t) dest m;
         offs \<leftarrow> upd (fd_offsets t) dest off;
         s \<leftarrow> upd_proc s proc (\<lambda>p. p\<lparr>file_descriptors := Some (t\<lparr>fd_entries := es, fd_modes := ms, fd_offsets := offs\<rparr>)\<rparr>);
         s \<leftarrow> open_fs s e 0;
         Some (int dest, s)
       }
       else Some (int dest, s)
     }
   }"

subsection \<open>Waiting for a child\<close>

definition ECHILD :: int where
  "ECHILD = 10"

definition wait_candidate :: "kstate \<Rightarrow> int \<Rightarrow> ptr \<Rightarrow> bool option" where
  "wait_candidate s i proc =
     (if proc = 0 then Some False
      else do {
        p \<leftarrow> procs s proc;
        Some (if i < -1 then pid p = -i else if i > 0 then pid p = i else True)
      })"

text \<open>The loop over the children: whether one matches, and the first that matches and has finished.\<close>

partial_function (option) wait_scan :: "kstate \<Rightarrow> int \<Rightarrow> ptr \<Rightarrow> bool \<Rightarrow> (bool \<times> ptr) option" where
  "wait_scan s i node has_children =
     (if node = 0 then Some (has_children, 0)
      else do {
        n \<leftarrow> nodes s node;
        if payload n = 0 then wait_scan s i (lnext n) has_children
        else do {
          t \<leftarrow> tnodes s (payload n);
          let child = tvalue t;
          b \<leftarrow> wait_candidate s i child;
          if b then do {
            c \<leftarrow> procs s child;
            if finished c then Some (True, child) else wait_scan s i (lnext n) True
          }
          else wait_scan s i (lnext n) has_children
        }
      })"

datatype wait_result = No_child int | Reaped int int | Waiting_on

text \<open>
  One round of the loop of \<open>waitpid\<close>: an error, a finished child (its status and identifier), or the
  process has gone to sleep and makes the next round when it runs again.
\<close>

definition waitpid_round :: "u64 \<Rightarrow> int \<Rightarrow> kstate \<Rightarrow> (wait_result \<times> kstate) option" where
  "waitpid_round return_addr i s = do {
     c \<leftarrow> procs s (current_process s);
     e \<leftarrow> tnodes s (tree_entry c);
     l \<leftarrow> lists s (children e);
     (has_children, candidate) \<leftarrow> wait_scan s i (lhead l) False;
     if \<not> has_children then Some (No_child (- ECHILD), s)
     else if candidate \<noteq> 0 then do {
       p \<leftarrow> procs s candidate;
       s \<leftarrow> (if finished p then process_reap s candidate else Some s);
       Some (Reaped (status p) (pid p), s)
     }
     else do { s \<leftarrow> process_sleep return_addr 200 s; Some (Waiting_on, s) }
   }"

end
