(* ===== verification/Process_Props.thy ===== *)
theory Process_Props
  imports Process Sched_Props Ktree_Props
begin

text \<open>
  Process identifiers, the file table of a process, the search for a process, and what \<open>waitpid\<close>
  finds among the children.
\<close>

subsection \<open>Process identifiers\<close>

definition used_pids :: "kstate \<Rightarrow> nat set" where
  "used_pids s = members (pid_set s)"

lemma get_next_free_pid_ok:
  assumes "bitset_ok (pid_set s)"
  shows "(\<exists>b s'. get_next_free_pid s = Some (int b, s') \<and> lowest_free (pid_set s) b \<and>
            bitset_ok (pid_set s') \<and> used_pids s' = insert b (used_pids s) \<and> length (bs_data (pid_set s')) = length (bs_data (pid_set s))) \<or>
         (get_next_free_pid s = Some (-1, s) \<and> used_pids s = {..< 8 * length (bs_data (pid_set s))})"
  using bitset_ffub_ok [OF assms]
proof (elim disjE exE conjE)
  fix b t assume t: "bitset_ffub (pid_set s) = Some (int b, t)" "lowest_free (pid_set s) b" "bitset_ok t"
    "members t = insert b (members (pid_set s))"
  have "bs_size t = bs_size (pid_set s)" "length (bs_data t) = length (bs_data (pid_set s))"
    using ffub_from_ok [of 0 "unat (bs_size (pid_set s))" "pid_set s"] assms t(1)
    by (auto simp: bitset_ok_def bitset_ffub_def)
  moreover from this have "b < 8 * length (bs_data t)" using t(2) by (simp add: lowest_free_def)
  from bitset_set_ok [OF this] obtain u where
    "bitset_set t b = Some u" "members u = insert b (members t)" "length (bs_data u) = length (bs_data t)" "bs_size u = bs_size t"
    by blast
  ultimately show ?thesis
    using t by (auto simp: get_next_free_pid_def used_pids_def bitset_ok_def)
next
  assume "bitset_ffub (pid_set s) = Some (-1, pid_set s)" "members (pid_set s) = {..< 8 * length (bs_data (pid_set s))}"
  then show ?thesis by (simp add: get_next_free_pid_def used_pids_def)
qed

lemma release_pid_ok:
  assumes "bitset_ok (pid_set s)" "b < 8 * length (bs_data (pid_set s))"
  shows "\<exists>s'. release_pid s (int b) = Some s' \<and> bitset_ok (pid_set s') \<and> used_pids s' = used_pids s - {b}"
  using bitset_clear_ok [OF assms(2)] assms(1)
  by (auto simp: release_pid_def used_pids_def bitset_ok_def)

text \<open>
  \<open>get_next_free_pid\<close> hands out the least identifier that is not in use and takes it, or reports
  -1 exactly when all are in use; so two processes never get the same identifier, until
  \<open>release_pid\<close> has given it back, which makes exactly that one free again.
\<close>

theorem pids_unique:
  assumes "bitset_ok (pid_set s)"
  shows "(\<exists>b s'. get_next_free_pid s = Some (int b, s') \<and> b < 8 * length (bs_data (pid_set s)) \<and>
            b \<notin> used_pids s \<and> (\<forall>c < b. c \<in> used_pids s) \<and> bitset_ok (pid_set s') \<and> used_pids s' = insert b (used_pids s) \<and>
            (\<forall>c s''. get_next_free_pid s' = Some (c, s'') \<longrightarrow> c \<noteq> int b) \<and>
            (\<exists>t. release_pid s' (int b) = Some t \<and> used_pids t = used_pids s)) \<or>
         (get_next_free_pid s = Some (-1, s) \<and> used_pids s = {..< 8 * length (bs_data (pid_set s))})"
  using get_next_free_pid_ok [OF assms]
proof (elim disjE exE conjE)
  fix b s' assume a: "get_next_free_pid s = Some (int b, s')" "lowest_free (pid_set s) b" "bitset_ok (pid_set s')"
    "used_pids s' = insert b (used_pids s)" "length (bs_data (pid_set s')) = length (bs_data (pid_set s))"
  have n: "b \<notin> used_pids s" and l: "\<forall>c < b. c \<in> used_pids s" and lt: "b < 8 * length (bs_data (pid_set s'))"
    using a(2,5) by (simp_all add: lowest_free_def used_pids_def)
  have fresh: "\<forall>c s''. get_next_free_pid s' = Some (c, s'') \<longrightarrow> c \<noteq> int b"
  proof (intro allI impI)
    fix c s'' assume c: "get_next_free_pid s' = Some (c, s'')"
    from get_next_free_pid_ok [OF a(3)] consider
      b' where "c = int b'" "b' \<notin> used_pids s'" | "c = -1"
      by (elim disjE exE conjE) (use c in \<open>simp_all add: lowest_free_def used_pids_def\<close>)
    then show "c \<noteq> int b" using a(4) by cases auto
  qed
  have returned: "\<exists>t. release_pid s' (int b) = Some t \<and> used_pids t = used_pids s"
    using release_pid_ok [OF a(3) lt] a(4) n by auto
  have lt': "b < 8 * length (bs_data (pid_set s))" using lt a(5) by simp
  show ?thesis
    by (intro disjI1 exI [of _ b] exI [of _ s'] conjI a(1,3,4) n l lt' fresh returned)
qed simp

theorem pids_unique_witness:
  "get_next_free_pid (ks_ready\<lparr>pid_set := \<lparr>bs_data = [0xFF], bs_size = 1\<rparr>\<rparr>) =
     Some (-1, ks_ready\<lparr>pid_set := \<lparr>bs_data = [0xFF], bs_size = 1\<rparr>\<rparr>)"
proof -
  let ?s = "ks_ready\<lparr>pid_set := \<lparr>bs_data = [0xFF], bs_size = 1\<rparr>\<rparr>"
  have ok: "bitset_ok (pid_set ?s)" by (simp add: bitset_ok_def)
  have "bit (0xFF :: u8) k" if "k < 8" for k using byte_full_iff [of "0xFF"] that by simp
  then have all: "b \<in> used_pids ?s" if "b < 8" for b
    using that by (simp add: used_pids_def members_def)
  from pids_unique [OF ok] show ?thesis
  proof (elim disjE exE conjE)
    fix b s' assume "b < 8 * length (bs_data (pid_set ?s))" "b \<notin> used_pids ?s"
    then show ?thesis using all [of b] by simp
  qed simp
qed


subsection \<open>File tables\<close>

text \<open>The three arrays have the capacity as their length, and the cells below the length are written.\<close>

definition fd_ok :: "fd_table \<Rightarrow> bool" where
  "fd_ok t \<longleftrightarrow>
     length (fd_entries t) = fd_capacity t \<and> length (fd_offsets t) = fd_capacity t \<and>
     length (fd_modes t) = fd_capacity t \<and> fd_length t \<le> fd_capacity t \<and> 0 < fd_capacity t \<and>
     (\<forall>i < fd_length t. fd_entries t ! i \<noteq> None \<and> fd_offsets t ! i \<noteq> None \<and> fd_modes t ! i \<noteq> None)"

lemma find_free_fd_ok:
  "i + k \<le> length (fd_entries t) \<Longrightarrow> (\<And>j. j < i + k \<Longrightarrow> fd_entries t ! j \<noteq> None) \<Longrightarrow>
     find_free_fd t i k = Some (List.find (\<lambda>j. fd_entries t ! j = Some 0) [i..<i + k])"
proof (induction k arbitrary: i)
  case (Suc k)
  obtain e where e: "fd_entries t ! i = Some e" using Suc.prems(2) [of i] by auto
  have "[i..<i + Suc k] = i # [Suc i..<Suc i + k]" by (simp add: upt_conv_Cons)
  then show ?case
    using Suc.IH [of "Suc i"] Suc.prems e by simp
qed simp

lemma put_fd_ok:
  "fd_ok t \<or> (length (fd_entries t) = fd_capacity t \<and> length (fd_offsets t) = fd_capacity t \<and>
     length (fd_modes t) = fd_capacity t) \<Longrightarrow> i < fd_capacity t \<Longrightarrow>
     put_fd t i node = Some (t\<lparr>fd_entries := (fd_entries t)[i := Some node], fd_modes := (fd_modes t)[i := Some 0],
       fd_offsets := (fd_offsets t)[i := Some 0]\<rparr>)"
  by (auto simp: put_fd_def fd_ok_def)

text \<open>The table in which descriptor \<open>i\<close> refers to the node.\<close>

definition has_fd :: "fd_table \<Rightarrow> nat \<Rightarrow> ptr \<Rightarrow> bool" where
  "has_fd t i node \<longleftrightarrow> fd_entries t ! i = Some node \<and> fd_modes t ! i = Some 0 \<and> fd_offsets t ! i = Some 0"

definition same_fd :: "fd_table \<Rightarrow> fd_table \<Rightarrow> nat \<Rightarrow> bool" where
  "same_fd t t' j \<longleftrightarrow> fd_entries t' ! j = fd_entries t ! j \<and> fd_modes t' ! j = fd_modes t ! j \<and> fd_offsets t' ! j = fd_offsets t ! j"

lemma realloc_cells_double:
  assumes "8 * (n * 2) < 2 ^ 64" and "w = 4 \<or> w = 8" and "length xs = n"
  shows "realloc_cells True w (n * 2) xs = xs @ replicate n None"
proof -
  have "w * (n * 2) mod 2 ^ 64 = w * (n * 2)" using assms(1,2) by (intro mod_less) auto
  then have "w * (n * 2) mod 2 ^ 64 div w = n * 2" using assms(2) by auto
  then show ?thesis unfolding realloc_cells_def using assms(3) by (simp add: Let_def)
qed

lemma grow_fd_ok:
  assumes ok: "fd_ok t" and small: "16 * fd_capacity t < 2 ^ 64"
  defines "g \<equiv> grow_fd (True, True, True) t"
  shows "length (fd_entries g) = fd_capacity g" "length (fd_offsets g) = fd_capacity g" "length (fd_modes g) = fd_capacity g"
    "fd_length g = fd_length t" "fd_length t < fd_capacity g"
    "fd_capacity g = (if fd_length t = fd_capacity t then 2 * fd_capacity t else fd_capacity t)"
    "j < fd_length t \<Longrightarrow> same_fd t g j" "fd_refs g = fd_refs t"
proof -
  have o: "length (fd_entries t) = fd_capacity t" "length (fd_modes t) = fd_capacity t" "length (fd_offsets t) = fd_capacity t"
    "fd_length t \<le> fd_capacity t" "0 < fd_capacity t" using ok by (simp_all add: fd_ok_def)
  have m: "fd_capacity t * 2 mod 2 ^ 64 = fd_capacity t * 2" using small by (intro mod_less) simp
  have b: "8 * (fd_capacity t * 2) < 2 ^ 64" using small by simp
  have r: "realloc_cells True 8 (fd_capacity t * 2) (fd_entries t) = fd_entries t @ replicate (fd_capacity t) None"
    "realloc_cells True 4 (fd_capacity t * 2) (fd_modes t) = fd_modes t @ replicate (fd_capacity t) None"
    "realloc_cells True 8 (fd_capacity t * 2) (fd_offsets t) = fd_offsets t @ replicate (fd_capacity t) None"
    by (rule realloc_cells_double [OF b]; simp add: o)+
  have g: "g = (if fd_length t = fd_capacity t then
      t\<lparr>fd_capacity := fd_capacity t * 2, fd_entries := fd_entries t @ replicate (fd_capacity t) None,
        fd_modes := fd_modes t @ replicate (fd_capacity t) None, fd_offsets := fd_offsets t @ replicate (fd_capacity t) None\<rparr>
      else t)"
    unfolding g_def grow_fd_def by (simp only: m r Let_def prod.case)
  show "length (fd_entries g) = fd_capacity g" "length (fd_offsets g) = fd_capacity g" "length (fd_modes g) = fd_capacity g"
    "fd_length g = fd_length t" "fd_length t < fd_capacity g"
    "fd_capacity g = (if fd_length t = fd_capacity t then 2 * fd_capacity t else fd_capacity t)"
    "j < fd_length t \<Longrightarrow> same_fd t g j" "fd_refs g = fd_refs t"
    using o by (auto simp: g same_fd_def nth_append)
qed

lemma put_fd_null: "fd_entries t = [] \<or> fd_modes t = [] \<or> fd_offsets t = [] \<Longrightarrow> put_fd t i node = None"
  by (auto simp: put_fd_def upd_def split: Option.bind_splits)

lemma grow_fd_fails:
  assumes "fd_length t = fd_capacity t" and "got \<noteq> (True, True, True)"
  shows "put_fd (grow_fd got t) i node = None"
proof -
  obtain es ms offs where got: "got = (es, ms, offs)" by (cases got)
  have null: "realloc_cells False w n xs = []" for w n and xs :: "'a option list" by (simp add: realloc_cells_def)
  have "fd_entries (grow_fd got t) = [] \<or> fd_modes (grow_fd got t) = [] \<or> fd_offsets (grow_fd got t) = []"
    using assms unfolding got grow_fd_def by (cases es; cases ms; cases offs) (simp_all add: Let_def null realloc_cells_def [of False])
  then show ?thesis by (rule put_fd_null)
qed

lemma fd_append_ok:
  assumes ok: "fd_ok t" and small: "16 * fd_capacity t < 2 ^ 64"
  shows "\<exists>i t'. fd_append got t node = (if i = fd_capacity t \<and> got \<noteq> (True, True, True) then None else Some (i, t')) \<and>
           i \<le> fd_length t \<and> (\<forall>j < i. fd_entries t ! j \<noteq> Some 0) \<and> (i < fd_length t \<longrightarrow> fd_entries t ! i = Some 0) \<and>
           fd_ok t' \<and> fd_length t' = max (fd_length t) (Suc i) \<and>
           fd_capacity t' = (if i = fd_capacity t then 2 * fd_capacity t else fd_capacity t) \<and>
           has_fd t' i node \<and> (\<forall>j < fd_length t. j \<noteq> i \<longrightarrow> same_fd t t' j) \<and> fd_refs t' = fd_refs t"
proof -
  have f: "find_free_fd t 0 (fd_length t) = Some (List.find (\<lambda>j. fd_entries t ! j = Some 0) [0..<fd_length t])"
    using ok find_free_fd_ok [of 0 "fd_length t" t] by (simp add: fd_ok_def)
  show ?thesis
  proof (cases "List.find (\<lambda>j. fd_entries t ! j = Some 0) [0..<fd_length t]")
    case (Some i)
    then have i: "i < fd_length t" "fd_entries t ! i = Some 0" "\<And>j. j < i \<Longrightarrow> fd_entries t ! j \<noteq> Some 0"
      by (auto simp: find_Some_iff)
    have "i < fd_capacity t" using i(1) ok by (simp add: fd_ok_def)
    with put_fd_ok [of t i node] ok f Some have "fd_append got t node = Some (i, t\<lparr>fd_entries := (fd_entries t)[i := Some node],
        fd_modes := (fd_modes t)[i := Some 0], fd_offsets := (fd_offsets t)[i := Some 0]\<rparr>)"
      by (simp add: fd_append_def)
    then show ?thesis using i ok by (auto simp: fd_ok_def nth_list_update has_fd_def same_fd_def)
  next
    case None
    let ?g = "grow_fd (True, True, True) t" and ?i = "fd_length t"
    note g = grow_fd_ok [OF ok small]
    let ?t = "?g\<lparr>fd_entries := (fd_entries ?g)[?i := Some node],
        fd_modes := (fd_modes ?g)[?i := Some 0], fd_offsets := (fd_offsets ?g)[?i := Some 0], fd_length := ?i + 1\<rparr>"
    have "(?i + 1) mod 2 ^ 64 = ?i + 1" using small ok by (intro mod_less) (auto simp: fd_ok_def)
    then have full: "fd_append (True, True, True) t node = Some (?i, ?t)"
      using f None put_fd_ok [of ?g ?i node] g(1-5) by (simp add: fd_append_def)
    have run: "fd_append got t node = (if ?i = fd_capacity t \<and> got \<noteq> (True, True, True) then None else Some (?i, ?t))"
    proof (cases "got = (True, True, True)")
      case False
      show ?thesis
      proof (cases "?i = fd_capacity t")
        case True
        then show ?thesis using False f None grow_fd_fails [OF True False, of ?i node] by (simp add: fd_append_def)
      next
        case i: False
        then have "grow_fd got t = grow_fd (True, True, True) t" by (simp add: grow_fd_def)
        then have "fd_append got t node = fd_append (True, True, True) t node" by (simp only: fd_append_def)
        then show ?thesis using full i by simp
      qed
    qed (use full in simp)
    have "fd_ok ?t"
      using g ok by (auto simp: fd_ok_def same_fd_def nth_list_update less_Suc_eq)
    moreover have "\<forall>j < ?i. fd_entries t ! j \<noteq> Some 0" using None by (auto simp: find_None_iff)
    moreover have "has_fd ?t ?i node" using g(1-5) by (simp add: has_fd_def)
    moreover have "same_fd t ?t j" if "j < ?i" "j \<noteq> ?i" for j using g(7) [of j] that by (simp add: same_fd_def)
    ultimately show ?thesis using run g(6,8) by (intro exI [of _ ?i] exI [of _ ?t]) simp
  qed
qed

text \<open>
  C39: \<open>process_append_fd\<close> chooses the lowest descriptor that is free (an empty place below the length, else
  the length) and makes it refer to the node, with mode and offset 0; node, mode and offset of every
  other descriptor stay, and the table stays well formed. Only a full table without an empty place is
  reallocated: it gets exactly twice its capacity, and when one of the three reallocations gives no
  memory, the code writes through a null pointer. (An array of the table that is twice as large must
  be smaller than the address space.)
\<close>

theorem process_append_fd_well_formed:
  assumes "procs s proc = Some p" and "file_descriptors p = Some t" and "fd_ok t" and "16 * fd_capacity t < 2 ^ 64"
  shows "\<exists>i t'. process_append_fd got s proc node =
             (if i = fd_capacity t \<and> got \<noteq> (True, True, True) then None
              else Some (i, set_proc s proc (p\<lparr>file_descriptors := Some t'\<rparr>))) \<and>
           i \<le> fd_length t \<and> (\<forall>j < i. fd_entries t ! j \<noteq> Some 0) \<and> (i < fd_length t \<longrightarrow> fd_entries t ! i = Some 0) \<and>
           fd_ok t' \<and> fd_length t' = max (fd_length t) (Suc i) \<and>
           fd_capacity t' = (if i = fd_capacity t then 2 * fd_capacity t else fd_capacity t) \<and>
           has_fd t' i node \<and> (\<forall>j < fd_length t. j \<noteq> i \<longrightarrow> same_fd t t' j) \<and> fd_refs t' = fd_refs t"
proof -
  obtain i t' where r: "fd_append got t node = (if i = fd_capacity t \<and> got \<noteq> (True, True, True) then None else Some (i, t'))"
    and t': "i \<le> fd_length t" "\<forall>j < i. fd_entries t ! j \<noteq> Some 0" "i < fd_length t \<longrightarrow> fd_entries t ! i = Some 0"
      "fd_ok t'" "fd_length t' = max (fd_length t) (Suc i)"
      "fd_capacity t' = (if i = fd_capacity t then 2 * fd_capacity t else fd_capacity t)"
      "has_fd t' i node" "\<forall>j < fd_length t. j \<noteq> i \<longrightarrow> same_fd t t' j" "fd_refs t' = fd_refs t"
    using fd_append_ok [OF assms(3,4), of got node] by blast
  have "process_append_fd got s proc node = (if i = fd_capacity t \<and> got \<noteq> (True, True, True) then None
      else Some (i, set_proc s proc (p\<lparr>file_descriptors := Some t'\<rparr>)))"
    using r assms(1,2) by (simp add: process_append_fd_def)
  with t' show ?thesis by blast
qed

definition fds_example :: fd_table where
  "fds_example = \<lparr>fd_entries = [Some 7, Some 0, None, None], fd_offsets = [Some 0, Some 0, None, None],
     fd_modes = [Some 0, Some 0, None, None], fd_length = 2, fd_capacity = 4, fd_refs = 1\<rparr>"

lemma fds_example_ok: "fd_ok fds_example"
  by (auto simp: fd_ok_def fds_example_def less_Suc_eq numeral_2_eq_2)

definition ks_files :: kstate where
  "ks_files = set_proc ks_ready 10 (zero_process\<lparr>pid := 10, running := True, file_descriptors := Some fds_example\<rparr>)"

text \<open>A full table.\<close>

definition fds_full :: fd_table where
  "fds_full = fds_example\<lparr>fd_entries := [Some 7, Some 8], fd_offsets := [Some 0, Some 0], fd_modes := [Some 0, Some 0], fd_capacity := 2\<rparr>"

definition ks_full :: kstate where
  "ks_full = set_proc ks_ready 10 (zero_process\<lparr>pid := 10, running := True, file_descriptors := Some fds_full\<rparr>)"

theorem process_append_fd_well_formed_witness:
  "\<exists>t'. process_append_fd (True, True, True) ks_full 10 9 =
      Some (2, set_proc ks_full 10 (zero_process\<lparr>pid := 10, running := True, file_descriptors := Some t'\<rparr>)) \<and>
    fd_capacity t' = 4 \<and> has_fd t' 2 9 \<and> same_fd fds_full t' 0 \<and> same_fd fds_full t' 1"
proof -
  have p: "procs ks_full 10 = Some (zero_process\<lparr>pid := 10, running := True, file_descriptors := Some fds_full\<rparr>)"
    by (simp add: ks_full_def)
  have ok: "fd_ok fds_full" by (auto simp: fd_ok_def fds_full_def fds_example_def less_Suc_eq numeral_2_eq_2)
  have f: "fd_length fds_full = 2" "fd_capacity fds_full = 2" "fd_entries fds_full = [Some 7, Some 8]"
    by (simp_all add: fds_full_def fds_example_def)
  obtain i t' where r: "process_append_fd (True, True, True) ks_full 10 9 =
      Some (i, set_proc ks_full 10 (zero_process\<lparr>pid := 10, running := True, file_descriptors := Some t'\<rparr>))"
    "i \<le> 2" "i < 2 \<longrightarrow> [Some 7, Some 8] ! i = Some (0 :: ptr)" "fd_capacity t' = (if i = 2 then 4 else 2)" "has_fd t' i 9"
    "\<forall>j < 2. j \<noteq> i \<longrightarrow> same_fd fds_full t' j"
    using process_append_fd_well_formed [OF p _ ok, of "(True, True, True)" 9] f by auto
  have "i = 2" using r(2,3) by (cases i rule: nat.exhaust) (auto simp: le_Suc_eq numeral_2_eq_2)
  then show ?thesis using r(1,4-6) by auto
qed

lemma close_files_unwritten:
  "i \<le> j \<Longrightarrow> j < i + k \<Longrightarrow> fd_entries t ! j = None \<Longrightarrow> close_files k i t s = None"
proof (induction k arbitrary: i s)
  case (Suc k)
  show ?case
  proof (cases "j = i")
    case True
    then show ?thesis using Suc.prems(3) by (auto simp: idx_def)
  next
    case False
    then have "close_files k (Suc i) t s' = None" for s' using Suc.prems Suc.IH [of "Suc i" s'] by simp
    then show ?thesis by (auto split: Option.bind_splits)
  qed
qed simp

text \<open>
  \<open>process_cleanup\<close> of the last reference reads the cells up to the capacity of the table: when one
  of them has never been written (as after every start with a table of four cells and fewer than
  four open files) it uses an undefined pointer.
\<close>

theorem process_cleanup_reads_unwritten:
  assumes "procs s proc = Some p" and "file_descriptors p = Some t" and "fd_refs t = 1"
    and "j < fd_capacity t" and "fd_entries t ! j = None"
  shows "process_cleanup s proc r = None"
proof -
  have "close_files (fd_capacity t) 0 (t\<lparr>fd_refs := 0\<rparr>) s' = None" for s'
    using close_files_unwritten [of 0 j "fd_capacity t" "t\<lparr>fd_refs := 0\<rparr>" s'] assms(4,5) by simp
  then show ?thesis using assms(1-3) by (simp add: process_cleanup_def upd_proc_def)
qed

theorem process_cleanup_reads_unwritten_witness: "process_cleanup ks_files 10 0 = None"
proof -
  have "procs ks_files 10 = Some (zero_process\<lparr>pid := 10, running := True, file_descriptors := Some fds_example\<rparr>)"
    by (simp add: ks_files_def)
  from process_cleanup_reads_unwritten [OF this, of fds_example 2 0] show ?thesis
    by (simp add: fds_example_def)
qed


subsection \<open>Finding a process\<close>

lemma tree_rep_cong:
  assumes "nodes h' = nodes h" "lists h' = lists h" "tnodes h' = tnodes h"
  shows "tree_rep h' par t \<longleftrightarrow> tree_rep h par t"
proof -
  have "pay h' = pay h" "list_rep h' = list_rep h"
    by (rule ext, simp add: pay_def assms(1)) (intro ext, simp add: list_rep_def assms(1,2))
  then show ?thesis by (induction t arbitrary: par) (simp add: assms(3))
qed

text \<open>
  \<open>process_from_pid\<close> finds no process but the one at the root of the process tree: for any
  non-negative identifier the result is that process if it has the identifier, and null otherwise,
  whatever processes the tree holds.
\<close>

theorem process_from_pid_only_root:
  assumes "trees s (process_tree s) = Some r" and "tree_rep s 0 t" and "troot r = top t"
    and "tnodes s (top t) = Some n" and "lock_val (tree_lock s) = 0" and "0 \<le> i"
  shows "process_from_pid s i = Some (if process_compare s i (tvalue n) then tvalue n else 0, s)"
proof -
  let ?s = "s\<lparr>tree_lock := (tree_lock s)\<lparr>lock_val := 1\<rparr>\<rparr>"
  have "tree_rep ?s 0 t" using assms(2) by (simp add: tree_rep_cong [of ?s s])
  then have "tree_node_find ?s (top t) 0 (\<lambda>v _. process_compare ?s i v) =
      Some (if process_compare ?s i (tvalue n) then top t else 0)"
    using assms(4) by (intro tree_node_find_rep) simp_all
  moreover have "process_compare ?s i = process_compare s i"
    by (simp add: process_compare_def fun_eq_iff)
  ultimately show ?thesis
    using assms tree_rep_top [OF assms(2)] unlock_lock [of "tree_lock s"]
    by (simp add: process_from_pid_def lock_tree_def acquire_free unlock_tree_def tree_find_def)
qed

definition ks_tree :: kstate where
  "ks_tree = ks_ready\<lparr>nodes := [21 \<mapsto> \<lparr>lnext = 0, lprev = 0, payload = 12\<rparr>],
     lists := [31 \<mapsto> \<lparr>lhead = 21, ltail = 21, llength = 1\<rparr>, 32 \<mapsto> \<lparr>lhead = 0, ltail = 0, llength = 0\<rparr>],
     tnodes := [11 \<mapsto> \<lparr>tvalue = 10, children = 31, parent = 0\<rparr>, 12 \<mapsto> \<lparr>tvalue = 20, children = 32, parent = 11\<rparr>],
     trees := [7 \<mapsto> \<lparr>tcount = 2, troot = 11\<rparr>], process_tree := 7\<rparr>"

lemma ks_tree_rep: "tree_rep ks_tree 0 (KNode 11 [KNode 12 []])"
proof -
  have "list_rep ks_tree 31 [21]" "list_rep ks_tree 32 []" "pay ks_tree 21 = 12"
    by (simp_all add: ks_tree_def list_rep_def pay_def)
  moreover have "tnodes ks_tree 11 = Some \<lparr>tvalue = 10, children = 31, parent = 0\<rparr>"
    "tnodes ks_tree 12 = Some \<lparr>tvalue = 20, children = 32, parent = 11\<rparr>"
    by (simp_all add: ks_tree_def)
  ultimately show ?thesis by (auto intro!: exI [of _ "[21]"])
qed

theorem process_from_pid_only_root_witness:
  "process_from_pid ks_tree 20 = Some (0, ks_tree) \<and> procs ks_tree 20 \<noteq> None"
proof -
  have t: "trees ks_tree (process_tree ks_tree) = Some \<lparr>tcount = 2, troot = 11\<rparr>"
    "tnodes ks_tree 11 = Some \<lparr>tvalue = 10, children = 31, parent = 0\<rparr>"
    by (simp_all add: ks_tree_def)
  have l: "lock_val (tree_lock ks_tree) = 0" and c: "\<not> process_compare ks_tree 20 10" "procs ks_tree 20 \<noteq> None"
    by (simp_all add: ks_tree_def ks_ready_def ks_example_def process_compare_def zero_process_def)
  from process_from_pid_only_root [OF t(1) ks_tree_rep _ _ l, of "\<lparr>tvalue = 10, children = 31, parent = 0\<rparr>" 20]
  show ?thesis using t(2) c by simp
qed

subsection \<open>Waiting\<close>

text \<open>The process of a child: the value of the tree node that a node of the children list names.\<close>

definition child_of :: "kstate \<Rightarrow> ptr \<Rightarrow> ptr" where
  "child_of s l = tvalue (the (tnodes s (pay s l)))"

definition awaits :: "kstate \<Rightarrow> int \<Rightarrow> ptr \<Rightarrow> bool" where
  "awaits s i l \<longleftrightarrow>
     (let p = the (procs s (child_of s l))
      in if i < -1 then pid p = -i else if i > 0 then pid p = i else True)"

definition done_child :: "kstate \<Rightarrow> ptr \<Rightarrow> bool" where
  "done_child s l \<longleftrightarrow> finished (the (procs s (child_of s l)))"

definition children_ok :: "kstate \<Rightarrow> ptr list \<Rightarrow> bool" where
  "children_ok s ls \<longleftrightarrow>
     (\<forall>l \<in> set ls. pay s l \<noteq> 0 \<and> tnodes s (pay s l) \<noteq> None \<and> child_of s l \<noteq> 0 \<and> procs s (child_of s l) \<noteq> None)"

lemma wait_scan_chain:
  "chain (nodes s) node q ls lst 0 \<Longrightarrow> children_ok s ls \<Longrightarrow>
     wait_scan s i node b =
       Some (case List.find (\<lambda>l. awaits s i l \<and> done_child s l) ls of
               Some l \<Rightarrow> (True, child_of s l) | None \<Rightarrow> (b \<or> (\<exists>l \<in> set ls. awaits s i l), 0))"
proof (induction ls arbitrary: node q b)
  case Nil
  then show ?case by (subst wait_scan.simps) simp
next
  case (Cons l ls)
  from Cons.prems(1) obtain n where n: "node = l" "l \<noteq> 0" "nodes s l = Some n" "chain (nodes s) (lnext n) l ls lst 0"
    by auto
  from Cons.prems(2) have ok: "children_ok s ls" and "pay s l \<noteq> 0" "tnodes s (pay s l) \<noteq> None"
    "child_of s l \<noteq> 0" "procs s (child_of s l) \<noteq> None"
    by (simp_all add: children_ok_def)
  then obtain t p where t: "payload n \<noteq> 0" "tnodes s (payload n) = Some t" "tvalue t \<noteq> 0" "procs s (tvalue t) = Some p"
    and c: "child_of s l = tvalue t"
    using n(3) by (auto simp: child_of_def pay_def)
  have w: "wait_candidate s i (tvalue t) = Some (awaits s i l)"
    using t c by (simp add: wait_candidate_def awaits_def)
  have d: "done_child s l = finished p" using t c by (simp add: done_child_def)
  have "wait_scan s i node b =
      (if awaits s i l then if finished p then Some (True, tvalue t) else wait_scan s i (lnext n) True
       else wait_scan s i (lnext n) b)"
    using n(1-3) t w by (subst wait_scan.simps) simp
  then show ?case
    using Cons.IH [OF n(4) ok] d c by (auto split: option.splits)
qed

text \<open>
  A round of \<open>waitpid\<close> over the children of the current process returns \<open>-ECHILD\<close> exactly when no
  child matches the argument (an identifier, the negated identifier below -1, anything otherwise),
  and otherwise reaps the first matching child that has finished; when none has, the process goes
  to sleep.
\<close>

theorem waitpid_round_cases:
  assumes "procs s (current_process s) = Some c" and "tnodes s (tree_entry c) = Some e"
    and "list_rep s (children e) ls" and "children_ok s ls"
  shows "(waitpid_round ra i s = Some (No_child (- ECHILD), s) \<longleftrightarrow> (\<forall>l \<in> set ls. \<not> awaits s i l)) \<and>
    (\<forall>l. List.find (\<lambda>l. awaits s i l \<and> done_child s l) ls = Some l \<longrightarrow>
       waitpid_round ra i s = map_option (\<lambda>s'. (Reaped (status (the (procs s (child_of s l))))
         (pid (the (procs s (child_of s l)))), s')) (process_reap s (child_of s l))) \<and>
    ((\<exists>l \<in> set ls. awaits s i l) \<and> (\<forall>l \<in> set ls. awaits s i l \<longrightarrow> \<not> done_child s l) \<longrightarrow>
       waitpid_round ra i s = map_option (\<lambda>s'. (Waiting_on, s')) (process_sleep ra 200 s))"
proof -
  from assms(3) obtain r where r: "lists s (children e) = Some r" "chain (nodes s) (lhead r) 0 ls (ltail r) 0"
    by (auto simp: list_rep_def)
  note scan = wait_scan_chain [OF r(2) assms(4), of i False]
  let ?f = "List.find (\<lambda>l. awaits s i l \<and> done_child s l) ls"
  consider (found) l where "?f = Some l" | (none) "?f = None" "\<forall>l \<in> set ls. \<not> awaits s i l"
    | (wait) "?f = None" "\<exists>l \<in> set ls. awaits s i l"
    by (cases ?f) auto
  then show ?thesis
  proof cases
    case found
    then have l: "l \<in> set ls" "awaits s i l" "done_child s l" by (auto simp: find_Some_iff)
    then obtain p where p: "procs s (child_of s l) = Some p" "child_of s l \<noteq> 0" "finished p"
      using assms(4) by (auto simp: children_ok_def done_child_def)
    have "waitpid_round ra i s = map_option (\<lambda>s'. (Reaped (status p) (pid p), s')) (process_reap s (child_of s l))"
      using assms(1,2) r(1) scan found p
      by (cases "process_reap s (child_of s l)") (simp_all add: waitpid_round_def)
    then show ?thesis using l p found by (auto split: option.splits)
  next
    case none
    then show ?thesis using assms(1,2) r(1) scan by (auto simp: waitpid_round_def)
  next
    case wait
    have "waitpid_round ra i s = map_option (\<lambda>s'. (Waiting_on, s')) (process_sleep ra 200 s)"
      using assms(1,2) r(1) scan wait by (cases "process_sleep ra 200 s") (simp_all add: waitpid_round_def)
    moreover have "waitpid_round ra i s \<noteq> Some (No_child (- ECHILD), s)"
      unfolding \<open>waitpid_round ra i s = _\<close> by (cases "process_sleep ra 200 s") simp_all
    ultimately show ?thesis using wait by simp
  qed
qed

definition ks_wait :: kstate where
  "ks_wait = set_proc ks_tree 10 (zero_process\<lparr>pid := 1, running := True, tree_entry := 11\<rparr>)"

theorem waitpid_round_cases_witness:
  "waitpid_round 0 99 ks_wait = Some (No_child (- ECHILD), ks_wait)"
proof -
  have c: "procs ks_wait (current_process ks_wait) = Some (zero_process\<lparr>pid := 1, running := True, tree_entry := 11\<rparr>)"
    by (simp add: ks_wait_def ks_tree_def ks_ready_def ks_example_def)
  have e: "tnodes ks_wait 11 = Some \<lparr>tvalue = 10, children = 31, parent = 0\<rparr>"
    and l: "list_rep ks_wait 31 [21]"
    by (simp_all add: ks_wait_def ks_tree_def list_rep_def set_proc_def)
  have k: "pay ks_wait 21 = 12" "child_of ks_wait 21 = 20"
    by (simp_all add: ks_wait_def ks_tree_def pay_def child_of_def set_proc_def)
  have p: "procs ks_wait 20 = Some (zero_process\<lparr>pid := 20, started := True, running := False, sleep_ticks := 9\<rparr>)"
    by (simp add: ks_wait_def ks_tree_def ks_ready_def ks_example_def)
  have "tnodes ks_wait 12 = Some \<lparr>tvalue = 20, children = 32, parent = 11\<rparr>"
    by (simp add: ks_wait_def ks_tree_def set_proc_def)
  then have "children_ok ks_wait [21]" using k p by (simp add: children_ok_def)
  moreover have "\<not> awaits ks_wait 99 21" using k p by (simp add: awaits_def)
  ultimately show ?thesis
    using waitpid_round_cases [OF c _ _, of "\<lparr>tvalue = 10, children = 31, parent = 0\<rparr>" "[21]" 0 99, THEN conjunct1] e l
    by (simp add: zero_process_def)
qed

end
