(* ===== verification/Hashmap.thy ===== *)
theory Hashmap
  imports OS6_Prelude
begin

text \<open>
  The chained hash map of the kernel, kernel/src/util/hashmap.c, and libk's \<open>strcmp\<close> it compares
  string keys with.

  A chain of entries is reached from its cell of the table only, so it is the list of its entries.
  A string is the list of its characters before the terminating zero, a value is an address with
  0 for \<open>NULL\<close>. The functions stored in the structure are fields of the record, as in the code. An
  operation is \<open>None\<close> where the code divides by a size of zero, leaves the table or dereferences a
  null entry.
\<close>

subsection \<open>State\<close>

record 'k entry =
  ekey :: 'k
  evalue :: nat

text \<open>
  \<open>hm_freed\<close> records the entries whose key went to \<open>hash_key_free\<close> and which went to
  \<open>hash_val_free\<close> themselves.
\<close>

record 'k hashmap =
  hash_func :: "'k \<Rightarrow> u64"
  hash_comp :: "'k \<Rightarrow> 'k \<Rightarrow> int"
  hash_key_dup :: "'k \<Rightarrow> 'k"
  hm_size :: u64
  hm_entries :: "'k entry list list"
  hm_freed :: "'k entry list"

subsection \<open>Keys\<close>

type_synonym cstring = "u8 list"

text \<open>\<open>strcmp\<close> reads both strings as unsigned characters, up to and including the terminator.\<close>

fun strcmp :: "cstring \<Rightarrow> cstring \<Rightarrow> int" where
  "strcmp s t =
     (let res = (case s of [] \<Rightarrow> 0 | c # _ \<Rightarrow> uint c) - (case t of [] \<Rightarrow> 0 | d # _ \<Rightarrow> uint d) in
      if res = 0 \<and> t \<noteq> [] \<and> s \<noteq> [] then strcmp (tl s) (tl t)
      else if res < 0 then -1 else if res > 0 then 1 else 0)"

declare strcmp.simps [simp del]

text \<open>\<open>char\<close> is signed: a character is sign-extended before it is added.\<close>

fun string_hash_from :: "u64 \<Rightarrow> cstring \<Rightarrow> u64" where
  "string_hash_from h [] = h"
| "string_hash_from h (c # cs) = string_hash_from (scast c + push_bit 6 h + push_bit 16 h - h) cs"

definition hashmap_string_hash :: "cstring \<Rightarrow> u64" where
  "hashmap_string_hash key = string_hash_from 0 key"

definition hashmap_string_comp :: "cstring \<Rightarrow> cstring \<Rightarrow> int" where
  "hashmap_string_comp a b = (if strcmp a b = 0 then 1 else 0)"

text \<open>\<open>strdup\<close> when its allocation succeeds: a copy with the same characters.\<close>

definition hashmap_string_dupe :: "cstring \<Rightarrow> cstring" where
  "hashmap_string_dupe key = key"

definition hashmap_int_hash :: "u64 \<Rightarrow> u64" where
  "hashmap_int_hash key = key"

definition hashmap_int_comp :: "u64 \<Rightarrow> u64 \<Rightarrow> int" where
  "hashmap_int_comp a b = (if sint a = sint b then 1 else 0)"

definition hashmap_int_dupe :: "u64 \<Rightarrow> u64" where
  "hashmap_int_dupe key = key"

subsection \<open>Operations\<close>

text \<open>
  The two constructors share their bodies: both allocations may fail, \<open>size\<close> is an \<open>int\<close> that is
  converted to \<open>size_t\<close>, and the byte count \<open>sizeof(hashmap_entry_t *) * size\<close> wraps. Here \<open>None\<close>
  is the null pointer the code returns.
\<close>

definition hashmap_create_with ::
  "('k \<Rightarrow> u64) \<Rightarrow> ('k \<Rightarrow> 'k \<Rightarrow> int) \<Rightarrow> ('k \<Rightarrow> 'k) \<Rightarrow> bool \<Rightarrow> bool \<Rightarrow> u32 \<Rightarrow> 'k hashmap option" where
  "hashmap_create_with hash cmp dup malloc_map malloc_entries sz =
     (if \<not> malloc_map then None
      else if \<not> malloc_entries then None
      else Some \<lparr>hash_func = hash, hash_comp = cmp, hash_key_dup = dup, hm_size = scast sz,
                 hm_entries = replicate (unat (8 * scast sz :: u64) div 8) [], hm_freed = []\<rparr>)"

definition hashmap_create :: "bool \<Rightarrow> bool \<Rightarrow> u32 \<Rightarrow> cstring hashmap option" where
  "hashmap_create = hashmap_create_with hashmap_string_hash hashmap_string_comp hashmap_string_dupe"

definition hashmap_create_int :: "bool \<Rightarrow> bool \<Rightarrow> u32 \<Rightarrow> u64 hashmap option" where
  "hashmap_create_int = hashmap_create_with hashmap_int_hash hashmap_int_comp hashmap_int_dupe"

text \<open>The number of the cell is kept in an \<open>unsigned int\<close>.\<close>

definition hash_slot :: "'k hashmap \<Rightarrow> 'k \<Rightarrow> nat" where
  "hash_slot m key = unat (ucast (hash_func m key mod hm_size m) :: u32)"

definition load_chain :: "'k hashmap \<Rightarrow> 'k \<Rightarrow> 'k entry list option" where
  "load_chain m key = (if hm_size m = 0 then None else idx (hm_entries m) (hash_slot m key))"

definition store_chain :: "'k hashmap \<Rightarrow> 'k \<Rightarrow> 'k entry list \<Rightarrow> 'k hashmap option" where
  "store_chain m key c = do {
     es \<leftarrow> upd (hm_entries m) (hash_slot m key) c;
     Some (m\<lparr>hm_entries := es\<rparr>)
   }"

text \<open>The walk of \<open>hashmap_set\<close>: it replaces the value of a match, or hangs a new entry at the end.\<close>

fun set_in :: "'k hashmap \<Rightarrow> bool \<Rightarrow> 'k \<Rightarrow> nat \<Rightarrow> 'k entry list \<Rightarrow> nat \<times> 'k entry list" where
  "set_in m malloc key v [] =
     (0, if malloc then [\<lparr>ekey = hash_key_dup m key, evalue = v\<rparr>] else [])"
| "set_in m malloc key v (x # xs) =
     (if hash_comp m (ekey x) key \<noteq> 0 then (evalue x, x\<lparr>evalue := v\<rparr> # xs)
      else let (out, ys) = set_in m malloc key v xs in (out, x # ys))"

definition hashmap_set :: "bool \<Rightarrow> 'k hashmap \<Rightarrow> 'k \<Rightarrow> nat \<Rightarrow> (nat \<times> 'k hashmap) option" where
  "hashmap_set malloc m key v = do {
     c \<leftarrow> load_chain m key;
     let (out, c') = set_in m malloc key v c;
     m' \<leftarrow> store_chain m key c';
     Some (out, m')
   }"

fun get_in :: "'k hashmap \<Rightarrow> 'k \<Rightarrow> 'k entry list \<Rightarrow> nat" where
  "get_in m key [] = 0"
| "get_in m key (x # xs) = (if hash_comp m (ekey x) key \<noteq> 0 then evalue x else get_in m key xs)"

definition hashmap_get :: "'k hashmap \<Rightarrow> 'k \<Rightarrow> nat option" where
  "hashmap_get m key = do { c \<leftarrow> load_chain m key; Some (get_in m key c) }"

fun has_in :: "'k hashmap \<Rightarrow> 'k \<Rightarrow> 'k entry list \<Rightarrow> int" where
  "has_in m key [] = 0"
| "has_in m key (x # xs) = (if hash_comp m (ekey x) key \<noteq> 0 then 1 else has_in m key xs)"

definition hashmap_has :: "'k hashmap \<Rightarrow> 'k \<Rightarrow> int option" where
  "hashmap_has m key = do { c \<leftarrow> load_chain m key; Some (has_in m key c) }"

text \<open>
  The \<open>do\<close> loop of \<open>hashmap_remove\<close> after the first entry \<open>p\<close> has not matched. It reads \<open>x\<close> before it
  tests it: with no second entry that is a null dereference. The result is the value, the entry
  taken off, if any, and the rest of the chain after \<open>p\<close>.
\<close>

fun remove_after ::
  "'k hashmap \<Rightarrow> 'k \<Rightarrow> 'k entry list \<Rightarrow> (nat \<times> 'k entry list \<times> 'k entry list) option" where
  "remove_after m key [] = None"
| "remove_after m key (x # xs) =
     (if hash_comp m (ekey x) key \<noteq> 0 then Some (evalue x, [x], xs)
      else if xs = [] then Some (0, [], [x])
      else do { (out, fr, ys) \<leftarrow> remove_after m key xs; Some (out, fr, x # ys) })"

definition hashmap_remove :: "'k hashmap \<Rightarrow> 'k \<Rightarrow> (nat \<times> 'k hashmap) option" where
  "hashmap_remove m key = do {
     c \<leftarrow> load_chain m key;
     (case c of
        [] \<Rightarrow> Some (0, m)
      | x # xs \<Rightarrow>
          if hash_comp m (ekey x) key \<noteq> 0 then do {
            m' \<leftarrow> store_chain m key xs;
            Some (evalue x, m'\<lparr>hm_freed := hm_freed m' @ [x]\<rparr>)
          } else do {
            (out, fr, ys) \<leftarrow> remove_after m key xs;
            m' \<leftarrow> store_chain m key (x # ys);
            Some (out, m'\<lparr>hm_freed := hm_freed m' @ fr\<rparr>)
          })
   }"

text \<open>
  The loops over the table. The lists that \<open>hashmap_keys\<close> and \<open>hashmap_values\<close> build with
  \<open>list_insert\<close> are the sequences of their payloads.
\<close>

definition hashmap_keys :: "'k hashmap \<Rightarrow> 'k list option" where
  "hashmap_keys m = for_each
     (\<lambda>i l. do { c \<leftarrow> idx (hm_entries m) i; Some (l @ map ekey c) }) [0..<unat (hm_size m)] []"

definition hashmap_values :: "'k hashmap \<Rightarrow> nat list option" where
  "hashmap_values m = for_each
     (\<lambda>i l. do { c \<leftarrow> idx (hm_entries m) i; Some (l @ map evalue c) }) [0..<unat (hm_size m)] []"

definition hashmap_free :: "'k hashmap \<Rightarrow> 'k hashmap option" where
  "hashmap_free m = for_each
     (\<lambda>i m. do { c \<leftarrow> idx (hm_entries m) i; Some (m\<lparr>hm_freed := hm_freed m @ c\<rparr>) })
     [0..<unat (hm_size m)] m"

fun empty_from :: "'k hashmap \<Rightarrow> nat \<Rightarrow> nat \<Rightarrow> int option" where
  "empty_from m i 0 = Some 1"
| "empty_from m i (Suc n) = do {
     c \<leftarrow> idx (hm_entries m) i;
     if c \<noteq> [] then Some 0 else empty_from m (Suc i) n
   }"

definition hashmap_is_empty :: "'k hashmap \<Rightarrow> int option" where
  "hashmap_is_empty m = empty_from m 0 (unat (hm_size m))"

subsection \<open>Keys that can be told apart\<close>

text \<open>
  What the operations need of the functions stored in the map: on the keys in use the comparison
  tests equality and the copy of a key is equal to it.
\<close>

locale hash_keys =
  fixes keys :: "'k set"
    and kcomp :: "'k \<Rightarrow> 'k \<Rightarrow> int"
    and kdup :: "'k \<Rightarrow> 'k"
  assumes kcomp_iff: "a \<in> keys \<Longrightarrow> b \<in> keys \<Longrightarrow> kcomp a b \<noteq> 0 \<longleftrightarrow> a = b"
    and kdup_same: "a \<in> keys \<Longrightarrow> kdup a = a"

definition chain_ok :: "'k set \<Rightarrow> 'k entry list \<Rightarrow> bool" where
  "chain_ok ks c \<longleftrightarrow> distinct (map ekey c) \<and> ekey ` set c \<subseteq> ks"

definition chain_map :: "'k entry list \<Rightarrow> 'k \<Rightarrow> nat option" where
  "chain_map c = map_of (map (\<lambda>e. (ekey e, evalue e)) c)"

text \<open>A table whose chains hold distinct keys, each in the cell its hash names.\<close>

definition hashmap_ok :: "'k set \<Rightarrow> 'k hashmap \<Rightarrow> bool" where
  "hashmap_ok ks m \<longleftrightarrow>
     0 < unat (hm_size m) \<and> unat (hm_size m) \<le> 2 ^ 32 \<and> length (hm_entries m) = unat (hm_size m) \<and>
     (\<forall>i < length (hm_entries m). chain_ok ks (hm_entries m ! i) \<and>
        (\<forall>e \<in> set (hm_entries m ! i). hash_slot m (ekey e) = i))"

definition hm_lookup :: "'k hashmap \<Rightarrow> 'k \<Rightarrow> nat option" where
  "hm_lookup m k = chain_map (hm_entries m ! hash_slot m k) k"

lemma hash_slot_less:
  assumes "hashmap_ok ks m"
  shows "hash_slot m k < length (hm_entries m)"
proof -
  have "unat (hash_func m k mod hm_size m) < unat (hm_size m)"
    using assms by (simp add: hashmap_ok_def unat_mod_distrib)
  moreover have "unat (hm_size m) \<le> 2 ^ 32" using assms by (simp add: hashmap_ok_def)
  ultimately have "hash_slot m k = unat (hash_func m k mod hm_size m)"
    by (simp add: hash_slot_def unsigned_ucast_eq take_bit_nat_eq_self)
  then show ?thesis
    using \<open>unat (hash_func m k mod hm_size m) < _\<close> assms by (simp add: hashmap_ok_def)
qed

lemma load_chain_ok:
  "hashmap_ok ks m \<Longrightarrow> load_chain m k = Some (hm_entries m ! hash_slot m k)"
  using hash_slot_less [of ks m k] by (auto simp: load_chain_def hashmap_ok_def)

lemma store_chain_ok:
  "hashmap_ok ks m \<Longrightarrow>
   store_chain m k c = Some (m\<lparr>hm_entries := (hm_entries m)[hash_slot m k := c]\<rparr>)"
  using hash_slot_less [of ks m k] by (simp add: store_chain_def)

lemma chain_map_simps [simp]:
  "chain_map [] = Map.empty"
  "chain_map (e # c) = (chain_map c)(ekey e \<mapsto> evalue e)"
  by (simp_all add: chain_map_def)

lemma dom_chain_map: "dom (chain_map c) = ekey ` set c"
  by (simp add: chain_map_def dom_map_of_conv_image_fst image_image)

lemma hash_slot_update [simp]:
  "hash_slot (m\<lparr>hm_entries := es\<rparr>) = hash_slot m" "hash_slot (m\<lparr>hm_freed := fr\<rparr>) = hash_slot m"
  by (auto simp: hash_slot_def fun_eq_iff)

text \<open>Replacing a chain by one with keys of the same cell keeps the table in order.\<close>

lemma hashmap_ok_store:
  assumes ok: "hashmap_ok ks m" and c: "chain_ok ks c" "\<forall>e \<in> set c. hash_slot m (ekey e) = hash_slot m k"
  shows "hashmap_ok ks (m\<lparr>hm_entries := (hm_entries m)[hash_slot m k := c]\<rparr>)"
proof -
  let ?m = "m\<lparr>hm_entries := (hm_entries m)[hash_slot m k := c]\<rparr>"
  have "chain_ok ks (hm_entries ?m ! i) \<and> (\<forall>e \<in> set (hm_entries ?m ! i). hash_slot ?m (ekey e) = i)"
    if "i < length (hm_entries m)" for i
    using that ok c by (cases "i = hash_slot m k") (auto simp: hashmap_ok_def)
  then show ?thesis using ok by (simp add: hashmap_ok_def)
qed

lemma hm_lookup_store:
  assumes ok: "hashmap_ok ks m"
    and c: "\<And>q. hash_slot m q = hash_slot m k \<Longrightarrow> chain_map c q = f q"
    and f: "\<And>q. hash_slot m q \<noteq> hash_slot m k \<Longrightarrow> f q = hm_lookup m q"
  shows "hm_lookup (m\<lparr>hm_entries := (hm_entries m)[hash_slot m k := c]\<rparr>) = f"
proof
  fix q show "hm_lookup (m\<lparr>hm_entries := (hm_entries m)[hash_slot m k := c]\<rparr>) q = f q"
    using hash_slot_less [OF ok, of k] c [of q] f [of q]
    by (cases "hash_slot m q = hash_slot m k") (simp_all add: hm_lookup_def nth_list_update)
qed

text \<open>The value of a lookup as the code returns it.\<close>

definition value_of :: "nat option \<Rightarrow> nat" where
  "value_of r = (case r of None \<Rightarrow> 0 | Some v \<Rightarrow> v)"

definition same_keys :: "'k hashmap \<Rightarrow> 'k hashmap \<Rightarrow> bool" where
  "same_keys m m' \<longleftrightarrow> hash_func m' = hash_func m \<and> hash_comp m' = hash_comp m \<and>
     hash_key_dup m' = hash_key_dup m \<and> hm_size m' = hm_size m"

definition removed :: "'k set \<Rightarrow> 'k hashmap \<Rightarrow> 'k \<Rightarrow> 'k hashmap \<Rightarrow> bool" where
  "removed ks m k m' \<longleftrightarrow>
     hashmap_ok ks m' \<and> hm_lookup m' = (hm_lookup m)(k := None) \<and> same_keys m m'"

text \<open>The chain of \<open>k\<close> has one entry and it has another key.\<close>

definition lone_other :: "'k hashmap \<Rightarrow> 'k \<Rightarrow> bool" where
  "lone_other m k \<longleftrightarrow> map ekey (hm_entries m ! hash_slot m k) \<noteq> [k] \<and>
     length (hm_entries m ! hash_slot m k) = 1"

context hash_keys
begin

lemma set_in_map:
  assumes "kcomp = hash_comp m" "kdup = hash_key_dup m" "chain_ok keys c" "k \<in> keys"
  shows "set_in m True k v c = (out, c') \<Longrightarrow>
    out = (case chain_map c k of None \<Rightarrow> 0 | Some w \<Rightarrow> w) \<and> chain_map c' = (chain_map c)(k \<mapsto> v) \<and>
    chain_ok keys c' \<and> ekey ` set c' = insert k (ekey ` set c)"
  using assms(3)
proof (induction c arbitrary: out c')
  case Nil
  then show ?case using assms kdup_same [of k] by (auto simp: chain_ok_def)
next
  case (Cons e c)
  have k: "hash_comp m (ekey e) k \<noteq> 0 \<longleftrightarrow> ekey e = k"
    using Cons.prems kcomp_iff [of "ekey e" k] assms(1,4) by (simp add: chain_ok_def)
  show ?case
  proof (cases "ekey e = k")
    case True
    then have "out = evalue e" "c' = e\<lparr>evalue := v\<rparr> # c" using Cons.prems k by auto
    then show ?thesis using True Cons.prems(2) by (auto simp: chain_ok_def fun_eq_iff)
  next
    case False
    obtain o1 c1 where r: "set_in m True k v c = (o1, c1)" by (cases "set_in m True k v c") auto
    have "chain_ok keys c" using Cons.prems by (simp add: chain_ok_def)
    note ih = Cons.IH [OF r this]
    have c': "c' = e # c1" "out = o1" using Cons.prems(1) False k r by auto
    then show ?thesis using ih Cons.prems(2) False assms(4)
      by (simp add: chain_ok_def insert_commute fun_eq_iff)
  qed
qed

lemma get_in_map:
  assumes "kcomp = hash_comp m" "chain_ok keys c" "k \<in> keys"
  shows "get_in m k c = (case chain_map c k of None \<Rightarrow> 0 | Some w \<Rightarrow> w)"
    and "has_in m k c = (if k \<in> dom (chain_map c) then 1 else 0)"
  using assms(2)
  by (induction c)
    (auto simp: chain_ok_def kcomp_iff assms(3) simp flip: assms(1) split: if_splits)

lemma remove_after_map:
  assumes "kcomp = hash_comp m" "k \<in> keys"
  shows "chain_ok keys c \<Longrightarrow> c \<noteq> [] \<Longrightarrow> \<exists>out fr ys. remove_after m k c = Some (out, fr, ys) \<and>
    out = (case chain_map c k of None \<Rightarrow> 0 | Some w \<Rightarrow> w) \<and> chain_map ys = (chain_map c)(k := None) \<and>
    chain_ok keys ys \<and> ekey ` set ys \<subseteq> ekey ` set c"
proof (induction c)
  case Nil
  then show ?case by simp
next
  case (Cons e c)
  have k: "hash_comp m (ekey e) k \<noteq> 0 \<longleftrightarrow> ekey e = k"
    using Cons.prems kcomp_iff [of "ekey e" k] assms by (simp add: chain_ok_def)
  have c: "chain_ok keys c" using Cons.prems by (simp add: chain_ok_def)
  have d: "ekey e = k \<Longrightarrow> chain_map c k = None"
    using Cons.prems dom_chain_map [of c] by (auto simp: chain_ok_def)
  consider "ekey e = k" | "ekey e \<noteq> k" "c = []" | "ekey e \<noteq> k" "c \<noteq> []" by blast
  then show ?case
  proof cases
    case 1
    then show ?thesis using k c d by (auto simp: fun_upd_idem)
  next
    case 2
    then show ?thesis using k Cons.prems by (auto simp: fun_upd_idem)
  next
    case 3
    then obtain out fr ys where r: "remove_after m k c = Some (out, fr, ys)"
      and o: "out = (case chain_map c k of None \<Rightarrow> 0 | Some w \<Rightarrow> w)"
      and m: "chain_map ys = (chain_map c)(k := None)"
      and y: "chain_ok keys ys" "ekey ` set ys \<subseteq> ekey ` set c"
      using Cons.IH [OF c] by blast
    have "chain_ok keys (e # ys)"
      using y Cons.prems by (auto simp: chain_ok_def)
    then show ?thesis using 3 k r o m y by (auto simp: fun_upd_twist)
  qed
qed

lemma hashmap_get_spec:
  assumes "hashmap_ok keys m" "hash_comp m = kcomp" "k \<in> keys"
  shows "hashmap_get m k = Some (value_of (hm_lookup m k))"
    and "hashmap_has m k = Some (if k \<in> dom (hm_lookup m) then 1 else 0)"
proof -
  have "chain_ok keys (hm_entries m ! hash_slot m k)"
    using assms(1) hash_slot_less [OF assms(1), of k] by (simp add: hashmap_ok_def)
  from get_in_map [OF assms(2) [symmetric] this assms(3)]
  show "hashmap_get m k = Some (value_of (hm_lookup m k))"
    and "hashmap_has m k = Some (if k \<in> dom (hm_lookup m) then 1 else 0)"
    by (simp_all add: hashmap_get_def hashmap_has_def load_chain_ok [OF assms(1)] hm_lookup_def
        value_of_def dom_def)
qed

lemma hashmap_set_spec:
  assumes ok: "hashmap_ok keys m" and f: "hash_comp m = kcomp" "hash_key_dup m = kdup" and k: "k \<in> keys"
  shows "\<exists>m'. hashmap_set True m k v = Some (value_of (hm_lookup m k), m') \<and> hashmap_ok keys m' \<and>
    hm_lookup m' = (hm_lookup m)(k \<mapsto> v) \<and> same_keys m m'"
proof -
  let ?c = "hm_entries m ! hash_slot m k"
  have c: "chain_ok keys ?c" "\<forall>e \<in> set ?c. hash_slot m (ekey e) = hash_slot m k"
    using ok hash_slot_less [OF ok, of k] by (simp_all add: hashmap_ok_def)
  obtain out c' where r: "set_in m True k v ?c = (out, c')" by (cases "set_in m True k v ?c") auto
  note s = set_in_map [OF f(1) [symmetric] f(2) [symmetric] c(1) k r]
  have slots: "\<forall>e \<in> set c'. hash_slot m (ekey e) = hash_slot m k"
  proof
    fix e assume "e \<in> set c'"
    then have "ekey e \<in> insert k (ekey ` set ?c)" using s by blast
    then show "hash_slot m (ekey e) = hash_slot m k" using c(2) by auto
  qed
  let ?m = "m\<lparr>hm_entries := (hm_entries m)[hash_slot m k := c']\<rparr>"
  have "hashmap_ok keys ?m" using s slots by (intro hashmap_ok_store [OF ok]) simp_all
  moreover have "hm_lookup ?m = (hm_lookup m)(k \<mapsto> v)"
    using s by (intro hm_lookup_store [OF ok]) (auto simp: hm_lookup_def)
  moreover have "hashmap_set True m k v = Some (value_of (hm_lookup m k), ?m)"
    using r s by (simp add: hashmap_set_def load_chain_ok [OF ok] store_chain_ok [OF ok]
        value_of_def hm_lookup_def)
  ultimately show ?thesis by (auto simp: same_keys_def)
qed

lemma removedI:
  assumes ok: "hashmap_ok keys m" and c': "chain_ok keys c'"
    and sub: "ekey ` set c' \<subseteq> ekey ` set (hm_entries m ! hash_slot m k)"
    and mp: "chain_map c' = (chain_map (hm_entries m ! hash_slot m k))(k := None)"
  shows "removed keys m k (m\<lparr>hm_entries := (hm_entries m)[hash_slot m k := c'], hm_freed := fr\<rparr>)"
proof -
  let ?m = "m\<lparr>hm_entries := (hm_entries m)[hash_slot m k := c']\<rparr>"
  have "\<forall>e \<in> set (hm_entries m ! hash_slot m k). hash_slot m (ekey e) = hash_slot m k"
    using ok hash_slot_less [OF ok, of k] by (simp add: hashmap_ok_def)
  then have "\<forall>e \<in> set c'. hash_slot m (ekey e) = hash_slot m k"
    using sub by (auto simp: subset_iff image_iff)
  then have "hashmap_ok keys ?m" by (intro hashmap_ok_store [OF ok] c')
  moreover have "hm_lookup ?m = (hm_lookup m)(k := None)"
    using mp by (intro hm_lookup_store [OF ok]) (auto simp: hm_lookup_def)
  ultimately show ?thesis by (simp add: removed_def hashmap_ok_def hm_lookup_def same_keys_def fun_eq_iff)
qed

lemma hashmap_remove_spec:
  assumes ok: "hashmap_ok keys m" and f: "hash_comp m = kcomp" and k: "k \<in> keys"
  shows "if lone_other m k then hashmap_remove m k = None
    else \<exists>m'. hashmap_remove m k = Some (value_of (hm_lookup m k), m') \<and> removed keys m k m'"
proof -
  have c: "chain_ok keys (hm_entries m ! hash_slot m k)"
    using ok hash_slot_less [OF ok, of k] by (simp add: hashmap_ok_def)
  note rem = hashmap_remove_def load_chain_ok [OF ok] store_chain_ok [OF ok] value_of_def
    hm_lookup_def lone_other_def
  show ?thesis
  proof (cases "hm_entries m ! hash_slot m k")
    case Nil
    have "m = m\<lparr>hm_entries := (hm_entries m)[hash_slot m k := []], hm_freed := hm_freed m\<rparr>"
      using list_update_id [of "hm_entries m" "hash_slot m k"] Nil by simp
    then have "removed keys m k m"
      using removedI [OF ok, of "[]" k "hm_freed m"] Nil by (simp add: chain_ok_def fun_eq_iff)
    then show ?thesis using Nil by (simp add: rem)
  next
    case (Cons e xs)
    have e: "hash_comp m (ekey e) k \<noteq> 0 \<longleftrightarrow> ekey e = k"
      using c kcomp_iff [of "ekey e" k] f k Cons by (simp add: chain_ok_def)
    have xs: "chain_ok keys xs" "ekey e \<notin> ekey ` set xs" using c Cons by (simp_all add: chain_ok_def)
    consider "ekey e = k" | "ekey e \<noteq> k" "xs = []" | "ekey e \<noteq> k" "xs \<noteq> []" by blast
    then show ?thesis
    proof cases
      case 1
      then have "chain_map xs k = None" using xs(2) dom_chain_map [of xs] by auto
      then have "removed keys m k
          (m\<lparr>hm_entries := (hm_entries m)[hash_slot m k := xs], hm_freed := hm_freed m @ [e]\<rparr>)"
        using xs(1) Cons 1 by (intro removedI [OF ok]) (auto simp: fun_eq_iff)
      then show ?thesis using Cons e 1 by (simp add: rem)
    next
      case 2
      then show ?thesis using Cons e by (simp add: rem)
    next
      case 3
      obtain out fr ys where r: "remove_after m k xs = Some (out, fr, ys)"
        and o: "out = (case chain_map xs k of None \<Rightarrow> 0 | Some w \<Rightarrow> w)"
        and y: "chain_map ys = (chain_map xs)(k := None)" "chain_ok keys ys" "ekey ` set ys \<subseteq> ekey ` set xs"
        using remove_after_map [OF f [symmetric] k xs(1) 3(2)] by blast
      have "chain_ok keys (e # ys)" using c y Cons by (auto simp: chain_ok_def)
      then have "removed keys m k
          (m\<lparr>hm_entries := (hm_entries m)[hash_slot m k := e # ys], hm_freed := hm_freed m @ fr\<rparr>)"
        using y Cons 3 by (intro removedI [OF ok]) (auto simp: fun_eq_iff)
      then show ?thesis using Cons e 3 r o by (simp add: rem)
    qed
  qed
qed

end

text \<open>Both kinds of map store functions with these laws.\<close>

lemma strcmp_eq_0_iff: "0 \<notin> set s \<Longrightarrow> 0 \<notin> set t \<Longrightarrow> strcmp s t = 0 \<longleftrightarrow> s = t"
proof (induction s arbitrary: t)
  case Nil
  then show ?case by (subst strcmp.simps) (auto simp: Let_def unsigned_eq_0_iff split: list.splits)
next
  case (Cons c s)
  then have "0 < uint c" by (auto simp: order_less_le unsigned_eq_0_iff)
  with Cons show ?case
    by (subst strcmp.simps) (cases t; auto simp: Let_def dest: unsigned_word_eqI)
qed

definition string_keys :: "cstring set" where
  "string_keys = {s. 0 \<notin> set s}"

interpretation string_keys: hash_keys string_keys hashmap_string_comp hashmap_string_dupe
  by unfold_locales
    (auto simp: string_keys_def hashmap_string_comp_def hashmap_string_dupe_def strcmp_eq_0_iff)

interpretation int_keys: hash_keys UNIV hashmap_int_comp hashmap_int_dupe
  by unfold_locales (auto simp: hashmap_int_comp_def hashmap_int_dupe_def dest: signed_word_eqI)


lemma idx_table:
  "hashmap_ok ks m \<Longrightarrow> [0..<unat (hm_size m)] = [0..<length (hm_entries m)]"
  by (simp add: hashmap_ok_def)

lemma for_each_collect:
  "n \<le> length xs \<Longrightarrow>
   for_each (\<lambda>i l. do { c \<leftarrow> idx xs i; Some (l @ f c) }) [0..<n] l = Some (l @ concat (map f (take n xs)))"
  by (induction n) (auto simp: for_each_append take_Suc_conv_app_nth)

lemma hashmap_keys_eq:
  "hashmap_ok ks m \<Longrightarrow> hashmap_keys m = Some (concat (map (map ekey) (hm_entries m)))"
  by (simp add: hashmap_keys_def idx_table for_each_collect)

lemma empty_from_eq:
  "i + n = length (hm_entries m) \<Longrightarrow>
   empty_from m i n = Some (if \<forall>c \<in> set (drop i (hm_entries m)). c = [] then 1 else 0)"
proof (induction n arbitrary: i)
  case (Suc n)
  then have "drop i (hm_entries m) = hm_entries m ! i # drop (Suc i) (hm_entries m)"
    by (simp add: Cons_nth_drop_Suc)
  then show ?case using Suc by auto
qed simp

lemma key_slot:
  "hashmap_ok ks m \<Longrightarrow> i < length (hm_entries m) \<Longrightarrow> q \<in> ekey ` set (hm_entries m ! i) \<Longrightarrow>
   hash_slot m q = i"
  by (auto simp: hashmap_ok_def)

lemma dom_hm_lookup:
  "hashmap_ok ks m \<Longrightarrow> dom (hm_lookup m) = (\<Union>c \<in> set (hm_entries m). ekey ` set c)"
proof (intro set_eqI iffI)
  fix q assume ok: "hashmap_ok ks m" and "q \<in> dom (hm_lookup m)"
  then have "q \<in> ekey ` set (hm_entries m ! hash_slot m q)"
    using dom_chain_map [of "hm_entries m ! hash_slot m q"] by (auto simp: hm_lookup_def dom_def)
  then show "q \<in> (\<Union>c \<in> set (hm_entries m). ekey ` set c)"
    using hash_slot_less [OF ok, of q] by (auto intro: nth_mem)
next
  fix q assume ok: "hashmap_ok ks m" and "q \<in> (\<Union>c \<in> set (hm_entries m). ekey ` set c)"
  then obtain c where "c \<in> set (hm_entries m)" "q \<in> ekey ` set c" by blast
  then obtain i where i: "i < length (hm_entries m)" "q \<in> ekey ` set (hm_entries m ! i)"
    by (metis in_set_conv_nth)
  then have "q \<in> dom (chain_map (hm_entries m ! hash_slot m q))"
    using key_slot [OF ok i] by (simp add: dom_chain_map)
  then show "q \<in> dom (hm_lookup m)" by (auto simp: hm_lookup_def dom_def)
qed

lemma distinct_hashmap_keys:
  assumes ok: "hashmap_ok ks m"
  shows "distinct (concat (map (map ekey) (hm_entries m)))"
proof -
  have "n \<le> length (hm_entries m) \<Longrightarrow> distinct (concat (map (map ekey) (take n (hm_entries m))))" for n
  proof (induction n)
    case (Suc n)
    have n: "distinct (map ekey (hm_entries m ! n))"
      using ok Suc.prems by (auto simp: hashmap_ok_def chain_ok_def)
    have "q \<notin> ekey ` set (hm_entries m ! n)" if "i < n" "q \<in> ekey ` set (hm_entries m ! i)" for i q
      using key_slot [OF ok _ that(2)] key_slot [OF ok, of n q] that(1) Suc.prems by auto
    then have "(\<Union>c \<in> set (take n (hm_entries m)). ekey ` set c) \<inter> ekey ` set (hm_entries m ! n) = {}"
      using Suc.prems by (fastforce simp: in_set_conv_nth)
    then show ?case using Suc n by (simp add: take_Suc_conv_app_nth)
  qed simp
  from this [of "length (hm_entries m)"] show ?thesis by simp
qed

text \<open>A table for a positive \<open>int\<close> size.\<close>

lemma unat_word_of_int_64: "0 \<le> x \<Longrightarrow> x < 2 ^ 64 \<Longrightarrow> unat (word_of_int x :: u64) = nat x"
  by (simp add: unsigned_of_int take_bit_int_eq_self)

lemma table_size:
  assumes "0 < sint (sz :: u32)"
  shows "unat (scast sz :: u64) = nat (sint sz)" "unat (8 * scast sz :: u64) = 8 * nat (sint sz)"
    "nat (sint sz) < 2 ^ 31"
proof -
  obtain x where x: "x = sint sz" by blast
  have lt: "x < 2 ^ 31" using sint_less [of sz] by (simp add: x)
  have pos: "0 < x" unfolding x by (rule assms)
  have "scast sz = (word_of_int x :: u64)" unfolding x by (rule scast_eq)
  moreover have "8 * (word_of_int x :: u64) = word_of_int (8 * x)" by simp
  ultimately have s: "scast sz = (word_of_int x :: u64)" "8 * scast sz = (word_of_int (8 * x) :: u64)"
    by (simp_all only:)
  have "unat (word_of_int x :: u64) = nat x" "unat (word_of_int (8 * x) :: u64) = nat (8 * x)"
    using lt pos by (intro unat_word_of_int_64; simp)+
  then show "unat (scast sz :: u64) = nat (sint sz)" "unat (8 * scast sz :: u64) = 8 * nat (sint sz)"
    unfolding s x [symmetric] using pos by (simp_all only: nat_mult_distrib) simp
  show "nat (sint sz) < 2 ^ 31" unfolding x [symmetric] using lt pos by simp
qed

lemma hashmap_create_ok:
  assumes "0 < sint (sz :: u32)"
  shows "hashmap_ok ks \<lparr>hash_func = f, hash_comp = g, hash_key_dup = d, hm_size = scast sz,
      hm_entries = replicate (unat (8 * scast sz :: u64) div 8) [], hm_freed = []\<rparr>"
    and "hm_lookup \<lparr>hash_func = f, hash_comp = g, hash_key_dup = d, hm_size = scast sz,
      hm_entries = replicate (unat (8 * scast sz :: u64) div 8) [], hm_freed = []\<rparr> = Map.empty" (is "hm_lookup ?m = _")
proof -
  show ok: "hashmap_ok ks ?m"
    using table_size [OF assms] assms by (simp add: hashmap_ok_def chain_ok_def)
  show "hm_lookup ?m = Map.empty"
    using hash_slot_less [OF ok] by (simp add: hm_lookup_def fun_eq_iff)
qed

subsection \<open>Properties\<close>

definition string_map :: "cstring hashmap \<Rightarrow> bool" where
  "string_map m \<longleftrightarrow> hash_func m = hashmap_string_hash \<and> hash_comp m = hashmap_string_comp \<and>
     hash_key_dup m = hashmap_string_dupe"

definition int_map :: "u64 hashmap \<Rightarrow> bool" where
  "int_map m \<longleftrightarrow> hash_func m = hashmap_int_hash \<and> hash_comp m = hashmap_int_comp \<and>
     hash_key_dup m = hashmap_int_dupe"

text \<open>
  C23: A map with string keys refines a finite map from strings to values: looking up and testing give
  its value at the key, setting returns the old value and updates it at the key, and removing returns
  the old value and deletes the key. Removing a key that hashes to a chain with a single entry under
  another key, however, dereferences a null pointer.
\<close>

theorem hashmap_refines_map:
  assumes "hashmap_ok string_keys m" and "string_map m" and "k \<in> string_keys"
  shows "hashmap_get m k = Some (value_of (hm_lookup m k)) \<and>
    hashmap_has m k = Some (if k \<in> dom (hm_lookup m) then 1 else 0) \<and>
    (\<exists>m'. hashmap_set True m k v = Some (value_of (hm_lookup m k), m') \<and>
      hashmap_ok string_keys m' \<and> hm_lookup m' = (hm_lookup m)(k \<mapsto> v) \<and> string_map m') \<and>
    (if lone_other m k then hashmap_remove m k = None
     else \<exists>m'. hashmap_remove m k = Some (value_of (hm_lookup m k), m') \<and>
       hashmap_ok string_keys m' \<and> hm_lookup m' = (hm_lookup m)(k := None) \<and> string_map m')"
proof -
  note m = assms(2) [unfolded string_map_def]
  have same: "string_map m'" if "same_keys m m'" for m'
    using that m by (simp add: string_map_def same_keys_def)
  note set_k = string_keys.hashmap_set_spec [OF assms(1) m [THEN conjunct2, THEN conjunct1]
      m [THEN conjunct2, THEN conjunct2] assms(3), of v]
  note remove_k = string_keys.hashmap_remove_spec [OF assms(1) m [THEN conjunct2, THEN conjunct1] assms(3)]
  note get_k = string_keys.hashmap_get_spec [OF assms(1) m [THEN conjunct2, THEN conjunct1] assms(3)]
  show ?thesis
    using set_k remove_k get_k same unfolding removed_def by (cases "lone_other m k") (simp_all; blast)+
qed

text \<open>
  A new map with integer keys and a positive size is empty and in order. In any map in order
  \<open>hashmap_keys\<close> lists every key once, and \<open>hashmap_is_empty\<close> tells whether there is one.
\<close>

theorem hashmap_int_keys_enumerate:
  assumes "0 < sint sz" and "hashmap_ok UNIV m" and "int_map m"
  shows "(\<exists>m0. hashmap_create_int True True sz = Some m0 \<and> hashmap_ok UNIV m0 \<and> int_map m0 \<and>
      hm_lookup m0 = Map.empty) \<and>
    (\<exists>l. hashmap_keys m = Some l \<and> distinct l \<and> set l = dom (hm_lookup m)) \<and>
    hashmap_is_empty m = Some (if hm_lookup m = Map.empty then 1 else 0)"
proof (intro conjI)
  show "\<exists>m0. hashmap_create_int True True sz = Some m0 \<and> hashmap_ok UNIV m0 \<and> int_map m0 \<and>
      hm_lookup m0 = Map.empty"
    using hashmap_create_ok [OF assms(1)]
    by (auto simp: hashmap_create_int_def hashmap_create_with_def int_map_def)
  show "\<exists>l. hashmap_keys m = Some l \<and> distinct l \<and> set l = dom (hm_lookup m)"
    using distinct_hashmap_keys [OF assms(2)]
    by (simp add: hashmap_keys_eq [OF assms(2)] dom_hm_lookup [OF assms(2)])
  show "hashmap_is_empty m = Some (if hm_lookup m = Map.empty then 1 else 0)"
    using dom_hm_lookup [OF assms(2)] assms(2)
    by (simp add: hashmap_is_empty_def empty_from_eq hashmap_ok_def flip: dom_eq_empty_conv)
qed

text \<open>A map of four cells with the key \<open>a\<close> in the cell of its character.\<close>

definition string_example :: "cstring hashmap" where
  "string_example =
     \<lparr>hash_func = hashmap_string_hash, hash_comp = hashmap_string_comp,
      hash_key_dup = hashmap_string_dupe, hm_size = 4,
      hm_entries = [[], [\<lparr>ekey = [97], evalue = 7\<rparr>], [], []], hm_freed = []\<rparr>"

definition int_example :: "u64 hashmap" where
  "int_example =
     \<lparr>hash_func = hashmap_int_hash, hash_comp = hashmap_int_comp,
      hash_key_dup = hashmap_int_dupe, hm_size = 2,
      hm_entries = [[\<lparr>ekey = 4, evalue = 7\<rparr>, \<lparr>ekey = 6, evalue = 8\<rparr>], []], hm_freed = []\<rparr>"

lemma string_example_ok: "hashmap_ok string_keys string_example" "string_map string_example"
  by (auto simp: hashmap_ok_def string_example_def chain_ok_def string_keys_def hash_slot_def
      hashmap_string_hash_def string_map_def less_Suc_eq)

lemma int_example_ok: "hashmap_ok UNIV int_example" "int_map int_example"
  by (auto simp: hashmap_ok_def int_example_def chain_ok_def hash_slot_def hashmap_int_hash_def
      int_map_def less_Suc_eq)

theorem hashmap_refines_map_witness:
  "hashmap_get string_example [97] = Some 7 \<and> hashmap_remove string_example [101] = None"
proof -
  have k: "[97] \<in> string_keys" "[101] \<in> string_keys" by (simp_all add: string_keys_def)
  have "hm_lookup string_example [97] = Some 7" "lone_other string_example [101]"
    by (simp_all add: hm_lookup_def string_example_def hash_slot_def hashmap_string_hash_def lone_other_def)
  then show ?thesis
    using hashmap_refines_map [OF string_example_ok k(1)] hashmap_refines_map [OF string_example_ok k(2)]
    by (simp add: value_of_def)
qed

theorem hashmap_int_keys_enumerate_witness:
  "\<exists>l. hashmap_keys int_example = Some l \<and> distinct l \<and> set l = {4, 6}"
proof -
  have "dom (hm_lookup int_example) = {4, 6}"
    by (subst dom_hm_lookup [OF int_example_ok(1)]) (auto simp: int_example_def)
  then show ?thesis
    using hashmap_int_keys_enumerate [of 1, OF _ int_example_ok] by simp
qed

end
