(* ===== verification/Sha2.thy ===== *)
theory Sha2
  imports Crypto_Util
begin

text \<open>
  The two hash functions of the kernel: SHA-256 (kernel/src/crypto/hash/sha256.c) and SHA-512
  (kernel/src/util/sha512.c).

  The eight words of a hash value are a tuple, the other arrays of a context are lists of their C
  length. A context is memory that its owner has not cleared, so every operation takes one with
  arbitrary contents. \<open>None\<close> stands for a read or write outside an array and for a loop that never
  ends. The machine is little endian: \<open>htobe32\<close> and \<open>betoh32\<close> are \<open>swapInt32\<close>.
\<close>

subsection \<open>Registers\<close>

type_synonym 'w regs = "'w \<times> 'w \<times> 'w \<times> 'w \<times> 'w \<times> 'w \<times> 'w \<times> 'w"

lemma regs_cases:
  obtains a b c d e f g h where "r = (a, b, c, d, e, f, g, h)"
  by (cases r) auto

fun map_regs :: "('v \<Rightarrow> 'w) \<Rightarrow> 'v regs \<Rightarrow> 'w regs" where
  "map_regs m (a, b, c, d, e, f, g, h) = (m a, m b, m c, m d, m e, m f, m g, m h)"

fun add_regs :: "'w::plus regs \<Rightarrow> 'w regs \<Rightarrow> 'w regs" where
  "add_regs (a, b, c, d, e, f, g, h) (a', b', c', d', e', f', g', h') =
     (a + a', b + b', c + c', d + d', e + e', f + f', g + g', h + h')"

fun list_of_regs :: "'w regs \<Rightarrow> 'w list" where
  "list_of_regs (a, b, c, d, e, f, g, h) = [a, b, c, d, e, f, g, h]"

subsection \<open>SHA-256\<close>

definition padding :: "u8 list" where
  "padding = 0x80 # replicate 63 0"

definition k256 :: "u32 list" where
  "k256 =
    [0x428A2F98, 0x71374491, 0xB5C0FBCF, 0xE9B5DBA5, 0x3956C25B, 0x59F111F1,
     0x923F82A4, 0xAB1C5ED5, 0xD807AA98, 0x12835B01, 0x243185BE, 0x550C7DC3,
     0x72BE5D74, 0x80DEB1FE, 0x9BDC06A7, 0xC19BF174, 0xE49B69C1, 0xEFBE4786,
     0x0FC19DC6, 0x240CA1CC, 0x2DE92C6F, 0x4A7484AA, 0x5CB0A9DC, 0x76F988DA,
     0x983E5152, 0xA831C66D, 0xB00327C8, 0xBF597FC7, 0xC6E00BF3, 0xD5A79147,
     0x06CA6351, 0x14292967, 0x27B70A85, 0x2E1B2138, 0x4D2C6DFC, 0x53380D13,
     0x650A7354, 0x766A0ABB, 0x81C2C92E, 0x92722C85, 0xA2BFE8A1, 0xA81A664B,
     0xC24B8B70, 0xC76C51A3, 0xD192E819, 0xD6990624, 0xF40E3585, 0x106AA070,
     0x19A4C116, 0x1E376C08, 0x2748774C, 0x34B0BCB5, 0x391C0CB3, 0x4ED8AA4A,
     0x5B9CCA4F, 0x682E6FF3, 0x748F82EE, 0x78A5636F, 0x84C87814, 0x8CC70208,
     0x90BEFFFA, 0xA4506CEB, 0xBEF9A3F7, 0xC67178F2]"

definition ch :: "u32 \<Rightarrow> u32 \<Rightarrow> u32 \<Rightarrow> u32" where
  "ch x y z = (x AND y) OR (NOT x AND z)"

definition maj :: "u32 \<Rightarrow> u32 \<Rightarrow> u32 \<Rightarrow> u32" where
  "maj x y z = (x AND y) OR (x AND z) OR (y AND z)"

definition sigma1 :: "u32 \<Rightarrow> u32" where
  "sigma1 x = rotate_right32 x 2 XOR rotate_right32 x 13 XOR rotate_right32 x 22"

definition sigma2 :: "u32 \<Rightarrow> u32" where
  "sigma2 x = rotate_right32 x 6 XOR rotate_right32 x 11 XOR rotate_right32 x 25"

definition sigma3 :: "u32 \<Rightarrow> u32" where
  "sigma3 x = rotate_right32 x 7 XOR rotate_right32 x 18 XOR shift_right32 x 3"

definition sigma4 :: "u32 \<Rightarrow> u32" where
  "sigma4 x = rotate_right32 x 17 XOR rotate_right32 x 19 XOR shift_right32 x 10"

text \<open>
  The context has the four arrays \<open>h\<close>, \<open>w\<close>, \<open>digest\<close> and \<open>buffer\<close> side by side. \<open>digest\<close> and
  \<open>buffer\<close> are arrays of 32 and 64 words, only copied to and from with \<open>memcpy\<close>: they are kept as
  128 and 256 bytes.
\<close>

record sha256_context =
  sha_h :: "u32 regs"
  sha_w :: "u32 list"
  sha_digest :: "u8 list"
  sha_buffer :: "u8 list"
  sha_size :: nat
  sha_total :: u64

text \<open>
  One round: the message schedule is kept in the sixteen words of the context, whose index is taken
  modulo 16.
\<close>

definition sha256_schedule :: "nat \<Rightarrow> u32 list \<Rightarrow> u32 list option" where
  "sha256_schedule t w =
     (if t \<ge> 16 then do {
        w0 \<leftarrow> idx w (t mod 16);
        w14 \<leftarrow> idx w ((t + 14) mod 16);
        w9 \<leftarrow> idx w ((t + 9) mod 16);
        w1 \<leftarrow> idx w ((t + 1) mod 16);
        upd w (t mod 16) (w0 + (sigma4 w14 + w9 + sigma3 w1))
      } else Some w)"

definition sha256_round :: "nat \<Rightarrow> u32 regs \<times> u32 list \<Rightarrow> (u32 regs \<times> u32 list) option" where
  "sha256_round t s = (case s of ((a, b, c, d, e, f, g, h), w) \<Rightarrow> do {
     w \<leftarrow> sha256_schedule t w;
     kt \<leftarrow> idx k256 t;
     wt \<leftarrow> idx w (t mod 16);
     let temp1 = h + sigma2 e + ch e f g + kt + wt;
     let temp2 = sigma1 a + maj a b c;
     Some ((temp1 + temp2, a, b, c, d + temp1, e, f, g), w)
   })"

definition sha256_process_block :: "sha256_context \<Rightarrow> sha256_context option" where
  "sha256_process_block ctx = do {
     w \<leftarrow> for_each (\<lambda>t w. do { x \<leftarrow> idx w t; upd w t (swapInt32 x) }) [0..<16] (sha_w ctx);
     (r, w) \<leftarrow> for_each sha256_round [0..<64] (sha_h ctx, w);
     Some (ctx\<lparr>sha_h := add_regs (sha_h ctx) r, sha_w := w\<rparr>)
   }"

definition sha256_init :: "sha256_context \<Rightarrow> sha256_context" where
  "sha256_init ctx = ctx\<lparr>
     sha_h := (0x6A09E667, 0xBB67AE85, 0x3C6EF372, 0xA54FF53A,
               0x510E527F, 0x9B05688C, 0x1F83D9AB, 0x5BE0CD19),
     sha_size := 0, sha_total := 0\<rparr>"

text \<open>
  \<open>context->buffer + context->size\<close> is pointer arithmetic on words: the data goes to byte
  \<open>4 * context->size\<close>. With \<open>size = 64\<close> nothing is copied and the loop does not end.
\<close>

function sha256_update :: "sha256_context \<Rightarrow> u8 list \<Rightarrow> sha256_context option" where
  "sha256_update ctx data =
     (if data = [] then Some ctx
      else if 64 \<le> sha_size ctx then None
      else do {
        let n = min (length data) (64 - sha_size ctx);
        buf \<leftarrow> put_bytes (sha_buffer ctx) (4 * sha_size ctx) (take n data);
        let ctx = ctx\<lparr>sha_buffer := buf, sha_size := sha_size ctx + n, sha_total := sha_total ctx + of_nat n\<rparr>;
        ctx \<leftarrow> (if sha_size ctx = 64 then do {
                 ctx \<leftarrow> sha256_process_block ctx;
                 Some (ctx\<lparr>sha_size := 0\<rparr>)
               } else Some ctx);
        sha256_update ctx (drop n data)
      })"
  by pat_completeness auto
termination
  by (relation "measure (\<lambda>(ctx, data). length data)") auto

declare sha256_update.simps [simp del]

text \<open>The two closing operations return the bytes they copy to the digest of the caller.\<close>

definition sha256_finalize :: "sha256_context \<Rightarrow> (sha256_context \<times> u8 list) option" where
  "sha256_finalize ctx = do {
     let total_size = sha_total ctx;
     let padding_size = (if sha_size ctx < 56 then 56 - sha_size ctx else 64 + 56 - sha_size ctx);
     ctx \<leftarrow> sha256_update ctx (take padding_size padding);
     w \<leftarrow> upd (sha_w ctx) 14 (swapInt32 (ucast (drop_bit 32 total_size)));
     w \<leftarrow> upd w 15 (swapInt32 (ucast total_size));
     ctx \<leftarrow> sha256_process_block (ctx\<lparr>sha_w := w\<rparr>);
     Some (ctx\<lparr>sha_h := map_regs swapInt32 (sha_h ctx)\<rparr>, take 32 (sha_digest ctx))
   }"

definition sha256_finalize_raw :: "sha256_context \<Rightarrow> sha256_context \<times> u8 list" where
  "sha256_finalize_raw ctx =
     (let ctx = ctx\<lparr>sha_h := map_regs swapInt32 (sha_h ctx)\<rparr>;
          digest = take 32 (sha_digest ctx);
          ctx = ctx\<lparr>sha_h := map_regs swapInt32 (sha_h ctx)\<rparr>
      in (ctx, digest))"

text \<open>\<open>sha256_compute\<close> takes the memory that \<open>crypto_malloc\<close> returns, \<open>None\<close> when it fails.\<close>

definition sha256_compute :: "sha256_context option \<Rightarrow> u8 list \<Rightarrow> (int \<times> u8 list) option" where
  "sha256_compute memory data =
     (case memory of
        None \<Rightarrow> Some (-1, [])
      | Some ctx \<Rightarrow> do {
          ctx \<leftarrow> sha256_update (sha256_init ctx) data;
          (ctx, digest) \<leftarrow> sha256_finalize ctx;
          Some (0, digest)
        })"

subsection \<open>SHA-512\<close>

definition K512 :: "u64 list" where
  "K512 =
    [0x428A2F98D728AE22, 0x7137449123EF65CD, 0xB5C0FBCFEC4D3B2F, 0xE9B5DBA58189DBBC,
     0x3956C25BF348B538, 0x59F111F1B605D019, 0x923F82A4AF194F9B, 0xAB1C5ED5DA6D8118,
     0xD807AA98A3030242, 0x12835B0145706FBE, 0x243185BE4EE4B28C, 0x550C7DC3D5FFB4E2,
     0x72BE5D74F27B896F, 0x80DEB1FE3B1696B1, 0x9BDC06A725C71235, 0xC19BF174CF692694,
     0xE49B69C19EF14AD2, 0xEFBE4786384F25E3, 0x0FC19DC68B8CD5B5, 0x240CA1CC77AC9C65,
     0x2DE92C6F592B0275, 0x4A7484AA6EA6E483, 0x5CB0A9DCBD41FBD4, 0x76F988DA831153B5,
     0x983E5152EE66DFAB, 0xA831C66D2DB43210, 0xB00327C898FB213F, 0xBF597FC7BEEF0EE4,
     0xC6E00BF33DA88FC2, 0xD5A79147930AA725, 0x06CA6351E003826F, 0x142929670A0E6E70,
     0x27B70A8546D22FFC, 0x2E1B21385C26C926, 0x4D2C6DFC5AC42AED, 0x53380D139D95B3DF,
     0x650A73548BAF63DE, 0x766A0ABB3C77B2A8, 0x81C2C92E47EDAEE6, 0x92722C851482353B,
     0xA2BFE8A14CF10364, 0xA81A664BBC423001, 0xC24B8B70D0F89791, 0xC76C51A30654BE30,
     0xD192E819D6EF5218, 0xD69906245565A910, 0xF40E35855771202A, 0x106AA07032BBD1B8,
     0x19A4C116B8D2D0C8, 0x1E376C085141AB53, 0x2748774CDF8EEB99, 0x34B0BCB5E19B48A8,
     0x391C0CB3C5C95A63, 0x4ED8AA4AE3418ACB, 0x5B9CCA4F7763E373, 0x682E6FF3D6B2B8A3,
     0x748F82EE5DEFB2FC, 0x78A5636F43172F60, 0x84C87814A1F0AB72, 0x8CC702081A6439EC,
     0x90BEFFFA23631E28, 0xA4506CEBDE82BDE9, 0xBEF9A3F7B2C67915, 0xC67178F2E372532B,
     0xCA273ECEEA26619C, 0xD186B8C721C0C207, 0xEADA7DD6CDE0EB1E, 0xF57D4F7FEE6ED178,
     0x06F067AA72176FBA, 0x0A637DC5A2C898A6, 0x113F9804BEF90DAE, 0x1B710B35131C471B,
     0x28DB77F523047D84, 0x32CAAB7B40C72493, 0x3C9EBE0A15C9BEBC, 0x431D67C49C100D4C,
     0x4CC5D4BECB3E42B6, 0x597F299CFC657E2A, 0x5FCB6FAB3AD6FAEC, 0x6C44198C4A475817]"

definition SHR :: "u64 \<Rightarrow> nat \<Rightarrow> u64" where
  "SHR x n = drop_bit n x"

definition ROTR :: "u64 \<Rightarrow> nat \<Rightarrow> u64" where
  "ROTR x n = SHR x n OR push_bit (64 - n) x"

definition S0 :: "u64 \<Rightarrow> u64" where
  "S0 x = ROTR x 1 XOR ROTR x 8 XOR SHR x 7"

definition S1 :: "u64 \<Rightarrow> u64" where
  "S1 x = ROTR x 19 XOR ROTR x 61 XOR SHR x 6"

definition S2 :: "u64 \<Rightarrow> u64" where
  "S2 x = ROTR x 28 XOR ROTR x 34 XOR ROTR x 39"

definition S3 :: "u64 \<Rightarrow> u64" where
  "S3 x = ROTR x 14 XOR ROTR x 18 XOR ROTR x 41"

definition F0 :: "u64 \<Rightarrow> u64 \<Rightarrow> u64 \<Rightarrow> u64" where
  "F0 x y z = (x AND y) OR (z AND (x OR y))"

definition F1 :: "u64 \<Rightarrow> u64 \<Rightarrow> u64 \<Rightarrow> u64" where
  "F1 x y z = z XOR (x AND (y XOR z))"

record sha512_context =
  total0 :: u64
  total1 :: u64
  sha_state :: "u64 regs"
  sha512_buffer :: "u8 list"

definition sha512_init :: "sha512_context \<Rightarrow> sha512_context" where
  "sha512_init ctx = \<lparr>total0 = 0, total1 = 0, sha_state = (0, 0, 0, 0, 0, 0, 0, 0),
     sha512_buffer = replicate 512 0\<rparr>"

definition sha512_start :: "sha512_context \<Rightarrow> sha512_context" where
  "sha512_start ctx = ctx\<lparr>total0 := 0, total1 := 0,
     sha_state := (0x6A09E667F3BCC908, 0xBB67AE8584CAA73B, 0x3C6EF372FE94F82B, 0xA54FF53A5F1D36F1,
                   0x510E527FADE682D1, 0x9B05688C2B3E6C1F, 0x1F83D9ABFB41BD6B, 0x5BE0CD19137E2179)\<rparr>"

definition GET_UINT64_BE :: "u8 list \<Rightarrow> nat \<Rightarrow> u64 option" where
  "GET_UINT64_BE b i = do {
     b0 \<leftarrow> idx b i; b1 \<leftarrow> idx b (i + 1); b2 \<leftarrow> idx b (i + 2); b3 \<leftarrow> idx b (i + 3);
     b4 \<leftarrow> idx b (i + 4); b5 \<leftarrow> idx b (i + 5); b6 \<leftarrow> idx b (i + 6); b7 \<leftarrow> idx b (i + 7);
     Some (push_bit 56 (ucast b0) OR push_bit 48 (ucast b1) OR push_bit 40 (ucast b2) OR
       push_bit 32 (ucast b3) OR push_bit 24 (ucast b4) OR push_bit 16 (ucast b5) OR
       push_bit 8 (ucast b6) OR ucast b7)
   }"

definition PUT_UINT64_BE :: "u64 \<Rightarrow> u8 list" where
  "PUT_UINT64_BE n = [ucast (drop_bit 56 n), ucast (drop_bit 48 n), ucast (drop_bit 40 n),
     ucast (drop_bit 32 n), ucast (drop_bit 24 n), ucast (drop_bit 16 n), ucast (drop_bit 8 n), ucast n]"

text \<open>The macro \<open>P\<close>: the two registers it assigns, the fourth and the last of its arguments.\<close>

definition sha512_P ::
  "u64 \<Rightarrow> u64 \<Rightarrow> u64 \<Rightarrow> u64 \<Rightarrow> u64 \<Rightarrow> u64 \<Rightarrow> u64 \<Rightarrow> u64 \<Rightarrow> u64 \<Rightarrow> u64 \<Rightarrow> u64 \<times> u64" where
  "sha512_P a b c d e f g h x kx =
     (let temp1 = h + S3 e + F1 e f g + kx + x;
          temp2 = S2 a + F0 a b c
      in (d + temp1, temp1 + temp2))"

text \<open>
  The body of the \<open>do\<close> loop from round \<open>i\<close> on: eight uses of \<open>P\<close> with the registers renamed from one
  to the next.
\<close>

definition sha512_eight :: "u64 list \<Rightarrow> nat \<Rightarrow> u64 regs \<Rightarrow> u64 regs option" where
  "sha512_eight w i s = (case s of (a, b, c, d, e, f, g, h) \<Rightarrow> do {
     x \<leftarrow> idx w i; y \<leftarrow> idx K512 i;
     let (d, h) = sha512_P a b c d e f g h x y;
     x \<leftarrow> idx w (i + 1); y \<leftarrow> idx K512 (i + 1);
     let (c, g) = sha512_P h a b c d e f g x y;
     x \<leftarrow> idx w (i + 2); y \<leftarrow> idx K512 (i + 2);
     let (b, f) = sha512_P g h a b c d e f x y;
     x \<leftarrow> idx w (i + 3); y \<leftarrow> idx K512 (i + 3);
     let (a, e) = sha512_P f g h a b c d e x y;
     x \<leftarrow> idx w (i + 4); y \<leftarrow> idx K512 (i + 4);
     let (h, d) = sha512_P e f g h a b c d x y;
     x \<leftarrow> idx w (i + 5); y \<leftarrow> idx K512 (i + 5);
     let (g, c) = sha512_P d e f g h a b c x y;
     x \<leftarrow> idx w (i + 6); y \<leftarrow> idx K512 (i + 6);
     let (f, b) = sha512_P c d e f g h a b x y;
     x \<leftarrow> idx w (i + 7); y \<leftarrow> idx K512 (i + 7);
     let (e, a) = sha512_P b c d e f g h a x y;
     Some (a, b, c, d, e, f, g, h)
   })"

text \<open>The table \<open>W\<close>: sixteen words of the message, then the schedule.\<close>

definition sha512_extend :: "nat \<Rightarrow> u64 list \<Rightarrow> u64 list option" where
  "sha512_extend i w = do {
     w2 \<leftarrow> idx w (i - 2); w7 \<leftarrow> idx w (i - 7); w15 \<leftarrow> idx w (i - 15); w16 \<leftarrow> idx w (i - 16);
     Some (w @ [S1 w2 + w7 + S0 w15 + w16])
   }"

definition sha512_process :: "sha512_context \<Rightarrow> u8 list \<Rightarrow> sha512_context option" where
  "sha512_process ctx data = do {
     w \<leftarrow> for_each (\<lambda>i w. do { x \<leftarrow> GET_UINT64_BE data (8 * i); Some (w @ [x]) }) [0..<16] [];
     w \<leftarrow> for_each sha512_extend [16..<80] w;
     r \<leftarrow> for_each (\<lambda>j. sha512_eight w (8 * j)) [0..<10] (sha_state ctx);
     Some (ctx\<lparr>sha_state := add_regs (sha_state ctx) r\<rparr>)
   }"

text \<open>
  The full blocks of \<open>sha512_update\<close>, and the function itself. When the buffer fills up, the code
  passes \<open>input\<close> to \<open>sha512_process\<close>, not the buffer. \<open>input\<close> is the array from the given position
  on: a read past its end is undefined.
\<close>

function sha512_blocks :: "sha512_context \<Rightarrow> u8 list \<Rightarrow> nat \<Rightarrow> (sha512_context \<times> u8 list \<times> nat) option" where
  "sha512_blocks ctx input ilen =
     (if 128 \<le> ilen then do {
        ctx \<leftarrow> sha512_process ctx input;
        sha512_blocks ctx (drop 128 input) (ilen - 128)
      } else Some (ctx, input, ilen))"
  by pat_completeness auto
termination
  by (relation "measure (\<lambda>(ctx, input, ilen). ilen)") auto

declare sha512_blocks.simps [simp del]

definition sha512_update :: "sha512_context \<Rightarrow> u8 list \<Rightarrow> nat \<Rightarrow> sha512_context option" where
  "sha512_update ctx input ilen =
     (if ilen = 0 then Some ctx
      else do {
        let left = unat (total0 ctx AND 0x7F);
        let fill = 128 - left;
        let ctx = ctx\<lparr>total0 := total0 ctx + of_nat ilen\<rparr>;
        let ctx = (if total0 ctx < of_nat ilen then ctx\<lparr>total1 := total1 ctx + 1\<rparr> else ctx);
        (ctx, input, ilen, left) \<leftarrow>
          (if left \<noteq> 0 \<and> fill \<le> ilen then do {
             bs \<leftarrow> get_bytes input fill;
             buf \<leftarrow> put_bytes (sha512_buffer ctx) left bs;
             ctx \<leftarrow> sha512_process (ctx\<lparr>sha512_buffer := buf\<rparr>) input;
             Some (ctx, drop fill input, ilen - fill, 0)
           } else Some (ctx, input, ilen, left));
        (ctx, input, ilen) \<leftarrow> sha512_blocks ctx input ilen;
        if 0 < ilen then do {
          bs \<leftarrow> get_bytes input ilen;
          buf \<leftarrow> put_bytes (sha512_buffer ctx) left bs;
          Some (ctx\<lparr>sha512_buffer := buf\<rparr>)
        } else Some ctx
      })"

definition sha512_padding :: "u8 list" where
  "sha512_padding = 0x80 # replicate 127 0"

definition sha512_finish :: "sha512_context \<Rightarrow> (sha512_context \<times> u8 list) option" where
  "sha512_finish ctx = do {
     let high = push_bit 61 (total0 ctx) OR push_bit 3 (total1 ctx);
     let low = push_bit 3 (total0 ctx);
     let msglen = PUT_UINT64_BE high @ PUT_UINT64_BE low;
     let last = unat (total0 ctx AND 0x7F);
     let padn = (if last < 112 then 112 - last else 240 - last);
     ctx \<leftarrow> sha512_update ctx sha512_padding padn;
     ctx \<leftarrow> sha512_update ctx msglen 16;
     Some (ctx, concat (map PUT_UINT64_BE (list_of_regs (sha_state ctx))))
   }"

text \<open>\<open>sha512\<close> hashes the first \<open>n\<close> bytes of \<open>input\<close>; the context on its stack is wiped at the end.\<close>

definition sha512 :: "sha512_context \<Rightarrow> u8 list \<Rightarrow> nat \<Rightarrow> u8 list option" where
  "sha512 stack input n = do {
     ctx \<leftarrow> sha512_update (sha512_start (sha512_init stack)) input n;
     (ctx, out) \<leftarrow> sha512_finish ctx;
     Some out
   }"

end
