(* ===== verification/Sha2_Props.thy ===== *)
theory Sha2_Props
  imports Sha2
begin

text \<open>
  The block functions of both hash functions compute the compression of the standard. The functions
  around them do not: \<open>sha256_update\<close> copies the message to an array that the block function does not
  read and the digest is taken from one that nothing writes, and \<open>sha512\<close> reads past the end of its
  length block for every message.
\<close>

subsection \<open>The compression of the standard\<close>

function message_schedule ::
  "('a::len word \<Rightarrow> 'a word) \<Rightarrow> ('a word \<Rightarrow> 'a word) \<Rightarrow> 'a word list \<Rightarrow> nat \<Rightarrow> 'a word" where
  "message_schedule s0 s1 m t =
     (if t < 16 then m ! t
      else s1 (message_schedule s0 s1 m (t - 2)) + message_schedule s0 s1 m (t - 7) +
           s0 (message_schedule s0 s1 m (t - 15)) + message_schedule s0 s1 m (t - 16))"
  by pat_completeness auto
termination
  by (relation "measure (\<lambda>(s0, s1, m, t). t)") auto

declare message_schedule.simps [simp del]

definition std_ch :: "'a::len word \<Rightarrow> 'a word \<Rightarrow> 'a word \<Rightarrow> 'a word" where
  "std_ch x y z = (x AND y) XOR (NOT x AND z)"

definition std_maj :: "'a::len word \<Rightarrow> 'a word \<Rightarrow> 'a word \<Rightarrow> 'a word" where
  "std_maj x y z = (x AND y) XOR (x AND z) XOR (y AND z)"

definition rotr3 :: "nat \<Rightarrow> nat \<Rightarrow> nat \<Rightarrow> 'a::len word \<Rightarrow> 'a word" where
  "rotr3 i j k x = word_rotr i x XOR word_rotr j x XOR word_rotr k x"

definition rotr2_shr :: "nat \<Rightarrow> nat \<Rightarrow> nat \<Rightarrow> 'a::len word \<Rightarrow> 'a word" where
  "rotr2_shr i j k x = word_rotr i x XOR word_rotr j x XOR drop_bit k x"

definition std_round ::
  "('a::len word \<Rightarrow> 'a word) \<Rightarrow> ('a word \<Rightarrow> 'a word) \<Rightarrow> 'a word \<Rightarrow> 'a word \<Rightarrow> 'a word regs \<Rightarrow> 'a word regs" where
  "std_round b0 b1 kt wt s = (case s of (a, b, c, d, e, f, g, h) \<Rightarrow>
     let t1 = h + b1 e + std_ch e f g + kt + wt; t2 = b0 a + std_maj a b c
     in (t1 + t2, a, b, c, d + t1, e, f, g))"

definition std_sha256 :: "u32 list \<Rightarrow> u32 regs \<Rightarrow> u32 regs" where
  "std_sha256 m h = add_regs h (fold
     (\<lambda>t. std_round (rotr3 2 13 22) (rotr3 6 11 25) (k256 ! t)
        (message_schedule (rotr2_shr 7 18 3) (rotr2_shr 17 19 10) m t)) [0..<64] h)"

definition std_sha512 :: "u64 list \<Rightarrow> u64 regs \<Rightarrow> u64 regs" where
  "std_sha512 m h = add_regs h (fold
     (\<lambda>t. std_round (rotr3 28 34 39) (rotr3 14 18 41) (K512 ! t)
        (message_schedule (rotr2_shr 1 8 7) (rotr2_shr 19 61 6) m t)) [0..<80] h)"

subsection \<open>The functions of a round\<close>

lemma rotr_shifts:
  fixes x :: "'a::len word"
  assumes "0 < n" "n < LENGTH('a)"
  shows "drop_bit n x OR push_bit (LENGTH('a) - n) x = word_rotr n x"
proof (rule bit_word_eqI)
  fix k assume k: "k < LENGTH('a)"
  show "bit (drop_bit n x OR push_bit (LENGTH('a) - n) x) k \<longleftrightarrow> bit (word_rotr n x) k"
  proof (cases "k + n < LENGTH('a)")
    case True
    then show ?thesis using k
      by (auto simp: bit_or_iff bit_drop_bit_eq bit_push_bit_iff bit_word_rotr_iff add.commute)
  next
    case False
    then have "(k + n) mod LENGTH('a) = k + n - LENGTH('a)"
      using k assms by (simp add: le_mod_geq)
    then show ?thesis using False k assms
      by (auto simp: bit_or_iff bit_drop_bit_eq bit_push_bit_iff bit_word_rotr_iff add.commute
          dest: bit_imp_le_length)
  qed
qed

lemma rotate_right32_rotr: "0 < n \<Longrightarrow> n < 32 \<Longrightarrow> rotate_right32 x n = word_rotr n x"
  using rotr_shifts [of n x] by (simp add: rotate_right32_def)

lemma ROTR_rotr: "0 < n \<Longrightarrow> n < 64 \<Longrightarrow> ROTR x n = word_rotr n x"
  using rotr_shifts [of n x] by (simp add: ROTR_def SHR_def)

lemma ch_std: "ch x y z = std_ch x y z"
  by (rule bit_word_eqI) (auto simp: ch_def std_ch_def bit_simps)

lemma maj_std: "maj x y z = std_maj x y z"
  by (rule bit_word_eqI) (auto simp: maj_def std_maj_def bit_simps)

lemma F0_std: "F0 x y z = std_maj x y z"
  by (rule bit_word_eqI) (auto simp: F0_def std_maj_def bit_simps)

lemma F1_std: "F1 x y z = std_ch x y z"
  by (rule bit_word_eqI) (auto simp: F1_def std_ch_def bit_simps)

lemma sigma_std:
  "sigma1 = rotr3 2 13 22" "sigma2 = rotr3 6 11 25"
  "sigma3 = rotr2_shr 7 18 3" "sigma4 = rotr2_shr 17 19 10"
  by (simp_all add: fun_eq_iff sigma1_def sigma2_def sigma3_def sigma4_def rotr3_def rotr2_shr_def
      rotate_right32_rotr shift_right32_def)

lemma S_std:
  "S0 = rotr2_shr 1 8 7" "S1 = rotr2_shr 19 61 6" "S2 = rotr3 28 34 39" "S3 = rotr3 14 18 41"
  by (simp_all add: fun_eq_iff S0_def S1_def S2_def S3_def rotr3_def rotr2_shr_def ROTR_rotr SHR_def)

subsection \<open>SHA-256: the schedule in sixteen words\<close>

definition schedule_inv :: "u32 list \<Rightarrow> nat \<Rightarrow> u32 list \<Rightarrow> bool" where
  "schedule_inv m t w \<longleftrightarrow> length w = 16 \<and>
     (\<forall>u. t \<le> u + 16 \<and> u < max t 16 \<longrightarrow> w ! (u mod 16) = message_schedule sigma3 sigma4 m u)"

lemma schedule_inv_start: "length m = 16 \<Longrightarrow> schedule_inv m 0 m"
  by (auto simp: schedule_inv_def message_schedule.simps)

lemma mod_16_neq:
  assumes "u < t" "t < u + 16"
  shows "u mod 16 \<noteq> t mod (16::nat)"
proof
  assume "u mod 16 = t mod 16"
  then have "16 dvd t - u" using assms mod_eq_dvd_iff_nat [of u t 16] by simp
  then have "16 \<le> t - u" using assms by (intro dvd_imp_le) simp_all
  then show False using assms by simp
qed

lemma schedule_step:
  assumes "schedule_inv m t w"
  shows "\<exists>w'. sha256_schedule t w = Some w' \<and> schedule_inv m (Suc t) w' \<and>
    w' ! (t mod 16) = message_schedule sigma3 sigma4 m t"
proof (cases "t < 16")
  case True
  then show ?thesis using assms by (auto simp: sha256_schedule_def schedule_inv_def)
next
  case False
  have len: "length w = 16"
    and old: "\<And>u. t \<le> u + 16 \<Longrightarrow> u < t \<Longrightarrow> w ! (u mod 16) = message_schedule sigma3 sigma4 m u"
    using assms False by (auto simp: schedule_inv_def)
  have md: "t mod 16 = (t - 16) mod 16" "(t + 14) mod 16 = (t - 2) mod 16"
    "(t + 9) mod 16 = (t - 7) mod 16" "(t + 1) mod 16 = (t - 15) mod 16"
  proof -
    have "t = t - 16 + 16" "t + 14 = t - 2 + 16" "t + 9 = t - 7 + 16" "t + 1 = t - 15 + 16"
      using False by linarith+
    then show "t mod 16 = (t - 16) mod 16" "(t + 14) mod 16 = (t - 2) mod 16"
      "(t + 9) mod 16 = (t - 7) mod 16" "(t + 1) mod 16 = (t - 15) mod 16"
      by (metis mod_add_self2)+
  qed
  have "w ! ((t - 16) mod 16) = message_schedule sigma3 sigma4 m (t - 16)"
    "w ! ((t - 2) mod 16) = message_schedule sigma3 sigma4 m (t - 2)"
    "w ! ((t - 7) mod 16) = message_schedule sigma3 sigma4 m (t - 7)"
    "w ! ((t - 15) mod 16) = message_schedule sigma3 sigma4 m (t - 15)"
    using False by (intro old; linarith)+
  note recent = this [folded md]
  let ?w = "w[t mod 16 := message_schedule sigma3 sigma4 m t]"
  have "sha256_schedule t w = Some ?w"
    using False len recent
    by (simp add: sha256_schedule_def message_schedule.simps [of sigma3 sigma4 m t] algebra_simps)
  moreover have "schedule_inv m (Suc t) ?w"
    unfolding schedule_inv_def
  proof (intro conjI allI impI)
    fix u assume u: "Suc t \<le> u + 16 \<and> u < max (Suc t) 16"
    show "?w ! (u mod 16) = message_schedule sigma3 sigma4 m u"
    proof (cases "u = t")
      case True
      then show ?thesis using len by simp
    next
      case ne: False
      then have "u mod 16 \<noteq> t mod 16" using u False by (intro mod_16_neq) auto
      then show ?thesis using old [of u] u ne False by simp
    qed
  qed (simp add: len)
  ultimately show ?thesis using len by simp
qed

lemma length_k256: "length k256 = 64"
  by (simp add: k256_def)

lemma sha256_round_std:
  assumes "schedule_inv m t w" "t < 64"
  shows "\<exists>w'. sha256_round t (r, w) = Some (std_round sigma1 sigma2 (k256 ! t)
      (message_schedule sigma3 sigma4 m t) r, w') \<and> schedule_inv m (Suc t) w'"
proof -
  obtain w' where w': "sha256_schedule t w = Some w'" "schedule_inv m (Suc t) w'"
    "w' ! (t mod 16) = message_schedule sigma3 sigma4 m t"
    using schedule_step [OF assms(1)] by blast
  then have "t mod 16 < length w'" by (simp add: schedule_inv_def)
  then show ?thesis using w' assms(2)
    by (cases r rule: regs_cases) (simp add: sha256_round_def std_round_def ch_std maj_std length_k256 Let_def)
qed

lemma sha256_rounds_std:
  assumes "length m = 16" "n \<le> 64"
  shows "\<exists>w. for_each sha256_round [0..<n] (r, m) = Some (fold
      (\<lambda>t. std_round sigma1 sigma2 (k256 ! t) (message_schedule sigma3 sigma4 m t)) [0..<n] r, w) \<and>
    schedule_inv m n w"
  using assms(2)
proof (induction n)
  case 0
  then show ?case using assms(1) by (simp add: schedule_inv_start)
next
  case (Suc n)
  then obtain w where w: "for_each sha256_round [0..<n] (r, m) = Some (fold
      (\<lambda>t. std_round sigma1 sigma2 (k256 ! t) (message_schedule sigma3 sigma4 m t)) [0..<n] r, w)"
    "schedule_inv m n w" by auto
  then show ?case
    using sha256_round_std [OF w(2), of "fold (\<lambda>t. std_round sigma1 sigma2 (k256 ! t)
        (message_schedule sigma3 sigma4 m t)) [0..<n] r"] Suc.prems by (auto simp: for_each_append)
qed

lemma swap_words:
  "n \<le> length w \<Longrightarrow> for_each (\<lambda>t w. do { x \<leftarrow> idx w t; upd w t (swapInt32 x) }) [0..<n] w =
    Some (map swapInt32 (take n w) @ drop n w)"
proof (induction n)
  case (Suc n)
  then have "(map swapInt32 (take n w) @ drop n w)[n := swapInt32 (w ! n)] =
      map swapInt32 (take (Suc n) w) @ drop (Suc n) w"
    by (simp add: list_update_append take_Suc_conv_app_nth flip: Cons_nth_drop_Suc)
  then show ?case using Suc by (simp add: for_each_append nth_append)
qed simp

text \<open>The memory of a context: the lengths of its arrays.\<close>

definition sha256_memory :: "sha256_context \<Rightarrow> bool" where
  "sha256_memory ctx \<longleftrightarrow> length (sha_w ctx) = 16 \<and> length (sha_digest ctx) = 128 \<and>
     length (sha_buffer ctx) = 256"

lemma process_block_std:
  assumes "length (sha_w ctx) = 16"
  shows "\<exists>w. sha256_process_block ctx = Some (ctx\<lparr>
      sha_h := std_sha256 (map swapInt32 (sha_w ctx)) (sha_h ctx), sha_w := w\<rparr>) \<and> length w = 16"
proof -
  obtain w where "for_each sha256_round [0..<64] (sha_h ctx, map swapInt32 (sha_w ctx)) = Some (fold
      (\<lambda>t. std_round sigma1 sigma2 (k256 ! t)
        (message_schedule sigma3 sigma4 (map swapInt32 (sha_w ctx)) t)) [0..<64] (sha_h ctx), w)"
    and "schedule_inv (map swapInt32 (sha_w ctx)) 64 w"
    using sha256_rounds_std [of "map swapInt32 (sha_w ctx)" 64 "sha_h ctx"] assms by (auto simp del: upt.simps)
  then show ?thesis
    using assms by (intro exI [of _ w])
      (simp add: sha256_process_block_def swap_words std_sha256_def sigma_std schedule_inv_def)
qed

subsection \<open>SHA-256: where the message goes\<close>

lemma sha256_memory_process:
  assumes "sha256_memory ctx"
  obtains ctx' where "sha256_process_block ctx = Some ctx'" "sha256_memory ctx'"
    "sha_digest ctx' = sha_digest ctx" "sha_size ctx' = sha_size ctx" "sha_total ctx' = sha_total ctx"
  using process_block_std [of ctx] assms by (auto simp: sha256_memory_def)

text \<open>
  Absorbing data succeeds, keeps the digest array and, by \<open>sha_size\<close> and \<open>sha_total\<close>, counts the
  bytes.
\<close>

lemma sha256_update_ok:
  assumes "sha256_memory ctx" "sha_size ctx < 64"
  shows "\<exists>ctx'. sha256_update ctx data = Some ctx' \<and> sha256_memory ctx' \<and> sha_size ctx' < 64 \<and>
    sha_digest ctx' = sha_digest ctx"
  using assms
proof (induction ctx data rule: sha256_update.induct)
  case (1 ctx data)
  let ?n = "min (length data) (64 - sha_size ctx)"
  show ?case
  proof (cases "data = []")
    case True
    then show ?thesis using 1 by (simp add: sha256_update.simps [of ctx])
  next
    case False
    have room: "4 * sha_size ctx + ?n \<le> length (sha_buffer ctx)"
    proof -
      have "?n \<le> 64 - sha_size ctx" by simp
      then have "4 * sha_size ctx + ?n \<le> 256" using 1(3) by linarith
      then show ?thesis using 1(2) by (simp add: sha256_memory_def)
    qed
    then obtain buf where buf: "put_bytes (sha_buffer ctx) (4 * sha_size ctx) (take ?n data) = Some buf"
      by (auto simp: put_bytes_def)
    let ?c = "ctx\<lparr>sha_buffer := buf, sha_size := sha_size ctx + ?n, sha_total := sha_total ctx + of_nat ?n\<rparr>"
    have c: "sha256_memory ?c" using 1 put_bytes_length [OF buf] by (simp add: sha256_memory_def)
    obtain c' where c': "(if sha_size ?c = 64 then do { ctx \<leftarrow> sha256_process_block ?c; Some (ctx\<lparr>sha_size := 0\<rparr>) }
        else Some ?c) = Some c'" "sha256_memory c'" "sha_size c' < 64" "sha_digest c' = sha_digest ctx"
    proof (cases "sha_size ?c = 64")
      case True
      from c obtain d where "sha256_process_block ?c = Some d" "sha256_memory d" "sha_digest d = sha_digest ?c"
        by (rule sha256_memory_process)
      then show ?thesis using True that [of "d\<lparr>sha_size := 0\<rparr>"] by (simp add: sha256_memory_def)
    next
      case False
      then show ?thesis using that [of ?c] c 1 by auto
    qed
    have "sha256_update ctx data = sha256_update c' (drop ?n data)"
      using False 1 buf c'(1) by (subst sha256_update.simps) (simp add: Let_def)
    moreover have "\<exists>ctx'. sha256_update c' (drop ?n data) = Some ctx' \<and> sha256_memory ctx' \<and>
        sha_size ctx' < 64 \<and> sha_digest ctx' = sha_digest c'"
      using 1 False buf c' by (intro "1.IH" [of ?n buf ?c c']) auto
    ultimately show ?thesis using c'(4) by simp
  qed
qed

lemma sha256_init_memory:
  "sha256_memory ctx \<Longrightarrow> sha256_memory (sha256_init ctx)" "sha_size (sha256_init ctx) = 0"
  "sha_digest (sha256_init ctx) = sha_digest ctx"
  by (simp_all add: sha256_memory_def sha256_init_def)

lemma sha256_finalize_ok:
  assumes "sha256_memory ctx" "sha_size ctx < 64"
  shows "\<exists>ctx'. sha256_finalize ctx = Some (ctx', take 32 (sha_digest ctx)) \<and> sha256_memory ctx' \<and>
    sha_digest ctx' = sha_digest ctx"
proof -
  obtain c where c: "sha256_update ctx (take (if sha_size ctx < 56 then 56 - sha_size ctx
      else 64 + 56 - sha_size ctx) padding) = Some c" "sha256_memory c" "sha_digest c = sha_digest ctx"
    using sha256_update_ok [OF assms] by blast
  obtain w where w: "upd (sha_w c) 14 (swapInt32 (ucast (drop_bit 32 (sha_total ctx)))) = Some w" "length w = 16"
    using c by (simp add: sha256_memory_def)
  obtain w' where w': "upd w 15 (swapInt32 (ucast (sha_total ctx))) = Some w'" "length w' = 16"
    using w by simp
  have "sha256_memory (c\<lparr>sha_w := w'\<rparr>)" using c w' by (simp add: sha256_memory_def)
  then obtain d where d: "sha256_process_block (c\<lparr>sha_w := w'\<rparr>) = Some d" "sha256_memory d"
    "sha_digest d = sha_digest ctx"
    using c(3) by (auto elim: sha256_memory_process)
  then show ?thesis
    using c w w' by (simp add: sha256_finalize_def sha256_memory_def)
qed

subsection \<open>SHA-512\<close>

lemma length_K512: "length K512 = 80"
  by (simp add: K512_def)

definition block_words :: "u8 list \<Rightarrow> u64 list" where
  "block_words data = map (\<lambda>i. the (GET_UINT64_BE data (8 * i))) [0..<16]"

lemma GET_UINT64_BE_in: "i + 8 \<le> length b \<Longrightarrow> \<exists>x. GET_UINT64_BE b i = Some x"
  by (simp add: GET_UINT64_BE_def)

lemma load_block:
  assumes "128 \<le> length data" "n \<le> 16"
  shows "for_each (\<lambda>i w. do { x \<leftarrow> GET_UINT64_BE data (8 * i); Some (w @ [x]) }) [0..<n] [] =
    Some (map (\<lambda>i. the (GET_UINT64_BE data (8 * i))) [0..<n])"
  using assms(2)
proof (induction n)
  case (Suc n)
  then obtain x where "GET_UINT64_BE data (8 * n) = Some x"
    using GET_UINT64_BE_in [of "8 * n" data] assms by auto
  then show ?case using Suc by (simp add: for_each_append)
qed simp

lemma extend_schedule:
  assumes "length m = 16" "16 \<le> n"
  shows "for_each sha512_extend [16..<n] m = Some (map (message_schedule S0 S1 m) [0..<n])"
  using assms(2)
proof (induction n rule: dec_induct)
  case base
  have "map (message_schedule S0 S1 m) [0..<16] = m"
    by (rule nth_equalityI) (auto simp: assms message_schedule.simps)
  then show ?case by simp
next
  case (step n)
  then have "sha512_extend n (map (message_schedule S0 S1 m) [0..<n]) =
      Some (map (message_schedule S0 S1 m) [0..<n] @ [message_schedule S0 S1 m n])"
    by (simp add: sha512_extend_def message_schedule.simps [of S0 S1 m n] algebra_simps)
  then show ?case using step by (simp add: for_each_append)
qed

lemma std_round_P:
  "sha512_P a b c d e f g h x k = (d', h') \<Longrightarrow>
   std_round S2 S3 k x (a, b, c, d, e, f, g, h) = (h', a, b, c, d', e, f, g)"
  by (auto simp: sha512_P_def std_round_def F0_std F1_std Let_def)

lemma eight_rounds:
  assumes "length w = 80" "i + 8 \<le> 80"
  shows "sha512_eight w i r = Some (fold (\<lambda>t. std_round S2 S3 (K512 ! t) (w ! t)) [i..<i + 8] r)"
proof (cases r rule: regs_cases)
  case (1 a b c d e f g h)
  have u: "[i..<i + 8] = [i, i + 1, i + 2, i + 3, i + 4, i + 5, i + 6, i + 7]"
    by (simp add: upt_conv_Cons)
  obtain d1 h1 where p1: "sha512_P a b c d e f g h (w ! i) (K512 ! i) = (d1, h1)" by fastforce
  obtain c1 g1 where p2: "sha512_P h1 a b c d1 e f g (w ! (i + 1)) (K512 ! (i + 1)) = (c1, g1)" by fastforce
  obtain b1 f1 where p3: "sha512_P g1 h1 a b c1 d1 e f (w ! (i + 2)) (K512 ! (i + 2)) = (b1, f1)" by fastforce
  obtain a1 e1 where p4: "sha512_P f1 g1 h1 a b1 c1 d1 e (w ! (i + 3)) (K512 ! (i + 3)) = (a1, e1)" by fastforce
  obtain h2 d2 where p5: "sha512_P e1 f1 g1 h1 a1 b1 c1 d1 (w ! (i + 4)) (K512 ! (i + 4)) = (h2, d2)" by fastforce
  obtain g2 c2 where p6: "sha512_P d2 e1 f1 g1 h2 a1 b1 c1 (w ! (i + 5)) (K512 ! (i + 5)) = (g2, c2)" by fastforce
  obtain f2 b2 where p7: "sha512_P c2 d2 e1 f1 g2 h2 a1 b1 (w ! (i + 6)) (K512 ! (i + 6)) = (f2, b2)" by fastforce
  obtain e2 a2 where p8: "sha512_P b2 c2 d2 e1 f2 g2 h2 a1 (w ! (i + 7)) (K512 ! (i + 7)) = (e2, a2)" by fastforce
  note ps = p1 p2 p3 p4 p5 p6 p7 p8
  show ?thesis
    using assms by (simp add: sha512_eight_def 1 u ps [simplified] ps [THEN std_round_P, simplified] length_K512)
qed

lemma groups_of_eight:
  assumes "length w = 80" "n \<le> 10"
  shows "for_each (\<lambda>j. sha512_eight w (8 * j)) [0..<n] r =
    Some (fold (\<lambda>t. std_round S2 S3 (K512 ! t) (w ! t)) [0..<8 * n] r)"
  using assms(2)
proof (induction n)
  case (Suc n)
  have "[0..<8 * Suc n] = [0..<8 * n] @ [8 * n..<8 * n + 8]"
    by (metis add.commute le_add1 mult_Suc_right upt_add_eq_append zero_le)
  then show ?case using Suc assms(1) eight_rounds [of w "8 * n"] by (simp add: for_each_append)
qed simp

lemma sha512_process_std:
  assumes "128 \<le> length data"
  shows "sha512_process ctx data =
    Some (ctx\<lparr>sha_state := std_sha512 (block_words data) (sha_state ctx)\<rparr>)"
proof -
  let ?ms = "message_schedule S0 S1 (block_words data)"
  have "for_each sha512_extend [16..<80] (block_words data) = Some (map ?ms [0..<80])"
    by (rule extend_schedule) (simp_all add: block_words_def)
  moreover have "for_each (\<lambda>j. sha512_eight (map ?ms [0..<80]) (8 * j)) [0..<10] (sha_state ctx) =
      Some (fold (\<lambda>t. std_round S2 S3 (K512 ! t) (?ms t)) [0..<80] (sha_state ctx))"
    by (subst groups_of_eight) (auto intro!: fold_cong simp del: upt_rec_numeral)
  ultimately show ?thesis
    using load_block [OF assms, of 16]
    by (simp add: sha512_process_def std_sha512_def S_std del: upt_rec_numeral flip: block_words_def)
qed

text \<open>The block function reads 128 bytes.\<close>

lemma sha512_process_short:
  assumes "length data < 128"
  shows "sha512_process ctx data = None"
proof -
  have "idx data 127 = None" using assms by simp
  then have "\<not> (\<exists>v. idx data 127 = Some v)" by simp
  then have short: "GET_UINT64_BE data 120 = None"
    by (simp add: GET_UINT64_BE_def split: Option.bind_splits del: idx_eq_None_iff)
  have "for_each (\<lambda>i w. do { x \<leftarrow> GET_UINT64_BE data (8 * i); Some (w @ [x]) }) ([0..<15] @ [15]) [] = None"
    using short by (simp add: for_each_append split: Option.bind_splits del: upt_rec_numeral)
  moreover have "[0..<15] @ [15] = [0..<16::nat]"
    using upt_Suc_append [of 0 15] by (simp del: upt_rec_numeral)
  ultimately show ?thesis by (simp add: sha512_process_def del: upt_rec_numeral)
qed

lemma sha512_process_total:
  "sha512_process ctx data = Some ctx' \<Longrightarrow> total0 ctx' = total0 ctx"
  by (auto simp: sha512_process_def split: Option.bind_splits)

lemma sha512_blocks_total:
  "sha512_blocks ctx input ilen = Some (ctx', input', ilen') \<Longrightarrow> total0 ctx' = total0 ctx"
proof (induction ctx input ilen rule: sha512_blocks.induct)
  case (1 ctx input ilen)
  then show ?case
    by (subst (asm) (2) sha512_blocks.simps)
      (auto split: if_splits Option.bind_splits dest: sha512_process_total)
qed

lemma sha512_update_total:
  assumes "sha512_update ctx input n = Some ctx'"
  shows "total0 ctx' = total0 ctx + of_nat n"
  using assms
  by (auto simp: sha512_update_def Let_def split: if_splits Option.bind_splits
      dest!: sha512_blocks_total sha512_process_total)

text \<open>
  The last step of \<open>sha512_finish\<close>: after the padding the buffer holds 112 bytes modulo 128, so the
  sixteen bytes of the length fill it and are given to the block function.
\<close>

lemma update_short_block:
  assumes "unat (total0 ctx AND 0x7F) = 112" and "length input = 16"
  shows "sha512_update ctx input 16 = None"
  using assms
  by (simp add: sha512_update_def Let_def sha512_process_short split: Option.bind_splits)

lemma and_7F: "unat (x AND (0x7F :: u64)) = unat x mod 128"
proof -
  have "(0x7F :: u64) = mask 7" by (simp add: mask_eq_exp_minus_1)
  then show ?thesis by (simp only: take_bit_eq_mask [symmetric] unsigned_take_bit_eq) (simp add: take_bit_eq_mod)
qed

lemma padded_total:
  fixes t :: u64
  assumes "l = unat (t AND 0x7F)"
  shows "unat ((t + of_nat (if l < 112 then 112 - l else 240 - l)) AND 0x7F) = 112"
proof -
  have l: "l = unat t mod 128" "l < 128" using assms by (simp_all add: and_7F)
  let ?p = "if l < 112 then 112 - l else 240 - l"
  have "unat (t + of_nat ?p) mod 128 = (unat t + ?p) mod 128"
    by (simp add: unat_word_ariths unsigned_of_nat take_bit_eq_mod mod_mod_cancel mod_add_right_eq)
  also have "\<dots> = (unat t mod 128 + ?p) mod 128" by (simp add: mod_add_left_eq)
  also have "\<dots> = 112" using l(2) by (auto simp flip: l(1))
  finally show ?thesis by (simp add: and_7F)
qed

lemma sha512_finish_None: "sha512_finish ctx = None"
proof -
  let ?l = "unat (total0 ctx AND 0x7F)"
  let ?p = "if ?l < 112 then 112 - ?l else 240 - ?l"
  have "sha512_update c msg 16 = None"
    if "sha512_update ctx sha512_padding ?p = Some c" and "length msg = 16" for c msg
    using sha512_update_total [OF that(1)] padded_total [OF refl, of "total0 ctx"] that(2)
    by (intro update_short_block) simp_all
  then show ?thesis
    by (auto simp: sha512_finish_def Let_def PUT_UINT64_BE_def split: Option.bind_splits)
qed

subsection \<open>Properties\<close>

text \<open>
  C36: \<open>sha256_process_block\<close>, which keeps the message schedule in the sixteen words of the context,
  computes the compression function of the standard, with its 64-word schedule, on the big endian
  words of \<open>w\<close>.
\<close>

theorem sha256_process_block_reference:
  assumes "length (sha_w ctx) = 16"
  shows "\<exists>w. sha256_process_block ctx = Some (ctx\<lparr>
      sha_h := std_sha256 (map swapInt32 (sha_w ctx)) (sha_h ctx), sha_w := w\<rparr>)"
  using process_block_std [OF assms] by blast

text \<open>
  \<open>sha256_compute\<close> reports success and returns the first 32 bytes that the memory of the
  context held in \<open>digest\<close> when it was allocated, whatever the message.
\<close>

theorem sha256_digest_ignores_message:
  assumes "sha256_memory memory"
  shows "sha256_compute (Some memory) data = Some (0, take 32 (sha_digest memory))"
proof -
  note i = sha256_init_memory(1) [OF assms] sha256_init_memory(2,3) [of memory]
  obtain c where c: "sha256_update (sha256_init memory) data = Some c" "sha256_memory c" "sha_size c < 64"
    "sha_digest c = sha_digest memory"
    using sha256_update_ok [of "sha256_init memory" data] i by auto
  then show ?thesis
    using sha256_finalize_ok [OF c(2,3)] by (auto simp: sha256_compute_def)
qed

text \<open>
  \<open>sha512_process\<close>, which renames the registers instead of moving them, computes the compression
  function of the standard on any 128 bytes.
\<close>

theorem sha512_process_reference:
  assumes "128 \<le> length data"
  shows "sha512_process ctx data =
    Some (ctx\<lparr>sha_state := std_sha512 (block_words data) (sha_state ctx)\<rparr>)"
  by (rule sha512_process_std [OF assms])

text \<open>
  For every message \<open>sha512\<close> reads past the end of an array: \<open>sha512_update\<close> hands the block
  function its input in place of the full buffer, and the last input is the sixteen bytes of the
  length.
\<close>

theorem sha512_reads_past_length: "sha512 stack input n = None"
  by (simp add: sha512_def sha512_finish_None split: Option.bind_splits)

text \<open>A context in memory filled with sevens.\<close>

definition sha256_example :: sha256_context where
  "sha256_example = \<lparr>sha_h = (7, 7, 7, 7, 7, 7, 7, 7), sha_w = replicate 16 7,
     sha_digest = replicate 128 7, sha_buffer = replicate 256 7, sha_size = 7, sha_total = 7\<rparr>"

theorem sha256_process_block_reference_witness:
  "\<exists>w. sha256_process_block sha256_example = Some (sha256_example\<lparr>
      sha_h := std_sha256 (replicate 16 (swapInt32 7)) (7, 7, 7, 7, 7, 7, 7, 7), sha_w := w\<rparr>)"
  using sha256_process_block_reference [of sha256_example] by (simp add: sha256_example_def)

theorem sha256_digest_ignores_message_witness:
  "sha256_compute (Some sha256_example) [97, 98, 99] = Some (0, replicate 32 7)"
  using sha256_digest_ignores_message [of sha256_example "[97, 98, 99]"]
  by (simp add: sha256_memory_def sha256_example_def)

definition sha512_example :: sha512_context where
  "sha512_example = \<lparr>total0 = 0, total1 = 0, sha_state = (7, 7, 7, 7, 7, 7, 7, 7), sha512_buffer = []\<rparr>"

theorem sha512_process_reference_witness:
  "sha512_process sha512_example (replicate 128 0) = Some (sha512_example\<lparr>
      sha_state := std_sha512 (block_words (replicate 128 0)) (7, 7, 7, 7, 7, 7, 7, 7)\<rparr>)"
  using sha512_process_reference [of "replicate 128 0" sha512_example] by (simp add: sha512_example_def)

end
