(* ===== verification/Hmac.thy ===== *)
theory Hmac
  imports Sha2_Props
begin

text \<open>
  The keyed-hash message authentication code, kernel/src/crypto/mac/hmac.c, over the table of
  functions of a hash algorithm (\<open>crypto_hash_algo_t\<close>).

  The locale \<open>hash_algo\<close> states what an incremental hash promises its client: there is a hash
  function \<open>H\<close> and a relation between a context and the bytes absorbed so far. The code of hmac.c
  computes the HMAC of \<open>H\<close>. The table of the kernel's SHA-256 satisfies the laws, with an \<open>H\<close> that
  ignores the message.
\<close>

subsection \<open>State\<close>

text \<open>The fields of the table that hmac.c uses.\<close>

record 'c crypto_hash_algo =
  block_size :: nat
  digest_size :: nat
  init_func :: "'c \<Rightarrow> 'c"
  update_func :: "'c \<Rightarrow> u8 list \<Rightarrow> 'c option"
  finalize_func :: "'c \<Rightarrow> ('c \<times> u8 list) option"

text \<open>The key is an array of 64 bytes, the digest one of 32.\<close>

record 'c hmac_context =
  hm_hash :: "'c crypto_hash_algo option"
  hash_context :: 'c
  hm_key :: "u8 list"
  hm_digest :: "u8 list"

definition HMAC_INNER_PAD :: u8 where
  "HMAC_INNER_PAD = 0x36"

definition HMAC_OUTER_PAD :: u8 where
  "HMAC_OUTER_PAD = 0x5c"

subsection \<open>Operations\<close>

text \<open>
  \<open>crypto_zeroize\<close> of an array from \<open>off\<close> up to \<open>n\<close>; a difference below zero would wrap to a length
  beyond any array.
\<close>

definition zeroize_from :: "u8 list \<Rightarrow> nat \<Rightarrow> nat \<Rightarrow> u8 list option" where
  "zeroize_from m off n = (if off \<le> n then put_bytes m off (replicate (n - off) 0) else None)"

definition xor_key :: "u8 list \<Rightarrow> nat \<Rightarrow> u8 \<Rightarrow> u8 list option" where
  "xor_key key n pad = for_each (\<lambda>i k. do { x \<leftarrow> idx k i; upd k i (x XOR pad) }) [0..<n] key"

text \<open>A key longer than a block is replaced by its hash; the rest of the block is cleared.\<close>

definition hmac_load_key ::
  "'c crypto_hash_algo \<Rightarrow> 'c hmac_context \<Rightarrow> u8 list \<Rightarrow> 'c hmac_context option" where
  "hmac_load_key h ctx key =
     (if length key > block_size h then do {
        c \<leftarrow> update_func h (init_func h (hash_context ctx)) key;
        (c, d) \<leftarrow> finalize_func h c;
        k \<leftarrow> put_bytes (hm_key ctx) 0 d;
        k \<leftarrow> zeroize_from k (digest_size h) (block_size h);
        Some (ctx\<lparr>hash_context := c, hm_key := k\<rparr>)
      } else do {
        k \<leftarrow> put_bytes (hm_key ctx) 0 key;
        k \<leftarrow> zeroize_from k (length key) (block_size h);
        Some (ctx\<lparr>hm_key := k\<rparr>)
      })"

text \<open>A null pointer is \<open>None\<close>; the result holds the error code and the context.\<close>

definition hmac_init ::
  "'c hmac_context option \<Rightarrow> 'c crypto_hash_algo option \<Rightarrow> u8 list option \<Rightarrow> nat \<Rightarrow>
   (int \<times> 'c hmac_context option) option" where
  "hmac_init context hash key key_len =
     (case (context, hash) of
        (Some ctx, Some h) \<Rightarrow>
          if key = None \<and> key_len \<noteq> 0 then Some (-1, context)
          else do {
            let ctx = ctx\<lparr>hm_hash := hash\<rparr>;
            kb \<leftarrow> get_bytes (case key of None \<Rightarrow> [] | Some k \<Rightarrow> k) key_len;
            ctx \<leftarrow> hmac_load_key h ctx kb;
            k \<leftarrow> xor_key (hm_key ctx) (block_size h) HMAC_INNER_PAD;
            kb \<leftarrow> get_bytes k (block_size h);
            c \<leftarrow> update_func h (init_func h (hash_context ctx)) kb;
            Some (0, Some (ctx\<lparr>hm_key := k, hash_context := c\<rparr>))
          }
      | _ \<Rightarrow> Some (-1, context))"

definition hmac_update :: "'c hmac_context \<Rightarrow> u8 list \<Rightarrow> 'c hmac_context option" where
  "hmac_update ctx data = do {
     h \<leftarrow> hm_hash ctx;
     c \<leftarrow> update_func h (hash_context ctx) data;
     Some (ctx\<lparr>hash_context := c\<rparr>)
   }"

text \<open>
  \<open>hmac_finalize_raw\<close> is the part of \<open>hmac_finalize\<close> after the inner digest; both return the bytes
  they copy to the digest of the caller.
\<close>

definition hmac_finalize_raw :: "'c hmac_context \<Rightarrow> ('c hmac_context \<times> u8 list) option" where
  "hmac_finalize_raw ctx = do {
     h \<leftarrow> hm_hash ctx;
     k \<leftarrow> xor_key (hm_key ctx) (block_size h) (HMAC_INNER_PAD XOR HMAC_OUTER_PAD);
     kb \<leftarrow> get_bytes k (block_size h);
     c \<leftarrow> update_func h (init_func h (hash_context ctx)) kb;
     db \<leftarrow> get_bytes (hm_digest ctx) (digest_size h);
     c \<leftarrow> update_func h c db;
     (c, d) \<leftarrow> finalize_func h c;
     dig \<leftarrow> put_bytes (hm_digest ctx) 0 d;
     out \<leftarrow> get_bytes dig (digest_size h);
     Some (ctx\<lparr>hm_key := k, hash_context := c, hm_digest := dig\<rparr>, out)
   }"

definition hmac_finalize :: "'c hmac_context \<Rightarrow> ('c hmac_context \<times> u8 list) option" where
  "hmac_finalize ctx = do {
     h \<leftarrow> hm_hash ctx;
     (c, d) \<leftarrow> finalize_func h (hash_context ctx);
     dig \<leftarrow> put_bytes (hm_digest ctx) 0 d;
     hmac_finalize_raw (ctx\<lparr>hash_context := c, hm_digest := dig\<rparr>)
   }"

text \<open>\<open>memory\<close> is what \<open>crypto_malloc\<close> returns.\<close>

definition hmac_compute ::
  "'c hmac_context option \<Rightarrow> 'c crypto_hash_algo option \<Rightarrow> u8 list option \<Rightarrow> nat \<Rightarrow> u8 list \<Rightarrow>
   (int \<times> u8 list) option" where
  "hmac_compute memory hash key key_len data =
     (if memory = None then Some (-1, [])
      else do {
        (error, context) \<leftarrow> hmac_init memory hash key key_len;
        if error = 0 then do {
          ctx \<leftarrow> context;
          ctx \<leftarrow> hmac_update ctx data;
          (ctx, digest) \<leftarrow> hmac_finalize ctx;
          Some (error, digest)
        } else Some (error, [])
      })"

text \<open>The table of SHA-256.\<close>

definition sha256_hash_algo :: "sha256_context crypto_hash_algo" where
  "sha256_hash_algo = \<lparr>block_size = 64, digest_size = 32, init_func = sha256_init,
     update_func = sha256_update, finalize_func = sha256_finalize\<rparr>"

subsection \<open>The code that is meant\<close>

definition hmac_key :: "(u8 list \<Rightarrow> u8 list) \<Rightarrow> nat \<Rightarrow> u8 list \<Rightarrow> u8 list" where
  "hmac_key H b key =
     (let k = (if length key > b then H key else key) in k @ replicate (b - length k) 0)"

definition hmac_of :: "(u8 list \<Rightarrow> u8 list) \<Rightarrow> nat \<Rightarrow> u8 list \<Rightarrow> u8 list \<Rightarrow> u8 list" where
  "hmac_of H b key msg =
     H (map (\<lambda>x. x XOR 0x5c) (hmac_key H b key) @
        H (map (\<lambda>x. x XOR 0x36) (hmac_key H b key) @ msg))"

text \<open>The arrays of a context.\<close>

definition hmac_memory :: "'c hmac_context \<Rightarrow> bool" where
  "hmac_memory ctx \<longleftrightarrow> length (hm_key ctx) = 64 \<and> length (hm_digest ctx) = 32"

lemma xor_key_eq:
  assumes "n \<le> length key"
  shows "xor_key key n pad = Some (map (\<lambda>x. x XOR pad) (take n key) @ drop n key)"
  using assms unfolding xor_key_def
proof (induction n)
  case (Suc n)
  then have "(map (\<lambda>x. x XOR pad) (take n key) @ drop n key)[n := key ! n XOR pad] =
      map (\<lambda>x. x XOR pad) (take (Suc n) key) @ drop (Suc n) key"
    by (simp add: list_update_append take_Suc_conv_app_nth flip: Cons_nth_drop_Suc)
  then show ?case using Suc by (simp add: for_each_append nth_append)
qed simp

lemma put_bytes_0: "length bs \<le> length m \<Longrightarrow> put_bytes m 0 bs = Some (bs @ drop (length bs) m)"
  by (simp add: put_bytes_def)

lemma zeroize_tail:
  assumes "length bs \<le> n" "n \<le> length m"
  shows "zeroize_from (bs @ drop (length bs) m) (length bs) n =
    Some (bs @ replicate (n - length bs) 0 @ drop n m)"
  using assms by (simp add: zeroize_from_def put_bytes_def)

lemma get_bytes_append: "get_bytes (xs @ ys) (length xs) = Some xs"
  by (simp add: get_bytes_def)

subsection \<open>The contract of a hash algorithm\<close>

locale hash_algo =
  fixes algo :: "'c crypto_hash_algo"
    and H :: "u8 list \<Rightarrow> u8 list"
    and absorbed :: "'c \<Rightarrow> u8 list \<Rightarrow> bool"
    and valid :: "'c \<Rightarrow> bool"
  assumes init_absorbed: "valid c \<Longrightarrow> absorbed (init_func algo c) []"
    and update_absorbed: "absorbed c m \<Longrightarrow> \<exists>c'. update_func algo c d = Some c' \<and> absorbed c' (m @ d)"
    and finalize_hash: "absorbed c m \<Longrightarrow> \<exists>c'. finalize_func algo c = Some (c', H m) \<and> valid c'"
    and absorbed_length: "absorbed c m \<Longrightarrow> length (H m) = digest_size algo"
    and sizes: "block_size algo \<le> 64" "digest_size algo \<le> 32" "digest_size algo \<le> block_size algo"
begin

text \<open>Hashing a list of pieces.\<close>

lemma hash_two:
  assumes "valid c"
  shows "\<exists>c1 c2. update_func algo (init_func algo c) d = Some c1 \<and>
    update_func algo c1 e = Some c2 \<and> absorbed c2 (d @ e)"
  using init_absorbed [OF assms] update_absorbed [of "init_func algo c" "[]" d] update_absorbed [of _ d e]
  by fastforce

lemma hash_one:
  assumes "valid c"
  shows "\<exists>c1. update_func algo (init_func algo c) d = Some c1 \<and> absorbed c1 d"
  using init_absorbed [OF assms] update_absorbed [of "init_func algo c" "[]" d] by fastforce

lemma hmac_init_spec:
  assumes "hmac_memory ctx" "valid (hash_context ctx)"
  shows "\<exists>c. hmac_init (Some ctx) (Some algo) (Some key) (length key) = Some (0, Some (ctx\<lparr>
      hm_hash := Some algo,
      hm_key := map (\<lambda>x. x XOR 0x36) (hmac_key H (block_size algo) key) @ drop (block_size algo) (hm_key ctx),
      hash_context := c\<rparr>)) \<and>
    absorbed c (map (\<lambda>x. x XOR 0x36) (hmac_key H (block_size algo) key)) \<and>
    length (hmac_key H (block_size algo) key) = block_size algo"
proof -
  let ?b = "block_size algo" and ?k0 = "hmac_key H (block_size algo) key"
  let ?x = "map (\<lambda>x. x XOR 0x36) ?k0"
  have room: "?b \<le> length (hm_key ctx)" using assms sizes by (simp add: hmac_memory_def)
  let ?ctx = "ctx\<lparr>hm_hash := Some algo\<rparr>"
  obtain c where c: "hmac_load_key algo ?ctx key = Some (?ctx\<lparr>hash_context := c,
      hm_key := ?k0 @ drop ?b (hm_key ctx)\<rparr>)" "valid c" "length ?k0 = ?b"
  proof (cases "length key > ?b")
    case True
    obtain c1 where c1: "update_func algo (init_func algo (hash_context ctx)) key = Some c1" "absorbed c1 key"
      using hash_one [OF assms(2)] by blast
    obtain c2 where c2: "finalize_func algo c1 = Some (c2, H key)" "valid c2"
      using finalize_hash [OF c1(2)] by blast
    have "length (H key) = digest_size algo" by (rule absorbed_length [OF c1(2)])
    then show ?thesis
      using that [of c2] True c1 c2 sizes room put_bytes_0 [of "H key" "hm_key ctx"]
        zeroize_tail [of "H key" ?b "hm_key ctx"]
      by (simp add: hmac_load_key_def hmac_key_def)
  next
    case False
    then show ?thesis
      using that [of "hash_context ctx"] assms room put_bytes_0 [of key "hm_key ctx"]
        zeroize_tail [of key ?b "hm_key ctx"]
      by (simp add: hmac_load_key_def hmac_key_def)
  qed
  have x: "xor_key (?k0 @ drop ?b (hm_key ctx)) ?b 0x36 = Some (?x @ drop ?b (hm_key ctx))"
    using c(3) room by (subst xor_key_eq) simp_all
  have g: "get_bytes (?x @ drop ?b (hm_key ctx)) ?b = Some ?x"
    using get_bytes_append [of ?x] c(3) by simp
  obtain c1 where "update_func algo (init_func algo c) ?x = Some c1" "absorbed c1 ?x"
    using hash_one [OF c(2)] by blast
  then show ?thesis
    using c x g
    by (intro exI [of _ c1])
      (simp add: hmac_init_def HMAC_INNER_PAD_def get_bytes_def Let_def)
qed

lemma hmac_finalize_spec:
  assumes m: "hmac_memory ctx" and h: "hm_hash ctx = Some algo"
    and k0: "length k0 = block_size algo"
    and k: "hm_key ctx = map (\<lambda>x. x XOR 0x36) k0 @ drop (block_size algo) rest"
    and c: "absorbed (hash_context ctx) m1"
  shows "\<exists>ctx'. hmac_finalize ctx = Some (ctx', H (map (\<lambda>x. x XOR 0x5c) k0 @ H m1))"
proof -
  let ?b = "block_size algo"
  obtain c1 where c1: "finalize_func algo (hash_context ctx) = Some (c1, H m1)" "valid c1"
    using finalize_hash [OF c] by blast
  have d: "length (H m1) = digest_size algo" by (rule absorbed_length [OF c])
  have dig: "put_bytes (hm_digest ctx) 0 (H m1) = Some (H m1 @ drop (digest_size algo) (hm_digest ctx))"
    using d sizes m by (simp add: put_bytes_0 hmac_memory_def)
  have x: "xor_key (hm_key ctx) ?b (0x36 XOR 0x5c) =
      Some (map (\<lambda>x. x XOR 0x5c) k0 @ drop ?b rest)"
  proof -
    have "(x XOR 0x36) XOR 0x6A = x XOR (0x5c :: u8)" for x
      by (simp add: xor.assoc)
    then show ?thesis using k k0 by (subst xor_key_eq) (simp_all add: comp_def)
  qed
  obtain c2 c3 where c2: "update_func algo (init_func algo c1) (map (\<lambda>x. x XOR 0x5c) k0) = Some c2"
    "update_func algo c2 (H m1) = Some c3" "absorbed c3 (map (\<lambda>x. x XOR 0x5c) k0 @ H m1)"
    using hash_two [OF c1(2)] by blast
  obtain c4 where c4: "finalize_func algo c3 = Some (c4, H (map (\<lambda>x. x XOR 0x5c) k0 @ H m1))"
    using finalize_hash [OF c2(3)] by blast
  have d2: "length (H (map (\<lambda>x. x XOR 0x5c) k0 @ H m1)) = digest_size algo"
    by (rule absorbed_length [OF c2(3)])
  have dig2: "put_bytes (H m1 @ drop (digest_size algo) (hm_digest ctx)) 0
      (H (map (\<lambda>x. x XOR 0x5c) k0 @ H m1)) =
      Some (H (map (\<lambda>x. x XOR 0x5c) k0 @ H m1) @ drop (digest_size algo) (hm_digest ctx))"
    using d d2 by (simp add: put_bytes_0)
  have "get_bytes (map (\<lambda>x. x XOR 0x5c) k0 @ drop ?b rest) ?b = Some (map (\<lambda>x. x XOR 0x5c) k0)"
    "get_bytes (H m1 @ drop (digest_size algo) (hm_digest ctx)) (digest_size algo) = Some (H m1)"
    "get_bytes (H (map (\<lambda>x. x XOR 0x5c) k0 @ H m1) @ drop (digest_size algo) (hm_digest ctx))
      (digest_size algo) = Some (H (map (\<lambda>x. x XOR 0x5c) k0 @ H m1))"
    using k0 d d2 by (simp_all add: get_bytes_def)
  then show ?thesis
    using c1 c2 c4 dig dig2 x h
    by (simp add: hmac_finalize_def hmac_finalize_raw_def HMAC_INNER_PAD_def HMAC_OUTER_PAD_def
        del: xor_numerals)
qed

lemma hmac_compute_spec:
  assumes "hmac_memory ctx" "valid (hash_context ctx)"
  shows "hmac_compute (Some ctx) (Some algo) (Some key) (length key) data =
    Some (0, hmac_of H (block_size algo) key data)"
proof -
  obtain c where c: "hmac_init (Some ctx) (Some algo) (Some key) (length key) = Some (0, Some (ctx\<lparr>
      hm_hash := Some algo,
      hm_key := map (\<lambda>x. x XOR 0x36) (hmac_key H (block_size algo) key) @ drop (block_size algo) (hm_key ctx),
      hash_context := c\<rparr>))"
    "absorbed c (map (\<lambda>x. x XOR 0x36) (hmac_key H (block_size algo) key))"
    "length (hmac_key H (block_size algo) key) = block_size algo"
    using hmac_init_spec [OF assms] by blast
  obtain c1 where c1: "update_func algo c data = Some c1"
    "absorbed c1 (map (\<lambda>x. x XOR 0x36) (hmac_key H (block_size algo) key) @ data)"
    using update_absorbed [OF c(2)] by blast
  let ?ctx = "ctx\<lparr>hm_hash := Some algo,
      hm_key := map (\<lambda>x. x XOR 0x36) (hmac_key H (block_size algo) key) @ drop (block_size algo) (hm_key ctx),
      hash_context := c1\<rparr>"
  have "hmac_memory ?ctx" using assms(1) c(3) sizes by (simp add: hmac_memory_def)
  then obtain ctx' where "hmac_finalize ?ctx = Some (ctx', hmac_of H (block_size algo) key data)"
    using hmac_finalize_spec [of ?ctx "hmac_key H (block_size algo) key" "hm_key ctx"] c c1
    by (auto simp: hmac_of_def)
  then show ?thesis using c(1) c1(1) by (simp add: hmac_compute_def hmac_update_def)
qed

end

subsection \<open>SHA-256 as the algorithm\<close>

text \<open>
  The table of SHA-256 satisfies the contract, for the bytes \<open>d\<close> that the digest array of the context
  holds, with the hash function that returns \<open>d\<close>.
\<close>

interpretation sha256_algo: hash_algo sha256_hash_algo "\<lambda>_. d"
  "\<lambda>c m. sha256_memory c \<and> sha_size c < 64 \<and> take 32 (sha_digest c) = d"
  "\<lambda>c. sha256_memory c \<and> take 32 (sha_digest c) = d" for d
proof unfold_locales
  fix c :: sha256_context and m e
  assume c: "sha256_memory c \<and> sha_size c < 64 \<and> take 32 (sha_digest c) = d"
  show "\<exists>c'. update_func sha256_hash_algo c e = Some c' \<and>
      sha256_memory c' \<and> sha_size c' < 64 \<and> take 32 (sha_digest c') = d"
    using sha256_update_ok [of c e] c by (auto simp: sha256_hash_algo_def)
  show "\<exists>c'. finalize_func sha256_hash_algo c = Some (c', d) \<and> sha256_memory c' \<and> take 32 (sha_digest c') = d"
    using sha256_finalize_ok [of c] c by (auto simp: sha256_hash_algo_def)
  show "length d = digest_size sha256_hash_algo"
    using c by (auto simp: sha256_hash_algo_def sha256_memory_def)
qed (simp_all add: sha256_hash_algo_def sha256_init_memory)

text \<open>
  So the code computed with SHA-256 depends neither on the key nor on the message.
\<close>

lemma hmac_sha256_ignores_key:
  assumes "hmac_memory ctx" "sha256_memory (hash_context ctx)"
  shows "hmac_compute (Some ctx) (Some sha256_hash_algo) (Some key) (length key) data =
    Some (0, take 32 (sha_digest (hash_context ctx)))"
  using sha256_algo.hmac_compute_spec [of ctx "take 32 (sha_digest (hash_context ctx))" key data] assms
  by (simp add: hmac_of_def)

subsection \<open>Properties\<close>

text \<open>
  C35: \<open>hmac_compute\<close> computes the HMAC of the hash function of its algorithm, for keys of every length:
  for any table of functions that hash incrementally, and any memory for the context.
\<close>

theorem hmac_computes:
  assumes "hash_algo algo H absorbed valid" and "hmac_memory ctx" and "valid (hash_context ctx)"
  shows "hmac_compute (Some ctx) (Some algo) (Some key) (length key) data =
    Some (0, hmac_of H (block_size algo) key data)"
  by (rule hash_algo.hmac_compute_spec [OF assms])

text \<open>An algorithm with one byte blocks and digests that adds up the bytes.\<close>

definition sum_algo :: "u8 crypto_hash_algo" where
  "sum_algo = \<lparr>block_size = 1, digest_size = 1, init_func = (\<lambda>_. 0),
     update_func = (\<lambda>c d. Some (c + sum_list d)), finalize_func = (\<lambda>c. Some (0, [c]))\<rparr>"

lemma sum_algo: "hash_algo sum_algo (\<lambda>m. [sum_list m]) (\<lambda>c m. c = sum_list m) (\<lambda>_. True)"
  by unfold_locales (auto simp: sum_algo_def)

theorem hmac_computes_witness:
  "hmac_compute (Some \<lparr>hm_hash = None, hash_context = 0, hm_key = replicate 64 3, hm_digest = replicate 32 3\<rparr>)
     (Some sum_algo) (Some [1, 2]) 2 [5] = Some (0, hmac_of (\<lambda>m. [sum_list m]) 1 [1, 2] [5])"
  using hmac_computes [OF sum_algo, of _ "[1, 2]" "[5]"] by (simp add: hmac_memory_def sum_algo_def numeral_2_eq_2)

end
