(* ===== verification/Alloc_Plan.thy ===== *)
theory Alloc_Plan
  imports OS6_Prelude
begin

text \<open>
  Allocation that may fail: a plan lists the answers to the next calls of \<open>malloc\<close>, and every call
  succeeds once it is used up. A function that allocates takes a plan and returns the rest of it.
\<close>

type_synonym plan = "bool list"

fun malloc :: "plan \<Rightarrow> bool \<times> plan" where
  "malloc [] = (True, [])"
| "malloc (b # s) = (b, s)"

end
