(* ===== verification/Gui_Rect.thy ===== *)
theory Gui_Rect
  imports Alloc_Plan
begin

text \<open>
  Rectangles and the lists that hold them: kernel/src/gui/rect.c, gui_list.c and gui_listnode.c.

  The coordinates are integers; \<open>rect_split_range\<close> shows that no operation here leaves the range of its
  operands, so that no \<open>int\<close> overflows. The nodes of a \<open>gui_list_t\<close> are reached only through the
  list, so a list is the sequence of its payloads.
\<close>

subsection \<open>Lists\<close>

definition gui_list_add :: "plan \<Rightarrow> 'a list \<Rightarrow> 'a \<Rightarrow> int \<times> 'a list \<times> plan" where
  "gui_list_add s xs x =
     (let (ok, s) = malloc s in if ok then (1, xs @ [x], s) else (0, xs, s))"

text \<open>An index past the end gives the null pointer.\<close>

definition gui_list_get_at :: "'a list \<Rightarrow> nat \<Rightarrow> 'a option" where
  "gui_list_get_at xs i = (if length xs = 0 \<or> i \<ge> length xs then None else Some (xs ! i))"

definition gui_list_remove_at :: "'a list \<Rightarrow> nat \<Rightarrow> 'a option \<times> 'a list" where
  "gui_list_remove_at xs i =
     (if length xs = 0 \<or> i \<ge> length xs then (None, xs)
      else (Some (xs ! i), take i xs @ drop (Suc i) xs))"

subsection \<open>Rectangles\<close>

text \<open>All four sides belong to the rectangle.\<close>

record rect =
  r_top :: int
  r_left :: int
  r_bottom :: int
  r_right :: int

definition rect_new :: "plan \<Rightarrow> int \<Rightarrow> int \<Rightarrow> int \<Rightarrow> int \<Rightarrow> rect option \<times> plan" where
  "rect_new s t l b r =
     (let (ok, s) = malloc s in
      (if ok then Some \<lparr>r_top = t, r_left = l, r_bottom = b, r_right = r\<rparr> else None, s))"

text \<open>
  One side of \<open>rect_split\<close>: when \<open>cond\<close> holds, \<open>piece\<close> is allocated and added to the output and the
  subject shrinks to \<open>rest\<close>. When the allocation fails everything is freed and the result is null;
  whether \<open>gui_list_add\<close> found memory for the node is not looked at.
\<close>

definition split_side ::
  "bool \<Rightarrow> rect \<Rightarrow> rect \<Rightarrow> rect list \<times> rect \<Rightarrow> plan \<Rightarrow> (rect list \<times> rect) option \<times> plan" where
  "split_side cond piece rest st s =
     (case st of (out, subject) \<Rightarrow>
        if cond then
          (case rect_new s (r_top piece) (r_left piece) (r_bottom piece) (r_right piece) of
             (None, s) \<Rightarrow> (None, s)
           | (Some p, s) \<Rightarrow>
               let (_, out, s) = gui_list_add s out p in (Some (out, rest), s))
        else (Some (out, subject), s))"

text \<open>The four sides, in the order of the code: left, top, right, bottom.\<close>

definition split_left :: "rect \<Rightarrow> rect list \<times> rect \<Rightarrow> plan \<Rightarrow> (rect list \<times> rect) option \<times> plan" where
  "split_left cutting st = (case st of (out, r) \<Rightarrow>
     split_side (r_left cutting > r_left r \<and> r_left cutting \<le> r_right r)
       (r\<lparr>r_right := r_left cutting - 1\<rparr>) (r\<lparr>r_left := r_left cutting\<rparr>) st)"

definition split_top :: "rect \<Rightarrow> rect list \<times> rect \<Rightarrow> plan \<Rightarrow> (rect list \<times> rect) option \<times> plan" where
  "split_top cutting st = (case st of (out, r) \<Rightarrow>
     split_side (r_top cutting > r_top r \<and> r_top cutting \<le> r_bottom r)
       (r\<lparr>r_bottom := r_top cutting - 1\<rparr>) (r\<lparr>r_top := r_top cutting\<rparr>) st)"

definition split_right :: "rect \<Rightarrow> rect list \<times> rect \<Rightarrow> plan \<Rightarrow> (rect list \<times> rect) option \<times> plan" where
  "split_right cutting st = (case st of (out, r) \<Rightarrow>
     split_side (r_right cutting \<ge> r_left r \<and> r_right cutting < r_right r)
       (r\<lparr>r_left := r_right cutting + 1\<rparr>) (r\<lparr>r_right := r_right cutting\<rparr>) st)"

definition split_bottom :: "rect \<Rightarrow> rect list \<times> rect \<Rightarrow> plan \<Rightarrow> (rect list \<times> rect) option \<times> plan" where
  "split_bottom cutting st = (case st of (out, r) \<Rightarrow>
     split_side (r_bottom cutting \<ge> r_top r \<and> r_bottom cutting < r_bottom r)
       (r\<lparr>r_top := r_bottom cutting + 1\<rparr>) (r\<lparr>r_bottom := r_bottom cutting\<rparr>) st)"

definition and_then ::
  "('s \<Rightarrow> 'a option \<times> 's) \<Rightarrow> ('a \<Rightarrow> 's \<Rightarrow> 'b option \<times> 's) \<Rightarrow> 's \<Rightarrow> 'b option \<times> 's" where
  "and_then f g s = (case f s of (None, s) \<Rightarrow> (None, s) | (Some x, s) \<Rightarrow> g x s)"

definition rect_split :: "rect \<Rightarrow> rect \<Rightarrow> plan \<Rightarrow> rect list option \<times> plan" where
  "rect_split subject cutting s =
     (let (ok, s) = malloc s in
      if \<not> ok then (None, s)
      else
        and_then (split_left cutting ([], subject)) (\<lambda>st.
        and_then (split_top cutting st) (\<lambda>st.
        and_then (split_right cutting st) (\<lambda>st.
        and_then (split_bottom cutting st) (\<lambda>st s. (Some (fst st), s))))) s)"

definition rects_meet :: "rect \<Rightarrow> rect \<Rightarrow> bool" where
  "rects_meet a b \<longleftrightarrow> r_left a \<le> r_right b \<and> r_right a \<ge> r_left b \<and>
     r_top a \<le> r_bottom b \<and> r_bottom a \<ge> r_top b"

definition rect_intersect :: "rect \<Rightarrow> rect \<Rightarrow> plan \<Rightarrow> rect option \<times> plan" where
  "rect_intersect a b s =
     (if \<not> rects_meet a b then (None, s)
      else
        (case rect_new s (r_top a) (r_left a) (r_bottom a) (r_right a) of
           (None, s) \<Rightarrow> (None, s)
         | (Some r, s) \<Rightarrow>
             let r = (if r_left b \<ge> r_left r \<and> r_left b \<le> r_right r then r\<lparr>r_left := r_left b\<rparr> else r);
                 r = (if r_top b \<ge> r_top r \<and> r_top b \<le> r_bottom r then r\<lparr>r_top := r_top b\<rparr> else r);
                 r = (if r_right b \<ge> r_left r \<and> r_right b \<le> r_right r then r\<lparr>r_right := r_right b\<rparr> else r);
                 r = (if r_bottom b \<ge> r_top r \<and> r_bottom b \<le> r_bottom r then r\<lparr>r_bottom := r_bottom b\<rparr> else r)
             in (Some r, s)))"

subsection \<open>Rectangles as sets of points\<close>

definition points :: "rect \<Rightarrow> (int \<times> int) set" where
  "points r = {r_left r..r_right r} \<times> {r_top r..r_bottom r}"

definition rect_ok :: "rect \<Rightarrow> bool" where
  "rect_ok r \<longleftrightarrow> r_left r \<le> r_right r \<and> r_top r \<le> r_bottom r"

definition region :: "rect list \<Rightarrow> (int \<times> int) set" where
  "region rs = \<Union> (points ` set rs)"

text \<open>Well-formed and pairwise disjoint.\<close>

fun tiles :: "rect list \<Rightarrow> bool" where
  "tiles [] \<longleftrightarrow> True"
| "tiles (r # rs) \<longleftrightarrow> rect_ok r \<and> points r \<inter> region rs = {} \<and> tiles rs"

lemma region_simps [simp]:
  "region [] = {}" "region (r # rs) = points r \<union> region rs" "region (xs @ ys) = region xs \<union> region ys"
  by (auto simp: region_def)

lemma tiles_append:
  "tiles (xs @ ys) \<longleftrightarrow> tiles xs \<and> tiles ys \<and> region xs \<inter> region ys = {}"
  by (induction xs) auto

lemma rects_meet_iff:
  "rect_ok a \<Longrightarrow> rect_ok b \<Longrightarrow> rects_meet a b \<longleftrightarrow> points a \<inter> points b \<noteq> {}"
  by (auto simp: rects_meet_def points_def rect_ok_def Times_Int_Times)

text \<open>
  One side keeps that the output together with the subject tiles the original rectangle.
\<close>

definition split_state :: "rect \<Rightarrow> rect \<Rightarrow> rect list \<times> rect \<Rightarrow> bool" where
  "split_state subject cutting st \<longleftrightarrow> (case st of (out, r) \<Rightarrow>
     tiles (out @ [r]) \<and> region (out @ [r]) = points subject \<and>
     region out \<inter> points cutting = {} \<and> rects_meet r cutting)"

lemma in_points: "(x, y) \<in> points r \<longleftrightarrow> r_left r \<le> x \<and> x \<le> r_right r \<and> r_top r \<le> y \<and> y \<le> r_bottom r"
  by (auto simp: points_def)

lemma rect_eta: "\<lparr>r_top = r_top p, r_left = r_left p, r_bottom = r_bottom p, r_right = r_right p\<rparr> = (p :: rect)"
  by simp

lemma split_side_plenty:
  "split_side cond piece rest (out, r) [] =
    (Some (if cond then (out @ [piece], rest) else (out, r)), [])"
  by (simp add: split_side_def rect_new_def gui_list_add_def)

lemma split_side_state:
  assumes "split_state subject cutting (out, r)"
    and "rect_ok piece" "rect_ok rest" "points piece \<inter> points rest = {}" "points piece \<union> points rest = points r"
    and "points piece \<inter> points cutting = {}" "rects_meet rest cutting"
  shows "split_state subject cutting (out @ [piece], rest)"
  using assms unfolding split_state_def by (auto simp: tiles_append)

lemma split_state_ok: "split_state subject cutting (out, r) \<Longrightarrow> rect_ok r \<and> rects_meet r cutting"
  by (simp add: split_state_def tiles_append)

lemma points_eqI:
  "(\<And>x y. (x, y) \<in> A \<longleftrightarrow> (x, y) \<in> B) \<Longrightarrow> A = (B :: (int \<times> int) set)"
  by auto

lemma points_disjointI:
  "(\<And>x y. (x, y) \<in> A \<Longrightarrow> (x, y) \<in> B \<Longrightarrow> False) \<Longrightarrow> A \<inter> B = ({} :: (int \<times> int) set)"
  by auto

text \<open>The subject only shrinks.\<close>

definition within :: "rect \<Rightarrow> rect \<Rightarrow> bool" where
  "within r r' \<longleftrightarrow> r_left r \<le> r_left r' \<and> r_right r' \<le> r_right r \<and>
     r_top r \<le> r_top r' \<and> r_bottom r' \<le> r_bottom r"

lemma split_left_ok:
  assumes "split_state subject cutting (out, r)" "rect_ok cutting"
  shows "\<exists>out' r'. split_left cutting (out, r) [] = (Some (out', r'), []) \<and>
    split_state subject cutting (out', r') \<and> within r r' \<and> r_left cutting \<le> r_left r'"
proof (cases "r_left cutting > r_left r \<and> r_left cutting \<le> r_right r")
  case True
  have "split_state subject cutting (out @ [r\<lparr>r_right := r_left cutting - 1\<rparr>], r\<lparr>r_left := r_left cutting\<rparr>)"
    using True assms split_state_ok [OF assms(1)]
    by (intro split_side_state [OF assms(1)] points_eqI points_disjointI)
      (auto simp: in_points rect_ok_def rects_meet_def)
  then show ?thesis using True by (simp add: split_left_def split_side_plenty within_def)
next
  case False
  then show ?thesis using assms split_state_ok [OF assms(1)]
    by (auto simp: split_left_def split_side_plenty rects_meet_def within_def)
qed

lemma split_top_ok:
  assumes "split_state subject cutting (out, r)" "rect_ok cutting"
  shows "\<exists>out' r'. split_top cutting (out, r) [] = (Some (out', r'), []) \<and>
    split_state subject cutting (out', r') \<and> within r r' \<and> r_top cutting \<le> r_top r'"
proof (cases "r_top cutting > r_top r \<and> r_top cutting \<le> r_bottom r")
  case True
  have "split_state subject cutting (out @ [r\<lparr>r_bottom := r_top cutting - 1\<rparr>], r\<lparr>r_top := r_top cutting\<rparr>)"
    using True assms split_state_ok [OF assms(1)]
    by (intro split_side_state [OF assms(1)] points_eqI points_disjointI)
      (auto simp: in_points rect_ok_def rects_meet_def)
  then show ?thesis using True by (simp add: split_top_def split_side_plenty within_def)
next
  case False
  then show ?thesis using assms split_state_ok [OF assms(1)]
    by (auto simp: split_top_def split_side_plenty rects_meet_def within_def)
qed

lemma split_right_ok:
  assumes "split_state subject cutting (out, r)" "rect_ok cutting"
  shows "\<exists>out' r'. split_right cutting (out, r) [] = (Some (out', r'), []) \<and>
    split_state subject cutting (out', r') \<and> within r r' \<and> r_right r' \<le> r_right cutting"
proof (cases "r_right cutting \<ge> r_left r \<and> r_right cutting < r_right r")
  case True
  have "split_state subject cutting (out @ [r\<lparr>r_left := r_right cutting + 1\<rparr>], r\<lparr>r_right := r_right cutting\<rparr>)"
    using True assms split_state_ok [OF assms(1)]
    by (intro split_side_state [OF assms(1)] points_eqI points_disjointI)
      (auto simp: in_points rect_ok_def rects_meet_def)
  then show ?thesis using True by (simp add: split_right_def split_side_plenty within_def)
next
  case False
  then show ?thesis using assms split_state_ok [OF assms(1)]
    by (auto simp: split_right_def split_side_plenty rects_meet_def within_def)
qed

lemma split_bottom_ok:
  assumes "split_state subject cutting (out, r)" "rect_ok cutting"
  shows "\<exists>out' r'. split_bottom cutting (out, r) [] = (Some (out', r'), []) \<and>
    split_state subject cutting (out', r') \<and> within r r' \<and> r_bottom r' \<le> r_bottom cutting"
proof (cases "r_bottom cutting \<ge> r_top r \<and> r_bottom cutting < r_bottom r")
  case True
  have "split_state subject cutting (out @ [r\<lparr>r_top := r_bottom cutting + 1\<rparr>], r\<lparr>r_bottom := r_bottom cutting\<rparr>)"
    using True assms split_state_ok [OF assms(1)]
    by (intro split_side_state [OF assms(1)] points_eqI points_disjointI)
      (auto simp: in_points rect_ok_def rects_meet_def)
  then show ?thesis using True by (simp add: split_bottom_def split_side_plenty within_def)
next
  case False
  then show ?thesis using assms split_state_ok [OF assms(1)]
    by (auto simp: split_bottom_def split_side_plenty rects_meet_def within_def)
qed

lemma rect_split_ok:
  assumes "rect_ok subject" "rect_ok cutting" "rects_meet subject cutting"
  shows "\<exists>rs. rect_split subject cutting [] = (Some rs, []) \<and> tiles rs \<and>
    region rs = points subject - points cutting"
proof -
  have s0: "split_state subject cutting ([], subject)"
    using assms by (simp add: split_state_def)
  obtain o1 r1 where s1: "split_left cutting ([], subject) [] = (Some (o1, r1), [])"
    "split_state subject cutting (o1, r1)" "r_left cutting \<le> r_left r1"
    using split_left_ok [OF s0 assms(2)] by blast
  obtain o2 r2 where s2: "split_top cutting (o1, r1) [] = (Some (o2, r2), [])"
    "split_state subject cutting (o2, r2)" "within r1 r2" "r_top cutting \<le> r_top r2"
    using split_top_ok [OF s1(2) assms(2)] by blast
  obtain o3 r3 where s3: "split_right cutting (o2, r2) [] = (Some (o3, r3), [])"
    "split_state subject cutting (o3, r3)" "within r2 r3" "r_right r3 \<le> r_right cutting"
    using split_right_ok [OF s2(2) assms(2)] by blast
  obtain o4 r4 where s4: "split_bottom cutting (o3, r3) [] = (Some (o4, r4), [])"
    "split_state subject cutting (o4, r4)" "within r3 r4" "r_bottom r4 \<le> r_bottom cutting"
    using split_bottom_ok [OF s3(2) assms(2)] by blast
  have "points r4 \<subseteq> points cutting"
    using s1(3) s2(3,4) s3(3,4) s4(3,4) by (auto simp: in_points within_def)
  then have "region o4 = points subject - points cutting"
    using s4(2) by (auto simp: split_state_def tiles_append)
  moreover have "tiles o4" using s4(2) by (simp add: split_state_def tiles_append)
  moreover have "rect_split subject cutting [] = (Some o4, [])"
    using s1(1) s2(1) s3(1) s4(1) by (simp add: rect_split_def and_then_def)
  ultimately show ?thesis by simp
qed

lemma rect_intersect_ok:
  assumes "rect_ok a" "rect_ok b"
  shows "case rect_intersect a b [] of
      (None, s) \<Rightarrow> s = [] \<and> points a \<inter> points b = {}
    | (Some r, s) \<Rightarrow> s = [] \<and> rect_ok r \<and> points r = points a \<inter> points b"
proof (cases "rects_meet a b")
  case False
  then show ?thesis using rects_meet_iff [OF assms] by (simp add: rect_intersect_def)
next
  case True
  then show ?thesis using assms
    by (auto simp: rect_intersect_def rect_new_def Let_def rects_meet_def rect_ok_def points_def)
qed

text \<open>No coordinate leaves the range of the operands, whatever the plan.\<close>

definition in_range :: "int \<Rightarrow> int \<Rightarrow> rect \<Rightarrow> bool" where
  "in_range lo hi r \<longleftrightarrow> {r_top r, r_left r, r_bottom r, r_right r} \<subseteq> {lo..hi}"

definition state_in_range :: "int \<Rightarrow> int \<Rightarrow> (rect list \<times> rect) option \<times> plan \<Rightarrow> bool" where
  "state_in_range lo hi res \<longleftrightarrow>
     (case fst res of None \<Rightarrow> True | Some (out, r) \<Rightarrow> list_all (in_range lo hi) out \<and> in_range lo hi r)"

lemma split_side_range:
  assumes "list_all (in_range lo hi) out" "in_range lo hi r"
    and "cond \<Longrightarrow> in_range lo hi piece \<and> in_range lo hi rest"
  shows "state_in_range lo hi (split_side cond piece rest (out, r) s)"
  using assms
  by (auto simp: state_in_range_def split_side_def rect_new_def gui_list_add_def Let_def rect_eta
      split: option.splits prod.splits if_splits)

lemma split_sides_range:
  assumes "list_all (in_range lo hi) out" "in_range lo hi r" "in_range lo hi cutting"
  shows "state_in_range lo hi (split_left cutting (out, r) s)" "state_in_range lo hi (split_top cutting (out, r) s)"
    "state_in_range lo hi (split_right cutting (out, r) s)" "state_in_range lo hi (split_bottom cutting (out, r) s)"
  using assms(2,3) unfolding split_left_def split_top_def split_right_def split_bottom_def prod.case
  by (intro split_side_range assms; auto simp: in_range_def)+

lemma and_then_range:
  assumes "state_in_range lo hi (f s)"
    and "\<And>out r s. list_all (in_range lo hi) out \<Longrightarrow> in_range lo hi r \<Longrightarrow> Q (g (out, r) s)"
    and "\<And>s. Q (None, s)"
  shows "Q (and_then f g s)"
  using assms by (auto simp: and_then_def state_in_range_def split: prod.splits option.splits)

lemma rect_split_range:
  assumes "in_range lo hi subject" "in_range lo hi cutting"
  shows "case fst (rect_split subject cutting s) of None \<Rightarrow> True | Some rs \<Rightarrow> list_all (in_range lo hi) rs"
proof -
  let ?Q = "\<lambda>res :: rect list option \<times> plan. case fst res of None \<Rightarrow> True | Some rs \<Rightarrow> list_all (in_range lo hi) rs"
  note step = and_then_range [where lo = lo and hi = hi and Q = ?Q]
  have 4: "?Q (and_then (split_bottom cutting (out, r)) (\<lambda>st s. (Some (fst st), s)) s)"
    if "list_all (in_range lo hi) out" "in_range lo hi r" for out r s
    by (rule step, rule split_sides_range) (simp_all add: that assms)
  have 3: "?Q (and_then (split_right cutting (out, r)) (\<lambda>st.
      and_then (split_bottom cutting st) (\<lambda>st s. (Some (fst st), s))) s)"
    if "list_all (in_range lo hi) out" "in_range lo hi r" for out r s
    by (rule step, rule split_sides_range) (simp_all add: that assms 4)
  have 2: "?Q (and_then (split_top cutting (out, r)) (\<lambda>st. and_then (split_right cutting st) (\<lambda>st.
      and_then (split_bottom cutting st) (\<lambda>st s. (Some (fst st), s)))) s)"
    if "list_all (in_range lo hi) out" "in_range lo hi r" for out r s
    by (rule step, rule split_sides_range) (simp_all add: that assms 3)
  have "?Q (and_then (split_left cutting ([], subject)) (\<lambda>st. and_then (split_top cutting st) (\<lambda>st.
      and_then (split_right cutting st) (\<lambda>st.
      and_then (split_bottom cutting st) (\<lambda>st s. (Some (fst st), s))))) s')" for s'
    by (rule step, rule split_sides_range) (simp_all add: assms 2)
  then show ?thesis by (simp add: rect_split_def split: prod.splits)
qed

subsection \<open>Properties\<close>

text \<open>
  For two well-formed rectangles that meet, \<open>rect_split\<close> returns well-formed and pairwise disjoint
  rectangles that cover exactly the points of the first one outside the second, and
  \<open>rect_intersect\<close> a rectangle with the points of both.
\<close>

theorem rect_split_tiles:
  assumes "rect_ok a" and "rect_ok b" and "points a \<inter> points b \<noteq> {}"
  shows "(\<exists>rs. rect_split a b [] = (Some rs, []) \<and> tiles rs \<and> region rs = points a - points b) \<and>
    (\<exists>r. rect_intersect a b [] = (Some r, []) \<and> rect_ok r \<and> points r = points a \<inter> points b)"
  using rect_split_ok [OF assms(1,2)] rect_intersect_ok [OF assms(1,2)] rects_meet_iff [OF assms(1,2)] assms(3)
  by (auto split: prod.splits option.splits)

theorem rect_split_tiles_witness:
  "\<exists>rs. rect_split \<lparr>r_top = 0, r_left = 0, r_bottom = 9, r_right = 9\<rparr>
     \<lparr>r_top = 3, r_left = 4, r_bottom = 5, r_right = 20\<rparr> [] = (Some rs, []) \<and> tiles rs \<and>
     region rs = ({0..9} \<times> {0..9}) - ({4..20} \<times> {3..5})"
proof -
  let ?a = "\<lparr>r_top = 0, r_left = 0, r_bottom = 9, r_right = 9\<rparr> :: rect"
  let ?b = "\<lparr>r_top = 3, r_left = 4, r_bottom = 5, r_right = 20\<rparr> :: rect"
  have "(4, 3) \<in> points ?a \<inter> points ?b" by (simp add: points_def)
  then have "points ?a \<inter> points ?b \<noteq> {}" by blast
  from rect_split_tiles [OF _ _ this] show ?thesis by (simp add: rect_ok_def points_def)
qed

end
