(* ===== verification/Gui_Context.thy ===== *)
theory Gui_Context
  imports Gui_Rect
begin

text \<open>
  Drawing contexts, kernel/src/gui/context.c: a frame buffer, a translation and a list of clipping
  rectangles.

  \<open>None\<close> stands for a signed overflow, an access outside the frame buffer, the font or a bitmap, the
  null list of a \<open>rect_split\<close> without memory, and a loop that does not end. The glyphs of
  \<open>font_array\<close> are a parameter.
\<close>

subsection \<open>State\<close>

record gui_context =
  cx_buffer :: "u32 list"
  cx_width :: u16
  cx_height :: u16
  cx_tx :: int
  cx_ty :: int
  cx_clip :: "rect list"
  cx_clipping :: bool

subsection \<open>The arithmetic of \<open>int\<close>\<close>

text \<open>A signed result, \<open>None\<close> on overflow, and the conversion of an unsigned sum to \<open>int\<close>.\<close>

definition int32 :: "int \<Rightarrow> int option" where
  "int32 i = (if -(2 ^ 31) \<le> i \<and> i < 2 ^ 31 then Some i else None)"

definition wrap32 :: "int \<Rightarrow> int" where
  "wrap32 i = signed_take_bit 31 i"

lemma int32_in: "-(2 ^ 31) \<le> i \<Longrightarrow> i < 2 ^ 31 \<Longrightarrow> int32 i = Some i"
  by (simp add: int32_def)

lemma wrap32_in: "-(2 ^ 31) \<le> i \<Longrightarrow> i < 2 ^ 31 \<Longrightarrow> wrap32 i = i"
  by (simp add: wrap32_def signed_take_bit_int_eq_self)

subsection \<open>Creation\<close>

definition Context_new :: "plan \<Rightarrow> u16 \<Rightarrow> u16 \<Rightarrow> u32 list \<Rightarrow> gui_context option \<times> plan" where
  "Context_new s w h buf =
     (let (ok, s) = malloc s in
      if \<not> ok then (None, s)
      else let (ok, s) = malloc s in
        (if ok then Some \<lparr>cx_buffer = buf, cx_width = w, cx_height = h, cx_tx = 0, cx_ty = 0,
           cx_clip = [], cx_clipping = False\<rparr> else None, s))"

subsection \<open>Filling rectangles\<close>

definition plot :: "gui_context \<Rightarrow> u32 list \<Rightarrow> int \<Rightarrow> int \<Rightarrow> u32 \<Rightarrow> u32 list option" where
  "plot ctx buf x y color = do {
     row \<leftarrow> int32 (y * uint (cx_width ctx));
     i \<leftarrow> int32 (row + x);
     if 0 \<le> i then upd buf (nat i) color else None
   }"

definition Context_clipped_rect ::
  "gui_context \<Rightarrow> int \<Rightarrow> int \<Rightarrow> int \<Rightarrow> int \<Rightarrow> rect \<Rightarrow> u32 \<Rightarrow> gui_context option" where
  "Context_clipped_rect ctx x y width height clip_area color = do {
     let max_x = wrap32 (x + width);
     let max_y = wrap32 (y + height);
     x \<leftarrow> int32 (x + cx_tx ctx);
     y \<leftarrow> int32 (y + cx_ty ctx);
     max_x \<leftarrow> int32 (max_x + cx_tx ctx);
     max_y \<leftarrow> int32 (max_y + cx_ty ctx);
     let x = (if x < r_left clip_area then r_left clip_area else x);
     let y = (if y < r_top clip_area then r_top clip_area else y);
     right \<leftarrow> int32 (r_right clip_area + 1);
     let max_x = (if max_x > right then right else max_x);
     bottom \<leftarrow> int32 (r_bottom clip_area + 1);
     let max_y = (if max_y > bottom then bottom else max_y);
     buf \<leftarrow> for_each (\<lambda>y. for_each (\<lambda>x buf. plot ctx buf x y color) [x..max_x - 1])
       [y..max_y - 1] (cx_buffer ctx);
     Some (ctx\<lparr>cx_buffer := buf\<rparr>)
   }"

definition screen_area :: "gui_context \<Rightarrow> rect" where
  "screen_area ctx = \<lparr>r_top = 0, r_left = 0, r_bottom = uint (cx_height ctx) - 1,
     r_right = uint (cx_width ctx) - 1\<rparr>"

text \<open>
  The drawing functions run over the clipping rectangles, or over the screen when there are none and
  clipping is off.
\<close>

definition for_clip_areas ::
  "gui_context \<Rightarrow> (gui_context \<Rightarrow> rect \<Rightarrow> gui_context option) \<Rightarrow> gui_context option" where
  "for_clip_areas ctx f =
     (if length (cx_clip ctx) \<noteq> 0 then
        for_each (\<lambda>i c. do { a \<leftarrow> gui_list_get_at (cx_clip c) i; f c a }) [0..<length (cx_clip ctx)] ctx
      else if \<not> cx_clipping ctx then f ctx (screen_area ctx)
      else Some ctx)"

definition Context_fill_rect ::
  "gui_context \<Rightarrow> int \<Rightarrow> int \<Rightarrow> int \<Rightarrow> int \<Rightarrow> u32 \<Rightarrow> gui_context option" where
  "Context_fill_rect ctx x y width height color =
     for_clip_areas ctx (\<lambda>c a. Context_clipped_rect c x y width height a color)"

definition Context_horizontal_line :: "gui_context \<Rightarrow> int \<Rightarrow> int \<Rightarrow> int \<Rightarrow> u32 \<Rightarrow> gui_context option" where
  "Context_horizontal_line ctx x y len color = Context_fill_rect ctx x y len 1 color"

definition Context_vertical_line :: "gui_context \<Rightarrow> int \<Rightarrow> int \<Rightarrow> int \<Rightarrow> u32 \<Rightarrow> gui_context option" where
  "Context_vertical_line ctx x y len color = Context_fill_rect ctx x y 1 len color"

text \<open>\<open>height - 2\<close> is unsigned and wraps; \<open>y + height - 1\<close> and \<open>x + width - 1\<close> are converted to \<open>int\<close>.\<close>

definition Context_draw_rect :: "gui_context \<Rightarrow> int \<Rightarrow> int \<Rightarrow> int \<Rightarrow> int \<Rightarrow> u32 \<Rightarrow> gui_context option" where
  "Context_draw_rect ctx x y width height color = do {
     ctx \<leftarrow> Context_horizontal_line ctx x y width color;
     y1 \<leftarrow> int32 (y + 1);
     ctx \<leftarrow> Context_vertical_line ctx x y1 ((height - 2) mod 2 ^ 32) color;
     ctx \<leftarrow> Context_horizontal_line ctx x (wrap32 (y + height - 1)) width color;
     Context_vertical_line ctx (wrap32 (x + width - 1)) y1 ((height - 2) mod 2 ^ 32) color
   }"

subsection \<open>Bitmaps\<close>

text \<open>The index into the bitmap is unsigned arithmetic.\<close>

definition read_pixel :: "u32 list \<Rightarrow> int \<Rightarrow> int \<Rightarrow> int \<Rightarrow> u32 option" where
  "read_pixel source width x y = idx source (nat ((y * width + x) mod 2 ^ 32))"

text \<open>
  The inner loop stops when the source column reaches \<open>max_x\<close>, the end of the destination: it copies
  \<open>max_x - source_x\<close> pixels.
\<close>

definition Context_clipped_bitmap ::
  "gui_context \<Rightarrow> int \<Rightarrow> int \<Rightarrow> int \<Rightarrow> int \<Rightarrow> int \<Rightarrow> int \<Rightarrow> rect \<Rightarrow> u32 list \<Rightarrow> gui_context option" where
  "Context_clipped_bitmap ctx source_x source_y dest_x dest_y width height clip_area source = do {
     let max_x = wrap32 (dest_x + width);
     let max_y = wrap32 (dest_y + height);
     dest_x \<leftarrow> int32 (dest_x + cx_tx ctx);
     dest_y \<leftarrow> int32 (dest_y + cx_ty ctx);
     max_x \<leftarrow> int32 (max_x + cx_tx ctx);
     max_y \<leftarrow> int32 (max_y + cx_ty ctx);
     (source_x, dest_x) \<leftarrow> (if dest_x < r_left clip_area then do {
         d \<leftarrow> int32 (r_left clip_area - dest_x);
         s \<leftarrow> int32 (source_x + d);
         Some (s, r_left clip_area) } else Some (source_x, dest_x));
     (source_y, dest_y) \<leftarrow> (if dest_y < r_top clip_area then do {
         d \<leftarrow> int32 (r_top clip_area - dest_y);
         s \<leftarrow> int32 (source_y + d);
         Some (s, r_top clip_area) } else Some (source_y, dest_y));
     right \<leftarrow> int32 (r_right clip_area + 1);
     let max_x = (if max_x > right then right else max_x);
     bottom \<leftarrow> int32 (r_bottom clip_area + 1);
     let max_y = (if max_y > bottom then bottom else max_y);
     buf \<leftarrow> for_each (\<lambda>dy. for_each (\<lambda>sx buf. do {
         p \<leftarrow> read_pixel source width sx (source_y + (dy - dest_y));
         plot ctx buf (dest_x + (sx - source_x)) dy p
       }) [source_x..max_x - 1]) [dest_y..max_y - 1] (cx_buffer ctx);
     Some (ctx\<lparr>cx_buffer := buf\<rparr>)
   }"

definition Context_fill_bitmap ::
  "gui_context \<Rightarrow> int \<Rightarrow> int \<Rightarrow> int \<Rightarrow> int \<Rightarrow> int \<Rightarrow> int \<Rightarrow> u32 list \<Rightarrow> gui_context option" where
  "Context_fill_bitmap ctx source_x source_y dest_x dest_y width height source =
     for_clip_areas ctx
       (\<lambda>c a. Context_clipped_bitmap c source_x source_y dest_x dest_y width height a source)"

subsection \<open>Text\<close>

text \<open>A row of a glyph: the bits of \<open>shift_line\<close> from the most significant one on.\<close>

definition Context_draw_char_clipped ::
  "u8 list \<Rightarrow> gui_context \<Rightarrow> u8 \<Rightarrow> int \<Rightarrow> int \<Rightarrow> u32 \<Rightarrow> rect \<Rightarrow> gui_context option" where
  "Context_draw_char_clipped font_array ctx c x y color bound_rect = do {
     x \<leftarrow> int32 (x + cx_tx ctx);
     y \<leftarrow> int32 (y + cx_ty ctx);
     if x > r_right bound_rect then Some ctx
     else do {
       x8 \<leftarrow> int32 (x + 8);
       if x8 \<le> r_left bound_rect \<or> y > r_bottom bound_rect then Some ctx
       else do {
         y12 \<leftarrow> int32 (y + 12);
         if y12 \<le> r_top bound_rect then Some ctx
         else do {
           let off_x = (if x < r_left bound_rect then r_left bound_rect - x else 0);
           let count_x = (if x8 > r_right bound_rect then r_right bound_rect - x + 1 else 8);
           let off_y = (if y < r_top bound_rect then r_top bound_rect - y else 0);
           let count_y = (if y12 > r_bottom bound_rect then r_bottom bound_rect - y + 1 else 12);
           buf \<leftarrow> for_each (\<lambda>font_y buf. do {
               line \<leftarrow> idx font_array (nat (font_y * 128) + unat (c AND 0x7F));
               for_each (\<lambda>font_x buf.
                   if bit line (7 - nat font_x) then plot ctx buf (font_x + x) (font_y + y) color
                   else Some buf)
                 [off_x..count_x - 1] buf
             }) [off_y..count_y - 1] (cx_buffer ctx);
           Some (ctx\<lparr>cx_buffer := buf\<rparr>)
         }
       }
     }
   }"

definition Context_draw_char ::
  "u8 list \<Rightarrow> gui_context \<Rightarrow> u8 \<Rightarrow> int \<Rightarrow> int \<Rightarrow> u32 \<Rightarrow> gui_context option" where
  "Context_draw_char font_array ctx c x y color =
     for_clip_areas ctx (\<lambda>k a. Context_draw_char_clipped font_array k c x y color a)"

fun Context_draw_text ::
  "u8 list \<Rightarrow> gui_context \<Rightarrow> u8 list \<Rightarrow> int \<Rightarrow> int \<Rightarrow> u32 \<Rightarrow> gui_context option" where
  "Context_draw_text font_array ctx [] x y color = Some ctx"
| "Context_draw_text font_array ctx (c # cs) x y color = do {
     ctx \<leftarrow> Context_draw_char font_array ctx c x y color;
     x \<leftarrow> int32 (x + 8);
     Context_draw_text font_array ctx cs x y color
   }"

subsection \<open>Clipping\<close>

text \<open>\<open>gui_list_add\<close> of the pieces, one after the other; its result is not looked at.\<close>

fun add_pieces :: "rect list \<Rightarrow> rect list \<Rightarrow> plan \<Rightarrow> rect list \<times> plan" where
  "add_pieces rs [] s = (rs, s)"
| "add_pieces rs (p # ps) s = (let (_, rs, s) = gui_list_add s rs p in add_pieces rs ps s)"

text \<open>
  The loop of \<open>Context_subtract_clip_rect\<close>: after a rectangle has been split the index goes back to
  0.
\<close>

partial_function (option) subtract_loop ::
  "rect \<Rightarrow> nat \<Rightarrow> rect list \<Rightarrow> plan \<Rightarrow> (rect list \<times> plan) option" where
  "subtract_loop sub i rs s =
     (if i < length rs then do {
        cur \<leftarrow> gui_list_get_at rs i;
        if \<not> rects_meet cur sub then subtract_loop sub (i + 1) rs s
        else
          (case rect_split cur sub s of
             (None, s) \<Rightarrow> None
           | (Some ps, s) \<Rightarrow>
               let (rs', s) = add_pieces (snd (gui_list_remove_at rs i)) ps s
               in subtract_loop sub 0 rs' s)
      } else Some (rs, s))"

definition Context_subtract_clip_rect :: "plan \<Rightarrow> gui_context \<Rightarrow> rect \<Rightarrow> (gui_context \<times> plan) option" where
  "Context_subtract_clip_rect s ctx sub = do {
     (rs, s) \<leftarrow> subtract_loop sub 0 (cx_clip ctx) s;
     Some (ctx\<lparr>cx_clipping := True, cx_clip := rs\<rparr>, s)
   }"

definition Context_add_clip_rect :: "plan \<Rightarrow> gui_context \<Rightarrow> rect \<Rightarrow> (gui_context \<times> plan) option" where
  "Context_add_clip_rect s ctx r = do {
     (ctx, s) \<leftarrow> Context_subtract_clip_rect s ctx r;
     let (_, rs, s) = gui_list_add s (cx_clip ctx) r;
     Some (ctx\<lparr>cx_clip := rs\<rparr>, s)
   }"

fun intersect_all :: "rect \<Rightarrow> rect list \<Rightarrow> rect list \<Rightarrow> plan \<Rightarrow> rect list \<times> plan" where
  "intersect_all r [] out s = (out, s)"
| "intersect_all r (c # cs) out s =
     (case rect_intersect c r s of
        (None, s) \<Rightarrow> intersect_all r cs out s
      | (Some x, s) \<Rightarrow> let (_, out, s) = gui_list_add s out x in intersect_all r cs out s)"

definition Context_intersect_clip_rect :: "plan \<Rightarrow> gui_context \<Rightarrow> rect \<Rightarrow> gui_context \<times> plan" where
  "Context_intersect_clip_rect s ctx r =
     (let ctx = ctx\<lparr>cx_clipping := True\<rparr>; (ok, s) = malloc s in
      if \<not> ok then (ctx, s)
      else let (out, s) = intersect_all r (cx_clip ctx) [] s in (ctx\<lparr>cx_clip := out\<rparr>, s))"

definition Context_clear_clip_rects :: "gui_context \<Rightarrow> gui_context" where
  "Context_clear_clip_rects ctx = ctx\<lparr>cx_clipping := False, cx_clip := []\<rparr>"

end
