(* ===== verification/Gui_Props.thy ===== *)
theory Gui_Props
  imports Gui_Context
begin

text \<open>
  What a drawing context promises: the clipping operations act on the clipped region as on a set of
  points, and filling a rectangle paints exactly its points in that region.
\<close>

subsection \<open>The clipping operations\<close>

lemma add_pieces_plenty [simp]: "add_pieces rs ps [] = (rs @ ps, [])"
  by (induction ps arbitrary: rs) (simp_all add: gui_list_add_def)

lemma subtract_loop_end: "subtract_loop sub (length rs) rs s = Some (rs, s)"
  by (subst subtract_loop.simps) simp

lemma subtract_loop_skip:
  assumes "i \<le> k" "k \<le> length rs" "\<And>j. i \<le> j \<Longrightarrow> j < k \<Longrightarrow> \<not> rects_meet (rs ! j) sub"
  shows "subtract_loop sub i rs s = subtract_loop sub k rs s"
  using assms
proof (induction k rule: dec_induct)
  case (step k)
  have "subtract_loop sub k rs s = subtract_loop sub (k + 1) rs s"
    using step by (subst subtract_loop.simps) (auto simp: gui_list_get_at_def)
  then show ?case using step by simp
qed simp

lemma subtract_loop_split:
  assumes "rects_meet r sub" "rect_split r sub s = (Some ps, s')"
  shows "subtract_loop sub (length xs) (xs @ r # ys) s =
    (let (rs, s) = add_pieces (xs @ ys) ps s' in subtract_loop sub 0 rs s)"
  using assms by (subst subtract_loop.simps) (simp add: gui_list_get_at_def gui_list_remove_at_def)

lemma rect_ok_tiles: "tiles rs \<Longrightarrow> r \<in> set rs \<Longrightarrow> rect_ok r"
  by (induction rs) auto

lemma tiles_replace:
  assumes "tiles (xs @ r # ys)" "tiles ps" "region ps \<subseteq> points r"
  shows "tiles (xs @ ys @ ps)"
  using assms by (auto simp: tiles_append)

lemma region_meet:
  "rect_ok sub \<Longrightarrow> tiles rs \<Longrightarrow> \<forall>r \<in> set rs. \<not> rects_meet r sub \<Longrightarrow> region rs \<inter> points sub = {}"
  by (induction rs) (auto simp: rects_meet_iff)

lemma subtract_loop_ok:
  assumes "rect_ok sub" "tiles rs"
  shows "\<exists>rs'. subtract_loop sub 0 rs [] = Some (rs', []) \<and> tiles rs' \<and> region rs' = region rs - points sub"
  using assms(2)
proof (induction "length (filter (\<lambda>r. rects_meet r sub) rs)" arbitrary: rs rule: less_induct)
  case less
  show ?case
  proof (cases "\<exists>r \<in> set rs. rects_meet r sub")
    case False
    then have "subtract_loop sub 0 rs [] = Some (rs, [])"
      using subtract_loop_skip [of 0 "length rs" rs sub "[]"] subtract_loop_end by auto
    then show ?thesis using region_meet [OF assms(1) less.prems] False less.prems by auto
  next
    case True
    then obtain xs r ys where rs: "rs = xs @ r # ys" "rects_meet r sub" "\<forall>x \<in> set xs. \<not> rects_meet x sub"
      using split_list_first_prop [of rs "\<lambda>r. rects_meet r sub"] by blast
    have r: "rect_ok r" using less.prems rs by (auto intro: rect_ok_tiles)
    obtain ps where ps: "rect_split r sub [] = (Some ps, [])" "tiles ps" "region ps = points r - points sub"
      using rect_split_ok [OF r assms(1) rs(2)] by blast
    have "subtract_loop sub 0 rs [] = subtract_loop sub (length xs) rs []"
      using rs by (intro subtract_loop_skip) (auto simp: nth_append)
    then have eq: "subtract_loop sub 0 rs [] = subtract_loop sub 0 (xs @ ys @ ps) []"
      using subtract_loop_split [OF rs(2) ps(1), of xs ys] rs(1) by simp
    have none: "\<not> rects_meet p sub" if "p \<in> set ps" for p
      using that rect_ok_tiles [OF ps(2) that] ps(3) assms(1) by (auto simp: rects_meet_iff region_def)
    have "tiles (xs @ ys @ ps)"
      using less.prems rs(1) ps by (intro tiles_replace [of xs r]) auto
    moreover have "length (filter (\<lambda>r. rects_meet r sub) (xs @ ys @ ps)) <
        length (filter (\<lambda>r. rects_meet r sub) rs)"
      using rs none by (simp add: filter_empty_conv)
    ultimately obtain rs' where "subtract_loop sub 0 (xs @ ys @ ps) [] = Some (rs', [])" "tiles rs'"
      "region rs' = region (xs @ ys @ ps) - points sub"
      using less.hyps by blast
    then show ?thesis using eq rs(1) ps(3) by auto
  qed
qed

lemma intersect_all_ok:
  assumes "rect_ok r" "tiles rs" "tiles out" "region rs \<inter> region out = {}"
  shows "\<exists>out'. intersect_all r rs out [] = (out', []) \<and> tiles out' \<and>
    region out' = region out \<union> (region rs \<inter> points r)"
  using assms(2-4)
proof (induction rs arbitrary: out)
  case (Cons c rs)
  have c: "rect_ok c" using Cons.prems by simp
  note i = rect_intersect_ok [OF c assms(1)]
  show ?case
  proof (cases "fst (rect_intersect c r [])")
    case None
    then have "rect_intersect c r [] = (None, [])" "points c \<inter> points r = {}"
      using i by (auto split: prod.splits)
    moreover from this have "region (c # rs) \<inter> points r = region rs \<inter> points r" by auto
    moreover have "region rs \<inter> region out = {}" using Cons.prems by auto
    ultimately show ?thesis using Cons.IH [of out] Cons.prems by simp
  next
    case (Some x)
    then have x: "rect_intersect c r [] = (Some x, [])" "rect_ok x" "points x = points c \<inter> points r"
      using i by (auto split: prod.splits)
    have "tiles (out @ [x])" "region rs \<inter> region (out @ [x]) = {}"
      using x Cons.prems by (auto simp: tiles_append)
    moreover have "region (out @ [x]) \<union> region rs \<inter> points r = region out \<union> region (c # rs) \<inter> points r"
      using x by auto
    ultimately show ?thesis using Cons.IH [of "out @ [x]"] Cons.prems x by (simp add: gui_list_add_def)
  qed
qed simp

subsection \<open>Painting\<close>

text \<open>The frame buffer has a word for every point of the screen, and an \<open>int\<close> can count them.\<close>

definition on_screen :: "gui_context \<Rightarrow> (int \<times> int) set" where
  "on_screen ctx = {0..<uint (cx_width ctx)} \<times> {0..<uint (cx_height ctx)}"

definition pixel :: "gui_context \<Rightarrow> u32 list \<Rightarrow> int \<times> int \<Rightarrow> u32" where
  "pixel ctx buf p = buf ! nat (snd p * uint (cx_width ctx) + fst p)"

definition buffer_ok :: "gui_context \<Rightarrow> u32 list \<Rightarrow> bool" where
  "buffer_ok ctx buf \<longleftrightarrow> int (length buf) = uint (cx_width ctx) * uint (cx_height ctx) \<and>
     int (length buf) < 2 ^ 31"

text \<open>\<open>buf'\<close> is \<open>buf\<close> with the points of \<open>S\<close> in the given color.\<close>

definition painted :: "gui_context \<Rightarrow> (int \<times> int) set \<Rightarrow> u32 \<Rightarrow> u32 list \<Rightarrow> u32 list \<Rightarrow> bool" where
  "painted ctx S color buf buf' \<longleftrightarrow> buffer_ok ctx buf' \<and>
     (\<forall>p \<in> on_screen ctx. pixel ctx buf' p = (if p \<in> S then color else pixel ctx buf p))"

lemma painted_refl: "buffer_ok ctx buf \<Longrightarrow> painted ctx {} color buf buf"
  by (simp add: painted_def)

lemma painted_trans:
  "painted ctx S color a b \<Longrightarrow> painted ctx T color b c \<Longrightarrow> painted ctx (S \<union> T) color a c"
  by (auto simp: painted_def)

lemma position_bounds:
  fixes x y w h :: int
  assumes "0 \<le> x" "x < w" "0 \<le> y" "y < h"
  shows "0 \<le> y * w + x" "y * w + x < w * h"
proof -
  show "0 \<le> y * w + x" using assms by simp
  have "y * w + x < (y + 1) * w" using assms by (simp add: distrib_right)
  also have "\<dots> \<le> h * w" using assms by (intro mult_right_mono) auto
  finally show "y * w + x < w * h" by (simp add: mult.commute)
qed

lemma position_inj:
  fixes x y x' y' w :: int
  assumes "0 \<le> x" "x < w" "0 \<le> x'" "x' < w" "y * w + x = y' * w + x'"
  shows "x = x' \<and> y = y'"
proof -
  have "(y * w + x) mod w = x" "(y' * w + x') mod w = x'" using assms(1-4) by simp_all
  then have "x = x'" using assms(5) by metis
  then show ?thesis using assms by auto
qed

lemma plot_paints:
  assumes "buffer_ok ctx buf" "(x, y) \<in> on_screen ctx"
  shows "\<exists>buf'. plot ctx buf x y color = Some buf' \<and> painted ctx {(x, y)} color buf buf'"
proof -
  let ?w = "uint (cx_width ctx)" and ?h = "uint (cx_height ctx)"
  have xy: "0 \<le> x" "x < ?w" "0 \<le> y" "y < ?h" using assms(2) by (auto simp: on_screen_def)
  note b = position_bounds [OF xy]
  have len: "int (length buf) = ?w * ?h" "int (length buf) < 2 ^ 31" using assms(1) by (simp_all add: buffer_ok_def)
  have "0 \<le> y * ?w" using xy by simp
  then have i: "int32 (y * ?w) = Some (y * ?w)" "int32 (y * ?w + x) = Some (y * ?w + x)"
    using b len xy by (intro int32_in; linarith)+
  have n: "nat (y * ?w + x) < length buf" using b len by simp
  have "pixel ctx (buf[nat (y * ?w + x) := color]) p = (if p \<in> {(x, y)} then color else pixel ctx buf p)"
    if "p \<in> on_screen ctx" for p
  proof (cases "p = (x, y)")
    case True
    then show ?thesis using n by (simp add: pixel_def)
  next
    case False
    obtain px py where p: "p = (px, py)" by (cases p)
    then have pxy: "0 \<le> px" "px < ?w" "0 \<le> py" using that by (auto simp: on_screen_def)
    then have "py * ?w + px \<noteq> y * ?w + x"
      using position_inj [of px ?w x py y] xy False p by auto
    moreover have "0 \<le> py * ?w + px" using pxy by simp
    ultimately have "nat (py * ?w + px) \<noteq> nat (y * ?w + x)" using b(1) by (simp add: nat_eq_iff)
    then show ?thesis using False p by (auto simp: pixel_def)
  qed
  then show ?thesis using i b(1) n assms(1) by (auto simp: plot_def painted_def buffer_ok_def)
qed

lemma for_each_paints:
  assumes "\<And>i buf. i \<in> set xs \<Longrightarrow> buffer_ok ctx buf \<Longrightarrow>
      \<exists>buf'. body i buf = Some buf' \<and> painted ctx (S i) color buf buf'"
    and "buffer_ok ctx buf"
  shows "\<exists>buf'. for_each body xs buf = Some buf' \<and> painted ctx (\<Union>i \<in> set xs. S i) color buf buf'"
  using assms
proof (induction xs arbitrary: buf)
  case Nil
  then show ?case by (simp add: painted_refl)
next
  case (Cons i xs)
  obtain b where b: "body i buf = Some b" "painted ctx (S i) color buf b"
    using Cons.prems by force
  then have "buffer_ok ctx b" by (simp add: painted_def)
  then obtain c where "for_each body xs b = Some c" "painted ctx (\<Union>i \<in> set xs. S i) color b c"
    using Cons.IH [of b] Cons.prems(1) by auto
  then show ?case using b painted_trans [OF b(2)] by simp
qed

text \<open>A rectangle given by its corner and its size, after the translation.\<close>

definition target :: "gui_context \<Rightarrow> int \<Rightarrow> int \<Rightarrow> int \<Rightarrow> int \<Rightarrow> (int \<times> int) set" where
  "target ctx x y width height =
     {x + cx_tx ctx..<x + cx_tx ctx + width} \<times> {y + cx_ty ctx..<y + cx_ty ctx + height}"

definition small :: "int \<Rightarrow> bool" where
  "small i \<longleftrightarrow> -(2 ^ 28) \<le> i \<and> i \<le> 2 ^ 28"

lemma int32_small:
  "small a \<Longrightarrow> small b \<Longrightarrow> int32 (a + b) = Some (a + b)"
  "small a \<Longrightarrow> small b \<Longrightarrow> wrap32 (a + b) = a + b"
  "small a \<Longrightarrow> small b \<Longrightarrow> small c \<Longrightarrow> int32 (a + b + c) = Some (a + b + c)"
  by (auto simp: small_def intro!: int32_in wrap32_in)

lemma if_max: "(if x < l then l else x) = max x (l :: int)"
  by simp

lemma if_min: "(if x > r then r else x) = min x (r :: int)"
  by simp

lemma map_option_bind: "map_option f m = do { x \<leftarrow> m; Some (f x) }"
  by (cases m) simp_all

text \<open>A walk that cannot get past one of its elements.\<close>

lemma for_each_fails:
  assumes "P s" and "\<And>i s s'. i \<in> set xs \<Longrightarrow> P s \<Longrightarrow> body i s = Some s' \<Longrightarrow> P s'"
    and "i \<in> set xs" and "\<And>s. P s \<Longrightarrow> body i s = None"
  shows "for_each body xs s = None"
  using assms
proof (induction xs arbitrary: s)
  case (Cons j xs)
  show ?case
  proof (cases "body j s")
    case (Some t)
    have "P t" using Cons.prems(2) [of j s t] Cons.prems(1) Some by simp
    moreover have "i \<noteq> j" using Cons.prems(4) [OF Cons.prems(1)] Some by auto
    ultimately have t: "P t" "i \<in> set xs" using Cons.prems(3) by simp_all
    have "for_each body xs t = None" by (rule Cons.IH [OF t(1) _ t(2) Cons.prems(4)]) (use Cons.prems(2) in auto)
    then show ?thesis using Some by simp
  qed simp
qed simp

lemma plot_length: "plot ctx buf x y color = Some buf' \<Longrightarrow> length buf' = length buf"
  by (auto simp: plot_def upd_def split: Option.bind_splits if_splits)

text \<open>A point that no word of the buffer belongs to.\<close>

definition off_buffer :: "gui_context \<Rightarrow> int \<times> int \<Rightarrow> bool" where
  "off_buffer ctx p \<longleftrightarrow> \<not> (0 \<le> snd p * uint (cx_width ctx) + fst p \<and>
     snd p * uint (cx_width ctx) + fst p < int (length (cx_buffer ctx)))"

lemma plot_outside: "off_buffer ctx (x, y) \<Longrightarrow> length buf = length (cx_buffer ctx) \<Longrightarrow> plot ctx buf x y color = None"
  by (auto simp: plot_def off_buffer_def int32_def upd_def split: Option.bind_splits if_splits)

text \<open>The ends of a clipping rectangle, plus one, are numbers of the type \<open>int\<close>.\<close>

definition ends_fit :: "rect \<Rightarrow> bool" where
  "ends_fit a \<longleftrightarrow> r_right a < 2 ^ 31 - 1 \<and> r_bottom a < 2 ^ 31 - 1 \<and> -(2 ^ 31) \<le> r_right a \<and> -(2 ^ 31) \<le> r_bottom a"

lemma clipped_rect_loop:
  assumes "ends_fit clip"
    and s: "small x" "small y" "small width" "small height" "small (cx_tx ctx)" "small (cx_ty ctx)"
  obtains xs ys where "Context_clipped_rect ctx x y width height clip color =
      map_option (\<lambda>buf. ctx\<lparr>cx_buffer := buf\<rparr>) (for_each (\<lambda>y. for_each (\<lambda>x buf. plot ctx buf x y color) xs) ys (cx_buffer ctx))"
    and "(\<Union>y \<in> set ys. \<Union>x \<in> set xs. {(x, y)}) = points clip \<inter> target ctx x y width height"
proof -
  have right: "int32 (r_right clip + 1) = Some (r_right clip + 1)"
    and bottom: "int32 (r_bottom clip + 1) = Some (r_bottom clip + 1)"
    using assms(1) by (auto intro!: int32_in simp: ends_fit_def)
  let ?x0 = "max (x + cx_tx ctx) (r_left clip)" and ?x1 = "min (x + width + cx_tx ctx) (r_right clip + 1)"
  let ?y0 = "max (y + cx_ty ctx) (r_top clip)" and ?y1 = "min (y + height + cx_ty ctx) (r_bottom clip + 1)"
  have "(\<Union>y \<in> set [?y0..?y1 - 1]. \<Union>x \<in> set [?x0..?x1 - 1]. {(x, y)}) =
      points clip \<inter> target ctx x y width height"
    by (rule points_eqI) (auto simp: in_points target_def)
  moreover have "Context_clipped_rect ctx x y width height clip color = map_option (\<lambda>buf. ctx\<lparr>cx_buffer := buf\<rparr>)
      (for_each (\<lambda>y. for_each (\<lambda>x buf. plot ctx buf x y color) [?x0..?x1 - 1]) [?y0..?y1 - 1] (cx_buffer ctx))"
    using s right bottom
    by (simp only: Context_clipped_rect_def int32_small Let_def bind.bind_lunit if_max if_min
        map_option_bind)
  ultimately show thesis using that by blast
qed

lemma clipped_rect_paints:
  assumes "buffer_ok ctx (cx_buffer ctx)" and fit: "ends_fit clip"
    and s: "small x" "small y" "small width" "small height" "small (cx_tx ctx)" "small (cx_ty ctx)"
    and on: "points clip \<inter> target ctx x y width height \<subseteq> on_screen ctx"
  shows "\<exists>buf. Context_clipped_rect ctx x y width height clip color = Some (ctx\<lparr>cx_buffer := buf\<rparr>) \<and>
    painted ctx (points clip \<inter> target ctx x y width height) color (cx_buffer ctx) buf"
proof -
  obtain xs ys where run: "Context_clipped_rect ctx x y width height clip color =
      map_option (\<lambda>buf. ctx\<lparr>cx_buffer := buf\<rparr>) (for_each (\<lambda>y. for_each (\<lambda>x buf. plot ctx buf x y color) xs) ys (cx_buffer ctx))"
    and pts: "(\<Union>y \<in> set ys. \<Union>x \<in> set xs. {(x, y)}) = points clip \<inter> target ctx x y width height"
    using clipped_rect_loop [OF fit s] by metis
  have "(x, y) \<in> on_screen ctx" if "x \<in> set xs" "y \<in> set ys" for x y
    using on that unfolding pts [symmetric] by auto
  then have "\<exists>buf. for_each (\<lambda>y. for_each (\<lambda>x buf. plot ctx buf x y color) xs) ys (cx_buffer ctx) = Some buf \<and>
      painted ctx (\<Union>y \<in> set ys. \<Union>x \<in> set xs. {(x, y)}) color (cx_buffer ctx) buf"
    by (intro for_each_paints plot_paints assms(1))
  then show ?thesis unfolding pts run by auto
qed

lemma clipped_rect_length:
  assumes "ends_fit clip"
    and s: "small x" "small y" "small width" "small height" "small (cx_tx ctx)" "small (cx_ty ctx)"
    and r: "Context_clipped_rect ctx x y width height clip color = Some ctx'"
  shows "\<exists>buf. ctx' = ctx\<lparr>cx_buffer := buf\<rparr> \<and> length buf = length (cx_buffer ctx)"
proof -
  have one: "for_each (\<lambda>x buf. plot ctx buf x y color) xs b = Some b' \<Longrightarrow> length b' = length b" for xs y b b'
    by (induction xs arbitrary: b) (auto split: Option.bind_splits dest!: plot_length)
  have all: "for_each (\<lambda>y. for_each (\<lambda>x buf. plot ctx buf x y color) xs) ys b = Some b' \<Longrightarrow> length b' = length b" for xs ys b b'
    by (induction ys arbitrary: b) (auto split: Option.bind_splits dest!: one)
  obtain xs ys where "Context_clipped_rect ctx x y width height clip color =
      map_option (\<lambda>buf. ctx\<lparr>cx_buffer := buf\<rparr>) (for_each (\<lambda>y. for_each (\<lambda>x buf. plot ctx buf x y color) xs) ys (cx_buffer ctx))"
    using clipped_rect_loop [OF assms(1) s] by metis
  with r obtain buf where "for_each (\<lambda>y. for_each (\<lambda>x buf. plot ctx buf x y color) xs) ys (cx_buffer ctx) = Some buf"
    "ctx' = ctx\<lparr>cx_buffer := buf\<rparr>" by auto
  then show ?thesis using all by blast
qed

lemma clipped_rect_fails:
  assumes "ends_fit clip"
    and s: "small x" "small y" "small width" "small height" "small (cx_tx ctx)" "small (cx_ty ctx)"
    and p: "p \<in> points clip \<inter> target ctx x y width height" "off_buffer ctx p"
  shows "Context_clipped_rect ctx x y width height clip color = None"
proof -
  obtain xs ys where run: "Context_clipped_rect ctx x y width height clip color =
      map_option (\<lambda>buf. ctx\<lparr>cx_buffer := buf\<rparr>) (for_each (\<lambda>y. for_each (\<lambda>x buf. plot ctx buf x y color) xs) ys (cx_buffer ctx))"
    and pts: "(\<Union>y \<in> set ys. \<Union>x \<in> set xs. {(x, y)}) = points clip \<inter> target ctx x y width height"
    using clipped_rect_loop [OF assms(1) s] by metis
  let ?P = "\<lambda>buf. length buf = length (cx_buffer ctx)"
  from p(1) have in': "fst p \<in> set xs" "snd p \<in> set ys" unfolding pts [symmetric] by auto
  have one: "for_each (\<lambda>x buf. plot ctx buf x y color) xs b = Some b' \<Longrightarrow> length b' = length b" for y b b'
    by (induction xs arbitrary: b) (auto split: Option.bind_splits dest!: plot_length)
  have "for_each (\<lambda>x buf. plot ctx buf x (snd p) color) xs b = None" if "?P b" for b
    by (rule for_each_fails [where P = ?P, OF that _ in'(1)]) (use p(2) plot_outside plot_length in force)+
  then have "for_each (\<lambda>y. for_each (\<lambda>x buf. plot ctx buf x y color) xs) ys (cx_buffer ctx) = None"
    by (intro for_each_fails [where P = ?P, OF _ _ in'(2)]) (use one in force)+
  then show ?thesis by (simp add: run)
qed

text \<open>The region that drawing is clipped to.\<close>

definition clip_region :: "gui_context \<Rightarrow> (int \<times> int) set" where
  "clip_region ctx =
     (if cx_clip ctx \<noteq> [] then region (cx_clip ctx) else if cx_clipping ctx then {} else on_screen ctx)"

definition framed :: "gui_context \<Rightarrow> bool" where
  "framed ctx \<longleftrightarrow> buffer_ok ctx (cx_buffer ctx) \<and> 0 < uint (cx_width ctx) \<and> 0 < uint (cx_height ctx) \<and>
     small (cx_tx ctx) \<and> small (cx_ty ctx) \<and> tiles (cx_clip ctx) \<and> (\<forall>a \<in> set (cx_clip ctx). ends_fit a)"

lemma ctx_update [simp]:
  "on_screen (ctx\<lparr>cx_buffer := b\<rparr>) = on_screen ctx" "target (ctx\<lparr>cx_buffer := b\<rparr>) = target ctx"
  "buffer_ok (ctx\<lparr>cx_buffer := b\<rparr>) = buffer_ok ctx" "painted (ctx\<lparr>cx_buffer := b\<rparr>) = painted ctx"
  by (simp_all add: on_screen_def target_def fun_eq_iff buffer_ok_def painted_def pixel_def)

text \<open>A drawing function that paints \<open>S\<close> in a rectangle, run over all the clipping rectangles.\<close>

lemma screen_area_ok: "framed ctx \<Longrightarrow> points (screen_area ctx) = on_screen ctx" "ends_fit (screen_area ctx)"
proof -
  have "uint (cx_width ctx) < 2 ^ 16" "uint (cx_height ctx) < 2 ^ 16"
    using uint_lt2p [of "cx_width ctx"] uint_lt2p [of "cx_height ctx"] by simp_all
  moreover have "- (2 ^ 31) < uint (cx_width ctx)" "- (2 ^ 31) < uint (cx_height ctx)"
    by (rule less_le_trans [OF _ uint_ge_0]; simp)+
  ultimately show "ends_fit (screen_area ctx)" by (simp add: ends_fit_def screen_area_def)
qed (auto simp: points_def screen_area_def on_screen_def framed_def)

lemma for_clip_areas_paints:
  assumes d: "framed ctx" and on: "clip_region ctx \<inter> S \<subseteq> on_screen ctx"
    and f: "\<And>buf a. buffer_ok ctx buf \<Longrightarrow> ends_fit a \<Longrightarrow> points a \<inter> S \<subseteq> on_screen ctx \<Longrightarrow>
      \<exists>buf'. f (ctx\<lparr>cx_buffer := buf\<rparr>) a = Some (ctx\<lparr>cx_buffer := buf'\<rparr>) \<and>
        painted ctx (points a \<inter> S) color buf buf'"
  shows "\<exists>buf. for_clip_areas ctx f = Some (ctx\<lparr>cx_buffer := buf\<rparr>) \<and>
    painted ctx (clip_region ctx \<inter> S) color (cx_buffer ctx) buf"
proof -
  have ok: "buffer_ok ctx (cx_buffer ctx)" using d by (simp add: framed_def)
  have areas: "\<exists>buf'. for_each (\<lambda>i c. do { a \<leftarrow> gui_list_get_at (cx_clip c) i; f c a }) [0..<n] ctx =
      Some (ctx\<lparr>cx_buffer := buf'\<rparr>) \<and>
      painted ctx (region (take n (cx_clip ctx)) \<inter> S) color (cx_buffer ctx) buf'"
    if "n \<le> length (cx_clip ctx)" for n
    using that
  proof (induction n)
    case 0
    then show ?case using painted_refl [OF ok] by (intro exI [of _ "cx_buffer ctx"]) simp
  next
    case (Suc n)
    then obtain b where b: "for_each (\<lambda>i c. do { a \<leftarrow> gui_list_get_at (cx_clip c) i; f c a }) [0..<n] ctx =
        Some (ctx\<lparr>cx_buffer := b\<rparr>)" "painted ctx (region (take n (cx_clip ctx)) \<inter> S) color (cx_buffer ctx) b"
      by auto
    let ?a = "cx_clip ctx ! n"
    have "?a \<in> set (cx_clip ctx)" using Suc.prems by simp
    then have "ends_fit ?a" "points ?a \<subseteq> clip_region ctx"
      using d by (auto simp: framed_def region_def clip_region_def)
    then have "ends_fit ?a" "points ?a \<inter> S \<subseteq> on_screen ctx" using on by blast+
    then obtain c where c: "f (ctx\<lparr>cx_buffer := b\<rparr>) ?a = Some (ctx\<lparr>cx_buffer := c\<rparr>)"
      "painted ctx (points ?a \<inter> S) color b c"
      using f [of b ?a] b(2) by (auto simp: painted_def)
    have "region (take (Suc n) (cx_clip ctx)) \<inter> S = (region (take n (cx_clip ctx)) \<inter> S) \<union> (points ?a \<inter> S)"
      using Suc.prems by (auto simp: take_Suc_conv_app_nth)
    then show ?case
      using b c painted_trans [OF b(2) c(2)] Suc.prems
      by (intro exI [of _ c]) (auto simp: for_each_append gui_list_get_at_def)
  qed
  consider "cx_clip ctx \<noteq> []" | "cx_clip ctx = []" "\<not> cx_clipping ctx" | "cx_clip ctx = []" "cx_clipping ctx"
    by blast
  then show ?thesis
  proof cases
    case 1
    then show ?thesis using areas [of "length (cx_clip ctx)"] by (simp add: for_clip_areas_def clip_region_def)
  next
    case 2
    then show ?thesis using screen_area_ok(1) [OF d] screen_area_ok(2)
      using f [OF ok, of "screen_area ctx"] 2 by (simp add: for_clip_areas_def clip_region_def)
  next
    case 3
    then show ?thesis using painted_refl [OF ok]
      by (intro exI [of _ "cx_buffer ctx"]) (simp add: for_clip_areas_def clip_region_def)
  qed
qed

lemma fill_rect_fails:
  assumes d: "framed ctx" and s: "small x" "small y" "small width" "small height"
    and p: "p \<in> clip_region ctx \<inter> target ctx x y width height" "off_buffer ctx p"
  shows "Context_fill_rect ctx x y width height color = None"
proof -
  have t: "small (cx_tx ctx)" "small (cx_ty ctx)" using d by (simp_all add: framed_def)
  let ?P = "\<lambda>c. \<exists>buf. c = ctx\<lparr>cx_buffer := buf\<rparr> \<and> length buf = length (cx_buffer ctx)"
  have off: "Context_clipped_rect c x y width height a color = None" if P: "?P c" and a: "ends_fit a" "p \<in> points a" for c a
  proof -
    obtain buf where "c = ctx\<lparr>cx_buffer := buf\<rparr>" "length buf = length (cx_buffer ctx)" using P by blast
    then show ?thesis using clipped_rect_fails [of a x y width height c p color] a s t p by (simp add: off_buffer_def)
  qed
  have keep: "?P c'" if P: "?P c" and a: "ends_fit a" and r: "Context_clipped_rect c x y width height a color = Some c'" for c c' a
  proof -
    obtain buf where "c = ctx\<lparr>cx_buffer := buf\<rparr>" "length buf = length (cx_buffer ctx)" using P by blast
    then show ?thesis using clipped_rect_length [of a x y width height c color c'] a r s t by auto
  qed
  have c0: "?P ctx" by (cases ctx) auto
  show ?thesis
  proof (cases "cx_clip ctx = []")
    case True
    then have "\<not> cx_clipping ctx" "p \<in> points (screen_area ctx)"
      using p(1) screen_area_ok(1) [OF d] by (auto simp: clip_region_def split: if_splits)
    then show ?thesis using off [OF c0 screen_area_ok(2)] True by (simp add: Context_fill_rect_def for_clip_areas_def)
  next
    case False
    then obtain i where i: "i < length (cx_clip ctx)" "p \<in> points (cx_clip ctx ! i)"
      using p(1) by (auto simp: clip_region_def region_def in_set_conv_nth)
    have fit: "ends_fit (cx_clip ctx ! j)" if "j < length (cx_clip ctx)" for j using d that by (simp add: framed_def)
    have "for_each (\<lambda>i c. do { a \<leftarrow> gui_list_get_at (cx_clip c) i; Context_clipped_rect c x y width height a color })
        [0..<length (cx_clip ctx)] ctx = None"
    proof (rule for_each_fails [where P = ?P and i = i])
      fix j c c'
      assume "j \<in> set [0..<length (cx_clip ctx)]" "?P c"
        "do { a \<leftarrow> gui_list_get_at (cx_clip c) j; Context_clipped_rect c x y width height a color } = Some c'"
      then show "?P c'" using keep [OF \<open>?P c\<close> fit] using False by (auto simp: gui_list_get_at_def)
    next
      fix c
      assume P: "?P c"
      then have "gui_list_get_at (cx_clip c) i = Some (cx_clip ctx ! i)" using i(1) by (auto simp: gui_list_get_at_def)
      then show "do { a \<leftarrow> gui_list_get_at (cx_clip c) i; Context_clipped_rect c x y width height a color } = None"
        using off [OF P fit [OF i(1)] i(2)] by simp
    qed (use c0 i(1) in simp_all)
    then show ?thesis using False by (simp add: Context_fill_rect_def for_clip_areas_def)
  qed
qed

subsection \<open>Properties\<close>

text \<open>
  C38: With memory for the rectangles, subtracting from, adding to and intersecting the clipping region
  returns, keeps the rectangles well-formed and disjoint, and changes the region as the set
  operations do: the loop of \<open>Context_subtract_clip_rect\<close>, which starts again after every split, ends.
\<close>

theorem clip_region_operations:
  assumes "tiles (cx_clip ctx)" and "rect_ok r"
  shows "(\<exists>ctx'. Context_subtract_clip_rect [] ctx r = Some (ctx', []) \<and> tiles (cx_clip ctx') \<and>
      region (cx_clip ctx') = region (cx_clip ctx) - points r) \<and>
    (\<exists>ctx'. Context_add_clip_rect [] ctx r = Some (ctx', []) \<and> tiles (cx_clip ctx') \<and>
      region (cx_clip ctx') = region (cx_clip ctx) \<union> points r) \<and>
    (\<exists>ctx'. Context_intersect_clip_rect [] ctx r = (ctx', []) \<and> tiles (cx_clip ctx') \<and>
      region (cx_clip ctx') = region (cx_clip ctx) \<inter> points r)"
proof -
  obtain rs where rs: "subtract_loop r 0 (cx_clip ctx) [] = Some (rs, [])" "tiles rs"
    "region rs = region (cx_clip ctx) - points r"
    using subtract_loop_ok [OF assms(2,1)] by blast
  moreover have "tiles (rs @ [r])" "region (rs @ [r]) = region (cx_clip ctx) \<union> points r"
    using rs assms(2) by (auto simp: tiles_append)
  moreover obtain out where "intersect_all r (cx_clip ctx) [] [] = (out, [])" "tiles out"
    "region out = region (cx_clip ctx) \<inter> points r"
    using intersect_all_ok [OF assms(2,1), of "[]"] by auto
  ultimately show ?thesis
    by (simp add: Context_subtract_clip_rect_def Context_add_clip_rect_def Context_intersect_clip_rect_def
        gui_list_add_def)
qed

text \<open>
  C37: \<open>Context_fill_rect\<close> paints what is clipped to the clipping region, and to nothing else. Let the
  context be sound (\<open>framed\<close>: the buffer has a word for each point, the clipping rectangles do not overlap,
  and their ends and the translation are within the range of \<open>int\<close>), and let the coordinates and the size
  be at most \<open>2 ^ 28\<close>. When the points of the translated rectangle in the clipping region lie on the
  screen, exactly these points get the color and every other point keeps its own. When one of them
  belongs to no word of the frame buffer, the code writes outside of the buffer. (Nothing is said of
  points beside the screen whose word is that of a point in another row.)
\<close>

theorem fill_rect_paints:
  assumes "framed ctx" and "small x" and "small y" and "small width" and "small height"
  shows "(clip_region ctx \<inter> target ctx x y width height \<subseteq> on_screen ctx \<longrightarrow>
      (\<exists>buf. Context_fill_rect ctx x y width height color = Some (ctx\<lparr>cx_buffer := buf\<rparr>) \<and>
        painted ctx (clip_region ctx \<inter> target ctx x y width height) color (cx_buffer ctx) buf)) \<and>
    ((\<exists>p \<in> clip_region ctx \<inter> target ctx x y width height. off_buffer ctx p) \<longrightarrow>
      Context_fill_rect ctx x y width height color = None)"
proof (intro conjI impI)
  assume on: "clip_region ctx \<inter> target ctx x y width height \<subseteq> on_screen ctx"
  show "\<exists>buf. Context_fill_rect ctx x y width height color = Some (ctx\<lparr>cx_buffer := buf\<rparr>) \<and>
      painted ctx (clip_region ctx \<inter> target ctx x y width height) color (cx_buffer ctx) buf"
    unfolding Context_fill_rect_def
  proof (rule for_clip_areas_paints [OF assms(1) on])
    fix buf a
    assume "buffer_ok ctx buf" "ends_fit a" "points a \<inter> target ctx x y width height \<subseteq> on_screen ctx"
    then show "\<exists>buf'. Context_clipped_rect (ctx\<lparr>cx_buffer := buf\<rparr>) x y width height a color =
        Some (ctx\<lparr>cx_buffer := buf'\<rparr>) \<and>
        painted ctx (points a \<inter> target ctx x y width height) color buf buf'"
      using clipped_rect_paints [of "ctx\<lparr>cx_buffer := buf\<rparr>" a x y width height color] assms
      by (simp add: framed_def)
  qed
qed (use fill_rect_fails [OF assms] in blast)

text \<open>A screen of four by three points, clipped to its first two columns.\<close>

definition context_example :: gui_context where
  "context_example = \<lparr>cx_buffer = replicate 12 0, cx_width = 4, cx_height = 3, cx_tx = 1, cx_ty = 0,
     cx_clip = [\<lparr>r_top = 0, r_left = 0, r_bottom = 2, r_right = 1\<rparr>], cx_clipping = True\<rparr>"

lemma context_example_framed: "framed context_example"
  by (auto simp: framed_def context_example_def buffer_ok_def small_def rect_ok_def ends_fit_def)

theorem clip_region_operations_witness:
  "\<exists>ctx'. Context_subtract_clip_rect [] context_example \<lparr>r_top = 1, r_left = 1, r_bottom = 1, r_right = 1\<rparr> =
      Some (ctx', []) \<and> region (cx_clip ctx') = ({0..1} \<times> {0..2}) - {(1, 1)}"
  using clip_region_operations [of context_example "\<lparr>r_top = 1, r_left = 1, r_bottom = 1, r_right = 1\<rparr>"]
    context_example_framed
  by (simp add: framed_def rect_ok_def) (auto simp: context_example_def points_def)

theorem fill_rect_paints_witness:
  "(\<exists>buf. Context_fill_rect context_example 0 0 2 1 9 = Some (context_example\<lparr>cx_buffer := buf\<rparr>) \<and>
    painted context_example (clip_region context_example \<inter> target context_example 0 0 2 1) 9
      (cx_buffer context_example) buf) \<and>
   Context_fill_rect (context_example\<lparr>cx_clip := [\<lparr>r_top = 0, r_left = 0, r_bottom = 3, r_right = 1\<rparr>]\<rparr>) 0 3 1 1 9 = None"
proof
  have "clip_region context_example \<inter> target context_example 0 0 2 1 \<subseteq> on_screen context_example"
    by (auto simp: clip_region_def context_example_def region_def points_def on_screen_def)
  then show "\<exists>buf. Context_fill_rect context_example 0 0 2 1 9 = Some (context_example\<lparr>cx_buffer := buf\<rparr>) \<and>
    painted context_example (clip_region context_example \<inter> target context_example 0 0 2 1) 9 (cx_buffer context_example) buf"
    using fill_rect_paints [OF context_example_framed, of 0 0 2 1 9] by (simp add: small_def)
  let ?c = "context_example\<lparr>cx_clip := [\<lparr>r_top = 0, r_left = 0, r_bottom = 3, r_right = 1\<rparr>]\<rparr>"
  have "framed ?c" by (auto simp: framed_def context_example_def buffer_ok_def small_def rect_ok_def ends_fit_def)
  moreover have "(1, 3) \<in> clip_region ?c \<inter> target ?c 0 3 1 1" "off_buffer ?c (1, 3)"
    by (simp_all add: clip_region_def context_example_def region_def points_def target_def off_buffer_def)
  ultimately show "Context_fill_rect ?c 0 3 1 1 9 = None"
    using fill_rect_paints [of ?c 0 3 1 1 9] by (auto simp: small_def)
qed

text \<open>
  A bitmap drawn to the right of the origin overdraws: the copy stops at a column of the source, not of
  the destination, so with the clipping region in the first two columns a bitmap at column 1 is drawn
  in column 2.
\<close>

lemma bitmap_overdraws:
  "map_option cx_buffer (Context_fill_bitmap (context_example\<lparr>cx_tx := 0\<rparr>) 0 0 1 0 2 1 [7, 8]) =
    Some [0, 7, 8, 0, 0, 0, 0, 0, 0, 0, 0, 0]"
  by (code_simp)

end
