(* ===== verification/Vfs_Path.thy ===== *)
theory Vfs_Path
  imports OS6_Prelude
begin

text \<open>
  Path names: \<open>canonicalize_path\<close> of kernel/src/vfs/vfs.c and \<open>strtok_r\<close> of libk it is built on.

  A string is the list of its characters before the terminator. The list of components is the sequence
  of its payloads. Allocations succeed: the function does not test them, as its own comment says.
\<close>

type_synonym cstring = "u8 list"

definition PATH_SEPARATOR :: u8 where
  "PATH_SEPARATOR = 47"

definition PATH_UP :: cstring where
  "PATH_UP = [46, 46]"

definition PATH_DOT :: cstring where
  "PATH_DOT = [46]"

subsection \<open>Tokens\<close>

text \<open>
  A call of \<open>strtok_r\<close> with the rest of the string in \<open>saveptr\<close>: the token, if any, and the rest it
  saves.
\<close>

definition strtok_r :: "cstring \<Rightarrow> u8 list \<Rightarrow> cstring option \<times> cstring" where
  "strtok_r str delim =
     (let str = dropWhile (\<lambda>c. c \<in> set delim) str in
      if str = [] then (None, [])
      else (Some (takeWhile (\<lambda>c. c \<notin> set delim) str), drop 1 (dropWhile (\<lambda>c. c \<notin> set delim) str)))"

lemma strtok_r_shorter: "strtok_r s d = (Some t, r) \<Longrightarrow> length r < length s"
proof -
  assume a: "strtok_r s d = (Some t, r)"
  let ?s = "dropWhile (\<lambda>c. c \<in> set d) s"
  have s: "?s \<noteq> []" and r: "r = drop 1 (dropWhile (\<lambda>c. c \<notin> set d) ?s)"
    using a by (auto simp: strtok_r_def Let_def split: if_splits)
  have "length (dropWhile (\<lambda>c. c \<notin> set d) ?s) \<le> length ?s" "length ?s \<le> length s"
    by (rule length_dropWhile_le)+
  moreover have "0 < length ?s" using s by simp
  ultimately show ?thesis unfolding r length_drop by linarith
qed

text \<open>The loops over the tokens of a path.\<close>

function tokens :: "cstring \<Rightarrow> cstring list" where
  "tokens s = (case strtok_r s [PATH_SEPARATOR] of (None, _) \<Rightarrow> [] | (Some t, r) \<Rightarrow> t # tokens r)"
  by pat_completeness auto
termination
  by (relation "measure length") (auto dest: strtok_r_shorter [OF sym])

declare tokens.simps [simp del]

subsection \<open>Canonical paths\<close>

text \<open>One component of the input: \<open>..\<close> takes off the last one, if any.\<close>

definition path_step :: "cstring list \<Rightarrow> cstring \<Rightarrow> cstring list" where
  "path_step out pch =
     (if pch = PATH_UP then butlast out else if pch = PATH_DOT then out else out @ [pch])"

definition join_path :: "cstring list \<Rightarrow> cstring" where
  "join_path out =
     (if sum_list (map (\<lambda>c. length c + 1) out) = 0 then [PATH_SEPARATOR]
      else concat (map (\<lambda>c. PATH_SEPARATOR # c) out))"

definition canonicalize_path :: "cstring \<Rightarrow> cstring \<Rightarrow> cstring" where
  "canonicalize_path cwd input =
     (let out = (if input \<noteq> [] \<and> hd input \<noteq> PATH_SEPARATOR then tokens cwd else [])
      in join_path (foldl path_step out (tokens input)))"

subsection \<open>Tokens of a path\<close>

lemma tokens_Nil [simp]: "tokens [] = []"
  by (simp add: tokens.simps strtok_r_def)

lemma tokens_sep [simp]: "tokens (PATH_SEPARATOR # s) = tokens s"
  by (simp add: tokens.simps [of "PATH_SEPARATOR # s"] tokens.simps [of s] strtok_r_def)

lemma tokens_part:
  assumes "c \<noteq> []" "PATH_SEPARATOR \<notin> set c"
  shows "tokens c = [c]" "tokens (c @ PATH_SEPARATOR # s) = c # tokens s"
proof -
  have d: "dropWhile (\<lambda>x. x = PATH_SEPARATOR) (c @ t) = c @ t" for t
    using assms by (cases c) auto
  have "takeWhile (\<lambda>x. x \<noteq> PATH_SEPARATOR) c = c" "dropWhile (\<lambda>x. x \<noteq> PATH_SEPARATOR) c = []"
    using assms(2) by (auto simp: takeWhile_eq_all_conv dropWhile_eq_Nil_conv)
  then have "strtok_r c [PATH_SEPARATOR] = (Some c, [])"
    using assms(1) d [of "[]"] by (simp add: strtok_r_def del: dropWhile_eq_Nil_conv)
  moreover have "tokens [] = []" by simp
  ultimately show "tokens c = [c]" by (simp only: tokens.simps [of c]) simp
  have "takeWhile (\<lambda>x. x \<noteq> PATH_SEPARATOR) (c @ PATH_SEPARATOR # s) = c"
    "dropWhile (\<lambda>x. x \<noteq> PATH_SEPARATOR) (c @ PATH_SEPARATOR # s) = PATH_SEPARATOR # s"
    using assms(2) by (auto simp: takeWhile_append dropWhile_append)
  then show "tokens (c @ PATH_SEPARATOR # s) = c # tokens s"
    using assms(1) d [of "PATH_SEPARATOR # s"]
    by (simp add: tokens.simps [of "c @ PATH_SEPARATOR # s"] strtok_r_def)
qed

text \<open>Every string is a first part without a separator, and perhaps more.\<close>

lemma first_part:
  obtains c where "PATH_SEPARATOR \<notin> set c" "s = c"
  | c s' where "PATH_SEPARATOR \<notin> set c" "s = c @ PATH_SEPARATOR # s'"
  by (cases "PATH_SEPARATOR \<in> set s") (auto dest: split_list_first)

lemma tokens_append_sep: "tokens (p @ PATH_SEPARATOR # q) = tokens p @ tokens q"
proof (induction "length p" arbitrary: p rule: less_induct)
  case less
  show ?case
  proof (cases p rule: first_part)
    case (1 c)
    then show ?thesis by (cases "c = []") (auto simp: tokens_part)
  next
    case (2 c s)
    then have "tokens (s @ PATH_SEPARATOR # q) = tokens s @ tokens q" using less by simp
    then show ?thesis using 2 by (cases "c = []") (auto simp: tokens_part)
  qed
qed

definition part_ok :: "cstring \<Rightarrow> bool" where
  "part_ok c \<longleftrightarrow> c \<noteq> [] \<and> PATH_SEPARATOR \<notin> set c"

lemma tokens_parts: "c \<in> set (tokens s) \<Longrightarrow> part_ok c"
proof (induction "length s" arbitrary: s rule: less_induct)
  case less
  show ?case
  proof (cases s rule: first_part)
    case (1 c')
    then show ?thesis using less.prems by (cases "c' = []") (auto simp: tokens_part part_ok_def)
  next
    case (2 c' s')
    then have ih: "c \<in> set (tokens s') \<Longrightarrow> part_ok c" using less.hyps [of s'] by simp
    have "c \<in> set (tokens s') \<or> c = c' \<and> c' \<noteq> []"
      using less.prems 2 by (cases "c' = []") (auto simp: tokens_part)
    then show ?thesis using ih 2 by (auto simp: part_ok_def)
  qed
qed

lemma tokens_join: "list_all part_ok cs \<Longrightarrow> tokens (join_path cs) = cs"
proof (induction cs)
  case (Cons c cs)
  have "tokens (concat (map (\<lambda>c. PATH_SEPARATOR # c) cs)) = cs"
    using Cons by (cases cs) (auto simp: join_path_def)
  moreover have "join_path (c # cs) = PATH_SEPARATOR # c @ concat (map (\<lambda>c. PATH_SEPARATOR # c) cs)"
    by (simp add: join_path_def)
  moreover have "tokens (c @ concat (map (\<lambda>c. PATH_SEPARATOR # c) cs)) =
      c # tokens (concat (map (\<lambda>c. PATH_SEPARATOR # c) cs))"
    using Cons.prems by (cases cs) (auto simp: tokens_part part_ok_def)
  ultimately show ?case by simp
qed (simp add: join_path_def tokens_sep [of "[]", simplified])

lemma path_step_parts: "list_all part_ok out \<Longrightarrow> list_all part_ok cs \<Longrightarrow> list_all part_ok (foldl path_step out cs)"
proof (induction cs arbitrary: out)
  case (Cons c cs)
  have "list_all part_ok (path_step out c)"
    using Cons.prems by (auto simp: path_step_def list_all_iff dest: in_set_butlastD)
  then show ?case using Cons by simp
qed simp

definition relative :: "cstring \<Rightarrow> bool" where
  "relative p \<longleftrightarrow> p \<noteq> [] \<and> hd p \<noteq> PATH_SEPARATOR"

definition resolved :: "cstring \<Rightarrow> cstring \<Rightarrow> cstring list" where
  "resolved cwd p = foldl path_step (if relative p then tokens cwd else []) (tokens p)"

lemma tokens_canonical: "tokens (canonicalize_path cwd p) = resolved cwd p"
proof -
  have "list_all part_ok (resolved cwd p)"
    unfolding resolved_def by (rule path_step_parts) (auto simp: list_all_iff tokens_parts)
  then show ?thesis using tokens_join by (simp add: canonicalize_path_def resolved_def relative_def Let_def)
qed

lemma canonical_eq: "canonicalize_path cwd p = join_path (resolved cwd p)"
  by (simp add: canonicalize_path_def resolved_def relative_def Let_def)

text \<open>No dots are left, unless the working directory has some.\<close>

definition plain :: "cstring list \<Rightarrow> bool" where
  "plain cs \<longleftrightarrow> PATH_UP \<notin> set cs \<and> PATH_DOT \<notin> set cs"

lemma plain_steps: "plain out \<Longrightarrow> plain (foldl path_step out cs)"
proof (induction cs arbitrary: out)
  case (Cons c cs)
  have "plain (path_step out c)"
    using Cons.prems by (auto simp: path_step_def plain_def dest: in_set_butlastD)
  then show ?case using Cons by simp
qed simp

lemma plain_fold: "plain cs \<Longrightarrow> foldl path_step out cs = out @ cs"
  by (induction cs arbitrary: out) (auto simp: path_step_def plain_def)

lemma canonical_absolute: "\<not> relative (canonicalize_path cwd p)"
  by (auto simp: canonical_eq join_path_def relative_def concat_eq_Nil_conv hd_concat hd_map)

subsection \<open>Properties\<close>

text \<open>
  C27: Canonical paths compose like changes of the working directory: a relative path \<open>q\<close> below \<open>p\<close> is
  \<open>q\<close> seen from the canonical form of \<open>p\<close>. \<open>..\<close> takes off the last part of the canonical form, \<open>.\<close> leaves
  it, and any other name is added to it. The canonical form is absolute, does not depend on the working
  directory any more, and when the working directory is free of dots so is the result.
\<close>

theorem canonicalize_path_composes:
  assumes "relative q" and "plain (tokens cwd)" and "p \<noteq> []"
    and "part_ok c" "c \<noteq> PATH_UP" "c \<noteq> PATH_DOT"
  shows "canonicalize_path cwd (p @ PATH_SEPARATOR # q) = canonicalize_path (canonicalize_path cwd p) q \<and>
    canonicalize_path cwd (p @ PATH_SEPARATOR # PATH_UP) = join_path (butlast (tokens (canonicalize_path cwd p))) \<and>
    canonicalize_path cwd (p @ PATH_SEPARATOR # PATH_DOT) = canonicalize_path cwd p \<and>
    canonicalize_path cwd (p @ PATH_SEPARATOR # c) = join_path (tokens (canonicalize_path cwd p) @ [c]) \<and>
    canonicalize_path cwd' (canonicalize_path cwd p) = canonicalize_path cwd p \<and>
    plain (tokens (canonicalize_path cwd p))"
proof -
  have rel: "relative (p @ PATH_SEPARATOR # q) = relative p" for q
    using assms(3) by (auto simp: relative_def)
  have below: "resolved cwd (p @ PATH_SEPARATOR # q) = foldl path_step (resolved cwd p) (tokens q)" for q
    by (simp add: resolved_def rel tokens_append_sep)
  have "tokens PATH_UP = [PATH_UP]" "tokens PATH_DOT = [PATH_DOT]"
    by (simp_all add: tokens_part(1) PATH_UP_def PATH_DOT_def PATH_SEPARATOR_def)
  moreover have "tokens c = [c]" using assms(4) by (simp add: part_ok_def tokens_part(1))
  moreover have "PATH_UP \<noteq> PATH_DOT" by (simp add: PATH_UP_def PATH_DOT_def)
  moreover have "resolved (canonicalize_path cwd p) q = foldl path_step (resolved cwd p) (tokens q)"
    using assms(1) by (simp add: resolved_def tokens_canonical)
  moreover have pl: "plain (resolved cwd p)"
    unfolding resolved_def by (rule plain_steps) (use assms(2) in \<open>auto simp: plain_def\<close>)
  moreover have "resolved cwd' (canonicalize_path cwd p) = resolved cwd p"
    using plain_fold [OF pl, of "[]"] canonical_absolute [of cwd p]
    by (simp add: resolved_def [of cwd'] tokens_canonical)
  ultimately show ?thesis using assms(5,6) below
    by (simp add: canonical_eq tokens_canonical [unfolded canonical_eq] path_step_def)
qed

theorem canonicalize_path_composes_witness:
  "canonicalize_path [47, 97] ([98] @ PATH_SEPARATOR # [46, 46, 47, 99]) =
     canonicalize_path (canonicalize_path [47, 97] [98]) [46, 46, 47, 99]"
proof -
  have t: "tokens [47, 97] = [[97]]"
    using tokens_sep [of "[97]"] tokens_part(1) [of "[97]"] by (simp add: PATH_SEPARATOR_def)
  show ?thesis
    by (rule canonicalize_path_composes [where c = "[99]", THEN conjunct1])
      (simp_all add: part_ok_def relative_def t plain_def PATH_UP_def PATH_DOT_def PATH_SEPARATOR_def)
qed

end
