(* ===== verification/Vfs_Mount.thy ===== *)
theory Vfs_Mount
  imports Vfs_Path Alloc_Plan Sched
begin

text \<open>
  The mount tree of kernel/src/vfs/vfs.c: mounting a file system and finding the mount point of a path.

  The tree of util/tree.c is a rose tree here; a \<open>vfs_entry_t\<close> is its name and its file (nothing ever
  sets its device and its type). A file node is the value of the structure, which the code copies; the
  part its driver owns is a type parameter. A path is cut into parts where the code writes terminators
  over its separators. Allocations whose result the code does not test succeed.
\<close>

record 'd file_node =
  file_refcount :: int
  file_flags :: u32
  file_data :: 'd

datatype 'd vfs_tree =
  Vfs_entry (entry_name: cstring) (entry_file: "'d file_node option") (entry_children: "'d vfs_tree list")

record 'd vfs =
  mount_tree :: "'d vfs_tree option"
  root_file :: "'d file_node option"
  vfs_slock :: spinlock

definition vfs_install :: "'d vfs \<Rightarrow> plan \<Rightarrow> 'd vfs \<times> plan" where
  "vfs_install s pl =
     (case malloc pl of
        (False, pl) \<Rightarrow> (s, pl)
      | (True, pl) \<Rightarrow>
          (case malloc pl of
             (False, pl) \<Rightarrow> (s, pl)
           | (True, pl) \<Rightarrow>
               (s\<lparr>mount_tree := Some (Vfs_entry [91, 114, 111, 111, 116, 93] None [])\<rparr>, pl)))"

subsection \<open>Parts of a path\<close>

function path_parts :: "cstring \<Rightarrow> cstring list" where
  "path_parts at =
     (if at = [] then []
      else takeWhile (\<lambda>c. c \<noteq> PATH_SEPARATOR) at #
           path_parts (drop 1 (dropWhile (\<lambda>c. c \<noteq> PATH_SEPARATOR) at)))"
  by pat_completeness auto
termination
proof (relation "measure length")
  fix at :: cstring
  assume "at \<noteq> []"
  moreover have "length (dropWhile (\<lambda>c. c \<noteq> PATH_SEPARATOR) at) \<le> length at"
    by (rule length_dropWhile_le)
  ultimately show "(drop 1 (dropWhile (\<lambda>c. c \<noteq> PATH_SEPARATOR) at), at) \<in> measure length"
    by (cases at) auto
qed simp

declare path_parts.simps [simp del]

fun find_child :: "'d vfs_tree list \<Rightarrow> cstring \<Rightarrow> nat option" where
  "find_child [] at = None"
| "find_child (c # cs) at = (if entry_name c = at then Some 0 else map_option Suc (find_child cs at))"

subsection \<open>Mounting\<close>

datatype mount_end = Mounted | No_memory | Already_mounted

fun mount_at :: "plan \<Rightarrow> 'd vfs_tree \<Rightarrow> cstring list \<Rightarrow> 'd file_node \<Rightarrow> mount_end \<times> plan \<times> 'd vfs_tree" where
  "mount_at pl (Vfs_entry nm fl cs) [] r =
     (case fl of
        Some _ \<Rightarrow> (Already_mounted, pl, Vfs_entry nm fl cs)
      | None \<Rightarrow> (Mounted, pl, Vfs_entry nm (Some r) cs))"
| "mount_at pl (Vfs_entry nm fl cs) (at # ps) r =
     (case find_child cs at of
        Some i \<Rightarrow> (let (e, pl, c) = mount_at pl (cs ! i) ps r in (e, pl, Vfs_entry nm fl (cs[i := c])))
      | None \<Rightarrow>
          (case malloc pl of
             (False, pl) \<Rightarrow> (No_memory, pl, Vfs_entry nm fl cs)
           | (True, pl) \<Rightarrow>
               (let (e, pl, c) = mount_at pl (Vfs_entry at None []) ps r
                in (e, pl, Vfs_entry nm fl (cs @ [c])))))"

text \<open>
  The function returns a null pointer whatever happens; the first component of the result tells which
  return it takes, if it gets past the tests of its arguments. The lock is only released at the end.
\<close>

definition vfs_mount :: "'d vfs \<Rightarrow> plan \<Rightarrow> cstring option \<Rightarrow> 'd file_node \<Rightarrow>
    (mount_end option \<times> plan \<times> 'd vfs) option" where
  "vfs_mount s pl path local_root =
     (case (mount_tree s, path) of
        (Some t, Some (c # at)) \<Rightarrow>
          if c \<noteq> PATH_SEPARATOR then Some (None, pl, s)
          else do {
            l \<leftarrow> acquire (vfs_slock s);
            let s = s\<lparr>vfs_slock := l\<rparr>;
            let local_root = local_root\<lparr>file_refcount := -1\<rparr>;
            case malloc pl of
              (False, pl) \<Rightarrow> Some (Some No_memory, pl, s)
            | (True, pl) \<Rightarrow>
                (if at = [] \<or> hd at = PATH_SEPARATOR then
                   (case entry_file t of
                      Some _ \<Rightarrow> Some (Some Already_mounted, pl, s)
                    | None \<Rightarrow>
                        Some (Some Mounted, pl,
                          s\<lparr>mount_tree := Some (Vfs_entry (entry_name t) (Some local_root) (entry_children t)),
                            root_file := Some local_root, vfs_slock := spinlock_unlock l\<rparr>))
                 else
                   (let (e, pl, t) = mount_at pl t (path_parts at) local_root;
                        s = s\<lparr>mount_tree := Some t\<rparr>
                    in Some (Some e, pl, if e = Mounted then s\<lparr>vfs_slock := spinlock_unlock l\<rparr> else s)))
          }
      | _ \<Rightarrow> Some (None, pl, s))"

subsection \<open>The mount point of a path\<close>

text \<open>
  The loop of \<open>get_mount_point\<close>: the last file on the way, the parts after it and its depth.
\<close>

fun mount_walk :: "'d file_node option \<times> nat \<times> cstring list \<Rightarrow> nat \<Rightarrow> 'd vfs_tree \<Rightarrow> cstring list \<Rightarrow>
    'd file_node option \<times> nat \<times> cstring list" where
  "mount_walk found depth node [] = found"
| "mount_walk found depth node (at # ps) =
     (case find_child (entry_children node) at of
        None \<Rightarrow> found
      | Some i \<Rightarrow>
          (let child = entry_children node ! i;
               found = (case entry_file child of Some f \<Rightarrow> (Some f, depth, ps) | None \<Rightarrow> found)
           in mount_walk found (depth + 1) child ps))"

definition get_mount_point :: "'d vfs \<Rightarrow> plan \<Rightarrow> cstring list \<Rightarrow>
    ('d file_node option \<times> nat \<times> cstring list \<times> plan) option" where
  "get_mount_point s pl ps = do {
     t \<leftarrow> mount_tree s;
     case mount_walk (root_file s, 0, ps) 1 t ps of
       (None, depth, out) \<Rightarrow> Some (None, depth, out, pl)
     | (Some f, depth, out) \<Rightarrow>
         (case malloc pl of
            (False, pl) \<Rightarrow> Some (None, depth, out, pl)
          | (True, pl) \<Rightarrow> Some (Some f, depth, out, pl))
   }"

subsection \<open>Abstract mounts\<close>

fun mounts_below :: "'d vfs_tree \<Rightarrow> cstring list \<Rightarrow> 'd file_node option" where
  "mounts_below t [] = entry_file t"
| "mounts_below t (p # ps) =
     (case find_child (entry_children t) p of
        None \<Rightarrow> None
      | Some i \<Rightarrow> mounts_below (entry_children t ! i) ps)"

definition mounts :: "'d vfs \<Rightarrow> cstring list \<Rightarrow> 'd file_node option" where
  "mounts s ps = (case mount_tree s of None \<Rightarrow> None | Some t \<Rightarrow> mounts_below t ps)"

lemma find_child_Some: "find_child cs at = Some i \<Longrightarrow> i < length cs \<and> entry_name (cs ! i) = at"
  by (induction cs at arbitrary: i rule: find_child.induct) (auto split: if_splits)

lemma find_child_update:
  "entry_name c = entry_name (cs ! i) \<Longrightarrow> i < length cs \<Longrightarrow> find_child (cs[i := c]) at = find_child cs at"
  by (induction cs at arbitrary: i rule: find_child.induct) (auto split: nat.splits if_splits)

lemma find_child_append:
  "find_child (cs @ [c]) at =
     (case find_child cs at of Some i \<Rightarrow> Some i | None \<Rightarrow> if entry_name c = at then Some (length cs) else None)"
  by (induction cs at rule: find_child.induct) (auto split: option.splits)

lemma mount_at_name: "mount_at pl t ps r = (e, pl', t') \<Longrightarrow> entry_name t' = entry_name t"
  by (cases t; cases ps) (auto split: option.splits prod.splits bool.splits)

lemma mounts_below_new [simp]: "mounts_below (Vfs_entry nm None []) ps = None"
  by (cases ps) auto

text \<open>Mounting changes the map at one path at most, whatever happens.\<close>

lemma mount_at_mounts:
  "mount_at pl t ps r = (e, pl', t') \<Longrightarrow>
     mounts_below t' = (if e = Mounted then (mounts_below t)(ps \<mapsto> r) else mounts_below t) \<and>
     (e = Mounted \<longrightarrow> mounts_below t ps = None) \<and> (e = Already_mounted \<longrightarrow> mounts_below t ps \<noteq> None) \<and>
     (e = No_memory \<longrightarrow> False \<in> set pl)"
proof (induction ps arbitrary: pl t e pl' t')
  case Nil
  obtain nm fl cs where t: "t = Vfs_entry nm fl cs" by (cases t)
  have "mounts_below (Vfs_entry nm (Some r) cs) q = ((mounts_below t)([] \<mapsto> r)) q" for q
    unfolding t by (cases q) (auto split: option.splits)
  then show ?case using Nil unfolding t by (auto split: option.splits intro!: ext)
next
  case (Cons at ps)
  obtain nm fl cs where t: "t = Vfs_entry nm fl cs" by (cases t)
  show ?case
  proof (cases "find_child cs at")
    case (Some i)
    note i = find_child_Some [OF Some]
    obtain c where c: "mount_at pl (cs ! i) ps r = (e, pl', c)" "t' = Vfs_entry nm fl (cs[i := c])"
      using Cons.prems t Some by (auto split: prod.splits)
    note ih = Cons.IH [OF c(1)] and nm = mount_at_name [OF c(1)]
    have upd: "mounts_below t' q = (case q of [] \<Rightarrow> fl | p # q' \<Rightarrow>
        if p = at then mounts_below c q' else mounts_below t q)" for q
      using i nm Some unfolding c(2) t
      by (cases q) (auto simp: find_child_update nth_list_update dest: find_child_Some split: option.splits)
    show ?thesis using ih
      by (auto simp: upd t Some fun_eq_iff split: list.splits)
  next
    case None
    show ?thesis
    proof (cases "malloc pl")
      case (Pair ok pl1)
      show ?thesis
      proof (cases ok)
        case False
        then show ?thesis using Cons.prems t None Pair by (cases pl) auto
      next
        case True
        obtain c where c: "mount_at pl1 (Vfs_entry at None []) ps r = (e, pl', c)"
          "t' = Vfs_entry nm fl (cs @ [c])"
          using Cons.prems t None Pair True by (auto split: prod.splits)
        note ih = Cons.IH [OF c(1)] and nm = mount_at_name [OF c(1)]
        have upd: "mounts_below t' q = (case q of [] \<Rightarrow> fl | p # q' \<Rightarrow>
            if p = at then mounts_below c q' else mounts_below t q)" for q
          using nm None unfolding c(2) t
          by (cases q) (auto simp: find_child_append nth_append dest: find_child_Some split: option.splits)
        have "set pl1 \<subseteq> set pl" using Pair True by (cases pl) auto
        then show ?thesis using ih
          by (auto simp: upd t None fun_eq_iff split: list.splits)
      qed
    qed
  qed
qed

lemma mount_walk_deepest:
  "\<exists>k\<le>length ps. mount_walk found depth node ps =
       (if k = 0 then found else (mounts_below node (take k ps), depth + k - 1, drop k ps)) \<and>
     (k \<noteq> 0 \<longrightarrow> mounts_below node (take k ps) \<noteq> None) \<and>
     (\<forall>j. k < j \<and> j \<le> length ps \<longrightarrow> mounts_below node (take j ps) = None)"
proof (induction ps arbitrary: found depth node)
  case (Cons p ps)
  show ?case
  proof (cases "find_child (entry_children node) p")
    case None
    then show ?thesis by (intro exI [of _ 0]) (auto simp: take_Cons split: nat.splits)
  next
    case (Some i)
    let ?c = "entry_children node ! i"
    let ?f = "case entry_file ?c of Some f \<Rightarrow> (Some f, depth, ps) | None \<Rightarrow> found"
    obtain k where k: "k \<le> length ps"
      "mount_walk ?f (depth + 1) ?c ps =
         (if k = 0 then ?f else (mounts_below ?c (take k ps), depth + 1 + k - 1, drop k ps))"
      "k \<noteq> 0 \<Longrightarrow> mounts_below ?c (take k ps) \<noteq> None"
      "\<And>j. k < j \<Longrightarrow> j \<le> length ps \<Longrightarrow> mounts_below ?c (take j ps) = None"
      using Cons.IH [of ?f "depth + 1" ?c] by blast
    have walk: "mount_walk found depth node (p # ps) = mount_walk ?f (depth + 1) ?c ps"
      using Some by (simp add: Let_def)
    have below: "mounts_below node (p # q) = mounts_below ?c q" for q
      using Some by simp
    have deeper: "mounts_below node (take j (p # ps)) = None"
      if "k + 1 < j" "j \<le> length (p # ps)" for j
      using k(4) [of "j - 1"] that below [of "take (j - 1) ps"] by (cases j) auto
    show ?thesis
    proof (cases "k = 0 \<and> entry_file ?c = None")
      case True
      have "mounts_below node (take j (p # ps)) = None" if "0 < j" "j \<le> length (p # ps)" for j
        using deeper [of j] that True below [of "[]"] by (cases "j = 1") auto
      then show ?thesis using k(2) walk True by (intro exI [of _ 0]) auto
    next
      case False
      have "mount_walk found depth node (p # ps) =
          (mounts_below node (take (k + 1) (p # ps)), depth + (k + 1) - 1, drop (k + 1) (p # ps))"
        using k(2) walk below [of "take k ps"] False by auto
      moreover have "mounts_below node (take (k + 1) (p # ps)) \<noteq> None"
        using k(3) below [of "take k ps"] False by (cases "k = 0") auto
      ultimately show ?thesis using k(1) deeper by (intro exI [of _ "k + 1"]) auto
    qed
  qed
qed simp

subsection \<open>Properties\<close>

definition mount_path :: "cstring \<Rightarrow> cstring list" where
  "mount_path at = (if at = [] \<or> hd at = PATH_SEPARATOR then [] else path_parts at)"

lemma mounts_root:
  "mounts_below (Vfs_entry nm (Some r) (entry_children t)) = (mounts_below t)([] \<mapsto> r)"
proof
  fix q
  show "mounts_below (Vfs_entry nm (Some r) (entry_children t)) q = ((mounts_below t)([] \<mapsto> r)) q"
    by (cases q) (auto split: option.splits)
qed

text \<open>How a call of \<open>vfs_mount\<close> with a free lock ends.\<close>

lemma vfs_mount_ends:
  assumes t: "mount_tree s = Some t" and lock: "lock_val (vfs_slock s) = 0" and root: "root_file s = entry_file t"
  obtains e pl' s' t' where "vfs_mount s pl (Some (PATH_SEPARATOR # at)) node = Some (Some e, pl', s')"
    and "mount_tree s' = Some t'" "root_file s' = entry_file t'"
    and "mounts_below t' =
      (if e = Mounted then (mounts_below t)(mount_path at \<mapsto> node\<lparr>file_refcount := -1\<rparr>) else mounts_below t)"
    and "vfs_slock s' = (vfs_slock s)\<lparr>lock_val := if e = Mounted then 0 else 1\<rparr>"
    and "e = Mounted \<longrightarrow> mounts_below t (mount_path at) = None"
      "e = Already_mounted \<longrightarrow> mounts_below t (mount_path at) \<noteq> None" "e = No_memory \<longrightarrow> False \<in> set pl"
proof -
  let ?l = "(vfs_slock s)\<lparr>lock_val := 1\<rparr>" and ?n = "node\<lparr>file_refcount := -1\<rparr>" and ?q = "mount_path at"
  have free: "acquire (vfs_slock s) = Some ?l"
    using lock by (simp add: acquire_def spinlock_lock_def xchg_64_def Let_def)
  obtain ok pl1 where pl: "malloc pl = (ok, pl1)" by (cases "malloc pl")
  have sub: "set pl1 \<subseteq> set pl" "\<not> ok \<Longrightarrow> False \<in> set pl" using pl by (cases pl; auto)+
  note start = vfs_mount_def t free pl Let_def spinlock_unlock_def
  show thesis
  proof (cases "ok \<and> at \<noteq> [] \<and> hd at \<noteq> PATH_SEPARATOR")
    case False
    show thesis
    proof (cases "ok \<and> entry_file t = None")
      case True
      show thesis
        by (rule that [of Mounted pl1 "s\<lparr>vfs_slock := spinlock_unlock ?l, root_file := Some ?n,
              mount_tree := Some (Vfs_entry (entry_name t) (Some ?n) (entry_children t))\<rparr>"])
          (use True False in \<open>auto simp: start mount_path_def mounts_root\<close>)
    next
      case f: False
      show thesis
        by (rule that [of "if ok then Already_mounted else No_memory" pl1 "s\<lparr>vfs_slock := ?l\<rparr>" t])
          (use f False root sub in \<open>auto simp: start mount_path_def\<close>)
    qed
  next
    case True
    obtain e pl2 t' where w: "mount_at pl1 t (path_parts at) ?n = (e, pl2, t')"
      by (cases "mount_at pl1 t (path_parts at) ?n")
    have q: "?q = path_parts at" "?q \<noteq> []" using True by (simp_all add: mount_path_def path_parts.simps [of at])
    note mm = mount_at_mounts [OF w]
    have "mounts_below t' [] = mounts_below t []" using mm q by auto
    then have r: "entry_file t' = entry_file t" by simp
    show thesis
      by (rule that [of e pl2 "s\<lparr>vfs_slock := if e = Mounted then spinlock_unlock ?l else ?l, mount_tree := Some t'\<rparr>" t'])
        (use True mm q r root sub w in \<open>auto simp: start\<close>)
  qed
qed

text \<open>
  C25: \<open>vfs_mount\<close> refines the update of a finite map from paths to file nodes. When the lock is free the
  call returns, and it adds the locked node at the parts of the path exactly if it ends well, which needs
  the path to be free; otherwise no mount changes, and the path was taken or memory ran out. The root of
  the file system stays the file mounted at the empty path. Only the good end releases the lock: after
  any other, the next call never returns.
\<close>

theorem vfs_mount_refines_map:
  assumes "mount_tree s \<noteq> None" and "lock_val (vfs_slock s) = 0" and "root_file s = mounts s []"
  shows "\<exists>e pl' s'. vfs_mount s pl (Some (PATH_SEPARATOR # at)) node = Some (Some e, pl', s') \<and>
    mounts s' = (if e = Mounted then (mounts s)(mount_path at \<mapsto> node\<lparr>file_refcount := -1\<rparr>) else mounts s) \<and>
    (e = Mounted \<longrightarrow> mounts s (mount_path at) = None) \<and>
    (e = Already_mounted \<longrightarrow> mounts s (mount_path at) \<noteq> None) \<and>
    (e = No_memory \<longrightarrow> False \<in> set pl) \<and>
    root_file s' = mounts s' [] \<and>
    (lock_val (vfs_slock s') = 0 \<longleftrightarrow> e = Mounted) \<and>
    (e \<noteq> Mounted \<longrightarrow> vfs_mount s' pl'' (Some (PATH_SEPARATOR # at')) node'' = None)"
proof -
  obtain t where t: "mount_tree s = Some t" using assms(1) by blast
  have m: "mounts s = mounts_below t" using t by (simp add: mounts_def fun_eq_iff)
  have root: "root_file s = entry_file t" using assms(3) by (simp add: m)
  show ?thesis
  proof (rule vfs_mount_ends [OF t assms(2) root, of pl at node], goal_cases)
    case (1 e pl' s' t')
    have m': "mounts s' = mounts_below t'" using 1(2) by (simp add: mounts_def fun_eq_iff)
    have "e \<noteq> Mounted \<longrightarrow> vfs_mount s' pl'' (Some (PATH_SEPARATOR # at')) node'' = None"
      using 1(2,5) by (simp add: vfs_mount_def acquire_def spinlock_lock_def xchg_64_def Let_def)
    moreover have "root_file s' = mounts s' []" using 1(3) by (simp add: m')
    ultimately show ?case using 1(1,5-8) 1(4) [folded m m']
      by (intro exI [of _ e] exI [of _ pl'] exI [of _ s']) (simp add: m [symmetric])
  qed
qed

definition empty_vfs :: "nat vfs" where
  "empty_vfs = \<lparr>mount_tree = Some (Vfs_entry [91] None []), root_file = None, vfs_slock = \<lparr>lock_val = 0, waiters = 0\<rparr>\<rparr>"

lemma mounts_empty: "mounts empty_vfs q = None"
  by (cases q) (simp_all add: empty_vfs_def mounts_def)

theorem vfs_mount_refines_map_witness:
  "\<exists>e pl' s'. vfs_mount empty_vfs [True] (Some (PATH_SEPARATOR # [97]))
       \<lparr>file_refcount = 0, file_flags = 2, file_data = 7\<rparr> = Some (Some e, pl', s') \<and>
     (lock_val (vfs_slock s') = 0 \<longleftrightarrow> e = Mounted)"
proof -
  have s: "mount_tree empty_vfs \<noteq> None" "lock_val (vfs_slock empty_vfs) = 0" "root_file empty_vfs = mounts empty_vfs []"
    by (simp_all add: empty_vfs_def mounts_def)
  show ?thesis
    using vfs_mount_refines_map [OF s, of "[True]" "[97]" "\<lparr>file_refcount = 0, file_flags = 2, file_data = 7\<rparr>"]
    by blast
qed

text \<open>The length of the longest prefix of a path where a file is mounted, or zero.\<close>

definition deepest :: "'d vfs \<Rightarrow> cstring list \<Rightarrow> nat \<Rightarrow> bool" where
  "deepest s ps k \<longleftrightarrow> k \<le> length ps \<and> (0 < k \<longrightarrow> mounts s (take k ps) \<noteq> None) \<and>
     (\<forall>j. k < j \<and> j \<le> length ps \<longrightarrow> mounts s (take j ps) = None)"

lemma deepest_unique: "deepest s ps k \<Longrightarrow> deepest s ps k' \<Longrightarrow> k = k'"
  unfolding deepest_def by (metis linorder_neqE_nat not_less_zero neq0_conv)

text \<open>
  \<open>get_mount_point\<close> finds the file mounted at the longest prefix of the path that has one, the number
  of parts in it and the parts after it; the root takes the place of the empty prefix.
\<close>

lemma get_mount_point_deepest:
  assumes "mount_tree s \<noteq> None" and "root_file s = mounts s []" and "False \<notin> set pl"
  shows "\<exists>k. deepest s ps k \<and> get_mount_point s pl ps =
      Some (mounts s (take k ps), k, drop k ps, if mounts s (take k ps) = None then pl else tl pl)"
proof -
  obtain t where t: "mount_tree s = Some t" using assms(1) by blast
  have m: "mounts s = mounts_below t" using t by (simp add: mounts_def fun_eq_iff)
  have pl: "malloc pl = (True, tl pl)" using assms(3) by (cases pl) auto
  obtain k where k: "k \<le> length ps"
    "mount_walk (root_file s, 0, ps) 1 t ps =
       (if k = 0 then (root_file s, 0, ps) else (mounts_below t (take k ps), 1 + k - 1, drop k ps))"
    "k \<noteq> 0 \<longrightarrow> mounts_below t (take k ps) \<noteq> None"
    "\<forall>j. k < j \<and> j \<le> length ps \<longrightarrow> mounts_below t (take j ps) = None"
    using mount_walk_deepest [of ps "(root_file s, 0, ps)" 1 t] by blast
  then show ?thesis using assms(2)
    by (intro exI [of _ k]) (auto simp: get_mount_point_def deepest_def t m pl split: option.splits)
qed

end
