(* ===== verification/Vfs_Open.thy ===== *)
theory Vfs_Open
  imports Vfs_Mount
begin

text \<open>
  Opening files by path, kernel/src/vfs/vfs.c: \<open>kopen\<close> with its symbolic links, and the operations that
  split a path into a directory and a name.

  A driver is the functions its nodes point to. What the lookups of a driver answer does not change
  while a path is resolved. \<open>kopen\<close> returns nodes it has copied, so a node is its value; the calls of
  \<open>open_fs\<close> are recorded with the node as it was before the call.
\<close>

definition FS_DIRECTORY :: u32 where
  "FS_DIRECTORY = 0x02"

definition FS_SYMLINK :: u32 where
  "FS_SYMLINK = 0x20"

definition O_NOFOLLOW :: u32 where
  "O_NOFOLLOW = 0x1000"

definition O_PATH :: u32 where
  "O_PATH = 0x2000"

definition MAX_SYMLINK_DEPTH :: nat where
  "MAX_SYMLINK_DEPTH = 8"

text \<open>The functions of a driver; reading a link gives the length and the buffer.\<close>

record 'd driver =
  drv_finddir :: "'d \<Rightarrow> (cstring \<Rightarrow> 'd file_node option) option"
  drv_readlink :: "'d \<Rightarrow> (int \<times> u8 list) option"
  drv_unlink :: "'d \<Rightarrow> (cstring \<Rightarrow> int) option"
  drv_symlink :: "'d \<Rightarrow> (cstring \<Rightarrow> cstring \<Rightarrow> int) option"
  drv_mkdir :: "'d \<Rightarrow> (cstring \<Rightarrow> u16 \<Rightarrow> int) option"

type_synonym 'd opens = "('d file_node \<times> u32) list"
type_synonym 'd opened = "('d file_node option \<times> plan \<times> 'd opens) option"

definition finddir_fs :: "'d driver \<Rightarrow> 'd file_node \<Rightarrow> cstring \<Rightarrow> 'd file_node option" where
  "finddir_fs d node nm =
     (if file_flags node AND FS_DIRECTORY \<noteq> 0 then
        (case drv_finddir d (file_data node) of Some f \<Rightarrow> f nm | None \<Rightarrow> None)
      else None)"

definition readlink_fs :: "'d driver \<Rightarrow> 'd file_node \<Rightarrow> int \<times> u8 list" where
  "readlink_fs d node = (case drv_readlink d (file_data node) of Some r \<Rightarrow> r | None \<Rightarrow> (-1, []))"

definition open_node :: "'d file_node \<Rightarrow> 'd file_node" where
  "open_node node =
     (if file_refcount node \<ge> 0 then node\<lparr>file_refcount := file_refcount node + 1\<rparr> else node)"

definition open_last :: "'d file_node \<Rightarrow> u32 \<Rightarrow> plan \<Rightarrow> 'd opens \<Rightarrow> 'd opened" where
  "open_last node flags pl log = Some (Some (open_node node), pl, log @ [(node, flags)])"

subsection \<open>Symbolic links\<close>

text \<open>
  The text of the path up to the directory of a node at some depth, where the code puts separators back
  over the terminators.
\<close>

definition rel_path :: "cstring list \<Rightarrow> nat \<Rightarrow> cstring" where
  "rel_path parts depth = concat (map (\<lambda>c. PATH_SEPARATOR # c) (take (depth - 1) parts))"

text \<open>\<open>follow\<close> is the recursive call, unless the depth of links is exhausted.\<close>

definition resolve_link :: "'d driver \<Rightarrow> (cstring \<Rightarrow> cstring \<Rightarrow> plan \<Rightarrow> 'd opens \<Rightarrow> 'd opened) option \<Rightarrow> u32 \<Rightarrow>
    cstring list \<Rightarrow> nat \<Rightarrow> nat \<Rightarrow> 'd file_node \<Rightarrow> plan \<Rightarrow> 'd opens \<Rightarrow> 'd opened" where
  "resolve_link d follow flags parts path_depth depth node pl log =
     (if flags AND O_NOFOLLOW \<noteq> 0 \<and> depth = path_depth - 1 then Some (None, pl, log)
      else
        (case follow of
           None \<Rightarrow> Some (None, pl, log)
         | Some again \<Rightarrow>
             (let (len, buf) = readlink_fs d node
              in if len < 0 then Some (None, pl, log)
                 else do {
                   b \<leftarrow> idx buf (nat len);
                   if b \<noteq> 0 then Some (None, pl, log)
                   else
                     (case malloc pl of
                        (False, pl) \<Rightarrow> Some (None, pl, log)
                      | (True, pl) \<Rightarrow> again (takeWhile (\<lambda>b. b \<noteq> 0) buf) (rel_path parts depth) pl log)
                 })))"

definition is_link :: "'d file_node \<Rightarrow> bool" where
  "is_link node \<longleftrightarrow> file_flags node AND FS_SYMLINK \<noteq> 0"

subsection \<open>Opening\<close>

fun kopen_loop :: "'d driver \<Rightarrow> (cstring \<Rightarrow> cstring \<Rightarrow> plan \<Rightarrow> 'd opens \<Rightarrow> 'd opened) option \<Rightarrow> u32 \<Rightarrow>
    cstring list \<Rightarrow> nat \<Rightarrow> nat \<Rightarrow> 'd file_node \<Rightarrow> cstring list \<Rightarrow> plan \<Rightarrow> 'd opens \<Rightarrow> 'd opened" where
  "kopen_loop d follow flags parts path_depth depth node rest pl log = do {
     (r, pl, log) \<leftarrow>
       (if is_link node \<and> \<not> (flags AND O_NOFOLLOW \<noteq> 0 \<and> flags AND O_PATH \<noteq> 0 \<and> depth = path_depth)
        then resolve_link d follow flags parts path_depth depth node pl log
        else Some (Some node, pl, log));
     case r of
       None \<Rightarrow> Some (None, pl, log)
     | Some node \<Rightarrow>
         (case rest of
            [] \<Rightarrow> open_last node flags pl log
          | nm # rest' \<Rightarrow>
              (if depth = path_depth then open_last node flags pl log
               else
                 (case finddir_fs d node nm of
                    None \<Rightarrow> Some (None, pl, log)
                  | Some node' \<Rightarrow>
                      (if depth + 1 < path_depth + 1
                       then kopen_loop d follow flags parts path_depth (depth + 1) node' rest' pl log
                       else Some (None, pl, log)))))
   }"

declare kopen_loop.simps [simp del]

definition kopen_path :: "'d driver \<Rightarrow> 'd vfs \<Rightarrow> (cstring \<Rightarrow> cstring \<Rightarrow> plan \<Rightarrow> 'd opens \<Rightarrow> 'd opened) option \<Rightarrow>
    cstring \<Rightarrow> u32 \<Rightarrow> cstring \<Rightarrow> plan \<Rightarrow> 'd opens \<Rightarrow> 'd opened" where
  "kopen_path d s follow filename flags relative_to pl log =
     (let path = canonicalize_path relative_to filename
      in if length path = 1 then
           (case malloc pl of
              (False, pl) \<Rightarrow> Some (None, pl, log)
            | (True, pl) \<Rightarrow> do { root \<leftarrow> root_file s; open_last root flags pl log })
         else
           (let path_depth = length (filter (\<lambda>c. c = PATH_SEPARATOR) path);
                parts = path_parts (tl path)
            in do {
              (node, depth, rest, pl) \<leftarrow> get_mount_point s pl parts;
              case node of
                None \<Rightarrow> Some (None, pl, log)
              | Some node \<Rightarrow> kopen_loop d follow flags parts path_depth depth node rest pl log
            }))"

text \<open>
  The first argument is the number of links that may still be followed: the code counts its
  \<open>symlink_depth\<close> from zero up to \<open>MAX_SYMLINK_DEPTH\<close>.
\<close>

primrec kopen_recur :: "nat \<Rightarrow> 'd driver \<Rightarrow> 'd vfs \<Rightarrow> cstring \<Rightarrow> u32 \<Rightarrow> cstring \<Rightarrow> plan \<Rightarrow> 'd opens \<Rightarrow> 'd opened" where
  "kopen_recur 0 d s = kopen_path d s None"
| "kopen_recur (Suc k) d s =
     kopen_path d s (Some (\<lambda>filename relative_to. kopen_recur k d s filename 0 relative_to))"

definition kopen :: "'d driver \<Rightarrow> 'd vfs \<Rightarrow> cstring \<Rightarrow> cstring option \<Rightarrow> u32 \<Rightarrow> plan \<Rightarrow> 'd opens \<Rightarrow> 'd opened" where
  "kopen d s cwd filename flags pl log =
     (case filename of
        None \<Rightarrow> Some (None, pl, log)
      | Some nm \<Rightarrow> kopen_recur MAX_SYMLINK_DEPTH d s nm flags cwd pl log)"

subsection \<open>Directory and name\<close>

text \<open>Where the name starts: the loops over \<open>f_path\<close>.\<close>

fun back_to_separator :: "cstring \<Rightarrow> nat \<Rightarrow> nat" where
  "back_to_separator path 0 = 0"
| "back_to_separator path (Suc i) =
     (if path ! Suc i = PATH_SEPARATOR then Suc (Suc i) else back_to_separator path i)"

definition f_path :: "cstring \<Rightarrow> cstring" where
  "f_path path =
     dropWhile (\<lambda>c. c = PATH_SEPARATOR) (drop (back_to_separator path (length path - 1)) path)"

definition parent_path :: "cstring \<Rightarrow> cstring" where
  "parent_path path = path @ [PATH_SEPARATOR] @ PATH_UP"

text \<open>
  The result, the node that is asked with the name it gets, and the file nodes opened. The nodes are
  closed again with \<open>close_fs\<close>, the one \<open>mkdir_fs\<close> opens to see whether the path exists included.
\<close>

type_synonym 'd dir_result = "(int \<times> ('d file_node \<times> cstring) option \<times> plan \<times> 'd opens) option"

definition unlink_fs :: "'d driver \<Rightarrow> 'd vfs \<Rightarrow> cstring \<Rightarrow> cstring \<Rightarrow> plan \<Rightarrow> 'd opens \<Rightarrow> 'd dir_result" where
  "unlink_fs d s cwd nm pl log =
     (let path = canonicalize_path cwd nm
      in do {
        (parent, pl, log) \<leftarrow> kopen d s cwd (Some (parent_path path)) 0 pl log;
        case parent of
          None \<Rightarrow> Some (-1, None, pl, log)
        | Some p \<Rightarrow>
            (case drv_unlink d (file_data p) of
               Some f \<Rightarrow> Some (f (f_path path), Some (p, f_path path), pl, log)
             | None \<Rightarrow> Some (-1, None, pl, log))
      })"

definition symlink_fs :: "'d driver \<Rightarrow> 'd vfs \<Rightarrow> cstring \<Rightarrow> cstring \<Rightarrow> cstring \<Rightarrow> plan \<Rightarrow> 'd opens \<Rightarrow> 'd dir_result" where
  "symlink_fs d s cwd target nm pl log =
     (let path = canonicalize_path cwd nm
      in do {
        (parent, pl, log) \<leftarrow> kopen d s cwd (Some (parent_path path)) 0 pl log;
        case parent of
          None \<Rightarrow> Some (-1, None, pl, log)
        | Some p \<Rightarrow>
            (case drv_symlink d (file_data p) of
               Some f \<Rightarrow> Some (f target (f_path path), Some (p, f_path path), pl, log)
             | None \<Rightarrow> Some (-1, None, pl, log))
      })"

definition mkdir_fs :: "'d driver \<Rightarrow> 'd vfs \<Rightarrow> cstring \<Rightarrow> cstring \<Rightarrow> u16 \<Rightarrow> plan \<Rightarrow> 'd opens \<Rightarrow> 'd dir_result" where
  "mkdir_fs d s cwd nm permission pl log =
     (let path = canonicalize_path cwd nm
      in if nm = [] then Some (-1, None, pl, log)
         else do {
           (parent, pl, log) \<leftarrow> kopen d s cwd (Some (parent_path path)) 0 pl log;
           case parent of
             None \<Rightarrow> Some (-1, None, pl, log)
           | Some p \<Rightarrow>
               (if f_path path = [] then Some (-1, None, pl, log)
                else do {
                  (this, pl, log) \<leftarrow> kopen d s cwd (Some path) 0 pl log;
                  (case drv_mkdir d (file_data p) of
                     Some f \<Rightarrow> Some (f (f_path path) permission, Some (p, f_path path), pl, log)
                   | None \<Rightarrow> Some (-1, None, pl, log))
                })
         })"

subsection \<open>Canonical paths and their parts\<close>

lemma resolved_ok: "list_all part_ok (resolved cwd p)"
  unfolding resolved_def by (rule path_step_parts) (auto simp: list_all_iff tokens_parts)

lemma path_parts_concat:
  "list_all part_ok (c # cs) \<Longrightarrow> path_parts (c @ concat (map (\<lambda>c. PATH_SEPARATOR # c) cs)) = c # cs"
proof (induction cs arbitrary: c)
  case Nil
  then have "takeWhile (\<lambda>x. x \<noteq> PATH_SEPARATOR) c = c" "dropWhile (\<lambda>x. x \<noteq> PATH_SEPARATOR) c = []"
    by (auto simp: part_ok_def takeWhile_eq_all_conv dropWhile_eq_Nil_conv)
  then show ?case using Nil
    by (simp add: path_parts.simps [of c] path_parts.simps [of "[]"] part_ok_def del: dropWhile_eq_Nil_conv)
next
  case (Cons c' cs)
  let ?r = "c' @ concat (map (\<lambda>c. PATH_SEPARATOR # c) cs)"
  have "\<forall>x\<in>set c. x \<noteq> PATH_SEPARATOR" "c \<noteq> []" using Cons.prems by (auto simp: part_ok_def)
  then have "takeWhile (\<lambda>x. x \<noteq> PATH_SEPARATOR) (c @ PATH_SEPARATOR # ?r) = c"
    "dropWhile (\<lambda>x. x \<noteq> PATH_SEPARATOR) (c @ PATH_SEPARATOR # ?r) = PATH_SEPARATOR # ?r" "c \<noteq> []"
    by (auto simp: takeWhile_append dropWhile_append)
  moreover have "path_parts ?r = c' # cs" using Cons by simp
  ultimately show ?case by (simp add: path_parts.simps [of "c @ PATH_SEPARATOR # ?r"])
qed

lemma join_path_Cons: "join_path (c # cs) = PATH_SEPARATOR # c @ concat (map (\<lambda>c. PATH_SEPARATOR # c) cs)"
  by (simp add: join_path_def)

lemma path_parts_join: "list_all part_ok cs \<Longrightarrow> cs \<noteq> [] \<Longrightarrow> path_parts (tl (join_path cs)) = cs"
  by (cases cs) (simp_all add: join_path_Cons path_parts_concat)

lemma separators_join: "list_all part_ok cs \<Longrightarrow> cs \<noteq> [] \<Longrightarrow>
    length (filter (\<lambda>c. c = PATH_SEPARATOR) (join_path cs)) = length cs"
proof -
  assume ok: "list_all part_ok cs" and "cs \<noteq> []"
  have "filter (\<lambda>c. c = PATH_SEPARATOR) c = []" if "part_ok c" for c
    using that by (auto simp: part_ok_def filter_empty_conv)
  then have "length (filter (\<lambda>c. c = PATH_SEPARATOR) (concat (map (\<lambda>c. PATH_SEPARATOR # c) cs))) = length cs"
    using ok by (induction cs) auto
  then show ?thesis using \<open>cs \<noteq> []\<close> by (cases cs) (simp_all add: join_path_Cons)
qed

lemma length_join: "list_all part_ok cs \<Longrightarrow> length (join_path cs) = 1 \<longleftrightarrow> cs = []"
  by (cases cs) (auto simp: join_path_Cons part_ok_def, simp add: join_path_def)

text \<open>\<open>kopen_path\<close> over the parts of the resolved path.\<close>

lemma kopen_path_parts:
  "kopen_path d s follow nm flags rel pl log =
     (let cs = resolved rel nm
      in if cs = [] then
           (case malloc pl of
              (False, pl) \<Rightarrow> Some (None, pl, log)
            | (True, pl) \<Rightarrow> do { root \<leftarrow> root_file s; open_last root flags pl log })
         else do {
           (node, depth, rest, pl) \<leftarrow> get_mount_point s pl cs;
           case node of
             None \<Rightarrow> Some (None, pl, log)
           | Some node \<Rightarrow> kopen_loop d follow flags cs (length cs) depth node rest pl log
         })"
  unfolding kopen_path_def Let_def canonical_eq length_join [OF resolved_ok]
  using path_parts_join [OF resolved_ok, of rel nm] separators_join [OF resolved_ok, of rel nm]
  by (cases "resolved rel nm = []") (simp_all cong: option.case_cong)

subsection \<open>Walking down\<close>

text \<open>The node found below another one, and the ways on which there is no link before the end.\<close>

fun descend :: "'d driver \<Rightarrow> 'd file_node \<Rightarrow> cstring list \<Rightarrow> 'd file_node option" where
  "descend d node [] = Some node"
| "descend d node (p # ps) = (case finddir_fs d node p of None \<Rightarrow> None | Some m \<Rightarrow> descend d m ps)"

fun clear_way :: "'d driver \<Rightarrow> 'd file_node \<Rightarrow> cstring list \<Rightarrow> bool" where
  "clear_way d node [] \<longleftrightarrow> \<not> is_link node"
| "clear_way d node (p # ps) \<longleftrightarrow>
     \<not> is_link node \<and> (case finddir_fs d node p of None \<Rightarrow> True | Some m \<Rightarrow> clear_way d m ps)"

fun leads_to :: "'d driver \<Rightarrow> 'd file_node \<Rightarrow> cstring list \<Rightarrow> 'd file_node \<Rightarrow> bool" where
  "leads_to d node [] l \<longleftrightarrow> node = l"
| "leads_to d node (p # ps) l \<longleftrightarrow>
     \<not> is_link node \<and> (case finddir_fs d node p of None \<Rightarrow> False | Some m \<Rightarrow> leads_to d m ps l)"

definition walk_end :: "'d driver \<Rightarrow> 'd file_node \<Rightarrow> cstring list \<Rightarrow> u32 \<Rightarrow> plan \<Rightarrow> 'd opens \<Rightarrow> 'd opened" where
  "walk_end d node rest flags pl log =
     (case descend d node rest of None \<Rightarrow> Some (None, pl, log) | Some f \<Rightarrow> open_last f flags pl log)"

lemma loop_clear:
  "clear_way d node rest \<Longrightarrow> depth + length rest = n \<Longrightarrow>
   kopen_loop d follow flags parts n depth node rest pl log = walk_end d node rest flags pl log"
proof (induction rest arbitrary: depth node)
  case Nil
  then show ?case by (simp add: kopen_loop.simps [of _ _ _ _ _ _ _ "[]"] walk_end_def)
next
  case (Cons p ps)
  then show ?case
    by (auto simp: kopen_loop.simps [of _ _ _ _ _ _ _ "p # ps"] walk_end_def split: option.splits)
qed

lemma loop_leads:
  "leads_to d node ps l \<Longrightarrow> depth + length ps \<le> n \<Longrightarrow>
   kopen_loop d follow flags parts n depth node (ps @ rest) pl log =
     kopen_loop d follow flags parts n (depth + length ps) l rest pl log"
proof (induction ps arbitrary: depth node)
  case (Cons p ps)
  then show ?case
    by (auto simp: kopen_loop.simps [of _ _ _ _ _ _ _ "p # ps @ rest"] split: option.splits)
qed simp

text \<open>
  When a link at depth \<open>i\<close> of \<open>n\<close> parts is followed: with \<open>O_NOFOLLOW\<close> not one part before the last, and with
  \<open>O_PATH\<close> as well not at the last part.
\<close>

definition follows :: "u32 \<Rightarrow> nat \<Rightarrow> nat \<Rightarrow> bool" where
  "follows flags n i \<longleftrightarrow> flags AND O_NOFOLLOW = 0 \<or> i \<noteq> n - 1 \<and> \<not> (flags AND O_PATH \<noteq> 0 \<and> i = n)"

lemma follows_0 [simp]: "follows 0 n i"
  by (simp add: follows_def)

text \<open>The loop at a link: it goes on from the node that the recursive call opens.\<close>

lemma loop_link:
  assumes "is_link l" and "follows flags n depth"
    and "readlink_fs d l = (len, buf)" "0 \<le> len" "nat len < length buf" "buf ! nat len = 0"
    and "again (takeWhile (\<lambda>b. b \<noteq> 0) buf) (rel_path parts depth) [] log = r"
  shows "kopen_loop d (Some again) flags parts n depth l rest [] log =
     (case r of None \<Rightarrow> None | Some (None, st) \<Rightarrow> Some (None, st)
      | Some (Some t, pl, log) \<Rightarrow>
          (case rest of
             [] \<Rightarrow> open_last t flags pl log
           | p # ps \<Rightarrow>
              (if depth = n then open_last t flags pl log
               else (case finddir_fs d t p of
                  None \<Rightarrow> Some (None, pl, log)
                | Some m \<Rightarrow>
                    (if depth + 1 < n + 1 then kopen_loop d (Some again) flags parts n (depth + 1) m ps pl log
                     else Some (None, pl, log))))))"
  using assms
  by (cases r) (auto simp: kopen_loop.simps [of _ _ _ _ _ _ l] resolve_link_def idx_def follows_def
      split: option.splits list.splits)

lemma get_mount_point_at:
  "mount_tree s \<noteq> None \<Longrightarrow> root_file s = mounts s [] \<Longrightarrow> deepest s ps k \<Longrightarrow> mounts s (take k ps) = Some n \<Longrightarrow>
   get_mount_point s [] ps = Some (Some n, k, drop k ps, [])"
proof -
  assume a: "mount_tree s \<noteq> None" "root_file s = mounts s []" "deepest s ps k" "mounts s (take k ps) = Some n"
  obtain k' where "deepest s ps k'" "get_mount_point s [] ps =
      Some (mounts s (take k' ps), k', drop k' ps, if mounts s (take k' ps) = None then [] else tl [])"
    using get_mount_point_deepest [OF a(1,2), of "[]" ps] by auto
  moreover from this have "k' = k" using deepest_unique a(3) by blast
  ultimately show ?thesis using a(4) by simp
qed

text \<open>A state in which a path has a mount point.\<close>

definition mounted_at :: "'d vfs \<Rightarrow> cstring list \<Rightarrow> nat \<Rightarrow> 'd file_node \<Rightarrow> bool" where
  "mounted_at s ps k n \<longleftrightarrow> mount_tree s \<noteq> None \<and> root_file s = mounts s [] \<and> deepest s ps k \<and>
     mounts s (take k ps) = Some n"

lemma kopen_path_mounted:
  assumes "mounted_at s (resolved rel nm) k n"
  shows "kopen_path d s follow nm flags rel [] log =
    (if resolved rel nm = [] then open_last n flags [] log
     else kopen_loop d follow flags (resolved rel nm) (length (resolved rel nm)) k n (drop k (resolved rel nm)) [] log)"
  using assms get_mount_point_at [of s "resolved rel nm" k n]
  by (auto simp: mounted_at_def kopen_path_parts Let_def)

lemma kopen_path_clear:
  assumes "mounted_at s (resolved rel nm) k n" and "clear_way d n (drop k (resolved rel nm))"
  shows "kopen_path d s follow nm flags rel [] log = walk_end d n (drop k (resolved rel nm)) flags [] log"
proof -
  have "k \<le> length (resolved rel nm)" using assms(1) by (simp add: mounted_at_def deepest_def)
  then show ?thesis using assms(2)
    by (auto simp: kopen_path_mounted [OF assms(1)] loop_clear) (simp add: walk_end_def)
qed

lemma kopen_recur_clear:
  assumes "mounted_at s (resolved rel nm) k n" and "clear_way d n (drop k (resolved rel nm))"
  shows "kopen_recur m d s nm flags rel [] log = walk_end d n (drop k (resolved rel nm)) flags [] log"
  by (cases m) (simp_all add: kopen_path_clear [OF assms])

lemma tokens_rel_path: "list_all part_ok cs \<Longrightarrow> tokens (rel_path cs i) = take (i - 1) cs"
proof -
  assume ok: "list_all part_ok cs"
  show ?thesis
  proof (cases "take (i - 1) cs")
    case (Cons c ds)
    have "list_all part_ok (take (i - 1) cs)" using ok by (auto simp: list_all_iff dest: in_set_takeD)
    then show ?thesis using tokens_join [of "take (i - 1) cs"] Cons by (simp add: rel_path_def join_path_Cons)
  next
    case Nil
    then show ?thesis unfolding rel_path_def Nil by simp
  qed
qed

text \<open>The path of a link's target: relative to the directory the link is in.\<close>

definition link_path :: "cstring list \<Rightarrow> nat \<Rightarrow> cstring \<Rightarrow> cstring list" where
  "link_path cs i target = foldl path_step (if relative target then take (i - 1) cs else []) (tokens target)"

lemma resolved_link: "list_all part_ok cs \<Longrightarrow> resolved (rel_path cs i) target = link_path cs i target"
  by (simp add: resolved_def link_path_def tokens_rel_path)

text \<open>A link at depth \<open>i\<close> of a path.\<close>

definition link_at :: "'d driver \<Rightarrow> 'd vfs \<Rightarrow> cstring list \<Rightarrow> nat \<Rightarrow> cstring \<Rightarrow> bool" where
  "link_at d s cs i target \<longleftrightarrow> i \<le> length cs \<and> cs \<noteq> [] \<and> (\<exists>k n l len buf. mounted_at s cs k n \<and> k \<le> i \<and>
     leads_to d n (drop k (take i cs)) l \<and> is_link l \<and> readlink_fs d l = (len, buf) \<and> 0 \<le> len \<and>
     nat len < length buf \<and> buf ! nat len = 0 \<and> target = takeWhile (\<lambda>b. b \<noteq> 0) buf)"

lemma kopen_path_link_at:
  assumes "link_at d s (resolved rel nm) i target"
  obtains l len buf where "kopen_path d s follow nm flags rel [] log =
      kopen_loop d follow flags (resolved rel nm) (length (resolved rel nm)) i l (drop i (resolved rel nm)) [] log"
    "is_link l" "readlink_fs d l = (len, buf)" "0 \<le> len" "nat len < length buf" "buf ! nat len = 0"
    "target = takeWhile (\<lambda>b. b \<noteq> 0) buf" "i \<le> length (resolved rel nm)" "resolved rel nm \<noteq> []"
proof -
  let ?cs = "resolved rel nm"
  obtain k n l len buf where l: "mounted_at s ?cs k n" "k \<le> i" "leads_to d n (drop k (take i ?cs)) l" "is_link l"
      "readlink_fs d l = (len, buf)" "0 \<le> len" "nat len < length buf" "buf ! nat len = 0"
      "target = takeWhile (\<lambda>b. b \<noteq> 0) buf" and i: "i \<le> length ?cs" "?cs \<noteq> []"
    using assms(1) by (auto simp: link_at_def)
  have split: "drop k ?cs = drop k (take i ?cs) @ drop i ?cs"
    using l(2) i by (metis append_take_drop_id drop_take le_add_diff_inverse drop_drop add.commute)
  have "kopen_path d s follow nm flags rel [] log =
      kopen_loop d follow flags ?cs (length ?cs) i l (drop i ?cs) [] log"
    using kopen_path_mounted [OF l(1)] loop_leads [OF l(3), of k "length ?cs"] i l(2) split by simp
  then show thesis using that l i by blast
qed

lemma kopen_path_link:
  assumes "link_at d s (resolved rel nm) i target" and "follows flags (length (resolved rel nm)) i"
    and again: "again target (rel_path (resolved rel nm) i) [] log = Some (r, [], log')"
    and clear: "\<And>t. r = Some t \<Longrightarrow> clear_way d t (drop i (resolved rel nm))"
  shows "kopen_path d s (Some again) nm flags rel [] log =
    (case r of None \<Rightarrow> Some (None, [], log') | Some t \<Rightarrow> walk_end d t (drop i (resolved rel nm)) flags [] log')"
proof -
  let ?cs = "resolved rel nm"
  obtain l len buf where e: "kopen_path d s (Some again) nm flags rel [] log =
      kopen_loop d (Some again) flags ?cs (length ?cs) i l (drop i ?cs) [] log"
    and l: "is_link l" "readlink_fs d l = (len, buf)" "0 \<le> len" "nat len < length buf" "buf ! nat len = 0"
      "target = takeWhile (\<lambda>b. b \<noteq> 0) buf" and i: "i \<le> length ?cs" "?cs \<noteq> []"
    using kopen_path_link_at [OF assms(1)] by metis
  note e
  also have "kopen_loop d (Some again) flags ?cs (length ?cs) i l (drop i ?cs) [] log =
      (case r of None \<Rightarrow> Some (None, [], log') | Some t \<Rightarrow> walk_end d t (drop i ?cs) flags [] log')"
  proof (cases r)
    case (Some t)
    have "clear_way d t (drop i ?cs)" "i + length (drop i ?cs) = length ?cs" using clear [OF Some] i by simp_all
    then show ?thesis
      using loop_link [OF l(1) assms(2) l(2-5), of again ?cs log] again Some i
      by (cases "drop i ?cs") (auto simp: l(6) walk_end_def loop_clear split: option.splits)
  qed (use loop_link [OF l(1) assms(2) l(2-5), of again ?cs log] again in \<open>simp add: l(6)\<close>)
  finally show ?thesis .
qed

text \<open>A link that is not followed: it is refused, or with \<open>O_PATH\<close> at the last part opened itself.\<close>

lemma kopen_path_unfollowed:
  assumes "link_at d s (resolved rel nm) i target" and "\<not> follows flags (length (resolved rel nm)) i"
  shows "if i = length (resolved rel nm) - 1 then kopen_path d s (Some again) nm flags rel [] log = Some (None, [], log)
    else \<exists>l. is_link l \<and> kopen_path d s (Some again) nm flags rel [] log = Some (Some (open_node l), [], log @ [(l, flags)])"
proof -
  let ?cs = "resolved rel nm"
  obtain l where e: "kopen_path d s (Some again) nm flags rel [] log =
      kopen_loop d (Some again) flags ?cs (length ?cs) i l (drop i ?cs) [] log" and l: "is_link l" and ne: "?cs \<noteq> []"
    using kopen_path_link_at [OF assms(1)] by metis
  show ?thesis
  proof (cases "i = length ?cs - 1")
    case True
    moreover have "length ?cs - 1 \<noteq> length ?cs" using ne by (cases ?cs) simp_all
    ultimately show ?thesis using assms(2) l
      by (simp add: e kopen_loop.simps [of _ _ _ _ _ _ l] resolve_link_def follows_def)
  next
    case False
    then show ?thesis using assms(2) l
      by (intro if_not_P [THEN iffD2]) (auto simp: e kopen_loop.simps [of _ _ _ _ _ _ l] follows_def open_last_def)
  qed
qed

lemma separator_not_dots: "part_ok PATH_UP" "PATH_SEPARATOR \<notin> set PATH_UP"
  by (simp_all add: part_ok_def PATH_UP_def PATH_SEPARATOR_def)

lemma resolved_parent:
  assumes "plain (tokens cwd)" and "resolved cwd nm \<noteq> []"
  shows "resolved cwd (parent_path (canonicalize_path cwd nm)) = butlast (resolved cwd nm)"
proof -
  let ?cs = "resolved cwd nm"
  have "plain ?cs"
    unfolding resolved_def by (rule plain_steps) (use assms(1) in \<open>auto simp: plain_def\<close>)
  moreover have "tokens (parent_path (canonicalize_path cwd nm)) = ?cs @ [PATH_UP]"
    using tokens_append_sep [of "canonicalize_path cwd nm" PATH_UP] tokens_part(1) [of PATH_UP] separator_not_dots
    by (simp add: parent_path_def tokens_canonical part_ok_def)
  moreover have "\<not> relative (parent_path (canonicalize_path cwd nm))"
    using canonical_absolute [of cwd nm] assms(2)
    by (cases ?cs) (auto simp: relative_def parent_path_def canonical_eq join_path_Cons)
  ultimately show ?thesis using plain_fold [of ?cs "[]"]
    by (simp add: resolved_def [of cwd "parent_path _"] path_step_def)
qed

text \<open>The loops over \<open>f_path\<close> find the last part.\<close>

lemma back_to_part: "i < length c \<Longrightarrow> PATH_SEPARATOR \<notin> set c \<Longrightarrow>
    back_to_separator (p @ PATH_SEPARATOR # c) (length p + 1 + i) = (if p = [] then 0 else length p + 1)"
proof (induction i)
  case 0
  have "(p @ PATH_SEPARATOR # c) ! Suc (length p) \<noteq> PATH_SEPARATOR"
    using 0(2) nth_mem [OF 0(1)] by (cases c) (auto simp: nth_append)
  then show ?case by (cases "length p") (auto simp: nth_append)
next
  case (Suc i)
  have "c ! Suc i \<noteq> PATH_SEPARATOR" using Suc.prems nth_mem by metis
  then have "(p @ PATH_SEPARATOR # c) ! (length p + 1 + Suc i) \<noteq> PATH_SEPARATOR"
    by (simp add: nth_append)
  then show ?case using Suc by simp
qed

lemma f_path_last: "list_all part_ok cs \<Longrightarrow> cs \<noteq> [] \<Longrightarrow> f_path (join_path cs) = last cs"
proof -
  assume ok: "list_all part_ok cs" "cs \<noteq> []"
  let ?c = "last cs" and ?p = "concat (map (\<lambda>c. PATH_SEPARATOR # c) (butlast cs))"
  have c: "?c \<noteq> []" "PATH_SEPARATOR \<notin> set ?c" using ok by (auto simp: part_ok_def list_all_iff)
  have "concat (map (\<lambda>c. PATH_SEPARATOR # c) (butlast cs @ [?c])) = ?p @ PATH_SEPARATOR # ?c" by simp
  then have "concat (map (\<lambda>c. PATH_SEPARATOR # c) cs) = ?p @ PATH_SEPARATOR # ?c"
    unfolding append_butlast_last_id [OF ok(2)] .
  then have j: "join_path cs = ?p @ PATH_SEPARATOR # ?c"
    using ok(2) by (cases cs) (simp_all add: join_path_Cons)
  have "f_path (p @ PATH_SEPARATOR # ?c) = ?c" for p
  proof -
    have len: "length (p @ PATH_SEPARATOR # ?c) - 1 = length p + 1 + (length ?c - 1)" using c by (cases ?c) auto
    have "back_to_separator (p @ PATH_SEPARATOR # ?c) (length (p @ PATH_SEPARATOR # ?c) - 1) =
        (if p = [] then 0 else length p + 1)"
      unfolding len using c by (intro back_to_part) auto
    moreover have "dropWhile (\<lambda>x. x = PATH_SEPARATOR) ?c = ?c" using c by (cases ?c) auto
    ultimately show ?thesis unfolding f_path_def by (simp del: length_append)
  qed
  then show ?thesis unfolding j .
qed

text \<open>A path that is a link to itself is never resolved, however many links may be followed.\<close>

lemma kopen_link_loop:
  assumes "link_at d s cs i target" and "link_path cs i target = cs" and "list_all part_ok cs"
  shows "resolved rel t = cs \<Longrightarrow> follows flags (length cs) i \<Longrightarrow>
    kopen_recur m d s t flags rel [] log = Some (None, [], log)"
proof (induction m arbitrary: t rel flags)
  case 0
  obtain k n l len buf where l: "mounted_at s cs k n" "k \<le> i" "leads_to d n (drop k (take i cs)) l" "is_link l"
      and i: "i \<le> length cs" "cs \<noteq> []"
    using assms(1) by (auto simp: link_at_def)
  have split: "drop k cs = drop k (take i cs) @ drop i cs"
    using l(2) i by (metis append_take_drop_id drop_take le_add_diff_inverse drop_drop add.commute)
  have "kopen_recur 0 d s t flags rel [] log = kopen_loop d None flags cs (length cs) i l (drop i cs) [] log"
    using kopen_path_mounted [of s rel t k n] l(1) 0 loop_leads [OF l(3), of k "length cs"] i l(2) split by simp
  also have "\<dots> = Some (None, [], log)"
    using l(4) 0 by (auto simp: kopen_loop.simps [of _ _ _ _ _ _ l] resolve_link_def follows_def)
  finally show ?case .
next
  case (Suc m)
  let ?follow = "\<lambda>nm rel. kopen_recur m d s nm 0 rel"
  have "?follow target (rel_path cs i) [] log = Some (None, [], log)"
    using Suc.IH [of "rel_path cs i" target 0] assms(2) by (simp add: resolved_link [OF assms(3)])
  then show ?case
    using kopen_path_link [of d s rel t i target flags ?follow log None log] assms(1) Suc.prems by simp
qed

subsection \<open>Properties\<close>

text \<open>
  C24: Opening a path on which no link lies resolves it to its parts, starts at the file mounted on the
  longest prefix and asks the drivers for the remaining parts in turn: the result is a copy of the node
  found, opened once with the flags of the call, or a null pointer when a directory has no such name.
\<close>

theorem kopen_finds:
  assumes "mounted_at s (resolved cwd nm) k n" and "clear_way d n (drop k (resolved cwd nm))"
  shows "kopen d s cwd (Some nm) flags [] log =
    (case descend d n (drop k (resolved cwd nm)) of
       None \<Rightarrow> Some (None, [], log)
     | Some f \<Rightarrow> Some (Some (open_node f), [], log @ [(f, flags)]))"
  using kopen_recur_clear [OF assms, of MAX_SYMLINK_DEPTH]
  by (simp add: kopen_def walk_end_def open_last_def split: option.splits)

definition leaf_driver :: "nat driver" where
  "leaf_driver =
     \<lparr>drv_finddir = (\<lambda>v. if v = 0 then Some (\<lambda>nm. if nm = [108] then Some \<lparr>file_refcount = 0, file_flags = 0x20, file_data = 2\<rparr>
          else Some \<lparr>file_refcount = 0, file_flags = 1, file_data = 1\<rparr>) else None),
      drv_readlink = (\<lambda>v. if v = 2 then Some (1, [97, 0]) else if v = 3 then Some (1, [108, 0]) else None),
      drv_unlink = (\<lambda>v. Some (\<lambda>nm. 0)), drv_symlink = (\<lambda>v. None), drv_mkdir = (\<lambda>v. None)\<rparr>"

definition leaf_root :: "nat file_node" where
  "leaf_root = \<lparr>file_refcount = -1, file_flags = 2, file_data = 0\<rparr>"

definition leaf_vfs :: "nat vfs" where
  "leaf_vfs = \<lparr>mount_tree = Some (Vfs_entry [91] (Some leaf_root) []), root_file = Some leaf_root,
     vfs_slock = \<lparr>lock_val = 0, waiters = 0\<rparr>\<rparr>"

lemma mounts_leaf: "mounts leaf_vfs q = (if q = [] then Some leaf_root else None)"
  by (cases q) (simp_all add: leaf_vfs_def mounts_def)

lemma mounted_leaf: "mounted_at leaf_vfs ps 0 leaf_root"
  by (auto simp: mounted_at_def deepest_def mounts_leaf) (simp_all add: leaf_vfs_def)

lemma resolved_single: "part_ok c \<Longrightarrow> c \<noteq> PATH_UP \<Longrightarrow> c \<noteq> PATH_DOT \<Longrightarrow> resolved [] c = [c]"
  by (simp add: resolved_def tokens_part(1) part_ok_def path_step_def)

lemma resolved_leaf: "resolved [] [97] = [[97]]" "resolved [] [108] = [[108]]"
  by (simp_all add: resolved_single part_ok_def PATH_SEPARATOR_def PATH_UP_def PATH_DOT_def)

theorem kopen_finds_witness:
  "kopen leaf_driver leaf_vfs [] (Some [97]) 0 [] [] =
     Some (Some \<lparr>file_refcount = 1, file_flags = 1, file_data = 1\<rparr>, [],
       [(\<lparr>file_refcount = 0, file_flags = 1, file_data = 1\<rparr>, 0)])"
  using kopen_finds [of leaf_vfs "[]" "[97]" 0 leaf_root leaf_driver 0 "[]"] mounted_leaf
  by (simp add: resolved_leaf finddir_fs_def leaf_driver_def leaf_root_def FS_DIRECTORY_def is_link_def
      FS_SYMLINK_def open_node_def)

text \<open>
  C26: Let the way to depth \<open>i\<close> of a path end at a link whose driver gives a target that ends with a zero
  in its buffer (\<open>link_at\<close>). Unless \<open>O_NOFOLLOW\<close> forbids it, the target, taken relative to the directory of the
  link, is opened first, without flags, and the parts behind the link are looked up from there: when
  neither of these ways has a further link, what the link leads to is opened, and then what the whole
  path leads to, which is the same file when the link is the last part. A link to itself is reported as
  missing. With \<open>O_NOFOLLOW\<close> a link one part before the last is refused, and the last part itself is
  still followed unless \<open>O_PATH\<close> is set as well: then the link itself is opened.
\<close>

theorem kopen_follows_link:
  assumes "link_at d s (resolved cwd nm) i target"
  shows "(flags AND O_NOFOLLOW = 0 \<or> i \<noteq> length (resolved cwd nm) - 1 \<and> \<not> (flags AND O_PATH \<noteq> 0 \<and> i = length (resolved cwd nm)) \<longrightarrow>
      (mounted_at s (link_path (resolved cwd nm) i target) k n \<longrightarrow>
        clear_way d n (drop k (link_path (resolved cwd nm) i target)) \<longrightarrow>
        descend d n (drop k (link_path (resolved cwd nm) i target)) = Some f \<longrightarrow>
        clear_way d (open_node f) (drop i (resolved cwd nm)) \<longrightarrow>
        kopen d s cwd (Some nm) flags [] log =
          (case descend d (open_node f) (drop i (resolved cwd nm)) of
             None \<Rightarrow> Some (None, [], log @ [(f, 0)])
           | Some g \<Rightarrow> Some (Some (open_node g), [], log @ [(f, 0), (g, flags)]))) \<and>
      (link_path (resolved cwd nm) i target = resolved cwd nm \<longrightarrow>
        kopen d s cwd (Some nm) flags [] log = Some (None, [], log))) \<and>
    (flags AND O_NOFOLLOW \<noteq> 0 \<and> i = length (resolved cwd nm) - 1 \<longrightarrow>
      kopen d s cwd (Some nm) flags [] log = Some (None, [], log)) \<and>
    (flags AND O_NOFOLLOW \<noteq> 0 \<and> flags AND O_PATH \<noteq> 0 \<and> i = length (resolved cwd nm) \<longrightarrow>
      (\<exists>l. is_link l \<and> kopen d s cwd (Some nm) flags [] log = Some (Some (open_node l), [], log @ [(l, flags)])))"
proof -
  let ?cs = "resolved cwd nm" and ?follow = "\<lambda>nm rel. kopen_recur 7 d s nm 0 rel"
  have "?cs \<noteq> []" using assms by (simp add: link_at_def)
  then have ne: "length ?cs \<noteq> length ?cs - Suc 0" by (cases ?cs) simp_all
  have max: "MAX_SYMLINK_DEPTH = Suc 7" by (simp add: MAX_SYMLINK_DEPTH_def)
  have again: "kopen d s cwd (Some nm) flags [] log = kopen_path d s (Some ?follow) nm flags cwd [] log"
    unfolding kopen_def option.case max kopen_recur.simps ..
  have target: "kopen d s cwd (Some nm) flags [] log =
      (case descend d (open_node f) (drop i ?cs) of
         None \<Rightarrow> Some (None, [], log @ [(f, 0)])
       | Some g \<Rightarrow> Some (Some (open_node g), [], log @ [(f, 0), (g, flags)]))"
    if "follows flags (length ?cs) i" and "mounted_at s (link_path ?cs i target) k n" "clear_way d n (drop k (link_path ?cs i target))"
      and f: "descend d n (drop k (link_path ?cs i target)) = Some f" and clear: "clear_way d (open_node f) (drop i ?cs)"
  proof -
    from that have "?follow target (rel_path ?cs i) [] log = Some (Some (open_node f), [], log @ [(f, 0)])"
      using kopen_recur_clear [of s "rel_path ?cs i" target k n d 7 0 log]
      by (simp add: resolved_link [OF resolved_ok] walk_end_def open_last_def)
    then show ?thesis
      using kopen_path_link [OF assms that(1), of ?follow log "Some (open_node f)" "log @ [(f, 0)]"] clear
      by (auto simp: again walk_end_def open_last_def split: option.splits)
  qed
  have loop: "kopen d s cwd (Some nm) flags [] log = Some (None, [], log)"
    if "follows flags (length ?cs) i" "link_path ?cs i target = ?cs"
    using kopen_link_loop [OF assms that(2) resolved_ok refl that(1)] by (simp add: kopen_def)
  note left = kopen_path_unfollowed [OF assms, of flags ?follow log, folded again]
  show ?thesis using target loop left ne unfolding follows_def by (auto split: if_splits)
qed

theorem kopen_follows_link_witness:
  "kopen leaf_driver leaf_vfs [] (Some [108]) 0 [] [] =
     Some (Some \<lparr>file_refcount = 2, file_flags = 1, file_data = 1\<rparr>, [],
       [(\<lparr>file_refcount = 0, file_flags = 1, file_data = 1\<rparr>, 0), (\<lparr>file_refcount = 1, file_flags = 1, file_data = 1\<rparr>, 0)])"
proof -
  let ?f = "\<lparr>file_refcount = 0, file_flags = 1, file_data = 1\<rparr> :: nat file_node"
  have l: "link_at leaf_driver leaf_vfs (resolved [] [108]) 1 [97]"
    unfolding link_at_def resolved_leaf
    by (intro conjI exI [of _ "0::nat"] exI [of _ leaf_root] exI [of _ "\<lparr>file_refcount = 0, file_flags = 0x20, file_data = 2\<rparr> :: nat file_node"]
        exI [of _ "1::int"] exI [of _ "[97, 0] :: u8 list"] mounted_leaf)
      (simp_all add: finddir_fs_def leaf_driver_def leaf_root_def FS_DIRECTORY_def is_link_def FS_SYMLINK_def readlink_fs_def)
  have p: "link_path [[108]] (Suc 0) [97] = [[97]]"
    using resolved_leaf(1) by (auto simp: resolved_leaf link_path_def resolved_def split: if_splits)
  have way: "clear_way leaf_driver leaf_root [[97]]" "descend leaf_driver leaf_root [[97]] = Some ?f"
    "clear_way leaf_driver (open_node ?f) []"
    by (simp_all add: finddir_fs_def leaf_driver_def leaf_root_def FS_DIRECTORY_def is_link_def FS_SYMLINK_def open_node_def)
  show ?thesis
    using kopen_follows_link [OF l, of 0 0 leaf_root ?f "[]"] way mounted_leaf
    by (simp add: p resolved_leaf del: clear_way.simps descend.simps) (simp add: open_node_def)
qed

text \<open>
  Removing a name, and making a link, act on the directory that holds the last part of the resolved
  path: the code opens that directory, and hands the last part to its driver.
\<close>

theorem unlink_asks_parent:
  assumes "plain (tokens cwd)" and "resolved cwd nm \<noteq> []"
    and "mounted_at s (butlast (resolved cwd nm)) k n" and "clear_way d n (drop k (butlast (resolved cwd nm)))"
    and "descend d n (drop k (butlast (resolved cwd nm))) = Some p"
  shows "unlink_fs d s cwd nm [] log =
      Some (case drv_unlink d (file_data p) of
          Some f \<Rightarrow> (f (last (resolved cwd nm)), Some (open_node p, last (resolved cwd nm)), [], log @ [(p, 0)])
        | None \<Rightarrow> (-1, None, [], log @ [(p, 0)])) \<and>
    symlink_fs d s cwd target nm [] log =
      Some (case drv_symlink d (file_data p) of
          Some f \<Rightarrow> (f target (last (resolved cwd nm)), Some (open_node p, last (resolved cwd nm)), [], log @ [(p, 0)])
        | None \<Rightarrow> (-1, None, [], log @ [(p, 0)]))"
proof -
  let ?cs = "resolved cwd nm"
  note parent = resolved_parent [OF assms(1,2)]
  have "kopen d s cwd (Some (parent_path (canonicalize_path cwd nm))) 0 [] log =
      Some (Some (open_node p), [], log @ [(p, 0)])"
    using kopen_recur_clear [of s cwd "parent_path (canonicalize_path cwd nm)" k n d MAX_SYMLINK_DEPTH 0 log]
      assms(3-5) by (simp add: parent kopen_def walk_end_def open_last_def)
  moreover have "f_path (canonicalize_path cwd nm) = last ?cs"
    using f_path_last [OF resolved_ok assms(2)] by (simp add: canonical_eq)
  moreover have "file_data (open_node p) = file_data p" by (simp add: open_node_def)
  ultimately show ?thesis by (simp add: unlink_fs_def symlink_fs_def Let_def split: option.splits)
qed

theorem unlink_asks_parent_witness:
  "unlink_fs leaf_driver leaf_vfs [] [97] [] [] = Some (0, Some (leaf_root, [97]), [], [(leaf_root, 0)])"
proof -
  have "clear_way leaf_driver leaf_root []" "descend leaf_driver leaf_root [] = Some leaf_root" "open_node leaf_root = leaf_root"
    by (simp_all add: leaf_root_def is_link_def FS_SYMLINK_def open_node_def)
  then show ?thesis
    using unlink_asks_parent [of "[]" "[97]" leaf_vfs 0 leaf_root leaf_driver leaf_root "[]"] mounted_leaf
    by (auto simp: resolved_leaf plain_def leaf_driver_def)
qed

end
