(* ===== verification/Oid.thy ===== *)
theory Oid
  imports OS6_Prelude "HOL-Library.List_Lexorder"
begin

text \<open>
  Object identifiers, kernel/src/crypto/encoding/oid.c. An \<open>oid_t\<close> is the list of its bytes, or a null
  pointer; its length is the length of the list.
\<close>

unbundle bit_operations_syntax

type_synonym oid = "u8 list option"

definition OID_MORE_FLAG :: u8 where
  "OID_MORE_FLAG = 0x80"

definition OID_VALUE_MASK :: u8 where
  "OID_VALUE_MASK = 0x7F"

definition more :: "u8 \<Rightarrow> bool" where
  "more b \<longleftrightarrow> b AND OID_MORE_FLAG \<noteq> 0"

subsection \<open>Operations\<close>

text \<open>The loop of \<open>oid_check\<close>: the count is tested after every byte.\<close>

fun check_count :: "nat \<Rightarrow> u8 list \<Rightarrow> bool" where
  "check_count n [] = True"
| "check_count n (b # bs) =
     (let n = (if more b then n else n + 1) in if n > 128 then False else check_count n bs)"

definition oid_check :: "oid \<Rightarrow> int" where
  "oid_check oid =
     (case oid of
        None \<Rightarrow> -1
      | Some data \<Rightarrow>
          if data = [] then -1
          else if \<not> check_count 2 (tl data) then -1
          else if more (last data) then -1
          else 0)"

fun oid_comp :: "u8 list \<Rightarrow> u8 list \<Rightarrow> int" where
  "oid_comp (a # as) (b # bs) = (if a < b then -1 else if a > b then 1 else oid_comp as bs)"
| "oid_comp [] [] = 0"
| "oid_comp [] (b # bs) = -1"
| "oid_comp (a # as) [] = 1"

definition oid_count_subidentifiers :: "u8 list \<Rightarrow> nat" where
  "oid_count_subidentifiers data =
     (if data = [] then 0 else 2 + length (filter (\<lambda>b. \<not> more b) (tl data)))"

text \<open>The bytes of \<open>tmp\<close> after the first one.\<close>

function more_septets :: "u32 \<Rightarrow> u8 list" where
  "more_septets v =
     (if v = 0 then [] else (OID_MORE_FLAG OR (ucast v AND OID_VALUE_MASK)) # more_septets (drop_bit 7 v))"
  by pat_completeness auto
termination
proof (relation "measure unat")
  fix v :: u32
  assume "v \<noteq> 0"
  then have "unat v div 128 < unat v" by (simp add: unat_gt_0)
  then show "(drop_bit 7 v, v) \<in> measure unat" by (simp add: drop_bit_eq_div unat_div)
qed simp

declare more_septets.simps [simp del]

text \<open>The position is a \<open>size_t\<close>: its sums wrap around, in the test as in the index of a write.\<close>

definition oid_encode_subidentifier :: "u8 list \<Rightarrow> u64 \<Rightarrow> u32 \<Rightarrow> (int \<times> u8 list \<times> u64) option" where
  "oid_encode_subidentifier data pos v =
     (let tmp = (ucast v AND OID_VALUE_MASK) # more_septets (drop_bit 7 v); n = length tmp
      in if pos + of_nat n > of_nat (length data) then Some (-1, data, pos)
         else do {
           data \<leftarrow> for_each (\<lambda>i data. upd data (unat (pos + of_nat i)) (tmp ! (n - i - 1))) [0..<n] data;
           Some (0, data, pos + of_nat n)
         })"

text \<open>The loop of the decoder over the bytes from \<open>pos\<close> on: the value, and the number of bytes read.\<close>

fun decode_bytes :: "u32 \<Rightarrow> nat \<Rightarrow> u8 list \<Rightarrow> u32 \<times> nat option" where
  "decode_bytes v k [] = (v, None)"
| "decode_bytes v k (b # bs) =
     (let v = push_bit 7 v OR ucast (b AND OID_VALUE_MASK)
      in if more b then decode_bytes v (k + 1) bs else (v, Some (k + 1)))"

definition oid_decode_subidentifier :: "u8 list \<Rightarrow> nat \<Rightarrow> int \<times> u32 \<times> nat" where
  "oid_decode_subidentifier data pos =
     (if pos \<ge> length data then (-1, 0, pos)
      else
        (case decode_bytes 0 0 (drop pos data) of
           (v, Some k) \<Rightarrow> (0, v, pos + k)
         | (v, None) \<Rightarrow> (-1, v, pos)))"

subsection \<open>Encoding and decoding\<close>

lemma bit_OID_VALUE_MASK: "bit OID_VALUE_MASK n \<longleftrightarrow> n < 7"
proof -
  have m: "OID_VALUE_MASK = mask 7" by (simp add: OID_VALUE_MASK_def mask_eq_exp_minus_1)
  show ?thesis unfolding m by (auto simp: bit_mask_iff)
qed

lemma OID_MORE_FLAG_exp: "OID_MORE_FLAG = 2 ^ 7"
  by (simp add: OID_MORE_FLAG_def)

lemma bit_OID_MORE_FLAG: "bit OID_MORE_FLAG n \<longleftrightarrow> n = 7"
  unfolding OID_MORE_FLAG_exp bit_exp_iff by auto

lemma more_iff: "more b \<longleftrightarrow> bit b 7"
  unfolding more_def OID_MORE_FLAG_exp by (simp only: and_exp_eq_0_iff_not_bit) simp

lemmas septet_bits = bit_simps bit_OID_VALUE_MASK bit_OID_MORE_FLAG

lemma septet_more [simp]:
  "more (OID_MORE_FLAG OR b)" "\<not> more (b AND OID_VALUE_MASK)"
  by (simp_all add: more_iff septet_bits)

lemma septet_join:
  assumes w: "\<And>n. bit (w :: u8) n \<longleftrightarrow> n < 7 \<and> bit v n"
  shows "push_bit 7 (drop_bit 7 v) OR ucast w = (v :: u32)"
proof (rule bit_word_eqI)
  fix n
  assume "n < LENGTH(32)"
  then show "bit (push_bit 7 (drop_bit 7 v) OR ucast w) n \<longleftrightarrow> bit v n"
    by (cases "n < 7") (auto simp: bit_or_iff bit_push_bit_iff bit_drop_bit_eq bit_ucast_iff w)
qed

lemma septet_value:
  "push_bit 7 (drop_bit 7 v) OR ucast ((OID_MORE_FLAG OR (ucast v AND OID_VALUE_MASK)) AND OID_VALUE_MASK) = (v :: u32)"
  "push_bit 7 (drop_bit 7 v) OR ucast (ucast v AND OID_VALUE_MASK) = (v :: u32)"
  by (rule septet_join; auto simp: septet_bits)+

lemma decode_more: "decode_bytes 0 k (rev (more_septets v) @ bs) = decode_bytes v (k + length (more_septets v)) bs"
proof (induction v arbitrary: bs rule: more_septets.induct)
  case (1 v)
  show ?case
  proof (cases "v = 0")
    case False
    then show ?thesis
      using 1 [OF False, of "(OID_MORE_FLAG OR (ucast v AND OID_VALUE_MASK)) # bs"]
      by (simp add: more_septets.simps [of v] septet_value)
  qed (simp add: more_septets.simps)
qed

lemma more_septets_length: "unat v < 2 ^ (7 * n) \<Longrightarrow> length (more_septets v) \<le> n"
proof (induction n arbitrary: v)
  case 0
  then show ?case by (simp add: more_septets.simps unat_eq_0)
next
  case (Suc n)
  have "unat (drop_bit 7 v) < 2 ^ (7 * n)"
    using Suc.prems by (simp add: drop_bit_eq_div unat_div power_add less_mult_imp_div_less mult.commute)
  then show ?case using Suc.IH by (simp add: more_septets.simps [of v])
qed

lemma for_each_cong:
  "(\<And>i s. i \<in> set xs \<Longrightarrow> f i s = g i s) \<Longrightarrow> for_each f xs s = for_each g xs s"
  by (induction xs arbitrary: s) (auto intro: Option.bind_cong)

lemma unat_add_of_nat: "unat (p :: u64) + n < 2 ^ 64 \<Longrightarrow> unat (p + of_nat n) = unat p + n"
  by (simp add: unat_word_ariths unsigned_of_nat take_bit_nat_eq_self)

lemma for_each_splice:
  "unat pos + length xs \<le> length data \<Longrightarrow> length data < 2 ^ 64 \<Longrightarrow>
   for_each (\<lambda>i d. upd d (unat ((pos :: u64) + of_nat i)) (xs ! i)) [0..<length xs] data =
     Some (take (unat pos) data @ xs @ drop (unat pos + length xs) data)"
proof (induction xs rule: rev_induct)
  case (snoc x xs)
  have "for_each (\<lambda>i d. upd d (unat (pos + of_nat i)) ((xs @ [x]) ! i)) [0..<length xs] data =
      for_each (\<lambda>i d. upd d (unat (pos + of_nat i)) (xs ! i)) [0..<length xs] data"
    by (rule for_each_cong) (simp add: nth_append)
  moreover have "drop (unat pos + length xs) data = data ! (unat pos + length xs) # drop (unat pos + length xs + 1) data"
    using snoc.prems by (simp add: Cons_nth_drop_Suc)
  moreover have "unat (pos + of_nat (length xs)) = unat pos + length xs"
    using snoc.prems by (intro unat_add_of_nat) simp
  ultimately show ?case using snoc by (simp add: for_each_append list_update_append upd_def)
qed simp

definition subidentifier :: "u32 \<Rightarrow> u8 list" where
  "subidentifier v = rev ((ucast v AND OID_VALUE_MASK) # more_septets (drop_bit 7 v))"

lemma encode_eq:
  "oid_encode_subidentifier data pos v =
     (let n = length (subidentifier v)
      in if pos + of_nat n > of_nat (length data) then Some (-1, data, pos)
         else do {
           data \<leftarrow> for_each (\<lambda>i data. upd data (unat (pos + of_nat i)) (subidentifier v ! i)) [0..<n] data;
           Some (0, data, pos + of_nat n)
         })"
proof -
  have "for_each (\<lambda>i data. upd data (unat (pos + of_nat i)) (tmp ! (length tmp - i - 1))) [0..<length tmp] data =
      for_each (\<lambda>i data. upd data (unat (pos + of_nat i)) (rev tmp ! i)) [0..<length tmp] data" for tmp
    by (rule for_each_cong) (simp add: rev_nth)
  then show ?thesis by (simp only: oid_encode_subidentifier_def subidentifier_def Let_def length_rev)
qed

lemma decode_subidentifier: "decode_bytes 0 k (subidentifier v @ bs) = (v, Some (k + length (subidentifier v)))"
  using decode_more [of k "drop_bit 7 v" "(ucast v AND OID_VALUE_MASK) # bs"]
  by (simp add: subidentifier_def septet_value)

text \<open>Five bytes are room enough for \<open>tmp\<close>.\<close>

lemma subidentifier_length: "0 < length (subidentifier v)" "length (subidentifier v) \<le> 5"
proof -
  have "unat (drop_bit 7 v) < 2 ^ (7 * 4)"
  proof -
    have "unat v < 2 ^ 32" using unsigned_less [of v] by simp
    then show ?thesis by (simp add: drop_bit_eq_div unat_div less_mult_imp_div_less)
  qed
  then show "length (subidentifier v) \<le> 5"
    using more_septets_length [of "drop_bit 7 v" 4] by (simp add: subidentifier_def)
qed (simp add: subidentifier_def)

subsection \<open>Well-formed identifiers\<close>

lemma check_count_iff: "n \<le> 128 \<Longrightarrow> check_count n bs \<longleftrightarrow> n + length (filter (\<lambda>b. \<not> more b) bs) \<le> 128"
  by (induction n bs rule: check_count.induct) (auto simp: Let_def)

lemma decode_bytes_count: "decode_bytes v k bs = (w, Some k') \<Longrightarrow> k < k' \<and> k' \<le> k + length bs"
  by (induction v k bs rule: decode_bytes.induct) (fastforce simp: Let_def split: if_splits)+

text \<open>Decoding one subidentifier after the other.\<close>

function subidentifiers :: "u8 list \<Rightarrow> u32 list option" where
  "subidentifiers bs =
     (if bs = [] then Some []
      else
        (case oid_decode_subidentifier bs 0 of
           (e, v, k) \<Rightarrow> if e = 0 then map_option (Cons v) (subidentifiers (drop k bs)) else None))"
  by pat_completeness auto

termination
  by (relation "measure length")
    (auto simp: oid_decode_subidentifier_def split: option.splits prod.splits if_splits dest!: decode_bytes_count)

declare subidentifiers.simps [simp del]

lemma decode_bytes_first:
  "bs \<noteq> [] \<Longrightarrow> \<not> more (last bs) \<Longrightarrow> \<exists>w j. decode_bytes v k bs = (w, Some (k + j)) \<and> 0 < j \<and> j \<le> length bs \<and>
     length (filter (\<lambda>b. \<not> more b) (take j bs)) = 1"
proof (induction v k bs rule: decode_bytes.induct)
  case (2 v k b bs)
  show ?case
  proof (cases "more b")
    case True
    then have "bs \<noteq> []" "\<not> more (last bs)" using 2(3) by (auto split: if_splits)
    then obtain w j where "decode_bytes (push_bit 7 v OR ucast (b AND OID_VALUE_MASK)) (k + 1) bs = (w, Some (k + 1 + j))"
      "0 < j" "j \<le> length bs" "length (filter (\<lambda>b. \<not> more b) (take j bs)) = 1"
      using 2(1) [OF refl True] by blast
    then show ?thesis using True by (intro exI [of _ w] exI [of _ "Suc j"]) simp
  next
    case False
    then show ?thesis by (intro exI [of _ _] exI [of _ "1::nat"]) simp
  qed
qed simp

lemma subidentifiers_total:
  "bs = [] \<or> \<not> more (last bs) \<Longrightarrow> \<exists>vs. subidentifiers bs = Some vs \<and> length vs = length (filter (\<lambda>b. \<not> more b) bs)"
proof (induction bs rule: measure_induct_rule [where f = length])
  case (less bs)
  show ?case
  proof (cases "bs = []")
    case False
    then obtain w j where j: "decode_bytes 0 0 bs = (w, Some j)" "0 < j" "j \<le> length bs"
      "length (filter (\<lambda>b. \<not> more b) (take j bs)) = 1"
      using less.prems decode_bytes_first [of bs 0 0] by auto
    have "drop j bs = [] \<or> \<not> more (last (drop j bs))"
      using less.prems False by (metis last_drop leI drop_all)
    then obtain vs where vs: "subidentifiers (drop j bs) = Some vs" "length vs = length (filter (\<lambda>b. \<not> more b) (drop j bs))"
      using less.IH [of "drop j bs"] j False by auto
    have "length (filter (\<lambda>b. \<not> more b) bs) =
        length (filter (\<lambda>b. \<not> more b) (take j bs)) + length (filter (\<lambda>b. \<not> more b) (drop j bs))"
      by (metis append_take_drop_id filter_append length_append)
    then show ?thesis using j vs False
      by (simp add: subidentifiers.simps [of bs] oid_decode_subidentifier_def)
  qed (simp add: subidentifiers.simps)
qed

subsection \<open>Properties\<close>

text \<open>
  C31: In an identifier of less than \<open>2 ^ 63\<close> bytes, a subidentifier takes one to five bytes. When these fit behind the position, they are written
  there and no other byte changes, and reading from the same position gives the value back and ends
  where writing ended. When they do not fit, nothing is written and the result is -1 - unless the
  position is so large that the sum of the test wraps around to a length the identifier has: then
  the test passes, and the code writes out of the bounds of the identifier.
\<close>

theorem oid_subidentifier_roundtrip:
  assumes "length data < 2 ^ 63"
  shows "\<exists>n\<in>{1..5}.
     (unat pos + n \<le> length data \<longrightarrow>
       (\<exists>data'. oid_encode_subidentifier data pos v = Some (0, data', pos + of_nat n) \<and> unat (pos + of_nat n) = unat pos + n \<and>
          length data' = length data \<and> take (unat pos) data' = take (unat pos) data \<and>
          drop (unat pos + n) data' = drop (unat pos + n) data \<and>
          oid_decode_subidentifier data' (unat pos) = (0, v, unat pos + n))) \<and>
     (length data < unat pos + n \<and> unat pos + n < 2 ^ 64 \<longrightarrow>
       oid_encode_subidentifier data pos v = Some (-1, data, pos)) \<and>
     (2 ^ 64 \<le> unat pos + n \<longrightarrow>
       oid_encode_subidentifier data pos v =
         (if length data < unat pos + n - 2 ^ 64 then Some (-1, data, pos) else None))"
proof -
  let ?s = "subidentifier v"
  let ?n = "length ?s"
  have n: "?n \<in> {1..5}" "0 < ?n" "?n \<le> 5" using subidentifier_length [of v] by (simp_all add: Suc_le_eq)
  have len: "unat (of_nat (length data) :: u64) = length data"
    using assms by (simp add: unsigned_of_nat take_bit_nat_eq_self)
  have fits: "oid_encode_subidentifier data pos v = Some (0, take (unat pos) data @ ?s @ drop (unat pos + ?n) data, pos + of_nat ?n)"
    and sum: "unat (pos + of_nat ?n) = unat pos + ?n" if "unat pos + ?n \<le> length data"
  proof -
    show u: "unat (pos + of_nat ?n) = unat pos + ?n" using that assms by (intro unat_add_of_nat) simp
    show "oid_encode_subidentifier data pos v = Some (0, take (unat pos) data @ ?s @ drop (unat pos + ?n) data, pos + of_nat ?n)"
      using that assms for_each_splice [of pos ?s data] by (simp add: encode_eq Let_def word_less_nat_alt u len)
  qed
  have full: "oid_encode_subidentifier data pos v = Some (-1, data, pos)" if "length data < unat pos + ?n" "unat pos + ?n < 2 ^ 64"
    using that unat_add_of_nat [of pos ?n] by (simp add: encode_eq Let_def word_less_nat_alt len)
  have wraps: "oid_encode_subidentifier data pos v = (if length data < unat pos + ?n - 2 ^ 64 then Some (-1, data, pos) else None)"
    if "2 ^ 64 \<le> unat pos + ?n"
  proof -
    have "unat (pos + of_nat ?n) = (unat pos + ?n) mod 2 ^ 64"
      by (simp add: unat_word_ariths unsigned_of_nat take_bit_eq_mod mod_simps)
    also have "\<dots> = (unat pos + ?n - 2 ^ 64) mod 2 ^ 64" using that by (simp add: le_mod_geq)
    also have "\<dots> = unat pos + ?n - 2 ^ 64"
    proof (rule mod_less)
      have "unat pos < 2 ^ 64" using unsigned_less [of pos] by simp
      then show "unat pos + ?n - 2 ^ 64 < 2 ^ 64" using n(3) by simp
    qed
    finally have u: "unat (pos + of_nat ?n) = unat pos + ?n - 2 ^ 64" .
    have "\<not> unat pos < length data" using that n(3) assms by simp
    moreover have "[0..<?n] = 0 # [1..<?n]" using n(2) by (simp add: upt_conv_Cons)
    ultimately show ?thesis by (simp add: encode_eq Let_def word_less_nat_alt u len upd_def)
  qed
  show ?thesis
  proof (intro bexI [of _ ?n] conjI impI)
    assume fit: "unat pos + ?n \<le> length data"
    then have "unat pos < length data" using n(2) by linarith
    then have "oid_decode_subidentifier (take (unat pos) data @ ?s @ drop (unat pos + ?n) data) (unat pos) = (0, v, unat pos + ?n)"
      using fit by (simp add: oid_decode_subidentifier_def decode_subidentifier)
    then show "\<exists>data'. oid_encode_subidentifier data pos v = Some (0, data', pos + of_nat ?n) \<and> unat (pos + of_nat ?n) = unat pos + ?n \<and>
        length data' = length data \<and> take (unat pos) data' = take (unat pos) data \<and>
        drop (unat pos + ?n) data' = drop (unat pos + ?n) data \<and>
        oid_decode_subidentifier data' (unat pos) = (0, v, unat pos + ?n)"
      using fits [OF fit] sum [OF fit] fit by simp
  qed (use full wraps n(1) in blast)+
qed

theorem oid_subidentifier_roundtrip_witness:
  "\<exists>n\<in>{1..5}. \<exists>data'. oid_encode_subidentifier (replicate 8 0) 1 300 = Some (0, data', 1 + of_nat n) \<and>
     oid_decode_subidentifier data' 1 = (0, 300, 1 + n)"
  using oid_subidentifier_roundtrip [of "replicate 8 0" 1 300] by fastforce

text \<open>The first write at the last position there is, into an identifier of two bytes.\<close>

lemma oid_encode_wraps: "oid_encode_subidentifier [42, 0] 0xFFFFFFFFFFFFFFFF 5 = None"
  by (simp add: oid_encode_subidentifier_def more_septets.simps upd_def)

text \<open>
  \<open>oid_check\<close> accepts exactly the identifiers that have bytes, end with a subidentifier and count at
  most 128 of them; decoding then succeeds to the end and gives the number of subidentifiers that
  \<open>oid_count_subidentifiers\<close> counts. \<open>oid_comp\<close> is the lexicographic order of the bytes.
\<close>

theorem oid_check_comp_correct:
  "(oid_check oid = 0 \<longleftrightarrow> (\<exists>data. oid = Some data \<and> data \<noteq> [] \<and> \<not> more (last data) \<and> oid_count_subidentifiers data \<le> 128)) \<and>
   (oid_check (Some data) = 0 \<longrightarrow>
     (\<exists>vs. subidentifiers (tl data) = Some vs \<and> length vs + 2 = oid_count_subidentifiers data)) \<and>
   oid_comp data data' = (if data < data' then -1 else if data' < data then 1 else 0)"
proof (intro conjI impI)
  have chk: "oid_check (Some data) = 0 \<longleftrightarrow>
      data \<noteq> [] \<and> \<not> more (last data) \<and> oid_count_subidentifiers data \<le> 128" for data
    using check_count_iff [of 2 "tl data"] by (auto simp: oid_check_def oid_count_subidentifiers_def)
  then show "oid_check oid = 0 \<longleftrightarrow>
      (\<exists>data. oid = Some data \<and> data \<noteq> [] \<and> \<not> more (last data) \<and> oid_count_subidentifiers data \<le> 128)"
    by (cases oid) (auto simp: oid_check_def)
  assume "oid_check (Some data) = 0"
  then have "data \<noteq> []" "tl data = [] \<or> \<not> more (last (tl data))"
    using chk [of data] by (cases data; auto)+
  then show "\<exists>vs. subidentifiers (tl data) = Some vs \<and> length vs + 2 = oid_count_subidentifiers data"
    using subidentifiers_total [of "tl data"] by (auto simp: oid_count_subidentifiers_def)
next
  show "oid_comp data data' = (if data < data' then -1 else if data' < data then 1 else 0)"
    by (induction data data' rule: oid_comp.induct) auto
qed

theorem oid_check_comp_correct_witness:
  "\<exists>vs. subidentifiers [3, 4] = Some vs \<and> length vs + 2 = oid_count_subidentifiers [42, 3, 4]"
  using oid_check_comp_correct [of None "[42, 3, 4]" "[]"]
  by (simp add: oid_check_def more_def OID_MORE_FLAG_def)

end
