(* ===== verification/Asn1.thy ===== *)
theory Asn1
  imports Oid Mpint_Props
begin

text \<open>
  The reader and the writer of ASN.1 objects, kernel/src/crypto/encoding/asn1.c.

  A pointer to read from is the memory from there on; reading beyond it has no result. A function
  gives \<open>Some None\<close> where the code returns its error, without what it has filled in by then. Lengths
  and positions are machine words. To write, a pointer is a memory and a position in it.
\<close>

type_synonym i32 = "32 word"
type_synonym 'a outcome = "'a option option"

definition then_ok :: "'a outcome \<Rightarrow> ('a \<Rightarrow> 'b outcome) \<Rightarrow> 'b outcome" where
  "then_ok r f = (case r of None \<Rightarrow> None | Some None \<Rightarrow> Some None | Some (Some x) \<Rightarrow> f x)"

lemma then_ok_simps [simp]:
  "then_ok None f = None" "then_ok (Some None) f = Some None" "then_ok (Some (Some x)) f = f x"
  by (simp_all add: then_ok_def)

record asn1_tag =
  constructed :: int
  obj_class :: u32
  obj_type :: u32
  tag_length :: u64
  tag_value :: "u8 list option"
  total_length :: u64

definition ASN1_TAG_NUMBER_MASK :: u8 where
  "ASN1_TAG_NUMBER_MASK = 0x1F"

definition ASN1_ENCODING_CONSTRUCTED :: u8 where
  "ASN1_ENCODING_CONSTRUCTED = 0x20"

definition ASN1_CLASS_MASK :: u8 where
  "ASN1_CLASS_MASK = 0xC0"

definition ASN1_CLASS_UNIVERSAL :: u32 where
  "ASN1_CLASS_UNIVERSAL = 0"

subsection \<open>Reading\<close>

text \<open>
  The number of a long tag. The loop starts at the first byte of the object, and stops by its test of
  the position.
\<close>

function read_long_type :: "u8 list \<Rightarrow> u64 \<Rightarrow> u32 \<Rightarrow> u64 \<Rightarrow> (u32 \<times> u64) outcome" where
  "read_long_type data len t i =
     (if i > 5 then Some None
      else if len - i = 0 then Some None
      else do {
        b \<leftarrow> idx data (unat i);
        let t = push_bit 7 t OR ucast (b AND 0x7F);
        if b AND 0x80 = 0 then Some (Some (t, i + 1)) else read_long_type data len t (i + 1)
      })"
  by pat_completeness auto
termination
proof (relation "measure (\<lambda>(_, _, _, i). 6 - unat i)")
  fix i :: u64
  assume "\<not> i > 5"
  then have "unat i \<le> 5" by (simp add: word_less_nat_alt not_less)
  moreover from this have "unat (i + 1) = unat i + 1" by (simp add: unat_word_ariths)
  ultimately show "((data, len, t', i + 1), (data, len, t, i)) \<in> measure (\<lambda>(_, _, _, i). 6 - unat i)"
    for data :: "u8 list" and len :: u64 and t t' :: u32 by simp
qed simp

declare read_long_type.simps [simp del]

definition asn1_read_obj_type :: "u8 list \<Rightarrow> u64 \<Rightarrow> u64 \<Rightarrow> (u32 \<times> u64) outcome" where
  "asn1_read_obj_type data len i = do {
     b \<leftarrow> idx data (unat i);
     if b AND ASN1_TAG_NUMBER_MASK \<le> 30 then Some (Some (ucast (b AND ASN1_TAG_NUMBER_MASK), i + 1))
     else read_long_type data len 0 i
   }"

text \<open>The loop over the bytes of a long length.\<close>

fun read_length_bytes :: "u8 list \<Rightarrow> nat \<Rightarrow> u64 \<Rightarrow> u64 \<Rightarrow> (u64 \<times> u64) outcome" where
  "read_length_bytes data 0 l i = Some (Some (l, i))"
| "read_length_bytes data (Suc n) l i = do {
     b \<leftarrow> idx data (unat i);
     read_length_bytes data n (push_bit 8 l OR ucast b) (i + 1)
   }"

definition asn1_read_tag_length :: "u8 list \<Rightarrow> u64 \<Rightarrow> u64 \<Rightarrow> (u64 \<times> u64) outcome" where
  "asn1_read_tag_length data len i = do {
     b \<leftarrow> idx data (unat i);
     if b = 0xFF then Some None
     else if b < 128 then Some (Some (ucast b, i + 1))
     else
       (let n = ucast (b AND 0x7F) :: u64
        in if n > 8 then Some None
           else if len - i < n then Some None
           else read_length_bytes data (unat n) 0 (i + 1))
   }"

definition asn1_read_tag :: "u8 list option \<Rightarrow> u64 \<Rightarrow> asn1_tag outcome" where
  "asn1_read_tag data len =
     (case data of
        None \<Rightarrow> Some None
      | Some data \<Rightarrow>
          if len = 0 then Some None
          else do {
            b \<leftarrow> idx data 0;
            then_ok (asn1_read_obj_type data len 0) (\<lambda>(ty, i).
              if len - i = 0 then Some None
              else then_ok (asn1_read_tag_length data len i) (\<lambda>(l, i).
                if len - i < l then Some None
                else Some (Some
                  \<lparr>constructed = (if b AND ASN1_ENCODING_CONSTRUCTED \<noteq> 0 then 1 else 0),
                   obj_class = ucast (b AND ASN1_CLASS_MASK), obj_type = ty, tag_length = l,
                   tag_value = Some (drop (unat i) data), total_length = i + l\<rparr>)))
          })"

definition asn1_check_tag :: "asn1_tag \<Rightarrow> int \<Rightarrow> u32 \<Rightarrow> u32 \<Rightarrow> int" where
  "asn1_check_tag tag con cls ty =
     (if constructed tag \<noteq> con then -1 else if obj_class tag \<noteq> cls then -1
      else if obj_type tag \<noteq> ty then -1 else 0)"

definition asn1_read_of :: "int \<Rightarrow> u32 \<Rightarrow> u8 list option \<Rightarrow> u64 \<Rightarrow> asn1_tag outcome" where
  "asn1_read_of con ty data len =
     then_ok (asn1_read_tag data len) (\<lambda>tag.
       if asn1_check_tag tag con ASN1_CLASS_UNIVERSAL ty \<noteq> 0 then Some None else Some (Some tag))"

definition asn1_read_booelan :: "u8 list option \<Rightarrow> u64 \<Rightarrow> (asn1_tag \<times> int) outcome" where
  "asn1_read_booelan data len =
     then_ok (asn1_read_of 0 1 data len) (\<lambda>tag.
       if tag_length tag \<noteq> 1 then Some None
       else do {
         v \<leftarrow> tag_value tag;
         b \<leftarrow> idx v 0;
         Some (Some (tag, if b \<noteq> 0 then 1 else 0))
       })"

fun int_bytes :: "u8 list \<Rightarrow> i32 \<Rightarrow> i32" where
  "int_bytes [] v = v"
| "int_bytes (b # bs) v = int_bytes bs (push_bit 8 v OR ucast b)"

definition asn1_read_int32 :: "u8 list option \<Rightarrow> u64 \<Rightarrow> (asn1_tag \<times> i32) outcome" where
  "asn1_read_int32 data len =
     then_ok (asn1_read_of 0 2 data len) (\<lambda>tag.
       if tag_length tag < 1 \<or> tag_length tag > 4 then Some None
       else do {
         v \<leftarrow> tag_value tag;
         b \<leftarrow> idx v 0;
         if length v < unat (tag_length tag) then None
         else Some (Some (tag, int_bytes (take (unat (tag_length tag)) v) (if b AND 0x80 \<noteq> 0 then -1 else 0)))
       })"

text \<open>The error of the import, and the memory of the integers.\<close>

definition asn1_read_mpint :: "u8 list option \<Rightarrow> u64 \<Rightarrow> nat \<Rightarrow> mstore \<Rightarrow> (asn1_tag \<times> int \<times> mstore) outcome" where
  "asn1_read_mpint data len r st =
     then_ok (asn1_read_of 0 2 data len) (\<lambda>tag. do {
       v \<leftarrow> tag_value tag;
       negative \<leftarrow> (if tag_length tag > 0 then do { b \<leftarrow> idx v 0; Some (b AND 0x80 \<noteq> 0) } else Some False);
       if negative then Some (Some (tag, 0, st))
       else if length v < unat (tag_length tag) then None
       else do {
         (e, st) \<leftarrow> mpint_import r (take (unat (tag_length tag)) v) MPINT_FORMAT_BIG_ENDIAN st;
         Some (Some (tag, e, st))
       }
     })"

definition asn1_read_bit_string :: "u8 list option \<Rightarrow> u64 \<Rightarrow> asn1_tag outcome" where
  "asn1_read_bit_string = asn1_read_of 0 3"

definition asn1_read_octet_string :: "u8 list option \<Rightarrow> u64 \<Rightarrow> asn1_tag outcome" where
  "asn1_read_octet_string = asn1_read_of 1 4"

definition asn1_read_oid :: "u8 list option \<Rightarrow> u64 \<Rightarrow> asn1_tag outcome" where
  "asn1_read_oid = asn1_read_of 1 6"

definition asn1_read_sequence :: "u8 list option \<Rightarrow> u64 \<Rightarrow> asn1_tag outcome" where
  "asn1_read_sequence = asn1_read_of 1 16"

definition asn1_read_set :: "u8 list option \<Rightarrow> u64 \<Rightarrow> asn1_tag outcome" where
  "asn1_read_set = asn1_read_of 1 17"

definition asn1_check_oid :: "asn1_tag \<Rightarrow> u8 list \<Rightarrow> int option" where
  "asn1_check_oid tag oid =
     (if asn1_check_tag tag 0 ASN1_CLASS_UNIVERSAL 6 \<noteq> 0 then Some (-1)
      else do {
        v \<leftarrow> tag_value tag;
        if length v < unat (tag_length tag) then None
        else Some (if oid_comp (take (unat (tag_length tag)) v) oid \<noteq> 0 then -1 else 0)
      })"

subsection \<open>Writing\<close>

definition obj_tag_size :: "u32 \<Rightarrow> nat" where
  "obj_tag_size t =
     (if t < 31 then 0 else if t < 128 then 1 else if t < 16384 then 2 else if t < 2097152 then 3
      else if t < 268435456 then 4 else 5)"

definition length_field_size :: "u64 \<Rightarrow> nat" where
  "length_field_size l =
     (if l < 128 then 0 else if l < 256 then 1 else if l < 65536 then 2 else if l < 16777216 then 3 else 4)"

definition write_at :: "u8 list \<Rightarrow> nat \<Rightarrow> u8 list \<Rightarrow> u8 list option" where
  "write_at mem p bs =
     (if p + length bs \<le> length mem then Some (take p mem @ bs @ drop (p + length bs) mem) else None)"

definition long_type_byte :: "u32 \<Rightarrow> nat \<Rightarrow> nat \<Rightarrow> nat \<Rightarrow> u8 list \<Rightarrow> u8 list option" where
  "long_type_byte t ots p i mem = do {
     mem \<leftarrow> upd mem (p + (ots - 1)) (ucast (push_bit (i * 7) t) AND 0x7F);
     if i \<noteq> 0 then do { b \<leftarrow> idx mem (p + (ots - i)); upd mem (p + (ots - i)) (b OR 0x80) } else Some mem
   }"

definition write_header :: "asn1_tag \<Rightarrow> nat \<Rightarrow> nat \<Rightarrow> nat \<Rightarrow> u8 list \<Rightarrow> u8 list option" where
  "write_header tag ots lfs p mem = do {
     let b = ucast (obj_class tag);
     let b = (if constructed tag \<noteq> 0 then b OR ASN1_ENCODING_CONSTRUCTED else b);
     mem \<leftarrow> upd mem p b;
     mem \<leftarrow> (if ots = 0 then upd mem p (b OR ucast (obj_type tag))
       else do {
         mem \<leftarrow> upd mem p (b OR ASN1_TAG_NUMBER_MASK);
         for_each (long_type_byte (obj_type tag) ots p) [0..<ots] mem
       });
     if lfs = 0 then upd mem (p + 1 + ots) (ucast (tag_length tag) AND 0x7F)
     else do {
       mem \<leftarrow> upd mem (p + 1 + ots) (0x80 OR (of_nat lfs AND 0x7F));
       for_each (\<lambda>i mem. upd mem (p + (i + ots + lfs + i)) (ucast (drop_bit (i * 8) (tag_length tag)))) [0..<lfs] mem
     }
   }"

text \<open>
  The result is the tag with its total length, the memory and what is stored to \<open>written\<close>. A position
  before the start of the memory is none.
\<close>

definition asn1_write_tag :: "asn1_tag \<Rightarrow> bool \<Rightarrow> (u8 list \<times> nat) option \<Rightarrow>
    (asn1_tag \<times> u8 list option \<times> u64) option" where
  "asn1_write_tag tag reverse data =
     (let ots = obj_tag_size (obj_type tag); lfs = length_field_size (tag_length tag);
          head = ots + lfs + 2; n = unat (tag_length tag);
          tag' = tag\<lparr>total_length := tag_length tag + of_nat head\<rparr>;
          written = of_nat head + (if tag_value tag = None then 0 else tag_length tag)
      in case data of
           None \<Rightarrow> Some (tag', None, written)
         | Some (mem, p) \<Rightarrow> do {
             (mem, p) \<leftarrow>
               (case tag_value tag of
                  Some v \<Rightarrow>
                    if n > 0 then
                      (if length v < n \<or> reverse \<and> p < n then None
                       else do {
                         mem \<leftarrow> write_at mem (if reverse then p - n else p + head) (take n v);
                         Some (mem, if reverse then p - n else p)
                       })
                    else Some (mem, p)
                | None \<Rightarrow> Some (mem, p));
             if reverse \<and> p < head then None
             else do {
               mem \<leftarrow> write_header tag ots lfs (if reverse then p - head else p) mem;
               Some (tag', Some mem, written)
             }
           })"

text \<open>The number of bytes of an integer: the loop looks at the nine upper bits left.\<close>

fun int32_size :: "i32 \<Rightarrow> nat \<Rightarrow> nat" where
  "int32_size v (Suc (Suc n)) =
     (let msb = signed_drop_bit (Suc (Suc n) * 8 - 9) v AND 0x1FF
      in if msb \<noteq> 0 \<and> msb \<noteq> 0x1FF then Suc (Suc n) else int32_size v (Suc n))"
| "int32_size v n = n"

definition asn1_write_int32 :: "i32 \<Rightarrow> bool \<Rightarrow> (u8 list \<times> nat) option \<Rightarrow> (u8 list option \<times> nat) option" where
  "asn1_write_int32 v reverse data =
     (let n = int32_size v 4
      in case data of
           None \<Rightarrow> Some (None, n + 2)
         | Some (mem, p) \<Rightarrow>
             if reverse \<and> p < n + 2 then None
             else do {
               let p = (if reverse then p - (n + 2) else p);
               mem \<leftarrow> upd mem p 2;
               mem \<leftarrow> upd mem (p + 1) (of_nat n);
               mem \<leftarrow> for_each (\<lambda>i mem. upd mem (p + (1 + n - i)) (ucast (push_bit (i * 8) v))) [0..<n] mem;
               Some (Some mem, n + 2)
             })"

text \<open>The error of the export is the result \<open>Some None\<close>; the value of the tag is where it goes.\<close>

definition asn1_write_mpint :: "mpint \<Rightarrow> bool \<Rightarrow> (u8 list \<times> nat) option \<Rightarrow> (u8 list option \<times> u64) outcome" where
  "asn1_write_mpint a reverse data =
     (let n = mpint_get_bit_length a div 8 + 1;
          tag = \<lparr>constructed = 0, obj_class = ASN1_CLASS_UNIVERSAL, obj_type = 2, tag_length = of_nat n,
            tag_value = None, total_length = 0\<rparr>
      in case data of
           None \<Rightarrow> do {
             (tag, _, _) \<leftarrow> asn1_write_tag tag False None;
             Some (Some (None, total_length tag))
           }
         | Some (mem, p) \<Rightarrow>
             if reverse \<and> p < n then None
             else
               (let p = (if reverse then p - n else p)
                in case mpint_export a n MPINT_FORMAT_BIG_ENDIAN of
                     None \<Rightarrow> Some None
                   | Some bs \<Rightarrow> do {
                       mem \<leftarrow> write_at mem p bs;
                       (tag, mem, _) \<leftarrow> asn1_write_tag (tag\<lparr>tag_value := Some (drop p mem)\<rparr>) False (Some (mem, p));
                       Some (Some (mem, total_length tag))
                     }))"

subsection \<open>Bytes of an object\<close>

lemma bit_ASN1_masks:
  "bit ASN1_TAG_NUMBER_MASK k \<longleftrightarrow> k < 5" "bit ASN1_ENCODING_CONSTRUCTED k \<longleftrightarrow> k = 5"
  "bit ASN1_CLASS_MASK k \<longleftrightarrow> k = 6 \<or> k = 7"
proof -
  have m: "ASN1_TAG_NUMBER_MASK = mask 5" by (simp add: ASN1_TAG_NUMBER_MASK_def mask_eq_exp_minus_1)
  have e: "ASN1_ENCODING_CONSTRUCTED = 2 ^ 5" by (simp add: ASN1_ENCODING_CONSTRUCTED_def)
  have c: "ASN1_CLASS_MASK = 2 ^ 6 OR 2 ^ 7" by (simp add: ASN1_CLASS_MASK_def)
  show "bit ASN1_TAG_NUMBER_MASK k \<longleftrightarrow> k < 5" unfolding m bit_mask_iff by auto
  show "bit ASN1_ENCODING_CONSTRUCTED k \<longleftrightarrow> k = 5" unfolding e bit_exp_iff by auto
  show "bit ASN1_CLASS_MASK k \<longleftrightarrow> k = 6 \<or> k = 7" unfolding c bit_or_iff bit_exp_iff by auto
qed

definition first_byte :: "u8 \<Rightarrow> bool \<Rightarrow> u8 \<Rightarrow> u8" where
  "first_byte cls con ty =
     (cls AND ASN1_CLASS_MASK) OR (if con then ASN1_ENCODING_CONSTRUCTED else 0) OR (ty AND ASN1_TAG_NUMBER_MASK)"

lemma first_byte_fields:
  "first_byte cls con ty AND ASN1_CLASS_MASK = cls AND ASN1_CLASS_MASK"
  "first_byte cls con ty AND ASN1_TAG_NUMBER_MASK = ty AND ASN1_TAG_NUMBER_MASK"
  "first_byte cls con ty AND ASN1_ENCODING_CONSTRUCTED \<noteq> 0 \<longleftrightarrow> con"
proof -
  show "first_byte cls con ty AND ASN1_CLASS_MASK = cls AND ASN1_CLASS_MASK"
    by (rule bit_word_eqI) (auto simp: first_byte_def bit_and_iff bit_or_iff bit_ASN1_masks)
  show "first_byte cls con ty AND ASN1_TAG_NUMBER_MASK = ty AND ASN1_TAG_NUMBER_MASK"
    by (rule bit_word_eqI) (auto simp: first_byte_def bit_and_iff bit_or_iff bit_ASN1_masks)
  have e: "ASN1_ENCODING_CONSTRUCTED = 2 ^ 5" by (simp add: ASN1_ENCODING_CONSTRUCTED_def)
  have "bit (first_byte cls con ty) 5 \<longleftrightarrow> con"
    by (auto simp: first_byte_def bit_and_iff bit_or_iff bit_ASN1_masks)
  then show "first_byte cls con ty AND ASN1_ENCODING_CONSTRUCTED \<noteq> 0 \<longleftrightarrow> con"
    unfolding e by (simp only: and_exp_eq_0_iff_not_bit) simp
qed

lemma small_type: "ty \<le> 30 \<Longrightarrow> ty AND ASN1_TAG_NUMBER_MASK = (ty :: u8)"
proof -
  assume "ty \<le> 30"
  then have "unat ty < 2 ^ 5" by (simp add: word_le_nat_alt)
  then have "take_bit 5 (unat ty) = unat ty" by (simp add: take_bit_nat_eq_self)
  then have "take_bit 5 ty = ty" by (simp add: word_unat_eq_iff unsigned_take_bit_eq)
  moreover have "ASN1_TAG_NUMBER_MASK = mask 5" by (simp add: ASN1_TAG_NUMBER_MASK_def mask_eq_exp_minus_1)
  ultimately show ?thesis by (simp add: take_bit_eq_mask)
qed

primrec be_bytes :: "nat \<Rightarrow> nat \<Rightarrow> u8 list" where
  "be_bytes 0 m = []"
| "be_bytes (Suc n) m = of_nat (m div 256 ^ n) # be_bytes n m"

lemma length_be_bytes [simp]: "length (be_bytes n m) = n"
  by (induction n) simp_all

lemma next_byte: "push_bit 8 (of_nat (m div 256)) OR ucast (of_nat m :: u8) = (of_nat m :: u64)"
proof (rule bit_word_eqI)
  fix k
  assume "k < LENGTH(64)"
  have "m div 256 = drop_bit 8 m" by (simp add: drop_bit_eq_div)
  then show "bit (push_bit 8 (of_nat (m div 256)) OR ucast (of_nat m :: u8) :: u64) k \<longleftrightarrow> bit (of_nat m :: u64) k"
    using \<open>k < LENGTH(64)\<close> by (cases "k < 8") (auto simp: bit_simps)
qed

lemma read_be_bytes:
  assumes "data = pre @ be_bytes n m @ rest" and "length data < 2 ^ 64"
  shows "read_length_bytes data n (of_nat (m div 256 ^ n)) (of_nat (length pre)) =
    Some (Some (of_nat m, of_nat (length pre + n)))"
  using assms
proof (induction n arbitrary: pre)
  case (Suc n)
  let ?b = "of_nat (m div 256 ^ n) :: u8"
  have "idx data (unat (of_nat (length pre) :: u64)) = Some ?b"
    using Suc.prems by (simp add: unat_of_nat_64)
  moreover have "read_length_bytes data n (of_nat (m div 256 ^ n)) (of_nat (length (pre @ [?b]))) =
      Some (Some (of_nat m, of_nat (length (pre @ [?b]) + n)))"
    using Suc.prems by (intro Suc.IH) simp_all
  moreover have "m div 256 ^ Suc n = m div 256 ^ n div 256" by (simp only: power_Suc2 div_mult2_eq)
  ultimately show ?case by (simp add: next_byte add.commute add.left_commute)
qed simp

text \<open>The distinguished encoding: one length byte, or \<open>n\<close> bytes after their number.\<close>

definition der_length :: "nat \<Rightarrow> nat \<Rightarrow> u8 list" where
  "der_length n l = (if n = 0 then [of_nat l] else (0x80 OR of_nat n) # be_bytes n l)"

definition der_object :: "u8 \<Rightarrow> bool \<Rightarrow> u8 \<Rightarrow> nat \<Rightarrow> u8 list \<Rightarrow> u8 list" where
  "der_object cls con ty n v = first_byte cls con ty # der_length n (length v) @ v"

definition length_fits :: "nat \<Rightarrow> nat \<Rightarrow> bool" where
  "length_fits n l \<longleftrightarrow> n \<le> 8 \<and> l < (if n = 0 then 128 else 256 ^ n)"

lemma long_length_byte:
  assumes "0 < n" "n \<le> 8"
  shows "0x80 OR of_nat n \<noteq> (0xFF :: u8)" "\<not> 0x80 OR of_nat n < (128 :: u8)"
    "(0x80 OR of_nat n) AND 0x7F = (of_nat n :: u8)" "ucast (of_nat n :: u8) = (of_nat n :: u64)"
proof -
  have "n \<in> {1, 2, 3, 4, 5, 6, 7, 8}" using assms by auto
  then show "0x80 OR of_nat n \<noteq> (0xFF :: u8)" "\<not> 0x80 OR of_nat n < (128 :: u8)"
    "(0x80 OR of_nat n) AND 0x7F = (of_nat n :: u8)" "ucast (of_nat n :: u8) = (of_nat n :: u64)"
    by auto
qed

lemma read_der_length:
  assumes data: "data = b # der_length n l @ rest" and fits: "length_fits n l"
    and len: "length data < 2 ^ 64"
  shows "asn1_read_tag_length data (of_nat (length data)) 1 =
    Some (Some (of_nat l, of_nat (length (der_length n l) + 1)))"
proof (cases "n = 0")
  case True
  then have "unat (of_nat l :: u8) = l" using fits by (simp add: length_fits_def unsigned_of_nat take_bit_nat_eq_self)
  then have "(of_nat l :: u8) < 128" "(of_nat l :: u8) \<noteq> 0xFF" "ucast (of_nat l :: u8) = (of_nat l :: u64)"
    using fits True by (auto simp: length_fits_def word_less_nat_alt word_unat_eq_iff unsigned_ucast_eq take_bit_nat_eq_self
      unsigned_of_nat)
  then show ?thesis using True data by (simp add: asn1_read_tag_length_def der_length_def)
next
  case False
  have n: "0 < n" "n \<le> 8" using False fits by (simp_all add: length_fits_def)
  note b = long_length_byte [OF n]
  have "of_nat (length data) - 1 = (of_nat (length data - 1) :: u64)" using data by simp
  moreover have "\<not> of_nat (length data - 1) < (of_nat n :: u64)"
    using data len n by (simp add: word_less_nat_alt unat_of_nat_64 der_length_def del: of_nat_add of_nat_Suc)
  moreover have "\<not> (of_nat n :: u64) > 8" "unat (of_nat n :: u64) = n"
    using n by (simp_all add: word_less_nat_alt unat_of_nat_64)
  moreover have "read_length_bytes data n 0 2 = Some (Some (of_nat l, of_nat (2 + n)))"
    using read_be_bytes [of data "[b, 0x80 OR of_nat n]" n l rest] data len fits False
    by (simp add: der_length_def length_fits_def numeral_2_eq_2)
  ultimately show ?thesis using False data b
    by (simp add: asn1_read_tag_length_def der_length_def Let_def)
qed

lemma of_nat_64_neq_0: "0 < n \<Longrightarrow> n < 2 ^ 64 \<Longrightarrow> (of_nat n :: u64) \<noteq> 0"
  using unat_of_nat_64 [of n] by auto

lemma read_first_type:
  "ty \<le> 30 \<Longrightarrow> asn1_read_obj_type (first_byte cls con ty # rest) len 0 = Some (Some (ucast ty, 1))"
  by (simp add: asn1_read_obj_type_def first_byte_fields small_type)

lemma read_der_object:
  assumes "ty \<le> 30" and "length_fits n (length v)" and data: "data = der_object cls con ty n v @ rest"
    and len: "length data < 2 ^ 64"
  shows "asn1_read_tag (Some data) (of_nat (length data)) =
    Some (Some \<lparr>constructed = (if con then 1 else 0), obj_class = ucast (cls AND ASN1_CLASS_MASK),
      obj_type = ucast ty, tag_length = of_nat (length v), tag_value = Some (v @ rest),
      total_length = of_nat (length (der_object cls con ty n v))\<rparr>)"
proof -
  let ?h = "length (der_length n (length v)) + 1"
  have d: "data = first_byte cls con ty # der_length n (length v) @ v @ rest"
    using data by (simp add: der_object_def)
  have ne: "der_length n (length v) \<noteq> []" by (simp add: der_length_def)
  have h: "?h + length v + length rest = length data" using d by simp
  have nz: "(of_nat (length data) :: u64) \<noteq> 0"
    using len d by (intro of_nat_64_neq_0) auto
  have "(of_nat (length data) - 1 :: u64) = of_nat (length data - 1)" using d by simp
  moreover have "(of_nat (length data - 1) :: u64) \<noteq> 0"
    using len d ne by (intro of_nat_64_neq_0) auto
  ultimately have one: "(of_nat (length data) - 1 :: u64) \<noteq> 0" by simp
  have "(of_nat (length data) - of_nat ?h :: u64) = of_nat (length v + length rest)"
    using h by (metis (no_types, lifting) add.assoc add_diff_cancel_left' of_nat_add)
  moreover have "\<not> (of_nat (length v + length rest) :: u64) < of_nat (length v)"
    using len h by (simp add: word_less_nat_alt unat_of_nat_64 del: of_nat_add)
  ultimately have fits: "\<not> (of_nat (length data) - of_nat ?h :: u64) < of_nat (length v)" by simp
  have val: "drop (unat (of_nat ?h :: u64)) data = v @ rest"
    using d len h by (simp add: unat_of_nat_64 del: of_nat_add of_nat_Suc)
  have total: "(of_nat ?h + of_nat (length v) :: u64) = of_nat (length (der_object cls con ty n v))"
    by (simp add: der_object_def)
  show ?thesis
    using read_der_length [OF d assms(2) len] read_first_type [OF assms(1), of cls con "der_length n (length v) @ v @ rest"]
      nz one fits val total
    by (simp add: asn1_read_tag_def d [symmetric] del: of_nat_add of_nat_Suc)
      (simp add: d first_byte_fields)
qed

subsection \<open>Reading within bounds\<close>

lemma read_long_type_in:
  "length data < 2 ^ 64 \<Longrightarrow> unat i \<le> length data \<Longrightarrow>
   \<exists>r. read_long_type data (of_nat (length data)) t i = Some r \<and>
     (\<forall>t' i'. r = Some (t', i') \<longrightarrow> 0 < unat i' \<and> unat i' \<le> length data)"
proof (induction data "of_nat (length data) :: u64" t i rule: read_long_type.induct)
  case (1 data t i)
  show ?case
  proof (cases "i > 5 \<or> of_nat (length data) - i = 0")
    case True
    then show ?thesis by (auto simp: read_long_type.simps [of data _ t i])
  next
    case False
    then have "of_nat (length data) \<noteq> i" by auto
    moreover have "of_nat (unat i) = i" by simp
    ultimately have "unat i \<noteq> length data" by metis
    then have i: "unat i < length data" using 1(3) by simp
    then have "unat (i + 1) = unat i + 1" using 1(2) by (simp add: unat_word_ariths)
    then show ?thesis using False i 1
      by (auto simp: read_long_type.simps [of data _ t i] Let_def)
  qed
qed

lemma read_obj_type_in:
  assumes "length data < 2 ^ 64" and "data \<noteq> []"
  shows "\<exists>r. asn1_read_obj_type data (of_nat (length data)) 0 = Some r \<and>
     (\<forall>t' i'. r = Some (t', i') \<longrightarrow> 0 < unat i' \<and> unat i' \<le> length data)"
  using read_long_type_in [OF assms(1), of 0 0] assms(2)
  by (cases data) (auto simp: asn1_read_obj_type_def)

lemma read_length_bytes_in:
  "length data < 2 ^ 64 \<Longrightarrow> unat i + n \<le> length data \<Longrightarrow>
   \<exists>l. read_length_bytes data n l0 i = Some (Some (l, i + of_nat n))"
proof (induction n arbitrary: l0 i)
  case (Suc n)
  then have "unat (i + 1) = unat i + 1" "unat i < length data" by (simp_all add: unat_word_ariths)
  then show ?case using Suc.IH [of "i + 1"] Suc.prems by (simp add: add.assoc)
qed simp

lemma read_length_bytes_out:
  "length data < 2 ^ 64 \<Longrightarrow> unat i \<le> length data \<Longrightarrow> length data < unat i + n \<Longrightarrow>
   read_length_bytes data n l0 i = None"
proof (induction n arbitrary: l0 i)
  case (Suc n)
  show ?case
  proof (cases "unat i = length data")
    case False
    then have "unat (i + 1) = unat i + 1" using Suc.prems by (simp add: unat_word_ariths)
    then show ?thesis using Suc False by simp
  qed (simp add: idx_def)
qed simp

text \<open>A long length whose bytes would end one byte behind the object.\<close>

definition overreads :: "u8 list \<Rightarrow> nat \<Rightarrow> bool" where
  "overreads data k \<longleftrightarrow> 128 \<le> data ! k \<and> unat (data ! k AND 0x7F) \<le> 8 \<and>
     unat (data ! k AND 0x7F) = length data - k"

lemma unat_minus_of_nat: "length data < 2 ^ 64 \<Longrightarrow> unat i \<le> length data \<Longrightarrow>
    unat (of_nat (length data) - i :: u64) = length data - unat i"
  by (simp add: unat_sub_if' unat_of_nat_64)

lemma read_tag_length_in:
  assumes len: "length data < 2 ^ 64" and i: "unat i < length data"
  shows "\<exists>r. asn1_read_tag_length data (of_nat (length data)) i = (if overreads data (unat i) then None else Some r) \<and>
    (\<forall>l i'. r = Some (l, i') \<longrightarrow> unat i < unat i' \<and> unat i' \<le> length data)"
proof -
  let ?b = "data ! unat i"
  let ?n = "unat (?b AND 0x7F)"
  have i1: "unat (i + 1) = unat i + 1" using len i by (simp add: unat_word_ariths)
  have small: "overreads data (unat i) \<Longrightarrow> \<not> ?b < 128 \<and> ?b \<noteq> 0xFF"
    by (auto simp: overreads_def)
  have "?n < 256" using unsigned_less [of "?b AND 0x7F"] by simp
  then have w: "unat (ucast (?b AND 0x7F) :: u64) = ?n"
    by (simp add: unsigned_ucast_eq take_bit_nat_eq_self)
  have big: "(ucast (?b AND 0x7F) :: u64) > 8 \<longleftrightarrow> \<not> ?n \<le> 8"
    by (simp add: word_less_nat_alt w not_le)
  have room: "of_nat (length data) - i < (ucast (?b AND 0x7F) :: u64) \<longleftrightarrow> length data - unat i < ?n"
    using unat_minus_of_nat [OF len, of i] i by (simp only: word_less_nat_alt w)
  have cases: "asn1_read_tag_length data (of_nat (length data)) i =
     (if ?b = 0xFF then Some None else if ?b < 128 then Some (Some (ucast ?b, i + 1))
      else if \<not> ?n \<le> 8 then Some None else if length data - unat i < ?n then Some None
      else read_length_bytes data ?n 0 (i + 1))"
    using i by (simp add: asn1_read_tag_length_def Let_def big room w)
  show ?thesis
  proof (cases "?b = 0xFF \<or> ?b < 128 \<or> \<not> ?n \<le> 8 \<or> length data - unat i < ?n")
    case True
    then show ?thesis using small i i1 unfolding cases by (auto simp: overreads_def)
  next
    case False
    show ?thesis
    proof (cases "?n = length data - unat i")
      case True
      then have "read_length_bytes data ?n 0 (i + 1) = None"
        using i i1 len by (intro read_length_bytes_out) simp_all
      then show ?thesis using True False unfolding cases by (auto simp: overreads_def)
    next
      case n: False
      then have fit: "unat (i + 1) + ?n \<le> length data" using False i i1 by auto
      obtain l where l: "read_length_bytes data ?n 0 (i + 1) = Some (Some (l, i + 1 + of_nat ?n))"
        using read_length_bytes_in [OF len fit, of 0] by blast
      have "unat (i + 1 + of_nat ?n) = unat i + 1 + ?n"
        using fit i1 len by (simp add: unat_word_ariths unat_of_nat_64 w)
      then show ?thesis using False n l i unfolding cases by (auto simp: overreads_def)
    qed
  qed
qed

lemma read_tag_in:
  assumes len: "length data < 2 ^ 64" and ne: "data \<noteq> []"
  shows "(asn1_read_tag (Some data) (of_nat (length data)) = None \<longleftrightarrow>
      (\<exists>ty i. asn1_read_obj_type data (of_nat (length data)) 0 = Some (Some (ty, i)) \<and> unat i < length data \<and>
         overreads data (unat i))) \<and>
    (\<forall>tag. asn1_read_tag (Some data) (of_nat (length data)) = Some (Some tag) \<longrightarrow>
      (\<exists>k. k + unat (tag_length tag) = unat (total_length tag) \<and> unat (total_length tag) \<le> length data \<and>
         0 < unat (total_length tag) \<and> tag_value tag = Some (drop k data)))"
proof -
  obtain b where d: "idx data 0 = Some b" using ne by (cases data) auto
  have nz: "(of_nat (length data) :: u64) \<noteq> 0" using len ne by (intro of_nat_64_neq_0) auto
  obtain r where r: "asn1_read_obj_type data (of_nat (length data)) 0 = Some r"
    "\<forall>ty i. r = Some (ty, i) \<longrightarrow> 0 < unat i \<and> unat i \<le> length data"
    using read_obj_type_in [OF len ne] by blast
  show ?thesis
  proof (cases r)
    case (Some ti)
    obtain ty i where ti: "ti = (ty, i)" by (cases ti)
    have i: "0 < unat i" "unat i \<le> length data" using r(2) Some ti by auto
    have none_left: "of_nat (length data) - i = 0 \<longleftrightarrow> unat i = length data"
      using unat_minus_of_nat [OF len i(2)] i by (auto simp: unat_eq_0 [symmetric] simp del: unat_eq_0)
    show ?thesis
    proof (cases "unat i = length data")
      case True
      then show ?thesis using none_left nz r(1) Some ti d by (simp add: asn1_read_tag_def)
    next
      case False
      then have lt: "unat i < length data" using i by simp
      obtain q where q: "asn1_read_tag_length data (of_nat (length data)) i = (if overreads data (unat i) then None else Some q)"
        "\<forall>l i'. q = Some (l, i') \<longrightarrow> unat i < unat i' \<and> unat i' \<le> length data"
        using read_tag_length_in [OF len lt] by blast
      have fields: "k + unat l = unat (i' + l) \<and> unat (i' + l) \<le> length data"
        if "unat i' \<le> length data" "\<not> of_nat (length data) - i' < l" "k = unat i'" for i' l :: u64 and k
      proof -
        have "unat l \<le> length data - unat i'"
          using that(2) unat_minus_of_nat [OF len that(1)] by (simp add: word_less_nat_alt)
        then show ?thesis using len that by (simp add: unat_word_ariths)
      qed
      have run: "asn1_read_tag (Some data) (of_nat (length data)) =
          then_ok (asn1_read_tag_length data (of_nat (length data)) i) (\<lambda>(l, i').
            if of_nat (length data) - i' < l then Some None
            else Some (Some
              \<lparr>constructed = (if b AND ASN1_ENCODING_CONSTRUCTED \<noteq> 0 then 1 else 0),
               obj_class = ucast (b AND ASN1_CLASS_MASK), obj_type = ty, tag_length = l,
               tag_value = Some (drop (unat i') data), total_length = i' + l\<rparr>))"
        using nz r(1) Some ti none_left False d by (simp add: asn1_read_tag_def del: of_nat_Suc)
      show ?thesis
      proof (cases "overreads data (unat i)")
        case True
        then show ?thesis using q(1) run r(1) Some ti lt by simp
      next
        case ok: False
        show ?thesis
          using q ok run r(1) Some ti lt fields i
          by (cases q) (fastforce split: if_splits)+
      qed
    qed
  qed (use r nz d in \<open>simp add: asn1_read_tag_def\<close>)
qed

subsection \<open>What is written\<close>

lemma split_memory:
  assumes "q + n \<le> length mem"
  obtains A B C where "mem = A @ B @ C" "length A = q" "length B = n"
  using assms by (intro that [of "take q mem" "take n (drop q mem)" "drop n (drop q mem)"])
    (simp_all del: drop_drop)

definition tag_of :: "u8 \<Rightarrow> bool \<Rightarrow> u8 \<Rightarrow> u8 list \<Rightarrow> u64 \<Rightarrow> u8 list \<Rightarrow> asn1_tag" where
  "tag_of cls con ty v n rest =
     \<lparr>constructed = (if con then 1 else 0), obj_class = ucast (cls AND ASN1_CLASS_MASK), obj_type = ucast ty,
      tag_length = of_nat (length v), tag_value = Some (v @ rest), total_length = n\<rparr>"

lemma tag_of_simps [simp]:
  "obj_type (tag_of cls con ty v n rest) = ucast ty" "tag_length (tag_of cls con ty v n rest) = of_nat (length v)"
  "tag_value (tag_of cls con ty v n rest) = Some (v @ rest)"
  "(tag_of cls con ty v n rest)\<lparr>total_length := n'\<rparr> = tag_of cls con ty v n' rest"
  "length_field_size 0 = 0"
  by (simp_all add: tag_of_def length_field_size_def)

lemma write_header_short:
  assumes "ty \<le> 30" "length v < 128"
  shows "write_header (tag_of cls con ty v t rest) 0 0 (length A) (A @ [x, y] @ C) =
    Some (A @ first_byte cls con ty # der_length 0 (length v) @ C)"
proof -
  have l: "ucast (of_nat (length v) :: u64) AND 0x7F = (of_nat (length v) :: u8)"
  proof -
    have "take_bit 7 (of_nat (length v)) = (of_nat (length v) :: u8)"
      using assms(2) by (simp add: take_bit_of_nat take_bit_nat_eq_self)
    moreover have "(0x7F :: u8) = mask 7" by (simp add: mask_eq_exp_minus_1)
    moreover have "ucast (of_nat (length v) :: u64) = (of_nat (length v) :: u8)"
      by (rule bit_word_eqI) (auto simp: bit_simps)
    ultimately show ?thesis by (simp add: take_bit_eq_mask)
  qed
  have b: "(if con then ucast (ucast (cls AND ASN1_CLASS_MASK) :: u32) OR ASN1_ENCODING_CONSTRUCTED
      else ucast (ucast (cls AND ASN1_CLASS_MASK) :: u32)) OR ucast (ucast ty :: u32) = first_byte cls con ty"
  proof -
    have "ucast (ucast x :: u32) = (x :: u8)" for x by (rule bit_word_eqI) (auto simp: bit_simps)
    then show ?thesis by (auto simp: first_byte_def small_type [OF assms(1)] or.assoc)
  qed
  show ?thesis
    using b by (auto simp: write_header_def tag_of_def upd_def l der_length_def list_update_append nth_append
        split: if_splits)
qed

lemma write_short:
  assumes "ty \<le> 30" "length v < 128"
    and room: "if reverse then length v + 2 \<le> p \<and> p \<le> length mem else p + length v + 2 \<le> length mem"
    and q: "q = (if reverse then p - (length v + 2) else p)"
  shows "asn1_write_tag (tag_of cls con ty v t rest) reverse (Some (mem, p)) =
    Some (tag_of cls con ty v (of_nat (length v + 2)) rest,
      Some (take q mem @ der_object cls con ty 0 v @ drop (q + length v + 2) mem), of_nat (length v + 2))"
proof -
  have "q + (length v + 2) \<le> length mem" using room q by (auto split: if_splits)
  then obtain A B C where mem: "mem = A @ B @ C" "length A = q" "length B = length v + 2"
    by (rule split_memory)
  then obtain x y B' where B: "B = [x, y] @ B'" "length B' = length v"
    by (cases B; cases "tl B") auto
  have "(ucast ty :: u32) < 31"
  proof -
    have "unat ty < 256" using unsigned_less [of ty] by simp
    then have "unat (ucast ty :: u32) = unat ty" by (simp add: unsigned_ucast_eq take_bit_nat_eq_self)
    then show ?thesis using assms(1) by (simp add: word_less_nat_alt word_le_nat_alt)
  qed
  then have sizes: "obj_tag_size (ucast ty) = 0" "length_field_size (of_nat (length v)) = 0" "unat (of_nat (length v) :: u64) = length v"
    using assms(2) by (simp_all add: obj_tag_size_def length_field_size_def word_less_nat_alt unat_of_nat_64)
  have put: "write_at mem (q + 2) v = Some (A @ [x, y] @ v @ C)"
    using mem B by (simp add: write_at_def)
  have skip: "v = [] \<Longrightarrow> mem = A @ [x, y] @ v @ C" using mem B by simp
  have head: "write_header (tag_of cls con ty v t rest) 0 0 q (A @ [x, y] @ v @ C) =
      Some (A @ der_object cls con ty 0 v @ C)"
    using write_header_short [OF assms(1,2), of cls con t rest A x y "v @ C"] mem by (simp add: der_object_def)
  have result: "take q mem @ der_object cls con ty 0 v @ drop (q + length v + 2) mem = A @ der_object cls con ty 0 v @ C"
    using mem B by simp
  have pos: "reverse \<Longrightarrow> p - length v = q + 2 \<and> p - length v - 2 = q \<and> \<not> p < length v \<and> \<not> p - length v < 2"
    "\<not> reverse \<Longrightarrow> p = q" using room q by auto
  show ?thesis
    unfolding result using pos put skip head
    by (cases reverse; cases "v = []")
      (simp_all add: asn1_write_tag_def sizes Let_def numeral_2_eq_2 add.commute)
qed

subsection \<open>Integers\<close>

text \<open>The upper bits from bit \<open>k\<close> on are nine equal ones.\<close>

lemma msb_flat:
  assumes "k \<le> 23"
  shows "signed_drop_bit k (v :: i32) AND 0x1FF = 0 \<or> signed_drop_bit k v AND 0x1FF = 0x1FF \<longleftrightarrow>
    (\<forall>j. k \<le> j \<and> j \<le> k + 8 \<longrightarrow> bit v j = bit v k)"
proof -
  let ?w = "signed_drop_bit k v"
  have m: "(0x1FF :: i32) = mask 9" by (simp add: mask_eq_exp_minus_1)
  have w: "bit ?w j \<longleftrightarrow> bit v (k + j)" if "j < 9" for j
    using that assms by (auto simp: bit_signed_drop_bit_iff)
  have b: "bit (?w AND mask 9) j \<longleftrightarrow> j < 9 \<and> bit ?w j" "bit (mask 9 :: i32) j \<longleftrightarrow> j < 9" for j
    by (auto simp: bit_and_iff bit_mask_iff dest: bit_imp_le_length)
  have all: "?w AND mask 9 = u \<longleftrightarrow> (\<forall>j<9. bit ?w j \<longleftrightarrow> bit u j)"
    if "\<And>j. 9 \<le> j \<Longrightarrow> \<not> bit u j" for u :: i32
  proof
    assume "?w AND mask 9 = u"
    then show "\<forall>j<9. bit ?w j \<longleftrightarrow> bit u j" using b by metis
  next
    assume "\<forall>j<9. bit ?w j \<longleftrightarrow> bit u j"
    then show "?w AND mask 9 = u" using that b by (intro bit_word_eqI) (meson not_less)
  qed
  have "?w AND mask 9 = 0 \<longleftrightarrow> (\<forall>j<9. \<not> bit ?w j)" "?w AND mask 9 = mask 9 \<longleftrightarrow> (\<forall>j<9. bit ?w j)"
    using all [of 0] all [of "mask 9"] b(2) by simp_all
  moreover have "(\<forall>j. k \<le> j \<and> j \<le> k + 8 \<longrightarrow> bit v j = bit v k) \<longleftrightarrow> (\<forall>j<9. bit v (k + j) = bit v k)"
  proof
    assume a: "\<forall>j<9. bit v (k + j) = bit v k"
    show "\<forall>j. k \<le> j \<and> j \<le> k + 8 \<longrightarrow> bit v j = bit v k"
    proof (intro allI impI)
      fix j
      assume "k \<le> j \<and> j \<le> k + 8"
      then have "k + (j - k) = j" "j - k < 9" by auto
      then show "bit v j = bit v k" using a by metis
    qed
  next
    assume a: "\<forall>j. k \<le> j \<and> j \<le> k + 8 \<longrightarrow> bit v j = bit v k"
    show "\<forall>j<9. bit v (k + j) = bit v k"
    proof (intro allI impI)
      fix j :: nat
      assume "j < 9"
      then have "k \<le> k + j \<and> k + j \<le> k + 8" by simp
      then show "bit v (k + j) = bit v k" using a by blast
    qed
  qed
  ultimately show ?thesis unfolding m using w by (metis add_0_right zero_less_numeral)
qed

lemma small_int:
  "- 128 \<le> sint (v :: i32) \<and> sint v < 128 \<longleftrightarrow> (\<forall>j. 7 \<le> j \<and> j \<le> 31 \<longrightarrow> bit v j = bit v 7)"
proof -
  have b: "bit (sint v) n \<longleftrightarrow> bit v (min n 31)" for n
    by (simp add: bit_signed_iff min.commute)
  have "- 128 \<le> sint v \<and> sint v < 128 \<longleftrightarrow> signed_take_bit 7 (sint v) = sint v"
    using signed_take_bit_int_eq_self_iff [of 7 "sint v"] by simp
  also have "\<dots> \<longleftrightarrow> (\<forall>n. bit (sint v) (min 7 n) \<longleftrightarrow> bit (sint v) n)"
    by (simp add: bit_eq_iff bit_signed_take_bit_iff)
  also have "\<dots> \<longleftrightarrow> (\<forall>j. 7 \<le> j \<and> j \<le> 31 \<longrightarrow> bit v j = bit v 7)"
  proof
    assume a: "\<forall>n. bit (sint v) (min 7 n) \<longleftrightarrow> bit (sint v) n"
    show "\<forall>j. 7 \<le> j \<and> j \<le> 31 \<longrightarrow> bit v j = bit v 7"
    proof (intro allI impI)
      fix j :: nat
      assume "7 \<le> j \<and> j \<le> 31"
      then show "bit v j = bit v 7" using a [rule_format, of j] by (simp add: b min_absorb1 min_absorb2)
    qed
  next
    assume a: "\<forall>j. 7 \<le> j \<and> j \<le> 31 \<longrightarrow> bit v j = bit v 7"
    show "\<forall>n. bit (sint v) (min 7 n) \<longleftrightarrow> bit (sint v) n"
    proof
      fix n
      show "bit (sint v) (min 7 n) \<longleftrightarrow> bit (sint v) n"
        using a [rule_format, of "min n 31"] by (cases "n \<le> 7") (simp_all add: b min_absorb1 min_absorb2)
    qed
  qed
  finally show ?thesis .
qed

lemma flat_ranges:
  fixes P :: "nat \<Rightarrow> bool"
  shows "(\<forall>j. 7 \<le> j \<and> j \<le> 15 \<longrightarrow> P j = P 7) \<and> (\<forall>j. 15 \<le> j \<and> j \<le> 23 \<longrightarrow> P j = P 15) \<and>
      (\<forall>j. 23 \<le> j \<and> j \<le> 31 \<longrightarrow> P j = P 23) \<longleftrightarrow> (\<forall>j. 7 \<le> j \<and> j \<le> 31 \<longrightarrow> P j = P 7)"
    (is "?a \<and> ?b \<and> ?c \<longleftrightarrow> ?d")
proof
  assume abc: "?a \<and> ?b \<and> ?c"
  then have a: ?a and b: ?b and c: ?c by blast+
  have "P 15 = P 7" by (rule a [rule_format]) simp
  moreover have "P 23 = P 15" by (rule b [rule_format]) simp
  ultimately show ?d
  proof (intro allI impI)
    fix j :: nat
    assume "7 \<le> j \<and> j \<le> 31"
    then consider "7 \<le> j \<and> j \<le> 15" | "15 \<le> j \<and> j \<le> 23" | "23 \<le> j \<and> j \<le> 31" by linarith
    then show "P j = P 7" using a b c \<open>P 15 = P 7\<close> \<open>P 23 = P 15\<close> by cases blast+
  qed
next
  assume d: ?d
  have k: "P j = P 7" if "7 \<le> j" "j \<le> 31" for j using d that by blast
  have "P j = P 15" if "15 \<le> j \<and> j \<le> 23" for j using k [of j] k [of 15] that by simp
  moreover have "P j = P 23" if "23 \<le> j \<and> j \<le> 31" for j using k [of j] k [of 23] that by simp
  moreover have "P j = P 7" if "7 \<le> j \<and> j \<le> 15" for j using k [of j] that by simp
  ultimately show "?a \<and> ?b \<and> ?c" by blast
qed

lemma int32_size_4:
  "int32_size v 4 \<in> {1, 2, 3, 4}"
  "int32_size v 4 = 1 \<longleftrightarrow> - 128 \<le> sint v \<and> sint v < 128"
proof -
  let ?flat = "\<lambda>k. signed_drop_bit k v AND 0x1FF = 0 \<or> signed_drop_bit k v AND 0x1FF = 0x1FF"
  have size: "int32_size v 4 = (if \<not> ?flat 23 then 4 else if \<not> ?flat 15 then 3 else if \<not> ?flat 7 then 2 else 1)"
    by (simp add: numeral_eq_Suc Let_def)
  then show "int32_size v 4 \<in> {1, 2, 3, 4}" by auto
  have "int32_size v 4 = 1 \<longleftrightarrow> ?flat 7 \<and> ?flat 15 \<and> ?flat 23" using size by auto
  also have "\<dots> \<longleftrightarrow> - 128 \<le> sint v \<and> sint v < 128"
    unfolding small_int flat_ranges [symmetric] using msb_flat [of 7 v] msb_flat [of 15 v] msb_flat [of 23 v]
    by (simp del: bit_simps)
  finally show "int32_size v 4 = 1 \<longleftrightarrow> - 128 \<le> sint v \<and> sint v < 128" .
qed

text \<open>What the writer puts for an integer: the lowest byte, after zeros.\<close>

definition int32_value :: "i32 \<Rightarrow> u8 list" where
  "int32_value v = replicate (int32_size v 4 - 1) 0 @ [ucast v]"

lemma shifted_byte: "0 < i \<Longrightarrow> ucast (push_bit (i * 8) (v :: i32)) = (0 :: u8)"
  by (rule bit_word_eqI) (auto simp: bit_simps)

lemma upd_segment: "k < length S \<Longrightarrow> upd (A @ S @ C) (length A + k) b = Some (A @ S[k := b] @ C)"
  by (simp add: upd_def list_update_append)

lemma for_each_upd_down:
  fixes A B C :: "u8 list"
  assumes "n \<in> {1, 2, 3, 4}" "length B = n"
  shows "for_each (\<lambda>i mem. upd mem (length A + (1 + n - i)) (ucast (push_bit (i * 8) (v :: i32)))) [0..<n]
      (A @ (h1 # h2 # B) @ C) = Some (A @ (h1 # h2 # replicate (n - 1) 0 @ [ucast v]) @ C)"
proof -
  have z: "ucast (push_bit 8 v) = (0 :: u8)" "ucast (push_bit 16 v) = (0 :: u8)" "ucast (push_bit 24 v) = (0 :: u8)"
    using shifted_byte [of 1 v] shifted_byte [of 2 v] shifted_byte [of 3 v] by simp_all
  have u: "[0..<4] = [0, 1, 2, 3::nat]"
    by (simp add: upt_rec)
  consider b where "n = 1" "B = [b]" | b c where "n = 2" "B = [b, c]" | b c d where "n = 3" "B = [b, c, d]"
    | b c d e where "n = 4" "B = [b, c, d, e]"
    using assms by (auto simp: length_Suc_conv numeral_eq_Suc)
  then show ?thesis
  proof cases
    case 1
    then show ?thesis by (simp add: upd_def list_update_append)
  next
    case 2
    then show ?thesis by (simp add: z upd_def list_update_append nth_append numeral_2_eq_2)
  next
    case 3
    then show ?thesis by (simp add: z upd_def list_update_append nth_append numeral_3_eq_3)
  next
    case 4
    then show ?thesis by (simp add: u z upd_def list_update_append nth_append) (simp add: numeral_eq_Suc)
  qed
qed

lemma of_nat_int32_size: "(of_nat (int32_size v 4) :: u8) = of_nat (length (int32_value v))"
  using int32_size_4(1) [of v] by (auto simp: int32_value_def)

lemma int32_value_length: "length (int32_value v) \<in> {1, 2, 3, 4}" "length (int32_value v) = int32_size v 4"
  using int32_size_4(1) [of v] by (auto simp: int32_value_def)

lemma write_int32:
  assumes room: "if reverse then length (int32_value v) + 2 \<le> p \<and> p \<le> length mem
      else p + length (int32_value v) + 2 \<le> length mem"
    and q: "q = (if reverse then p - (length (int32_value v) + 2) else p)"
  shows "asn1_write_int32 v reverse (Some (mem, p)) =
    Some (Some (take q mem @ der_object 0 False 2 0 (int32_value v) @ drop (q + length (int32_value v) + 2) mem),
      length (int32_value v) + 2)"
proof -
  let ?n = "int32_size v 4"
  note len = int32_value_length [of v]
  have "q + (?n + 2) \<le> length mem" using room q len by (auto split: if_splits)
  then obtain A B C where mem: "mem = A @ B @ C" "length A = q" "length B = ?n + 2"
    by (rule split_memory)
  then obtain x y B' where B: "B = [x, y] @ B'" "length B' = ?n"
    by (cases B; cases "tl B") auto
  have "first_byte 0 False 2 = 2" by (simp add: first_byte_def small_type)
  then have obj: "der_object 0 False 2 0 (int32_value v) = 2 # of_nat ?n # replicate (?n - 1) 0 @ [ucast v]"
    by (simp add: der_object_def der_length_def of_nat_int32_size [symmetric]) (simp add: int32_value_def)
  have two: "do { mem \<leftarrow> upd mem q 2; upd mem (q + 1) (of_nat ?n) } = Some (A @ (2 # of_nat ?n # B') @ C)"
    using mem B by (simp add: upd_def list_update_append nth_append)
  have loop: "for_each (\<lambda>i mem. upd mem (q + (1 + ?n - i)) (ucast (push_bit (i * 8) v))) [0..<?n]
      (A @ (2 # of_nat ?n # B') @ C) = Some (A @ (2 # of_nat ?n # replicate (?n - 1) 0 @ [ucast v]) @ C)"
    using for_each_upd_down [of ?n B' A v 2 "of_nat ?n" C] int32_size_4(1) [of v] B mem by simp
  have pos: "reverse \<Longrightarrow> \<not> p < ?n + 2 \<and> p - (?n + 2) = q" "\<not> reverse \<Longrightarrow> p = q"
    using room q len by auto
  have result: "take q mem @ der_object 0 False 2 0 (int32_value v) @ drop (q + length (int32_value v) + 2) mem =
      A @ (2 # of_nat ?n # replicate (?n - 1) 0 @ [ucast v]) @ C"
    using mem B len obj by simp
  show ?thesis
    unfolding result asn1_write_int32_def Let_def using pos two loop len
    by (cases reverse) (auto simp: Let_def bind_eq_Some_conv)
qed

lemma write_mpint:
  assumes n: "n = mpint_get_bit_length a div 8 + 1" "n < 128"
    and room: "reverse \<Longrightarrow> n \<le> p" "q + n + 2 \<le> length mem" and q: "q = (if reverse then p - n else p)"
  shows "\<exists>bs. mpint_export a n MPINT_FORMAT_BIG_ENDIAN = Some bs \<and> length bs = n \<and> bytes_nat (rev bs) = mval a \<and>
    bs ! 0 AND 0x80 = 0 \<and>
    asn1_write_mpint a reverse (Some (mem, p)) =
      Some (Some (Some (take q mem @ der_object 0 False 2 0 bs @ drop (q + n + 2) mem), of_nat (n + 2)))"
proof -
  have small: "mval a < 2 ^ (8 * n - 1)"
    using n(1) by (simp add: bit_length_le_iff [symmetric])
  then have "mval a < 256 ^ n"
    using power_increasing [of "8 * n - 1" "8 * n" "2 :: nat"] by (simp add: power_mult less_le_trans)
  then obtain bs where bs: "mpint_export a n MPINT_FORMAT_BIG_ENDIAN = Some bs" "length bs = n" "bytes_nat (rev bs) = mval a"
    using export_ok [of MPINT_FORMAT_BIG_ENDIAN a n]
    by (cases "mpint_export a n MPINT_FORMAT_BIG_ENDIAN") (auto simp: significant_def)
  have "\<not> bit (mval a) (8 * n - 1)"
    using small by (metis bit_take_bit_iff less_irrefl take_bit_nat_eq_self)
  moreover have "(8 * n - 1) div 8 = n - 1" "(8 * n - 1) mod 8 = 7" using n(1) by (cases n; simp)+
  ultimately have "\<not> bit (bs ! 0) 7"
    using bit_bytes_nat [of "rev bs" "8 * n - 1"] bs n(1) by (simp add: rev_nth)
  then have "bs ! 0 AND 2 ^ 7 = 0" by (rule iffD2 [OF and_exp_eq_0_iff_not_bit])
  then have top: "bs ! 0 AND 0x80 = 0" by simp
  let ?mem1 = "take q mem @ bs @ drop (q + n) mem"
  have put: "write_at mem q bs = Some ?mem1" using room bs by (simp add: write_at_def)
  have tag: "\<lparr>constructed = 0, obj_class = ASN1_CLASS_UNIVERSAL, obj_type = 2, tag_length = of_nat n,
      tag_value = Some (drop q ?mem1), total_length = 0\<rparr> = tag_of 0 False 2 bs 0 (drop (q + n) mem)"
    using room bs by (simp add: tag_of_def ASN1_CLASS_UNIVERSAL_def)
  have "asn1_write_tag (tag_of 0 False 2 bs 0 (drop (q + n) mem)) False (Some (?mem1, q)) =
      Some (tag_of 0 False 2 bs (of_nat (length bs + 2)) (drop (q + n) mem),
        Some (take q ?mem1 @ der_object 0 False 2 0 bs @ drop (q + length bs + 2) ?mem1), of_nat (length bs + 2))"
    using room bs n(2) by (intro write_short) simp_all
  moreover have "total_length (tag_of 0 False 2 bs m r) = m" for m r by (simp add: tag_of_def)
  moreover have "take q ?mem1 = take q mem" "drop (q + length bs + 2) ?mem1 = drop (q + n + 2) mem"
    using room bs by simp_all
  ultimately have tagged: "asn1_write_tag (tag_of 0 False 2 bs 0 (drop (q + n) mem)) False (Some (?mem1, q)) =
      Some (tag_of 0 False 2 bs (of_nat (n + 2)) (drop (q + n) mem),
        Some (take q mem @ der_object 0 False 2 0 bs @ drop (q + n + 2) mem), of_nat (n + 2))"
    using bs(2) by (simp only:)
  have fits: "\<not> (reverse \<and> p < n)" using room(1) by auto
  have "asn1_write_mpint a reverse (Some (mem, p)) =
      Some (Some (Some (take q mem @ der_object 0 False 2 0 bs @ drop (q + n + 2) mem), of_nat (n + 2)))"
    unfolding asn1_write_mpint_def Let_def n(1) [symmetric] q [symmetric] option.case prod.case if_not_P [OF fits] bs(1)
      put bind.bind_lunit asn1_tag.simps tag tagged by (simp add: tag_of_def)
  then show ?thesis using bs top by blast
qed

subsection \<open>Properties\<close>

text \<open>
  The reader decodes the distinguished encoding of every object with a tag number of at most 30: the
  class, whether it is constructed, the number, the length, in the short form or in any number of
  bytes up to eight, where the value starts, and how many bytes the object takes.
\<close>

theorem asn1_read_tag_decodes:
  assumes "ty \<le> 30" and "length_fits n (length v)" and "length (der_object cls con ty n v @ rest) < 2 ^ 64"
  shows "asn1_read_tag (Some (der_object cls con ty n v @ rest)) (of_nat (length (der_object cls con ty n v @ rest))) =
    Some (Some \<lparr>constructed = (if con then 1 else 0), obj_class = ucast (cls AND ASN1_CLASS_MASK),
      obj_type = ucast ty, tag_length = of_nat (length v), tag_value = Some (v @ rest),
      total_length = of_nat (length (der_object cls con ty n v))\<rparr>)"
  by (rule read_der_object [OF assms(1,2) refl assms(3)])

theorem asn1_read_tag_decodes_witness:
  "asn1_read_tag (Some (der_object 0 True 16 1 [5, 0] @ [9])) (of_nat (length (der_object 0 True 16 1 [5, 0] @ [9]))) =
    Some (Some \<lparr>constructed = 1, obj_class = ucast (0 AND ASN1_CLASS_MASK), obj_type = ucast (16 :: u8),
      tag_length = 2, tag_value = Some [5, 0, 9], total_length = 5\<rparr>)"
  using asn1_read_tag_decodes [of 16 1 "[5, 0]" 0 True "[9]"]
  by (simp add: length_fits_def) (simp add: der_object_def der_length_def)

text \<open>
  C28: Reading an object never reads outside its memory, except for one byte: exactly when the bytes of a
  long length end one byte behind the memory, which the test of the length accepts. When an object is
  read, its value lies within the memory, and the object takes at least one byte and no more than there
  are.
\<close>

theorem asn1_read_tag_bounds:
  assumes "length data < 2 ^ 64" and "data \<noteq> []"
  shows "(asn1_read_tag (Some data) (of_nat (length data)) = None \<longleftrightarrow>
      (\<exists>ty i. asn1_read_obj_type data (of_nat (length data)) 0 = Some (Some (ty, i)) \<and> unat i < length data \<and>
         overreads data (unat i))) \<and>
    (\<forall>tag. asn1_read_tag (Some data) (of_nat (length data)) = Some (Some tag) \<longrightarrow>
      (\<exists>k. k + unat (tag_length tag) = unat (total_length tag) \<and> unat (total_length tag) \<le> length data \<and>
         0 < unat (total_length tag) \<and> tag_value tag = Some (drop k data)))"
  by (rule read_tag_in [OF assms])

theorem asn1_read_tag_bounds_witness:
  "asn1_read_tag (Some [0x30, 0x81]) (of_nat (length [0x30, 0x81 :: u8])) = None"
proof -
  have "asn1_read_obj_type [0x30, 0x81] 2 0 = Some (Some (16, 1))" "overreads [0x30, 0x81] 1"
    by (simp_all add: asn1_read_obj_type_def ASN1_TAG_NUMBER_MASK_def overreads_def)
  then show ?thesis using asn1_read_tag_bounds [of "[0x30, 0x81]"] by force
qed

text \<open>
  Writing a tag in either direction keeps the memory outside the object, stores its size, and reading
  from the start of the object gives the tag back, for the numbers up to 30 and the lengths below 128 the
  writer encodes in one byte each.
\<close>

theorem asn1_write_tag_roundtrip:
  assumes "ty \<le> 30" and "length v < 128" and "length mem < 2 ^ 64"
    and "if reverse then length v + 2 \<le> p \<and> p \<le> length mem else p + length v + 2 \<le> length mem"
    and "q = (if reverse then p - (length v + 2) else p)"
  shows "\<exists>mem'. asn1_write_tag (tag_of cls con ty v t rest) reverse (Some (mem, p)) =
      Some (tag_of cls con ty v (of_nat (length v + 2)) rest, Some mem', of_nat (length v + 2)) \<and>
    take q mem' = take q mem \<and> drop (q + length v + 2) mem' = drop (q + length v + 2) mem \<and>
    asn1_read_tag (Some (drop q mem')) (of_nat (length mem - q)) =
      Some (Some (tag_of cls con ty v (of_nat (length v + 2)) (drop (q + length v + 2) mem)))"
proof -
  let ?o = "der_object cls con ty 0 v" and ?r = "drop (q + length v + 2) mem"
  have fits: "q + length v + 2 \<le> length mem" using assms(4,5) by (auto split: if_splits)
  have o: "length ?o = length v + 2" by (simp add: der_object_def der_length_def)
  have len: "length (?o @ ?r) = length mem - q" using fits o by simp
  have "asn1_read_tag (Some (?o @ ?r)) (of_nat (length (?o @ ?r))) =
      Some (Some (tag_of cls con ty v (of_nat (length v + 2)) ?r))"
    using read_der_object [OF assms(1) _ refl, of 0 v cls con ?r] assms(2,3) len o
    by (simp add: length_fits_def tag_of_def)
  then show ?thesis
    using write_short [OF assms(1,2,4,5), of cls con t rest] fits o len
    by (intro exI [of _ "take q mem @ ?o @ ?r"]) simp
qed

theorem asn1_write_tag_roundtrip_witness:
  "\<exists>mem'. asn1_write_tag (tag_of 0x40 False 4 [7, 8] 0 []) True (Some ([1, 2, 3, 4, 5, 6], 5)) =
      Some (tag_of 0x40 False 4 [7, 8] 4 [], Some mem', 4) \<and> take 1 mem' = [1] \<and> drop (1 + length [7, 8 :: u8] + 2) mem' = [6] \<and>
    asn1_read_tag (Some (drop 1 mem')) 5 = Some (Some (tag_of 0x40 False 4 [7, 8] 4 [6]))"
  using asn1_write_tag_roundtrip [where ty = 4 and v = "[7, 8]" and mem = "[1, 2, 3, 4, 5, 6]" and reverse = True
    and p = 5 and q = 1 and cls = "0x40" and con = False and t = 0 and rest = "[]"] by simp

text \<open>
  C29: An integer from -128 to 127 is read back as it was written. Any other one is read back as its
  lowest byte: the writer shifts its bytes to the left, and so writes zeros in front of it.
\<close>

theorem asn1_int32_roundtrip:
  assumes "length mem < 2 ^ 64"
    and "if reverse then length (int32_value v) + 2 \<le> p \<and> p \<le> length mem
      else p + length (int32_value v) + 2 \<le> length mem"
    and "q = (if reverse then p - (length (int32_value v) + 2) else p)"
  shows "\<exists>mem' tag. asn1_write_int32 v reverse (Some (mem, p)) = Some (Some mem', length (int32_value v) + 2) \<and>
    asn1_read_int32 (Some (drop q mem')) (of_nat (length mem - q)) =
      Some (Some (tag, if - 128 \<le> sint v \<and> sint v < 128 then v else v AND 0xFF))"
proof -
  let ?v = "int32_value v"
  let ?o = "der_object 0 False 2 0 ?v" and ?r = "drop (q + length ?v + 2) mem"
  have fits: "q + length ?v + 2 \<le> length mem" using assms(2,3) by (auto split: if_splits)
  have o: "length ?o = length ?v + 2" by (simp add: der_object_def der_length_def)
  have len: "length (?o @ ?r) = length mem - q" using fits o by simp
  note n = int32_value_length [of v]
  let ?tag = "tag_of 0 False 2 ?v (of_nat (length ?v + 2)) ?r"
  have tag: "asn1_read_tag (Some (?o @ ?r)) (of_nat (length mem - q)) = Some (Some ?tag)"
    using read_der_object [of 2 0 ?v "?o @ ?r" 0 False ?r] assms(1) len n o
    by (auto simp: length_fits_def tag_of_def)
  have small: "unat (of_nat (length ?v) :: u64) = length ?v" "\<not> (of_nat (length ?v) :: u64) < 1" "\<not> (of_nat (length ?v) :: u64) > 4"
    using n(1) by auto
  have "int_bytes ?v (if (?v @ ?r) ! 0 AND 0x80 \<noteq> 0 then -1 else 0) =
      (if - 128 \<le> sint v \<and> sint v < 128 then v else v AND 0xFF)"
  proof (cases "length ?v = 1")
    case True
    then have v: "?v = [ucast v]" using n(2) by (simp add: int32_value_def)
    have "int32_size v 4 = 1" using True n(2) by simp
    then have flat: "\<forall>j. 7 \<le> j \<and> j \<le> 31 \<longrightarrow> bit v j = bit v 7"
      unfolding int32_size_4(2) small_int .
    have "ucast v AND (2 ^ 7 :: u8) = 0 \<longleftrightarrow> \<not> bit (ucast v :: u8) 7" by (rule and_exp_eq_0_iff_not_bit)
    then have s: "(ucast v AND 0x80 :: u8) \<noteq> 0 \<longleftrightarrow> bit v 7" by (simp add: bit_ucast_iff)
    have "push_bit 8 (if bit v 7 then -1 else 0) OR ucast (ucast v :: u8) = (v :: i32)"
    proof (rule bit_word_eqI)
      fix j
      assume "j < LENGTH(32)"
      then show "bit (push_bit 8 (if bit v 7 then -1 else 0) OR ucast (ucast v :: u8) :: i32) j \<longleftrightarrow> bit v j"
        using flat [rule_format, of j] by (cases "j < 8") (auto simp: bit_simps)
    qed
    then show ?thesis using True n(2) int32_size_4(2) [of v] v s by simp
  next
    case False
    then obtain m where m: "int32_size v 4 - 1 = Suc m" using n by auto
    have zeros: "int_bytes (replicate k 0 @ bs) 0 = int_bytes bs 0" for k bs
      by (induction k) simp_all
    have "ucast (ucast v :: u8) = v AND 0xFF"
    proof -
      have m: "(0xFF :: i32) = mask 8" by (simp add: mask_eq_exp_minus_1)
      show ?thesis unfolding m by (rule bit_word_eqI) (auto simp: bit_and_iff bit_mask_iff bit_ucast_iff)
    qed
    then show ?thesis using False n(2) int32_size_4(2) [of v] m zeros [of "Suc m" "[ucast v]"]
      by (auto simp: int32_value_def)
  qed
  then have "asn1_read_int32 (Some (?o @ ?r)) (of_nat (length mem - q)) =
      Some (Some (?tag, if - 128 \<le> sint v \<and> sint v < 128 then v else v AND 0xFF))"
    using tag n small
    by (auto simp: asn1_read_int32_def asn1_read_of_def asn1_check_tag_def ASN1_CLASS_UNIVERSAL_def tag_of_def idx_def)
  then show ?thesis
    using write_int32 [OF assms(2,3)] fits
    by (intro exI [of _ "take q mem @ ?o @ ?r"] exI [of _ ?tag]) simp
qed

theorem asn1_int32_roundtrip_witness:
  "\<exists>mem' tag. asn1_write_int32 300 False (Some (replicate 8 0, 1)) = Some (Some mem', length (int32_value 300) + 2) \<and>
    asn1_read_int32 (Some (drop 1 mem')) 7 = Some (Some (tag, 44))"
proof -
  have "length (int32_value 300) \<le> 4" using int32_value_length(1) [of 300] by auto
  then show ?thesis using asn1_int32_roundtrip [of "replicate 8 0" False 300 1 1] by simp
qed

text \<open>
  C30: A big integer whose bytes fit a short length is written and read back as its absolute value.
  Written backwards it does not end at the position given, as the other objects do: only the bytes of
  the number are counted, and the object reaches two bytes further.
\<close>

theorem asn1_mpint_roundtrip:
  assumes "n = mpint_get_bit_length a div 8 + 1" "n < 128" and "length mem < 2 ^ 64"
    and "reverse \<Longrightarrow> n \<le> p" "q + n + 2 \<le> length mem" and "q = (if reverse then p - n else p)" and "mem_ok st"
  shows "\<exists>mem' tag m. asn1_write_mpint a reverse (Some (mem, p)) = Some (Some (Some mem', of_nat (n + 2))) \<and>
    take q mem' = take q mem \<and> drop (q + n + 2) mem' = drop (q + n + 2) mem \<and>
    asn1_read_mpint (Some (drop q mem')) (of_nat (length mem - q)) r st = Some (Some (tag, 0, set_obj st r m)) \<and>
    msign m = 1 \<and> mval m = mval a"
proof -
  let ?r = "drop (q + n + 2) mem"
  obtain bs where bs: "length bs = n" "bytes_nat (rev bs) = mval a" "bs ! 0 AND 0x80 = 0"
    "asn1_write_mpint a reverse (Some (mem, p)) =
      Some (Some (Some (take q mem @ der_object 0 False 2 0 bs @ ?r), of_nat (n + 2)))"
    using write_mpint [OF assms(1,2,4-6)] by blast
  let ?o = "der_object 0 False 2 0 bs"
  have o: "length ?o = n + 2" using bs by (simp add: der_object_def der_length_def)
  have len: "length (?o @ ?r) = length mem - q" using assms(5) o by simp
  have tag: "asn1_read_tag (Some (?o @ ?r)) (of_nat (length mem - q)) = Some (Some (tag_of 0 False 2 bs (of_nat (n + 2)) ?r))"
    using read_der_object [of 2 0 bs "?o @ ?r" 0 False ?r] assms(2,3) len o bs
    by (simp add: length_fits_def tag_of_def)
  obtain m where m: "mpint_import r bs MPINT_FORMAT_BIG_ENDIAN st = Some (0, set_obj st r m)" "msign m = 1"
    "mval m = bytes_nat (rev bs)"
    using import_ok [OF assms(7), of MPINT_FORMAT_BIG_ENDIAN r bs] by (auto simp: significant_def)
  have "bs \<noteq> []" using bs(1) assms(1) by auto
  then have "asn1_read_mpint (Some (?o @ ?r)) (of_nat (length mem - q)) r st =
      Some (Some (tag_of 0 False 2 bs (of_nat (n + 2)) ?r, 0, set_obj st r m))"
    using tag m bs assms(2)
    by (cases bs) (auto simp: asn1_read_mpint_def asn1_read_of_def asn1_check_tag_def ASN1_CLASS_UNIVERSAL_def
        tag_of_def idx_def unat_of_nat_64 simp del: of_nat_Suc)
  then show ?thesis
    using bs m o assms(5) by (intro exI [of _ "take q mem @ ?o @ ?r"] exI) auto
qed

theorem asn1_mpint_roundtrip_witness:
  "\<exists>mem' tag m k. asn1_write_mpint \<lparr>msign = 1, mdata = [300]\<rparr> False (Some (replicate 8 0, 1)) = Some (Some (Some mem', k)) \<and>
    asn1_read_mpint (Some (drop 1 mem')) 7 0 (mp_store [\<lparr>msign = -1, mdata = [9]\<rparr>]) =
      Some (Some (tag, 0, set_obj (mp_store [\<lparr>msign = -1, mdata = [9]\<rparr>]) 0 m)) \<and> mval m = 300"
proof -
  let ?a = "\<lparr>msign = 1, mdata = [300]\<rparr>"
  have v: "mval ?a = 300" by simp
  have "mpint_get_bit_length ?a \<le> 9" unfolding bit_length_le_iff v by simp
  then have n: "mpint_get_bit_length ?a div 8 + 1 \<le> 2" by linarith
  have st: "mem_ok (mp_store [\<lparr>msign = -1, mdata = [9]\<rparr>])" by simp
  show ?thesis
    using asn1_mpint_roundtrip [OF refl, of ?a "replicate 8 0" False 1 1 "mp_store [\<lparr>msign = -1, mdata = [9]\<rparr>]" 0] n st v
    by simp blast
qed

end
