(* ===== verification/Qsort.thy ===== *)
theory Qsort
  imports OS6_Prelude "HOL-Library.Multiset"
begin

text \<open>
  Sorting and searching in libk: stdlib/qsort.c and stdlib/bsearch.c. An array is the list of its items,
  which the code compares and exchanges as a whole; an access outside it has no result. The comparison
  function is a parameter. The index \<open>i\<close> of \<open>partition\<close> is an \<open>int\<close>, so arrays have less than 2^31 items.
\<close>

definition swap_items :: "'a list \<Rightarrow> nat \<Rightarrow> nat \<Rightarrow> 'a list option" where
  "swap_items arr m n = do {
     a \<leftarrow> idx arr m;
     b \<leftarrow> idx arr n;
     Some (if m = n then arr else arr[m := b, n := a])
   }"

definition partition_step :: "('a \<Rightarrow> 'a \<Rightarrow> int) \<Rightarrow> nat \<Rightarrow> nat \<Rightarrow> int \<times> 'a list \<Rightarrow> (int \<times> 'a list) option" where
  "partition_step compare high j = (\<lambda>(i, arr). do {
     a \<leftarrow> idx arr j;
     p \<leftarrow> idx arr high;
     if compare a p \<noteq> 0 then do {
       arr \<leftarrow> swap_items arr (nat (i + 1)) j;
       Some (i + 1, arr)
     }
     else Some (i, arr)
   })"

definition partition_array :: "('a \<Rightarrow> 'a \<Rightarrow> int) \<Rightarrow> 'a list \<Rightarrow> nat \<Rightarrow> nat \<Rightarrow> (nat \<times> 'a list) option" where
  "partition_array compare arr low high = do {
     (i, arr) \<leftarrow> for_each (partition_step compare high) [low..<high] (int low - 1, arr);
     arr \<leftarrow> swap_items arr (nat (i + 1)) high;
     Some (nat (i + 1), arr)
   }"

text \<open>Indices are 64 bits wide: the end of the part before index 0 is the largest index there is.\<close>

definition before :: "nat \<Rightarrow> nat" where
  "before p = (if p = 0 then 2 ^ 64 - 1 else p - 1)"

partial_function (option) quicksort :: "('a \<Rightarrow> 'a \<Rightarrow> int) \<Rightarrow> nat \<Rightarrow> nat \<Rightarrow> 'a list \<Rightarrow> 'a list option" where
  "quicksort compare low high arr =
     (if low < high then do {
        (p, arr) \<leftarrow> partition_array compare arr low high;
        arr \<leftarrow> quicksort compare low (before p) arr;
        quicksort compare (p + 1) high arr
      }
      else Some arr)"

definition qsort :: "('a \<Rightarrow> 'a \<Rightarrow> int) \<Rightarrow> 'a list \<Rightarrow> 'a list option" where
  "qsort compare arr = quicksort compare 0 (before (length arr)) arr"

function bsearch_from :: "('a \<Rightarrow> int) \<Rightarrow> 'a list \<Rightarrow> nat \<Rightarrow> nat \<Rightarrow> nat option option" where
  "bsearch_from compar arr b n =
     (if n = 0 then Some None
      else do {
        x \<leftarrow> idx arr (b + n div 2);
        if compar x = 0 then Some (Some (b + n div 2))
        else if n = 1 then Some None
        else if compar x < 0 then bsearch_from compar arr b (n div 2)
        else bsearch_from compar arr (b + n div 2) (n - n div 2)
      })"
  by pat_completeness auto
termination by (relation "measure (\<lambda>(_, _, _, n). n)") auto

declare bsearch_from.simps [simp del]

text \<open>The index of the item found; \<open>compar\<close> compares the key with an item.\<close>

definition bsearch :: "('a \<Rightarrow> int) \<Rightarrow> 'a list \<Rightarrow> nat option option" where
  "bsearch compar arr = bsearch_from compar arr 0 (length arr)"

subsection \<open>Partition\<close>

lemma swap_items_in:
  "m < length arr \<Longrightarrow> n < length arr \<Longrightarrow> swap_items arr m n = Some (arr[m := arr ! n, n := arr ! m])"
  by (auto simp: swap_items_def)

text \<open>
  The loop over a part of the array leaves the items for which the comparison holds in front, in their
  order, and the rest, in some order, behind them.
\<close>

lemma partition_loop:
  assumes "arr = pre @ small @ big @ todo @ piv # post" and "\<forall>x\<in>set big. compare x piv = 0"
    and "\<forall>x\<in>set small. compare x piv \<noteq> 0" and "high = length (pre @ small @ big @ todo)"
  shows "\<exists>big'. for_each (partition_step compare high) [length (pre @ small @ big)..<high]
       (int (length (pre @ small)) - 1, arr) =
     Some (int (length (pre @ small @ filter (\<lambda>x. compare x piv \<noteq> 0) todo)) - 1,
       pre @ (small @ filter (\<lambda>x. compare x piv \<noteq> 0) todo) @ big' @ piv # post) \<and>
     mset big' = mset big + mset (filter (\<lambda>x. compare x piv = 0) todo)"
  using assms
proof (induction todo arbitrary: small big arr)
  case Nil
  then show ?case by auto
next
  case (Cons x todo)
  let ?j = "length (pre @ small @ big)" and ?k = "length (pre @ small)"
  have upt: "[?j..<high] = ?j # [Suc ?j..<high]" by (rule upt_conv_Cons) (simp add: Cons.prems(4))
  have items: "idx arr ?j = Some x" "idx arr high = Some piv"
    using Cons.prems by (simp_all add: nth_append)
  have i: "nat (int ?k - 1 + 1) = ?k" by simp
  show ?case
  proof (cases "compare x piv = 0")
    case True
    then have "partition_step compare high ?j (int ?k - 1, arr) = Some (int ?k - 1, arr)"
      using items by (simp add: partition_step_def)
    then show ?thesis
      using Cons.IH [of arr small "big @ [x]"] Cons.prems True upt by (auto simp: union_assoc)
  next
    case False
    obtain big2 where big2: "arr[?k := arr ! ?j, ?j := arr ! ?k] = pre @ (small @ [x]) @ big2 @ todo @ piv # post"
      "mset big2 = mset big" "length big2 = length big"
    proof (cases big)
      case Nil
      then show ?thesis using that [of "[]"] Cons.prems(1) by (simp add: nth_append list_update_append)
    next
      case (Cons b bs)
      then show ?thesis using that [of "bs @ [b]"] Cons.prems(1) by (simp add: nth_append list_update_append)
    qed
    have "partition_step compare high ?j (int ?k - 1, arr) = Some (int ?k, arr[?k := arr ! ?j, ?j := arr ! ?k])"
      using items False Cons.prems i swap_items_in [of ?k arr ?j] by (simp add: partition_step_def)
    moreover have "\<forall>x\<in>set big2. compare x piv = 0" using Cons.prems(2) big2(2) by (metis set_mset_mset)
    ultimately show ?thesis
      using Cons.IH [OF big2(1)] Cons.prems False upt big2 by auto
  qed
qed

lemma partition_spec:
  assumes "arr = pre @ seg @ piv # post"
  shows "\<exists>big. partition_array compare arr (length pre) (length pre + length seg) =
      Some (length pre + length (filter (\<lambda>x. compare x piv \<noteq> 0) seg),
        pre @ filter (\<lambda>x. compare x piv \<noteq> 0) seg @ piv # big @ post) \<and>
    mset big = mset (filter (\<lambda>x. compare x piv = 0) seg)"
proof -
  let ?small = "filter (\<lambda>x. compare x piv \<noteq> 0) seg" and ?high = "length pre + length seg"
  obtain big where big: "for_each (partition_step compare ?high) [length pre..<?high] (int (length pre) - 1, arr) =
      Some (int (length (pre @ ?small)) - 1, pre @ ?small @ big @ piv # post)"
    "mset big = mset (filter (\<lambda>x. compare x piv = 0) seg)"
    using partition_loop [of arr pre "[]" "[]" seg piv post compare ?high] assms by auto
  let ?arr = "pre @ ?small @ big @ piv # post" and ?k = "length (pre @ ?small)"
  have high: "?high = length (pre @ ?small @ big)"
  proof -
    have "length big = length (filter (\<lambda>x. compare x piv = 0) seg)" using big(2) by (metis size_mset)
    then show ?thesis using sum_length_filter_compl [of "\<lambda>x. compare x piv = 0" seg] by simp
  qed
  obtain big2 where "?arr[?k := ?arr ! ?high, ?high := ?arr ! ?k] = pre @ ?small @ piv # big2 @ post" "mset big2 = mset big"
  proof (cases big)
    case Nil
    then show ?thesis using that [of "[]"] unfolding high by (simp add: nth_append list_update_append)
  next
    case (Cons b bs)
    then show ?thesis using that [of "bs @ [b]"] unfolding high by (simp add: nth_append list_update_append)
  qed
  moreover have "swap_items ?arr ?k ?high = Some (?arr[?k := ?arr ! ?high, ?high := ?arr ! ?k])"
    unfolding high by (rule swap_items_in) simp_all
  moreover have "nat (int ?k - 1 + 1) = ?k" by simp
  ultimately show ?thesis using big by (auto simp: partition_array_def)
qed

subsection \<open>Sorting\<close>

text \<open>The comparison function tells whether its first argument comes before its second, by some key.\<close>

definition tells_less :: "('a \<Rightarrow> 'a \<Rightarrow> int) \<Rightarrow> ('a \<Rightarrow> 'k :: linorder) \<Rightarrow> bool" where
  "tells_less compare f \<longleftrightarrow> (\<forall>a b. compare a b \<noteq> 0 \<longleftrightarrow> f a < f b)"

definition sorting :: "('a \<Rightarrow> 'k :: linorder) \<Rightarrow> 'a list \<Rightarrow> 'a list \<Rightarrow> bool" where
  "sorting f xs ys \<longleftrightarrow> mset ys = mset xs \<and> sorted (map f ys)"

lemma sorting_short: "length xs \<le> 1 \<Longrightarrow> sorting f xs xs"
  by (cases xs) (auto simp: sorting_def)

lemma sorting_around:
  assumes "tells_less compare f" and "sorting f (filter (\<lambda>x. compare x piv \<noteq> 0) seg) small"
    and "sorting f big big'" and "mset big = mset (filter (\<lambda>x. compare x piv = 0) seg)"
  shows "sorting f (seg @ [piv]) (small @ piv # big')"
proof -
  have ms: "mset small = mset (filter (\<lambda>x. compare x piv \<noteq> 0) seg)" "mset big' = mset (filter (\<lambda>x. compare x piv = 0) seg)"
    using assms(2-4) by (simp_all add: sorting_def)
  have "\<forall>x\<in>set small. f x \<le> f piv" "\<forall>x\<in>set big'. f piv \<le> f x"
    using mset_eq_setD [OF ms(1)] mset_eq_setD [OF ms(2)] assms(1)
    by (auto simp: tells_less_def less_imp_le) (metis not_less)
  moreover have "mset (filter (\<lambda>x. compare x piv \<noteq> 0) seg) + mset (filter (\<lambda>x. compare x piv = 0) seg) = mset seg"
    by (induction seg) auto
  then have "mset small + mset big' = mset seg" using ms by simp
  moreover have "sorted (map f small)" "sorted (map f big')" using assms(2,3) by (simp_all add: sorting_def)
  ultimately show ?thesis by (auto simp: sorting_def sorted_append intro: order_trans)
qed

lemma length_filters: "length (filter P xs) + length (filter (\<lambda>x. \<not> P x) xs) = length xs"
  by (rule sum_length_filter_compl)

text \<open>Away from the start of the array the part before the pivot is an array, and all goes well.\<close>

lemma quicksort_inner:
  assumes "tells_less compare f"
  shows "pre \<noteq> [] \<Longrightarrow> \<exists>seg'. quicksort compare (length pre) (length pre + length seg - 1) (pre @ seg @ post) =
    Some (pre @ seg' @ post) \<and> sorting f seg seg'"
proof (induction "length seg" arbitrary: pre seg post rule: less_induct)
  case less
  show ?case
  proof (cases "length seg \<le> 1")
    case True
    then show ?thesis using less.prems sorting_short [OF True, of f]
      by (intro exI [of _ seg]) (auto simp: quicksort.simps [of _ _ _ "pre @ seg @ post"])
  next
    case False
    then obtain s piv where seg: "seg = s @ [piv]" "s \<noteq> []" by (cases seg rule: rev_cases) auto
    let ?small = "filter (\<lambda>x. compare x piv \<noteq> 0) s"
    obtain big where big: "partition_array compare (pre @ seg @ post) (length pre) (length pre + length s) =
        Some (length pre + length ?small, pre @ ?small @ piv # big @ post)"
      "mset big = mset (filter (\<lambda>x. compare x piv = 0) s)"
      using partition_spec [of "pre @ seg @ post" pre s piv post compare] seg(1) by auto
    have lens: "length ?small + length big = length s"
      using length_filters [of "\<lambda>x. compare x piv \<noteq> 0" s] mset_eq_length [OF big(2)] by simp
    obtain small where small: "quicksort compare (length pre) (length pre + length ?small - 1) (pre @ ?small @ piv # big @ post) =
        Some (pre @ small @ piv # big @ post)" "sorting f ?small small"
      using less.hyps [of ?small pre "piv # big @ post"] less.prems seg(1) by (auto simp: le_imp_less_Suc)
    have len: "length small = length ?small" using small(2) by (metis sorting_def size_mset)
    obtain big' where big': "quicksort compare (length (pre @ small @ [piv]))
        (length (pre @ small @ [piv]) + length big - 1) ((pre @ small @ [piv]) @ big @ post) =
        Some ((pre @ small @ [piv]) @ big' @ post)" "sorting f big big'"
      using less.hyps [of big "pre @ small @ [piv]" post] lens seg(1) by auto
    have before: "before (length pre + length ?small) = length pre + length ?small - 1"
      using less.prems by (simp add: before_def)
    have "quicksort compare (length pre) (length pre + length seg - 1) (pre @ seg @ post) =
        Some (pre @ (small @ piv # big') @ post)"
      using big(1) small(1) big'(1) before seg lens len
      by (subst quicksort.simps) (simp add: add.assoc)
    then show ?thesis using sorting_around [OF assms small(2) big'(2) big(2)] seg(1) by blast
  qed
qed

text \<open>
  The parts that start at index 0: each must have an item before its pivot, until there is one left.
\<close>

function first_parts_ok :: "('a \<Rightarrow> 'a \<Rightarrow> int) \<Rightarrow> 'a list \<Rightarrow> bool" where
  "first_parts_ok compare xs \<longleftrightarrow>
     (if length xs \<le> 1 then xs \<noteq> []
      else first_parts_ok compare (filter (\<lambda>x. compare x (last xs) \<noteq> 0) (butlast xs)))"
  by pat_completeness auto
termination
  by (relation "measure (\<lambda>(_, xs). length xs)") (auto simp: le_imp_less_Suc Suc_pred' order.strict_trans1 [OF length_filter_le])

declare first_parts_ok.simps [simp del]

lemma partition_outside: "0 < high \<Longrightarrow> length arr \<le> high \<Longrightarrow> partition_array compare arr 0 high = None"
  by (cases "idx arr 0") (simp_all add: partition_array_def partition_step_def idx_def upt_conv_Cons del: upt_Suc)

lemma quicksort_outside:
  assumes "length arr < 2 ^ 64"
  shows "quicksort compare 0 (before 0) arr = None"
proof -
  have "0 < before 0" "length arr \<le> before 0" using assms by (simp_all add: before_def)
  then show ?thesis using partition_outside [of "before 0" arr compare] by (subst quicksort.simps) simp
qed

lemma quicksort_first:
  assumes "tells_less compare f"
  shows "length (seg @ post) < 2 ^ 64 \<Longrightarrow>
    (first_parts_ok compare seg \<longrightarrow> (\<exists>seg'. quicksort compare 0 (before (length seg)) (seg @ post) = Some (seg' @ post) \<and> sorting f seg seg')) \<and>
    (\<not> first_parts_ok compare seg \<longrightarrow> quicksort compare 0 (before (length seg)) (seg @ post) = None)"
proof (induction "length seg" arbitrary: seg post rule: less_induct)
  case less
  consider "seg = []" | "length seg = 1" | "1 < length seg" by (cases seg; cases "tl seg") auto
  then show ?case
  proof cases
    case 1
    then show ?thesis using quicksort_outside [of post compare] less.prems by (simp add: first_parts_ok.simps)
  next
    case 2
    then have "quicksort compare 0 (before (length seg)) (seg @ post) = Some (seg @ post)"
      by (subst quicksort.simps) (simp add: before_def)
    then show ?thesis using 2 sorting_short [of seg f]
      by (simp add: first_parts_ok.simps [of _ seg]) (cases seg; auto)
  next
    case 3
    then obtain s piv where seg: "seg = s @ [piv]" "s \<noteq> []" by (cases seg rule: rev_cases) auto
    let ?small = "filter (\<lambda>x. compare x piv \<noteq> 0) s"
    obtain big where big: "partition_array compare (seg @ post) 0 (length s) =
        Some (length ?small, ?small @ piv # big @ post)"
      "mset big = mset (filter (\<lambda>x. compare x piv = 0) s)"
      using partition_spec [of "seg @ post" "[]" s piv post compare] seg(1) by auto
    have lens: "length ?small + length big = length s"
      using length_filters [of "\<lambda>x. compare x piv \<noteq> 0" s] mset_eq_length [OF big(2)] by simp
    have run: "quicksort compare 0 (before (length seg)) (seg @ post) =
        do { arr \<leftarrow> quicksort compare 0 (before (length ?small)) (?small @ piv # big @ post);
             quicksort compare (length ?small + 1) (length s) arr }"
      using big(1) seg by (subst quicksort.simps) (simp add: before_def)
    have ok: "first_parts_ok compare seg \<longleftrightarrow> first_parts_ok compare ?small"
      using 3 seg by (simp add: first_parts_ok.simps [of _ "s @ [piv]"])
    have "length ?small < length seg" using seg(1) by (simp add: le_imp_less_Suc)
    moreover have "length (?small @ piv # big @ post) < 2 ^ 64" using less.prems lens seg(1) by simp
    ultimately have ih: "(first_parts_ok compare ?small \<longrightarrow>
        (\<exists>small. quicksort compare 0 (before (length ?small)) (?small @ piv # big @ post) = Some (small @ piv # big @ post) \<and>
          sorting f ?small small)) \<and>
      (\<not> first_parts_ok compare ?small \<longrightarrow> quicksort compare 0 (before (length ?small)) (?small @ piv # big @ post) = None)"
      using less.hyps by blast
    show ?thesis
    proof (cases "first_parts_ok compare ?small")
      case True
      then obtain small where small: "quicksort compare 0 (before (length ?small)) (?small @ piv # big @ post) = Some (small @ piv # big @ post)"
          "sorting f ?small small" using ih by blast
      have len: "length small = length ?small" using small(2) by (metis sorting_def size_mset)
      obtain big' where big': "quicksort compare (length (small @ [piv]))
          (length (small @ [piv]) + length big - 1) ((small @ [piv]) @ big @ post) =
          Some ((small @ [piv]) @ big' @ post)" "sorting f big big'"
        using quicksort_inner [OF assms, of "small @ [piv]" big post] by auto
      have "quicksort compare 0 (before (length seg)) (seg @ post) = Some ((small @ piv # big') @ post)"
        using run small(1) big'(1) len lens by simp
      then show ?thesis using ok True sorting_around [OF assms small(2) big'(2) big(2)] seg(1) by blast
    qed (use ih ok run in simp)
  qed
qed

text \<open>A function that only tells its two arguments apart moves nothing.\<close>

lemma quicksort_three_way:
  "seg \<noteq> [] \<Longrightarrow> distinct seg \<Longrightarrow> \<forall>a\<in>set seg. \<forall>b\<in>set seg. compare a b = 0 \<longleftrightarrow> a = b \<Longrightarrow>
   quicksort compare 0 (before (length seg)) (seg @ post) = Some (seg @ post)"
proof (induction seg arbitrary: post rule: rev_induct)
  case (snoc piv s)
  show ?case
  proof (cases "s = []")
    case True
    then show ?thesis by (subst quicksort.simps) (simp add: before_def)
  next
    case False
    have "\<forall>x\<in>set s. compare x piv \<noteq> 0" using snoc.prems(2,3) by auto
    then have small: "filter (\<lambda>x. compare x piv \<noteq> 0) s = s" "filter (\<lambda>x. compare x piv = 0) s = []"
      by (simp_all add: filter_empty_conv)
    have "partition_array compare ((s @ [piv]) @ post) 0 (length s) = Some (length s, s @ piv # post)"
      using partition_spec [of "(s @ [piv]) @ post" "[]" s piv post compare] small by auto
    moreover have "quicksort compare 0 (before (length s)) (s @ piv # post) = Some (s @ piv # post)"
      using snoc.IH [OF False, of "piv # post"] snoc.prems by auto
    moreover have "quicksort compare (length s + 1) (length s) (s @ piv # post) = Some (s @ piv # post)"
      by (subst quicksort.simps) simp
    ultimately show ?thesis using False by (subst quicksort.simps) (simp add: before_def)
  qed
qed simp

subsection \<open>Searching\<close>

text \<open>The comparison of the key falls along the array: items above the key come last.\<close>

definition falls :: "('a \<Rightarrow> int) \<Rightarrow> 'a list \<Rightarrow> bool" where
  "falls compar arr \<longleftrightarrow>
     (\<forall>i j. i < j \<and> j < length arr \<longrightarrow> (compar (arr ! i) < 0 \<longrightarrow> compar (arr ! j) < 0) \<and>
        (compar (arr ! j) > 0 \<longrightarrow> compar (arr ! i) > 0))"

lemma bsearch_from_spec:
  assumes "falls compar arr"
  shows "b + n \<le> length arr \<Longrightarrow> (\<forall>i<b. compar (arr ! i) > 0) \<Longrightarrow> (\<forall>i. b + n \<le> i \<and> i < length arr \<longrightarrow> compar (arr ! i) < 0) \<Longrightarrow>
    (\<exists>r. bsearch_from compar arr b n = Some r \<and>
      (case r of Some i \<Rightarrow> i < length arr \<and> compar (arr ! i) = 0 | None \<Rightarrow> \<forall>i<length arr. compar (arr ! i) \<noteq> 0))"
  using assms
proof (induction compar arr b n rule: bsearch_from.induct)
  case (1 compar arr b n)
  show ?case
  proof (cases "n = 0")
    case True
    have "compar (arr ! i) \<noteq> 0" if "i < length arr" for i
      using 1(4) 1(5) [rule_format, of i] True that by (cases "i < b") auto
    then show ?thesis using True by (simp add: bsearch_from.simps [of _ _ _ 0])
  next
    case False
    let ?g = "b + n div 2"
    have g: "?g < length arr" using False 1(3) by auto
    then have x: "idx arr ?g = Some (arr ! ?g)" by simp
    show ?thesis
    proof (cases "compar (arr ! ?g) = 0")
      case True
      then show ?thesis using False x g by (simp add: bsearch_from.simps [of _ _ _ n])
    next
      case ne: False
      show ?thesis
      proof (cases "n = 1")
        case True
        have "compar (arr ! i) \<noteq> 0" if "i < length arr" for i
          using 1(4) 1(5) [rule_format, of i] ne True that by (cases "i = b"; cases "i < b") auto
        then show ?thesis using True ne x by (simp add: bsearch_from.simps [of _ _ _ "Suc 0"])
      next
        case n: False
        show ?thesis
        proof (cases "compar (arr ! ?g) < 0")
          case True
          have "compar (arr ! i) < 0" if "?g \<le> i" "i < length arr" for i
            using that True 1(6) [unfolded falls_def, rule_format, of ?g i] by (cases "i = ?g") auto
          moreover have "bsearch_from compar arr b n = bsearch_from compar arr b (n div 2)"
            using False x ne n True by (subst bsearch_from.simps) simp
          ultimately show ?thesis using 1(1) [OF False x ne n True] 1(3-6) g by simp
        next
          case neg: False
          have "compar (arr ! i) > 0" if "i < ?g" for i
            using that neg ne g 1(6) [unfolded falls_def, rule_format, of i ?g] by auto
          moreover have "bsearch_from compar arr b n = bsearch_from compar arr ?g (n - n div 2)"
            using False x ne n neg by (subst bsearch_from.simps) simp
          ultimately show ?thesis using 1(2) [OF False x ne n neg] 1(3-6) by simp
        qed
      qed
    qed
  qed
qed

subsection \<open>Properties\<close>

text \<open>
  C32: With a function that tells whether its first argument comes before its second, \<open>qsort\<close> sorts an
  array in place exactly when every part that starts at index 0 has an item before its pivot, the last
  one; otherwise, and for the empty array, it goes on beyond the array, since the index before 0 is the
  largest there is. With a function of three results, as the C standard has it, an array of
  different items, at least one, is left as it is.
\<close>

theorem qsort_sorts_or_overruns:
  assumes "length arr < 2 ^ 31"
  shows "(tells_less compare f \<longrightarrow>
      (first_parts_ok compare arr \<longrightarrow> (\<exists>arr'. qsort compare arr = Some arr' \<and> mset arr' = mset arr \<and> sorted (map f arr'))) \<and>
      (\<not> first_parts_ok compare arr \<longrightarrow> qsort compare arr = None)) \<and>
    ((\<forall>a\<in>set arr. \<forall>b\<in>set arr. compare a b = 0 \<longleftrightarrow> a = b) \<longrightarrow> distinct arr \<longrightarrow> arr \<noteq> [] \<longrightarrow> qsort compare arr = Some arr)"
  using quicksort_first [of compare f arr "[]"] quicksort_three_way [of arr compare "[]"] assms
  by (auto simp: qsort_def sorting_def)

theorem qsort_sorts_or_overruns_witness:
  "(\<exists>arr'. qsort (\<lambda>a b. if a < b then 1 else 0) [23, 10, -1, 0, 9 :: int] = Some arr' \<and>
      mset arr' = mset [23, 10, -1, 0, 9 :: int] \<and> sorted (map id arr')) \<and>
    qsort (\<lambda>a b. if a < b then 1 else 0) [2, 1 :: int] = None \<and>
    qsort (\<lambda>a b. a - b) [2, 1, 3 :: int] = Some [2, 1, 3]"
proof -
  let ?less = "\<lambda>a b :: int. if a < b then 1 else 0 :: int"
  have t: "tells_less ?less id" by (simp add: tells_less_def)
  have "first_parts_ok ?less [23, 10, -1, 0, 9 :: int]" "\<not> first_parts_ok ?less [2, 1]"
    by (simp_all add: first_parts_ok.simps)
  then show ?thesis
    using qsort_sorts_or_overruns [of "[23, 10, -1, 0, 9 :: int]" ?less id] qsort_sorts_or_overruns [of "[2, 1]" ?less id]
      qsort_sorts_or_overruns [of "[2, 1, 3]" "\<lambda>a b. a - b" id] t
    by simp
qed

text \<open>
  C34: On an array along which the comparison of the key falls, \<open>bsearch\<close> stays within the array and
  returns an item that compares equal to the key, or nothing when there is none.
\<close>

theorem bsearch_finds:
  assumes "falls compar arr"
  shows "\<exists>r. bsearch compar arr = Some r \<and>
    (case r of Some i \<Rightarrow> i < length arr \<and> compar (arr ! i) = 0 | None \<Rightarrow> \<forall>i<length arr. compar (arr ! i) \<noteq> 0)"
  unfolding bsearch_def by (rule bsearch_from_spec [OF assms]) simp_all

theorem bsearch_finds_witness:
  "\<exists>r. bsearch (\<lambda>x. 5 - x) [1, 3, 5, 7] = Some r \<and>
    (case r of Some i \<Rightarrow> i < length [1, 3, 5, 7 :: int] \<and> 5 - [1, 3, 5, 7 :: int] ! i = 0 | None \<Rightarrow> False)"
proof -
  have "sorted [1, 3, 5, 7 :: int]" by simp
  then have "falls (\<lambda>x. 5 - x) [1, 3, 5, 7 :: int]"
    unfolding falls_def sorted_wrt_iff_nth_less by (smt (verit, best))
  then obtain r where r: "bsearch (\<lambda>x. 5 - x) [1, 3, 5, 7 :: int] = Some r"
    "case r of Some i \<Rightarrow> i < length [1, 3, 5, 7 :: int] \<and> 5 - [1, 3, 5, 7 :: int] ! i = 0
     | None \<Rightarrow> \<forall>i<length [1, 3, 5, 7 :: int]. 5 - [1, 3, 5, 7 :: int] ! i \<noteq> 0"
    using bsearch_finds [of "\<lambda>x. 5 - x" "[1, 3, 5, 7 :: int]"] by blast
  have "r \<noteq> None"
  proof
    assume "r = None"
    then have "5 - [1, 3, 5, 7 :: int] ! 2 \<noteq> 0" using r(2) by (simp only: option.case) (drule spec [of _ 2], simp)
    then show False by simp
  qed
  then show ?thesis using r by (cases r) simp_all
qed

end
