(* ===== verification/Link.thy ===== *)
theory Link
  imports OS6_Prelude
begin

text \<open>
  Rings of links, kernel/src/util/link.c: doubly linked circular lists whose links live inside other
  objects. The state is the memory of the links; reading or writing where there is none has no result.
\<close>

record link =
  link_prev :: u64
  link_next :: u64

type_synonym links = "u64 \<Rightarrow> link option"

definition put_prev :: "links \<Rightarrow> u64 \<Rightarrow> u64 \<Rightarrow> links option" where
  "put_prev h x p = do { l \<leftarrow> h x; Some (h(x \<mapsto> l\<lparr>link_prev := p\<rparr>)) }"

definition put_next :: "links \<Rightarrow> u64 \<Rightarrow> u64 \<Rightarrow> links option" where
  "put_next h x n = do { l \<leftarrow> h x; Some (h(x \<mapsto> l\<lparr>link_next := n\<rparr>)) }"

text \<open>The four stores that put \<open>x\<close> between \<open>p\<close> and \<open>n\<close>, and the two that close the gap it leaves.\<close>

definition link_between :: "u64 \<Rightarrow> u64 \<Rightarrow> u64 \<Rightarrow> links \<Rightarrow> links option" where
  "link_between p n x h = do {
     h \<leftarrow> put_prev h n x;
     h \<leftarrow> put_next h x n;
     h \<leftarrow> put_prev h x p;
     put_next h p x
   }"

definition close_gap :: "u64 \<Rightarrow> links \<Rightarrow> links option" where
  "close_gap x h = do {
     l \<leftarrow> h x;
     h \<leftarrow> put_prev h (link_next l) (link_prev l);
     put_next h (link_prev l) (link_next l)
   }"

definition link_init :: "u64 \<Rightarrow> links \<Rightarrow> links option" where
  "link_init x h = do { h \<leftarrow> put_prev h x x; put_next h x x }"

definition link_after :: "u64 \<Rightarrow> u64 \<Rightarrow> links \<Rightarrow> links option" where
  "link_after a x h = do { l \<leftarrow> h a; link_between a (link_next l) x h }"

definition link_before :: "u64 \<Rightarrow> u64 \<Rightarrow> links \<Rightarrow> links option" where
  "link_before a x h = do { l \<leftarrow> h a; link_between (link_prev l) a x h }"

definition link_remove :: "u64 \<Rightarrow> links \<Rightarrow> links option" where
  "link_remove x h = do { h \<leftarrow> close_gap x h; h \<leftarrow> put_next h x 0; put_prev h x 0 }"

definition link_move_after :: "u64 \<Rightarrow> u64 \<Rightarrow> links \<Rightarrow> links option" where
  "link_move_after a x h = do { h \<leftarrow> close_gap x h; l \<leftarrow> h a; link_between a (link_next l) x h }"

definition link_move_before :: "u64 \<Rightarrow> u64 \<Rightarrow> links \<Rightarrow> links option" where
  "link_move_before a x h = do { h \<leftarrow> close_gap x h; l \<leftarrow> h a; link_between (link_prev l) a x h }"

definition link_is_empty :: "u64 \<Rightarrow> links \<Rightarrow> bool option" where
  "link_is_empty x h = do { l \<leftarrow> h x; Some (link_next l = x) }"

subsection \<open>Rings\<close>

text \<open>The links \<open>xs\<close> in order, between \<open>p\<close> and \<open>n\<close>; a ring is between its own ends.\<close>

fun linked :: "links \<Rightarrow> u64 \<Rightarrow> u64 list \<Rightarrow> u64 \<Rightarrow> bool" where
  "linked h p [] n = True"
| "linked h p (x # xs) n \<longleftrightarrow> h x = Some \<lparr>link_prev = p, link_next = hd (xs @ [n])\<rparr> \<and> linked h x xs n"

definition ring :: "links \<Rightarrow> u64 list \<Rightarrow> bool" where
  "ring h xs \<longleftrightarrow> xs \<noteq> [] \<and> distinct xs \<and> linked h (last xs) xs (hd xs)"

lemma linked_append:
  "linked h p (xs @ ys) n \<longleftrightarrow> linked h p xs (hd (ys @ [n])) \<and> linked h (last (p # xs)) ys n"
  by (induction xs arbitrary: p) (auto simp: hd_append)

lemma linked_cong: "(\<And>x. x \<in> set xs \<Longrightarrow> h' x = h x) \<Longrightarrow> linked h' p xs n = linked h p xs n"
  by (induction xs arbitrary: p) auto

lemma linked_links:
  "linked h p xs n \<Longrightarrow> x \<in> set xs \<Longrightarrow> h x \<noteq> None"
  by (induction xs arbitrary: p) auto

lemma ring_rotate: "ring h (xs @ ys) \<Longrightarrow> ring h (ys @ xs)"
  by (cases "xs = []"; cases "ys = []") (auto simp: ring_def linked_append hd_append last_append)

text \<open>Where a ring holds a link, it can be read from there on.\<close>

lemma ring_from: "ring h (ys @ a # zs) \<Longrightarrow> ring h (a # zs @ ys)"
  using ring_rotate [of h ys "a # zs"] by simp

lemma ring_links: "ring h xs \<Longrightarrow> x \<in> set xs \<Longrightarrow> h x \<noteq> None"
  unfolding ring_def by (meson linked_links)

lemma ring_other: "x \<notin> set xs \<Longrightarrow> ring (h(x \<mapsto> m)) xs = ring h xs"
proof -
  assume "x \<notin> set xs"
  then have "linked (h(x \<mapsto> m)) p xs n = linked h p xs n" for p n by (intro linked_cong) auto
  then show ?thesis by (simp add: ring_def)
qed

lemma link_after_ring:
  assumes "ring h (a # xs)" and "x \<notin> set (a # xs)" and "h x \<noteq> None"
  shows "\<exists>h'. link_after a x h = Some h' \<and> ring h' (a # x # xs) \<and> (\<forall>y. y \<notin> set (a # x # xs) \<longrightarrow> h' y = h y)"
proof (cases xs rule: rev_cases)
  case Nil
  then show ?thesis using assms
    by (auto simp: ring_def link_after_def link_between_def put_prev_def put_next_def)
next
  case (snoc ys b)
  show ?thesis
  proof (cases ys)
    case Nil
    then show ?thesis using assms snoc
      by (auto simp: ring_def link_after_def link_between_def put_prev_def put_next_def)
  next
    case (Cons c zs)
    have cong: "linked h' c (zs @ [b]) a = linked h c (zs @ [b]) a"
      if "\<And>y. y \<in> set (zs @ [b]) \<Longrightarrow> h' y = h y" for h'
      using that by (rule linked_cong)
    show ?thesis using assms snoc Cons
      by (auto simp: ring_def link_after_def link_between_def put_prev_def put_next_def intro!: cong [THEN iffD2])
  qed
qed

lemma link_before_after: "ring h (xs @ [b]) \<Longrightarrow> link_before (hd (xs @ [b])) x h = link_after b x h"
  by (cases xs) (auto simp: ring_def link_before_def link_after_def linked_append)

lemma link_before_ring:
  assumes "ring h (a # xs)" and "x \<notin> set (a # xs)" and "h x \<noteq> None"
  shows "\<exists>h'. link_before a x h = Some h' \<and> ring h' (x # a # xs) \<and> (\<forall>y. y \<notin> set (a # x # xs) \<longrightarrow> h' y = h y)"
proof -
  obtain ys b where ys: "a # xs = ys @ [b]" by (metis append_butlast_last_id list.distinct(1))
  then have before: "link_before a x h = link_after b x h"
    using link_before_after [of h ys b x] assms(1) by (metis list.sel(1))
  have "ring h (b # ys)" using ring_rotate [of h ys "[b]"] assms(1) ys by simp
  moreover have "set (b # ys) = set (a # xs)" using ys by (metis Un_commute list.set(1) list.simps(15) insert_is_Un set_append)
  ultimately obtain h' where h': "link_after b x h = Some h'" "ring h' (b # x # ys)" "\<forall>y. y \<notin> set (b # x # ys) \<longrightarrow> h' y = h y"
    using link_after_ring [of h b ys x] assms(2,3) by metis
  have "ring h' (x # a # xs)" using ring_rotate [of h' "[b]" "x # ys"] h'(2) ys by simp
  moreover have "set (b # x # ys) = set (a # x # xs)" using \<open>set (b # ys) = set (a # xs)\<close> by auto
  ultimately show ?thesis using before h' by (intro exI [of _ h']) simp
qed

lemma close_gap_ring:
  assumes "ring h (x # xs)"
  shows "\<exists>h'. close_gap x h = Some h' \<and> (xs \<noteq> [] \<longrightarrow> ring h' xs) \<and> h' x = h x \<and> (\<forall>y. y \<notin> set xs \<longrightarrow> h' y = h y)"
proof (cases xs rule: rev_cases)
  case Nil
  then show ?thesis using assms by (auto simp: ring_def close_gap_def put_prev_def put_next_def fun_upd_idem)
next
  case (snoc ys b)
  show ?thesis
  proof (cases ys)
    case Nil
    then show ?thesis using assms snoc by (auto simp: ring_def close_gap_def put_prev_def put_next_def)
  next
    case (Cons c zs)
    have cong: "linked h' p zs q = linked h p zs q"
      if "\<And>y. y \<in> set zs \<Longrightarrow> h' y = h y" for h' p q
      using that by (rule linked_cong)
    show ?thesis using assms snoc Cons
      by (auto simp: ring_def close_gap_def put_prev_def put_next_def linked_append intro!: cong [THEN iffD2])
  qed
qed

lemma move_eqs:
  "link_move_after a x h = do { h \<leftarrow> close_gap x h; link_after a x h }"
  "link_move_before a x h = do { h \<leftarrow> close_gap x h; link_before a x h }"
  by (simp_all add: link_move_after_def link_move_before_def link_after_def link_before_def)

text \<open>
  C33: The operations on links refine those on rings. Read from any of its links, a ring is a sequence
  without repetition: a new link goes right behind or in front of the link given, a link that is removed
  leaves the ring of the others and ends with null pointers, and moving a link is to take it out and put
  it in again at another link of the ring. No other memory changes, and a ring tells whether it has a
  single link.
\<close>

theorem link_refines_ring:
  assumes "ring h (a # xs)" and "x \<notin> set (a # xs)" and "h x \<noteq> None"
  shows "(\<exists>h'. link_init x h = Some h' \<and> ring h' [x] \<and> ring h' (a # xs)) \<and>
    (\<exists>h'. link_after a x h = Some h' \<and> ring h' (a # x # xs) \<and> (\<forall>y. y \<notin> set (a # x # xs) \<longrightarrow> h' y = h y)) \<and>
    (\<exists>h'. link_before a x h = Some h' \<and> ring h' (x # a # xs) \<and> (\<forall>y. y \<notin> set (a # x # xs) \<longrightarrow> h' y = h y)) \<and>
    (\<exists>h'. link_remove a h = Some h' \<and> (xs \<noteq> [] \<longrightarrow> ring h' xs) \<and> h' a = Some \<lparr>link_prev = 0, link_next = 0\<rparr> \<and>
       (\<forall>y. y \<notin> set (a # xs) \<longrightarrow> h' y = h y)) \<and>
    (\<forall>ys b zs. xs = ys @ b # zs \<longrightarrow>
       (\<exists>h'. link_move_after b a h = Some h' \<and> ring h' (ys @ b # a # zs) \<and> (\<forall>y. y \<notin> set (a # xs) \<longrightarrow> h' y = h y)) \<and>
       (\<exists>h'. link_move_before b a h = Some h' \<and> ring h' (ys @ a # b # zs) \<and> (\<forall>y. y \<notin> set (a # xs) \<longrightarrow> h' y = h y))) \<and>
    link_is_empty a h = Some (xs = [])"
proof (intro conjI allI impI)
  obtain l where l: "h x = Some l" using assms(3) by blast
  have "ring (h(x \<mapsto> m)) (a # xs)" for m using assms(1) ring_other [OF assms(2)] by simp
  moreover have "ring (h(x \<mapsto> l\<lparr>link_prev := x, link_next := x\<rparr>)) [x]" by (cases l) (simp add: ring_def)
  ultimately show "\<exists>h'. link_init x h = Some h' \<and> ring h' [x] \<and> ring h' (a # xs)"
    using l by (simp add: link_init_def put_prev_def put_next_def)
  show "\<exists>h'. link_after a x h = Some h' \<and> ring h' (a # x # xs) \<and> (\<forall>y. y \<notin> set (a # x # xs) \<longrightarrow> h' y = h y)"
    by (rule link_after_ring [OF assms])
  show "\<exists>h'. link_before a x h = Some h' \<and> ring h' (x # a # xs) \<and> (\<forall>y. y \<notin> set (a # x # xs) \<longrightarrow> h' y = h y)"
    by (rule link_before_ring [OF assms])
  obtain h' where h': "close_gap a h = Some h'" "xs \<noteq> [] \<longrightarrow> ring h' xs" "h' a = h a" "\<forall>y. y \<notin> set xs \<longrightarrow> h' y = h y"
    using close_gap_ring [OF assms(1)] by blast
  have a: "h' a \<noteq> None" "a \<notin> set xs" using ring_links [OF assms(1), of a] h'(3) assms(1) by (auto simp: ring_def)
  then obtain m where m: "h' a = Some m" by blast
  have "ring (h'(a \<mapsto> n)) xs" if "xs \<noteq> []" for n
    using h'(2) that ring_other [OF a(2)] by simp
  then show "\<exists>h'. link_remove a h = Some h' \<and> (xs \<noteq> [] \<longrightarrow> ring h' xs) \<and> h' a = Some \<lparr>link_prev = 0, link_next = 0\<rparr> \<and>
      (\<forall>y. y \<notin> set (a # xs) \<longrightarrow> h' y = h y)"
    using h'(1,4) m by (cases m) (simp add: link_remove_def put_prev_def put_next_def)
  show "link_is_empty a h = Some (xs = [])"
    using assms(1) by (cases xs) (auto simp: ring_def link_is_empty_def)
  fix ys b zs
  assume xs: "xs = ys @ b # zs"
  have ring: "ring h' (b # zs @ ys)" using h'(2) xs ring_from by simp
  have new: "a \<notin> set (b # zs @ ys)" using a(2) xs by auto
  obtain h1 where "link_after b a h' = Some h1" "ring h1 (b # a # zs @ ys)" "\<forall>y. y \<notin> set (b # a # zs @ ys) \<longrightarrow> h1 y = h' y"
    using link_after_ring [OF ring new a(1)] by blast
  then show "\<exists>h'. link_move_after b a h = Some h' \<and> ring h' (ys @ b # a # zs) \<and> (\<forall>y. y \<notin> set (a # xs) \<longrightarrow> h' y = h y)"
    using h' xs ring_rotate [of h1 "b # a # zs" ys] by (auto simp: move_eqs)
  obtain h2 where "link_before b a h' = Some h2" "ring h2 (a # b # zs @ ys)" "\<forall>y. y \<notin> set (b # a # zs @ ys) \<longrightarrow> h2 y = h' y"
    using link_before_ring [OF ring new a(1)] by blast
  then show "\<exists>h'. link_move_before b a h = Some h' \<and> ring h' (ys @ a # b # zs) \<and> (\<forall>y. y \<notin> set (a # xs) \<longrightarrow> h' y = h y)"
    using h' xs ring_rotate [of h2 "a # b # zs" ys] by (auto simp: move_eqs)
qed

theorem link_refines_ring_witness:
  "\<exists>h'. link_after 8 16 [8 \<mapsto> \<lparr>link_prev = 8, link_next = 8\<rparr>, 16 \<mapsto> \<lparr>link_prev = 0, link_next = 0\<rparr>] = Some h' \<and> ring h' [8, 16]"
  using link_refines_ring [of "[8 \<mapsto> \<lparr>link_prev = 8, link_next = 8\<rparr>, 16 \<mapsto> \<lparr>link_prev = 0, link_next = 0\<rparr>]" 8 "[]" 16]
  by (simp add: ring_def) blast

end
