(* ===== verification/Blockdev.thy ===== *)
theory Blockdev
  imports Alloc_Plan
begin

text \<open>
  The block device layer, kernel/src/drivers/blockdev.c: classes of devices with the functions of their
  driver, the devices of a class, and access to byte ranges of a device in whole sectors.

  The functions of a driver act on a state \<open>'h\<close> of the hardware. A buffer is the memory from its pointer
  on. The list of devices is the sequence of its payloads; the texts that describe classes and devices
  are left out. Mounting a device at /dev/hda is recorded in \<open>bd_mounts\<close>.
\<close>

subsection \<open>State\<close>

type_synonym 'h sector_read = "u32 \<Rightarrow> u32 \<Rightarrow> u32 \<Rightarrow> 'h \<Rightarrow> (u32 \<times> u8 list \<times> 'h) option"
type_synonym 'h sector_write = "u32 \<Rightarrow> u32 \<Rightarrow> u32 \<Rightarrow> u8 list \<Rightarrow> 'h \<Rightarrow> (u32 \<times> 'h) option"

record blockdev_instance =
  bi_minor :: u32
  bi_block_size :: u64
  bi_capacity :: u64
  bi_ref_count :: u32

record 'h blockdev_class =
  bc_major :: u32
  bc_read :: "'h sector_read"
  bc_write :: "'h sector_write"
  bc_instances :: "blockdev_instance list option"

record 'h blockdevs =
  bd_classes :: "'h blockdev_class option list"
  bd_hw :: 'h
  bd_plan :: plan
  bd_mounts :: "(u32 \<times> u32 \<times> u64) list"

definition NUM_BLOCKDEV_CLASSES :: nat where
  "NUM_BLOCKDEV_CLASSES = 2"

definition no_classes :: "'h blockdev_class option list" where
  "no_classes = replicate NUM_BLOCKDEV_CLASSES None"

subsection \<open>Classes and devices\<close>

text \<open>The outer \<open>None\<close> is a class without a list, as a failed \<open>list_create\<close> leaves it.\<close>

definition get_blockdev_instance :: "'h blockdev_class \<Rightarrow> u32 \<Rightarrow> (nat \<times> 'h blockdev_class) option option" where
  "get_blockdev_instance c minor = do {
     xs \<leftarrow> bc_instances c;
     Some
       (case List.find (\<lambda>i. bi_minor (xs ! i) = minor) [0..<length xs] of
          None \<Rightarrow> None
        | Some i \<Rightarrow>
            Some (i, c\<lparr>bc_instances := Some (xs[i := (xs ! i)\<lparr>bi_ref_count := bi_ref_count (xs ! i) + 1\<rparr>])\<rparr>))
   }"

definition release_blockdev_instance :: "nat \<Rightarrow> 'h blockdev_class \<Rightarrow> 'h blockdev_class option" where
  "release_blockdev_instance i c = do {
     xs \<leftarrow> bc_instances c;
     x \<leftarrow> idx xs i;
     Some (c\<lparr>bc_instances := Some (xs[i := x\<lparr>bi_ref_count := bi_ref_count x - 1\<rparr>])\<rparr>)
   }"

definition set_class :: "'h blockdevs \<Rightarrow> nat \<Rightarrow> 'h blockdev_class \<Rightarrow> 'h blockdevs" where
  "set_class st m c = st\<lparr>bd_classes := (bd_classes st)[m := Some c]\<rparr>"

text \<open>The first test lets \<open>NUM_BLOCKDEV_CLASSES\<close> itself pass, which is no place of the array.\<close>

definition reg_blockdev_class ::
    "u64 \<Rightarrow> 'h sector_read \<Rightarrow> 'h sector_write \<Rightarrow> 'h blockdevs \<Rightarrow> (int \<times> 'h blockdevs) option" where
  "reg_blockdev_class major rd wr st =
     (if unat major > NUM_BLOCKDEV_CLASSES then Some (-1, st)
      else do {
        c \<leftarrow> idx (bd_classes st) (unat major);
        case c of
          Some _ \<Rightarrow> Some (-1, st)
        | None \<Rightarrow>
            (case malloc (bd_plan st) of
               (False, pl) \<Rightarrow> Some (-1, st\<lparr>bd_plan := pl\<rparr>)
             | (True, pl) \<Rightarrow>
                 (let (ok, pl) = malloc pl;
                      c = \<lparr>bc_major = ucast major, bc_read = rd, bc_write = wr,
                        bc_instances = (if ok then Some [] else None)\<rparr>
                  in Some (0, set_class (st\<lparr>bd_plan := pl\<rparr>) (unat major) c)))
      })"

text \<open>
  A new device is put at the end of its class, unless \<open>list_insert\<close> gets no memory for its node. The
  memory of the file node is used without a test.
\<close>

definition add_instance :: "u32 \<Rightarrow> blockdev_instance \<Rightarrow> 'h blockdev_class \<Rightarrow> 'h blockdevs \<Rightarrow> (int \<times> 'h blockdevs) option" where
  "add_instance major x c st = do {
     xs \<leftarrow> bc_instances c;
     let (node, pl) = malloc (bd_plan st);
     let st = set_class st (unat major) (c\<lparr>bc_instances := Some (if node then xs @ [x] else xs)\<rparr>);
     let (fnode, pl) = malloc pl;
     if fnode
     then Some (0, st\<lparr>bd_plan := pl, bd_mounts := bd_mounts st @ [(major, bi_minor x, bi_capacity x * bi_block_size x)]\<rparr>)
     else None
   }"

definition reg_blockdev_instance ::
    "u32 \<Rightarrow> u32 \<Rightarrow> u64 \<Rightarrow> u64 \<Rightarrow> 'h blockdevs \<Rightarrow> (int \<times> 'h blockdevs) option" where
  "reg_blockdev_instance major minor block_size capacity st =
     (if unat major > NUM_BLOCKDEV_CLASSES \<or> block_size = 0 \<or> capacity = 0 then Some (-1, st)
      else do {
        c \<leftarrow> idx (bd_classes st) (unat major);
        case c of
          None \<Rightarrow> Some (-1, st)
        | Some c \<Rightarrow> do {
            f \<leftarrow> get_blockdev_instance c minor;
            case f of
              Some (i, c) \<Rightarrow> do {
                c \<leftarrow> release_blockdev_instance i c;
                Some (0, set_class st (unat major) c)
              }
            | None \<Rightarrow>
                (case malloc (bd_plan st) of
                   (False, pl) \<Rightarrow> Some (-1, st\<lparr>bd_plan := pl\<rparr>)
                 | (True, pl) \<Rightarrow>
                     add_instance major
                       \<lparr>bi_minor = minor, bi_block_size = block_size, bi_capacity = capacity, bi_ref_count = 0\<rparr>
                       c (st\<lparr>bd_plan := pl\<rparr>))
          }
      })"

definition unreg_blockdev_instance :: "u32 \<Rightarrow> u32 \<Rightarrow> 'h blockdevs \<Rightarrow> (int \<times> 'h blockdevs) option" where
  "unreg_blockdev_instance major minor st =
     (if unat major > NUM_BLOCKDEV_CLASSES then Some (-1, st)
      else do {
        c \<leftarrow> idx (bd_classes st) (unat major);
        case c of
          None \<Rightarrow> Some (-1, st)
        | Some c \<Rightarrow> do {
            f \<leftarrow> get_blockdev_instance c minor;
            case f of
              None \<Rightarrow> Some (-1, st)
            | Some (i, c) \<Rightarrow> do {
                xs \<leftarrow> bc_instances c;
                x \<leftarrow> idx xs i;
                if bi_ref_count x > 1 then do {
                  c \<leftarrow> release_blockdev_instance i c;
                  Some (-1, set_class st (unat major) c)
                }
                else Some (0, set_class st (unat major) (c\<lparr>bc_instances := Some (take i xs @ drop (Suc i) xs)\<rparr>))
              }
          }
      })"

subsection \<open>Reading\<close>

text \<open>
  One sector into memory of its own. The first component of the result is \<open>None\<close> where the code returns
  -1. A driver that reports success without filling the sector leaves memory that was never written.
\<close>

definition read_sector ::
    "(u32 \<Rightarrow> u32 \<Rightarrow> 'h \<Rightarrow> (u32 \<times> u8 list \<times> 'h) option) \<Rightarrow> u64 \<Rightarrow> u32 \<Rightarrow> 'h \<Rightarrow> plan \<Rightarrow> (u8 list option \<times> 'h \<times> plan) option" where
  "read_sector rd bs block hw pl =
     (case malloc pl of
        (False, pl) \<Rightarrow> Some (None, hw, pl)
      | (True, pl) \<Rightarrow> do {
          (n, tmp, hw) \<leftarrow> rd block 1 hw;
          if n = 0 then Some (None, hw, pl)
          else if length tmp = unat bs then Some (Some tmp, hw, pl) else None
        })"

text \<open>The part of the first sector: the position in the buffer and the sector to go on with.\<close>

definition read_head ::
    "(u32 \<Rightarrow> u32 \<Rightarrow> 'h \<Rightarrow> (u32 \<times> u8 list \<times> 'h) option) \<Rightarrow> u64 \<Rightarrow> u32 \<Rightarrow> u64 \<Rightarrow> u8 list \<Rightarrow> 'h \<Rightarrow> plan \<Rightarrow>
     ((nat \<times> u32) option \<times> u8 list \<times> 'h \<times> plan) option" where
  "read_head rd bs block delta buf hw pl =
     (if delta = 0 then Some (Some (0, block), buf, hw, pl)
      else do {
        (r, hw, pl) \<leftarrow> read_sector rd bs block hw pl;
        case r of
          None \<Rightarrow> Some (None, buf, hw, pl)
        | Some tmp \<Rightarrow> do {
            buf \<leftarrow> put_bytes buf 0 (drop (unat delta) tmp);
            Some (Some (unat (bs - delta), block + 1), buf, hw, pl)
          }
      })"

partial_function (option) read_loop ::
    "(u32 \<Rightarrow> u32 \<Rightarrow> 'h \<Rightarrow> (u32 \<times> u8 list \<times> 'h) option) \<Rightarrow> u64 \<Rightarrow> u32 \<Rightarrow> u32 \<Rightarrow> nat \<Rightarrow> u8 list \<Rightarrow> 'h \<Rightarrow>
     ((nat \<times> u32) option \<times> u8 list \<times> 'h) option" where
  "read_loop rd bs nblocks block dest buf hw =
     (if nblocks = 0 then Some (Some (dest, block), buf, hw)
      else do {
        (n, bytes, hw) \<leftarrow> rd block nblocks hw;
        buf \<leftarrow> put_bytes buf dest bytes;
        if n = 0 then Some (None, buf, hw)
        else read_loop rd bs (nblocks - n) (block + n) (dest + unat (ucast n * bs)) buf hw
      })"

definition read_tail ::
    "(u32 \<Rightarrow> u32 \<Rightarrow> 'h \<Rightarrow> (u32 \<times> u8 list \<times> 'h) option) \<Rightarrow> u64 \<Rightarrow> u32 \<Rightarrow> u64 \<Rightarrow> nat \<Rightarrow> u8 list \<Rightarrow> 'h \<Rightarrow> plan \<Rightarrow>
     (bool \<times> u8 list \<times> 'h \<times> plan) option" where
  "read_tail rd bs block delta dest buf hw pl =
     (if delta = 0 then Some (True, buf, hw, pl)
      else do {
        (r, hw, pl) \<leftarrow> read_sector rd bs block hw pl;
        case r of
          None \<Rightarrow> Some (False, buf, hw, pl)
        | Some tmp \<Rightarrow> do {
            buf \<leftarrow> put_bytes buf dest (take (unat delta) tmp);
            Some (True, buf, hw, pl)
          }
      })"

text \<open>The number of whole sectors behind the first part: the difference is truncated to 32 bits.\<close>

definition whole_sectors :: "u32 \<Rightarrow> u64 \<Rightarrow> u64 \<Rightarrow> u32 \<Rightarrow> u32" where
  "whole_sectors offset len bs block = ucast ((ucast offset + len) div bs - ucast block)"

definition read_range ::
    "(u32 \<Rightarrow> u32 \<Rightarrow> 'h \<Rightarrow> (u32 \<times> u8 list \<times> 'h) option) \<Rightarrow> u64 \<Rightarrow> u32 \<Rightarrow> u64 \<Rightarrow> u8 list \<Rightarrow> 'h \<Rightarrow> plan \<Rightarrow>
     (bool \<times> u8 list \<times> 'h \<times> plan) option" where
  "read_range rd bs offset len buf hw pl =
     (if bs = 0 then None
      else do {
        (r, buf, hw, pl) \<leftarrow> read_head rd bs (ucast (ucast offset div bs)) (ucast offset mod bs) buf hw pl;
        case r of
          None \<Rightarrow> Some (False, buf, hw, pl)
        | Some (dest, block) \<Rightarrow> do {
            (r, buf, hw) \<leftarrow> read_loop rd bs (whole_sectors offset len bs block) block dest buf hw;
            case r of
              None \<Rightarrow> Some (False, buf, hw, pl)
            | Some (dest, block) \<Rightarrow> read_tail rd bs block ((ucast offset + len) mod bs) dest buf hw pl
          }
      })"

text \<open>What \<open>blockdev_read\<close> and \<open>blockdev_write\<close> do around the access to the device.\<close>

definition on_instance :: "'h blockdevs \<Rightarrow> u32 \<Rightarrow> u32 \<Rightarrow> u8 list \<Rightarrow>
    ('h blockdev_class \<Rightarrow> u64 \<Rightarrow> 'h \<Rightarrow> plan \<Rightarrow> (bool \<times> u8 list \<times> 'h \<times> plan) option) \<Rightarrow>
    (u32 \<times> u8 list \<times> 'h blockdevs) option" where
  "on_instance st major minor buf access =
     (if unat major > NUM_BLOCKDEV_CLASSES then Some (-1, buf, st)
      else do {
        c \<leftarrow> idx (bd_classes st) (unat major);
        case c of
          None \<Rightarrow> Some (-1, buf, st)
        | Some c \<Rightarrow> do {
            f \<leftarrow> get_blockdev_instance c minor;
            case f of
              None \<Rightarrow> Some (-1, buf, st)
            | Some (i, c) \<Rightarrow> do {
                xs \<leftarrow> bc_instances c;
                x \<leftarrow> idx xs i;
                (ok, buf, hw, pl) \<leftarrow> access c (bi_block_size x) (bd_hw st) (bd_plan st);
                c \<leftarrow> release_blockdev_instance i c;
                Some (if ok then 0 else -1, buf, set_class (st\<lparr>bd_hw := hw, bd_plan := pl\<rparr>) (unat major) c)
              }
          }
      })"

definition blockdev_read ::
    "u32 \<Rightarrow> u32 \<Rightarrow> u32 \<Rightarrow> u64 \<Rightarrow> u8 list \<Rightarrow> 'h blockdevs \<Rightarrow> (u32 \<times> u8 list \<times> 'h blockdevs) option" where
  "blockdev_read major minor offset len buf st =
     on_instance st major minor buf (\<lambda>c bs hw pl. read_range (bc_read c minor) bs offset len buf hw pl)"

text \<open>The function of the file node: the offset of 64 bits is cut to 32.\<close>

definition read_blockdev_fs ::
    "u32 \<times> u32 \<Rightarrow> u64 \<Rightarrow> u32 \<Rightarrow> u8 list \<Rightarrow> 'h blockdevs \<Rightarrow> (u32 \<times> u8 list \<times> 'h blockdevs) option" where
  "read_blockdev_fs node offset sz buf st =
     (let (major, minor) = node in blockdev_read major minor (ucast offset) (ucast sz) buf st)"

subsection \<open>Writing\<close>

text \<open>The first part of an unaligned write copies from the sector to the caller's buffer.\<close>

definition write_head ::
    "(u32 \<Rightarrow> u32 \<Rightarrow> 'h \<Rightarrow> (u32 \<times> u8 list \<times> 'h) option) \<Rightarrow> (u32 \<Rightarrow> u32 \<Rightarrow> u8 list \<Rightarrow> 'h \<Rightarrow> (u32 \<times> 'h) option) \<Rightarrow>
     u64 \<Rightarrow> u32 \<Rightarrow> u64 \<Rightarrow> u8 list \<Rightarrow> 'h \<Rightarrow> plan \<Rightarrow> ((nat \<times> u32) option \<times> u8 list \<times> 'h \<times> plan) option" where
  "write_head rd wr bs block delta buf hw pl =
     (if delta = 0 then Some (Some (0, block), buf, hw, pl)
      else do {
        (r, hw, pl) \<leftarrow> read_sector rd bs block hw pl;
        case r of
          None \<Rightarrow> Some (None, buf, hw, pl)
        | Some tmp \<Rightarrow> do {
            buf \<leftarrow> put_bytes buf 0 (drop (unat delta) tmp);
            (n, hw) \<leftarrow> wr block 1 tmp hw;
            if n = 0 then Some (None, buf, hw, pl)
            else Some (Some (unat (bs - delta), block + 1), buf, hw, pl)
          }
      })"

partial_function (option) write_loop ::
    "(u32 \<Rightarrow> u32 \<Rightarrow> u8 list \<Rightarrow> 'h \<Rightarrow> (u32 \<times> 'h) option) \<Rightarrow> u64 \<Rightarrow> u32 \<Rightarrow> u32 \<Rightarrow> nat \<Rightarrow> u8 list \<Rightarrow> 'h \<Rightarrow>
     ((nat \<times> u32) option \<times> 'h) option" where
  "write_loop wr bs nblocks block src buf hw =
     (if nblocks = 0 then Some (Some (src, block), hw)
      else do {
        (n, hw) \<leftarrow> wr block nblocks (drop src buf) hw;
        if n = 0 then Some (None, hw)
        else write_loop wr bs (nblocks - n) (block + n) (src + unat (ucast n * bs)) buf hw
      })"

definition write_tail ::
    "(u32 \<Rightarrow> u32 \<Rightarrow> 'h \<Rightarrow> (u32 \<times> u8 list \<times> 'h) option) \<Rightarrow> (u32 \<Rightarrow> u32 \<Rightarrow> u8 list \<Rightarrow> 'h \<Rightarrow> (u32 \<times> 'h) option) \<Rightarrow>
     u64 \<Rightarrow> u32 \<Rightarrow> u64 \<Rightarrow> nat \<Rightarrow> u8 list \<Rightarrow> 'h \<Rightarrow> plan \<Rightarrow> (bool \<times> u8 list \<times> 'h \<times> plan) option" where
  "write_tail rd wr bs block delta src buf hw pl =
     (if delta = 0 then Some (True, buf, hw, pl)
      else do {
        (r, hw, pl) \<leftarrow> read_sector rd bs block hw pl;
        case r of
          None \<Rightarrow> Some (False, buf, hw, pl)
        | Some tmp \<Rightarrow> do {
            bytes \<leftarrow> slice_bytes buf src (unat delta);
            tmp \<leftarrow> put_bytes tmp 0 bytes;
            (n, hw) \<leftarrow> wr block 1 tmp hw;
            Some (n \<noteq> 0, buf, hw, pl)
          }
      })"

definition write_range ::
    "(u32 \<Rightarrow> u32 \<Rightarrow> 'h \<Rightarrow> (u32 \<times> u8 list \<times> 'h) option) \<Rightarrow> (u32 \<Rightarrow> u32 \<Rightarrow> u8 list \<Rightarrow> 'h \<Rightarrow> (u32 \<times> 'h) option) \<Rightarrow>
     u64 \<Rightarrow> u32 \<Rightarrow> u64 \<Rightarrow> u8 list \<Rightarrow> 'h \<Rightarrow> plan \<Rightarrow> (bool \<times> u8 list \<times> 'h \<times> plan) option" where
  "write_range rd wr bs offset len buf hw pl =
     (if bs = 0 then None
      else do {
        (r, buf, hw, pl) \<leftarrow> write_head rd wr bs (ucast (ucast offset div bs)) (ucast offset mod bs) buf hw pl;
        case r of
          None \<Rightarrow> Some (False, buf, hw, pl)
        | Some (src, block) \<Rightarrow> do {
            (r, hw) \<leftarrow> write_loop wr bs (whole_sectors offset len bs block) block src buf hw;
            case r of
              None \<Rightarrow> Some (False, buf, hw, pl)
            | Some (src, block) \<Rightarrow> write_tail rd wr bs block ((ucast offset + len) mod bs) src buf hw pl
          }
      })"

definition blockdev_write ::
    "u32 \<Rightarrow> u32 \<Rightarrow> u32 \<Rightarrow> u64 \<Rightarrow> u8 list \<Rightarrow> 'h blockdevs \<Rightarrow> (u32 \<times> u8 list \<times> 'h blockdevs) option" where
  "blockdev_write major minor offset len buf st =
     on_instance st major minor buf
       (\<lambda>c bs hw pl. write_range (bc_read c minor) (bc_write c minor) bs offset len buf hw pl)"

text \<open>Every device writes to device 0 of class 0.\<close>

definition write_blockdev_fs ::
    "u32 \<times> u32 \<Rightarrow> u64 \<Rightarrow> u32 \<Rightarrow> u8 list \<Rightarrow> 'h blockdevs \<Rightarrow> (u32 \<times> u8 list \<times> 'h blockdevs) option" where
  "write_blockdev_fs node offset sz buf st = blockdev_write 0 0 (ucast offset) (ucast sz) buf st"

subsection \<open>Drivers\<close>

text \<open>
  What the layer expects of a driver. A request of sectors that all lie on the device transfers some of
  them, from the first one on, and at least one.
\<close>

definition reads_sectors ::
    "('h \<Rightarrow> u8 list) \<Rightarrow> nat \<Rightarrow> (u32 \<Rightarrow> u32 \<Rightarrow> 'h \<Rightarrow> (u32 \<times> u8 list \<times> 'h) option) \<Rightarrow> bool" where
  "reads_sectors content bs rd \<longleftrightarrow>
     (\<forall>block n h. 0 < n \<longrightarrow> (unat block + unat n) * bs \<le> length (content h) \<longrightarrow>
        (\<exists>k h'. rd block n h = Some (k, range_of (content h) (unat block * bs) (unat k * bs), h') \<and>
           0 < k \<and> k \<le> n \<and> content h' = content h))"

definition writes_sectors ::
    "('h \<Rightarrow> u8 list) \<Rightarrow> nat \<Rightarrow> (u32 \<Rightarrow> u32 \<Rightarrow> u8 list \<Rightarrow> 'h \<Rightarrow> (u32 \<times> 'h) option) \<Rightarrow> bool" where
  "writes_sectors content bs wr \<longleftrightarrow>
     (\<forall>block n src h. 0 < n \<longrightarrow> (unat block + unat n) * bs \<le> length (content h) \<longrightarrow> unat n * bs \<le> length src \<longrightarrow>
        (\<exists>k h'. wr block n src h = Some (k, h') \<and> 0 < k \<and> k \<le> n \<and>
           content h' = patch (content h) (unat block * bs) (take (unat k * bs) src)))"

lemma reads_sectorsE:
  assumes "reads_sectors content bs rd" "0 < n" "(unat block + unat n) * bs \<le> length (content h)"
  obtains k h' where "rd block n h = Some (k, range_of (content h) (unat block * bs) (unat k * bs), h')"
    "0 < k" "k \<le> n" "content h' = content h"
  using assms unfolding reads_sectors_def by blast

lemma writes_sectorsE:
  assumes "writes_sectors content bs wr" "0 < n" "(unat block + unat n) * bs \<le> length (content h)"
    "unat n * bs \<le> length src"
  obtains k h' where "wr block n src h = Some (k, h')" "0 < k" "k \<le> n"
    "content h' = patch (content h) (unat block * bs) (take (unat k * bs) src)"
  using assms unfolding writes_sectors_def by blast

text \<open>Sizes of a device that 32-bit offsets reach.\<close>

lemma unat_ucast_up:
  assumes "LENGTH('a::len) \<le> LENGTH('b::len)"
  shows "unat (ucast (w :: 'a word) :: 'b word) = unat w"
proof -
  have "unat w < 2 ^ LENGTH('a)" by (rule unsigned_less)
  also have "(2::nat) ^ LENGTH('a) \<le> 2 ^ LENGTH('b)" using assms by (rule power_increasing) simp
  finally show ?thesis by (simp add: unsigned_ucast_eq take_bit_nat_eq_self)
qed

lemma sectors_bytes:
  assumes "0 < bs" "n * unat bs \<le> 2 ^ 32" "unat (k :: u32) \<le> n"
  shows "unat (ucast k * bs :: u64) = unat k * unat bs"
proof -
  have "unat k * unat bs \<le> n * unat bs" using assms(3) by (rule mult_le_mono1)
  also note assms(2)
  also have "(2::nat) ^ 32 < 2 ^ 64" by simp
  finally have "unat k * unat bs < 2 ^ 64" .
  moreover have "unat (ucast k :: u64) = unat k" by (rule unat_ucast_up) simp
  ultimately show ?thesis by (simp add: unat_word_ariths)
qed

lemma unat_add_sectors:
  fixes block k :: u32
  assumes "0 < bs" "(unat block + n) * bs \<le> 2 ^ 32" "unat k < n"
  shows "unat (block + k) = unat block + unat k"
proof -
  have "unat block + n \<le> (unat block + n) * bs" using assms(1) by simp
  then have "unat block + unat k < 2 ^ 32" using assms by linarith
  then show ?thesis by (simp add: unat_add_lem [THEN iffD1])
qed

lemma read_loop_reads:
  assumes rd: "reads_sectors content (unat bs) rd" and bs: "0 < bs"
  shows "(unat block + unat n) * unat bs \<le> length (content hw) \<Longrightarrow> (unat block + unat n) * unat bs \<le> 2 ^ 32 \<Longrightarrow>
     dest + unat n * unat bs \<le> length buf \<Longrightarrow>
     \<exists>hw'. read_loop rd bs n block dest buf hw =
       Some (Some (dest + unat n * unat bs, block + n),
         patch buf dest (range_of (content hw) (unat block * unat bs) (unat n * unat bs)), hw') \<and>
       content hw' = content hw"
proof (induction "unat n" arbitrary: n block dest buf hw rule: less_induct)
  case less
  have b0: "0 < unat bs" using bs by (simp add: word_less_nat_alt)
  show ?case
  proof (cases "n = 0")
    case True
    then show ?thesis by (simp add: read_loop.simps range_of_def)
  next
    case False
    then have "0 < n" by (simp add: word_neq_0_conv)
    from reads_sectorsE [OF rd this less.prems(1)] obtain k h where
      k: "rd block n hw = Some (k, range_of (content hw) (unat block * unat bs) (unat k * unat bs), h)"
         "0 < k" "k \<le> n" "content h = content hw" by metis
    have kn: "unat k \<le> unat n" "0 < unat k" using k by (simp_all add: word_le_nat_alt word_less_nat_alt)
    have sub: "unat (n - k) = unat n - unat k" using k(3) by (simp add: unat_sub)
    note all = less.prems(2)
    then have nb: "unat n * unat bs \<le> 2 ^ 32" by (simp add: distrib_right)
    have kb: "unat (ucast k * bs :: u64) = unat k * unat bs"
      by (rule sectors_bytes [OF bs nb kn(1)])
    have split: "unat n * unat bs = unat k * unat bs + unat (n - k) * unat bs"
      using kn by (simp add: sub flip: distrib_right)
    have len: "length (range_of (content hw) (unat block * unat bs) (unat k * unat bs)) = unat k * unat bs"
      using less.prems(1) split by (simp add: distrib_right)
    let ?buf = "patch buf dest (range_of (content hw) (unat block * unat bs) (unat k * unat bs))"
    have put: "put_bytes buf dest (range_of (content hw) (unat block * unat bs) (unat k * unat bs)) = Some ?buf"
      using less.prems(3) split len by (simp add: put_bytes_in)
    have lb: "length ?buf = length buf" using less.prems(3) split len by simp
    have step: "read_loop rd bs n block dest buf hw =
        read_loop rd bs (n - k) (block + k) (dest + unat k * unat bs) ?buf h"
      using False word_gt_0 [THEN iffD1, OF k(2)] k(1) put by (subst read_loop.simps) (simp add: kb)
    show ?thesis
    proof (cases "k = n")
      case True
      then show ?thesis using k(4) unfolding step by (simp add: read_loop.simps [of rd bs 0])
    next
      case False
      then have lt: "unat k < unat n" using kn by (metis le_neq_implies_less word_unat_eq_iff)
      have blk: "unat (block + k) = unat block + unat k"
        by (rule unat_add_sectors [OF b0 all lt])
      have "(unat (block + k) + unat (n - k)) * unat bs \<le> length (content h)"
        using less.prems(1) lt k(4) by (simp add: blk sub)
      moreover have "dest + unat k * unat bs + unat (n - k) * unat bs \<le> length ?buf"
        using less.prems(3) split lb by linarith
      moreover have "(unat (block + k) + unat (n - k)) * unat bs \<le> 2 ^ 32"
        using all lt by (simp add: blk sub)
      moreover have "unat (n - k) < unat n" using sub kn by simp
      ultimately obtain hw' where
        "read_loop rd bs (n - k) (block + k) (dest + unat k * unat bs) ?buf h =
         Some (Some (dest + unat k * unat bs + unat (n - k) * unat bs, block + k + (n - k)),
           patch ?buf (dest + unat k * unat bs)
             (range_of (content hw) (unat (block + k) * unat bs) (unat (n - k) * unat bs)), hw')"
        "content hw' = content hw"
        using less.hyps [of "n - k" "block + k" h "dest + unat k * unat bs" ?buf] k(4) by auto
      moreover have "patch ?buf (dest + unat k * unat bs)
          (range_of (content hw) (unat (block + k) * unat bs) (unat (n - k) * unat bs)) =
        patch buf dest (range_of (content hw) (unat block * unat bs) (unat n * unat bs))"
      proof -
        have "length (range_of (content hw) ((unat block + unat k) * unat bs) (unat (n - k) * unat bs)) = unat (n - k) * unat bs"
          using less.prems(1) split by (simp add: distrib_right)
        then have "patch ?buf (dest + length (range_of (content hw) (unat block * unat bs) (unat k * unat bs)))
            (range_of (content hw) ((unat block + unat k) * unat bs) (unat (n - k) * unat bs)) =
          patch buf dest (range_of (content hw) (unat block * unat bs) (unat k * unat bs) @
            range_of (content hw) ((unat block + unat k) * unat bs) (unat (n - k) * unat bs))"
          using less.prems(3) split len by (intro patch_patch) linarith
        then show ?thesis by (simp add: len blk split range_of_add distrib_right)
      qed
      ultimately show ?thesis using split by (simp add: step)
    qed
  qed
qed

subsection \<open>The parts of a range of bytes\<close>

text \<open>The bytes before the first whole sector, that sector, and the number of whole sectors.\<close>

definition head_bytes :: "nat \<Rightarrow> nat \<Rightarrow> nat" where
  "head_bytes b off = (if off mod b = 0 then 0 else b - off mod b)"

definition first_sector :: "nat \<Rightarrow> nat \<Rightarrow> nat" where
  "first_sector b off = off div b + (if off mod b = 0 then 0 else 1)"

lemma sector_parts:
  assumes "0 < b" and "off mod b = 0 \<or> b \<le> off mod b + L"
  shows "off + head_bytes b off = first_sector b off * b"
    and "first_sector b off \<le> (off + L) div b"
    and "L = head_bytes b off + ((off + L) div b - first_sector b off) * b + (off + L) mod b"
proof -
  show 1: "off + head_bytes b off = first_sector b off * b"
  proof (cases "off mod b = 0")
    case True
    then show ?thesis using div_mult_mod_eq [of off b] by (simp add: head_bytes_def first_sector_def)
  next
    case False
    obtain q r where qr: "off div b = q" "off mod b = r" "off = q * b + r" by (metis div_mult_mod_eq)
    have "r < b" using qr(2) assms(1) by auto
    then show ?thesis using False unfolding head_bytes_def first_sector_def qr(1,2) by (simp add: qr(3))
  qed
  have "off + head_bytes b off \<le> off + L" using assms(2) by (auto simp: head_bytes_def)
  then have le: "first_sector b off * b \<le> off + L" using 1 by simp
  show 2: "first_sector b off \<le> (off + L) div b" using assms(1) le by (simp add: less_eq_div_iff_mult_less_eq)
  have "off + L = (off + L) div b * b + (off + L) mod b" by simp
  moreover have "((off + L) div b - first_sector b off) * b = (off + L) div b * b - first_sector b off * b"
    by (simp add: diff_mult_distrib)
  moreover have "first_sector b off * b \<le> (off + L) div b * b" using 2 by simp
  ultimately show "L = head_bytes b off + ((off + L) div b - first_sector b off) * b + (off + L) mod b"
    using 1 by linarith
qed

text \<open>
  A range the code reads and writes as it should: it ends below 2^32 and on the device, and when it
  starts inside a sector it reaches the end of that sector.
\<close>

definition range_ok :: "u32 \<Rightarrow> u64 \<Rightarrow> u64 \<Rightarrow> nat \<Rightarrow> bool" where
  "range_ok offset len bs n \<longleftrightarrow> 0 < bs \<and> unat bs dvd n \<and> unat offset + unat len \<le> n \<and>
     unat offset + unat len < 2 ^ 32 \<and>
     (unat offset mod unat bs = 0 \<or> unat bs \<le> unat offset mod unat bs + unat len)"

lemma range_words:
  assumes "range_ok offset len bs n"
  shows "unat (ucast (ucast offset div bs :: u64) :: u32) = unat offset div unat bs"
    and "unat (ucast offset mod bs :: u64) = unat offset mod unat bs"
    and "unat (ucast offset + len) = unat offset + unat len"
    and "unat ((ucast offset + len) mod bs) = (unat offset + unat len) mod unat bs"
proof -
  have o: "unat (ucast offset :: u64) = unat offset" by (rule unat_ucast_up) simp
  have "unat offset div unat bs \<le> unat offset" by (rule div_le_dividend)
  also have "\<dots> < 2 ^ 32" using unsigned_less [of offset] by simp
  finally have d: "unat offset div unat bs < 2 ^ 32" .
  have "unat (ucast offset div bs :: u64) = unat offset div unat bs"
    by (simp only: unat_div o)
  then show "unat (ucast (ucast offset div bs :: u64) :: u32) = unat offset div unat bs"
    using d by (simp only: unsigned_ucast_eq) (simp add: take_bit_nat_eq_self)
  show "unat (ucast offset mod bs :: u64) = unat offset mod unat bs"
    by (simp only: unat_mod o)
  have "unat offset + unat len < 2 ^ 32" using assms by (simp add: range_ok_def)
  also have "(2::nat) ^ 32 < 2 ^ 64" by simp
  finally show e: "unat (ucast offset + len) = unat offset + unat len"
    by (simp add: unat_word_ariths o)
  show "unat ((ucast offset + len) mod bs) = (unat offset + unat len) mod unat bs"
    by (simp only: unat_mod e)
qed

lemma range_whole:
  assumes "range_ok offset len bs n" and b: "unat block \<le> (unat offset + unat len) div unat bs"
  shows "unat (whole_sectors offset len bs block) = (unat offset + unat len) div unat bs - unat block"
proof -
  let ?q = "(unat offset + unat len) div unat bs"
  have "unat (ucast block :: u64) = unat block" by (rule unat_ucast_up) simp
  moreover have "unat ((ucast offset + len) div bs) = ?q"
    by (simp only: unat_div range_words(3) [OF assms(1)])
  ultimately have "unat ((ucast offset + len) div bs - ucast block :: u64) = ?q - unat block"
    using b by (simp add: unat_sub word_le_nat_alt)
  moreover have "?q - unat block < 2 ^ 32"
  proof -
    have "?q - unat block \<le> unat offset + unat len" by (meson diff_le_self div_le_dividend le_trans)
    also have "\<dots> < 2 ^ 32" using assms(1) by (simp add: range_ok_def)
    finally show ?thesis .
  qed
  ultimately show ?thesis
    unfolding whole_sectors_def by (simp only: unsigned_ucast_eq) (simp add: take_bit_nat_eq_self)
qed

lemma range_tail:
  assumes "range_ok offset len bs n" and "(unat offset + unat len) mod unat bs \<noteq> 0"
  shows "((unat offset + unat len) div unat bs + 1) * unat bs \<le> n"
proof -
  let ?b = "unat bs" and ?e = "unat offset + unat len"
  obtain m where m: "n = m * ?b" using assms(1) unfolding range_ok_def by (metis dvdE mult.commute)
  have "?e div ?b * ?b < ?e" using assms(2) div_mult_mod_eq [of ?e ?b] by linarith
  also have "?e \<le> m * ?b" using assms(1) m by (simp add: range_ok_def)
  finally have "?e div ?b < m" by simp
  then show ?thesis unfolding m by (intro mult_le_mono1) simp
qed

lemma range_first:
  fixes block :: u32
  assumes "range_ok offset len bs n" and b: "unat block = unat offset div unat bs"
  shows "unat (if unat offset mod unat bs = 0 then block else block + 1) = first_sector (unat bs) (unat offset)"
proof -
  have "unat block + 1 < 2 ^ 32" if d: "unat offset mod unat bs \<noteq> 0"
  proof -
    have "0 < unat bs" using assms(1) by (simp add: range_ok_def word_less_nat_alt)
    then have "(unat block + 1) * 1 \<le> (unat block + 1) * unat bs" by (intro mult_le_mono2) simp
    then have "unat block + 1 \<le> (unat block + 1) * unat bs" by simp
    also have "\<dots> = unat block * unat bs + unat bs" by simp
    also have "\<dots> \<le> unat block * unat bs + unat offset mod unat bs + unat len"
      using assms(1) d by (simp add: range_ok_def)
    also have "\<dots> = unat offset + unat len" unfolding b by (simp add: div_mult_mod_eq)
    finally show ?thesis using assms(1) by (simp add: range_ok_def)
  qed
  then show ?thesis by (auto simp: first_sector_def b unat_word_ariths)
qed

subsection \<open>Reading a range\<close>

lemma read_sector_reads:
  assumes rd: "reads_sectors content (unat bs) rd" and dev: "(unat block + 1) * unat bs \<le> length (content hw)"
  shows "\<exists>hw'. read_sector rd bs block hw [] =
      Some (Some (range_of (content hw) (unat block * unat bs) (unat bs)), hw', []) \<and> content hw' = content hw"
proof -
  from reads_sectorsE [OF rd, of 1 block hw] dev obtain k h where
    k: "rd block 1 hw = Some (k, range_of (content hw) (unat block * unat bs) (unat k * unat bs), h)"
       "0 < k" "k \<le> 1" "content h = content hw" by auto
  then have "k = 1" by (simp add: word_gt_0 word_le_nat_alt word_less_nat_alt word_unat_eq_iff)
  then show ?thesis using k dev by (simp add: read_sector_def)
qed

text \<open>
  The numbers of a range that is in order, as the code computes them: \<open>hb\<close> bytes up to sector \<open>fs\<close>, \<open>nb\<close>
  whole sectors, and \<open>r\<close> bytes of the sector behind them.
\<close>

definition range_split :: "u32 \<Rightarrow> u64 \<Rightarrow> u64 \<Rightarrow> nat \<Rightarrow> nat \<Rightarrow> nat \<Rightarrow> nat \<Rightarrow> bool" where
  "range_split offset len bs hb fs nb r \<longleftrightarrow>
     unat offset + hb = fs * unat bs \<and> unat len = hb + nb * unat bs + r \<and> r < unat bs \<and> fs + nb < 2 ^ 32 \<and>
     (let block = ucast (ucast offset div bs :: u64); delta = ucast offset mod bs
      in unat delta = unat offset mod unat bs \<and>
         (if delta = 0 then hb = 0 \<and> unat block = fs
          else hb = unat bs - unat delta \<and> unat (bs - delta) = hb \<and> unat delta < unat bs \<and> unat (block + 1) = fs \<and>
            unat block * unat bs + unat delta = unat offset \<and> fs = unat block + 1) \<and>
         unat (whole_sectors offset len bs (if delta = 0 then block else block + 1)) = nb) \<and>
     unat ((ucast offset + len) mod bs) = r"

lemma range_okE:
  assumes "range_ok offset len bs n"
  obtains hb fs nb r where "range_split offset len bs hb fs nb r" "r \<noteq> 0 \<Longrightarrow> (fs + nb + 1) * unat bs \<le> n"
proof -
  let ?b = "unat bs" and ?o = "unat offset" and ?L = "unat len"
  let ?q = "(?o + ?L) div ?b"
  have b: "0 < ?b" and al: "?o mod ?b = 0 \<or> ?b \<le> ?o mod ?b + ?L" and lim: "?o + ?L < 2 ^ 32"
    using assms by (auto simp: range_ok_def word_less_nat_alt)
  note parts = sector_parts [OF b al] and words = range_words [OF assms]
  define block :: u32 where "block = ucast (ucast offset div bs :: u64)"
  have ub: "unat block = ?o div ?b" unfolding block_def by (rule words(1))
  note ub1 = range_first [OF assms ub]
  have d0: "ucast offset mod bs = (0 :: u64) \<longleftrightarrow> ?o mod ?b = 0" using words(2) by (metis unat_eq_zero)
  have "?q * 1 \<le> ?q * ?b" using b by (intro mult_le_mono2) simp
  also have "?q * ?b \<le> ?o + ?L" by simp
  finally have q: "?q < 2 ^ 32" using lim by linarith
  have n: "unat (whole_sectors offset len bs (if ?o mod ?b = 0 then block else block + 1)) = ?q - first_sector ?b ?o"
    using range_whole [OF assms, of "if ?o mod ?b = 0 then block else block + 1"] parts(2) by (simp add: ub1)
  have lt: "?o mod ?b < ?b" using b by simp
  have "range_split offset len bs (head_bytes ?b ?o) (first_sector ?b ?o) (?q - first_sector ?b ?o) ((?o + ?L) mod ?b)"
    unfolding range_split_def Let_def block_def [symmetric] d0
    using parts words q ub ub1 n lt b
    by (auto simp: head_bytes_def first_sector_def unat_sub word_le_nat_alt split: if_splits)
  moreover have "(first_sector ?b ?o + (?q - first_sector ?b ?o) + 1) * ?b \<le> n" if "(?o + ?L) mod ?b \<noteq> 0"
    using range_tail [OF assms that] parts(2) by simp
  ultimately show ?thesis by (rule that)
qed

lemma read_head_reads:
  assumes rd: "reads_sectors content (unat bs) rd" and s: "range_split offset len bs hb fs nb r"
    and dev: "unat offset + unat len \<le> length (content hw)" and buf: "unat len \<le> length buf"
  shows "\<exists>block h. read_head rd bs (ucast (ucast offset div bs :: u64)) (ucast offset mod bs) buf hw [] =
      Some (Some (hb, block), patch buf 0 (range_of (content hw) (unat offset) hb), h, []) \<and> content h = content hw \<and>
      unat block = fs \<and> unat (whole_sectors offset len bs block) = nb"
proof -
  let ?C = "content hw"
  define delta :: u64 where "delta = ucast offset mod bs"
  define block :: u32 where "block = ucast (ucast offset div bs :: u64)"
  have sp: "unat offset + hb = fs * unat bs" "unat len = hb + nb * unat bs + r"
    "if delta = 0 then hb = 0 \<and> unat block = fs
     else hb = unat bs - unat delta \<and> unat (bs - delta) = hb \<and> unat delta < unat bs \<and> unat (block + 1) = fs \<and>
       unat block * unat bs + unat delta = unat offset \<and> fs = unat block + 1"
    "unat (whole_sectors offset len bs (if delta = 0 then block else block + 1)) = nb"
    by (insert s [unfolded range_split_def Let_def, folded delta_def block_def], blast+)
  show ?thesis unfolding delta_def [symmetric] block_def [symmetric]
  proof (cases "delta = 0")
    case True
    then show "\<exists>block' h. read_head rd bs block delta buf hw [] =
      Some (Some (hb, block'), patch buf 0 (range_of ?C (unat offset) hb), h, []) \<and> content h = ?C \<and>
      unat block' = fs \<and> unat (whole_sectors offset len bs block') = nb"
      using sp by (simp add: read_head_def range_of_def)
  next
    case False
    have "(unat block + 1) * unat bs \<le> length ?C" using False sp dev by simp
    from read_sector_reads [OF rd this] obtain h where
      h: "read_sector rd bs block hw [] = Some (Some (range_of ?C (unat block * unat bs) (unat bs)), h, [])"
         "content h = ?C" by auto
    have dr: "drop (unat delta) (range_of ?C (unat block * unat bs) (unat bs)) = range_of ?C (unat offset) hb"
      using False sp by (simp add: range_of_def drop_take add.commute)
    have "length (range_of ?C (unat offset) hb) = hb" using sp(2) dev by (intro length_range_of) linarith
    moreover have "hb \<le> length buf" using sp(2) buf by linarith
    ultimately have "put_bytes buf 0 (range_of ?C (unat offset) hb) = Some (patch buf 0 (range_of ?C (unat offset) hb))"
      by (simp add: put_bytes_in)
    then show "\<exists>block' h. read_head rd bs block delta buf hw [] =
      Some (Some (hb, block'), patch buf 0 (range_of ?C (unat offset) hb), h, []) \<and> content h = ?C \<and>
      unat block' = fs \<and> unat (whole_sectors offset len bs block') = nb"
      using False h sp by (simp add: read_head_def dr)
  qed
qed

lemma read_tail_reads:
  assumes rd: "reads_sectors content (unat bs) rd" and r: "unat delta < unat bs"
    and dev: "delta \<noteq> 0 \<Longrightarrow> (unat block + 1) * unat bs \<le> length (content hw)"
    and buf: "pos + unat delta \<le> length buf"
  shows "\<exists>h. read_tail rd bs block delta pos buf hw [] =
      Some (True, patch buf pos (range_of (content hw) (unat block * unat bs) (unat delta)), h, []) \<and> content h = content hw"
proof (cases "delta = 0")
  case True
  then show ?thesis by (simp add: read_tail_def range_of_def)
next
  case False
  from read_sector_reads [OF rd dev [OF False]] obtain h where
    h: "read_sector rd bs block hw [] = Some (Some (range_of (content hw) (unat block * unat bs) (unat bs)), h, [])"
       "content h = content hw" by auto
  have "take (unat delta) (range_of (content hw) (unat block * unat bs) (unat bs)) =
      range_of (content hw) (unat block * unat bs) (unat delta)"
    using r by (simp add: range_of_def min_def)
  moreover have "length (range_of (content hw) (unat block * unat bs) (unat delta)) = unat delta"
    using r dev [OF False] by simp
  ultimately show ?thesis using False h buf by (simp add: read_tail_def put_bytes_in)
qed

lemma read_range_reads:
  assumes rd: "reads_sectors content (unat bs) rd" and ok: "range_ok offset len bs (length (content hw))"
    and buf: "unat len \<le> length buf"
  shows "\<exists>hw'. read_range rd bs offset len buf hw [] =
      Some (True, patch buf 0 (range_of (content hw) (unat offset) (unat len)), hw', []) \<and> content hw' = content hw"
proof -
  let ?b = "unat bs" and ?o = "unat offset" and ?C = "content hw"
  have b: "0 < bs" and dev: "?o + unat len \<le> length ?C" "?o + unat len < 2 ^ 32"
    using ok by (auto simp: range_ok_def)
  from range_okE [OF ok] obtain hb fs nb r where s: "range_split offset len bs hb fs nb r"
    and tail: "r \<noteq> 0 \<Longrightarrow> (fs + nb + 1) * ?b \<le> length ?C" by blast
  have sp: "?o + hb = fs * ?b" "unat len = hb + nb * ?b + r" "unat ((ucast offset + len) mod bs) = r" "r < ?b"
      "fs + nb < 2 ^ 32"
    using s by (simp_all add: range_split_def)
  from read_head_reads [OF rd s dev(1) buf] obtain block h1 where
    h1: "read_head rd bs (ucast (ucast offset div bs :: u64)) (ucast offset mod bs) buf hw [] =
      Some (Some (hb, block), patch buf 0 (range_of ?C ?o hb), h1, [])" "content h1 = ?C"
      "unat block = fs" "unat (whole_sectors offset len bs block) = nb" by blast
  let ?n = "whole_sectors offset len bs block" and ?buf = "patch buf 0 (range_of ?C ?o hb)"
  have le: "(fs + nb) * ?b \<le> ?o + unat len" using sp(1,2) by (simp add: distrib_right)
  have lens: "length (range_of ?C ?o hb) = hb" "length (range_of ?C ?o (hb + nb * ?b)) = hb + nb * ?b"
      "length (range_of ?C (fs * ?b) (nb * ?b)) = nb * ?b" "length (range_of ?C (?o + (hb + nb * ?b)) r) = r"
    using sp(1,2) dev le by (simp_all add: distrib_right)
  have "\<exists>h. read_loop rd bs ?n block hb ?buf h1 =
      Some (Some (hb + unat ?n * ?b, block + ?n), patch ?buf hb (range_of (content h1) (unat block * ?b) (unat ?n * ?b)), h) \<and>
      content h = content h1"
    using le dev sp(2) buf lens by (intro read_loop_reads [OF rd b]) (simp_all add: h1)
  moreover have "patch ?buf hb (range_of ?C (fs * ?b) (nb * ?b)) = patch buf 0 (range_of ?C ?o (hb + nb * ?b))"
    using patch_patch [of 0 "range_of ?C ?o hb" "range_of ?C (fs * ?b) (nb * ?b)" buf] sp(2) buf lens
    by (simp add: range_of_add sp(1))
  ultimately obtain h2 where
    h2: "read_loop rd bs ?n block hb ?buf h1 =
      Some (Some (hb + nb * ?b, block + ?n), patch buf 0 (range_of ?C ?o (hb + nb * ?b)), h2)" "content h2 = ?C"
    by (auto simp: h1)
  have q: "unat (block + ?n) = fs + nb" using sp(5) by (simp add: unat_word_ariths h1)
  have fst: "fs * ?b + nb * ?b = ?o + (hb + nb * ?b)" using sp(1) by simp
  let ?d = "(ucast offset + len) mod bs" and ?buf2 = "patch buf 0 (range_of ?C ?o (hb + nb * ?b))"
  have "\<exists>h. read_tail rd bs (block + ?n) ?d (hb + nb * ?b) ?buf2 h2 [] =
      Some (True, patch ?buf2 (hb + nb * ?b) (range_of (content h2) (unat (block + ?n) * ?b) (unat ?d)), h, []) \<and>
      content h = content h2"
  proof (rule read_tail_reads [OF rd])
    show "(unat (block + ?n) + 1) * ?b \<le> length (content h2)" if "?d \<noteq> 0"
      using tail that sp(3) unfolding q h2(2) by (metis unat_eq_zero)
  qed (use sp(2-4) buf lens in simp_all)
  moreover have "patch ?buf2 (hb + nb * ?b) (range_of ?C ((fs + nb) * ?b) r) = patch buf 0 (range_of ?C ?o (unat len))"
    using patch_patch [of 0 "range_of ?C ?o (hb + nb * ?b)" "range_of ?C (?o + (hb + nb * ?b)) r" buf] sp(2) buf lens
    by (simp add: range_of_add [of ?C ?o "hb + nb * ?b" r] fst distrib_right)
  ultimately obtain h3 where "read_tail rd bs (block + ?n) ?d (hb + nb * ?b) ?buf2 h2 [] =
      Some (True, patch buf 0 (range_of ?C ?o (unat len)), h3, [])" "content h3 = ?C"
    by (auto simp: q h2(2) sp(3))
  then show ?thesis using b h1(1) h2(1) by (simp add: read_range_def word_gt_0)
qed

subsection \<open>Writing a range\<close>

lemma write_loop_writes:
  assumes wr: "writes_sectors content (unat bs) wr" and bs: "0 < bs"
  shows "(unat block + unat n) * unat bs \<le> length (content hw) \<Longrightarrow> (unat block + unat n) * unat bs \<le> 2 ^ 32 \<Longrightarrow>
     src + unat n * unat bs \<le> length buf \<Longrightarrow>
     \<exists>hw'. write_loop wr bs n block src buf hw = Some (Some (src + unat n * unat bs, block + n), hw') \<and>
       content hw' = patch (content hw) (unat block * unat bs) (range_of buf src (unat n * unat bs))"
proof (induction "unat n" arbitrary: n block src hw rule: less_induct)
  case less
  have b0: "0 < unat bs" using bs by (simp add: word_less_nat_alt)
  show ?case
  proof (cases "n = 0")
    case True
    then show ?thesis by (simp add: write_loop.simps range_of_def)
  next
    case False
    then have n0: "0 < n" by (simp add: word_neq_0_conv)
    have "unat n * unat bs \<le> length (drop src buf)" using less.prems(3) by simp
    from writes_sectorsE [OF wr n0 less.prems(1) this] obtain k h where
      k: "wr block n (drop src buf) hw = Some (k, h)" "0 < k" "k \<le> n"
         "content h = patch (content hw) (unat block * unat bs) (range_of buf src (unat k * unat bs))"
      by (auto simp: range_of_def)
    have kn: "unat k \<le> unat n" "0 < unat k" using k by (simp_all add: word_le_nat_alt word_less_nat_alt)
    have sub: "unat (n - k) = unat n - unat k" using k(3) by (simp add: unat_sub)
    note all = less.prems(2)
    then have nb: "unat n * unat bs \<le> 2 ^ 32" by (simp add: distrib_right)
    have kb: "unat (ucast k * bs :: u64) = unat k * unat bs"
      by (rule sectors_bytes [OF bs nb kn(1)])
    have split: "unat n * unat bs = unat k * unat bs + unat (n - k) * unat bs"
      using kn by (simp add: sub flip: distrib_right)
    have len: "length (range_of buf src (unat k * unat bs)) = unat k * unat bs"
      using less.prems(3) split by simp
    have lc: "length (content h) = length (content hw)"
      using less.prems(1) split len by (simp add: k(4) distrib_right)
    have step: "write_loop wr bs n block src buf hw =
        write_loop wr bs (n - k) (block + k) (src + unat k * unat bs) buf h"
      using False word_gt_0 [THEN iffD1, OF k(2)] k(1) by (subst write_loop.simps) (simp add: kb)
    show ?thesis
    proof (cases "k = n")
      case True
      then show ?thesis using k(4) unfolding step by (simp add: write_loop.simps [of wr bs 0])
    next
      case False
      then have lt: "unat k < unat n" using kn by (metis le_neq_implies_less word_unat_eq_iff)
      have blk: "unat (block + k) = unat block + unat k"
        by (rule unat_add_sectors [OF b0 all lt])
      have "(unat (block + k) + unat (n - k)) * unat bs \<le> length (content h)"
        using less.prems(1) lt lc by (simp add: blk sub)
      moreover have "src + unat k * unat bs + unat (n - k) * unat bs \<le> length buf"
        using less.prems(3) split by linarith
      moreover have "(unat (block + k) + unat (n - k)) * unat bs \<le> 2 ^ 32"
        using all lt by (simp add: blk sub)
      moreover have "unat (n - k) < unat n" using sub kn by simp
      ultimately obtain hw' where
        "write_loop wr bs (n - k) (block + k) (src + unat k * unat bs) buf h =
         Some (Some (src + unat k * unat bs + unat (n - k) * unat bs, block + k + (n - k)), hw')"
        "content hw' = patch (content h) (unat (block + k) * unat bs)
           (range_of buf (src + unat k * unat bs) (unat (n - k) * unat bs))"
        using less.hyps [of "n - k" "block + k" h "src + unat k * unat bs"] by auto
      moreover have "patch (content h) (unat (block + k) * unat bs)
          (range_of buf (src + unat k * unat bs) (unat (n - k) * unat bs)) =
        patch (content hw) (unat block * unat bs) (range_of buf src (unat n * unat bs))"
      proof -
        have "length (range_of buf (src + unat k * unat bs) (unat (n - k) * unat bs)) = unat (n - k) * unat bs"
          using less.prems(3) split by simp
        then have "patch (patch (content hw) (unat block * unat bs) (range_of buf src (unat k * unat bs)))
            (unat block * unat bs + length (range_of buf src (unat k * unat bs)))
            (range_of buf (src + unat k * unat bs) (unat (n - k) * unat bs)) =
          patch (content hw) (unat block * unat bs) (range_of buf src (unat k * unat bs) @
            range_of buf (src + unat k * unat bs) (unat (n - k) * unat bs))"
          using less.prems(1) split len by (intro patch_patch) (simp add: distrib_right)
        then show ?thesis by (simp add: len blk k(4) split range_of_add distrib_right)
      qed
      ultimately show ?thesis using split by (simp add: step)
    qed
  qed
qed

lemma write_sector_writes:
  assumes wr: "writes_sectors content (unat bs) wr" and dev: "(unat block + 1) * unat bs \<le> length (content hw)"
    and src: "length tmp = unat bs"
  shows "\<exists>hw'. wr block 1 tmp hw = Some (1, hw') \<and> content hw' = patch (content hw) (unat block * unat bs) tmp"
proof -
  from writes_sectorsE [OF wr, of 1 block hw tmp] dev src obtain k h where
    k: "wr block 1 tmp hw = Some (k, h)" "0 < k" "k \<le> 1"
       "content h = patch (content hw) (unat block * unat bs) (take (unat k * unat bs) tmp)" by auto
  then have "k = 1" by (simp add: word_gt_0 word_le_nat_alt word_less_nat_alt word_unat_eq_iff)
  then show ?thesis using k src by simp
qed

text \<open>The sector of the first part is read and written back.\<close>

lemma write_head_writes:
  assumes rd: "reads_sectors content (unat bs) rd" and wr: "writes_sectors content (unat bs) wr"
    and s: "range_split offset len bs hb fs nb r"
    and dev: "unat offset + unat len \<le> length (content hw)" and buf: "unat len \<le> length buf"
  shows "\<exists>block h. write_head rd wr bs (ucast (ucast offset div bs :: u64)) (ucast offset mod bs) buf hw [] =
      Some (Some (hb, block), patch buf 0 (range_of (content hw) (unat offset) hb), h, []) \<and> content h = content hw \<and>
      unat block = fs \<and> unat (whole_sectors offset len bs block) = nb"
proof -
  let ?C = "content hw"
  define delta :: u64 where "delta = ucast offset mod bs"
  define block :: u32 where "block = ucast (ucast offset div bs :: u64)"
  from read_head_reads [OF rd s dev buf] obtain b h where
    head: "read_head rd bs block delta buf hw [] = Some (Some (hb, b), patch buf 0 (range_of ?C (unat offset) hb), h, [])"
      "content h = ?C" "unat b = fs" "unat (whole_sectors offset len bs b) = nb"
    unfolding delta_def block_def by blast
  show ?thesis unfolding delta_def [symmetric] block_def [symmetric]
  proof (cases "delta = 0")
    case True
    then show "\<exists>block' h. write_head rd wr bs block delta buf hw [] =
      Some (Some (hb, block'), patch buf 0 (range_of ?C (unat offset) hb), h, []) \<and> content h = ?C \<and>
      unat block' = fs \<and> unat (whole_sectors offset len bs block') = nb"
      using head by (auto simp: read_head_def write_head_def)
  next
    case False
    then have "unat block * unat bs + unat delta = unat offset" "hb = unat bs - unat delta" "unat delta < unat bs"
      "unat len = hb + nb * unat bs + r"
      by (insert s [unfolded range_split_def Let_def, folded delta_def block_def], auto)
    then have on: "(unat block + 1) * unat bs \<le> length ?C" using dev by simp
    from read_sector_reads [OF rd on] obtain h1 where
      h1: "read_sector rd bs block hw [] = Some (Some (range_of ?C (unat block * unat bs) (unat bs)), h1, [])"
         "content h1 = ?C" by auto
    have "length (range_of ?C (unat block * unat bs) (unat bs)) = unat bs" using on by simp
    then obtain h2 where h2: "wr block 1 (range_of ?C (unat block * unat bs) (unat bs)) h1 = Some (1, h2)"
        "content h2 = ?C"
      using write_sector_writes [OF wr, of block h1 "range_of ?C (unat block * unat bs) (unat bs)"] on h1(2)
      by (auto simp: patch_range_of)
    show "\<exists>block' h. write_head rd wr bs block delta buf hw [] =
      Some (Some (hb, block'), patch buf 0 (range_of ?C (unat offset) hb), h, []) \<and> content h = ?C \<and>
      unat block' = fs \<and> unat (whole_sectors offset len bs block') = nb"
      using head False h1(1) h2 by (auto simp: read_head_def write_head_def split: Option.bind_splits)
  qed
qed

text \<open>
  The first part of a write leaves its sector as it is and overwrites the buffer; the rest of the range
  is written.
\<close>

lemma write_range_writes:
  assumes rd: "reads_sectors content (unat bs) rd" and wr: "writes_sectors content (unat bs) wr"
    and s: "range_split offset len bs hb fs nb r" and ok: "range_ok offset len bs (length (content hw))"
    and tail: "r \<noteq> 0 \<Longrightarrow> (fs + nb + 1) * unat bs \<le> length (content hw)" and buf: "unat len \<le> length buf"
  shows "\<exists>hw'. write_range rd wr bs offset len buf hw [] =
      Some (True, patch buf 0 (range_of (content hw) (unat offset) hb), hw', []) \<and>
      content hw' = patch (content hw) (unat offset + hb) (range_of buf hb (unat len - hb))"
proof -
  let ?b = "unat bs" and ?o = "unat offset" and ?C = "content hw"
  have b: "0 < bs" and dev: "?o + unat len \<le> length ?C" "?o + unat len < 2 ^ 32"
    using ok by (auto simp: range_ok_def)
  have sp: "?o + hb = fs * ?b" "unat len = hb + nb * ?b + r" "unat ((ucast offset + len) mod bs) = r" "r < ?b"
      "fs + nb < 2 ^ 32"
    using s by (simp_all add: range_split_def)
  have le: "(fs + nb) * ?b \<le> ?o + unat len" using sp(1,2) by (simp add: distrib_right)
  let ?buf = "patch buf 0 (range_of ?C ?o hb)"
  have "\<exists>block h. write_head rd wr bs (ucast (ucast offset div bs :: u64)) (ucast offset mod bs) buf hw [] =
      Some (Some (hb, block), ?buf, h, []) \<and> content h = ?C \<and> unat block = fs \<and>
      unat (whole_sectors offset len bs block) = nb"
    by (rule write_head_writes [OF rd wr s dev(1) buf])
  then obtain block h1 where
    h1: "write_head rd wr bs (ucast (ucast offset div bs :: u64)) (ucast offset mod bs) buf hw [] =
      Some (Some (hb, block), ?buf, h1, [])" "content h1 = ?C"
      "unat block = fs" "unat (whole_sectors offset len bs block) = nb" by blast
  let ?n = "whole_sectors offset len bs block"
  have lens: "length (range_of ?C ?o hb) = hb" "length ?buf = length buf"
      "length (range_of buf hb (nb * ?b)) = nb * ?b"
    using sp(1,2) dev le buf by simp_all
  have old: "range_of ?buf i n = range_of buf i n" if "hb \<le> i" "i + n \<le> length buf" for i n
    using that lens by (intro range_of_patch_other) auto
  have "\<exists>h. write_loop wr bs ?n block hb ?buf h1 =
      Some (Some (hb + unat ?n * ?b, block + ?n), h) \<and>
      content h = patch (content h1) (unat block * ?b) (range_of ?buf hb (unat ?n * ?b))"
    using le dev sp(2) buf lens by (intro write_loop_writes [OF wr b]) (simp_all add: h1)
  then obtain h2 where
    h2: "write_loop wr bs ?n block hb ?buf h1 = Some (Some (hb + nb * ?b, block + ?n), h2)"
      "content h2 = patch ?C (fs * ?b) (range_of buf hb (nb * ?b))"
    using sp(2) buf by (auto simp: h1 old)
  have l2: "length (content h2) = length ?C" using le dev lens by (simp add: h2(2) distrib_right)
  have q: "unat (block + ?n) = fs + nb" using sp(5) by (simp add: unat_word_ariths h1)
  let ?d = "(ucast offset + len) mod bs"
  have "\<exists>h. write_tail rd wr bs (block + ?n) ?d (hb + nb * ?b) ?buf h2 [] = Some (True, ?buf, h, []) \<and>
      content h = patch (content h2) ((fs + nb) * ?b) (range_of buf (hb + nb * ?b) r)"
  proof (cases "?d = 0")
    case True
    then have "r = 0" using sp(3) by simp
    then show ?thesis using True by (simp add: write_tail_def range_of_def)
  next
    case False
    then have "(unat (block + ?n) + 1) * ?b \<le> length (content h2)"
      using tail sp(3) unfolding q l2 by (metis unat_eq_zero)
    note this' = this
    from read_sector_reads [OF rd this] obtain h where
      h: "read_sector rd bs (block + ?n) h2 [] = Some (Some (range_of (content h2) ((fs + nb) * ?b) ?b), h, [])"
         "content h = content h2" unfolding q by auto
    let ?old = "range_of (content h2) ((fs + nb) * ?b) ?b" and ?new = "range_of buf (hb + nb * ?b) r"
    have ln: "length ?old = ?b" "length ?new = r"
      using this' sp(2) buf unfolding q by (simp_all add: distrib_right)
    from write_sector_writes [OF wr, of "block + ?n" h "patch ?old 0 ?new"] this' ln sp(4) h(2) obtain h' where
      h': "wr (block + ?n) 1 (patch ?old 0 ?new) h = Some (1, h')"
        "content h' = patch (content h2) ((fs + nb) * ?b) (patch ?old 0 ?new)" unfolding q by auto
    have "patch (content h2) ((fs + nb) * ?b) (patch ?old 0 ?new) = patch (content h2) ((fs + nb) * ?b) ?new"
      using ln sp(4) this' unfolding q
      by (intro nth_equalityI) (auto simp: nth_patch nth_range_of)
    then show ?thesis using False h h' sp(2-4) buf lens ln old
      by (simp add: write_tail_def slice_bytes_in put_bytes_in)
  qed
  then obtain h3 where
    h3: "write_tail rd wr bs (block + ?n) ?d (hb + nb * ?b) ?buf h2 [] = Some (True, ?buf, h3, [])"
      "content h3 = patch (content h2) ((fs + nb) * ?b) (range_of buf (hb + nb * ?b) r)" by blast
  have "content h3 = patch ?C (?o + hb) (range_of buf hb (unat len - hb))"
  proof -
    have "unat len - hb = nb * ?b + r" using sp(2) by simp
    moreover have "fs * ?b + length (range_of buf hb (nb * ?b)) = (fs + nb) * ?b"
      using lens by (simp add: distrib_right)
    moreover have "length (range_of buf (hb + nb * ?b) r) = r" using sp(2) buf by simp
    ultimately show ?thesis
      using patch_patch [of "fs * ?b" "range_of buf hb (nb * ?b)" "range_of buf (hb + nb * ?b) r" ?C] sp(1,2) dev lens
      by (simp add: h3(2) h2(2) range_of_add)
  qed
  then show ?thesis using b h1(1) h2(1) h3(1) by (simp add: write_range_def word_gt_0)
qed

subsection \<open>The device of a major and a minor number\<close>

definition device :: "'h blockdevs \<Rightarrow> u32 \<Rightarrow> u32 \<Rightarrow> ('h blockdev_class \<times> blockdev_instance) option" where
  "device st major minor =
     (if unat major < length (bd_classes st) then
        (case bd_classes st ! unat major of
           None \<Rightarrow> None
         | Some c \<Rightarrow>
             (case bc_instances c of
                None \<Rightarrow> None
              | Some xs \<Rightarrow> map_option (Pair c) (List.find (\<lambda>x. bi_minor x = minor) xs)))
      else None)"

lemma find_index:
  "List.find P xs = Some x \<Longrightarrow> \<exists>i. List.find (\<lambda>i. P (xs ! i)) [0..<length xs] = Some i \<and> i < length xs \<and> xs ! i = x"
proof -
  assume "List.find P xs = Some x"
  then obtain i where i: "i < length xs" "P (xs ! i)" "x = xs ! i" "\<And>j. j < i \<Longrightarrow> \<not> P (xs ! j)"
    by (auto simp: find_Some_iff)
  then have "List.find (\<lambda>i. P (xs ! i)) [0..<length xs] = Some i"
    by (subst find_Some_iff) (intro exI [of _ i], auto)
  then show ?thesis using i by auto
qed

text \<open>The reference that is taken for an access is given back: the classes are as they were.\<close>

lemma on_instance_device:
  assumes n: "length (bd_classes st) = NUM_BLOCKDEV_CLASSES" and d: "device st major minor = Some (c, x)"
    and acc: "\<And>c'. bc_read c' = bc_read c \<Longrightarrow> bc_write c' = bc_write c \<Longrightarrow>
      access c' (bi_block_size x) (bd_hw st) (bd_plan st) = Some (ok, buf', hw, pl)"
  shows "on_instance st major minor buf access =
     Some (if ok then 0 else -1, buf', st\<lparr>bd_hw := hw, bd_plan := pl\<rparr>)"
proof -
  from d obtain xs where m: "unat major < length (bd_classes st)" "bd_classes st ! unat major = Some c"
    and xs: "bc_instances c = Some xs" "List.find (\<lambda>x. bi_minor x = minor) xs = Some x"
    by (auto simp: device_def split: if_splits option.splits)
  from find_index [OF xs(2)] obtain i where
    i: "List.find (\<lambda>i. bi_minor (xs ! i) = minor) [0..<length xs] = Some i" "i < length xs" "xs ! i = x" by blast
  let ?x = "x\<lparr>bi_ref_count := bi_ref_count x + 1\<rparr>"
  let ?c = "c\<lparr>bc_instances := Some (xs[i := ?x])\<rparr>"
  have get: "get_blockdev_instance c minor = Some (Some (i, ?c))"
    by (simp add: get_blockdev_instance_def xs i)
  have "(c\<lparr>bc_instances := Some (xs[i := x])\<rparr>) = c" using xs(1) i by (metis blockdev_class.surjective
      blockdev_class.update_convs(4) blockdev_class.select_convs(4) list_update_id)
  then have rel: "release_blockdev_instance i ?c = Some c"
    using i(2) by (simp add: release_blockdev_instance_def)
  have same: "(bd_classes st)[unat major := Some c] = bd_classes st"
    using m by (metis list_update_id)
  have "access ?c (bi_block_size x) (bd_hw st) (bd_plan st) = Some (ok, buf', hw, pl)"
    by (rule acc) simp_all
  then show ?thesis using n m i(2) get rel
    by (simp add: on_instance_def set_class_def same)
qed

text \<open>A driver of a disk in memory that transfers one sector at a time.\<close>

definition one_read :: "nat \<Rightarrow> u8 list sector_read" where
  "one_read bs minor block n h = Some (1, range_of h (unat block * bs) bs, h)"

definition one_write :: "nat \<Rightarrow> u8 list sector_write" where
  "one_write bs minor block n src h = Some (1, patch h (unat block * bs) (take bs src))"

lemma one_at_a_time:
  "reads_sectors (\<lambda>h. h) bs (one_read bs minor)" "writes_sectors (\<lambda>h. h) bs (one_write bs minor)"
  by (simp_all add: reads_sectors_def writes_sectors_def one_read_def one_write_def word_le_nat_alt word_less_nat_alt Suc_le_eq)

definition two_devices :: "u8 list blockdevs" where
  "two_devices = \<lparr>bd_classes = [Some \<lparr>bc_major = 0, bc_read = one_read 4, bc_write = one_write 4,
     bc_instances = Some [\<lparr>bi_minor = 1, bi_block_size = 4, bi_capacity = 9, bi_ref_count = 0\<rparr>,
       \<lparr>bi_minor = 0, bi_block_size = 4, bi_capacity = 3, bi_ref_count = 0\<rparr>]\<rparr>, None],
     bd_hw = [10, 11, 12, 13, 14, 15, 16, 17, 18, 19, 20, 21], bd_plan = [], bd_mounts = []\<rparr>"

lemma two_devices_range: "range_ok 2 7 4 (length (bd_hw two_devices))"
proof -
  have "length (bd_hw two_devices) = 12" by (simp add: two_devices_def)
  then show ?thesis by (simp add: range_ok_def)
qed

lemma two_devices_0:
  "device two_devices 0 0 = Some (the (bd_classes two_devices ! 0),
     \<lparr>bi_minor = 0, bi_block_size = 4, bi_capacity = 3, bi_ref_count = 0\<rparr>)"
  by (simp add: device_def two_devices_def)

subsection \<open>Properties\<close>

text \<open>
  C14: Reading a range of a device. When the range ends on the device and below 2^32, and either starts
  at a sector or reaches the end of the sector it starts in, \<open>blockdev_read\<close> returns 0, puts exactly the
  bytes of the device into the buffer, leaves the rest of the buffer alone, and neither the device nor
  the tables change. It works with every driver that transfers at least one of the sectors asked for.
\<close>

theorem blockdev_read_reads:
  assumes "length (bd_classes st) = NUM_BLOCKDEV_CLASSES" and "device st major minor = Some (c, x)" and "bd_plan st = []"
    and "reads_sectors content (unat (bi_block_size x)) (bc_read c minor)"
    and "range_ok offset len (bi_block_size x) (length (content (bd_hw st)))" and "unat len \<le> length buf"
  shows "\<exists>hw. blockdev_read major minor offset len buf st =
      Some (0, patch buf 0 (range_of (content (bd_hw st)) (unat offset) (unat len)), st\<lparr>bd_hw := hw\<rparr>) \<and>
    content hw = content (bd_hw st)"
proof -
  from read_range_reads [OF assms(4-6)] obtain hw where
    hw: "read_range (bc_read c minor) (bi_block_size x) offset len buf (bd_hw st) [] =
      Some (True, patch buf 0 (range_of (content (bd_hw st)) (unat offset) (unat len)), hw, [])"
      "content hw = content (bd_hw st)" by blast
  have "blockdev_read major minor offset len buf st =
      Some (if True then 0 else -1, patch buf 0 (range_of (content (bd_hw st)) (unat offset) (unat len)),
        st\<lparr>bd_hw := hw, bd_plan := []\<rparr>)"
    unfolding blockdev_read_def by (rule on_instance_device [OF assms(1,2)]) (simp add: assms(3) hw(1))
  moreover have "st\<lparr>bd_hw := hw, bd_plan := []\<rparr> = st\<lparr>bd_hw := hw\<rparr>" using assms(3) by simp
  ultimately show ?thesis using hw(2) by auto
qed

theorem blockdev_read_reads_witness:
  "\<exists>hw. blockdev_read 0 0 2 7 [0, 0, 0, 0, 0, 0, 0, 0, 0] two_devices =
      Some (0, [12, 13, 14, 15, 16, 17, 18, 0, 0], two_devices\<lparr>bd_hw := hw\<rparr>) \<and> hw = bd_hw two_devices"
  using blockdev_read_reads [of two_devices 0 0 "the (bd_classes two_devices ! 0)"
      "\<lparr>bi_minor = 0, bi_block_size = 4, bi_capacity = 3, bi_ref_count = 0\<rparr>" "\<lambda>h. h" 2 7 "[0, 0, 0, 0, 0, 0, 0, 0, 0]"]
    one_at_a_time(1) [of 4 0] two_devices_range two_devices_0
  by (simp add: two_devices_def NUM_BLOCKDEV_CLASSES_def patch_def range_of_def)

text \<open>
  C15: Writing a range of a device, on the same ranges. From the first sector boundary on the bytes of
  the buffer are on the device, and no other byte of it changes. The part before that boundary, which
  is empty when the range starts at a sector, is not written: the code copies in the wrong direction,
  so the device keeps its bytes there, they overwrite the caller's buffer, and 0 is returned.
\<close>

theorem blockdev_write_writes:
  assumes "length (bd_classes st) = NUM_BLOCKDEV_CLASSES" and "device st major minor = Some (c, x)" and "bd_plan st = []"
    and "reads_sectors content (unat (bi_block_size x)) (bc_read c minor)"
    and "writes_sectors content (unat (bi_block_size x)) (bc_write c minor)"
    and "range_ok offset len (bi_block_size x) (length (content (bd_hw st)))" and "unat len \<le> length buf"
  shows "\<exists>hw. let hb = head_bytes (unat (bi_block_size x)) (unat offset) in
    blockdev_write major minor offset len buf st =
      Some (0, patch buf 0 (range_of (content (bd_hw st)) (unat offset) hb), st\<lparr>bd_hw := hw\<rparr>) \<and>
    content hw = patch (content (bd_hw st)) (unat offset + hb) (range_of buf hb (unat len - hb))"
proof -
  let ?b = "unat (bi_block_size x)"
  from range_okE [OF assms(6)] obtain hb fs nb r where
    s: "range_split offset len (bi_block_size x) hb fs nb r"
      "r \<noteq> 0 \<Longrightarrow> (fs + nb + 1) * ?b \<le> length (content (bd_hw st))" by blast
  have hb: "hb = head_bytes ?b (unat offset)"
  proof -
    have "unat (ucast offset mod bi_block_size x :: u64) = unat offset mod ?b"
      by (rule range_words [OF assms(6)])
    then show ?thesis using s(1)
      by (auto simp: range_split_def Let_def head_bytes_def simp flip: unat_eq_zero split: if_splits)
  qed
  from write_range_writes [OF assms(4,5) s(1) assms(6) s(2) assms(7)] obtain hw where
    hw: "write_range (bc_read c minor) (bc_write c minor) (bi_block_size x) offset len buf (bd_hw st) [] =
      Some (True, patch buf 0 (range_of (content (bd_hw st)) (unat offset) hb), hw, [])"
      "content hw = patch (content (bd_hw st)) (unat offset + hb) (range_of buf hb (unat len - hb))" by auto
  have "blockdev_write major minor offset len buf st =
      Some (if True then 0 else -1, patch buf 0 (range_of (content (bd_hw st)) (unat offset) hb),
        st\<lparr>bd_hw := hw, bd_plan := []\<rparr>)"
    unfolding blockdev_write_def by (rule on_instance_device [OF assms(1,2)]) (simp add: assms(3) hw(1))
  moreover have "st\<lparr>bd_hw := hw, bd_plan := []\<rparr> = st\<lparr>bd_hw := hw\<rparr>" using assms(3) by simp
  ultimately show ?thesis using hw(2) hb by (auto simp: Let_def)
qed

theorem blockdev_write_writes_witness:
  "\<exists>hw. blockdev_write 0 0 2 7 [1, 2, 3, 4, 5, 6, 7] two_devices =
      Some (0, [12, 13, 3, 4, 5, 6, 7], two_devices\<lparr>bd_hw := hw\<rparr>) \<and>
    hw = [10, 11, 12, 13, 3, 4, 5, 6, 7, 19, 20, 21]"
  using blockdev_write_writes [of two_devices 0 0 "the (bd_classes two_devices ! 0)"
      "\<lparr>bi_minor = 0, bi_block_size = 4, bi_capacity = 3, bi_ref_count = 0\<rparr>" "\<lambda>h. h" 2 7 "[1, 2, 3, 4, 5, 6, 7]"]
    one_at_a_time [of 4 0] two_devices_range two_devices_0
  by (simp add: two_devices_def NUM_BLOCKDEV_CLASSES_def patch_def range_of_def head_bytes_def)

text \<open>
  A range inside one sector: the number of sectors behind the first part wraps around, and the code
  goes on to ask for 2^32 - 1 of them.
\<close>

theorem whole_sectors_wraps:
  assumes "0 < bs" and "unat offset mod unat bs \<noteq> 0" and "unat offset mod unat bs + unat len < unat bs"
    and "unat offset + unat len < 2 ^ 32" and "unat block = unat offset div unat bs + 1"
  shows "whole_sectors offset len bs block = -1"
proof -
  have o: "unat (ucast offset :: u64) = unat offset" by (rule unat_ucast_up) simp
  have "unat offset + unat len < 2 ^ 64" using assms(4) by simp
  then have e: "unat (ucast offset + len) = unat offset + unat len" by (simp add: unat_word_ariths o)
  have "(unat offset + unat len) div unat bs = unat offset div unat bs"
  proof -
    have "unat offset + unat len = unat bs * (unat offset div unat bs) + (unat offset mod unat bs + unat len)"
      by (metis add.assoc mult_div_mod_eq)
    then show ?thesis using assms(3) by (metis div_less div_mult_self4 add.right_neutral less_nat_zero_code)
  qed
  then have "unat ((ucast offset + len) div bs) = unat offset div unat bs" by (simp only: unat_div e)
  moreover have "unat (ucast block :: u64) = unat block" by (rule unat_ucast_up) simp
  moreover have "ucast block = (ucast offset + len) div bs + (1 :: u64)"
  proof -
    have "unat block < 2 ^ 32" using unsigned_less [of block] by simp
    then show ?thesis using assms(5) calculation by (simp add: word_unat_eq_iff unat_word_ariths)
  qed
  moreover have "ucast (- 1 :: u64) = (- 1 :: u32)" by (rule bit_word_eqI) (simp add: bit_simps)
  ultimately show ?thesis by (simp add: whole_sectors_def)
qed

text \<open>
  Registering a class. Number \<open>NUM_BLOCKDEV_CLASSES\<close> passes the test and is then looked up behind the
  array.
\<close>

theorem reg_blockdev_class_cases:
  assumes "length (bd_classes st) = NUM_BLOCKDEV_CLASSES"
  shows "reg_blockdev_class major rd wr st =
    (if unat major > NUM_BLOCKDEV_CLASSES then Some (-1, st)
     else if unat major = NUM_BLOCKDEV_CLASSES then None
     else if bd_classes st ! unat major \<noteq> None then Some (-1, st)
     else (case malloc (bd_plan st) of
         (False, pl) \<Rightarrow> Some (-1, st\<lparr>bd_plan := pl\<rparr>)
       | (True, pl) \<Rightarrow> Some (0, set_class (st\<lparr>bd_plan := snd (malloc pl)\<rparr>) (unat major)
           \<lparr>bc_major = ucast major, bc_read = rd, bc_write = wr, bc_instances = (if fst (malloc pl) then Some [] else None)\<rparr>)))"
  using assms by (auto simp: reg_blockdev_class_def idx_def Let_def split: option.splits prod.splits bool.splits)

end
