(* ===== verification/Ext2_Disk.thy ===== *)
theory Ext2_Disk
  imports Blockdev Spinlock Crypto_Util
begin

text \<open>
  The ext2 driver, kernel/src/vfs/ext2.c, below the files: the block cache, access to blocks, the map from
  the blocks of a file to those of the disk, and the allocation of blocks.

  What the driver keeps in memory in the layout of the disk (superblock, group descriptors, inodes,
  blocks) is bytes here too, and a field is a little endian number at its offset. The block device is
  the pair of functions its node points to, acting on a state \<open>'d\<close>. \<open>None\<close> stands for an access
  outside a buffer, a null pointer, a division by zero, and a lock that is never free. Memory that
  \<open>malloc\<close> returns holds the bytes \<open>e2_junk\<close>; where the code does not test the pointer, a failed
  allocation has no result.
\<close>

subsection \<open>Numbers in memory\<close>

definition get16 :: "u8 list \<Rightarrow> nat \<Rightarrow> u16 option" where
  "get16 m off = do { bs \<leftarrow> slice_bytes m off 2; Some (LOAD16LE bs) }"

definition get32 :: "u8 list \<Rightarrow> nat \<Rightarrow> u32 option" where
  "get32 m off = do { bs \<leftarrow> slice_bytes m off 4; Some (LOAD32LE bs) }"

definition put16 :: "u8 list \<Rightarrow> nat \<Rightarrow> u16 \<Rightarrow> u8 list option" where
  "put16 m off v = put_bytes m off (STORE16LE v)"

definition put32 :: "u8 list \<Rightarrow> nat \<Rightarrow> u32 \<Rightarrow> u8 list option" where
  "put32 m off v = put_bytes m off (STORE32LE v)"

text \<open>Offsets of the fields of \<open>ext2_superblock_t\<close>, and its size.\<close>

definition SB_inodes_count :: nat where "SB_inodes_count = 0"
definition SB_blocks_count :: nat where "SB_blocks_count = 4"
definition SB_free_blocks_count :: nat where "SB_free_blocks_count = 12"
definition SB_free_inodes_count :: nat where "SB_free_inodes_count = 16"
definition SB_log_block_size :: nat where "SB_log_block_size = 24"
definition SB_blocks_per_group :: nat where "SB_blocks_per_group = 32"
definition SB_magic :: nat where "SB_magic = 56"
definition SB_inode_size :: nat where "SB_inode_size = 88"
definition SB_sizeof :: nat where "SB_sizeof = 1024"

text \<open>Those of \<open>ext2_bgdescriptor_t\<close>, in the array of descriptors.\<close>

definition BGD_sizeof :: nat where "BGD_sizeof = 32"
definition BGD_block_bitmap :: nat where "BGD_block_bitmap = 0"
definition BGD_inode_bitmap :: nat where "BGD_inode_bitmap = 4"
definition BGD_inode_table :: nat where "BGD_inode_table = 8"
definition BGD_free_blocks_count :: nat where "BGD_free_blocks_count = 12"
definition BGD_free_inodes_count :: nat where "BGD_free_inodes_count = 14"
definition BGD_used_dirs_count :: nat where "BGD_used_dirs_count = 16"

text \<open>Those of \<open>ext2_inodetable_t\<close> used below.\<close>

definition IN_blocks :: nat where "IN_blocks = 28"
definition IN_block :: nat where "IN_block = 40"

lemmas ext2_layout = SB_inodes_count_def SB_blocks_count_def SB_free_blocks_count_def SB_free_inodes_count_def
  SB_log_block_size_def SB_blocks_per_group_def SB_magic_def SB_inode_size_def SB_sizeof_def
  BGD_sizeof_def BGD_block_bitmap_def BGD_inode_bitmap_def BGD_inode_table_def BGD_free_blocks_count_def
  BGD_free_inodes_count_def BGD_used_dirs_count_def IN_blocks_def IN_block_def

definition EXT2_DIRECT_BLOCKS :: nat where
  "EXT2_DIRECT_BLOCKS = 12"

subsection \<open>State\<close>

record 'd blockdev_node =
  node_read :: "(u64 \<Rightarrow> u32 \<Rightarrow> u8 list \<Rightarrow> 'd \<Rightarrow> (u32 \<times> u8 list \<times> 'd) option) option"
  node_write :: "(u64 \<Rightarrow> u32 \<Rightarrow> u8 list \<Rightarrow> 'd \<Rightarrow> (u32 \<times> 'd) option) option"

definition read_fs :: "'d blockdev_node \<Rightarrow> u64 \<Rightarrow> u32 \<Rightarrow> u8 list \<Rightarrow> 'd \<Rightarrow> (u32 \<times> u8 list \<times> 'd) option" where
  "read_fs node offset sz buf d = (case node_read node of Some f \<Rightarrow> f offset sz buf d | None \<Rightarrow> Some (0, buf, d))"

definition write_fs :: "'d blockdev_node \<Rightarrow> u64 \<Rightarrow> u32 \<Rightarrow> u8 list \<Rightarrow> 'd \<Rightarrow> (u32 \<times> 'd) option" where
  "write_fs node offset sz buf d = (case node_write node of Some f \<Rightarrow> f offset sz buf d | None \<Rightarrow> Some (0, d))"

record cache_entry =
  ce_block_no :: u32
  ce_last_use :: u32
  ce_dirty :: bool
  ce_block :: "u8 list"

record 'd ext2_fs =
  e2_superblock :: "u8 list"
  e2_block_groups :: "u8 list"
  e2_block_size :: u32
  e2_pointers_per_block :: u32
  e2_inodes_per_group :: u32
  e2_block_group_count :: u32
  e2_disk_cache :: "cache_entry list option"
  e2_cache_time :: u32
  e2_lock :: spinlock
  e2_bgd_block_span :: u8
  e2_bgd_offset :: u8
  e2_inode_size :: u32
  e2_flags :: u32
  e2_device :: 'd
  e2_plan :: plan
  e2_junk :: "nat \<Rightarrow> u8"

abbreviation (input) bsize :: "'d ext2_fs \<Rightarrow> nat" where
  "bsize fs \<equiv> unat (e2_block_size fs)"

text \<open>Memory of \<open>n\<close> bytes, if there is any, and where the code relies on it.\<close>

definition alloc :: "nat \<Rightarrow> 'd ext2_fs \<Rightarrow> u8 list option \<times> 'd ext2_fs" where
  "alloc n fs =
     (let (ok, pl) = malloc (e2_plan fs)
      in (if ok then Some (map (e2_junk fs) [0..<n]) else None, fs\<lparr>e2_plan := pl\<rparr>))"

definition must_alloc :: "nat \<Rightarrow> 'd ext2_fs \<Rightarrow> (u8 list \<times> 'd ext2_fs) option" where
  "must_alloc n fs = (let (m, fs) = alloc n fs in do { m \<leftarrow> m; Some (m, fs) })"

definition lock_fs :: "'d ext2_fs \<Rightarrow> 'd ext2_fs option" where
  "lock_fs fs = do { l \<leftarrow> acquire (e2_lock fs); Some (fs\<lparr>e2_lock := l\<rparr>) }"

definition unlock_fs :: "'d ext2_fs \<Rightarrow> 'd ext2_fs" where
  "unlock_fs fs = fs\<lparr>e2_lock := spinlock_unlock (e2_lock fs)\<rparr>"

subsection \<open>Access to the device\<close>

text \<open>The offset of a block is computed in 32 bits.\<close>

definition block_offset :: "'d ext2_fs \<Rightarrow> u32 \<Rightarrow> u64" where
  "block_offset fs n = ucast (n * e2_block_size fs)"

definition dev_read :: "'d blockdev_node \<Rightarrow> u32 \<Rightarrow> u8 list \<Rightarrow> 'd ext2_fs \<Rightarrow> (u32 \<times> u8 list \<times> 'd ext2_fs) option" where
  "dev_read dev n buf fs = do {
     (ret, buf, d) \<leftarrow> read_fs dev (block_offset fs n) (e2_block_size fs) buf (e2_device fs);
     Some (ret, buf, fs\<lparr>e2_device := d\<rparr>)
   }"

definition dev_write :: "'d blockdev_node \<Rightarrow> u32 \<Rightarrow> u8 list \<Rightarrow> 'd ext2_fs \<Rightarrow> 'd ext2_fs option" where
  "dev_write dev n buf fs = do {
     (_, d) \<leftarrow> write_fs dev (block_offset fs n) (e2_block_size fs) buf (e2_device fs);
     Some (fs\<lparr>e2_device := d\<rparr>)
   }"

definition rewrite_superblock :: "'d blockdev_node \<Rightarrow> 'd ext2_fs \<Rightarrow> 'd ext2_fs option" where
  "rewrite_superblock dev fs = do {
     (_, d) \<leftarrow> write_fs dev 1024 (of_nat SB_sizeof) (e2_superblock fs) (e2_device fs);
     Some (fs\<lparr>e2_device := d\<rparr>)
   }"

subsection \<open>The block cache\<close>

definition get_cache_time :: "'d ext2_fs \<Rightarrow> u32 \<times> 'd ext2_fs" where
  "get_cache_time fs = (e2_cache_time fs, fs\<lparr>e2_cache_time := e2_cache_time fs + 1\<rparr>)"

text \<open>The pointer \<open>DC\<close> to the entries is not null in what follows.\<close>

definition cache_at :: "'d ext2_fs \<Rightarrow> nat \<Rightarrow> cache_entry option" where
  "cache_at fs i = do { c \<leftarrow> e2_disk_cache fs; idx c i }"

definition set_entry :: "nat \<Rightarrow> cache_entry \<Rightarrow> 'd ext2_fs \<Rightarrow> 'd ext2_fs option" where
  "set_entry i e fs = do { c \<leftarrow> e2_disk_cache fs; c \<leftarrow> upd c i e; Some (fs\<lparr>e2_disk_cache := Some c\<rparr>) }"

definition cache_flush_dirty :: "'d blockdev_node \<Rightarrow> nat \<Rightarrow> 'd ext2_fs \<Rightarrow> 'd ext2_fs option" where
  "cache_flush_dirty dev i fs = do {
     e \<leftarrow> cache_at fs i;
     fs \<leftarrow> dev_write dev (ce_block_no e) (ce_block e) fs;
     set_entry i (e\<lparr>ce_dirty := False\<rparr>) fs
   }"

text \<open>
  The loop over the entries: the place of the block, or the place of the entry not used for longest,
  where -1 is the value \<open>oldest\<close> starts with.
\<close>

fun cache_scan :: "u32 \<Rightarrow> nat \<Rightarrow> cache_entry list \<Rightarrow> int \<Rightarrow> u32 \<Rightarrow> nat + int" where
  "cache_scan block_no i [] oldest age = Inr oldest"
| "cache_scan block_no i (e # es) oldest age =
     (if ce_block_no e = block_no then Inl i
      else if ce_last_use e < age then cache_scan block_no (i + 1) es (int i) (ce_last_use e)
      else cache_scan block_no (i + 1) es oldest age)"

definition cache_find :: "'d ext2_fs \<Rightarrow> u32 \<Rightarrow> (nat + int) option" where
  "cache_find fs block_no = do { c \<leftarrow> e2_disk_cache fs; Some (cache_scan block_no 0 c (-1) (-1)) }"

text \<open>The entry to replace; its block is written first when it is marked.\<close>

definition cache_victim :: "'d blockdev_node \<Rightarrow> int \<Rightarrow> 'd ext2_fs \<Rightarrow> 'd ext2_fs option" where
  "cache_victim dev oldest fs =
     (if oldest < 0 then None
      else do {
        e \<leftarrow> cache_at fs (nat oldest);
        if ce_dirty e then cache_flush_dirty dev (nat oldest) fs else Some fs
      })"

subsection \<open>Blocks\<close>

definition read_block_cached ::
    "'d blockdev_node \<Rightarrow> u32 \<Rightarrow> u8 list \<Rightarrow> 'd ext2_fs \<Rightarrow> (u8 list \<times> 'd ext2_fs) option" where
  "read_block_cached dev block_no buf fs = do {
     r \<leftarrow> cache_find fs block_no;
     case r of
       Inl i \<Rightarrow> do {
         e \<leftarrow> cache_at fs i;
         let (t, fs) = get_cache_time fs;
         fs \<leftarrow> set_entry i (e\<lparr>ce_last_use := t\<rparr>) fs;
         bytes \<leftarrow> slice_bytes (ce_block e) 0 (bsize fs);
         buf \<leftarrow> put_bytes buf 0 bytes;
         Some (buf, fs)
       }
     | Inr oldest \<Rightarrow> do {
         fs \<leftarrow> cache_victim dev oldest fs;
         e \<leftarrow> cache_at fs (nat oldest);
         (ret, b, fs) \<leftarrow> dev_read dev block_no (ce_block e) fs;
         if ret = 0 then do {
           bytes \<leftarrow> slice_bytes b 0 (bsize fs);
           buf \<leftarrow> put_bytes buf 0 bytes;
           let (t, fs) = get_cache_time fs;
           fs \<leftarrow> set_entry (nat oldest) \<lparr>ce_block_no = block_no, ce_last_use = t, ce_dirty = False, ce_block = b\<rparr> fs;
           Some (buf, fs)
         }
         else do {
           fs \<leftarrow> set_entry (nat oldest) (e\<lparr>ce_block := b\<rparr>) fs;
           Some (buf, fs)
         }
       }
   }"

definition read_block :: "'d blockdev_node \<Rightarrow> u32 \<Rightarrow> u8 list \<Rightarrow> 'd ext2_fs \<Rightarrow> (u32 \<times> u8 list \<times> 'd ext2_fs) option" where
  "read_block dev block_no buf fs =
     (if block_no = 0 then Some (-1, buf, fs)
      else do {
        fs \<leftarrow> lock_fs fs;
        case e2_disk_cache fs of
          None \<Rightarrow> do { (ret, buf, fs) \<leftarrow> dev_read dev block_no buf fs; Some (ret, buf, unlock_fs fs) }
        | Some _ \<Rightarrow> do { (buf, fs) \<leftarrow> read_block_cached dev block_no buf fs; Some (0, buf, unlock_fs fs) }
      })"

text \<open>A write to the cache: neither branch marks the entry.\<close>

definition write_block_cached :: "'d blockdev_node \<Rightarrow> u32 \<Rightarrow> u8 list \<Rightarrow> 'd ext2_fs \<Rightarrow> 'd ext2_fs option" where
  "write_block_cached dev block_no buf fs = do {
     r \<leftarrow> cache_find fs block_no;
     bytes \<leftarrow> slice_bytes buf 0 (bsize fs);
     case r of
       Inl i \<Rightarrow> do {
         e \<leftarrow> cache_at fs i;
         let (t, fs) = get_cache_time fs;
         b \<leftarrow> put_bytes (ce_block e) 0 bytes;
         set_entry i (e\<lparr>ce_last_use := t, ce_block := b\<rparr>) fs
       }
     | Inr oldest \<Rightarrow> do {
         fs \<leftarrow> cache_victim dev oldest fs;
         e \<leftarrow> cache_at fs (nat oldest);
         b \<leftarrow> put_bytes (ce_block e) 0 bytes;
         let (t, fs) = get_cache_time fs;
         set_entry (nat oldest) \<lparr>ce_block_no = block_no, ce_last_use = t, ce_dirty = False, ce_block = b\<rparr> fs
       }
   }"

text \<open>The first call on the lock releases it.\<close>

definition write_block :: "'d blockdev_node \<Rightarrow> u32 \<Rightarrow> u8 list \<Rightarrow> 'd ext2_fs \<Rightarrow> (u32 \<times> 'd ext2_fs) option" where
  "write_block dev block_no buf fs =
     (if block_no = 0 then Some (-1, fs)
      else do {
        let fs = unlock_fs fs;
        fs \<leftarrow> (case e2_disk_cache fs of
          None \<Rightarrow> dev_write dev block_no buf fs
        | Some _ \<Rightarrow> write_block_cached dev block_no buf fs);
        Some (0, unlock_fs fs)
      })"

definition sync_entry :: "'d blockdev_node \<Rightarrow> nat \<Rightarrow> 'd ext2_fs \<Rightarrow> 'd ext2_fs option" where
  "sync_entry dev i fs = do { e \<leftarrow> cache_at fs i; if ce_dirty e then cache_flush_dirty dev i fs else Some fs }"

definition ext2_sync :: "'d blockdev_node \<Rightarrow> 'd ext2_fs \<Rightarrow> 'd ext2_fs option" where
  "ext2_sync dev fs =
     (case e2_disk_cache fs of
        None \<Rightarrow> Some fs
      | Some c \<Rightarrow> do {
          fs \<leftarrow> lock_fs fs;
          fs \<leftarrow> for_each (sync_entry dev) [0..<length c] fs;
          Some (unlock_fs fs)
        })"

end
