(* ===== verification/Ext2_Inode.thy ===== *)
theory Ext2_Inode
  imports Ext2_Disk
begin

text \<open>
  Inodes of the ext2 driver, kernel/src/vfs/ext2.c: the allocation of blocks and inodes, the inode table,
  the map from the blocks of a file to blocks of the disk, and reading and writing bytes of a file.

  An inode in memory is its bytes. The functions that return a number return it as a word, so that -1 is
  the largest one.
\<close>

subsection \<open>Bitmaps and groups\<close>

text \<open>The scan leaves the buffer when every bit is set.\<close>

definition bit_at :: "u8 list \<Rightarrow> nat \<Rightarrow> bool" where
  "bit_at buf n \<longleftrightarrow> bit (buf ! (n div 8)) (n mod 8)"

definition clear_bit_of :: "u8 list \<Rightarrow> nat option" where
  "clear_bit_of buf = List.find (\<lambda>n. \<not> bit_at buf n) [0..<8 * length buf]"

definition set_bit_of :: "u8 list \<Rightarrow> nat \<Rightarrow> u8 list option" where
  "set_bit_of buf n = do { b \<leftarrow> idx buf (n div 8); upd buf (n div 8) (b OR push_bit (n mod 8) 1) }"

definition bgd16 :: "'d ext2_fs \<Rightarrow> nat \<Rightarrow> nat \<Rightarrow> u16 option" where
  "bgd16 fs i field = get16 (e2_block_groups fs) (BGD_sizeof * i + field)"

definition bgd32 :: "'d ext2_fs \<Rightarrow> nat \<Rightarrow> nat \<Rightarrow> u32 option" where
  "bgd32 fs i field = get32 (e2_block_groups fs) (BGD_sizeof * i + field)"

definition set_bgd16 :: "nat \<Rightarrow> nat \<Rightarrow> u16 \<Rightarrow> 'd ext2_fs \<Rightarrow> 'd ext2_fs option" where
  "set_bgd16 i field v fs = do {
     g \<leftarrow> put16 (e2_block_groups fs) (BGD_sizeof * i + field) v;
     Some (fs\<lparr>e2_block_groups := g\<rparr>)
   }"

definition sb32 :: "'d ext2_fs \<Rightarrow> nat \<Rightarrow> u32 option" where
  "sb32 fs field = get32 (e2_superblock fs) field"

definition set_sb32 :: "nat \<Rightarrow> u32 \<Rightarrow> 'd ext2_fs \<Rightarrow> 'd ext2_fs option" where
  "set_sb32 field v fs = do { s \<leftarrow> put32 (e2_superblock fs) field v; Some (fs\<lparr>e2_superblock := s\<rparr>) }"

text \<open>The first group whose count is not zero.\<close>

fun first_group :: "'d ext2_fs \<Rightarrow> nat \<Rightarrow> nat list \<Rightarrow> nat option option" where
  "first_group fs field [] = Some None"
| "first_group fs field (i # is) = do {
     c \<leftarrow> bgd16 fs i field;
     if c > 0 then Some (Some i) else first_group fs field is
   }"

definition write_bgds :: "'d blockdev_node \<Rightarrow> 'd ext2_fs \<Rightarrow> 'd ext2_fs option" where
  "write_bgds dev fs =
     for_each (\<lambda>i fs. do {
         b \<leftarrow> slice_bytes (e2_block_groups fs) (bsize fs * i) (bsize fs);
         (_, fs) \<leftarrow> write_block dev (ucast (e2_bgd_offset fs) + of_nat i) b fs;
         Some fs
       }) [0..<unat (e2_bgd_block_span fs)] fs"

text \<open>What follows the choice of a bit: the bitmap, the descriptors and the superblock are written.\<close>

definition take_bit_of_group ::
    "'d blockdev_node \<Rightarrow> nat \<Rightarrow> nat \<Rightarrow> nat \<Rightarrow> nat \<Rightarrow> nat \<Rightarrow> u8 list \<Rightarrow> 'd ext2_fs \<Rightarrow> 'd ext2_fs option" where
  "take_bit_of_group dev grp off bitmap count sbfield buf fs = do {
     buf \<leftarrow> set_bit_of buf off;
     bm \<leftarrow> bgd32 fs grp bitmap;
     (_, fs) \<leftarrow> write_block dev bm buf fs;
     c \<leftarrow> bgd16 fs grp count;
     fs \<leftarrow> set_bgd16 grp count (c - 1) fs;
     fs \<leftarrow> write_bgds dev fs;
     t \<leftarrow> sb32 fs sbfield;
     fs \<leftarrow> set_sb32 sbfield (t - 1) fs;
     rewrite_superblock dev fs
   }"

definition allocate_block :: "'d blockdev_node \<Rightarrow> 'd ext2_fs \<Rightarrow> (u32 \<times> 'd ext2_fs) option" where
  "allocate_block dev fs =
     (let (m, fs) = alloc (bsize fs) fs
      in do {
        g \<leftarrow> first_group fs BGD_free_blocks_count [0..<unat (e2_block_group_count fs)];
        case g of
          None \<Rightarrow> Some (-1, fs)
        | Some grp \<Rightarrow> do {
            buf \<leftarrow> m;
            bm \<leftarrow> bgd32 fs grp BGD_block_bitmap;
            (_, buf, fs) \<leftarrow> read_block dev bm buf fs;
            off \<leftarrow> clear_bit_of buf;
            per \<leftarrow> sb32 fs SB_blocks_per_group;
            let block_no = of_nat off + per * of_nat grp;
            if block_no = 0 then Some (-1, fs)
            else do {
              fs \<leftarrow> take_bit_of_group dev grp off BGD_block_bitmap BGD_free_blocks_count SB_free_blocks_count buf fs;
              (_, fs) \<leftarrow> write_block dev block_no (replicate (bsize fs) 0) fs;
              Some (block_no, fs)
            }
          }
      })"

definition allocate_inode :: "'d blockdev_node \<Rightarrow> 'd ext2_fs \<Rightarrow> (u32 \<times> 'd ext2_fs) option" where
  "allocate_inode dev fs =
     (let (m, fs) = alloc (bsize fs) fs
      in do {
        g \<leftarrow> first_group fs BGD_free_inodes_count [0..<unat (e2_block_group_count fs)];
        case g of
          None \<Rightarrow> Some (-1, fs)
        | Some grp \<Rightarrow> do {
            buf \<leftarrow> m;
            bm \<leftarrow> bgd32 fs grp BGD_inode_bitmap;
            (_, buf, fs) \<leftarrow> read_block dev bm buf fs;
            off \<leftarrow> clear_bit_of buf;
            let node_no = of_nat off + of_nat grp * e2_inodes_per_group fs + 1;
            if node_no = 0 then Some (-1, fs)
            else do {
              fs \<leftarrow> take_bit_of_group dev grp off BGD_inode_bitmap BGD_free_inodes_count SB_free_inodes_count buf fs;
              Some (node_no, fs)
            }
          }
      })"

subsection \<open>The inode table\<close>

text \<open>
  Where an inode is: the block, and the position in it. \<open>None\<close> is a division by zero, \<open>Some None\<close> a group
  that is too high.
\<close>

definition inode_place :: "'d ext2_fs \<Rightarrow> u32 \<Rightarrow> (u32 \<times> nat) option option" where
  "inode_place fs index =
     (if e2_inodes_per_group fs = 0 then None
      else
        (let grp = index div e2_inodes_per_group fs
         in if grp > e2_block_group_count fs then Some None
            else if e2_block_size fs = 0 \<or> e2_inode_size fs = 0 then None
            else do {
              table \<leftarrow> bgd32 fs (unat grp) BGD_inode_table;
              let index = index - grp * e2_inodes_per_group fs;
              let block = ((index - 1) * e2_inode_size fs) div e2_block_size fs;
              let off = (index - 1) - block * (e2_block_size fs div e2_inode_size fs);
              Some (Some (table + block, unat (off * e2_inode_size fs)))
            }))"

definition write_inode :: "'d blockdev_node \<Rightarrow> u8 list \<Rightarrow> u32 \<Rightarrow> 'd ext2_fs \<Rightarrow> (u32 \<times> 'd ext2_fs) option" where
  "write_inode dev inode index fs = do {
     place \<leftarrow> inode_place fs index;
     case place of
       None \<Rightarrow> Some (-1, fs)
     | Some (block, off) \<Rightarrow> do {
         (buf, fs) \<leftarrow> must_alloc (bsize fs) fs;
         (_, buf, fs) \<leftarrow> read_block dev block buf fs;
         bytes \<leftarrow> slice_bytes inode 0 (unat (e2_inode_size fs));
         buf \<leftarrow> put_bytes buf off bytes;
         (_, fs) \<leftarrow> write_block dev block buf fs;
         Some (0, fs)
       }
   }"

text \<open>Two divisors are tested before their use here.\<close>

definition refresh_inode :: "'d blockdev_node \<Rightarrow> u8 list \<Rightarrow> u32 \<Rightarrow> 'd ext2_fs \<Rightarrow> (u8 list \<times> 'd ext2_fs) option" where
  "refresh_inode dev inode index fs =
     (if e2_inodes_per_group fs = 0 \<or> e2_block_size fs = 0 then Some (inode, fs)
      else do {
        place \<leftarrow> inode_place fs index;
        case place of
          None \<Rightarrow> Some (inode, fs)
        | Some (block, off) \<Rightarrow> do {
            (buf, fs) \<leftarrow> must_alloc (bsize fs) fs;
            (_, buf, fs) \<leftarrow> read_block dev block (replicate (length buf) 0) fs;
            bytes \<leftarrow> slice_bytes buf off (unat (e2_inode_size fs));
            inode \<leftarrow> put_bytes inode 0 bytes;
            Some (inode, fs)
          }
      })"

definition read_inode :: "'d blockdev_node \<Rightarrow> u32 \<Rightarrow> 'd ext2_fs \<Rightarrow> (u8 list \<times> 'd ext2_fs) option" where
  "read_inode dev index fs = do {
     (inode, fs) \<leftarrow> must_alloc (unat (e2_inode_size fs)) fs;
     refresh_inode dev inode index fs
   }"

subsection \<open>Blocks of a file\<close>

definition get_ptr :: "u8 list \<Rightarrow> nat \<Rightarrow> u32 option" where
  "get_ptr inode k = get32 inode (IN_block + 4 * k)"

definition set_ptr :: "u8 list \<Rightarrow> nat \<Rightarrow> u32 \<Rightarrow> u8 list option" where
  "set_ptr inode k v = put32 inode (IN_block + 4 * k) v"

text \<open>
  The tables that lead to a block: which one of the inode, and the index in each. The square of the number
  of pointers may wrap around to zero.
\<close>

datatype table_path =
    Direct nat
  | Single u32
  | Double u32 u32
  | Triple u32 u32 u32
  | Too_high
  | Div_by_zero

definition block_path :: "u32 \<Rightarrow> u32 \<Rightarrow> table_path" where
  "block_path p iblock =
     (let direct = of_nat EXT2_DIRECT_BLOCKS; a = iblock - direct; b = a - p
      in if iblock < direct then Direct (unat iblock)
         else if iblock < direct + p then Single a
         else if iblock < direct + p + p * p
         then (let c = b div p in Double c (b - c * p))
         else if iblock < direct + p + p * p + p
         then if p * p = 0 then Div_by_zero
           else (let c = b - p * p; d = c div (p * p); e = c - d * p * p; f = e div p in Triple d f (e - f * p))
         else Too_high)"

definition get_block_number ::
    "'d blockdev_node \<Rightarrow> u8 list \<Rightarrow> u32 \<Rightarrow> 'd ext2_fs \<Rightarrow> (u32 \<times> 'd ext2_fs) option" where
  "get_block_number dev inode iblock fs =
     (case block_path (e2_pointers_per_block fs) iblock of
        Direct k \<Rightarrow> do { b \<leftarrow> get_ptr inode k; Some (b, fs) }
      | Single i \<Rightarrow>
          (case alloc (bsize fs) fs of
             (None, fs) \<Rightarrow> Some (-1, fs)
           | (Some tmp, fs) \<Rightarrow> do {
               top \<leftarrow> get_ptr inode EXT2_DIRECT_BLOCKS;
               (_, tmp, fs) \<leftarrow> read_block dev top tmp fs;
               out \<leftarrow> get32 tmp (4 * unat i);
               Some (out, fs)
             })
      | Double c d \<Rightarrow>
          (case alloc (bsize fs) fs of
             (None, fs) \<Rightarrow> Some (-1, fs)
           | (Some tmp, fs) \<Rightarrow> do {
               top \<leftarrow> get_ptr inode (EXT2_DIRECT_BLOCKS + 1);
               (_, tmp, fs) \<leftarrow> read_block dev top tmp fs;
               nblock \<leftarrow> get32 tmp (4 * unat c);
               (_, tmp, fs) \<leftarrow> read_block dev nblock tmp fs;
               out \<leftarrow> get32 tmp (4 * unat d);
               Some (out, fs)
             })
      | Triple d f g \<Rightarrow>
          (case alloc (bsize fs) fs of
             (None, fs) \<Rightarrow> Some (-1, fs)
           | (Some tmp, fs) \<Rightarrow> do {
               top \<leftarrow> get_ptr inode (EXT2_DIRECT_BLOCKS + 2);
               (_, tmp, fs) \<leftarrow> read_block dev top tmp fs;
               nblock \<leftarrow> get32 tmp (4 * unat d);
               (_, tmp, fs) \<leftarrow> read_block dev nblock tmp fs;
               nblock \<leftarrow> get32 tmp (4 * unat f);
               (_, tmp, fs) \<leftarrow> read_block dev nblock tmp fs;
               out \<leftarrow> get32 tmp (4 * unat g);
               Some (out, fs)
             })
      | Too_high \<Rightarrow> Some (-1, fs)
      | Div_by_zero \<Rightarrow> None)"

text \<open>A table of the inode, made when there is none. The first component tells whether to go on.\<close>

definition ensure_table ::
    "'d blockdev_node \<Rightarrow> nat \<Rightarrow> u8 list \<Rightarrow> u32 \<Rightarrow> 'd ext2_fs \<Rightarrow> (bool \<times> u8 list \<times> 'd ext2_fs) option" where
  "ensure_table dev k inode inode_no fs = do {
     b \<leftarrow> get_ptr inode k;
     if b \<noteq> 0 then Some (True, inode, fs)
     else do {
       (block_no, fs) \<leftarrow> allocate_block dev fs;
       if block_no = 0 then Some (False, inode, fs)
       else do {
         inode \<leftarrow> set_ptr inode k block_no;
         (_, fs) \<leftarrow> write_inode dev inode inode_no fs;
         Some (True, inode, fs)
       }
     }
   }"

text \<open>Entry \<open>i\<close> of the table in \<open>tmp\<close>, which is block \<open>table\<close>.\<close>

definition ensure_entry ::
    "'d blockdev_node \<Rightarrow> u32 \<Rightarrow> u32 \<Rightarrow> u8 list \<Rightarrow> 'd ext2_fs \<Rightarrow> (bool \<times> u8 list \<times> 'd ext2_fs) option" where
  "ensure_entry dev table i tmp fs = do {
     b \<leftarrow> get32 tmp (4 * unat i);
     if b \<noteq> 0 then Some (True, tmp, fs)
     else do {
       (block_no, fs) \<leftarrow> allocate_block dev fs;
       if block_no = 0 then Some (False, tmp, fs)
       else do {
         tmp \<leftarrow> put32 tmp (4 * unat i) block_no;
         (_, fs) \<leftarrow> write_block dev table tmp fs;
         Some (True, tmp, fs)
       }
     }
   }"

text \<open>
  The last entry of a chain of tables is set to \<open>v\<close>. At three levels the code stores the number of the
  table itself.
\<close>

definition set_entry_of ::
    "'d blockdev_node \<Rightarrow> u32 \<Rightarrow> u32 \<Rightarrow> u32 \<Rightarrow> u8 list \<Rightarrow> 'd ext2_fs \<Rightarrow> 'd ext2_fs option" where
  "set_entry_of dev table i v tmp fs = do {
     (_, tmp, fs) \<leftarrow> read_block dev table tmp fs;
     tmp \<leftarrow> put32 tmp (4 * unat i) v;
     (_, fs) \<leftarrow> write_block dev table tmp fs;
     Some fs
   }"

definition set_single :: "'d blockdev_node \<Rightarrow> u8 list \<Rightarrow> u32 \<Rightarrow> u32 \<Rightarrow> u32 \<Rightarrow> 'd ext2_fs \<Rightarrow>
    (u32 \<times> u8 list \<times> 'd ext2_fs) option" where
  "set_single dev inode inode_no i rblock fs = do {
     (ok, inode, fs) \<leftarrow> ensure_table dev EXT2_DIRECT_BLOCKS inode inode_no fs;
     if \<not> ok then Some (-1, inode, fs)
     else
       (case alloc (bsize fs) fs of
          (None, fs) \<Rightarrow> Some (-1, inode, fs)
        | (Some tmp, fs) \<Rightarrow> do {
            top \<leftarrow> get_ptr inode EXT2_DIRECT_BLOCKS;
            fs \<leftarrow> set_entry_of dev top i rblock tmp fs;
            Some (1, inode, fs)
          })
   }"

definition set_double :: "'d blockdev_node \<Rightarrow> u8 list \<Rightarrow> u32 \<Rightarrow> u32 \<Rightarrow> u32 \<Rightarrow> u32 \<Rightarrow> 'd ext2_fs \<Rightarrow>
    (u32 \<times> u8 list \<times> 'd ext2_fs) option" where
  "set_double dev inode inode_no c d rblock fs = do {
     (ok, inode, fs) \<leftarrow> ensure_table dev (EXT2_DIRECT_BLOCKS + 1) inode inode_no fs;
     if \<not> ok then Some (-1, inode, fs)
     else
       (case alloc (bsize fs) fs of
          (None, fs) \<Rightarrow> Some (-1, inode, fs)
        | (Some tmp, fs) \<Rightarrow> do {
            top \<leftarrow> get_ptr inode (EXT2_DIRECT_BLOCKS + 1);
            (_, tmp, fs) \<leftarrow> read_block dev top tmp fs;
            (ok, tmp, fs) \<leftarrow> ensure_entry dev top c tmp fs;
            if \<not> ok then Some (-1, inode, fs)
            else do {
              nblock \<leftarrow> get32 tmp (4 * unat c);
              fs \<leftarrow> set_entry_of dev nblock d rblock tmp fs;
              Some (0, inode, fs)
            }
          })
   }"

definition set_triple :: "'d blockdev_node \<Rightarrow> u8 list \<Rightarrow> u32 \<Rightarrow> u32 \<Rightarrow> u32 \<Rightarrow> u32 \<Rightarrow> u32 \<Rightarrow> 'd ext2_fs \<Rightarrow>
    (u32 \<times> u8 list \<times> 'd ext2_fs) option" where
  "set_triple dev inode inode_no d f g rblock fs = do {
     (ok, inode, fs) \<leftarrow> ensure_table dev (EXT2_DIRECT_BLOCKS + 2) inode inode_no fs;
     if \<not> ok then Some (-1, inode, fs)
     else
       (case alloc (bsize fs) fs of
          (None, fs) \<Rightarrow> Some (-1, inode, fs)
        | (Some tmp, fs) \<Rightarrow> do {
            top \<leftarrow> get_ptr inode (EXT2_DIRECT_BLOCKS + 2);
            (_, tmp, fs) \<leftarrow> read_block dev top tmp fs;
            (ok, tmp, fs) \<leftarrow> ensure_entry dev top d tmp fs;
            if \<not> ok then Some (-1, inode, fs)
            else do {
              nblock \<leftarrow> get32 tmp (4 * unat d);
              (_, tmp, fs) \<leftarrow> read_block dev nblock tmp fs;
              (ok, tmp, fs) \<leftarrow> ensure_entry dev nblock f tmp fs;
              if \<not> ok then Some (-1, inode, fs)
              else do {
                nblock \<leftarrow> get32 tmp (4 * unat f);
                fs \<leftarrow> set_entry_of dev nblock g nblock tmp fs;
                Some (0, inode, fs)
              }
            }
          })
   }"

definition set_block_number :: "'d blockdev_node \<Rightarrow> u8 list \<Rightarrow> u32 \<Rightarrow> u32 \<Rightarrow> u32 \<Rightarrow> 'd ext2_fs \<Rightarrow>
    (u32 \<times> u8 list \<times> 'd ext2_fs) option" where
  "set_block_number dev inode inode_no iblock rblock fs =
     (case block_path (e2_pointers_per_block fs) iblock of
        Direct k \<Rightarrow> do { inode \<leftarrow> set_ptr inode k rblock; Some (0, inode, fs) }
      | Single i \<Rightarrow> set_single dev inode inode_no i rblock fs
      | Double c d \<Rightarrow> set_double dev inode inode_no c d rblock fs
      | Triple d f g \<Rightarrow> set_triple dev inode inode_no d f g rblock fs
      | Too_high \<Rightarrow> Some (-1, inode, fs)
      | Div_by_zero \<Rightarrow> None)"

end
