(* ===== verification/Ext2_File.thy ===== *)
theory Ext2_File
  imports Ext2_Inode
begin

text \<open>
  Reading and writing the bytes of a file, kernel/src/vfs/ext2.c: growing a file block by block, blocks of a
  file, byte ranges, and the functions of a file node that act on its inode.

  A file node is the number of its inode.
\<close>

subsection \<open>Fields of an inode\<close>

definition IN_mode :: nat where "IN_mode = 0"
definition IN_uid :: nat where "IN_uid = 2"
definition IN_size :: nat where "IN_size = 4"
definition IN_atime :: nat where "IN_atime = 8"
definition IN_ctime :: nat where "IN_ctime = 12"
definition IN_mtime :: nat where "IN_mtime = 16"
definition IN_dtime :: nat where "IN_dtime = 20"
definition IN_gid :: nat where "IN_gid = 24"
definition IN_links_count :: nat where "IN_links_count = 26"
definition IN_flags :: nat where "IN_flags = 32"
definition IN_osd1 :: nat where "IN_osd1 = 36"
definition IN_generation :: nat where "IN_generation = 100"
definition IN_file_acl :: nat where "IN_file_acl = 104"
definition IN_dir_acl :: nat where "IN_dir_acl = 108"
definition IN_faddr :: nat where "IN_faddr = 112"
definition IN_osd2 :: nat where "IN_osd2 = 116"

lemmas inode_layout = IN_mode_def IN_uid_def IN_size_def IN_atime_def IN_ctime_def IN_mtime_def IN_dtime_def
  IN_gid_def IN_links_count_def IN_flags_def IN_osd1_def IN_generation_def IN_file_acl_def IN_dir_acl_def
  IN_faddr_def IN_osd2_def IN_blocks_def IN_block_def

subsection \<open>Blocks\<close>

definition allocate_inode_block ::
    "'d blockdev_node \<Rightarrow> u8 list \<Rightarrow> u32 \<Rightarrow> u32 \<Rightarrow> 'd ext2_fs \<Rightarrow> (u32 \<times> u8 list \<times> 'd ext2_fs) option" where
  "allocate_inode_block dev inode inode_no block fs = do {
     (block_no, fs) \<leftarrow> allocate_block dev fs;
     if block_no = 0 then Some (-1, inode, fs)
     else do {
       (_, inode, fs) \<leftarrow> set_block_number dev inode inode_no block block_no fs;
       let t = (block + 1) * (e2_block_size fs div 512);
       blocks \<leftarrow> get32 inode IN_blocks;
       inode \<leftarrow> (if blocks < t then put32 inode IN_blocks t else Some inode);
       (_, fs) \<leftarrow> write_inode dev inode inode_no fs;
       Some (0, inode, fs)
     }
   }"

text \<open>The number of blocks of a file; a block below 512 bytes is a division by zero.\<close>

definition file_blocks :: "u8 list \<Rightarrow> 'd ext2_fs \<Rightarrow> u32 option" where
  "file_blocks inode fs = do {
     n \<leftarrow> get32 inode IN_blocks;
     if e2_block_size fs div 512 = 0 then None else Some (n div (e2_block_size fs div 512))
   }"

definition inode_read_block ::
    "'d blockdev_node \<Rightarrow> u8 list \<Rightarrow> u32 \<Rightarrow> u8 list \<Rightarrow> 'd ext2_fs \<Rightarrow> (u32 \<times> u8 list \<times> 'd ext2_fs) option" where
  "inode_read_block dev inode block buf fs = do {
     n \<leftarrow> file_blocks inode fs;
     if block \<ge> n then do { buf \<leftarrow> put_bytes buf 0 (replicate (bsize fs) 0); Some (0, buf, fs) }
     else do {
       (real_block, fs) \<leftarrow> get_block_number dev inode block fs;
       (_, buf, fs) \<leftarrow> read_block dev real_block buf fs;
       Some (real_block, buf, fs)
     }
   }"

partial_function (option) grow_inode ::
    "'d blockdev_node \<Rightarrow> u8 list \<Rightarrow> u32 \<Rightarrow> u32 \<Rightarrow> 'd ext2_fs \<Rightarrow> (u8 list \<times> 'd ext2_fs) option" where
  "grow_inode dev inode inode_no block fs = do {
     n \<leftarrow> file_blocks inode fs;
     if block < n then Some (inode, fs)
     else do {
       (_, inode, fs) \<leftarrow> allocate_inode_block dev inode inode_no n fs;
       (inode, fs) \<leftarrow> refresh_inode dev inode inode_no fs;
       grow_inode dev inode inode_no block fs
     }
   }"

definition inode_write_block ::
    "'d blockdev_node \<Rightarrow> u8 list \<Rightarrow> u32 \<Rightarrow> u32 \<Rightarrow> u8 list \<Rightarrow> 'd ext2_fs \<Rightarrow> (u32 \<times> u8 list \<times> 'd ext2_fs) option" where
  "inode_write_block dev inode inode_no block buf fs = do {
     (inode, fs) \<leftarrow> grow_inode dev inode inode_no block fs;
     (real_block, fs) \<leftarrow> get_block_number dev inode block fs;
     (_, fs) \<leftarrow> write_block dev real_block buf fs;
     Some (real_block, inode, fs)
   }"

subsection \<open>Ranges\<close>

definition copy_bytes :: "u8 list \<Rightarrow> nat \<Rightarrow> u8 list \<Rightarrow> nat \<Rightarrow> nat \<Rightarrow> u8 list option" where
  "copy_bytes dst dpos src spos n = do { bs \<leftarrow> slice_bytes src spos n; put_bytes dst dpos bs }"

text \<open>\<open>offset % this->block_size\<close>, and the place in the caller's buffer of block \<open>j\<close> of a range.\<close>

definition in_block :: "'d ext2_fs \<Rightarrow> u64 \<Rightarrow> nat" where
  "in_block fs offset = unat (offset mod ucast (e2_block_size fs))"

definition buffer_pos :: "'d ext2_fs \<Rightarrow> u64 \<Rightarrow> nat \<Rightarrow> nat option" where
  "buffer_pos fs offset j =
     (let a = unat (e2_block_size fs * of_nat j)
      in if in_block fs offset \<le> a then Some (a - in_block fs offset) else None)"

text \<open>The blocks a range starts and ends in, the bytes in the last one, and its length.\<close>

definition start_block :: "'d ext2_fs \<Rightarrow> u64 \<Rightarrow> u32" where
  "start_block fs offset = ucast (offset div ucast (e2_block_size fs))"

definition end_block :: "'d ext2_fs \<Rightarrow> u32 \<Rightarrow> u32" where
  "end_block fs e = e div e2_block_size fs"

definition end_size :: "'d ext2_fs \<Rightarrow> u32 \<Rightarrow> u32" where
  "end_size fs e = e - end_block fs e * e2_block_size fs"

definition size_to_read :: "u64 \<Rightarrow> u32 \<Rightarrow> u32" where
  "size_to_read offset e = ucast (ucast e - offset)"

text \<open>The number of rounds of the loop from the first block to the one before the last.\<close>

definition loop_blocks :: "'d ext2_fs \<Rightarrow> u64 \<Rightarrow> u32 \<Rightarrow> nat list" where
  "loop_blocks fs offset e = [0..<unat (end_block fs e) - unat (start_block fs offset)]"

subsection \<open>Reading\<close>

definition read_step ::
    "'d blockdev_node \<Rightarrow> u8 list \<Rightarrow> u64 \<Rightarrow> nat \<Rightarrow> u8 list \<times> u8 list \<times> 'd ext2_fs \<Rightarrow> (u8 list \<times> u8 list \<times> 'd ext2_fs) option" where
  "read_step dev inode offset j s =
     (case s of (buffer, buf, fs) \<Rightarrow> do {
        (_, buf, fs) \<leftarrow> inode_read_block dev inode (start_block fs offset + of_nat j) buf fs;
        buffer \<leftarrow>
          (if j = 0 then copy_bytes buffer 0 buf (in_block fs offset) (bsize fs - in_block fs offset)
           else do { pos \<leftarrow> buffer_pos fs offset j; copy_bytes buffer pos buf 0 (bsize fs) });
        Some (buffer, buf, fs)
      })"

definition read_bytes ::
    "'d blockdev_node \<Rightarrow> u8 list \<Rightarrow> u64 \<Rightarrow> u32 \<Rightarrow> u8 list \<Rightarrow> 'd ext2_fs \<Rightarrow> (u8 list \<times> 'd ext2_fs) option" where
  "read_bytes dev inode offset e buffer fs = do {
     (buf, fs) \<leftarrow> must_alloc (bsize fs) fs;
     if start_block fs offset = end_block fs e then do {
       (_, buf, fs) \<leftarrow> inode_read_block dev inode (start_block fs offset) buf fs;
       buffer \<leftarrow> copy_bytes buffer 0 buf (in_block fs offset) (unat (size_to_read offset e));
       Some (buffer, fs)
     }
     else do {
       (buffer, buf, fs) \<leftarrow> for_each (read_step dev inode offset) (loop_blocks fs offset e) (buffer, buf, fs);
       if end_size fs e = 0 then Some (buffer, fs)
       else do {
         (_, buf, fs) \<leftarrow> inode_read_block dev inode (end_block fs e) buf fs;
         pos \<leftarrow> buffer_pos fs offset (length (loop_blocks fs offset e));
         buffer \<leftarrow> copy_bytes buffer pos buf 0 (unat (end_size fs e));
         Some (buffer, fs)
       }
     }
   }"

definition read_ext2 ::
    "'d blockdev_node \<Rightarrow> u32 \<Rightarrow> u64 \<Rightarrow> u32 \<Rightarrow> u8 list \<Rightarrow> 'd ext2_fs \<Rightarrow> (u32 \<times> u8 list \<times> 'd ext2_fs) option" where
  "read_ext2 dev node offset sz buffer fs = do {
     (inode, fs) \<leftarrow> read_inode dev node fs;
     isize \<leftarrow> get32 inode IN_size;
     if isize = 0 then Some (0, buffer, fs)
     else
       (let e = (if offset + ucast sz > ucast isize then isize else ucast (offset + ucast sz))
        in if e2_block_size fs = 0 then Some (0, buffer, fs)
           else do {
             (buffer, fs) \<leftarrow> read_bytes dev inode offset e buffer fs;
             Some (size_to_read offset e, buffer, fs)
           })
   }"

subsection \<open>Writing\<close>

text \<open>Part of a block is changed: it is read, the bytes of the buffer are put in, and it is written.\<close>

definition change_block ::
    "'d blockdev_node \<Rightarrow> u32 \<Rightarrow> u32 \<Rightarrow> nat \<Rightarrow> nat \<Rightarrow> nat \<Rightarrow> u8 list \<Rightarrow> u8 list \<times> u8 list \<times> 'd ext2_fs \<Rightarrow>
     (u32 \<times> u8 list \<times> u8 list \<times> 'd ext2_fs) option" where
  "change_block dev inode_no block pos spos n buffer s =
     (case s of (inode, buf, fs) \<Rightarrow> do {
        (b, buf, fs) \<leftarrow> inode_read_block dev inode block buf fs;
        buf \<leftarrow> copy_bytes buf pos buffer spos n;
        (_, inode, fs) \<leftarrow> inode_write_block dev inode inode_no block buf fs;
        Some (b, inode, buf, fs)
      })"

definition write_step ::
    "'d blockdev_node \<Rightarrow> u32 \<Rightarrow> u64 \<Rightarrow> u8 list \<Rightarrow> nat \<Rightarrow> u8 list \<times> u8 list \<times> 'd ext2_fs \<Rightarrow>
     (u8 list \<times> u8 list \<times> 'd ext2_fs) option" where
  "write_step dev inode_no offset buffer j s =
     (case s of (inode, buf, fs) \<Rightarrow> do {
        let block = start_block fs offset + of_nat j;
        (b, inode, buf, fs) \<leftarrow>
          (if j = 0
           then change_block dev inode_no block (in_block fs offset) 0 (bsize fs - in_block fs offset) buffer (inode, buf, fs)
           else do {
             pos \<leftarrow> buffer_pos fs offset j;
             change_block dev inode_no block 0 pos (bsize fs) buffer (inode, buf, fs)
           });
        (inode, fs) \<leftarrow> (if b = 0 then refresh_inode dev inode inode_no fs else Some (inode, fs));
        Some (inode, buf, fs)
      })"

definition write_inode_buffer ::
    "'d blockdev_node \<Rightarrow> u8 list \<Rightarrow> u32 \<Rightarrow> u64 \<Rightarrow> u32 \<Rightarrow> u8 list \<Rightarrow> 'd ext2_fs \<Rightarrow>
     (u32 \<times> u8 list \<times> 'd ext2_fs) option" where
  "write_inode_buffer dev inode inode_no offset sz buffer fs = do {
     let e = ucast (offset + ucast sz);
     isize \<leftarrow> get32 inode IN_size;
     (inode, fs) \<leftarrow>
       (if e > isize then do {
          inode \<leftarrow> put32 inode IN_size e;
          (_, fs) \<leftarrow> write_inode dev inode inode_no fs;
          Some (inode, fs)
        }
        else Some (inode, fs));
     if e2_block_size fs = 0 then None
     else do {
       (buf, fs) \<leftarrow> must_alloc (bsize fs) fs;
       (inode, fs) \<leftarrow>
         (if start_block fs offset = end_block fs e then do {
            (_, inode, _, fs) \<leftarrow> change_block dev inode_no (start_block fs offset) (in_block fs offset) 0
              (unat (size_to_read offset e)) buffer (inode, buf, fs);
            Some (inode, fs)
          }
          else do {
            (inode, buf, fs) \<leftarrow> for_each (write_step dev inode_no offset buffer) (loop_blocks fs offset e) (inode, buf, fs);
            if end_size fs e = 0 then Some (inode, fs)
            else do {
              pos \<leftarrow> buffer_pos fs offset (length (loop_blocks fs offset e));
              (_, inode, _, fs) \<leftarrow> change_block dev inode_no (end_block fs e) 0 pos (unat (end_size fs e)) buffer (inode, buf, fs);
              Some (inode, fs)
            }
          });
       Some (size_to_read offset e, inode, fs)
     }
   }"

definition write_ext2 ::
    "'d blockdev_node \<Rightarrow> u32 \<Rightarrow> u64 \<Rightarrow> u32 \<Rightarrow> u8 list \<Rightarrow> 'd ext2_fs \<Rightarrow> (u32 \<times> 'd ext2_fs) option" where
  "write_ext2 dev node offset sz buffer fs = do {
     (inode, fs) \<leftarrow> read_inode dev node fs;
     (rv, _, fs) \<leftarrow> write_inode_buffer dev inode node offset sz buffer fs;
     Some (rv, fs)
   }"

subsection \<open>Operations on one inode\<close>

definition truncate_ext2 :: "'d blockdev_node \<Rightarrow> u32 \<Rightarrow> 'd ext2_fs \<Rightarrow> (u32 \<times> 'd ext2_fs) option" where
  "truncate_ext2 dev node fs = do {
     (inode, fs) \<leftarrow> read_inode dev node fs;
     inode \<leftarrow> put32 inode IN_size 0;
     (_, fs) \<leftarrow> write_inode dev inode node fs;
     Some (0, fs)
   }"

text \<open>The upper four bits, the type of the file, are kept, and those of \<open>mode\<close> are added to them.\<close>

definition chmod_ext2 :: "'d blockdev_node \<Rightarrow> u32 \<Rightarrow> u32 \<Rightarrow> 'd ext2_fs \<Rightarrow> (u32 \<times> 'd ext2_fs) option" where
  "chmod_ext2 dev node mode fs = do {
     (inode, fs) \<leftarrow> read_inode dev node fs;
     old \<leftarrow> get16 inode IN_mode;
     inode \<leftarrow> put16 inode IN_mode (ucast (ucast old AND 0xFFFFF000 OR mode));
     (_, fs) \<leftarrow> write_inode dev inode node fs;
     fs \<leftarrow> ext2_sync dev fs;
     Some (0, fs)
   }"

definition readlink_ext2 ::
    "'d blockdev_node \<Rightarrow> u32 \<Rightarrow> u8 list \<Rightarrow> u64 \<Rightarrow> 'd ext2_fs \<Rightarrow> (u64 \<times> u8 list \<times> 'd ext2_fs) option" where
  "readlink_ext2 dev node buffer sz fs = do {
     (inode, fs) \<leftarrow> read_inode dev node fs;
     isize \<leftarrow> get32 inode IN_size;
     let read_size = (if ucast isize < sz then ucast isize else sz);
     (buffer, fs) \<leftarrow>
       (if isize > 60 then do {
          (_, buffer, fs) \<leftarrow> read_ext2 dev node 0 (ucast read_size) buffer fs;
          Some (buffer, fs)
        }
        else do {
          buffer \<leftarrow> copy_bytes buffer 0 inode IN_block (unat read_size);
          Some (buffer, fs)
        });
     buffer \<leftarrow> (if read_size < sz then upd buffer (unat read_size) 0 else Some buffer);
     Some (read_size, buffer, fs)
   }"

end
