(* ===== verification/Ext2_Dir.thy ===== *)
theory Ext2_Dir
  imports Ext2_File Vfs_Open Hashmap
begin

text \<open>
  Directories of the ext2 driver, kernel/src/vfs/ext2.c: the entries of a directory, file nodes made from
  inodes, the functions of a directory node, and mounting.

  A directory node is the number of its inode. A name is the bytes before its terminator. The loops over
  the entries of a directory need not end: an entry of length 0 makes them stay where they are.
\<close>

subsection \<open>Entries\<close>

text \<open>The fields of \<open>ext2_dir_t\<close>, and its size without the name.\<close>

definition DE_inode :: nat where "DE_inode = 0"
definition DE_rec_len :: nat where "DE_rec_len = 4"
definition DE_name_len :: nat where "DE_name_len = 6"
definition DE_file_type :: nat where "DE_file_type = 7"
definition DE_sizeof :: nat where "DE_sizeof = 8"

lemmas dirent_layout = DE_inode_def DE_rec_len_def DE_name_len_def DE_file_type_def DE_sizeof_def

text \<open>The length of an entry, rounded up to a multiple of four.\<close>

definition entry_length :: "u32 \<Rightarrow> u32" where
  "entry_length n =
     (let len = of_nat DE_sizeof + n in len + (if len mod 4 \<noteq> 0 then 4 - len mod 4 else 0))"

text \<open>The place in a walk over a directory: the block that is in memory, the offset in it, and in all.\<close>

record dir_pos =
  dp_block :: "u8 list"
  dp_block_nr :: u8
  dp_offset :: u32
  dp_total :: u32

definition dir_ino :: "dir_pos \<Rightarrow> u32 option" where
  "dir_ino p = get32 (dp_block p) (unat (dp_offset p) + DE_inode)"

definition dir_rec_len :: "dir_pos \<Rightarrow> u16 option" where
  "dir_rec_len p = get16 (dp_block p) (unat (dp_offset p) + DE_rec_len)"

definition dir_name_len :: "dir_pos \<Rightarrow> u8 option" where
  "dir_name_len p = idx (dp_block p) (unat (dp_offset p) + DE_name_len)"

definition dir_name :: "dir_pos \<Rightarrow> nat \<Rightarrow> u8 list option" where
  "dir_name p n = slice_bytes (dp_block p) (unat (dp_offset p) + DE_sizeof) n"

definition dir_skip :: "u32 \<Rightarrow> dir_pos \<Rightarrow> dir_pos" where
  "dir_skip n p = p\<lparr>dp_offset := dp_offset p + n, dp_total := dp_total p + n\<rparr>"

text \<open>The first block of a directory, and the step to the next one.\<close>

definition dir_start :: "'d blockdev_node \<Rightarrow> u8 list \<Rightarrow> 'd ext2_fs \<Rightarrow> (dir_pos \<times> 'd ext2_fs) option" where
  "dir_start dev inode fs = do {
     (block, fs) \<leftarrow> must_alloc (bsize fs) fs;
     (_, block, fs) \<leftarrow> inode_read_block dev inode 0 block fs;
     Some (\<lparr>dp_block = block, dp_block_nr = 0, dp_offset = 0, dp_total = 0\<rparr>, fs)
   }"

definition dir_next_block :: "'d blockdev_node \<Rightarrow> u8 list \<Rightarrow> dir_pos \<Rightarrow> 'd ext2_fs \<Rightarrow> (dir_pos \<times> 'd ext2_fs) option" where
  "dir_next_block dev inode p fs =
     (if dp_offset p \<ge> e2_block_size fs then do {
        let nr = dp_block_nr p + 1;
        (_, block, fs) \<leftarrow> inode_read_block dev inode (ucast nr) (dp_block p) fs;
        Some (p\<lparr>dp_block := block, dp_block_nr := nr, dp_offset := dp_offset p - e2_block_size fs\<rparr>, fs)
      }
      else Some (p, fs))"

subsection \<open>Looking up a name\<close>

text \<open>The loop of \<open>finddir_ext2\<close> and \<open>unlink_ext2\<close>: the place of the entry, and whether there is one.\<close>

partial_function (option) dir_scan ::
    "'d blockdev_node \<Rightarrow> u8 list \<Rightarrow> cstring \<Rightarrow> u32 \<Rightarrow> dir_pos \<Rightarrow> 'd ext2_fs \<Rightarrow> (bool \<times> dir_pos \<times> 'd ext2_fs) option" where
  "dir_scan dev inode nm isize p fs =
     (if \<not> dp_total p < isize then Some (False, p, fs)
      else do {
        (p, fs) \<leftarrow> dir_next_block dev inode p fs;
        ino \<leftarrow> dir_ino p;
        n \<leftarrow> dir_name_len p;
        len \<leftarrow> dir_rec_len p;
        if ino = 0 \<or> length nm \<noteq> unat n then dir_scan dev inode nm isize (dir_skip (ucast len) p) fs
        else do {
          (_, fs) \<leftarrow> must_alloc (unat n + 1) fs;
          dname \<leftarrow> dir_name p (unat n);
          if strcmp (takeWhile (\<lambda>c. c \<noteq> 0) dname) nm = 0 then Some (True, p, fs)
          else dir_scan dev inode nm isize (dir_skip (ucast len) p) fs
        }
      })"

definition dir_find :: "'d blockdev_node \<Rightarrow> u8 list \<Rightarrow> cstring \<Rightarrow> 'd ext2_fs \<Rightarrow> (bool \<times> dir_pos \<times> 'd ext2_fs) option" where
  "dir_find dev inode nm fs = do {
     (p, fs) \<leftarrow> dir_start dev inode fs;
     isize \<leftarrow> get32 inode IN_size;
     dir_scan dev inode nm isize p fs
   }"

subsection \<open>File nodes\<close>

definition FS_FILE :: u32 where "FS_FILE = 0x01"
definition FS_CHARDEVICE :: u32 where "FS_CHARDEVICE = 0x04"
definition FS_BLOCKDEVICE :: u32 where "FS_BLOCKDEVICE = 0x08"
definition FS_PIPE :: u32 where "FS_PIPE = 0x10"

definition EXT2_S_IFLNK :: u16 where "EXT2_S_IFLNK = 0xA000"
definition EXT2_S_IFREG :: u16 where "EXT2_S_IFREG = 0x8000"
definition EXT2_S_IFBLK :: u16 where "EXT2_S_IFBLK = 0x6000"
definition EXT2_S_IFDIR :: u16 where "EXT2_S_IFDIR = 0x4000"
definition EXT2_S_IFCHR :: u16 where "EXT2_S_IFCHR = 0x2000"
definition EXT2_S_IFIFO :: u16 where "EXT2_S_IFIFO = 0x1000"

text \<open>The functions a node can have; the others are set on every node, or on none.\<close>

datatype handler =
    Read | Write | Create | Mkdir | Readdir | Finddir | Unlink | Symlink | Readlink | Truncate

record ext2_node =
  en_inode :: u32
  en_name :: "u8 list"
  en_uid :: u32
  en_gid :: u32
  en_length :: u32
  en_permissions :: u32
  en_nlink :: u32
  en_flags :: u32
  en_handlers :: "handler set"
  en_atime :: u32
  en_mtime :: u32
  en_ctime :: u32

definition has_type :: "u16 \<Rightarrow> u16 \<Rightarrow> bool" where
  "has_type mode t \<longleftrightarrow> mode AND t = t"

definition type_flags :: "u16 \<Rightarrow> u32" where
  "type_flags mode =
     (if has_type mode EXT2_S_IFREG then FS_FILE else 0) OR
     (if has_type mode EXT2_S_IFDIR then FS_DIRECTORY else 0) OR
     (if has_type mode EXT2_S_IFBLK then FS_BLOCKDEVICE else 0) OR
     (if has_type mode EXT2_S_IFCHR then FS_CHARDEVICE else 0) OR
     (if has_type mode EXT2_S_IFIFO then FS_PIPE else 0) OR
     (if has_type mode EXT2_S_IFLNK then FS_SYMLINK else 0)"

text \<open>The node is cleared before; three of the tests set and clear functions, one after the other.\<close>

definition type_handlers :: "u16 \<Rightarrow> handler set" where
  "type_handlers mode =
     (let h = (if has_type mode EXT2_S_IFREG then {Read, Write, Truncate} else {});
          h = (if has_type mode EXT2_S_IFDIR
               then h - {Write, Readlink} \<union> {Create, Mkdir, Readdir, Finddir, Unlink, Symlink} else h)
      in if has_type mode EXT2_S_IFLNK
         then h - {Read, Write, Create, Mkdir, Readdir, Finddir} \<union> {Readlink} else h)"

text \<open>The fields a node takes from the inode.\<close>

definition inode_fields :: "u8 list \<Rightarrow> ext2_node \<Rightarrow> ext2_node option" where
  "inode_fields inode node = do {
     uid \<leftarrow> get16 inode IN_uid;
     gid \<leftarrow> get16 inode IN_gid;
     isize \<leftarrow> get32 inode IN_size;
     mode \<leftarrow> get16 inode IN_mode;
     links \<leftarrow> get16 inode IN_links_count;
     atime \<leftarrow> get32 inode IN_atime;
     mtime \<leftarrow> get32 inode IN_mtime;
     ctime \<leftarrow> get32 inode IN_ctime;
     Some (node\<lparr>en_uid := ucast uid, en_gid := ucast gid, en_length := isize,
       en_permissions := ucast (mode AND 0xFFF), en_nlink := ucast links,
       en_atime := atime, en_mtime := mtime, en_ctime := ctime\<rparr>)
   }"

definition cleared_node :: ext2_node where
  "cleared_node = \<lparr>en_inode = 0, en_name = [], en_uid = 0, en_gid = 0, en_length = 0, en_permissions = 0, en_nlink = 0,
     en_flags = 0, en_handlers = {}, en_atime = 0, en_mtime = 0, en_ctime = 0\<rparr>"

text \<open>The entry is a copy of its \<open>rec_len\<close> bytes.\<close>

definition node_from_file :: "u8 list \<Rightarrow> u8 list \<Rightarrow> ext2_node option" where
  "node_from_file inode direntry = do {
     ino \<leftarrow> get32 direntry DE_inode;
     n \<leftarrow> idx direntry DE_name_len;
     nm \<leftarrow> slice_bytes direntry DE_sizeof (unat n);
     mode \<leftarrow> get16 inode IN_mode;
     inode_fields inode (cleared_node\<lparr>en_inode := ino, en_name := nm, en_flags := type_flags mode,
       en_handlers := type_handlers mode\<rparr>)
   }"

definition finddir_ext2 ::
    "'d blockdev_node \<Rightarrow> u32 \<Rightarrow> cstring \<Rightarrow> 'd ext2_fs \<Rightarrow> (ext2_node option \<times> 'd ext2_fs) option" where
  "finddir_ext2 dev node nm fs = do {
     (inode, fs) \<leftarrow> read_inode dev node fs;
     (found, p, fs) \<leftarrow> dir_find dev inode nm fs;
     if \<not> found then Some (None, fs)
     else do {
       len \<leftarrow> dir_rec_len p;
       (_, fs) \<leftarrow> must_alloc (unat len) fs;
       direntry \<leftarrow> slice_bytes (dp_block p) (unat (dp_offset p)) (unat len);
       (_, fs) \<leftarrow> must_alloc 1 fs;
       ino \<leftarrow> get32 direntry DE_inode;
       (inode, fs) \<leftarrow> read_inode dev ino fs;
       out \<leftarrow> node_from_file inode direntry;
       Some (Some out, fs)
     }
   }"

text \<open>
  The entry gets inode 0. The code writes the block through the inode it has already freed; \<open>kfree\<close> leaves
  the bytes of a block alone, so it is used with what it held.
\<close>

definition unlink_ext2 :: "'d blockdev_node \<Rightarrow> u32 \<Rightarrow> cstring \<Rightarrow> 'd ext2_fs \<Rightarrow> (u32 \<times> 'd ext2_fs) option" where
  "unlink_ext2 dev node nm fs = do {
     (inode, fs) \<leftarrow> read_inode dev node fs;
     (found, p, fs) \<leftarrow> dir_find dev inode nm fs;
     if \<not> found then Some (-1, fs)
     else do {
       block \<leftarrow> put32 (dp_block p) (unat (dp_offset p) + DE_inode) 0;
       (_, _, fs) \<leftarrow> inode_write_block dev inode node (ucast (dp_block_nr p)) block fs;
       fs \<leftarrow> ext2_sync dev fs;
       Some (0, fs)
     }
   }"

subsection \<open>Listing\<close>

text \<open>Entry number \<open>index\<close> that is in use; here the next block is read at the end of a round.\<close>

partial_function (option) direntry_loop ::
    "'d blockdev_node \<Rightarrow> u8 list \<Rightarrow> u32 \<Rightarrow> u32 \<Rightarrow> u32 \<Rightarrow> dir_pos \<Rightarrow> 'd ext2_fs \<Rightarrow> (u8 list option \<times> 'd ext2_fs) option" where
  "direntry_loop dev inode isize index dir_index p fs =
     (if \<not> (dp_total p < isize \<and> dir_index \<le> index) then Some (None, fs)
      else do {
        ino \<leftarrow> dir_ino p;
        len \<leftarrow> dir_rec_len p;
        if ino \<noteq> 0 \<and> dir_index = index then do {
          (_, fs) \<leftarrow> must_alloc (unat len) fs;
          out \<leftarrow> slice_bytes (dp_block p) (unat (dp_offset p)) (unat len);
          Some (Some out, fs)
        }
        else do {
          (p, fs) \<leftarrow> dir_next_block dev inode (dir_skip (ucast len) p) fs;
          direntry_loop dev inode isize index (if ino \<noteq> 0 then dir_index + 1 else dir_index) p fs
        }
      })"

definition direntry_ext2 :: "'d blockdev_node \<Rightarrow> u8 list \<Rightarrow> u32 \<Rightarrow> 'd ext2_fs \<Rightarrow> (u8 list option \<times> 'd ext2_fs) option" where
  "direntry_ext2 dev inode index fs = do {
     (p, fs) \<leftarrow> dir_start dev inode fs;
     isize \<leftarrow> get32 inode IN_size;
     direntry_loop dev inode isize index 0 p fs
   }"

text \<open>A \<open>struct dirent\<close> is the name and the number of the inode.\<close>

definition readdir_ext2 ::
    "'d blockdev_node \<Rightarrow> u32 \<Rightarrow> u32 \<Rightarrow> 'd ext2_fs \<Rightarrow> ((u8 list \<times> u32) option \<times> 'd ext2_fs) option" where
  "readdir_ext2 dev node index fs = do {
     (inode, fs) \<leftarrow> read_inode dev node fs;
     (d, fs) \<leftarrow> direntry_ext2 dev inode index fs;
     case d of
       None \<Rightarrow> Some (None, fs)
     | Some direntry \<Rightarrow> do {
         (_, fs) \<leftarrow> must_alloc 260 fs;
         n \<leftarrow> idx direntry DE_name_len;
         nm \<leftarrow> slice_bytes direntry DE_sizeof (unat n);
         ino \<leftarrow> get32 direntry DE_inode;
         Some (Some (nm, ino), fs)
       }
   }"

end
