(* ===== verification/Ext2_Create.thy ===== *)
theory Ext2_Create
  imports Ext2_Dir
begin

text \<open>
  Making files, kernel/src/vfs/ext2.c: new entries of a directory, files, directories and symbolic links,
  and mounting. The time of the clock is an argument.
\<close>

subsection \<open>A new entry\<close>

datatype place = No_place | After_entry nat | Freed_entry

text \<open>
  The loop of \<open>create_entry\<close>. It ends at the last entry when that is longer than its name needs, with the
  position behind the part it needs. A freed entry is only noted, and the walk goes on to the end.
\<close>

partial_function (option) create_scan ::
    "'d blockdev_node \<Rightarrow> u8 list \<Rightarrow> u32 \<Rightarrow> place \<Rightarrow> dir_pos \<Rightarrow> 'd ext2_fs \<Rightarrow> (place \<times> dir_pos \<times> 'd ext2_fs) option" where
  "create_scan dev inode isize found p fs =
     (if \<not> dp_total p < isize then Some (found, p, fs)
      else do {
        (p, fs) \<leftarrow> dir_next_block dev inode p fs;
        n \<leftarrow> dir_name_len p;
        let sreclen = entry_length (ucast n);
        _ \<leftarrow> dir_name p (unat n);
        len \<leftarrow> dir_rec_len p;
        ino \<leftarrow> dir_ino p;
        if ucast len \<noteq> sreclen \<and> dp_total p + ucast len = isize
        then Some (After_entry (unat (dp_offset p)), dir_skip sreclen p, fs)
        else create_scan dev inode isize (if ino = 0 then Freed_entry else found) (dir_skip (ucast len) p) fs
      })"

text \<open>The bytes of the new entry, which reaches to the end of the block.\<close>

definition put_entry :: "u8 list \<Rightarrow> nat \<Rightarrow> u32 \<Rightarrow> u16 \<Rightarrow> cstring \<Rightarrow> u8 list option" where
  "put_entry block off ino len nm = do {
     block \<leftarrow> put32 block (off + DE_inode) ino;
     block \<leftarrow> put16 block (off + DE_rec_len) len;
     block \<leftarrow> upd block (off + DE_name_len) (of_nat (length nm));
     block \<leftarrow> upd block (off + DE_file_type) 0;
     put_bytes block (off + DE_sizeof) nm
   }"

text \<open>The last entry is shortened to what it needs. Otherwise the block is as it was.\<close>

definition shorten :: "place \<Rightarrow> u8 list \<Rightarrow> u8 list option" where
  "shorten found block =
     (case found of
        After_entry prev \<Rightarrow> do {
          n \<leftarrow> idx block (prev + DE_name_len);
          put16 block (prev + DE_rec_len) (ucast (entry_length (ucast n)))
        }
      | _ \<Rightarrow> Some block)"

definition create_entry ::
    "'d blockdev_node \<Rightarrow> u32 \<Rightarrow> cstring \<Rightarrow> u32 \<Rightarrow> 'd ext2_fs \<Rightarrow> (u32 \<times> 'd ext2_fs) option" where
  "create_entry dev parent_ino nm ino fs = do {
     (pinode, fs) \<leftarrow> read_inode dev parent_ino fs;
     mode \<leftarrow> get16 pinode IN_mode;
     if mode AND EXT2_S_IFDIR = 0 then Some (-1, fs)
     else do {
       let rec_len = entry_length (of_nat (length nm));
       (p, fs) \<leftarrow> dir_start dev pinode fs;
       isize \<leftarrow> get32 pinode IN_size;
       (found, p, fs) \<leftarrow> create_scan dev pinode isize No_place p fs;
       if found = No_place then Some (-1, fs)
       else if found \<noteq> Freed_entry \<and> dp_offset p + rec_len \<ge> e2_block_size fs then Some (-1, fs)
       else do {
         block \<leftarrow> shorten found (dp_block p);
         block \<leftarrow> put_entry block (unat (dp_offset p)) ino (ucast (e2_block_size fs - dp_offset p)) nm;
         (_, _, fs) \<leftarrow> inode_write_block dev pinode parent_ino (ucast (dp_block_nr p)) block fs;
         Some (0, fs)
       }
     }
   }"

subsection \<open>A new inode\<close>

fun put_fields32 :: "(nat \<times> u32) list \<Rightarrow> u8 list \<Rightarrow> u8 list option" where
  "put_fields32 [] inode = Some inode"
| "put_fields32 ((off, v) # fs) inode = do { inode \<leftarrow> put32 inode off v; put_fields32 fs inode }"

fun put_fields16 :: "(nat \<times> u16) list \<Rightarrow> u8 list \<Rightarrow> u8 list option" where
  "put_fields16 [] inode = Some inode"
| "put_fields16 ((off, v) # fs) inode = do { inode \<leftarrow> put16 inode off v; put_fields16 fs inode }"

definition init_inode :: "u32 \<Rightarrow> u16 \<Rightarrow> u16 \<Rightarrow> u8 list \<Rightarrow> u8 list option" where
  "init_inode now links mode inode = do {
     inode \<leftarrow> put_fields32 [(IN_atime, now), (IN_ctime, now), (IN_mtime, now), (IN_dtime, 0)] inode;
     inode \<leftarrow> put_bytes inode IN_block (replicate 60 0);
     inode \<leftarrow> put_fields32 [(IN_blocks, 0), (IN_size, 0)] inode;
     inode \<leftarrow> put_fields16 [(IN_uid, 0), (IN_gid, 0)] inode;
     inode \<leftarrow> put32 inode IN_faddr 0;
     inode \<leftarrow> put16 inode IN_links_count links;
     inode \<leftarrow> put_fields32 [(IN_flags, 0), (IN_osd1, 0), (IN_generation, 0), (IN_file_acl, 0), (IN_dir_acl, 0)] inode;
     inode \<leftarrow> put16 inode IN_mode mode;
     put_bytes inode IN_osd2 (replicate 12 0)
   }"

text \<open>
  The part \<open>create_ext2\<close>, \<open>mkdir_ext2\<close> and \<open>symlink_ext2\<close> begin with: the name must be new, and an inode is
  allocated and filled. The first result is \<open>None\<close> when the name is taken.
\<close>

definition new_inode ::
    "'d blockdev_node \<Rightarrow> u32 \<Rightarrow> cstring \<Rightarrow> u32 \<Rightarrow> u16 \<Rightarrow> u16 \<Rightarrow> 'd ext2_fs \<Rightarrow> ((u32 \<times> u8 list) option \<times> 'd ext2_fs) option" where
  "new_inode dev parent_ino nm now links mode fs = do {
     (check, fs) \<leftarrow> finddir_ext2 dev parent_ino nm fs;
     if check \<noteq> None then Some (None, fs)
     else do {
       (inode_no, fs) \<leftarrow> allocate_inode dev fs;
       (inode, fs) \<leftarrow> read_inode dev inode_no fs;
       inode \<leftarrow> init_inode now links mode inode;
       Some (Some (inode_no, inode), fs)
     }
   }"

definition create_ext2 ::
    "'d blockdev_node \<Rightarrow> u32 \<Rightarrow> cstring \<Rightarrow> u16 \<Rightarrow> u32 \<Rightarrow> 'd ext2_fs \<Rightarrow> (u32 \<times> 'd ext2_fs) option" where
  "create_ext2 dev parent_ino nm permission now fs = do {
     (r, fs) \<leftarrow> new_inode dev parent_ino nm now 1 (EXT2_S_IFREG OR (0xFFF AND permission)) fs;
     case r of
       None \<Rightarrow> Some (-1, fs)
     | Some (inode_no, inode) \<Rightarrow> do {
         (_, fs) \<leftarrow> write_inode dev inode inode_no fs;
         (_, fs) \<leftarrow> create_entry dev parent_ino nm inode_no fs;
         fs \<leftarrow> ext2_sync dev fs;
         Some (0, fs)
       }
   }"

text \<open>The entries of a new directory; the rest of its block is not cleared.\<close>

definition dot_entries :: "u32 \<Rightarrow> u32 \<Rightarrow> u32 \<Rightarrow> u8 list \<Rightarrow> u8 list option" where
  "dot_entries inode_no parent_ino bs tmp = do {
     t \<leftarrow> put32 (replicate 12 0) DE_inode inode_no;
     t \<leftarrow> put16 t DE_rec_len 12;
     t \<leftarrow> upd t DE_name_len 1;
     t \<leftarrow> upd t DE_sizeof 46;
     tmp \<leftarrow> put_bytes tmp 0 t;
     t \<leftarrow> put32 t DE_inode parent_ino;
     t \<leftarrow> upd t DE_name_len 2;
     t \<leftarrow> upd t (DE_sizeof + 1) 46;
     t \<leftarrow> put16 t DE_rec_len (ucast (bs - 12));
     put_bytes tmp 12 t
   }"

definition mkdir_ext2 ::
    "'d blockdev_node \<Rightarrow> u32 \<Rightarrow> cstring \<Rightarrow> u16 \<Rightarrow> u32 \<Rightarrow> 'd ext2_fs \<Rightarrow> (u32 \<times> 'd ext2_fs) option" where
  "mkdir_ext2 dev parent_ino nm permission now fs = do {
     (r, fs) \<leftarrow> new_inode dev parent_ino nm now 2 (EXT2_S_IFDIR OR (0xFFF AND permission)) fs;
     case r of
       None \<Rightarrow> Some (-1, fs)
     | Some (inode_no, inode) \<Rightarrow> do {
         (_, fs) \<leftarrow> write_inode dev inode inode_no fs;
         (_, fs) \<leftarrow> create_entry dev parent_ino nm inode_no fs;
         inode \<leftarrow> put32 inode IN_size (e2_block_size fs);
         (_, fs) \<leftarrow> write_inode dev inode inode_no fs;
         (tmp, fs) \<leftarrow> must_alloc (bsize fs) fs;
         (_, fs) \<leftarrow> must_alloc 12 fs;
         tmp \<leftarrow> dot_entries inode_no parent_ino (e2_block_size fs) tmp;
         (_, _, fs) \<leftarrow> inode_write_block dev inode inode_no 0 tmp fs;
         (pinode, fs) \<leftarrow> read_inode dev parent_ino fs;
         links \<leftarrow> get16 pinode IN_links_count;
         pinode \<leftarrow> put16 pinode IN_links_count (links + 1);
         (_, fs) \<leftarrow> write_inode dev pinode parent_ino fs;
         let grp = unat (inode_no div e2_inodes_per_group fs);
         c \<leftarrow> bgd16 fs grp BGD_used_dirs_count;
         fs \<leftarrow> set_bgd16 grp BGD_used_dirs_count (c + 1) fs;
         fs \<leftarrow> write_bgds dev fs;
         fs \<leftarrow> ext2_sync dev fs;
         Some (0, fs)
       }
   }"

text \<open>A target of up to 60 bytes is kept in the inode, any other one in the file.\<close>

definition symlink_ext2 ::
    "'d blockdev_node \<Rightarrow> u32 \<Rightarrow> cstring \<Rightarrow> cstring \<Rightarrow> u32 \<Rightarrow> 'd ext2_fs \<Rightarrow> (u32 \<times> 'd ext2_fs) option" where
  "symlink_ext2 dev parent_ino target nm now fs = do {
     (r, fs) \<leftarrow> new_inode dev parent_ino nm now 1 (EXT2_S_IFLNK OR 0x1FF) fs;
     case r of
       None \<Rightarrow> Some (-1, fs)
     | Some (inode_no, inode) \<Rightarrow> do {
         let embedded = (length target \<le> 60);
         inode \<leftarrow> (if embedded then do {
             inode \<leftarrow> put_bytes inode IN_block target;
             put32 inode IN_size (of_nat (length target))
           } else Some inode);
         (_, fs) \<leftarrow> write_inode dev inode inode_no fs;
         (_, fs) \<leftarrow> create_entry dev parent_ino nm inode_no fs;
         fs \<leftarrow> (if embedded then Some fs
           else do {
             (_, _, fs) \<leftarrow> write_inode_buffer dev inode inode_no 0 (of_nat (length target)) (target @ [0]) fs;
             Some fs
           });
         fs \<leftarrow> ext2_sync dev fs;
         Some (0, fs)
       }
   }"

subsection \<open>Mounting\<close>

text \<open>The reference count that mounting sets on the node of the device is left out.\<close>

definition EXT2_SUPER_MAGIC :: u16 where "EXT2_SUPER_MAGIC = 0xEF53"
definition EXT2_FLAG_NOCACHE :: u32 where "EXT2_FLAG_NOCACHE = 0x0001"

text \<open>The node of the root; \<open>None\<close> when the inode is not that of a directory.\<close>

definition ext2_root :: "u8 list \<Rightarrow> ext2_node option option" where
  "ext2_root inode = do {
     mode \<leftarrow> get16 inode IN_mode;
     node \<leftarrow> inode_fields inode (cleared_node\<lparr>en_inode := 2, en_name := [47]\<rparr>);
     if has_type mode EXT2_S_IFREG \<or> \<not> has_type mode EXT2_S_IFDIR then Some None
     else Some (Some (node\<lparr>en_flags := type_flags mode OR FS_DIRECTORY,
       en_handlers := {Readdir, Finddir, Create, Mkdir, Unlink}\<rparr>))
   }"

definition empty_cache :: "nat \<Rightarrow> nat \<Rightarrow> cache_entry list" where
  "empty_cache n bs = replicate n \<lparr>ce_block_no = 0, ce_last_use = 0, ce_dirty = False, ce_block = replicate bs 0\<rparr>"

text \<open>Without memory for the cache the code stays in an endless loop.\<close>

definition make_cache :: "'d ext2_fs \<Rightarrow> 'd ext2_fs option" where
  "make_cache fs =
     (if e2_flags fs AND EXT2_FLAG_NOCACHE \<noteq> 0 then Some fs
      else do {
        let n = (if e2_block_size fs > 2048 then 256 else 1024);
        (_, fs) \<leftarrow> must_alloc n fs;
        (_, fs) \<leftarrow> must_alloc (n * bsize fs) fs;
        Some (fs\<lparr>e2_disk_cache := Some (empty_cache n (bsize fs))\<rparr>)
      })"

text \<open>What the superblock says about sizes and groups.\<close>

definition geometry :: "'d ext2_fs \<Rightarrow> 'd ext2_fs option" where
  "geometry fs = do {
     isz \<leftarrow> get16 (e2_superblock fs) SB_inode_size;
     log \<leftarrow> sb32 fs SB_log_block_size;
     blocks \<leftarrow> sb32 fs SB_blocks_count;
     per \<leftarrow> sb32 fs SB_blocks_per_group;
     inodes \<leftarrow> sb32 fs SB_inodes_count;
     if unat log \<ge> 21 \<or> per = 0 then None
     else
       (let bs = push_bit (unat log) 1024;
            groups = blocks div per;
            groups = (if per * groups < blocks then groups + 1 else groups)
        in if groups = 0 then None
           else Some (fs\<lparr>e2_inode_size := (if isz = 0 then 128 else ucast isz), e2_block_size := bs,
             e2_pointers_per_block := bs div 4, e2_block_group_count := groups,
             e2_inodes_per_group := inodes div groups\<rparr>))
   }"

definition read_bgds :: "'d blockdev_node \<Rightarrow> 'd ext2_fs \<Rightarrow> 'd ext2_fs option" where
  "read_bgds dev fs =
     for_each (\<lambda>i fs. do {
         b \<leftarrow> slice_bytes (e2_block_groups fs) (bsize fs * i) (bsize fs);
         (_, b, fs) \<leftarrow> read_block dev (ucast (e2_bgd_offset fs) + of_nat i) b fs;
         g \<leftarrow> put_bytes (e2_block_groups fs) (bsize fs * i) b;
         Some (fs\<lparr>e2_block_groups := g\<rparr>)
       }) [0..<unat (e2_bgd_block_span fs)] fs"

definition new_fs :: "u32 \<Rightarrow> 'd \<Rightarrow> plan \<Rightarrow> (nat \<Rightarrow> u8) \<Rightarrow> 'd ext2_fs" where
  "new_fs flags d pl junk =
     \<lparr>e2_superblock = [], e2_block_groups = [], e2_block_size = 1024, e2_pointers_per_block = 0,
      e2_inodes_per_group = 0, e2_block_group_count = 0, e2_disk_cache = None, e2_cache_time = 0,
      e2_lock = \<lparr>lock_val = 0, waiters = 0\<rparr>, e2_bgd_block_span = 0, e2_bgd_offset = 0, e2_inode_size = 0,
      e2_flags = flags, e2_device = d, e2_plan = pl, e2_junk = junk\<rparr>"

definition mount_ext2 ::
    "'d blockdev_node \<Rightarrow> u32 \<Rightarrow> 'd \<Rightarrow> plan \<Rightarrow> (nat \<Rightarrow> u8) \<Rightarrow> (ext2_node option \<times> 'd ext2_fs) option" where
  "mount_ext2 dev flags d pl junk = do {
     (_, fs) \<leftarrow> must_alloc 1 (new_fs flags d pl junk);
     (sb, fs) \<leftarrow> must_alloc (bsize fs) fs;
     (_, sb, fs) \<leftarrow> read_block dev 1 sb fs;
     let fs = fs\<lparr>e2_superblock := sb\<rparr>;
     magic \<leftarrow> get16 sb SB_magic;
     if magic \<noteq> EXT2_SUPER_MAGIC then Some (None, fs)
     else do {
       fs \<leftarrow> geometry fs;
       fs \<leftarrow> make_cache fs;
       let span = ucast (of_nat BGD_sizeof * ucast (e2_block_group_count fs) div ucast (e2_block_size fs) + 1 :: u64);
       let fs = fs\<lparr>e2_bgd_block_span := span, e2_bgd_offset := (if e2_block_size fs > 1024 then 1 else 2)\<rparr>;
       (g, fs) \<leftarrow> must_alloc (bsize fs * unat span) fs;
       fs \<leftarrow> read_bgds dev (fs\<lparr>e2_block_groups := g\<rparr>);
       (root_inode, fs) \<leftarrow> read_inode dev 2 fs;
       (_, fs) \<leftarrow> must_alloc 1 fs;
       root \<leftarrow> ext2_root root_inode;
       Some (root, fs)
     }
   }"

end
