(* ===== verification/Ext2_Blocks.thy ===== *)
theory Ext2_Blocks
  imports Ext2_Disk
begin

text \<open>
  What the ext2 driver needs of its device (the locale \<open>disk\<close>), the devices that give it (the RAM disk of
  kernel/src/drivers/ramdisk.c and a block device), and access to blocks without and with the cache.
\<close>

lemma patch_all: "length b = length m \<Longrightarrow> patch m 0 b = b"
  by (simp add: patch_def)

subsection \<open>The contract of a device\<close>

text \<open>
  \<open>content\<close> is the bytes of the device in a state that is \<open>ok\<close>. Ranges of whole sectors that lie on the
  device and end below 2^32 are read and written. The value returned is left open.
\<close>

locale disk =
  fixes dev :: "'d blockdev_node" and content :: "'d \<Rightarrow> u8 list" and ok :: "'d \<Rightarrow> bool" and sector :: nat
  assumes sector: "sector dvd 1024"
    and reads: "ok d \<Longrightarrow> sector dvd unat off \<Longrightarrow> sector dvd unat n \<Longrightarrow> unat off + unat n \<le> length (content d) \<Longrightarrow>
      unat off + unat n < 2 ^ 32 \<Longrightarrow> unat n \<le> length buf \<Longrightarrow>
      \<exists>r d'. read_fs dev off n buf d = Some (r, patch buf 0 (range_of (content d) (unat off) (unat n)), d') \<and>
        ok d' \<and> content d' = content d"
    and writes: "ok d \<Longrightarrow> sector dvd unat off \<Longrightarrow> sector dvd unat n \<Longrightarrow> unat off + unat n \<le> length (content d) \<Longrightarrow>
      unat off + unat n < 2 ^ 32 \<Longrightarrow> unat n \<le> length buf \<Longrightarrow>
      \<exists>r d'. write_fs dev off n buf d = Some (r, d') \<and>
        ok d' \<and> content d' = patch (content d) (unat off) (take (unat n) buf)"

subsection \<open>The RAM disk\<close>

text \<open>The memory of a RAM disk from its location on, as long as the disk.\<close>

definition ramdisk_clip :: "u64 \<Rightarrow> u32 \<Rightarrow> u8 list \<Rightarrow> u32" where
  "ramdisk_clip offset sz m =
     (if offset + ucast sz > of_nat (length m) then ucast (of_nat (length m) - offset) else sz)"

definition ramdisk_read :: "u64 \<Rightarrow> u32 \<Rightarrow> u8 list \<Rightarrow> u8 list \<Rightarrow> (u32 \<times> u8 list \<times> u8 list) option" where
  "ramdisk_read offset sz buffer m =
     (if offset > of_nat (length m) then Some (0, buffer, m)
      else do {
        let sz = ramdisk_clip offset sz m;
        bytes \<leftarrow> slice_bytes m (unat offset) (unat sz);
        buffer \<leftarrow> put_bytes buffer 0 bytes;
        Some (sz, buffer, m)
      })"

definition ramdisk_write :: "u64 \<Rightarrow> u32 \<Rightarrow> u8 list \<Rightarrow> u8 list \<Rightarrow> (u32 \<times> u8 list) option" where
  "ramdisk_write offset sz buffer m =
     (if offset > of_nat (length m) then Some (0, m)
      else do {
        let sz = ramdisk_clip offset sz m;
        bytes \<leftarrow> slice_bytes buffer 0 (unat sz);
        m \<leftarrow> put_bytes m (unat offset) bytes;
        Some (sz, m)
      })"

definition ramdisk_create :: "u8 list blockdev_node" where
  "ramdisk_create = \<lparr>node_read = Some ramdisk_read, node_write = Some ramdisk_write\<rparr>"

text \<open>The length of a disk is a 32-bit number.\<close>

definition ramdisk_ok :: "u8 list \<Rightarrow> bool" where
  "ramdisk_ok m \<longleftrightarrow> length m < 2 ^ 32"

lemma ramdisk_range:
  assumes "ramdisk_ok m" and "unat (off :: u64) + unat (n :: u32) \<le> length m"
  shows "\<not> off > of_nat (length m)" "ramdisk_clip off n m = n"
proof -
  have lim: "length m < 2 ^ 32" using assms(1) by (simp add: ramdisk_ok_def)
  then have "length m < 2 ^ 64" by simp
  then have u: "unat (of_nat (length m) :: u64) = length m" by (rule unat_of_nat_64)
  then show "\<not> off > of_nat (length m)" using assms(2) by (simp add: word_less_nat_alt)
  have "unat (ucast n :: u64) = unat n" by (rule unat_ucast_up) simp
  then have "unat (off + ucast n) = unat off + unat n" using assms(2) lim by (simp add: unat_word_ariths)
  then have "\<not> off + ucast n > of_nat (length m)" using assms(2) u by (simp add: word_less_nat_alt)
  then show "ramdisk_clip off n m = n" by (simp add: ramdisk_clip_def)
qed

interpretation ramdisk: disk ramdisk_create "\<lambda>m. m" ramdisk_ok 1
proof
  fix m :: "u8 list" and off :: u64 and n :: u32 and buf :: "u8 list"
  assume ok: "ramdisk_ok m" and on: "unat off + unat n \<le> length m" and buf: "unat n \<le> length buf"
  show "\<exists>r d'. read_fs ramdisk_create off n buf m = Some (r, patch buf 0 (range_of m (unat off) (unat n)), d') \<and>
      ramdisk_ok d' \<and> d' = m"
    using ramdisk_range [OF ok on] ok on buf
    by (simp add: read_fs_def ramdisk_create_def ramdisk_read_def slice_bytes_in put_bytes_in)
  show "\<exists>r d'. write_fs ramdisk_create off n buf m = Some (r, d') \<and>
      ramdisk_ok d' \<and> d' = patch m (unat off) (take (unat n) buf)"
    using ramdisk_range [OF ok on] ok on buf
    by (simp add: write_fs_def ramdisk_create_def ramdisk_write_def slice_bytes_in put_bytes_in range_of_def ramdisk_ok_def)
qed simp

subsection \<open>Block devices\<close>

text \<open>Device 0 of class 0; the write reports only its result, and leaves the buffer alone on whole sectors.\<close>

definition blockdev_fs_node :: "'h blockdevs blockdev_node" where
  "blockdev_fs_node =
     \<lparr>node_read = Some (read_blockdev_fs (0, 0)),
      node_write = Some (\<lambda>off n buf st. map_option (\<lambda>(r, _, st). (r, st)) (write_blockdev_fs (0, 0) off n buf st))\<rparr>"

definition blockdev_ok :: "('h \<Rightarrow> u8 list) \<Rightarrow> 'h blockdev_class \<Rightarrow> blockdev_instance \<Rightarrow> 'h blockdevs \<Rightarrow> bool" where
  "blockdev_ok content c x st \<longleftrightarrow> length (bd_classes st) = NUM_BLOCKDEV_CLASSES \<and> device st 0 0 = Some (c, x) \<and>
     bd_plan st = [] \<and> unat (bi_block_size x) dvd length (content (bd_hw st))"

lemma device_hw: "device (st\<lparr>bd_hw := hw\<rparr>) major minor = device st major minor"
  by (simp add: device_def)

lemma blockdev_disk:
  assumes bs: "unat (bi_block_size x) dvd 1024"
    and rd: "reads_sectors content (unat (bi_block_size x)) (bc_read c 0)"
    and wr: "writes_sectors content (unat (bi_block_size x)) (bc_write c 0)"
  shows "disk blockdev_fs_node (\<lambda>st. content (bd_hw st)) (blockdev_ok content c x) (unat (bi_block_size x))"
proof
  let ?b = "unat (bi_block_size x)"
  fix st :: "'a blockdevs" and off :: u64 and n :: u32 and buf :: "u8 list"
  assume ok: "blockdev_ok content c x st" and al: "?b dvd unat off" "?b dvd unat n"
    and on: "unat off + unat n \<le> length (content (bd_hw st))" "unat off + unat n < 2 ^ 32" and buf: "unat n \<le> length buf"
  have b0: "0 < ?b" using bs by (metis dvd_0_left_iff gr0I zero_neq_numeral)
  have uo: "unat (ucast off :: u32) = unat off"
    using on(2) by (simp add: unsigned_ucast_eq take_bit_nat_eq_self)
  have un: "unat (ucast n :: u64) = unat n" by (rule unat_ucast_up) simp
  note st = ok [unfolded blockdev_ok_def]
  have range: "range_ok (ucast off) (ucast n) (bi_block_size x) (length (content (bd_hw st)))"
    using st on al b0 by (simp add: range_ok_def uo un word_less_nat_alt dvd_imp_mod_0)
  have keep: "blockdev_ok content c x (st\<lparr>bd_hw := hw\<rparr>)" if "length (content hw) = length (content (bd_hw st))" for hw
    using st that device_hw [of hw st 0 0] by (simp add: blockdev_ok_def)
  from st have "length (bd_classes st) = NUM_BLOCKDEV_CLASSES" "device st 0 0 = Some (c, x)" "bd_plan st = []" by auto
  note dev = this
  from read_range_reads [OF rd range, of buf] buf obtain hw where
    hw: "read_range (bc_read c 0) (bi_block_size x) (ucast off) (ucast n) buf (bd_hw st) [] =
      Some (True, patch buf 0 (range_of (content (bd_hw st)) (unat off) (unat n)), hw, [])"
      "content hw = content (bd_hw st)" by (auto simp: uo un)
  have "blockdev_read 0 0 (ucast off) (ucast n) buf st =
      Some (if True then 0 else -1, patch buf 0 (range_of (content (bd_hw st)) (unat off) (unat n)),
        st\<lparr>bd_hw := hw, bd_plan := []\<rparr>)"
    unfolding blockdev_read_def by (rule on_instance_device [OF dev(1,2)]) (simp add: dev(3) hw(1))
  moreover have "st\<lparr>bd_hw := hw, bd_plan := []\<rparr> = st\<lparr>bd_hw := hw\<rparr>" using dev(3) by simp
  ultimately show "\<exists>r d'. read_fs blockdev_fs_node off n buf st =
      Some (r, patch buf 0 (range_of (content (bd_hw st)) (unat off) (unat n)), d') \<and>
      blockdev_ok content c x d' \<and> content (bd_hw d') = content (bd_hw st)"
    using hw(2) keep by (auto simp: read_fs_def blockdev_fs_node_def read_blockdev_fs_def)
  from range_okE [OF range] obtain hb fs nb r where
    s: "range_split (ucast off) (ucast n) (bi_block_size x) hb fs nb r"
      "r \<noteq> 0 \<Longrightarrow> (fs + nb + 1) * ?b \<le> length (content (bd_hw st))" by blast
  have "unat (ucast (ucast off :: u32) mod bi_block_size x :: u64) = 0"
    using range_words(2) [OF range] al(1) by (simp add: uo dvd_imp_mod_0)
  then have h0: "hb = 0" using s(1) unfolding range_split_def Let_def by (metis unat_eq_zero)
  from write_range_writes [OF rd wr s(1) range s(2)] buf obtain hw where
    hw: "write_range (bc_read c 0) (bc_write c 0) (bi_block_size x) (ucast off) (ucast n) buf (bd_hw st) [] =
      Some (True, buf, hw, [])"
      "content hw = patch (content (bd_hw st)) (unat off) (take (unat n) buf)"
    by (auto simp: h0 uo un range_of_def)
  have "blockdev_write 0 0 (ucast off) (ucast n) buf st =
      Some (if True then 0 else -1, buf, st\<lparr>bd_hw := hw, bd_plan := []\<rparr>)"
    unfolding blockdev_write_def by (rule on_instance_device [OF dev(1,2)]) (simp add: dev(3) hw(1))
  moreover have "st\<lparr>bd_hw := hw, bd_plan := []\<rparr> = st\<lparr>bd_hw := hw\<rparr>" using dev(3) by simp
  ultimately show "\<exists>r d'. write_fs blockdev_fs_node off n buf st = Some (r, d') \<and>
      blockdev_ok content c x d' \<and> content (bd_hw d') = patch (content (bd_hw st)) (unat off) (take (unat n) buf)"
    using hw(2) on buf
    by (auto simp: write_fs_def blockdev_fs_node_def write_blockdev_fs_def intro!: keep)
qed (use bs in simp_all)

subsection \<open>Blocks of the disk\<close>

definition blk :: "u8 list \<Rightarrow> nat \<Rightarrow> nat \<Rightarrow> u8 list" where
  "blk C bs n = range_of C (n * bs) bs"

definition with_blk :: "u8 list \<Rightarrow> nat \<Rightarrow> nat \<Rightarrow> u8 list \<Rightarrow> u8 list" where
  "with_blk C bs n b = patch C (n * bs) b"

lemma length_blk [simp]: "(n + 1) * bs \<le> length C \<Longrightarrow> length (blk C bs n) = bs"
  by (simp add: blk_def)

lemma length_with_blk [simp]: "length b = bs \<Longrightarrow> (n + 1) * bs \<le> length C \<Longrightarrow> length (with_blk C bs n b) = length C"
  by (simp add: with_blk_def)

lemma blk_with_blk:
  assumes "length b = bs" "(n + 1) * bs \<le> length C" "(m + 1) * bs \<le> length C"
  shows "blk (with_blk C bs n b) bs m = (if m = n then b else blk C bs m)"
proof (cases m n rule: linorder_cases)
  case less
  then have "(m + 1) * bs \<le> n * bs" by (intro mult_le_mono1) simp
  then show ?thesis using assms less by (simp add: blk_def with_blk_def range_of_patch_other)
next
  case equal
  then show ?thesis using assms by (simp add: blk_def with_blk_def flip: assms(1))
next
  case greater
  then have "(n + 1) * bs \<le> m * bs" by (intro mult_le_mono1) simp
  then show ?thesis using assms greater by (simp add: blk_def with_blk_def range_of_patch_other)
qed

text \<open>A file system without cache, with a free lock and memory, and what changes when only its device does.\<close>

definition fs_plain :: "('d \<Rightarrow> bool) \<Rightarrow> 'd ext2_fs \<Rightarrow> bool" where
  "fs_plain ok fs \<longleftrightarrow> e2_disk_cache fs = None \<and> lock_val (e2_lock fs) = 0 \<and> ok (e2_device fs) \<and> e2_plan fs = [] \<and>
     e2_block_size fs \<in> {1024, 2048, 4096}"

definition changed :: "('d \<Rightarrow> bool) \<Rightarrow> ('d \<Rightarrow> u8 list) \<Rightarrow> 'd ext2_fs \<Rightarrow> u8 list \<Rightarrow> 'd ext2_fs \<Rightarrow> bool" where
  "changed ok content fs C fs' \<longleftrightarrow> (\<exists>d. fs' = fs\<lparr>e2_device := d\<rparr> \<and> ok d \<and> content d = C)"

definition on_disk :: "'d ext2_fs \<Rightarrow> nat \<Rightarrow> u32 \<Rightarrow> bool" where
  "on_disk fs len n \<longleftrightarrow> n \<noteq> 0 \<and> (unat n + 1) * bsize fs \<le> len \<and> (unat n + 1) * bsize fs < 2 ^ 32"

lemma changed_dest:
  assumes "changed ok content fs C fs'"
  shows "content (e2_device fs') = C" "e2_block_size fs' = e2_block_size fs" "e2_block_groups fs' = e2_block_groups fs"
    "e2_superblock fs' = e2_superblock fs" "e2_inode_size fs' = e2_inode_size fs"
    "e2_inodes_per_group fs' = e2_inodes_per_group fs" "e2_block_group_count fs' = e2_block_group_count fs"
    "e2_pointers_per_block fs' = e2_pointers_per_block fs" "e2_junk fs' = e2_junk fs"
    "e2_bgd_block_span fs' = e2_bgd_block_span fs" "e2_bgd_offset fs' = e2_bgd_offset fs"
    "e2_disk_cache fs' = e2_disk_cache fs" "e2_plan fs' = e2_plan fs"
    "fs_plain ok fs \<Longrightarrow> fs_plain ok fs'" "on_disk fs' = on_disk fs"
  using assms by (auto simp: changed_def fs_plain_def on_disk_def fun_eq_iff)

lemma changed_trans: "changed ok content fs C fs' \<Longrightarrow> changed ok content fs' C' fs'' \<Longrightarrow> changed ok content fs C' fs''"
  by (auto simp: changed_def)

lemma changed_refl: "fs_plain ok fs \<Longrightarrow> changed ok content fs (content (e2_device fs)) fs"
  unfolding changed_def by (intro exI [of _ "e2_device fs"]) (simp add: fs_plain_def)

lemma plain_bsize: "fs_plain ok fs \<Longrightarrow> bsize fs \<in> {1024, 2048, 4096}"
  by (auto simp: fs_plain_def)

lemma plain_alloc:
  "fs_plain ok fs \<Longrightarrow> alloc n fs = (Some (map (e2_junk fs) [0..<n]), fs)"
  "fs_plain ok fs \<Longrightarrow> must_alloc n fs = Some (map (e2_junk fs) [0..<n], fs)"
  by (auto simp: fs_plain_def alloc_def must_alloc_def)

text \<open>A free lock is taken and released: the state is as before, whatever happened to the device.\<close>

lemma lock_plain:
  assumes "lock_val (e2_lock fs) = 0"
  shows "\<exists>l. acquire (e2_lock fs) = Some l \<and> l\<lparr>lock_val := 0\<rparr> = e2_lock fs"
  using assms by (cases "e2_lock fs") (simp add: acquire_def spinlock_defs)

context disk
begin

lemma block_range:
  assumes "fs_plain ok fs" and "on_disk fs len n"
  shows "unat (block_offset fs n) = unat n * bsize fs" "sector dvd unat (block_offset fs n)" "sector dvd bsize fs"
    "unat (block_offset fs n) + bsize fs \<le> len" "unat (block_offset fs n) + bsize fs < 2 ^ 32"
proof -
  have lim: "unat n * bsize fs + bsize fs \<le> len" "unat n * bsize fs + bsize fs < 2 ^ 32"
    using assms(2) by (simp_all add: on_disk_def)
  then show u: "unat (block_offset fs n) = unat n * bsize fs"
    by (simp add: block_offset_def unat_ucast_up unat_word_ariths)
  have "(1024::nat) dvd bsize fs" using plain_bsize [OF assms(1)] by auto
  then show s: "sector dvd bsize fs" using sector by (rule dvd_trans [rotated])
  then show "sector dvd unat (block_offset fs n)" by (simp add: u)
  show "unat (block_offset fs n) + bsize fs \<le> len" "unat (block_offset fs n) + bsize fs < 2 ^ 32"
    using lim u by simp_all
qed

lemma read_block_plain:
  assumes p: "fs_plain ok fs" and n: "on_disk fs (length (content (e2_device fs))) n" and b: "bsize fs \<le> length buf"
  shows "\<exists>r fs'. read_block dev n buf fs = Some (r, patch buf 0 (blk (content (e2_device fs)) (bsize fs) (unat n)), fs') \<and>
    changed ok content fs (content (e2_device fs)) fs'"
proof -
  note r = block_range [OF p n]
  from lock_plain p obtain l where l: "acquire (e2_lock fs) = Some l" "l\<lparr>lock_val := 0\<rparr> = e2_lock fs"
    unfolding fs_plain_def by blast
  have "ok (e2_device fs)" using p by (simp add: fs_plain_def)
  from reads [OF this r(2,3,4,5) b] obtain ret d where
    d: "read_fs dev (block_offset fs n) (e2_block_size fs) buf (e2_device fs) =
      Some (ret, patch buf 0 (range_of (content (e2_device fs)) (unat (block_offset fs n)) (bsize fs)), d)"
      "ok d" "content d = content (e2_device fs)" by blast
  have "read_block dev n buf fs =
      Some (ret, patch buf 0 (blk (content (e2_device fs)) (bsize fs) (unat n)), fs\<lparr>e2_device := d\<rparr>)"
    using n p l d(1) by (simp add: read_block_def on_disk_def lock_fs_def dev_read_def fs_plain_def block_offset_def
        unlock_fs_def spinlock_unlock_def blk_def r(1) [unfolded block_offset_def])
  then show ?thesis using d unfolding changed_def by blast
qed

lemma write_block_plain:
  assumes p: "fs_plain ok fs" and n: "on_disk fs (length (content (e2_device fs))) n" and b: "bsize fs \<le> length buf"
  shows "\<exists>fs'. write_block dev n buf fs = Some (0, fs') \<and>
    changed ok content fs (with_blk (content (e2_device fs)) (bsize fs) (unat n) (take (bsize fs) buf)) fs'"
proof -
  note r = block_range [OF p n]
  have u: "unlock_fs fs = fs" using p by (simp add: unlock_fs_def spinlock_unlock_def fs_plain_def)
  have "ok (e2_device fs)" using p by (simp add: fs_plain_def)
  from writes [OF this r(2,3,4,5) b] obtain ret d where
    d: "write_fs dev (block_offset fs n) (e2_block_size fs) buf (e2_device fs) = Some (ret, d)"
      "ok d" "content d = patch (content (e2_device fs)) (unat (block_offset fs n)) (take (bsize fs) buf)" by blast
  have u': "unlock_fs (fs\<lparr>e2_device := d\<rparr>) = fs\<lparr>e2_device := d\<rparr>"
    using p by (simp add: unlock_fs_def spinlock_unlock_def fs_plain_def)
  have "write_block dev n buf fs = Some (0, fs\<lparr>e2_device := d\<rparr>)"
    using n p d(1) by (simp add: write_block_def on_disk_def u u' dev_write_def fs_plain_def)
  then show ?thesis using d unfolding changed_def with_blk_def r(1) by blast
qed

end

end
