(* ===== verification/Ext2_Table.thy ===== *)
theory Ext2_Table
  imports Ext2_Inode Ext2_Blocks
begin

text \<open>
  The inode table: where an inode is on the disk, and reading and writing it there.
\<close>

subsection \<open>Products and sums of 32 bits\<close>

lemma unat_mult_32: "unat a = x \<Longrightarrow> unat b = y \<Longrightarrow> x * y < 2 ^ 32 \<Longrightarrow> unat (a * b :: u32) = x * y"
  by (simp add: unat_word_ariths)

lemma unat_add_32: "unat a = x \<Longrightarrow> unat b = y \<Longrightarrow> x + y < 2 ^ 32 \<Longrightarrow> unat (a + b :: u32) = x + y"
  by (simp add: unat_word_ariths)

subsection \<open>Places in a block\<close>

lemma range_of_blk: "off + k \<le> bs \<Longrightarrow> range_of (blk C bs n) off k = range_of C (n * bs + off) k"
  by (simp add: blk_def range_of_range_of)

lemma with_blk_patch:
  assumes "(n + 1) * bs \<le> length C" and "off + length b \<le> bs"
  shows "with_blk C bs n (patch (blk C bs n) off b) = patch C (n * bs + off) b"
proof (rule nth_equalityI)
  have l: "length (blk C bs n) = bs" using assms(1) by simp
  then show "length (with_blk C bs n (patch (blk C bs n) off b)) = length (patch C (n * bs + off) b)"
    using assms by (simp add: with_blk_def)
  fix i
  assume "i < length (with_blk C bs n (patch (blk C bs n) off b))"
  then have i: "i < length C" using assms l by (simp add: with_blk_def)
  show "with_blk C bs n (patch (blk C bs n) off b) ! i = patch C (n * bs + off) b ! i"
  proof (cases "n * bs \<le> i \<and> i < n * bs + bs")
    case True
    then obtain j where j: "i = n * bs + j" "j < bs" using le_Suc_ex by force
    then show ?thesis using assms l i by (auto simp: with_blk_def nth_patch nth_range_of blk_def)
  next
    case False
    then show ?thesis using assms l i by (auto simp: with_blk_def nth_patch)
  qed
qed

subsection \<open>The place of an inode\<close>

text \<open>Groups of inodes that fit the blocks.\<close>

definition table_ok :: "'d ext2_fs \<Rightarrow> bool" where
  "table_ok fs \<longleftrightarrow> 0 < e2_inodes_per_group fs \<and> 128 \<le> e2_inode_size fs \<and> unat (e2_inode_size fs) dvd bsize fs \<and>
     unat (e2_inodes_per_group fs) * unat (e2_inode_size fs) < 2 ^ 32"

text \<open>
  The byte where inode \<open>index\<close> starts. The inodes of a group are numbered from 1, and the code looks for
  the last one of a group in the next group; it has no place here.
\<close>

definition inode_slot :: "'d ext2_fs \<Rightarrow> u32 \<Rightarrow> nat option" where
  "inode_slot fs index =
     (let i = unat index; per = unat (e2_inodes_per_group fs)
      in if i mod per = 0 \<or> unat (e2_block_group_count fs) < i div per then None
         else
           (case bgd32 fs (i div per) BGD_inode_table of
              None \<Rightarrow> None
            | Some t \<Rightarrow> if t = 0 then None else Some (unat t * bsize fs + (i mod per - 1) * unat (e2_inode_size fs))))"

lemma slot_numbers:
  fixes k isz bs :: nat
  assumes "isz dvd bs" "0 < isz" "0 < bs"
  shows "k * isz div bs = k div (bs div isz)" "(k - k * isz div bs * (bs div isz)) * isz = k * isz mod bs"
    "k * isz mod bs + isz \<le> bs"
proof -
  obtain q where q: "bs = isz * q" using assms(1) by blast
  have q0: "0 < q" using q assms by (cases q) auto
  have per: "bs div isz = q" using q assms(2) by simp
  have d: "k * isz div bs = k div q" and m: "k * isz mod bs = isz * (k mod q)"
    unfolding q mult.commute [of k isz] using assms(2) by simp_all
  show "k * isz div bs = k div (bs div isz)" by (simp only: d per)
  have e: "k - k div q * q = k mod q" by (rule minus_div_mult_eq_mod)
  show "(k - k * isz div bs * (bs div isz)) * isz = k * isz mod bs"
    unfolding d per m e by (rule mult.commute)
  have "isz * (k mod q + 1) \<le> isz * q" using q0 by (intro mult_le_mono2) (simp add: Suc_leI)
  then show "k * isz mod bs + isz \<le> bs" unfolding m q by simp
qed

lemma inode_place_slot:
  assumes ok: "table_ok fs" and bs: "0 < bsize fs" and s: "inode_slot fs index = Some pos"
    and lim: "pos + unat (e2_inode_size fs) < 2 ^ 32"
  obtains block off where "inode_place fs index = Some (Some (block, off))" "pos = unat block * bsize fs + off"
    "off + unat (e2_inode_size fs) \<le> bsize fs" "block \<noteq> 0"
proof -
  let ?i = "unat index" and ?per = "unat (e2_inodes_per_group fs)" and ?isz = "unat (e2_inode_size fs)"
  define k where "k = ?i mod ?per - 1"
  from s obtain t where t: "bgd32 fs (?i div ?per) BGD_inode_table = Some t" "t \<noteq> 0"
      "pos = unat t * bsize fs + k * ?isz" "?i mod ?per \<noteq> 0" "?i div ?per \<le> unat (e2_block_group_count fs)"
    by (auto simp: inode_slot_def Let_def k_def split: if_splits option.splits)
  have per: "0 < ?per" and isz: "0 < ?isz" "?isz dvd bsize fs" and small: "?per * ?isz < 2 ^ 32"
    using ok by (auto simp: table_ok_def word_less_nat_alt word_le_nat_alt)
  have nz: "e2_inodes_per_group fs \<noteq> 0" "e2_inode_size fs \<noteq> 0" "e2_block_size fs \<noteq> 0"
    using per isz(1) bs by auto
  let ?idx = "index - index div e2_inodes_per_group fs * e2_inodes_per_group fs"
  have idx: "?idx = index mod e2_inodes_per_group fs" by (simp add: minus_div_mult_eq_mod)
  have u1: "unat (?idx - 1) = k"
    using t(4) by (simp add: k_def idx unat_mod unat_sub word_le_nat_alt Suc_le_eq)
  have kper: "k < ?per" using per unfolding k_def by (meson less_imp_diff_less mod_less_divisor)
  then have "k * ?isz \<le> ?per * ?isz" by (intro mult_le_mono1) simp
  then have ki: "k * ?isz < 2 ^ 32" using small by linarith
  have u2: "unat ((?idx - 1) * e2_inode_size fs) = k * ?isz" by (rule unat_mult_32 [OF u1 refl ki])
  let ?b = "((?idx - 1) * e2_inode_size fs) div e2_block_size fs"
  note nums = slot_numbers [OF isz(2,1) bs, of k]
  have u3: "unat ?b = k * ?isz div bsize fs" by (simp only: unat_div u2)
  have "k * ?isz div bsize fs * (bsize fs div ?isz) \<le> k"
    unfolding nums(1) by (rule div_times_less_eq_dividend)
  note le = this
  have "?per < 2 ^ 32" using unsigned_less [of "e2_inodes_per_group fs"] by simp
  with kper have "k < 2 ^ 32" by simp
  with le have u4: "unat (?b * (e2_block_size fs div e2_inode_size fs)) = k * ?isz div bsize fs * (bsize fs div ?isz)"
    by (intro unat_mult_32 u3 unat_div) simp
  let ?o = "(?idx - 1) - ?b * (e2_block_size fs div e2_inode_size fs)"
  have u5: "unat ?o = k - k * ?isz div bsize fs * (bsize fs div ?isz)"
    using le by (subst unat_sub) (simp_all add: word_le_nat_alt u4 u1)
  have u6: "unat (?o * e2_inode_size fs) = k * ?isz mod bsize fs"
  proof -
    have "k * ?isz mod bsize fs < 2 ^ 32" using ki mod_less_eq_dividend le_less_trans by blast
    then show ?thesis using unat_mult_32 [OF u5 refl, of "e2_inode_size fs"] by (simp only: nums(2))
  qed
  have u7: "unat (t + ?b) = unat t + k * ?isz div bsize fs"
  proof -
    have "unat t + k * ?isz div bsize fs \<le> (unat t + k * ?isz div bsize fs) * bsize fs" using bs by simp
    also have "\<dots> \<le> pos" by (simp add: t(3) distrib_right div_times_less_eq_dividend)
    finally have "unat t + k * ?isz div bsize fs < 2 ^ 32" using lim by linarith
    then show ?thesis by (rule unat_add_32 [OF refl u3])
  qed
  have g: "unat (index div e2_inodes_per_group fs) = ?i div ?per" by (simp add: unat_div)
  have "inode_place fs index = Some (Some (t + ?b, unat (?o * e2_inode_size fs)))"
    using nz t(1,5) by (simp add: inode_place_def Let_def g word_le_nat_alt not_less flip: word_less_nat_alt)
  moreover have "pos = unat (t + ?b) * bsize fs + unat (?o * e2_inode_size fs)"
    by (simp add: u6 u7 t(3) distrib_right)
  moreover have "unat (?o * e2_inode_size fs) + ?isz \<le> bsize fs" unfolding u6 by (rule nums(3))
  moreover have "t + ?b \<noteq> 0" using u7 t(2) by (metis add_is_0 unat_0 unat_eq_zero)
  ultimately show ?thesis by (rule that)
qed

subsection \<open>Reading and writing an inode\<close>

text \<open>The inode at \<open>pos\<close> lies on the disk, and block numbers reach it.\<close>

definition slot_ok :: "'d ext2_fs \<Rightarrow> nat \<Rightarrow> nat \<Rightarrow> bool" where
  "slot_ok fs len pos \<longleftrightarrow> bsize fs dvd len \<and> len < 2 ^ 32 \<and> pos + unat (e2_inode_size fs) \<le> len"

lemma changed_slots:
  assumes "changed ok content fs C fs'"
  shows "table_ok fs' = table_ok fs" "inode_slot fs' = inode_slot fs" "slot_ok fs' = slot_ok fs"
proof -
  note c = changed_dest [OF assms]
  have g: "bgd32 fs' = bgd32 fs" using c(3) by (simp add: bgd32_def fun_eq_iff)
  show "table_ok fs' = table_ok fs" by (simp add: c table_ok_def)
  show "inode_slot fs' = inode_slot fs" by (rule ext, unfold inode_slot_def c(2,5-7) g, rule refl)
  show "slot_ok fs' = slot_ok fs" by (simp add: fun_eq_iff slot_ok_def c)
qed

lemma slot_block_on_disk:
  assumes "slot_ok fs len pos" "pos = unat block * bsize fs + off" "block \<noteq> 0" "0 < e2_inode_size fs"
  shows "on_disk fs len block"
proof -
  obtain m where m: "len = bsize fs * m" using assms(1) unfolding slot_ok_def by blast
  have "0 < unat (e2_inode_size fs)" using assms(4) by (simp add: word_less_nat_alt)
  moreover have "unat block * bsize fs + off + unat (e2_inode_size fs) \<le> m * bsize fs"
    using assms(1,2) m by (simp add: slot_ok_def mult.commute)
  ultimately have "unat block * bsize fs < m * bsize fs" by linarith
  then have "unat block < m" by (rule mult_less_cancel2 [THEN iffD1, THEN conjunct2])
  then have "unat block + 1 \<le> m" by simp
  then have "(unat block + 1) * bsize fs \<le> m * bsize fs" by (rule mult_le_mono1)
  then show ?thesis using assms m by (simp add: on_disk_def slot_ok_def mult.commute)
qed

context disk
begin

lemma refresh_inode_slot:
  assumes p: "fs_plain ok fs" and t: "table_ok fs" and s: "inode_slot fs index = Some pos"
    and pos: "slot_ok fs (length (content (e2_device fs))) pos" and l: "length inode = unat (e2_inode_size fs)"
  shows "\<exists>fs'. refresh_inode dev inode index fs =
      Some (range_of (content (e2_device fs)) pos (unat (e2_inode_size fs)), fs') \<and>
    changed ok content fs (content (e2_device fs)) fs'"
proof -
  let ?C = "content (e2_device fs)" and ?isz = "unat (e2_inode_size fs)"
  have bs: "0 < bsize fs" using plain_bsize [OF p] by auto
  have nz: "e2_inodes_per_group fs \<noteq> 0" "e2_block_size fs \<noteq> 0" "0 < e2_inode_size fs"
    using t bs by (auto simp: table_ok_def word_gt_0)
  have "pos + ?isz < 2 ^ 32" using pos by (simp add: slot_ok_def)
  from inode_place_slot [OF t bs s this] obtain block off where
    b: "inode_place fs index = Some (Some (block, off))" "pos = unat block * bsize fs + off"
      "off + ?isz \<le> bsize fs" "block \<noteq> 0" .
  have d: "on_disk fs (length ?C) block" by (rule slot_block_on_disk [OF pos b(2,4) nz(3)])
  from read_block_plain [OF p d, of "replicate (bsize fs) 0"] obtain r fs' where
    f: "read_block dev block (replicate (bsize fs) 0) fs = Some (r, patch (replicate (bsize fs) 0) 0 (blk ?C (bsize fs) (unat block)), fs')"
      "changed ok content fs ?C fs'" by auto
  have lb: "length (blk ?C (bsize fs) (unat block)) = bsize fs" using d by (simp add: on_disk_def)
  have in_range: "length (range_of (blk ?C (bsize fs) (unat block)) off ?isz) = ?isz" using lb b(3) by simp
  have "refresh_inode dev inode index fs = Some (range_of (blk ?C (bsize fs) (unat block)) off ?isz, fs')"
    using nz b(1,3) f lb in_range l changed_dest [OF f(2)]
    by (simp add: refresh_inode_def plain_alloc(2) [OF p] patch_all slice_bytes_in put_bytes_in)
  then show ?thesis using f(2) b(2,3) by (simp add: range_of_blk)
qed

lemma read_inode_slot:
  assumes "fs_plain ok fs" "table_ok fs" "inode_slot fs index = Some pos"
    "slot_ok fs (length (content (e2_device fs))) pos"
  shows "\<exists>fs'. read_inode dev index fs = Some (range_of (content (e2_device fs)) pos (unat (e2_inode_size fs)), fs') \<and>
    changed ok content fs (content (e2_device fs)) fs'"
  using refresh_inode_slot [OF assms, of "map (e2_junk fs) [0..<unat (e2_inode_size fs)]"]
  by (simp add: read_inode_def plain_alloc(2) [OF assms(1)])

lemma write_inode_slot:
  assumes p: "fs_plain ok fs" and t: "table_ok fs" and s: "inode_slot fs index = Some pos"
    and pos: "slot_ok fs (length (content (e2_device fs))) pos" and l: "length inode = unat (e2_inode_size fs)"
  shows "\<exists>fs'. write_inode dev inode index fs = Some (0, fs') \<and>
    changed ok content fs (patch (content (e2_device fs)) pos inode) fs'"
proof -
  let ?C = "content (e2_device fs)" and ?isz = "unat (e2_inode_size fs)"
  have bs: "0 < bsize fs" using plain_bsize [OF p] by auto
  have nz: "0 < e2_inode_size fs" using t by (auto simp: table_ok_def word_gt_0)
  have "pos + ?isz < 2 ^ 32" using pos by (simp add: slot_ok_def)
  from inode_place_slot [OF t bs s this] obtain block off where
    b: "inode_place fs index = Some (Some (block, off))" "pos = unat block * bsize fs + off"
      "off + ?isz \<le> bsize fs" "block \<noteq> 0" .
  have d: "on_disk fs (length ?C) block" by (rule slot_block_on_disk [OF pos b(2,4) nz])
  let ?junk = "map (e2_junk fs) [0..<bsize fs]" and ?B = "blk ?C (bsize fs) (unat block)"
  from read_block_plain [OF p d, of ?junk] obtain r fs1 where
    f1: "read_block dev block ?junk fs = Some (r, patch ?junk 0 ?B, fs1)" "changed ok content fs ?C fs1" by auto
  note c1 = changed_dest [OF f1(2)]
  have lb: "length ?B = bsize fs" using d by (simp add: on_disk_def)
  have d1: "on_disk fs1 (length (content (e2_device fs1))) block" using d c1 by simp
  have lp: "length (patch ?B off inode) = bsize fs" using lb b(3) l by simp
  from write_block_plain [OF c1(14) [OF p] d1, of "patch ?B off inode"] obtain fs2 where
    f2: "write_block dev block (patch ?B off inode) fs1 = Some (0, fs2)"
      "changed ok content fs1 (with_blk ?C (bsize fs) (unat block) (patch ?B off inode)) fs2"
    using lp c1 by auto
  have "write_inode dev inode index fs = Some (0, fs2)"
    using b(1,3) f1(1) f2(1) lb l c1 plain_alloc(2) [OF p]
    by (simp add: write_inode_def patch_all slice_bytes_in put_bytes_in)
  moreover have "with_blk ?C (bsize fs) (unat block) (patch ?B off inode) = patch ?C pos inode"
    using d b(3) l unfolding b(2) by (intro with_blk_patch) (simp_all add: on_disk_def)
  ultimately show ?thesis using changed_trans [OF f1(2) f2(2)] by auto
qed

end

text \<open>
  The slots of two inodes of a group do not overlap.
\<close>

lemma slots_disjoint:
  assumes "table_ok fs" "inode_slot fs i = Some p" "inode_slot fs j = Some q" "i \<noteq> j"
    "i div e2_inodes_per_group fs = j div e2_inodes_per_group fs"
  shows "p + unat (e2_inode_size fs) \<le> q \<or> q + unat (e2_inode_size fs) \<le> p"
proof -
  let ?per = "unat (e2_inodes_per_group fs)" and ?isz = "unat (e2_inode_size fs)"
  have same: "unat i div ?per = unat j div ?per" using assms(5) by (metis unat_div)
  have ne: "unat i mod ?per \<noteq> unat j mod ?per" using same assms(4) by (metis div_mult_mod_eq word_unat_eq_iff)
  from assms(2,3) same obtain t where
    "p = unat (t :: u32) * bsize fs + (unat i mod ?per - 1) * ?isz" "q = unat t * bsize fs + (unat j mod ?per - 1) * ?isz"
    and nz: "unat i mod ?per \<noteq> 0" "unat j mod ?per \<noteq> 0"
    by (auto simp: inode_slot_def Let_def split: if_splits option.splits)
  note pq = this(1,2)
  have step: "(a - 1) * ?isz + ?isz \<le> (b - 1) * ?isz" if "0 < a" "a < b" for a b :: nat
  proof -
    have "(a - 1 + 1) * ?isz \<le> (b - 1) * ?isz" using that by (intro mult_le_mono1) simp
    then show ?thesis by (simp add: distrib_right)
  qed
  from ne consider "unat i mod ?per < unat j mod ?per" | "unat j mod ?per < unat i mod ?per" by linarith
  then show ?thesis
  proof cases
    case 1
    then show ?thesis using step [of "unat i mod ?per" "unat j mod ?per"] nz pq by simp
  next
    case 2
    then show ?thesis using step [of "unat j mod ?per" "unat i mod ?per"] nz pq by simp
  qed
qed

subsection \<open>Properties\<close>

text \<open>
  C18: An inode is read back as it was written, on every device that keeps whole sectors: writing puts
  its bytes at its place in the table and changes no other byte of the device, and every other inode of
  the group reads as before. The last inode of each group is excepted.
\<close>

theorem ext2_inode_roundtrip:
  assumes "disk dev content ok sector" and "fs_plain ok fs" and "table_ok fs" and "inode_slot fs i = Some pos"
    and "slot_ok fs (length (content (e2_device fs))) pos" and "length inode = unat (e2_inode_size fs)"
  shows "\<exists>fs'. write_inode dev inode i fs = Some (0, fs') \<and>
    content (e2_device fs') = patch (content (e2_device fs)) pos inode \<and>
    (\<exists>f. read_inode dev i fs' = Some (inode, f)) \<and>
    (\<forall>j q. j \<noteq> i \<and> j div e2_inodes_per_group fs = i div e2_inodes_per_group fs \<and> inode_slot fs j = Some q \<and>
      slot_ok fs (length (content (e2_device fs))) q \<longrightarrow>
      (\<exists>old f f'. read_inode dev j fs = Some (old, f) \<and> read_inode dev j fs' = Some (old, f')))"
proof -
  let ?C = "content (e2_device fs)"
  from disk.write_inode_slot [OF assms] obtain fs' where
    w: "write_inode dev inode i fs = Some (0, fs')" "changed ok content fs (patch ?C pos inode) fs'" by blast
  note c = changed_dest [OF w(2)]
  have p': "fs_plain ok fs'" by (rule c(14) [OF assms(2)])
  note same = changed_slots [OF w(2)]
  have len: "length (patch ?C pos inode) = length ?C" using assms(5,6) by (simp add: slot_ok_def)
  have rd: "\<exists>f. read_inode dev j fs' = Some (range_of (patch ?C pos inode) q (unat (e2_inode_size fs)), f)"
    if "inode_slot fs j = Some q" "slot_ok fs (length ?C) q" for j q
    using disk.read_inode_slot [OF assms(1) p', of j q] that assms(3) c(1,5) by (auto simp: same len)
  have "\<exists>f. read_inode dev i fs' = Some (inode, f)"
    using rd [OF assms(4,5)] assms(5) range_of_patch_same [of pos inode ?C]
    by (simp add: slot_ok_def flip: assms(6))
  moreover have "\<exists>old f f'. read_inode dev j fs = Some (old, f) \<and> read_inode dev j fs' = Some (old, f')"
    if j: "j \<noteq> i" "j div e2_inodes_per_group fs = i div e2_inodes_per_group fs" "inode_slot fs j = Some q" "slot_ok fs (length ?C) q"
    for j q
  proof -
    have "range_of (patch ?C pos inode) q (unat (e2_inode_size fs)) = range_of ?C q (unat (e2_inode_size fs))"
      using slots_disjoint [OF assms(3) j(3) assms(4) j(1,2)] assms(5,6) j(4)
      by (intro range_of_patch_other) (auto simp: slot_ok_def)
    then show ?thesis using rd [OF j(3,4)] disk.read_inode_slot [OF assms(1-3) j(3,4)] by auto
  qed
  ultimately show ?thesis using w(1) c(1) by blast
qed

text \<open>A small file system on a RAM disk of four blocks, with its inode table in block 2.\<close>

definition small_fs :: "u8 list ext2_fs" where
  "small_fs = \<lparr>e2_superblock = [], e2_block_groups = replicate 8 0 @ [2, 0, 0, 0] @ replicate 20 0, e2_block_size = 1024,
     e2_pointers_per_block = 256, e2_inodes_per_group = 16, e2_block_group_count = 1, e2_disk_cache = None,
     e2_cache_time = 0, e2_lock = \<lparr>lock_val = 0, waiters = 0\<rparr>, e2_bgd_block_span = 1, e2_bgd_offset = 2,
     e2_inode_size = 128, e2_flags = 1, e2_device = replicate 4096 0, e2_plan = [], e2_junk = (\<lambda>_. 0)\<rparr>"

lemma small_fs_table: "bgd32 small_fs 0 BGD_inode_table = Some 2"
  by (simp add: bgd32_def small_fs_def ext2_layout get32_def slice_bytes_def LOAD32LE_def)

theorem ext2_inode_roundtrip_witness:
  "\<exists>fs'. write_inode ramdisk_create (replicate 128 7) 3 small_fs = Some (0, fs') \<and>
    e2_device fs' = patch (replicate 4096 0) 2304 (replicate 128 7) \<and>
    (\<exists>f. read_inode ramdisk_create 3 fs' = Some (replicate 128 7, f)) \<and>
    (\<exists>old f f'. read_inode ramdisk_create 2 small_fs = Some (old, f) \<and> read_inode ramdisk_create 2 fs' = Some (old, f'))"
proof -
  have t: "bgd32 small_fs 0 BGD_inode_table = Some 2" by (rule small_fs_table)
  have "inode_slot small_fs 3 = Some 2304" "inode_slot small_fs 2 = Some 2176"
    using t by (simp_all add: inode_slot_def small_fs_def)
  moreover have "fs_plain ramdisk_ok small_fs" "table_ok small_fs"
    "slot_ok small_fs (length (e2_device small_fs)) 2304" "slot_ok small_fs (length (e2_device small_fs)) 2176"
    "length (replicate 128 (7::u8)) = unat (e2_inode_size small_fs)"
    by (simp_all add: small_fs_def fs_plain_def table_ok_def slot_ok_def ramdisk_ok_def)
  moreover have "(2::u32) div e2_inodes_per_group small_fs = 3 div e2_inodes_per_group small_fs" "e2_device small_fs = replicate 4096 0"
    by (simp_all add: small_fs_def)
  ultimately show ?thesis
    using ext2_inode_roundtrip [OF ramdisk.disk_axioms, of small_fs 3 2304 "replicate 128 7"] by fastforce
qed

text \<open>
  The last inode of a group has a number that the group's size divides. The code takes it for number 0 of
  the next group, and the subtraction of one wraps around: the place is the last one of the block in front of
  that group's table.
\<close>

theorem last_inode_place:
  assumes "table_ok fs" and "e2_block_size fs \<in> {1024, 2048, 4096}" and "e2_inode_size fs \<in> {128, 256}"
    and "index mod e2_inodes_per_group fs = 0" and "index div e2_inodes_per_group fs \<le> e2_block_group_count fs"
    and "bgd32 fs (unat (index div e2_inodes_per_group fs)) BGD_inode_table = Some t"
  obtains block off where "inode_place fs index = Some (Some (block, off))"
    "block * e2_block_size fs = (t - 1) * e2_block_size fs" "off = bsize fs - unat (e2_inode_size fs)"
proof -
  have z: "index - index div e2_inodes_per_group fs * e2_inodes_per_group fs = 0"
    using assms(4) by (simp add: minus_div_mult_eq_mod)
  have per: "e2_inodes_per_group fs \<noteq> 0" "e2_block_size fs \<noteq> 0" "e2_inode_size fs \<noteq> 0"
    using assms(1-3) by (auto simp: table_ok_def word_gt_0)
  let ?b = "t + (- 1 * e2_inode_size fs) div e2_block_size fs"
  let ?o = "(- 1 - (- 1 * e2_inode_size fs) div e2_block_size fs * (e2_block_size fs div e2_inode_size fs)) * e2_inode_size fs"
  have "inode_place fs index = Some (Some (?b, unat ?o))"
    using assms(5,6) per by (simp add: inode_place_def z Let_def not_less)
  moreover have "?b * e2_block_size fs = (t - 1) * e2_block_size fs"
    using assms(2,3) by (auto simp: distrib_right left_diff_distrib)
  moreover have "unat ?o = bsize fs - unat (e2_inode_size fs)"
    using assms(2,3) by auto
  ultimately show ?thesis by (rule that)
qed

end
