(* ===== verification/Ext2_Map.thy ===== *)
theory Ext2_Map
  imports Ext2_Table
begin

text \<open>
  The map from the blocks of a file to blocks of the disk: which blocks there are, and that a block number
  is found again where it was stored.
\<close>

subsection \<open>Numbers in memory\<close>

lemma length_STORE32LE [simp]: "length (STORE32LE v) = 4"
  by (simp add: STORE32LE_def)

lemma LOAD32LE_STORE32LE [simp]: "LOAD32LE (STORE32LE v) = v"
  by (simp add: LOAD32LE_pack STORE32LE_bytes)

lemma get32_in: "off + 4 \<le> length m \<Longrightarrow> get32 m off = Some (LOAD32LE (range_of m off 4))"
  by (simp add: get32_def slice_bytes_in)

lemma put32_in: "off + 4 \<le> length m \<Longrightarrow> put32 m off v = Some (patch m off (STORE32LE v))"
  by (simp add: put32_def put_bytes_in)

subsection \<open>The blocks a file can have\<close>

fun path_number :: "nat \<Rightarrow> table_path \<Rightarrow> nat" where
  "path_number P (Direct k) = k"
| "path_number P (Single i) = 12 + unat i"
| "path_number P (Double c d) = 12 + P + (unat c * P + unat d)"
| "path_number P (Triple d f g) = 12 + P + P * P + ((unat d * P + unat f) * P + unat g)"
| "path_number P _ = 0"

fun path_ok :: "nat \<Rightarrow> table_path \<Rightarrow> bool" where
  "path_ok P (Direct k) \<longleftrightarrow> k < 12"
| "path_ok P (Single i) \<longleftrightarrow> unat i < P"
| "path_ok P (Double c d) \<longleftrightarrow> unat c < P \<and> unat d < P"
| "path_ok P (Triple d f g) \<longleftrightarrow> d = 0 \<and> f = 0 \<and> unat g < P"
| "path_ok P _ \<longleftrightarrow> False"

lemma block_path_number:
  assumes P: "unat p = P" "0 < P" "P \<le> 1024"
  shows "if unat n < 12 + P + P * P + P then path_ok P (block_path p n) \<and> path_number P (block_path p n) = unat n
    else block_path p n = Too_high"
proof -
  have PP: "P * P \<le> 1024 * 1024" using P(3) by (intro mult_le_mono) simp_all
  have pp: "unat (p * p) = P * P" using PP by (intro unat_mult_32 P(1)) simp
  have s: "unat (12 + p) = 12 + P" using P by (intro unat_add_32) simp_all
  have s2: "unat (12 + p + p * p) = 12 + P + P * P" using P(3) PP by (intro unat_add_32 s pp) simp
  have s3: "unat (12 + p + p * p + p) = 12 + P + P * P + P" using P(3) PP by (intro unat_add_32 s2 P(1)) simp
  have u12: "unat (12 :: u32) = 12" by simp
  have lt: "n < 12 \<longleftrightarrow> unat n < 12" "n < 12 + p \<longleftrightarrow> unat n < 12 + P" "n < 12 + p + p * p \<longleftrightarrow> unat n < 12 + P + P * P"
    "n < 12 + p + p * p + p \<longleftrightarrow> unat n < 12 + P + P * P + P"
    by (simp_all only: word_less_nat_alt s s2 s3 u12)
  have p0: "p \<noteq> 0" "p * p \<noteq> 0" using P pp by auto
  have a: "unat (n - 12) = unat n - 12" if "12 \<le> unat n"
    using that by (simp add: unat_sub word_le_nat_alt)
  have b: "unat (n - 12 - p) = unat n - 12 - P" if "12 + P \<le> unat n"
    using that a P(1) by (subst unat_sub) (simp_all add: word_le_nat_alt)
  have c: "unat (n - 12 - p - p * p) = unat n - 12 - P - P * P" if "12 + P + P * P \<le> unat n"
    using that b pp by (subst unat_sub) (simp_all add: word_le_nat_alt)
  note path = block_path_def [of p n, unfolded EXT2_DIRECT_BLOCKS_def Let_def of_nat_numeral lt]
  consider "unat n < 12" | "12 \<le> unat n" "unat n < 12 + P" | "12 + P \<le> unat n" "unat n < 12 + P + P * P"
    | "12 + P + P * P \<le> unat n" "unat n < 12 + P + P * P + P" | "12 + P + P * P + P \<le> unat n"
    by linarith
  then show ?thesis
  proof cases
    case 3
    have "unat n - 12 - P < P * P" using 3 by linarith
    then have "(unat n - 12 - P) div P < P" by (simp add: less_mult_imp_div_less)
    moreover have "(unat n - 12 - P) div P * P + (unat n - 12 - P) mod P = unat n - 12 - P" by (rule div_mult_mod_eq)
    ultimately show ?thesis using 3 b p0 P
      by (simp add: path minus_div_mult_eq_mod unat_div unat_mod)
  next
    case 4
    let ?m = "n - 12 - p - p * p"
    have m: "unat ?m = unat n - 12 - P - P * P" "unat ?m < P" using c 4 by simp_all
    have "unat (?m div (p * p)) = unat ?m div (P * P)" "unat (?m div p) = unat ?m div P"
      using P(1) by (simp_all add: unat_div pp)
    moreover have "unat ?m < P * P" using m(2) P(2) by (metis le_square less_le_trans)
    ultimately have "?m div (p * p) = 0" "?m div p = 0" using m(2)
      by (simp_all only: unat_eq_zero [symmetric] div_less)
    then show ?thesis using 4 m p0
      by (simp add: path)
  qed (use a P p0 in \<open>simp_all add: path\<close>)
qed

subsection \<open>Tables\<close>

definition table_entry :: "u8 list \<Rightarrow> nat \<Rightarrow> u32 \<Rightarrow> u32 \<Rightarrow> u32" where
  "table_entry C bs t i = LOAD32LE (range_of C (unat t * bs + 4 * unat i) 4)"

text \<open>The tables on the way to a block, and the index in the last one. Each lies on the disk.\<close>

definition tables :: "'d ext2_fs \<Rightarrow> u8 list \<Rightarrow> u8 list \<Rightarrow> table_path \<Rightarrow> (u32 list \<times> u32) option" where
  "tables fs C inode path =
     (case path of
        Single i \<Rightarrow> do {
          top \<leftarrow> get_ptr inode EXT2_DIRECT_BLOCKS;
          if on_disk fs (length C) top then Some ([top], i) else None
        }
      | Double c d \<Rightarrow> do {
          top \<leftarrow> get_ptr inode (EXT2_DIRECT_BLOCKS + 1);
          let t = table_entry C (bsize fs) top c;
          if on_disk fs (length C) top \<and> on_disk fs (length C) t then Some ([top, t], d) else None
        }
      | Triple d f g \<Rightarrow> do {
          top \<leftarrow> get_ptr inode (EXT2_DIRECT_BLOCKS + 2);
          let t = table_entry C (bsize fs) top d;
          let u = table_entry C (bsize fs) t f;
          if on_disk fs (length C) top \<and> on_disk fs (length C) t \<and> on_disk fs (length C) u
          then Some ([top, t, u], g) else None
        }
      | _ \<Rightarrow> None)"

lemma tables_single:
  assumes "tables fs C inode (Single i') = Some (ts, i)"
  obtains top where "get_ptr inode EXT2_DIRECT_BLOCKS = Some top" "on_disk fs (length C) top" "ts = [top]" "i = i'"
  using assms by (auto simp: tables_def split: Option.bind_splits if_splits)

lemma tables_double:
  assumes "tables fs C inode (Double c d) = Some (ts, i)"
  obtains top t where "get_ptr inode (EXT2_DIRECT_BLOCKS + 1) = Some top" "t = table_entry C (bsize fs) top c"
    "on_disk fs (length C) top" "on_disk fs (length C) t" "ts = [top, t]" "i = d"
  using assms by (auto simp: tables_def Let_def split: Option.bind_splits if_splits)

lemma tables_triple:
  assumes "tables fs C inode (Triple d e k) = Some (ts, i)"
  obtains top t u where "get_ptr inode (EXT2_DIRECT_BLOCKS + 2) = Some top" "t = table_entry C (bsize fs) top d"
    "u = table_entry C (bsize fs) t e" "on_disk fs (length C) top" "on_disk fs (length C) t" "on_disk fs (length C) u"
    "ts = [top, t, u]" "i = k"
  using assms by (auto simp: tables_def Let_def split: Option.bind_splits if_splits)

definition is_triple :: "table_path \<Rightarrow> bool" where
  "is_triple path \<longleftrightarrow> (case path of Triple _ _ _ \<Rightarrow> True | _ \<Rightarrow> False)"

lemma get32_blk:
  assumes "on_disk fs (length C) t" and "4 * unat i + 4 \<le> bsize fs"
  shows "get32 (blk C (bsize fs) (unat t)) (4 * unat i) = Some (table_entry C (bsize fs) t i)"
proof -
  have "length (blk C (bsize fs) (unat t)) = bsize fs" using assms(1) by (simp add: on_disk_def)
  then show ?thesis using assms(2) by (simp add: get32_in range_of_blk table_entry_def)
qed

context disk
begin

text \<open>Reading a table into memory of a block's size, and changing one entry of it.\<close>

lemma read_table:
  assumes "fs_plain ok fs" "on_disk fs (length (content (e2_device fs))) t" "length tmp = bsize fs"
  shows "\<exists>r fs'. read_block dev t tmp fs = Some (r, blk (content (e2_device fs)) (bsize fs) (unat t), fs') \<and>
    changed ok content fs (content (e2_device fs)) fs'"
proof -
  have "length (blk (content (e2_device fs)) (bsize fs) (unat t)) = bsize fs" using assms(2) by (simp add: on_disk_def)
  then show ?thesis using read_block_plain [OF assms(1,2), of tmp] assms(3) by (simp add: patch_all)
qed

lemma set_entry_of_plain:
  assumes p: "fs_plain ok fs" and t: "on_disk fs (length (content (e2_device fs))) t" and l: "length tmp = bsize fs"
    and i: "4 * unat i + 4 \<le> bsize fs"
  shows "\<exists>fs'. set_entry_of dev t i v tmp fs = Some fs' \<and>
    changed ok content fs (patch (content (e2_device fs)) (unat t * bsize fs + 4 * unat i) (STORE32LE v)) fs'"
proof -
  let ?C = "content (e2_device fs)"
  let ?B = "blk ?C (bsize fs) (unat t)"
  from read_table [OF p t l] obtain r f1 where
    f1: "read_block dev t tmp fs = Some (r, ?B, f1)" "changed ok content fs ?C f1" by blast
  note c = changed_dest [OF f1(2)]
  have lb: "length ?B = bsize fs" using t by (simp add: on_disk_def)
  have lp: "length (patch ?B (4 * unat i) (STORE32LE v)) = bsize fs" using lb i by simp
  have "on_disk f1 (length (content (e2_device f1))) t" using t c by simp
  from write_block_plain [OF c(14) [OF p] this, of "patch ?B (4 * unat i) (STORE32LE v)"] obtain f2 where
    f2: "write_block dev t (patch ?B (4 * unat i) (STORE32LE v)) f1 = Some (0, f2)"
      "changed ok content f1 (with_blk ?C (bsize fs) (unat t) (patch ?B (4 * unat i) (STORE32LE v))) f2"
    using lp c by auto
  have "with_blk ?C (bsize fs) (unat t) (patch ?B (4 * unat i) (STORE32LE v)) =
      patch ?C (unat t * bsize fs + 4 * unat i) (STORE32LE v)"
    using t i by (intro with_blk_patch) (simp_all add: on_disk_def)
  then show ?thesis
    using f1(1) f2 lb i changed_trans [OF f1(2) f2(2)] by (simp add: set_entry_of_def put32_in)
qed

lemma ensure_table_plain:
  assumes "get_ptr inode k = Some t" and "on_disk fs len t"
  shows "ensure_table dev k inode inode_no fs = Some (True, inode, fs)"
  using assms by (simp add: ensure_table_def on_disk_def)

lemma ensure_entry_plain:
  assumes "get32 tmp (4 * unat i) = Some t" and "on_disk fs len t"
  shows "ensure_entry dev table i tmp fs = Some (True, tmp, fs)"
  using assms by (simp add: ensure_entry_def on_disk_def)

text \<open>A block number is looked up in the last table, and stored there.\<close>

lemma get_block_number_tables:
  assumes p: "fs_plain ok fs" and path: "path_ok P (block_path (e2_pointers_per_block fs) n)" and P: "4 * P \<le> bsize fs"
    and ts: "tables fs (content (e2_device fs)) inode (block_path (e2_pointers_per_block fs) n) = Some (ts, i)"
  shows "\<exists>fs'. get_block_number dev inode n fs = Some (table_entry (content (e2_device fs)) (bsize fs) (last ts) i, fs') \<and>
    changed ok content fs (content (e2_device fs)) fs'"
proof -
  let ?C = "content (e2_device fs)" and ?bs = "bsize fs"
  show ?thesis
  proof (cases "block_path (e2_pointers_per_block fs) n")
    case (Single i')
    from ts [unfolded Single] obtain top where t: "get_ptr inode EXT2_DIRECT_BLOCKS = Some top" "on_disk fs (length ?C) top" "ts = [top]" "i = i'"
      by (elim tables_single)
    have "4 * unat i' + 4 \<le> ?bs" using path P Single by simp
    note g = get32_blk [OF t(2) this]
    from read_table [OF p t(2), of "map (e2_junk fs) [0..<?bs]"] obtain r f where
      "read_block dev top (map (e2_junk fs) [0..<?bs]) fs = Some (r, blk ?C ?bs (unat top), f)" "changed ok content fs ?C f" by auto
    then show ?thesis using Single t g by (simp add: get_block_number_def plain_alloc [OF p])
  next
    case (Double c d)
    from ts [unfolded Double] obtain top t where t: "get_ptr inode (EXT2_DIRECT_BLOCKS + 1) = Some top" "t = table_entry ?C ?bs top c"
      "on_disk fs (length ?C) top" "on_disk fs (length ?C) t" "ts = [top, t]" "i = d"
      by (elim tables_double)
    have "4 * unat c + 4 \<le> ?bs" "4 * unat d + 4 \<le> ?bs" using path P Double by simp_all
    note g = get32_blk [OF t(3) this(1), folded t(2)] get32_blk [OF t(4) this(2)]
    from read_table [OF p t(3), of "map (e2_junk fs) [0..<?bs]"] obtain r f where
      f: "read_block dev top (map (e2_junk fs) [0..<?bs]) fs = Some (r, blk ?C ?bs (unat top), f)" "changed ok content fs ?C f"
      by auto
    note c = changed_dest [OF f(2)]
    have "length (blk ?C ?bs (unat top)) = bsize f" "on_disk f (length (content (e2_device f))) t"
      using t(3,4) c by (simp_all add: on_disk_def)
    from read_table [OF c(14) [OF p] this(2,1)] obtain r' f' where
      "read_block dev t (blk ?C ?bs (unat top)) f = Some (r', blk ?C ?bs (unat t), f')" "changed ok content f ?C f'"
      using c(1,2) by auto
    then show ?thesis using Double t(1,5,6) f(1) g changed_trans [OF f(2)] by (simp add: get_block_number_def plain_alloc [OF p])
  next
    case (Triple d e g)
    from ts [unfolded Triple] obtain top t u where t: "get_ptr inode (EXT2_DIRECT_BLOCKS + 2) = Some top" "t = table_entry ?C ?bs top d"
      "u = table_entry ?C ?bs t e" "on_disk fs (length ?C) top" "on_disk fs (length ?C) t" "on_disk fs (length ?C) u"
      "ts = [top, t, u]" "i = g"
      by (elim tables_triple)
    have "4 * unat d + 4 \<le> ?bs" "4 * unat e + 4 \<le> ?bs" "4 * unat g + 4 \<le> ?bs" using path P Triple by simp_all
    note g = get32_blk [OF t(4) this(1), folded t(2)] get32_blk [OF t(5) this(2), folded t(3)] get32_blk [OF t(6) this(3)]
    from read_table [OF p t(4), of "map (e2_junk fs) [0..<?bs]"] obtain r f where
      f: "read_block dev top (map (e2_junk fs) [0..<?bs]) fs = Some (r, blk ?C ?bs (unat top), f)" "changed ok content fs ?C f"
      by auto
    note c = changed_dest [OF f(2)]
    have "length (blk ?C ?bs (unat top)) = bsize f" "on_disk f (length (content (e2_device f))) t"
      using t(4,5) c by (simp_all add: on_disk_def)
    from read_table [OF c(14) [OF p] this(2,1)] obtain r' f' where
      f': "read_block dev t (blk ?C ?bs (unat top)) f = Some (r', blk ?C ?bs (unat t), f')" "changed ok content f ?C f'"
      using c(1,2) by auto
    note c' = changed_dest [OF f'(2)]
    have "length (blk ?C ?bs (unat t)) = bsize f'" "on_disk f' (length (content (e2_device f'))) u"
      using t(5,6) c c' by (simp_all add: on_disk_def)
    from read_table [OF c'(14) [OF c(14) [OF p]] this(2,1)] obtain r'' f'' where
      "read_block dev u (blk ?C ?bs (unat t)) f' = Some (r'', blk ?C ?bs (unat u), f'')" "changed ok content f' ?C f''"
      using c c' by auto
    then show ?thesis using Triple t(1,7,8) f(1) f'(1) g changed_trans [OF changed_trans [OF f(2) f'(2)]] by (simp add: get_block_number_def plain_alloc [OF p])
  qed (use ts in \<open>simp_all add: tables_def\<close>)
qed

lemma set_block_number_tables:
  assumes p: "fs_plain ok fs" and path: "path_ok P (block_path (e2_pointers_per_block fs) n)" and P: "4 * P \<le> bsize fs"
    and ts: "tables fs (content (e2_device fs)) inode (block_path (e2_pointers_per_block fs) n) = Some (ts, i)"
  shows "\<exists>r fs'. set_block_number dev inode inode_no n v fs = Some (r, inode, fs') \<and>
    changed ok content fs (patch (content (e2_device fs)) (unat (last ts) * bsize fs + 4 * unat i)
      (STORE32LE (if is_triple (block_path (e2_pointers_per_block fs) n) then last ts else v))) fs'"
proof -
  let ?C = "content (e2_device fs)" and ?bs = "bsize fs" and ?tmp = "map (e2_junk fs) [0..<bsize fs]"
  show ?thesis
  proof (cases "block_path (e2_pointers_per_block fs) n")
    case (Single i')
    from ts [unfolded Single] obtain top where t: "get_ptr inode EXT2_DIRECT_BLOCKS = Some top" "on_disk fs (length ?C) top" "ts = [top]" "i = i'"
      by (elim tables_single)
    have "4 * unat i' + 4 \<le> ?bs" using path P Single by simp
    from set_entry_of_plain [OF p t(2) _ this, of ?tmp v] obtain f where
      "set_entry_of dev top i' v ?tmp fs = Some f"
      "changed ok content fs (patch ?C (unat top * ?bs + 4 * unat i') (STORE32LE v)) f" by auto
    then show ?thesis
      using Single t ensure_table_plain [OF t(1,2)]
      by (auto simp: set_block_number_def set_single_def is_triple_def plain_alloc [OF p])
  next
    case (Double c d)
    from ts [unfolded Double] obtain top t where t: "get_ptr inode (EXT2_DIRECT_BLOCKS + 1) = Some top" "t = table_entry ?C ?bs top c"
      "on_disk fs (length ?C) top" "on_disk fs (length ?C) t" "ts = [top, t]" "i = d"
      by (elim tables_double)
    have i: "4 * unat c + 4 \<le> ?bs" "4 * unat d + 4 \<le> ?bs" using path P Double by simp_all
    note g = get32_blk [OF t(3) i(1), folded t(2)]
    from read_table [OF p t(3), of ?tmp] obtain r f where
      f: "read_block dev top ?tmp fs = Some (r, blk ?C ?bs (unat top), f)" "changed ok content fs ?C f" by auto
    note c = changed_dest [OF f(2)]
    have "length (blk ?C ?bs (unat top)) = bsize f" and on: "on_disk f (length (content (e2_device f))) t"
      using t(3,4) c by (simp_all add: on_disk_def)
    from set_entry_of_plain [OF c(14) [OF p] on this(1), of d v] i(2) obtain f' where
      f': "set_entry_of dev t d v (blk ?C ?bs (unat top)) f = Some f'"
        "changed ok content f (patch ?C (unat t * ?bs + 4 * unat d) (STORE32LE v)) f'" using c(1,2) by auto
    show ?thesis
      using Double t(1,5,6) f f'(1) g ensure_table_plain [OF t(1,3)] ensure_entry_plain [OF g on]
        changed_trans [OF f(2) f'(2)]
      by (auto simp: set_block_number_def set_double_def is_triple_def plain_alloc [OF p])
  next
    case (Triple d e k)
    from ts [unfolded Triple] obtain top t u where t: "get_ptr inode (EXT2_DIRECT_BLOCKS + 2) = Some top" "t = table_entry ?C ?bs top d"
      "u = table_entry ?C ?bs t e" "on_disk fs (length ?C) top" "on_disk fs (length ?C) t" "on_disk fs (length ?C) u"
      "ts = [top, t, u]" "i = k"
      by (elim tables_triple)
    have i: "4 * unat d + 4 \<le> ?bs" "4 * unat e + 4 \<le> ?bs" "4 * unat k + 4 \<le> ?bs" using path P Triple by simp_all
    note g = get32_blk [OF t(4) i(1), folded t(2)] get32_blk [OF t(5) i(2), folded t(3)]
    from read_table [OF p t(4), of ?tmp] obtain r f where
      f: "read_block dev top ?tmp fs = Some (r, blk ?C ?bs (unat top), f)" "changed ok content fs ?C f" by auto
    note c = changed_dest [OF f(2)]
    have "length (blk ?C ?bs (unat top)) = bsize f" and on: "on_disk f (length (content (e2_device f))) t"
      using t(4,5) c by (simp_all add: on_disk_def)
    from read_table [OF c(14) [OF p] on this(1)] obtain r' f' where
      f': "read_block dev t (blk ?C ?bs (unat top)) f = Some (r', blk ?C ?bs (unat t), f')" "changed ok content f ?C f'"
      using c(1,2) by auto
    note c' = changed_dest [OF f'(2)]
    have "length (blk ?C ?bs (unat t)) = bsize f'" and on': "on_disk f' (length (content (e2_device f'))) u"
      using t(5,6) c c' by (simp_all add: on_disk_def)
    from set_entry_of_plain [OF c'(14) [OF c(14) [OF p]] on' this(1), of k u] i(3) obtain f'' where
      f'': "set_entry_of dev u k u (blk ?C ?bs (unat t)) f' = Some f''"
        "changed ok content f' (patch ?C (unat u * ?bs + 4 * unat k) (STORE32LE u)) f''" using c c' by auto
    show ?thesis
      using Triple t(1,7,8) f f' f''(1) g ensure_table_plain [OF t(1,4)] ensure_entry_plain [OF g(1) on]
        ensure_entry_plain [OF g(2) on'] changed_trans [OF f(2) changed_trans [OF f'(2) f''(2)]]
      by (auto simp: set_block_number_def set_triple_def is_triple_def plain_alloc [OF p])
  qed (use ts in \<open>simp_all add: tables_def\<close>)
qed

end

subsection \<open>Properties\<close>

lemma tables_path:
  assumes "tables fs C inode (block_path p n) = Some (ts, i)" and "unat p = P" "0 < P" "P \<le> 1024"
  shows "path_ok P (block_path p n)"
  using block_path_number [OF assms(2-4), of n] assms(1) by (auto simp: tables_def split: if_splits)

lemma tables_last:
  assumes "tables fs C inode path = Some (ts, i)" and "path_ok P path" and "4 * P \<le> bsize fs"
  shows "on_disk fs (length C) (last ts)" "4 * unat i + 4 \<le> bsize fs"
proof -
  have "on_disk fs (length C) (last ts) \<and> 4 * unat i + 4 \<le> bsize fs"
  proof (cases path)
    case (Single k)
    with assms show ?thesis by (auto elim!: tables_single)
  next
    case (Double c d)
    with assms show ?thesis by (auto elim!: tables_double)
  next
    case (Triple d e k)
    with assms show ?thesis by (auto elim!: tables_triple)
  qed (use assms(1) in \<open>simp_all add: tables_def\<close>)
  then show "on_disk fs (length C) (last ts)" "4 * unat i + 4 \<le> bsize fs" by simp_all
qed

lemma entries_disjoint:
  assumes "(t', j) \<noteq> (t, i)" and "4 * unat j + 4 \<le> bs" and "4 * unat i + 4 \<le> bs"
  shows "unat (t' :: u32) * bs + 4 * unat (j :: u32) + 4 \<le> unat (t :: u32) * bs + 4 * unat (i :: u32) \<or>
    unat t * bs + 4 * unat i + 4 \<le> unat t' * bs + 4 * unat j"
proof (cases "unat t'" "unat t" rule: linorder_cases)
  case less
  then have "(unat t' + 1) * bs \<le> unat t * bs" by (intro mult_le_mono1) simp
  then show ?thesis using assms by simp
next
  case equal
  then have "unat j \<noteq> unat i" using assms(1) by (auto simp: word_unat_eq_iff)
  then show ?thesis unfolding equal by linarith
next
  case greater
  then have "(unat t + 1) * bs \<le> unat t' * bs" by (intro mult_le_mono1) simp
  then show ?thesis using assms by simp
qed

lemma table_entry_other:
  assumes "(t', j) \<noteq> (t, i)" and "on_disk fs (length C) t'" "on_disk fs (length C) t"
    and "4 * unat j + 4 \<le> bsize fs" "4 * unat i + 4 \<le> bsize fs"
  shows "table_entry (patch C (unat t * bsize fs + 4 * unat i) (STORE32LE v)) (bsize fs) t' j = table_entry C (bsize fs) t' j"
  using entries_disjoint [OF assms(1,4,5)] assms(2-)
  by (auto simp: table_entry_def on_disk_def intro!: arg_cong [where f = LOAD32LE] range_of_patch_other)

lemma table_entry_same:
  assumes "on_disk fs (length C) t" "4 * unat i + 4 \<le> bsize fs"
  shows "table_entry (patch C (unat t * bsize fs + 4 * unat i) (STORE32LE v)) (bsize fs) t i = v"
proof -
  have "unat t * bsize fs + 4 * unat i + 4 \<le> length C" using assms by (simp add: on_disk_def)
  then show ?thesis using range_of_patch_same [of "unat t * bsize fs + 4 * unat i" "STORE32LE v" C]
    by (simp add: table_entry_def)
qed

lemma tables_other:
  assumes ts: "tables fs C inode path = Some (ts, j)" and path: "path_ok P path" and P: "4 * P \<le> bsize fs"
    and t: "on_disk fs (length C) t" "4 * unat (i :: u32) + 4 \<le> bsize fs" "t \<notin> list.set (butlast ts)"
  shows "tables fs (patch C (unat t * bsize fs + 4 * unat i) (STORE32LE v)) inode path = Some (ts, j)"
    (is "tables fs ?C _ _ = _")
proof -
  have len: "length (patch C (unat t * bsize fs + 4 * unat i) (STORE32LE v)) = length C"
    using t by (simp add: on_disk_def)
  note other = table_entry_other [where fs = fs and C = C and t = t and i = i]
  show ?thesis
  proof (cases path)
    case (Single k)
    with ts show ?thesis by (auto simp: tables_def len split: Option.bind_splits if_splits)
  next
    case (Double c d)
    from ts [unfolded Double] obtain top u where u: "get_ptr inode (EXT2_DIRECT_BLOCKS + 1) = Some top"
      "u = table_entry C (bsize fs) top c" "on_disk fs (length C) top" "on_disk fs (length C) u" "ts = [top, u]" "j = d"
      by (elim tables_double)
    have "4 * unat c + 4 \<le> bsize fs" using path P Double by simp
    then have "table_entry ?C (bsize fs) top c = u" using u t other [of top c v] by simp
    then show ?thesis using u by (simp add: Double tables_def len)
  next
    case (Triple d e k)
    from ts [unfolded Triple] obtain top u w where u: "get_ptr inode (EXT2_DIRECT_BLOCKS + 2) = Some top"
      "u = table_entry C (bsize fs) top d" "w = table_entry C (bsize fs) u e" "on_disk fs (length C) top"
      "on_disk fs (length C) u" "on_disk fs (length C) w" "ts = [top, u, w]" "j = k" by (elim tables_triple)
    have "4 * unat d + 4 \<le> bsize fs" "4 * unat e + 4 \<le> bsize fs" using path P Triple by simp_all
    then have "table_entry ?C (bsize fs) top d = u" "table_entry ?C (bsize fs) u e = w"
      using t u(2-6) other [of top d v] other [of u e v] unfolding u(7) by auto
    then show ?thesis using u by (simp add: Triple tables_def Let_def len)
  qed (use ts in \<open>simp_all add: tables_def\<close>)
qed

text \<open>
  C17: A block number of a file that was stored is found again: on every device that keeps whole sectors,
  when the tables on the way exist and the last of them is not one of the others, storing \<open>v\<close> for block
  \<open>n\<close> changes the four bytes of one entry of the last table and nothing else, looking up \<open>n\<close> then gives what was
  stored, and every other block whose tables do not use that entry is found as before. What is stored is \<open>v\<close>
  for the blocks behind one and two tables, and the number of the last table itself for those behind three.
\<close>

theorem ext2_block_map_roundtrip:
  assumes "disk dev content ok sector" and "fs_plain ok fs" and "4 * unat (e2_pointers_per_block fs) = bsize fs"
    and "tables fs (content (e2_device fs)) inode (block_path (e2_pointers_per_block fs) n) = Some (ts, i)"
    and "last ts \<notin> list.set (butlast ts)"
    and "w = (if is_triple (block_path (e2_pointers_per_block fs) n) then last ts else v)"
  shows "\<exists>r fs'. set_block_number dev inode inode_no n v fs = Some (r, inode, fs') \<and>
    content (e2_device fs') = patch (content (e2_device fs)) (unat (last ts) * bsize fs + 4 * unat i) (STORE32LE w) \<and>
    (\<exists>f. get_block_number dev inode n fs' = Some (w, f)) \<and>
    (\<forall>m us j. tables fs (content (e2_device fs)) inode (block_path (e2_pointers_per_block fs) m) = Some (us, j) \<and>
      last ts \<notin> list.set (butlast us) \<and> (last us, j) \<noteq> (last ts, i) \<longrightarrow>
      (\<exists>b f f'. get_block_number dev inode m fs = Some (b, f) \<and> get_block_number dev inode m fs' = Some (b, f')))"
proof -
  let ?C = "content (e2_device fs)" and ?p = "e2_pointers_per_block fs"
  let ?C' = "patch ?C (unat (last ts) * bsize fs + 4 * unat i) (STORE32LE w)"
  have P: "0 < unat ?p" "unat ?p \<le> 1024" "4 * unat ?p \<le> bsize fs" using assms(2,3) by (auto simp: fs_plain_def)
  note path = tables_path [OF _ refl P(1,2)]
  note last = tables_last [OF _ path P(3)]
  note t = last [OF assms(4) assms(4)]
  from disk.set_block_number_tables [OF assms(1,2) path P(3) assms(4), OF assms(4)] obtain r fs' where
    s: "set_block_number dev inode inode_no n v fs = Some (r, inode, fs')" "changed ok content fs ?C' fs'"
    unfolding assms(6) by blast
  note c = changed_dest [OF s(2)]
  have tables: "tables fs' C = tables fs C" for C unfolding tables_def c(2,15) ..
  have get: "\<exists>f. get_block_number dev inode m fs' = Some (table_entry ?C' (bsize fs) (last us) j, f)"
    if "tables fs ?C inode (block_path ?p m) = Some (us, j)" "last ts \<notin> list.set (butlast us)" for m us j
    using disk.get_block_number_tables [OF assms(1) c(14) [OF assms(2)], of "unat ?p" m inode us j]
      tables_other [OF that(1) path [OF that(1)] P(3) t that(2), of w] path [OF that(1)] P(3)
    unfolding c(1,2,8) tables by blast
  have "\<exists>f. get_block_number dev inode n fs' = Some (w, f)"
    using get [OF assms(4,5)] table_entry_same [OF t] by simp
  moreover have "\<exists>b f f'. get_block_number dev inode m fs = Some (b, f) \<and> get_block_number dev inode m fs' = Some (b, f')"
    if m: "tables fs ?C inode (block_path ?p m) = Some (us, j)" "last ts \<notin> list.set (butlast us)" "(last us, j) \<noteq> (last ts, i)"
    for m us j
    using get [OF m(1,2)] disk.get_block_number_tables [OF assms(1,2) path [OF m(1)] P(3) m(1)]
      table_entry_other [OF m(3) last(1) [OF m(1,1)] t(1) last(2) [OF m(1,1)] t(2), of w] by auto
  ultimately show ?thesis using s(1) c(1) by blast
qed

text \<open>An inode of \<open>small_fs\<close> whose first table is block 3.\<close>

definition small_inode :: "u8 list" where
  "small_inode = replicate 88 0 @ [3, 0, 0, 0] @ replicate 36 0"

lemma small_inode_ptr: "get_ptr small_inode EXT2_DIRECT_BLOCKS = Some 3"
  by (simp add: get_ptr_def small_inode_def EXT2_DIRECT_BLOCKS_def IN_block_def get32_def slice_bytes_def LOAD32LE_def)

theorem ext2_block_map_roundtrip_witness:
  "\<exists>r fs'. set_block_number ramdisk_create small_inode 5 15 77 small_fs = Some (r, small_inode, fs') \<and>
    e2_device fs' = patch (replicate 4096 0) 3084 (STORE32LE 77) \<and>
    (\<exists>f. get_block_number ramdisk_create small_inode 15 fs' = Some (77, f)) \<and>
    (\<exists>b f f'. get_block_number ramdisk_create small_inode 16 small_fs = Some (b, f) \<and>
      get_block_number ramdisk_create small_inode 16 fs' = Some (b, f'))"
proof -
  have path: "block_path (e2_pointers_per_block small_fs) 15 = Single 3" "block_path (e2_pointers_per_block small_fs) 16 = Single 4"
    by (simp_all add: small_fs_def block_path_def EXT2_DIRECT_BLOCKS_def)
  have tables: "tables small_fs (e2_device small_fs) small_inode (block_path (e2_pointers_per_block small_fs) 15) = Some ([3], 3)"
    "tables small_fs (e2_device small_fs) small_inode (block_path (e2_pointers_per_block small_fs) 16) = Some ([3], 4)"
    unfolding path by (simp_all add: tables_def small_inode_ptr) (simp_all add: on_disk_def small_fs_def)
  moreover have "fs_plain ramdisk_ok small_fs" "4 * unat (e2_pointers_per_block small_fs) = bsize small_fs"
    "last [3 :: u32] \<notin> list.set (butlast [3])" "e2_device small_fs = replicate 4096 0" "bsize small_fs = 1024"
    "77 = (if is_triple (block_path (e2_pointers_per_block small_fs) 15) then last [3] else 77 :: u32)"
    unfolding path by (simp_all add: small_fs_def fs_plain_def ramdisk_ok_def is_triple_def)
  ultimately show ?thesis
    using ext2_block_map_roundtrip [OF ramdisk.disk_axioms, of small_fs small_inode 15 "[3]" 3 77 77 5] by fastforce
qed

text \<open>
  C21: The blocks of a file are numbered without gaps from 0 to 12 + P + P * P + P, where P is the number of
  pointers in a block: each number has a path through the tables with every index below P, the path gives the
  number back (so different numbers have different paths), and every larger number is refused by the lookup
  and by the store, which leave the file system as it is. Behind three tables there are only P blocks.
\<close>

theorem ext2_file_block_bounds:
  assumes "unat (e2_pointers_per_block fs) = P" "0 < P" "P \<le> 1024"
  shows "if unat n < 12 + P + P * P + P
    then path_ok P (block_path (e2_pointers_per_block fs) n) \<and> path_number P (block_path (e2_pointers_per_block fs) n) = unat n
    else get_block_number dev inode n fs = Some (-1, fs) \<and> set_block_number dev inode inode_no n v fs = Some (-1, inode, fs)"
  using block_path_number [OF assms, of n] by (simp add: get_block_number_def set_block_number_def split: if_splits)

theorem ext2_file_block_bounds_witness:
  "path_ok 256 (block_path 256 66059) \<and> path_number 256 (block_path 256 66059) = 66059 \<and>
    get_block_number ramdisk_create small_inode 66060 small_fs = Some (-1, small_fs)"
proof -
  have "unat (e2_pointers_per_block small_fs) = 256" "e2_pointers_per_block small_fs = 256" by (simp_all add: small_fs_def)
  then show ?thesis
    using ext2_file_block_bounds [of small_fs 256 66059] ext2_file_block_bounds [of small_fs 256 66060 ramdisk_create small_inode]
    by simp
qed

end
