(* ===== verification/Ext2_Read.thy ===== *)
theory Ext2_Read
  imports Ext2_Map Ext2_File
begin

text \<open>
  What reading from a file gives: the bytes of its blocks, in order.
\<close>

subsection \<open>The bytes of a file\<close>

definition block_at :: "'d ext2_fs \<Rightarrow> u8 list \<Rightarrow> u8 list \<Rightarrow> u32 \<Rightarrow> u32 option" where
  "block_at fs C inode k =
     (case block_path (e2_pointers_per_block fs) k of
        Direct i \<Rightarrow> get_ptr inode i
      | path \<Rightarrow> do { (ts, i) \<leftarrow> tables fs C inode path; Some (table_entry C (bsize fs) (last ts) i) })"

definition file_block :: "'d ext2_fs \<Rightarrow> u8 list \<Rightarrow> u8 list \<Rightarrow> nat \<Rightarrow> u8 list" where
  "file_block fs C inode k = (case block_at fs C inode (of_nat k) of Some b \<Rightarrow> blk C (bsize fs) (unat b) | None \<Rightarrow> [])"

definition file_bytes :: "'d ext2_fs \<Rightarrow> u8 list \<Rightarrow> u8 list \<Rightarrow> nat \<Rightarrow> u8 list" where
  "file_bytes fs C inode n = concat (map (file_block fs C inode) [0..<n])"

text \<open>A file of \<open>n\<close> blocks, all of them on the disk.\<close>

definition file_ok :: "'d ext2_fs \<Rightarrow> u8 list \<Rightarrow> u8 list \<Rightarrow> nat \<Rightarrow> bool" where
  "file_ok fs C inode n \<longleftrightarrow> map_option unat (file_blocks inode fs) = Some n \<and> n * bsize fs < 2 ^ 32 \<and>
     list_all (\<lambda>k. case block_at fs C inode (of_nat k) of Some b \<Rightarrow> on_disk fs (length C) b | None \<Rightarrow> False) [0..<n]"

lemma range_of_0 [simp]: "range_of m off 0 = []"
  by (simp add: range_of_def)

lemma range_of_concat:
  assumes "\<forall>k < n. length (g k) = bs" and "k < n"
  shows "range_of (concat (map g [0..<n])) (k * bs) bs = g k"
proof -
  have len: "length (concat (map g [0..<m])) = m * bs" if "m \<le> n" for m
    using that assms(1) by (induction m) simp_all
  have "[0..<n] = [0..<k] @ k # [Suc k..<n]"
    using assms(2) upt_add_eq_append [of 0 k "n - k"] by (simp add: upt_conv_Cons)
  then show ?thesis using len [of k] assms by (simp add: range_of_def)
qed

lemma file_block_at:
  assumes "file_ok fs C inode n" and "k < n"
  obtains b where "block_at fs C inode (of_nat k) = Some b" "on_disk fs (length C) b"
    "file_block fs C inode k = blk C (bsize fs) (unat b)" "length (file_block fs C inode k) = bsize fs"
proof -
  have "case block_at fs C inode (of_nat k) of Some b \<Rightarrow> on_disk fs (length C) b | None \<Rightarrow> False"
    using assms by (simp add: file_ok_def list_all_iff)
  then show thesis using that by (auto simp: file_block_def on_disk_def split: option.splits)
qed

lemma length_file_block: "file_ok fs C inode n \<Longrightarrow> k < n \<Longrightarrow> length (file_block fs C inode k) = bsize fs"
  by (rule file_block_at)

lemma file_bytes_block:
  assumes "file_ok fs C inode n" and "k < n"
  shows "range_of (file_bytes fs C inode n) (k * bsize fs) (bsize fs) = file_block fs C inode k"
  unfolding file_bytes_def using assms by (intro range_of_concat) (auto simp: length_file_block)

lemma length_file_bytes:
  assumes "file_ok fs C inode n"
  shows "length (file_bytes fs C inode n) = n * bsize fs"
proof -
  have "length (concat (map (file_block fs C inode) [0..<m])) = m * bsize fs" if "m \<le> n" for m
    using that by (induction m) (simp_all add: length_file_block [OF assms])
  then show ?thesis by (simp add: file_bytes_def)
qed

text \<open>A range in one block.\<close>

lemma file_bytes_range:
  assumes "file_ok fs C inode n" and "k < n" and "i + len \<le> bsize fs"
  shows "range_of (file_block fs C inode k) i len = range_of (file_bytes fs C inode n) (k * bsize fs + i) len"
  unfolding file_bytes_block [OF assms(1,2), symmetric] by (rule range_of_range_of [OF assms(3)])

lemma for_each_upt:
  assumes "P 0 s" and "\<And>j s. j < n \<Longrightarrow> P j s \<Longrightarrow> \<exists>s'. body j s = Some s' \<and> P (Suc j) s'"
  shows "\<exists>s'. for_each body [0..<n] s = Some s' \<and> P n s'"
  using assms(2)
proof (induction n)
  case (Suc n)
  then obtain s' where "for_each body [0..<n] s = Some s'" "P n s'" by fastforce
  moreover from this Suc.prems obtain s'' where "body n s' = Some s''" "P (Suc n) s''" by blast
  ultimately show ?case by (simp add: for_each_append)
qed (use assms(1) in simp)

subsection \<open>Blocks of a file\<close>

lemma block_at_tables:
  assumes "block_at fs C inode k = Some b"
  shows "(\<exists>i. block_path (e2_pointers_per_block fs) k = Direct i \<and> get_ptr inode i = Some b) \<or>
    (\<exists>ts i. tables fs C inode (block_path (e2_pointers_per_block fs) k) = Some (ts, i) \<and>
      b = table_entry C (bsize fs) (last ts) i)"
  using assms by (cases "block_path (e2_pointers_per_block fs) k") (auto simp: block_at_def split: Option.bind_splits)

context disk
begin

lemma get_block_at:
  assumes p: "fs_plain ok fs" and P: "4 * unat (e2_pointers_per_block fs) = bsize fs"
    and b: "block_at fs (content (e2_device fs)) inode k = Some b"
  shows "\<exists>fs'. get_block_number dev inode k fs = Some (b, fs') \<and> changed ok content fs (content (e2_device fs)) fs'"
proof -
  let ?C = "content (e2_device fs)"
  have P': "0 < unat (e2_pointers_per_block fs)" "unat (e2_pointers_per_block fs) \<le> 1024"
    "4 * unat (e2_pointers_per_block fs) \<le> bsize fs" using p P by (auto simp: fs_plain_def)
  from block_at_tables [OF b] show ?thesis
  proof (elim disjE exE conjE)
    fix i assume "block_path (e2_pointers_per_block fs) k = Direct i" "get_ptr inode i = Some b"
    then show ?thesis using changed_refl [OF p, of content] by (simp add: get_block_number_def)
  next
    fix ts i assume ts: "tables fs ?C inode (block_path (e2_pointers_per_block fs) k) = Some (ts, i)"
      and "b = table_entry ?C (bsize fs) (last ts) i"
    then show ?thesis using get_block_number_tables [OF p tables_path [OF ts refl P'(1,2)] P'(3) ts] by simp
  qed
qed

text \<open>A block of the file, and the zeros behind the last one.\<close>

lemma inode_read_block_plain:
  assumes p: "fs_plain ok fs" and P: "4 * unat (e2_pointers_per_block fs) = bsize fs"
    and f: "file_ok fs (content (e2_device fs)) inode n" and k: "unat k < n" and l: "length buf = bsize fs"
  shows "\<exists>r fs'. inode_read_block dev inode k buf fs = Some (r, file_block fs (content (e2_device fs)) inode (unat k), fs') \<and>
    changed ok content fs (content (e2_device fs)) fs'"
proof -
  let ?C = "content (e2_device fs)"
  from file_block_at [OF f k] obtain b where b: "block_at fs ?C inode k = Some b" "on_disk fs (length ?C) b"
    "file_block fs ?C inode (unat k) = blk ?C (bsize fs) (unat b)" by auto
  from get_block_at [OF p P b(1)] obtain f1 where f1: "get_block_number dev inode k fs = Some (b, f1)"
    "changed ok content fs ?C f1" by blast
  note c = changed_dest [OF f1(2)]
  have "on_disk f1 (length (content (e2_device f1))) b" using b(2) c by simp
  from read_block_plain [OF c(14) [OF p] this, of buf] l c b(2) obtain r f2 where
    f2: "read_block dev b buf f1 = Some (r, blk ?C (bsize fs) (unat b), f2)" "changed ok content f1 ?C f2"
    by (auto simp: patch_all on_disk_def)
  obtain m where "file_blocks inode fs = Some m" "\<not> m \<le> k" using f k by (auto simp: file_ok_def word_le_nat_alt)
  then show ?thesis using b(3) f1 f2 changed_trans [OF f1(2) f2(2)] by (simp add: inode_read_block_def)
qed

lemma inode_read_block_behind:
  assumes p: "fs_plain ok fs" and f: "file_ok fs (content (e2_device fs)) inode n" and k: "n \<le> unat k" and l: "length buf = bsize fs"
  shows "inode_read_block dev inode k buf fs = Some (0, replicate (bsize fs) 0, fs)"
proof -
  obtain m where "file_blocks inode fs = Some m" "m \<le> k" using f k by (auto simp: file_ok_def word_le_nat_alt)
  then show ?thesis using l by (simp add: inode_read_block_def put_bytes_in patch_all)
qed

end

subsection \<open>Ranges\<close>

text \<open>The numbers the code computes for a range that starts at \<open>offset\<close> and ends before \<open>e\<close>.\<close>

lemma start_numbers:
  assumes "unat offset < 2 ^ 32"
  shows "unat (start_block fs offset) = unat offset div bsize fs" "in_block fs offset = unat offset mod bsize fs"
proof -
  have b: "unat (ucast (e2_block_size fs) :: u64) = bsize fs" by (rule unat_ucast_up) simp
  have dv: "unat (offset div ucast (e2_block_size fs)) = unat offset div bsize fs" by (simp only: unat_div b)
  have d: "unat offset div bsize fs < 2 ^ 32" using assms by (meson div_le_dividend le_less_trans)
  show "unat (start_block fs offset) = unat offset div bsize fs"
    using d dv by (simp add: start_block_def unsigned_ucast_eq [of "offset div _"] take_bit_nat_eq_self)
  show "in_block fs offset = unat offset mod bsize fs" by (simp add: in_block_def unat_mod b)
qed

lemma range_numbers:
  assumes bs: "0 < bsize fs" and le: "unat offset \<le> unat (e :: u32)"
  shows "unat (start_block fs offset) = unat offset div bsize fs" "in_block fs offset = unat offset mod bsize fs"
    "unat (end_block fs e) = unat e div bsize fs" "unat (end_size fs e) = unat e mod bsize fs"
    "unat (size_to_read offset e) = unat e - unat offset"
proof -
  have e: "unat e < 2 ^ 32" using unsigned_less [of e] by simp
  then show "unat (start_block fs offset) = unat offset div bsize fs" "in_block fs offset = unat offset mod bsize fs"
    using start_numbers [of offset] le by simp_all
  show q: "unat (end_block fs e) = unat e div bsize fs" by (simp add: end_block_def unat_div)
  have "unat (end_block fs e * e2_block_size fs) = unat e div bsize fs * bsize fs"
    using e by (intro unat_mult_32 q) (simp_all add: le_less_trans [OF div_times_less_eq_dividend])
  then show "unat (end_size fs e) = unat e mod bsize fs"
    by (simp add: end_size_def unat_sub word_le_nat_alt minus_div_mult_eq_mod)
  have "unat (ucast e :: u64) = unat e" by (rule unat_ucast_up) simp
  then have "unat (ucast e - offset) = unat e - unat offset" using le by (simp add: unat_sub word_le_nat_alt)
  then show "unat (size_to_read offset e) = unat e - unat offset"
    using e by (simp add: size_to_read_def unsigned_ucast_eq take_bit_nat_eq_self)
qed

lemma buffer_pos_at:
  assumes "0 < bsize fs" and "unat offset \<le> unat (e :: u32)" and "0 < j" and "bsize fs * j \<le> unat e"
  shows "buffer_pos fs offset j = Some (j * bsize fs - unat offset mod bsize fs)"
proof -
  have e: "unat e < 2 ^ 32" using unsigned_less [of e] by simp
  have "1 * j \<le> bsize fs * j" using assms(1) by (intro mult_le_mono1) simp
  then have "j < 2 ^ 32" using assms(4) e by linarith
  then have "unat (of_nat j :: u32) = j" by (simp add: unsigned_of_nat take_bit_nat_eq_self)
  then have "unat (e2_block_size fs * of_nat j) = bsize fs * j" using assms(4) e by (intro unat_mult_32) simp_all
  moreover have "unat offset mod bsize fs \<le> bsize fs * j"
    using mod_less_divisor [OF assms(1), of "unat offset"] mult_le_mono2 [of 1 j "bsize fs"] assms(3) by linarith
  ultimately show ?thesis using range_numbers(2) [OF assms(1,2)] by (simp add: buffer_pos_def mult.commute)
qed

text \<open>A buffer is filled from its start on.\<close>

lemma put_next:
  assumes "k + l \<le> length B" and "off + (k + l) \<le> length F" and "q = off + k"
  shows "put_bytes (patch B 0 (range_of F off k)) k (range_of F q l) = Some (patch B 0 (range_of F off (k + l)))"
  using assms patch_patch [of 0 "range_of F off k" "range_of F q l" B] by (simp add: put_bytes_in range_of_add)

lemma copy_next:
  assumes "k + l \<le> length B" and "off + (k + l) \<le> length F" and "i + l \<le> length buf"
    and "range_of buf i l = range_of F (off + k) l"
  shows "copy_bytes (patch B 0 (range_of F off k)) k buf i l = Some (patch B 0 (range_of F off (k + l)))"
  using assms put_next [OF assms(1,2) refl] by (simp add: copy_bytes_def slice_bytes_in)

lemma changed_file:
  assumes "changed ok content fs C fs'"
  shows "file_ok fs' = file_ok fs" "file_block fs' = file_block fs" "file_bytes fs' = file_bytes fs"
    "start_block fs' = start_block fs" "end_block fs' = end_block fs" "in_block fs' = in_block fs"
    "end_size fs' = end_size fs" "buffer_pos fs' = buffer_pos fs" "loop_blocks fs' = loop_blocks fs"
proof -
  note c = changed_dest [OF assms]
  have t: "tables fs' = tables fs" by (intro ext) (unfold tables_def c(2,15), rule refl)
  have b: "block_at fs' = block_at fs" by (intro ext) (unfold block_at_def t c(2,8), rule refl)
  show k: "file_block fs' = file_block fs" by (intro ext) (unfold file_block_def b c(2), rule refl)
  show "file_bytes fs' = file_bytes fs" by (intro ext) (unfold file_bytes_def k, rule refl)
  show "file_ok fs' = file_ok fs" by (intro ext) (unfold file_ok_def file_blocks_def b c(2,15), rule refl)
  show s: "start_block fs' = start_block fs" by (intro ext) (unfold start_block_def c(2), rule refl)
  show i: "in_block fs' = in_block fs" by (intro ext) (unfold in_block_def c(2), rule refl)
  show e: "end_block fs' = end_block fs" by (intro ext) (unfold end_block_def c(2), rule refl)
  show "end_size fs' = end_size fs" by (intro ext) (unfold end_size_def e c(2), rule refl)
  show "buffer_pos fs' = buffer_pos fs" by (intro ext) (unfold buffer_pos_def i c(2), rule refl)
  show "loop_blocks fs' = loop_blocks fs" by (intro ext) (unfold loop_blocks_def s e, rule refl)
qed

text \<open>After \<open>j\<close> blocks of a range that starts at \<open>off\<close>, which is \<open>o'\<close> bytes into its first block.\<close>

definition filled :: "('d \<Rightarrow> bool) \<Rightarrow> ('d \<Rightarrow> u8 list) \<Rightarrow> 'd ext2_fs \<Rightarrow> u8 list \<Rightarrow> u8 list \<Rightarrow> u8 list \<Rightarrow> nat \<Rightarrow> nat \<Rightarrow> nat \<Rightarrow>
    u8 list \<times> u8 list \<times> 'd ext2_fs \<Rightarrow> bool" where
  "filled ok content fs C F B off o' j s \<longleftrightarrow> (case s of (buffer, buf, fs') \<Rightarrow>
     changed ok content fs C fs' \<and> length buf = bsize fs \<and> buffer = patch B 0 (range_of F off (j * bsize fs - o')))"

context disk
begin

lemma read_step_plain:
  fixes fs :: "'d ext2_fs" and off :: u64
  defines "C \<equiv> content (e2_device fs)"
  assumes p: "fs_plain ok fs" and P: "4 * unat (e2_pointers_per_block fs) = bsize fs"
    and f: "file_ok fs C inode n" and e: "unat off \<le> unat (e :: u32)" "unat e \<le> n * bsize fs" "unat e - unat off \<le> length B"
    and j: "j < unat e div bsize fs - unat off div bsize fs"
    and s: "filled ok content fs C (file_bytes fs C inode n) B (unat off) (unat off mod bsize fs) j s"
  shows "\<exists>s'. read_step dev inode off j s = Some s' \<and>
    filled ok content fs C (file_bytes fs C inode n) B (unat off) (unat off mod bsize fs) (Suc j) s'"
proof -
  let ?F = "file_bytes fs C inode n"
  have bs: "0 < bsize fs" using p by (auto simp: fs_plain_def)
  have e32: "unat e < 2 ^ 32" using unsigned_less [of e] by simp
  obtain o' b where o': "unat off = b * bsize fs + o'" "o' < bsize fs" "unat off mod bsize fs = o'" "unat off div bsize fs = b"
    using bs by (metis div_mult_mod_eq mod_less_divisor)
  obtain buffer buf g where st: "s = (buffer, buf, g)" "changed ok content fs C g" "length buf = bsize fs"
    "buffer = patch B 0 (range_of ?F (unat off) (j * bsize fs - o'))" using s o'(3) by (auto simp: filled_def)
  note c = changed_dest [OF st(2)] and cf = changed_file [OF st(2)]
  have "Suc (b + j) * bsize fs \<le> unat e div bsize fs * bsize fs" using j o'(4) by (intro mult_le_mono1) simp
  then have lim: "Suc (b + j) * bsize fs \<le> unat e" using div_times_less_eq_dividend [of "unat e" "bsize fs"] by linarith
  then have n: "b + j < n" using e(2) by (metis Suc_le_lessD le_trans mult_le_cancel2 bs)
  have lf: "length ?F = n * bsize fs" by (rule length_file_bytes [OF f])
  have bj: "unat (start_block fs off + of_nat j) = b + j"
  proof (intro unat_add_32)
    show "unat (start_block fs off) = b" using range_numbers(1) [OF bs e(1)] o'(4) by simp
    have "1 * (b + j) \<le> bsize fs * (b + j)" using bs by (intro mult_le_mono1) simp
    moreover have "bsize fs * (b + j) < 2 ^ 32" using lim e32 by (simp add: algebra_simps)
    ultimately have "1 * (b + j) < 2 ^ 32" by (rule le_less_trans)
    then show "b + j < 2 ^ 32" by simp
    then show "unat (of_nat j :: u32) = j" by (simp add: unsigned_of_nat take_bit_nat_eq_self)
  qed
  from inode_read_block_plain [OF c(14) [OF p], of inode n "start_block fs off + of_nat j" buf] obtain r g' where
    g': "inode_read_block dev inode (start_block fs off + of_nat j) buf g = Some (r, file_block fs C inode (b + j), g')"
      "changed ok content g C g'"
    using P f n st(3) by (auto simp: c cf bj)
  have K: "file_block fs C inode (b + j) = range_of ?F ((b + j) * bsize fs) (bsize fs)"
    by (rule file_bytes_block [OF f n, symmetric])
  have lk: "length (file_block fs C inode (b + j)) = bsize fs" by (rule length_file_block [OF f n])
  have rs: "read_step dev inode off j s = do {
      buffer \<leftarrow> (if j = 0 then copy_bytes buffer 0 (file_block fs C inode (b + j)) o' (bsize fs - o')
        else do { pos \<leftarrow> buffer_pos fs off j; copy_bytes buffer pos (file_block fs C inode (b + j)) 0 (bsize fs) });
      Some (buffer, file_block fs C inode (b + j), g')
    }"
    using g'(1) by (simp add: read_step_def st(1) cf changed_file [OF g'(2)] c changed_dest [OF g'(2)] o'(3)
        range_numbers(2) [OF bs e(1)])
  have stepped: "\<exists>s'. read_step dev inode off j s = Some s' \<and>
      filled ok content fs C ?F B (unat off) (unat off mod bsize fs) (Suc j) s'"
    if "(if j = 0 then copy_bytes buffer 0 (file_block fs C inode (b + j)) o' (bsize fs - o')
         else do { pos \<leftarrow> buffer_pos fs off j; copy_bytes buffer pos (file_block fs C inode (b + j)) 0 (bsize fs) }) =
        Some (patch B 0 (range_of ?F (unat off) (Suc j * bsize fs - o')))"
    unfolding rs that using changed_trans [OF st(2) g'(2)] lk by (simp add: filled_def o'(3))
  show ?thesis
  proof (cases "j = 0")
    case True
    have "copy_bytes (patch B 0 (range_of ?F (unat off) 0)) 0 (file_block fs C inode b) o' (bsize fs - o') =
        Some (patch B 0 (range_of ?F (unat off) (0 + (bsize fs - o'))))"
      using True lim lf lk o' e K f n by (intro copy_next) (auto simp: range_of_range_of)
    then show ?thesis using stepped True st(4) by simp
  next
    case False
    then have jb: "bsize fs \<le> j * bsize fs" by simp
    have at: "unat off + (j * bsize fs - o') = (b + j) * bsize fs" "Suc j * bsize fs - o' = (j * bsize fs - o') + bsize fs"
      using jb o'(1,2) unfolding distrib_right mult_Suc by linarith+
    have "copy_bytes (patch B 0 (range_of ?F (unat off) (j * bsize fs - o'))) (j * bsize fs - o') (file_block fs C inode (b + j)) 0 (bsize fs) =
        Some (patch B 0 (range_of ?F (unat off) ((j * bsize fs - o') + bsize fs)))"
    proof (intro copy_next)
      show "unat off + ((j * bsize fs - o') + bsize fs) \<le> length ?F"
        using at lim e(2) lf by (simp add: algebra_simps)
      then show "j * bsize fs - o' + bsize fs \<le> length B" using at lim e by (simp add: algebra_simps)
    qed (use lk K at in simp_all)
    moreover have "buffer_pos fs off j = Some (j * bsize fs - o')"
      using buffer_pos_at [OF bs e(1), of j] False lim o'(3) by (simp add: algebra_simps)
    ultimately show ?thesis unfolding st(4) [symmetric] at(2) [symmetric] using False by (intro stepped) simp
  qed
qed

text \<open>Part of one block, copied behind what is there.\<close>

lemma copy_block_plain:
  fixes fs :: "'d ext2_fs"
  defines "C \<equiv> content (e2_device fs)"
  assumes p: "fs_plain ok fs" and P: "4 * unat (e2_pointers_per_block fs) = bsize fs" and f: "file_ok fs C inode n"
    and g: "changed ok content fs C g" "length buf = bsize fs" and i: "i + l \<le> bsize fs" "k + l \<le> length B"
    and at: "off + k = unat q * bsize fs + i" and n: "unat q < n \<or> l = 0 \<and> off + k \<le> n * bsize fs"
  shows "\<exists>r b g'. inode_read_block dev inode q buf g = Some (r, b, g') \<and> changed ok content fs C g' \<and>
    copy_bytes (patch B 0 (range_of (file_bytes fs C inode n) off k)) k b i l =
      Some (patch B 0 (range_of (file_bytes fs C inode n) off (k + l)))"
proof -
  note c = changed_dest [OF g(1)] and cf = changed_file [OF g(1)]
  have lf: "length (file_bytes fs C inode n) = n * bsize fs" by (rule length_file_bytes [OF f])
  show ?thesis
  proof (cases "unat q < n")
    case True
    from inode_read_block_plain [OF c(14) [OF p], of inode n q buf] obtain r g' where
      g': "inode_read_block dev inode q buf g = Some (r, file_block fs C inode (unat q), g')" "changed ok content g C g'"
      using P f True g(2) by (auto simp: c cf)
    have "Suc (unat q) * bsize fs \<le> n * bsize fs" using True by (intro mult_le_mono1) simp
    then have "off + (k + l) \<le> n * bsize fs" using at i(1) by simp
    then have "copy_bytes (patch B 0 (range_of (file_bytes fs C inode n) off k)) k (file_block fs C inode (unat q)) i l =
        Some (patch B 0 (range_of (file_bytes fs C inode n) off (k + l)))"
      using i at lf file_bytes_range [OF f True i(1)] length_file_block [OF f True] by (intro copy_next) simp_all
    then show ?thesis using g' changed_trans [OF g(1) g'(2)] by blast
  next
    case False
    have "inode_read_block dev inode q buf g = Some (0, replicate (bsize fs) 0, g)"
      using inode_read_block_behind [OF c(14) [OF p], of inode n q buf] f False g(2) by (simp add: c cf)
    moreover have "copy_bytes (patch B 0 (range_of (file_bytes fs C inode n) off k)) k (replicate (bsize fs) 0) i l =
        Some (patch B 0 (range_of (file_bytes fs C inode n) off (k + l)))"
      using i n False lf by (intro copy_next) (simp_all add: range_of_def)
    ultimately show ?thesis using g(1) by blast
  qed
qed

lemma read_bytes_plain:
  fixes fs :: "'d ext2_fs" and off :: u64
  defines "C \<equiv> content (e2_device fs)"
  assumes p: "fs_plain ok fs" and P: "4 * unat (e2_pointers_per_block fs) = bsize fs"
    and f: "file_ok fs C inode n" and e: "unat off \<le> unat (e :: u32)" "unat e \<le> n * bsize fs" "unat e - unat off \<le> length B"
  shows "\<exists>fs'. read_bytes dev inode off e B fs =
      Some (patch B 0 (range_of (file_bytes fs C inode n) (unat off) (unat e - unat off)), fs') \<and> changed ok content fs C fs'"
proof -
  let ?F = "file_bytes fs C inode n" and ?tmp = "map (e2_junk fs) [0..<bsize fs]"
  have bs: "0 < bsize fs" using p by (auto simp: fs_plain_def)
  note nums = range_numbers [OF bs e(1)]
  obtain o' b where o': "unat off = b * bsize fs + o'" "o' < bsize fs" "unat off mod bsize fs = o'" "unat off div bsize fs = b"
    using bs by (metis div_mult_mod_eq mod_less_divisor)
  obtain t d where t: "unat e = d * bsize fs + t" "t < bsize fs" "unat e mod bsize fs = t" "unat e div bsize fs = d"
    using bs by (metis div_mult_mod_eq mod_less_divisor)
  have bd: "b \<le> d" using e(1) o'(4) t(4) by (metis div_le_mono)
  have dn: "d < n \<or> d = n \<and> t = 0"
  proof -
    have "d * bsize fs \<le> n * bsize fs" using e(2) t(1) by linarith
    then have "d \<le> n" using bs by simp
    moreover have "t = 0" if "d = n" using that e(2) t(1) by simp
    ultimately show ?thesis by linarith
  qed
  have r0: "changed ok content fs C fs" unfolding C_def by (rule changed_refl [OF p])
  show ?thesis
  proof (cases "b = d")
    case True
    then have same: "start_block fs off = end_block fs e" using nums o' t by (simp add: word_unat_eq_iff)
    have te: "unat e - unat off = t - o'" "o' \<le> t" using True o'(1) t(1) e(1) by simp_all
    have q: "unat (start_block fs off) = b" using nums(1) o'(4) by simp
    from copy_block_plain [OF p P f [unfolded C_def] r0 [unfolded C_def], folded C_def, of ?tmp o' "t - o'" 0 B "unat off" "start_block fs off"]
    obtain r buf g where g: "inode_read_block dev inode (start_block fs off) ?tmp fs = Some (r, buf, g)" "changed ok content fs C g"
      "copy_bytes B 0 buf o' (t - o') = Some (patch B 0 (range_of ?F (unat off) (t - o')))"
      using te t(2) o' q dn e(2,3) True by auto
    then show ?thesis
      using same te nums(2,5) o'(3) by (auto simp: read_bytes_def plain_alloc [OF p] changed_file(6) [OF g(2)])
  next
    case False
    have nr: "loop_blocks fs off e = [0..<d - b]" using nums o' t by (simp add: loop_blocks_def)
    have differ: "start_block fs off \<noteq> end_block fs e" using nums o'(4) t(4) False by auto
    have db: "0 < d - b" using False bd by simp
    then have "1 * bsize fs \<le> (d - b) * bsize fs" by (intro mult_le_mono1) linarith
    then have "bsize fs \<le> (d - b) * bsize fs" by simp
    then have k: "unat off + ((d - b) * bsize fs - o') = d * bsize fs" "(d - b) * bsize fs - o' + t = unat e - unat off"
      using o'(1,2) t(1) bd mult_le_mono1 [OF bd, of "bsize fs"] by (simp_all add: diff_mult_distrib)
    have "\<exists>s'. for_each (read_step dev inode off) [0..<d - b] (B, ?tmp, fs) = Some s' \<and>
        filled ok content fs C ?F B (unat off) (unat off mod bsize fs) (d - b) s'"
      using read_step_plain [OF p P f [unfolded C_def] e, folded C_def] o'(4) t(4) r0
      by (intro for_each_upt) (simp_all add: filled_def)
    then obtain buf g where g: "for_each (read_step dev inode off) [0..<d - b] (B, ?tmp, fs) =
        Some (patch B 0 (range_of ?F (unat off) ((d - b) * bsize fs - o')), buf, g)" "changed ok content fs C g" "length buf = bsize fs"
      using o'(3) by (auto simp: filled_def)
    note c = changed_dest [OF g(2)] and cf = changed_file [OF g(2)]
    show ?thesis
    proof (cases "t = 0")
      case True
      then have "end_size fs e = 0" using nums(4) t(3) by (simp add: unat_eq_zero [symmetric])
      then show ?thesis using g k(2) True differ by (simp add: read_bytes_def plain_alloc [OF p] nr cf)
    next
      case False
      then have ez: "end_size fs e \<noteq> 0" "unat (end_size fs e) = t" using nums(4) t(3) by auto
      have "bsize fs * (d - b) \<le> bsize fs * d" by (rule mult_le_mono2) simp
      also have "\<dots> \<le> unat e" using t(1) by (simp add: mult.commute)
      finally have pos: "buffer_pos fs off (d - b) = Some ((d - b) * bsize fs - o')"
        using buffer_pos_at [OF bs e(1)] o'(3) db by simp
      have "unat (end_block fs e) = d" using nums(3) t(4) by simp
      then obtain r buf' g' where g': "inode_read_block dev inode (end_block fs e) buf g = Some (r, buf', g')" "changed ok content fs C g'"
        "copy_bytes (patch B 0 (range_of ?F (unat off) ((d - b) * bsize fs - o'))) ((d - b) * bsize fs - o') buf' 0 t =
          Some (patch B 0 (range_of ?F (unat off) ((d - b) * bsize fs - o' + t)))"
        using copy_block_plain [OF p P f [unfolded C_def] g(2,3) [unfolded C_def], folded C_def,
            of 0 t "(d - b) * bsize fs - o'" B "unat off" "end_block fs e"] k t(2) dn False e(3) by auto
      then show ?thesis using g(1) k(2) differ ez pos
        by (simp add: read_bytes_def plain_alloc [OF p] nr cf changed_file [OF g'(2)])
    qed
  qed
qed

end

subsection \<open>Properties\<close>

lemma clipped_end:
  fixes off :: u64 and isize sz :: u32
  assumes "unat off \<le> unat isize"
  defines "e \<equiv> (if off + ucast sz > ucast isize then isize else ucast (off + ucast sz))"
  shows "unat off \<le> unat e" "unat e - unat off = min (unat sz) (unat isize - unat off)" "unat e \<le> unat isize"
proof -
  have u: "unat (ucast sz :: u64) = unat sz" "unat (ucast isize :: u64) = unat isize" by (rule unat_ucast_up, simp)+
  have "unat sz < 2 ^ 32" "unat isize < 2 ^ 32" using unsigned_less [of sz] unsigned_less [of isize] by simp_all
  then have s: "unat (off + ucast sz) = unat off + unat sz" using assms(1) u by (simp add: unat_word_ariths)
  have "unat e = min (unat off + unat sz) (unat isize)"
  proof (cases "unat isize < unat off + unat sz")
    case True
    then show ?thesis by (simp add: e_def word_less_nat_alt s u)
  next
    case False
    then have "unat (off + ucast sz) < 2 ^ 32" using s \<open>unat isize < 2 ^ 32\<close> by linarith
    then show ?thesis using False
      by (simp add: e_def word_less_nat_alt s u unsigned_ucast_eq [of "off + _"] take_bit_nat_eq_self)
  qed
  then show "unat off \<le> unat e" "unat e - unat off = min (unat sz) (unat isize - unat off)" "unat e \<le> unat isize"
    using assms(1) by linarith+
qed

text \<open>
  C16: Reading a file gives its bytes: on every device that keeps whole sectors, when the inode lies in its
  table and all blocks of the file are on the disk, a read from \<open>off\<close>, at most the end of the file, of \<open>sz\<close> bytes
  into a buffer with room for them copies the bytes of the file from \<open>off\<close> on, as many as were asked for or
  as there are up to its size, to the start of the buffer, returns their number and leaves the device as it
  was.
\<close>

theorem ext2_read_file:
  assumes "disk dev content ok sector" and "fs_plain ok fs" and "table_ok fs" and "4 * unat (e2_pointers_per_block fs) = bsize fs"
    and "inode_slot fs node = Some pos" and "slot_ok fs (length (content (e2_device fs))) pos"
    and "inode = range_of (content (e2_device fs)) pos (unat (e2_inode_size fs))"
    and "file_ok fs (content (e2_device fs)) inode n" and "get32 inode IN_size = Some isize"
    and "unat isize \<le> n * bsize fs" and "unat off \<le> unat isize"
    and "len = min (unat sz) (unat isize - unat off)" and "len \<le> length buffer"
  shows "\<exists>fs'. read_ext2 dev node off sz buffer fs =
      Some (of_nat len, patch buffer 0 (range_of (file_bytes fs (content (e2_device fs)) inode n) (unat off) len), fs') \<and>
    content (e2_device fs') = content (e2_device fs)"
proof -
  let ?C = "content (e2_device fs)"
  from disk.read_inode_slot [OF assms(1-3,5,6)] obtain f where
    f: "read_inode dev node fs = Some (inode, f)" "changed ok content fs ?C f" unfolding assms(7) by blast
  note c = changed_dest [OF f(2)] and cf = changed_file [OF f(2)]
  define e where "e = (if off + ucast sz > ucast isize then isize else ucast (off + ucast sz))"
  have e: "unat off \<le> unat e" "unat e - unat off = len" "unat e \<le> unat isize"
    using clipped_end [OF assms(11), of sz] by (simp_all add: e_def assms(12))
  have bs: "0 < bsize fs" "e2_block_size fs \<noteq> 0" using assms(2) by (auto simp: fs_plain_def)
  have "of_nat (unat (size_to_read off e)) = size_to_read off e" by simp
  then have num: "size_to_read off e = of_nat len" using range_numbers(5) [OF bs(1) e(1)] e(2) by simp
  have z: "patch buffer 0 (range_of F (unat off) len) = buffer" if "isize = 0" for F using that assms(12) by simp
  have p: "fs_plain ok f" by (rule c(14) [OF assms(2)])
  from disk.read_bytes_plain [OF assms(1) p, of inode n off e buffer] obtain f' where
    f': "read_bytes dev inode off e buffer f = Some (patch buffer 0 (range_of (file_bytes fs ?C inode n) (unat off) len), f')"
      "changed ok content f ?C f'"
    using assms(4,8,10,13) e by (auto simp: c cf)
  show ?thesis
  proof (cases "isize = 0")
    case True
    then show ?thesis using f(1) c(1) assms(9,12) by (simp add: read_ext2_def)
  next
    case False
    have "read_ext2 dev node off sz buffer fs = do { (buffer, fs) \<leftarrow> read_bytes dev inode off e buffer f; Some (size_to_read off e, buffer, fs) }"
      using f(1) assms(9) False bs(2) by (simp add: read_ext2_def e_def c(2) Let_def)
    then show ?thesis using f' num changed_dest(1) [OF f'(2)] by simp
  qed
qed

text \<open>A file of five bytes in block 3 of a disk, with inode 3.\<close>

definition hello_inode :: "u8 list" where
  "hello_inode = replicate 4 0 @ [5, 0, 0, 0] @ replicate 20 0 @ [2, 0, 0, 0] @ replicate 8 0 @ [3, 0, 0, 0] @ replicate 84 0"

definition hello_disk :: "u8 list" where
  "hello_disk = replicate 2304 0 @ hello_inode @ replicate 640 0 @ [104, 101, 108, 108, 111] @ replicate 1019 0"

definition hello_fs :: "u8 list ext2_fs" where
  "hello_fs = small_fs\<lparr>e2_device := hello_disk\<rparr>"

lemma hello_fields:
  "length hello_inode = 128" "length hello_disk = 4096" "get32 hello_inode IN_size = Some 5" "get32 hello_inode IN_blocks = Some 2"
  "get_ptr hello_inode 0 = Some 3"
  by (simp_all add: hello_disk_def hello_inode_def get_ptr_def get32_def slice_bytes_def LOAD32LE_def inode_layout)

lemma hello_ranges:
  "range_of hello_disk 2304 128 = hello_inode" "blk hello_disk 1024 3 = [104, 101, 108, 108, 111] @ replicate 1019 0"
  using hello_fields(1) by (simp_all add: hello_disk_def range_of_def blk_def)

lemma hello_file: "block_at hello_fs hello_disk hello_inode 0 = Some 3" "bsize hello_fs = 1024"
  using hello_fields(5) by (simp_all add: block_at_def block_path_def EXT2_DIRECT_BLOCKS_def hello_fs_def small_fs_def)

lemma hello_bytes: "file_bytes hello_fs hello_disk hello_inode 1 = [104, 101, 108, 108, 111] @ replicate 1019 0"
  by (simp add: file_bytes_def file_block_def hello_file hello_ranges)

lemma hello_device: "e2_device hello_fs = hello_disk"
  by (simp add: hello_fs_def)

lemma hello_ok:
  "fs_plain ramdisk_ok hello_fs" "table_ok hello_fs" "4 * unat (e2_pointers_per_block hello_fs) = bsize hello_fs"
  using hello_fields(2) by (simp_all add: fs_plain_def ramdisk_ok_def table_ok_def hello_fs_def small_fs_def)

lemma hello_slot:
  "inode_slot hello_fs 3 = Some 2304" "slot_ok hello_fs (length (e2_device hello_fs)) 2304"
  "hello_inode = range_of (e2_device hello_fs) 2304 (unat (e2_inode_size hello_fs))"
proof -
  have "bgd32 hello_fs 0 BGD_inode_table = Some 2"
    using small_fs_table by (simp add: bgd32_def hello_fs_def)
  then show "inode_slot hello_fs 3 = Some 2304" "slot_ok hello_fs (length (e2_device hello_fs)) 2304"
    "hello_inode = range_of (e2_device hello_fs) 2304 (unat (e2_inode_size hello_fs))"
    using hello_fields(2) hello_ranges(1) by (simp_all add: inode_slot_def slot_ok_def hello_fs_def small_fs_def)
qed

lemma hello_file_ok: "file_ok hello_fs (e2_device hello_fs) hello_inode 1"
  using hello_file hello_fields by (simp add: file_ok_def file_blocks_def on_disk_def hello_fs_def small_fs_def)

theorem ext2_read_file_witness:
  "\<exists>fs'. read_ext2 ramdisk_create 3 1 10 [9, 9, 9, 9, 9, 9] hello_fs = Some (4, [101, 108, 108, 111, 9, 9], fs') \<and>
    e2_device fs' = hello_disk"
proof -
  have d: "unat (5 :: u32) \<le> 1 * bsize hello_fs" "unat (1 :: u64) \<le> unat (5 :: u32)" "4 = min (unat (10 :: u32)) (unat (5 :: u32) - unat (1 :: u64))"
    "4 \<le> length [9, 9, 9, 9, 9, 9 :: u8]"
    unfolding hello_file(2) by simp_all
  have "range_of (file_bytes hello_fs (e2_device hello_fs) hello_inode 1) (unat (1 :: u64)) 4 = [101, 108, 108, 111]"
    unfolding hello_device hello_bytes by (simp add: range_of_def)
  then show ?thesis
    using ext2_read_file [OF ramdisk.disk_axioms hello_ok hello_slot hello_file_ok hello_fields(3) d] unfolding hello_device by (simp add: patch_def)
qed

lemma wrapped_size:
  assumes "unat isize < unat off" and "unat off - unat isize < 4096"
  shows "unat (size_to_read off isize) = 2 ^ 32 - (unat off - unat isize)"
proof -
  have u: "unat (ucast isize :: u64) = unat isize" by (rule unat_ucast_up) simp
  obtain k where k: "unat off = unat isize + k" "0 < k" "k < 4096" using assms by (metis add_diff_inverse_nat less_imp_le not_less zero_less_diff)
  have "unat (ucast isize - off) = unat (ucast isize :: u64) + 2 ^ 64 - unat off"
    using assms(1) u by (subst unat_sub_if') simp
  also have "\<dots> = (2 ^ 32 - k) + (2 ^ 32 - 1) * 2 ^ 32" using k u by simp
  finally have d: "unat (ucast isize - off) = (2 ^ 32 - k) + (2 ^ 32 - 1) * 2 ^ 32" .
  have "unat (size_to_read off isize) = unat (ucast isize - off) mod 2 ^ 32"
    by (simp add: size_to_read_def unsigned_ucast_eq [of "_ - off"] take_bit_eq_mod)
  also have "\<dots> = 2 ^ 32 - k" unfolding d using k by (subst mod_mult_self1) simp
  finally show ?thesis using k by simp
qed

text \<open>
  C22: A read that starts behind the end of a file is not refused: in the last block of the file the number of
  bytes to copy wraps around to almost 2^32, and the copy leaves the block that was read. The file system
  below has the blocks of the file on the disk; no buffer is large enough.
\<close>

theorem ext2_read_behind_end:
  assumes "disk dev content ok sector" and "fs_plain ok fs" and "table_ok fs" and "4 * unat (e2_pointers_per_block fs) = bsize fs"
    and "inode_slot fs node = Some pos" and "slot_ok fs (length (content (e2_device fs))) pos"
    and "inode = range_of (content (e2_device fs)) pos (unat (e2_inode_size fs))"
    and "file_ok fs (content (e2_device fs)) inode n" and "get32 inode IN_size = Some isize" and "isize \<noteq> 0"
    and "unat isize < unat off" and "unat off < 2 ^ 32" and "unat off div bsize fs = unat isize div bsize fs"
  shows "read_ext2 dev node off sz buffer fs = None"
proof -
  let ?C = "content (e2_device fs)"
  from disk.read_inode_slot [OF assms(1-3,5,6)] obtain f where
    f: "read_inode dev node fs = Some (inode, f)" "changed ok content fs ?C f" unfolding assms(7) by blast
  note c = changed_dest [OF f(2)] and cf = changed_file [OF f(2)]
  have p: "fs_plain ok f" by (rule c(14) [OF assms(2)])
  let ?tmp = "map (e2_junk f) [0..<bsize f]" and ?b = "start_block f off"
  have bs: "0 < bsize fs" "bsize fs \<le> 4096" "e2_block_size fs \<noteq> 0" using assms(2) by (auto simp: fs_plain_def)
  have u: "unat (ucast sz :: u64) = unat sz" "unat (ucast isize :: u64) = unat isize" by (rule unat_ucast_up, simp)+
  have "unat sz < 2 ^ 32" using unsigned_less [of sz] by simp
  then have "unat (off + ucast sz) = unat off + unat sz" using assms(12) u by (simp add: unat_word_ariths)
  then have "off + ucast sz > ucast isize" using assms(11) u by (simp add: word_less_nat_alt)
  then have rd: "read_ext2 dev node off sz buffer fs =
      do { (buffer, fs) \<leftarrow> read_bytes dev inode off isize buffer f; Some (size_to_read off isize, buffer, fs) }"
    using f(1) assms(9,10) bs(3) by (simp add: read_ext2_def c(2))
  have same: "?b = end_block f isize"
    using start_numbers(1) [OF assms(12), of f] assms(13) by (simp add: word_unat_eq_iff end_block_def unat_div c(2))
  obtain r b g where g: "inode_read_block dev inode ?b ?tmp f = Some (r, b, g)" "length b = bsize fs"
  proof (cases "unat ?b < n")
    case True
    from disk.inode_read_block_plain [OF assms(1) p, of inode n ?b ?tmp] obtain r g where
      "inode_read_block dev inode ?b ?tmp f = Some (r, file_block fs ?C inode (unat ?b), g)"
      using assms(4,8) True by (auto simp: c cf)
    then show thesis using that length_file_block [OF assms(8) True] by simp
  next
    case False
    then show thesis
      using that disk.inode_read_block_behind [OF assms(1) p, of inode n ?b ?tmp] assms(8) by (simp add: c cf)
  qed
  have "unat off - unat isize < bsize fs"
    using div_mult_mod_eq [of "unat off" "bsize fs"] div_mult_mod_eq [of "unat isize" "bsize fs"] mod_less_divisor [OF bs(1), of "unat off"]
    unfolding assms(13) by linarith
  then have "unat (size_to_read off isize) > bsize fs"
    using wrapped_size [of isize off] assms(11) bs(2) by simp
  then have "copy_bytes buffer 0 b i (unat (size_to_read off isize)) = None" for i
    using g(2) by (simp add: copy_bytes_def slice_bytes_def)
  then show ?thesis using rd same g(1) plain_alloc(2) [OF p] by (simp add: read_bytes_def)
qed

theorem ext2_read_behind_end_witness:
  "read_ext2 ramdisk_create 3 6 10 (replicate 6 9) hello_fs = None"
proof (rule ext2_read_behind_end [OF ramdisk.disk_axioms hello_ok hello_slot hello_file_ok hello_fields(3)])
  show "unat (6 :: u64) div bsize hello_fs = unat (5 :: u32) div bsize hello_fs" unfolding hello_file(2) by simp
qed simp_all

end
