(* ===== verification/Ext2_Cache.thy ===== *)
theory Ext2_Cache
  imports Ext2_Table Ext2_Create
begin

text \<open>
  The block cache as a step relation: what reads, writes and syncs do to the entries and to the device.
\<close>

subsection \<open>Steps\<close>

inductive cache_step :: "'d blockdev_node \<Rightarrow> 'd ext2_fs \<Rightarrow> 'd ext2_fs \<Rightarrow> bool" for dev where
  cached_read: "read_block dev n buf fs = Some (r, buf', fs') \<Longrightarrow> cache_step dev fs fs'"
| cached_write: "write_block dev n buf fs = Some (r, fs') \<Longrightarrow> cache_step dev fs fs'"
| cached_sync: "ext2_sync dev fs = Some fs' \<Longrightarrow> cache_step dev fs fs'"

text \<open>A cache of whole blocks with no marked entry, over a device with content \<open>C\<close>.\<close>

definition clean :: "('d \<Rightarrow> u8 list) \<Rightarrow> u8 list \<Rightarrow> 'd ext2_fs \<Rightarrow> bool" where
  "clean content C fs \<longleftrightarrow>
     (\<exists>c. e2_disk_cache fs = Some c \<and> (\<forall>e \<in> list.set c. \<not> ce_dirty e \<and> length (ce_block e) = bsize fs)) \<and>
     content (e2_device fs) = C"

definition only_reads :: "'d blockdev_node \<Rightarrow> ('d \<Rightarrow> u8 list) \<Rightarrow> bool" where
  "only_reads dev content \<longleftrightarrow>
     (\<forall>off n buf d r buf' d'. read_fs dev off n buf d = Some (r, buf', d') \<longrightarrow>
       content d' = content d \<and> length buf' = length buf)"

lemma clean_cache: "clean content C fs \<Longrightarrow> e2_disk_cache fs \<noteq> None"
  by (auto simp: clean_def)

lemma clean_fields [simp]:
  "clean content C (fs\<lparr>e2_lock := l\<rparr>) = clean content C fs"
  "clean content C (fs\<lparr>e2_cache_time := t\<rparr>) = clean content C fs"
  by (simp_all add: clean_def)

lemma clean_lock: "lock_fs fs = Some fs' \<Longrightarrow> clean content C fs \<Longrightarrow> clean content C fs'"
  by (auto simp: lock_fs_def split: Option.bind_splits)

lemma clean_unlock [simp]: "clean content C (unlock_fs fs) = clean content C fs"
  by (simp add: unlock_fs_def)

lemma clean_entry: "cache_at fs i = Some e \<Longrightarrow> clean content C fs \<Longrightarrow> \<not> ce_dirty e \<and> length (ce_block e) = bsize fs"
  by (auto simp: cache_at_def clean_def idx_def split: if_splits)

lemma clean_set_entry:
  "set_entry i e fs = Some fs' \<Longrightarrow> \<not> ce_dirty e \<Longrightarrow> length (ce_block e) = bsize fs \<Longrightarrow> clean content C fs \<Longrightarrow> clean content C fs'"
  by (auto simp: set_entry_def clean_def upd_def split: if_splits Option.bind_splits dest!: set_update_subset_insert [THEN subsetD])

lemma clean_victim: "cache_victim dev oldest fs = Some fs' \<Longrightarrow> clean content C fs \<Longrightarrow> fs' = fs"
  by (auto simp: cache_victim_def clean_entry split: if_splits Option.bind_splits)

lemma clean_dev_read:
  assumes "dev_read dev n buf fs = Some (r, b, fs')" and "only_reads dev content" and "clean content C fs"
  shows "clean content C fs'" "length b = length buf" "bsize fs' = bsize fs"
  using assms
  by (auto simp: dev_read_def only_reads_def clean_def split: Option.bind_splits)

text \<open>The bytes put into an entry and those read into one are as many as before.\<close>

lemma put_entry:
  "put_bytes (ce_block e) off x = Some b \<Longrightarrow> cache_at fs i = Some e \<Longrightarrow> clean content C fs \<Longrightarrow> length b = bsize fs"
  by (simp add: put_bytes_length clean_entry)

lemma read_entry:
  "dev_read dev n (ce_block e) fs = Some (r, b, fs') \<Longrightarrow> cache_at fs i = Some e \<Longrightarrow> only_reads dev content \<Longrightarrow>
    clean content C fs \<Longrightarrow> length b = bsize fs'"
  by (simp add: clean_dev_read clean_entry)

lemma clean_read_block_cached:
  assumes "read_block_cached dev n buf fs = Some (buf', fs')" and "only_reads dev content" and "clean content C fs"
  shows "clean content C fs'"
  using assms
  by (auto simp: read_block_cached_def get_cache_time_def Let_def split: Option.bind_splits sum.splits if_splits prod.splits
      dest!: clean_victim dest: clean_entry elim!: clean_set_entry clean_dev_read(1) read_entry)

lemma clean_write_block_cached:
  assumes "write_block_cached dev n buf fs = Some fs'" and "clean content C fs"
  shows "clean content C fs'"
  using assms
  by (auto simp: write_block_cached_def get_cache_time_def Let_def split: Option.bind_splits sum.splits if_splits prod.splits
      dest!: clean_victim dest: clean_entry elim!: clean_set_entry put_entry)

lemma clean_sync:
  assumes "ext2_sync dev fs = Some fs'" and "clean content C fs"
  shows "clean content C fs'"
proof -
  have "clean content C fs'" if "for_each (sync_entry dev) is fs = Some fs'" "clean content C fs" for "is" fs fs'
    using that
    by (induction "is" arbitrary: fs)
      (auto simp: sync_entry_def split: Option.bind_splits if_splits dest: clean_entry)
  then show ?thesis using assms
    by (auto simp: ext2_sync_def split: option.splits Option.bind_splits dest: clean_lock)
qed

lemma clean_step:
  assumes "cache_step dev fs fs'" and "only_reads dev content" and "clean content C fs"
  shows "clean content C fs'"
  using assms
proof cases
  case (cached_read n buf r buf')
  then show ?thesis using assms(2,3)
    by (auto simp: read_block_def split: if_splits Option.bind_splits option.splits
        elim!: clean_read_block_cached clean_dev_read(1) dest!: clean_lock)
next
  case (cached_write n buf r)
  then show ?thesis using assms(3) clean_cache [OF assms(3)]
    by (auto simp: write_block_def Let_def unlock_fs_def split: if_splits Option.bind_splits option.splits
        elim!: clean_write_block_cached)
next
  case cached_sync
  then show ?thesis using assms(3) by (rule clean_sync)
qed

lemma clean_steps:
  assumes "(cache_step dev)\<^sup>*\<^sup>* fs fs'" and "only_reads dev content" and "clean content C fs"
  shows "clean content C fs'"
  using assms by (induction rule: rtranclp_induct) (auto intro: clean_step)

lemma clean_make_cache:
  assumes "make_cache fs = Some fs'" and "e2_flags fs AND EXT2_FLAG_NOCACHE = 0"
  shows "clean content (content (e2_device fs)) fs'"
  using assms
  by (auto simp: make_cache_def Let_def clean_def must_alloc_def alloc_def empty_cache_def
      split: Option.bind_splits prod.splits if_splits)

subsection \<open>Finding an entry\<close>

lemma cache_scan_at:
  assumes "i < length es" and "ce_block_no (es ! i) = n" and "\<forall>j < i. ce_block_no (es ! j) \<noteq> n"
  shows "cache_scan n k es old age = Inl (k + i)"
  using assms
proof (induction es arbitrary: i k old age)
  case (Cons e es)
  show ?case
  proof (cases i)
    case (Suc i')
    have "ce_block_no e \<noteq> n" "\<forall>j < i'. ce_block_no (es ! j) \<noteq> n" using Cons.prems(3) Suc by fastforce+
    then show ?thesis using Cons.IH [of i' "k + 1"] Cons.prems Suc by simp
  qed (use Cons.prems in simp)
qed simp

lemma cache_scan_Inl:
  assumes "cache_scan n k es old age = Inl m"
  obtains i where "m = k + i" "i < length es" "ce_block_no (es ! i) = n" "\<forall>j < i. ce_block_no (es ! j) \<noteq> n"
proof -
  have "\<exists>i. m = k + i \<and> i < length es \<and> ce_block_no (es ! i) = n \<and> (\<forall>j < i. ce_block_no (es ! j) \<noteq> n)"
    using assms
  proof (induction es arbitrary: k old age)
    case (Cons e es)
    show ?case
    proof (cases "ce_block_no e = n")
      case True
      then show ?thesis using Cons.prems by (intro exI [of _ 0]) simp
    next
      case False
      with Cons.prems obtain o' a' where "cache_scan n (k + 1) es o' a' = Inl m" by (auto split: if_splits)
      from Cons.IH [OF this] obtain i where i: "m = k + 1 + i" "i < length es" "ce_block_no (es ! i) = n"
        "\<forall>j < i. ce_block_no (es ! j) \<noteq> n" by blast
      have "\<forall>j < Suc i. ce_block_no ((e # es) ! j) \<noteq> n" using i(4) False by (simp add: All_less_Suc2)
      then show ?thesis using i by (intro exI [of _ "Suc i"]) simp
    qed
  qed simp
  then show thesis using that by blast
qed

lemma cache_scan_Inr: "cache_scan n k es old age = Inr r \<Longrightarrow> \<forall>e \<in> list.set es. ce_block_no e \<noteq> n"
  by (induction es arbitrary: k old age) (auto split: if_splits)

text \<open>An entry of block \<open>n\<close> with the bytes \<open>b\<close>, which the scan of the entries finds.\<close>

definition cached :: "'d ext2_fs \<Rightarrow> u32 \<Rightarrow> u8 list \<Rightarrow> bool" where
  "cached fs n b \<longleftrightarrow> (\<exists>c i. e2_disk_cache fs = Some c \<and> i < length c \<and> ce_block_no (c ! i) = n \<and> ce_block (c ! i) = b \<and>
     (\<forall>j < i. ce_block_no (c ! j) \<noteq> n))"

lemma write_block_cached_at:
  assumes "write_block_cached dev n buf fs = Some fs'" and c: "clean content C fs" and "length buf = bsize fs"
  shows "cached fs' n buf \<and> bsize fs' = bsize fs \<and> e2_lock fs' = e2_lock fs"
proof -
  from clean_cache [OF c] obtain es where es: "e2_disk_cache fs = Some es" by blast
  have len: "length (ce_block (es ! i)) = length buf" if "i < length es" for i
    using assms(3) c es that by (simp add: clean_def)
  have bytes: "slice_bytes buf 0 (bsize fs) = Some buf" using assms(3) by (simp add: slice_bytes_in)
  have put: "put_bytes (ce_block (es ! i)) 0 buf = Some buf" if "i < length es" for i
    using len [OF that] by (simp add: put_bytes_in patch_all)
  show ?thesis
  proof (cases "cache_scan n 0 es (-1) (-1)")
    case (Inl m)
    then obtain i where i: "m = 0 + i" "i < length es" "ce_block_no (es ! i) = n" "\<forall>j < i. ce_block_no (es ! j) \<noteq> n"
      by (rule cache_scan_Inl)
    let ?es = "es[i := (es ! i)\<lparr>ce_last_use := e2_cache_time fs, ce_block := buf\<rparr>]"
    have "fs' = fs\<lparr>e2_cache_time := e2_cache_time fs + 1, e2_disk_cache := Some ?es\<rparr>"
      using assms(1) Inl i es bytes put [OF i(2)]
      by (simp add: write_block_cached_def cache_find_def cache_at_def set_entry_def get_cache_time_def upd_def)
    moreover have "cached (fs\<lparr>e2_cache_time := e2_cache_time fs + 1, e2_disk_cache := Some ?es\<rparr>) n buf"
      unfolding cached_def by (intro exI [of _ ?es] exI [of _ i]) (use i in simp)
    ultimately show ?thesis by simp
  next
    case (Inr oldest)
    note none = cache_scan_Inr [OF Inr]
    from assms(1) Inr es obtain f where v: "cache_victim dev oldest fs = Some f"
      by (auto simp: write_block_cached_def cache_find_def split: Option.bind_splits)
    then have "f = fs" "0 \<le> oldest" "nat oldest < length es"
      using clean_victim [OF v c] es
      by (auto simp: cache_victim_def cache_at_def idx_def split: if_splits Option.bind_splits)
    then obtain i where i: "nat oldest = i" "i < length es" "cache_victim dev oldest fs = Some fs" using v by blast
    let ?es = "es[i := \<lparr>ce_block_no = n, ce_last_use = e2_cache_time fs, ce_dirty = False, ce_block = buf\<rparr>]"
    have "fs' = fs\<lparr>e2_cache_time := e2_cache_time fs + 1, e2_disk_cache := Some ?es\<rparr>"
      using assms(1) Inr i es bytes put [OF i(2)]
      by (simp add: write_block_cached_def cache_find_def cache_at_def set_entry_def get_cache_time_def upd_def)
    moreover have "cached (fs\<lparr>e2_cache_time := e2_cache_time fs + 1, e2_disk_cache := Some ?es\<rparr>) n buf"
      unfolding cached_def by (intro exI [of _ ?es] exI [of _ i]) (use i none in simp)
    ultimately show ?thesis by simp
  qed
qed

lemma read_block_cached_at:
  assumes "cached fs n b" and "length b = bsize fs" and "length buf = bsize fs"
  shows "\<exists>fs'. read_block_cached dev n buf fs = Some (b, fs')"
proof -
  from assms(1) obtain c i where c: "e2_disk_cache fs = Some c" "i < length c" "ce_block_no (c ! i) = n" "ce_block (c ! i) = b"
    "\<forall>j < i. ce_block_no (c ! j) \<noteq> n" by (auto simp: cached_def)
  then have "cache_find fs n = Some (Inl i)" using cache_scan_at [OF c(2,3,5), of 0] by (simp add: cache_find_def)
  then show ?thesis using c(1,2,4) assms(2,3)
    by (simp add: read_block_cached_def cache_at_def set_entry_def get_cache_time_def upd_def slice_bytes_in put_bytes_in patch_all)
qed

subsection \<open>Properties\<close>

text \<open>
  C20: With the cache a block that was written reads back: from the cache that mounting makes, after any reads,
  writes and syncs, a write of block \<open>n\<close> that returns puts its bytes where the next read of \<open>n\<close> finds them. But it
  never marks the entry, so nothing that was written ever reaches the device, neither when its entry is
  replaced nor when the file system is synced: the device keeps the content it was mounted with.
\<close>

theorem ext2_cached_writes_stay_in_cache:
  assumes "make_cache fs0 = Some fs" and "e2_flags fs0 AND EXT2_FLAG_NOCACHE = 0" and "only_reads dev content"
    and "(cache_step dev)\<^sup>*\<^sup>* fs fs1"
    and "write_block dev n buf fs1 = Some (0, fs2)" and "length buf = bsize fs1" and "length buf' = bsize fs1"
  shows "\<exists>fs3. read_block dev n buf' fs2 = Some (0, buf, fs3) \<and>
    content (e2_device fs3) = content (e2_device fs0) \<and>
    (\<forall>fs4. (cache_step dev)\<^sup>*\<^sup>* fs2 fs4 \<longrightarrow> content (e2_device fs4) = content (e2_device fs0))"
proof -
  let ?C = "content (e2_device fs0)"
  have c0: "clean content ?C fs" by (rule clean_make_cache [OF assms(1,2)])
  note kept = clean_steps [OF _ assms(3)]
  have c1: "clean content ?C fs1" by (rule kept [OF assms(4) c0])
  have c2: "clean content ?C fs2" by (rule clean_step [OF cached_write [OF assms(5)] assms(3) c1])
  from clean_cache [OF c1] assms(5) obtain f where f: "n \<noteq> 0" "write_block_cached dev n buf (unlock_fs fs1) = Some f" "fs2 = unlock_fs f"
    by (auto simp: write_block_def Let_def unlock_fs_def split: if_splits Option.bind_splits)
  have "cached f n buf \<and> bsize f = bsize fs1"
    using write_block_cached_at [OF f(2), of content ?C] c1 assms(6) by (simp add: unlock_fs_def)
  then have "cached (fs2\<lparr>e2_lock := l\<rparr>) n buf" "bsize (fs2\<lparr>e2_lock := l\<rparr>) = bsize fs1" for l
    by (simp_all add: cached_def f(3) unlock_fs_def)
  moreover obtain l where "acquire (e2_lock fs2) = Some l"
    by (simp add: f(3) unlock_fs_def spinlock_unlock_def acquire_def spinlock_defs)
  ultimately obtain fs3 where r: "read_block_cached dev n buf' (fs2\<lparr>e2_lock := l\<rparr>) = Some (buf, fs3)"
    "lock_fs fs2 = Some (fs2\<lparr>e2_lock := l\<rparr>)"
    using read_block_cached_at [of "fs2\<lparr>e2_lock := l\<rparr>" n buf buf' dev] assms(6,7) by (auto simp: lock_fs_def)
  then have rd: "read_block dev n buf' fs2 = Some (0, buf, unlock_fs fs3)"
    using f(1) clean_cache [OF c2] by (auto simp: read_block_def)
  from kept [OF r_into_rtranclp, OF cached_read, OF rd c2] kept [OF _ c2] rd show ?thesis
    by (auto simp: clean_def)
qed

lemma ramdisk_only_reads: "only_reads ramdisk_create (\<lambda>m. m)"
  by (auto simp: only_reads_def read_fs_def ramdisk_create_def ramdisk_read_def Let_def put_bytes_length
      split: if_splits Option.bind_splits)

lemma cache_scan_replicate:
  "ce_block_no e \<noteq> n \<Longrightarrow> \<not> ce_last_use e < age \<Longrightarrow> cache_scan n k (replicate m e) old age = Inr old"
  by (induction m arbitrary: k) simp_all

lemma cache_scan_empty: "0 < m \<Longrightarrow> n \<noteq> 0 \<Longrightarrow> cache_scan n 0 (empty_cache m bs) (-1) (-1) = Inr 0"
  by (cases m) (simp_all add: empty_cache_def cache_scan_replicate word_gt_0)

text \<open>The file system \<open>small_fs\<close> mounted with a cache.\<close>

definition cached_fs :: "u8 list ext2_fs" where
  "cached_fs = small_fs\<lparr>e2_flags := 0, e2_disk_cache := Some (empty_cache 1024 1024)\<rparr>"

lemma cached_fs_mounted: "make_cache (small_fs\<lparr>e2_flags := 0\<rparr>) = Some cached_fs"
  by (simp add: make_cache_def cached_fs_def small_fs_def must_alloc_def alloc_def Let_def word_less_nat_alt)

lemma cached_fs_write: "\<exists>fs. write_block ramdisk_create 3 (replicate 1024 7) cached_fs = Some (0, fs)"
  using cache_scan_empty [of 1024 3 1024]
  by (simp add: write_block_def write_block_cached_def cached_fs_def small_fs_def unlock_fs_def cache_find_def cache_victim_def
      cache_at_def set_entry_def get_cache_time_def slice_bytes_in put_bytes_in upd_def) (simp add: empty_cache_def put_bytes_in)

theorem ext2_cached_writes_stay_in_cache_witness:
  "\<exists>fs fs2 fs3. make_cache (small_fs\<lparr>e2_flags := 0\<rparr>) = Some fs \<and>
    write_block ramdisk_create 3 (replicate 1024 7) fs = Some (0, fs2) \<and>
    read_block ramdisk_create 3 (replicate 1024 9) fs2 = Some (0, replicate 1024 7, fs3) \<and>
    e2_device fs3 = replicate 4096 0"
proof -
  from cached_fs_write obtain fs2 where w: "write_block ramdisk_create 3 (replicate 1024 7) cached_fs = Some (0, fs2)" by blast
  have "e2_flags (small_fs\<lparr>e2_flags := 0\<rparr>) AND EXT2_FLAG_NOCACHE = 0" "bsize cached_fs = 1024"
    "e2_device (small_fs\<lparr>e2_flags := 0\<rparr>) = replicate 4096 0"
    by (simp_all add: cached_fs_def small_fs_def)
  then show ?thesis
    using ext2_cached_writes_stay_in_cache [OF cached_fs_mounted _ ramdisk_only_reads rtranclp.rtrancl_refl w, of "replicate 1024 9"]
      cached_fs_mounted w by fastforce
qed

end
