(* ===== verification/Ext2_Lookup.thy ===== *)
theory Ext2_Lookup
  imports Ext2_Read Ext2_Create
begin

text \<open>
  What a lookup in a directory finds. The directories here have one block, which a list of entries fills.
\<close>

subsection \<open>The entries of a block\<close>

text \<open>The number of the inode, the name, the type, and what the entry is longer than its name.\<close>

datatype dir_entry = Dir_entry (de_ino: u32) (de_name: "u8 list") (de_type: u8) (de_pad: "u8 list")

definition entry_size :: "dir_entry \<Rightarrow> nat" where
  "entry_size e = 8 + length (de_name e) + length (de_pad e)"

definition entry_bytes :: "dir_entry \<Rightarrow> u8 list" where
  "entry_bytes e = STORE32LE (de_ino e) @ STORE16LE (of_nat (entry_size e)) @
     [of_nat (length (de_name e)), de_type e] @ de_name e @ de_pad e"

definition entry_ok :: "dir_entry \<Rightarrow> bool" where
  "entry_ok e \<longleftrightarrow> length (de_name e) < 256 \<and> 0 \<notin> list.set (de_name e) \<and> entry_size e < 2 ^ 16"

definition dir_bytes :: "dir_entry list \<Rightarrow> u8 list" where
  "dir_bytes es = concat (map entry_bytes es)"

text \<open>The first entry in use that has the name, with its offset, or the end.\<close>

fun find_entry :: "cstring \<Rightarrow> nat \<Rightarrow> dir_entry list \<Rightarrow> dir_entry option \<times> nat" where
  "find_entry nm off [] = (None, off)"
| "find_entry nm off (e # es) =
     (if de_ino e \<noteq> 0 \<and> de_name e = nm then (Some e, off) else find_entry nm (off + entry_size e) es)"

lemma length_STORE16LE [simp]: "length (STORE16LE v) = 2"
  by (simp add: STORE16LE_def)

lemma LOAD16LE_STORE16LE [simp]: "LOAD16LE (STORE16LE v) = v"
  by (rule bit_word_eqI) (auto simp: LOAD16LE_def STORE16LE_def bit_or_iff bit_push_bit_iff bit_ucast_iff bit_drop_bit_eq)

lemma length_entry_bytes [simp]: "length (entry_bytes e) = entry_size e"
  by (simp add: entry_bytes_def entry_size_def)

lemma length_dir_bytes: "length (dir_bytes es) = sum_list (map entry_size es)"
  by (simp add: dir_bytes_def length_concat comp_def)

lemma dir_bytes_simps [simp]: "dir_bytes [] = []" "dir_bytes (e # es) = entry_bytes e @ dir_bytes es"
  by (simp_all add: dir_bytes_def)

text \<open>The fields of an entry behind \<open>pre\<close>.\<close>

lemma slice_behind: "slice_bytes (pre @ a @ post) (length pre + off) n = slice_bytes (a @ post) off n"
  by (simp add: slice_bytes_def)

lemma idx_behind: "idx (pre @ a) (length pre + i) = idx a i"
  by (simp add: idx_def nth_append)

lemma slice_entry:
  "slice_bytes (entry_bytes e @ post) DE_inode 4 = Some (STORE32LE (de_ino e))"
  "slice_bytes (entry_bytes e @ post) DE_rec_len 2 = Some (STORE16LE (of_nat (entry_size e)))"
  "idx (entry_bytes e @ post) DE_name_len = Some (of_nat (length (de_name e)))"
  "slice_bytes (entry_bytes e @ post) DE_sizeof (length (de_name e)) = Some (de_name e)"
  by (simp_all add: slice_bytes_def entry_bytes_def entry_size_def dirent_layout idx_def nth_append)

lemma entry_at:
  assumes "dp_block p = pre @ entry_bytes e @ post" and "unat (dp_offset p) = length pre"
  shows "dir_ino p = Some (de_ino e)" "dir_rec_len p = Some (of_nat (entry_size e))"
    "dir_name_len p = Some (of_nat (length (de_name e)))" "dir_name p (length (de_name e)) = Some (de_name e)"
  using slice_entry [of e post] assms
  by (simp_all add: dir_ino_def dir_rec_len_def dir_name_len_def dir_name_def get32_def get16_def slice_behind idx_behind)

subsection \<open>The walk\<close>

lemma must_alloc_plain: "e2_plan fs = [] \<Longrightarrow> \<exists>m. must_alloc n fs = Some (m, fs)"
  by (cases fs) (auto simp: must_alloc_def alloc_def)

lemma name_matches:
  assumes "0 \<notin> list.set n" and "0 \<notin> list.set nm"
  shows "strcmp (takeWhile (\<lambda>c. c \<noteq> 0) n) nm = 0 \<longleftrightarrow> n = nm"
proof -
  have "takeWhile (\<lambda>c. c \<noteq> 0) n = n" using assms(1) by (intro takeWhile_eq_all_conv [THEN iffD2]) auto
  then show ?thesis using strcmp_eq_0_iff [OF assms] by (simp only:)
qed

lemma dir_scan_entries:
  assumes "e2_plan fs = []" and "0 \<notin> list.set nm" and "list_all entry_ok es"
    and "dp_block p = pre @ dir_bytes es" and "length pre + length (dir_bytes es) = bsize fs"
    and "dp_offset p = of_nat (length pre)" and "dp_total p = of_nat (length pre)" and "find_entry nm (length pre) es = (r, q)"
  shows "dir_scan dev inode nm (e2_block_size fs) p fs = Some (r \<noteq> None, p\<lparr>dp_offset := of_nat q, dp_total := of_nat q\<rparr>, fs)"
  using assms(3-)
proof (induction es arbitrary: pre p)
  case Nil
  then have q: "r = None" "q = bsize fs" and p: "dp_offset p = e2_block_size fs" "dp_total p = e2_block_size fs" by simp_all
  have "of_nat q = e2_block_size fs" by (simp add: q)
  then show ?case using q(1) p by (subst dir_scan.simps) (cases p; simp)
next
  case (Cons e es)
  have lim: "length pre + entry_size e + length (dir_bytes es) = bsize fs" "entry_ok e" using Cons.prems by simp_all
  have b32: "bsize fs < 2 ^ 32" using unsigned_less [of "e2_block_size fs"] by simp
  have "8 \<le> entry_size e" by (simp add: entry_size_def)
  then have pre: "length pre < bsize fs" "length pre < 2 ^ 32" using lim b32 by linarith+
  then have off: "unat (dp_offset p) = length pre" "unat (dp_total p) = length pre"
    using Cons.prems by (simp_all add: unsigned_of_nat take_bit_nat_eq_self)
  then have in_block: "dp_total p < e2_block_size fs" "dir_next_block dev inode p fs = Some (p, fs)"
    using pre by (simp_all add: word_less_nat_alt dir_next_block_def word_le_nat_alt)
  have at: "dp_block p = pre @ entry_bytes e @ dir_bytes es" using Cons.prems by simp
  note fields = entry_at [OF at off(1)]
  have len: "unat (of_nat (length (de_name e)) :: u8) = length (de_name e)" "unat (of_nat (entry_size e) :: u16) = entry_size e"
    using lim(2) by (simp_all add: entry_ok_def unsigned_of_nat take_bit_nat_eq_self)
  have skip: "ucast (of_nat (entry_size e) :: u16) = (of_nat (entry_size e) :: u32)"
    using len(2) by (metis of_nat_unat)
  let ?p = "dir_skip (of_nat (entry_size e)) p"
  have "find_entry nm (length (pre @ entry_bytes e)) es = (r, q)" if "\<not> (de_ino e \<noteq> 0 \<and> de_name e = nm)"
    using Cons.prems(6) that by (simp split: if_splits)
  then have rest: "dir_scan dev inode nm (e2_block_size fs) ?p fs = Some (r \<noteq> None, p\<lparr>dp_offset := of_nat q, dp_total := of_nat q\<rparr>, fs)"
    if "\<not> (de_ino e \<noteq> 0 \<and> de_name e = nm)"
    using Cons.IH [of ?p "pre @ entry_bytes e"] Cons.prems lim that by (simp add: dir_skip_def)
  obtain m where m: "must_alloc (length (de_name e) + 1) fs = Some (m, fs)" using must_alloc_plain [OF assms(1)] by blast
  have match: "strcmp (takeWhile (\<lambda>c. c \<noteq> 0) (de_name e)) nm = 0 \<longleftrightarrow> de_name e = nm"
    using name_matches lim(2) assms(2) by (simp add: entry_ok_def)
  show ?case
  proof (cases "de_ino e \<noteq> 0 \<and> de_name e = nm")
    case True
    then have "r = Some e" "q = length pre" using Cons.prems(6) by auto
    then show ?thesis using True in_block fields len m match Cons.prems(4,5)
      by (subst dir_scan.simps) (cases p; simp)
  next
    case False
    then show ?thesis using rest [OF False] in_block fields len m match skip
      by (subst dir_scan.simps) (auto simp: Let_def)
  qed
qed

lemma find_entry_Some:
  assumes "find_entry nm off es = (Some e, q)"
  obtains xs ys where "es = xs @ e # ys" "q = off + length (dir_bytes xs)" "de_name e = nm" "de_ino e \<noteq> 0"
proof -
  have "\<exists>xs ys. es = xs @ e # ys \<and> q = off + length (dir_bytes xs) \<and> de_name e = nm \<and> de_ino e \<noteq> 0"
    using assms
  proof (induction es arbitrary: off)
    case (Cons x es)
    show ?case
    proof (cases "de_ino x \<noteq> 0 \<and> de_name x = nm")
      case True
      then have "x # es = [] @ e # es \<and> q = off + length (dir_bytes []) \<and> de_name e = nm \<and> de_ino e \<noteq> 0"
        using Cons.prems by auto
      then show ?thesis by blast
    next
      case False
      then have "find_entry nm (off + entry_size x) es = (Some e, q)" using Cons.prems by (simp split: if_splits)
      from Cons.IH [OF this] obtain xs ys where "es = xs @ e # ys" "q = off + entry_size x + length (dir_bytes xs)"
        "de_name e = nm" "de_ino e \<noteq> 0" by blast
      then have "x # es = (x # xs) @ e # ys \<and> q = off + length (dir_bytes (x # xs)) \<and> de_name e = nm \<and> de_ino e \<noteq> 0" by simp
      then show ?thesis by blast
    qed
  qed simp
  then show thesis using that by blast
qed

lemma dir_bytes_append [simp]: "dir_bytes (xs @ ys) = dir_bytes xs @ dir_bytes ys"
  by (simp add: dir_bytes_def)

lemma get16_in: "off + 2 \<le> length m \<Longrightarrow> \<exists>v. get16 m off = Some v"
  by (simp add: get16_def slice_bytes_in)

text \<open>The node of an entry: its number and name, and the fields of the inode.\<close>

lemma node_from_entry:
  assumes "128 \<le> length inode" and "entry_ok e"
  shows "\<exists>nd. node_from_file inode (entry_bytes e) = Some nd \<and> en_inode nd = de_ino e \<and> en_name nd = de_name e \<and>
    get32 inode IN_size = Some (en_length nd)"
proof -
  have "get32 (entry_bytes e) DE_inode = Some (de_ino e)" using slice_entry(1) [of e "[]"] by (simp add: get32_def)
  moreover have "idx (entry_bytes e) DE_name_len = Some (of_nat (length (de_name e)))" using slice_entry(3) [of e "[]"] by simp
  moreover have "slice_bytes (entry_bytes e) DE_sizeof (length (de_name e)) = Some (de_name e)" using slice_entry(4) [of e "[]"] by simp
  moreover have "unat (of_nat (length (de_name e)) :: u8) = length (de_name e)"
    using assms(2) by (simp add: entry_ok_def unsigned_of_nat take_bit_nat_eq_self)
  ultimately show ?thesis using assms(1)
    by (simp add: node_from_file_def inode_fields_def cleared_node_def get16_def get32_def slice_bytes_in inode_layout)
qed

context disk
begin

lemma dir_find_entries:
  assumes p: "fs_plain ok fs" and P: "4 * unat (e2_pointers_per_block fs) = bsize fs"
    and f: "file_ok fs (content (e2_device fs)) inode n" "0 < n" "get32 inode IN_size = Some (e2_block_size fs)"
    and es: "file_block fs (content (e2_device fs)) inode 0 = dir_bytes es" "list_all entry_ok es" "0 \<notin> list.set nm"
    and r: "find_entry nm 0 es = (r, q)"
  shows "\<exists>p f. dir_find dev inode nm fs = Some (r \<noteq> None, p, f) \<and> changed ok content fs (content (e2_device fs)) f \<and>
    dp_block p = dir_bytes es \<and> dp_offset p = of_nat q"
proof -
  let ?C = "content (e2_device fs)" and ?tmp = "map (e2_junk fs) [0..<bsize fs]"
  from inode_read_block_plain [OF p P f(1), of 0 ?tmp] f(2) es(1) obtain b g where
    g: "inode_read_block dev inode 0 ?tmp fs = Some (b, dir_bytes es, g)" "changed ok content fs ?C g" by auto
  note c = changed_dest [OF g(2)]
  have "length (dir_bytes es) = bsize fs" using length_file_block [OF f(1,2)] es(1) by simp
  then have "dir_scan dev inode nm (e2_block_size g) \<lparr>dp_block = dir_bytes es, dp_block_nr = 0, dp_offset = 0, dp_total = 0\<rparr> g =
      Some (r \<noteq> None, \<lparr>dp_block = dir_bytes es, dp_block_nr = 0, dp_offset = of_nat q, dp_total = of_nat q\<rparr>, g)"
    using p es r c by (subst dir_scan_entries [where pre = "[]" and es = es and r = r and q = q]) (simp_all add: fs_plain_def)
  then show ?thesis using g f(3) c plain_alloc(2) [OF p] by (simp add: dir_find_def dir_start_def)
qed

end

subsection \<open>Properties\<close>

text \<open>
  C19: A lookup in a directory of one block finds the first entry in use that has the name: on every device that
  keeps whole sectors, when the entries fill the block and their inodes lie in the table, \<open>finddir_ext2\<close>
  returns, with no node when there is no such entry, and else with the node of its inode, which has the
  number of the entry, the name that was looked up and the size of the file. Freed entries are passed over,
  whatever their names, and the device is left as it was.
\<close>

theorem finddir_ext2_finds:
  assumes "disk dev content ok sector" and "fs_plain ok fs" and "table_ok fs" and "4 * unat (e2_pointers_per_block fs) = bsize fs"
    and "inode_slot fs node = Some pos" and "slot_ok fs (length (content (e2_device fs))) pos"
    and "inode = range_of (content (e2_device fs)) pos (unat (e2_inode_size fs))"
    and "file_ok fs (content (e2_device fs)) inode n" and "0 < n" and "get32 inode IN_size = Some (e2_block_size fs)"
    and "file_block fs (content (e2_device fs)) inode 0 = dir_bytes es" and "list_all entry_ok es" and "0 \<notin> list.set nm"
    and "\<forall>e \<in> list.set es. \<exists>q. de_ino e = 0 \<or> inode_slot fs (de_ino e) = Some q \<and> slot_ok fs (length (content (e2_device fs))) q"
  shows "\<exists>r fs'. finddir_ext2 dev node nm fs = Some (r, fs') \<and> content (e2_device fs') = content (e2_device fs) \<and>
    (case fst (find_entry nm 0 es) of
       None \<Rightarrow> r = None
     | Some e \<Rightarrow> \<exists>nd q. r = Some nd \<and> en_inode nd = de_ino e \<and> en_name nd = nm \<and> inode_slot fs (de_ino e) = Some q \<and>
         get32 (range_of (content (e2_device fs)) q (unat (e2_inode_size fs))) IN_size = Some (en_length nd))"
proof -
  let ?C = "content (e2_device fs)"
  from disk.read_inode_slot [OF assms(1-3,5,6)] obtain f where
    f: "read_inode dev node fs = Some (inode, f)" "changed ok content fs ?C f" unfolding assms(7) by blast
  note c = changed_dest [OF f(2)] and cf = changed_file [OF f(2)]
  obtain r q where r: "find_entry nm 0 es = (r, q)" by fastforce
  from disk.dir_find_entries [OF assms(1) c(14) [OF assms(2)] _ _ assms(9) _ _ assms(12,13) r, of inode] assms(4,8,10,11)
  obtain p g where g: "dir_find dev inode nm f = Some (r \<noteq> None, p, g)" "changed ok content f ?C g"
    "dp_block p = dir_bytes es" "dp_offset p = of_nat q" by (auto simp: c cf)
  have g': "changed ok content fs ?C g" by (rule changed_trans [OF f(2) g(2)])
  note c' = changed_dest [OF g']
  show ?thesis
  proof (cases r)
    case None
    then show ?thesis using f(1) g(1) r c' by (simp add: finddir_ext2_def)
  next
    case (Some e)
    from find_entry_Some [OF r [unfolded Some]] obtain xs ys where
      e: "es = xs @ e # ys" "q = length (dir_bytes xs)" "de_name e = nm" "de_ino e \<noteq> 0" by auto
    have at: "dp_block p = dir_bytes xs @ entry_bytes e @ dir_bytes ys" using g(3) e(1) by simp
    have ok: "entry_ok e" using assms(12) e(1) by simp
    have "length (dir_bytes es) < 2 ^ 32"
      using length_file_block [OF assms(8,9)] assms(11) unsigned_less [of "e2_block_size fs"] by simp
    then have off: "unat (dp_offset p) = length (dir_bytes xs)"
      using g(4) e(1,2) by (simp add: unsigned_of_nat take_bit_nat_eq_self)
    have len: "dir_rec_len p = Some (of_nat (entry_size e))" "unat (of_nat (entry_size e) :: u16) = entry_size e"
      using entry_at(2) [OF at off] ok by (simp_all add: entry_ok_def unsigned_of_nat take_bit_nat_eq_self)
    have bytes: "slice_bytes (dp_block p) (unat (dp_offset p)) (entry_size e) = Some (entry_bytes e)"
      using slice_behind [of "dir_bytes xs" "entry_bytes e" "dir_bytes ys" 0] at off by (simp add: slice_bytes_def)
    have num: "get32 (entry_bytes e) DE_inode = Some (de_ino e)" using slice_entry(1) [of e "[]"] by (simp add: get32_def)
    have pg: "fs_plain ok g" by (rule c'(14) [OF assms(2)])
    then have "e2_plan g = []" by (simp add: fs_plain_def)
    note mem = must_alloc_plain [OF this]
    obtain m where m: "inode_slot fs (de_ino e) = Some m" "slot_ok fs (length ?C) m" using assms(14) e(1,4) by force
    let ?inode = "range_of ?C m (unat (e2_inode_size fs))"
    from disk.read_inode_slot [OF assms(1) pg, of "de_ino e" m] obtain h where
      h: "read_inode dev (de_ino e) g = Some (?inode, h)" "changed ok content g ?C h"
      using m assms(3) by (auto simp: changed_slots [OF g'] c')
    have "128 \<le> length ?inode" using m(2) assms(3) by (simp add: slot_ok_def table_ok_def word_le_nat_alt)
    from node_from_entry [OF this ok] obtain nd where
      nd: "node_from_file ?inode (entry_bytes e) = Some nd" "en_inode nd = de_ino e" "en_name nd = de_name e"
        "get32 ?inode IN_size = Some (en_length nd)" by blast
    obtain m1 m2 where "must_alloc (entry_size e) g = Some (m1, g)" "must_alloc 1 g = Some (m2, g)" using mem by blast
    then have "finddir_ext2 dev node nm fs = Some (Some nd, h)"
      using f(1) g(1) Some len bytes num h(1) nd(1) by (simp add: finddir_ext2_def)
    then show ?thesis using r Some m(1) nd e(3) changed_dest(1) [OF h(2)] by auto
  qed
qed

text \<open>A directory with a freed entry and one of a file with 7 bytes, both with the name ab.\<close>

definition two_entries :: "dir_entry list" where
  "two_entries = [Dir_entry 0 [97, 98] 1 [0, 0], Dir_entry 5 [97, 98] 1 (replicate 1002 0)]"

definition two_inode :: "u8 list" where
  "two_inode = replicate 4 0 @ [0, 4, 0, 0] @ replicate 20 0 @ [2, 0, 0, 0] @ replicate 8 0 @ [3, 0, 0, 0] @ replicate 84 0"

definition seven_inode :: "u8 list" where
  "seven_inode = replicate 4 0 @ [7, 0, 0, 0] @ replicate 120 0"

definition two_disk :: "u8 list" where
  "two_disk = replicate 2304 0 @ two_inode @ replicate 128 0 @ seven_inode @ replicate 384 0 @ dir_bytes two_entries"

definition two_fs :: "u8 list ext2_fs" where
  "two_fs = small_fs\<lparr>e2_device := two_disk\<rparr>"

lemma two_fields:
  "length two_inode = 128" "length seven_inode = 128" "length (dir_bytes two_entries) = 1024" "length two_disk = 4096"
  "get32 two_inode IN_size = Some 1024" "get32 two_inode IN_blocks = Some 2" "get_ptr two_inode 0 = Some 3"
  "get32 seven_inode IN_size = Some 7"
  by (simp_all add: two_disk_def two_inode_def seven_inode_def two_entries_def length_dir_bytes entry_size_def get_ptr_def
      get32_def slice_bytes_def LOAD32LE_def inode_layout)

lemma two_ranges:
  "range_of two_disk 2304 128 = two_inode" "range_of two_disk 2560 128 = seven_inode" "blk two_disk 1024 3 = dir_bytes two_entries"
  using two_fields(1-3) by (simp_all add: two_disk_def range_of_def blk_def)

lemma two_device: "e2_device two_fs = two_disk"
  by (simp add: two_fs_def)

lemma two_slots:
  "inode_slot two_fs 3 = Some 2304" "inode_slot two_fs 5 = Some 2560" "slot_ok two_fs (length (e2_device two_fs)) 2304"
  "slot_ok two_fs (length (e2_device two_fs)) 2560" "two_inode = range_of (e2_device two_fs) 2304 (unat (e2_inode_size two_fs))"
proof -
  have "bgd32 two_fs 0 BGD_inode_table = Some 2" using small_fs_table by (simp add: bgd32_def two_fs_def)
  then show "inode_slot two_fs 3 = Some 2304" "inode_slot two_fs 5 = Some 2560" "slot_ok two_fs (length (e2_device two_fs)) 2304"
    "slot_ok two_fs (length (e2_device two_fs)) 2560" "two_inode = range_of (e2_device two_fs) 2304 (unat (e2_inode_size two_fs))"
    using two_fields(4) two_ranges(1) by (simp_all add: inode_slot_def slot_ok_def two_fs_def small_fs_def)
qed

lemma two_file:
  "file_ok two_fs (e2_device two_fs) two_inode 1" "file_block two_fs (e2_device two_fs) two_inode 0 = dir_bytes two_entries"
proof -
  have "block_at two_fs two_disk two_inode 0 = Some 3" "bsize two_fs = 1024"
    using two_fields(7) by (simp_all add: block_at_def block_path_def EXT2_DIRECT_BLOCKS_def two_fs_def small_fs_def)
  then show "file_ok two_fs (e2_device two_fs) two_inode 1"
      "file_block two_fs (e2_device two_fs) two_inode 0 = dir_bytes two_entries"
    using two_fields two_ranges(3)
    by (simp_all add: file_ok_def file_blocks_def on_disk_def file_block_def two_fs_def small_fs_def)
qed

theorem finddir_ext2_finds_witness:
  "\<exists>nd fs'. finddir_ext2 ramdisk_create 3 [97, 98] two_fs = Some (Some nd, fs') \<and>
    en_inode nd = 5 \<and> en_name nd = [97, 98] \<and> en_length nd = 7"
proof -
  have a: "fs_plain ramdisk_ok two_fs" "table_ok two_fs" "4 * unat (e2_pointers_per_block two_fs) = bsize two_fs"
    using two_fields(4) by (simp_all add: fs_plain_def ramdisk_ok_def table_ok_def two_fs_def small_fs_def)
  have b: "(0::nat) < 1" "get32 two_inode IN_size = Some (e2_block_size two_fs)"
    using two_fields(5) by (simp_all add: two_fs_def small_fs_def)
  have c: "list_all entry_ok two_entries" "0 \<notin> list.set [97, 98 :: u8]"
    "\<forall>e \<in> list.set two_entries. \<exists>q. de_ino e = 0 \<or> inode_slot two_fs (de_ino e) = Some q \<and> slot_ok two_fs (length (e2_device two_fs)) q"
    using two_slots(2,4) by (auto simp: two_entries_def entry_ok_def entry_size_def)
  have "find_entry [97, 98] 0 two_entries = (Some (two_entries ! 1), 12)" "de_ino (two_entries ! 1) = 5"
    by (simp_all add: two_entries_def entry_size_def)
  moreover have "e2_inode_size two_fs = 128" by (simp add: two_fs_def small_fs_def)
  ultimately show ?thesis
    using finddir_ext2_finds [OF ramdisk.disk_axioms a two_slots(1,3,5) two_file(1) b two_file(2) c]
      two_slots(2) two_ranges(2) two_fields(8) two_device by auto
qed

end
