(* ===== verification/Spec2Isabelle.thy ===== *)
theory Spec2Isabelle
  imports Kheap Mpint Mpint_Val Mpint_Arith Mpint_Shift Mpint_Mul Mpint_Div Mpint_Bytes Mpint_Props
    Crypto_Util Aes Aes_Tables Aes_Props Klist Klist_Props Ktree Ktree_Props Bitset Spinlock Sched
    Sched_Props Vfs_Node Process Process_Props Hashmap Sha2 Sha2_Props Hmac
    Gui_Rect Gui_Context Gui_Props Vfs_Path Vfs_Mount Vfs_Open Oid Asn1 Qsort Link Blockdev
    Ext2_Disk Ext2_Inode Ext2_File Ext2_Dir Ext2_Create Ext2_Blocks Ext2_Table Ext2_Map Ext2_Read Ext2_Cache Ext2_Lookup
begin

text \<open>
  A verification library for the OS6 kernel: the parts of kernel/src that carry its own logic, and the
  routines of libk/src they rest on, translated function by function, with the theorems that make
  them correct. Every definition has the name of the C function, type or constant it models; pieces
  of a long function (a loop, a branch) have names of their own and stand in front of it.

  \<^bold>\<open>Conventions.\<close> Machine integers are words of their C width (\<open>u8\<close> to \<open>u64\<close>), or integers and
  naturals where no operation can leave the range, or where leaving it is spelled out. A function into
  \<open>option\<close> gives \<open>None\<close> when the C code has no defined result: a null pointer is followed, an array is
  left, a signed sum overflows, or the call never returns. Error codes are ordinary values, so
  every error return is a branch of the model. Sizes and positions the C code adds in a \<open>size_t\<close> wrap where
  the sum decides about a bound. Objects that are shared through pointers live in
  explicit stores, maps from addresses to records; everything else is passed as a value. A call of
  \<open>malloc\<close> is a parameter that picks the address, or a plan of answers (\<open>Alloc_Plan\<close>), so that a failed
  allocation is a case of its own; the table of open files has one answer for each of its three
  \<open>realloc\<close>s (\<open>reallocs\<close>). Code behind a function pointer is a parameter of the definitions
  that call it. Loops are recursive functions with their termination proof, or fuel.

  \<^bold>\<open>Memory.\<close> A physical frame comes from the bitmap, a page of the address space is mapped on a
  frame, and the heap grows by such pages.
  \<^item> \<open>Mm_Bitmap\<close> (mm/mm_bitmap.c) and \<open>Phys_Mem\<close> (mm/phys_mem.c): the bitmap of frames. The locale
    \<open>frame_map\<close> states what a map of frames promises, and is interpreted on the bitmap; \<open>frame_source\<close>
    is the contract of an allocator of frames, interpreted on \<open>phys_mem_alloc_block\<close>.
  \<^item> \<open>Page_Entry\<close> and \<open>Virt_Mem\<close> (mm/virt_mem.c): page table entries as words, the four levels of tables as
    a memory of tables, mapping and translation. \<open>page_source\<close> extends \<open>frame_source\<close> by mapping and is
    interpreted on the virtual memory manager.
  \<^item> \<open>Kheap\<close> (mm/kheap.c): the region table as a list of regions; \<open>kheap_ok\<close> says that the used entries
    tile the heap. \<open>kmalloc\<close> calls itself once more after growing the heap, and a second growth is never
    needed, which is part of \<open>kmalloc_correct\<close>.

  \<^bold>\<open>Containers.\<close>
  \<^item> \<open>Klist\<close>, \<open>Klist_Props\<close> (util/list.c): nodes in a heap, \<open>list_rep\<close> relates a list header to the sequence
    of its nodes; the locale \<open>fifo_queue\<close> is interpreted here and on the ready queue of the scheduler.
  \<^item> \<open>Ktree\<close>, \<open>Ktree_Props\<close> (util/tree.c), \<open>Link\<close> (util/link.c), \<open>Bitset\<close> (util/bitset.c).
  \<^item> \<open>Hashmap\<close> (util/hashmap.c, libk's strcmp): chained buckets; the locale \<open>hash_keys\<close> states what
    comparison, hash and copy of keys must satisfy, and is interpreted on both kinds of keys.
  \<^item> \<open>Qsort\<close> (libk stdlib/qsort.c, bsearch.c).

  \<^bold>\<open>Processes.\<close>
  \<^item> \<open>Spinlock\<close> (sync/spinlock.c): the steps of threads on one lock, as an inductive relation, and mutual
    exclusion for every interleaving.
  \<^item> \<open>Sched\<close>, \<open>Sched_Props\<close> (process/process.c, switch_task.asm): the ready and the sleeping queue, switching, sleeping and
    waking. \<open>Process\<close>, \<open>Process_Props\<close>: identifiers, file tables, fork, wait and reaping.
  \<^item> \<open>Vfs_Node\<close>: the reference counts of file nodes, which the processes use.

  \<^bold>\<open>Files.\<close>
  \<^item> \<open>Vfs_Path\<close>, \<open>Vfs_Mount\<close>, \<open>Vfs_Open\<close> (vfs/vfs.c, libk's strtok_r): canonical paths, the tree of mount
    points, and opening with symbolic links. At most \<open>MAX_SYMLINK_DEPTH\<close> = 8 links are followed, which
    is the number \<open>kopen_recur\<close> counts down; the last level has no recursive call any more.
  \<^item> \<open>Blockdev\<close> (drivers/blockdev.c): classes and instances of block devices, and reading and writing ranges
    of bytes sector by sector. The functions of a device are parameters; \<open>reads_sectors\<close> and
    \<open>writes_sectors\<close> say what is relied on.
  \<^item> \<open>Ext2_Disk\<close>, \<open>Ext2_Inode\<close>, \<open>Ext2_File\<close>, \<open>Ext2_Dir\<close>, \<open>Ext2_Create\<close> (vfs/ext2.c): the whole driver, bottom
    up: blocks and their cache; bitmaps, the inode table and the map from the blocks of a file to those
    of the disk; bytes of files; lookup, listing and unlinking; new files and mounting. The superblock,
    the descriptors, inodes and directory blocks are byte lists read at the offsets of the C structs,
    and memory from \<open>malloc\<close> holds arbitrary bytes (\<open>e2_junk\<close>). Walks over directories and growing a
    file need not end on a damaged disk and are \<open>partial_function\<close>s.
  \<^item> \<open>Ext2_Blocks\<close>: the locale \<open>disk\<close> is what the driver needs of its device, namely that ranges of whole
    sectors are read and written; it is interpreted on the RAM disk (drivers/ramdisk.c), and
    \<open>blockdev_disk\<close> shows it for the devices of \<open>Blockdev\<close>. \<open>Ext2_Table\<close>, \<open>Ext2_Map\<close>, \<open>Ext2_Read\<close> and
    \<open>Ext2_Lookup\<close> rest on it: inodes and block numbers are found again where they were stored, reading a
    file gives the bytes of its blocks, and a lookup finds the first entry in use with the name. They
    are about a file system mounted without the cache, as \<open>ext2_initialize\<close> does (\<open>fs_plain\<close>).
    \<open>Ext2_Cache\<close> is about the cache, as a relation of steps.

  \<^bold>\<open>Cryptography.\<close>
  \<^item> \<open>Crypto_Util\<close> (crypto_util.c, endian.c): rotations, byte and bit order. \<open>Aes\<close>, \<open>Aes_Tables\<close>, \<open>Aes_Props\<close>
    (cipher/aes.c): the cipher, its tables, decryption, and equivalence with the byte-wise standard.
  \<^item> \<open>Sha2\<close>, \<open>Sha2_Props\<close> (hash/sha256.c, util/sha512.c) and \<open>Hmac\<close> (mac/hmac.c): the locale \<open>hash_algo\<close> is the
    contract of a table of hash functions, interpreted on SHA-256 as it is.
  \<^item> \<open>Mpint\<close> and the theories that start with its name (mpint/mpint.c): big integers in a store of
    objects; \<open>mval\<close> is the value of an object. The loop of division runs the
    number of rounds the code computes; those of \<open>mpint_mod\<close>, of the inverse and of exponentiation take
    the number of rounds as fuel, and \<open>mpint_mod_correct\<close> says how much is enough.
  \<^item> \<open>Oid\<close>, \<open>Asn1\<close> (encoding/oid.c, asn1.c): object identifiers and the reader and the writer of objects.

  \<^bold>\<open>Graphics.\<close> \<open>Gui_Rect\<close> (gui/rect.c, gui_list.c), \<open>Gui_Context\<close> and \<open>Gui_Props\<close> (gui/context.c): rectangles,
  clipping and drawing; a clipping region is read as a set of points. Drawing clips to the region only, so
  a region that leaves the screen can make it write outside the frame buffer (\<open>None\<close>).

  \<^bold>\<open>The lemmas\<close> of a theory say, in this order, what each operation does on each of its branches, which
  invariant it keeps, and how it refines the abstract reading (a set of frames, a map, a sequence, a
  ring, a set of points, an integer). The numbered statements are the properties of the program; each
  one with hypotheses is followed by a theorem that applies it to a concrete input.

  \<^bold>\<open>Not modelled.\<close> Interrupt entry, descriptor tables, timers and other code whose effect is on
  processor or device registers (arch, acpi, pci, usb and most drivers); windows and the desktop, which
  are event handling over the drawing contexts; logging and debugging output; formatted output and
  floating point; program loading out of raw memory; the wide-character tables, which are generated
  data; the second C library, which repeats libk; the C++ run time and the test programs. Log messages
  inside modelled functions have no effect in the model.
\<close>

end
